(* ===== verification/Loc_Prelude.thy ===== *)
theory Loc_Prelude
  imports Main "HOL-Library.Word"
begin

text \<open>
  Shared vocabulary of the development: the machine integers of the sources as words, pointers
  that may be null as options, the collections of hints the component theories fill, runs of a
  component over a list of operations, and the contract under which the run of an implementation
  follows the run of its specification.
\<close>

unbundle bit_operations_syntax

section \<open>Types\<close>

type_synonym u32 = "32 word"
type_synonym u64 = "64 word"
type_synonym addr = nat
type_synonym ptr = "addr option"

section \<open>Collections of hints\<close>

text \<open>
  \<open>step_defs\<close> unfolds the handlers of a component, \<open>inv_simps\<close> holds the facts about its
  invariant that the simplifier should see.
\<close>

named_theorems step_defs "definitions of handlers and steps"
named_theorems inv_simps "facts about invariants"

section \<open>Words read as signed integers\<close>

text \<open>Sums and conversions of 64-bit words that do not overflow.\<close>

lemma sint_ucast_32_64: "sint (ucast (x :: u32) :: u64) = uint x"
proof -
  have "0 \<le> uint x" "uint x < 2 ^ 63" using uint_lt2p [of x] by simp_all
  then have "signed_take_bit 63 (uint x) = uint x" by (intro signed_take_bit_int_eq_self) linarith+
  then show ?thesis by (simp add: sint_uint uint_up_ucast is_up_def source_size target_size word_size)
qed

lemma sint_add_64: "0 \<le> sint (a::u64) + sint b \<Longrightarrow> sint a + sint b < 2^63 \<Longrightarrow> sint (a + b) = sint a + sint b"
  by (simp add: sint_word_add signed_take_bit_int_eq_self)

lemma sint_of_int_64: "0 \<le> k \<Longrightarrow> k < 2^63 \<Longrightarrow> sint (word_of_int k :: u64) = k"
  by (simp add: sint_sbintrunc' signed_take_bit_int_eq_self)

lemma unat_of_nat_small: "n < 2 ^ 32 \<Longrightarrow> unat (of_nat n :: u32) = n"
  by (simp add: unat_of_nat take_bit_nat_eq_self)

section \<open>Single bits\<close>

lemma and_push_bit_one: "w AND push_bit n 1 \<noteq> 0 \<longleftrightarrow> n < LENGTH('a) \<and> bit w n" for w :: "'a::len word"
proof -
  have "bit (w AND push_bit n 1) k \<longleftrightarrow> k = n \<and> n < LENGTH('a) \<and> bit w n" for k
    by (auto simp: bit_and_iff bit_exp_iff)
  then show ?thesis by (metis bit_0_eq bit_eqI bot_apply bot_bool_def)
qed

lemma and_push_bit_eq: "n < LENGTH('a) \<Longrightarrow> w AND push_bit n 1 = push_bit n 1 \<longleftrightarrow> bit w n" for w :: "'a::len word"
proof
  assume n: "n < LENGTH('a)" and "w AND push_bit n 1 = push_bit n 1"
  from arg_cong [OF this(2), of "\<lambda>x. bit x n"] n show "bit w n" by (simp add: bit_and_iff bit_exp_iff)
next
  assume "bit w n"
  then show "w AND push_bit n 1 = push_bit n 1" by (intro bit_word_eqI) (auto simp: bit_and_iff bit_exp_iff)
qed

section \<open>Switching\<close>

text \<open>A list of requests to switch something on and off in turn, from a state: the state at the end.\<close>

fun in_turn :: "bool \<Rightarrow> bool list \<Rightarrow> bool option" where
  "in_turn on [] = Some on"
| "in_turn on (b # bs) = (if b = on then None else in_turn b bs)"

lemma in_turn_append: "in_turn on (as @ bs) = Option.bind (in_turn on as) (\<lambda>on1. in_turn on1 bs)"
  by (induction as arbitrary: on) auto

section \<open>Runs of operations\<close>

text \<open>
  \<open>run_ops\<close> runs a partial step function over a list of operations and collects what each one
  returns; None is undefined behaviour or an operation that does not return. \<open>run_spec\<close> runs a
  specification. \<open>ops_ok\<close> says that every operation of a run meets its precondition in the state
  in which it starts.
\<close>

fun run_ops :: "('op \<Rightarrow> 's \<Rightarrow> ('o \<times> 's) option) \<Rightarrow> 'op list \<Rightarrow> 's \<Rightarrow> ('o list \<times> 's) option" where
  "run_ops step [] s = Some ([], s)"
| "run_ops step (x # xs) s =
     (case step x s of
        None \<Rightarrow> None
      | Some (out, s1) \<Rightarrow>
         (case run_ops step xs s1 of None \<Rightarrow> None | Some (outs, s2) \<Rightarrow> Some (out # outs, s2)))"

lemma run_ops_append:
  "run_ops step xs s = Some (os, s1) \<Longrightarrow> run_ops step ys s1 = Some (os', s2) \<Longrightarrow>
    run_ops step (xs @ ys) s = Some (os @ os', s2)"
  by (induction xs arbitrary: s os) (auto split: option.splits)

fun run_spec :: "('op \<Rightarrow> 'a \<Rightarrow> 'o \<times> 'a) \<Rightarrow> 'op list \<Rightarrow> 'a \<Rightarrow> 'o list \<times> 'a" where
  "run_spec spec [] a = ([], a)"
| "run_spec spec (x # xs) a =
     (let (out, a1) = spec x a; (outs, a2) = run_spec spec xs a1 in (out # outs, a2))"

fun ops_ok ::
  "('op \<Rightarrow> 's \<Rightarrow> bool) \<Rightarrow> ('op \<Rightarrow> 's \<Rightarrow> ('o \<times> 's) option) \<Rightarrow> 'op list \<Rightarrow> 's \<Rightarrow> bool" where
  "ops_ok ok step [] s \<longleftrightarrow> True"
| "ops_ok ok step (x # xs) s \<longleftrightarrow>
     ok x s \<and> (case step x s of None \<Rightarrow> True | Some (_, s1) \<Rightarrow> ops_ok ok step xs s1)"

text \<open>
  The contract of an implementation: in states related by \<open>rel\<close>, a step that meets its
  precondition is defined, returns what the specification returns and ends in related states.
\<close>

locale refinement =
  fixes rel :: "'s \<Rightarrow> 'a \<Rightarrow> bool"
    and ok :: "'op \<Rightarrow> 's \<Rightarrow> bool"
    and step :: "'op \<Rightarrow> 's \<Rightarrow> ('o \<times> 's) option"
    and spec :: "'op \<Rightarrow> 'a \<Rightarrow> 'o \<times> 'a"
  assumes step_refines:
    "rel s a \<Longrightarrow> ok x s \<Longrightarrow> \<exists>s'. step x s = Some (fst (spec x a), s') \<and> rel s' (snd (spec x a))"
begin

lemma run_refines:
  "rel s a \<Longrightarrow> ops_ok ok step xs s \<Longrightarrow>
     \<exists>s'. run_ops step xs s = Some (fst (run_spec spec xs a), s') \<and> rel s' (snd (run_spec spec xs a))"
proof (induction xs arbitrary: s a)
  case (Cons x xs)
  from Cons.prems(2) have "ok x s" by simp
  with Cons.prems(1) obtain s1 where s1: "step x s = Some (fst (spec x a), s1)" "rel s1 (snd (spec x a))"
    using step_refines by blast
  with Cons.prems(2) have "ops_ok ok step xs s1" by simp
  from Cons.IH [OF s1(2) this] s1(1) show ?case by (auto simp: split_beta Let_def)
qed simp

end

end
