(* ===== verification/Linked_List.thy ===== *)
theory Linked_List
  imports Loc_Prelude
begin

text \<open>
  The doubly linked list of gps/utils/linked_list.c, on an explicit memory: list elements and list
  states live at addresses, a pointer is an optional address, and freeing removes an address.
  An operation returns None where the C code would read or write an address that is not
  allocated (undefined behaviour), or where a pointer loop never ends. The result of malloc and
  calloc is an argument: None for NULL, or the address, which the theorems assume to be unused.
  The theorems show that on a well-formed list every operation is defined, keeps the list well
  formed, and acts on the sequence of its elements as the comments of linked_list.h promise.
\<close>

section \<open>Data\<close>

datatype linked_list_err_type =
    eLINKED_LIST_SUCCESS
  | eLINKED_LIST_FAILURE_GENERAL
  | eLINKED_LIST_INVALID_PARAMETER
  | eLINKED_LIST_INVALID_HANDLE
  | eLINKED_LIST_UNAVAILABLE_RESOURCE
  | eLINKED_LIST_INSUFFICIENT_BUFFER
  | eLINKED_LIST_EMPTY

fun linked_list_err_val :: "linked_list_err_type \<Rightarrow> int" where
  "linked_list_err_val eLINKED_LIST_SUCCESS = 0"
| "linked_list_err_val eLINKED_LIST_FAILURE_GENERAL = -1"
| "linked_list_err_val eLINKED_LIST_INVALID_PARAMETER = -2"
| "linked_list_err_val eLINKED_LIST_INVALID_HANDLE = -3"
| "linked_list_err_val eLINKED_LIST_UNAVAILABLE_RESOURCE = -4"
| "linked_list_err_val eLINKED_LIST_INSUFFICIENT_BUFFER = -5"
| "linked_list_err_val eLINKED_LIST_EMPTY = -6"

text \<open>A function pointer is an optional name; calling it is recorded in \<open>m_calls\<close>.\<close>

type_synonym dealloc_ptr = "nat option"

record 'd list_element =
  le_next :: ptr
  le_prev :: ptr
  le_data :: 'd
  le_dealloc :: dealloc_ptr

record list_state =
  p_head :: ptr
  p_tail :: ptr

record 'd mem =
  m_elems :: "addr \<Rightarrow> 'd list_element option"
  m_lists :: "addr \<Rightarrow> list_state option"
  m_calls :: "(nat \<times> 'd) list"

section \<open>Operations\<close>

text \<open>
  A \<open>void**\<close> parameter is None when it is NULL and otherwise the value of the variable it
  points to; the new value of the variable is part of the result.
\<close>

definition linked_list_init ::
  "ptr \<Rightarrow> ptr option \<Rightarrow> 'd mem \<Rightarrow> linked_list_err_type \<times> ptr option \<times> 'd mem" where
  "linked_list_init alloc list_data m =
     (case list_data of
        None \<Rightarrow> (eLINKED_LIST_INVALID_PARAMETER, None, m)
      | Some old \<Rightarrow>
         (case alloc of
            None \<Rightarrow> (eLINKED_LIST_FAILURE_GENERAL, Some old, m)
          | Some l \<Rightarrow>
             (eLINKED_LIST_SUCCESS, Some (Some l),
              m\<lparr>m_lists := (m_lists m)(l \<mapsto> \<lparr>p_head = None, p_tail = None\<rparr>)\<rparr>)))"

text \<open>The stores through a list pointer and through an element pointer.\<close>

definition upd_list :: "addr \<Rightarrow> (list_state \<Rightarrow> list_state) \<Rightarrow> 'd mem \<Rightarrow> 'd mem option" where
  "upd_list l f m =
     (case m_lists m l of None \<Rightarrow> None | Some s \<Rightarrow> Some (m\<lparr>m_lists := (m_lists m)(l \<mapsto> f s)\<rparr>))"

definition upd_elem ::
  "addr \<Rightarrow> ('d list_element \<Rightarrow> 'd list_element) \<Rightarrow> 'd mem \<Rightarrow> 'd mem option" where
  "upd_elem a f m =
     (case m_elems m a of None \<Rightarrow> None | Some e \<Rightarrow> Some (m\<lparr>m_elems := (m_elems m)(a \<mapsto> f e)\<rparr>))"

definition free_elem :: "addr \<Rightarrow> 'd mem \<Rightarrow> 'd mem option" where
  "free_elem a m =
     (case m_elems m a of None \<Rightarrow> None | Some e \<Rightarrow> Some (m\<lparr>m_elems := (m_elems m)(a := None)\<rparr>))"

definition call_dealloc :: "dealloc_ptr \<Rightarrow> 'd \<Rightarrow> 'd mem \<Rightarrow> 'd mem" where
  "call_dealloc f d m =
     (case f of None \<Rightarrow> m | Some g \<Rightarrow> m\<lparr>m_calls := m_calls m @ [(g, d)]\<rparr>)"

definition linked_list_add ::
  "ptr \<Rightarrow> ptr \<Rightarrow> 'd option \<Rightarrow> dealloc_ptr \<Rightarrow> 'd mem \<Rightarrow> (linked_list_err_type \<times> 'd mem) option" where
  "linked_list_add alloc list_data data_obj dealloc m =
     (case list_data of
        None \<Rightarrow> Some (eLINKED_LIST_INVALID_HANDLE, m)
      | Some l \<Rightarrow>
         (case data_obj of
            None \<Rightarrow> Some (eLINKED_LIST_INVALID_PARAMETER, m)
          | Some d \<Rightarrow>
             (case alloc of
                None \<Rightarrow> Some (eLINKED_LIST_FAILURE_GENERAL, m)
              | Some a \<Rightarrow>
                 (case m_lists m l of
                    None \<Rightarrow> None
                  | Some s \<Rightarrow>
                     (let elem = \<lparr>le_next = p_head s, le_prev = None, le_data = d, le_dealloc = dealloc\<rparr>;
                          m1 = m\<lparr>m_elems := (m_elems m)(a \<mapsto> elem),
                                 m_lists := (m_lists m)(l \<mapsto> s\<lparr>p_head := Some a\<rparr>)\<rparr>
                      in map_option (Pair eLINKED_LIST_SUCCESS)
                           (case p_head s of
                              Some tmp \<Rightarrow> upd_elem tmp (le_prev_update (\<lambda>_. Some a)) m1
                            | None \<Rightarrow> upd_list l (p_tail_update (\<lambda>_. Some a)) m1))))))"

text \<open>
  \<open>linked_list_remove\<close> takes the address of the variable that receives the data; \<open>out\<close> says
  whether it is not NULL. The second component of the result is the value stored there, None
  when nothing is stored.
\<close>

definition linked_list_remove ::
  "ptr \<Rightarrow> bool \<Rightarrow> 'd mem \<Rightarrow> (linked_list_err_type \<times> 'd option \<times> 'd mem) option" where
  "linked_list_remove list_data out m =
     (case list_data of
        None \<Rightarrow> Some (eLINKED_LIST_INVALID_HANDLE, None, m)
      | Some l \<Rightarrow>
         (if \<not> out then Some (eLINKED_LIST_INVALID_PARAMETER, None, m)
          else (case m_lists m l of
             None \<Rightarrow> None
           | Some s \<Rightarrow>
              (case p_tail s of
                 None \<Rightarrow> Some (eLINKED_LIST_UNAVAILABLE_RESOURCE, None, m)
               | Some tmp \<Rightarrow>
                  (case m_elems m tmp of
                     None \<Rightarrow> None
                   | Some e \<Rightarrow>
                      (let m1 = m\<lparr>m_lists := (m_lists m)(l \<mapsto> s\<lparr>p_tail := le_prev e\<rparr>)\<rparr>
                       in Option.bind
                            (case le_prev e of
                               Some t \<Rightarrow> upd_elem t (le_next_update (\<lambda>_. None)) m1
                             | None \<Rightarrow> upd_list l (p_head_update (\<lambda>_. le_prev e)) m1)
                            (\<lambda>m2. map_option (\<lambda>m3. (eLINKED_LIST_SUCCESS, Some (le_data e), m3))
                                    (free_elem tmp m2))))))))"

definition linked_list_empty :: "ptr \<Rightarrow> 'd mem \<Rightarrow> int option" where
  "linked_list_empty list_data m =
     (case list_data of
        None \<Rightarrow> Some (linked_list_err_val eLINKED_LIST_INVALID_HANDLE)
      | Some l \<Rightarrow>
         (case m_lists m l of
            None \<Rightarrow> None
          | Some s \<Rightarrow> Some (if p_head s = None then 1 else 0)))"

text \<open>The loop of \<open>linked_list_flush\<close>; it reads the list state again in every round.\<close>

partial_function (option) flush_loop :: "addr \<Rightarrow> 'd mem \<Rightarrow> 'd mem option" where
  "flush_loop l m =
     (case m_lists m l of
        None \<Rightarrow> None
      | Some s \<Rightarrow>
         (case p_head s of
            None \<Rightarrow> Some m
          | Some h \<Rightarrow>
             (case m_elems m h of
                None \<Rightarrow> None
              | Some e \<Rightarrow>
                 (case free_elem h (call_dealloc (le_dealloc e) (le_data e) m) of
                    None \<Rightarrow> None
                  | Some m1 \<Rightarrow>
                     (case upd_list l (p_head_update (\<lambda>_. le_next e)) m1 of
                        None \<Rightarrow> None
                      | Some m2 \<Rightarrow> flush_loop l m2)))))"

definition linked_list_flush :: "ptr \<Rightarrow> 'd mem \<Rightarrow> (linked_list_err_type \<times> 'd mem) option" where
  "linked_list_flush list_data m =
     (case list_data of
        None \<Rightarrow> Some (eLINKED_LIST_INVALID_HANDLE, m)
      | Some l \<Rightarrow>
         Option.bind (flush_loop l m)
           (\<lambda>m1. map_option (Pair eLINKED_LIST_SUCCESS)
                   (upd_list l (p_tail_update (\<lambda>_. None)) m1)))"

definition linked_list_destroy ::
  "ptr option \<Rightarrow> 'd mem \<Rightarrow> (linked_list_err_type \<times> ptr option \<times> 'd mem) option" where
  "linked_list_destroy list_data m =
     (case list_data of
        None \<Rightarrow> Some (eLINKED_LIST_INVALID_HANDLE, None, m)
      | Some p \<Rightarrow>
         Option.bind (linked_list_flush p m)
           (\<lambda>(_, m1). Some (eLINKED_LIST_SUCCESS, Some None,
              (case p of None \<Rightarrow> m1 | Some l \<Rightarrow> m1\<lparr>m_lists := (m_lists m1)(l := None)\<rparr>))))"

text \<open>The unlinking of the element \<open>tmp\<close> that the search has found.\<close>

definition search_unlink ::
  "addr \<Rightarrow> bool \<Rightarrow> addr \<Rightarrow> 'd list_element \<Rightarrow> 'd mem \<Rightarrow> 'd mem option" where
  "search_unlink l keep_data tmp e m =
     Option.bind
       (case le_prev e of
          None \<Rightarrow> upd_list l (p_head_update (\<lambda>_. le_next e)) m
        | Some p \<Rightarrow> upd_elem p (le_next_update (\<lambda>_. le_next e)) m)
       (\<lambda>m1. Option.bind
         (case le_next e of
            None \<Rightarrow> upd_list l (p_tail_update (\<lambda>_. le_prev e)) m1
          | Some n \<Rightarrow> upd_elem n (le_prev_update (\<lambda>_. le_prev e)) m1)
         (\<lambda>m2. free_elem tmp
            (if \<not> keep_data then call_dealloc (le_dealloc e) (le_data e) m2 else m2)))"

partial_function (option) search_loop ::
  "addr \<Rightarrow> bool \<Rightarrow> ('d \<Rightarrow> bool) \<Rightarrow> bool \<Rightarrow> ptr \<Rightarrow> 'd mem \<Rightarrow> ('d option \<times> 'd mem) option" where
  "search_loop l data_p equal rm_if_found tmp m =
     (case tmp of
        None \<Rightarrow> Some (None, m)
      | Some a \<Rightarrow>
         (case m_elems m a of
            None \<Rightarrow> None
          | Some e \<Rightarrow>
             (if equal (le_data e)
              then (case (if rm_if_found then search_unlink l data_p a e m else Some m) of
                      None \<Rightarrow> None
                    | Some m1 \<Rightarrow> Some (if data_p then Some (le_data e) else None, m1))
              else search_loop l data_p equal rm_if_found (le_next e) m)))"

text \<open>
  \<open>data_p\<close> says whether the address of the result variable is not NULL; \<open>equal\<close> is the
  comparison already applied to \<open>data_0\<close>, None when the function pointer is NULL.
\<close>

definition linked_list_search ::
  "ptr \<Rightarrow> bool \<Rightarrow> ('d \<Rightarrow> bool) option \<Rightarrow> bool \<Rightarrow> 'd mem
     \<Rightarrow> (linked_list_err_type \<times> 'd option \<times> 'd mem) option" where
  "linked_list_search list_data data_p equal rm_if_found m =
     (case (list_data, equal) of
        (Some l, Some eq) \<Rightarrow>
         (case m_lists m l of
            None \<Rightarrow> None
          | Some s \<Rightarrow>
             (if p_tail s = None then Some (eLINKED_LIST_UNAVAILABLE_RESOURCE, None, m)
              else map_option (Pair eLINKED_LIST_SUCCESS)
                     (search_loop l data_p eq rm_if_found (p_head s) m)))
      | _ \<Rightarrow> Some (eLINKED_LIST_INVALID_HANDLE, None, m))"

section \<open>Well-formed lists\<close>

text \<open>
  \<open>dseg E prv p xs lst nxt\<close>: the pointer \<open>p\<close> starts a doubly linked segment in \<open>E\<close> whose
  elements are \<open>xs\<close> (address, data, dealloc function), \<open>prv\<close> is the previous pointer of its first
  element, \<open>lst\<close> points to its last element and \<open>nxt\<close> is the next pointer of that one.
\<close>

type_synonym 'd cells = "(addr \<times> 'd \<times> dealloc_ptr) list"

fun dseg :: "(addr \<Rightarrow> 'd list_element option) \<Rightarrow> ptr \<Rightarrow> ptr \<Rightarrow> 'd cells \<Rightarrow> ptr \<Rightarrow> ptr \<Rightarrow> bool" where
  "dseg E prv p [] lst nxt \<longleftrightarrow> p = nxt \<and> lst = prv"
| "dseg E prv p ((a, d, f) # xs) lst nxt \<longleftrightarrow>
     p = Some a \<and>
     (\<exists>e. E a = Some e \<and> le_prev e = prv \<and> le_data e = d \<and> le_dealloc e = f \<and>
          dseg E (Some a) (le_next e) xs lst nxt)"

definition cell_addrs :: "'d cells \<Rightarrow> addr list" where
  "cell_addrs xs = map fst xs"

definition is_list :: "'d mem \<Rightarrow> addr \<Rightarrow> 'd cells \<Rightarrow> bool" where
  "is_list m l xs \<longleftrightarrow>
     (\<exists>s. m_lists m l = Some s \<and> dseg (m_elems m) None (p_head s) xs (p_tail s) None \<and>
          distinct (cell_addrs xs))"

definition cell_data :: "'d cells \<Rightarrow> 'd list" where
  "cell_data xs = map (fst \<circ> snd) xs"

text \<open>The calls of dealloc functions that freeing \<open>xs\<close> from its head makes.\<close>

definition cell_calls :: "'d cells \<Rightarrow> (nat \<times> 'd) list" where
  "cell_calls xs = concat (map (\<lambda>(a, d, f). case f of None \<Rightarrow> [] | Some g \<Rightarrow> [(g, d)]) xs)"

lemma cell_simps [simp]:
  "cell_addrs [] = []" "cell_addrs ((a, d, f) # xs) = a # cell_addrs xs"
  "cell_addrs (xs @ ys) = cell_addrs xs @ cell_addrs ys"
  "cell_data [] = []" "cell_data ((a, d, f) # xs) = d # cell_data xs"
  "cell_data (xs @ ys) = cell_data xs @ cell_data ys"
  "cell_calls [] = []" "cell_calls ((a, d, f) # xs) = (case f of None \<Rightarrow> [] | Some g \<Rightarrow> [(g, d)]) @ cell_calls xs"
  by (simp_all add: cell_addrs_def cell_data_def cell_calls_def)

lemma dseg_append [simp]:
  "dseg E prv p (xs @ ys) lst nxt \<longleftrightarrow>
     (\<exists>mid q. dseg E prv p xs mid q \<and> dseg E mid q ys lst nxt)"
  by (induction E prv p xs lst nxt rule: dseg.induct) auto

lemma dseg_cong:
  "(\<And>a. a \<in> set (cell_addrs xs) \<Longrightarrow> E a = E' a) \<Longrightarrow>
     dseg E prv p xs lst nxt = dseg E' prv p xs lst nxt"
  by (induction E prv p xs lst nxt rule: dseg.induct) auto

lemma dseg_upd_other [simp]:
  "a \<notin> set (cell_addrs xs) \<Longrightarrow> dseg (E(a := v)) prv p xs lst nxt = dseg E prv p xs lst nxt"
  by (rule dseg_cong) auto

lemma dseg_lst_Nil_iff: "dseg E prv p xs lst None \<Longrightarrow> (p = None) = (xs = [])"
  by (cases xs) auto

lemma dseg_lst_None: "dseg E None p xs lst nxt \<Longrightarrow> (lst = None) = (xs = [])"
proof (induction xs rule: rev_induct)
  case (snoc x xs)
  then show ?case by (cases x) auto
qed simp

lemma dseg_lst_Some: "dseg E prv p xs lst nxt \<Longrightarrow> xs \<noteq> [] \<Longrightarrow> lst \<noteq> None"
  by (cases xs rule: rev_cases) auto

lemma dseg_allocated: "dseg E prv p xs lst nxt \<Longrightarrow> a \<in> set (cell_addrs xs) \<Longrightarrow> E a \<noteq> None"
  by (induction E prv p xs lst nxt rule: dseg.induct) auto

text \<open>Writing the previous pointer of the first element, or the next pointer of the last.\<close>

lemma dseg_set_prev:
  "dseg E prv (Some a) xs lst nxt \<Longrightarrow> xs \<noteq> [] \<Longrightarrow> distinct (cell_addrs xs) \<Longrightarrow>
     \<exists>e. E a = Some e \<and>
       dseg (E(a \<mapsto> e\<lparr>le_prev := q\<rparr>)) q (Some a) xs lst nxt"
  by (cases xs) auto

lemma dseg_set_next:
  assumes "dseg E prv p xs (Some a) nxt" and "xs \<noteq> []" and "distinct (cell_addrs xs)"
  shows "\<exists>e. E a = Some e \<and> a \<in> set (cell_addrs xs) \<and>
    dseg (E(a \<mapsto> e\<lparr>le_next := q\<rparr>)) prv p xs (Some a) q"
proof -
  obtain ys b d f where "xs = ys @ [(b, d, f)]" using assms(2) by (metis rev_exhaust prod_cases3)
  with assms show ?thesis by auto
qed

lemma is_list_Nil_iff [simp]:
  "is_list m l [] \<longleftrightarrow> m_lists m l = Some \<lparr>p_head = None, p_tail = None\<rparr>"
  by (auto simp: is_list_def)

section \<open>Every operation on a well-formed list\<close>

lemma linked_list_init_ok:
  "linked_list_init (Some l) (Some old) m = (eLINKED_LIST_SUCCESS, p, m') \<Longrightarrow>
     p = Some (Some l) \<and> is_list m' l [] \<and> m_elems m' = m_elems m \<and> m_calls m' = m_calls m"
  by (auto simp: linked_list_init_def)

lemma linked_list_add_ok:
  assumes wf: "is_list m l xs" and fresh: "m_elems m a = None"
  shows "\<exists>m'. linked_list_add (Some a) (Some l) (Some d) f m = Some (eLINKED_LIST_SUCCESS, m') \<and>
    is_list m' l ((a, d, f) # xs) \<and> dom (m_elems m') = insert a (dom (m_elems m)) \<and>
    m_calls m' = m_calls m"
proof -
  obtain s where s: "m_lists m l = Some s"
      "dseg (m_elems m) None (p_head s) xs (p_tail s) None" "distinct (cell_addrs xs)"
    using wf by (auto simp: is_list_def)
  have notin: "a \<notin> set (cell_addrs xs)" using s(2) fresh by (auto dest: dseg_allocated)
  show ?thesis
  proof (cases "p_head s")
    case None
    with s have "xs = []" by (auto dest: dseg_lst_Nil_iff)
    with None s(1) show ?thesis
      by (auto simp: linked_list_add_def Let_def upd_list_def is_list_def)
  next
    case (Some b)
    with s(2) have ne: "xs \<noteq> []" by auto
    then obtain d' f' ys where xs: "xs = (b, d', f') # ys" using s(2) Some by (cases xs) auto
    with notin s Some show ?thesis
      by (auto simp: linked_list_add_def Let_def upd_elem_def is_list_def)
  qed
qed

lemma linked_list_remove_ok:
  assumes wf: "is_list m l (xs @ [(a, d, f)])"
  shows "\<exists>m'. linked_list_remove (Some l) True m = Some (eLINKED_LIST_SUCCESS, Some d, m') \<and>
    is_list m' l xs \<and> dom (m_elems m') = dom (m_elems m) - {a} \<and> m_calls m' = m_calls m"
proof -
  obtain s e where s: "m_lists m l = Some s" "dseg (m_elems m) None (p_head s) xs (le_prev e) (Some a)"
      "p_tail s = Some a" "m_elems m a = Some e" "le_next e = None" "le_data e = d"
      "distinct (cell_addrs xs)" "a \<notin> set (cell_addrs xs)"
    using wf by (auto simp: is_list_def)
  show ?thesis
  proof (cases "le_prev e")
    case None
    with s(2) have "xs = []" by (auto dest: dseg_lst_None)
    with None s show ?thesis
      by (auto simp: linked_list_remove_def Let_def upd_list_def free_elem_def)
  next
    case (Some t)
    with s(2) have ne: "xs \<noteq> []" by auto
    obtain et where et: "m_elems m t = Some et" "t \<in> set (cell_addrs xs)"
        "dseg ((m_elems m)(t \<mapsto> et\<lparr>le_next := None\<rparr>)) None (p_head s) xs (Some t) None"
      using dseg_set_next [OF s(2) [unfolded Some] ne s(7), of None] by auto
    with s(8) have ta: "t \<noteq> a" by auto
    let ?E = "(m_elems m)(t \<mapsto> et\<lparr>le_next := None\<rparr>, a := None)"
    have "dseg ?E None (p_head s) xs (Some t) None" using et(3) s(8) by simp
    with et(1) ta s Some show ?thesis
      by (auto simp: linked_list_remove_def Let_def upd_elem_def free_elem_def is_list_def)
  qed
qed

lemma call_dealloc_simps [simp]:
  "m_elems (call_dealloc f d m) = m_elems m" "m_lists (call_dealloc f d m) = m_lists m"
  "m_calls (call_dealloc f d m) = m_calls m @ (case f of None \<Rightarrow> [] | Some g \<Rightarrow> [(g, d)])"
  by (auto simp: call_dealloc_def split: option.splits)

lemma flush_loop_ok:
  assumes "m_lists m l = Some s" and "dseg (m_elems m) prv (p_head s) xs lst None"
    and "distinct (cell_addrs xs)"
  shows "\<exists>m'. flush_loop l m = Some m' \<and> m_lists m' = (m_lists m)(l \<mapsto> s\<lparr>p_head := None\<rparr>) \<and>
    m_elems m' = m_elems m |` (- set (cell_addrs xs)) \<and> m_calls m' = m_calls m @ cell_calls xs"
  using assms
proof (induction xs arbitrary: m s prv)
  case Nil
  then show ?case by (subst flush_loop.simps) (auto simp: fun_upd_idem)
next
  case (Cons x xs)
  obtain a d f where x: "x = (a, d, f)" by (cases x) auto
  with Cons.prems obtain e where e: "p_head s = Some a" "m_elems m a = Some e" "le_data e = d"
      "le_dealloc e = f" "dseg (m_elems m) (Some a) (le_next e) xs lst None" "a \<notin> set (cell_addrs xs)"
      "distinct (cell_addrs xs)" by auto
  let ?m1 = "call_dealloc f d m"
  let ?m2 = "?m1\<lparr>m_elems := (m_elems m)(a := None), m_lists := (m_lists m)(l \<mapsto> s\<lparr>p_head := le_next e\<rparr>)\<rparr>"
  have step: "flush_loop l m = flush_loop l ?m2"
    using Cons.prems(1) e
    by (subst flush_loop.simps) (simp add: free_elem_def upd_list_def)
  have seg: "dseg (m_elems ?m2) (Some a) (p_head (s\<lparr>p_head := le_next e\<rparr>)) xs lst None"
    using e by simp
  have lst: "m_lists ?m2 l = Some (s\<lparr>p_head := le_next e\<rparr>)" by simp
  from Cons.IH [OF lst seg e(7)] obtain m' where m': "flush_loop l ?m2 = Some m'"
      "m_lists m' = (m_lists ?m2)(l \<mapsto> s\<lparr>p_head := le_next e\<rparr>\<lparr>p_head := None\<rparr>)"
      "m_elems m' = m_elems ?m2 |` (- set (cell_addrs xs))" "m_calls m' = m_calls ?m2 @ cell_calls xs"
    by (elim exE conjE) (rule that)
  from m' have "m_elems m' = m_elems m |` (- set (cell_addrs (x # xs)))"
    by (auto simp: x restrict_map_def fun_eq_iff)
  moreover have "m_lists m' = (m_lists m)(l \<mapsto> s\<lparr>p_head := None\<rparr>)" using m'(2) by (simp add: fun_eq_iff)
  moreover have "m_calls m' = m_calls m @ cell_calls (x # xs)" using m'(4) by (simp add: x)
  ultimately show ?case using m'(1) step by auto
qed

lemma linked_list_flush_ok:
  assumes "is_list m l xs"
  shows "\<exists>m'. linked_list_flush (Some l) m = Some (eLINKED_LIST_SUCCESS, m') \<and> is_list m' l [] \<and>
    m_lists m' = (m_lists m)(l \<mapsto> \<lparr>p_head = None, p_tail = None\<rparr>) \<and>
    dom (m_elems m') = dom (m_elems m) - set (cell_addrs xs) \<and> m_calls m' = m_calls m @ cell_calls xs"
proof -
  obtain s where s: "m_lists m l = Some s" "dseg (m_elems m) None (p_head s) xs (p_tail s) None"
      "distinct (cell_addrs xs)"
    using assms by (auto simp: is_list_def)
  from flush_loop_ok [OF this] obtain m' where m': "flush_loop l m = Some m'"
      "m_lists m' = (m_lists m)(l \<mapsto> s\<lparr>p_head := None\<rparr>)"
      "m_elems m' = m_elems m |` (- set (cell_addrs xs))" "m_calls m' = m_calls m @ cell_calls xs"
    by auto
  then show ?thesis
    by (auto simp: linked_list_flush_def upd_list_def)
qed

lemma linked_list_destroy_ok:
  assumes "is_list m l xs"
  shows "\<exists>m'. linked_list_destroy (Some (Some l)) m = Some (eLINKED_LIST_SUCCESS, Some None, m') \<and>
    m_lists m' = (m_lists m)(l := None) \<and> dom (m_elems m') = dom (m_elems m) - set (cell_addrs xs) \<and>
    m_calls m' = m_calls m @ cell_calls xs"
  using linked_list_flush_ok [OF assms] by (auto simp: linked_list_destroy_def)

lemma linked_list_empty_ok:
  "is_list m l xs \<Longrightarrow> linked_list_empty (Some l) m = Some (if xs = [] then 1 else 0)"
  by (auto simp: is_list_def linked_list_empty_def dest: dseg_lst_Nil_iff)

lemma linked_list_remove_empty:
  "is_list m l [] \<Longrightarrow>
     linked_list_remove (Some l) True m = Some (eLINKED_LIST_UNAVAILABLE_RESOURCE, None, m)"
  by (auto simp: linked_list_remove_def)

section \<open>Searching\<close>

lemma search_loop_skip:
  assumes "dseg (m_elems m) prv p pre mid q" and "\<forall>d \<in> set (cell_data pre). \<not> eq d"
  shows "search_loop l dp eq rm p m = search_loop l dp eq rm q m"
  using assms
proof (induction pre arbitrary: prv p)
  case (Cons x pre)
  obtain a d f where x: "x = (a, d, f)" by (cases x) auto
  with Cons show ?case by (auto simp: search_loop.simps [of l dp eq rm "Some a" m])
qed simp

text \<open>The segment after the removed element gets the element before it as its predecessor.\<close>

lemma search_unlink_ok:
  assumes wf: "is_list m l (pre @ (a, d, f) # post)" and e: "m_elems m a = Some e"
  shows "\<exists>m'. search_unlink l kd a e m = Some m' \<and> is_list m' l (pre @ post) \<and>
    dom (m_elems m') = dom (m_elems m) - {a} \<and>
    m_calls m' = m_calls m @ (if kd then [] else cell_calls [(a, d, f)])"
proof -
  obtain s where s: "m_lists m l = Some s"
      "dseg (m_elems m) None (p_head s) pre (le_prev e) (Some a)"
      "dseg (m_elems m) (Some a) (le_next e) post (p_tail s) None"
      "le_data e = d" "le_dealloc e = f"
    and dis: "distinct (cell_addrs (pre @ post))" "a \<notin> set (cell_addrs (pre @ post))"
    using wf e by (auto simp: is_list_def)
  define s1 where "s1 = (if pre = [] then s\<lparr>p_head := le_next e\<rparr> else s)"
  define s2 where "s2 = (if post = [] then s1\<lparr>p_tail := le_prev e\<rparr> else s1)"
  have "\<exists>m1. (case le_prev e of None \<Rightarrow> upd_list l (p_head_update (\<lambda>_. le_next e)) m
        | Some p \<Rightarrow> upd_elem p (le_next_update (\<lambda>_. le_next e)) m) = Some m1 \<and>
      m_lists m1 = (m_lists m)(l \<mapsto> s1) \<and> m_calls m1 = m_calls m \<and> dom (m_elems m1) = dom (m_elems m) \<and>
      dseg (m_elems m1) None (p_head s1) pre (le_prev e) (le_next e) \<and>
      dseg (m_elems m1) (Some a) (le_next e) post (p_tail s) None"
  proof (cases "le_prev e")
    case None
    with s(2) have "pre = []" by (auto dest: dseg_lst_None)
    with None s show ?thesis by (auto simp: upd_list_def s1_def)
  next
    case (Some t)
    with s(2) have ne: "pre \<noteq> []" by auto
    obtain et where et: "m_elems m t = Some et" "t \<in> set (cell_addrs pre)"
        "dseg ((m_elems m)(t \<mapsto> et\<lparr>le_next := le_next e\<rparr>)) None (p_head s) pre (Some t) (le_next e)"
      using dseg_set_next [OF s(2) [unfolded Some] ne, of "le_next e"] dis by auto
    have "t \<notin> set (cell_addrs post)" using et(2) dis by auto
    with et s ne Some show ?thesis by (auto simp: upd_elem_def s1_def)
  qed
  then obtain m1 where m1: "(case le_prev e of None \<Rightarrow> upd_list l (p_head_update (\<lambda>_. le_next e)) m
        | Some p \<Rightarrow> upd_elem p (le_next_update (\<lambda>_. le_next e)) m) = Some m1"
      "m_lists m1 = (m_lists m)(l \<mapsto> s1)" "m_calls m1 = m_calls m" "dom (m_elems m1) = dom (m_elems m)"
      "dseg (m_elems m1) None (p_head s1) pre (le_prev e) (le_next e)"
      "dseg (m_elems m1) (Some a) (le_next e) post (p_tail s) None" by auto
  have "\<exists>m2. (case le_next e of None \<Rightarrow> upd_list l (p_tail_update (\<lambda>_. le_prev e)) m1
        | Some n \<Rightarrow> upd_elem n (le_prev_update (\<lambda>_. le_prev e)) m1) = Some m2 \<and>
      m_lists m2 = (m_lists m)(l \<mapsto> s2) \<and> m_calls m2 = m_calls m \<and> dom (m_elems m2) = dom (m_elems m) \<and>
      dseg (m_elems m2) None (p_head s2) pre (le_prev e) (le_next e) \<and>
      dseg (m_elems m2) (le_prev e) (le_next e) post (p_tail s2) None"
  proof (cases "le_next e")
    case None
    with m1(6) have "post = []" by (auto dest: dseg_lst_Nil_iff)
    with None m1 show ?thesis by (auto simp: upd_list_def s2_def)
  next
    case (Some n)
    with m1(6) have ne: "post \<noteq> []" by auto
    obtain en where en: "m_elems m1 n = Some en"
        "dseg ((m_elems m1)(n \<mapsto> en\<lparr>le_prev := le_prev e\<rparr>)) (le_prev e) (Some n) post (p_tail s) None"
      using dseg_set_prev [OF m1(6) [unfolded Some] ne, of "le_prev e"] dis by auto
    have "n \<in> set (cell_addrs post)" using m1(6) ne Some by (cases post) auto
    then have "n \<notin> set (cell_addrs pre)" using dis by auto
    with en m1 ne Some show ?thesis by (auto simp: upd_elem_def s2_def s1_def)
  qed
  then obtain m2 where m2: "(case le_next e of None \<Rightarrow> upd_list l (p_tail_update (\<lambda>_. le_prev e)) m1
        | Some n \<Rightarrow> upd_elem n (le_prev_update (\<lambda>_. le_prev e)) m1) = Some m2"
      "m_lists m2 = (m_lists m)(l \<mapsto> s2)" "m_calls m2 = m_calls m" "dom (m_elems m2) = dom (m_elems m)"
      "dseg (m_elems m2) None (p_head s2) pre (le_prev e) (le_next e)"
      "dseg (m_elems m2) (le_prev e) (le_next e) post (p_tail s2) None" by auto
  have a2: "m_elems m2 a \<noteq> None" using m2(4) e by auto
  let ?m3 = "(if kd then m2 else call_dealloc f d m2)\<lparr>m_elems := (m_elems m2)(a := None)\<rparr>"
  have "search_unlink l kd a e m = Some ?m3"
    using m1(1) m2(1) a2 s(4,5)
    by (cases kd) (auto simp: search_unlink_def free_elem_def)
  moreover have "is_list ?m3 l (pre @ post)"
    using m2 dis unfolding is_list_def by auto
  moreover have "m_calls ?m3 = m_calls m @ (if kd then [] else cell_calls [(a, d, f)])"
    using m2(3) by simp
  ultimately show ?thesis using m2(4) by auto
qed

lemma linked_list_search_found:
  assumes wf: "is_list m l (pre @ (a, d, f) # post)" and no: "\<forall>d' \<in> set (cell_data pre). \<not> eq d'"
    and yes: "eq d"
  shows "\<exists>m'. linked_list_search (Some l) dp (Some eq) rm m =
      Some (eLINKED_LIST_SUCCESS, if dp then Some d else None, m') \<and>
    is_list m' l (if rm then pre @ post else pre @ (a, d, f) # post) \<and>
    dom (m_elems m') = (if rm then dom (m_elems m) - {a} else dom (m_elems m)) \<and>
    m_calls m' = m_calls m @ (if rm \<and> \<not> dp then cell_calls [(a, d, f)] else [])"
proof -
  obtain s e where s: "m_lists m l = Some s" "dseg (m_elems m) None (p_head s) pre (le_prev e) (Some a)"
      "m_elems m a = Some e" "le_data e = d" "dseg (m_elems m) None (p_head s) (pre @ (a, d, f) # post) (p_tail s) None"
    using wf unfolding is_list_def by auto
  have "p_tail s \<noteq> None" using dseg_lst_Some [OF s(5)] by simp
  have "linked_list_search (Some l) dp (Some eq) rm m =
      map_option (Pair eLINKED_LIST_SUCCESS) (search_loop l dp eq rm (Some a) m)"
    using s(1) \<open>p_tail s \<noteq> None\<close> search_loop_skip [OF s(2) no] by (auto simp: linked_list_search_def)
  moreover have "search_loop l dp eq rm (Some a) m =
      (case (if rm then search_unlink l dp a e m else Some m) of
         None \<Rightarrow> None | Some m1 \<Rightarrow> Some (if dp then Some d else None, m1))"
    using s(3,4) yes by (subst search_loop.simps) auto
  ultimately show ?thesis
    using search_unlink_ok [OF wf s(3), of dp] wf by (cases rm) auto
qed

lemma linked_list_search_not_found:
  assumes wf: "is_list m l xs" and ne: "xs \<noteq> []" and no: "\<forall>d \<in> set (cell_data xs). \<not> eq d"
  shows "linked_list_search (Some l) dp (Some eq) rm m = Some (eLINKED_LIST_SUCCESS, None, m)"
proof -
  obtain s where s: "m_lists m l = Some s" "dseg (m_elems m) None (p_head s) xs (p_tail s) None"
    using wf by (auto simp: is_list_def)
  then have "p_tail s \<noteq> None" using ne by (auto dest: dseg_lst_None)
  with s search_loop_skip [OF s(2) no] show ?thesis
    by (simp add: linked_list_search_def search_loop.simps [of l dp eq rm None])
qed

section \<open>The list as a first-in first-out store\<close>

text \<open>
  An entry is a datum with its dealloc function; \<open>entry_calls\<close> are the calls of dealloc functions
  that freeing entries makes, newest entry first.
\<close>

type_synonym 'd entries = "('d \<times> dealloc_ptr) list"

definition entry_calls :: "'d entries \<Rightarrow> (nat \<times> 'd) list" where
  "entry_calls xs = concat (map (\<lambda>(d, f). case f of None \<Rightarrow> [] | Some g \<Rightarrow> [(g, d)]) xs)"

lemma entry_calls_simps [simp]:
  "entry_calls [] = []" "entry_calls ((d, f) # xs) = (case f of None \<Rightarrow> [] | Some g \<Rightarrow> [(g, d)]) @ entry_calls xs"
  by (simp_all add: entry_calls_def)

lemma cell_calls_entry: "cell_calls cs = entry_calls (map snd cs)"
  by (induction cs) (auto simp: cell_calls_def entry_calls_def)

text \<open>
  The contract the message queue relies on: adding puts an entry in front, removing takes the one
  at the end, the test for emptiness tells when removing succeeds, flushing calls the dealloc
  functions. \<open>repr m xs c\<close>: the store \<open>m\<close> holds \<open>xs\<close>, and \<open>c\<close> are the calls made so far.
\<close>

locale fifo_store =
  fixes repr :: "'m \<Rightarrow> 'd entries \<Rightarrow> (nat \<times> 'd) list \<Rightarrow> bool"
    and fresh :: "addr \<Rightarrow> 'm \<Rightarrow> bool"
    and add :: "addr \<Rightarrow> 'd \<Rightarrow> dealloc_ptr \<Rightarrow> 'm \<Rightarrow> (linked_list_err_type \<times> 'm) option"
    and rem :: "'m \<Rightarrow> (linked_list_err_type \<times> 'd option \<times> 'm) option"
    and is_empty :: "'m \<Rightarrow> int option"
    and flush :: "'m \<Rightarrow> (linked_list_err_type \<times> 'm) option"
  assumes add_front: "repr m xs c \<Longrightarrow> fresh a m \<Longrightarrow>
      \<exists>m'. add a d f m = Some (eLINKED_LIST_SUCCESS, m') \<and> repr m' ((d, f) # xs) c"
    and rem_end: "repr m (xs @ [(d, f)]) c \<Longrightarrow>
      \<exists>m'. rem m = Some (eLINKED_LIST_SUCCESS, Some d, m') \<and> repr m' xs c"
    and rem_none: "repr m [] c \<Longrightarrow> rem m = Some (eLINKED_LIST_UNAVAILABLE_RESOURCE, None, m)"
    and empty_test: "repr m xs c \<Longrightarrow> is_empty m = Some (if xs = [] then 1 else 0)"
    and flush_all: "repr m xs c \<Longrightarrow>
      \<exists>m'. flush m = Some (eLINKED_LIST_SUCCESS, m') \<and> repr m' [] (c @ entry_calls xs)"
begin

text \<open>What a receiver relies on after the emptiness test.\<close>

lemma rem_nonempty:
  assumes "repr m xs c" and "is_empty m = Some 0"
  shows "xs \<noteq> [] \<and>
    (\<exists>m'. rem m = Some (eLINKED_LIST_SUCCESS, Some (fst (last xs)), m') \<and> repr m' (butlast xs) c)"
proof -
  have ne: "xs \<noteq> []" using assms empty_test [OF assms(1)] by auto
  then have "repr m (butlast xs @ [(fst (last xs), snd (last xs))]) c" using assms(1) by simp
  from rem_end [OF this] ne show ?thesis by simp
qed

lemma rem_cases:
  "repr m xs c \<Longrightarrow>
     (\<exists>m'. rem m = Some (if xs = [] then (eLINKED_LIST_UNAVAILABLE_RESOURCE, None, m')
                         else (eLINKED_LIST_SUCCESS, Some (fst (last xs)), m')) \<and> repr m' (butlast xs) c)"
  using rem_none rem_nonempty empty_test by (cases "xs = []") auto

end

definition holds_data :: "addr \<Rightarrow> 'd mem \<Rightarrow> 'd entries \<Rightarrow> (nat \<times> 'd) list \<Rightarrow> bool" where
  "holds_data l m xs c \<longleftrightarrow> (\<exists>cs. is_list m l cs \<and> map snd cs = xs \<and> m_calls m = c)"

lemma cells_snocE:
  assumes "map snd cs = xs @ [(d, f)]"
  obtains ys a where "cs = ys @ [(a, d, f)]" and "map snd ys = xs"
proof -
  from assms have "cs \<noteq> []" by auto
  then obtain ys a d' f' where "cs = ys @ [(a, d', f')]" by (metis rev_exhaust prod_cases3)
  with assms that show ?thesis by auto
qed

lemma holds_dataE:
  assumes "holds_data l m xs c"
  obtains cs where "is_list m l cs" and "map snd cs = xs" and "m_calls m = c"
  using assms by (auto simp: holds_data_def)

interpretation ll: fifo_store "holds_data l" "\<lambda>a m. m_elems m a = None"
  "\<lambda>a d f m. linked_list_add (Some a) (Some l) (Some d) f m" "\<lambda>m. linked_list_remove (Some l) True m"
  "\<lambda>m. linked_list_empty (Some l) m" "\<lambda>m. linked_list_flush (Some l) m" for l :: addr
proof (unfold_locales, goal_cases)
  case (1 m xs c a d f)
  then obtain cs where "is_list m l cs" "map snd cs = xs" "m_calls m = c" by (elim holds_dataE)
  with linked_list_add_ok [OF this(1) 1(2), of d f] show ?case
    unfolding holds_data_def by (metis list.simps(9) snd_conv)
next
  case (2 m xs d f c)
  then obtain ys a where "is_list m l (ys @ [(a, d, f)])" "map snd ys = xs" "m_calls m = c"
    by (auto elim!: holds_dataE elim: cells_snocE)
  with linked_list_remove_ok [OF this(1)] show ?case unfolding holds_data_def by metis
next
  case (3 m c)
  then show ?case by (auto simp: holds_data_def linked_list_remove_empty)
next
  case (4 m xs c)
  then obtain cs where "is_list m l cs" "map snd cs = xs" by (elim holds_dataE)
  with linked_list_empty_ok [OF this(1)] show ?case by auto
next
  case (5 m xs c)
  then obtain cs where "is_list m l cs" "map snd cs = xs" "m_calls m = c" by (elim holds_dataE)
  with linked_list_flush_ok [OF this(1)] show ?case
    unfolding holds_data_def by (metis cell_calls_entry list.map_disc_iff)
qed

section \<open>Sequences of operations\<close>

text \<open>
  The operations a client can call on one list, with the arguments that matter: the result of
  malloc, a possibly null datum, whether the output parameter is given, the comparison of a search.
\<close>

datatype 'd ll_op =
    LAdd ptr "'d option" dealloc_ptr
  | LRemove bool
  | LEmpty
  | LFlush
  | LSearch bool "'d \<Rightarrow> bool" bool

fun ll_step :: "addr \<Rightarrow> 'd ll_op \<Rightarrow> 'd mem \<Rightarrow> ((int \<times> 'd option) \<times> 'd mem) option" where
  "ll_step l (LAdd alloc d f) m =
     map_option (\<lambda>(r, m'). ((linked_list_err_val r, None), m')) (linked_list_add alloc (Some l) d f m)"
| "ll_step l (LRemove out) m =
     map_option (\<lambda>(r, d, m'). ((linked_list_err_val r, d), m')) (linked_list_remove (Some l) out m)"
| "ll_step l LEmpty m = map_option (\<lambda>r. ((r, None), m)) (linked_list_empty (Some l) m)"
| "ll_step l LFlush m =
     map_option (\<lambda>(r, m'). ((linked_list_err_val r, None), m')) (linked_list_flush (Some l) m)"
| "ll_step l (LSearch dp eq rm) m =
     map_option (\<lambda>(r, d, m'). ((linked_list_err_val r, d), m'))
       (linked_list_search (Some l) dp (Some eq) rm m)"

fun ll_ok :: "'d ll_op \<Rightarrow> 'd mem \<Rightarrow> bool" where
  "ll_ok (LAdd (Some a) d f) m \<longleftrightarrow> m_elems m a = None"
| "ll_ok _ m \<longleftrightarrow> True"

text \<open>
  The specification: a sequence of data with their dealloc functions, newest first, and the calls
  of dealloc functions made so far.
\<close>

fun ll_spec :: "'d ll_op \<Rightarrow> ('d \<times> dealloc_ptr) list \<times> (nat \<times> 'd) list
    \<Rightarrow> (int \<times> 'd option) \<times> ('d \<times> dealloc_ptr) list \<times> (nat \<times> 'd) list" where
  "ll_spec (LAdd alloc d f) (xs, cl) =
     (case d of None \<Rightarrow> ((-2, None), xs, cl)
      | Some d' \<Rightarrow> (case alloc of None \<Rightarrow> ((-1, None), xs, cl) | Some _ \<Rightarrow> ((0, None), (d', f) # xs, cl)))"
| "ll_spec (LRemove out) (xs, cl) =
     (if \<not> out then ((-2, None), xs, cl)
      else if xs = [] then ((-4, None), xs, cl)
      else ((0, Some (fst (last xs))), butlast xs, cl))"
| "ll_spec LEmpty (xs, cl) = ((if xs = [] then 1 else 0, None), xs, cl)"
| "ll_spec LFlush (xs, cl) = ((0, None), [], cl @ entry_calls xs)"
| "ll_spec (LSearch dp eq rm) (xs, cl) =
     (if xs = [] then ((-4, None), xs, cl)
      else (case dropWhile (\<lambda>x. \<not> eq (fst x)) xs of
              [] \<Rightarrow> ((0, None), xs, cl)
            | x # post \<Rightarrow>
                ((0, if dp then Some (fst x) else None),
                 if rm then takeWhile (\<lambda>x. \<not> eq (fst x)) xs @ post else xs,
                 if rm \<and> \<not> dp then cl @ entry_calls [x] else cl)))"

text \<open>\<open>B\<close> are the addresses of elements that do not belong to the list: nothing is leaked.\<close>

definition ll_rel :: "addr \<Rightarrow> addr set \<Rightarrow> 'd mem \<Rightarrow> ('d \<times> dealloc_ptr) list \<times> (nat \<times> 'd) list \<Rightarrow> bool" where
  "ll_rel l B m a \<longleftrightarrow>
     (\<exists>cs. is_list m l cs \<and> map snd cs = fst a \<and> m_calls m = snd a \<and>
           dom (m_elems m) = B \<union> set (cell_addrs cs) \<and> B \<inter> set (cell_addrs cs) = {})"

lemma is_list_distinct: "is_list m l cs \<Longrightarrow> distinct (cell_addrs cs)"
  by (auto simp: is_list_def)

lemma ll_search_refines:
  assumes "ll_rel l B m (xs, cl)"
  shows "\<exists>m'. ll_step l (LSearch dp eq rm) m = Some (fst (ll_spec (LSearch dp eq rm) (xs, cl)), m') \<and>
    ll_rel l B m' (snd (ll_spec (LSearch dp eq rm) (xs, cl)))"
proof -
  obtain cs where cs: "is_list m l cs" "map snd cs = xs" "m_calls m = cl"
      "dom (m_elems m) = B \<union> set (cell_addrs cs)" "B \<inter> set (cell_addrs cs) = {}"
    using assms by (auto simp: ll_rel_def)
  let ?P = "\<lambda>c. \<not> eq (fst (snd c))"
  have tw: "takeWhile (\<lambda>x. \<not> eq (fst x)) xs = map snd (takeWhile ?P cs)"
    and dw: "dropWhile (\<lambda>x. \<not> eq (fst x)) xs = map snd (dropWhile ?P cs)"
    by (simp_all add: cs(2) [symmetric] takeWhile_map dropWhile_map comp_def)
  consider "cs = []" | "cs \<noteq> []" "dropWhile ?P cs = []" | c post where "dropWhile ?P cs = c # post"
    by (cases "dropWhile ?P cs") auto
  then show ?thesis
  proof cases
    case 1
    with cs assms show ?thesis by (auto simp: linked_list_search_def)
  next
    case 2
    then have "\<forall>d \<in> set (cell_data cs). \<not> eq d" by (auto simp: cell_data_def dropWhile_eq_Nil_conv)
    from linked_list_search_not_found [OF cs(1) 2(1) this] have
      "linked_list_search (Some l) dp (Some eq) rm m = Some (eLINKED_LIST_SUCCESS, None, m)" .
    moreover have "dropWhile (\<lambda>x. \<not> eq (fst x)) xs = []" using 2 dw by simp
    moreover have "xs \<noteq> []" using 2(1) cs(2) by auto
    ultimately show ?thesis using assms by (simp del: dropWhile_eq_Nil_conv)
  next
    case 3
    obtain a d f where c: "c = (a, d, f)" by (cases c) auto
    let ?pre = "takeWhile ?P cs"
    have split: "cs = ?pre @ (a, d, f) # post" using 3 c takeWhile_dropWhile_id [of ?P cs] by simp
    have no: "\<forall>d \<in> set (cell_data ?pre). \<not> eq d" by (auto simp: cell_data_def dest: set_takeWhileD)
    have yes: "eq d" using 3 c dropWhile_eq_Cons_conv [of ?P cs c post] by simp
    from linked_list_search_found [OF _ no yes, of m l a f post dp rm] cs(1) split obtain m' where
      m': "linked_list_search (Some l) dp (Some eq) rm m =
          Some (eLINKED_LIST_SUCCESS, if dp then Some d else None, m')"
        "is_list m' l (if rm then ?pre @ post else ?pre @ (a, d, f) # post)"
        "dom (m_elems m') = (if rm then dom (m_elems m) - {a} else dom (m_elems m))"
        "m_calls m' = m_calls m @ (if rm \<and> \<not> dp then cell_calls [(a, d, f)] else [])" by auto
    have addrs: "cell_addrs cs = cell_addrs ?pre @ a # cell_addrs post" using split by (metis cell_simps(2,3))
    with is_list_distinct [OF cs(1)] have a: "a \<notin> set (cell_addrs ?pre)" "a \<notin> set (cell_addrs post)" by auto
    have "ll_rel l B m' (if rm then map snd (?pre @ post) else xs,
        if rm \<and> \<not> dp then cl @ entry_calls [(d, f)] else cl)"
      unfolding ll_rel_def using m' cs a addrs split
      by (intro exI [of _ "if rm then ?pre @ post else cs"]) (auto simp: cell_calls_entry)
    moreover have "xs \<noteq> []" using split cs(2) by auto
    ultimately show ?thesis using m'(1) 3 c tw dw by (auto split: if_splits)
  qed
qed

lemma ll_step_refines:
  assumes rel: "ll_rel l B m a" and ok: "ll_ok x m"
  shows "\<exists>m'. ll_step l x m = Some (fst (ll_spec x a), m') \<and> ll_rel l B m' (snd (ll_spec x a))"
proof -
  obtain xs cl where a: "a = (xs, cl)" by (cases a)
  with rel obtain cs where cs: "is_list m l cs" "map snd cs = xs" "m_calls m = cl"
      "dom (m_elems m) = B \<union> set (cell_addrs cs)" "B \<inter> set (cell_addrs cs) = {}"
    by (auto simp: ll_rel_def)
  show ?thesis
  proof (cases x)
    case (LAdd alloc d f)
    show ?thesis
    proof (cases "d = None \<or> alloc = None")
      case True
      with LAdd a rel show ?thesis by (auto simp: linked_list_add_def split: option.splits)
    next
      case False
      then obtain d' b where d: "d = Some d'" "alloc = Some b" by auto
      with LAdd ok have b: "m_elems m b = None" by simp
      from linked_list_add_ok [OF cs(1) b, of d' f] obtain m' where
        m': "linked_list_add (Some b) (Some l) (Some d') f m = Some (eLINKED_LIST_SUCCESS, m')"
          "is_list m' l ((b, d', f) # cs)" "dom (m_elems m') = insert b (dom (m_elems m))"
          "m_calls m' = m_calls m" by auto
      have "b \<notin> dom (m_elems m)" using b by auto
      then have "ll_rel l B m' ((d', f) # xs, cl)"
        unfolding ll_rel_def using m' cs by (intro exI [of _ "(b, d', f) # cs"]) auto
      with m'(1) show ?thesis by (simp add: LAdd d a)
    qed
  next
    case (LRemove out)
    show ?thesis
    proof (cases "cs = [] \<or> \<not> out")
      case True
      with LRemove a rel cs show ?thesis
        by (cases out) (auto simp: linked_list_remove_empty linked_list_remove_def [where out = False])
    next
      case False
      then obtain ys c d f where ys: "cs = ys @ [(c, d, f)]" by (metis rev_exhaust prod_cases3)
      with linked_list_remove_ok [of m l ys c d f] cs(1) obtain m' where
        m': "linked_list_remove (Some l) True m = Some (eLINKED_LIST_SUCCESS, Some d, m')"
          "is_list m' l ys" "dom (m_elems m') = dom (m_elems m) - {c}" "m_calls m' = m_calls m" by auto
      have "ll_rel l B m' (butlast xs, cl)"
        unfolding ll_rel_def using m' cs is_list_distinct [OF cs(1)] ys
        by (intro exI [of _ ys]) auto
      with m'(1) False ys cs(2) show ?thesis by (auto simp: LRemove a)
    qed
  next
    case LEmpty
    with a cs rel show ?thesis by (auto simp: linked_list_empty_ok)
  next
    case LFlush
    from linked_list_flush_ok [OF cs(1)] obtain m' where
      m': "linked_list_flush (Some l) m = Some (eLINKED_LIST_SUCCESS, m')" "is_list m' l []"
        "dom (m_elems m') = dom (m_elems m) - set (cell_addrs cs)"
        "m_calls m' = m_calls m @ cell_calls cs" by blast
    have "ll_rel l B m' ([], cl @ entry_calls xs)"
      unfolding ll_rel_def using m' cs by (intro exI [of _ "[]"]) (auto simp: cell_calls_entry)
    with m'(1) show ?thesis by (simp add: LFlush a)
  next
    case (LSearch dp eq rm)
    with ll_search_refines [of l B m xs cl dp eq rm] a rel show ?thesis by simp
  qed
qed

interpretation ll_ops: refinement "ll_rel l B" ll_ok "ll_step l" ll_spec for l :: addr and B :: "addr set"
  by unfold_locales (rule ll_step_refines)

section \<open>Properties\<close>

lemma ll_rel_empty: "is_list m l [] \<Longrightarrow> ll_rel l (dom (m_elems m)) m ([], m_calls m)"
  by (simp add: ll_rel_def)

text \<open>C10. Every sequence of calls on a list that starts empty is free of undefined behaviour, as
  long as malloc hands out unused addresses, returns what the calls on a plain sequence (newest
  first, removal at the end, search for the first match) would return, dealloc functions are called
  exactly when an element is flushed or is removed by a search that does not hand out its data,
  and no element is leaked: apart from the elements of other lists, exactly the cells that are
  still in the list stay allocated.\<close>

theorem linked_list_trace:
  assumes "is_list m l []" and "ops_ok ll_ok (ll_step l) ops m"
  shows "\<exists>cs m'. run_ops (ll_step l) ops m = Some (fst (run_spec ll_spec ops ([], m_calls m)), m') \<and>
    is_list m' l cs \<and> (map snd cs, m_calls m') = snd (run_spec ll_spec ops ([], m_calls m)) \<and>
    dom (m_elems m') = dom (m_elems m) \<union> set (cell_addrs cs)"
  using ll_ops.run_refines [OF ll_rel_empty [OF assms(1)] assms(2)]
  by (auto simp: ll_rel_def prod_eq_iff)

definition ll_demo_mem :: "nat mem" where
  "ll_demo_mem = \<lparr>m_elems = Map.empty, m_lists = [0 \<mapsto> \<lparr>p_head = None, p_tail = None\<rparr>], m_calls = []\<rparr>"

definition ll_demo_ops :: "nat ll_op list" where
  "ll_demo_ops = [LAdd (Some 1) (Some 10) None, LAdd (Some 2) (Some 20) (Some 7), LRemove True, LEmpty]"

lemma ll_demo_ok: "is_list ll_demo_mem 0 []" "ops_ok ll_ok (ll_step 0) ll_demo_ops ll_demo_mem"
  by (simp_all add: ll_demo_mem_def ll_demo_ops_def linked_list_add_def upd_elem_def upd_list_def
      linked_list_remove_def Let_def free_elem_def linked_list_empty_def)

lemma ll_demo_calls: "m_calls ll_demo_mem = []"
  by (simp add: ll_demo_mem_def)

lemma ll_demo_spec:
  "run_spec ll_spec ll_demo_ops ([], []) = ([(0, None), (0, None), (0, Some 10), (0, None)], [(20, Some 7)], [])"
  by (simp add: ll_demo_ops_def)

lemma linked_list_trace_witness:
  "\<exists>cs m'. run_ops (ll_step 0) ll_demo_ops ll_demo_mem =
      Some ([(0, None), (0, None), (0, Some 10), (0, None)], m') \<and>
    is_list m' 0 cs \<and> map snd cs = [(20, Some 7)]"
  using linked_list_trace [OF ll_demo_ok] unfolding ll_demo_calls ll_demo_spec fst_conv snd_conv prod.inject
  by (elim exE conjE) (intro exI conjI; assumption)

text \<open>The life of a list from \<open>linked_list_init\<close> over any calls to \<open>linked_list_destroy\<close> leaks
  nothing: every call is defined, destroying succeeds, clears the client's pointer, frees the list
  state and leaves exactly the elements allocated that were allocated before the list existed.\<close>

theorem linked_list_lifecycle:
  assumes "linked_list_init (Some l) (Some old) m = (eLINKED_LIST_SUCCESS, Some p, m0)"
    and "ops_ok ll_ok (ll_step l) ops m0"
  shows "\<exists>outs m1 m2. run_ops (ll_step l) ops m0 = Some (outs, m1) \<and>
    linked_list_destroy (Some p) m1 = Some (eLINKED_LIST_SUCCESS, Some None, m2) \<and>
    dom (m_elems m2) = dom (m_elems m) \<and> m_lists m2 l = None"
proof -
  from linked_list_init_ok [OF assms(1)] have p: "p = Some l" "is_list m0 l []" "m_elems m0 = m_elems m"
    by auto
  from ll_ops.run_refines [OF ll_rel_empty [OF p(2)] assms(2)] obtain m1 cs outs where
    m1: "run_ops (ll_step l) ops m0 = Some (outs, m1)" "is_list m1 l cs"
      "dom (m_elems m1) = dom (m_elems m) \<union> set (cell_addrs cs)"
      "dom (m_elems m) \<inter> set (cell_addrs cs) = {}"
    by (auto simp: ll_rel_def p(3))
  from linked_list_destroy_ok [OF m1(2)] m1 p(1) show ?thesis by (auto 4 3)
qed

lemma linked_list_lifecycle_witness:
  "\<exists>outs m1 m2. run_ops (ll_step 0) ll_demo_ops ll_demo_mem = Some (outs, m1) \<and>
    linked_list_destroy (Some (Some 0)) m1 = Some (eLINKED_LIST_SUCCESS, Some None, m2) \<and>
    dom (m_elems m2) = {} \<and> m_lists m2 0 = None"
  using linked_list_lifecycle [of 0 None "\<lparr>m_elems = Map.empty, m_lists = Map.empty, m_calls = []\<rparr>"
      "Some 0" ll_demo_mem ll_demo_ops] ll_demo_ok(2)
  by (simp add: linked_list_init_def ll_demo_mem_def)

end
