(* ===== verification/Msg_Queue.thy ===== *)
theory Msg_Queue
  imports Linked_List
begin

text \<open>
  The blocking message queue of gps/utils/msg_q.c on top of the linked list. The bodies between
  locking and unlocking \<open>list_mutex\<close> are atomic steps; \<open>pthread_cond_wait\<close> releases the mutex, so
  \<open>msg_q_rcv\<close> is split there: the part that runs until it returns or waits, and the part that
  runs when a waiter has been woken. What a body does to the condition variable is part of its
  result. A step relation interleaves any number of threads, with spurious wake-ups and with
  signals that wake more than one waiter, as POSIX allows. The theorems show first-in first-out
  delivery, that no wake-up is lost, and that unblocking releases every waiter.
\<close>

section \<open>Data\<close>

datatype msq_q_err_type =
    eMSG_Q_SUCCESS
  | eMSG_Q_FAILURE_GENERAL
  | eMSG_Q_INVALID_PARAMETER
  | eMSG_Q_INVALID_HANDLE
  | eMSG_Q_UNAVAILABLE_RESOURCE
  | eMSG_Q_INSUFFICIENT_BUFFER

fun msq_q_err_val :: "msq_q_err_type \<Rightarrow> int" where
  "msq_q_err_val eMSG_Q_SUCCESS = 0"
| "msq_q_err_val eMSG_Q_FAILURE_GENERAL = -1"
| "msq_q_err_val eMSG_Q_INVALID_PARAMETER = -2"
| "msq_q_err_val eMSG_Q_INVALID_HANDLE = -3"
| "msq_q_err_val eMSG_Q_UNAVAILABLE_RESOURCE = -4"
| "msq_q_err_val eMSG_Q_INSUFFICIENT_BUFFER = -5"

text \<open>
  The mutex and the condition variable have no fields of their own here: they are the atomicity of
  the steps and the sets of waiting threads of the step relation below.
\<close>

record msg_q =
  msg_list :: ptr
  unblocked :: bool

record 'd qmem =
  q_mem :: "'d mem"
  q_qs :: "addr \<Rightarrow> msg_q option"

text \<open>What a critical section does to the condition variable.\<close>

datatype cond_effect = NoWake | Signal | Broadcast

section \<open>Operations\<close>

fun convert_linked_list_err_type :: "linked_list_err_type \<Rightarrow> msq_q_err_type" where
  "convert_linked_list_err_type eLINKED_LIST_SUCCESS = eMSG_Q_SUCCESS"
| "convert_linked_list_err_type eLINKED_LIST_INVALID_PARAMETER = eMSG_Q_INVALID_PARAMETER"
| "convert_linked_list_err_type eLINKED_LIST_INVALID_HANDLE = eMSG_Q_INVALID_HANDLE"
| "convert_linked_list_err_type eLINKED_LIST_UNAVAILABLE_RESOURCE = eMSG_Q_UNAVAILABLE_RESOURCE"
| "convert_linked_list_err_type eLINKED_LIST_INSUFFICIENT_BUFFER = eMSG_Q_INSUFFICIENT_BUFFER"
| "convert_linked_list_err_type _ = eMSG_Q_FAILURE_GENERAL"

text \<open>
  \<open>alloc_q\<close> and \<open>alloc_l\<close> are the results of the two callocs, \<open>mutex_rc\<close> and \<open>cond_rc\<close> the return
  values of \<open>pthread_mutex_init\<close> and \<open>pthread_cond_init\<close>.
\<close>

definition msg_q_init ::
  "ptr \<Rightarrow> ptr \<Rightarrow> int \<Rightarrow> int \<Rightarrow> ptr option \<Rightarrow> 'd qmem \<Rightarrow> (msq_q_err_type \<times> ptr option \<times> 'd qmem) option" where
  "msg_q_init alloc_q alloc_l mutex_rc cond_rc msg_q_data m =
     (case msg_q_data of
        None \<Rightarrow> Some (eMSG_Q_INVALID_PARAMETER, None, m)
      | Some old \<Rightarrow>
         (case alloc_q of
            None \<Rightarrow> Some (eMSG_Q_FAILURE_GENERAL, Some old, m)
          | Some q \<Rightarrow>
             (case linked_list_init alloc_l (Some None) (q_mem m) of
                (r, p, m1) \<Rightarrow>
                  if r \<noteq> eLINKED_LIST_SUCCESS then
                    Some (eMSG_Q_FAILURE_GENERAL, Some old, m\<lparr>q_mem := m1, q_qs := (q_qs m)(q := None)\<rparr>)
                  else if mutex_rc \<noteq> 0 \<or> cond_rc \<noteq> 0 then
                    map_option (\<lambda>(_, _, m2). (eMSG_Q_FAILURE_GENERAL, Some old,
                        m\<lparr>q_mem := m2, q_qs := (q_qs m)(q := None)\<rparr>))
                      (linked_list_destroy p m1)
                  else
                    Some (eMSG_Q_SUCCESS, Some (Some q),
                      m\<lparr>q_mem := m1,
                        q_qs := (q_qs m)(q \<mapsto> \<lparr>msg_list = Option.bind p id, unblocked = False\<rparr>)\<rparr>))))"

text \<open>\<open>msg_q_init2\<close> returns the new queue or NULL.\<close>

definition msg_q_init2 :: "ptr \<Rightarrow> ptr \<Rightarrow> int \<Rightarrow> int \<Rightarrow> 'd qmem \<Rightarrow> (ptr \<times> 'd qmem) option" where
  "msg_q_init2 alloc_q alloc_l mutex_rc cond_rc m =
     map_option (\<lambda>(r, p, m1). (if r \<noteq> eMSG_Q_SUCCESS then None else Option.bind p id, m1))
       (msg_q_init alloc_q alloc_l mutex_rc cond_rc (Some None) m)"

definition msg_q_destroy ::
  "ptr option \<Rightarrow> 'd qmem \<Rightarrow> (msq_q_err_type \<times> ptr option \<times> 'd qmem) option" where
  "msg_q_destroy msg_q_data m =
     (case msg_q_data of
        None \<Rightarrow> Some (eMSG_Q_INVALID_HANDLE, None, m)
      | Some p \<Rightarrow>
         Option.bind p (\<lambda>q. Option.bind (q_qs m q) (\<lambda>mq.
           map_option (\<lambda>(_, _, m1). (eMSG_Q_SUCCESS, Some None,
               m\<lparr>q_mem := m1, q_qs := (q_qs m)(q := None)\<rparr>))
             (linked_list_destroy (Some (msg_list mq)) (q_mem m)))))"

definition msg_q_snd ::
  "ptr \<Rightarrow> ptr \<Rightarrow> 'd option \<Rightarrow> dealloc_ptr \<Rightarrow> 'd qmem \<Rightarrow> (msq_q_err_type \<times> cond_effect \<times> 'd qmem) option" where
  "msg_q_snd alloc msg_q_data msg_obj dealloc m =
     (case msg_q_data of
        None \<Rightarrow> Some (eMSG_Q_INVALID_HANDLE, NoWake, m)
      | Some q \<Rightarrow>
         (if msg_obj = None then Some (eMSG_Q_INVALID_PARAMETER, NoWake, m)
          else Option.bind (q_qs m q) (\<lambda>mq.
            if unblocked mq then Some (eMSG_Q_UNAVAILABLE_RESOURCE, NoWake, m)
            else map_option (\<lambda>(r, m1). (convert_linked_list_err_type r, Signal, m\<lparr>q_mem := m1\<rparr>))
                   (linked_list_add alloc (msg_list mq) msg_obj dealloc (q_mem m)))))"

text \<open>
  A receiver either returns, with the value stored through \<open>msg_obj\<close> if there is one, or goes to
  wait on the condition variable. \<open>rcv_loop\<close> is the code from the test of the while loop on: it
  runs when the receiver enters and each time its wait returns.
\<close>

datatype 'd rcv_outcome = Returns msq_q_err_type "'d option" | Waits

definition rcv_loop :: "msg_q \<Rightarrow> 'd qmem \<Rightarrow> ('d rcv_outcome \<times> 'd qmem) option" where
  "rcv_loop mq m =
     Option.bind (linked_list_empty (msg_list mq) (q_mem m)) (\<lambda>e.
       if e \<noteq> 0 \<and> \<not> unblocked mq then Some (Waits, m)
       else map_option (\<lambda>(r, d, m1). (Returns (convert_linked_list_err_type r) d, m\<lparr>q_mem := m1\<rparr>))
              (linked_list_remove (msg_list mq) True (q_mem m)))"

definition msg_q_rcv :: "ptr \<Rightarrow> bool \<Rightarrow> 'd qmem \<Rightarrow> ('d rcv_outcome \<times> 'd qmem) option" where
  "msg_q_rcv msg_q_data msg_obj m =
     (case msg_q_data of
        None \<Rightarrow> Some (Returns eMSG_Q_INVALID_HANDLE None, m)
      | Some q \<Rightarrow>
         (if \<not> msg_obj then Some (Returns eMSG_Q_INVALID_PARAMETER None, m)
          else Option.bind (q_qs m q) (\<lambda>mq.
            if unblocked mq then Some (Returns eMSG_Q_UNAVAILABLE_RESOURCE None, m)
            else rcv_loop mq m)))"

definition msg_q_rcv_woken :: "addr \<Rightarrow> 'd qmem \<Rightarrow> ('d rcv_outcome \<times> 'd qmem) option" where
  "msg_q_rcv_woken q m = Option.bind (q_qs m q) (\<lambda>mq. rcv_loop mq m)"

text \<open>
  \<open>msg_q_rmv\<close> returns an enumerator of the other enumeration on an empty queue, so its result is
  the integer the caller sees.
\<close>

definition msg_q_rmv :: "ptr \<Rightarrow> bool \<Rightarrow> 'd qmem \<Rightarrow> (int \<times> 'd option \<times> 'd qmem) option" where
  "msg_q_rmv msg_q_data msg_obj m =
     (case msg_q_data of
        None \<Rightarrow> Some (msq_q_err_val eMSG_Q_INVALID_HANDLE, None, m)
      | Some q \<Rightarrow>
         (if \<not> msg_obj then Some (msq_q_err_val eMSG_Q_INVALID_PARAMETER, None, m)
          else Option.bind (q_qs m q) (\<lambda>mq.
            if unblocked mq then Some (msq_q_err_val eMSG_Q_UNAVAILABLE_RESOURCE, None, m)
            else Option.bind (linked_list_empty (msg_list mq) (q_mem m)) (\<lambda>e.
              if e \<noteq> 0 then Some (linked_list_err_val eLINKED_LIST_EMPTY, None, m)
              else map_option (\<lambda>(r, d, m1). (msq_q_err_val (convert_linked_list_err_type r), d, m\<lparr>q_mem := m1\<rparr>))
                     (linked_list_remove (msg_list mq) True (q_mem m))))))"

definition msg_q_flush :: "ptr \<Rightarrow> 'd qmem \<Rightarrow> (msq_q_err_type \<times> 'd qmem) option" where
  "msg_q_flush msg_q_data m =
     (case msg_q_data of
        None \<Rightarrow> Some (eMSG_Q_INVALID_HANDLE, m)
      | Some q \<Rightarrow>
         Option.bind (q_qs m q) (\<lambda>mq.
           map_option (\<lambda>(r, m1). (convert_linked_list_err_type r, m\<lparr>q_mem := m1\<rparr>))
             (linked_list_flush (msg_list mq) (q_mem m))))"

definition msg_q_unblock :: "ptr \<Rightarrow> 'd qmem \<Rightarrow> (msq_q_err_type \<times> cond_effect \<times> 'd qmem) option" where
  "msg_q_unblock msg_q_data m =
     (case msg_q_data of
        None \<Rightarrow> Some (eMSG_Q_INVALID_HANDLE, NoWake, m)
      | Some q \<Rightarrow>
         Option.bind (q_qs m q) (\<lambda>mq.
           if unblocked mq then Some (eMSG_Q_UNAVAILABLE_RESOURCE, NoWake, m)
           else Some (eMSG_Q_SUCCESS, Broadcast, m\<lparr>q_qs := (q_qs m)(q \<mapsto> mq\<lparr>unblocked := True\<rparr>)\<rparr>)))"

section \<open>What each operation does to the queued messages\<close>

text \<open>\<open>q_repr q m b xs c\<close>: the queue at \<open>q\<close> holds the entries \<open>xs\<close>, newest first, \<open>b\<close> tells if it is
  unblocked, and \<open>c\<close> are the calls of dealloc functions made so far.\<close>

definition q_repr :: "addr \<Rightarrow> 'd qmem \<Rightarrow> bool \<Rightarrow> 'd entries \<Rightarrow> (nat \<times> 'd) list \<Rightarrow> bool" where
  "q_repr q m b xs c \<longleftrightarrow>
     (\<exists>mq l. q_qs m q = Some mq \<and> msg_list mq = Some l \<and> unblocked mq = b \<and> holds_data l (q_mem m) xs c)"

lemma q_reprE:
  assumes "q_repr q m b xs c"
  obtains mq l where "q_qs m q = Some mq" "msg_list mq = Some l" "unblocked mq = b"
    "holds_data l (q_mem m) xs c"
  using assms unfolding q_repr_def by blast

lemma q_reprI:
  "q_qs m q = Some mq \<Longrightarrow> msg_list mq = Some l \<Longrightarrow> unblocked mq = b \<Longrightarrow> holds_data l (q_mem m) xs c \<Longrightarrow>
     q_repr q m b xs c"
  unfolding q_repr_def by blast

lemma msg_q_snd_ok:
  assumes "q_repr q m False xs c" and "m_elems (q_mem m) a = None"
  shows "\<exists>m'. msg_q_snd (Some a) (Some q) (Some d) f m = Some (eMSG_Q_SUCCESS, Signal, m') \<and>
    q_repr q m' False ((d, f) # xs) c"
  using assms(1)
proof (rule q_reprE)
  fix mq l
  assume q: "q_qs m q = Some mq" "msg_list mq = Some l" "unblocked mq = False" "holds_data l (q_mem m) xs c"
  from ll.add_front [OF q(4) assms(2), of d f] q show ?thesis
    by (auto simp: msg_q_snd_def q_repr_def)
qed

text \<open>A send without memory queues nothing but signals all the same.\<close>

lemma msg_q_snd_cases:
  assumes "q_repr q m b xs c" and "\<forall>a. alloc = Some a \<longrightarrow> m_elems (q_mem m) a = None"
  shows "\<exists>m'. msg_q_snd alloc (Some q) obj f m =
      Some (case obj of None \<Rightarrow> (eMSG_Q_INVALID_PARAMETER, NoWake, m')
            | Some d \<Rightarrow> if b then (eMSG_Q_UNAVAILABLE_RESOURCE, NoWake, m')
                       else (if alloc = None then eMSG_Q_FAILURE_GENERAL else eMSG_Q_SUCCESS, Signal, m')) \<and>
    q_repr q m' b (case obj of Some d \<Rightarrow> if b \<or> alloc = None then xs else (d, f) # xs | None \<Rightarrow> xs) c"
proof (cases "obj = None \<or> b \<or> alloc = None")
  case True
  with assms(1) show ?thesis
    by (auto simp: msg_q_snd_def linked_list_add_def q_repr_def split: option.splits)
next
  case False
  with msg_q_snd_ok [of q m xs] assms show ?thesis by auto
qed

lemma rcv_loop_ok:
  assumes "q_repr q m b xs c" and "q_qs m q = Some mq"
  shows "\<exists>m'. rcv_loop mq m =
      Some (if xs \<noteq> [] then Returns eMSG_Q_SUCCESS (Some (fst (last xs)))
            else if b then Returns eMSG_Q_UNAVAILABLE_RESOURCE None else Waits, m') \<and>
    q_repr q m' b (butlast xs) c"
  using assms(1)
proof (rule q_reprE)
  fix mq' l
  assume "q_qs m q = Some mq'" and l: "msg_list mq' = Some l" "unblocked mq' = b" "holds_data l (q_mem m) xs c"
  with assms(2) have q: "q_qs m q = Some mq" "msg_list mq = Some l" "unblocked mq = b" by auto
  from ll.empty_test [OF l(3)] have e: "linked_list_empty (Some l) (q_mem m) = Some (if xs = [] then 1 else 0)" .
  from ll.rem_cases [OF l(3)] obtain m1 where m1: "linked_list_remove (Some l) True (q_mem m) =
      Some (if xs = [] then (eLINKED_LIST_UNAVAILABLE_RESOURCE, None, m1)
            else (eLINKED_LIST_SUCCESS, Some (fst (last xs)), m1))" "holds_data l m1 (butlast xs) c" by auto
  show ?thesis
  proof (cases "xs = [] \<and> \<not> b")
    case True
    with q e assms(1) show ?thesis by (simp add: rcv_loop_def)
  next
    case False
    with q e m1 show ?thesis
      by (auto simp: rcv_loop_def q_repr_def)
  qed
qed

lemma msg_q_rcv_ok:
  assumes "q_repr q m b xs c"
  shows "\<exists>m'. msg_q_rcv (Some q) True m =
      Some (if b then Returns eMSG_Q_UNAVAILABLE_RESOURCE None
            else if xs \<noteq> [] then Returns eMSG_Q_SUCCESS (Some (fst (last xs))) else Waits, m') \<and>
    q_repr q m' b (if b then xs else butlast xs) c"
proof -
  obtain mq where mq: "q_qs m q = Some mq" "unblocked mq = b" using assms by (auto elim: q_reprE)
  with rcv_loop_ok [OF assms mq(1)] assms show ?thesis by (auto simp: msg_q_rcv_def)
qed

lemma msg_q_rcv_woken_ok:
  assumes "q_repr q m b xs c"
  shows "\<exists>m'. msg_q_rcv_woken q m =
      Some (if xs \<noteq> [] then Returns eMSG_Q_SUCCESS (Some (fst (last xs)))
            else if b then Returns eMSG_Q_UNAVAILABLE_RESOURCE None else Waits, m') \<and>
    q_repr q m' b (butlast xs) c"
proof -
  obtain mq where mq: "q_qs m q = Some mq" using assms by (auto elim: q_reprE)
  with rcv_loop_ok [OF assms mq] show ?thesis by (simp add: msg_q_rcv_woken_def)
qed

lemma msg_q_rmv_ok:
  assumes "q_repr q m b xs c"
  shows "\<exists>m'. msg_q_rmv (Some q) True m =
      Some (if b then (-4, None, m') else if xs = [] then (-6, None, m') else (0, Some (fst (last xs)), m')) \<and>
    q_repr q m' b (if b then xs else butlast xs) c"
  using assms
proof (rule q_reprE)
  fix mq l
  assume q: "q_qs m q = Some mq" "msg_list mq = Some l" "unblocked mq = b" "holds_data l (q_mem m) xs c"
  from ll.empty_test [OF q(4)] have e: "linked_list_empty (Some l) (q_mem m) = Some (if xs = [] then 1 else 0)" .
  show ?thesis
  proof (cases "b \<or> xs = []")
    case True
    with q e assms show ?thesis by (auto simp: msg_q_rmv_def)
  next
    case False
    with ll.rem_cases [OF q(4)] q e show ?thesis by (auto simp: msg_q_rmv_def q_repr_def)
  qed
qed

lemma msg_q_flush_ok:
  assumes "q_repr q m b xs c"
  shows "\<exists>m'. msg_q_flush (Some q) m = Some (eMSG_Q_SUCCESS, m') \<and> q_repr q m' b [] (c @ entry_calls xs)"
  using assms
proof (rule q_reprE)
  fix mq l
  assume q: "q_qs m q = Some mq" "msg_list mq = Some l" "unblocked mq = b" "holds_data l (q_mem m) xs c"
  from ll.flush_all [OF q(4)] q show ?thesis by (auto simp: msg_q_flush_def q_repr_def)
qed

lemma msg_q_unblock_ok:
  assumes "q_repr q m b xs c"
  shows "\<exists>m'. msg_q_unblock (Some q) m =
      Some (if b then (eMSG_Q_UNAVAILABLE_RESOURCE, NoWake, m') else (eMSG_Q_SUCCESS, Broadcast, m')) \<and>
    q_repr q m' True xs c"
  using assms by (cases b) (auto simp: msg_q_unblock_def q_repr_def)

lemma msg_q_init_ok:
  assumes "msg_q_init alloc_q alloc_l mrc crc (Some old) m = Some (eMSG_Q_SUCCESS, Some (Some q), m')"
  shows "q_repr q m' False [] (m_calls (q_mem m)) \<and> q_mem m' = (q_mem m)\<lparr>m_lists := m_lists (q_mem m')\<rparr>"
  using assms
  by (auto simp: msg_q_init_def linked_list_init_def holds_data_def split: option.splits if_splits prod.splits
      intro!: q_reprI exI [of _ "[]"])

section \<open>Threads\<close>

text \<open>
  The state of a queue and the threads that use it: \<open>waiting\<close> are the threads inside
  \<open>pthread_cond_wait\<close>, \<open>woken\<close> those whose wait is over and that have not yet run on. \<open>sent\<close> are the
  messages accepted so far and \<open>gone\<close> those that have left the queue, both oldest first.
\<close>

record 'd qsys =
  s_mem :: "'d qmem"
  waiting :: "nat set"
  woken :: "nat set"
  sent :: "'d list"
  gone :: "'d list"

fun may_wake :: "cond_effect \<Rightarrow> nat set \<Rightarrow> nat set \<Rightarrow> bool" where
  "may_wake NoWake B W \<longleftrightarrow> W = {}"
| "may_wake Signal B W \<longleftrightarrow> W \<subseteq> B \<and> (B \<noteq> {} \<longrightarrow> W \<noteq> {})"
| "may_wake Broadcast B W \<longleftrightarrow> W = B"

definition wake :: "nat set \<Rightarrow> 'd qsys \<Rightarrow> 'd qsys" where
  "wake W s = s\<lparr>waiting := waiting s - W, woken := woken s \<union> W\<rparr>"

fun after_rcv :: "nat \<Rightarrow> 'd rcv_outcome \<Rightarrow> 'd qsys \<Rightarrow> 'd qsys" where
  "after_rcv t Waits s = s\<lparr>waiting := insert t (waiting s)\<rparr>"
| "after_rcv t (Returns r None) s = s"
| "after_rcv t (Returns r (Some d)) s = s\<lparr>gone := gone s @ [d]\<rparr>"

inductive qstep :: "addr \<Rightarrow> 'd qsys \<Rightarrow> 'd qsys \<Rightarrow> bool" for q :: addr where
  snd: "\<forall>a. alloc = Some a \<longrightarrow> m_elems (q_mem (s_mem s)) a = None \<Longrightarrow>
     msg_q_snd alloc (Some q) obj f (s_mem s) = Some (r, c, m) \<Longrightarrow> may_wake c (waiting s) W \<Longrightarrow>
     qstep q s (wake W (s\<lparr>s_mem := m,
       sent := sent s @ (if r = eMSG_Q_SUCCESS then (case obj of Some d \<Rightarrow> [d] | None \<Rightarrow> []) else [])\<rparr>))"
| rcv: "t \<notin> waiting s \<union> woken s \<Longrightarrow> msg_q_rcv (Some q) True (s_mem s) = Some (out, m) \<Longrightarrow>
     qstep q s (after_rcv t out (s\<lparr>s_mem := m\<rparr>))"
| resume: "t \<in> woken s \<Longrightarrow> msg_q_rcv_woken q (s_mem s) = Some (out, m) \<Longrightarrow>
     qstep q s (after_rcv t out (s\<lparr>s_mem := m, woken := woken s - {t}\<rparr>))"
| spurious: "W \<subseteq> waiting s \<Longrightarrow> qstep q s (wake W s)"
| rmv: "msg_q_rmv (Some q) True (s_mem s) = Some (r, d, m) \<Longrightarrow>
     qstep q s (s\<lparr>s_mem := m, gone := gone s @ (case d of Some x \<Rightarrow> [x] | None \<Rightarrow> [])\<rparr>)"
| flush: "msg_q_flush (Some q) (s_mem s) = Some (r, m) \<Longrightarrow>
     qstep q s (s\<lparr>s_mem := m, gone := sent s\<rparr>)"
| unblock: "msg_q_unblock (Some q) (s_mem s) = Some (r, c, m) \<Longrightarrow> may_wake c (waiting s) W \<Longrightarrow>
     qstep q s (wake W (s\<lparr>s_mem := m\<rparr>))"

inductive qreach :: "addr \<Rightarrow> 'd qsys \<Rightarrow> bool" for q :: addr where
  start: "msg_q_init alloc_q alloc_l mrc crc (Some old) m0 = Some (eMSG_Q_SUCCESS, Some (Some q), m) \<Longrightarrow>
     qreach q \<lparr>s_mem = m, waiting = {}, woken = {}, sent = [], gone = []\<rparr>"
| step: "qreach q s \<Longrightarrow> qstep q s s' \<Longrightarrow> qreach q s'"

definition q_inv :: "addr \<Rightarrow> 'd qsys \<Rightarrow> bool \<Rightarrow> 'd entries \<Rightarrow> bool" where
  "q_inv q s b xs \<longleftrightarrow>
     (\<exists>c. q_repr q (s_mem s) b xs c) \<and> sent s = gone s @ rev (map fst xs) \<and>
     waiting s \<inter> woken s = {} \<and> finite (waiting s) \<and> finite (woken s) \<and>
     (waiting s \<noteq> {} \<longrightarrow> \<not> b \<and> length xs \<le> card (woken s))"

lemma wake_simps [simp]:
  "s_mem (wake W s) = s_mem s" "waiting (wake W s) = waiting s - W" "woken (wake W s) = woken s \<union> W"
  "sent (wake W s) = sent s" "gone (wake W s) = gone s"
  by (simp_all add: wake_def)

lemma may_wake_subset: "may_wake c B W \<Longrightarrow> W \<subseteq> B"
  by (cases c) auto

lemma card_woken_le:
  assumes "finite A" and "finite B" and "W \<subseteq> B"
  shows "card A \<le> card (A \<union> W)"
  using finite_subset [OF assms(3,2)] assms(1) by (intro card_mono) auto

text \<open>Waking waiters keeps the bookkeeping; a signal makes room for one more message.\<close>

lemma card_woken_signal:
  assumes "finite A" and "finite B" and "A \<inter> B = {}" and "may_wake c B W" and "c \<noteq> NoWake" and "B - W \<noteq> {}"
  shows "Suc (card A) \<le> card (A \<union> W)"
proof -
  have W: "W \<subseteq> B" "W \<noteq> {}" using assms(4,5,6) by (cases c; auto)+
  then obtain w where w: "w \<in> W" by auto
  have "finite W" using W(1) assms(2) by (rule finite_subset)
  then have "card (insert w A) \<le> card (A \<union> W)" using w assms(1) by (intro card_mono) auto
  moreover have "w \<notin> A" using w W(1) assms(3) by auto
  ultimately show ?thesis using assms(1) by simp
qed

lemma q_inv_wake:
  assumes "q_repr q (s_mem s) b xs c" and "sent s = gone s @ rev (map fst xs)" and "waiting s \<inter> woken s = {}"
    and "finite (waiting s)" and "finite (woken s)" and "W \<subseteq> waiting s"
    and "waiting s - W \<noteq> {} \<Longrightarrow> \<not> b \<and> length xs \<le> card (woken s \<union> W)"
  shows "q_inv q (wake W s) b xs"
  using assms by (auto simp: q_inv_def intro: finite_subset)

lemma q_inv_snd:
  assumes inv: "q_inv q s b xs" and fresh: "\<forall>a. alloc = Some a \<longrightarrow> m_elems (q_mem (s_mem s)) a = None"
    and st: "msg_q_snd alloc (Some q) obj f (s_mem s) = Some (r, c, m)" and w: "may_wake c (waiting s) W"
  shows "\<exists>xs'. q_inv q (wake W (s\<lparr>s_mem := m,
       sent := sent s @ (if r = eMSG_Q_SUCCESS then (case obj of Some d \<Rightarrow> [d] | None \<Rightarrow> []) else [])\<rparr>)) b xs'"
proof -
  obtain c0 where q: "q_repr q (s_mem s) b xs c0" and i: "sent s = gone s @ rev (map fst xs)" "waiting s \<inter> woken s = {}"
      "finite (waiting s)" "finite (woken s)"
    and nl: "waiting s \<noteq> {} \<Longrightarrow> \<not> b \<and> length xs \<le> card (woken s)"
    using inv by (auto simp: q_inv_def)
  from msg_q_snd_cases [OF q fresh, of obj f] st
  have st': "case obj of None \<Rightarrow> r = eMSG_Q_INVALID_PARAMETER \<and> c = NoWake
      | Some d \<Rightarrow> if b then r = eMSG_Q_UNAVAILABLE_RESOURCE \<and> c = NoWake
          else r = (if alloc = None then eMSG_Q_FAILURE_GENERAL else eMSG_Q_SUCCESS) \<and> c = Signal"
    "q_repr q m b (case obj of Some d \<Rightarrow> if b \<or> alloc = None then xs else (d, f) # xs | None \<Rightarrow> xs) c0"
    by (auto split: option.splits if_splits)
  let ?xs' = "case obj of Some d \<Rightarrow> if b \<or> alloc = None then xs else (d, f) # xs | None \<Rightarrow> xs"
  have len: "waiting s - W \<noteq> {} \<Longrightarrow> \<not> b \<and> length ?xs' \<le> card (woken s \<union> W)"
  proof -
    assume ne: "waiting s - W \<noteq> {}"
    then have "\<not> b \<and> length xs \<le> card (woken s)" using nl by blast
    moreover have "card (woken s) \<le> card (woken s \<union> W)"
      by (rule card_woken_le [OF i(4,3) may_wake_subset [OF w]])
    moreover have "c \<noteq> NoWake \<Longrightarrow> Suc (card (woken s)) \<le> card (woken s \<union> W)"
      using card_woken_signal [OF i(4,3) _ w _ ne] i(2) by (simp add: Int_commute)
    ultimately show ?thesis using st'(1) by (auto split: option.splits if_splits)
  qed
  have "q_inv q (wake W (s\<lparr>s_mem := m,
       sent := sent s @ (if r = eMSG_Q_SUCCESS then (case obj of Some d \<Rightarrow> [d] | None \<Rightarrow> []) else [])\<rparr>)) b ?xs'"
    by (rule q_inv_wake)
      (use st' i len may_wake_subset [OF w] in \<open>auto split: option.splits if_splits\<close>)
  then show ?thesis by blast
qed

lemma q_inv_step:
  assumes "qstep q s s'" and "q_inv q s b xs"
  shows "\<exists>b' xs'. q_inv q s' b' xs'"
  using assms(1)
proof cases
  case (snd alloc obj f r c m W)
  with q_inv_snd [OF assms(2) snd(2,3,4)] show ?thesis by blast
next
  case (rcv t out m)
  with assms(2) obtain c0 where q: "q_repr q (s_mem s) b xs c0" by (auto simp: q_inv_def)
  from msg_q_rcv_ok [OF q] rcv assms(2) show ?thesis
    by (cases xs rule: rev_cases)
      (auto simp: q_inv_def split: if_splits intro!: exI [of _ b] exI [of _ "if b then xs else butlast xs"])
next
  case (resume t out m)
  with assms(2) obtain c0 where q: "q_repr q (s_mem s) b xs c0" by (auto simp: q_inv_def)
  from msg_q_rcv_woken_ok [OF q] resume assms(2) show ?thesis
    by (cases xs rule: rev_cases)
      (auto simp: q_inv_def split: if_splits intro!: exI [of _ b] exI [of _ "butlast xs"])
next
  case (spurious W)
  with assms(2) obtain c0 where i: "q_repr q (s_mem s) b xs c0" "sent s = gone s @ rev (map fst xs)" "waiting s \<inter> woken s = {}"
      "finite (waiting s)" "finite (woken s)" "W \<subseteq> waiting s"
      "waiting s \<noteq> {} \<longrightarrow> \<not> b \<and> length xs \<le> card (woken s)"
    by (auto simp: q_inv_def)
  have "\<not> b \<and> length xs \<le> card (woken s \<union> W)" if "waiting s - W \<noteq> {}"
    using i(7) that card_woken_le [OF i(5,4,6)] by fastforce
  from q_inv_wake [OF i(1-6) this] spurious show ?thesis by blast
next
  case (rmv r d m)
  with assms(2) obtain c0 where q: "q_repr q (s_mem s) b xs c0" by (auto simp: q_inv_def)
  from msg_q_rmv_ok [OF q] rmv assms(2) show ?thesis
    by (cases xs rule: rev_cases)
      (auto simp: q_inv_def split: if_splits intro!: exI [of _ b] exI [of _ "if b then xs else butlast xs"])
next
  case (flush r m)
  with assms(2) obtain c0 where q: "q_repr q (s_mem s) b xs c0" by (auto simp: q_inv_def)
  from msg_q_flush_ok [OF q] flush assms(2) show ?thesis
    by (intro exI [of _ b] exI [of _ "[]"]) (auto simp: q_inv_def)
next
  case (unblock r c m W)
  with assms(2) obtain c0 where q: "q_repr q (s_mem s) b xs c0" by (auto simp: q_inv_def)
  from msg_q_unblock_ok [OF q] unblock assms(2) show ?thesis
    by (auto simp: q_inv_def split: if_splits intro!: exI [of _ True] exI [of _ xs])
qed

lemma qreach_inv: "qreach q s \<Longrightarrow> \<exists>b xs. q_inv q s b xs"
proof (induction rule: qreach.induct)
  case (start alloc_q alloc_l mrc crc old m0 m)
  from msg_q_init_ok [OF this] show ?case
    by (intro exI [of _ False] exI [of _ "[]"]) (auto simp: q_inv_def)
qed (blast dest: q_inv_step)

section \<open>Properties\<close>

lemma q_inv_unblocked: "q_inv q s b xs \<Longrightarrow> q_qs (s_mem s) q = Some mq \<Longrightarrow> unblocked mq = b"
  by (auto simp: q_inv_def q_repr_def)

text \<open>Under every interleaving of senders, receivers, removers, flushes and unblocking, with
  spurious wake-ups, the messages that have left the queue are, in order, the oldest ones that were
  accepted, and the list holds exactly the others: nothing is lost, duplicated or reordered.\<close>

theorem msg_q_fifo:
  assumes "qreach q s"
  shows "\<exists>b xs c. q_repr q (s_mem s) b xs c \<and> sent s = gone s @ rev (map fst xs)"
  using qreach_inv [OF assms] by (auto simp: q_inv_def)

text \<open>C26. No wake-up is lost: when a thread is waiting although an accepted message has not left the
  queue yet, some other receiver has been woken, and when it runs on it returns the oldest message.\<close>

theorem msg_q_no_lost_wakeup:
  assumes "qreach q s" and "waiting s \<noteq> {}" and "length (gone s) < length (sent s)"
  shows "woken s \<noteq> {} \<and>
    (\<exists>m. msg_q_rcv_woken q (s_mem s) = Some (Returns eMSG_Q_SUCCESS (Some (sent s ! length (gone s))), m))"
proof -
  obtain b xs where inv: "q_inv q s b xs" using qreach_inv [OF assms(1)] by blast
  then obtain c where q: "q_repr q (s_mem s) b xs c" and s: "sent s = gone s @ rev (map fst xs)"
    and len: "length xs \<le> card (woken s)" using assms(2) by (auto simp: q_inv_def)
  have ne: "xs \<noteq> []" using s assms(3) by auto
  then have "sent s ! length (gone s) = fst (last xs)"
    using s by (simp add: nth_append hd_rev hd_conv_nth [symmetric] last_map)
  with msg_q_rcv_woken_ok [OF q] ne len show ?thesis by auto
qed

text \<open>Once a queue is unblocked no thread waits on it and none ever will: a receiver that was woken
  returns, a new receiver, a remover and a sender are refused with \<open>eMSG_Q_UNAVAILABLE_RESOURCE\<close>.\<close>

theorem msg_q_unblock_releases:
  assumes "qreach q s" and "q_qs (s_mem s) q = Some mq" and "unblocked mq"
  shows "waiting s = {} \<and> (\<exists>r d m. msg_q_rcv_woken q (s_mem s) = Some (Returns r d, m)) \<and>
    msg_q_rcv (Some q) True (s_mem s) = Some (Returns eMSG_Q_UNAVAILABLE_RESOURCE None, s_mem s) \<and>
    msg_q_rmv (Some q) True (s_mem s) = Some (-4, None, s_mem s) \<and>
    msg_q_snd alloc (Some q) (Some d) f (s_mem s) = Some (eMSG_Q_UNAVAILABLE_RESOURCE, NoWake, s_mem s)"
proof -
  obtain b xs where inv: "q_inv q s b xs" using qreach_inv [OF assms(1)] by blast
  with q_inv_unblocked [OF inv assms(2)] assms(3) obtain c where "waiting s = {}"
    and q: "q_repr q (s_mem s) True xs c" by (auto simp: q_inv_def)
  with msg_q_rcv_woken_ok [OF q] assms show ?thesis
    by (cases "xs = []") (auto simp: msg_q_rcv_def msg_q_rmv_def msg_q_snd_def)
qed

text \<open>No call on a queue that threads use has undefined behaviour, whatever has happened before: in
  every reachable state each operation, destroying included, runs to its end.\<close>

theorem msg_q_total:
  assumes "qreach q s" and "\<forall>a. alloc = Some a \<longrightarrow> m_elems (q_mem (s_mem s)) a = None"
  shows "msg_q_snd alloc (Some q) obj f (s_mem s) \<noteq> None \<and> msg_q_rcv (Some q) out (s_mem s) \<noteq> None \<and>
    msg_q_rcv_woken q (s_mem s) \<noteq> None \<and> msg_q_rmv (Some q) out (s_mem s) \<noteq> None \<and>
    msg_q_flush (Some q) (s_mem s) \<noteq> None \<and> msg_q_unblock (Some q) (s_mem s) \<noteq> None \<and>
    msg_q_destroy (Some (Some q)) (s_mem s) \<noteq> None"
proof -
  obtain b xs c where q: "q_repr q (s_mem s) b xs c" using qreach_inv [OF assms(1)] by (auto simp: q_inv_def)
  then have destroy: "msg_q_destroy (Some (Some q)) (s_mem s) \<noteq> None"
  proof (rule q_reprE)
    fix mq l
    assume l: "q_qs (s_mem s) q = Some mq" "msg_list mq = Some l" "holds_data l (q_mem (s_mem s)) xs c"
    then obtain cs where "is_list (q_mem (s_mem s)) l cs" by (auto simp: holds_data_def)
    from linked_list_destroy_ok [OF this] l show ?thesis by (auto simp: msg_q_destroy_def)
  qed
  have calls: "msg_q_snd alloc (Some q) obj f (s_mem s) \<noteq> None" "msg_q_rcv (Some q) True (s_mem s) \<noteq> None"
      "msg_q_rcv_woken q (s_mem s) \<noteq> None" "msg_q_rmv (Some q) True (s_mem s) \<noteq> None"
      "msg_q_flush (Some q) (s_mem s) \<noteq> None" "msg_q_unblock (Some q) (s_mem s) \<noteq> None"
    using msg_q_snd_cases [OF q assms(2), of obj f] msg_q_rcv_ok [OF q] msg_q_rcv_woken_ok [OF q]
      msg_q_rmv_ok [OF q] msg_q_flush_ok [OF q] msg_q_unblock_ok [OF q]
    by (elim exE conjE, simp only: option.distinct not_False_eq_True)+
  moreover have "msg_q_rcv (Some q) False (s_mem s) \<noteq> None" "msg_q_rmv (Some q) False (s_mem s) \<noteq> None"
    by (simp_all add: msg_q_rcv_def msg_q_rmv_def)
  ultimately show ?thesis using destroy by (cases out) simp_all
qed

text \<open>Creating a queue is all or nothing, and destroying undoes it: when memory, the mutex or the
  condition variable cannot be had, the handle keeps its value and the memory is what it was;
  otherwise destroying the new queue clears the handle and gives all of its memory back.\<close>

theorem msg_q_init_destroy:
  assumes "\<forall>q. alloc_q = Some q \<longrightarrow> q_qs m q = None" and "\<forall>l. alloc_l = Some l \<longrightarrow> m_lists (q_mem m) l = None"
  shows "\<exists>r p m'. msg_q_init alloc_q alloc_l mutex_rc cond_rc (Some old) m = Some (r, p, m') \<and>
    (r = eMSG_Q_SUCCESS) = (alloc_q \<noteq> None \<and> alloc_l \<noteq> None \<and> mutex_rc = 0 \<and> cond_rc = 0) \<and>
    (if r = eMSG_Q_SUCCESS then p = Some alloc_q \<and> msg_q_destroy p m' = Some (eMSG_Q_SUCCESS, Some None, m)
     else r = eMSG_Q_FAILURE_GENERAL \<and> p = Some old \<and> m' = m)"
proof (cases "alloc_q = None \<or> alloc_l = None")
  case True
  with assms(1) show ?thesis
    by (cases alloc_q) (auto simp: msg_q_init_def linked_list_init_def fun_upd_idem)
next
  case False
  then obtain q l where al: "alloc_q = Some q" "alloc_l = Some l" by auto
  let ?m1 = "q_mem m\<lparr>m_lists := (m_lists (q_mem m))(l \<mapsto> \<lparr>p_head = None, p_tail = None\<rparr>)\<rparr>"
  have "linked_list_destroy (Some (Some l)) ?m1 = Some (eLINKED_LIST_SUCCESS, Some None, q_mem m)"
    using assms(2) al
    by (simp add: linked_list_destroy_def linked_list_flush_def flush_loop.simps upd_list_def fun_upd_idem)
  with al assms(1) show ?thesis
    by (auto simp: msg_q_init_def linked_list_init_def msg_q_destroy_def fun_upd_idem)
qed

section \<open>A run\<close>

text \<open>
  A queue with receivers 1 and 2: both find it empty and wait, a message is sent and wakes
  receiver 1; in the last state the queue has also been unblocked.
\<close>

definition demo_mem :: "nat mem" where
  "demo_mem = \<lparr>m_elems = [1 \<mapsto> \<lparr>le_next = None, le_prev = None, le_data = 10, le_dealloc = None\<rparr>],
     m_lists = [0 \<mapsto> \<lparr>p_head = Some 1, p_tail = Some 1\<rparr>], m_calls = []\<rparr>"

definition demo_none :: "nat qmem" where
  "demo_none = \<lparr>q_mem = \<lparr>m_elems = Map.empty, m_lists = Map.empty, m_calls = []\<rparr>, q_qs = Map.empty\<rparr>"

definition demo_empty :: "nat qmem" where
  "demo_empty = \<lparr>q_mem = \<lparr>m_elems = Map.empty, m_lists = [0 \<mapsto> \<lparr>p_head = None, p_tail = None\<rparr>], m_calls = []\<rparr>,
     q_qs = [0 \<mapsto> \<lparr>msg_list = Some 0, unblocked = False\<rparr>]\<rparr>"

definition demo_one :: "bool \<Rightarrow> nat qmem" where
  "demo_one b = \<lparr>q_mem = demo_mem, q_qs = [0 \<mapsto> \<lparr>msg_list = Some 0, unblocked = b\<rparr>]\<rparr>"

definition demo_sent :: "nat qsys" where
  "demo_sent = \<lparr>s_mem = demo_one False, waiting = {2}, woken = {1}, sent = [10], gone = []\<rparr>"

definition demo_unblocked :: "nat qsys" where
  "demo_unblocked = \<lparr>s_mem = demo_one True, waiting = {}, woken = {1, 2}, sent = [10], gone = []\<rparr>"

lemma demo_reach_sent: "qreach 0 demo_sent"
proof -
  let ?s = "\<lambda>W. \<lparr>s_mem = demo_empty, waiting = W, woken = {}, sent = [], gone = []\<rparr>"
  have init: "msg_q_init (Some 0) (Some 0) 0 0 (Some None) demo_none =
      Some (eMSG_Q_SUCCESS, Some (Some 0), demo_empty)"
    by (simp add: msg_q_init_def linked_list_init_def demo_none_def demo_empty_def)
  have wait: "msg_q_rcv (Some 0) True demo_empty = Some (Waits, demo_empty)"
    by (simp add: msg_q_rcv_def rcv_loop_def linked_list_empty_def demo_empty_def)
  have snd: "msg_q_snd (Some 1) (Some 0) (Some 10) None demo_empty = Some (eMSG_Q_SUCCESS, Signal, demo_one False)"
    by (simp add: msg_q_snd_def linked_list_add_def upd_list_def Let_def demo_empty_def demo_one_def demo_mem_def)
  have "qreach 0 (?s {})" by (rule qreach.start [OF init])
  from qreach.step [OF this qstep.rcv [of 1]] wait have "qreach 0 (?s {1})" by simp
  from qreach.step [OF this qstep.rcv [of 2]] wait have r: "qreach 0 (?s {2, 1})" by simp
  have "\<forall>a. Some (1 :: nat) = Some a \<longrightarrow> m_elems (q_mem demo_empty) a = None" by (simp add: demo_empty_def)
  with qreach.step [OF r qstep.snd [of "Some 1" _ 0 "Some 10" None _ _ _ "{1}"]] snd show ?thesis
    by (simp add: wake_def demo_sent_def insert_Diff_if)
qed

lemma demo_reach_unblocked: "qreach 0 demo_unblocked"
proof -
  have "msg_q_unblock (Some 0) (demo_one False) = Some (eMSG_Q_SUCCESS, Broadcast, demo_one True)"
    by (simp add: msg_q_unblock_def demo_one_def)
  with qreach.step [OF demo_reach_sent qstep.unblock [of 0 demo_sent _ _ _ "{2}"]] show ?thesis
    by (simp add: wake_def demo_sent_def demo_unblocked_def insert_commute)
qed

lemma msg_q_fifo_witness: "\<exists>b xs c. q_repr 0 (demo_one False) b xs c \<and> [10] = rev (map fst xs)"
  using msg_q_fifo [OF demo_reach_sent] by (simp add: demo_sent_def)

lemma msg_q_no_lost_wakeup_witness:
  "\<exists>m. msg_q_rcv_woken 0 (demo_one False) = Some (Returns eMSG_Q_SUCCESS (Some 10), m)"
  using msg_q_no_lost_wakeup [OF demo_reach_sent] by (simp add: demo_sent_def)

lemma msg_q_unblock_releases_witness:
  "\<exists>r d m. msg_q_rcv_woken 0 (demo_one True) = Some (Returns r d, m)"
  using msg_q_unblock_releases [OF demo_reach_unblocked, of "\<lparr>msg_list = Some 0, unblocked = True\<rparr>"]
  by (simp add: demo_unblocked_def demo_one_def)

lemma msg_q_total_witness: "msg_q_destroy (Some (Some 0)) (demo_one False) \<noteq> None"
  using msg_q_total [OF demo_reach_sent, of None] by (simp add: demo_sent_def)

lemma msg_q_init_destroy_witness:
  "\<exists>r p m'. msg_q_init (Some 0) (Some 0) 0 0 (Some None) demo_none = Some (r, p, m') \<and>
     msg_q_destroy p m' = Some (eMSG_Q_SUCCESS, Some None, demo_none)"
  using msg_q_init_destroy [of "Some 0" demo_none "Some 0" 0 0 None] by (auto simp: demo_none_def)

end
