(* ===== verification/Msg_Task.thy ===== *)
theory Msg_Task
  imports Msg_Queue "HOL-Library.Multiset"
begin

text \<open>
  The message thread of gps/utils/MsgTask.cpp and the thread wrapper of gps/utils/LocThread.cpp.
  A MsgTask owns a message queue and a detached thread that receives messages, processes and
  deletes them; destroying the MsgTask unblocks the queue, which ends the thread, and the end of
  the thread flushes and destroys the queue. The theorems show that messages are processed in the
  order they were accepted, that each is deleted exactly once, that the queue is never used after
  it was freed, and that a stopped thread ends.
\<close>

section \<open>The contract of the queue\<close>

text \<open>What a MsgTask relies on. \<open>repr q b xs c\<close> reads as \<open>q_repr\<close> does.\<close>

locale msg_channel =
  fixes repr :: "'q \<Rightarrow> bool \<Rightarrow> 'd entries \<Rightarrow> (nat \<times> 'd) list \<Rightarrow> bool"
    and fresh :: "addr \<Rightarrow> 'q \<Rightarrow> bool"
    and snd_msg :: "ptr \<Rightarrow> 'd \<Rightarrow> dealloc_ptr \<Rightarrow> 'q \<Rightarrow> (msq_q_err_type \<times> cond_effect \<times> 'q) option"
    and rcv :: "'q \<Rightarrow> ('d rcv_outcome \<times> 'q) option"
    and rcv_woken :: "'q \<Rightarrow> ('d rcv_outcome \<times> 'q) option"
    and unblock :: "'q \<Rightarrow> (msq_q_err_type \<times> cond_effect \<times> 'q) option"
    and flush :: "'q \<Rightarrow> (msq_q_err_type \<times> 'q) option"
  assumes snd_law: "repr m b xs c \<Longrightarrow> \<forall>a. alloc = Some a \<longrightarrow> fresh a m \<Longrightarrow>
      \<exists>m' w. snd_msg alloc d f m =
        Some (if b then eMSG_Q_UNAVAILABLE_RESOURCE
              else if alloc = None then eMSG_Q_FAILURE_GENERAL else eMSG_Q_SUCCESS, w, m') \<and>
      repr m' b (if b \<or> alloc = None then xs else (d, f) # xs) c"
    and rcv_law: "repr m b xs c \<Longrightarrow>
      \<exists>m'. rcv m = Some (if b then Returns eMSG_Q_UNAVAILABLE_RESOURCE None
          else if xs \<noteq> [] then Returns eMSG_Q_SUCCESS (Some (fst (last xs))) else Waits, m') \<and>
      repr m' b (if b then xs else butlast xs) c"
    and woken_law: "repr m b xs c \<Longrightarrow>
      \<exists>m'. rcv_woken m = Some (if xs \<noteq> [] then Returns eMSG_Q_SUCCESS (Some (fst (last xs)))
          else if b then Returns eMSG_Q_UNAVAILABLE_RESOURCE None else Waits, m') \<and>
      repr m' b (butlast xs) c"
    and unblock_law: "repr m b xs c \<Longrightarrow> \<exists>r w m'. unblock m = Some (r, w, m') \<and> repr m' True xs c"
    and flush_law: "repr m b xs c \<Longrightarrow>
      \<exists>m'. flush m = Some (eMSG_Q_SUCCESS, m') \<and> repr m' b [] (c @ entry_calls xs)"
begin

text \<open>What a receive, entered or resumed, tells its caller, and what is left in the queue.\<close>

lemma rcv_outcomes:
  assumes "repr m b xs c" and "r = rcv m \<or> r = rcv_woken m"
  shows "(\<exists>m' ys d f. xs = ys @ [(d, f)] \<and> r = Some (Returns eMSG_Q_SUCCESS (Some d), m') \<and> repr m' b ys c) \<or>
    (\<exists>m'. b \<and> r = Some (Returns eMSG_Q_UNAVAILABLE_RESOURCE None, m') \<and> repr m' b xs c) \<or>
    (\<exists>m'. \<not> b \<and> r = Some (Waits, m') \<and> repr m' b xs c)"
proof (cases xs rule: rev_cases)
  case Nil
  with rcv_law [OF assms(1)] woken_law [OF assms(1)] assms(2) show ?thesis by (cases b) auto
next
  case (snoc ys y)
  with rcv_law [OF assms(1)] woken_law [OF assms(1)] assms(2) show ?thesis
    by (cases b; cases y) auto
qed

text \<open>An unblocked queue refuses whoever enters.\<close>

lemma rcv_refused:
  "repr m True xs c \<Longrightarrow>
     \<exists>m'. rcv m = Some (Returns eMSG_Q_UNAVAILABLE_RESOURCE None, m') \<and> repr m' True xs c"
  using rcv_law [of m True xs c] by auto

end

interpretation mq: msg_channel "q_repr q" "\<lambda>a m. m_elems (q_mem m) a = None"
  "\<lambda>alloc d f m. msg_q_snd alloc (Some q) (Some d) f m" "\<lambda>m. msg_q_rcv (Some q) True m"
  "msg_q_rcv_woken q" "\<lambda>m. msg_q_unblock (Some q) m" "\<lambda>m. msg_q_flush (Some q) m" for q :: addr
proof (unfold_locales, goal_cases)
  case (1 m b xs c alloc d f)
  from msg_q_snd_cases [OF 1, of "Some d" f] show ?case by (auto split: if_splits)
next
  case (4 m b xs c)
  from msg_q_unblock_ok [OF 4] show ?case by (auto split: if_splits)
qed (fact msg_q_rcv_ok msg_q_rcv_woken_ok msg_q_flush_ok)+

section \<open>Threads\<close>

text \<open>
  \<open>LocThreadDelegate::create\<close>: the name given to the thread, at most 15 characters; \<open>LocThread\<close>
  holds the delegate, of which the model keeps the name.
\<close>

definition defaultThreadName :: string where
  "defaultThreadName = ''LocThread''"

definition LocThreadDelegate_create :: "string option \<Rightarrow> bool \<Rightarrow> string option" where
  "LocThreadDelegate_create tName runnable =
     (if runnable then
        (let name = (case tName of None \<Rightarrow> defaultThreadName | Some n \<Rightarrow> n);
             len = min 16 (length name + 1) - 1
         in Some (take len name))
      else None)"

definition LocThread_start :: "string option \<Rightarrow> bool \<Rightarrow> string option \<Rightarrow> bool \<times> string option" where
  "LocThread_start tName runnable mThread =
     (case mThread of
        None \<Rightarrow> (let t = LocThreadDelegate_create tName runnable in (t \<noteq> None, t))
      | Some t \<Rightarrow> (False, Some t))"

section \<open>The message thread\<close>

text \<open>
  Messages are heap objects, named by numbers. \<open>LocMsgDestroy\<close> is the name of the function that
  deletes one, so the deletions a flush makes are the calls recorded by the list. The phases of
  the thread: about to call \<open>run\<close>, waiting inside \<open>msg_q_rcv\<close>, between receiving a message and
  deleting it, after its loop, and after the runnable was destroyed.
\<close>

definition LocMsgDestroy :: nat where
  "LocMsgDestroy = 1"

datatype mt_phase = TReady | TWaiting | TProcessing nat | TExited | TDestroyed

record mt_state =
  mt_mem :: "nat qmem"
  mt_phase :: mt_phase
  mt_stopped :: bool
  mt_accepted :: "nat list"
  mt_dropped :: "nat list"
  mt_processed :: "nat list"
  mt_deleted :: "nat list"

text \<open>
  \<open>MsgTask::sendMsg\<close> ignores the result of \<open>msg_q_snd\<close>; it is kept in the result to tell which
  messages the queue has taken over.
\<close>

definition MsgTask_sendMsg ::
  "ptr \<Rightarrow> ptr \<Rightarrow> nat option \<Rightarrow> nat qmem \<Rightarrow> (msq_q_err_type option \<times> nat qmem) option" where
  "MsgTask_sendMsg alloc mQ msg m =
     (case msg of
        None \<Rightarrow> Some (None, m)
      | Some d \<Rightarrow> map_option (\<lambda>(r, _, m1). (Some r, m1)) (msg_q_snd alloc mQ (Some d) (Some LocMsgDestroy) m))"

text \<open>The code of \<open>MTRunnable::run\<close> after the call of \<open>msg_q_rcv\<close>: a message that was announced but not
  stored would be an uninitialised pointer.\<close>

fun run_received :: "nat rcv_outcome \<Rightarrow> mt_state \<Rightarrow> mt_state option" where
  "run_received Waits s = Some (s\<lparr>mt_phase := TWaiting\<rparr>)"
| "run_received (Returns r d) s =
     (if r \<noteq> eMSG_Q_SUCCESS then Some (s\<lparr>mt_phase := TExited\<rparr>)
      else map_option (\<lambda>x. s\<lparr>mt_phase := TProcessing x\<rparr>) d)"

definition MTRunnable_run :: "addr \<Rightarrow> mt_state \<Rightarrow> mt_state option" where
  "MTRunnable_run q s =
     Option.bind (msg_q_rcv (Some q) True (mt_mem s)) (\<lambda>(out, m). run_received out (s\<lparr>mt_mem := m\<rparr>))"

definition MTRunnable_resume :: "addr \<Rightarrow> mt_state \<Rightarrow> mt_state option" where
  "MTRunnable_resume q s =
     Option.bind (msg_q_rcv_woken q (mt_mem s)) (\<lambda>(out, m). run_received out (s\<lparr>mt_mem := m\<rparr>))"

definition MTRunnable_proc :: "nat \<Rightarrow> mt_state \<Rightarrow> mt_state" where
  "MTRunnable_proc d s =
     s\<lparr>mt_phase := TReady, mt_processed := mt_processed s @ [d], mt_deleted := mt_deleted s @ [d]\<rparr>"

definition MTRunnable_interrupt :: "addr \<Rightarrow> mt_state \<Rightarrow> mt_state option" where
  "MTRunnable_interrupt q s =
     map_option (\<lambda>(_, _, m). s\<lparr>mt_mem := m\<rparr>) (msg_q_unblock (Some q) (mt_mem s))"

definition MTRunnable_destructor :: "addr \<Rightarrow> mt_state \<Rightarrow> mt_state option" where
  "MTRunnable_destructor q s =
     Option.bind (msg_q_flush (Some q) (mt_mem s)) (\<lambda>(_, m1).
       map_option (\<lambda>(_, _, m2). s\<lparr>mt_mem := m2, mt_phase := TDestroyed\<rparr>) (msg_q_destroy (Some (Some q)) m1))"

text \<open>One step of the thread: \<open>while (runnable->run());\<close> and what follows when the loop has ended.\<close>

definition thread_step :: "addr \<Rightarrow> mt_state \<Rightarrow> mt_state option" where
  "thread_step q s =
     (case mt_phase s of
        TReady \<Rightarrow> MTRunnable_run q s
      | TWaiting \<Rightarrow> MTRunnable_resume q s
      | TProcessing d \<Rightarrow> Some (MTRunnable_proc d s)
      | TExited \<Rightarrow> MTRunnable_destructor q s
      | TDestroyed \<Rightarrow> Some s)"

text \<open>
  \<open>LocThread::stop\<close>, reached from the destructor of the MsgTask: the delegate interrupts the
  runnable unless that is gone already.
\<close>

definition LocThread_stop :: "addr \<Rightarrow> mt_state \<Rightarrow> mt_state option" where
  "LocThread_stop q s =
     (if mt_phase s = TDestroyed then Some (s\<lparr>mt_stopped := True\<rparr>)
      else map_option (\<lambda>s1. s1\<lparr>mt_stopped := True\<rparr>) (MTRunnable_interrupt q s))"

text \<open>
  The steps of the system. A client sends only through a MsgTask that lives, and destroys it once.
\<close>

definition record_send :: "nat option \<Rightarrow> msq_q_err_type option \<Rightarrow> mt_state \<Rightarrow> mt_state" where
  "record_send msg r s =
     (case msg of
        None \<Rightarrow> s
      | Some d \<Rightarrow> if r = Some eMSG_Q_SUCCESS then s\<lparr>mt_accepted := mt_accepted s @ [d]\<rparr>
                  else s\<lparr>mt_dropped := mt_dropped s @ [d]\<rparr>)"

inductive mt_step :: "addr \<Rightarrow> mt_state \<Rightarrow> mt_state \<Rightarrow> bool" for q :: addr where
  send: "\<not> mt_stopped s \<Longrightarrow> \<forall>a. alloc = Some a \<longrightarrow> m_elems (q_mem (mt_mem s)) a = None \<Longrightarrow>
     MsgTask_sendMsg alloc (Some q) msg (mt_mem s) = Some (r, m) \<Longrightarrow>
     mt_step q s (record_send msg r (s\<lparr>mt_mem := m\<rparr>))"
| thread: "thread_step q s = Some s' \<Longrightarrow> mt_step q s s'"
| stop: "\<not> mt_stopped s \<Longrightarrow> LocThread_stop q s = Some s' \<Longrightarrow> mt_step q s s'"

inductive mt_reach :: "addr \<Rightarrow> mt_state \<Rightarrow> bool" for q :: addr where
  start: "msg_q_init2 alloc_q alloc_l mrc crc m0 = Some (Some q, m) \<Longrightarrow> m_calls (q_mem m0) = [] \<Longrightarrow>
     mt_reach q \<lparr>mt_mem = m, mt_phase = TReady, mt_stopped = False, mt_accepted = [], mt_dropped = [],
       mt_processed = [], mt_deleted = []\<rparr>"
| step: "mt_reach q s \<Longrightarrow> mt_step q s s' \<Longrightarrow> mt_reach q s'"

section \<open>The invariant of the message thread\<close>

fun in_hand :: "mt_phase \<Rightarrow> nat list" where
  "in_hand (TProcessing d) = [d]"
| "in_hand _ = []"

text \<open>While the queue lives: its unread entries are the accepted messages not yet taken.\<close>

definition mt_alive :: "addr \<Rightarrow> mt_state \<Rightarrow> nat entries \<Rightarrow> bool" where
  "mt_alive q s xs \<longleftrightarrow>
     mt_phase s \<noteq> TDestroyed \<and> q_repr q (mt_mem s) (mt_stopped s) xs [] \<and>
     (\<forall>x \<in> set xs. snd x = Some LocMsgDestroy) \<and>
     mt_accepted s = mt_processed s @ in_hand (mt_phase s) @ rev (map fst xs) \<and>
     mt_deleted s = mt_processed s \<and> (mt_phase s = TExited \<longrightarrow> mt_stopped s)"

text \<open>Afterwards: the messages left in the queue were deleted by the flush.\<close>

definition mt_ended :: "addr \<Rightarrow> mt_state \<Rightarrow> bool" where
  "mt_ended q s \<longleftrightarrow>
     q_qs (mt_mem s) q = None \<and> mt_phase s = TDestroyed \<and> mt_stopped s \<and> mt_deleted s = mt_processed s \<and>
     (\<exists>rest. mt_accepted s = mt_processed s @ rest \<and>
        m_calls (q_mem (mt_mem s)) = map (Pair LocMsgDestroy) (rev rest))"

definition mt_inv :: "addr \<Rightarrow> mt_state \<Rightarrow> bool" where
  "mt_inv q s \<longleftrightarrow> (\<exists>xs. mt_alive q s xs) \<or> mt_ended q s"

lemma entry_calls_destroy:
  "\<forall>x \<in> set xs. snd x = Some g \<Longrightarrow> entry_calls xs = map (Pair g) (map fst xs)"
  by (induction xs) auto

lemma msg_q_destroy_ok:
  assumes "q_repr q m b [] c"
  shows "\<exists>m'. msg_q_destroy (Some (Some q)) m = Some (eMSG_Q_SUCCESS, Some None, m') \<and> m_calls (q_mem m') = c \<and> q_qs m' q = None"
  using assms
proof (rule q_reprE)
  fix mq l
  assume q: "q_qs m q = Some mq" "msg_list mq = Some l" "holds_data l (q_mem m) [] c"
  then have "is_list (q_mem m) l []" "m_calls (q_mem m) = c" by (auto simp: holds_data_def)
  from linked_list_destroy_ok [OF this(1)] this(2) q show ?thesis by (auto simp: msg_q_destroy_def)
qed

text \<open>Every phase of the thread makes a defined step that keeps the invariant.\<close>

lemma thread_step_received:
  assumes "mt_alive q s xs" and "in_hand (mt_phase s) = []" and "out_m = rcvd \<or> out_m = woke"
    and "rcvd = msg_q_rcv (Some q) True (mt_mem s)" and "woke = msg_q_rcv_woken q (mt_mem s)"
  shows "\<exists>s' xs'. Option.bind out_m (\<lambda>(out, m). run_received out (s\<lparr>mt_mem := m\<rparr>)) = Some s' \<and>
    mt_alive q s' xs'"
proof -
  have "q_repr q (mt_mem s) (mt_stopped s) xs []" using assms(1) by (simp add: mt_alive_def)
  from mq.rcv_outcomes [OF this assms(3) [unfolded assms(4,5)]] show ?thesis
  proof (elim disjE exE conjE, goal_cases)
    case (1 m' ys d f)
    with assms(1,2) have "mt_alive q (s\<lparr>mt_mem := m', mt_phase := TProcessing d\<rparr>) ys"
      by (auto simp: mt_alive_def)
    with 1 show ?case by auto
  next
    case (2 m')
    with assms(1,2) have "mt_alive q (s\<lparr>mt_mem := m', mt_phase := TExited\<rparr>) xs"
      by (auto simp: mt_alive_def)
    with 2 show ?case by auto
  next
    case (3 m')
    with assms(1,2) have "mt_alive q (s\<lparr>mt_mem := m', mt_phase := TWaiting\<rparr>) xs"
      by (auto simp: mt_alive_def)
    with 3 show ?case by auto
  qed
qed

lemma destructor_ends:
  assumes "mt_alive q s xs" and "mt_phase s = TExited"
  shows "\<exists>s'. MTRunnable_destructor q s = Some s' \<and> mt_ended q s'"
proof -
  have a: "q_repr q (mt_mem s) True xs []" "\<forall>x \<in> set xs. snd x = Some LocMsgDestroy" "mt_stopped s"
      "mt_accepted s = mt_processed s @ rev (map fst xs)" "mt_deleted s = mt_processed s"
    using assms by (auto simp: mt_alive_def)
  from mq.flush_law [OF a(1)] obtain m1 where m1: "msg_q_flush (Some q) (mt_mem s) = Some (eMSG_Q_SUCCESS, m1)"
      "q_repr q m1 True [] (map (Pair LocMsgDestroy) (map fst xs))"
    by (auto simp: entry_calls_destroy [OF a(2)])
  from msg_q_destroy_ok [OF m1(2)] obtain m2 where
    "msg_q_destroy (Some (Some q)) m1 = Some (eMSG_Q_SUCCESS, Some None, m2)"
    "m_calls (q_mem m2) = map (Pair LocMsgDestroy) (map fst xs)" "q_qs m2 q = None" by auto
  with m1(1) a(3,4,5) show ?thesis by (auto simp: MTRunnable_destructor_def mt_ended_def)
qed

lemma thread_step_inv:
  assumes "mt_inv q s"
  shows "\<exists>s'. thread_step q s = Some s' \<and> mt_inv q s'"
proof (cases "mt_ended q s")
  case True
  then show ?thesis by (auto simp: thread_step_def mt_ended_def mt_inv_def)
next
  case False
  then obtain xs where a: "mt_alive q s xs" using assms by (auto simp: mt_inv_def)
  show ?thesis
  proof (cases "mt_phase s")
    case TReady
    with thread_step_received [OF a _ disjI1 [OF refl] refl refl] show ?thesis
      by (auto simp: thread_step_def MTRunnable_run_def mt_inv_def)
  next
    case TWaiting
    with thread_step_received [OF a _ disjI2 [OF refl] refl refl] show ?thesis
      by (auto simp: thread_step_def MTRunnable_resume_def mt_inv_def)
  next
    case (TProcessing d)
    with a have "mt_alive q (MTRunnable_proc d s) xs" by (auto simp: mt_alive_def MTRunnable_proc_def)
    with TProcessing show ?thesis by (auto simp: thread_step_def mt_inv_def)
  next
    case TExited
    with destructor_ends [OF a] show ?thesis by (auto simp: thread_step_def mt_inv_def)
  next
    case TDestroyed
    with a show ?thesis by (simp add: mt_alive_def)
  qed
qed

lemma send_inv:
  assumes inv: "mt_inv q s" and ns: "\<not> mt_stopped s"
    and fresh: "\<forall>a. alloc = Some a \<longrightarrow> m_elems (q_mem (mt_mem s)) a = None"
  shows "\<exists>r m. MsgTask_sendMsg alloc (Some q) msg (mt_mem s) = Some (r, m) \<and>
    mt_inv q (record_send msg r (s\<lparr>mt_mem := m\<rparr>)) \<and>
    (r = None \<or> r = Some (if alloc = None then eMSG_Q_FAILURE_GENERAL else eMSG_Q_SUCCESS))"
proof -
  obtain xs where a: "mt_alive q s xs" using inv ns by (auto simp: mt_inv_def mt_ended_def)
  show ?thesis
  proof (cases msg)
    case None
    with inv show ?thesis by (auto simp: MsgTask_sendMsg_def record_send_def)
  next
    case (Some d)
    have "q_repr q (mt_mem s) False xs []" using a ns by (simp add: mt_alive_def)
    from mq.snd_law [OF this fresh, of d "Some LocMsgDestroy"] obtain m w where
      m: "msg_q_snd alloc (Some q) (Some d) (Some LocMsgDestroy) (mt_mem s) =
          Some (if alloc = None then eMSG_Q_FAILURE_GENERAL else eMSG_Q_SUCCESS, w, m)"
        "q_repr q m False (if alloc = None then xs else (d, Some LocMsgDestroy) # xs) []" by auto
    have "mt_alive q (record_send msg (Some (if alloc = None then eMSG_Q_FAILURE_GENERAL else eMSG_Q_SUCCESS))
        (s\<lparr>mt_mem := m\<rparr>)) (if alloc = None then xs else (d, Some LocMsgDestroy) # xs)"
      using a m(2) ns by (auto simp: mt_alive_def record_send_def Some)
    with m(1) show ?thesis by (auto simp: MsgTask_sendMsg_def mt_inv_def Some)
  qed
qed

lemma stop_inv:
  assumes inv: "mt_inv q s" and ns: "\<not> mt_stopped s"
  shows "\<exists>s'. LocThread_stop q s = Some s' \<and> mt_inv q s' \<and> mt_stopped s' \<and> mt_phase s' = mt_phase s"
proof -
  obtain xs where a: "mt_alive q s xs" using inv ns by (auto simp: mt_inv_def mt_ended_def)
  then have "q_repr q (mt_mem s) False xs []" using ns by (simp add: mt_alive_def)
  from mq.unblock_law [OF this] obtain r w m where
    m: "msg_q_unblock (Some q) (mt_mem s) = Some (r, w, m)" "q_repr q m True xs []" by blast
  then have "mt_alive q (s\<lparr>mt_mem := m, mt_stopped := True\<rparr>) xs" using a by (auto simp: mt_alive_def)
  with a m(1) show ?thesis
    by (auto simp: LocThread_stop_def MTRunnable_interrupt_def mt_inv_def mt_alive_def)
qed

lemma mt_reach_inv: "mt_reach q s \<Longrightarrow> mt_inv q s"
proof (induction rule: mt_reach.induct)
  case (start alloc_q alloc_l mrc crc m0 m)
  then have "msg_q_init alloc_q alloc_l mrc crc (Some None) m0 = Some (eMSG_Q_SUCCESS, Some (Some q), m)"
    by (auto simp: msg_q_init2_def split: if_splits bind_splits option.splits)
  from msg_q_init_ok [OF this] start(2) show ?case
    by (auto simp: mt_inv_def mt_alive_def intro!: exI [of _ "[]"])
next
  case (step s s')
  from \<open>mt_step q s s'\<close> show ?case
  proof cases
    case (send alloc msg r m)
    with send_inv [OF step.IH send(2,3), of msg] show ?thesis by auto
  next
    case thread
    with thread_step_inv [OF step.IH] show ?thesis by auto
  next
    case stop
    with stop_inv [OF step.IH] show ?thesis by auto
  qed
qed

section \<open>Stopping\<close>

fun phase_rank :: "mt_phase \<Rightarrow> nat" where
  "phase_rank TWaiting = 4"
| "phase_rank (TProcessing d) = 3"
| "phase_rank TReady = 2"
| "phase_rank TExited = 1"
| "phase_rank TDestroyed = 0"

fun thread_steps :: "nat \<Rightarrow> addr \<Rightarrow> mt_state \<Rightarrow> mt_state option" where
  "thread_steps 0 q s = Some s"
| "thread_steps (Suc n) q s = Option.bind (thread_step q s) (thread_steps n q)"

lemma run_received_stopped: "run_received out s = Some s' \<Longrightarrow> mt_stopped s' = mt_stopped s"
  by (induction out s rule: run_received.induct) (auto split: if_splits)

lemma thread_step_stopped: "thread_step q s = Some s' \<Longrightarrow> mt_stopped s' = mt_stopped s"
  by (auto simp: thread_step_def MTRunnable_run_def MTRunnable_resume_def MTRunnable_proc_def
      MTRunnable_destructor_def split: mt_phase.splits bind_splits dest!: run_received_stopped)

lemma stopped_step_rank:
  assumes "mt_inv q s" and "mt_stopped s" and "thread_step q s = Some s'"
  shows "phase_rank (mt_phase s') \<le> phase_rank (mt_phase s) - 1"
proof (cases "mt_ended q s")
  case True
  with assms(3) show ?thesis by (auto simp: mt_ended_def thread_step_def)
next
  case False
  then obtain xs where a: "mt_alive q s xs" using assms(1) by (auto simp: mt_inv_def)
  with assms(2) have q: "q_repr q (mt_mem s) True xs []" by (simp add: mt_alive_def)
  show ?thesis
  proof (cases "mt_phase s")
    case TReady
    with mq.rcv_refused [OF q] assms(3) show ?thesis by (auto simp: thread_step_def MTRunnable_run_def)
  next
    case TWaiting
    with mq.rcv_outcomes [OF q disjI2 [OF refl]] assms(3) show ?thesis
      by (auto simp: thread_step_def MTRunnable_resume_def)
  qed (use assms(3) in \<open>auto simp: thread_step_def MTRunnable_proc_def MTRunnable_destructor_def
        split: bind_splits\<close>)
qed

lemma thread_steps_end:
  "mt_inv q s \<Longrightarrow> mt_stopped s \<Longrightarrow> phase_rank (mt_phase s) \<le> n \<Longrightarrow>
     \<exists>s'. thread_steps n q s = Some s' \<and> mt_inv q s' \<and> mt_phase s' = TDestroyed"
proof (induction n arbitrary: s)
  case 0
  then show ?case by (cases "mt_phase s") auto
next
  case (Suc n)
  obtain s1 where s1: "thread_step q s = Some s1" "mt_inv q s1" using thread_step_inv [OF Suc.prems(1)] by auto
  have "phase_rank (mt_phase s1) \<le> n" using stopped_step_rank [OF Suc.prems(1,2) s1(1)] Suc.prems(3) by simp
  with Suc.IH [OF s1(2)] Suc.prems(2) thread_step_stopped [OF s1(1)] s1(1) show ?case by auto
qed

section \<open>Properties\<close>

text \<open>Messages are processed in the order in which the queue accepted them: at any time the
  processed ones are a prefix of the accepted ones, the thread has deleted exactly those, and the
  message in hand is the next one.\<close>

theorem mt_processing_order:
  assumes "mt_reach q s"
  shows "(\<exists>rest. mt_accepted s = mt_processed s @ in_hand (mt_phase s) @ rest) \<and> mt_deleted s = mt_processed s"
  using mt_reach_inv [OF assms] by (auto simp: mt_inv_def mt_alive_def mt_ended_def)

text \<open>C1. Each accepted message is deleted exactly once: when the runnable is gone, the thread's
  deletions and the calls of \<open>LocMsgDestroy\<close> that the final flush made are together the accepted
  messages, with the same multiplicities, and no other dealloc function was called.\<close>

theorem mt_deleted_once:
  assumes "mt_reach q s" and "mt_phase s = TDestroyed"
  shows "mset (mt_deleted s) + mset (map snd (m_calls (q_mem (mt_mem s)))) = mset (mt_accepted s) \<and>
    fst ` set (m_calls (q_mem (mt_mem s))) \<subseteq> {LocMsgDestroy}"
  using mt_reach_inv [OF assms(1)] assms(2) by (auto simp: mt_inv_def mt_alive_def mt_ended_def multiset.map_comp comp_def)

text \<open>The queue is never used after it was freed and the thread never gets stuck: in every
  reachable state the thread can make its next step, and as long as the MsgTask has not been
  destroyed, sending and destroying it are defined.\<close>

theorem mt_no_undefined:
  assumes "mt_reach q s"
    and "\<forall>a. alloc = Some a \<longrightarrow> m_elems (q_mem (mt_mem s)) a = None"
  shows "thread_step q s \<noteq> None \<and>
    (\<not> mt_stopped s \<longrightarrow> MsgTask_sendMsg alloc (Some q) msg (mt_mem s) \<noteq> None \<and> LocThread_stop q s \<noteq> None)"
  using thread_step_inv [OF mt_reach_inv [OF assms(1)]] send_inv [OF mt_reach_inv [OF assms(1)] _ assms(2)]
    stop_inv [OF mt_reach_inv [OF assms(1)]] by blast

text \<open>C39. A stopped thread ends: from any reachable state in which the MsgTask has been destroyed, the
  thread needs at most four more steps of its own, at most one of them processing a message, until
  its runnable is destroyed and the queue freed.\<close>

theorem mt_stop_ends:
  assumes "mt_reach q s" and "mt_stopped s"
  shows "\<exists>s'. thread_steps 4 q s = Some s' \<and> mt_phase s' = TDestroyed \<and> q_qs (mt_mem s') q = None"
proof -
  have "phase_rank (mt_phase s) \<le> 4" by (cases "mt_phase s") auto
  from thread_steps_end [OF mt_reach_inv [OF assms(1)] assms(2) this] obtain s' where
    "thread_steps 4 q s = Some s'" "mt_inv q s'" "mt_phase s' = TDestroyed" by blast
  then show ?thesis by (auto simp: mt_inv_def mt_alive_def mt_ended_def)
qed

section \<open>A run\<close>

text \<open>A message is sent, the MsgTask is destroyed, and the thread ends without processing it.\<close>

definition mt_demo_mem :: "bool \<Rightarrow> nat qmem" where
  "mt_demo_mem b =
     \<lparr>q_mem = \<lparr>m_elems = [1 \<mapsto> \<lparr>le_next = None, le_prev = None, le_data = 10, le_dealloc = Some LocMsgDestroy\<rparr>],
        m_lists = [0 \<mapsto> \<lparr>p_head = Some 1, p_tail = Some 1\<rparr>], m_calls = []\<rparr>,
      q_qs = [0 \<mapsto> \<lparr>msg_list = Some 0, unblocked = b\<rparr>]\<rparr>"

definition mt_demo :: "nat qmem \<Rightarrow> mt_phase \<Rightarrow> bool \<Rightarrow> nat list \<Rightarrow> mt_state" where
  "mt_demo m ph b acc = \<lparr>mt_mem = m, mt_phase = ph, mt_stopped = b, mt_accepted = acc, mt_dropped = [],
     mt_processed = [], mt_deleted = []\<rparr>"

definition mt_demo_end :: "nat qmem" where
  "mt_demo_end = \<lparr>q_mem = \<lparr>m_elems = Map.empty, m_lists = Map.empty, m_calls = [(LocMsgDestroy, 10)]\<rparr>,
     q_qs = Map.empty\<rparr>"

lemma mt_demo_sent: "mt_reach 0 (mt_demo (mt_demo_mem False) TReady False [10])"
proof -
  have init: "msg_q_init2 (Some 0) (Some 0) 0 0 demo_none = Some (Some 0, demo_empty)"
    by (simp add: msg_q_init2_def msg_q_init_def linked_list_init_def demo_none_def demo_empty_def)
  have calls: "m_calls (q_mem demo_none) = []" by (simp add: demo_none_def)
  have r0: "mt_reach 0 (mt_demo demo_empty TReady False [])"
    using mt_reach.start [OF init calls] by (simp add: mt_demo_def)
  have snd: "MsgTask_sendMsg (Some 1) (Some 0) (Some 10) demo_empty = Some (Some eMSG_Q_SUCCESS, mt_demo_mem False)"
    by (simp add: MsgTask_sendMsg_def msg_q_snd_def linked_list_add_def upd_list_def Let_def demo_empty_def mt_demo_mem_def)
  have "\<forall>a. Some (1 :: nat) = Some a \<longrightarrow> m_elems (q_mem demo_empty) a = None" by (simp add: demo_empty_def)
  with mt_reach.step [OF r0 mt_step.send [of _ "Some 1" 0 "Some 10"]] snd show ?thesis
    by (simp add: mt_demo_def record_send_def)
qed

lemma mt_demo_stop: "mt_reach 0 (mt_demo (mt_demo_mem True) TReady True [10])"
proof -
  have "LocThread_stop 0 (mt_demo (mt_demo_mem False) TReady False [10]) =
      Some (mt_demo (mt_demo_mem True) TReady True [10])"
    by (simp add: LocThread_stop_def MTRunnable_interrupt_def msg_q_unblock_def mt_demo_def mt_demo_mem_def)
  from mt_reach.step [OF mt_demo_sent mt_step.stop [OF _ this]] show ?thesis by (simp add: mt_demo_def)
qed

lemma mt_demo_destroyed: "mt_reach 0 (mt_demo mt_demo_end TDestroyed True [10])"
proof -
  have "thread_step 0 (mt_demo (mt_demo_mem True) TReady True [10]) = Some (mt_demo (mt_demo_mem True) TExited True [10])"
    by (simp add: thread_step_def MTRunnable_run_def msg_q_rcv_def mt_demo_def mt_demo_mem_def)
  from mt_reach.step [OF mt_demo_stop mt_step.thread [OF this]]
  have "mt_reach 0 (mt_demo (mt_demo_mem True) TExited True [10])" .
  moreover have "thread_step 0 (mt_demo (mt_demo_mem True) TExited True [10]) = Some (mt_demo mt_demo_end TDestroyed True [10])"
    by (simp add: thread_step_def MTRunnable_destructor_def msg_q_flush_def msg_q_destroy_def linked_list_destroy_def
        linked_list_flush_def flush_loop.simps free_elem_def upd_list_def call_dealloc_def mt_demo_def
        mt_demo_mem_def mt_demo_end_def)
  ultimately show ?thesis by (rule mt_reach.step [OF _ mt_step.thread])
qed

lemma mt_processing_order_witness:
  "mt_reach 0 (mt_demo (mt_demo_mem False) TReady False [10]) \<and> (\<exists>rest. [10] = [] @ ([] :: nat list) @ rest)"
  using mt_processing_order [OF mt_demo_sent] mt_demo_sent by (simp add: mt_demo_def)

lemma mt_deleted_once_witness: "mset [] + mset (map snd [(LocMsgDestroy, 10)]) = mset [10 :: nat]"
  using mt_deleted_once [OF mt_demo_destroyed] by (simp add: mt_demo_def mt_demo_end_def)

lemma mt_no_undefined_witness: "thread_step 0 (mt_demo (mt_demo_mem False) TReady False [10]) \<noteq> None"
  using mt_no_undefined [OF mt_demo_sent, of None] by simp

lemma mt_stop_ends_witness:
  "\<exists>s'. thread_steps 4 0 (mt_demo (mt_demo_mem True) TReady True [10]) = Some s' \<and> mt_phase s' = TDestroyed"
  using mt_stop_ends [OF mt_demo_stop] by (auto simp: mt_demo_def)

end
