(* ===== verification/Loc_Heap.thy ===== *)
theory Loc_Heap
  imports Loc_Prelude "HOL-Library.Multiset"
begin

text \<open>
  The heap of gps/utils/LocHeap.cpp: a binary tree of nodes that carry the size of their subtree
  and a pointer to client data, sorted vertically by the client's ranking. The ranking is the
  virtual method \<open>LocRankable::ranks\<close> of the client's data, an argument of the definitions; the
  laws it must obey are the locale \<open>loc_ranking\<close>, relative to the data the client really stores.
  The theorems show that pushing, popping and removing keep the heap order and the sizes, act on
  the multiset of data as they should, that \<open>checkNodes\<close> decides exactly this, that popping
  returns a highest ranking datum, and that pushing alone keeps the tree balanced.
\<close>

section \<open>Data\<close>

text \<open>\<open>NoNode\<close> is the NULL pointer. \<open>mSize\<close> stays far below the bound of an int.\<close>

datatype 'a heap_node =
    NoNode
  | LocHeapNode (mSize: int) (mLeft: "'a heap_node") (mData: 'a) (mRight: "'a heap_node")

section \<open>Operations\<close>

definition outRanks :: "('a \<Rightarrow> 'a \<Rightarrow> int) \<Rightarrow> 'a \<Rightarrow> 'a \<Rightarrow> bool" where
  "outRanks ranks a b \<longleftrightarrow> ranks a b > 0"

definition new_node :: "'a \<Rightarrow> 'a heap_node" where
  "new_node d = LocHeapNode 1 NoNode d NoNode"

text \<open>\<open>LocHeapNode::push\<close> is not called on NULL.\<close>

fun node_push :: "('a \<Rightarrow> 'a \<Rightarrow> int) \<Rightarrow> 'a \<Rightarrow> 'a heap_node \<Rightarrow> 'a heap_node" where
  "node_push ranks d NoNode = NoNode"
| "node_push ranks d (LocHeapNode s l x r) =
     (let (x', d') = (if outRanks ranks d x then (d, x) else (x, d)) in
      if l = NoNode then LocHeapNode (s + 1) (new_node d') x' r
      else if r = NoNode then LocHeapNode (s + 1) l x' (new_node d')
      else if mSize l \<le> mSize r then LocHeapNode (s + 1) (node_push ranks d' l) x' r
      else LocHeapNode (s + 1) l x' (node_push ranks d' r))"

text \<open>Swapping the data of a node with that of the top of a subtree.\<close>

fun set_data :: "'a \<Rightarrow> 'a heap_node \<Rightarrow> 'a heap_node" where
  "set_data d NoNode = NoNode"
| "set_data d (LocHeapNode s l x r) = LocHeapNode s l d r"

lemma size_set_data [simp]: "size (set_data d t) = size t"
  by (cases t) auto

lemma set_data_eq_NoNode [simp]: "set_data d t = NoNode \<longleftrightarrow> t = NoNode"
  by (cases t) auto

text \<open>
  \<open>LocHeapNode::pop\<close>: the datum carried by the node popped out at the bottom, and the tree left.
\<close>

function (sequential) node_pop :: "('a \<Rightarrow> 'a \<Rightarrow> int) \<Rightarrow> 'a heap_node \<Rightarrow> 'a option \<times> 'a heap_node" where
  "node_pop ranks NoNode = (None, NoNode)"
| "node_pop ranks (LocHeapNode s l x r) =
     (if l \<noteq> NoNode \<or> r \<noteq> NoNode then
        (if l = NoNode then
           (let (d, r') = node_pop ranks (set_data x r) in (d, LocHeapNode (s - 1) l (mData r) r'))
         else if r = NoNode then
           (let (d, l') = node_pop ranks (set_data x l) in (d, LocHeapNode (s - 1) l' (mData l) r))
         else if outRanks ranks (mData l) (mData r) then
           (let (d, l') = node_pop ranks (set_data x l) in (d, LocHeapNode (s - 1) l' (mData l) r))
         else
           (let (d, r') = node_pop ranks (set_data x r) in (d, LocHeapNode (s - 1) l (mData r) r')))
      else (Some x, NoNode))"
  by pat_completeness auto
termination by (relation "measure (\<lambda>(_, t). size t)") auto

fun node_remove :: "('a \<Rightarrow> 'a \<Rightarrow> int) \<Rightarrow> 'a \<Rightarrow> 'a heap_node \<Rightarrow> 'a option \<times> 'a heap_node" where
  "node_remove ranks d NoNode = (None, NoNode)"
| "node_remove ranks d (LocHeapNode s l x r) =
     (if d = x then node_pop ranks (LocHeapNode s l x r)
      else if \<not> outRanks ranks d x then
        (let (found, l') = (if l \<noteq> NoNode then node_remove ranks d l else (None, l));
             (found', r') = (if found = None \<and> r \<noteq> NoNode then node_remove ranks d r else (found, r))
         in (found', LocHeapNode (if found' \<noteq> None then s - 1 else s) l' x r'))
      else (None, LocHeapNode s l x r))"

fun checkNodes :: "('a \<Rightarrow> 'a \<Rightarrow> int) \<Rightarrow> 'a heap_node \<Rightarrow> bool" where
  "checkNodes ranks NoNode = True"
| "checkNodes ranks (LocHeapNode s l x r) =
     (if l \<noteq> NoNode \<and> (outRanks ranks (mData l) x \<or> \<not> checkNodes ranks l) then False
      else if r \<noteq> NoNode \<and> (outRanks ranks (mData r) x \<or> \<not> checkNodes ranks r) then False
      else s - (if l \<noteq> NoNode then mSize l else 0) - (if r \<noteq> NoNode then mSize r else 0) = 1)"

text \<open>The operations of LocHeap, on the pointer \<open>mTree\<close>.\<close>

definition LocHeap_push :: "('a \<Rightarrow> 'a \<Rightarrow> int) \<Rightarrow> 'a \<Rightarrow> 'a heap_node \<Rightarrow> 'a heap_node" where
  "LocHeap_push ranks d mTree = (if mTree = NoNode then new_node d else node_push ranks d mTree)"

definition LocHeap_peek :: "'a heap_node \<Rightarrow> 'a option" where
  "LocHeap_peek mTree = (case mTree of NoNode \<Rightarrow> None | LocHeapNode s l x r \<Rightarrow> Some x)"

definition LocHeap_pop :: "('a \<Rightarrow> 'a \<Rightarrow> int) \<Rightarrow> 'a heap_node \<Rightarrow> 'a option \<times> 'a heap_node" where
  "LocHeap_pop ranks mTree = (if mTree \<noteq> NoNode then node_pop ranks mTree else (None, mTree))"

definition LocHeap_remove :: "('a \<Rightarrow> 'a \<Rightarrow> int) \<Rightarrow> 'a \<Rightarrow> 'a heap_node \<Rightarrow> 'a option \<times> 'a heap_node" where
  "LocHeap_remove ranks d mTree = (if mTree \<noteq> NoNode then node_remove ranks d mTree else (None, mTree))"

definition checkTree :: "('a \<Rightarrow> 'a \<Rightarrow> int) \<Rightarrow> 'a heap_node \<Rightarrow> bool" where
  "checkTree ranks mTree \<longleftrightarrow> mTree = NoNode \<or> checkNodes ranks mTree"

definition getTreeSize :: "'a heap_node \<Rightarrow> int" where
  "getTreeSize mTree = (if mTree = NoNode then 0 else mSize mTree)"

section \<open>Contents, sizes and order\<close>

fun contents :: "'a heap_node \<Rightarrow> 'a multiset" where
  "contents NoNode = {#}"
| "contents (LocHeapNode s l x r) = add_mset x (contents l + contents r)"

text \<open>Every size field is the number of nodes of its subtree.\<close>

fun sized :: "'a heap_node \<Rightarrow> bool" where
  "sized NoNode \<longleftrightarrow> True"
| "sized (LocHeapNode s l x r) \<longleftrightarrow> s = 1 + int (size (contents l)) + int (size (contents r)) \<and> sized l \<and> sized r"

text \<open>No datum outranks a datum above it.\<close>

fun heap_ordered :: "('a \<Rightarrow> 'a \<Rightarrow> int) \<Rightarrow> 'a heap_node \<Rightarrow> bool" where
  "heap_ordered ranks NoNode \<longleftrightarrow> True"
| "heap_ordered ranks (LocHeapNode s l x r) \<longleftrightarrow>
     (\<forall>y \<in># contents l + contents r. \<not> outRanks ranks y x) \<and> heap_ordered ranks l \<and> heap_ordered ranks r"

definition heap_ok :: "('a \<Rightarrow> 'a \<Rightarrow> int) \<Rightarrow> 'a heap_node \<Rightarrow> bool" where
  "heap_ok ranks t \<longleftrightarrow> sized t \<and> heap_ordered ranks t"

lemma sized_mSize: "sized t \<Longrightarrow> t \<noteq> NoNode \<Longrightarrow> mSize t = int (size (contents t))"
  by (cases t) auto

lemma contents_eq_empty [simp]: "contents t = {#} \<longleftrightarrow> t = NoNode"
  by (cases t) auto

lemma mData_in [simp]: "t \<noteq> NoNode \<Longrightarrow> mData t \<in># contents t"
  by (cases t) auto

lemma peek_mData: "LocHeap_peek t = (if t = NoNode then None else Some (mData t))"
  by (cases t) (auto simp: LocHeap_peek_def)

section \<open>Push\<close>

lemma new_node_simps [simp]:
  "contents (new_node d) = {#d#}" "sized (new_node d)" "heap_ordered ranks (new_node d)" "new_node d \<noteq> NoNode"
  "mSize (new_node d) = 1"
  by (auto simp: new_node_def)

lemma contents_push: "t \<noteq> NoNode \<Longrightarrow> contents (node_push ranks d t) = add_mset d (contents t)"
  by (induction ranks d t rule: node_push.induct) (auto simp: Let_def)

lemma node_push_not_NoNode: "t \<noteq> NoNode \<Longrightarrow> node_push ranks d t \<noteq> NoNode"
  using contents_push [of t ranks d] by auto

lemma sized_push: "t \<noteq> NoNode \<Longrightarrow> sized t \<Longrightarrow> sized (node_push ranks d t)"
  by (induction ranks d t rule: node_push.induct) (auto simp: Let_def contents_push)

section \<open>Pop\<close>

lemma contents_set_data:
  "t \<noteq> NoNode \<Longrightarrow> add_mset (mData t) (contents (set_data x t)) = add_mset x (contents t)"
  by (cases t) auto

lemma sized_set_data [simp]: "sized (set_data x t) = sized t"
  by (cases t) auto

lemma mData_set_data [simp]: "t \<noteq> NoNode \<Longrightarrow> mData (set_data x t) = x"
  by (cases t) auto

lemma node_pop_data: "t \<noteq> NoNode \<Longrightarrow> fst (node_pop ranks t) = Some (mData t)"
  by (induction ranks t rule: node_pop.induct) (auto simp: split_beta)

text \<open>Popping the replaced datum out of a subtree leaves the subtree without its old top.\<close>

lemma contents_pop_sub:
  assumes "t \<noteq> NoNode" and "add_mset x (contents (snd (node_pop ranks (set_data x t)))) = contents (set_data x t)"
  shows "add_mset (mData t) (contents (snd (node_pop ranks (set_data x t)))) = contents t"
proof -
  have "add_mset x (add_mset (mData t) (contents (snd (node_pop ranks (set_data x t))))) = add_mset x (contents t)"
    using assms contents_set_data [OF assms(1), of x] by (metis add_mset_commute)
  then show ?thesis by simp
qed

lemma node_pop_left:
  "l \<noteq> NoNode \<Longrightarrow> r = NoNode \<or> outRanks ranks (mData l) (mData r) \<Longrightarrow>
     snd (node_pop ranks (LocHeapNode s l x r)) =
       LocHeapNode (s - 1) (snd (node_pop ranks (set_data x l))) (mData l) r"
  by (auto simp: split_beta)

lemma node_pop_right:
  "r \<noteq> NoNode \<Longrightarrow> l = NoNode \<or> \<not> outRanks ranks (mData l) (mData r) \<Longrightarrow>
     snd (node_pop ranks (LocHeapNode s l x r)) =
       LocHeapNode (s - 1) l (mData r) (snd (node_pop ranks (set_data x r)))"
  by (auto simp: split_beta)

text \<open>The case analysis of the proofs about \<open>pop\<close>.\<close>

lemma node_pop_induct [case_names null leaf left right]:
  assumes "P NoNode" and "\<And>s x. P (LocHeapNode s NoNode x NoNode)"
    and "\<And>s l x r. l \<noteq> NoNode \<Longrightarrow> r = NoNode \<or> outRanks ranks (mData l) (mData r) \<Longrightarrow>
      P (set_data x l) \<Longrightarrow> P (LocHeapNode s l x r)"
    and "\<And>s l x r. r \<noteq> NoNode \<Longrightarrow> l = NoNode \<or> \<not> outRanks ranks (mData l) (mData r) \<Longrightarrow>
      P (set_data x r) \<Longrightarrow> P (LocHeapNode s l x r)"
  shows "P t"
proof (induction t rule: measure_induct_rule [of size])
  case (less t)
  show ?case
  proof (cases t)
    case (LocHeapNode s l x r)
    have "P (set_data x l)" "P (set_data x r)" by (rule less; simp add: LocHeapNode)+
    with assms(2-) show ?thesis unfolding LocHeapNode by metis
  qed (simp add: assms(1))
qed

lemma contents_pop:
  "t \<noteq> NoNode \<Longrightarrow> add_mset (mData t) (contents (snd (node_pop ranks t))) = contents t"
proof (induction t rule: node_pop_induct [of _ ranks])
  case (left s l x r)
  have "add_mset x (contents (snd (node_pop ranks (set_data x l)))) = contents (set_data x l)"
    using left by simp
  from contents_pop_sub [OF left(1) this] show ?case
    by (simp add: node_pop_left [OF left(1,2)] del: node_pop.simps flip: union_mset_add_mset_left)
next
  case (right s l x r)
  have "add_mset x (contents (snd (node_pop ranks (set_data x r)))) = contents (set_data x r)"
    using right by simp
  from contents_pop_sub [OF right(1) this] show ?case
    by (simp add: node_pop_right [OF right(1,2)] del: node_pop.simps flip: union_mset_add_mset_right)
qed simp_all

lemma contents_popped: "t \<noteq> NoNode \<Longrightarrow> contents (snd (node_pop ranks t)) = contents t - {#mData t#}"
  using contents_pop [of t ranks] by (metis add_mset_remove_trivial)

lemma size_popped: "t \<noteq> NoNode \<Longrightarrow> Suc (size (contents (snd (node_pop ranks t)))) = size (contents t)"
  using contents_pop [of t ranks] by (metis size_add_mset)

lemma size_contents_set_data [simp]: "size (contents (set_data x t)) = size (contents t)"
  by (cases t) auto

lemma sized_pop: "sized t \<Longrightarrow> sized (snd (node_pop ranks t))"
proof (induction t rule: node_pop_induct [of _ ranks])
  case (left s l x r)
  then show ?case using size_popped [of "set_data x l" ranks]
    by (simp add: node_pop_left [OF left(1,2)] del: node_pop.simps)
next
  case (right s l x r)
  then show ?case using size_popped [of "set_data x r" ranks]
    by (simp add: node_pop_right [OF right(1,2)] del: node_pop.simps)
qed simp_all

section \<open>Rankings\<close>

text \<open>
  The laws of a ranking, on the data \<open>good\<close> the client stores: no two outrank each other, and not
  being outranked is transitive.
\<close>

locale loc_ranking =
  fixes ranks :: "'a \<Rightarrow> 'a \<Rightarrow> int" and good :: "'a \<Rightarrow> bool"
  assumes outranks_asym: "good a \<Longrightarrow> good b \<Longrightarrow> outRanks ranks a b \<Longrightarrow> \<not> outRanks ranks b a"
    and outranks_negtrans: "good a \<Longrightarrow> good b \<Longrightarrow> good c \<Longrightarrow>
      \<not> outRanks ranks b a \<Longrightarrow> \<not> outRanks ranks c b \<Longrightarrow> \<not> outRanks ranks c a"
begin

definition all_good :: "'a heap_node \<Rightarrow> bool" where
  "all_good t \<longleftrightarrow> (\<forall>x \<in># contents t. good x)"

lemma all_good_simps [simp]:
  "all_good NoNode" "all_good (LocHeapNode s l x r) \<longleftrightarrow> good x \<and> all_good l \<and> all_good r"
  by (auto simp: all_good_def)

lemma all_good_mData: "all_good t \<Longrightarrow> t \<noteq> NoNode \<Longrightarrow> good (mData t)"
  by (auto simp: all_good_def)

lemma outranks_irrefl: "good a \<Longrightarrow> \<not> outRanks ranks a a"
  using outranks_asym by blast

text \<open>The top of a heap is not outranked, and data below a top that \<open>d\<close> outranks do not outrank \<open>d\<close>.\<close>

lemma heap_top: "heap_ordered ranks t \<Longrightarrow> all_good t \<Longrightarrow> t \<noteq> NoNode \<Longrightarrow> y \<in># contents t \<Longrightarrow>
    \<not> outRanks ranks y (mData t)"
  by (cases t) (auto simp: outranks_irrefl)

lemma heap_push: "t \<noteq> NoNode \<Longrightarrow> heap_ordered ranks t \<Longrightarrow> all_good t \<Longrightarrow> good d \<Longrightarrow>
    heap_ordered ranks (node_push ranks d t)"
proof (induction t arbitrary: d)
  case (LocHeapNode s l x r)
  define x' d' where "x' = (if outRanks ranks d x then d else x)" and "d' = (if outRanks ranks d x then x else d)"
  have good: "good x'" "good d'" using LocHeapNode.prems by (auto simp: x'_def d'_def)
  have gd: "good d" "good x" and gy: "\<forall>y \<in># contents l + contents r. good y"
    and old: "\<forall>y \<in># contents l + contents r. \<not> outRanks ranks y x"
    using LocHeapNode.prems by (auto simp: all_good_def)
  have top: "\<not> outRanks ranks d' x'" "\<forall>y \<in># contents l + contents r. \<not> outRanks ranks y x'"
  proof -
    show "\<not> outRanks ranks d' x'" using outranks_asym [OF gd] by (simp add: x'_def d'_def)
    show "\<forall>y \<in># contents l + contents r. \<not> outRanks ranks y x'"
    proof (cases "outRanks ranks d x")
      case True
      then show ?thesis using outranks_negtrans [OF gd _ outranks_asym [OF gd True]] gy old by (simp add: x'_def)
    qed (use old in \<open>simp add: x'_def\<close>)
  qed
  have sub: "t = NoNode \<or> heap_ordered ranks (node_push ranks d' t)" if "t = l \<or> t = r" for t
    using that LocHeapNode good by auto
  have "node_push ranks d (LocHeapNode s l x r) =
      (if l = NoNode then LocHeapNode (s + 1) (new_node d') x' r
      else if r = NoNode then LocHeapNode (s + 1) l x' (new_node d')
      else if mSize l \<le> mSize r then LocHeapNode (s + 1) (node_push ranks d' l) x' r
      else LocHeapNode (s + 1) l x' (node_push ranks d' r))"
    by (simp add: x'_def d'_def)
  with top sub LocHeapNode.prems show ?case by (auto simp: contents_push)
qed simp

lemma all_good_push: "t \<noteq> NoNode \<Longrightarrow> all_good t \<Longrightarrow> good d \<Longrightarrow> all_good (node_push ranks d t)"
  by (simp add: all_good_def contents_push)

text \<open>A subtree whose top was replaced by a datum from above is in order except at its top.\<close>

fun below_ordered :: "'a heap_node \<Rightarrow> bool" where
  "below_ordered NoNode \<longleftrightarrow> True"
| "below_ordered (LocHeapNode s l x r) \<longleftrightarrow> heap_ordered ranks l \<and> heap_ordered ranks r"

lemma below_ordered_set_data [simp]: "below_ordered (set_data x t) = below_ordered t"
  by (cases t) auto

lemma heap_below: "heap_ordered ranks t \<Longrightarrow> below_ordered t"
  by (cases t) auto

lemma all_good_set_data: "all_good t \<Longrightarrow> good x \<Longrightarrow> all_good (set_data x t)"
  by (cases t) auto

text \<open>What is left of a subtree after its replaced top was popped out.\<close>

lemma contents_popped_sub:
  assumes "t \<noteq> NoNode"
  shows "contents (snd (node_pop ranks (set_data x t))) = contents t - {#mData t#}"
proof -
  have "add_mset x (contents (snd (node_pop ranks (set_data x t)))) = contents (set_data x t)"
    using contents_pop [of "set_data x t" ranks] assms by simp
  from contents_pop_sub [OF assms this] show ?thesis by (metis add_mset_remove_trivial)
qed

lemma in_popped_sub: "t \<noteq> NoNode \<Longrightarrow> y \<in># contents (snd (node_pop ranks (set_data x t))) \<Longrightarrow> y \<in># contents t"
  by (auto simp: contents_popped_sub dest: in_diffD)

lemma heap_pop: "below_ordered t \<Longrightarrow> all_good t \<Longrightarrow> heap_ordered ranks (snd (node_pop ranks t))"
proof (induction t rule: node_pop_induct [of _ ranks])
  case (left s l x r)
  have top: "\<forall>y \<in># contents l. \<not> outRanks ranks y (mData l)" using left heap_top by auto
  have "\<not> outRanks ranks y (mData l)" if "y \<in># contents r" for y
  proof -
    have r: "r \<noteq> NoNode" using that by auto
    then have "\<not> outRanks ranks (mData r) (mData l)"
      using left outranks_asym all_good_mData by (metis all_good_simps(2))
    moreover have "\<not> outRanks ranks y (mData r)" using left that r heap_top by auto
    moreover have "good y" "good (mData l)" "good (mData r)"
      using left that r all_good_mData by (auto simp: all_good_def)
    ultimately show ?thesis using outranks_negtrans by blast
  qed
  with top left show ?case
    by (auto simp: node_pop_left [OF left(1,2)] all_good_set_data heap_below
        simp del: node_pop.simps dest: in_popped_sub)
next
  case (right s l x r)
  have top: "\<forall>y \<in># contents r. \<not> outRanks ranks y (mData r)" using right heap_top by auto
  have "\<not> outRanks ranks y (mData r)" if "y \<in># contents l" for y
  proof -
    have l: "l \<noteq> NoNode" using that by auto
    then have "\<not> outRanks ranks (mData l) (mData r)" using right by auto
    moreover have "\<not> outRanks ranks y (mData l)" using right that l heap_top by auto
    moreover have "good y" "good (mData l)" "good (mData r)"
      using right that l all_good_mData by (auto simp: all_good_def)
    ultimately show ?thesis using outranks_negtrans by blast
  qed
  with top right show ?case
    by (auto simp: node_pop_right [OF right(1,2)] all_good_set_data heap_below
        simp del: node_pop.simps dest: in_popped_sub)
qed simp_all

lemma all_good_pop: "all_good t \<Longrightarrow> t \<noteq> NoNode \<Longrightarrow> all_good (snd (node_pop ranks t))"
  by (auto simp: all_good_def contents_popped dest: in_diffD)

text \<open>Removing by address: the datum goes once if it is there, else nothing changes.\<close>

lemma node_remove_notin: "d \<notin># contents t \<Longrightarrow> node_remove ranks d t = (None, t)"
  by (induction ranks d t rule: node_remove.induct) auto

lemma node_remove_in:
  "d \<in># contents t \<Longrightarrow> sized t \<Longrightarrow> heap_ordered ranks t \<Longrightarrow> all_good t \<Longrightarrow>
     fst (node_remove ranks d t) = Some d \<and> contents (snd (node_remove ranks d t)) = contents t - {#d#} \<and>
     sized (snd (node_remove ranks d t)) \<and> heap_ordered ranks (snd (node_remove ranks d t))"
proof (induction t)
  case (LocHeapNode s l x r)
  show ?case
  proof (cases "d = x")
    case True
    let ?t = "LocHeapNode s l x r"
    have "node_remove ranks d ?t = node_pop ranks ?t" using True by simp
    moreover have "fst (node_pop ranks ?t) = Some d" using node_pop_data [of ?t ranks] True by simp
    ultimately show ?thesis
      using True contents_popped [of ?t ranks] sized_pop [of ?t ranks] heap_pop [of ?t] LocHeapNode.prems
      by (simp del: node_pop.simps contents.simps add: heap_below)
  next
    case False
    with LocHeapNode.prems have nr: "\<not> outRanks ranks d x" by auto
    have facts: "sized l" "sized r" "heap_ordered ranks l" "heap_ordered ranks r" "all_good l" "all_good r"
        "s = 1 + int (size (contents l)) + int (size (contents r))"
        "\<forall>y \<in># contents l + contents r. \<not> outRanks ranks y x"
      using LocHeapNode.prems by auto
    show ?thesis
    proof (cases "d \<in># contents l")
      case True
      note ih = LocHeapNode.IH(1) [OF True facts(1,3,5)]
      have ne: "l \<noteq> NoNode" using True by auto
      from ih have eq: "node_remove ranks d (LocHeapNode s l x r) =
          (Some d, LocHeapNode (s - 1) (snd (node_remove ranks d l)) x r)"
        using False nr ne by (cases "node_remove ranks d l") simp
      have c: "contents (snd (node_remove ranks d (LocHeapNode s l x r))) = contents (LocHeapNode s l x r) - {#d#}"
        unfolding eq using ih False True by (simp add: diff_add_mset_swap)
      have "\<forall>y \<in># contents l - {#d#}. \<not> outRanks ranks y x"
        "\<forall>y \<in># contents r. \<not> outRanks ranks y x" using facts(8) by (auto dest: in_diffD)
      then have o: "heap_ordered ranks (snd (node_remove ranks d (LocHeapNode s l x r)))"
        unfolding eq using ih facts(3,4) by (simp add: ball_Un)
      have "int (size (contents l - {#d#})) = int (size (contents l)) - 1"
        using size_Suc_Diff1 [OF True] by linarith
      then have z: "sized (snd (node_remove ranks d (LocHeapNode s l x r)))"
        unfolding eq using ih facts(1,2,7) by simp
      show ?thesis using c o z unfolding eq by (simp only: fst_conv snd_conv simp_thms)
    next
      case notl: False
      then have inr: "d \<in># contents r" using LocHeapNode.prems False by auto
      note ih = LocHeapNode.IH(2) [OF inr facts(2,4,6)]
      have ne: "r \<noteq> NoNode" using inr by auto
      from ih have eq: "node_remove ranks d (LocHeapNode s l x r) =
          (Some d, LocHeapNode (s - 1) l x (snd (node_remove ranks d r)))"
        using False nr ne node_remove_notin [OF notl] by (cases "node_remove ranks d r") simp
      have c: "contents (snd (node_remove ranks d (LocHeapNode s l x r))) = contents (LocHeapNode s l x r) - {#d#}"
        unfolding eq using ih False inr by (simp add: diff_add_mset_swap)
      have "\<forall>y \<in># contents r - {#d#}. \<not> outRanks ranks y x"
        "\<forall>y \<in># contents l. \<not> outRanks ranks y x" using facts(8) by (auto dest: in_diffD)
      then have o: "heap_ordered ranks (snd (node_remove ranks d (LocHeapNode s l x r)))"
        unfolding eq using ih facts(3,4) by (simp add: ball_Un)
      have "int (size (contents r - {#d#})) = int (size (contents r)) - 1"
        using size_Suc_Diff1 [OF inr] by linarith
      then have z: "sized (snd (node_remove ranks d (LocHeapNode s l x r)))"
        unfolding eq using ih facts(1,2,7) by simp
      show ?thesis using c o z unfolding eq by (simp only: fst_conv snd_conv simp_thms)
    qed
  qed
qed simp

text \<open>\<open>checkNodes\<close> looks only at tops of subtrees; transitivity makes that enough.\<close>

lemma ordered_below_top:
  assumes "t \<noteq> NoNode" and "\<not> outRanks ranks (mData t) x" and "heap_ordered ranks t" and "all_good t" and "good x"
  shows "\<forall>y \<in># contents t. \<not> outRanks ranks y x"
proof
  fix y
  assume y: "y \<in># contents t"
  then have "good y" using assms(4) by (simp add: all_good_def)
  from outranks_negtrans [OF assms(5) all_good_mData [OF assms(4,1)] this assms(2) heap_top [OF assms(3,4,1) y]]
  show "\<not> outRanks ranks y x" .
qed

lemma checkNodes_iff: "all_good t \<Longrightarrow> checkNodes ranks t \<longleftrightarrow> sized t \<and> heap_ordered ranks t"
proof (induction t)
  case (LocHeapNode s l x r)
  then have ih: "checkNodes ranks l \<longleftrightarrow> sized l \<and> heap_ordered ranks l"
      "checkNodes ranks r \<longleftrightarrow> sized r \<and> heap_ordered ranks r" and g: "good x" "all_good l" "all_good r"
    by auto
  have sub: "(t \<noteq> NoNode \<and> (outRanks ranks (mData t) x \<or> \<not> checkNodes ranks t)) \<longleftrightarrow>
      \<not> (sized t \<and> heap_ordered ranks t \<and> (\<forall>y \<in># contents t. \<not> outRanks ranks y x))"
    if "t = l \<or> t = r" for t
  proof (cases "t = NoNode")
    case False
    then show ?thesis using that ih g ordered_below_top [OF False _ _ _ g(1)] mData_in [OF False] by blast
  qed simp
  have size: "sized t \<Longrightarrow> (if t \<noteq> NoNode then mSize t else 0) = int (size (contents t))" for t :: "'a heap_node"
    by (simp add: sized_mSize)
  show ?case
    unfolding checkNodes.simps sub [OF disjI1 [OF refl]] sub [OF disjI2 [OF refl]]
    using size [of l] size [of r] by auto
qed simp

end

section \<open>The heap as a queue ordered by rank\<close>

text \<open>The contract of LocHeap towards a client that stores only data its ranking is lawful on.\<close>

locale heap_queue =
  fixes out :: "'a \<Rightarrow> 'a \<Rightarrow> bool" and good :: "'a \<Rightarrow> bool"
    and inv :: "'h \<Rightarrow> bool" and content :: "'h \<Rightarrow> 'a multiset"
    and push :: "'a \<Rightarrow> 'h \<Rightarrow> 'h" and peek :: "'h \<Rightarrow> 'a option"
    and pop :: "'h \<Rightarrow> 'a option \<times> 'h" and remove :: "'a \<Rightarrow> 'h \<Rightarrow> 'a option \<times> 'h"
  assumes push_law: "inv h \<Longrightarrow> good d \<Longrightarrow> inv (push d h) \<and> content (push d h) = add_mset d (content h)"
    and peek_none: "inv h \<Longrightarrow> peek h = None \<longleftrightarrow> content h = {#}"
    and peek_some: "inv h \<Longrightarrow> peek h = Some d \<Longrightarrow> d \<in># content h \<and> (\<forall>y \<in># content h. \<not> out y d)"
    and pop_law: "inv h \<Longrightarrow> fst (pop h) = peek h \<and> inv (snd (pop h)) \<and>
      content (snd (pop h)) = (case peek h of None \<Rightarrow> {#} | Some d \<Rightarrow> content h - {#d#})"
    and remove_in: "inv h \<Longrightarrow> d \<in># content h \<Longrightarrow>
      fst (remove d h) = Some d \<and> inv (snd (remove d h)) \<and> content (snd (remove d h)) = content h - {#d#}"
    and remove_notin: "inv h \<Longrightarrow> d \<notin># content h \<Longrightarrow> remove d h = (None, h)"
begin

text \<open>Popping takes out a datum that none of those that stay outranks.\<close>

lemma pop_some:
  assumes "inv h" and "fst (pop h) = Some d"
  shows "content h = add_mset d (content (snd (pop h))) \<and> inv (snd (pop h)) \<and>
    (\<forall>y \<in># content (snd (pop h)). \<not> out y d)"
proof -
  have p: "peek h = Some d" using pop_law [OF assms(1)] assms(2) by simp
  from peek_some [OF assms(1) p] pop_law [OF assms(1)] p show ?thesis by (auto dest: in_diffD)
qed

lemma pop_none: "inv h \<Longrightarrow> fst (pop h) = None \<longleftrightarrow> content h = {#}"
  using pop_law peek_none by simp

end

definition heap_inv :: "('a \<Rightarrow> 'a \<Rightarrow> int) \<Rightarrow> ('a \<Rightarrow> bool) \<Rightarrow> 'a heap_node \<Rightarrow> bool" where
  "heap_inv ranks good t \<longleftrightarrow> heap_ok ranks t \<and> (\<forall>x \<in># contents t. good x)"

lemma heap_inv_NoNode [simp]: "heap_inv ranks good NoNode"
  by (simp add: heap_inv_def heap_ok_def)

sublocale loc_ranking \<subseteq> heap: heap_queue "outRanks ranks" good "heap_inv ranks good" contents
  "LocHeap_push ranks" LocHeap_peek "LocHeap_pop ranks" "LocHeap_remove ranks"
proof (unfold_locales, goal_cases)
  case (1 h d)
  then show ?case
    by (auto simp: heap_inv_def heap_ok_def LocHeap_push_def contents_push sized_push
        all_good_def heap_push)
next
  case (2 h)
  then show ?case by (simp add: peek_mData)
next
  case (3 h d)
  then show ?case
    by (auto simp: heap_inv_def heap_ok_def peek_mData all_good_def heap_top split: if_splits)
next
  case (4 h)
  then show ?case
    by (auto simp: heap_inv_def heap_ok_def LocHeap_pop_def peek_mData node_pop_data contents_popped
        sized_pop all_good_def heap_pop heap_below dest: in_diffD)
next
  case (5 h d)
  then have "h \<noteq> NoNode" by auto
  with 5 node_remove_in [of d h] show ?case
    by (auto simp: heap_inv_def heap_ok_def LocHeap_remove_def all_good_def dest: in_diffD)
next
  case (6 h d)
  then show ?case by (simp add: LocHeap_remove_def node_remove_notin)
qed

section \<open>Balance\<close>

fun balanced :: "'a heap_node \<Rightarrow> bool" where
  "balanced NoNode \<longleftrightarrow> True"
| "balanced (LocHeapNode s l x r) \<longleftrightarrow>
     (size (contents l) = size (contents r) \<or> size (contents l) = size (contents r) + 1 \<or>
      size (contents r) = size (contents l) + 1) \<and> balanced l \<and> balanced r"

fun height :: "'a heap_node \<Rightarrow> nat" where
  "height NoNode = 0"
| "height (LocHeapNode s l x r) = 1 + max (height l) (height r)"

lemma balanced_push: "t \<noteq> NoNode \<Longrightarrow> sized t \<Longrightarrow> balanced t \<Longrightarrow> balanced (node_push ranks d t)"
proof (induction t arbitrary: d)
  case (LocHeapNode s l x r)
  define x' d' where "x' = (if outRanks ranks d x then d else x)" and "d' = (if outRanks ranks d x then x else d)"
  have eq: "node_push ranks d (LocHeapNode s l x r) =
      (if l = NoNode then LocHeapNode (s + 1) (new_node d') x' r
      else if r = NoNode then LocHeapNode (s + 1) l x' (new_node d')
      else if mSize l \<le> mSize r then LocHeapNode (s + 1) (node_push ranks d' l) x' r
      else LocHeapNode (s + 1) l x' (node_push ranks d' r))"
    by (simp add: x'_def d'_def)
  show ?case
    using LocHeapNode sized_mSize [of l] sized_mSize [of r]
    unfolding eq by (auto simp: contents_push new_node_def)
qed simp

lemma balanced_height: "balanced t \<Longrightarrow> t \<noteq> NoNode \<Longrightarrow> 2 ^ height t \<le> 2 * size (contents t)"
proof (induction t)
  case (LocHeapNode s l x r)
  have sub: "2 ^ height t \<le> 2 * size (contents t) \<or> t = NoNode" if "t = l \<or> t = r" for t
    using that LocHeapNode by auto
  have "2 ^ max (height l) (height r) \<le> 1 + size (contents l) + size (contents r)"
    using sub [of l] sub [of r] LocHeapNode.prems
    by (cases "height l \<le> height r") (auto simp: max_def)
  then show ?case by simp
qed simp

section \<open>Properties\<close>

text \<open>Popping until NULL comes back, at most \<open>n\<close> times.\<close>

fun heap_drain :: "('a \<Rightarrow> 'a \<Rightarrow> int) \<Rightarrow> nat \<Rightarrow> 'a heap_node \<Rightarrow> 'a list" where
  "heap_drain ranks 0 t = []"
| "heap_drain ranks (Suc n) t =
     (case LocHeap_pop ranks t of (None, t') \<Rightarrow> [] | (Some d, t') \<Rightarrow> d # heap_drain ranks n t')"

context loc_ranking begin

lemma drain_sorts:
  "heap_inv ranks good t \<Longrightarrow> size (contents t) \<le> n \<Longrightarrow>
     mset (heap_drain ranks n t) = contents t \<and> sorted_wrt (\<lambda>a b. \<not> outRanks ranks b a) (heap_drain ranks n t)"
proof (induction n arbitrary: t)
  case (Suc n)
  show ?case
  proof (cases "LocHeap_pop ranks t")
    case (Pair d t')
    show ?thesis
    proof (cases d)
      case None
      with Pair heap.pop_none [OF Suc.prems(1)] show ?thesis by simp
    next
      case (Some x)
      with Pair heap.pop_some [OF Suc.prems(1), of x] have t': "contents t = add_mset x (contents t')"
          "heap_inv ranks good t'" "\<forall>y \<in># contents t'. \<not> outRanks ranks y x" by auto
      with Suc.prems(2) Suc.IH [OF t'(2)] have ih: "mset (heap_drain ranks n t') = contents t'"
          "sorted_wrt (\<lambda>a b. \<not> outRanks ranks b a) (heap_drain ranks n t')" by auto
      from ih(1) have "set (heap_drain ranks n t') = set_mset (contents t')" by (metis set_mset_mset)
      with Pair Some t' ih show ?thesis by simp
    qed
  qed
qed simp

lemma pushes_inv:
  "\<forall>d \<in> set ds. good d \<Longrightarrow> heap_inv ranks good t \<Longrightarrow>
     heap_inv ranks good (fold (LocHeap_push ranks) ds t) \<and>
     contents (fold (LocHeap_push ranks) ds t) = mset ds + contents t"
proof (induction ds arbitrary: t)
  case (Cons d ds)
  with heap.push_law [of t d] show ?case by simp
qed simp

text \<open>The laws of the contract, for every lawful ranking.\<close>

lemma operations:
  assumes "heap_inv ranks good t"
  shows "(good d \<longrightarrow> heap_inv ranks good (LocHeap_push ranks d t) \<and>
      contents (LocHeap_push ranks d t) = add_mset d (contents t)) \<and>
    heap_inv ranks good (snd (LocHeap_pop ranks t)) \<and>
    fst (LocHeap_pop ranks t) = LocHeap_peek t \<and>
    contents (snd (LocHeap_pop ranks t)) = (case LocHeap_peek t of None \<Rightarrow> {#} | Some x \<Rightarrow> contents t - {#x#}) \<and>
    (case LocHeap_peek t of None \<Rightarrow> contents t = {#}
     | Some x \<Rightarrow> x \<in># contents t \<and> (\<forall>y. y \<in># contents t \<longrightarrow> \<not> outRanks ranks y x)) \<and>
    (if d \<in># contents t
     then fst (LocHeap_remove ranks d t) = Some d \<and> heap_inv ranks good (snd (LocHeap_remove ranks d t)) \<and>
       contents (snd (LocHeap_remove ranks d t)) = contents t - {#d#}
     else LocHeap_remove ranks d t = (None, t))"
  using heap.push_law [OF assms] heap.pop_law [OF assms] heap.remove_in [OF assms]
    heap.remove_notin [OF assms] heap.peek_none [OF assms] heap.peek_some [OF assms]
  by (auto split: option.splits)

lemma top_highest:
  assumes "heap_inv ranks good t" and "LocHeap_peek t = Some x"
  shows "fst (LocHeap_pop ranks t) = Some x \<and> x \<in># contents t \<and> (\<forall>y \<in># contents t. \<not> outRanks ranks y x)"
  using heap.peek_some [OF assms] heap.pop_law [OF assms(1)] assms(2) by simp

lemma pushes_drain:
  assumes "\<forall>d \<in> set ds. good d"
  shows "mset (heap_drain ranks (length ds) (fold (LocHeap_push ranks) ds NoNode)) = mset ds \<and>
    sorted_wrt (\<lambda>a b. \<not> outRanks ranks b a) (heap_drain ranks (length ds) (fold (LocHeap_push ranks) ds NoNode))"
  using pushes_inv [OF assms heap_inv_NoNode] drain_sorts [of "fold (LocHeap_push ranks) ds NoNode" "length ds"]
  by simp

lemma checkTree_iff: "\<forall>x \<in># contents t. good x \<Longrightarrow> checkTree ranks t \<longleftrightarrow> heap_ok ranks t"
  using checkNodes_iff [of t] by (cases "t = NoNode") (auto simp: checkTree_def heap_ok_def all_good_def)

end

lemma balanced_pushes:
  "sized t \<Longrightarrow> balanced t \<Longrightarrow> sized (fold (LocHeap_push ranks) ds t) \<and> balanced (fold (LocHeap_push ranks) ds t) \<and>
     contents (fold (LocHeap_push ranks) ds t) = mset ds + contents t"
proof (induction ds arbitrary: t)
  case (Cons d ds)
  have "sized (LocHeap_push ranks d t)" "balanced (LocHeap_push ranks d t)"
    "contents (LocHeap_push ranks d t) = add_mset d (contents t)"
    using Cons.prems by (auto simp: LocHeap_push_def sized_push balanced_push contents_push)
      (simp add: new_node_def)
  with Cons.IH [of "LocHeap_push ranks d t"] show ?case by simp
qed simp

text \<open>C35. Each operation keeps the heap order and all size fields right and changes the contents as it
  should: push adds its datum, pop returns and removes the datum that peek shows, which no other
  outranks (none exactly when the heap is empty), and remove takes out the given object, recognised by
  its identity, if it is in the heap and otherwise changes nothing and says so. (The comment of
  \<open>LocHeap.h\<close> says that remove finds the node that ranks the same; the code compares addresses, see
  \<open>heap_remove_by_identity\<close>.) The ranking has to be lawful on the data stored, and only such data
  may be pushed.\<close>

theorem heap_operations:
  assumes "loc_ranking ranks good" and "heap_inv ranks good t"
  shows "(good d \<longrightarrow> heap_inv ranks good (LocHeap_push ranks d t) \<and>
      contents (LocHeap_push ranks d t) = add_mset d (contents t)) \<and>
    heap_inv ranks good (snd (LocHeap_pop ranks t)) \<and>
    fst (LocHeap_pop ranks t) = LocHeap_peek t \<and>
    contents (snd (LocHeap_pop ranks t)) = (case LocHeap_peek t of None \<Rightarrow> {#} | Some x \<Rightarrow> contents t - {#x#}) \<and>
    (case LocHeap_peek t of None \<Rightarrow> contents t = {#}
     | Some x \<Rightarrow> x \<in># contents t \<and> (\<forall>y. y \<in># contents t \<longrightarrow> \<not> outRanks ranks y x)) \<and>
    (if d \<in># contents t
     then fst (LocHeap_remove ranks d t) = Some d \<and> heap_inv ranks good (snd (LocHeap_remove ranks d t)) \<and>
       contents (snd (LocHeap_remove ranks d t)) = contents t - {#d#}
     else LocHeap_remove ranks d t = (None, t))"
  by (rule loc_ranking.operations [OF assms])

text \<open>The heap sorts: data pushed in any order come out by \<open>LocHeap::pop\<close> highest rank first, each
  exactly as often as it was pushed.\<close>

theorem heap_sorts:
  assumes "loc_ranking ranks good" and "\<forall>d \<in> set ds. good d"
  shows "mset (heap_drain ranks (length ds) (fold (LocHeap_push ranks) ds NoNode)) = mset ds \<and>
    sorted_wrt (\<lambda>a b. \<not> outRanks ranks b a) (heap_drain ranks (length ds) (fold (LocHeap_push ranks) ds NoNode))"
  by (rule loc_ranking.pushes_drain [OF assms])

text \<open>The self test of the unit tests is exact: \<open>checkTree\<close> accepts a tree just when every size field
  is the number of nodes of its subtree and nowhere in the tree a datum outranks one above it.\<close>

theorem heap_check_exact:
  assumes "loc_ranking ranks good" and "\<forall>x \<in># contents t. good x"
  shows "checkTree ranks t \<longleftrightarrow> heap_ok ranks t"
  by (rule loc_ranking.checkTree_iff [OF assms])

text \<open>Pushing alone keeps the tree balanced, for any ranking: after \<open>n\<close> pushes onto an empty heap its
  height \<open>h\<close> satisfies \<open>2 ^ h \<le> 2 * n\<close>, so a push or a pop follows at most about \<open>log n\<close> links.\<close>

theorem heap_push_balance:
  assumes "ds \<noteq> []"
  shows "2 ^ height (fold (LocHeap_push ranks) ds NoNode) \<le> 2 * length ds"
proof -
  have "contents (fold (LocHeap_push ranks) ds NoNode) = mset ds" and b: "balanced (fold (LocHeap_push ranks) ds NoNode)"
    using balanced_pushes [of NoNode ranks ds] by auto
  then have "fold (LocHeap_push ranks) ds NoNode \<noteq> NoNode" "size (contents (fold (LocHeap_push ranks) ds NoNode)) = length ds"
    using assms by (auto simp flip: contents_eq_empty)
  with balanced_height [OF b] show ?thesis by simp
qed

lemma int_ranking: "loc_ranking (\<lambda>a b :: int. a - b) (\<lambda>_. True)"
  by unfold_locales (auto simp: outRanks_def)

lemma heap_operations_witness:
  "contents (snd (LocHeap_pop (\<lambda>a b. a - b) (LocHeapNode 1 NoNode (5 :: int) NoNode))) = {#}"
  using heap_operations [OF int_ranking, of "LocHeapNode 1 NoNode 5 NoNode" 3]
  by (simp add: heap_inv_def heap_ok_def LocHeap_peek_def)

lemma heap_remove_by_identity:
  "LocHeap_remove (\<lambda>a b. snd a - snd b) (2, 5) (LocHeapNode 1 NoNode (1 :: int, 5 :: int) NoNode) =
    (None, LocHeapNode 1 NoNode (1, 5) NoNode)"
  by code_simp

lemma heap_sorts_witness:
  "mset (heap_drain (\<lambda>a b. a - b) (length [2, 7, 4 :: int]) (fold (LocHeap_push (\<lambda>a b. a - b)) [2, 7, 4] NoNode)) =
    mset [2, 7, 4]"
  using heap_sorts [OF int_ranking, of "[2, 7, 4]"] by blast

lemma heap_check_exact_witness: "\<not> heap_ok (\<lambda>a b. a - b) (LocHeapNode 2 NoNode (5 :: int) (new_node 6))"
  using heap_check_exact [OF int_ranking, of "LocHeapNode 2 NoNode 5 (new_node 6)"]
  by (simp add: checkTree_def outRanks_def new_node_def)

lemma heap_push_balance_witness:
  "2 ^ height (fold (LocHeap_push (\<lambda>a b. a - b)) [2, 7, 4 :: int] NoNode) \<le> 2 * length [2, 7, 4 :: int]"
  by (rule heap_push_balance) simp

end
