(* ===== verification/Loc_Timer.thy ===== *)
theory Loc_Timer
  imports Loc_Heap
begin

text \<open>
  The timers of gps/utils/LocTimer.cpp. A client's LocTimer owns at most one LocTimerDelegate; the
  delegates tick in one of two containers, heaps ordered by time, for timers and for alarms. All
  heap operations are messages to one message thread; a polling thread sends the expiration
  messages when the timerfd of a container fires. The model has the delegates at addresses, the
  message queue as a list (Msg\_Task shows that it is processed in order), the timerfd of a
  container as the time it is armed for. The clients' calls, the polling thread and the message thread
  are interleaved. The polling thread has a step for the return of \<open>epoll_wait\<close> and one for each call
  of \<open>LocTimerContainer::expire\<close>; the expiration loop of the message thread has one for each pop and three
  for \<open>LocTimerDelegate::expire\<close>: reading the client without its lock, stopping it, calling it back. The
  calls under a LocTimer's lock are one step each, and so are \<open>proc\<close> of a push or a removal and the two
  system calls of \<open>updateSoonestTime\<close>. A step is None where the code would use a delegate or a LocTimer that was deleted before.

  The theorems show exactly when that happens: only when a client is destroyed between the reading of
  the client and its last use by \<open>LocTimerDelegate::expire\<close>, which a run reaches. Every delegate is
  deleted by exactly one message, a timer is stopped at most once, by its client or by the expiration
  that calls it back, and a container with ticking timers is always armed for the soonest of them, or
  about to be.
\<close>

section \<open>Time\<close>

record timespec =
  tv_sec :: u64
  tv_nsec :: u64

text \<open>
  \<open>LocTimerDelegate::ranks\<close>: the difference of the seconds is truncated to an int, and likewise
  that of the nanoseconds when the former is 0. A sooner time outranks a later one.
\<close>

definition trunc_int :: "u64 \<Rightarrow> int" where
  "trunc_int x = sint (ucast x :: 32 word)"

definition time_ranks :: "timespec \<Rightarrow> timespec \<Rightarrow> int" where
  "time_ranks self timer =
     (let rank = trunc_int (tv_sec timer - tv_sec self)
      in if rank = 0 then trunc_int (tv_nsec timer - tv_nsec self) else rank)"

text \<open>The time computed by \<open>LocTimer::start\<close>; \<open>timeOutInMs\<close> is an unsigned int.\<close>

definition future_time :: "timespec \<Rightarrow> u32 \<Rightarrow> timespec" where
  "future_time now timeOutInMs =
     (let sec = tv_sec now + ucast (timeOutInMs div 1000);
          nsec = tv_nsec now + ucast ((timeOutInMs mod 1000) * 1000000)
      in if 1000000000 \<le>s nsec
         then \<lparr>tv_sec = sec + word_of_int (sint nsec div 1000000000),
               tv_nsec = word_of_int (sint nsec mod 1000000000)\<rparr>
         else \<lparr>tv_sec = sec, tv_nsec = nsec\<rparr>)"

section \<open>State\<close>

text \<open>
  A delegate has its client (None when the client is gone or has stopped it), its time, and its
  container: \<open>True\<close> for the alarms, \<open>False\<close> for the timers, None when it was told to leave. \<open>dl_id\<close>
  numbers the delegates in the order of their creation, to tell them apart when an address is
  used again.
\<close>

record delegate =
  dl_client :: "nat option"
  dl_future :: timespec
  dl_container :: "bool option"
  dl_id :: nat

datatype timer_msg =
    MsgTimerPush bool addr
  | MsgTimerRemove bool addr
  | MsgTimerExpire bool

text \<open>
  The expiration message in progress, with its container and its \<open>now\<close>: before its first pop, before
  a later one, and inside \<open>LocTimerDelegate::expire\<close> for a popped delegate: about to read its client,
  about to stop the client it has read, and about to call it back.
\<close>

datatype expire_loop =
    FirstPop bool timespec
  | NextPop bool timespec
  | ReadClient bool timespec addr
  | StopClient bool timespec nat
  | CallBack bool timespec nat

text \<open>How far \<open>LocTimerContainer::expire\<close> is with a container whose timerfd has fired.\<close>

datatype poll_stage = Woken | Disarmed | Unpolled

text \<open>
  \<open>ts_timers\<close> maps a LocTimer that exists to its \<open>mTimer\<close>. \<open>ts_poll\<close> has the containers the polling
  thread still has to handle since \<open>epoll_wait\<close> returned. \<open>ts_fired\<close> are the numbers of the delegates
  stopped by an expiration, to call their client back, with the time of the expiration;
  \<open>ts_stopped\<close> of those stopped by their client, and \<open>ts_deleted\<close> of those that were deleted.
\<close>

record tstate =
  ts_delegates :: "addr \<Rightarrow> delegate option"
  ts_timers :: "nat \<Rightarrow> ptr option"
  ts_heap :: "bool \<Rightarrow> addr heap_node"
  ts_armed :: "bool \<Rightarrow> timespec option"
  ts_polled :: "bool \<Rightarrow> bool"
  ts_queue :: "timer_msg list"
  ts_loop :: "expire_loop option"
  ts_poll :: "(bool \<times> poll_stage) list"
  ts_fired :: "(nat \<times> timespec) list"
  ts_stopped :: "nat list"
  ts_deleted :: "nat list"
  ts_next :: nat

section \<open>The container\<close>

text \<open>The ranking of the delegates stored at addresses.\<close>

definition ranks_of :: "(addr \<Rightarrow> delegate option) \<Rightarrow> addr \<Rightarrow> addr \<Rightarrow> int" where
  "ranks_of D a b =
     (case (D a, D b) of (Some x, Some y) \<Rightarrow> time_ranks (dl_future x) (dl_future y) | _ \<Rightarrow> 0)"

text \<open>A heap operation may look at any delegate in the heap, so all of them must be allocated.\<close>

definition heap_alive :: "(addr \<Rightarrow> delegate option) \<Rightarrow> addr heap_node \<Rightarrow> bool" where
  "heap_alive D t \<longleftrightarrow> (\<forall>a \<in># contents t. D a \<noteq> None)"

definition getSoonestTimer :: "bool \<Rightarrow> tstate \<Rightarrow> ptr" where
  "getSoonestTimer w s = LocHeap_peek (ts_heap s w)"

definition addPoll :: "bool \<Rightarrow> tstate \<Rightarrow> tstate" where
  "addPoll w s = s\<lparr>ts_polled := (ts_polled s)(w := True)\<rparr>"

definition removePoll :: "bool \<Rightarrow> tstate \<Rightarrow> tstate" where
  "removePoll w s = s\<lparr>ts_polled := (ts_polled s)(w := False)\<rparr>"

text \<open>A zero time disarms a timerfd.\<close>

definition timerfd_settime :: "bool \<Rightarrow> timespec \<Rightarrow> tstate \<Rightarrow> tstate" where
  "timerfd_settime w t s =
     s\<lparr>ts_armed := (ts_armed s)(w := if tv_sec t = 0 \<and> tv_nsec t = 0 then None else Some t)\<rparr>"

definition updateSoonestTime :: "bool \<Rightarrow> ptr \<Rightarrow> tstate \<Rightarrow> tstate option" where
  "updateSoonestTime w priorTop s =
     (let curTop = getSoonestTimer w s in
      if curTop \<noteq> priorTop then
        (case curTop of
           None \<Rightarrow> Some (timerfd_settime w \<lparr>tv_sec = 0, tv_nsec = 0\<rparr> (removePoll w s))
         | Some c \<Rightarrow>
             Option.bind (ts_delegates s c) (\<lambda>cd.
               case priorTop of
                 None \<Rightarrow> Some (timerfd_settime w (dl_future cd) (addPoll w s))
               | Some p \<Rightarrow>
                   Option.bind (ts_delegates s p) (\<lambda>pd.
                     if time_ranks (dl_future cd) (dl_future pd) > 0
                     then Some (timerfd_settime w (dl_future cd) (addPoll w s)) else Some s)))
      else Some s)"

definition send_msg :: "timer_msg \<Rightarrow> tstate \<Rightarrow> tstate" where
  "send_msg x s = s\<lparr>ts_queue := ts_queue s @ [x]\<rparr>"

definition LocTimerContainer_add :: "bool \<Rightarrow> addr \<Rightarrow> tstate \<Rightarrow> tstate" where
  "LocTimerContainer_add w a s = send_msg (MsgTimerPush w a) s"

definition LocTimerContainer_remove :: "bool \<Rightarrow> addr \<Rightarrow> tstate \<Rightarrow> tstate" where
  "LocTimerContainer_remove w a s = send_msg (MsgTimerRemove w a) s"

text \<open>The \<open>proc\<close> methods of the messages.\<close>

definition MsgTimerPush_proc :: "bool \<Rightarrow> addr \<Rightarrow> tstate \<Rightarrow> tstate option" where
  "MsgTimerPush_proc w a s =
     (let priorTop = getSoonestTimer w s in
      if heap_alive (ts_delegates s) (ts_heap s w) \<and> ts_delegates s a \<noteq> None
      then updateSoonestTime w priorTop
             (s\<lparr>ts_heap := (ts_heap s)(w := LocHeap_push (ranks_of (ts_delegates s)) a (ts_heap s w))\<rparr>)
      else None)"

definition delete_delegate :: "addr \<Rightarrow> tstate \<Rightarrow> tstate option" where
  "delete_delegate a s =
     map_option (\<lambda>d. s\<lparr>ts_delegates := (ts_delegates s)(a := None), ts_deleted := ts_deleted s @ [dl_id d]\<rparr>)
       (ts_delegates s a)"

definition MsgTimerRemove_proc :: "bool \<Rightarrow> addr \<Rightarrow> tstate \<Rightarrow> tstate option" where
  "MsgTimerRemove_proc w a s =
     (let priorTop = getSoonestTimer w s in
      if heap_alive (ts_delegates s) (ts_heap s w) \<and> ts_delegates s a \<noteq> None
      then (case LocHeap_remove (ranks_of (ts_delegates s)) a (ts_heap s w) of
              (removed, t) \<Rightarrow>
                (let s1 = s\<lparr>ts_heap := (ts_heap s)(w := t)\<rparr> in
                 Option.bind (if priorTop = removed then updateSoonestTime w None s1 else Some s1)
                   (delete_delegate a)))
      else None)"

definition popIfOutRanks :: "bool \<Rightarrow> timespec \<Rightarrow> tstate \<Rightarrow> (ptr \<times> tstate) option" where
  "popIfOutRanks w now s =
     (case LocHeap_peek (ts_heap s w) of
        None \<Rightarrow> Some (None, s)
      | Some soonest \<Rightarrow>
         (if heap_alive (ts_delegates s) (ts_heap s w) then
            Option.bind (ts_delegates s soonest) (\<lambda>td.
              if \<not> time_ranks now (dl_future td) > 0
              then (case LocHeap_pop (ranks_of (ts_delegates s)) (ts_heap s w) of
                      (popped, t) \<Rightarrow> Some (popped, s\<lparr>ts_heap := (ts_heap s)(w := t)\<rparr>))
              else Some (None, s))
          else None))"

section \<open>The client's calls\<close>

text \<open>\<open>LocTimerDelegate::destroyLocked\<close>.\<close>

definition destroyLocked :: "addr \<Rightarrow> tstate \<Rightarrow> tstate option" where
  "destroyLocked a s =
     map_option (\<lambda>d.
         let s1 = s\<lparr>ts_delegates := (ts_delegates s)(a \<mapsto> d\<lparr>dl_client := None, dl_container := None\<rparr>)\<rparr>
         in (case dl_container d of Some w \<Rightarrow> LocTimerContainer_remove w a s1 | None \<Rightarrow> s1))
       (ts_delegates s a)"

text \<open>
  \<open>LocTimer::start\<close>: \<open>now\<close> is what \<open>clock_gettime\<close> returns, \<open>container\<close> whether the container can
  be had, \<open>a\<close> the address of the new delegate. The calls are None when the LocTimer does not exist.
\<close>

definition LocTimer_start ::
  "nat \<Rightarrow> u32 \<Rightarrow> bool \<Rightarrow> timespec \<Rightarrow> bool \<Rightarrow> addr \<Rightarrow> tstate \<Rightarrow> (bool \<times> tstate) option" where
  "LocTimer_start c timeOutInMs wakeOnExpire now container a s =
     Option.bind (ts_timers s c) (\<lambda>mTimer.
       if mTimer = None then
         (let futureTime = future_time now timeOutInMs in
          if container then
            Some (True, LocTimerContainer_add wakeOnExpire a
              (s\<lparr>ts_delegates := (ts_delegates s)(a \<mapsto> \<lparr>dl_client = Some c, dl_future = futureTime,
                   dl_container = Some wakeOnExpire, dl_id = ts_next s\<rparr>),
                 ts_timers := (ts_timers s)(c \<mapsto> Some a), ts_next := ts_next s + 1\<rparr>))
          else Some (False, s))
       else Some (False, s))"

definition LocTimer_stop :: "nat \<Rightarrow> tstate \<Rightarrow> (bool \<times> tstate) option" where
  "LocTimer_stop c s =
     Option.bind (ts_timers s c) (\<lambda>mTimer.
       case mTimer of
         None \<Rightarrow> Some (False, s)
       | Some a \<Rightarrow> map_option (Pair True) (destroyLocked a (s\<lparr>ts_timers := (ts_timers s)(c \<mapsto> None)\<rparr>)))"

text \<open>\<open>LocTimer::~LocTimer\<close>.\<close>

definition LocTimer_destructor :: "nat \<Rightarrow> tstate \<Rightarrow> tstate option" where
  "LocTimer_destructor c s =
     map_option (\<lambda>(_, s1). s1\<lparr>ts_timers := (ts_timers s1)(c := None)\<rparr>) (LocTimer_stop c s)"

text \<open>The delegate of a running timer.\<close>

definition timer_delegate :: "nat \<Rightarrow> tstate \<Rightarrow> delegate option" where
  "timer_delegate c s = Option.bind (Option.bind (ts_timers s c) id) (ts_delegates s)"

text \<open>
  \<open>LocTimerDelegate::expire\<close> in three steps. The first copies the client's pointer, without the lock;
  the second stops that client, which need not be running the popped delegate any more; the third, if
  the client was stopped by it, calls it back. Clients may act in between.
\<close>

definition expire_read :: "bool \<Rightarrow> timespec \<Rightarrow> addr \<Rightarrow> tstate \<Rightarrow> tstate option" where
  "expire_read w now a s =
     map_option (\<lambda>d. s\<lparr>ts_loop := Some (case dl_client d of None \<Rightarrow> NextPop w now | Some c \<Rightarrow> StopClient w now c)\<rparr>)
       (ts_delegates s a)"

definition expire_stop :: "bool \<Rightarrow> timespec \<Rightarrow> nat \<Rightarrow> tstate \<Rightarrow> tstate option" where
  "expire_stop w now c s =
     map_option (\<lambda>(stopped, s1).
         if stopped
         then s1\<lparr>ts_loop := Some (CallBack w now c),
                ts_fired := ts_fired s1 @ (case timer_delegate c s of Some d \<Rightarrow> [(dl_id d, now)] | None \<Rightarrow> [])\<rparr>
         else s1\<lparr>ts_loop := Some (NextPop w now)\<rparr>)
       (LocTimer_stop c s)"

definition expire_call :: "bool \<Rightarrow> timespec \<Rightarrow> nat \<Rightarrow> tstate \<Rightarrow> tstate option" where
  "expire_call w now c s = map_option (\<lambda>_. s\<lparr>ts_loop := Some (NextPop w now)\<rparr>) (ts_timers s c)"

section \<open>The threads\<close>

text \<open>
  The polling thread. \<open>TimerRunnable::run\<close>: \<open>epoll_wait\<close> returns the containers that are polled and
  whose timerfd has expired, in either order; none while there is none.
\<close>

definition fd_ready :: "timespec \<Rightarrow> tstate \<Rightarrow> bool \<Rightarrow> bool" where
  "fd_ready now s w \<longleftrightarrow>
     ts_polled s w \<and> (case ts_armed s w of Some t \<Rightarrow> \<not> time_ranks now t > 0 | None \<Rightarrow> False)"

definition poll_wait :: "bool \<Rightarrow> timespec \<Rightarrow> tstate \<Rightarrow> tstate" where
  "poll_wait w now s =
     (if ts_poll s = [] then s\<lparr>ts_poll := map (\<lambda>v. (v, Woken)) (filter (fd_ready now s) [w, \<not> w])\<rparr> else s)"

text \<open>
  Then \<open>LocTimerContainer::expire\<close> for each of them: disarm, remove from the poll, send the expiration
  message. The message thread may run before each of these.
\<close>

definition container_expire :: "tstate \<Rightarrow> tstate" where
  "container_expire s =
     (case ts_poll s of
        [] \<Rightarrow> s
      | (w, Woken) # r \<Rightarrow> (timerfd_settime w \<lparr>tv_sec = 0, tv_nsec = 0\<rparr> s)\<lparr>ts_poll := (w, Disarmed) # r\<rparr>
      | (w, Disarmed) # r \<Rightarrow> (removePoll w s)\<lparr>ts_poll := (w, Unpolled) # r\<rparr>
      | (w, Unpolled) # r \<Rightarrow> (send_msg (MsgTimerExpire w) s)\<lparr>ts_poll := r\<rparr>)"

text \<open>
  One step of the message thread: it takes the next message when no expiration is in progress,
  else it makes the next step of the loop of \<open>MsgTimerExpire::proc\<close>. The client's callback may
  call any LocTimer, as may any other thread, between the steps.
\<close>

definition expire_round :: "expire_loop \<Rightarrow> tstate \<Rightarrow> tstate option" where
  "expire_round lp s =
     (case lp of
        FirstPop w now \<Rightarrow>
          if heap_alive (ts_delegates s) (ts_heap s w) then
            (case LocHeap_pop (ranks_of (ts_delegates s)) (ts_heap s w) of
               (None, t) \<Rightarrow> updateSoonestTime w None (s\<lparr>ts_loop := None, ts_heap := (ts_heap s)(w := t)\<rparr>)
             | (Some a, t) \<Rightarrow> Some (s\<lparr>ts_loop := Some (ReadClient w now a), ts_heap := (ts_heap s)(w := t)\<rparr>))
          else None
      | NextPop w now \<Rightarrow>
          Option.bind (popIfOutRanks w now s) (\<lambda>(popped, s1).
            case popped of
              None \<Rightarrow> updateSoonestTime w None (s1\<lparr>ts_loop := None\<rparr>)
            | Some a \<Rightarrow> Some (s1\<lparr>ts_loop := Some (ReadClient w now a)\<rparr>))
      | ReadClient w now a \<Rightarrow> expire_read w now a s
      | StopClient w now c \<Rightarrow> expire_stop w now c s
      | CallBack w now c \<Rightarrow> expire_call w now c s)"

definition msg_thread_step :: "timespec \<Rightarrow> tstate \<Rightarrow> tstate option" where
  "msg_thread_step now s =
     (case ts_loop s of
        Some lp \<Rightarrow> expire_round lp s
      | None \<Rightarrow>
         (case ts_queue s of
            [] \<Rightarrow> Some s
          | MsgTimerPush w a # q \<Rightarrow> MsgTimerPush_proc w a (s\<lparr>ts_queue := q\<rparr>)
          | MsgTimerRemove w a # q \<Rightarrow> MsgTimerRemove_proc w a (s\<lparr>ts_queue := q\<rparr>)
          | MsgTimerExpire w # q \<Rightarrow> Some (s\<lparr>ts_queue := q, ts_loop := Some (FirstPop w now)\<rparr>)))"

text \<open>What can happen: clients come and go, start and stop their timers, the two threads run.\<close>

datatype timer_act =
    NewTimer nat
  | Start nat u32 bool timespec bool addr
  | Stop nat
  | Destroy nat
  | PollExpired bool timespec
  | PollContinue
  | MsgThread timespec

definition record_stop :: "nat \<Rightarrow> tstate \<Rightarrow> tstate \<Rightarrow> tstate" where
  "record_stop c s0 s =
     (case timer_delegate c s0 of None \<Rightarrow> s | Some d \<Rightarrow> s\<lparr>ts_stopped := ts_stopped s @ [dl_id d]\<rparr>)"

fun timer_step :: "timer_act \<Rightarrow> tstate \<Rightarrow> tstate option" where
  "timer_step (NewTimer c) s = Some (s\<lparr>ts_timers := (ts_timers s)(c \<mapsto> None)\<rparr>)"
| "timer_step (Start c ms w now cont a) s = map_option snd (LocTimer_start c ms w now cont a s)"
| "timer_step (Stop c) s = map_option (\<lambda>(_, s1). record_stop c s s1) (LocTimer_stop c s)"
| "timer_step (Destroy c) s = map_option (record_stop c s) (LocTimer_destructor c s)"
| "timer_step (PollExpired w now) s = Some (poll_wait w now s)"
| "timer_step PollContinue s = Some (container_expire s)"
| "timer_step (MsgThread now) s = msg_thread_step now s"

text \<open>
  When an action can happen: a client uses only a LocTimer that exists, new objects get unused
  addresses, and the clock, which counts from boot, has normalised values below 2\^30 seconds
  and is not at its origin.
\<close>

definition clock_ok :: "timespec \<Rightarrow> bool" where
  "clock_ok t \<longleftrightarrow> (tv_sec t \<noteq> 0 \<or> tv_nsec t \<noteq> 0) \<and> 0 \<le> sint (tv_sec t) \<and> sint (tv_sec t) < 2 ^ 30 \<and> 0 \<le> sint (tv_nsec t) \<and> sint (tv_nsec t) < 10 ^ 9"

fun act_ok :: "timer_act \<Rightarrow> tstate \<Rightarrow> bool" where
  "act_ok (NewTimer c) s \<longleftrightarrow> ts_timers s c = None"
| "act_ok (Start c ms w now cont a) s \<longleftrightarrow> ts_timers s c \<noteq> None \<and> ts_delegates s a = None \<and> clock_ok now"
| "act_ok (Stop c) s \<longleftrightarrow> ts_timers s c \<noteq> None"
| "act_ok (Destroy c) s \<longleftrightarrow> ts_timers s c \<noteq> None"
| "act_ok (PollExpired w now) s \<longleftrightarrow> clock_ok now"
| "act_ok PollContinue s \<longleftrightarrow> True"
| "act_ok (MsgThread now) s \<longleftrightarrow> clock_ok now"

definition timer_init :: tstate where
  "timer_init = \<lparr>ts_delegates = Map.empty, ts_timers = Map.empty, ts_heap = (\<lambda>_. NoNode), ts_armed = (\<lambda>_. None),
     ts_polled = (\<lambda>_. False), ts_queue = [], ts_loop = None, ts_poll = [], ts_fired = [], ts_stopped = [],
     ts_deleted = [], ts_next = 0\<rparr>"

inductive treach :: "tstate \<Rightarrow> bool" where
  init: "treach timer_init"
| step: "treach s \<Longrightarrow> act_ok x s \<Longrightarrow> timer_step x s = Some s' \<Longrightarrow> treach s'"

section \<open>Arithmetic of time\<close>

lemma trunc_int_diff:
  assumes "0 \<le> sint a" "sint a < 2 ^ 31" "0 \<le> sint b" "sint b < 2 ^ 31"
  shows "trunc_int (a - b) = sint a - sint b"
proof -
  let ?k = "sint a - sint b"
  have "a - b = word_of_int ?k" by (simp flip: wi_hom_sub)
  then have "(ucast (a - b) :: 32 word) = word_of_int ?k"
    using ucast_down_wi [where x = ?k and 'a = 64 and 'b = 32] by (simp only: is_down_def target_size source_size word_size) simp
  then have "trunc_int (a - b) = signed_take_bit 31 ?k" unfolding trunc_int_def by (simp only: sint_sbintrunc') simp
  moreover have "signed_take_bit 31 ?k = ?k" using assms by (intro signed_take_bit_int_eq_self) linarith+
  ultimately show ?thesis by simp
qed

lemma uint_ms_mod: "uint (((ms :: u32) mod 1000) * 1000000) = (uint ms mod 1000) * 1000000"
proof -
  have "uint (ms mod 1000) = uint ms mod 1000" by (simp add: uint_mod)
  then show ?thesis by (simp add: uint_word_ariths(3) )
qed

definition ns :: "timespec \<Rightarrow> int" where
  "ns t = sint (tv_sec t) * 10 ^ 9 + sint (tv_nsec t)"

definition time_norm :: "timespec \<Rightarrow> bool" where
  "time_norm t \<longleftrightarrow> 0 \<le> sint (tv_sec t) \<and> sint (tv_sec t) < 2 ^ 31 \<and> 0 \<le> sint (tv_nsec t) \<and> sint (tv_nsec t) < 10 ^ 9"

definition time_good :: "timespec \<Rightarrow> bool" where
  "time_good t \<longleftrightarrow> time_norm t \<and> 0 < ns t"

lemma digits_unique:
  fixes x :: int
  assumes "x * 10 ^ 9 + y = x' * 10 ^ 9 + y'" and "0 \<le> y" and "y < 10 ^ 9" and "0 \<le> y'" and "y' < 10 ^ 9"
  shows "x = x' \<and> y = y'"
proof -
  have "x = (x * 10 ^ 9 + y) div 10 ^ 9" "x' = (x' * 10 ^ 9 + y') div 10 ^ 9"
    using assms(2-) by (simp_all add: div_pos_pos_trivial)
  with assms(1) show ?thesis by simp
qed

text \<open>Times with the same number of nanoseconds are equal.\<close>

lemma ns_inj:
  assumes "time_norm a" and "time_norm b" and "ns a = ns b"
  shows "a = b"
proof -
  have "sint (tv_sec a) = sint (tv_sec b) \<and> sint (tv_nsec a) = sint (tv_nsec b)"
    using assms by (intro digits_unique) (simp_all add: ns_def time_norm_def)
  then show ?thesis by (cases a; cases b) (auto intro: signed_word_eqI)
qed

lemma zero_not_good: "time_good t \<Longrightarrow> \<not> (tv_sec t = 0 \<and> tv_nsec t = 0)"
  by (auto simp: time_good_def ns_def)

lemma clock_norm: "clock_ok t \<Longrightarrow> time_norm t"
  by (simp add: clock_ok_def time_norm_def)

lemma clock_pos:
  assumes "clock_ok t"
  shows "0 < ns t"
proof -
  have n: "0 \<le> sint (tv_sec t)" "0 \<le> sint (tv_nsec t)" "tv_sec t \<noteq> 0 \<or> tv_nsec t \<noteq> 0"
    using assms by (auto simp: clock_ok_def)
  then have "sint (tv_sec t) \<noteq> 0 \<or> sint (tv_nsec t) \<noteq> 0" by (metis signed_word_eqI sint_0)
  with n show ?thesis by (auto simp: ns_def)
qed

lemma time_ranks_norm:
  assumes "time_norm a" and "time_norm b"
  shows "time_ranks a b > 0 \<longleftrightarrow> ns a < ns b"
proof -
  have s: "trunc_int (tv_sec b - tv_sec a) = sint (tv_sec b) - sint (tv_sec a)"
    using assms by (intro trunc_int_diff) (auto simp: time_norm_def)
  have n: "trunc_int (tv_nsec b - tv_nsec a) = sint (tv_nsec b) - sint (tv_nsec a)"
    using assms by (intro trunc_int_diff) (auto simp: time_norm_def)
  show ?thesis using assms by (auto simp: time_ranks_def Let_def s n ns_def time_norm_def)
qed

lemma future_time_norm:
  assumes "clock_ok now"
  shows "time_norm (future_time now ms) \<and> ns (future_time now ms) = ns now + uint ms * 10 ^ 6"
proof -
  have c: "0 \<le> sint (tv_sec now)" "sint (tv_sec now) < 2 ^ 30" "0 \<le> sint (tv_nsec now)" "sint (tv_nsec now) < 10 ^ 9"
    using assms by (auto simp: clock_ok_def)
  have m: "0 \<le> uint ms" "uint ms < 2 ^ 32" using uint_lt2p [of ms] by simp_all
  have d: "uint (ms div 1000) = uint ms div 1000" by (simp add: uint_div)
  define q where "q = uint ms div 1000"
  define r where "r = uint ms mod 1000"
  have qr: "uint ms = q * 1000 + r" "0 \<le> q" "q < 4294968" "0 \<le> r" "r < 1000"
    using m by (simp_all add: q_def r_def pos_imp_zdiv_nonneg_iff)
  have sec: "sint (tv_sec now + ucast (ms div 1000)) = sint (tv_sec now) + q"
    using c qr by (subst sint_add_64) (auto simp: sint_ucast_32_64 d q_def)
  have nsec: "sint (tv_nsec now + ucast ((ms mod 1000) * 1000000)) = sint (tv_nsec now) + r * 1000000"
    using c qr by (subst sint_add_64) (auto simp: sint_ucast_32_64 uint_ms_mod r_def)
  define n where "n = sint (tv_nsec now) + r * 1000000"
  have n: "0 \<le> n" "n < 2 * 10 ^ 9" using c qr by (auto simp: n_def)
  show ?thesis
  proof (cases "10 ^ 9 \<le> n")
    case True
    then have d1: "n div 1000000000 = 1" using n by auto
    then have nd: "n div 1000000000 = 1" "n mod 1000000000 = n - 1000000000"
      using minus_div_mult_eq_mod [of n 1000000000] by simp_all
    have "sint (tv_sec now + ucast (ms div 1000) + word_of_int 1) = sint (tv_sec now) + q + 1"
      using c qr sec by (subst sint_add_64) auto
    moreover have "sint (word_of_int (n - 1000000000) :: u64) = n - 1000000000"
      using n True by (intro sint_of_int_64) auto
    ultimately show ?thesis
      using c qr nsec True n nd
      by (simp add: future_time_def Let_def word_sle_eq n_def [symmetric] time_norm_def ns_def; simp add: n_def)
  next
    case False
    then show ?thesis using c qr sec nsec n
      by (simp add: future_time_def Let_def word_sle_eq n_def [symmetric] time_norm_def ns_def; simp add: n_def)
  qed
qed

lemma future_time_good:
  assumes "clock_ok now"
  shows "time_good (future_time now ms)"
  using future_time_norm [OF assms, of ms] clock_pos [OF assms] by (simp add: time_good_def add_pos_nonneg)

section \<open>The ranking of the delegates\<close>

definition good_in :: "(addr \<Rightarrow> delegate option) \<Rightarrow> addr \<Rightarrow> bool" where
  "good_in D a \<longleftrightarrow> (\<exists>d. D a = Some d \<and> time_good (dl_future d))"

definition due :: "(addr \<Rightarrow> delegate option) \<Rightarrow> addr \<Rightarrow> int" where
  "due D a = (case D a of Some d \<Rightarrow> ns (dl_future d) | None \<Rightarrow> 0)"

lemma outRanks_due: "good_in D a \<Longrightarrow> good_in D b \<Longrightarrow> outRanks (ranks_of D) a b \<longleftrightarrow> due D a < due D b"
  by (auto simp: outRanks_def ranks_of_def good_in_def due_def time_ranks_norm time_good_def)

interpretation tr: loc_ranking "ranks_of D" "good_in D" for D :: "addr \<Rightarrow> delegate option"
  by unfold_locales (auto simp: outRanks_due)

text \<open>A heap of delegates does not notice changes elsewhere.\<close>

abbreviation theap :: "(addr \<Rightarrow> delegate option) \<Rightarrow> addr heap_node \<Rightarrow> bool" where
  "theap D t \<equiv> heap_inv (ranks_of D) (good_in D) t"

lemma heap_ordered_cong:
  "(\<And>a b. a \<in># contents t \<Longrightarrow> b \<in># contents t \<Longrightarrow> ranks a b = ranks' a b) \<Longrightarrow>
     heap_ordered ranks t = heap_ordered ranks' t"
  by (induction t) (auto simp: outRanks_def)

lemma theap_cong:
  assumes "\<And>a. a \<in># contents t \<Longrightarrow> map_option dl_future (D a) = map_option dl_future (D' a)"
  shows "theap D t = theap D' t"
proof -
  have r: "ranks_of D a b = ranks_of D' a b" if "a \<in># contents t" "b \<in># contents t" for a b
    using assms [OF that(1)] assms [OF that(2)] by (auto simp: ranks_of_def split: option.splits)
  have g: "good_in D a = good_in D' a" if "a \<in># contents t" for a
    using assms [OF that] by (auto simp: good_in_def map_option_case split: option.splits)
  have "heap_ordered (ranks_of D) t = heap_ordered (ranks_of D') t" by (rule heap_ordered_cong [OF r])
  with g show ?thesis by (auto simp: heap_inv_def heap_ok_def)
qed

lemma theap_upd_notin [simp]: "a \<notin># contents t \<Longrightarrow> theap (D(a := x)) t = theap D t"
  by (rule theap_cong) auto

lemma theap_alive: "theap D t \<Longrightarrow> heap_alive D t"
  by (auto simp: heap_inv_def good_in_def heap_alive_def)

lemma theap_good: "theap D t \<Longrightarrow> a \<in># contents t \<Longrightarrow> good_in D a"
  by (simp add: heap_inv_def)

text \<open>The top of a heap is due soonest.\<close>

lemma theap_soonest:
  assumes "theap D t" and "LocHeap_peek t = Some a"
  shows "a \<in># contents t \<and> (\<forall>b \<in># contents t. due D a \<le> due D b)"
  using tr.heap.peek_some [OF assms] theap_good [OF assms(1)] by (fastforce simp: outRanks_due)

section \<open>The invariant\<close>

text \<open>The messages about a delegate.\<close>

fun msg_about :: "addr \<Rightarrow> timer_msg \<Rightarrow> bool" where
  "msg_about a (MsgTimerPush w b) \<longleftrightarrow> b = a"
| "msg_about a (MsgTimerRemove w b) \<longleftrightarrow> b = a"
| "msg_about a (MsgTimerExpire w) \<longleftrightarrow> False"

definition about :: "addr \<Rightarrow> timer_msg list \<Rightarrow> timer_msg list" where
  "about a q = filter (msg_about a) q"

lemma about_simps [simp]:
  "about a [] = []" "about a (m # q) = (if msg_about a m then m # about a q else about a q)"
  "about a (q @ q') = about a q @ about a q'"
  by (auto simp: about_def)

definition elsewhere :: "tstate \<Rightarrow> addr \<Rightarrow> bool \<Rightarrow> bool" where
  "elsewhere s a w \<longleftrightarrow> a \<notin># contents (ts_heap s (\<not> w)) \<and> count (contents (ts_heap s w)) a \<le> 1"

text \<open>
  A delegate that its client still owns is on its way into its container or in it; one that was
  told to leave has one message about its removal under way, which comes last.
\<close>

definition owned :: "tstate \<Rightarrow> addr \<Rightarrow> delegate \<Rightarrow> nat \<Rightarrow> bool \<Rightarrow> bool" where
  "owned s a d c w \<longleftrightarrow>
     ts_delegates s a = Some d \<and> time_good (dl_future d) \<and> dl_client d = Some c \<and> dl_container d = Some w \<and>
     ts_timers s c = Some (Some a) \<and> elsewhere s a w \<and>
     (about a (ts_queue s) = [MsgTimerPush w a] \<and> a \<notin># contents (ts_heap s w) \<or> about a (ts_queue s) = [])"

definition leaving :: "tstate \<Rightarrow> addr \<Rightarrow> delegate \<Rightarrow> bool \<Rightarrow> bool" where
  "leaving s a d w \<longleftrightarrow>
     ts_delegates s a = Some d \<and> time_good (dl_future d) \<and> dl_client d = None \<and> dl_container d = None \<and>
     elsewhere s a w \<and>
     (about a (ts_queue s) = [MsgTimerPush w a, MsgTimerRemove w a] \<and> a \<notin># contents (ts_heap s w) \<or>
      about a (ts_queue s) = [MsgTimerRemove w a])"

definition unused :: "tstate \<Rightarrow> addr \<Rightarrow> bool" where
  "unused s a \<longleftrightarrow> ts_delegates s a = None \<and> about a (ts_queue s) = [] \<and> (\<forall>w. a \<notin># contents (ts_heap s w))"

text \<open>
  The delegate the expiration loop has popped is in no heap: first the loop holds its address, then
  the client read from it.
\<close>

fun in_hand :: "expire_loop option \<Rightarrow> addr \<Rightarrow> nat \<Rightarrow> bool" where
  "in_hand (Some (ReadClient w now b)) a c \<longleftrightarrow> a = b"
| "in_hand (Some (StopClient w now e)) a c \<longleftrightarrow> c = e"
| "in_hand _ a c \<longleftrightarrow> False"

fun hand_ok :: "expire_loop option \<Rightarrow> (addr \<Rightarrow> delegate option) \<Rightarrow> bool" where
  "hand_ok (Some (ReadClient w now b)) D \<longleftrightarrow> D b \<noteq> None"
| "hand_ok _ D \<longleftrightarrow> True"

definition delegate_inv :: "tstate \<Rightarrow> addr \<Rightarrow> bool" where
  "delegate_inv s a \<longleftrightarrow>
     unused s a \<or> (\<exists>d w. leaving s a d w) \<or>
     (\<exists>d c w. owned s a d c w \<and>
       (about a (ts_queue s) = [] \<longrightarrow> a \<in># contents (ts_heap s w) \<or> in_hand (ts_loop s) a c))"

definition refs_inv :: "tstate \<Rightarrow> bool" where
  "refs_inv s \<longleftrightarrow>
     (\<forall>c a. ts_timers s c = Some (Some a) \<longrightarrow> (\<exists>d. ts_delegates s a = Some d \<and> dl_client d = Some c))"

definition mem_inv :: "tstate \<Rightarrow> bool" where
  "mem_inv s \<longleftrightarrow> refs_inv s \<and> (\<forall>w. theap (ts_delegates s) (ts_heap s w)) \<and> (\<forall>a. delegate_inv s a) \<and>
     hand_ok (ts_loop s) (ts_delegates s)"

text \<open>Arming and polling do not matter to it.\<close>

lemma mem_inv_poll [simp]:
  "mem_inv (s\<lparr>ts_armed := ar\<rparr>) = mem_inv s" "mem_inv (s\<lparr>ts_polled := po\<rparr>) = mem_inv s"
  "mem_inv (s\<lparr>ts_poll := pl\<rparr>) = mem_inv s"
  "mem_inv (s\<lparr>ts_fired := fi\<rparr>) = mem_inv s" "mem_inv (s\<lparr>ts_stopped := st\<rparr>) = mem_inv s"
  "mem_inv (s\<lparr>ts_deleted := de\<rparr>) = mem_inv s" "mem_inv (s\<lparr>ts_next := n\<rparr>) = mem_inv s"
  by (simp_all add: mem_inv_def refs_inv_def delegate_inv_def unused_def leaving_def owned_def elsewhere_def)

text \<open>Whether a delegate is in order depends only on what concerns it.\<close>

lemma delegate_inv_cong:
  assumes "ts_delegates s' b = ts_delegates s b" and "about b (ts_queue s') = about b (ts_queue s)"
    and "\<And>w. count (contents (ts_heap s' w)) b = count (contents (ts_heap s w)) b"
    and "\<And>c. ts_timers s' c = Some (Some b) \<longleftrightarrow> ts_timers s c = Some (Some b)"
    and "\<And>c. in_hand (ts_loop s') b c \<longleftrightarrow> in_hand (ts_loop s) b c"
  shows "delegate_inv s' b \<longleftrightarrow> delegate_inv s b"
proof -
  have m: "b \<in># contents (ts_heap s' w) \<longleftrightarrow> b \<in># contents (ts_heap s w)" for w
    using assms(3) [of w] by (metis count_eq_zero_iff)
  show ?thesis
    using assms(1,2,4,5) m assms(3)
    by (simp add: delegate_inv_def unused_def leaving_def owned_def elsewhere_def)
qed

text \<open>The loop may go on when it holds nothing, before and after, or what it held has been dealt with.\<close>

lemma mem_inv_loop:
  assumes "mem_inv s" and "hand_ok lp (ts_delegates s)"
    and "\<And>a c. in_hand (ts_loop s) a c \<Longrightarrow> ts_timers s c = Some (Some a) \<Longrightarrow> in_hand lp a c"
  shows "mem_inv (s\<lparr>ts_loop := lp\<rparr>)"
proof -
  have "delegate_inv (s\<lparr>ts_loop := lp\<rparr>) a" for a
  proof -
    have "delegate_inv s a" using assms(1) by (simp add: mem_inv_def)
    with assms(3) [of a] show ?thesis
      by (auto simp: delegate_inv_def unused_def leaving_def owned_def elsewhere_def)
  qed
  with assms(1,2) show ?thesis by (simp add: mem_inv_def refs_inv_def)
qed

lemma mem_inv_no_hand:
  assumes "mem_inv s" and "\<And>a c. \<not> in_hand (ts_loop s) a c" and "hand_ok lp (ts_delegates s)"
  shows "mem_inv (s\<lparr>ts_loop := lp\<rparr>)"
  using assms by (intro mem_inv_loop) auto

lemma msg_about_other [simp]: "msg_about a (MsgTimerPush w b) = (b = a)" "msg_about a (MsgTimerRemove w b) = (b = a)"
  by auto

section \<open>Arming\<close>

text \<open>The timerfd of a container is armed for its soonest timer and polled.\<close>

definition armed_for :: "tstate \<Rightarrow> bool \<Rightarrow> bool" where
  "armed_for s w \<longleftrightarrow>
     (\<forall>c d. LocHeap_peek (ts_heap s w) = Some c \<longrightarrow> ts_delegates s c = Some d \<longrightarrow>
        ts_armed s w = Some (dl_future d) \<and> ts_polled s w)"

definition set_timer :: "bool \<Rightarrow> timespec option \<Rightarrow> bool \<Rightarrow> tstate \<Rightarrow> tstate" where
  "set_timer w ar po s = s\<lparr>ts_armed := (ts_armed s)(w := ar), ts_polled := (ts_polled s)(w := po)\<rparr>"

lemma set_timer_simps [simp]:
  "ts_delegates (set_timer w ar po s) = ts_delegates s" "ts_timers (set_timer w ar po s) = ts_timers s"
  "ts_heap (set_timer w ar po s) = ts_heap s" "ts_queue (set_timer w ar po s) = ts_queue s"
  "ts_loop (set_timer w ar po s) = ts_loop s" "ts_poll (set_timer w ar po s) = ts_poll s"
  "ts_fired (set_timer w ar po s) = ts_fired s" "ts_stopped (set_timer w ar po s) = ts_stopped s"
  "ts_deleted (set_timer w ar po s) = ts_deleted s" "ts_next (set_timer w ar po s) = ts_next s"
  "ts_armed (set_timer w ar po s) = (ts_armed s)(w := ar)" "ts_polled (set_timer w ar po s) = (ts_polled s)(w := po)"
  "mem_inv (set_timer w ar po s) = mem_inv s"
  by (simp_all add: set_timer_def)

lemma peek_good:
  "theap D t \<Longrightarrow> LocHeap_peek t = Some c \<Longrightarrow> \<exists>d. D c = Some d \<and> time_good (dl_future d)"
  using theap_soonest theap_good by (metis good_in_def)

lemma settime_good:
  "time_good t \<Longrightarrow> timerfd_settime w t (addPoll w s) = set_timer w (Some t) True s"
  using zero_not_good [of t] by (auto simp: timerfd_settime_def addPoll_def set_timer_def)

text \<open>With NULL for the prior top the timerfd is set for the current top.\<close>

lemma update_soonest_None:
  assumes "theap (ts_delegates s) (ts_heap s w)"
  shows "\<exists>ar po. updateSoonestTime w None s = Some (set_timer w ar po s) \<and> armed_for (set_timer w ar po s) w"
proof (cases "LocHeap_peek (ts_heap s w)")
  case None
  then have "updateSoonestTime w None s = Some (set_timer w (ts_armed s w) (ts_polled s w) s)"
    by (simp add: updateSoonestTime_def getSoonestTimer_def set_timer_def)
  with None show ?thesis by (auto simp: armed_for_def)
next
  case (Some c)
  with peek_good [OF assms] obtain d where d: "ts_delegates s c = Some d" "time_good (dl_future d)" by blast
  then have "updateSoonestTime w None s = Some (set_timer w (Some (dl_future d)) True s)"
    using Some by (simp add: updateSoonestTime_def getSoonestTimer_def settime_good)
  with Some d show ?thesis by (auto simp: armed_for_def)
qed

text \<open>With a prior top that may still be top, for which the timerfd was armed.\<close>

lemma update_soonest_Some:
  assumes "theap (ts_delegates s) (ts_heap s w)" and "LocHeap_peek (ts_heap s w) = Some c"
    and "ts_delegates s p = Some pd" and "time_good (dl_future pd)"
  shows "\<exists>ar po. updateSoonestTime w (Some p) s = Some (set_timer w ar po s) \<and>
    (ts_armed s w = Some (dl_future pd) \<and> ts_polled s w \<and> due (ts_delegates s) c \<le> due (ts_delegates s) p \<longrightarrow>
      armed_for (set_timer w ar po s) w)"
proof -
  from peek_good [OF assms(1,2)] obtain d where d: "ts_delegates s c = Some d" "time_good (dl_future d)" by blast
  have r: "time_ranks (dl_future d) (dl_future pd) > 0 \<longleftrightarrow> ns (dl_future d) < ns (dl_future pd)"
    using d(2) assms(4) by (simp add: time_ranks_norm time_good_def)
  show ?thesis
  proof (cases "c \<noteq> p \<and> ns (dl_future d) < ns (dl_future pd)")
    case True
    then have "updateSoonestTime w (Some p) s = Some (set_timer w (Some (dl_future d)) True s)"
      using assms(2,3) d r by (simp add: updateSoonestTime_def getSoonestTimer_def settime_good)
    with assms(2) d show ?thesis by (auto simp: armed_for_def)
  next
    case False
    then have "updateSoonestTime w (Some p) s = Some (set_timer w (ts_armed s w) (ts_polled s w) s)"
      using assms(2,3) d r by (auto simp: updateSoonestTime_def getSoonestTimer_def set_timer_def)
    moreover have "dl_future d = dl_future pd" if "ns (dl_future d) \<le> ns (dl_future pd)"
      using False that d assms(3,4) by (cases "c = p") (auto simp: time_good_def intro: ns_inj)
    ultimately show ?thesis using assms(2,3) d
      by (intro exI [of _ "ts_armed s w"] exI [of _ "ts_polled s w"]) (auto simp: armed_for_def due_def)
  qed
qed

section \<open>Every step keeps the memory in order\<close>

lemma refs_invD:
  "refs_inv s \<Longrightarrow> ts_timers s c = Some (Some a) \<Longrightarrow> \<exists>d. ts_delegates s a = Some d \<and> dl_client d = Some c"
  by (simp add: refs_inv_def)

definition after_stop :: "nat \<Rightarrow> addr \<Rightarrow> delegate \<Rightarrow> bool \<Rightarrow> tstate \<Rightarrow> tstate" where
  "after_stop c a d w s =
     s\<lparr>ts_timers := (ts_timers s)(c \<mapsto> None),
       ts_delegates := (ts_delegates s)(a \<mapsto> d\<lparr>dl_client := None, dl_container := None\<rparr>),
       ts_queue := ts_queue s @ [MsgTimerRemove w a]\<rparr>"

lemma LocTimer_stop_owned:
  assumes "owned s a d c w" and "refs_inv s" and heaps: "\<forall>w. theap (ts_delegates s) (ts_heap s w)"
    and others: "\<forall>b. b \<noteq> a \<longrightarrow> delegate_inv s b" and hand: "hand_ok (ts_loop s) (ts_delegates s)"
  shows "LocTimer_stop c s = Some (True, after_stop c a d w s) \<and> mem_inv (after_stop c a d w s)"
proof
  have o: "ts_delegates s a = Some d" "time_good (dl_future d)" "dl_client d = Some c" "dl_container d = Some w"
      "ts_timers s c = Some (Some a)" "elsewhere s a w"
      "about a (ts_queue s) = [MsgTimerPush w a] \<and> a \<notin># contents (ts_heap s w) \<or> about a (ts_queue s) = []"
    using assms(1) by (auto simp: owned_def)
  show "LocTimer_stop c s = Some (True, after_stop c a d w s)"
    using o by (simp add: LocTimer_stop_def destroyLocked_def LocTimerContainer_remove_def send_msg_def after_stop_def)
  let ?s = "after_stop c a d w s"
  have "ts_timers s e = Some (Some a) \<Longrightarrow> e = c" for e
    using refs_invD [OF assms(2), of e a] o(1,3) by auto
  then have "refs_inv ?s" using assms(2) o(1,3) by (auto simp: refs_inv_def after_stop_def)
  moreover have "theap (ts_delegates ?s) (ts_heap ?s v)" for v
    using heaps theap_cong [of "ts_heap s v" "ts_delegates s" "ts_delegates ?s"] o(1) by (auto simp: after_stop_def)
  moreover have "delegate_inv ?s b" for b
  proof (cases "b = a")
    case True
    have "leaving ?s a (d\<lparr>dl_client := None, dl_container := None\<rparr>) w"
      using o by (auto simp: leaving_def after_stop_def elsewhere_def)
    with True show ?thesis by (auto simp: delegate_inv_def)
  next
    case False
    have "ts_timers s e = Some (Some b) \<Longrightarrow> e \<noteq> c" for e using o(5) False by auto
    with False have "delegate_inv ?s b \<longleftrightarrow> delegate_inv s b"
      by (intro delegate_inv_cong) (auto simp: after_stop_def)
    with others False show ?thesis by simp
  qed
  moreover have "hand_ok (ts_loop ?s) (ts_delegates ?s)"
    using hand by (cases "(ts_loop s, ts_delegates s)" rule: hand_ok.cases) (auto simp: after_stop_def)
  ultimately show "mem_inv ?s" by (simp add: mem_inv_def)
qed

text \<open>The delegate of a running timer, and what stopping a timer does.\<close>

lemma mem_inv_owned:
  assumes "mem_inv s" and "ts_timers s c = Some (Some a)"
  shows "\<exists>d w. owned s a d c w"
proof -
  have r: "refs_inv s" "delegate_inv s a" using assms(1) by (auto simp: mem_inv_def)
  then obtain d where d: "ts_delegates s a = Some d" "dl_client d = Some c"
    using assms(2) by (auto simp: refs_inv_def)
  from r(2) show ?thesis using d by (auto simp: delegate_inv_def unused_def leaving_def owned_def)
qed

lemma LocTimer_stop_cases:
  assumes "mem_inv s" and "ts_timers s c = Some mTimer"
  shows "case mTimer of
      None \<Rightarrow> LocTimer_stop c s = Some (False, s)
    | Some a \<Rightarrow> \<exists>d w. owned s a d c w \<and> LocTimer_stop c s = Some (True, after_stop c a d w s) \<and>
        mem_inv (after_stop c a d w s)"
proof (cases mTimer)
  case None
  with assms show ?thesis by (simp add: LocTimer_stop_def)
next
  case (Some a)
  with assms mem_inv_owned obtain d w where o: "owned s a d c w" by blast
  from LocTimer_stop_owned [OF o] o assms(1) Some show ?thesis by (auto simp: mem_inv_def)
qed

lemma LocTimer_destructor_ok:
  assumes "mem_inv s" and "ts_timers s c = Some mTimer"
  shows "\<exists>s1. LocTimer_stop c s = Some (mTimer \<noteq> None, s1) \<and> mem_inv s1 \<and> ts_timers s1 c = Some None \<and>
    LocTimer_destructor c s = Some (s1\<lparr>ts_timers := (ts_timers s1)(c := None)\<rparr>) \<and>
    mem_inv (s1\<lparr>ts_timers := (ts_timers s1)(c := None)\<rparr>)"
proof -
  from LocTimer_stop_cases [OF assms] obtain s1 where s1: "LocTimer_stop c s = Some (mTimer \<noteq> None, s1)"
      "mem_inv s1" "ts_timers s1 c = Some None"
    using assms by (cases mTimer) (auto simp: after_stop_def)
  have "delegate_inv (s1\<lparr>ts_timers := (ts_timers s1)(c := None)\<rparr>) b = delegate_inv s1 b" for b
    using s1(3) by (intro delegate_inv_cong) auto
  then have "mem_inv (s1\<lparr>ts_timers := (ts_timers s1)(c := None)\<rparr>)"
    using s1(2,3) by (auto simp: mem_inv_def refs_inv_def)
  with s1 show ?thesis by (auto simp: LocTimer_destructor_def)
qed

lemma LocTimer_start_ok:
  assumes inv: "mem_inv s" and c: "ts_timers s c = Some mTimer" and fresh: "ts_delegates s a = None"
    and now: "clock_ok now"
  shows "\<exists>r s'. LocTimer_start c ms w now cont a s = Some (r, s') \<and> mem_inv s' \<and> r = (mTimer = None \<and> cont)"
proof (cases "mTimer = None \<and> cont")
  case False
  with inv c show ?thesis by (auto simp: LocTimer_start_def Let_def)
next
  case True
  define d where "d = \<lparr>dl_client = Some c, dl_future = future_time now ms, dl_container = Some w, dl_id = ts_next s\<rparr>"
  define s' where "s' = s\<lparr>ts_delegates := (ts_delegates s)(a \<mapsto> d), ts_timers := (ts_timers s)(c \<mapsto> Some a),
      ts_next := ts_next s + 1, ts_queue := ts_queue s @ [MsgTimerPush w a]\<rparr>"
  have start: "LocTimer_start c ms w now cont a s = Some (True, s')"
    using True c by (simp add: LocTimer_start_def Let_def LocTimerContainer_add_def send_msg_def s'_def d_def)
  have "delegate_inv s a" using inv by (simp add: mem_inv_def)
  then have un: "unused s a" using fresh by (auto simp: delegate_inv_def leaving_def owned_def)
  have r: "refs_inv s" using inv by (simp add: mem_inv_def)
  have ne: "ts_timers s e \<noteq> Some (Some a)" for e using refs_invD [OF r, of e a] fresh by auto
  have "refs_inv s'" using r ne by (auto simp: refs_inv_def s'_def d_def)
  moreover have "theap (ts_delegates s') (ts_heap s' v)" for v
  proof -
    have "a \<notin># contents (ts_heap s v)" using un by (simp add: unused_def)
    then show ?thesis using inv by (simp add: mem_inv_def s'_def)
  qed
  moreover have "delegate_inv s' b" for b
  proof (cases "b = a")
    case True
    have "owned s' a d c w"
      using un future_time_good [OF now, of ms]
      by (auto simp: owned_def s'_def d_def unused_def elsewhere_def not_in_iff)
    moreover have "about a (ts_queue s') \<noteq> []" by (simp add: s'_def)
    ultimately show ?thesis using True by (auto simp: delegate_inv_def)
  next
    case False
    have "delegate_inv s' b \<longleftrightarrow> delegate_inv s b"
      using False \<open>mTimer = None \<and> cont\<close> c by (intro delegate_inv_cong) (auto simp: s'_def)
    with inv show ?thesis by (simp add: mem_inv_def)
  qed
  moreover have "hand_ok (ts_loop s') (ts_delegates s')"
    using inv by (cases "(ts_loop s, ts_delegates s)" rule: hand_ok.cases) (auto simp: s'_def mem_inv_def)
  ultimately have "mem_inv s'" by (simp add: mem_inv_def)
  with start True show ?thesis by auto
qed

lemma mem_inv_heap: "mem_inv s \<Longrightarrow> theap (ts_delegates s) (ts_heap s w)"
  by (simp add: mem_inv_def)

lemma mem_inv_delegate: "mem_inv s \<Longrightarrow> delegate_inv s a"
  by (simp add: mem_inv_def)

text \<open>A message about a delegate at the head of the queue.\<close>

lemma push_head:
  assumes "mem_inv s" and "ts_queue s = MsgTimerPush w a # q"
  shows "\<exists>d. ts_delegates s a = Some d \<and> time_good (dl_future d) \<and> (\<forall>v. a \<notin># contents (ts_heap s v)) \<and>
    (about a q = [] \<and> dl_client d \<noteq> None \<and> dl_container d = Some w \<and>
       (\<forall>c. dl_client d = Some c \<longrightarrow> ts_timers s c = Some (Some a)) \<or>
     about a q = [MsgTimerRemove w a] \<and> dl_client d = None \<and> dl_container d = None)"
proof -
  have e: "a \<notin># contents (ts_heap s (\<not> v)) \<Longrightarrow> a \<notin># contents (ts_heap s v) \<Longrightarrow> \<forall>u. a \<notin># contents (ts_heap s u)" for v
    by (cases v) (auto simp: all_bool_eq)
  from mem_inv_delegate [OF assms(1), of a] assms(2) show ?thesis
    by (auto simp: delegate_inv_def unused_def leaving_def owned_def elsewhere_def dest: e)
qed

lemma remove_head:
  assumes "mem_inv s" and "ts_queue s = MsgTimerRemove w a # q"
  shows "\<exists>d. ts_delegates s a = Some d \<and> time_good (dl_future d) \<and> dl_client d = None \<and> elsewhere s a w \<and> about a q = []"
  using mem_inv_delegate [OF assms(1), of a] assms(2)
  by (auto simp: delegate_inv_def unused_def leaving_def owned_def)

lemma MsgTimerPush_ok:
  assumes inv: "mem_inv s" and q: "ts_queue s = MsgTimerPush w a # q"
  shows "\<exists>ar po. let s' = set_timer w ar po (s\<lparr>ts_queue := q,
        ts_heap := (ts_heap s)(w := LocHeap_push (ranks_of (ts_delegates s)) a (ts_heap s w))\<rparr>) in
      MsgTimerPush_proc w a (s\<lparr>ts_queue := q\<rparr>) = Some s' \<and> mem_inv s' \<and> (armed_for s w \<longrightarrow> armed_for s' w)"
proof -
  let ?D = "ts_delegates s" and ?t = "ts_heap s w"
  let ?t' = "LocHeap_push (ranks_of ?D) a ?t"
  let ?s = "s\<lparr>ts_queue := q, ts_heap := (ts_heap s)(w := ?t')\<rparr>"
  obtain d where d: "?D a = Some d" "time_good (dl_future d)" "\<forall>v. a \<notin># contents (ts_heap s v)"
    and ab: "about a q = [] \<and> dl_client d \<noteq> None \<and> dl_container d = Some w \<and>
         (\<forall>c. dl_client d = Some c \<longrightarrow> ts_timers s c = Some (Some a)) \<or>
       about a q = [MsgTimerRemove w a] \<and> dl_client d = None \<and> dl_container d = None"
    using push_head [OF inv q] by blast
  have h: "theap ?D ?t" by (rule mem_inv_heap [OF inv])
  from tr.heap.push_law [OF h, of a] d have t': "theap ?D ?t'" "contents ?t' = add_mset a (contents ?t)"
    by (auto simp: good_in_def)
  have "delegate_inv ?s b" for b
  proof (cases "b = a")
    case True
    from ab d t'(2) have "(\<exists>c. owned ?s a d c w) \<or> leaving ?s a d w"
      by (auto simp: owned_def leaving_def elsewhere_def not_in_iff)
    moreover have "a \<in># contents (ts_heap ?s w)" using t'(2) by simp
    ultimately show ?thesis unfolding delegate_inv_def True by blast
  next
    case False
    have "delegate_inv ?s b \<longleftrightarrow> delegate_inv s b" using False q t'(2) by (intro delegate_inv_cong) auto
    with mem_inv_delegate [OF inv] show ?thesis by simp
  qed
  then have m: "mem_inv ?s" using inv t'(1) by (auto simp: mem_inv_def refs_inv_def)
  obtain c where c: "LocHeap_peek ?t' = Some c" using tr.heap.peek_none [OF t'(1)] t'(2) by (cases "LocHeap_peek ?t'") auto
  have "\<exists>ar po. updateSoonestTime w (LocHeap_peek ?t) ?s = Some (set_timer w ar po ?s) \<and>
      (armed_for s w \<longrightarrow> armed_for (set_timer w ar po ?s) w)"
  proof (cases "LocHeap_peek ?t")
    case None
    with update_soonest_None [of ?s w] t'(1) show ?thesis by auto
  next
    case (Some p)
    with peek_good [OF h] obtain pd where pd: "?D p = Some pd" "time_good (dl_future pd)" by blast
    have "p \<in># contents ?t'" using theap_soonest [OF h Some] t'(2) by simp
    then have "due ?D c \<le> due ?D p" using theap_soonest [OF t'(1) c] by blast
    with update_soonest_Some [of ?s w c p pd] t'(1) c pd Some show ?thesis by (auto simp: armed_for_def)
  qed
  with h d(1) m show ?thesis
    by (auto simp: MsgTimerPush_proc_def Let_def theap_alive getSoonestTimer_def)
qed

definition without :: "addr \<Rightarrow> tstate \<Rightarrow> tstate" where
  "without a s = (case ts_delegates s a of None \<Rightarrow> s
     | Some d \<Rightarrow> s\<lparr>ts_delegates := (ts_delegates s)(a := None), ts_deleted := ts_deleted s @ [dl_id d]\<rparr>)"

lemma without_set_timer: "without a (set_timer w ar po s) = set_timer w ar po (without a s)"
  by (rule tstate.equality) (auto simp: without_def set_timer_def split: option.split)

lemma MsgTimerRemove_ok:
  assumes inv: "mem_inv s" and q: "ts_queue s = MsgTimerRemove w a # q" and idle: "ts_loop s = None"
  shows "\<exists>ar po t'. let s' = without a (set_timer w ar po (s\<lparr>ts_queue := q, ts_heap := (ts_heap s)(w := t')\<rparr>)) in
      MsgTimerRemove_proc w a (s\<lparr>ts_queue := q\<rparr>) = Some s' \<and> mem_inv s' \<and> (armed_for s w \<longrightarrow> armed_for s' w)"
proof -
  let ?D = "ts_delegates s" and ?t = "ts_heap s w"
  obtain d where d: "?D a = Some d" "time_good (dl_future d)" "dl_client d = None" "elsewhere s a w" "about a q = []"
    using remove_head [OF inv q] by blast
  have h: "theap ?D ?t" by (rule mem_inv_heap [OF inv])
  obtain r t' where rt: "LocHeap_remove (ranks_of ?D) a ?t = (r, t')" by fastforce
  have t': "theap ?D t'" "contents t' = contents ?t - {#a#}" "r = (if a \<in># contents ?t then Some a else None)"
  proof (atomize (full), cases "a \<in># contents ?t")
    case True
    from tr.heap.remove_in [OF h True] True
    show "theap ?D t' \<and> contents t' = contents ?t - {#a#} \<and> r = (if a \<in># contents ?t then Some a else None)"
      by (simp add: rt)
  next
    case False
    from tr.heap.remove_notin [OF h False] have "r = None" "t' = ?t" by (simp_all add: rt)
    with False h show "theap ?D t' \<and> contents t' = contents ?t - {#a#} \<and> r = (if a \<in># contents ?t then Some a else None)"
      by (simp add: diff_single_trivial)
  qed
  have out: "a \<notin># contents t'" using t'(2) d(4) by (auto simp: elsewhere_def not_in_iff)
  let ?s = "s\<lparr>ts_queue := q, ts_heap := (ts_heap s)(w := t')\<rparr>"
  have upd: "\<exists>ar po. (if LocHeap_peek ?t = r then updateSoonestTime w None ?s else Some ?s) = Some (set_timer w ar po ?s) \<and>
      (armed_for s w \<longrightarrow> armed_for (set_timer w ar po ?s) w)"
  proof (cases "LocHeap_peek ?t = r")
    case True
    with update_soonest_None [of ?s w] t'(1) show ?thesis by auto
  next
    case False
    have "armed_for ?s w" if "armed_for s w"
      unfolding armed_for_def
    proof (intro allI impI)
      fix c e
      assume "LocHeap_peek (ts_heap ?s w) = Some c" "ts_delegates ?s c = Some e"
      then have c: "LocHeap_peek t' = Some c" "?D c = Some e" by simp_all
      then have ct: "c \<in># contents ?t" using theap_soonest [OF t'(1)] t'(2) by (auto dest: in_diffD)
      then obtain p where p: "LocHeap_peek ?t = Some p" using tr.heap.peek_none [OF h] by (cases "LocHeap_peek ?t") auto
      with peek_good [OF h] obtain pd where pd: "?D p = Some pd" "time_good (dl_future pd)" by blast
      have "p \<in># contents t'"
        using theap_soonest [OF h p] False p t'(2,3) by (auto simp: in_diff_count split: if_splits)
      then have "due ?D c = due ?D p"
        using conjunct2 [OF theap_soonest [OF h p]] conjunct2 [OF theap_soonest [OF t'(1) c(1)]] ct by (meson antisym)
      moreover have "time_good (dl_future e)" using theap_good [OF h ct] c(2) by (simp add: good_in_def)
      ultimately have "dl_future e = dl_future pd" using pd c(2) by (auto simp: due_def time_good_def intro: ns_inj)
      with that p pd show "ts_armed ?s w = Some (dl_future e) \<and> ts_polled ?s w" by (simp add: armed_for_def)
    qed
    with False show ?thesis by (intro exI [of _ "ts_armed s w"] exI [of _ "ts_polled s w"]) (simp add: set_timer_def)
  qed
  have gone: "\<forall>v. a \<notin># contents (ts_heap ?s v)" using out d(4) by (auto simp: elsewhere_def)
  have "delegate_inv (without a ?s) b" for b
  proof (cases "b = a")
    case True
    have "unused (without a ?s) a" using gone d(1,5) by (auto simp: unused_def without_def)
    with True show ?thesis by (simp add: delegate_inv_def)
  next
    case False
    have "delegate_inv (without a ?s) b \<longleftrightarrow> delegate_inv s b"
      using False q t'(2) d(1) by (intro delegate_inv_cong) (auto simp: without_def)
    with mem_inv_delegate [OF inv] show ?thesis by simp
  qed
  moreover have "refs_inv (without a ?s)"
  proof -
    have r: "refs_inv s" using inv by (simp add: mem_inv_def)
    have "ts_timers s e \<noteq> Some (Some a)" for e using refs_invD [OF r, of e a] d(1,3) by auto
    with r d(1) show ?thesis by (simp add: refs_inv_def without_def)
  qed
  moreover have "theap (ts_delegates (without a ?s)) (ts_heap (without a ?s) v)" for v
    using spec [OF gone, of v] d(1) t'(1) mem_inv_heap [OF inv] by (cases "v = w") (auto simp: without_def)
  moreover have "ts_loop (without a ?s) = None" using idle by (simp add: without_def split: option.split)
  ultimately have m: "mem_inv (without a ?s)" by (simp add: mem_inv_def)
  from upd obtain ar po where u: "(if LocHeap_peek ?t = r then updateSoonestTime w None ?s else Some ?s) = Some (set_timer w ar po ?s)"
      "armed_for s w \<longrightarrow> armed_for (set_timer w ar po ?s) w" by blast
  have "armed_for (without a (set_timer w ar po ?s)) w" if "armed_for (set_timer w ar po ?s) w"
    using that d(1) by (auto simp: armed_for_def without_def split: if_splits)
  moreover have "mem_inv (without a (set_timer w ar po ?s))"
    using m by (simp add: without_set_timer)
  moreover have "MsgTimerRemove_proc w a (s\<lparr>ts_queue := q\<rparr>) = Some (without a (set_timer w ar po ?s))"
    using h d(1) rt u(1)
    by (auto simp: MsgTimerRemove_proc_def Let_def theap_alive getSoonestTimer_def delete_delegate_def without_def
        split: if_splits)
  ultimately show ?thesis using u(2) by (auto simp: Let_def)
qed

fun loop_container :: "expire_loop \<Rightarrow> bool" where
  "loop_container (FirstPop w now) = w"
| "loop_container (NextPop w now) = w"
| "loop_container (ReadClient w now a) = w"
| "loop_container (StopClient w now c) = w"
| "loop_container (CallBack w now c) = w"

text \<open>One delegate leaves its heap by a pop and is in the hand of the loop.\<close>

definition popped :: "bool \<Rightarrow> timespec \<Rightarrow> addr \<Rightarrow> addr heap_node \<Rightarrow> tstate \<Rightarrow> tstate" where
  "popped w now a t s = s\<lparr>ts_loop := Some (ReadClient w now a), ts_heap := (ts_heap s)(w := t)\<rparr>"

lemma pop_ok:
  assumes inv: "mem_inv s" and pk: "LocHeap_peek (ts_heap s w) = Some a" and free: "\<And>b c. \<not> in_hand (ts_loop s) b c"
  shows "\<exists>t d. LocHeap_pop (ranks_of (ts_delegates s)) (ts_heap s w) = (Some a, t) \<and> ts_delegates s a = Some d \<and>
    mem_inv (popped w now a t s)"
proof -
  let ?D = "ts_delegates s" and ?t = "ts_heap s w"
  have h: "theap ?D ?t" by (rule mem_inv_heap [OF inv])
  obtain r t where rt: "LocHeap_pop (ranks_of ?D) ?t = (r, t)" by fastforce
  have t: "r = Some a" "theap ?D t" "contents t = contents ?t - {#a#}"
    using tr.heap.pop_law [OF h] pk by (simp_all add: rt)
  have ain: "a \<in># contents ?t" using theap_soonest [OF h pk] by simp
  obtain d where d: "?D a = Some d" using theap_good [OF h ain] by (auto simp: good_in_def)
  let ?s = "popped w now a t s"
  have "delegate_inv ?s b" for b
  proof (cases "b = a")
    case False
    have "delegate_inv ?s b \<longleftrightarrow> delegate_inv s b" using False t(3) free by (intro delegate_inv_cong) (auto simp: popped_def)
    with mem_inv_delegate [OF inv] show ?thesis by simp
  next
    case True
    have we: "v = w" if "elsewhere s a v" for v
      using that ain by (cases "v = w") (auto simp: elsewhere_def)
    have split: "(\<exists>c. owned s a d c w \<and> about a (ts_queue s) = []) \<or>
        leaving s a d w \<and> about a (ts_queue s) = [MsgTimerRemove w a]"
    proof -
      from mem_inv_delegate [OF inv, of a] d consider e c v where "owned s a e c v" | e v where "leaving s a e v"
        by (auto simp: delegate_inv_def unused_def)
      then show ?thesis
      proof cases
        case 1
        then have "e = d" "elsewhere s a v" using d by (auto simp: owned_def)
        with 1 we ain show ?thesis by (auto simp: owned_def)
      next
        case 2
        then have "e = d" "elsewhere s a v" using d by (auto simp: leaving_def)
        with 2 we ain show ?thesis by (auto simp: leaving_def)
      qed
    qed
    then consider c where "owned s a d c w" "about a (ts_queue s) = []"
      | "leaving s a d w" "about a (ts_queue s) = [MsgTimerRemove w a]" by blast
    then show ?thesis
    proof cases
      case 1
      then have "owned ?s a d c w" using t(3) by (auto simp: owned_def popped_def elsewhere_def)
      with True show ?thesis by (auto simp: delegate_inv_def popped_def)
    next
      case 2
      then have "leaving ?s a d w" using t(3) by (auto simp: leaving_def popped_def elsewhere_def)
      with True show ?thesis by (auto simp: delegate_inv_def)
    qed
  qed
  moreover have "refs_inv ?s" using inv by (simp add: mem_inv_def refs_inv_def popped_def)
  moreover have "theap (ts_delegates ?s) (ts_heap ?s v)" for v using inv t(2) by (simp add: mem_inv_def popped_def)
  ultimately have "mem_inv ?s" using d by (simp add: mem_inv_def popped_def)
  with rt t(1) d show ?thesis by blast
qed

text \<open>A pop of the expiration loop ends it, or takes the soonest timer; a later one only one that is due.\<close>

lemma pop_round_ok:
  assumes inv: "mem_inv s" and lp: "ts_loop s = Some lp" "lp = FirstPop w now \<or> lp = NextPop w now"
  shows "(\<exists>ar po. let s' = set_timer w ar po (s\<lparr>ts_loop := None\<rparr>) in
      expire_round lp s = Some s' \<and> mem_inv s' \<and> armed_for s' w) \<or>
    (\<exists>a t d. ts_delegates s a = Some d \<and> (lp = NextPop w now \<longrightarrow> \<not> time_ranks now (dl_future d) > 0) \<and>
      expire_round lp s = Some (popped w now a t s) \<and> mem_inv (popped w now a t s) \<and> good_in (ts_delegates s) a)"
proof -
  have h: "theap (ts_delegates s) (ts_heap s w)" by (rule mem_inv_heap [OF inv])
  have free: "\<not> in_hand (ts_loop s) b c" for b c using lp by auto
  have m: "mem_inv (s\<lparr>ts_loop := None\<rparr>)" using free by (intro mem_inv_no_hand [OF inv]) auto
  have upd: "\<exists>ar po. updateSoonestTime w None (s\<lparr>ts_loop := None\<rparr>) = Some (set_timer w ar po (s\<lparr>ts_loop := None\<rparr>)) \<and>
      armed_for (set_timer w ar po (s\<lparr>ts_loop := None\<rparr>)) w"
    using update_soonest_None [of "s\<lparr>ts_loop := None\<rparr>" w] h by simp
  show ?thesis
  proof (cases "LocHeap_peek (ts_heap s w)")
    case None
    then have e: "ts_heap s w = NoNode" by (simp add: peek_mData split: if_splits)
    have "s\<lparr>ts_loop := None, ts_heap := (ts_heap s)(w := NoNode)\<rparr> = s\<lparr>ts_loop := None\<rparr>"
      by (rule tstate.equality) (auto simp: e fun_eq_iff)
    with None e lp(2) have "expire_round lp s = updateSoonestTime w None (s\<lparr>ts_loop := None\<rparr>)"
      by (auto simp: expire_round_def LocHeap_pop_def heap_alive_def popIfOutRanks_def)
    with upd m show ?thesis by (auto simp: Let_def)
  next
    case (Some a)
    have g: "good_in (ts_delegates s) a" using theap_soonest [OF h Some] theap_good [OF h] by blast
    from pop_ok [OF inv Some free, of now] obtain t d where
      t: "LocHeap_pop (ranks_of (ts_delegates s)) (ts_heap s w) = (Some a, t)" "ts_delegates s a = Some d"
        "mem_inv (popped w now a t s)" by blast
    show ?thesis
    proof (cases "lp = NextPop w now \<and> time_ranks now (dl_future d) > 0")
      case True
      with Some t(2) h have "expire_round lp s = updateSoonestTime w None (s\<lparr>ts_loop := None\<rparr>)"
        by (simp add: expire_round_def popIfOutRanks_def theap_alive)
      with upd m show ?thesis by (auto simp: Let_def)
    next
      case False
      have eq: "s\<lparr>ts_heap := (ts_heap s)(w := t), ts_loop := Some (ReadClient w now a)\<rparr> = popped w now a t s"
        by (rule tstate.equality) (simp_all add: popped_def)
      have "expire_round lp s = Some (popped w now a t s)"
        using False lp(2) Some t h by (auto simp: expire_round_def popIfOutRanks_def theap_alive eq; simp add: popped_def)
      with t g False show ?thesis by blast
    qed
  qed
qed

section \<open>The fate of each delegate\<close>

text \<open>
  Delegates in memory have different numbers; each number is that of one in memory or was deleted,
  once; a delegate whose client owns it was neither stopped nor fired, and any other one was one of
  the two, once.
\<close>

definition ids_ok :: "(addr \<Rightarrow> delegate option) \<Rightarrow> nat \<Rightarrow> nat list \<Rightarrow> nat list \<Rightarrow> nat list \<Rightarrow> bool" where
  "ids_ok D n fi st de \<longleftrightarrow>
     (\<forall>a d. D a = Some d \<longrightarrow> dl_id d < n \<and> dl_id d \<notin> set de \<and>
        (dl_client d = None \<longleftrightarrow> dl_id d \<in> set fi \<union> set st)) \<and>
     (\<forall>a b d e. D a = Some d \<longrightarrow> D b = Some e \<longrightarrow> dl_id d = dl_id e \<longrightarrow> a = b) \<and>
     (\<forall>i < n. i \<in> set de \<or> (\<exists>a d. D a = Some d \<and> dl_id d = i)) \<and>
     distinct de \<and> distinct (fi @ st) \<and> set de \<subseteq> set fi \<union> set st \<and> set fi \<union> set st \<subseteq> {..<n}"

lemma ids_okI:
  assumes "\<And>a d. D a = Some d \<Longrightarrow> dl_id d < n" and "\<And>a d. D a = Some d \<Longrightarrow> dl_id d \<notin> set de"
    and "\<And>a d. D a = Some d \<Longrightarrow> dl_client d = None \<longleftrightarrow> dl_id d \<in> set fi \<union> set st"
    and "\<And>a b d e. D a = Some d \<Longrightarrow> D b = Some e \<Longrightarrow> dl_id d = dl_id e \<Longrightarrow> a = b"
    and "\<And>i. i < n \<Longrightarrow> i \<notin> set de \<Longrightarrow> \<exists>a d. D a = Some d \<and> dl_id d = i"
    and "distinct de" and "distinct (fi @ st)" and "set de \<subseteq> set fi \<union> set st" and "set fi \<union> set st \<subseteq> {..<n}"
  shows "ids_ok D n fi st de"
  using assms unfolding ids_ok_def by blast

lemma ids_okD:
  assumes "ids_ok D n fi st de"
  shows "\<And>a d. D a = Some d \<Longrightarrow> dl_id d < n" and "\<And>a d. D a = Some d \<Longrightarrow> dl_id d \<notin> set de"
    and "\<And>a d. D a = Some d \<Longrightarrow> dl_client d = None \<longleftrightarrow> dl_id d \<in> set fi \<union> set st"
    and "\<And>a b d e. D a = Some d \<Longrightarrow> D b = Some e \<Longrightarrow> dl_id d = dl_id e \<Longrightarrow> a = b"
    and "\<And>i. i < n \<Longrightarrow> i \<notin> set de \<Longrightarrow> \<exists>a d. D a = Some d \<and> dl_id d = i"
    and "distinct de" and "distinct (fi @ st)" and "set de \<subseteq> set fi \<union> set st" and "set fi \<union> set st \<subseteq> {..<n}"
  using assms unfolding ids_ok_def by blast+

lemma ids_new:
  assumes ok: "ids_ok D n fi st de" and fresh: "D a = None" and d: "dl_id d = n" "dl_client d \<noteq> None"
  shows "ids_ok (D(a \<mapsto> d)) (Suc n) fi st de"
proof (rule ids_okI)
  note o = ids_okD [OF ok]
  have nn: "n \<notin> set fi \<union> set st" "n \<notin> set de" using o(8,9) by auto
  show "dl_id e < Suc n" if "(D(a \<mapsto> d)) b = Some e" for b e
    using that o(1) [of b e] d(1) by (auto split: if_splits)
  show "dl_id e \<notin> set de" if "(D(a \<mapsto> d)) b = Some e" for b e
    using that o(2) [of b e] d(1) nn by (auto split: if_splits)
  show "dl_client e = None \<longleftrightarrow> dl_id e \<in> set fi \<union> set st" if "(D(a \<mapsto> d)) b = Some e" for b e
    using that o(3) [of b e] d nn by (auto split: if_splits)
  show "x = y" if "(D(a \<mapsto> d)) x = Some e" "(D(a \<mapsto> d)) y = Some f" "dl_id e = dl_id f" for x y e f
    using that o(1) [of x e] o(1) [of y f] o(4) [of x e y f] d(1) by (auto split: if_splits)
  show "\<exists>b e. (D(a \<mapsto> d)) b = Some e \<and> dl_id e = i" if "i < Suc n" "i \<notin> set de" for i
  proof (cases "i = n")
    case True
    then show ?thesis using d(1) by (intro exI [of _ a]) simp
  next
    case False
    with that o(5) [of i] obtain b e where "D b = Some e" "dl_id e = i" by auto
    then show ?thesis using fresh by (intro exI [of _ b]) auto
  qed
  show "distinct de" "distinct (fi @ st)" "set de \<subseteq> set fi \<union> set st" by (fact o(6) o(7) o(8))+
  show "set fi \<union> set st \<subseteq> {..<Suc n}" using o(9) by auto
qed

lemma ids_gone:
  assumes ok: "ids_ok D n fi st de" and a: "D a = Some d" "dl_client d = None"
  shows "ids_ok (D(a := None)) n fi st (de @ [dl_id d])"
proof (rule ids_okI)
  note o = ids_okD [OF ok]
  show "dl_id e < n" if "(D(a := None)) b = Some e" for b e
    using that o(1) [of b e] by (auto split: if_splits)
  show "dl_id e \<notin> set (de @ [dl_id d])" if "(D(a := None)) b = Some e" for b e
    using that o(2) [of b e] o(4) [OF _ a(1), of b e] by (auto split: if_splits)
  show "dl_client e = None \<longleftrightarrow> dl_id e \<in> set fi \<union> set st" if "(D(a := None)) b = Some e" for b e
    using that o(3) [of b e] by (auto split: if_splits)
  show "x = y" if "(D(a := None)) x = Some e" "(D(a := None)) y = Some f" "dl_id e = dl_id f" for x y e f
    using that o(4) [of x e y f] by (auto split: if_splits)
  show "\<exists>b e. (D(a := None)) b = Some e \<and> dl_id e = i" if "i < n" "i \<notin> set (de @ [dl_id d])" for i
  proof -
    from that o(5) [of i] obtain b e where "D b = Some e" "dl_id e = i" "i \<noteq> dl_id d" by auto
    then show ?thesis using a(1) by (intro exI [of _ b]) auto
  qed
  show "distinct (de @ [dl_id d])" using o(6) o(2) [OF a(1)] by simp
  show "set (de @ [dl_id d]) \<subseteq> set fi \<union> set st" using o(8) o(3) [OF a(1)] a(2) by auto
  show "distinct (fi @ st)" "set fi \<union> set st \<subseteq> {..<n}" by (fact o(7) o(9))+
qed

lemma ids_released:
  assumes ok: "ids_ok D n fi st de" and a: "D a = Some d" "dl_client d \<noteq> None"
    and fs: "fi' = fi \<and> st' = st @ [dl_id d] \<or> fi' = fi @ [dl_id d] \<and> st' = st"
  shows "ids_ok (D(a \<mapsto> d\<lparr>dl_client := None, dl_container := None\<rparr>)) n fi' st' de"
proof (rule ids_okI)
  note o = ids_okD [OF ok]
  let ?d = "d\<lparr>dl_client := None, dl_container := None\<rparr>"
  have s: "set fi' \<union> set st' = insert (dl_id d) (set fi \<union> set st)" using fs by auto
  have new: "dl_id d \<notin> set fi \<union> set st" using o(3) [OF a(1)] a(2) by simp
  show "dl_id e < n" if "(D(a \<mapsto> ?d)) b = Some e" for b e
    using that o(1) [of b e] o(1) [OF a(1)] by (auto split: if_splits)
  show "dl_id e \<notin> set de" if "(D(a \<mapsto> ?d)) b = Some e" for b e
    using that o(2) [of b e] o(2) [OF a(1)] by (auto split: if_splits)
  show "dl_client e = None \<longleftrightarrow> dl_id e \<in> set fi' \<union> set st'" if "(D(a \<mapsto> ?d)) b = Some e" for b e
    unfolding s using that o(3) [of b e] o(4) [OF _ a(1), of b e] by (auto split: if_splits)
  show "x = y" if "(D(a \<mapsto> ?d)) x = Some e" "(D(a \<mapsto> ?d)) y = Some f" "dl_id e = dl_id f" for x y e f
    using that o(4) [of x e y f] o(4) [OF _ a(1), of x e] o(4) [OF _ a(1), of y f] by (auto split: if_splits)
  show "\<exists>b e. (D(a \<mapsto> ?d)) b = Some e \<and> dl_id e = i" if "i < n" "i \<notin> set de" for i
  proof -
    from that o(5) [of i] obtain b e where b: "D b = Some e" "dl_id e = i" by auto
    show ?thesis
    proof (cases "b = a")
      case True
      with b a(1) show ?thesis by (intro exI [of _ a]) auto
    next
      case False
      with b show ?thesis by (intro exI [of _ b]) auto
    qed
  qed
  show "distinct de" by (fact o(6))
  show "distinct (fi' @ st')" using o(7) fs new by auto
  show "set de \<subseteq> set fi' \<union> set st'" unfolding s using o(8) by auto
  show "set fi' \<union> set st' \<subseteq> {..<n}" unfolding s using o(9) o(1) [OF a(1)] by auto
qed

section \<open>Every step keeps the whole invariant\<close>

text \<open>A container is armed for its soonest timer, or an expiration of it is under way.\<close>

definition watched :: "tstate \<Rightarrow> bool \<Rightarrow> bool" where
  "watched s w \<longleftrightarrow> armed_for s w \<or> MsgTimerExpire w \<in> set (ts_queue s) \<or>
     (\<exists>lp. ts_loop s = Some lp \<and> loop_container lp = w) \<or> w \<in> fst ` set (ts_poll s)"

definition ids_inv :: "tstate \<Rightarrow> bool" where
  "ids_inv s \<longleftrightarrow> ids_ok (ts_delegates s) (ts_next s) (map fst (ts_fired s)) (ts_stopped s) (ts_deleted s)"

definition tinv :: "tstate \<Rightarrow> bool" where
  "tinv s \<longleftrightarrow> mem_inv s \<and> ids_inv s \<and> (\<forall>w. watched s w)"

lemma tinvD: "tinv s \<Longrightarrow> mem_inv s" "tinv s \<Longrightarrow> ids_inv s" "tinv s \<Longrightarrow> watched s w"
  by (auto simp: tinv_def)

lemma armed_for_cong:
  assumes "ts_heap s' w = ts_heap s w" and "ts_armed s' w = ts_armed s w" and "ts_polled s' w = ts_polled s w"
    and "\<And>c. LocHeap_peek (ts_heap s w) = Some c \<Longrightarrow>
      map_option dl_future (ts_delegates s' c) = map_option dl_future (ts_delegates s c)"
  shows "armed_for s' w \<longleftrightarrow> armed_for s w"
proof (cases "LocHeap_peek (ts_heap s w)")
  case None
  with assms(1) show ?thesis by (simp add: armed_for_def)
next
  case (Some c)
  with assms show ?thesis
    by (cases "ts_delegates s c"; cases "ts_delegates s' c") (auto simp: armed_for_def)
qed

text \<open>Steps of the clients do not touch the containers.\<close>

lemma watched_client:
  assumes "watched s w" and "ts_heap s' = ts_heap s" and "ts_armed s' = ts_armed s" and "ts_polled s' = ts_polled s"
    and "ts_loop s' = ts_loop s" and "ts_poll s' = ts_poll s" and "set (ts_queue s) \<subseteq> set (ts_queue s')"
    and "\<And>a. ts_delegates s a \<noteq> None \<Longrightarrow>
      map_option dl_future (ts_delegates s' a) = map_option dl_future (ts_delegates s a)"
    and "theap (ts_delegates s) (ts_heap s w)"
  shows "watched s' w"
proof -
  have "armed_for s' w \<longleftrightarrow> armed_for s w"
    using assms(2-4,8) peek_good [OF assms(9)] by (intro armed_for_cong) fastforce+
  with assms(1,5,6,7) show ?thesis by (auto simp: watched_def)
qed

lemma after_stop_tinv:
  assumes inv: "tinv s" and o: "owned s a d c w" and m: "mem_inv (after_stop c a d w s)"
  shows "tinv ((after_stop c a d w s)\<lparr>ts_stopped := ts_stopped s @ [dl_id d]\<rparr>)"
proof -
  have d: "ts_delegates s a = Some d" "dl_client d \<noteq> None" using o by (auto simp: owned_def)
  have "ids_inv ((after_stop c a d w s)\<lparr>ts_stopped := ts_stopped s @ [dl_id d]\<rparr>)"
    using tinvD(2) [OF inv] ids_released [where D = "ts_delegates s" and a = a and d = d] d
    by (simp add: ids_inv_def after_stop_def)
  moreover have "watched ((after_stop c a d w s)\<lparr>ts_stopped := ts_stopped s @ [dl_id d]\<rparr>) v" for v
    using tinvD(3) [OF inv, of v] d(1) mem_inv_heap [OF tinvD(1) [OF inv]]
    by (rule_tac watched_client [of s]) (auto simp: after_stop_def)
  ultimately show ?thesis using m by (simp add: tinv_def)
qed

lemma Stop_tinv:
  assumes inv: "tinv s" and c: "ts_timers s c = Some mTimer"
  shows "\<exists>r s1. LocTimer_stop c s = Some (r, s1) \<and> tinv (record_stop c s s1) \<and>
    ts_timers s1 c = Some None \<and> r = (mTimer \<noteq> None)"
proof (cases mTimer)
  case None
  with c inv show ?thesis by (auto simp: LocTimer_stop_def record_stop_def timer_delegate_def)
next
  case (Some a)
  with LocTimer_stop_cases [OF tinvD(1) [OF inv] c] obtain d w where
    o: "owned s a d c w" and st: "LocTimer_stop c s = Some (True, after_stop c a d w s)"
      "mem_inv (after_stop c a d w s)" by auto
  have "record_stop c s (after_stop c a d w s) = (after_stop c a d w s)\<lparr>ts_stopped := ts_stopped s @ [dl_id d]\<rparr>"
    using o Some c by (simp add: record_stop_def timer_delegate_def owned_def after_stop_def)
  with after_stop_tinv [OF inv o st(2)] st(1) Some show ?thesis
    by (intro exI [of _ True] exI [of _ "after_stop c a d w s"]) (simp add: after_stop_def)
qed

lemma Destroy_tinv:
  assumes inv: "tinv s" and c: "ts_timers s c = Some mTimer"
  shows "\<exists>s'. LocTimer_destructor c s = Some s' \<and> tinv (record_stop c s s')"
proof -
  obtain r s1 where s1: "LocTimer_stop c s = Some (r, s1)" "tinv (record_stop c s s1)" "ts_timers s1 c = Some None"
    using Stop_tinv [OF inv c] by blast
  let ?s = "s1\<lparr>ts_timers := (ts_timers s1)(c := None)\<rparr>"
  have d: "LocTimer_destructor c s = Some ?s" using s1(1) by (simp add: LocTimer_destructor_def)
  have "mem_inv ?s" using LocTimer_destructor_ok [OF tinvD(1) [OF inv] c] d by auto
  moreover have "mem_inv (record_stop c s x) = mem_inv x" for x by (simp add: record_stop_def split: option.split)
  moreover have "ids_inv (record_stop c s ?s)" "watched (record_stop c s ?s) w" for w
    using s1(2) tinvD(2,3) [OF s1(2)]
    by (auto simp: ids_inv_def watched_def armed_for_def record_stop_def split: option.splits)
  ultimately show ?thesis using d by (auto simp: tinv_def)
qed

lemma Start_tinv:
  assumes inv: "tinv s" and c: "ts_timers s c = Some mTimer" and fresh: "ts_delegates s a = None" and now: "clock_ok now"
  shows "\<exists>r s'. LocTimer_start c ms w now cont a s = Some (r, s') \<and> tinv s'"
proof -
  obtain r s' where s': "LocTimer_start c ms w now cont a s = Some (r, s')" "mem_inv s'" "r = (mTimer = None \<and> cont)"
    using LocTimer_start_ok [OF tinvD(1) [OF inv] c fresh now] by blast
  show ?thesis
  proof (cases "mTimer = None \<and> cont")
    case False
    with s' c inv show ?thesis by (auto simp: LocTimer_start_def Let_def split: if_splits)
  next
    case True
    have eq: "s' = s\<lparr>ts_delegates := (ts_delegates s)(a \<mapsto> \<lparr>dl_client = Some c, dl_future = future_time now ms,
          dl_container = Some w, dl_id = ts_next s\<rparr>), ts_queue := ts_queue s @ [MsgTimerPush w a],
        ts_timers := (ts_timers s)(c \<mapsto> Some a), ts_next := ts_next s + 1\<rparr>"
      using True s'(1) c
      by (auto simp: LocTimer_start_def Let_def LocTimerContainer_add_def send_msg_def intro!: tstate.equality)
    have "ids_inv s'" using ids_new [where D = "ts_delegates s" and a = a] fresh tinvD(2) [OF inv]
      by (simp add: ids_inv_def eq)
    moreover have "watched s' v" for v
      using tinvD(3) [OF inv, of v] fresh mem_inv_heap [OF tinvD(1) [OF inv]]
      by (rule_tac watched_client [of s]) (auto simp: eq)
    ultimately show ?thesis using s' by (auto simp: tinv_def)
  qed
qed

lemma poll_wait_tinv:
  assumes inv: "tinv s"
  shows "tinv (poll_wait w now s)"
proof (cases "ts_poll s = []")
  case True
  have "watched (poll_wait w now s) v" for v
    using tinvD(3) [OF inv, of v] True by (auto simp: poll_wait_def watched_def armed_for_def)
  with tinvD [OF inv] True show ?thesis by (auto simp: tinv_def ids_inv_def poll_wait_def)
qed (use inv in \<open>simp add: poll_wait_def\<close>)

lemma mem_inv_expire_msg: "mem_inv (s\<lparr>ts_queue := ts_queue s @ [MsgTimerExpire w]\<rparr>) = mem_inv s"
proof -
  have "delegate_inv (s\<lparr>ts_queue := ts_queue s @ [MsgTimerExpire w]\<rparr>) a = delegate_inv s a" for a
    by (rule delegate_inv_cong) auto
  then show ?thesis by (simp add: mem_inv_def refs_inv_def)
qed

lemma container_expire_tinv:
  assumes inv: "tinv s"
  shows "tinv (container_expire s)"
proof (cases "ts_poll s")
  case (Cons p r)
  obtain w g where p: "p = (w, g)" by (cases p)
  have "watched (container_expire s) v" for v
  proof (cases "v = w")
    case True
    then show ?thesis using Cons p
      by (cases g) (auto simp: watched_def container_expire_def send_msg_def removePoll_def timerfd_settime_def)
  next
    case False
    have "armed_for (container_expire s) v \<longleftrightarrow> armed_for s v"
      using Cons p False
      by (intro armed_for_cong)
        (auto simp: container_expire_def send_msg_def removePoll_def timerfd_settime_def split: poll_stage.split)
    with tinvD(3) [OF inv, of v] Cons p False show ?thesis
      by (cases g) (auto simp: watched_def container_expire_def send_msg_def removePoll_def timerfd_settime_def)
  qed
  with tinvD [OF inv] Cons p show ?thesis
    by (cases g)
      (auto simp: tinv_def ids_inv_def container_expire_def send_msg_def removePoll_def timerfd_settime_def mem_inv_expire_msg)
qed (use inv in \<open>simp add: container_expire_def\<close>)

lemma MsgTimerPush_tinv:
  assumes inv: "tinv s" and q: "ts_queue s = MsgTimerPush w a # q"
  shows "\<exists>s'. MsgTimerPush_proc w a (s\<lparr>ts_queue := q\<rparr>) = Some s' \<and> tinv s'"
proof -
  obtain ar po s' where s': "s' = set_timer w ar po (s\<lparr>ts_queue := q,
      ts_heap := (ts_heap s)(w := LocHeap_push (ranks_of (ts_delegates s)) a (ts_heap s w))\<rparr>)"
      "MsgTimerPush_proc w a (s\<lparr>ts_queue := q\<rparr>) = Some s'" "mem_inv s'" "armed_for s w \<longrightarrow> armed_for s' w"
    using MsgTimerPush_ok [OF tinvD(1) [OF inv] q] by (auto simp: Let_def)
  have "watched s' v" for v
  proof (cases "v = w")
    case True
    with tinvD(3) [OF inv, of w] s'(4) q show ?thesis by (auto simp: watched_def s'(1))
  next
    case False
    then have "armed_for s' v \<longleftrightarrow> armed_for s v" by (intro armed_for_cong) (auto simp: s'(1))
    with tinvD(3) [OF inv, of v] q show ?thesis by (auto simp: watched_def s'(1))
  qed
  moreover have "ids_inv s'" using tinvD(2) [OF inv] by (simp add: ids_inv_def s'(1))
  ultimately show ?thesis using s'(2,3) by (auto simp: tinv_def)
qed

lemma MsgTimerRemove_tinv:
  assumes inv: "tinv s" and q: "ts_queue s = MsgTimerRemove w a # q" and idle: "ts_loop s = None"
  shows "\<exists>s'. MsgTimerRemove_proc w a (s\<lparr>ts_queue := q\<rparr>) = Some s' \<and> tinv s'"
proof -
  obtain ar po t' s' where
    s': "s' = without a (set_timer w ar po (s\<lparr>ts_queue := q, ts_heap := (ts_heap s)(w := t')\<rparr>))"
      "MsgTimerRemove_proc w a (s\<lparr>ts_queue := q\<rparr>) = Some s'" "mem_inv s'" "armed_for s w \<longrightarrow> armed_for s' w"
    using MsgTimerRemove_ok [OF tinvD(1) [OF inv] q idle] by (auto simp: Let_def)
  obtain d where d: "ts_delegates s a = Some d" "dl_client d = None" using remove_head [OF tinvD(1) [OF inv] q] by blast
  have eq: "ts_delegates s' = (ts_delegates s)(a := None)" "ts_deleted s' = ts_deleted s @ [dl_id d]"
      "ts_heap s' = (ts_heap s)(w := t')" "ts_queue s' = q" "ts_loop s' = ts_loop s" "ts_poll s' = ts_poll s"
      "ts_fired s' = ts_fired s" "ts_stopped s' = ts_stopped s" "ts_next s' = ts_next s"
      "ts_armed s' = (ts_armed s)(w := ar)" "ts_polled s' = (ts_polled s)(w := po)"
    using d(1) by (simp_all add: s'(1) without_def)
  have "watched s' v" for v
  proof (cases "v = w")
    case True
    with tinvD(3) [OF inv, of w] s'(4) q show ?thesis by (auto simp: watched_def eq)
  next
    case False
    have "ts_delegates s' c = ts_delegates s c" if "LocHeap_peek (ts_heap s v) = Some c" for c
      using peek_good [OF mem_inv_heap [OF s'(3)], of v c] that False by (auto simp: eq split: if_splits)
    then have "armed_for s' v \<longleftrightarrow> armed_for s v" using False by (intro armed_for_cong) (simp_all add: eq(3,10,11))
    with tinvD(3) [OF inv, of v] q show ?thesis by (auto simp: watched_def eq)
  qed
  moreover have "ids_inv s'"
    using ids_gone [where D = "ts_delegates s" and a = a and d = d] d tinvD(2) [OF inv] by (simp add: ids_inv_def eq)
  ultimately show ?thesis using s'(2,3) by (auto simp: tinv_def)
qed

text \<open>The steps of the expiration loop.\<close>

lemma watched_loop: "loop_container lp = w \<Longrightarrow> watched (s\<lparr>ts_loop := Some lp\<rparr>) w"
  by (auto simp: watched_def)

lemma tinv_loop:
  assumes inv: "tinv s" and lp: "ts_loop s = Some lp" and same: "loop_container lp' = loop_container lp"
    and m: "mem_inv (s\<lparr>ts_loop := Some lp'\<rparr>)"
  shows "tinv (s\<lparr>ts_loop := Some lp'\<rparr>)"
proof -
  have "watched (s\<lparr>ts_loop := Some lp'\<rparr>) v" for v
    using tinvD(3) [OF inv, of v] lp same by (auto simp: watched_def armed_for_def)
  with tinvD(2) [OF inv] m show ?thesis by (simp add: tinv_def ids_inv_def)
qed

lemma pop_round_tinv:
  assumes inv: "tinv s" and lp: "ts_loop s = Some lp" "lp = FirstPop w now \<or> lp = NextPop w now"
  shows "\<exists>s'. expire_round lp s = Some s' \<and> tinv s'"
  using pop_round_ok [OF tinvD(1) [OF inv] lp]
proof (elim disjE exE conjE, goal_cases)
  case (1 ar po)
  define s' where "s' = set_timer w ar po (s\<lparr>ts_loop := None\<rparr>)"
  have r: "expire_round lp s = Some s'" "mem_inv s'" "armed_for s' w" using 1 by (auto simp: Let_def s'_def)
  have w: "loop_container lp = w" using lp(2) by auto
  have "watched s' v" for v
  proof (cases "v = w")
    case False
    then have "armed_for s' v \<longleftrightarrow> armed_for s v" by (intro armed_for_cong) (auto simp: s'_def)
    with tinvD(3) [OF inv, of v] lp(1) w False show ?thesis by (auto simp: watched_def s'_def)
  qed (use r(3) in \<open>simp add: watched_def\<close>)
  moreover have "ids_inv s'" using tinvD(2) [OF inv] by (simp add: ids_inv_def s'_def)
  ultimately show ?case using r(1,2) by (auto simp: tinv_def)
next
  case (2 a t d)
  have w: "loop_container lp = w" using lp(2) by auto
  have "watched (popped w now a t s) v" for v
  proof (cases "v = w")
    case False
    then have "armed_for (popped w now a t s) v \<longleftrightarrow> armed_for s v" by (intro armed_for_cong) (auto simp: popped_def)
    with tinvD(3) [OF inv, of v] lp(1) w False show ?thesis by (auto simp: watched_def popped_def)
  qed (simp add: watched_def popped_def)
  moreover have "ids_inv (popped w now a t s)" using tinvD(2) [OF inv] by (simp add: ids_inv_def popped_def)
  ultimately show ?case using 2 by (auto simp: tinv_def)
qed

lemma expire_read_tinv:
  assumes inv: "tinv s" and lp: "ts_loop s = Some (ReadClient w now a)"
  shows "\<exists>s'. expire_read w now a s = Some s' \<and> tinv s'"
proof -
  have m: "mem_inv s" by (rule tinvD(1) [OF inv])
  then obtain d where d: "ts_delegates s a = Some d" using lp by (auto simp: mem_inv_def)
  define lp' where "lp' = (case dl_client d of None \<Rightarrow> NextPop w now | Some c \<Rightarrow> StopClient w now c)"
  have "in_hand (Some lp') b c" if "in_hand (ts_loop s) b c" "ts_timers s c = Some (Some b)" for b c
    using that lp d refs_invD [of s c b] m by (auto simp: lp'_def mem_inv_def)
  then have "mem_inv (s\<lparr>ts_loop := Some lp'\<rparr>)"
    by (intro mem_inv_loop [OF m]) (auto simp: lp'_def split: option.split)
  from tinv_loop [OF inv lp _ this] d show ?thesis
    by (auto simp: expire_read_def lp'_def split: option.split)
qed

text \<open>A client that exists can be stopped, whichever delegate it runs now.\<close>

lemma expire_stop_tinv:
  assumes inv: "tinv s" and lp: "ts_loop s = Some (StopClient w now c)" and c: "ts_timers s c = Some mTimer"
  shows "\<exists>s'. expire_stop w now c s = Some s' \<and> tinv s'"
proof (cases mTimer)
  case None
  have "mem_inv (s\<lparr>ts_loop := Some (NextPop w now)\<rparr>)"
    using lp c None by (intro mem_inv_loop [OF tinvD(1) [OF inv]]) auto
  from tinv_loop [OF inv lp _ this] c None show ?thesis by (simp add: expire_stop_def LocTimer_stop_def)
next
  case (Some a)
  with LocTimer_stop_cases [OF tinvD(1) [OF inv] c] obtain d v where
    o: "owned s a d c v" and st: "LocTimer_stop c s = Some (True, after_stop c a d v s)"
      "mem_inv (after_stop c a d v s)" by auto
  have d: "ts_delegates s a = Some d" "dl_client d \<noteq> None" using o by (auto simp: owned_def)
  define s1 where "s1 = (after_stop c a d v s)\<lparr>ts_loop := Some (CallBack w now c)\<rparr>"
  have e: "expire_stop w now c s = Some (s1\<lparr>ts_fired := ts_fired s @ [(dl_id d, now)]\<rparr>)"
    using st(1) c Some d(1) by (simp add: expire_stop_def timer_delegate_def s1_def) (simp add: after_stop_def)
  have "mem_inv s1" unfolding s1_def
    using lp by (intro mem_inv_loop [OF st(2)]) (auto simp: after_stop_def)
  moreover have "watched (s1\<lparr>ts_fired := ts_fired s @ [(dl_id d, now)]\<rparr>) u" for u
  proof -
    have "armed_for s1 u \<longleftrightarrow> armed_for s u"
      using d by (intro armed_for_cong) (auto simp: s1_def after_stop_def)
    with tinvD(3) [OF inv, of u] lp show ?thesis by (auto simp: watched_def s1_def after_stop_def armed_for_def)
  qed
  moreover have "ids_inv (s1\<lparr>ts_fired := ts_fired s @ [(dl_id d, now)]\<rparr>)"
    using ids_released [where D = "ts_delegates s" and a = a and d = d] d tinvD(2) [OF inv]
    by (simp add: ids_inv_def s1_def after_stop_def)
  ultimately show ?thesis using e by (auto simp: tinv_def)
qed

lemma expire_call_tinv:
  assumes inv: "tinv s" and lp: "ts_loop s = Some (CallBack w now c)" and c: "ts_timers s c = Some mTimer"
  shows "\<exists>s'. expire_call w now c s = Some s' \<and> tinv s'"
proof -
  have "mem_inv (s\<lparr>ts_loop := Some (NextPop w now)\<rparr>)"
    using lp by (intro mem_inv_no_hand [OF tinvD(1) [OF inv]]) auto
  from tinv_loop [OF inv lp _ this] c show ?thesis by (simp add: expire_call_def)
qed

text \<open>The LocTimer the expiration loop is about to use.\<close>

fun client_in_use :: "expire_loop option \<Rightarrow> nat option" where
  "client_in_use (Some (StopClient w now c)) = Some c"
| "client_in_use (Some (CallBack w now c)) = Some c"
| "client_in_use _ = None"

lemma expire_round_gone:
  assumes "client_in_use (Some lp) = Some c" and "ts_timers s c = None"
  shows "expire_round lp s = None"
  using assms by (cases lp) (simp_all add: expire_round_def expire_stop_def expire_call_def LocTimer_stop_def)

lemma expire_round_tinv:
  assumes inv: "tinv s" and lp: "ts_loop s = Some lp"
    and live: "\<And>c. client_in_use (Some lp) = Some c \<Longrightarrow> ts_timers s c \<noteq> None"
  shows "\<exists>s'. expire_round lp s = Some s' \<and> tinv s'"
proof (cases lp)
  case (FirstPop w now)
  with pop_round_tinv [OF inv lp] show ?thesis by blast
next
  case (NextPop w now)
  with pop_round_tinv [OF inv lp] show ?thesis by blast
next
  case (ReadClient w now a)
  with expire_read_tinv [OF inv] lp show ?thesis by (simp add: expire_round_def)
next
  case (StopClient w now c)
  with live obtain mTimer where "ts_timers s c = Some mTimer" by fastforce
  with expire_stop_tinv [OF inv] lp StopClient show ?thesis by (simp add: expire_round_def)
next
  case (CallBack w now c)
  with live obtain mTimer where "ts_timers s c = Some mTimer" by fastforce
  with expire_call_tinv [OF inv] lp CallBack show ?thesis by (simp add: expire_round_def)
qed

lemma msg_thread_tinv:
  assumes inv: "tinv s" and live: "\<And>c. client_in_use (ts_loop s) = Some c \<Longrightarrow> ts_timers s c \<noteq> None"
  shows "\<exists>s'. msg_thread_step now s = Some s' \<and> tinv s'"
proof (cases "ts_loop s")
  case (Some lp)
  with expire_round_tinv [OF inv Some] live show ?thesis by (simp add: msg_thread_step_def)
next
  case None
  show ?thesis
  proof (cases "ts_queue s")
    case Nil
    with None inv show ?thesis by (simp add: msg_thread_step_def)
  next
    case (Cons m q)
    show ?thesis
    proof (cases m)
      case (MsgTimerPush w a)
      with None Cons MsgTimerPush_tinv [OF inv, of w a q] show ?thesis by (simp add: msg_thread_step_def)
    next
      case (MsgTimerRemove w a)
      with None Cons MsgTimerRemove_tinv [OF inv _ None, of w a q] show ?thesis by (simp add: msg_thread_step_def)
    next
      case (MsgTimerExpire w)
      let ?s = "s\<lparr>ts_queue := q, ts_loop := Some (FirstPop w now)\<rparr>"
      have "delegate_inv ?s a \<longleftrightarrow> delegate_inv s a" for a
        using Cons MsgTimerExpire None by (intro delegate_inv_cong) auto
      then have "mem_inv ?s" using tinvD(1) [OF inv] by (simp add: mem_inv_def refs_inv_def)
      moreover have "watched ?s v" for v
      proof -
        have "armed_for ?s v \<longleftrightarrow> armed_for s v" by (intro armed_for_cong) auto
        with tinvD(3) [OF inv, of v] Cons MsgTimerExpire None show ?thesis by (auto simp: watched_def)
      qed
      ultimately have "tinv ?s" using tinvD(2) [OF inv] by (simp add: tinv_def ids_inv_def)
      with None Cons MsgTimerExpire show ?thesis by (simp add: msg_thread_step_def)
    qed
  qed
qed

text \<open>
  Every action that can happen is defined and keeps the invariant, unless the message thread is
  about to use a LocTimer that was deleted.
\<close>

definition uses_deleted_timer :: "timer_act \<Rightarrow> tstate \<Rightarrow> bool" where
  "uses_deleted_timer x s \<longleftrightarrow>
     (case x of MsgThread now \<Rightarrow> (case client_in_use (ts_loop s) of Some c \<Rightarrow> ts_timers s c = None | None \<Rightarrow> False)
      | _ \<Rightarrow> False)"

lemma uses_deleted_undefined: "uses_deleted_timer x s \<Longrightarrow> timer_step x s = None"
proof -
  assume u: "uses_deleted_timer x s"
  then obtain now c where x: "x = MsgThread now" "client_in_use (ts_loop s) = Some c" "ts_timers s c = None"
    by (auto simp: uses_deleted_timer_def split: timer_act.splits option.splits)
  then obtain lp where "ts_loop s = Some lp" by (cases "ts_loop s") auto
  with x expire_round_gone [of lp c s] show ?thesis by (simp add: msg_thread_step_def)
qed

lemma timer_step_tinv:
  assumes inv: "tinv s" and ok: "act_ok x s" and live: "\<not> uses_deleted_timer x s"
  shows "\<exists>s'. timer_step x s = Some s' \<and> tinv s'"
proof (cases x)
  case (NewTimer c)
  let ?s = "s\<lparr>ts_timers := (ts_timers s)(c \<mapsto> None)\<rparr>"
  have "delegate_inv ?s a \<longleftrightarrow> delegate_inv s a" for a
    using ok NewTimer by (intro delegate_inv_cong) auto
  then have "mem_inv ?s" using tinvD(1) [OF inv] by (auto simp: mem_inv_def refs_inv_def)
  moreover have "watched ?s v \<longleftrightarrow> watched s v" for v by (auto simp: watched_def armed_for_def)
  ultimately have "tinv ?s" using tinvD [OF inv] by (simp add: tinv_def ids_inv_def)
  with NewTimer show ?thesis by simp
next
  case (Start c ms w now cont a)
  with ok obtain mTimer where "ts_timers s c = Some mTimer" "ts_delegates s a = None" "clock_ok now" by auto
  from Start_tinv [OF inv this, of ms w cont] Start show ?thesis by auto
next
  case (Stop c)
  with ok obtain mTimer where "ts_timers s c = Some mTimer" by auto
  from Stop_tinv [OF inv this] Stop show ?thesis by auto
next
  case (Destroy c)
  with ok obtain mTimer where "ts_timers s c = Some mTimer" by auto
  from Destroy_tinv [OF inv this] Destroy show ?thesis by auto
next
  case (PollExpired w now)
  with poll_wait_tinv [OF inv] show ?thesis by simp
next
  case PollContinue
  with container_expire_tinv [OF inv] show ?thesis by simp
next
  case (MsgThread now)
  with live have "client_in_use (ts_loop s) = Some c \<Longrightarrow> ts_timers s c \<noteq> None" for c
    by (auto simp: uses_deleted_timer_def)
  from msg_thread_tinv [OF inv this] MsgThread show ?thesis by simp
qed

lemma tinv_init: "tinv timer_init"
  by (auto simp: tinv_def mem_inv_def refs_inv_def delegate_inv_def unused_def timer_init_def ids_inv_def ids_ok_def
      watched_def armed_for_def LocHeap_peek_def)

lemma treach_tinv: "treach s \<Longrightarrow> tinv s"
proof (induction rule: treach.induct)
  case (step s x s')
  with timer_step_tinv [of s x] uses_deleted_undefined [of x s] show ?case by (cases "uses_deleted_timer x s") auto
qed (rule tinv_init)

section \<open>Properties\<close>

text \<open>A run of actions, None when one of them is not possible or not defined.\<close>

fun run_acts :: "timer_act list \<Rightarrow> tstate \<Rightarrow> tstate option" where
  "run_acts [] s = Some s"
| "run_acts (x # xs) s = (if act_ok x s then Option.bind (timer_step x s) (run_acts xs) else None)"

lemma run_acts_reach: "run_acts xs s = Some s' \<Longrightarrow> treach s \<Longrightarrow> treach s'"
proof (induction xs arbitrary: s)
  case (Cons x xs)
  then obtain s1 where "act_ok x s" "timer_step x s = Some s1" "run_acts xs s1 = Some s'"
    by (auto split: if_splits bind_splits)
  with Cons.IH [of s1] treach.step [OF Cons.prems(2)] show ?case by blast
qed simp

definition sec :: "nat \<Rightarrow> timespec" where
  "sec n = \<lparr>tv_sec = of_nat n, tv_nsec = 0\<rparr>"

definition early_run :: "timer_act list" where
  "early_run = [NewTimer 0, NewTimer 1, Start 0 1000 False (sec 1) True 10, Start 1 100000 False (sec 1) True 11,
     MsgThread (sec 1), MsgThread (sec 1), PollExpired False (sec 2), Stop 0, PollContinue, PollContinue, PollContinue,
     MsgThread (sec 2), MsgThread (sec 2), MsgThread (sec 2), MsgThread (sec 2), MsgThread (sec 2), MsgThread (sec 2)]"

lemma early_run_runs: "\<exists>s. treach s \<and> ts_fired s = [(1, sec 2)] \<and> ts_stopped s = [0]"
proof -
  have "map_option (\<lambda>s. (ts_fired s, ts_stopped s)) (run_acts early_run timer_init) = Some ([(1, sec 2)], [0])"
    by code_simp
  then obtain s where "run_acts early_run timer_init = Some s" "ts_fired s = [(1, sec 2)]" "ts_stopped s = [0]"
    by auto
  with run_acts_reach [OF _ treach.init] show ?thesis by blast
qed

lemma ticking_run: "\<exists>s. treach s \<and> ts_queue s = [] \<and> ts_loop s = None \<and> ts_poll s = [] \<and>
    LocHeap_peek (ts_heap s False) = Some 10 \<and> map_option dl_future (ts_delegates s 10) = Some (sec 2) \<and>
    ts_timers s 0 = Some (Some 10) \<and> clock_ok (sec 2)"
proof -
  have "map_option (\<lambda>s. (ts_queue s, ts_loop s, ts_poll s, LocHeap_peek (ts_heap s False),
        map_option dl_future (ts_delegates s 10), ts_timers s 0)) (run_acts (take 6 early_run) timer_init) =
      Some ([], None, [], Some 10, Some (sec 2), Some (Some 10))"
    by code_simp
  then obtain s where "run_acts (take 6 early_run) timer_init = Some s" "ts_queue s = []" "ts_loop s = None" "ts_poll s = []"
    "LocHeap_peek (ts_heap s False) = Some 10" "map_option dl_future (ts_delegates s 10) = Some (sec 2)"
    "ts_timers s 0 = Some (Some 10)" by (auto simp del: map_option_eq_Some)
  moreover have "clock_ok (sec 2)" by code_simp
  ultimately show ?thesis using run_acts_reach [OF _ treach.init] by blast
qed

text \<open>C8. Under every interleaving of the clients' calls (a client may destroy its LocTimer at any time), the
  polling thread and the message thread, no deleted delegate is ever read, ranked in a heap or deleted
  again, and a LocTimer is used after its destruction in one situation only: an action that can happen
  in a reachable state is undefined exactly if it is a step of the message thread inside
  \<open>LocTimerDelegate::expire\<close>, which has read the client of a popped delegate without the lock and is about
  to stop or call back that client, and the client has been destroyed since. That situation does
  arise: see the lemma after this one.\<close>

theorem timer_memory_safe:
  assumes "treach s" and "act_ok x s"
  shows "timer_step x s = None \<longleftrightarrow>
    (\<exists>now w t c. x = MsgThread now \<and> (ts_loop s = Some (StopClient w t c) \<or> ts_loop s = Some (CallBack w t c)) \<and>
       ts_timers s c = None)"
proof -
  have "timer_step x s = None \<longleftrightarrow> uses_deleted_timer x s"
    using timer_step_tinv [OF treach_tinv [OF assms(1)] assms(2)] uses_deleted_undefined by (metis option.distinct(1))
  also have "\<dots> \<longleftrightarrow> (\<exists>now w t c. x = MsgThread now \<and>
      (ts_loop s = Some (StopClient w t c) \<or> ts_loop s = Some (CallBack w t c)) \<and> ts_timers s c = None)"
    by (cases "ts_loop s" rule: client_in_use.cases) (auto simp: uses_deleted_timer_def split: timer_act.splits)
  finally show ?thesis .
qed

text \<open>The client is destroyed after the message thread has read it, so that the next step stops a
  deleted LocTimer; or after the message thread has stopped it, so that its callback is called.\<close>

definition deleted_run :: "timer_act list" where
  "deleted_run = [NewTimer 0, Start 0 1000 False (sec 1) True 10, MsgThread (sec 1), PollExpired False (sec 2),
     PollContinue, PollContinue, PollContinue, MsgThread (sec 2), MsgThread (sec 2), MsgThread (sec 2)]"

lemma deleted_timer_used:
  "\<exists>s. treach s \<and> act_ok (MsgThread (sec 2)) s \<and> ts_loop s = Some (StopClient False (sec 2) 0) \<and>
     timer_step (MsgThread (sec 2)) s = None"
  "\<exists>s. treach s \<and> act_ok (MsgThread (sec 2)) s \<and> ts_loop s = Some (CallBack False (sec 2) 0) \<and>
     timer_step (MsgThread (sec 2)) s = None"
proof -
  have ok: "act_ok (MsgThread (sec 2)) s" for s by (simp add: clock_ok_def sec_def)
  have "map_option (\<lambda>s. (ts_loop s, ts_timers s 0)) (run_acts (deleted_run @ [Destroy 0]) timer_init) =
      Some (Some (StopClient False (sec 2) 0), None)" by code_simp
  then obtain s where "run_acts (deleted_run @ [Destroy 0]) timer_init = Some s"
      "ts_loop s = Some (StopClient False (sec 2) 0)" "ts_timers s 0 = None" by auto
  with run_acts_reach [OF _ treach.init] ok
  show "\<exists>s. treach s \<and> act_ok (MsgThread (sec 2)) s \<and> ts_loop s = Some (StopClient False (sec 2) 0) \<and>
      timer_step (MsgThread (sec 2)) s = None"
    by (intro exI [of _ s]) (simp add: msg_thread_step_def expire_round_def expire_stop_def LocTimer_stop_def)
  have "map_option (\<lambda>s. (ts_loop s, ts_timers s 0)) (run_acts (deleted_run @ [MsgThread (sec 2), Destroy 0]) timer_init) =
      Some (Some (CallBack False (sec 2) 0), None)" by code_simp
  then obtain s where "run_acts (deleted_run @ [MsgThread (sec 2), Destroy 0]) timer_init = Some s"
      "ts_loop s = Some (CallBack False (sec 2) 0)" "ts_timers s 0 = None" by auto
  with run_acts_reach [OF _ treach.init] ok
  show "\<exists>s. treach s \<and> act_ok (MsgThread (sec 2)) s \<and> ts_loop s = Some (CallBack False (sec 2) 0) \<and>
      timer_step (MsgThread (sec 2)) s = None"
    by (intro exI [of _ s]) (simp add: msg_thread_step_def expire_round_def expire_call_def)
qed

text \<open>A client that stops and starts its timer again in between has the new timer stopped and is called back at
  once: here the timer is started at second 2 for 100 seconds and called back at second 2.\<close>

lemma restarted_timer_fired:
  "\<exists>s. run_acts (deleted_run @ [Stop 0, Start 0 100000 False (sec 2) True 11, MsgThread (sec 2)]) timer_init = Some s \<and>
     treach s \<and> map_option (\<lambda>d. (dl_id d, dl_future d)) (ts_delegates s 11) = Some (1, sec 102) \<and>
     ts_stopped s = [0] \<and> ts_fired s = [(1, sec 2)] \<and> ts_loop s = Some (CallBack False (sec 2) 0)"
proof -
  have "map_option (\<lambda>s. (map_option (\<lambda>d. (dl_id d, dl_future d)) (ts_delegates s 11), ts_stopped s, ts_fired s, ts_loop s))
      (run_acts (deleted_run @ [Stop 0, Start 0 100000 False (sec 2) True 11, MsgThread (sec 2)]) timer_init) =
      Some (Some (1, sec 102), [0], [(1, sec 2)], Some (CallBack False (sec 2) 0))" by code_simp
  then show ?thesis using run_acts_reach [OF _ treach.init] by auto
qed

text \<open>A start leads to at most one stop: by the expiration, which then calls the client back, or by the
  client; the delegate of every start that was stopped, and of no other, is deleted, at most once.\<close>

theorem timer_callback_once:
  assumes "treach s"
  shows "distinct (map fst (ts_fired s) @ ts_stopped s) \<and> distinct (ts_deleted s) \<and>
    set (ts_deleted s) \<subseteq> set (map fst (ts_fired s)) \<union> set (ts_stopped s) \<and>
    set (map fst (ts_fired s)) \<union> set (ts_stopped s) \<subseteq> {..<ts_next s}"
  using ids_okD(6-9) [OF tinvD(2) [OF treach_tinv [OF assms], unfolded ids_inv_def]] by blast

text \<open>No delegate leaks: once the message queue and the expiration loop have been worked off, the delegates in memory are
  exactly those of the timers that are running, and each of them is in the heap of its container.\<close>

theorem timer_no_leak:
  assumes "treach s" and "ts_queue s = []" and "ts_loop s = None" and "ts_delegates s a = Some d"
  shows "\<exists>c w. dl_client d = Some c \<and> ts_timers s c = Some (Some a) \<and> dl_container d = Some w \<and>
    a \<in># contents (ts_heap s w)"
  using mem_inv_delegate [OF tinvD(1) [OF treach_tinv [OF assms(1)]], of a] assms(2,3,4)
  by (auto simp: delegate_inv_def unused_def leaving_def owned_def)

text \<open>C34. No expiration is missed: whenever both threads are idle and a container has ticking timers, its
  timerfd is polled and armed for exactly the time of the timer on top of its heap, and no timer in
  the container is due before that.\<close>

theorem timer_armed_for_soonest:
  assumes "treach s" and "ts_queue s = []" and "ts_loop s = None" and "ts_poll s = []"
    and "LocHeap_peek (ts_heap s w) = Some a" and "ts_delegates s a = Some d"
  shows "ts_polled s w \<and> ts_armed s w = Some (dl_future d) \<and>
    (\<forall>b \<in># contents (ts_heap s w). \<exists>e. ts_delegates s b = Some e \<and> ns (dl_future d) \<le> ns (dl_future e))"
proof -
  have inv: "tinv s" by (rule treach_tinv [OF assms(1)])
  have h: "theap (ts_delegates s) (ts_heap s w)" by (rule mem_inv_heap [OF tinvD(1) [OF inv]])
  have "\<exists>e. ts_delegates s b = Some e \<and> ns (dl_future d) \<le> ns (dl_future e)" if "b \<in># contents (ts_heap s w)" for b
    using theap_good [OF h that] theap_soonest [OF h assms(5)] that assms(6) by (auto simp: good_in_def due_def)
  moreover have "armed_for s w" using tinvD(3) [OF inv, of w] assms(2-4) by (auto simp: watched_def)
  ultimately show ?thesis using assms(5,6) by (auto simp: armed_for_def)
qed

text \<open>The time of a timer is exact and normalised: for a clock in range the delegate's time is the
  clock plus the timeout to the nanosecond, and the ranking, despite its truncations to int, orders
  such times as the real line does.\<close>

theorem timer_future_time_exact:
  assumes "clock_ok now" and "clock_ok now'"
  shows "ns (future_time now ms) = ns now + uint ms * 10 ^ 6 \<and> time_norm (future_time now ms) \<and>
    (time_ranks (future_time now ms) (future_time now' ms') > 0 \<longleftrightarrow>
       ns (future_time now ms) < ns (future_time now' ms'))"
  using future_time_norm [OF assms(1), of ms] future_time_norm [OF assms(2), of ms'] by (simp add: time_ranks_norm)

text \<open>The pops of an expiration after the first only take timers that are due.\<close>

theorem timer_later_rounds_due:
  assumes "treach s" and "ts_loop s = Some (NextPop w now)" and "clock_ok now"
    and "expire_round (NextPop w now) s = Some s'" and "ts_loop s' = Some (ReadClient v t a)"
  shows "\<exists>d. ts_delegates s a = Some d \<and> v = w \<and> t = now \<and> ns (dl_future d) \<le> ns now"
  using pop_round_ok [OF tinvD(1) [OF treach_tinv [OF assms(1)]] assms(2) disjI2 [OF refl]]
proof (elim disjE exE conjE, goal_cases)
  case (1 ar po)
  with assms(4,5) show ?case by (auto simp: Let_def)
next
  case (2 b u d)
  then have "\<not> time_ranks now (dl_future d) > 0" "time_norm (dl_future d)" by (auto simp: good_in_def time_good_def)
  then have "ns (dl_future d) \<le> ns now" using time_ranks_norm [OF clock_norm [OF assms(3)], of "dl_future d"] by simp
  with 2 assms(4,5) show ?case by (auto simp: popped_def)
qed

text \<open>The first pop of an expiration is not checked against the clock, and this can be seen: when the
  soonest timer is stopped while its expiration is on its way, the expiration message finds the next
  timer on top and calls it back at once. Here a timer started at second 1 for 100 seconds is
  called back at second 2.\<close>

theorem timer_early_callback:
  "\<exists>s0 s d. run_acts (take 6 early_run) timer_init = Some s0 \<and> ts_delegates s0 11 = Some d \<and> dl_id d = 1 \<and>
     dl_future d = sec 101 \<and> run_acts early_run timer_init = Some s \<and> ts_fired s = [(1, sec 2)]"
proof -
  have "map_option (\<lambda>s. map_option (\<lambda>d. (dl_id d, dl_future d)) (ts_delegates s 11)) (run_acts (take 6 early_run) timer_init) =
      Some (Some (1, sec 101))" by code_simp
  moreover have "map_option ts_fired (run_acts early_run timer_init) = Some [(1, sec 2)]" by code_simp
  ultimately show ?thesis by auto
qed

lemma timer_memory_safe_witness:
  "\<exists>s. treach s \<and> ts_loop s = Some (StopClient False (sec 2) 0) \<and> timer_step (MsgThread (sec 2)) s \<noteq> None"
proof -
  have "map_option (\<lambda>s. (ts_loop s, ts_timers s 0)) (run_acts deleted_run timer_init) =
      Some (Some (StopClient False (sec 2) 0), Some (Some 10))" by code_simp
  then obtain s where s: "run_acts deleted_run timer_init = Some s"
      "ts_loop s = Some (StopClient False (sec 2) 0)" "ts_timers s 0 = Some (Some 10)" by auto
  have r: "treach s" by (rule run_acts_reach [OF s(1) treach.init])
  have "act_ok (MsgThread (sec 2)) s" by (simp add: clock_ok_def sec_def)
  from timer_memory_safe [OF r this] s(2,3) r show ?thesis by auto
qed

lemma timer_callback_once_witness: "\<exists>s. treach s \<and> ts_fired s = [(1, sec 2)] \<and> distinct (map fst (ts_fired s) @ ts_stopped s)"
  using early_run_runs timer_callback_once by blast

lemma timer_no_leak_witness: "\<exists>s d w. treach s \<and> ts_delegates s 10 = Some d \<and> 10 \<in># contents (ts_heap s w)"
proof -
  obtain s d where s: "treach s" "ts_queue s = []" "ts_loop s = None" "ts_delegates s 10 = Some d"
    using ticking_run by auto
  from timer_no_leak [OF this] s show ?thesis by blast
qed

lemma timer_armed_for_soonest_witness: "\<exists>s. treach s \<and> ts_polled s False \<and> ts_armed s False = Some (sec 2)"
proof -
  obtain s d where s: "treach s" "ts_queue s = []" "ts_loop s = None" "ts_poll s = []"
      "LocHeap_peek (ts_heap s False) = Some 10" "ts_delegates s 10 = Some d" "dl_future d = sec 2"
    using ticking_run by auto
  from timer_armed_for_soonest [OF s(1-6)] s(1,7) show ?thesis by auto
qed

lemma timer_future_time_exact_witness: "ns (future_time (sec 1) 1500) = ns (sec 1) + 1500 * 10 ^ 6"
proof -
  have "clock_ok (sec 1)" by code_simp
  from timer_future_time_exact [OF this this, of 1500] show ?thesis by simp
qed

definition due_run :: "timer_act list" where
  "due_run = [NewTimer 0, NewTimer 1, Start 0 1000 False (sec 1) True 10, Start 1 1000 False (sec 1) True 11,
     MsgThread (sec 1), MsgThread (sec 1), PollExpired False (sec 2), PollContinue, PollContinue, PollContinue,
     MsgThread (sec 2), MsgThread (sec 2), MsgThread (sec 2), MsgThread (sec 2), MsgThread (sec 2)]"

lemma timer_later_rounds_due_witness:
  "\<exists>s d. treach s \<and> ts_delegates s 11 = Some d \<and> dl_id d = 1 \<and> ns (dl_future d) \<le> ns (sec 2)"
proof -
  have "map_option (\<lambda>s. (ts_loop s, map_option dl_id (ts_delegates s 11),
        map_option ts_loop (expire_round (NextPop False (sec 2)) s))) (run_acts due_run timer_init) =
      Some (Some (NextPop False (sec 2)), Some 1, Some (Some (ReadClient False (sec 2) 11)))"
    by code_simp
  then obtain s s' d where s: "run_acts due_run timer_init = Some s" "ts_loop s = Some (NextPop False (sec 2))"
      "expire_round (NextPop False (sec 2)) s = Some s'" "ts_loop s' = Some (ReadClient False (sec 2) 11)"
      "ts_delegates s 11 = Some d" "dl_id d = 1" by auto
  have r: "treach s" by (rule run_acts_reach [OF s(1) treach.init])
  have "clock_ok (sec 2)" by code_simp
  from timer_later_rounds_due [OF r s(2) this s(3,4)] s(5,6) r show ?thesis by auto
qed

end
