(* ===== verification/Agps.thy ===== *)
theory Agps
  imports Loc_Prelude
begin

text \<open>
  The AGPS data call manager of gps/gnss/Agps.cpp and the commands of gps/gnss/GnssAdapter.cpp that
  drive it. Modem clients (subscribers, named by connection handles) ask for a data call; a state
  machine per network interface asks the framework for the connection, tells the subscribers when
  it is there, and releases it when no active subscriber is left. Every operation returns the
  new state together with the callbacks it made, in order; it is None where the code would
  follow a NULL or dangling pointer. The theorems show that the manager's calls keep the
  subscriber list and the state consistent, that requests and releases of the data connection
  alternate properly, and whom each event of the framework notifies.
\<close>

section \<open>Data\<close>

datatype agps_state =
    AGPS_STATE_INVALID | AGPS_STATE_RELEASED | AGPS_STATE_PENDING | AGPS_STATE_ACQUIRED | AGPS_STATE_RELEASING

datatype agps_event =
    AGPS_EVENT_INVALID | AGPS_EVENT_SUBSCRIBE | AGPS_EVENT_UNSUBSCRIBE | AGPS_EVENT_GRANTED
  | AGPS_EVENT_RELEASED | AGPS_EVENT_DENIED

datatype agps_notification =
    AGPS_NOTIFICATION_TYPE_INVALID
  | AGPS_NOTIFICATION_TYPE_FOR_ALL_SUBSCRIBERS
  | AGPS_NOTIFICATION_TYPE_FOR_INACTIVE_SUBSCRIBERS
  | AGPS_NOTIFICATION_TYPE_FOR_ACTIVE_SUBSCRIBERS

record subscriber =
  mConnHandle :: int
  mWaitForCloseComplete :: bool
  mIsInactive :: bool
  mSubApnTypeMask :: u32

text \<open>
  \<open>mCurrentSubscriber\<close> is NULL, points to a subscriber on the caller's stack, or to an element of the
  subscriber list, given by its position.
\<close>

datatype sub_ptr = NullSub | LocalSub subscriber | ListSub nat

text \<open>The constants LOC\_AGPS\_TYPE\_*, AGPS\_APN\_BEARER\_*, LOC\_APN\_TYPE\_MASK\_* and AGPS\_ATL\_TYPE\_*.\<close>

definition LOC_AGPS_TYPE_INVALID :: int where "LOC_AGPS_TYPE_INVALID = -1"
definition LOC_AGPS_TYPE_SUPL :: int where "LOC_AGPS_TYPE_SUPL = 1"
definition LOC_AGPS_TYPE_WWAN_ANY :: int where "LOC_AGPS_TYPE_WWAN_ANY = 3"
definition LOC_AGPS_TYPE_SUPL_ES :: int where "LOC_AGPS_TYPE_SUPL_ES = 5"
definition AGPS_APN_BEARER_INVALID :: int where "AGPS_APN_BEARER_INVALID = 0"
definition LOC_APN_TYPE_MASK_SUPL :: u32 where "LOC_APN_TYPE_MASK_SUPL = 0x10"
definition LOC_APN_TYPE_MASK_EMERGENCY :: u32 where "LOC_APN_TYPE_MASK_EMERGENCY = 0x200"
definition AGPS_ATL_TYPE_SUPL :: u32 where "AGPS_ATL_TYPE_SUPL = 1"
definition AGPS_ATL_TYPE_SUPL_ES :: u32 where "AGPS_ATL_TYPE_SUPL_ES = 2"
definition AGPS_ATL_TYPE_WWAN :: u32 where "AGPS_ATL_TYPE_WWAN = 4"
definition LOC_GPS_CAPABILITY_MSB :: u32 where "LOC_GPS_CAPABILITY_MSB = 2"
definition LOC_GPS_CAPABILITY_MSA :: u32 where "LOC_GPS_CAPABILITY_MSA = 4"
definition MAX_APN_LEN :: int where "MAX_APN_LEN = 100"

record agps_sm =
  mSubscriberList :: "subscriber list"
  mCurrentSubscriber :: sub_ptr
  mState :: agps_state
  mAgpsType :: int
  mApnTypeMask :: u32
  mAPN :: "string option"
  mAPNLen :: nat
  mBearer :: int

text \<open>
  The callbacks: the framework is asked for (True) or told to release (False) the data connection;
  a subscriber is told the outcome of opening or closing.
\<close>

datatype agps_out =
    DataConn bool int u32
  | AtlOpenStatus int bool "string option" nat int int u32
  | AtlCloseStatus int bool

type_synonym sm_act = "agps_sm \<Rightarrow> (agps_sm \<times> agps_out list) option"

section \<open>The state machine\<close>

definition then_do :: "sm_act \<Rightarrow> sm_act \<Rightarrow> sm_act" where
  "then_do f g s =
     (case f s of
        None \<Rightarrow> None
      | Some (s1, o1) \<Rightarrow> (case g s1 of None \<Rightarrow> None | Some (s2, o2) \<Rightarrow> Some (s2, o1 @ o2)))"

definition noop :: sm_act where
  "noop s = Some (s, [])"

text \<open>\<open>mApnTypeMask\<close> is not initialised by the constructor: its first value is an argument.\<close>

definition new_AgpsStateMachine :: "int \<Rightarrow> u32 \<Rightarrow> agps_sm" where
  "new_AgpsStateMachine agpsType mask0 =
     \<lparr>mSubscriberList = [], mCurrentSubscriber = NullSub, mState = AGPS_STATE_RELEASED, mAgpsType = agpsType,
      mApnTypeMask = mask0, mAPN = None, mAPNLen = 0, mBearer = AGPS_APN_BEARER_INVALID\<rparr>"

definition deref_sub :: "sub_ptr \<Rightarrow> agps_sm \<Rightarrow> subscriber option" where
  "deref_sub p s =
     (case p of
        NullSub \<Rightarrow> None
      | LocalSub x \<Rightarrow> Some x
      | ListSub i \<Rightarrow> if i < length (mSubscriberList s) then Some (mSubscriberList s ! i) else None)"

definition requestOrReleaseDataConn :: "bool \<Rightarrow> sm_act" where
  "requestOrReleaseDataConn request s = Some (s, [DataConn request (mAgpsType s) (mApnTypeMask s)])"

definition transitionState :: "agps_state \<Rightarrow> sm_act" where
  "transitionState newState s = Some (s\<lparr>mState := newState\<rparr>, [])"

definition anyActiveSubscribers :: "agps_sm \<Rightarrow> bool" where
  "anyActiveSubscribers s \<longleftrightarrow> (\<exists>x \<in> set (mSubscriberList s). \<not> mIsInactive x)"

definition addSubscriber :: "sub_ptr \<Rightarrow> sm_act" where
  "addSubscriber p s =
     map_option (\<lambda>x.
         (if \<exists>y \<in> set (mSubscriberList s). mConnHandle y = mConnHandle x then s
          else s\<lparr>mSubscriberList := mSubscriberList s @ [x]\<rparr>, []))
       (deref_sub p s)"

text \<open>
  The loop of \<open>deleteSubscriber\<close> reads the handle of its argument in every round: when the argument
  is an element of the list that has been deleted, and other elements follow, it reads freed
  memory.
\<close>

definition deleteSubscriber :: "sub_ptr \<Rightarrow> sm_act" where
  "deleteSubscriber p s =
     Option.bind (deref_sub p s) (\<lambda>x.
       let rest = filter (\<lambda>y. mConnHandle y \<noteq> mConnHandle x) (mSubscriberList s) in
       case p of
         ListSub i \<Rightarrow> if i + 1 < length (mSubscriberList s) then None else Some (s\<lparr>mSubscriberList := rest\<rparr>, [])
       | _ \<Rightarrow> Some (s\<lparr>mSubscriberList := rest\<rparr>, []))"

text \<open>The callback of one notification.\<close>

definition notification :: "agps_event \<Rightarrow> subscriber \<Rightarrow> agps_sm \<Rightarrow> agps_out list" where
  "notification event x s =
     (case event of
        AGPS_EVENT_GRANTED \<Rightarrow>
          [AtlOpenStatus (mConnHandle x) True (mAPN s) (mAPNLen s) (mBearer s) (mAgpsType s) (mApnTypeMask s)]
      | AGPS_EVENT_DENIED \<Rightarrow>
          [AtlOpenStatus (mConnHandle x) False (mAPN s) (mAPNLen s) (mBearer s) (mAgpsType s) (mApnTypeMask s)]
      | AGPS_EVENT_UNSUBSCRIBE \<Rightarrow> [AtlCloseStatus (mConnHandle x) True]
      | AGPS_EVENT_RELEASED \<Rightarrow> [AtlCloseStatus (mConnHandle x) True]
      | _ \<Rightarrow> [])"

definition notifyEventToSubscriber :: "agps_event \<Rightarrow> sub_ptr \<Rightarrow> bool \<Rightarrow> sm_act" where
  "notifyEventToSubscriber event p deletePost s =
     Option.bind (deref_sub p s) (\<lambda>x.
       map_option (\<lambda>(s1, out). (s1, notification event x s @ out))
         (if deletePost then deleteSubscriber p s else noop s))"

fun notify_matches :: "agps_notification \<Rightarrow> subscriber \<Rightarrow> bool" where
  "notify_matches AGPS_NOTIFICATION_TYPE_FOR_ALL_SUBSCRIBERS x \<longleftrightarrow> True"
| "notify_matches AGPS_NOTIFICATION_TYPE_FOR_INACTIVE_SUBSCRIBERS x \<longleftrightarrow> mIsInactive x"
| "notify_matches AGPS_NOTIFICATION_TYPE_FOR_ACTIVE_SUBSCRIBERS x \<longleftrightarrow> \<not> mIsInactive x"
| "notify_matches AGPS_NOTIFICATION_TYPE_INVALID x \<longleftrightarrow> False"

text \<open>The loop of \<open>notifyAllSubscribers\<close>: the elements kept and the callbacks made.\<close>

fun notify_loop :: "agps_event \<Rightarrow> bool \<Rightarrow> agps_notification \<Rightarrow> agps_sm \<Rightarrow> subscriber list
    \<Rightarrow> subscriber list \<times> agps_out list" where
  "notify_loop event deletePost kind s [] = ([], [])"
| "notify_loop event deletePost kind s (x # xs) =
     (let (kept, out) = notify_loop event deletePost kind s xs in
      if notify_matches kind x
      then (if deletePost then kept else x # kept, notification event x s @ out)
      else (x # kept, out))"

definition notifyAllSubscribers :: "agps_event \<Rightarrow> bool \<Rightarrow> agps_notification \<Rightarrow> sm_act" where
  "notifyAllSubscribers event deletePost kind s =
     (let (kept, out) = notify_loop event deletePost kind s (mSubscriberList s)
      in Some (s\<lparr>mSubscriberList := kept\<rparr>, out))"

definition processAgpsEventSubscribe :: sm_act where
  "processAgpsEventSubscribe s =
     (case mState s of
        AGPS_STATE_RELEASED \<Rightarrow>
          then_do (addSubscriber (mCurrentSubscriber s))
            (then_do (requestOrReleaseDataConn True) (transitionState AGPS_STATE_PENDING)) s
      | AGPS_STATE_PENDING \<Rightarrow> addSubscriber (mCurrentSubscriber s) s
      | AGPS_STATE_ACQUIRED \<Rightarrow>
          then_do (notifyEventToSubscriber AGPS_EVENT_GRANTED (mCurrentSubscriber s) False)
            (addSubscriber (mCurrentSubscriber s)) s
      | AGPS_STATE_RELEASING \<Rightarrow> addSubscriber (mCurrentSubscriber s) s
      | AGPS_STATE_INVALID \<Rightarrow> noop s)"

text \<open>\<open>mCurrentSubscriber->mIsInactive = true\<close>.\<close>

definition set_current_inactive :: sm_act where
  "set_current_inactive s =
     (case mCurrentSubscriber s of
        NullSub \<Rightarrow> None
      | LocalSub x \<Rightarrow> Some (s\<lparr>mCurrentSubscriber := LocalSub (x\<lparr>mIsInactive := True\<rparr>)\<rparr>, [])
      | ListSub i \<Rightarrow>
          if i < length (mSubscriberList s)
          then Some (s\<lparr>mSubscriberList := (mSubscriberList s)[i := (mSubscriberList s ! i)\<lparr>mIsInactive := True\<rparr>]\<rparr>, [])
          else None)"

definition leave_current :: sm_act where
  "leave_current s =
     Option.bind (deref_sub (mCurrentSubscriber s) s) (\<lambda>x.
       if mWaitForCloseComplete x then set_current_inactive s
       else notifyEventToSubscriber AGPS_EVENT_UNSUBSCRIBE (mCurrentSubscriber s) True s)"

definition processAgpsEventUnsubscribe :: sm_act where
  "processAgpsEventUnsubscribe s =
     (case mState s of
        AGPS_STATE_RELEASED \<Rightarrow> notifyEventToSubscriber AGPS_EVENT_UNSUBSCRIBE (mCurrentSubscriber s) False s
      | AGPS_STATE_RELEASING \<Rightarrow>
          then_do leave_current
            (\<lambda>s1. if mSubscriberList s1 = [] then transitionState AGPS_STATE_RELEASED s1 else noop s1) s
      | AGPS_STATE_INVALID \<Rightarrow> noop s
      | _ \<Rightarrow>
          then_do leave_current
            (\<lambda>s1. if mSubscriberList s1 = []
                  then then_do (transitionState AGPS_STATE_RELEASED) (requestOrReleaseDataConn False) s1
                  else if \<not> anyActiveSubscribers s1
                  then then_do (transitionState AGPS_STATE_RELEASING) (requestOrReleaseDataConn False) s1
                  else noop s1) s)"

definition processAgpsEventGranted :: sm_act where
  "processAgpsEventGranted s =
     (case mState s of
        AGPS_STATE_PENDING \<Rightarrow>
          then_do (transitionState AGPS_STATE_ACQUIRED)
            (notifyAllSubscribers AGPS_EVENT_GRANTED False AGPS_NOTIFICATION_TYPE_FOR_ACTIVE_SUBSCRIBERS) s
      | _ \<Rightarrow> noop s)"

text \<open>What follows the end of a release, in both events that can bring it.\<close>

definition release_done :: sm_act where
  "release_done =
     then_do (notifyAllSubscribers AGPS_EVENT_RELEASED True AGPS_NOTIFICATION_TYPE_FOR_INACTIVE_SUBSCRIBERS)
       (\<lambda>s. if anyActiveSubscribers s
            then then_do (transitionState AGPS_STATE_PENDING) (requestOrReleaseDataConn True) s
            else transitionState AGPS_STATE_RELEASED s)"

definition processAgpsEventReleased :: sm_act where
  "processAgpsEventReleased s =
     (case mState s of
        AGPS_STATE_ACQUIRED \<Rightarrow>
          then_do (transitionState AGPS_STATE_RELEASED)
            (notifyAllSubscribers AGPS_EVENT_RELEASED True AGPS_NOTIFICATION_TYPE_FOR_ALL_SUBSCRIBERS) s
      | AGPS_STATE_RELEASING \<Rightarrow> release_done s
      | _ \<Rightarrow> noop s)"

definition processAgpsEventDenied :: sm_act where
  "processAgpsEventDenied s =
     (case mState s of
        AGPS_STATE_RELEASING \<Rightarrow> release_done s
      | AGPS_STATE_PENDING \<Rightarrow>
          then_do (transitionState AGPS_STATE_RELEASED)
            (notifyAllSubscribers AGPS_EVENT_DENIED True AGPS_NOTIFICATION_TYPE_FOR_ALL_SUBSCRIBERS) s
      | _ \<Rightarrow> noop s)"

fun processAgpsEvent :: "agps_event \<Rightarrow> sm_act" where
  "processAgpsEvent AGPS_EVENT_SUBSCRIBE s = processAgpsEventSubscribe s"
| "processAgpsEvent AGPS_EVENT_UNSUBSCRIBE s = processAgpsEventUnsubscribe s"
| "processAgpsEvent AGPS_EVENT_GRANTED s = processAgpsEventGranted s"
| "processAgpsEvent AGPS_EVENT_RELEASED s = processAgpsEventReleased s"
| "processAgpsEvent AGPS_EVENT_DENIED s = processAgpsEventDenied s"
| "processAgpsEvent AGPS_EVENT_INVALID s = noop s"

text \<open>\<open>setAPN\<close>: \<open>len\<close> is unsigned; the string is a C string, its length is strlen.\<close>

definition setAPN :: "string option \<Rightarrow> u32 \<Rightarrow> agps_sm \<Rightarrow> agps_sm" where
  "setAPN apn len s =
     (case apn of
        Some a \<Rightarrow>
          if uint len > MAX_APN_LEN \<or> int (length a) \<noteq> uint len then s\<lparr>mAPN := None, mAPNLen := 0\<rparr>
          else s\<lparr>mAPN := Some a, mAPNLen := unat len\<rparr>
      | None \<Rightarrow> s\<lparr>mAPN := None, mAPNLen := 0\<rparr>)"

definition find_index :: "('a \<Rightarrow> bool) \<Rightarrow> 'a list \<Rightarrow> nat option" where
  "find_index P xs = (let i = length (takeWhile (\<lambda>x. \<not> P x) xs) in if i < length xs then Some i else None)"

definition getSubscriber :: "int \<Rightarrow> agps_sm \<Rightarrow> sub_ptr" where
  "getSubscriber h s =
     (case find_index (\<lambda>x. mConnHandle x = h) (mSubscriberList s) of None \<Rightarrow> NullSub | Some i \<Rightarrow> ListSub i)"

definition getFirstSubscriber :: "bool \<Rightarrow> agps_sm \<Rightarrow> sub_ptr" where
  "getFirstSubscriber inactive s =
     (case find_index (\<lambda>x. mIsInactive x = inactive) (mSubscriberList s) of None \<Rightarrow> NullSub | Some i \<Rightarrow> ListSub i)"

definition dropAllSubscribers :: "agps_sm \<Rightarrow> agps_sm" where
  "dropAllSubscribers s = s\<lparr>mSubscriberList := []\<rparr>"

section \<open>The manager\<close>

text \<open>
  The two state machines, NULL until they are created, and the entries of gps.conf that the
  manager reads.
\<close>

record agps_mgr =
  mAgnssNif :: "agps_sm option"
  mInternetNif :: "agps_sm option"

record agps_conf =
  CAPABILITIES :: u32
  USE_EMERGENCY_PDN :: u32

type_synonym mgr_act = "agps_mgr \<Rightarrow> (agps_mgr \<times> agps_out list) option"

definition agpsCapable :: "agps_conf \<Rightarrow> bool" where
  "agpsCapable conf \<longleftrightarrow>
     CAPABILITIES conf AND LOC_GPS_CAPABILITY_MSA \<noteq> 0 \<or> CAPABILITIES conf AND LOC_GPS_CAPABILITY_MSB \<noteq> 0"

definition createAgpsStateMachines :: "agps_conf \<Rightarrow> u32 \<Rightarrow> u32 \<Rightarrow> agps_mgr \<Rightarrow> agps_mgr" where
  "createAgpsStateMachines conf atlType mask0 m =
     (let m1 = (if mInternetNif m = None \<and> atlType AND AGPS_ATL_TYPE_WWAN \<noteq> 0
                then m\<lparr>mInternetNif := Some (new_AgpsStateMachine LOC_AGPS_TYPE_WWAN_ANY mask0)\<rparr> else m)
      in if agpsCapable conf \<and> mAgnssNif m1 = None \<and> atlType AND AGPS_ATL_TYPE_SUPL \<noteq> 0 \<and>
            atlType AND AGPS_ATL_TYPE_SUPL_ES \<noteq> 0
         then m1\<lparr>mAgnssNif := Some (new_AgpsStateMachine LOC_AGPS_TYPE_SUPL mask0)\<rparr> else m1)"

datatype nif = AgnssNif | InternetNif

text \<open>\<open>getAgpsStateMachine\<close>: which state machine serves a type; it may be NULL.\<close>

definition getAgpsStateMachine :: "int \<Rightarrow> nif" where
  "getAgpsStateMachine agpsType =
     (if agpsType = LOC_AGPS_TYPE_INVALID \<or> agpsType = LOC_AGPS_TYPE_SUPL \<or> agpsType = LOC_AGPS_TYPE_SUPL_ES
      then AgnssNif else InternetNif)"

fun sm_at :: "nif \<Rightarrow> agps_mgr \<Rightarrow> agps_sm option" where
  "sm_at AgnssNif m = mAgnssNif m"
| "sm_at InternetNif m = mInternetNif m"

fun set_sm :: "nif \<Rightarrow> agps_sm \<Rightarrow> agps_mgr \<Rightarrow> agps_mgr" where
  "set_sm AgnssNif s m = m\<lparr>mAgnssNif := Some s\<rparr>"
| "set_sm InternetNif s m = m\<lparr>mInternetNif := Some s\<rparr>"

text \<open>A call of a method through the pointer to a state machine.\<close>

definition on_sm :: "nif \<Rightarrow> sm_act \<Rightarrow> mgr_act" where
  "on_sm n f m =
     (case sm_at n m of
        None \<Rightarrow> None
      | Some s \<Rightarrow> map_option (\<lambda>(s1, out). (set_sm n s1 m, out)) (f s))"

definition requestATL :: "agps_conf \<Rightarrow> int \<Rightarrow> int \<Rightarrow> u32 \<Rightarrow> mgr_act" where
  "requestATL conf connHandle agpsType0 apnTypeMask0 m =
     (let plain = USE_EMERGENCY_PDN conf = 0 \<and> agpsType0 = LOC_AGPS_TYPE_SUPL_ES;
          agpsType = (if plain then LOC_AGPS_TYPE_SUPL else agpsType0);
          apnTypeMask = (if plain then (apnTypeMask0 AND NOT LOC_APN_TYPE_MASK_EMERGENCY) OR LOC_APN_TYPE_MASK_SUPL
                         else apnTypeMask0);
          n = getAgpsStateMachine agpsType
      in if sm_at n m = None
         then Some (m, [AtlOpenStatus connHandle False None 0 AGPS_APN_BEARER_INVALID agpsType apnTypeMask])
         else on_sm n (\<lambda>s. processAgpsEvent AGPS_EVENT_SUBSCRIBE
                (s\<lparr>mAgpsType := agpsType, mApnTypeMask := apnTypeMask,
                   mCurrentSubscriber := LocalSub \<lparr>mConnHandle = connHandle, mWaitForCloseComplete = True,
                     mIsInactive = False, mSubApnTypeMask = apnTypeMask\<rparr>\<rparr>)) m)"

definition holds_handle :: "int \<Rightarrow> agps_sm option \<Rightarrow> bool" where
  "holds_handle h s \<longleftrightarrow> (case s of None \<Rightarrow> False | Some x \<Rightarrow> getSubscriber h x \<noteq> NullSub)"

definition releaseATL :: "int \<Rightarrow> mgr_act" where
  "releaseATL connHandle m =
     (let n = (if holds_handle connHandle (mAgnssNif m) then Some AgnssNif
               else if holds_handle connHandle (mInternetNif m) then Some InternetNif else None)
      in case n of
           None \<Rightarrow> Some (m, [])
         | Some k \<Rightarrow>
             on_sm k (\<lambda>s. processAgpsEvent AGPS_EVENT_UNSUBSCRIBE
               (s\<lparr>mCurrentSubscriber := getSubscriber connHandle s\<rparr>)) m)"

definition reportAtlOpenSuccess :: "int \<Rightarrow> string option \<Rightarrow> int \<Rightarrow> int \<Rightarrow> mgr_act" where
  "reportAtlOpenSuccess agpsType apnName apnLen bearerType m =
     on_sm (getAgpsStateMachine agpsType)
       (\<lambda>s. processAgpsEvent AGPS_EVENT_GRANTED (setAPN apnName (word_of_int apnLen) (s\<lparr>mBearer := bearerType\<rparr>))) m"

definition reportAtlOpenFailed :: "int \<Rightarrow> mgr_act" where
  "reportAtlOpenFailed agpsType m = on_sm (getAgpsStateMachine agpsType) (processAgpsEvent AGPS_EVENT_DENIED) m"

definition reportAtlClosed :: "int \<Rightarrow> mgr_act" where
  "reportAtlClosed agpsType m = on_sm (getAgpsStateMachine agpsType) (processAgpsEvent AGPS_EVENT_RELEASED) m"

definition handleModemSSR :: "agps_mgr \<Rightarrow> agps_mgr" where
  "handleModemSSR m =
     m\<lparr>mAgnssNif := map_option dropAllSubscribers (mAgnssNif m),
       mInternetNif := map_option dropAllSubscribers (mInternetNif m)\<rparr>"

section \<open>The commands of the adapter\<close>

text \<open>
  The messages GnssAdapter sends itself for the manager. \<open>wds\<close> tells whether the library that can be
  asked for the PDN type is there; its answer comes back as a message of its own.
\<close>

datatype agps_msg =
    AgpsMsgInit u32
  | AgpsMsgRequestATL int int u32
  | AgpsMsgReleaseATL int
  | AgpsMsgAtlOpenSuccess int string int
  | MsgReportAtlPdn int int string int
  | AgpsMsgAtlClosed int
  | AgpsMsgAtlOpenFailed int

definition initAgps :: "agps_conf \<Rightarrow> u32 \<Rightarrow> u32 \<Rightarrow> agps_mgr \<Rightarrow> agps_mgr" where
  "initAgps conf atlType mask0 m = (if agpsCapable conf then createAgpsStateMachines conf atlType mask0 m else m)"

text \<open>\<open>reportPdnTypeFromWds\<close>: the PDN type of WDS is converted to a bearer type.\<close>

definition reportPdnTypeFromWds :: "int \<Rightarrow> int \<Rightarrow> string \<Rightarrow> int \<Rightarrow> agps_msg" where
  "reportPdnTypeFromWds pdnType agpsType apnName bearerType =
     MsgReportAtlPdn ((pdnType + 1) AND 3) agpsType apnName bearerType"

fun agps_msg_proc :: "agps_conf \<Rightarrow> u32 \<Rightarrow> bool \<Rightarrow> agps_msg \<Rightarrow> mgr_act" where
  "agps_msg_proc conf mask0 wds (AgpsMsgInit atlType) m = Some (initAgps conf atlType mask0 m, [])"
| "agps_msg_proc conf mask0 wds (AgpsMsgRequestATL h t k) m = requestATL conf h t k m"
| "agps_msg_proc conf mask0 wds (AgpsMsgReleaseATL h) m = releaseATL h m"
| "agps_msg_proc conf mask0 wds (AgpsMsgAtlOpenSuccess t apn bearer) m =
     (if wds then Some (m, []) else reportAtlOpenSuccess t (Some apn) (int (length apn)) bearer m)"
| "agps_msg_proc conf mask0 wds (MsgReportAtlPdn pdn t apn bearer) m =
     reportAtlOpenSuccess t (Some apn) (int (length apn)) (if pdn \<le> 0 then bearer else pdn) m"
| "agps_msg_proc conf mask0 wds (AgpsMsgAtlClosed t) m = reportAtlClosed t m"
| "agps_msg_proc conf mask0 wds (AgpsMsgAtlOpenFailed t) m = reportAtlOpenFailed t m"

text \<open>
  \<open>dataConnOpenCommand\<close> either sends a message or, on a bad APN, reports the call closed at once:
  the message it sends, the new manager, and the callbacks made.
\<close>

definition dataConnOpenCommand ::
  "int \<Rightarrow> string option \<Rightarrow> int \<Rightarrow> int \<Rightarrow> agps_mgr \<Rightarrow> (agps_msg option \<times> agps_mgr \<times> agps_out list) option" where
  "dataConnOpenCommand agpsType apnName apnLen bearerType m =
     (case apnName of
        Some apn \<Rightarrow>
          if apnLen > MAX_APN_LEN \<or> int (length apn) \<noteq> apnLen
          then map_option (Pair None) (reportAtlClosed agpsType m)
          else Some (Some (AgpsMsgAtlOpenSuccess agpsType apn bearerType), m, [])
      | None \<Rightarrow> map_option (Pair None) (reportAtlClosed agpsType m))"

definition dataConnClosedCommand :: "int \<Rightarrow> agps_msg" where
  "dataConnClosedCommand agpsType = AgpsMsgAtlClosed agpsType"

definition dataConnFailedCommand :: "int \<Rightarrow> agps_msg" where
  "dataConnFailedCommand agpsType = AgpsMsgAtlOpenFailed agpsType"

section \<open>The invariant of a state machine\<close>

definition handles :: "agps_sm \<Rightarrow> int list" where
  "handles s = map mConnHandle (mSubscriberList s)"

definition sm_inv :: "nif \<Rightarrow> agps_sm \<Rightarrow> bool" where
  "sm_inv n s \<longleftrightarrow>
     getAgpsStateMachine (mAgpsType s) = n \<and> mState s \<noteq> AGPS_STATE_INVALID \<and> distinct (handles s) \<and>
     (\<forall>x \<in> set (mSubscriberList s). mWaitForCloseComplete x) \<and>
     (mState s = AGPS_STATE_RELEASED \<longrightarrow> mSubscriberList s = []) \<and>
     (mState s = AGPS_STATE_PENDING \<or> mState s = AGPS_STATE_ACQUIRED \<longrightarrow>
        mSubscriberList s = [] \<or> anyActiveSubscribers s)"

text \<open>
  The requests (True) and releases (False) of the data connection of an interface among the
  callbacks.
\<close>

fun conn_of :: "nif \<Rightarrow> agps_out \<Rightarrow> bool list" where
  "conn_of n (DataConn r t k) = (if getAgpsStateMachine t = n then [r] else [])"
| "conn_of n _ = []"

definition conns :: "nif \<Rightarrow> agps_out list \<Rightarrow> bool list" where
  "conns n outs = concat (map (conn_of n) outs)"

lemma conns_simps [simp]: "conns n [] = []" "conns n (x # xs) = conn_of n x @ conns n xs"
  "conns n (xs @ ys) = conns n xs @ conns n ys"
  by (simp_all add: conns_def)

text \<open>The states in which a connection is wanted.\<close>

definition wants :: "agps_sm \<Rightarrow> bool" where
  "wants s \<longleftrightarrow> mState s = AGPS_STATE_PENDING \<or> mState s = AGPS_STATE_ACQUIRED"

text \<open>
  What the callbacks make of the connection: requests and releases in turn. \<open>ended\<close> is whether the
  framework has just reported that the call failed or was closed, which it may take back the
  connection with.
\<close>

definition turns :: "bool \<Rightarrow> bool \<Rightarrow> bool list \<Rightarrow> bool \<Rightarrow> bool" where
  "turns ended w rs w' \<longleftrightarrow> in_turn w rs = Some w' \<or> ended \<and> in_turn False rs = Some w'"

lemma turns_Nil: "turns e w [] w"
  by (simp add: turns_def)

text \<open>The handles that are told something, in order.\<close>

fun told_of :: "agps_out \<Rightarrow> int list" where
  "told_of (DataConn r t k) = []"
| "told_of (AtlOpenStatus h b apn l br t k) = [h]"
| "told_of (AtlCloseStatus h b) = [h]"

definition told :: "agps_out list \<Rightarrow> int list" where
  "told outs = concat (map told_of outs)"

lemma told_simps [simp]: "told [] = []" "told (x # xs) = told_of x @ told xs" "told (xs @ ys) = told xs @ told ys"
  by (simp_all add: told_def)

text \<open>
  What is shown of each event: from a state in order it is defined, ends in order, and its
  callbacks respect the connection and tell subscribers (or the one given) at most once.
\<close>

definition event_ok :: "nif \<Rightarrow> bool \<Rightarrow> int set \<Rightarrow> agps_sm \<Rightarrow> (agps_sm \<times> agps_out list) option \<Rightarrow> bool" where
  "event_ok n ended extra s r \<longleftrightarrow>
     (\<exists>s' outs. r = Some (s', outs) \<and> sm_inv n s' \<and>
        turns ended (wants s) (conns n outs) (wants s') \<and>
        (\<forall>k. k \<noteq> n \<longrightarrow> conns k outs = []) \<and>
        distinct (told outs) \<and> set (told outs) \<subseteq> set (handles s) \<union> extra)"

section \<open>Notifications\<close>

lemma notify_loop_filter:
  "notify_loop event del kind s xs =
     (if del then filter (\<lambda>x. \<not> notify_matches kind x) xs else xs,
      concat (map (\<lambda>x. notification event x s) (filter (notify_matches kind) xs)))"
  by (induction xs) (auto simp: Let_def)

lemma notifyAll_eq:
  "notifyAllSubscribers event del kind s =
     Some (s\<lparr>mSubscriberList := if del then filter (\<lambda>x. \<not> notify_matches kind x) (mSubscriberList s) else mSubscriberList s\<rparr>,
       concat (map (\<lambda>x. notification event x s) (filter (notify_matches kind) (mSubscriberList s))))"
  by (simp add: notifyAllSubscribers_def notify_loop_filter)

lemma told_notification:
  "event \<in> {AGPS_EVENT_GRANTED, AGPS_EVENT_DENIED, AGPS_EVENT_UNSUBSCRIBE, AGPS_EVENT_RELEASED} \<Longrightarrow>
     told (notification event x s) = [mConnHandle x]"
  by (auto simp: notification_def)

lemma conns_notification [simp]: "conns n (notification event x s) = []"
  by (cases event) (auto simp: notification_def)

lemma conns_notifications [simp]: "conns n (concat (map (\<lambda>x. notification event x s) xs)) = []"
  by (induction xs) auto

lemma told_notifications:
  "event \<in> {AGPS_EVENT_GRANTED, AGPS_EVENT_DENIED, AGPS_EVENT_UNSUBSCRIBE, AGPS_EVENT_RELEASED} \<Longrightarrow>
     told (concat (map (\<lambda>x. notification event x s) xs)) = map mConnHandle xs"
  by (induction xs) (auto simp: told_notification)

lemma distinct_handles_filter: "distinct (map mConnHandle xs) \<Longrightarrow> distinct (map mConnHandle (filter P xs))"
  by (induction xs) auto

lemmas event_defs = then_do_def noop_def transitionState_def requestOrReleaseDataConn_def notifyAll_eq

section \<open>Every event keeps the invariant\<close>

lemma granted_ok: "sm_inv n s \<Longrightarrow> event_ok n False {} s (processAgpsEventGranted s)"
  by (auto simp: event_ok_def processAgpsEventGranted_def event_defs sm_inv_def wants_def handles_def
      anyActiveSubscribers_def told_notifications distinct_handles_filter turns_def split: agps_state.split)

lemma release_done_ok:
  "sm_inv n s \<Longrightarrow> mState s = AGPS_STATE_RELEASING \<Longrightarrow> event_ok n True {} s (release_done s)"
  by (auto simp: event_ok_def release_done_def event_defs sm_inv_def wants_def handles_def
      anyActiveSubscribers_def told_notifications distinct_handles_filter turns_def filter_empty_conv)

lemma released_ok: "sm_inv n s \<Longrightarrow> event_ok n True {} s (processAgpsEventReleased s)"
  using release_done_ok [of n s]
  by (cases "mState s") (auto simp: event_ok_def processAgpsEventReleased_def event_defs sm_inv_def wants_def handles_def
      anyActiveSubscribers_def told_notifications turns_def)

lemma denied_ok: "sm_inv n s \<Longrightarrow> event_ok n True {} s (processAgpsEventDenied s)"
  using release_done_ok [of n s]
  by (cases "mState s") (auto simp: event_ok_def processAgpsEventDenied_def event_defs sm_inv_def wants_def handles_def
      anyActiveSubscribers_def told_notifications turns_def)

lemma deref_LocalSub [simp]: "deref_sub (LocalSub x) u = Some x"
  by (simp add: deref_sub_def)

lemma subscribe_ok:
  assumes "sm_inv n s" and "getAgpsStateMachine t = n"
    and x: "x = \<lparr>mConnHandle = h, mWaitForCloseComplete = True, mIsInactive = False, mSubApnTypeMask = k\<rparr>"
  shows "event_ok n False {h} s (processAgpsEventSubscribe
    (s\<lparr>mAgpsType := t, mApnTypeMask := k, mCurrentSubscriber := LocalSub x\<rparr>))"
  using assms(1,2)
  by (cases "mState s")
    (auto simp: event_ok_def processAgpsEventSubscribe_def event_defs addSubscriber_def sm_inv_def wants_def
      handles_def anyActiveSubscribers_def notifyEventToSubscriber_def told_notification x turns_def)

lemma find_index_Some: "find_index P xs = Some i \<Longrightarrow> i < length xs \<and> P (xs ! i)"
  using nth_length_takeWhile [of "\<lambda>x. \<not> P x" xs] by (auto simp: find_index_def Let_def split: if_splits)

lemma find_index_None: "find_index P xs = None \<longleftrightarrow> (\<forall>x \<in> set xs. \<not> P x)"
proof -
  have "length (takeWhile (\<lambda>x. \<not> P x) xs) < length xs \<longleftrightarrow> (\<exists>x \<in> set xs. P x)"
    by (induction xs) auto
  then show ?thesis by (auto simp: find_index_def Let_def)
qed

lemma getSubscriber_null: "getSubscriber h s = NullSub \<longleftrightarrow> h \<notin> set (handles s)"
  using find_index_None [of "\<lambda>x. mConnHandle x = h" "mSubscriberList s"]
  by (auto simp: getSubscriber_def handles_def split: option.splits)

lemma getSubscriber_list:
  "getSubscriber h s = ListSub i \<Longrightarrow> i < length (mSubscriberList s) \<and> mConnHandle (mSubscriberList s ! i) = h"
  by (auto simp: getSubscriber_def dest: find_index_Some split: option.splits)

lemma getSubscriber_not_local: "getSubscriber h s \<noteq> LocalSub x"
  by (auto simp: getSubscriber_def split: option.splits)

lemma handles_inactive: "i < length xs \<Longrightarrow>
    map mConnHandle (xs[i := (xs ! i)\<lparr>mIsInactive := True\<rparr>]) = map mConnHandle xs"
  by (simp add: map_update) (metis list_update_id nth_map)

lemma waits_inactive: "i < length xs \<Longrightarrow> \<forall>x \<in> set xs. mWaitForCloseComplete x \<Longrightarrow>
    \<forall>x \<in> set (xs[i := (xs ! i)\<lparr>mIsInactive := True\<rparr>]). mWaitForCloseComplete x"
  by (auto dest!: set_update_subset_insert [THEN subsetD])

lemma leave_current_eq:
  assumes "mCurrentSubscriber s = ListSub i" and "i < length (mSubscriberList s)"
    and "\<forall>x \<in> set (mSubscriberList s). mWaitForCloseComplete x"
  shows "leave_current s =
    Some (s\<lparr>mSubscriberList := (mSubscriberList s)[i := (mSubscriberList s ! i)\<lparr>mIsInactive := True\<rparr>]\<rparr>, [])"
  using assms by (simp add: leave_current_def deref_sub_def set_current_inactive_def)

lemma unsubscribe_ok:
  assumes inv: "sm_inv n s" and cur: "mCurrentSubscriber s = ListSub i" and i: "i < length (mSubscriberList s)"
  shows "event_ok n False {} s (processAgpsEventUnsubscribe s)"
proof -
  let ?s = "s\<lparr>mSubscriberList := (mSubscriberList s)[i := (mSubscriberList s ! i)\<lparr>mIsInactive := True\<rparr>]\<rparr>"
  have w: "\<forall>x \<in> set (mSubscriberList s). mWaitForCloseComplete x" using inv by (simp add: sm_inv_def)
  note l = leave_current_eq [OF cur i w]
  have ne: "mSubscriberList ?s \<noteq> []" "mState s \<noteq> AGPS_STATE_RELEASED" using inv i by (auto simp: sm_inv_def)
  have h: "handles ?s = handles s" using i by (simp add: handles_def handles_inactive)
  have ws: "\<forall>x \<in> set (mSubscriberList ?s). mWaitForCloseComplete x" using waits_inactive [OF i w] by simp
  show ?thesis
    using inv ne h ws
    by (cases "mState s")
      (auto simp: event_ok_def processAgpsEventUnsubscribe_def l event_defs sm_inv_def wants_def handles_def
        anyActiveSubscribers_def turns_def)
qed

section \<open>The manager\<close>

text \<open>The operations of the manager as the adapter calls them.\<close>

datatype agps_op = OpMsg bool agps_msg | OpOpen int "string option" int int | OpSSR

fun mgr_step :: "agps_conf \<Rightarrow> u32 \<Rightarrow> agps_op \<Rightarrow> agps_mgr \<Rightarrow> (agps_out list \<times> agps_mgr) option" where
  "mgr_step conf mask0 (OpMsg wds x) m = map_option prod.swap (agps_msg_proc conf mask0 wds x m)"
| "mgr_step conf mask0 (OpOpen t apn len bearer) m =
     map_option (\<lambda>(_, m1, out). (out, m1)) (dataConnOpenCommand t apn len bearer m)"
| "mgr_step conf mask0 OpSSR m = Some ([], handleModemSSR m)"

definition mgr_inv :: "agps_mgr \<Rightarrow> bool" where
  "mgr_inv m \<longleftrightarrow> (\<forall>n s. sm_at n m = Some s \<longrightarrow> sm_inv n s)"

definition all_handles :: "agps_mgr \<Rightarrow> int set" where
  "all_handles m = (\<Union>n \<in> {AgnssNif, InternetNif}. case sm_at n m of None \<Rightarrow> {} | Some s \<Rightarrow> set (handles s))"

lemma all_handles_iff:
  "h \<in> all_handles m \<longleftrightarrow> (\<exists>n s x. sm_at n m = Some s \<and> x \<in> set (mSubscriberList s) \<and> mConnHandle x = h)"
proof -
  have "{AgnssNif, InternetNif} = UNIV" using nif.exhaust by auto
  then have "h \<in> all_handles m \<longleftrightarrow> (\<exists>n s. sm_at n m = Some s \<and> h \<in> set (handles s))"
    by (auto simp: all_handles_def split: option.splits)
  then show ?thesis by (auto simp: handles_def)
qed

fun requested :: "agps_op \<Rightarrow> int set" where
  "requested (OpMsg wds (AgpsMsgRequestATL h t k)) = {h}"
| "requested _ = {}"

definition wants_at :: "nif \<Rightarrow> agps_mgr \<Rightarrow> bool" where
  "wants_at n m \<longleftrightarrow> (\<exists>s. sm_at n m = Some s \<and> wants s)"

definition op_ok :: "(nif \<Rightarrow> bool) \<Rightarrow> int set \<Rightarrow> agps_mgr \<Rightarrow> (agps_out list \<times> agps_mgr) option \<Rightarrow> bool" where
  "op_ok ended extra m r \<longleftrightarrow>
     (\<exists>outs m'. r = Some (outs, m') \<and> mgr_inv m' \<and>
        (\<forall>n. sm_at n m \<noteq> None \<longrightarrow> sm_at n m' \<noteq> None) \<and>
        (\<forall>n. turns (ended n) (wants_at n m) (conns n outs) (wants_at n m')) \<and>
        distinct (told outs) \<and> set (told outs) \<subseteq> all_handles m \<union> extra)"

lemma sm_at_set_sm [simp]: "sm_at k (set_sm n s m) = (if k = n then Some s else sm_at k m)"
  by (cases k; cases n) auto

lemma on_sm_ok:
  assumes inv: "mgr_inv m" and s: "sm_at n m = Some s" and ev: "event_ok n e extra s (f s)" and "e \<longrightarrow> ended n"
  shows "op_ok ended extra m (map_option prod.swap (on_sm n f m))"
proof -
  obtain s' outs where e: "f s = Some (s', outs)" "sm_inv n s'"
      "turns e (wants s) (conns n outs) (wants s')"
      "\<forall>k. k \<noteq> n \<longrightarrow> conns k outs = []" "distinct (told outs)" "set (told outs) \<subseteq> set (handles s) \<union> extra"
    using ev by (auto simp: event_ok_def)
  have "set (handles s) \<subseteq> all_handles m" using s by (cases n) (auto simp: all_handles_def)
  moreover have "mgr_inv (set_sm n s' m)" using inv e(2) by (auto simp: mgr_inv_def)
  moreover have "turns (ended k) (wants_at k m) (conns k outs) (wants_at k (set_sm n s' m))" for k
    using e(3,4) s assms(4) by (cases "k = n") (auto simp: wants_at_def turns_def)
  ultimately show ?thesis using s e(1,5,6) by (auto simp: op_ok_def on_sm_def)
qed

text \<open>Changing what the invariant does not look at.\<close>

lemma event_ok_setAPN:
  assumes "sm_inv n s"
  shows "event_ok n False {} s (processAgpsEventGranted (setAPN apn len (s\<lparr>mBearer := b\<rparr>)))"
proof -
  let ?u = "setAPN apn len (s\<lparr>mBearer := b\<rparr>)"
  have eq: "mSubscriberList ?u = mSubscriberList s" "mState ?u = mState s" "mAgpsType ?u = mAgpsType s"
    by (auto simp: setAPN_def split: option.split)
  have "sm_inv n ?u" using assms by (simp add: sm_inv_def handles_def anyActiveSubscribers_def eq)
  from granted_ok [OF this] show ?thesis by (simp add: event_ok_def wants_def handles_def eq)
qed

lemma requestATL_ok:
  assumes inv: "mgr_inv m"
  shows "op_ok ended {h} m (map_option prod.swap (requestATL conf h t k m))"
proof -
  define plain where "plain = (USE_EMERGENCY_PDN conf = 0 \<and> t = LOC_AGPS_TYPE_SUPL_ES)"
  define t' where "t' = (if plain then LOC_AGPS_TYPE_SUPL else t)"
  define k' where "k' = (if plain then (k AND NOT LOC_APN_TYPE_MASK_EMERGENCY) OR LOC_APN_TYPE_MASK_SUPL else k)"
  define x where "x = \<lparr>mConnHandle = h, mWaitForCloseComplete = True, mIsInactive = False, mSubApnTypeMask = k'\<rparr>"
  let ?n = "getAgpsStateMachine t'"
  have eq: "requestATL conf h t k m =
      (if sm_at ?n m = None then Some (m, [AtlOpenStatus h False None 0 AGPS_APN_BEARER_INVALID t' k'])
       else on_sm ?n (\<lambda>s. processAgpsEventSubscribe
              (s\<lparr>mAgpsType := t', mApnTypeMask := k', mCurrentSubscriber := LocalSub x\<rparr>)) m)"
    by (simp add: requestATL_def Let_def plain_def t'_def k'_def x_def)
  show ?thesis
  proof (cases "sm_at ?n m")
    case None
    with inv show ?thesis by (auto simp: eq op_ok_def turns_Nil)
  next
    case (Some s)
    then have i: "sm_inv ?n s" using inv by (simp add: mgr_inv_def)
    have "op_ok ended {h} m (map_option prod.swap (on_sm ?n (\<lambda>s. processAgpsEventSubscribe
        (s\<lparr>mAgpsType := t', mApnTypeMask := k', mCurrentSubscriber := LocalSub x\<rparr>)) m))"
      by (rule on_sm_ok [OF inv Some, where e = False]) (simp_all add: subscribe_ok [OF i refl x_def])
    with Some show ?thesis by (simp add: eq)
  qed
qed

lemma releaseATL_ok:
  assumes inv: "mgr_inv m"
  shows "op_ok ended {} m (map_option prod.swap (releaseATL h m))"
proof -
  have call: "op_ok ended {} m (map_option prod.swap (on_sm n (\<lambda>s. processAgpsEventUnsubscribe
      (s\<lparr>mCurrentSubscriber := getSubscriber h s\<rparr>)) m))" if "holds_handle h (sm_at n m)" for n
  proof -
    from that obtain s where s: "sm_at n m = Some s" "getSubscriber h s \<noteq> NullSub"
      by (auto simp: holds_handle_def split: option.splits)
    then obtain i where i: "getSubscriber h s = ListSub i"
      using getSubscriber_not_local by (cases "getSubscriber h s") auto
    let ?u = "s\<lparr>mCurrentSubscriber := ListSub i\<rparr>"
    have "sm_inv n ?u" using inv s(1) by (simp add: mgr_inv_def sm_inv_def handles_def anyActiveSubscribers_def)
    from unsubscribe_ok [OF this, of i] getSubscriber_list [OF i]
    have "event_ok n False {} s (processAgpsEventUnsubscribe (s\<lparr>mCurrentSubscriber := getSubscriber h s\<rparr>))"
      by (simp add: i event_ok_def wants_def handles_def)
    then show ?thesis by (rule on_sm_ok [OF inv s(1)]) simp
  qed
  show ?thesis
    using call [of AgnssNif] call [of InternetNif] inv
    by (auto simp: releaseATL_def Let_def op_ok_def turns_Nil)
qed

lemma report_ok:
  assumes inv: "mgr_inv m" and nn: "sm_at (getAgpsStateMachine t) m \<noteq> None"
  shows "op_ok ended {} m (map_option prod.swap (reportAtlOpenSuccess t apn len b m))"
    and "ended (getAgpsStateMachine t) \<Longrightarrow> op_ok ended {} m (map_option prod.swap (reportAtlOpenFailed t m))"
    and "ended (getAgpsStateMachine t) \<Longrightarrow> op_ok ended {} m (map_option prod.swap (reportAtlClosed t m))"
proof -
  obtain s where s: "sm_at (getAgpsStateMachine t) m = Some s" using nn by auto
  then have i: "sm_inv (getAgpsStateMachine t) s" using inv by (simp add: mgr_inv_def)
  show "op_ok ended {} m (map_option prod.swap (reportAtlOpenSuccess t apn len b m))"
    unfolding reportAtlOpenSuccess_def
    by (rule on_sm_ok [OF inv s, where e = False]) (simp_all add: event_ok_setAPN [OF i])
  show "op_ok ended {} m (map_option prod.swap (reportAtlOpenFailed t m))" if "ended (getAgpsStateMachine t)"
    unfolding reportAtlOpenFailed_def
    by (rule on_sm_ok [OF inv s, where e = True]) (simp_all add: denied_ok [OF i] that)
  show "op_ok ended {} m (map_option prod.swap (reportAtlClosed t m))" if "ended (getAgpsStateMachine t)"
    unfolding reportAtlClosed_def
    by (rule on_sm_ok [OF inv s, where e = True]) (simp_all add: released_ok [OF i] that)
qed

lemma new_sm_inv: "getAgpsStateMachine t = n \<Longrightarrow> sm_inv n (new_AgpsStateMachine t k)"
  by (simp add: sm_inv_def new_AgpsStateMachine_def handles_def)

lemma nif_types [simp]: "getAgpsStateMachine LOC_AGPS_TYPE_WWAN_ANY = InternetNif"
  "getAgpsStateMachine LOC_AGPS_TYPE_SUPL = AgnssNif"
  by (simp_all add: getAgpsStateMachine_def LOC_AGPS_TYPE_WWAN_ANY_def LOC_AGPS_TYPE_SUPL_def
      LOC_AGPS_TYPE_INVALID_def LOC_AGPS_TYPE_SUPL_ES_def)

lemma mgr_inv_iff:
  "mgr_inv m \<longleftrightarrow> (\<forall>s. mAgnssNif m = Some s \<longrightarrow> sm_inv AgnssNif s) \<and> (\<forall>s. mInternetNif m = Some s \<longrightarrow> sm_inv InternetNif s)"
proof
  assume m: "mgr_inv m"
  from m [unfolded mgr_inv_def, rule_format, of AgnssNif] m [unfolded mgr_inv_def, rule_format, of InternetNif]
  show "(\<forall>s. mAgnssNif m = Some s \<longrightarrow> sm_inv AgnssNif s) \<and> (\<forall>s. mInternetNif m = Some s \<longrightarrow> sm_inv InternetNif s)"
    by simp
next
  assume a: "(\<forall>s. mAgnssNif m = Some s \<longrightarrow> sm_inv AgnssNif s) \<and> (\<forall>s. mInternetNif m = Some s \<longrightarrow> sm_inv InternetNif s)"
  have "sm_inv n s" if "sm_at n m = Some s" for n s using a that by (cases n) auto
  then show "mgr_inv m" by (simp add: mgr_inv_def)
qed

text \<open>An operation without callbacks that keeps or creates state machines.\<close>

lemma op_ok_silent:
  assumes "mgr_inv m'" and "\<And>n. wants_at n m' = wants_at n m"
    and "\<And>n. sm_at n m \<noteq> None \<Longrightarrow> sm_at n m' \<noteq> None"
  shows "op_ok ended extra m (Some ([], m'))"
  using assms unfolding op_ok_def by (auto simp: turns_Nil)

lemma initAgps_ok:
  assumes "mgr_inv m"
  shows "op_ok ended {} m (Some ([], initAgps conf atlType k m))"
proof (rule op_ok_silent)
  have f: "\<not> wants (new_AgpsStateMachine t k)" for t by (simp add: wants_def new_AgpsStateMachine_def)
  have i: "mInternetNif (initAgps conf atlType k m) = mInternetNif m \<or>
      mInternetNif m = None \<and> mInternetNif (initAgps conf atlType k m) = Some (new_AgpsStateMachine LOC_AGPS_TYPE_WWAN_ANY k)"
    by (auto simp: initAgps_def createAgpsStateMachines_def Let_def)
  have a: "mAgnssNif (initAgps conf atlType k m) = mAgnssNif m \<or>
      mAgnssNif m = None \<and> mAgnssNif (initAgps conf atlType k m) = Some (new_AgpsStateMachine LOC_AGPS_TYPE_SUPL k)"
    by (auto simp: initAgps_def createAgpsStateMachines_def Let_def)
  from i a assms show "mgr_inv (initAgps conf atlType k m)" by (auto simp: mgr_inv_iff new_sm_inv)
  show "wants_at n (initAgps conf atlType k m) = wants_at n m" for n
  proof (cases n)
    case AgnssNif
    from a f show ?thesis unfolding wants_at_def AgnssNif by (elim disjE) simp_all
  next
    case InternetNif
    from i f show ?thesis unfolding wants_at_def InternetNif by (elim disjE) simp_all
  qed
  show "sm_at n (initAgps conf atlType k m) \<noteq> None" if "sm_at n m \<noteq> None" for n
    using that i a by (cases n) auto
qed

lemma handleModemSSR_ok:
  assumes "mgr_inv m"
  shows "op_ok ended {} m (Some ([], handleModemSSR m))"
proof (rule op_ok_silent)
  have at: "sm_at n (handleModemSSR m) = map_option dropAllSubscribers (sm_at n m)" for n
    by (cases n) (auto simp: handleModemSSR_def)
  have "sm_inv n (dropAllSubscribers s)" if "sm_inv n s" for n s
    using that by (simp add: sm_inv_def dropAllSubscribers_def handles_def)
  then show "mgr_inv (handleModemSSR m)" using assms by (auto simp: mgr_inv_def at)
  show "wants_at n (handleModemSSR m) = wants_at n m" for n
    by (auto simp: at wants_at_def wants_def dropAllSubscribers_def)
  show "sm_at n (handleModemSSR m) \<noteq> None" if "sm_at n m \<noteq> None" for n
    using that by (simp add: at)
qed

text \<open>The reports of the framework go to a state machine that must exist.\<close>

fun has_nif :: "agps_op \<Rightarrow> agps_mgr \<Rightarrow> bool" where
  "has_nif (OpMsg wds (AgpsMsgAtlOpenSuccess t a b)) m \<longleftrightarrow> wds \<or> sm_at (getAgpsStateMachine t) m \<noteq> None"
| "has_nif (OpMsg wds (MsgReportAtlPdn p t a b)) m \<longleftrightarrow> sm_at (getAgpsStateMachine t) m \<noteq> None"
| "has_nif (OpMsg wds (AgpsMsgAtlClosed t)) m \<longleftrightarrow> sm_at (getAgpsStateMachine t) m \<noteq> None"
| "has_nif (OpMsg wds (AgpsMsgAtlOpenFailed t)) m \<longleftrightarrow> sm_at (getAgpsStateMachine t) m \<noteq> None"
| "has_nif (OpOpen t apn len b) m \<longleftrightarrow> sm_at (getAgpsStateMachine t) m \<noteq> None"
| "has_nif _ m \<longleftrightarrow> True"

lemma op_ok_same: "mgr_inv m \<Longrightarrow> op_ok ended extra m (Some ([], m))"
  by (rule op_ok_silent) auto

text \<open>The operations that report a call of an interface as failed or closed; a bad APN is one of them.\<close>

fun ends :: "agps_op \<Rightarrow> nif \<Rightarrow> bool" where
  "ends (OpMsg wds (AgpsMsgAtlClosed t)) n \<longleftrightarrow> getAgpsStateMachine t = n"
| "ends (OpMsg wds (AgpsMsgAtlOpenFailed t)) n \<longleftrightarrow> getAgpsStateMachine t = n"
| "ends (OpOpen t apn len b) n \<longleftrightarrow> getAgpsStateMachine t = n \<and>
     (case apn of None \<Rightarrow> True | Some a \<Rightarrow> len > MAX_APN_LEN \<or> int (length a) \<noteq> len)"
| "ends _ n \<longleftrightarrow> False"

lemma mgr_step_ok:
  assumes inv: "mgr_inv m" and nif: "has_nif op m"
  shows "op_ok (ends op) (requested op) m (mgr_step conf k op m)"
proof (cases op)
  case (OpMsg wds x)
  show ?thesis
  proof (cases x)
    case (AgpsMsgInit a)
    with OpMsg initAgps_ok [OF inv] show ?thesis by simp
  next
    case (AgpsMsgRequestATL h t b)
    with OpMsg requestATL_ok [OF inv] show ?thesis by simp
  next
    case (AgpsMsgReleaseATL h)
    with OpMsg releaseATL_ok [OF inv] show ?thesis by simp
  next
    case (AgpsMsgAtlOpenSuccess t a b)
    with OpMsg nif report_ok(1) [OF inv, of t] op_ok_same [OF inv] show ?thesis by (cases wds) simp_all
  next
    case (MsgReportAtlPdn p t a b)
    with OpMsg nif report_ok(1) [OF inv, of t] show ?thesis by simp
  next
    case (AgpsMsgAtlClosed t)
    with OpMsg nif report_ok(3) [OF inv, of t] show ?thesis by simp
  next
    case (AgpsMsgAtlOpenFailed t)
    with OpMsg nif report_ok(2) [OF inv, of t] show ?thesis by simp
  qed
next
  case (OpOpen t apn len b)
  have sw: "map_option (\<lambda>(_, m1, out). (out, m1)) (map_option (Pair None) r) = map_option prod.swap r"
    for r :: "(agps_mgr \<times> agps_out list) option"
    by (cases r) auto
  from OpOpen nif report_ok(3) [OF inv, of t "ends op"] op_ok_same [OF inv] show ?thesis
    by (auto simp: dataConnOpenCommand_def sw split: option.split)
next
  case OpSSR
  with handleModemSSR_ok [OF inv] show ?thesis by simp
qed

text \<open>A run is only defined while the reports find their state machine.\<close>

lemma mgr_step_has_nif: "mgr_step conf k op m \<noteq> None \<Longrightarrow>
    has_nif op m \<or> (\<exists>t apn len b. op = OpOpen t apn len b \<and> (\<exists>msg. dataConnOpenCommand t apn len b m = Some (Some msg, m, [])))"
proof (cases op)
  case (OpMsg wds x)
  assume "mgr_step conf k op m \<noteq> None"
  with OpMsg show ?thesis
    by (cases x) (auto simp: reportAtlOpenSuccess_def reportAtlOpenFailed_def reportAtlClosed_def on_sm_def
        split: option.splits if_splits)
next
  case (OpOpen t apn len b)
  assume "mgr_step conf k op m \<noteq> None"
  with OpOpen show ?thesis
    by (auto simp: reportAtlClosed_def on_sm_def dataConnOpenCommand_def split: option.splits if_splits)
qed simp

lemma mgr_step_run_ok:
  assumes inv: "mgr_inv m" and st: "mgr_step conf k op m = Some (outs, m')"
  shows "op_ok (ends op) (requested op) m (Some (outs, m'))"
proof -
  from mgr_step_has_nif [of conf k op m] st consider "has_nif op m"
    | t apn len b msg where "op = OpOpen t apn len b" "dataConnOpenCommand t apn len b m = Some (Some msg, m, [])"
    by auto
  then show ?thesis
  proof cases
    case 1
    from mgr_step_ok [OF inv this, of conf k] st show ?thesis by simp
  next
    case 2
    with st op_ok_same [OF inv] show ?thesis by auto
  qed
qed

text \<open>
  What happens to the connection of an interface over a run, in order: requests (Some True), releases
  (Some False) and reports that the call failed or was closed (None). \<open>follow_conn\<close> checks the order. It
  keeps whether the last word of the manager was a request, and whether the framework has reported
  since then that the call is gone: a request must not follow a request unless the call was reported
  gone in between, and a release must follow a request.
\<close>

definition conn_trace :: "nif \<Rightarrow> agps_op list \<Rightarrow> agps_out list list \<Rightarrow> bool option list" where
  "conn_trace n ops outs =
     concat (map2 (\<lambda>op out. (if ends op n then [None] else []) @ map Some (conns n out)) ops outs)"

fun follow_conn :: "bool \<times> bool \<Rightarrow> bool option list \<Rightarrow> (bool \<times> bool) option" where
  "follow_conn (asked, gone) [] = Some (asked, gone)"
| "follow_conn (asked, gone) (None # es) = follow_conn (asked, True) es"
| "follow_conn (asked, gone) (Some True # es) = (if asked \<and> \<not> gone then None else follow_conn (True, False) es)"
| "follow_conn (asked, gone) (Some False # es) = (if asked then follow_conn (False, False) es else None)"

lemma follow_conn_append: "follow_conn x (es @ es') = Option.bind (follow_conn x es) (\<lambda>y. follow_conn y es')"
  by (induction x es rule: follow_conn.induct) auto

text \<open>How the state of a state machine and what was said about the connection fit together.\<close>

definition conn_fits :: "bool \<Rightarrow> bool \<times> bool \<Rightarrow> bool" where
  "conn_fits w x \<longleftrightarrow> (if w then fst x else fst x \<longrightarrow> snd x)"

lemma follow_in_turn:
  "in_turn w rs = Some w' \<Longrightarrow> conn_fits w x \<Longrightarrow> \<exists>y. follow_conn x (map Some rs) = Some y \<and> conn_fits w' y"
proof (induction rs arbitrary: w x)
  case Nil
  then show ?case by (cases x) auto
next
  case (Cons b rs)
  obtain a g where x: "x = (a, g)" by force
  from Cons.prems have b: "b \<noteq> w" "in_turn b rs = Some w'" by (auto split: if_splits)
  from Cons.IH [OF b(2), of "(b, False)"] b(1) Cons.prems(2) show ?case
    by (cases b) (auto simp: x conn_fits_def)
qed

lemma follow_turns:
  assumes "turns e w rs w'" and "conn_fits w x"
  shows "\<exists>y. follow_conn x ((if e then [None] else []) @ map Some rs) = Some y \<and> conn_fits w' y"
proof -
  obtain a g where x: "x = (a, g)" by force
  have "conn_fits w (a, True)" "conn_fits False (a, True)" using assms(2) by (auto simp: x conn_fits_def split: if_splits)
  with assms show ?thesis using follow_in_turn by (auto simp: turns_def x)
qed

lemma mgr_run_ok:
  assumes "mgr_inv m" and "run_ops (mgr_step conf k) ops m = Some (outs, m')"
  shows "mgr_inv m' \<and> (\<forall>n x. conn_fits (wants_at n m) x \<longrightarrow>
    (\<exists>y. follow_conn x (conn_trace n ops outs) = Some y \<and> conn_fits (wants_at n m') y))"
  using assms
proof (induction ops arbitrary: m outs)
  case Nil
  then show ?case by (auto simp: conn_trace_def)
next
  case (Cons op ops)
  then obtain o1 m1 os where s: "mgr_step conf k op m = Some (o1, m1)" "run_ops (mgr_step conf k) ops m1 = Some (os, m')"
      "outs = o1 # os" by (auto split: option.splits)
  from mgr_step_run_ok [OF Cons.prems(1) s(1)] have m1: "mgr_inv m1"
      "\<And>n. turns (ends op n) (wants_at n m) (conns n o1) (wants_at n m1)"
    by (auto simp: op_ok_def)
  note IH = Cons.IH [OF m1(1) s(2)]
  have "\<exists>y. follow_conn x (conn_trace n (op # ops) outs) = Some y \<and> conn_fits (wants_at n m') y"
    if fits: "conn_fits (wants_at n m) x" for n x
  proof -
    from follow_turns [OF m1(2) fits] obtain y where
      y: "follow_conn x ((if ends op n then [None] else []) @ map Some (conns n o1)) = Some y" "conn_fits (wants_at n m1) y"
      by blast
    then have "follow_conn x (conn_trace n (op # ops) outs) = follow_conn y (conn_trace n ops os)"
      by (simp add: conn_trace_def s(3) follow_conn_append flip: append_assoc)
    moreover have "\<exists>z. follow_conn y (conn_trace n ops os) = Some z \<and> conn_fits (wants_at n m') z" using IH y(2) by blast
    ultimately show ?thesis by simp
  qed
  with IH show ?case by blast
qed

definition agps_start :: agps_mgr where
  "agps_start = \<lparr>mAgnssNif = None, mInternetNif = None\<rparr>"

lemma agps_start_inv: "mgr_inv agps_start" "\<not> wants_at n agps_start"
  by (simp add: mgr_inv_iff agps_start_def) (cases n; simp add: agps_start_def wants_at_def)

section \<open>Properties\<close>

text \<open>
  A run that brings the SUPL interface to life: two clients subscribe, the call is opened, one
  leaves, then the other, and the framework closes the call.
\<close>

definition demo_conf :: agps_conf where
  "demo_conf = \<lparr>CAPABILITIES = 0x17, USE_EMERGENCY_PDN = 1\<rparr>"

definition demo_ops :: "agps_op list" where
  "demo_ops = [OpMsg False (AgpsMsgInit 7), OpMsg False (AgpsMsgRequestATL 1 1 0x10),
     OpMsg False (AgpsMsgRequestATL 2 1 0x10), OpOpen 1 (Some ''supl'') 4 3,
     OpMsg False (AgpsMsgAtlOpenSuccess 1 ''supl'' 3), OpMsg False (AgpsMsgReleaseATL 1),
     OpMsg False (AgpsMsgReleaseATL 2)]"

lemma demo_run_conns:
  "map_option (\<lambda>(outs, m). conns AgnssNif (concat outs)) (run_ops (mgr_step demo_conf 0) demo_ops agps_start)
     = Some [True, False]"
  by code_simp

lemma demo_run:
  obtains outs m where "run_ops (mgr_step demo_conf 0) demo_ops agps_start = Some (outs, m)"
    "conns AgnssNif (concat outs) = [True, False]"
  using demo_run_conns by auto

lemma agps_run_inv: "run_ops (mgr_step conf k) ops agps_start = Some (outs, m) \<Longrightarrow> mgr_inv m"
  using mgr_run_ok [OF agps_start_inv(1)] by blast

text \<open>C27. After any sequence of messages, framework reports and modem restarts every state machine is
consistent: its type belongs to its interface, its state is valid, no handle is subscribed twice,
every subscriber waits for the close to complete, nobody is subscribed while the connection is
released, and while it is wanted one of the subscribers (if there are any) is active. From there
every further operation is defined, with neither NULL nor freed memory followed, provided the
reports of the framework concern an interface that was created.\<close>

theorem agps_consistent:
  assumes run: "run_ops (mgr_step conf k) ops agps_start = Some (outs, m)"
  shows "(\<forall>n s. sm_at n m = Some s \<longrightarrow>
      getAgpsStateMachine (mAgpsType s) = n \<and> mState s \<noteq> AGPS_STATE_INVALID \<and>
      distinct (map mConnHandle (mSubscriberList s)) \<and>
      (\<forall>x \<in> set (mSubscriberList s). mWaitForCloseComplete x) \<and>
      (mState s = AGPS_STATE_RELEASED \<longrightarrow> mSubscriberList s = []) \<and>
      (mState s \<in> {AGPS_STATE_PENDING, AGPS_STATE_ACQUIRED} \<and> mSubscriberList s \<noteq> [] \<longrightarrow> anyActiveSubscribers s)) \<and>
    (\<forall>op. has_nif op m \<longrightarrow> mgr_step conf k op m \<noteq> None)"
proof (intro conjI allI impI)
  note inv = agps_run_inv [OF run]
  show "mgr_step conf k op m \<noteq> None" if "has_nif op m" for op
    using mgr_step_ok [OF inv that, of conf k] by (auto simp: op_ok_def)
qed (use agps_run_inv [OF run] in \<open>auto simp: mgr_inv_def sm_inv_def handles_def\<close>)

lemma agps_consistent_witness:
  "\<exists>outs m. run_ops (mgr_step demo_conf 0) demo_ops agps_start = Some (outs, m) \<and>
     (\<forall>s. mAgnssNif m = Some s \<longrightarrow> distinct (map mConnHandle (mSubscriberList s)))"
proof -
  obtain outs m where r: "run_ops (mgr_step demo_conf 0) demo_ops agps_start = Some (outs, m)"
    by (rule demo_run)
  from agps_consistent [OF r] have "\<forall>s. sm_at AgnssNif m = Some s \<longrightarrow> distinct (map mConnHandle (mSubscriberList s))"
    by blast
  with r show ?thesis by auto
qed

text \<open>C28. The framework sees an orderly protocol on each interface: over a whole run, the manager asks for
the data connection a second time only after it has released it or the framework has reported (by a
failure, a closed call or a bad APN) that the call is gone; it releases the connection only when its
last word was a request, so never twice in a row. While a state machine is pending or has acquired the
connection the last word was a request, and in the other states it was not, unless the call was
reported gone since.\<close>

theorem agps_conn_protocol:
  assumes run: "run_ops (mgr_step conf k) ops agps_start = Some (outs, m)"
  shows "\<exists>asked gone. follow_conn (False, False) (conn_trace n ops outs) = Some (asked, gone) \<and>
    (\<forall>s. sm_at n m = Some s \<longrightarrow>
      (if mState s \<in> {AGPS_STATE_PENDING, AGPS_STATE_ACQUIRED} then asked else asked \<longrightarrow> gone))"
proof -
  have "conn_fits (wants_at n agps_start) (False, False)" using agps_start_inv(2) by (simp add: conn_fits_def)
  with mgr_run_ok [OF agps_start_inv(1) run] obtain y where
    "follow_conn (False, False) (conn_trace n ops outs) = Some y" "conn_fits (wants_at n m) y" by blast
  then show ?thesis by (cases y) (auto simp: conn_fits_def wants_at_def wants_def)
qed

text \<open>A client asks, the call fails, and another one asks: two requests, with the report between them.\<close>

definition retry_ops :: "agps_op list" where
  "retry_ops = [OpMsg False (AgpsMsgInit 7), OpMsg False (AgpsMsgRequestATL 1 1 0x10), OpMsg False (AgpsMsgAtlOpenFailed 1),
     OpMsg False (AgpsMsgRequestATL 2 1 0x10)]"

lemma agps_conn_protocol_witness:
  "\<exists>outs m. run_ops (mgr_step demo_conf 0) retry_ops agps_start = Some (outs, m) \<and>
     conn_trace AgnssNif retry_ops outs = [Some True, None, Some True] \<and>
     follow_conn (False, False) (conn_trace AgnssNif retry_ops outs) = Some (True, False) \<and>
     follow_conn (False, False) [Some True, Some True] = None"
proof -
  have "map_option (\<lambda>(outs, m). conn_trace AgnssNif retry_ops outs) (run_ops (mgr_step demo_conf 0) retry_ops agps_start)
      = Some [Some True, None, Some True]" by code_simp
  then obtain outs m where r: "run_ops (mgr_step demo_conf 0) retry_ops agps_start = Some (outs, m)"
      and c: "conn_trace AgnssNif retry_ops outs = [Some True, None, Some True]" by auto
  from agps_conn_protocol [OF r, of AgnssNif] r c show ?thesis by simp
qed

text \<open>No operation tells a client twice, or tells anybody but the clients that are subscribed and the
one that is asking.\<close>

theorem agps_told_once:
  assumes run: "run_ops (mgr_step conf k) ops agps_start = Some (outs, m)"
    and step: "mgr_step conf k op m = Some (new, m')"
  shows "distinct (told new) \<and>
    (\<forall>h \<in> set (told new). (\<exists>n s x. sm_at n m = Some s \<and> x \<in> set (mSubscriberList s) \<and> mConnHandle x = h) \<or>
       (\<exists>wds t b. op = OpMsg wds (AgpsMsgRequestATL h t b)))"
proof -
  have "op_ok (ends op) (requested op) m (Some (new, m'))" by (rule mgr_step_run_ok [OF agps_run_inv [OF run] step])
  then have d: "distinct (told new)" "set (told new) \<subseteq> all_handles m \<union> requested op" by (auto simp: op_ok_def)
  have "h \<in> requested op \<Longrightarrow> \<exists>wds t b. op = OpMsg wds (AgpsMsgRequestATL h t b)" for h
    by (cases op rule: requested.cases) auto
  moreover have "h \<in> all_handles m \<Longrightarrow> \<exists>n s x. sm_at n m = Some s \<and> x \<in> set (mSubscriberList s) \<and> mConnHandle x = h" for h
    using all_handles_iff by simp
  ultimately show ?thesis using d by blast
qed

lemma agps_told_once_witness:
  "\<exists>outs m new m'. run_ops (mgr_step demo_conf 0) (take 4 demo_ops) agps_start = Some (outs, m) \<and>
     mgr_step demo_conf 0 (demo_ops ! 4) m = Some (new, m') \<and> distinct (told new)"
proof -
  obtain outs m new m' where r: "run_ops (mgr_step demo_conf 0) (take 4 demo_ops) agps_start = Some (outs, m)"
      "mgr_step demo_conf 0 (demo_ops ! 4) m = Some (new, m')"
  proof -
    have "Option.bind (run_ops (mgr_step demo_conf 0) (take 4 demo_ops) agps_start)
        (\<lambda>(outs, m). mgr_step demo_conf 0 (demo_ops ! 4) m) \<noteq> None"
      by code_simp
    then show ?thesis using that by (auto simp: bind_eq_Some_conv)
  qed
  from agps_told_once [OF r] r show ?thesis by blast
qed

text \<open>When the framework has opened the connection (and no WDS library is asked for the PDN type), a
pending state machine acquires it: exactly its active subscribers are told, in the order of
subscription, with the APN, its length and the bearer; the list stays as it was.\<close>

theorem agps_granted:
  assumes s: "sm_at (getAgpsStateMachine t) m = Some s" and st: "mState s = AGPS_STATE_PENDING"
    and len: "length apn \<le> 100"
  shows "agps_msg_proc conf k False (AgpsMsgAtlOpenSuccess t apn b) m =
    Some (set_sm (getAgpsStateMachine t)
            (s\<lparr>mBearer := b, mAPN := Some apn, mAPNLen := length apn, mState := AGPS_STATE_ACQUIRED\<rparr>) m,
          map (\<lambda>x. AtlOpenStatus (mConnHandle x) True (Some apn) (length apn) b (mAgpsType s) (mApnTypeMask s))
            (filter (\<lambda>x. \<not> mIsInactive x) (mSubscriberList s)))"
proof -
  have b: "length apn < 2 ^ LENGTH(32)" using len by simp
  then have w: "uint (word_of_int (int (length apn)) :: u32) = int (length apn)"
    by (simp only: of_int_of_nat_eq unsigned_of_nat take_bit_nat_eq_self)
  then have w': "unat (word_of_int (int (length apn)) :: u32) = length apn"
    by (metis nat_int unat_eq_nat_uint)
  have c: "concat (map (\<lambda>x. [f x]) xs) = map f xs" for f :: "subscriber \<Rightarrow> agps_out" and xs
    by (induction xs) auto
  have n: "notify_matches AGPS_NOTIFICATION_TYPE_FOR_ACTIVE_SUBSCRIBERS = (\<lambda>x. \<not> mIsInactive x)" by auto
  show ?thesis
    using s st len
    by (simp add: reportAtlOpenSuccess_def on_sm_def setAPN_def w [simplified] w' [simplified] MAX_APN_LEN_def processAgpsEventGranted_def
        event_defs notification_def c n)
qed

definition demo_mgr :: "agps_state \<Rightarrow> agps_mgr" where
  "demo_mgr st = \<lparr>mAgnssNif = None, mInternetNif = Some \<lparr>mSubscriberList =
       [\<lparr>mConnHandle = 7, mWaitForCloseComplete = True, mIsInactive = True, mSubApnTypeMask = 1\<rparr>,
        \<lparr>mConnHandle = 8, mWaitForCloseComplete = True, mIsInactive = False, mSubApnTypeMask = 1\<rparr>],
      mCurrentSubscriber = NullSub, mState = st, mAgpsType = LOC_AGPS_TYPE_WWAN_ANY, mApnTypeMask = 1,
      mAPN = None, mAPNLen = 0, mBearer = AGPS_APN_BEARER_INVALID\<rparr>\<rparr>"

lemma agps_granted_witness:
  "map_option snd (agps_msg_proc demo_conf 0 False (AgpsMsgAtlOpenSuccess LOC_AGPS_TYPE_WWAN_ANY ''net'' 2) (demo_mgr AGPS_STATE_PENDING))
     = Some [AtlOpenStatus 8 True (Some ''net'') 3 2 LOC_AGPS_TYPE_WWAN_ANY 1]"
  by (subst agps_granted [where s = "the (mInternetNif (demo_mgr AGPS_STATE_PENDING))"]) (simp_all add: demo_mgr_def)

text \<open>When the framework reports a call closed, or failed, while the connection is being released,
exactly the inactive subscribers are told (successfully closed) and removed; if active ones are
left the connection is requested again for them, otherwise the machine is released.\<close>

theorem agps_release_completed:
  assumes s: "sm_at (getAgpsStateMachine t) m = Some s" and st: "mState s = AGPS_STATE_RELEASING"
    and x: "x = AgpsMsgAtlClosed t \<or> x = AgpsMsgAtlOpenFailed t"
  shows "agps_msg_proc conf k wds x m =
    (let active = filter (\<lambda>x. \<not> mIsInactive x) (mSubscriberList s);
         closed = map (\<lambda>x. AtlCloseStatus (mConnHandle x) True) (filter mIsInactive (mSubscriberList s));
         again = active \<noteq> []
     in Some (set_sm (getAgpsStateMachine t)
            (s\<lparr>mSubscriberList := active, mState := if again then AGPS_STATE_PENDING else AGPS_STATE_RELEASED\<rparr>) m,
          closed @ (if again then [DataConn True (mAgpsType s) (mApnTypeMask s)] else [])))"
proof -
  have c: "concat (map (\<lambda>x. [f x]) xs) = map f xs" for f :: "subscriber \<Rightarrow> agps_out" and xs
    by (induction xs) auto
  have n: "notify_matches AGPS_NOTIFICATION_TYPE_FOR_INACTIVE_SUBSCRIBERS = mIsInactive" by auto
  have a: "anyActiveSubscribers (s\<lparr>mSubscriberList := filter (\<lambda>x. \<not> mIsInactive x) (mSubscriberList s)\<rparr>) \<longleftrightarrow>
      filter (\<lambda>x. \<not> mIsInactive x) (mSubscriberList s) \<noteq> []"
    by (auto simp: anyActiveSubscribers_def filter_empty_conv)
  have "release_done s = Some (s\<lparr>mSubscriberList := filter (\<lambda>x. \<not> mIsInactive x) (mSubscriberList s),
      mState := if filter (\<lambda>x. \<not> mIsInactive x) (mSubscriberList s) \<noteq> [] then AGPS_STATE_PENDING else AGPS_STATE_RELEASED\<rparr>,
      map (\<lambda>x. AtlCloseStatus (mConnHandle x) True) (filter mIsInactive (mSubscriberList s)) @
      (if filter (\<lambda>x. \<not> mIsInactive x) (mSubscriberList s) \<noteq> [] then [DataConn True (mAgpsType s) (mApnTypeMask s)] else []))"
    by (simp add: release_done_def event_defs notification_def c a n)
  then show ?thesis
    using s st x
    by (auto simp: reportAtlClosed_def reportAtlOpenFailed_def on_sm_def processAgpsEventReleased_def
        processAgpsEventDenied_def Let_def)
qed

lemma agps_release_completed_witness:
  "map_option snd (agps_msg_proc demo_conf 0 True (AgpsMsgAtlClosed LOC_AGPS_TYPE_WWAN_ANY) (demo_mgr AGPS_STATE_RELEASING))
     = Some [AtlCloseStatus 7 True, DataConn True LOC_AGPS_TYPE_WWAN_ANY 1]"
  by (subst agps_release_completed [where s = "the (mInternetNif (demo_mgr AGPS_STATE_RELEASING))" and t = LOC_AGPS_TYPE_WWAN_ANY])
    (simp_all add: demo_mgr_def)

text \<open>A data connection that the framework reports open with a bad APN (none, one longer than 100
characters, or one whose length is not the length given) while the machine is pending is
reported to nobody: the manager is left as it was, without a callback.\<close>

theorem agps_bad_apn_ignored:
  assumes s: "sm_at (getAgpsStateMachine t) m = Some s" and st: "mState s = AGPS_STATE_PENDING"
    and bad: "case apn of None \<Rightarrow> True | Some a \<Rightarrow> len > 100 \<or> int (length a) \<noteq> len"
  shows "dataConnOpenCommand t apn len b m = Some (None, m, [])"
proof -
  have "set_sm n s m = m" if "sm_at n m = Some s" for n using that by (cases n) auto
  then show ?thesis
    using s st bad
    by (auto simp: dataConnOpenCommand_def reportAtlClosed_def on_sm_def processAgpsEventReleased_def event_defs
        MAX_APN_LEN_def split: option.splits)
qed

lemma agps_bad_apn_ignored_witness:
  "dataConnOpenCommand LOC_AGPS_TYPE_WWAN_ANY (Some ''net'') 4 2 (demo_mgr AGPS_STATE_PENDING) =
     Some (None, demo_mgr AGPS_STATE_PENDING, [])"
  by (rule agps_bad_apn_ignored [where s = "the (mInternetNif (demo_mgr AGPS_STATE_PENDING))"]) (simp_all add: demo_mgr_def)

text \<open>Whether a callback tells a client the outcome of opening the connection.\<close>

fun open_told :: "int \<Rightarrow> bool \<Rightarrow> agps_out \<Rightarrow> bool" where
  "open_told h ok (AtlOpenStatus h' ok' a l c t k) \<longleftrightarrow> h' = h \<and> ok' = ok"
| "open_told h ok _ \<longleftrightarrow> False"

text \<open>A client that is not subscribed and asks for a connection on an interface that was created gets
it: at once when it is already acquired, and otherwise once the framework has reported the call
open, after the end of a release that may be going on; nothing tells it of a failure.\<close>

theorem agps_request_served:
  assumes run: "run_ops (mgr_step conf k) ops agps_start = Some (outs, m)"
    and emergency: "USE_EMERGENCY_PDN conf \<noteq> 0"
    and s: "sm_at (getAgpsStateMachine t) m = Some s"
    and fresh: "h \<notin> set (map mConnHandle (mSubscriberList s))"
  shows "\<exists>new m'. run_ops (mgr_step conf k)
      ([OpMsg False (AgpsMsgRequestATL h t b)] @
       (if mState s = AGPS_STATE_RELEASING then [OpMsg False (AgpsMsgAtlClosed t)] else []) @
       [OpMsg False (AgpsMsgAtlOpenSuccess t apn br)]) m = Some (new, m') \<and>
     list_ex (open_told h True) (concat new) \<and> \<not> list_ex (open_told h False) (concat new)"
proof -
  have inv: "sm_inv (getAgpsStateMachine t) s" using agps_run_inv [OF run] s by (simp add: mgr_inv_def)
  have nt: "notification AGPS_EVENT_GRANTED x u = [AtlOpenStatus (mConnHandle x) True (mAPN u) (mAPNLen u) (mBearer u) (mAgpsType u) (mApnTypeMask u)]"
    "notification AGPS_EVENT_RELEASED x u = [AtlCloseStatus (mConnHandle x) True]" for x u
    by (simp_all add: notification_def)
  have ap: "mSubscriberList (setAPN a l u) = mSubscriberList u" "mState (setAPN a l u) = mState u" for a l u
    by (auto simp: setAPN_def split: option.split)
  show ?thesis
    using inv s fresh emergency
    by (cases "mState s")
      (auto simp: requestATL_def on_sm_def processAgpsEventSubscribe_def event_defs addSubscriber_def sm_inv_def
        reportAtlOpenSuccess_def processAgpsEventGranted_def reportAtlClosed_def processAgpsEventReleased_def
        release_done_def anyActiveSubscribers_def notifyEventToSubscriber_def nt ap list_ex_iff)
qed

lemma agps_request_served_witness:
  "\<exists>outs m new m'. run_ops (mgr_step demo_conf 0) (take 5 demo_ops) agps_start = Some (outs, m) \<and>
     run_ops (mgr_step demo_conf 0) [OpMsg False (AgpsMsgRequestATL 9 1 0x10),
       OpMsg False (AgpsMsgAtlOpenSuccess 1 ''supl'' 3)] m = Some (new, m') \<and>
     list_ex (open_told 9 True) (concat new)"
proof -
  obtain outs m s where r: "run_ops (mgr_step demo_conf 0) (take 5 demo_ops) agps_start = Some (outs, m)"
      "sm_at (getAgpsStateMachine 1) m = Some s" "9 \<notin> set (map mConnHandle (mSubscriberList s))"
      "mState s \<noteq> AGPS_STATE_RELEASING"
  proof -
    have "case run_ops (mgr_step demo_conf 0) (take 5 demo_ops) agps_start of None \<Rightarrow> False
        | Some (outs, m) \<Rightarrow> (case sm_at (getAgpsStateMachine 1) m of None \<Rightarrow> False
            | Some s \<Rightarrow> 9 \<notin> set (map mConnHandle (mSubscriberList s)) \<and> mState s \<noteq> AGPS_STATE_RELEASING)"
      by code_simp
    then show ?thesis using that by (auto split: option.splits)
  qed
  have "USE_EMERGENCY_PDN demo_conf \<noteq> 0" by (simp add: demo_conf_def)
  from agps_request_served [OF r(1) this r(2,3), of "0x10" "''supl''" 3] r show ?thesis by auto
qed

end
