(* ===== verification/Loc_Map.thy ===== *)
theory Loc_Map
  imports Loc_Prelude
begin

text \<open>
  The maps of the adapters: std::map kept as the list of its entries in the order of the keys, which
  is the order in which the code iterates. A locale states what the clients rely on; it is
  interpreted on the list operations. It also holds the keys of the sessions, ordered as the
  code orders them.
\<close>

section \<open>Operations\<close>

type_synonym ('k, 'v) omap = "('k \<times> 'v) list"

abbreviation om_find :: "('k, 'v) omap \<Rightarrow> 'k \<Rightarrow> 'v option" where
  "om_find \<equiv> map_of"

fun om_put :: "'k::linorder \<Rightarrow> 'v \<Rightarrow> ('k, 'v) omap \<Rightarrow> ('k, 'v) omap" where
  "om_put k v [] = [(k, v)]"
| "om_put k v ((k', v') # xs) =
     (if k < k' then (k, v) # (k', v') # xs
      else if k = k' then (k, v) # xs
      else (k', v') # om_put k v xs)"

fun om_erase :: "'k \<Rightarrow> ('k, 'v) omap \<Rightarrow> ('k, 'v) omap" where
  "om_erase k [] = []"
| "om_erase k ((k', v') # xs) = (if k = k' then xs else (k', v') # om_erase k xs)"

text \<open>An update of the value of a key that is there, as through an iterator.\<close>

definition om_upd :: "'k \<Rightarrow> ('v \<Rightarrow> 'v) \<Rightarrow> ('k, 'v) omap \<Rightarrow> ('k, 'v) omap" where
  "om_upd k f xs = map (\<lambda>(k', v). (k', if k' = k then f v else v)) xs"

definition om_ok :: "('k::linorder, 'v) omap \<Rightarrow> bool" where
  "om_ok xs \<longleftrightarrow> sorted_wrt (<) (map fst xs)"

section \<open>Laws\<close>

lemma om_ok_simps [simp]: "om_ok []" "om_ok ((k, v) # xs) \<longleftrightarrow> (\<forall>x \<in> fst ` set xs. k < x) \<and> om_ok xs"
  by (auto simp: om_ok_def)

lemma om_ok_distinct: "om_ok xs \<Longrightarrow> distinct (map fst xs)"
  by (induction xs) force+

lemma keys_om_put: "fst ` set (om_put k v xs) = insert k (fst ` set xs)"
  by (induction k v xs rule: om_put.induct) auto

lemma keys_om_erase: "fst ` set (om_erase k xs) \<subseteq> fst ` set xs"
  by (induction xs rule: om_erase.induct) auto

lemma om_ok_put [simp]: "om_ok xs \<Longrightarrow> om_ok (om_put k v xs)"
  by (induction k v xs rule: om_put.induct) (auto simp: keys_om_put less_le)

lemma om_ok_erase [simp]: "om_ok xs \<Longrightarrow> om_ok (om_erase k xs)"
proof (induction xs rule: om_erase.induct)
  case (2 k k' v' xs)
  then have "k' < x" if "x \<in> fst ` set (om_erase k xs)" for x
    using subsetD [OF keys_om_erase that] by auto
  with 2 show ?case by auto
qed simp

lemma fst_om_upd [simp]: "map fst (om_upd k f xs) = map fst xs"
  by (induction xs) (auto simp: om_upd_def)

lemma om_ok_upd [simp]: "om_ok (om_upd k f xs) = om_ok xs"
  by (simp add: om_ok_def)

lemma find_put [simp]: "om_find (om_put k v xs) = (om_find xs)(k \<mapsto> v)"
  by (induction k v xs rule: om_put.induct) (auto simp: fun_upd_twist)

lemma find_erase [simp]: "om_ok xs \<Longrightarrow> om_find (om_erase k xs) = (om_find xs)(k := None)"
proof (induction xs rule: om_erase.induct)
  case (2 k k' v' xs)
  then have "k' \<notin> fst ` set xs" by auto
  then have "map_of xs k' = None" by (simp add: map_of_eq_None_iff)
  with 2 show ?case by (auto simp: fun_upd_twist)
qed auto

lemma find_upd [simp]: "om_find (om_upd k f xs) = (om_find xs)(k := map_option f (om_find xs k))"
  by (induction xs) (auto simp: om_upd_def fun_eq_iff)

lemma find_iff_mem: "om_ok xs \<Longrightarrow> om_find xs k = Some v \<longleftrightarrow> (k, v) \<in> set xs"
  using om_ok_distinct by (fastforce intro: map_of_is_SomeI dest: map_of_SomeD)

lemma find_filter: "om_find (filter (\<lambda>(k, v). P k) xs) k = (if P k then om_find xs k else None)"
  by (induction xs) auto

lemma om_ok_filter: "om_ok xs \<Longrightarrow> om_ok (filter P xs)"
  by (induction xs) auto

lemma length_put: "om_ok xs \<Longrightarrow> length (om_put k v xs) = (if om_find xs k = None then Suc (length xs) else length xs)"
  by (induction k v xs rule: om_put.induct) (auto dest!: map_of_SomeD)

lemma length_om_erase: "length (om_erase k xs) \<le> length xs"
  by (induction xs rule: om_erase.induct) auto

lemma length_erase: "om_ok m \<Longrightarrow> om_find m k \<noteq> None \<Longrightarrow> Suc (length (om_erase k m)) = length m"
  by (induction m rule: om_erase.induct) auto

lemma om_put_not_Nil [simp]: "om_put k v xs \<noteq> []"
  by (induction k v xs rule: om_put.induct) auto

lemma find_first: "om_ok (x # xs) \<Longrightarrow> om_find (x # xs) j = Some w \<Longrightarrow> fst x \<le> j"
  by (cases x) (auto split: if_splits dest!: map_of_SomeD)

lemma om_eqI: "om_ok xs \<Longrightarrow> om_ok ys \<Longrightarrow> om_find xs = om_find ys \<Longrightarrow> xs = ys"
proof (induction xs arbitrary: ys)
  case Nil
  then have "om_find ys j = None" for j by (metis map_of.simps(1))
  then show ?case by (metis fst_conv list.exhaust map_of_Cons_code(2) option.distinct(1) prod.exhaust)
next
  case (Cons x xs)
  obtain k v where x: "x = (k, v)" by force
  have f: "om_find (x # xs) k = Some v" by (simp add: x)
  with Cons.prems(3) have fy: "om_find ys k = Some v" by (simp only:)
  then obtain k' v' zs where ys: "ys = (k', v') # zs" by (cases ys) auto
  have fx: "om_find (x # xs) k' = Some v'" using fun_cong [OF Cons.prems(3), of k'] by (simp add: ys)
  from find_first [OF Cons.prems(1) fx] find_first [of "(k', v')" zs k v] Cons.prems(2) fy
  have k: "k' = k" by (simp add: x ys)
  with fy have v: "v' = v" by (simp add: ys)
  have n: "om_find xs k = None" "om_find zs k = None"
    using Cons.prems(1,2) by (auto simp: x ys k map_of_eq_None_iff)
  have "om_find xs j = om_find zs j" for j
    using fun_cong [OF Cons.prems(3), of j] n by (cases "j = k") (simp_all add: x ys k v)
  with Cons.IH [of zs] Cons.prems(1,2) show ?case by (simp add: x ys k v fun_eq_iff)
qed

section \<open>The contract of a map\<close>

locale finite_map =
  fixes ok :: "'m \<Rightarrow> bool"
    and find :: "'m \<Rightarrow> 'k \<Rightarrow> 'v option"
    and put :: "'k \<Rightarrow> 'v \<Rightarrow> 'm \<Rightarrow> 'm"
    and erase :: "'k \<Rightarrow> 'm \<Rightarrow> 'm"
  assumes ok_put: "ok m \<Longrightarrow> ok (put k v m)"
    and ok_erase: "ok m \<Longrightarrow> ok (erase k m)"
    and find_put: "ok m \<Longrightarrow> find (put k v m) = (find m)(k \<mapsto> v)"
    and find_erase: "ok m \<Longrightarrow> find (erase k m) = (find m)(k := None)"
    and find_eqI: "ok m \<Longrightarrow> ok m' \<Longrightarrow> find m = find m' \<Longrightarrow> m = m'"
begin

lemma put_put: "ok m \<Longrightarrow> put k v (put k w m) = put k v m"
  by (rule find_eqI) (simp_all add: ok_put find_put)

lemma erase_put: "ok m \<Longrightarrow> find m k = None \<Longrightarrow> erase k (put k v m) = m"
  by (rule find_eqI) (auto simp: ok_put ok_erase find_put find_erase)

lemma put_commute: "ok m \<Longrightarrow> j \<noteq> k \<Longrightarrow> put j v (put k w m) = put k w (put j v m)"
  by (rule find_eqI) (auto simp: ok_put find_put fun_upd_twist)

lemma put_same: "ok m \<Longrightarrow> find m k = Some v \<Longrightarrow> put k v m = m"
  by (rule find_eqI) (auto simp: ok_put find_put)

lemma erase_absent: "ok m \<Longrightarrow> find m k = None \<Longrightarrow> erase k m = m"
  by (rule find_eqI) (auto simp: ok_erase find_erase)

end

interpretation om: finite_map "om_ok :: ('k::linorder, 'v) omap \<Rightarrow> bool" om_find om_put om_erase
  by unfold_locales (auto intro: om_eqI)

section \<open>Keys of sessions\<close>

text \<open>LocationSessionKey and GeofenceKey: compared by the id first, then by the client.\<close>

datatype session_key = SessionKey (key_client: addr) (key_id: u32)

definition key_before :: "session_key \<Rightarrow> session_key \<Rightarrow> bool" where
  "key_before l r \<longleftrightarrow> key_id l < key_id r \<or> key_id l = key_id r \<and> key_client l < key_client r"

instantiation session_key :: linorder
begin

definition less_session_key :: "session_key \<Rightarrow> session_key \<Rightarrow> bool" where
  "less_session_key l r \<longleftrightarrow> key_before l r"

definition less_eq_session_key :: "session_key \<Rightarrow> session_key \<Rightarrow> bool" where
  "less_eq_session_key l r \<longleftrightarrow> l < r \<or> l = (r :: session_key)"

instance
proof
  fix x y z :: session_key
  show "(x < y) = (x \<le> y \<and> \<not> y \<le> x)" "x \<le> x" "x \<le> y \<Longrightarrow> y \<le> x \<Longrightarrow> x = y"
    by (auto simp: less_session_key_def key_before_def less_eq_session_key_def)
  show "x \<le> y \<Longrightarrow> y \<le> z \<Longrightarrow> x \<le> z"
    by (auto simp: less_session_key_def key_before_def less_eq_session_key_def)
  show "x \<le> y \<or> y \<le> x"
    by (cases x; cases y) (auto simp: less_session_key_def key_before_def less_eq_session_key_def)
qed

end

end
