(* ===== verification/Loc_Adapter.thy ===== *)
theory Loc_Adapter
  imports Loc_Map
begin

text \<open>
  What the adapters share, from gps/core/LocAdapterBase.cpp and LocAdapterBase.h, with the parts of
  gps/core/ContextBase that they ask: the clients and their callbacks, the identifiers of
  sessions, the event mask of an adapter and the capabilities that are reported to clients. The
  theorems show that identifiers are valid and do not repeat within a full round of the counter,
  that the capability bits say exactly what the engine supports, and how clients are kept.
\<close>

section \<open>Data\<close>

datatype location_error =
    LOCATION_ERROR_SUCCESS | LOCATION_ERROR_GENERAL_FAILURE | LOCATION_ERROR_CALLBACK_MISSING
  | LOCATION_ERROR_INVALID_PARAMETER | LOCATION_ERROR_ID_EXISTS | LOCATION_ERROR_ID_UNKNOWN
  | LOCATION_ERROR_ALREADY_STARTED | LOCATION_ERROR_GEOFENCES_AT_MAX | LOCATION_ERROR_NOT_SUPPORTED
  | LOCATION_ERROR_TIMEOUT | LOCATION_ERROR_GNSS_DISABLED

datatype engine_lock =
    ENGINE_LOCK_STATE_INVALID | ENGINE_LOCK_STATE_ENABLED | ENGINE_LOCK_STATE_DISABLED

text \<open>Which callbacks a client has given (is not nullptr).\<close>

record location_callbacks =
  capabilitiesCb :: bool
  responseCb :: bool
  collectiveResponseCb :: bool
  trackingCb :: bool
  batchingCb :: bool
  geofenceBreachCb :: bool
  geofenceStatusCb :: bool
  gnssLocationInfoCb :: bool
  gnssNiCb :: bool
  gnssSvCb :: bool
  gnssNmeaCb :: bool
  gnssDataCb :: bool
  gnssMeasurementsCb :: bool
  batchingStatusCb :: bool
  locationSystemInfoCb :: bool
  engineLocationsInfoCb :: bool

definition no_callbacks :: location_callbacks where
  "no_callbacks = \<lparr>capabilitiesCb = False, responseCb = False, collectiveResponseCb = False, trackingCb = False,
     batchingCb = False, geofenceBreachCb = False, geofenceStatusCb = False, gnssLocationInfoCb = False,
     gnssNiCb = False, gnssSvCb = False, gnssNmeaCb = False, gnssDataCb = False, gnssMeasurementsCb = False,
     batchingStatusCb = False, locationSystemInfoCb = False, engineLocationsInfoCb = False\<rparr>"

type_synonym clients = "(addr, location_callbacks) omap"

text \<open>The fields of LocAdapterBase; 'm are the messages of the adapter.\<close>

record 'm adapter_base =
  mClientData :: clients
  mIsEngineCapabilitiesKnown :: bool
  mPendingMsgs :: "'m list"
  mPendingGnssEnabledMsgs :: "'m list"

section \<open>Identifiers of sessions\<close>

definition generateSessionId :: "u32 \<Rightarrow> u32" where
  "generateSessionId c = (let c1 = c + 1 in if c1 = 0xFFFFFFFF then 1 else c1)"

definition SESSION_ID_START :: u32 where
  "SESSION_ID_START = 1"

section \<open>Event masks\<close>

datatype registration_status =
    LOC_REGISTRATION_MASK_ENABLED | LOC_REGISTRATION_MASK_DISABLED | LOC_REGISTRATION_MASK_SET

fun updateEvtMask :: "u64 \<Rightarrow> registration_status \<Rightarrow> u64 \<Rightarrow> u64" where
  "updateEvtMask event LOC_REGISTRATION_MASK_ENABLED msk = msk OR event"
| "updateEvtMask event LOC_REGISTRATION_MASK_DISABLED msk = msk AND NOT event"
| "updateEvtMask event LOC_REGISTRATION_MASK_SET msk = event"

section \<open>Clients\<close>

text \<open>The event mask, which follows the clients, is updated by each adapter in its own way.\<close>

definition saveClient :: "addr \<Rightarrow> location_callbacks \<Rightarrow> clients \<Rightarrow> clients" where
  "saveClient client callbacks cs = om_put client callbacks cs"

definition eraseClient :: "addr \<Rightarrow> clients \<Rightarrow> clients" where
  "eraseClient client cs = om_erase client cs"

definition getClientCallbacks :: "addr \<Rightarrow> clients \<Rightarrow> location_callbacks" where
  "getClientCallbacks client cs = (case om_find cs client of None \<Rightarrow> no_callbacks | Some c \<Rightarrow> c)"

text \<open>The clients that a broadcast reaches, in its order.\<close>

definition told_clients :: "(location_callbacks \<Rightarrow> bool) \<Rightarrow> clients \<Rightarrow> addr list" where
  "told_clients has cs = map fst (filter (\<lambda>(_, c). has c) cs)"

definition broadcastCapabilities :: "u64 \<Rightarrow> clients \<Rightarrow> (addr \<times> u64) list" where
  "broadcastCapabilities msk cs = map (\<lambda>c. (c, msk)) (told_clients capabilitiesCb cs)"

section \<open>Capabilities\<close>

record loc_context =
  sSupportedMsgMask :: u64
  sFeaturesSupported :: "8 word list"
  sGnssMeasurementSupported :: bool
  ctx_CAPABILITIES :: u32
  ctx_SUPL_MODE :: u32

definition MAX_FEATURE_LENGTH :: nat where "MAX_FEATURE_LENGTH = 100"

datatype msg_to_check =
    LOC_API_ADAPTER_MESSAGE_LOCATION_BATCHING
  | LOC_API_ADAPTER_MESSAGE_BATCHED_GENFENCE_BREACH
  | LOC_API_ADAPTER_MESSAGE_DISTANCE_BASE_TRACKING
  | LOC_API_ADAPTER_MESSAGE_ADAPTIVE_LOCATION_BATCHING
  | LOC_API_ADAPTER_MESSAGE_DISTANCE_BASE_LOCATION_BATCHING
  | LOC_API_ADAPTER_MESSAGE_UPDATE_TBF_ON_THE_FLY
  | LOC_API_ADAPTER_MESSAGE_OUTDOOR_TRIP_BATCHING

fun msg_index :: "msg_to_check \<Rightarrow> nat" where
  "msg_index LOC_API_ADAPTER_MESSAGE_LOCATION_BATCHING = 0"
| "msg_index LOC_API_ADAPTER_MESSAGE_BATCHED_GENFENCE_BREACH = 1"
| "msg_index LOC_API_ADAPTER_MESSAGE_DISTANCE_BASE_TRACKING = 2"
| "msg_index LOC_API_ADAPTER_MESSAGE_ADAPTIVE_LOCATION_BATCHING = 3"
| "msg_index LOC_API_ADAPTER_MESSAGE_DISTANCE_BASE_LOCATION_BATCHING = 4"
| "msg_index LOC_API_ADAPTER_MESSAGE_UPDATE_TBF_ON_THE_FLY = 5"
| "msg_index LOC_API_ADAPTER_MESSAGE_OUTDOOR_TRIP_BATCHING = 6"

text \<open>\<open>1 << msgID\<close> is an int, kept in a uint32_t and widened for the comparison.\<close>

definition isMessageSupported :: "loc_context \<Rightarrow> msg_to_check \<Rightarrow> bool" where
  "isMessageSupported ctx msgID \<longleftrightarrow>
     (let messageChecker = push_bit (msg_index msgID) (1 :: u32)
      in ucast messageChecker AND sSupportedMsgMask ctx = ucast messageChecker)"

definition isFeatureSupported :: "loc_context \<Rightarrow> 8 word \<Rightarrow> bool" where
  "isFeatureSupported ctx featureVal \<longleftrightarrow>
     (let arrayIndex = unat (drop_bit 3 featureVal); bitPos = unat (featureVal AND 7)
      in arrayIndex < MAX_FEATURE_LENGTH \<and>
         drop_bit bitPos (sFeaturesSupported ctx ! arrayIndex) AND 1 \<noteq> 0)"

definition LOC_SUPPORTED_FEATURE_DEBUG_NMEA_V02 :: "8 word" where "LOC_SUPPORTED_FEATURE_DEBUG_NMEA_V02 = 2"
definition LOC_SUPPORTED_FEATURE_CONSTELLATION_ENABLEMENT_V02 :: "8 word" where
  "LOC_SUPPORTED_FEATURE_CONSTELLATION_ENABLEMENT_V02 = 5"
definition LOC_SUPPORTED_FEATURE_AGPM_V02 :: "8 word" where "LOC_SUPPORTED_FEATURE_AGPM_V02 = 6"
definition LOC_SUPPORTED_FEATURE_LOCATION_PRIVACY :: "8 word" where "LOC_SUPPORTED_FEATURE_LOCATION_PRIVACY = 9"
definition LOC_SUPPORTED_FEATURE_MEASUREMENTS_CORRECTION :: "8 word" where
  "LOC_SUPPORTED_FEATURE_MEASUREMENTS_CORRECTION = 11"
definition LOC_SUPPORTED_FEATURE_ROBUST_LOCATION :: "8 word" where "LOC_SUPPORTED_FEATURE_ROBUST_LOCATION = 12"
definition LOC_SUPPORTED_FEATURE_EDGNSS :: "8 word" where "LOC_SUPPORTED_FEATURE_EDGNSS = 13"

definition getCarrierCapabilities :: "loc_context \<Rightarrow> u32" where
  "getCarrierCapabilities ctx =
     (let c = ctx_CAPABILITIES ctx;
          c1 = (if ctx_SUPL_MODE ctx AND 0x2 \<noteq> 0x2 then c AND NOT 0x4 else c)
      in if ctx_SUPL_MODE ctx AND 0x1 \<noteq> 0x1 then c1 AND NOT 0x2 else c1)"

definition add_bit :: "bool \<Rightarrow> nat \<Rightarrow> u64 \<Rightarrow> u64" where
  "add_bit b n msk = (if b then msk OR push_bit n 1 else msk)"

definition getCapabilities :: "loc_context \<Rightarrow> bool \<Rightarrow> u64" where
  "getCapabilities ctx known =
     (if \<not> known then 0
      else
        add_bit (isFeatureSupported ctx LOC_SUPPORTED_FEATURE_EDGNSS) 15
        (add_bit (isFeatureSupported ctx LOC_SUPPORTED_FEATURE_ROBUST_LOCATION) 14
        (add_bit (isFeatureSupported ctx LOC_SUPPORTED_FEATURE_MEASUREMENTS_CORRECTION) 13
        (add_bit (isFeatureSupported ctx LOC_SUPPORTED_FEATURE_LOCATION_PRIVACY) 12
        (add_bit (isFeatureSupported ctx LOC_SUPPORTED_FEATURE_AGPM_V02) 11
        (add_bit (isFeatureSupported ctx LOC_SUPPORTED_FEATURE_CONSTELLATION_ENABLEMENT_V02) 10
        (add_bit (isFeatureSupported ctx LOC_SUPPORTED_FEATURE_DEBUG_NMEA_V02) 8
        (add_bit (0x4 AND getCarrierCapabilities ctx \<noteq> 0) 7
        (add_bit (getCarrierCapabilities ctx AND 0x2 \<noteq> 0) 6
        (add_bit (sGnssMeasurementSupported ctx) 5
        (add_bit True 4
        (add_bit (isMessageSupported ctx LOC_API_ADAPTER_MESSAGE_OUTDOOR_TRIP_BATCHING) 9
        (add_bit (isMessageSupported ctx LOC_API_ADAPTER_MESSAGE_DISTANCE_BASE_TRACKING) 2
        (add_bit (isMessageSupported ctx LOC_API_ADAPTER_MESSAGE_DISTANCE_BASE_LOCATION_BATCHING) 3
        (add_bit (isMessageSupported ctx LOC_API_ADAPTER_MESSAGE_DISTANCE_BASE_LOCATION_BATCHING) 1
        (add_bit True 0 0))))))))))))))))"

text \<open>\<open>requestCapabilitiesCommand\<close>: what the client is told, unless the message has to wait.\<close>

definition capabilities_answer :: "loc_context \<Rightarrow> addr \<Rightarrow> 'm adapter_base \<Rightarrow> (addr \<times> u64) list" where
  "capabilities_answer ctx client a =
     (if capabilitiesCb (getClientCallbacks client (mClientData a))
      then [(client, getCapabilities ctx (mIsEngineCapabilitiesKnown a))] else [])"

section \<open>The round of identifiers\<close>

lemma uint_Suc_32: "uint (c :: u32) + 1 < 2 ^ 32 \<Longrightarrow> uint (c + 1) = uint c + 1"
  by (simp add: uint_plus_if_size word_size)

lemma uint_generate:
  assumes "1 \<le> uint c" "uint c \<le> 2 ^ 32 - 2"
  shows "uint (generateSessionId c) = (if uint c = 2 ^ 32 - 2 then 1 else uint c + 1)"
proof -
  have u: "uint (c + 1) = uint c + 1" using assms by (intro uint_Suc_32) simp
  have "c + 1 = 0xFFFFFFFF \<longleftrightarrow> uint (c + 1) = uint (0xFFFFFFFF :: u32)" by (simp only: word_uint_eq_iff)
  then have "c + 1 = 0xFFFFFFFF \<longleftrightarrow> uint c = 2 ^ 32 - 2" by (simp add: u)
  then show ?thesis by (simp add: generateSessionId_def Let_def u)
qed

lemma uint_generate_funpow:
  assumes "1 \<le> uint c" "uint c \<le> 2 ^ 32 - 2"
  shows "uint ((generateSessionId ^^ n) c) = (uint c - 1 + int n) mod (2 ^ 32 - 2) + 1"
proof (induction n)
  case 0
  then show ?case using assms by simp
next
  case (Suc n)
  let ?N = "2 ^ 32 - 2 :: int"
  let ?u = "uint ((generateSessionId ^^ n) c)"
  have r: "1 \<le> ?u" "?u \<le> ?N" using Suc.IH pos_mod_bound [of ?N "uint c - 1 + int n"] by simp_all
  have "(uint c - 1 + int (Suc n)) mod ?N = (?u - 1 + 1) mod ?N"
    using mod_add_left_eq [of "uint c - 1 + int n" ?N 1] Suc.IH by (simp add: add.assoc)
  also have "\<dots> = (if ?u = ?N then 0 else ?u)" using r by simp
  finally show ?case using uint_generate [OF r] by simp
qed

section \<open>Bits\<close>

lemma bit_add_bit [simp]: "n < 64 \<Longrightarrow> bit (add_bit b n m) k \<longleftrightarrow> bit m k \<or> b \<and> k = n"
  by (auto simp: add_bit_def bit_or_iff bit_exp_iff)

lemma isMessageSupported_iff: "isMessageSupported ctx m \<longleftrightarrow> bit (sSupportedMsgMask ctx) (msg_index m)"
proof -
  have l: "msg_index m < 32" by (cases m) simp_all
  have u: "ucast (push_bit (msg_index m) 1 :: u32) = (push_bit (msg_index m) 1 :: u64)"
    using l by (auto intro!: bit_eqI simp: bit_ucast_iff bit_exp_iff)
  have "push_bit n 1 AND w = push_bit n 1 \<longleftrightarrow> bit w n" if "n < 64" for n and w :: u64
    using and_push_bit_eq [of n w] that by (simp add: and.commute)
  with l show ?thesis by (simp add: isMessageSupported_def Let_def u [simplified])
qed

lemma isFeatureSupported_iff:
  assumes "unat f < 800"
  shows "isFeatureSupported ctx f \<longleftrightarrow> bit (sFeaturesSupported ctx ! (unat f div 8)) (unat f mod 8)"
proof -
  have d: "unat (drop_bit 3 f) = unat f div 8" by (simp add: drop_bit_eq_div unat_div_distrib)
  have "f AND 7 = take_bit 3 f" by (simp add: take_bit_eq_mask mask_eq_exp_minus_1)
  then have m: "unat (f AND 7) = unat f mod 8" by (simp add: take_bit_eq_mod unat_mod_distrib)
  have "drop_bit k w AND 1 \<noteq> 0 \<longleftrightarrow> bit w k" for k and w :: "8 word"
    using and_push_bit_one [of "drop_bit k w" 0] by (simp add: bit_drop_bit_eq)
  moreover have "unat f div 8 < 100" using assms by (intro less_mult_imp_div_less) simp
  ultimately show ?thesis by (simp add: isFeatureSupported_def Let_def d m MAX_FEATURE_LENGTH_def)
qed

section \<open>Properties\<close>

text \<open>C38. The identifiers handed out from the start of the process are never 0 (unset) nor 0xFFFFFFFF, and
two of them are different as long as fewer than $2^{32} - 2$ identifiers lie between them: the
counter wraps around without a short cycle.\<close>

theorem session_ids_distinct:
  assumes "i < j" and "j - i < 2 ^ 32 - 2"
  shows "(generateSessionId ^^ i) SESSION_ID_START \<noteq> (generateSessionId ^^ j) SESSION_ID_START \<and>
    (generateSessionId ^^ i) SESSION_ID_START \<notin> {0, 0xFFFFFFFF}"
proof -
  let ?N = "2 ^ 32 - 2 :: int"
  have s: "1 \<le> uint SESSION_ID_START" "uint SESSION_ID_START \<le> ?N" by (simp_all add: SESSION_ID_START_def)
  note f = uint_generate_funpow [OF s]
  have f0: "uint ((generateSessionId ^^ n) SESSION_ID_START) = int n mod ?N + 1" for n
    using f [of n] by (simp add: SESSION_ID_START_def)
  have "int i mod ?N \<noteq> int j mod ?N"
  proof
    assume "int i mod ?N = int j mod ?N"
    then have "?N dvd int j - int i" by (simp add: mod_eq_dvd_iff dvd_diff_commute)
    moreover have "0 < int j - int i" "int j - int i < ?N" using assms by (simp_all add: of_nat_diff)
    ultimately show False using zdvd_not_zless by blast
  qed
  then have "uint ((generateSessionId ^^ i) SESSION_ID_START) \<noteq> uint ((generateSessionId ^^ j) SESSION_ID_START)"
    by (simp add: f0)
  moreover have "1 \<le> uint ((generateSessionId ^^ i) SESSION_ID_START)"
      "uint ((generateSessionId ^^ i) SESSION_ID_START) \<le> ?N"
    using pos_mod_bound [of ?N "int i"] by (simp_all add: f0)
  ultimately show ?thesis by auto
qed

lemma session_ids_distinct_witness:
  "(generateSessionId ^^ 0) SESSION_ID_START \<noteq> (generateSessionId ^^ 3) SESSION_ID_START"
  using session_ids_distinct [of 0 3] by simp

lemma carrier_bits:
  "getCarrierCapabilities ctx AND 0x2 \<noteq> 0 \<longleftrightarrow> bit (ctx_CAPABILITIES ctx) 1 \<and> bit (ctx_SUPL_MODE ctx) 0"
  "0x4 AND getCarrierCapabilities ctx \<noteq> 0 \<longleftrightarrow> bit (ctx_CAPABILITIES ctx) 2 \<and> bit (ctx_SUPL_MODE ctx) 1"
proof -
  have e: "w AND 2 = 2 \<longleftrightarrow> bit w 1" "w AND 1 = 1 \<longleftrightarrow> bit w 0" for w :: u32
    using and_push_bit_eq [of 1 w] and_push_bit_eq [of 0 w] by simp_all
  have n: "w AND 2 \<noteq> 0 \<longleftrightarrow> bit w 1" "4 AND w \<noteq> 0 \<longleftrightarrow> bit w 2" for w :: u32
    using and_push_bit_one [of w 1] and_push_bit_one [of w 2] by (simp_all add: and.commute)
  have "\<not> bit (4 :: u32) 1" "\<not> bit (2 :: u32) 2" "bit (4 :: u32) 2" "bit (2 :: u32) 1" by simp_all
  then show "getCarrierCapabilities ctx AND 0x2 \<noteq> 0 \<longleftrightarrow> bit (ctx_CAPABILITIES ctx) 1 \<and> bit (ctx_SUPL_MODE ctx) 0"
    "0x4 AND getCarrierCapabilities ctx \<noteq> 0 \<longleftrightarrow> bit (ctx_CAPABILITIES ctx) 2 \<and> bit (ctx_SUPL_MODE ctx) 1"
    unfolding n by (auto simp: getCarrierCapabilities_def Let_def e bit_and_iff bit_not_iff)
qed

text \<open>Once the engine is known, a bit of the capabilities that are reported to clients is set
exactly when the engine, the configuration or the feature list says so (time based tracking and
geofences are always there); before that none is set.\<close>

theorem capabilities_exact:
  "bit (getCapabilities ctx known) k \<longleftrightarrow> known \<and>
     (k \<in> {0, 4} \<or>
      k \<in> {1, 3} \<and> bit (sSupportedMsgMask ctx) 4 \<or>
      k = 2 \<and> bit (sSupportedMsgMask ctx) 2 \<or>
      k = 9 \<and> bit (sSupportedMsgMask ctx) 6 \<or>
      k = 5 \<and> sGnssMeasurementSupported ctx \<or>
      k = 6 \<and> bit (ctx_CAPABILITIES ctx) 1 \<and> bit (ctx_SUPL_MODE ctx) 0 \<or>
      k = 7 \<and> bit (ctx_CAPABILITIES ctx) 2 \<and> bit (ctx_SUPL_MODE ctx) 1 \<or>
      k = 8 \<and> bit (sFeaturesSupported ctx ! 0) 2 \<or>
      k = 10 \<and> bit (sFeaturesSupported ctx ! 0) 5 \<or>
      k = 11 \<and> bit (sFeaturesSupported ctx ! 0) 6 \<or>
      k = 12 \<and> bit (sFeaturesSupported ctx ! 1) 1 \<or>
      k = 13 \<and> bit (sFeaturesSupported ctx ! 1) 3 \<or>
      k = 14 \<and> bit (sFeaturesSupported ctx ! 1) 4 \<or>
      k = 15 \<and> bit (sFeaturesSupported ctx ! 1) 5)"
proof -
  note f = LOC_SUPPORTED_FEATURE_EDGNSS_def LOC_SUPPORTED_FEATURE_ROBUST_LOCATION_def
    LOC_SUPPORTED_FEATURE_MEASUREMENTS_CORRECTION_def LOC_SUPPORTED_FEATURE_LOCATION_PRIVACY_def
    LOC_SUPPORTED_FEATURE_AGPM_V02_def LOC_SUPPORTED_FEATURE_CONSTELLATION_ENABLEMENT_V02_def
    LOC_SUPPORTED_FEATURE_DEBUG_NMEA_V02_def
  show ?thesis
    by (cases known)
      (auto simp: getCapabilities_def isMessageSupported_iff isFeatureSupported_iff f carrier_bits)
qed

end
