(* ===== verification/Loc_Api.thy ===== *)
theory Loc_Api
  imports Loc_Adapter
begin

text \<open>
  The broker between the location engine and the adapters, gps/core/LocApiBase.cpp, with the
  constructor, destructor and event mask of gps/core/LocAdapterBase.h. The adapters stand in an
  array without holes; every change of it, or of the mask of an adapter, sends a message that
  opens the engine again with the union of the masks. Opening and closing the engine is the work
  of a class outside of this repository: its result is an argument. Every step returns the calls it
  made; it is None where the code would follow a pointer to a destroyed adapter. The theorems show
  that the array behaves as a sequence of distinct adapters, that the engine ends up opened with
  the right mask, and that events reach the adapters they are for.
\<close>

section \<open>Data\<close>

definition MAX_ADAPTERS :: nat where "MAX_ADAPTERS = 10"

record adapter =
  mIsMaster :: bool
  mEvtMask :: u64
  mAdapterAdded :: bool
  mIsInSession :: bool

datatype api_msg = LocOpenMsg ptr | LocCloseMsg | LocSsrMsg

text \<open>The adapters in memory are a map from addresses; destroyed ones are not in it.\<close>

record loc_api =
  mLocAdapters :: "ptr list"
  mExcludedMask :: u64
  api_msgs :: "api_msg list"
  api_adapters :: "addr \<Rightarrow> adapter option"

text \<open>The methods of LocApiBase that pass an event of the engine on.\<close>

datatype loc_event =
    handleEngineUpEvent | handleEngineDownEvent | reportPosition | reportWwanZppFix | reportZppBestAvailableFix
  | requestOdcpi | reportGnssEngEnergyConsumedEvent | reportDeleteAidingDataEvent | reportKlobucharIonoModel
  | reportGnssAdditionalSystemInfo | sendNfwNotification | reportSv | reportSvPolynomial | reportSvEphemeris
  | reportStatus | reportData | reportNmea | reportXtraServer | reportLocationSystemInfo | reportQwesCapabilities
  | requestXtraData | requestTime | requestLocation | requestATL | releaseATL | requestNiNotify
  | reportGnssMeasurements | reportGnssSvIdConfig | reportGnssSvTypeConfig | geofenceBreach | geofenceStatus
  | reportDBTPosition | reportLocations | reportCompletedTrips | handleBatchStatusEvent | reportGnssConfig
  | reportLatencyInfo | reportEngineLockStatus

datatype api_out = ApiOpen u64 bool | ApiClose | Deliver loc_event addr

section \<open>The array\<close>

fun add_loop :: "addr \<Rightarrow> ptr list \<Rightarrow> ptr list \<times> api_msg list" where
  "add_loop a [] = ([], [])"
| "add_loop a (p # ps) =
     (if p = Some a then (p # ps, [])
      else if p = None then (Some a # ps, [LocOpenMsg (Some a)])
      else (let (qs, sent) = add_loop a ps in (p # qs, sent)))"

definition addAdapter :: "addr \<Rightarrow> ptr list \<Rightarrow> ptr list \<times> api_msg list" where
  "addAdapter a ps = add_loop a ps"

text \<open>\<open>while (++i < MAX_ADAPTERS && mLocAdapters[i] != NULL);\<close> from the i after the increment.\<close>

function skip_adapters :: "ptr list \<Rightarrow> nat \<Rightarrow> nat" where
  "skip_adapters ps i = (if i < MAX_ADAPTERS \<and> ps ! i \<noteq> None then skip_adapters ps (Suc i) else i)"
  by pat_completeness auto
termination by (relation "measure (\<lambda>(ps, i). MAX_ADAPTERS - i)") auto

declare skip_adapters.simps [simp del]

lemma skip_adapters_ge: "i \<le> skip_adapters ps i"
  by (induction ps i rule: skip_adapters.induct) (subst skip_adapters.simps, auto)

function remove_loop :: "addr \<Rightarrow> ptr list \<Rightarrow> nat \<Rightarrow> ptr list \<times> api_msg list" where
  "remove_loop a ps i =
     (if i < MAX_ADAPTERS \<and> ps ! i \<noteq> None then
        if ps ! i = Some a then
          (let ps1 = ps[i := None];
               last = skip_adapters ps1 (Suc i) - 1;
               ps2 = ps1[i := ps1 ! last];
               ps3 = ps2[last := None];
               sent = (if last = 0 then LocCloseMsg else LocOpenMsg None);
               (qs, more) = remove_loop a ps3 (Suc last)
           in (qs, sent # more))
        else remove_loop a ps (Suc i)
      else (ps, []))"
  by pat_completeness auto
termination
proof (relation "measure (\<lambda>(a, ps, i). MAX_ADAPTERS - i)")
  fix a :: addr and ps i x xa xb xc
  assume i: "i < MAX_ADAPTERS \<and> ps ! i \<noteq> (None :: ptr)" and x: "x = ps[i := None]"
    and xa: "xa = skip_adapters x (Suc i) - 1" 
  show "((a, xc, Suc xa), (a, ps, i)) \<in> measure (\<lambda>(a, ps, i). MAX_ADAPTERS - i)"
    using i xa skip_adapters_ge [of "Suc i" x] by simp linarith
qed auto

declare remove_loop.simps [simp del]

definition removeAdapter :: "addr \<Rightarrow> ptr list \<Rightarrow> ptr list \<times> api_msg list" where
  "removeAdapter a ps = remove_loop a ps 0"

text \<open>The adapters that TO\_ALL\_ADAPTERS and TO\_1ST\_HANDLING\_ADAPTER call, in order.\<close>

fun to_all :: "ptr list \<Rightarrow> addr list" where
  "to_all (Some a # ps) = a # to_all ps"
| "to_all _ = []"

fun to_1st_handling :: "(addr \<Rightarrow> bool) \<Rightarrow> ptr list \<Rightarrow> addr list" where
  "to_1st_handling handles (Some a # ps) = a # (if handles a then [] else to_1st_handling handles ps)"
| "to_1st_handling handles _ = []"

section \<open>Delivery\<close>

text \<open>Which events go to the first adapter that handles them; the others go to all.\<close>

fun first_handling :: "loc_event \<Rightarrow> bool" where
  "first_handling reportWwanZppFix \<longleftrightarrow> True"
| "first_handling reportZppBestAvailableFix \<longleftrightarrow> True"
| "first_handling requestOdcpi \<longleftrightarrow> True"
| "first_handling reportDeleteAidingDataEvent \<longleftrightarrow> True"
| "first_handling reportKlobucharIonoModel \<longleftrightarrow> True"
| "first_handling reportGnssAdditionalSystemInfo \<longleftrightarrow> True"
| "first_handling reportXtraServer \<longleftrightarrow> True"
| "first_handling requestXtraData \<longleftrightarrow> True"
| "first_handling requestTime \<longleftrightarrow> True"
| "first_handling requestLocation \<longleftrightarrow> True"
| "first_handling requestATL \<longleftrightarrow> True"
| "first_handling releaseATL \<longleftrightarrow> True"
| "first_handling requestNiNotify \<longleftrightarrow> True"
| "first_handling _ \<longleftrightarrow> False"

definition live :: "loc_api \<Rightarrow> addr list \<Rightarrow> bool" where
  "live s as \<longleftrightarrow> (\<forall>a \<in> set as. api_adapters s a \<noteq> None)"

definition deliver :: "(addr \<Rightarrow> bool) \<Rightarrow> loc_event \<Rightarrow> loc_api \<Rightarrow> api_out list option" where
  "deliver handles e s =
     (let as = (if first_handling e then to_1st_handling handles (mLocAdapters s) else to_all (mLocAdapters s))
      in if live s as then Some (map (Deliver e) as) else None)"

section \<open>Questions to all adapters\<close>

fun or_masks :: "loc_api \<Rightarrow> addr list \<Rightarrow> u64 option" where
  "or_masks s [] = Some 0"
| "or_masks s (a # as) =
     (case (api_adapters s a, or_masks s as) of (Some d, Some m) \<Rightarrow> Some (mEvtMask d OR m) | _ \<Rightarrow> None)"

definition getEvtMask :: "loc_api \<Rightarrow> u64 option" where
  "getEvtMask s = map_option (\<lambda>m. m AND NOT (mExcludedMask s)) (or_masks s (to_all (mLocAdapters s)))"

fun any_loop :: "(adapter \<Rightarrow> bool) \<Rightarrow> loc_api \<Rightarrow> ptr list \<Rightarrow> bool option" where
  "any_loop P s (Some a # ps) =
     (case api_adapters s a of None \<Rightarrow> None | Some d \<Rightarrow> if P d then Some True else any_loop P s ps)"
| "any_loop P s _ = Some False"

definition isMaster :: "loc_api \<Rightarrow> bool option" where
  "isMaster s = any_loop mIsMaster s (mLocAdapters s)"

definition isInSession :: "loc_api \<Rightarrow> bool option" where
  "isInSession s = any_loop mIsInSession s (mLocAdapters s)"

section \<open>Messages\<close>

text \<open>\<open>ok\<close> is whether opening the engine succeeds.\<close>

definition open_api :: "bool \<Rightarrow> loc_api \<Rightarrow> api_out list option" where
  "open_api ok s = map_option (\<lambda>m. [ApiOpen m ok]) (getEvtMask s)"

fun proc_msg :: "bool \<Rightarrow> api_msg \<Rightarrow> loc_api \<Rightarrow> api_out list option" where
  "proc_msg ok (LocOpenMsg p) s =
     Option.bind (open_api ok s) (\<lambda>outs.
       case p of
         Some a \<Rightarrow>
           if ok then (if api_adapters s a \<noteq> None then Some (outs @ [Deliver handleEngineUpEvent a]) else None)
           else Some outs
       | None \<Rightarrow> Some outs)"
| "proc_msg ok LocCloseMsg s = Some [ApiClose]"
| "proc_msg ok LocSsrMsg s =
     Option.bind (open_api ok s) (\<lambda>outs.
       if ok then map_option (\<lambda>ups. ApiClose # outs @ ups) (deliver (\<lambda>_. False) handleEngineUpEvent s)
       else Some (ApiClose # outs))"

section \<open>Operations\<close>

text \<open>
  The calls of the adapters, the events of the engine, and the processing of the next message by
  the thread of the API.
\<close>

datatype api_op =
    NewAdapter addr u64 bool bool
  | DoneInit addr
  | UpdateMask addr u64 registration_status
  | DestroyAdapter addr
  | EngineDown
  | Event loc_event "addr \<Rightarrow> bool"
  | ProcMsg bool

definition with_table :: "(ptr list \<Rightarrow> ptr list \<times> api_msg list) \<Rightarrow> loc_api \<Rightarrow> loc_api" where
  "with_table f s =
     (let (ps, sent) = f (mLocAdapters s) in s\<lparr>mLocAdapters := ps, api_msgs := api_msgs s @ sent\<rparr>)"

definition set_adapter :: "addr \<Rightarrow> adapter option \<Rightarrow> loc_api \<Rightarrow> loc_api" where
  "set_adapter a d s = s\<lparr>api_adapters := (api_adapters s)(a := d)\<rparr>"

fun api_step :: "api_op \<Rightarrow> loc_api \<Rightarrow> (api_out list \<times> loc_api) option" where
  "api_step (NewAdapter a m master waitForDoneInit) s =
     (let s1 = set_adapter a (Some \<lparr>mIsMaster = master, mEvtMask = m, mAdapterAdded = \<not> waitForDoneInit,
                 mIsInSession = False\<rparr>) s
      in Some ([], if waitForDoneInit then s1 else with_table (addAdapter a) s1))"
| "api_step (DoneInit a) s =
     (case api_adapters s a of
        None \<Rightarrow> None
      | Some d \<Rightarrow>
          Some ([], if mAdapterAdded d then s
                    else with_table (addAdapter a) (set_adapter a (Some (d\<lparr>mAdapterAdded := True\<rparr>)) s)))"
| "api_step (UpdateMask a event status) s =
     (case api_adapters s a of
        None \<Rightarrow> None
      | Some d \<Rightarrow>
          (let s1 = set_adapter a (Some (d\<lparr>mEvtMask := updateEvtMask event status (mEvtMask d)\<rparr>)) s
           in Some ([], s1\<lparr>api_msgs := api_msgs s1 @ [LocOpenMsg None]\<rparr>)))"
| "api_step (DestroyAdapter a) s =
     (case api_adapters s a of
        None \<Rightarrow> None
      | Some d \<Rightarrow> Some ([], set_adapter a None (with_table (removeAdapter a) s)))"
| "api_step EngineDown s =
     map_option (\<lambda>outs. (outs, s\<lparr>api_msgs := api_msgs s @ [LocSsrMsg]\<rparr>)) (deliver (\<lambda>_. False) handleEngineDownEvent s)"
| "api_step (Event e handles) s = map_option (\<lambda>outs. (outs, s)) (deliver handles e s)"
| "api_step (ProcMsg ok) s =
     (case api_msgs s of
        [] \<Rightarrow> Some ([], s)
      | x # xs \<Rightarrow> map_option (\<lambda>outs. (outs, s\<lparr>api_msgs := xs\<rparr>)) (proc_msg ok x s))"

definition api_start :: "u64 \<Rightarrow> loc_api" where
  "api_start excluded =
     \<lparr>mLocAdapters = replicate MAX_ADAPTERS None, mExcludedMask = excluded, api_msgs = [], api_adapters = (\<lambda>_. None)\<rparr>"

section \<open>The array as a sequence\<close>

definition tab :: "addr list \<Rightarrow> ptr list" where
  "tab xs = map Some xs @ replicate (MAX_ADAPTERS - length xs) None"

definition tab_rel :: "ptr list \<Rightarrow> addr list \<Rightarrow> bool" where
  "tab_rel ps xs \<longleftrightarrow> ps = tab xs \<and> distinct xs \<and> length xs \<le> MAX_ADAPTERS"

lemma length_tab [simp]: "length xs \<le> MAX_ADAPTERS \<Longrightarrow> length (tab xs) = MAX_ADAPTERS"
  by (simp add: tab_def)

lemma nth_tab: "length xs \<le> MAX_ADAPTERS \<Longrightarrow> i < MAX_ADAPTERS \<Longrightarrow>
    tab xs ! i = (if i < length xs then Some (xs ! i) else None)"
  by (auto simp: tab_def nth_append)

lemma to_all_map: "to_all (map Some xs @ replicate n None) = xs"
proof (induction xs)
  case Nil
  show ?case by (cases n) simp_all
qed simp

lemma to_all_tab [simp]: "to_all (tab xs) = xs"
  by (simp add: tab_def to_all_map)

lemma add_loop_tab:
  "add_loop a (map Some xs @ replicate n None) =
     (if a \<in> set xs \<or> n = 0 then (map Some xs @ replicate n None, [])
      else (map Some (xs @ [a]) @ replicate (n - 1) None, [LocOpenMsg (Some a)]))"
proof (induction xs)
  case Nil
  show ?case by (cases n) simp_all
qed (auto split: if_splits)

lemma skip_adapters_eq:
  assumes "i \<le> n" "n \<le> MAX_ADAPTERS" "\<And>k. i \<le> k \<Longrightarrow> k < n \<Longrightarrow> ps ! k \<noteq> None" "n < MAX_ADAPTERS \<Longrightarrow> ps ! n = None"
  shows "skip_adapters ps i = n"
  using assms
proof (induction ps i rule: skip_adapters.induct)
  case (1 ps i)
  show ?case
  proof (cases "i = n")
    case True
    with "1.prems" show ?thesis by (subst skip_adapters.simps) auto
  next
    case False
    with "1.prems" have "i < MAX_ADAPTERS \<and> ps ! i \<noteq> None" by auto
    with "1.IH" "1.prems" False show ?thesis by (subst skip_adapters.simps) auto
  qed
qed

text \<open>Removing an element moves the last one into its place.\<close>

definition swap_remove :: "nat \<Rightarrow> 'a list \<Rightarrow> 'a list" where
  "swap_remove i xs = butlast (xs[i := last xs])"

lemma swap_remove_props:
  assumes "i < length xs" "distinct xs"
  shows "length (swap_remove i xs) = length xs - 1" "distinct (swap_remove i xs)"
    "set (swap_remove i xs) = set xs - {xs ! i}"
proof -
  obtain ys z where xs: "xs = ys @ [z]" using assms(1) by (cases xs rule: rev_cases) auto
  have "length (swap_remove i xs) = length xs - 1 \<and> distinct (swap_remove i xs) \<and>
      set (swap_remove i xs) = set xs - {xs ! i}"
  proof (cases "i = length ys")
    case True
    with assms show ?thesis by (auto simp: swap_remove_def xs)
  next
    case False
    with assms have i: "i < length ys" by (simp add: xs)
    then have s: "swap_remove i xs = ys[i := z]" by (simp add: swap_remove_def xs list_update_append)
    have d: "distinct ys" "z \<notin> set ys" using assms(2) by (auto simp: xs)
    have "set (ys[i := z]) = insert z (set ys - {ys ! i})"
      using i d(1) by (simp add: set_update_distinct)
    moreover have "xs ! i = ys ! i" "set xs = insert z (set ys)" using i by (simp_all add: xs nth_append)
    moreover have "z \<noteq> ys ! i" using i d by auto
    moreover have "distinct (ys[i := z])" by (rule distinct_list_update) (use d in auto)
    moreover have "length (ys[i := z]) = length xs - 1" by (simp add: xs)
    ultimately show ?thesis unfolding s by (simp only: insert_Diff_if) simp
  qed
  then show "length (swap_remove i xs) = length xs - 1" "distinct (swap_remove i xs)"
    "set (swap_remove i xs) = set xs - {xs ! i}" by simp_all
qed

lemma tab_swap:
  assumes "i < length xs" "length xs \<le> MAX_ADAPTERS"
  shows "((tab xs)[i := None])[i := (tab xs)[i := None] ! (length xs - 1), length xs - 1 := None] = tab (swap_remove i xs)"
proof -
  obtain ys z where xs: "xs = ys @ [z]" using assms(1) by (cases xs rule: rev_cases) auto
  let ?n = "MAX_ADAPTERS - length xs"
  have "MAX_ADAPTERS - length ys = Suc ?n" using assms(2) by (simp add: xs)
  have lx: "length xs = Suc (length ys)" by (simp add: xs)
  from \<open>MAX_ADAPTERS - length ys = Suc ?n\<close> have r: "tab us = map Some us @ None # replicate ?n None" if "length us = length ys" for us
    using that by (simp add: tab_def)
  have t: "tab xs = map Some ys @ Some z # replicate ?n None" by (simp add: tab_def xs)
  show ?thesis
  proof (cases "i = length ys")
    case True
    then have "swap_remove i xs = ys" by (simp add: swap_remove_def xs)
    with True r [of ys] show ?thesis by (simp add: t list_update_append lx)
  next
    case False
    with assms have i: "i < length ys" by (simp add: xs)
    then have s: "swap_remove i xs = ys[i := z]" by (simp add: swap_remove_def xs list_update_append)
    from i r [of "ys[i := z]"] show ?thesis
      by (simp add: t list_update_append nth_append s lx map_update)
  qed
qed

lemma remove_loop_absent:
  assumes "length xs \<le> MAX_ADAPTERS" "i \<le> length xs" "\<forall>k. i \<le> k \<and> k < length xs \<longrightarrow> xs ! k \<noteq> a"
  shows "remove_loop a (tab xs) i = (tab xs, [])"
  using assms
proof (induction "length xs - i" arbitrary: i)
  case 0
  then show ?case by (subst remove_loop.simps) (auto simp: nth_tab)
next
  case (Suc n)
  then have "i < length xs" "i < MAX_ADAPTERS" "xs ! i \<noteq> a" by auto
  with Suc show ?case by (subst remove_loop.simps) (auto simp: nth_tab)
qed

lemma remove_loop_tab:
  assumes "length xs \<le> MAX_ADAPTERS" "distinct xs" "i < length xs" "j \<le> i" "xs ! i = a"
  shows "remove_loop a (tab xs) j = (tab (swap_remove i xs), [if length xs = 1 then LocCloseMsg else LocOpenMsg None])"
  using assms(4)
proof (induction "i - j" arbitrary: j)
  case 0
  then have j: "j = i" by simp
  let ?m = "length xs - 1"
  have lt: "i < MAX_ADAPTERS" using assms by simp
  have sk: "skip_adapters ((tab xs)[i := None]) (Suc i) = length xs"
    using assms lt by (intro skip_adapters_eq) (auto simp: nth_list_update nth_tab)
  have l: "length (swap_remove i xs) = ?m" using swap_remove_props(1) [OF assms(3,2)] .
  have rest: "remove_loop a (tab (swap_remove i xs)) (length xs) = (tab (swap_remove i xs), [])"
  proof (cases "length xs < MAX_ADAPTERS")
    case True
    with l assms show ?thesis by (subst remove_loop.simps) (auto simp: nth_tab)
  next
    case False
    with assms show ?thesis by (subst remove_loop.simps) auto
  qed
  have "Suc (length xs - Suc 0) = length xs" using assms(3) by simp
  then show ?case
    using assms lt rest tab_swap [OF assms(3,1)]
    by (subst remove_loop.simps) (auto simp: j nth_tab sk Let_def)
next
  case (Suc n)
  then have "j < i" by simp
  with assms have "xs ! j \<noteq> a" "j < MAX_ADAPTERS" by (auto simp: nth_eq_iff_index_eq)
  with \<open>j < i\<close> assms Suc show ?case by (subst remove_loop.simps) (auto simp: nth_tab)
qed

text \<open>The array operations against those on a sequence of adapters.\<close>

datatype tab_op = TabAdd addr | TabRemove addr

fun tab_step :: "tab_op \<Rightarrow> ptr list \<Rightarrow> (api_msg list \<times> ptr list) option" where
  "tab_step (TabAdd a) ps = Some (prod.swap (addAdapter a ps))"
| "tab_step (TabRemove a) ps = Some (prod.swap (removeAdapter a ps))"

fun index_of :: "'a \<Rightarrow> 'a list \<Rightarrow> nat" where
  "index_of a [] = 0"
| "index_of a (x # xs) = (if x = a then 0 else Suc (index_of a xs))"

fun tab_spec :: "tab_op \<Rightarrow> addr list \<Rightarrow> api_msg list \<times> addr list" where
  "tab_spec (TabAdd a) xs =
     (if a \<in> set xs \<or> length xs = MAX_ADAPTERS then ([], xs) else ([LocOpenMsg (Some a)], xs @ [a]))"
| "tab_spec (TabRemove a) xs =
     (if a \<notin> set xs then ([], xs)
      else ([if length xs = 1 then LocCloseMsg else LocOpenMsg None], swap_remove (index_of a xs) xs))"

lemma index_of: "a \<in> set xs \<Longrightarrow> index_of a xs < length xs \<and> xs ! index_of a xs = a"
  by (induction xs) auto

lemma addAdapter_tab:
  assumes "tab_rel ps xs"
  shows "prod.swap (addAdapter a ps) = (fst (tab_spec (TabAdd a) xs), tab (snd (tab_spec (TabAdd a) xs)))"
  using assms add_loop_tab [of a xs "MAX_ADAPTERS - length xs"]
  by (auto simp: tab_rel_def addAdapter_def tab_def)

lemma removeAdapter_tab:
  assumes "tab_rel ps xs"
  shows "prod.swap (removeAdapter a ps) = (fst (tab_spec (TabRemove a) xs), tab (snd (tab_spec (TabRemove a) xs)))"
proof (cases "a \<in> set xs")
  case True
  with assms index_of [OF True] remove_loop_tab [of xs "index_of a xs" 0 a] show ?thesis
    by (auto simp: tab_rel_def removeAdapter_def)
next
  case False
  with assms remove_loop_absent [of xs 0 a] show ?thesis
    by (auto simp: tab_rel_def removeAdapter_def in_set_conv_nth)
qed

lemma tab_spec_rel: "distinct xs \<Longrightarrow> length xs \<le> MAX_ADAPTERS \<Longrightarrow>
    distinct (snd (tab_spec x xs)) \<and> length (snd (tab_spec x xs)) \<le> MAX_ADAPTERS"
  by (cases x) (auto simp: swap_remove_props index_of)

interpretation tb: refinement tab_rel "\<lambda>_ _. True" tab_step tab_spec
proof unfold_locales
  fix ps xs x
  assume r: "tab_rel ps xs"
  then have "distinct xs" "length xs \<le> MAX_ADAPTERS" by (simp_all add: tab_rel_def)
  note s = tab_spec_rel [OF this, of x]
  show "\<exists>ps'. tab_step x ps = Some (fst (tab_spec x xs), ps') \<and> tab_rel ps' (snd (tab_spec x xs))"
  proof (cases x)
    case (TabAdd a)
    with addAdapter_tab [OF r, of a] s show ?thesis by (simp add: tab_rel_def)
  next
    case (TabRemove a)
    with removeAdapter_tab [OF r, of a] s show ?thesis by (simp add: tab_rel_def)
  qed
qed

section \<open>The invariant\<close>

fun is_conn :: "api_out \<Rightarrow> bool" where
  "is_conn (ApiOpen m ok) \<longleftrightarrow> True"
| "is_conn ApiClose \<longleftrightarrow> True"
| "is_conn (Deliver e a) \<longleftrightarrow> False"

text \<open>
  The registered adapters are alive, and the engine has been opened with their mask (\<open>hist\<close> holds
  the calls that opened and closed it) or a message that will do so is waiting.
\<close>

definition api_inv :: "loc_api \<Rightarrow> addr list \<Rightarrow> api_out list \<Rightarrow> bool" where
  "api_inv s xs hist \<longleftrightarrow>
     tab_rel (mLocAdapters s) xs \<and>
     (\<forall>a \<in> set xs. \<exists>d. api_adapters s a = Some d \<and> mAdapterAdded d) \<and>
     (xs \<noteq> [] \<longrightarrow>
        (if api_msgs s = [] then hist \<noteq> [] \<and> (\<exists>m ok. getEvtMask s = Some m \<and> last hist = ApiOpen m ok)
         else last (api_msgs s) \<noteq> LocCloseMsg)) \<and>
     (xs = [] \<and> api_msgs s = [] \<longrightarrow> hist = [] \<or> last hist = ApiClose \<or> (\<exists>ok. last hist = ApiOpen 0 ok))"

lemma or_masks_live: "live s as \<Longrightarrow> \<exists>m. or_masks s as = Some m"
  by (induction as) (auto simp: live_def)

lemma api_inv_live: "api_inv s xs hist \<Longrightarrow> live s xs \<and> to_all (mLocAdapters s) = xs"
  by (auto simp: api_inv_def live_def tab_rel_def)

lemma getEvtMask_defined: "api_inv s xs hist \<Longrightarrow> \<exists>m. getEvtMask s = Some m"
  using api_inv_live [of s xs hist] or_masks_live [of s xs] by (auto simp: getEvtMask_def)

lemma or_masks_cong: "(\<And>a. a \<in> set as \<Longrightarrow> api_adapters s a = api_adapters t a) \<Longrightarrow> or_masks s as = or_masks t as"
  by (induction as) (auto cong: option.case_cong)

lemma or_masks_bit: "or_masks s as = Some m \<Longrightarrow>
    bit m k \<longleftrightarrow> (\<exists>a \<in> set as. \<exists>d. api_adapters s a = Some d \<and> bit (mEvtMask d) k)"
  by (induction as arbitrary: m) (auto simp: bit_or_iff split: option.splits)

definition api_ok :: "api_op \<Rightarrow> loc_api \<Rightarrow> bool" where
  "api_ok x s = (case x of NewAdapter a m b w \<Rightarrow> api_adapters s a = None | _ \<Rightarrow> True)"

text \<open>Changing the array, in a state whose mask may just have changed.\<close>

lemma with_table_inv:
  assumes rel: "tab_rel (mLocAdapters s) xs" and f: "prod.swap (f (mLocAdapters s)) = (fst (tab_spec x xs), tab (snd (tab_spec x xs)))"
  shows "mLocAdapters (with_table f s) = tab (snd (tab_spec x xs))"
    "api_msgs (with_table f s) = api_msgs s @ fst (tab_spec x xs)"
    "api_adapters (with_table f s) = api_adapters s" "mExcludedMask (with_table f s) = mExcludedMask s"
    "tab_rel (mLocAdapters (with_table f s)) (snd (tab_spec x xs))"
proof -
  obtain ps sent where "f (mLocAdapters s) = (ps, sent)" by force
  with f rel tab_spec_rel [of xs x] show "mLocAdapters (with_table f s) = tab (snd (tab_spec x xs))"
    "api_msgs (with_table f s) = api_msgs s @ fst (tab_spec x xs)"
    "api_adapters (with_table f s) = api_adapters s" "mExcludedMask (with_table f s) = mExcludedMask s"
    "tab_rel (mLocAdapters (with_table f s)) (snd (tab_spec x xs))"
    by (auto simp: with_table_def tab_rel_def)
qed

lemma getEvtMask_cong:
  assumes "mLocAdapters t = mLocAdapters s" "mExcludedMask t = mExcludedMask s"
    "\<And>a. a \<in> set (to_all (mLocAdapters s)) \<Longrightarrow> api_adapters t a = api_adapters s a"
  shows "getEvtMask t = getEvtMask s"
  using or_masks_cong [of "to_all (mLocAdapters s)" t s] assms by (simp add: getEvtMask_def)

lemma set_adapter_inv:
  assumes "api_inv s xs hist" and "a \<notin> set xs"
  shows "api_inv (set_adapter a d s) xs hist"
proof -
  have "getEvtMask (set_adapter a d s) = getEvtMask s"
    using assms api_inv_live [OF assms(1)] by (intro getEvtMask_cong) (auto simp: set_adapter_def)
  with assms show ?thesis by (auto simp: api_inv_def set_adapter_def)
qed

lemma register_inv:
  assumes inv: "api_inv s xs hist" and a: "a \<notin> set xs" and d: "api_adapters s a = Some d" "mAdapterAdded d"
  shows "\<exists>xs'. api_inv (with_table (addAdapter a) s) xs' hist"
proof -
  have rel: "tab_rel (mLocAdapters s) xs" using inv by (simp add: api_inv_def)
  note w = with_table_inv [where f = "addAdapter a" and x = "TabAdd a", OF rel addAdapter_tab [OF rel]]
  show ?thesis
  proof (cases "length xs = MAX_ADAPTERS")
    case True
    have "getEvtMask (with_table (addAdapter a) s) = getEvtMask s"
      using w rel True by (intro getEvtMask_cong) (auto simp: tab_rel_def)
    with True w inv show ?thesis by (intro exI [of _ xs]) (auto simp: api_inv_def)
  next
    case False
    with w inv a d show ?thesis by (intro exI [of _ "xs @ [a]"]) (auto simp: api_inv_def)
  qed
qed

lemma destroy_inv:
  assumes inv: "api_inv s xs hist"
  shows "\<exists>xs'. api_inv (set_adapter a None (with_table (removeAdapter a) s)) xs' hist"
proof -
  have rel: "tab_rel (mLocAdapters s) xs" using inv by (simp add: api_inv_def)
  note w = with_table_inv [where f = "removeAdapter a" and x = "TabRemove a", OF rel removeAdapter_tab [OF rel]]
  let ?s = "with_table (removeAdapter a) s"
  show ?thesis
  proof (cases "a \<in> set xs")
    case True
    let ?ys = "swap_remove (index_of a xs) xs"
    have ys: "set ?ys = set xs - {a}" "length ?ys = length xs - 1"
      using swap_remove_props [of "index_of a xs" xs] index_of [OF True] rel by (auto simp: tab_rel_def)
    have "api_inv ?s ?ys hist"
      using w True inv ys by (auto simp: api_inv_def)
    from set_adapter_inv [OF this, of a] ys show ?thesis by auto
  next
    case False
    have "getEvtMask ?s = getEvtMask s"
      using w rel False by (intro getEvtMask_cong) (auto simp: tab_rel_def)
    with False w inv have "api_inv ?s xs hist" by (auto simp: api_inv_def)
    from set_adapter_inv [OF this False] show ?thesis by blast
  qed
qed

lemma deliver_outs: "deliver handles e s = Some outs \<Longrightarrow> filter is_conn outs = []"
  by (auto simp: deliver_def Let_def split: if_splits)

lemma proc_msg_outs:
  assumes "proc_msg ok x s = Some outs" and "x \<noteq> LocCloseMsg"
  shows "\<exists>m pre. getEvtMask s = Some m \<and> filter is_conn outs = pre @ [ApiOpen m ok]"
proof (cases x)
  case (LocOpenMsg p)
  with assms(1) obtain m where "getEvtMask s = Some m" by (auto simp: open_api_def bind_eq_Some_conv)
  with LocOpenMsg assms(1) show ?thesis
    by (cases p) (auto simp: open_api_def split: if_splits)
next
  case LocSsrMsg
  with assms(1) obtain m where m: "getEvtMask s = Some m" by (auto simp: open_api_def bind_eq_Some_conv)
  then have "ApiClose # ApiOpen m ok # filter is_conn (drop 2 outs) = filter is_conn outs" "filter is_conn (drop 2 outs) = []"
    using LocSsrMsg assms(1) deliver_outs [of "\<lambda>_. False" handleEngineUpEvent s]
    by (auto simp: open_api_def split: if_splits)
  with m show ?thesis by (intro exI [of _ m] exI [of _ "[ApiClose]"]) simp
qed (use assms in simp)

lemma proc_inv:
  assumes inv: "api_inv s xs hist" and x: "api_msgs s = x # ms" and p: "proc_msg ok x s = Some outs"
  shows "api_inv (s\<lparr>api_msgs := ms\<rparr>) xs (hist @ filter is_conn outs)"
proof -
  have m: "getEvtMask (s\<lparr>api_msgs := ms\<rparr>) = getEvtMask s" by (rule getEvtMask_cong) auto
  show ?thesis
  proof (cases "ms \<noteq> []")
    case True
    with inv x show ?thesis by (auto simp: api_inv_def)
  next
    case ms: False
    show ?thesis
    proof (cases "x = LocCloseMsg")
      case True
      with inv x ms p show ?thesis by (auto simp: api_inv_def)
    next
      case False
      have z: "getEvtMask s = Some 0" if "xs = []"
        using that api_inv_live [OF inv] by (simp add: getEvtMask_def)
      from proc_msg_outs [OF p False] m ms inv z show ?thesis by (auto simp: api_inv_def)
    qed
  qed
qed

lemma api_step_inv:
  assumes inv: "api_inv s xs hist" and ok: "api_ok x s" and st: "api_step x s = Some (outs, s')"
  shows "\<exists>xs'. api_inv s' xs' (hist @ filter is_conn outs)"
proof (cases x)
  case (NewAdapter a m master w)
  with ok inv have a: "a \<notin> set xs" by (auto simp: api_ok_def api_inv_def)
  from set_adapter_inv [OF inv a] NewAdapter st register_inv [OF set_adapter_inv [OF inv a] a]
  show ?thesis by (auto simp: Let_def set_adapter_def split: if_splits)
next
  case (DoneInit a)
  then obtain d where d: "api_adapters s a = Some d" using st by (auto split: option.splits)
  show ?thesis
  proof (cases "mAdapterAdded d")
    case True
    with DoneInit d st inv show ?thesis by auto
  next
    case False
    then have a: "a \<notin> set xs" using d inv by (auto simp: api_inv_def)
    from DoneInit d st False register_inv [OF set_adapter_inv [OF inv a] a] show ?thesis
      by (auto simp: set_adapter_def)
  qed
next
  case (UpdateMask a e status)
  with st obtain d where d: "api_adapters s a = Some d" by (auto split: option.splits)
  have "mAdapterAdded d" if "a \<in> set xs" using inv that d by (fastforce simp: api_inv_def)
  with UpdateMask st inv d show ?thesis
    by (auto simp: Let_def api_inv_def set_adapter_def intro!: exI [of _ xs])
next
  case (DestroyAdapter a)
  with st destroy_inv [OF inv, of a] show ?thesis by (auto split: option.splits)
next
  case EngineDown
  with st inv deliver_outs show ?thesis by (auto simp: api_inv_def intro!: exI [of _ xs])
next
  case (Event e handles)
  with st inv deliver_outs [of handles e s] show ?thesis by auto
next
  case (ProcMsg ok)
  with st inv proc_inv [OF inv] show ?thesis by (cases "api_msgs s") auto
qed

lemma api_start_inv: "api_inv (api_start ex) [] []"
  by (simp add: api_inv_def api_start_def tab_rel_def tab_def)

lemma api_run_inv:
  assumes "api_inv s xs hist" "ops_ok api_ok api_step ops s" "run_ops api_step ops s = Some (outs, s')"
  shows "\<exists>xs'. api_inv s' xs' (hist @ filter is_conn (concat outs))"
  using assms
proof (induction ops arbitrary: s xs hist outs)
  case Nil
  then show ?case by auto
next
  case (Cons x ops)
  then obtain o1 s1 os where st: "api_step x s = Some (o1, s1)" "run_ops api_step ops s1 = Some (os, s')" "outs = o1 # os"
    by (auto split: option.splits)
  from api_step_inv [OF Cons.prems(1) _ st(1)] Cons.prems(2) obtain ys where "api_inv s1 ys (hist @ filter is_conn o1)"
    by auto
  from Cons.IH [OF this _ st(2)] Cons.prems(2) st show ?case by auto
qed

lemma live_1st: "live s (to_all ps) \<Longrightarrow> live s (to_1st_handling h ps)"
  by (induction h ps rule: to_1st_handling.induct) (auto simp: live_def)

lemma deliver_defined: "api_inv s xs hist \<Longrightarrow> \<exists>outs. deliver h e s = Some outs"
  using api_inv_live [of s xs hist] live_1st [of s "mLocAdapters s"] by (auto simp: deliver_def Let_def)

text \<open>The adapter that an operation is about must be alive; so must the one that is waiting to be told.\<close>

fun subject_live :: "api_op \<Rightarrow> loc_api \<Rightarrow> bool" where
  "subject_live (DoneInit a) s \<longleftrightarrow> api_adapters s a \<noteq> None"
| "subject_live (UpdateMask a e status) s \<longleftrightarrow> api_adapters s a \<noteq> None"
| "subject_live (DestroyAdapter a) s \<longleftrightarrow> api_adapters s a \<noteq> None"
| "subject_live (ProcMsg ok) s \<longleftrightarrow>
     (case api_msgs s of LocOpenMsg (Some a) # _ \<Rightarrow> ok \<longrightarrow> api_adapters s a \<noteq> None | _ \<Rightarrow> True)"
| "subject_live _ s \<longleftrightarrow> True"

lemma proc_msg_defined:
  assumes inv: "api_inv s xs hist" and x: "case x of LocOpenMsg (Some a) \<Rightarrow> ok \<longrightarrow> api_adapters s a \<noteq> None | _ \<Rightarrow> True"
  shows "proc_msg ok x s \<noteq> None"
proof -
  obtain m where m: "getEvtMask s = Some m" using getEvtMask_defined [OF inv] by auto
  obtain ups where u: "deliver (\<lambda>_. False) handleEngineUpEvent s = Some ups" using deliver_defined [OF inv] by blast
  show ?thesis
  proof (cases x)
    case (LocOpenMsg p)
    with x m show ?thesis by (cases p) (auto simp: open_api_def)
  qed (use m u in \<open>simp_all add: open_api_def\<close>)
qed

lemma api_step_defined:
  assumes inv: "api_inv s xs hist" and l: "subject_live x s"
  shows "api_step x s \<noteq> None"
proof (cases x)
  case EngineDown
  with deliver_defined [OF inv, of "\<lambda>_. False" handleEngineDownEvent] show ?thesis by auto
next
  case (Event e h)
  with deliver_defined [OF inv, of h e] show ?thesis by auto
next
  case (ProcMsg ok)
  show ?thesis
  proof (cases "api_msgs s")
    case (Cons y ys)
    have "case y of LocOpenMsg (Some a) \<Rightarrow> ok \<longrightarrow> api_adapters s a \<noteq> None | _ \<Rightarrow> True"
      using l ProcMsg Cons by (auto split: api_msg.splits option.splits)
    from proc_msg_defined [OF inv this] ProcMsg Cons show ?thesis by auto
  qed (use ProcMsg in simp)
qed (use l in \<open>auto simp: Let_def\<close>)

section \<open>Properties\<close>

definition api_demo :: "api_op list" where
  "api_demo = [NewAdapter 1 0b101 True False, NewAdapter 2 0b10 False True, ProcMsg True, DoneInit 2, ProcMsg True,
     UpdateMask 2 0b1000 LOC_REGISTRATION_MASK_ENABLED, ProcMsg True]"

lemma api_demo_ok: "ops_ok api_ok api_step api_demo (api_start 1)"
  by code_simp

lemma api_demo_run:
  obtains outs s where "run_ops api_step api_demo (api_start 1) = Some (outs, s)" "api_msgs s = []"
    "mLocAdapters s = map Some [1, 2] @ replicate 8 None"
proof -
  have "case run_ops api_step api_demo (api_start 1) of None \<Rightarrow> False
      | Some (outs, s) \<Rightarrow> api_msgs s = [] \<and> mLocAdapters s = map Some [1, 2] @ replicate 8 None"
    by code_simp
  then show ?thesis using that by (auto split: option.splits)
qed

lemma proc_msg_opens:
  assumes "proc_msg True x s = Some outs" and "ApiOpen m ok \<in> set outs"
  shows ok
  using assms
  by (cases x) (auto simp: open_api_def deliver_def Let_def bind_eq_Some_conv split: option.splits if_splits)

lemma api_step_opens:
  assumes "api_step x s = Some (outs, s')" and "x \<noteq> ProcMsg False" and "ApiOpen m ok \<in> set outs"
  shows ok
proof (cases x)
  case (ProcMsg b)
  with assms obtain y ys where "api_msgs s = y # ys" "proc_msg True y s = Some outs"
    by (auto split: list.splits)
  with proc_msg_opens assms(3) show ?thesis by blast
qed (use assms in \<open>auto simp: deliver_def Let_def split: option.splits if_splits\<close>)

lemma api_run_opens:
  "run_ops api_step ops s = Some (outs, s') \<Longrightarrow> ProcMsg False \<notin> set ops \<Longrightarrow> ApiOpen m ok \<in> set (concat outs) \<Longrightarrow> ok"
proof (induction ops arbitrary: s outs)
  case (Cons x ops)
  then obtain o1 s1 os where st: "api_step x s = Some (o1, s1)" "run_ops api_step ops s1 = Some (os, s')" "outs = o1 # os"
    by (auto split: option.splits)
  with Cons.prems show ?case using api_step_opens [OF st(1)] Cons.IH [OF st(2)] by auto
qed simp

text \<open>C9. However adapters come, go, change their masks and the engine restarts, once all messages are
processed the array holds distinct living adapters without holes. If there is any, the last call that
opened or closed the engine asked it to open with exactly the events which one of the adapters in the
array registered for and which are not excluded, and if the engine has not refused a call to open it
in the run, this call succeeded. If there is none, the engine was closed last, or never opened, or
asked to open with no events at all. (A refused call is not repeated until the next change, see
\<open>api_refused_open\<close>.) The conditions are that an adapter is created
at an address where none lives and that the run is defined: no call is made on a destroyed adapter,
neither by a client nor by a waiting message (\<open>api_step_defined\<close>).\<close>

theorem api_mask_settled:
  assumes "run_ops api_step ops (api_start excluded) = Some (outs, s)"
    and "ops_ok api_ok api_step ops (api_start excluded)" and "api_msgs s = []"
  shows "\<exists>xs. mLocAdapters s = map Some xs @ replicate (MAX_ADAPTERS - length xs) None \<and> distinct xs \<and>
    length xs \<le> MAX_ADAPTERS \<and> (\<forall>a \<in> set xs. api_adapters s a \<noteq> None) \<and>
    (if xs = [] then filter is_conn (concat outs) = [] \<or> last (filter is_conn (concat outs)) = ApiClose \<or>
       (\<exists>ok. last (filter is_conn (concat outs)) = ApiOpen 0 ok)
     else (\<exists>m ok. filter is_conn (concat outs) \<noteq> [] \<and> last (filter is_conn (concat outs)) = ApiOpen m ok \<and>
       (ProcMsg False \<notin> set ops \<longrightarrow> ok) \<and>
       (\<forall>k. bit m k \<longleftrightarrow> (\<exists>a \<in> set xs. \<exists>d. api_adapters s a = Some d \<and> bit (mEvtMask d) k) \<and> k < 64 \<and>
          \<not> bit (mExcludedMask s) k)))"
proof -
  let ?hist = "filter is_conn (concat outs)"
  from api_run_inv [OF api_start_inv assms(2,1)] obtain xs where inv: "api_inv s xs ?hist"
    by auto
  then have rel: "tab_rel (mLocAdapters s) xs" by (simp add: api_inv_def)
  have "\<exists>m ok. ?hist \<noteq> [] \<and> last ?hist = ApiOpen m ok \<and> (ProcMsg False \<notin> set ops \<longrightarrow> ok) \<and>
       (\<forall>k. bit m k \<longleftrightarrow> (\<exists>a \<in> set xs. \<exists>d. api_adapters s a = Some d \<and> bit (mEvtMask d) k) \<and> k < 64 \<and>
          \<not> bit (mExcludedMask s) k)" if "xs \<noteq> []"
  proof -
    from inv that assms(3) obtain m ok where m: "?hist \<noteq> []" "getEvtMask s = Some m" "last ?hist = ApiOpen m ok"
      by (auto simp: api_inv_def)
    then have "ApiOpen m ok \<in> set ?hist" using last_in_set [of ?hist] by simp
    then have "ApiOpen m ok \<in> set (concat outs)" by simp
    then have "ProcMsg False \<notin> set ops \<longrightarrow> ok" using api_run_opens [OF assms(1)] by blast
    moreover from m(2) rel obtain m0 where m0: "or_masks s xs = Some m0" "m = m0 AND NOT (mExcludedMask s)"
      by (auto simp: getEvtMask_def tab_rel_def)
    have "bit m k \<longleftrightarrow> (\<exists>a \<in> set xs. \<exists>d. api_adapters s a = Some d \<and> bit (mEvtMask d) k) \<and> k < 64 \<and> \<not> bit (mExcludedMask s) k" for k
      using or_masks_bit [OF m0(1), of k] bit_imp_le_length [of m0 k]
      by (auto simp: m0(2) bit_and_iff bit_not_iff)
    ultimately show ?thesis using m by blast
  qed
  with rel inv assms(3) show ?thesis
    by (intro exI [of _ xs]) (fastforce simp: tab_rel_def tab_def api_inv_def)
qed

lemma api_mask_settled_witness:
  "\<exists>outs s m. run_ops api_step api_demo (api_start 1) = Some (outs, s) \<and>
     last (filter is_conn (concat outs)) = ApiOpen m True"
proof -
  obtain outs s where r: "run_ops api_step api_demo (api_start 1) = Some (outs, s)" "api_msgs s = []"
      "mLocAdapters s = map Some [1, 2] @ replicate 8 None"
    by (rule api_demo_run)
  have "ProcMsg False \<notin> set api_demo" by (simp add: api_demo_def)
  with api_mask_settled [OF r(1) api_demo_ok r(2)] r(3) obtain m where
    "last (filter is_conn (concat outs)) = ApiOpen m True"
    by (metis (full_types) to_all.simps(1) to_all_map list.simps(9) neq_Nil_conv)
  with r(1) show ?thesis by blast
qed

text \<open>The engine refuses to open: the adapter stays registered and nothing is left that would try again.\<close>

lemma api_refused_open:
  "case run_ops api_step [NewAdapter 1 0b101 True False, ProcMsg False] (api_start 0) of
     None \<Rightarrow> False
   | Some (outs, s) \<Rightarrow> concat outs = [ApiOpen 0b101 False] \<and> to_all (mLocAdapters s) = [1] \<and> api_msgs s = []"
  by code_simp

text \<open>In every state that can be reached, every call of a living adapter, every event and the
processing of the next message is defined, except for the message that is to tell an adapter which
has been destroyed in the meantime that the engine is up.\<close>

theorem api_defined:
  assumes "run_ops api_step ops (api_start excluded) = Some (outs, s)"
    and "ops_ok api_ok api_step ops (api_start excluded)" and "subject_live x s"
  shows "\<exists>new s'. api_step x s = Some (new, s')"
  using api_run_inv [OF api_start_inv assms(2,1)] api_step_defined [of s _ _ x] assms(3) by fastforce

lemma api_defined_witness:
  "\<exists>outs s new s'. run_ops api_step api_demo (api_start 1) = Some (outs, s) \<and> api_step EngineDown s = Some (new, s')"
proof -
  obtain outs s where r: "run_ops api_step api_demo (api_start 1) = Some (outs, s)" by (rule api_demo_run)
  from api_defined [OF r api_demo_ok, of EngineDown] r show ?thesis by auto
qed

text \<open>An adapter that is destroyed before the message of its registration is processed is told
through a dangling pointer that the engine is up: the run has undefined behaviour.\<close>

theorem api_open_after_destroy:
  "run_ops api_step [NewAdapter 1 5 True False, DestroyAdapter 1, ProcMsg True] (api_start 0) = None \<and>
   run_ops api_step [NewAdapter 1 5 True False, DestroyAdapter 1, ProcMsg False] (api_start 0) \<noteq> None"
  by code_simp

text \<open>In every state that can be reached, an event for all is passed to every adapter of the array
exactly once, in its order; the other events are passed on up to the first adapter that handles
them and to none after it.\<close>

theorem api_delivery:
  assumes "run_ops api_step ops (api_start excluded) = Some (outs, s)"
    and "ops_ok api_ok api_step ops (api_start excluded)"
  shows "\<exists>xs. mLocAdapters s = map Some xs @ replicate (MAX_ADAPTERS - length xs) None \<and> distinct xs \<and>
    deliver handles e s = Some (map (Deliver e)
      (if first_handling e then takeWhile (\<lambda>a. \<not> handles a) xs @ take 1 (dropWhile (\<lambda>a. \<not> handles a) xs) else xs))"
proof -
  from api_run_inv [OF api_start_inv assms(2,1)] obtain xs where inv: "api_inv s xs (filter is_conn (concat outs))"
    by auto
  have f: "to_1st_handling handles (map Some ys @ replicate n None) =
      takeWhile (\<lambda>a. \<not> handles a) ys @ take 1 (dropWhile (\<lambda>a. \<not> handles a) ys)" for ys n
  proof (induction ys)
    case Nil
    show ?case by (cases n) simp_all
  qed auto
  obtain outs where "deliver handles e s = Some outs" using deliver_defined [OF inv] by blast
  with inv show ?thesis
    by (intro exI [of _ xs]) (auto simp: deliver_def Let_def api_inv_def tab_rel_def tab_def f to_all_map split: if_splits)
qed

lemma api_delivery_witness:
  "\<exists>outs s. run_ops api_step api_demo (api_start 1) = Some (outs, s) \<and>
     deliver (\<lambda>_. True) requestATL s = Some [Deliver requestATL 1]"
proof -
  obtain outs s where r: "run_ops api_step api_demo (api_start 1) = Some (outs, s)"
      "mLocAdapters s = map Some [1, 2] @ replicate 8 None" by (rule api_demo_run)
  have tw: "takeWhile (\<lambda>a. False) ys = []" for ys :: "addr list" by (cases ys) simp_all
  from api_delivery [OF r(1) api_demo_ok, of "\<lambda>_. True" requestATL] obtain xs where
    x: "mLocAdapters s = map Some xs @ replicate (MAX_ADAPTERS - length xs) None"
      "deliver (\<lambda>_. True) requestATL s = Some (map (Deliver requestATL) (take 1 xs))" by (auto simp: tw)
  from x(1) r(2) have "xs = [1, 2]" by (metis to_all_map)
  with x(2) r(1) show ?thesis by simp
qed

text \<open>Any sequence of additions and removals behaves on the array as on a sequence of distinct
adapters: an addition appends, unless the adapter is there or the array is full; a removal moves
the last adapter into the gap; the engine is opened anew after each change, and closed after the
removal of the last one.\<close>

theorem api_table_trace:
  "\<exists>ps. run_ops tab_step ops (replicate MAX_ADAPTERS None) = Some (fst (run_spec tab_spec ops []), ps) \<and>
     ps = map Some (snd (run_spec tab_spec ops [])) @ replicate (MAX_ADAPTERS - length (snd (run_spec tab_spec ops []))) None"
proof -
  have "ops_ok (\<lambda>_ _. True) tab_step ops ps" for ps by (induction ops arbitrary: ps) (auto split: option.split)
  moreover have "tab_rel (replicate MAX_ADAPTERS None) []" by (simp add: tab_rel_def tab_def)
  ultimately show ?thesis using tb.run_refines by (fastforce simp: tab_rel_def tab_def)
qed

end
