(* ===== verification/Loc_Address.thy ===== *)
theory Loc_Address
  imports Loc_Prelude
begin

text \<open>
  The two text conversions of gps/core/LocApiBase.cpp: \<open>hexcode\<close>, which prints bytes in hexadecimal,
  and \<open>decodeAddress\<close>, which reads the digits of a telephone address out of their half bytes. The
  size of a buffer is an argument; None is an access outside of it. Whether char is signed, which
  matters to \<open>hexcode\<close>, is an argument too. The theorems show that the buffers are respected,
  which text is produced, and that decoding gives back the digits that were packed.
\<close>

type_synonym byte = "8 word"

section \<open>Hexadecimal text\<close>

definition hex_digit :: "nat \<Rightarrow> char" where
  "hex_digit n = (if n < 10 then char_of (48 + n) else char_of (55 + n))"

text \<open>
  The two characters that \<open>snprintf(p, 3, "%02X", ch)\<close> leaves before the terminator: a negative
  \<open>ch\<close> is promoted to an int whose text starts with FF.
\<close>

definition hex_text :: "bool \<Rightarrow> byte \<Rightarrow> string" where
  "hex_text char_signed ch =
     (if char_signed \<and> unat ch \<ge> 128 then ''FF'' else [hex_digit (unat ch div 16), hex_digit (unat ch mod 16)])"

text \<open>
  The text written, None if not even a terminator was, and the number of bytes printed.
\<close>

fun hex_loop :: "bool \<Rightarrow> int \<Rightarrow> int \<Rightarrow> byte list \<Rightarrow> string option \<Rightarrow> string option \<times> int" where
  "hex_loop sg string_size i [] out = (out, i)"
| "hex_loop sg string_size i (ch # bs) out =
     (if i * 2 + 3 \<le> string_size
      then hex_loop sg string_size (i + 1) bs (Some ((case out of None \<Rightarrow> [] | Some t \<Rightarrow> t) @ hex_text sg ch))
      else (out, i))"

definition hexcode :: "bool \<Rightarrow> int \<Rightarrow> byte list \<Rightarrow> string option \<times> int" where
  "hexcode char_signed string_size data = hex_loop char_signed string_size 0 data None"

section \<open>Packed digits\<close>

definition ADDR_PREFIX :: byte where "ADDR_PREFIX = 0x91"

definition put_digit :: "int \<Rightarrow> nat \<Rightarrow> string \<Rightarrow> string" where
  "put_digit string_size d out =
     (if d \<le> 9 \<and> int (length out) < string_size - 1 then out @ [char_of (d + 48)] else out)"

fun decode_loop :: "int \<Rightarrow> byte list \<Rightarrow> string \<Rightarrow> string" where
  "decode_loop string_size [] out = out"
| "decode_loop string_size (ch # cs) out =
     (let low = unat (ch AND 0x0F); hi = unat (drop_bit 4 ch)
      in decode_loop string_size cs (put_digit string_size hi (put_digit string_size low out)))"

text \<open>The arguments may be NULL; the address that is written and the number of its digits.\<close>

definition decodeAddress :: "bool \<Rightarrow> int \<Rightarrow> byte list option \<Rightarrow> nat \<Rightarrow> (string option \<times> int) option" where
  "decodeAddress has_buffer string_size data data_size =
     (case data of
        None \<Rightarrow> Some (None, 0)
      | Some bytes \<Rightarrow>
          if \<not> has_buffer then Some (None, 0)
          else if bytes = [] then None
          else if hd bytes \<noteq> ADDR_PREFIX then (if string_size < 1 then None else Some (Some [], 0))
          else if data_size > length bytes then None
          else (let out = decode_loop string_size (drop 1 (take data_size bytes)) []
                in if int (length out) < string_size then Some (Some out, int (length out)) else None))"

section \<open>Lemmas\<close>

definition digit_of :: "nat \<Rightarrow> string" where
  "digit_of d = (if d \<le> 9 then [char_of (d + 48)] else [])"

definition digits_of :: "byte list \<Rightarrow> string" where
  "digits_of bs = concat (map (\<lambda>b. digit_of (unat (b AND 0x0F)) @ digit_of (unat (drop_bit 4 b))) bs)"

lemma put_digit_take:
  "put_digit sz d (take (nat (sz - 1)) xs) = take (nat (sz - 1)) (take (nat (sz - 1)) xs @ digit_of d)"
  by (auto simp: put_digit_def digit_of_def min_def)

lemma decode_loop_take:
  "decode_loop sz bs (take (nat (sz - 1)) xs) = take (nat (sz - 1)) (xs @ digits_of bs)"
proof (induction bs arbitrary: xs)
  case Nil
  show ?case by (simp add: digits_of_def)
next
  case (Cons b bs)
  let ?n = "nat (sz - 1)"
  have t: "take ?n (take ?n ys @ zs) = take ?n (ys @ zs)" for ys zs :: string by (auto simp: min_def)
  have "put_digit sz h (put_digit sz l (take ?n xs)) = take ?n (xs @ digit_of l @ digit_of h)" for h l
    unfolding put_digit_take t using put_digit_take [of sz h "xs @ digit_of l"] t by simp
  with Cons.IH [of "xs @ digit_of (unat (b AND 0x0F)) @ digit_of (unat (drop_bit 4 b))"] show ?case
    by (simp add: Let_def digits_of_def)
qed

text \<open>The packing: the low half byte comes first, an odd number of digits is filled up with F.\<close>

fun pack_digits :: "nat list \<Rightarrow> byte list" where
  "pack_digits [] = []"
| "pack_digits [d] = [word_of_nat (d + 240)]"
| "pack_digits (d # e # ds) = word_of_nat (d + 16 * e) # pack_digits ds"

lemma nibbles:
  assumes "d < 16" "e < 16"
  shows "unat (word_of_nat (d + 16 * e) AND 0x0F :: byte) = d" "unat (drop_bit 4 (word_of_nat (d + 16 * e)) :: byte) = e"
proof -
  define w :: byte where "w = word_of_nat (d + 16 * e)"
  have "d + 16 * e < 2 ^ LENGTH(8)" using assms by simp
  then have u: "unat w = d + 16 * e" unfolding w_def by (simp only: unsigned_of_nat take_bit_nat_eq_self of_nat_eq_id id_apply)
  have "w AND 0x0F = take_bit 4 w"
    by (simp add: take_bit_eq_mask mask_eq_exp_minus_1)
  then have "unat (w AND 0x0F) = d"
    using u assms(1) by (simp add: take_bit_eq_mod unat_mod_distrib)
  then show "unat (word_of_nat (d + 16 * e) AND 0x0F :: byte) = d" by (simp only: w_def)
  have "unat (drop_bit 4 w) = e"
    using u assms(1) by (simp add: drop_bit_eq_div unat_div_distrib)
  then show "unat (drop_bit 4 (word_of_nat (d + 16 * e)) :: byte) = e" by (simp only: w_def)
qed

lemma digits_of_pack: "\<forall>d \<in> set ds. d \<le> 9 \<Longrightarrow> digits_of (pack_digits ds) = map (\<lambda>d. char_of (d + 48)) ds"
proof (induction ds rule: pack_digits.induct)
  case (2 d)
  then show ?case using nibbles [of d 15] by (simp add: digits_of_def digit_of_def)
next
  case (3 d e ds)
  then show ?case using nibbles [of d e] by (simp add: digits_of_def digit_of_def)
qed (simp add: digits_of_def)

lemma hex_loop_take:
  assumes "0 \<le> i" and "i * 2 + 1 \<le> sz"
  shows "hex_loop sg sz i bs (Some t) =
    (Some (t @ concat (map (hex_text sg) (take (nat ((sz - 1) div 2 - i)) bs))),
     i + int (min (length bs) (nat ((sz - 1) div 2 - i))))"
  using assms
proof (induction bs arbitrary: i t)
  case (Cons b bs)
  show ?case
  proof (cases "i * 2 + 3 \<le> sz")
    case True
    then have n: "nat ((sz - 1) div 2 - i) = Suc (nat ((sz - 1) div 2 - (i + 1)))"
      using Cons.prems(1) by (simp flip: Suc_nat_eq_nat_zadd1)
    from True Cons.IH [of "i + 1"] Cons.prems(1) show ?thesis by (simp add: n)
  next
    case False
    with Cons.prems have "(sz - 1) div 2 = i" by linarith
    with False show ?thesis by simp
  qed
qed simp

section \<open>Properties\<close>

text \<open>Into a buffer of at least one character, \<open>decodeAddress\<close> writes the decimal digits found in the
half bytes after the prefix, the low half of each byte first, as many as fit beside the
terminator, and returns their number; without the prefix it writes the empty text. Neither the
buffer nor the data is overrun.\<close>

theorem decode_address_exact:
  assumes "1 \<le> string_size" and "bytes \<noteq> []" and "data_size \<le> length bytes"
  shows "decodeAddress True string_size (Some bytes) data_size =
    (let digits = (if hd bytes = ADDR_PREFIX then take (nat (string_size - 1)) (digits_of (drop 1 (take data_size bytes))) else [])
     in Some (Some digits, int (length digits)))"
  using assms decode_loop_take [of string_size "drop 1 (take data_size bytes)" "[]"]
  by (auto simp: decodeAddress_def Let_def min_def)

lemma decode_address_exact_witness:
  "decodeAddress True 4 (Some [0x91, 0x21, 0x43, 0xF5]) 4 = Some (Some ''123'', 3)"
  by (subst decode_address_exact) (simp_all, code_simp)

text \<open>Decoding gives back the digits that were packed behind the prefix, if they fit.\<close>

theorem decode_address_roundtrip:
  assumes "\<forall>d \<in> set ds. d \<le> 9" and "int (length ds) < string_size"
  shows "decodeAddress True string_size (Some (ADDR_PREFIX # pack_digits ds)) (Suc (length (pack_digits ds))) =
    Some (Some (map (\<lambda>d. char_of (d + 48)) ds), int (length ds))"
  using assms decode_loop_take [of string_size "pack_digits ds" "[]"]
  by (auto simp: decodeAddress_def Let_def digits_of_pack)

lemma decode_address_roundtrip_witness:
  "decodeAddress True 20 (Some (ADDR_PREFIX # pack_digits [4, 9, 1, 7, 0])) (Suc (length (pack_digits [4, 9, 1, 7, 0])))
     = Some (Some ''49170'', 5)"
proof -
  have m: "map (\<lambda>d. char_of (d + 48)) [4, 9, 1, 7, 0 :: nat] = ''49170''" by code_simp
  have "\<forall>d \<in> set [4, 9, 1, 7, 0 :: nat]. d \<le> 9" "int (length [4, 9, 1, 7, 0 :: nat]) < 20" by simp_all
  from decode_address_roundtrip [OF this] show ?thesis unfolding m by simp
qed

text \<open>With unsigned chars \<open>hexcode\<close> prints two digits for each byte, as many bytes as fit into the
buffer, and returns their number.\<close>

theorem hexcode_exact:
  assumes "3 \<le> string_size" and "data \<noteq> []"
  shows "hexcode False string_size data =
    (let n = min (length data) (nat ((string_size - 1) div 2))
     in (Some (concat (map (\<lambda>b. [hex_digit (unat b div 16), hex_digit (unat b mod 16)]) (take n data))), int n))"
proof -
  obtain b bs where d: "data = b # bs" using assms(2) by (cases data) auto
  have n: "nat ((string_size - 1) div 2) = Suc (nat ((string_size - 1) div 2 - 1))" using assms(1) by simp
  have h: "hex_text False = (\<lambda>b. [hex_digit (unat b div 16), hex_digit (unat b mod 16)])"
    by (simp add: hex_text_def fun_eq_iff)
  from hex_loop_take [of 1 string_size False bs] assms(1) show ?thesis
    by (simp add: hexcode_def d n h Let_def) (simp add: min_def)
qed

lemma hexcode_exact_witness: "hexcode False 6 [0x0A, 0xF3, 0x77] = (Some ''0AF3'', 2)"
  by (subst hexcode_exact) (simp_all, code_simp)

end
