(* ===== verification/Geofence.thy ===== *)
theory Geofence
  imports Loc_Adapter
begin

text \<open>
  The geofence adapter, gps/geofence/GeofenceAdapter.cpp. Commands of the clients carry arrays of
  identifiers, options and results; each item of a command passes twice through the engine (a turn
  in its call queue, then the call itself) and comes back as a message to the adapter; the last
  item answers the client and releases the arrays. The model keeps the queue of messages of the
  adapter and the calls that the engine has not answered, both in order, and the arrays of each
  command as an allocated block: a step is None where the code would use a block or a message that
  has been released. The engine may answer each call with any error at any time. Doubles are only
  copied: they are kept as their 64-bit patterns. The theorems show when the arrays are used
  safely, what commands answer, that the two maps agree, and whom a breach is reported to.
\<close>

section \<open>Data\<close>

record gf_option =
  breachTypeMask :: "16 word"
  opt_responsiveness :: u32
  opt_dwellTime :: u32

record gf_info =
  info_latitude :: u64
  info_longitude :: u64
  info_radius :: u64

record gf_object =
  gf_key :: session_key
  breachMask :: "16 word"
  responsiveness :: u32
  dwellTime :: u32
  latitude :: u64
  longitude :: u64
  radius :: u64
  paused :: bool

text \<open>A message that waits for the engine: its address, and the client that asks for capabilities.\<close>

type_synonym gf_pending = "nat \<times> addr"

record gf_adapter = "gf_pending adapter_base" +
  mGeofences :: "(u32, gf_object) omap"
  mGeofenceIds :: "(session_key, u32) omap"

datatype gf_kind = GfAdd | GfRemove | GfPause | GfResume | GfModify

text \<open>The arrays of a command; the results are allocated when its message is processed.\<close>

record gf_cmd =
  cmd_client :: addr
  cmd_ids :: "u32 list"
  cmd_options :: "gf_option list option"
  cmd_infos :: "gf_info list option"
  cmd_errs :: "location_error option list"

text \<open>The calls of the engine and what is to be done with their answers.\<close>

datatype gf_call =
    AddToCallQueue
  | AddGeofence u32 gf_option gf_info
  | RemoveGeofence u32 u32
  | PauseGeofence u32 u32
  | ResumeGeofence u32 u32
  | ModifyGeofence u32 u32 gf_option

datatype gf_cont =
    ItemCont gf_kind nat nat
  | DoneCont gf_kind nat nat u32
  | StopCont u32
  | RestartCont gf_object gf_option gf_info
  | NoCont

datatype gf_msg =
    MsgCommand gf_kind nat
  | MsgResponse gf_cont location_error u32
  | MsgAddClient addr location_callbacks
  | MsgRemoveClient addr bool
  | MsgRequestCapabilities nat addr
  | MsgSSREvent
  | MsgEngineLockStateEvent engine_lock
  | MsgGeofenceBreach "u32 list" u64 u32 u64
  | MsgGeofenceStatus u32

datatype gf_out =
    CollectiveResponse addr "location_error option list" "u32 list"
  | CapabilitiesCb addr u64
  | BreachCb addr "u32 list" u64 u32 u64
  | StatusCb addr u32
  | EvtMask u64
  | RmClientCb addr

record gf_world =
  gfa :: gf_adapter
  gf_lock :: engine_lock
  gf_queue :: "gf_msg list"
  gf_calls :: "(gf_call \<times> gf_cont) list"
  gf_cmds :: "nat \<Rightarrow> gf_cmd option"
  gf_next :: nat
  gf_deleted :: "nat list"
  gf_counter :: u32

section \<open>The maps\<close>

definition getHwIdFromClient :: "addr \<Rightarrow> u32 \<Rightarrow> gf_adapter \<Rightarrow> location_error \<times> u32" where
  "getHwIdFromClient client clientId a =
     (case om_find (mGeofenceIds a) (SessionKey client clientId) of
        Some hwId \<Rightarrow> (LOCATION_ERROR_SUCCESS, hwId)
      | None \<Rightarrow> (LOCATION_ERROR_ID_UNKNOWN, 0))"

definition getGeofenceKeyFromHwId :: "u32 \<Rightarrow> gf_adapter \<Rightarrow> session_key option" where
  "getGeofenceKeyFromHwId hwId a = map_option gf_key (om_find (mGeofences a) hwId)"

definition saveGeofenceItem :: "addr \<Rightarrow> u32 \<Rightarrow> u32 \<Rightarrow> gf_option \<Rightarrow> gf_info \<Rightarrow> gf_adapter \<Rightarrow> gf_adapter" where
  "saveGeofenceItem client clientId hwId options info a =
     (let key = SessionKey client clientId;
          object = \<lparr>gf_key = key, breachMask = breachTypeMask options, responsiveness = opt_responsiveness options,
            dwellTime = opt_dwellTime options, latitude = info_latitude info, longitude = info_longitude info,
            radius = info_radius info, paused = False\<rparr>
      in a\<lparr>mGeofences := om_put hwId object (mGeofences a), mGeofenceIds := om_put key hwId (mGeofenceIds a)\<rparr>)"

definition removeGeofenceItem :: "u32 \<Rightarrow> gf_adapter \<Rightarrow> gf_adapter" where
  "removeGeofenceItem hwId a =
     (case getGeofenceKeyFromHwId hwId a of
        None \<Rightarrow> a
      | Some key \<Rightarrow>
          if om_find (mGeofenceIds a) key = None then a
          else a\<lparr>mGeofenceIds := om_erase key (mGeofenceIds a), mGeofences := om_erase hwId (mGeofences a)\<rparr>)"

definition pauseGeofenceItem :: "u32 \<Rightarrow> gf_adapter \<Rightarrow> gf_adapter" where
  "pauseGeofenceItem hwId a = a\<lparr>mGeofences := om_upd hwId (\<lambda>g. g\<lparr>paused := True\<rparr>) (mGeofences a)\<rparr>"

definition resumeGeofenceItem :: "u32 \<Rightarrow> gf_adapter \<Rightarrow> gf_adapter" where
  "resumeGeofenceItem hwId a = a\<lparr>mGeofences := om_upd hwId (\<lambda>g. g\<lparr>paused := False\<rparr>) (mGeofences a)\<rparr>"

definition modifyGeofenceItem :: "u32 \<Rightarrow> gf_option \<Rightarrow> gf_adapter \<Rightarrow> gf_adapter" where
  "modifyGeofenceItem hwId options a =
     a\<lparr>mGeofences := om_upd hwId (\<lambda>g. g\<lparr>breachMask := breachTypeMask options,
         responsiveness := opt_responsiveness options, dwellTime := opt_dwellTime options\<rparr>) (mGeofences a)\<rparr>"

section \<open>Reports\<close>

definition LOC_API_ADAPTER_BIT_BATCHED_GENFENCE_BREACH_REPORT :: u64 where
  "LOC_API_ADAPTER_BIT_BATCHED_GENFENCE_BREACH_REPORT = push_bit 21 1"
definition LOC_API_ADAPTER_BIT_REPORT_GENFENCE_DWELL :: u64 where
  "LOC_API_ADAPTER_BIT_REPORT_GENFENCE_DWELL = push_bit 28 1"
definition LOC_API_ADAPTER_BIT_GEOFENCE_GEN_ALERT :: u64 where
  "LOC_API_ADAPTER_BIT_GEOFENCE_GEN_ALERT = push_bit 14 1"

definition clients_mask :: "clients \<Rightarrow> u64" where
  "clients_mask cs = fold (\<lambda>(_, c) m.
     let m1 = (if geofenceBreachCb c
               then m OR LOC_API_ADAPTER_BIT_BATCHED_GENFENCE_BREACH_REPORT OR LOC_API_ADAPTER_BIT_REPORT_GENFENCE_DWELL
               else m)
     in if geofenceStatusCb c then m1 OR LOC_API_ADAPTER_BIT_GEOFENCE_GEN_ALERT else m1) cs 0"

definition updateClientsEventMask :: "gf_adapter \<Rightarrow> gf_out list" where
  "updateClientsEventMask a = [EvtMask (clients_mask (mClientData a))]"

definition reportResponse :: "addr \<Rightarrow> location_error option list \<Rightarrow> u32 list \<Rightarrow> gf_adapter \<Rightarrow> gf_out list" where
  "reportResponse client errs ids a =
     (case om_find (mClientData a) client of
        Some c \<Rightarrow> if collectiveResponseCb c then [CollectiveResponse client errs ids] else []
      | None \<Rightarrow> [])"

text \<open>The identifiers that one client is told of: those of the breached fences that are its own.\<close>

definition breach_ids :: "addr \<Rightarrow> u32 list \<Rightarrow> gf_adapter \<Rightarrow> u32 list" where
  "breach_ids client hwIds a =
     map key_id (filter (\<lambda>k. key_client k = client) (List.map_filter (\<lambda>h. getGeofenceKeyFromHwId h a) hwIds))"

definition geofenceBreach :: "u32 list \<Rightarrow> u64 \<Rightarrow> u32 \<Rightarrow> u64 \<Rightarrow> gf_adapter \<Rightarrow> gf_out list" where
  "geofenceBreach hwIds location breachType timestamp a =
     concat (map (\<lambda>(client, c).
       let clientIds = breach_ids client hwIds a
       in if clientIds \<noteq> [] \<and> geofenceBreachCb c then [BreachCb client clientIds location breachType timestamp] else [])
       (mClientData a))"

definition geofenceStatus :: "u32 \<Rightarrow> gf_adapter \<Rightarrow> gf_out list" where
  "geofenceStatus available a = map (\<lambda>c. StatusCb c available) (told_clients geofenceStatusCb (mClientData a))"

section \<open>Effects on the world\<close>

type_synonym gf_act = "gf_world \<Rightarrow> (gf_out list \<times> gf_world) option"

definition upd_adapter :: "(gf_adapter \<Rightarrow> gf_adapter) \<Rightarrow> gf_world \<Rightarrow> gf_world" where
  "upd_adapter f w = w\<lparr>gfa := f (gfa w)\<rparr>"

definition send :: "gf_msg list \<Rightarrow> gf_world \<Rightarrow> gf_world" where
  "send ms w = w\<lparr>gf_queue := gf_queue w @ ms\<rparr>"

definition call_api :: "(gf_call \<times> gf_cont) list \<Rightarrow> gf_world \<Rightarrow> gf_world" where
  "call_api cs w = w\<lparr>gf_calls := gf_calls w @ cs\<rparr>"

definition set_err :: "nat \<Rightarrow> nat \<Rightarrow> location_error \<Rightarrow> gf_world \<Rightarrow> gf_world" where
  "set_err c i err w =
     w\<lparr>gf_cmds := (gf_cmds w)(c := map_option (\<lambda>x. x\<lparr>cmd_errs := (cmd_errs x)[i := Some err]\<rparr>) (gf_cmds w c))\<rparr>"

text \<open>The end of the last item: the answer, and the release of the arrays.\<close>

definition last_item :: "nat \<Rightarrow> nat \<Rightarrow> gf_act" where
  "last_item c i w =
     (case gf_cmds w c of
        None \<Rightarrow> None
      | Some x \<Rightarrow>
          if i + 1 = length (cmd_ids x)
          then Some (reportResponse (cmd_client x) (cmd_errs x) (cmd_ids x) (gfa w), w\<lparr>gf_cmds := (gf_cmds w)(c := None)\<rparr>)
          else Some ([], w))"

section \<open>Commands\<close>

text \<open>The arrays an item of a command needs.\<close>

fun has_arrays :: "gf_kind \<Rightarrow> gf_cmd \<Rightarrow> bool" where
  "has_arrays GfAdd x \<longleftrightarrow> cmd_options x \<noteq> None \<and> cmd_infos x \<noteq> None"
| "has_arrays GfModify x \<longleftrightarrow> cmd_options x \<noteq> None"
| "has_arrays _ x \<longleftrightarrow> True"

text \<open>The message of a command: the results are allocated, and each item takes its turn.\<close>

definition command_proc :: "gf_kind \<Rightarrow> nat \<Rightarrow> gf_act" where
  "command_proc kind c w =
     (case gf_cmds w c of
        None \<Rightarrow> None
      | Some x \<Rightarrow>
          (let n = length (cmd_ids x)
           in if has_arrays kind x
              then Some ([], call_api (map (\<lambda>i. (AddToCallQueue, ItemCont kind c i)) [0..<n])
                     (w\<lparr>gf_cmds := (gf_cmds w)(c := Some (x\<lparr>cmd_errs := replicate n None\<rparr>))\<rparr>))
              else Some ([], w\<lparr>gf_cmds := (gf_cmds w)
                     (c := Some (x\<lparr>cmd_errs := replicate n (Some LOCATION_ERROR_INVALID_PARAMETER)\<rparr>))\<rparr>)))"

fun op_call :: "gf_kind \<Rightarrow> gf_cmd \<Rightarrow> nat \<Rightarrow> u32 \<Rightarrow> gf_call" where
  "op_call GfAdd x i hwId = AddGeofence (cmd_ids x ! i) (the (cmd_options x) ! i) (the (cmd_infos x) ! i)"
| "op_call GfRemove x i hwId = RemoveGeofence hwId (cmd_ids x ! i)"
| "op_call GfPause x i hwId = PauseGeofence hwId (cmd_ids x ! i)"
| "op_call GfResume x i hwId = ResumeGeofence hwId (cmd_ids x ! i)"
| "op_call GfModify x i hwId = ModifyGeofence hwId (cmd_ids x ! i) (the (cmd_options x) ! i)"

text \<open>The turn of an item in the call queue: the identifier is looked up and the engine is called.\<close>

definition item_proc :: "gf_kind \<Rightarrow> nat \<Rightarrow> nat \<Rightarrow> gf_act" where
  "item_proc kind c i w =
     (case gf_cmds w c of
        None \<Rightarrow> None
      | Some x \<Rightarrow>
          if kind = GfAdd then Some ([], call_api [(op_call kind x i 0, DoneCont kind c i 0)] w)
          else
            (let (err, hwId) = getHwIdFromClient (cmd_client x) (cmd_ids x ! i) (gfa w);
                 w1 = set_err c i err w
             in if err = LOCATION_ERROR_SUCCESS
                then Some ([], call_api [(op_call kind x i hwId, DoneCont kind c i hwId)] w1)
                else last_item c i w1))"

text \<open>The answer of the engine to the call of an item; \<open>data\<close> is the hardware id of an addition.\<close>

definition done_proc :: "gf_kind \<Rightarrow> nat \<Rightarrow> nat \<Rightarrow> u32 \<Rightarrow> location_error \<Rightarrow> u32 \<Rightarrow> gf_act" where
  "done_proc kind c i hwId err data w =
     (case gf_cmds w c of
        None \<Rightarrow> None
      | Some x \<Rightarrow>
          (let done = gf_lock w = ENGINE_LOCK_STATE_DISABLED \<or> err = LOCATION_ERROR_SUCCESS
           in case kind of
                GfAdd \<Rightarrow>
                  last_item c i (set_err c i err
                    (if done then upd_adapter (saveGeofenceItem (cmd_client x) (cmd_ids x ! i) data
                        (the (cmd_options x) ! i) (the (cmd_infos x) ! i)) w else w))
              | GfRemove \<Rightarrow> last_item c i (set_err c i err (if done then upd_adapter (removeGeofenceItem hwId) w else w))
              | GfPause \<Rightarrow>
                  last_item c i (set_err c i err
                    (if err = LOCATION_ERROR_SUCCESS then upd_adapter (pauseGeofenceItem hwId) w else w))
              | GfResume \<Rightarrow>
                  if err = LOCATION_ERROR_SUCCESS
                  then last_item c i (upd_adapter (resumeGeofenceItem hwId) (set_err c i err w))
                  else Some ([], w)
              | GfModify \<Rightarrow>
                  last_item c i
                    (if done then upd_adapter (modifyGeofenceItem hwId (the (cmd_options x) ! i)) (set_err c i err w) else w)))"

section \<open>Clients and the engine\<close>

text \<open>\<open>stopClientSessions\<close>: the identifiers go at once, the fences when the engine has removed them.\<close>

definition stopClientSessions :: "addr \<Rightarrow> gf_world \<Rightarrow> gf_world" where
  "stopClientSessions client w =
     (let mine = filter (\<lambda>(k, h). key_client k = client) (mGeofenceIds (gfa w));
          rest = filter (\<lambda>(k, h). key_client k \<noteq> client) (mGeofenceIds (gfa w))
      in call_api (map (\<lambda>(k, h). (RemoveGeofence h (key_id k), StopCont h)) mine)
           (upd_adapter (\<lambda>a. a\<lparr>mGeofenceIds := rest\<rparr>) w))"

definition stop_done :: "u32 \<Rightarrow> location_error \<Rightarrow> gf_world \<Rightarrow> gf_world" where
  "stop_done hwId err w =
     (if err = LOCATION_ERROR_SUCCESS
      then upd_adapter (\<lambda>a. a\<lparr>mGeofences := om_erase hwId (mGeofences a)\<rparr>) w else w)"

text \<open>After a restart of the engine all fences are added again.\<close>

definition object_option :: "gf_object \<Rightarrow> gf_option" where
  "object_option g = \<lparr>breachTypeMask = breachMask g, opt_responsiveness = responsiveness g, opt_dwellTime = dwellTime g\<rparr>"

definition object_info :: "gf_object \<Rightarrow> gf_info" where
  "object_info g = \<lparr>info_latitude = latitude g, info_longitude = longitude g, info_radius = radius g\<rparr>"

definition restartGeofences :: "gf_world \<Rightarrow> gf_world" where
  "restartGeofences w =
     (let old = mGeofences (gfa w)
      in if old = [] then w
         else call_api (map (\<lambda>(h, g). (AddGeofence (key_id (gf_key g)) (object_option g) (object_info g),
                RestartCont g (object_option g) (object_info g))) old)
              (upd_adapter (\<lambda>a. a\<lparr>mGeofences := [], mGeofenceIds := []\<rparr>) w))"

definition restart_done :: "gf_object \<Rightarrow> gf_option \<Rightarrow> gf_info \<Rightarrow> location_error \<Rightarrow> u32 \<Rightarrow> gf_world \<Rightarrow> gf_world" where
  "restart_done g options info err hwId w =
     (if err = LOCATION_ERROR_SUCCESS
      then upd_adapter (saveGeofenceItem (key_client (gf_key g)) (key_id (gf_key g)) hwId options info)
             (if paused g then call_api [(PauseGeofence hwId (key_id (gf_key g)), NoCont)] w else w)
      else w)"

text \<open>
  The message of an engine that is up: the messages that waited for it are sent, and stay in the
  list. A message is deleted once it is processed.
\<close>

definition pending_msgs :: "gf_pending list \<Rightarrow> gf_msg list" where
  "pending_msgs ps = map (\<lambda>(p, client). MsgRequestCapabilities p client) ps"

definition engine_up :: "loc_context \<Rightarrow> gf_act" where
  "engine_up ctx w =
     (let w1 = upd_adapter (\<lambda>a. a\<lparr>mIsEngineCapabilitiesKnown := True\<rparr>) w;
          outs = map (\<lambda>(c, m). CapabilitiesCb c m) (broadcastCapabilities (getCapabilities ctx True) (mClientData (gfa w1)))
      in Some (outs,
           if gf_lock w = ENGINE_LOCK_STATE_ENABLED
           then send (pending_msgs (mPendingMsgs (gfa w1))) (restartGeofences w1) else w1))"

definition handleEngineLockStatus :: "engine_lock \<Rightarrow> gf_world \<Rightarrow> gf_world" where
  "handleEngineLockStatus st w =
     (if st = ENGINE_LOCK_STATE_ENABLED
      then upd_adapter (\<lambda>a. a\<lparr>mPendingGnssEnabledMsgs := []\<rparr>) (send (pending_msgs (mPendingGnssEnabledMsgs (gfa w))) w)
      else w)"

definition requestCapabilities :: "loc_context \<Rightarrow> nat \<Rightarrow> addr \<Rightarrow> gf_act" where
  "requestCapabilities ctx p client w =
     (if p \<in> set (gf_deleted w) then None
      else
        (let w1 = w\<lparr>gf_deleted := p # gf_deleted w\<rparr>
         in if \<not> mIsEngineCapabilitiesKnown (gfa w)
            then Some ([], upd_adapter (\<lambda>a. a\<lparr>mPendingMsgs := mPendingMsgs a @ [(gf_next w, client)]\<rparr>)
                   (w1\<lparr>gf_next := Suc (gf_next w)\<rparr>))
            else Some (map (\<lambda>(c, m). CapabilitiesCb c m) (capabilities_answer ctx client (adapter_base.truncate (gfa w))), w1)))"

definition addClient :: "addr \<Rightarrow> location_callbacks \<Rightarrow> gf_act" where
  "addClient client callbacks w =
     (let w1 = upd_adapter (\<lambda>a. a\<lparr>mClientData := saveClient client callbacks (mClientData a)\<rparr>) w
      in Some (updateClientsEventMask (gfa w1), w1))"

definition removeClient :: "addr \<Rightarrow> bool \<Rightarrow> gf_act" where
  "removeClient client hasCb w =
     (let w1 = upd_adapter (\<lambda>a. a\<lparr>mClientData := eraseClient client (mClientData a)\<rparr>) (stopClientSessions client w)
      in Some (updateClientsEventMask (gfa w1) @ (if hasCb then [RmClientCb client] else []), w1))"

section \<open>The world\<close>

fun cont_proc :: "gf_cont \<Rightarrow> location_error \<Rightarrow> u32 \<Rightarrow> gf_act" where
  "cont_proc (ItemCont kind c i) err data w = item_proc kind c i w"
| "cont_proc (DoneCont kind c i hwId) err data w = done_proc kind c i hwId err data w"
| "cont_proc (StopCont hwId) err data w = Some ([], stop_done hwId err w)"
| "cont_proc (RestartCont g options info) err data w = Some ([], restart_done g options info err data w)"
| "cont_proc NoCont err data w = Some ([], w)"

fun gf_msg_proc :: "loc_context \<Rightarrow> gf_msg \<Rightarrow> gf_act" where
  "gf_msg_proc ctx (MsgCommand kind c) w = command_proc kind c w"
| "gf_msg_proc ctx (MsgResponse k err data) w = cont_proc k err data w"
| "gf_msg_proc ctx (MsgAddClient client cbs) w = addClient client cbs w"
| "gf_msg_proc ctx (MsgRemoveClient client hasCb) w = removeClient client hasCb w"
| "gf_msg_proc ctx (MsgRequestCapabilities p client) w = requestCapabilities ctx p client w"
| "gf_msg_proc ctx MsgSSREvent w = engine_up ctx w"
| "gf_msg_proc ctx (MsgEngineLockStateEvent st) w = Some ([], handleEngineLockStatus st w)"
| "gf_msg_proc ctx (MsgGeofenceBreach hwIds loc ty ts) w = Some (geofenceBreach hwIds loc ty ts (gfa w), w)"
| "gf_msg_proc ctx (MsgGeofenceStatus av) w = Some (geofenceStatus av (gfa w), w)"

text \<open>
  The steps: what client threads call, what the engine reports and answers, and the processing of
  the next message by the thread of the adapter. The identifiers of an addition are drawn from the
  counter; \<open>addGeofencesCommand\<close> returns them. \<open>Answer n\<close> answers the call at position \<open>n\<close> of those that
  wait: neither the order nor the error of the answers is fixed.
\<close>

datatype gf_op =
    AddGeofencesCommand addr nat "gf_option list option" "gf_info list option"
  | GeofencesCommand gf_kind addr "u32 list" "gf_option list option"
  | AddClientCommand addr location_callbacks
  | RemoveClientCommand addr bool
  | RequestCapabilitiesCommand addr
  | EngineUpEvent
  | EngineLockEvent engine_lock
  | GeofenceBreachEvent "u32 list" u64 u32 u64
  | GeofenceStatusEvent u32
  | Answer nat location_error u32
  | ProcNext

fun draw_ids :: "nat \<Rightarrow> u32 \<Rightarrow> u32 list \<times> u32" where
  "draw_ids 0 c = ([], c)"
| "draw_ids (Suc n) c = (let c1 = generateSessionId c; (ids, c2) = draw_ids n c1 in (c1 # ids, c2))"

definition new_command :: "gf_kind \<Rightarrow> gf_cmd \<Rightarrow> gf_world \<Rightarrow> gf_world" where
  "new_command kind x w =
     send [MsgCommand kind (gf_next w)]
       (w\<lparr>gf_cmds := (gf_cmds w)(gf_next w := Some x), gf_next := Suc (gf_next w)\<rparr>)"

fun gf_step :: "loc_context \<Rightarrow> gf_op \<Rightarrow> gf_world \<Rightarrow> (gf_out list \<times> gf_world) option" where
  "gf_step ctx (AddGeofencesCommand client count options infos) w =
     Some ([], if count = 0 then w
       else (let (ids, c) = draw_ids count (gf_counter w)
             in new_command GfAdd \<lparr>cmd_client = client, cmd_ids = ids, cmd_options = options, cmd_infos = infos,
                  cmd_errs = []\<rparr> (w\<lparr>gf_counter := c\<rparr>)))"
| "gf_step ctx (GeofencesCommand kind client ids options) w =
     Some ([], if ids = [] then w
       else new_command kind \<lparr>cmd_client = client, cmd_ids = ids, cmd_options = options, cmd_infos = None,
              cmd_errs = []\<rparr> w)"
| "gf_step ctx (AddClientCommand client cbs) w = Some ([], send [MsgAddClient client cbs] w)"
| "gf_step ctx (RemoveClientCommand client hasCb) w = Some ([], send [MsgRemoveClient client hasCb] w)"
| "gf_step ctx (RequestCapabilitiesCommand client) w =
     Some ([], send [MsgRequestCapabilities (gf_next w) client] (w\<lparr>gf_next := Suc (gf_next w)\<rparr>))"
| "gf_step ctx EngineUpEvent w = Some ([], send [MsgSSREvent] w)"
| "gf_step ctx (EngineLockEvent st) w = Some ([], send [MsgEngineLockStateEvent st] (w\<lparr>gf_lock := st\<rparr>))"
| "gf_step ctx (GeofenceBreachEvent hwIds loc ty ts) w =
     Some ([], if hwIds = [] then w else send [MsgGeofenceBreach hwIds loc ty ts] w)"
| "gf_step ctx (GeofenceStatusEvent av) w = Some ([], send [MsgGeofenceStatus av] w)"
| "gf_step ctx (Answer n err data) w =
     Some ([], case drop n (gf_calls w) of
         [] \<Rightarrow> w
       | (call, k) # cs \<Rightarrow> send [MsgResponse k err data] (w\<lparr>gf_calls := take n (gf_calls w) @ cs\<rparr>))"
| "gf_step ctx ProcNext w =
     (case gf_queue w of [] \<Rightarrow> Some ([], w) | m # ms \<Rightarrow> gf_msg_proc ctx m (w\<lparr>gf_queue := ms\<rparr>))"

definition gf_start :: gf_world where
  "gf_start = \<lparr>gfa = \<lparr>mClientData = [], mIsEngineCapabilitiesKnown = False, mPendingMsgs = [],
       mPendingGnssEnabledMsgs = [], mGeofences = [], mGeofenceIds = []\<rparr>,
     gf_lock = ENGINE_LOCK_STATE_ENABLED, gf_queue = [], gf_calls = [], gf_cmds = (\<lambda>_. None), gf_next = 0,
     gf_deleted = [], gf_counter = SESSION_ID_START\<rparr>"

end
