(* ===== verification/Geofence_Inv.thy ===== *)
theory Geofence_Inv
  imports Geofence
begin

text \<open>
  The arrays of the geofence commands. The invariant describes which messages and which calls
  refer to a command: its message; or, later, a final stretch of its items that wait for their
  turn and some earlier ones that wait for the answer of the engine. Every step of the adapter
  that respects the precondition \<open>gf_ok\<close> is defined and keeps the invariant.
\<close>

section \<open>Who refers to the arrays\<close>

text \<open>
  The references to commands among the messages and the calls that wait, in their order. An answer
  moves the first call to the end of the queue and leaves that order as it is.
\<close>

datatype gf_ref = CmdRef nat | ItemRef nat nat | DoneRef nat nat

fun cont_refs :: "gf_cont \<Rightarrow> gf_ref list" where
  "cont_refs (ItemCont kind c i) = [ItemRef c i]"
| "cont_refs (DoneCont kind c i h) = [DoneRef c i]"
| "cont_refs _ = []"

fun msg_refs :: "gf_msg \<Rightarrow> gf_ref list" where
  "msg_refs (MsgCommand kind c) = [CmdRef c]"
| "msg_refs (MsgResponse k err data) = cont_refs k"
| "msg_refs _ = []"

definition gf_refs :: "gf_world \<Rightarrow> gf_ref list" where
  "gf_refs w = concat (map msg_refs (gf_queue w)) @ concat (map (\<lambda>(call, k). cont_refs k) (gf_calls w))"

fun cmd_ref :: "nat \<Rightarrow> gf_ref \<Rightarrow> unit list" where
  "cmd_ref c (CmdRef d) = (if d = c then [()] else [])"
| "cmd_ref c _ = []"

fun item_ref :: "nat \<Rightarrow> gf_ref \<Rightarrow> nat list" where
  "item_ref c (ItemRef d i) = (if d = c then [i] else [])"
| "item_ref c _ = []"

fun done_ref :: "nat \<Rightarrow> gf_ref \<Rightarrow> nat list" where
  "done_ref c (DoneRef d i) = (if d = c then [i] else [])"
| "done_ref c _ = []"

definition cmd_refs :: "nat \<Rightarrow> gf_ref list \<Rightarrow> unit list" where "cmd_refs c rs = concat (map (cmd_ref c) rs)"
definition item_refs :: "nat \<Rightarrow> gf_ref list \<Rightarrow> nat list" where "item_refs c rs = concat (map (item_ref c) rs)"
definition done_refs :: "nat \<Rightarrow> gf_ref list \<Rightarrow> nat list" where "done_refs c rs = concat (map (done_ref c) rs)"

lemma refs_simps [simp]:
  "cmd_refs c [] = []" "cmd_refs c (r # rs) = cmd_ref c r @ cmd_refs c rs" "cmd_refs c (rs @ ss) = cmd_refs c rs @ cmd_refs c ss"
  "item_refs c [] = []" "item_refs c (r # rs) = item_ref c r @ item_refs c rs" "item_refs c (rs @ ss) = item_refs c rs @ item_refs c ss"
  "done_refs c [] = []" "done_refs c (r # rs) = done_ref c r @ done_refs c rs" "done_refs c (rs @ ss) = done_refs c rs @ done_refs c ss"
  by (simp_all add: cmd_refs_def item_refs_def done_refs_def)

lemma refs_map_item [simp]:
  "cmd_refs c (map (ItemRef d) xs) = []" "item_refs c (map (ItemRef d) xs) = (if c = d then xs else [])"
  "done_refs c (map (ItemRef d) xs) = []"
  by (induction xs) simp_all

text \<open>
  What refers to a command of n items: its message; or the items from p on wait for their turn and
  some of the earlier ones for their answers, the last one among them if all have had their turn
  (nothing refers any more to a command whose last answer came without releasing it).
\<close>

definition refs_of :: "nat \<Rightarrow> nat \<Rightarrow> gf_ref list \<Rightarrow> bool" where
  "refs_of n c rs \<longleftrightarrow>
     cmd_refs c rs = [()] \<and> item_refs c rs = [] \<and> done_refs c rs = [] \<or>
     cmd_refs c rs = [] \<and>
       (\<exists>p \<le> n. item_refs c rs = [p..<n] \<and> sorted_wrt (<) (done_refs c rs) \<and> (\<forall>i \<in> set (done_refs c rs). i < p) \<and>
          (p = n \<longrightarrow> done_refs c rs = [] \<or> last (done_refs c rs) = n - 1))"

definition no_refs :: "nat \<Rightarrow> gf_ref list \<Rightarrow> bool" where
  "no_refs c rs \<longleftrightarrow> cmd_refs c rs = [] \<and> item_refs c rs = [] \<and> done_refs c rs = []"

definition cmds_inv :: "(nat \<Rightarrow> gf_cmd option) \<Rightarrow> nat \<Rightarrow> gf_ref list \<Rightarrow> bool" where
  "cmds_inv cmds nxt rs \<longleftrightarrow>
     (\<forall>c. (case cmds c of None \<Rightarrow> no_refs c rs
            | Some x \<Rightarrow> c < nxt \<and> cmd_ids x \<noteq> [] \<and> refs_of (length (cmd_ids x)) c rs))"

section \<open>Steps of a command\<close>

lemma refs_of_other: "cmd_ref c r = [] \<Longrightarrow> item_ref c r = [] \<Longrightarrow> done_ref c r = [] \<Longrightarrow>
    refs_of n c (r # rs) = refs_of n c rs \<and> no_refs c (r # rs) = no_refs c rs"
  by (simp add: refs_of_def no_refs_def)

text \<open>Replacing the references of one command.\<close>

lemma cmds_inv_step:
  assumes inv: "cmds_inv cmds nxt rs" and le: "nxt \<le> nxt'"
    and other: "\<And>d. d \<noteq> c \<Longrightarrow> cmd_refs d rs' = cmd_refs d rs \<and> item_refs d rs' = item_refs d rs \<and> done_refs d rs' = done_refs d rs"
    and oc: "\<And>d. d \<noteq> c \<Longrightarrow> cmds' d = cmds d"
    and own: "case cmds' c of None \<Rightarrow> no_refs c rs'
        | Some x \<Rightarrow> c < nxt' \<and> cmd_ids x \<noteq> [] \<and> refs_of (length (cmd_ids x)) c rs'"
  shows "cmds_inv cmds' nxt' rs'"
  unfolding cmds_inv_def
proof
  fix d
  show "case cmds' d of None \<Rightarrow> no_refs d rs' | Some x \<Rightarrow> d < nxt' \<and> cmd_ids x \<noteq> [] \<and> refs_of (length (cmd_ids x)) d rs'"
  proof (cases "d = c")
    case True
    show ?thesis unfolding True by (rule own)
  next
    case False
    from inv have "case cmds d of None \<Rightarrow> no_refs d rs | Some x \<Rightarrow> d < nxt \<and> cmd_ids x \<noteq> [] \<and> refs_of (length (cmd_ids x)) d rs"
      by (simp add: cmds_inv_def)
    with other [OF False] oc [OF False] le show ?thesis by (auto simp: refs_of_def no_refs_def split: option.splits)
  qed
qed

lemma refs_alive: "cmds_inv cmds nxt rs \<Longrightarrow> \<not> no_refs c rs \<Longrightarrow> \<exists>x. cmds c = Some x"
  by (cases "cmds c") (auto simp: cmds_inv_def dest: spec [of _ c])

lemma cmds_inv_get: "cmds_inv cmds nxt rs \<Longrightarrow> cmds c = Some x \<Longrightarrow>
    c < nxt \<and> cmd_ids x \<noteq> [] \<and> refs_of (length (cmd_ids x)) c rs"
  by (auto simp: cmds_inv_def dest: spec [of _ c])

text \<open>The message of a command gives way to its items.\<close>

lemma refs_command:
  assumes "refs_of n c (CmdRef c # rs)" and "items = map (ItemRef c) [0..<n] \<or> items = []"
  shows "refs_of n c (rs @ items)"
proof -
  have r: "cmd_refs c rs = []" "item_refs c rs = []" "done_refs c rs = []"
    using assms(1) by (auto simp: refs_of_def)
  from assms(2) show ?thesis
  proof
    assume "items = map (ItemRef c) [0..<n]"
    then show ?thesis by (auto simp: refs_of_def r)
  next
    assume "items = []"
    then show ?thesis by (auto simp: refs_of_def r)
  qed
qed

text \<open>An item has its turn: its call follows, or it is passed over.\<close>

lemma refs_item:
  assumes r: "refs_of n c (ItemRef c i # rs)"
  shows "i < n" "item_refs c rs = [Suc i..<n]" "refs_of n c (rs @ [DoneRef c i])"
    "i + 1 \<noteq> n \<Longrightarrow> refs_of n c rs" "i + 1 = n \<Longrightarrow> done_refs c rs = [] \<Longrightarrow> no_refs c rs"
proof -
  from r obtain p where p: "p \<le> n" "i # item_refs c rs = [p..<n]" "sorted_wrt (<) (done_refs c rs)"
      "\<forall>j \<in> set (done_refs c rs). j < p" "cmd_refs c rs = []"
    by (auto simp: refs_of_def)
  then have i: "i = p" "p < n" "item_refs c rs = [Suc p..<n]" by (auto simp: upt_eq_Cons_conv eq_commute [of "i # _"])
  show "i < n" "item_refs c rs = [Suc i..<n]" using i by simp_all
  show "refs_of n c (rs @ [DoneRef c i])"
    using p i by (auto simp: refs_of_def sorted_wrt_append intro!: exI [of _ "Suc p"])
  show "refs_of n c rs" if "i + 1 \<noteq> n"
    using p i that by (auto simp: refs_of_def intro!: exI [of _ "Suc p"])
  show "no_refs c rs" if "i + 1 = n" "done_refs c rs = []"
    using p i that by (auto simp: no_refs_def)
qed

text \<open>An answer has come: when it was that of the last item nothing refers to the command any more.\<close>

lemma refs_done:
  assumes r: "refs_of n c (DoneRef c i # rs)"
  shows "i < n" "refs_of n c rs" "i + 1 = n \<Longrightarrow> no_refs c rs"
proof -
  from r obtain p where p: "p \<le> n" "item_refs c rs = [p..<n]" "sorted_wrt (<) (i # done_refs c rs)"
      "\<forall>j \<in> set (i # done_refs c rs). j < p" "cmd_refs c rs = []"
      "p = n \<longrightarrow> last (i # done_refs c rs) = n - 1"
    by (auto simp: refs_of_def)
  then show "i < n" by simp
  show "refs_of n c rs" using p by (auto simp: refs_of_def intro!: exI [of _ p] split: if_splits)
  show "no_refs c rs" if "i + 1 = n"
  proof -
    have "p = n" using p that by auto
    moreover have "done_refs c rs = []"
    proof (rule ccontr)
      assume "done_refs c rs \<noteq> []"
      then have "last (done_refs c rs) \<in> set (done_refs c rs)" by simp
      with p that show False by fastforce
    qed
    ultimately show ?thesis using p by (simp add: no_refs_def)
  qed
qed

section \<open>The messages that wait for the engine\<close>

fun caps_id :: "gf_msg \<Rightarrow> nat list" where
  "caps_id (MsgRequestCapabilities p client) = [p]"
| "caps_id _ = []"

definition caps_ids :: "gf_msg list \<Rightarrow> nat list" where
  "caps_ids ms = concat (map caps_id ms)"

lemma caps_ids_simps [simp]: "caps_ids [] = []" "caps_ids (m # ms) = caps_id m @ caps_ids ms"
  "caps_ids (ms @ ns) = caps_ids ms @ caps_ids ns" "caps_ids (pending_msgs ps) = map fst ps"
  by (simp_all add: caps_ids_def) (induction ps, auto simp: pending_msgs_def)

definition caps_inv :: "gf_msg list \<Rightarrow> nat list \<Rightarrow> nat \<Rightarrow> gf_pending list \<Rightarrow> gf_pending list \<Rightarrow> bool" where
  "caps_inv queue deleted nxt ps gs \<longleftrightarrow>
     distinct (caps_ids queue) \<and> (\<forall>p \<in> set (caps_ids queue). p < nxt \<and> p \<notin> set deleted) \<and>
     (\<forall>p \<in> set deleted. p < nxt) \<and> (\<forall>p \<in> set ps. fst p < nxt) \<and> distinct (map fst ps) \<and> gs = []"

definition gf_inv :: "gf_world \<Rightarrow> bool" where
  "gf_inv w \<longleftrightarrow> cmds_inv (gf_cmds w) (gf_next w) (gf_refs w) \<and>
     caps_inv (gf_queue w) (gf_deleted w) (gf_next w) (mPendingMsgs (gfa w)) (mPendingGnssEnabledMsgs (gfa w))"

text \<open>What a step leaves alone that the messages which wait depend on.\<close>

definition same_caps :: "gf_world \<Rightarrow> gf_world \<Rightarrow> bool" where
  "same_caps w w' \<longleftrightarrow> gf_queue w' = gf_queue w \<and> gf_deleted w' = gf_deleted w \<and> gf_next w' = gf_next w \<and>
     mPendingMsgs (gfa w') = mPendingMsgs (gfa w) \<and> mPendingGnssEnabledMsgs (gfa w') = mPendingGnssEnabledMsgs (gfa w)"

lemma same_caps_refl [simp]: "same_caps w w"
  by (simp add: same_caps_def)

lemma same_caps_trans [trans]: "same_caps u v \<Longrightarrow> same_caps v w \<Longrightarrow> same_caps u w"
  by (simp add: same_caps_def)

lemma gf_refs_simps [simp]:
  "gf_refs (upd_adapter f w) = gf_refs w" "gf_refs (set_err c i e w) = gf_refs w"
  "gf_refs (call_api cs w) = gf_refs w @ concat (map (\<lambda>(call, k). cont_refs k) cs)"
  "gf_refs (w\<lparr>gf_cmds := cm\<rparr>) = gf_refs w" "gf_refs (w\<lparr>gf_deleted := ds\<rparr>) = gf_refs w"
  "gf_refs (w\<lparr>gf_next := n\<rparr>) = gf_refs w" "gf_refs (w\<lparr>gf_lock := l\<rparr>) = gf_refs w" "gf_refs (w\<lparr>gf_counter := ct\<rparr>) = gf_refs w"
  by (simp_all add: gf_refs_def upd_adapter_def set_err_def call_api_def)

lemma world_simps [simp]:
  "gf_cmds (upd_adapter f w) = gf_cmds w" "gf_next (upd_adapter f w) = gf_next w" "gf_queue (upd_adapter f w) = gf_queue w"
  "gf_deleted (upd_adapter f w) = gf_deleted w" "gf_calls (upd_adapter f w) = gf_calls w" "gfa (upd_adapter f w) = f (gfa w)"
  "gf_lock (upd_adapter f w) = gf_lock w" "gf_lock (set_err c i e w) = gf_lock w"
  "gf_next (set_err c i e w) = gf_next w" "gf_queue (set_err c i e w) = gf_queue w" "gf_deleted (set_err c i e w) = gf_deleted w"
  "gfa (set_err c i e w) = gfa w" "gf_calls (set_err c i e w) = gf_calls w"
  "gf_cmds (call_api cs w) = gf_cmds w" "gf_next (call_api cs w) = gf_next w" "gf_queue (call_api cs w) = gf_queue w"
  "gf_deleted (call_api cs w) = gf_deleted w" "gfa (call_api cs w) = gfa w" "gf_calls (call_api cs w) = gf_calls w @ cs"
  "gf_lock (call_api cs w) = gf_lock w"
  "gf_cmds (send ms w) = gf_cmds w" "gf_next (send ms w) = gf_next w" "gf_queue (send ms w) = gf_queue w @ ms"
  "gf_deleted (send ms w) = gf_deleted w" "gfa (send ms w) = gfa w" "gf_calls (send ms w) = gf_calls w" "gf_lock (send ms w) = gf_lock w"
  by (simp_all add: upd_adapter_def set_err_def call_api_def send_def)

lemma refs_send: "gf_refs (send ms w) = concat (map msg_refs (gf_queue w)) @ concat (map msg_refs ms) @
    concat (map (\<lambda>(call, k). cont_refs k) (gf_calls w))"
  by (simp add: gf_refs_def)

lemma refs_send_none: "\<forall>m \<in> set ms. msg_refs m = [] \<Longrightarrow> gf_refs (send ms w) = gf_refs w"
  by (simp add: refs_send) (simp add: gf_refs_def)

lemma pending_no_refs: "m \<in> set (pending_msgs ps) \<Longrightarrow> msg_refs m = []"
  by (auto simp: pending_msgs_def)

text \<open>Changing only the results of a command.\<close>

lemma cmds_inv_ids:
  assumes "\<And>d. map_option cmd_ids (cmds' d) = map_option cmd_ids (cmds d)" and "cmds_inv cmds nxt rs"
  shows "cmds_inv cmds' nxt rs"
  unfolding cmds_inv_def
proof
  fix d
  from assms(1) [of d] assms(2) show "case cmds' d of None \<Rightarrow> no_refs d rs
      | Some x \<Rightarrow> d < nxt \<and> cmd_ids x \<noteq> [] \<and> refs_of (length (cmd_ids x)) d rs"
    by (cases "cmds d"; cases "cmds' d") (auto simp: cmds_inv_def dest: spec [of _ d])
qed

lemma set_err_ids [simp]: "map_option cmd_ids (gf_cmds (set_err c i e w) d) = map_option cmd_ids (gf_cmds w d)"
  by (cases "gf_cmds w c") (auto simp: set_err_def)

lemma set_err_inv: "cmds_inv (gf_cmds w) n rs \<Longrightarrow> cmds_inv (gf_cmds (set_err c i e w)) n rs"
  by (erule cmds_inv_ids [rotated]) simp

lemma set_err_alive: "gf_cmds w c = Some x \<Longrightarrow> \<exists>y. gf_cmds (set_err c i e w) c = Some y \<and> cmd_ids y = cmd_ids x"
  by (simp add: set_err_def)

definition step_ok :: "gf_world \<Rightarrow> (gf_out list \<times> gf_world) option \<Rightarrow> bool" where
  "step_ok w r \<longleftrightarrow> (\<exists>outs w'. r = Some (outs, w') \<and> cmds_inv (gf_cmds w') (gf_next w') (gf_refs w') \<and> same_caps w w')"

lemma step_ok_same: "same_caps v w \<Longrightarrow> step_ok w r \<Longrightarrow> step_ok v r"
  by (auto simp: step_ok_def intro: same_caps_trans)

text \<open>The end of an item, when the references are in order.\<close>

lemma last_item_ok:
  assumes inv: "cmds_inv (gf_cmds w) (gf_next w) (r # gf_refs w)" and r: "r = ItemRef c i \<or> r = DoneRef c i"
    and x: "gf_cmds w c = Some x"
    and last: "i + 1 = length (cmd_ids x) \<Longrightarrow> no_refs c (gf_refs w)"
    and notlast: "i + 1 \<noteq> length (cmd_ids x) \<Longrightarrow> refs_of (length (cmd_ids x)) c (gf_refs w)"
  shows "step_ok w (last_item c i w)"
proof (cases "i + 1 = length (cmd_ids x)")
  case True
  have "cmds_inv ((gf_cmds w)(c := None)) (gf_next w) (gf_refs w)"
    by (rule cmds_inv_step [OF inv, of _ c]) (use r last [OF True] in auto)
  with True x show ?thesis by (simp add: last_item_def step_ok_def same_caps_def)
next
  case False
  have "cmds_inv (gf_cmds w) (gf_next w) (gf_refs w)"
    by (rule cmds_inv_step [OF inv, of _ c]) (use r x cmds_inv_get [OF inv x] notlast [OF False] in auto)
  with False x show ?thesis by (auto simp: last_item_def step_ok_def)
qed

text \<open>
  The turn of the last item must find its identifier, or no other item may be waiting for an answer.
\<close>

definition turn_ok :: "gf_kind \<Rightarrow> nat \<Rightarrow> nat \<Rightarrow> gf_world \<Rightarrow> bool" where
  "turn_ok kind c i w \<longleftrightarrow>
     (case gf_cmds w c of
        None \<Rightarrow> True
      | Some x \<Rightarrow>
          kind \<noteq> GfAdd \<and> i + 1 = length (cmd_ids x) \<and>
          fst (getHwIdFromClient (cmd_client x) (cmd_ids x ! i) (gfa w)) \<noteq> LOCATION_ERROR_SUCCESS \<longrightarrow>
          done_refs c (gf_refs w) = [])"

lemma call_ok:
  assumes inv: "cmds_inv (gf_cmds w) (gf_next w) (ItemRef c i # gf_refs w)" and x: "gf_cmds w c = Some x"
  shows "step_ok w (Some (outs, call_api [(cl, DoneCont kind c i h)] w))"
proof -
  have "cmds_inv (gf_cmds w) (gf_next w) (gf_refs w @ [DoneRef c i])"
    by (rule cmds_inv_step [OF inv, of _ c]) (use x cmds_inv_get [OF inv x] refs_item(3) in auto)
  then show ?thesis by (simp add: step_ok_def same_caps_def)
qed

lemma item_proc_ok:
  assumes inv: "cmds_inv (gf_cmds w) (gf_next w) (ItemRef c i # gf_refs w)" and ok: "turn_ok kind c i w"
  shows "step_ok w (item_proc kind c i w)"
proof -
  obtain x where x: "gf_cmds w c = Some x" using refs_alive [OF inv, of c] by (auto simp: no_refs_def)
  note r = refs_item [OF conjunct2 [OF conjunct2 [OF cmds_inv_get [OF inv x]]]]
  obtain err h where g: "getHwIdFromClient (cmd_client x) (cmd_ids x ! i) (gfa w) = (err, h)" by force
  let ?w = "set_err c i err w"
  obtain y where y: "gf_cmds ?w c = Some y" "cmd_ids y = cmd_ids x" using set_err_alive [OF x] by blast
  have inv': "cmds_inv (gf_cmds ?w) (gf_next ?w) (ItemRef c i # gf_refs ?w)" using set_err_inv [OF inv] by simp
  have s: "same_caps w ?w" by (simp add: same_caps_def)
  show ?thesis
  proof (cases "kind = GfAdd \<or> err = LOCATION_ERROR_SUCCESS")
    case True
    with call_ok [OF inv x] step_ok_same [OF s call_ok [OF inv' y(1)]] x g show ?thesis
      by (auto simp: item_proc_def)
  next
    case False
    have "step_ok ?w (last_item c i ?w)"
      by (rule last_item_ok [OF inv' _ y(1)]) (use r ok x g False y(2) in \<open>auto simp: turn_ok_def\<close>)
    with step_ok_same [OF s] x g False show ?thesis by (simp add: item_proc_def)
  qed
qed

lemma pending_items [simp]:
  "mPendingMsgs (saveGeofenceItem cl ci h os io a) = mPendingMsgs a"
  "mPendingGnssEnabledMsgs (saveGeofenceItem cl ci h os io a) = mPendingGnssEnabledMsgs a"
  "mPendingMsgs (removeGeofenceItem h a) = mPendingMsgs a"
  "mPendingGnssEnabledMsgs (removeGeofenceItem h a) = mPendingGnssEnabledMsgs a"
  "mPendingMsgs (pauseGeofenceItem h a) = mPendingMsgs a"
  "mPendingGnssEnabledMsgs (pauseGeofenceItem h a) = mPendingGnssEnabledMsgs a"
  "mPendingMsgs (resumeGeofenceItem h a) = mPendingMsgs a"
  "mPendingGnssEnabledMsgs (resumeGeofenceItem h a) = mPendingGnssEnabledMsgs a"
  "mPendingMsgs (modifyGeofenceItem h os a) = mPendingMsgs a"
  "mPendingGnssEnabledMsgs (modifyGeofenceItem h os a) = mPendingGnssEnabledMsgs a"
  by (auto simp: saveGeofenceItem_def removeGeofenceItem_def pauseGeofenceItem_def resumeGeofenceItem_def
      modifyGeofenceItem_def Let_def split: option.splits)

lemma set_err_upd: "set_err c i e (upd_adapter f w) = upd_adapter f (set_err c i e w)"
  by (simp add: set_err_def upd_adapter_def)

lemma done_proc_ok:
  assumes inv: "cmds_inv (gf_cmds w) (gf_next w) (DoneRef c i # gf_refs w)"
  shows "step_ok w (done_proc kind c i hwId err data w)"
proof -
  obtain x where x: "gf_cmds w c = Some x" using refs_alive [OF inv, of c] by (auto simp: no_refs_def)
  note r = refs_done [OF conjunct2 [OF conjunct2 [OF cmds_inv_get [OF inv x]]]]
  have fin: "step_ok w (last_item c i v)"
    if v: "gf_cmds v = gf_cmds w \<or> gf_cmds v = gf_cmds (set_err c i err w)" "gf_refs v = gf_refs w" "same_caps w v" for v
  proof -
    obtain y where y: "gf_cmds v c = Some y" "cmd_ids y = cmd_ids x" using v(1) x set_err_alive [OF x, of i err] by auto
    have "cmds_inv (gf_cmds v) (gf_next v) (DoneRef c i # gf_refs v)"
      using v inv set_err_inv [OF inv] by (auto simp: same_caps_def)
    from last_item_ok [OF this _ y(1)] r v y(2) step_ok_same [OF v(3)] show ?thesis by auto
  qed
  have skip: "step_ok w (Some ([], w))"
  proof -
    have "cmds_inv (gf_cmds w) (gf_next w) (gf_refs w)"
      by (rule cmds_inv_step [OF inv, of _ c]) (use x cmds_inv_get [OF inv x] r in auto)
    then show ?thesis by (simp add: step_ok_def)
  qed
  show ?thesis
    using x by (cases kind) (auto simp: done_proc_def Let_def set_err_upd same_caps_def intro!: fin skip)
qed

lemma command_proc_ok:
  assumes inv: "cmds_inv (gf_cmds w) (gf_next w) (CmdRef c # gf_refs w)"
  shows "step_ok w (command_proc kind c w)"
proof -
  obtain x where x: "gf_cmds w c = Some x" using refs_alive [OF inv, of c] by (auto simp: no_refs_def)
  note g = cmds_inv_get [OF inv x]
  have rf: "refs_of (length (cmd_ids x)) c (gf_refs w @ items)"
    if "items = map (ItemRef c) [0..<length (cmd_ids x)] \<or> items = []" for items
    using refs_command [of "length (cmd_ids x)" c "gf_refs w" items] g that by simp
  have m: "concat (map ((\<lambda>(call, k). cont_refs k) \<circ> (\<lambda>i. (AddToCallQueue, ItemCont kind c i))) xs) = map (ItemRef c) xs" for xs
    by (induction xs) simp_all
  have fin: "cmds_inv ((gf_cmds w)(c := Some y)) (gf_next w) (gf_refs w @ items)"
    if "cmd_ids y = cmd_ids x" "items = map (ItemRef c) [0..<length (cmd_ids x)] \<or> items = []" for items y
    by (rule cmds_inv_step [OF inv, of _ c]) (use that g rf [OF that(2)] in auto)
  show ?thesis
    using x fin [of "x\<lparr>cmd_errs := replicate (length (cmd_ids x)) None\<rparr>" "map (ItemRef c) [0..<length (cmd_ids x)]"]
      fin [of "x\<lparr>cmd_errs := replicate (length (cmd_ids x)) (Some LOCATION_ERROR_INVALID_PARAMETER)\<rparr>" "[]"]
    by (auto simp: command_proc_def Let_def step_ok_def same_caps_def m)
qed

section \<open>Every step keeps the arrays safe\<close>

text \<open>
  What the steps need: lists of options of the length of the identifiers; the turn of the last item as
  above; that no engine comes up while messages that were sent before are still in the list; and of the
  engine, that it answers the calls for the items of one command in their order, as the call queue
  does with their turns. Calls of different commands may be answered in any order.
\<close>

definition len_ok :: "nat \<Rightarrow> 'a list option \<Rightarrow> bool" where
  "len_ok n xs \<longleftrightarrow> (case xs of None \<Rightarrow> True | Some ys \<Rightarrow> length ys = n)"

text \<open>Whether two waiting calls are both turns, or both calls of the engine, of items of one command.\<close>

fun same_turn :: "gf_cont \<Rightarrow> gf_cont \<Rightarrow> bool" where
  "same_turn (ItemCont kind c i) (ItemCont kind' d j) \<longleftrightarrow> c = d"
| "same_turn (DoneCont kind c i h) (DoneCont kind' d j h') \<longleftrightarrow> c = d"
| "same_turn _ _ \<longleftrightarrow> False"

definition gf_ok :: "gf_op \<Rightarrow> gf_world \<Rightarrow> bool" where
  "gf_ok op w \<longleftrightarrow>
     (case op of
        AddGeofencesCommand client count options infos \<Rightarrow>
          len_ok count options \<and> len_ok count infos
      | GeofencesCommand kind client ids options \<Rightarrow>
          kind \<noteq> GfAdd \<and> len_ok (length ids) options
      | Answer n err data \<Rightarrow>
          (case drop n (gf_calls w) of [] \<Rightarrow> True | x # xs \<Rightarrow> \<forall>y \<in> set (take n (gf_calls w)). \<not> same_turn (snd y) (snd x))
      | ProcNext \<Rightarrow>
          (case gf_queue w of
             MsgResponse (ItemCont kind c i) err data # ms \<Rightarrow> turn_ok kind c i (w\<lparr>gf_queue := ms\<rparr>)
           | MsgSSREvent # ms \<Rightarrow>
               gf_lock w = ENGINE_LOCK_STATE_ENABLED \<longrightarrow>
               (\<forall>p \<in> set (mPendingMsgs (gfa w)). fst p \<notin> set (gf_deleted w) \<and> fst p \<notin> set (caps_ids ms))
           | _ \<Rightarrow> True)
      | _ \<Rightarrow> True)"

lemma cmds_inv_cong:
  assumes "\<And>c. cmd_refs c rs' = cmd_refs c rs \<and> item_refs c rs' = item_refs c rs \<and> done_refs c rs' = done_refs c rs"
  shows "cmds_inv cmds n rs' = cmds_inv cmds n rs"
proof -
  have "no_refs c rs' = no_refs c rs" "refs_of k c rs' = refs_of k c rs" for c k
    using assms by (simp_all add: refs_of_def no_refs_def)
  then show ?thesis by (simp add: cmds_inv_def cong: option.case_cong)
qed

lemma refs_pass:
  assumes "\<forall>x \<in> set xs. \<not> same_turn (snd x) k"
  shows "item_refs c (concat (map (\<lambda>(call, k). cont_refs k) xs) @ cont_refs k) = item_refs c (cont_refs k @ concat (map (\<lambda>(call, k). cont_refs k) xs))"
    "done_refs c (concat (map (\<lambda>(call, k). cont_refs k) xs) @ cont_refs k) = done_refs c (cont_refs k @ concat (map (\<lambda>(call, k). cont_refs k) xs))"
    "cmd_refs c (cont_refs l) = []" "cmd_refs c (concat (map (\<lambda>(call, k). cont_refs k) xs)) = []"
proof -
  show cr: "cmd_refs c (cont_refs l) = []" for l by (cases l) auto
  have i: "item_refs c (cont_refs k) = [] \<or> item_refs c (cont_refs (snd x)) = []" if "x \<in> set xs" for x
    using assms that by (cases k; cases "snd x") (auto dest!: bspec)
  have d: "done_refs c (cont_refs k) = [] \<or> done_refs c (cont_refs (snd x)) = []" if "x \<in> set xs" for x
    using assms that by (cases k; cases "snd x") (auto dest!: bspec)
  show "cmd_refs c (concat (map (\<lambda>(call, k). cont_refs k) xs)) = []" by (induction xs) (auto simp: cr)
  have ci: "item_refs c (concat (map (\<lambda>(call, k). cont_refs k) xs)) = []" if "\<forall>x \<in> set xs. item_refs c (cont_refs (snd x)) = []"
    using that by (induction xs) auto
  have cd: "done_refs c (concat (map (\<lambda>(call, k). cont_refs k) xs)) = []" if "\<forall>x \<in> set xs. done_refs c (cont_refs (snd x)) = []"
    using that by (induction xs) auto
  show "item_refs c (concat (map (\<lambda>(call, k). cont_refs k) xs) @ cont_refs k) = item_refs c (cont_refs k @ concat (map (\<lambda>(call, k). cont_refs k) xs))"
    using i ci by (cases "item_refs c (cont_refs k) = []") auto
  show "done_refs c (concat (map (\<lambda>(call, k). cont_refs k) xs) @ cont_refs k) = done_refs c (cont_refs k @ concat (map (\<lambda>(call, k). cont_refs k) xs))"
    using d cd by (cases "done_refs c (cont_refs k) = []") auto
qed

text \<open>Messages that do not speak of commands.\<close>

lemma cmds_inv_send:
  assumes "cmds_inv (gf_cmds w) (gf_next w) (gf_refs w)" and "\<forall>m \<in> set ms. msg_refs m = []"
  shows "cmds_inv (gf_cmds (send ms w)) (gf_next (send ms w)) (gf_refs (send ms w))"
  using assms by (simp add: refs_send_none)

lemma cmds_inv_call:
  assumes "cmds_inv cmds n rs" and "\<forall>k \<in> set ks. cont_refs (snd k) = []"
  shows "cmds_inv cmds n (rs @ concat (map (\<lambda>(call, k). cont_refs k) ks))"
proof -
  have e: "concat (map (\<lambda>(call, k). cont_refs k) ks) = []" using assms(2) by (simp add: split_beta)
  show ?thesis using assms(1) by (simp only: e append_Nil2)
qed

lemma new_command_inv:
  assumes inv: "gf_inv w" and ids: "cmd_ids x \<noteq> []"
  shows "gf_inv (new_command kind x w)"
proof -
  have c: "cmds_inv (gf_cmds w) (gf_next w) (gf_refs w)" using inv by (simp add: gf_inv_def)
  have "\<not> gf_next w < gf_next w" by simp
  with c have n: "gf_cmds w (gf_next w) = None"
    by (cases "gf_cmds w (gf_next w)") (auto dest: cmds_inv_get)
  then have nr: "no_refs (gf_next w) (gf_refs w)" using c by (auto simp: cmds_inv_def dest: spec [of _ "gf_next w"])
  have s: "cmd_refs d (gf_refs (new_command kind x w)) = (if d = gf_next w then [()] else cmd_refs d (gf_refs w))"
    "item_refs d (gf_refs (new_command kind x w)) = item_refs d (gf_refs w)"
    "done_refs d (gf_refs (new_command kind x w)) = done_refs d (gf_refs w)" for d
    using nr by (auto simp: new_command_def refs_send no_refs_def) (auto simp: gf_refs_def)
  have "cmds_inv (gf_cmds (new_command kind x w)) (gf_next (new_command kind x w)) (gf_refs (new_command kind x w))"
    by (rule cmds_inv_step [OF c, of _ "gf_next w"])
      (use s nr ids in \<open>auto simp: new_command_def no_refs_def refs_of_def\<close>)
  with inv show ?thesis
    by (auto simp: gf_inv_def caps_inv_def new_command_def)
qed

lemma draw_ids_length: "length (fst (draw_ids n c)) = n"
  by (induction n arbitrary: c) (auto simp: Let_def split_beta)

text \<open>A step that is defined and leaves the pending messages alone.\<close>

lemma gf_inv_step_ok:
  assumes "step_ok w r" and "gf_inv v" and "caps_inv (gf_queue w) (gf_deleted w) (gf_next w) (mPendingMsgs (gfa w)) (mPendingGnssEnabledMsgs (gfa w))"
  shows "\<exists>outs w'. r = Some (outs, w') \<and> gf_inv w'"
  using assms by (auto simp: step_ok_def gf_inv_def same_caps_def)

text \<open>The processing of one message, taken out of the queue.\<close>

lemma gf_inv_pop:
  assumes "gf_inv w" and "gf_queue w = m # ms"
  shows "cmds_inv (gf_cmds w) (gf_next w) (msg_refs m @ gf_refs (w\<lparr>gf_queue := ms\<rparr>))"
    "caps_inv (m # ms) (gf_deleted w) (gf_next w) (mPendingMsgs (gfa w)) (mPendingGnssEnabledMsgs (gfa w))"
    "caps_inv ms (gf_deleted w) (gf_next w) (mPendingMsgs (gfa w)) (mPendingGnssEnabledMsgs (gfa w))"
  using assms by (auto simp: gf_inv_def gf_refs_def caps_inv_def)

lemma stopClientSessions_ok:
  assumes "cmds_inv (gf_cmds w) (gf_next w) (gf_refs w)"
  shows "cmds_inv (gf_cmds (stopClientSessions client w)) (gf_next (stopClientSessions client w)) (gf_refs (stopClientSessions client w))"
    "same_caps w (stopClientSessions client w)"
  using cmds_inv_call [OF assms,
      of "map (\<lambda>(k, h). (RemoveGeofence h (key_id k), StopCont h)) (filter (\<lambda>(k, h). key_client k = client) (mGeofenceIds (gfa w)))"]
  by (simp_all add: stopClientSessions_def Let_def same_caps_def split_beta)

lemma restartGeofences_ok:
  assumes "cmds_inv (gf_cmds w) (gf_next w) (gf_refs w)"
  shows "cmds_inv (gf_cmds (restartGeofences w)) (gf_next (restartGeofences w)) (gf_refs (restartGeofences w))"
    "same_caps w (restartGeofences w)"
  using cmds_inv_call [OF assms, of "map (\<lambda>(h, g). (AddGeofence (key_id (gf_key g)) (object_option g) (object_info g),
      RestartCont g (object_option g) (object_info g))) (mGeofences (gfa w))"] assms
  by (simp_all add: restartGeofences_def Let_def same_caps_def split_beta)

lemma cont_proc_ok:
  assumes inv: "cmds_inv (gf_cmds w) (gf_next w) (cont_refs k @ gf_refs w)"
    and ok: "\<And>kind c i. k = ItemCont kind c i \<Longrightarrow> turn_ok kind c i w"
  shows "step_ok w (cont_proc k err data w)"
proof (cases k)
  case (ItemCont kind c i)
  with item_proc_ok [of w c i kind] inv ok show ?thesis by simp
next
  case (DoneCont kind c i h)
  with done_proc_ok [of w c i] inv show ?thesis by simp
next
  case (StopCont h)
  with inv show ?thesis by (simp add: step_ok_def stop_done_def same_caps_def)
next
  case (RestartCont g os io)
  with inv cmds_inv_call [of "gf_cmds w" "gf_next w" "gf_refs w" "[(PauseGeofence data (key_id (gf_key g)), NoCont)]"]
  show ?thesis by (simp add: step_ok_def restart_done_def same_caps_def)
next
  case NoCont
  with inv show ?thesis by (simp add: step_ok_def)
qed

lemma cmds_inv_next: "cmds_inv cmds n rs \<Longrightarrow> n \<le> n' \<Longrightarrow> cmds_inv cmds n' rs"
  unfolding cmds_inv_def by (rule allI, drule spec) (auto split: option.splits)

lemma caps_inv_append: "caps_ids ms = [] \<Longrightarrow> caps_inv (queue @ ms) deleted n ps gs = caps_inv queue deleted n ps gs"
  by (simp add: caps_inv_def)

lemma gf_msg_ok:
  assumes inv: "gf_inv w" and q: "gf_queue w = m # ms" and ok: "gf_ok ProcNext w"
  shows "\<exists>outs w'. gf_msg_proc ctx m (w\<lparr>gf_queue := ms\<rparr>) = Some (outs, w') \<and> gf_inv w'"
proof -
  let ?w = "w\<lparr>gf_queue := ms\<rparr>"
  note pop = gf_inv_pop [OF inv q]
  have caps: "caps_inv (gf_queue ?w) (gf_deleted ?w) (gf_next ?w) (mPendingMsgs (gfa ?w)) (mPendingGnssEnabledMsgs (gfa ?w))"
    using pop(3) by simp
  show ?thesis
  proof (cases m)
    case (MsgCommand kind c)
    with pop(1) gf_inv_step_ok [OF command_proc_ok [of ?w c kind] inv caps] show ?thesis by simp
  next
    case (MsgResponse k err data)
    have "turn_ok kind c i ?w" if "k = ItemCont kind c i" for kind c i
      using ok q MsgResponse that by (simp add: gf_ok_def)
    with MsgResponse pop(1) gf_inv_step_ok [OF cont_proc_ok [of ?w k err data] inv caps] show ?thesis by simp
  next
    case (MsgAddClient client cbs)
    with pop(1) caps show ?thesis by (simp add: addClient_def Let_def gf_inv_def)
  next
    case (MsgRemoveClient client hasCb)
    with pop(1) caps stopClientSessions_ok [of ?w client] show ?thesis
      by (simp add: removeClient_def Let_def gf_inv_def same_caps_def)
  next
    case (MsgRequestCapabilities p client)
    with pop show ?thesis
      by (auto simp: requestCapabilities_def Let_def gf_inv_def caps_inv_def intro: cmds_inv_next)
  next
    case MsgSSREvent
    let ?v = "upd_adapter (\<lambda>a. a\<lparr>mIsEngineCapabilitiesKnown := True\<rparr>) ?w"
    have v: "cmds_inv (gf_cmds ?v) (gf_next ?v) (gf_refs ?v)" using pop(1) MsgSSREvent by simp
    note r = restartGeofences_ok [OF v]
    have "gf_lock w = ENGINE_LOCK_STATE_ENABLED \<Longrightarrow>
        \<forall>p \<in> set (mPendingMsgs (gfa w)). fst p \<notin> set (gf_deleted w) \<and> fst p \<notin> set (caps_ids ms)"
      using ok q MsgSSREvent by (simp add: gf_ok_def)
    with MsgSSREvent v r caps cmds_inv_send [OF r(1)] pending_no_refs show ?thesis
      by (fastforce simp: engine_up_def Let_def gf_inv_def same_caps_def caps_inv_def)
  next
    case (MsgEngineLockStateEvent st)
    have "pending_msgs [] = []" by (simp add: pending_msgs_def)
    with MsgEngineLockStateEvent pop(1) caps show ?thesis
      by (auto simp: handleEngineLockStatus_def gf_inv_def caps_inv_def send_def upd_adapter_def gf_refs_def)
  next
    case (MsgGeofenceBreach hwIds loc ty ts)
    with pop(1) caps show ?thesis by (simp add: gf_inv_def)
  next
    case (MsgGeofenceStatus av)
    with pop(1) caps show ?thesis by (simp add: gf_inv_def)
  qed
qed

lemma gf_inv_send:
  assumes "gf_inv w" and "\<forall>m \<in> set ms. msg_refs m = [] \<and> caps_id m = []"
  shows "gf_inv (send ms w)"
proof -
  have "caps_ids ms = []" using assms(2) by (simp add: caps_ids_def)
  with assms cmds_inv_send [of w ms] show ?thesis by (simp add: gf_inv_def caps_inv_append)
qed

lemma gf_step_inv:
  assumes inv: "gf_inv w" and ok: "gf_ok op w"
  shows "\<exists>outs w'. gf_step ctx op w = Some (outs, w') \<and> gf_inv w'"
proof (cases op)
  case (AddGeofencesCommand client count options infos)
  obtain ids ct where d: "draw_ids count (gf_counter w) = (ids, ct)" by force
  have "ids \<noteq> []" if "count \<noteq> 0" using draw_ids_length [of count "gf_counter w"] d that by auto
  moreover have "gf_inv (w\<lparr>gf_counter := ct\<rparr>)" using inv by (simp add: gf_inv_def)
  ultimately show ?thesis using AddGeofencesCommand d inv new_command_inv [of "w\<lparr>gf_counter := ct\<rparr>"] by simp
next
  case (GeofencesCommand kind client ids options)
  with inv new_command_inv [OF inv] show ?thesis by simp
next
  case (RequestCapabilitiesCommand client)
  have c: "cmds_inv (gf_cmds w) (Suc (gf_next w)) (gf_refs w)" using inv by (auto simp: gf_inv_def intro: cmds_inv_next)
  let ?w = "w\<lparr>gf_next := Suc (gf_next w)\<rparr>"
  have "cmds_inv (gf_cmds ?w) (gf_next ?w) (gf_refs ?w)" using c by simp
  from cmds_inv_send [OF this, of "[MsgRequestCapabilities (gf_next w) client]"] inv RequestCapabilitiesCommand
  show ?thesis by (auto simp: gf_inv_def caps_inv_def less_SucI)
next
  case (EngineLockEvent st)
  have "gf_inv (w\<lparr>gf_lock := st\<rparr>)" using inv by (simp add: gf_inv_def)
  with EngineLockEvent gf_inv_send [of "w\<lparr>gf_lock := st\<rparr>"] show ?thesis by simp
next
  case (Answer n err data)
  show ?thesis
  proof (cases "drop n (gf_calls w)")
    case (Cons x cs)
    obtain call k where x: "x = (call, k)" by force
    let ?w = "send [MsgResponse k err data] (w\<lparr>gf_calls := take n (gf_calls w) @ cs\<rparr>)"
    let ?pre = "take n (gf_calls w)"
    have calls: "gf_calls w = ?pre @ (call, k) # cs" using append_take_drop_id [of n "gf_calls w"] Cons x by simp
    have "\<forall>y \<in> set ?pre. \<not> same_turn (snd y) k" using ok Answer Cons x by (simp add: gf_ok_def)
    note p = refs_pass [OF this]
    have r: "gf_refs ?w = concat (map msg_refs (gf_queue w)) @ (cont_refs k @ concat (map (\<lambda>(call, k). cont_refs k) ?pre)) @
        concat (map (\<lambda>(call, k). cont_refs k) cs)" by (simp add: gf_refs_def)
    have r0: "gf_refs w = concat (map msg_refs (gf_queue w)) @ (concat (map (\<lambda>(call, k). cont_refs k) ?pre) @ cont_refs k) @
        concat (map (\<lambda>(call, k). cont_refs k) cs)" unfolding gf_refs_def using arg_cong [OF calls, of "\<lambda>cs. concat (map (\<lambda>(call, k). cont_refs k) cs)"] by simp
    have "cmds_inv (gf_cmds w) (gf_next w) (gf_refs ?w) = cmds_inv (gf_cmds w) (gf_next w) (gf_refs w)"
      by (rule cmds_inv_cong) (unfold r r0 refs_simps(3,6,9), use p in simp)
    with Answer Cons x inv show ?thesis by (simp add: gf_inv_def caps_inv_append)
  qed (use Answer inv in simp)
next
  case ProcNext
  with inv gf_msg_ok [OF inv _ ok [unfolded ProcNext]] show ?thesis by (cases "gf_queue w") auto
qed (use inv gf_inv_send [OF inv] in auto)

lemma gf_start_inv: "gf_inv gf_start"
  by (simp add: gf_inv_def gf_start_def cmds_inv_def no_refs_def gf_refs_def caps_inv_def)

lemma gf_run_inv:
  assumes "gf_inv w" "ops_ok gf_ok (gf_step ctx) ops w"
  shows "\<exists>outs w'. run_ops (gf_step ctx) ops w = Some (outs, w') \<and> gf_inv w'"
  using assms
proof (induction ops arbitrary: w)
  case (Cons x ops)
  then have "gf_ok x w" by simp
  from gf_step_inv [OF Cons.prems(1) this, of ctx] obtain o1 w1 where s: "gf_step ctx x w = Some (o1, w1)" "gf_inv w1" by blast
  with Cons.prems(2) Cons.IH [of w1] show ?case by (auto split: option.splits)
qed simp

section \<open>A run\<close>

definition demo_option :: gf_option where
  "demo_option = \<lparr>breachTypeMask = 3, opt_responsiveness = 1000, opt_dwellTime = 0\<rparr>"
definition demo_info :: gf_info where
  "demo_info = \<lparr>info_latitude = 5, info_longitude = 6, info_radius = 7\<rparr>"
definition demo_callbacks :: location_callbacks where
  "demo_callbacks = no_callbacks\<lparr>capabilitiesCb := True, collectiveResponseCb := True, geofenceBreachCb := True,
     geofenceStatusCb := True\<rparr>"

text \<open>
  A client adds two fences, pauses the first and an unknown one, and the engine refuses; then it
  removes both, and leaves.
\<close>

definition gf_demo :: "gf_op list" where
  "gf_demo =
     [AddClientCommand 1 demo_callbacks, ProcNext, EngineUpEvent, ProcNext, RequestCapabilitiesCommand 1, ProcNext,
      AddGeofencesCommand 1 2 (Some [demo_option, demo_option]) (Some [demo_info, demo_info]), ProcNext,
      Answer 0 LOCATION_ERROR_SUCCESS 0, Answer 0 LOCATION_ERROR_SUCCESS 0, ProcNext, ProcNext,
      Answer 0 LOCATION_ERROR_SUCCESS 71, Answer 0 LOCATION_ERROR_SUCCESS 72, ProcNext, ProcNext,
      GeofencesCommand GfPause 1 [9, 3] None, ProcNext,
      Answer 0 LOCATION_ERROR_SUCCESS 0, Answer 0 LOCATION_ERROR_SUCCESS 0, ProcNext, ProcNext,
      Answer 0 LOCATION_ERROR_GENERAL_FAILURE 0, ProcNext]"

definition demo_context :: loc_context where
  "demo_context = \<lparr>sSupportedMsgMask = 0b1010100, sFeaturesSupported = [0, 0], sGnssMeasurementSupported = True,
     ctx_CAPABILITIES = 0, ctx_SUPL_MODE = 0\<rparr>"

lemma gf_demo_ok: "ops_ok gf_ok (gf_step demo_context) gf_demo gf_start"
  by code_simp

text \<open>C7. Arrays are used safely: whatever clients ask for, whatever errors the engine answers with and
however the steps interleave, no step uses the arrays of a command after they have been released, or
a message after its deletion, under \<open>gf_ok\<close>, which excludes three things that the code does not guard
against: that the calls for the items of one command are answered out of their order (so that the
last one is answered first; calls of different commands may be answered in any order), that the last
item of a command has an unknown identifier while an earlier item still waits for its answer, and
that the engine comes up again while messages sent earlier are still in the list of pending ones.
Each of the three leads to the use of released memory: see \<open>answers_out_of_order\<close> and
\<open>geofence_undefined_runs\<close>. Besides, the arrays of options and infos have the length of the command.\<close>

theorem geofence_arrays_safe:
  assumes "ops_ok gf_ok (gf_step ctx) ops gf_start"
  shows "\<exists>outs w. run_ops (gf_step ctx) ops gf_start = Some (outs, w)"
  using gf_run_inv [OF gf_start_inv assms] by blast

theorem geofence_arrays_safe_witness:
  "\<exists>outs w. run_ops (gf_step demo_context) gf_demo gf_start = Some (outs, w)"
  by (rule geofence_arrays_safe [OF gf_demo_ok])

text \<open>Two fences are added and the engine answers the second addition first: its answer releases the
  arrays that the first one uses. No other condition of \<open>gf_ok\<close> is violated.\<close>

definition out_of_order :: "gf_op list" where
  "out_of_order =
     [AddClientCommand 1 demo_callbacks, ProcNext,
      AddGeofencesCommand 1 2 (Some [demo_option, demo_option]) (Some [demo_info, demo_info]), ProcNext,
      Answer 0 LOCATION_ERROR_SUCCESS 0, Answer 0 LOCATION_ERROR_SUCCESS 0, ProcNext, ProcNext,
      Answer 1 LOCATION_ERROR_SUCCESS 72, Answer 0 LOCATION_ERROR_SUCCESS 71, ProcNext]"

lemma answers_out_of_order:
  "run_ops (gf_step demo_context) out_of_order gf_start \<noteq> None"
  "run_ops (gf_step demo_context) (out_of_order @ [ProcNext]) gf_start = None"
  "ops_ok gf_ok (gf_step demo_context) (take 8 out_of_order) gf_start"
  by code_simp+

end
