(* ===== verification/Geofence_Maps.thy ===== *)
theory Geofence_Maps
  imports Geofence_Inv "HOL-Library.Multiset"
begin

text \<open>
  The two maps of the geofence adapter: a fence that a client can name by its identifier is in the
  table of hardware ids, under that client and identifier.
\<close>

section \<open>The two maps agree\<close>

definition maps_inv :: "gf_adapter \<Rightarrow> bool" where
  "maps_inv a \<longleftrightarrow> om_ok (mGeofences a) \<and> om_ok (mGeofenceIds a) \<and> om_ok (mClientData a) \<and>
     (\<forall>k h. om_find (mGeofenceIds a) k = Some h \<longrightarrow> (\<exists>g. om_find (mGeofences a) h = Some g \<and> gf_key g = k))"

text \<open>The hardware ids of fences that the engine has been asked to remove for a client that left.\<close>

fun cont_stop :: "gf_cont \<Rightarrow> u32 list" where
  "cont_stop (StopCont h) = [h]"
| "cont_stop _ = []"

fun msg_stop :: "gf_msg \<Rightarrow> u32 list" where
  "msg_stop (MsgResponse k err data) = cont_stop k"
| "msg_stop _ = []"

definition stop_ids :: "gf_world \<Rightarrow> u32 list" where
  "stop_ids w = concat (map msg_stop (gf_queue w)) @ concat (map (\<lambda>(call, k). cont_stop k) (gf_calls w))"

definition unmapped :: "u32 list \<Rightarrow> gf_adapter \<Rightarrow> bool" where
  "unmapped hs a \<longleftrightarrow> (\<forall>h \<in> set hs. \<forall>k. om_find (mGeofenceIds a) k \<noteq> Some h)"

definition maps_ok :: "gf_world \<Rightarrow> bool" where
  "maps_ok w \<longleftrightarrow> maps_inv (gfa w) \<and> unmapped (stop_ids w) (gfa w)"

lemma maps_invD: "maps_inv a \<Longrightarrow> om_find (mGeofenceIds a) k = Some h \<Longrightarrow>
    \<exists>g. om_find (mGeofences a) h = Some g \<and> gf_key g = k"
  by (simp add: maps_inv_def)

lemma save_maps:
  assumes "maps_inv a" "unmapped hs a" "om_find (mGeofences a) h = None" "h \<notin> set hs"
  shows "maps_inv (saveGeofenceItem cl ci h os io a)" "unmapped hs (saveGeofenceItem cl ci h os io a)"
proof -
  have "om_find (mGeofenceIds a) k \<noteq> Some h" for k using maps_invD [OF assms(1), of k h] assms(3) by auto
  with assms show "maps_inv (saveGeofenceItem cl ci h os io a)" "unmapped hs (saveGeofenceItem cl ci h os io a)"
    by (auto simp: maps_inv_def unmapped_def saveGeofenceItem_def Let_def)
qed

lemma remove_maps:
  assumes "maps_inv a" "unmapped hs a"
  shows "maps_inv (removeGeofenceItem h a) \<and> unmapped hs (removeGeofenceItem h a)"
proof (cases "\<exists>g. om_find (mGeofences a) h = Some g \<and> om_find (mGeofenceIds a) (gf_key g) \<noteq> None")
  case True
  then obtain g where g: "om_find (mGeofences a) h = Some g" "om_find (mGeofenceIds a) (gf_key g) \<noteq> None" by blast
  let ?a = "a\<lparr>mGeofenceIds := om_erase (gf_key g) (mGeofenceIds a), mGeofences := om_erase h (mGeofences a)\<rparr>"
  have r: "removeGeofenceItem h a = ?a" using g by (auto simp: removeGeofenceItem_def getGeofenceKeyFromHwId_def)
  have ok: "om_ok (mGeofences a)" "om_ok (mGeofenceIds a)" "om_ok (mClientData a)" using assms(1) by (auto simp: maps_inv_def)
  have "\<exists>g. om_find (mGeofences ?a) h' = Some g \<and> gf_key g = k" if f: "om_find (mGeofenceIds ?a) k = Some h'" for k h'
  proof -
    from f ok have k: "k \<noteq> gf_key g" "om_find (mGeofenceIds a) k = Some h'" by (auto split: if_splits)
    from maps_invD [OF assms(1) k(2)] obtain g' where g': "om_find (mGeofences a) h' = Some g'" "gf_key g' = k" by blast
    with k(1) g(1) have "h' \<noteq> h" by auto
    with g' ok show ?thesis by simp
  qed
  then have "maps_inv ?a" using ok by (simp add: maps_inv_def)
  moreover have "unmapped hs ?a" using assms(2) ok by (simp add: unmapped_def)
  ultimately show ?thesis unfolding r by blast
next
  case False
  then have "removeGeofenceItem h a = a"
    by (auto simp: removeGeofenceItem_def getGeofenceKeyFromHwId_def split: option.splits)
  with assms show ?thesis by simp
qed

lemma upd_maps:
  assumes "maps_inv a" "unmapped hs a" and same: "\<And>g. gf_key (f g) = gf_key g"
  shows "maps_inv (a\<lparr>mGeofences := om_upd h f (mGeofences a)\<rparr>) \<and> unmapped hs (a\<lparr>mGeofences := om_upd h f (mGeofences a)\<rparr>)"
proof -
  have "\<exists>g. om_find (om_upd h f (mGeofences a)) h' = Some g \<and> gf_key g = k" if "om_find (mGeofenceIds a) k = Some h'" for k h'
    using maps_invD [OF assms(1) that] same by (cases "h' = h") auto
  with assms(1,2) show ?thesis by (simp add: maps_inv_def unmapped_def)
qed

lemma item_maps:
  assumes "maps_inv a" "unmapped hs a"
  shows "maps_inv (pauseGeofenceItem h a) \<and> unmapped hs (pauseGeofenceItem h a)"
    "maps_inv (resumeGeofenceItem h a) \<and> unmapped hs (resumeGeofenceItem h a)"
    "maps_inv (modifyGeofenceItem h os a) \<and> unmapped hs (modifyGeofenceItem h os a)"
  unfolding pauseGeofenceItem_def resumeGeofenceItem_def modifyGeofenceItem_def
  by (rule upd_maps [OF assms], simp)+

lemma stop_maps:
  assumes "maps_inv a" "unmapped (h # hs) a"
  shows "maps_inv (a\<lparr>mGeofences := om_erase h (mGeofences a)\<rparr>)" "unmapped hs (a\<lparr>mGeofences := om_erase h (mGeofences a)\<rparr>)"
proof -
  have "om_ok (mGeofences a)" using assms(1) by (auto simp: maps_inv_def)
  with assms show "maps_inv (a\<lparr>mGeofences := om_erase h (mGeofences a)\<rparr>)"
    "unmapped hs (a\<lparr>mGeofences := om_erase h (mGeofences a)\<rparr>)"
    by (auto simp: maps_inv_def unmapped_def)
qed

lemma stop_ids_simps [simp]:
  "stop_ids (upd_adapter f w) = stop_ids w" "stop_ids (set_err c i e w) = stop_ids w"
  "stop_ids (w\<lparr>gf_cmds := cm\<rparr>) = stop_ids w" "stop_ids (w\<lparr>gf_deleted := ds\<rparr>) = stop_ids w"
  "stop_ids (w\<lparr>gf_next := n\<rparr>) = stop_ids w" "stop_ids (w\<lparr>gf_lock := l\<rparr>) = stop_ids w" "stop_ids (w\<lparr>gf_counter := ct\<rparr>) = stop_ids w"
  by (simp_all add: stop_ids_def upd_adapter_def set_err_def)

lemma stop_ids_sets:
  "set (stop_ids (send ms w)) = set (stop_ids w) \<union> set (concat (map msg_stop ms))"
  "set (stop_ids (call_api cs w)) = set (stop_ids w) \<union> set (concat (map (\<lambda>(call, k). cont_stop k) cs))"
  by (auto simp: stop_ids_def)

lemma last_item_same: "last_item c i w = Some (outs, w') \<Longrightarrow> gfa w' = gfa w \<and> stop_ids w' = stop_ids w"
  by (auto simp: last_item_def split: option.splits if_splits)

text \<open>
  The hardware ids that the engine hands out are neither in use nor about to be removed.
\<close>

definition fresh_hw :: "gf_op \<Rightarrow> gf_world \<Rightarrow> bool" where
  "fresh_hw op w \<longleftrightarrow>
     (case (op, gf_queue w) of
        (ProcNext, MsgResponse k err data # ms) \<Rightarrow>
          (case k of
             DoneCont GfAdd c i h \<Rightarrow> gf_lock w = ENGINE_LOCK_STATE_DISABLED \<or> err = LOCATION_ERROR_SUCCESS
           | RestartCont g os io \<Rightarrow> err = LOCATION_ERROR_SUCCESS
           | _ \<Rightarrow> False) \<longrightarrow>
          om_find (mGeofences (gfa w)) data = None \<and> data \<notin> set (stop_ids w)
      | _ \<Rightarrow> True)"

lemma maps_ok_simps [simp]:
  "maps_ok (set_err c i e w) = maps_ok w" "maps_ok (w\<lparr>gf_cmds := cm\<rparr>) = maps_ok w"
  "maps_ok (w\<lparr>gf_deleted := ds\<rparr>) = maps_ok w" "maps_ok (w\<lparr>gf_next := n\<rparr>) = maps_ok w"
  "maps_ok (w\<lparr>gf_lock := l\<rparr>) = maps_ok w" "maps_ok (w\<lparr>gf_counter := ct\<rparr>) = maps_ok w"
  by (simp_all add: maps_ok_def set_err_def)

lemma maps_ok_upd:
  "maps_ok (upd_adapter f w) \<longleftrightarrow> maps_inv (f (gfa w)) \<and> unmapped (stop_ids w) (f (gfa w))"
  by (simp add: maps_ok_def)

lemma maps_ok_send: "set (concat (map msg_stop ms)) = {} \<Longrightarrow> maps_ok (send ms w) = maps_ok w"
  by (simp add: maps_ok_def unmapped_def stop_ids_sets del: set_concat) (simp add: send_def)

lemma maps_ok_call: "set (concat (map (\<lambda>(call, k). cont_stop k) cs)) = {} \<Longrightarrow> maps_ok (call_api cs w) = maps_ok w"
  by (simp add: maps_ok_def unmapped_def stop_ids_sets del: set_concat) (simp add: call_api_def)

lemma last_item_maps: "last_item c i w = Some (outs, w') \<Longrightarrow> maps_ok w' = maps_ok w"
  using last_item_same [of c i w outs w'] by (simp add: maps_ok_def)

lemma item_maps_ok:
  assumes "item_proc kind c i w = Some (outs, w')" "maps_ok w"
  shows "maps_ok w'"
  using assms
  by (auto simp: item_proc_def maps_ok_call Let_def dest!: last_item_maps split: option.splits if_splits prod.splits)

lemma done_maps_ok:
  assumes "done_proc kind c i h err data w = Some (outs, w')" "maps_ok w"
    and "kind = GfAdd \<Longrightarrow> gf_lock w = ENGINE_LOCK_STATE_DISABLED \<or> err = LOCATION_ERROR_SUCCESS \<Longrightarrow>
      om_find (mGeofences (gfa w)) data = None \<and> data \<notin> set (stop_ids w)"
  shows "maps_ok w'"
proof -
  from assms(2) have m: "maps_inv (gfa w)" "unmapped (stop_ids w) (gfa w)" by (simp_all add: maps_ok_def)
  show ?thesis
  proof (cases kind)
    case GfAdd
    with assms show ?thesis using save_maps [OF m, of data]
      by (auto simp: done_proc_def Let_def maps_ok_upd dest!: last_item_maps split: option.splits if_splits)
  qed (use assms item_maps [OF m] remove_maps [OF m] in
    \<open>auto simp: done_proc_def Let_def maps_ok_upd dest!: last_item_maps split: option.splits if_splits\<close>)
qed

lemma stop_client_maps:
  assumes "maps_ok w"
  shows "maps_ok (stopClientSessions client w)"
proof -
  from assms have m: "maps_inv (gfa w)" "unmapped (stop_ids w) (gfa w)" by (simp_all add: maps_ok_def)
  let ?ids = "mGeofenceIds (gfa w)"
  let ?rest = "filter (\<lambda>(k, h). key_client k \<noteq> client) ?ids"
  let ?mine = "filter (\<lambda>(k, h). key_client k = client) ?ids"
  have ok: "om_ok ?ids" using m(1) by (simp add: maps_inv_def)
  have rest: "om_find ?rest k = (if key_client k \<noteq> client then om_find ?ids k else None)" for k
    by (rule find_filter)
  have sep: "om_find ?rest k \<noteq> Some h" if "(k', h) \<in> set ?mine" for k k' h
  proof
    assume "om_find ?rest k = Some h"
    with rest [of k] have k: "key_client k \<noteq> client" "om_find ?ids k = Some h" by (auto split: if_splits)
    from that ok have k': "key_client k' = client" "om_find ?ids k' = Some h" by (auto simp: find_iff_mem)
    from maps_invD [OF m(1) k(2)] maps_invD [OF m(1) k'(2)] k(1) k'(1) show False by auto
  qed
  have "maps_inv ((gfa w)\<lparr>mGeofenceIds := ?rest\<rparr>)"
    using m(1) ok rest by (auto simp: maps_inv_def om_ok_filter split: if_splits)
  moreover have "unmapped (stop_ids w) ((gfa w)\<lparr>mGeofenceIds := ?rest\<rparr>)"
    using m(2) rest by (auto simp: unmapped_def split: if_splits)
  ultimately show ?thesis using sep
    by (simp add: maps_ok_def unmapped_def stopClientSessions_def Let_def stop_ids_sets)
      (auto simp: call_api_def upd_adapter_def simp del: set_filter)
qed

lemma restart_maps:
  assumes "maps_ok w"
  shows "maps_ok (restartGeofences w)"
proof -
  have "set (concat (map (\<lambda>(call, k). cont_stop k) (map (\<lambda>(h, g). (AddGeofence (key_id (gf_key g)) (object_option g) (object_info g),
                RestartCont g (object_option g) (object_info g))) old))) = {}" for old by auto
  with assms show ?thesis
    by (simp add: restartGeofences_def Let_def maps_ok_call maps_ok_upd del: set_concat set_map map_map)
       (simp add: maps_ok_def maps_inv_def unmapped_def)
qed

lemma maps_msg_ok:
  assumes "gf_msg_proc ctx m (w\<lparr>gf_queue := ms\<rparr>) = Some (outs, w')" "gf_queue w = m # ms" "maps_ok w" "fresh_hw ProcNext w"
  shows "maps_ok w'"
proof -
  let ?w = "w\<lparr>gf_queue := ms\<rparr>"
  have ids: "set (stop_ids w) = set (msg_stop m) \<union> set (stop_ids ?w)" using assms(2) by (simp add: stop_ids_def)
  with assms(3) have w: "maps_ok ?w" by (simp add: maps_ok_def unmapped_def)
  show ?thesis
  proof (cases m)
    case (MsgCommand kind c)
    with assms(1) w show ?thesis
      by (auto simp: command_proc_def Let_def maps_ok_call split: option.splits if_splits)
  next
    case (MsgResponse k err data)
    show ?thesis
    proof (cases k)
      case (ItemCont kind c i)
      with assms(1) w MsgResponse item_maps_ok show ?thesis by simp
    next
      case (DoneCont kind c i h)
      with assms(1) MsgResponse have d: "done_proc kind c i h err data ?w = Some (outs, w')" by simp
      show ?thesis
        by (rule done_maps_ok [OF d w]) (use assms(2,4) ids MsgResponse DoneCont in \<open>auto simp: fresh_hw_def\<close>)
    next
      case (StopCont h)
      have "maps_inv (gfa w)" "unmapped (h # stop_ids ?w) (gfa w)"
        using assms(3) ids MsgResponse StopCont by (auto simp: maps_ok_def unmapped_def)
      from stop_maps [OF this] w assms(1) MsgResponse StopCont show ?thesis
        by (auto simp: stop_done_def maps_ok_upd)
    next
      case (RestartCont g os io)
      have "maps_inv (gfa ?w)" "unmapped (stop_ids ?w) (gfa ?w)" using w by (simp_all add: maps_ok_def)
      note s = save_maps [OF this, of data]
      show ?thesis using assms(1,2,4) MsgResponse RestartCont w ids s
        by (auto simp: restart_done_def maps_ok_upd fresh_hw_def stop_ids_sets call_api_def)
          (auto simp: stop_ids_def)
    next
      case NoCont
      with assms(1) w MsgResponse show ?thesis by simp
    qed
  next
    case (MsgAddClient client cbs)
    with assms(1) w show ?thesis
      by (auto simp: addClient_def Let_def maps_ok_upd saveClient_def) (auto simp: maps_ok_def maps_inv_def unmapped_def)
  next
    case (MsgRemoveClient client hasCb)
    have "maps_ok (stopClientSessions client ?w)" by (rule stop_client_maps [OF w])
    with assms(1) MsgRemoveClient show ?thesis
      by (auto simp: removeClient_def Let_def maps_ok_upd eraseClient_def)
        (auto simp: maps_ok_def maps_inv_def unmapped_def)
  next
    case (MsgRequestCapabilities p client)
    with assms(1) w show ?thesis
      by (auto simp: requestCapabilities_def Let_def maps_ok_upd split: if_splits) (auto simp: maps_ok_def maps_inv_def unmapped_def)
  next
    case MsgSSREvent
    let ?u = "upd_adapter (\<lambda>a. a\<lparr>mIsEngineCapabilitiesKnown := True\<rparr>) ?w"
    have u: "maps_ok ?u" using w by (simp add: maps_ok_upd) (simp add: maps_ok_def maps_inv_def unmapped_def)
    have "set (concat (map msg_stop (pending_msgs ps))) = {}" for ps by (auto simp: pending_msgs_def)
    then have "maps_ok (send (pending_msgs ps) (restartGeofences ?u))" for ps
      using restart_maps [OF u] maps_ok_send by blast
    with assms(1) u MsgSSREvent show ?thesis by (auto simp: engine_up_def Let_def)
  next
    case (MsgEngineLockStateEvent st)
    have "set (concat (map msg_stop (pending_msgs ps))) = {}" for ps by (auto simp: pending_msgs_def)
    then have "maps_ok (send (pending_msgs ps) ?w)" for ps using w maps_ok_send by blast
    with assms(1) w MsgEngineLockStateEvent show ?thesis
      by (auto simp: handleEngineLockStatus_def maps_ok_upd) (auto simp: maps_ok_def maps_inv_def unmapped_def)
  qed (use assms(1) w in auto)
qed

lemma maps_step:
  assumes "gf_step ctx op w = Some (outs, w')" "maps_ok w" "fresh_hw op w"
  shows "maps_ok w'"
proof (cases op)
  case (Answer n err data)
  show ?thesis
  proof (cases "drop n (gf_calls w)")
    case (Cons x cs)
    obtain call k where x: "x = (call, k)" by force
    have calls: "set (gf_calls w) = insert (call, k) (set (take n (gf_calls w)) \<union> set cs)"
      using arg_cong [OF append_take_drop_id [of n "gf_calls w"], of set] Cons x by simp
    have "set (stop_ids (send [MsgResponse k err data] (w\<lparr>gf_calls := take n (gf_calls w) @ cs\<rparr>))) = set (stop_ids w)"
      unfolding stop_ids_def send_def using calls by auto
    with assms Answer Cons x show ?thesis by (auto simp: maps_ok_def unmapped_def send_def)
  qed (use Answer assms in simp)
next
  case ProcNext
  with assms maps_msg_ok [OF _ _ assms(2), of ctx _ _ outs w'] show ?thesis by (cases "gf_queue w") auto
qed (use assms(1,2) in \<open>auto simp: new_command_def maps_ok_send Let_def split: prod.splits\<close>)

lemma maps_run:
  assumes "ops_ok fresh_hw (gf_step ctx) ops w" "run_ops (gf_step ctx) ops w = Some (outs, w')" "maps_ok w"
  shows "maps_ok w'"
  using assms
proof (induction ops arbitrary: w outs)
  case (Cons x ops)
  then obtain o1 w1 os where s: "gf_step ctx x w = Some (o1, w1)" "run_ops (gf_step ctx) ops w1 = Some (os, w')"
    by (auto split: option.splits)
  with Cons.prems have "maps_ok w1" by (auto intro: maps_step)
  with Cons.IH s Cons.prems show ?case by auto
qed simp

section \<open>The way back\<close>

text \<open>The fences that an engine which has restarted is asked to add again.\<close>

fun cont_restart :: "gf_cont \<Rightarrow> gf_object list" where
  "cont_restart (RestartCont g os io) = [g]"
| "cont_restart _ = []"

fun msg_restart :: "gf_msg \<Rightarrow> gf_object list" where
  "msg_restart (MsgResponse k err data) = cont_restart k"
| "msg_restart _ = []"

definition restarting :: "gf_world \<Rightarrow> gf_object list" where
  "restarting w = concat (map msg_restart (gf_queue w)) @ concat (map (\<lambda>(call, k). cont_restart k) (gf_calls w))"

text \<open>The keys of the fences that are added again, without the clients that have left.\<close>

definition restart_keys :: "addr set \<Rightarrow> gf_world \<Rightarrow> session_key list" where
  "restart_keys gone w = filter (\<lambda>k. key_client k \<notin> gone) (map gf_key (restarting w))"

text \<open>A fence of the table is found under its key, and no key is taken that waits to be added again,
  but for the clients in \<open>gone\<close>, who have been told to leave.\<close>

definition back_inv :: "addr set \<Rightarrow> session_key list \<Rightarrow> gf_adapter \<Rightarrow> bool" where
  "back_inv gone ks a \<longleftrightarrow>
     (\<forall>h g. om_find (mGeofences a) h = Some g \<longrightarrow> om_find (mGeofenceIds a) (gf_key g) = Some h \<or> key_client (gf_key g) \<in> gone) \<and>
     distinct ks \<and> (\<forall>k \<in> set ks. om_find (mGeofenceIds a) k = None)"

definition leaving :: "gf_world \<Rightarrow> addr set" where
  "leaving w = {c. \<exists>b. MsgRemoveClient c b \<in> set (gf_queue w)}"

definition back_ok :: "addr set \<Rightarrow> gf_world \<Rightarrow> bool" where
  "back_ok gone w \<longleftrightarrow> back_inv gone (restart_keys gone w) (gfa w) \<and> leaving w \<subseteq> gone"

lemma back_invD: "back_inv gone ks a \<Longrightarrow> om_find (mGeofences a) h = Some g \<Longrightarrow> key_client (gf_key g) \<notin> gone \<Longrightarrow>
    om_find (mGeofenceIds a) (gf_key g) = Some h"
  unfolding back_inv_def by blast

lemma back_inv_gone: "back_inv gone ks a \<Longrightarrow> gone \<subseteq> gone' \<Longrightarrow> back_inv gone' (filter (\<lambda>k. key_client k \<notin> gone') ks) a"
  unfolding back_inv_def by (auto simp: distinct_filter)

text \<open>An identifier that is drawn for a new fence is not in use under its client.\<close>

definition fresh_key :: "gf_op \<Rightarrow> gf_world \<Rightarrow> bool" where
  "fresh_key op w \<longleftrightarrow>
     (case (op, gf_queue w) of
        (ProcNext, MsgResponse (DoneCont GfAdd c i h) err data # ms) \<Rightarrow>
          (case gf_cmds w c of
             None \<Rightarrow> True
           | Some x \<Rightarrow> gf_lock w = ENGINE_LOCK_STATE_DISABLED \<or> err = LOCATION_ERROR_SUCCESS \<longrightarrow>
               om_find (mGeofenceIds (gfa w)) (SessionKey (cmd_client x) (cmd_ids x ! i)) = None \<and>
               SessionKey (cmd_client x) (cmd_ids x ! i) \<notin> gf_key ` set (restarting w))
      | _ \<Rightarrow> True)"

lemma save_back:
  assumes "maps_inv a" "back_inv gone ks a" "om_find (mGeofences a) h = None"
    and "om_find (mGeofenceIds a) (SessionKey cl ci) = None \<or> cl \<in> gone" "SessionKey cl ci \<notin> set ks"
  shows "back_inv gone ks (saveGeofenceItem cl ci h os io a)"
proof -
  let ?k = "SessionKey cl ci"
  have "gf_key g \<noteq> ?k \<or> cl \<in> gone" if "om_find (mGeofences a) h' = Some g" for h' g
    using that assms(2,4) unfolding back_inv_def by (metis option.distinct(1) session_key.sel(1))
  then have "om_find ((mGeofenceIds a)) (gf_key g) = Some h' \<and> gf_key g \<noteq> ?k \<or> key_client (gf_key g) \<in> gone"
    if "om_find (mGeofences a) h' = Some g" for h' g
    using that assms(2) unfolding back_inv_def by (metis session_key.sel(1))
  then have "om_find (mGeofenceIds (saveGeofenceItem cl ci h os io a)) (gf_key g) = Some h' \<or> key_client (gf_key g) \<in> gone"
    if "om_find (mGeofences (saveGeofenceItem cl ci h os io a)) h' = Some g" for h' g
    using that by (cases "h' = h") (force simp: saveGeofenceItem_def Let_def)+
  moreover have "\<forall>k \<in> set ks. om_find (mGeofenceIds (saveGeofenceItem cl ci h os io a)) k = None"
    using assms(2,5) by (auto simp: back_inv_def saveGeofenceItem_def Let_def)
  ultimately show ?thesis using assms(2) by (simp add: back_inv_def)
qed

lemma remove_back:
  assumes "maps_inv a" "back_inv gone ks a"
  shows "back_inv gone ks (removeGeofenceItem h a)"
proof (cases "\<exists>g. om_find (mGeofences a) h = Some g \<and> om_find (mGeofenceIds a) (gf_key g) \<noteq> None")
  case True
  then obtain g where g: "om_find (mGeofences a) h = Some g" "om_find (mGeofenceIds a) (gf_key g) \<noteq> None" by blast
  let ?a = "a\<lparr>mGeofenceIds := om_erase (gf_key g) (mGeofenceIds a), mGeofences := om_erase h (mGeofences a)\<rparr>"
  have r: "removeGeofenceItem h a = ?a" using g by (auto simp: removeGeofenceItem_def getGeofenceKeyFromHwId_def)
  have ok: "om_ok (mGeofences a)" "om_ok (mGeofenceIds a)" using assms(1) by (auto simp: maps_inv_def)
  have "om_find (mGeofenceIds ?a) (gf_key g') = Some h' \<or> key_client (gf_key g') \<in> gone"
    if f: "om_find (mGeofences ?a) h' = Some g'" for h' g'
  proof (cases "key_client (gf_key g') \<in> gone")
    case False
    from f ok have h': "h' \<noteq> h" "om_find (mGeofences a) h' = Some g'" by (auto split: if_splits)
    from back_invD [OF assms(2) h'(2) False] back_invD [OF assms(2) g(1)] False h'(1) have "gf_key g' \<noteq> gf_key g" by auto
    with back_invD [OF assms(2) h'(2) False] ok show ?thesis by simp
  qed simp
  with assms(2) ok show ?thesis unfolding r by (simp add: back_inv_def)
next
  case False
  then have "removeGeofenceItem h a = a"
    by (auto simp: removeGeofenceItem_def getGeofenceKeyFromHwId_def split: option.splits)
  with assms(2) show ?thesis by simp
qed

lemma upd_back:
  assumes "back_inv gone ks a" and same: "\<And>g. gf_key (f g) = gf_key g"
  shows "back_inv gone ks (a\<lparr>mGeofences := om_upd h f (mGeofences a)\<rparr>)"
proof -
  have "om_find (mGeofenceIds a) (gf_key g) = Some h' \<or> key_client (gf_key g) \<in> gone"
    if "om_find (om_upd h f (mGeofences a)) h' = Some g" for h' g
  proof -
    from that same obtain g0 where "om_find (mGeofences a) h' = Some g0" "gf_key g = gf_key g0"
      by (cases "h' = h") auto
    with assms(1) show ?thesis unfolding back_inv_def by metis
  qed
  with assms(1) show ?thesis by (simp add: back_inv_def)
qed

lemma item_back:
  assumes "back_inv gone ks a"
  shows "back_inv gone ks (pauseGeofenceItem h a)" "back_inv gone ks (resumeGeofenceItem h a)"
    "back_inv gone ks (modifyGeofenceItem h os a)"
  unfolding pauseGeofenceItem_def resumeGeofenceItem_def modifyGeofenceItem_def
  by (rule upd_back [OF assms], simp)+

lemma restarting_simps [simp]:
  "restarting (upd_adapter f w) = restarting w" "restarting (set_err c i e w) = restarting w"
  "restarting (w\<lparr>gf_cmds := cm\<rparr>) = restarting w" "restarting (w\<lparr>gf_deleted := ds\<rparr>) = restarting w"
  "restarting (w\<lparr>gf_next := n\<rparr>) = restarting w" "restarting (w\<lparr>gf_lock := l\<rparr>) = restarting w" "restarting (w\<lparr>gf_counter := ct\<rparr>) = restarting w"
  "restarting (call_api cs w) = restarting w @ concat (map (\<lambda>(call, k). cont_restart k) cs)"
  "leaving (upd_adapter f w) = leaving w" "leaving (set_err c i e w) = leaving w"
  "leaving (w\<lparr>gf_cmds := cm\<rparr>) = leaving w" "leaving (w\<lparr>gf_deleted := ds\<rparr>) = leaving w"
  "leaving (w\<lparr>gf_next := n\<rparr>) = leaving w" "leaving (w\<lparr>gf_lock := l\<rparr>) = leaving w" "leaving (w\<lparr>gf_counter := ct\<rparr>) = leaving w"
  "leaving (call_api cs w) = leaving w"
  by (simp_all add: restarting_def leaving_def upd_adapter_def set_err_def call_api_def)

lemma restart_keys_simps [simp]:
  "restart_keys gone (upd_adapter f w) = restart_keys gone w" "restart_keys gone (set_err c i e w) = restart_keys gone w"
  by (simp_all add: restart_keys_def)

lemma back_ok_simps [simp]:
  "back_ok gone (set_err c i e w) = back_ok gone w" "back_ok gone (w\<lparr>gf_cmds := cm\<rparr>) = back_ok gone w"
  "back_ok gone (w\<lparr>gf_deleted := ds\<rparr>) = back_ok gone w" "back_ok gone (w\<lparr>gf_next := n\<rparr>) = back_ok gone w"
  "back_ok gone (w\<lparr>gf_lock := l\<rparr>) = back_ok gone w" "back_ok gone (w\<lparr>gf_counter := ct\<rparr>) = back_ok gone w"
  by (simp_all add: back_ok_def restart_keys_def)

lemma back_ok_upd:
  "back_ok gone (upd_adapter f w) \<longleftrightarrow> back_inv gone (restart_keys gone w) (f (gfa w)) \<and> leaving w \<subseteq> gone"
  by (simp add: back_ok_def restart_keys_def)

lemma back_ok_call: "concat (map (\<lambda>(call, k). cont_restart k) cs) = [] \<Longrightarrow> back_ok gone (call_api cs w) = back_ok gone w"
  by (simp add: back_ok_def restart_keys_def del: concat_eq_Nil_conv)

lemma back_ok_send:
  assumes "\<forall>m \<in> set ms. msg_restart m = [] \<and> (\<forall>c b. m = MsgRemoveClient c b \<longrightarrow> c \<in> gone)"
  shows "back_ok gone (send ms w) = back_ok gone w"
proof -
  have "concat (map msg_restart ms) = []" using assms by simp
  then have "restarting (send ms w) = restarting w" by (simp add: restarting_def del: concat_eq_Nil_conv)
  moreover have "leaving (send ms w) \<subseteq> gone \<longleftrightarrow> leaving w \<subseteq> gone" using assms by (auto simp: leaving_def)
  ultimately show ?thesis by (simp add: back_ok_def restart_keys_def)
qed

lemma last_item_back: "last_item c i w = Some (outs, w') \<Longrightarrow> back_ok gone w' = back_ok gone w"
  by (auto simp: last_item_def split: option.splits if_splits)

lemma item_back_ok:
  assumes "item_proc kind c i w = Some (outs, w')" "back_ok gone w"
  shows "back_ok gone w'"
  using assms
  by (auto simp: item_proc_def back_ok_call Let_def dest!: last_item_back split: option.splits if_splits prod.splits)

lemma done_back_ok:
  assumes "done_proc kind c i h err data w = Some (outs, w')" "back_ok gone w" "maps_inv (gfa w)"
    and add: "\<And>x. kind = GfAdd \<Longrightarrow> gf_lock w = ENGINE_LOCK_STATE_DISABLED \<or> err = LOCATION_ERROR_SUCCESS \<Longrightarrow> gf_cmds w c = Some x \<Longrightarrow>
      om_find (mGeofences (gfa w)) data = None \<and> om_find (mGeofenceIds (gfa w)) (SessionKey (cmd_client x) (cmd_ids x ! i)) = None \<and>
      SessionKey (cmd_client x) (cmd_ids x ! i) \<notin> gf_key ` set (restarting w)"
  shows "back_ok gone w'"
proof -
  from assms(2) have b: "back_inv gone (restart_keys gone w) (gfa w)" "leaving w \<subseteq> gone" by (simp_all add: back_ok_def)
  obtain x where x: "gf_cmds w c = Some x" using assms(1) by (auto simp: done_proc_def split: option.splits)
  show ?thesis
  proof (cases kind)
    case GfAdd
    let ?k = "SessionKey (cmd_client x) (cmd_ids x ! i)"
    have s: "back_inv gone (restart_keys gone w) (saveGeofenceItem (cmd_client x) (cmd_ids x ! i) data os io (gfa w))"
      if "gf_lock w = ENGINE_LOCK_STATE_DISABLED \<or> err = LOCATION_ERROR_SUCCESS" for os io
      using add [OF GfAdd that x] by (intro save_back [OF assms(3) b(1)]) (auto simp: restart_keys_def)
    from assms(1) GfAdd x have "last_item c i (set_err c i err
        (if gf_lock w = ENGINE_LOCK_STATE_DISABLED \<or> err = LOCATION_ERROR_SUCCESS
         then upd_adapter (saveGeofenceItem (cmd_client x) (cmd_ids x ! i) data (the (cmd_options x) ! i) (the (cmd_infos x) ! i)) w
         else w)) = Some (outs, w')"
      by (simp add: done_proc_def Let_def)
    from last_item_back [OF this, of gone] s b(2) assms(2) show ?thesis by (simp add: back_ok_upd split: if_splits)
  qed (use assms(1,2) b x item_back [OF b(1)] remove_back [OF assms(3) b(1)] in
    \<open>auto simp: done_proc_def Let_def back_ok_upd dest!: last_item_back split: if_splits\<close>)
qed

lemma stop_client_back:
  assumes "back_ok gone w" "client \<in> gone"
  shows "back_ok gone (stopClientSessions client w)"
proof -
  from assms(1) have b: "back_inv gone (restart_keys gone w) (gfa w)" "leaving w \<subseteq> gone" by (simp_all add: back_ok_def)
  let ?rest = "filter (\<lambda>(k, h). key_client k \<noteq> client) (mGeofenceIds (gfa w))"
  have rest: "om_find ?rest k = (if key_client k \<noteq> client then om_find (mGeofenceIds (gfa w)) k else None)" for k
    by (rule find_filter)
  have "back_inv gone (restart_keys gone w) ((gfa w)\<lparr>mGeofenceIds := ?rest\<rparr>)"
    using b(1) assms(2) unfolding back_inv_def by (auto simp: rest)
  then have "back_ok gone (upd_adapter (\<lambda>a. a\<lparr>mGeofenceIds := ?rest\<rparr>) w)" using b(2) by (simp add: back_ok_upd)
  moreover have "concat (map (\<lambda>(call, k). cont_restart k) (map (\<lambda>(k, h). (RemoveGeofence h (key_id k), StopCont h)) mine)) = []" for mine
    by (induction mine) auto
  ultimately show ?thesis unfolding stopClientSessions_def Let_def using back_ok_call by blast
qed

lemma distinct_keys:
  assumes "om_ok gs" "\<And>h g. om_find gs h = Some g \<Longrightarrow> P (gf_key g) \<Longrightarrow> f (gf_key g) = Some h"
  shows "distinct (filter P (map (\<lambda>(h, g). gf_key g) gs))"
proof -
  have "\<forall>(h, g) \<in> set gs. P (gf_key g) \<longrightarrow> f (gf_key g) = Some h" using assms by (auto simp: find_iff_mem)
  moreover have "distinct (map fst gs)" using om_ok_distinct [OF assms(1)] .
  ultimately show ?thesis by (induction gs) (force simp: image_iff)+
qed

lemma restart_back:
  assumes "back_ok gone w" "maps_inv (gfa w)"
  shows "back_ok gone (restartGeofences w)"
proof (cases "mGeofences (gfa w) = []")
  case False
  let ?old = "mGeofences (gfa w)"
  let ?cs = "map (\<lambda>(h, g). (AddGeofence (key_id (gf_key g)) (object_option g) (object_info g), RestartCont g (object_option g) (object_info g))) ?old"
  let ?w = "upd_adapter (\<lambda>a. a\<lparr>mGeofences := [], mGeofenceIds := []\<rparr>) w"
  from assms(1) have b: "back_inv gone (restart_keys gone w) (gfa w)" "leaving w \<subseteq> gone" by (simp_all add: back_ok_def)
  have "concat (map (\<lambda>(call, k). cont_restart k) (map (\<lambda>(h, g). (AddGeofence (key_id (gf_key g)) (object_option g) (object_info g), RestartCont g (object_option g) (object_info g))) xs)) = map snd xs" for xs
    by (induction xs) auto
  note cs = this [of ?old]
  let ?new = "filter (\<lambda>k. key_client k \<notin> gone) (map (\<lambda>(h, g). gf_key g) ?old)"
  have rk: "restart_keys gone (call_api ?cs ?w) = restart_keys gone w @ ?new"
    by (simp add: restart_keys_def cs del: map_map) (simp add: comp_def split_beta')
  have ok: "om_ok ?old" using assms(2) by (simp add: maps_inv_def)
  have "distinct ?new" by (rule distinct_keys [OF ok, where f = "om_find (mGeofenceIds (gfa w))"]) (rule back_invD [OF b(1)])
  moreover have "om_find (mGeofenceIds (gfa w)) k \<noteq> None" if "k \<in> set ?new" for k
  proof -
    from that obtain h g where "(h, g) \<in> set ?old" "k = gf_key g" "key_client (gf_key g) \<notin> gone" by auto
    with back_invD [OF b(1), of h g] ok show ?thesis by (simp add: find_iff_mem)
  qed
  ultimately have "distinct (restart_keys gone w @ ?new)" using b(1) unfolding back_inv_def by fastforce
  then have "back_inv gone (restart_keys gone (call_api ?cs ?w)) (gfa (call_api ?cs ?w))"
    unfolding rk by (simp add: back_inv_def)
  with False b(2) show ?thesis by (simp add: restartGeofences_def Let_def back_ok_def)
qed (use assms in \<open>simp add: restartGeofences_def Let_def\<close>)

lemma back_msg_ok:
  assumes "gf_msg_proc ctx m (w\<lparr>gf_queue := ms\<rparr>) = Some (outs, w')" "gf_queue w = m # ms" "maps_ok w" "back_ok gone w"
    and "fresh_hw ProcNext w" "fresh_key ProcNext w"
  shows "back_ok gone w'"
proof -
  let ?w = "w\<lparr>gf_queue := ms\<rparr>"
  have keys: "restarting w = msg_restart m @ restarting ?w" using assms(2) by (simp add: restarting_def)
  have lv: "leaving ?w \<subseteq> gone" "m = MsgRemoveClient c b \<Longrightarrow> c \<in> gone" for c b
    using assms(2,4) by (auto simp: leaving_def back_ok_def)
  have inv: "maps_inv (gfa ?w)" using assms(3) by (simp add: maps_ok_def)
  have all: "back_inv gone (restart_keys gone w) (gfa w)" using assms(4) by (simp add: back_ok_def)
  then have w: "back_ok gone ?w" using lv(1) by (auto simp: back_ok_def back_inv_def restart_keys_def keys)
  then have b: "back_inv gone (restart_keys gone ?w) (gfa ?w)" by (simp add: back_ok_def)
  have pend: "\<forall>m \<in> set (pending_msgs ps). msg_restart m = [] \<and> (\<forall>c b. m = MsgRemoveClient c b \<longrightarrow> c \<in> gone)" for ps
    by (auto simp: pending_msgs_def)
  show ?thesis
  proof (cases m)
    case (MsgCommand kind c)
    have "concat (map (\<lambda>(call, k). cont_restart k) (map (\<lambda>i. (AddToCallQueue, ItemCont kind c i)) xs)) = []" for xs by (induction xs) auto
    with assms(1) w MsgCommand show ?thesis
      by (auto simp: command_proc_def Let_def back_ok_call simp del: map_map concat_eq_Nil_conv split: option.splits if_splits)
  next
    case (MsgResponse k err data)
    show ?thesis
    proof (cases k)
      case (ItemCont kind c i)
      with assms(1) w MsgResponse item_back_ok show ?thesis by simp
    next
      case (DoneCont kind c i h)
      with assms(1) MsgResponse have d: "done_proc kind c i h err data ?w = Some (outs, w')" by simp
      show ?thesis
        by (rule done_back_ok [OF d w inv]) (use assms(2,5,6) keys MsgResponse DoneCont in \<open>auto simp: fresh_hw_def fresh_key_def\<close>)
    next
      case (StopCont h)
      have "om_ok (mGeofences (gfa ?w))" using inv by (simp add: maps_inv_def)
      then have "back_inv gone (restart_keys gone ?w) ((gfa ?w)\<lparr>mGeofences := om_erase h (mGeofences (gfa ?w))\<rparr>)"
        using b by (auto simp: back_inv_def)
      with lv(1) w assms(1) MsgResponse StopCont show ?thesis by (auto simp: stop_done_def back_ok_upd)
    next
      case (RestartCont g os io)
      have "restart_keys gone w = (if key_client (gf_key g) \<notin> gone then [gf_key g] else []) @ restart_keys gone ?w"
        using keys MsgResponse RestartCont by (simp add: restart_keys_def)
      with all have k: "om_find (mGeofenceIds (gfa ?w)) (gf_key g) = None \<or> key_client (gf_key g) \<in> gone"
        "key_client (gf_key g) \<notin> gone \<Longrightarrow> gf_key g \<notin> set (restart_keys gone ?w)"
        by (auto simp: back_inv_def split: if_splits)
      then have k': "gf_key g \<notin> set (restart_keys gone ?w)" by (auto simp: restart_keys_def)
      have e: "SessionKey (key_client (gf_key g)) (key_id (gf_key g)) = gf_key g" by (cases "gf_key g") simp
      have s: "back_inv gone (restart_keys gone ?w) (saveGeofenceItem (key_client (gf_key g)) (key_id (gf_key g)) data os io (gfa ?w))"
        if "err = LOCATION_ERROR_SUCCESS"
        using that assms(2,5) MsgResponse RestartCont k(1) k' e
        by (intro save_back [OF inv b]) (simp_all add: fresh_hw_def)
      have p: "concat (map (\<lambda>(call, k). cont_restart k) [(c, NoCont)]) = []" for c :: gf_call by simp
      show ?thesis using assms(1) MsgResponse RestartCont w s lv(1)
        by (auto simp: restart_done_def back_ok_upd back_ok_call [OF p] restart_keys_def)
    next
      case NoCont
      with assms(1) w MsgResponse show ?thesis by simp
    qed
  next
    case (MsgAddClient client cbs)
    with assms(1) b lv(1) show ?thesis by (auto simp: addClient_def Let_def back_ok_upd) (simp add: back_inv_def)
  next
    case (MsgRemoveClient client hasCb)
    have "back_ok gone (stopClientSessions client ?w)" by (rule stop_client_back [OF w lv(2) [OF MsgRemoveClient]])
    with assms(1) MsgRemoveClient show ?thesis
      by (auto simp: removeClient_def Let_def back_ok_upd) (auto simp: back_ok_def back_inv_def)
  next
    case (MsgRequestCapabilities p client)
    with assms(1) w show ?thesis
      by (auto simp: requestCapabilities_def Let_def back_ok_upd split: if_splits) (auto simp: back_ok_def back_inv_def restart_keys_def)
  next
    case MsgSSREvent
    let ?u = "upd_adapter (\<lambda>a. a\<lparr>mIsEngineCapabilitiesKnown := True\<rparr>) ?w"
    have u: "back_ok gone ?u" using b lv(1) by (simp add: back_ok_upd) (simp add: back_inv_def)
    have "maps_inv (gfa ?u)" using inv by (simp add: maps_inv_def)
    from restart_back [OF u this] have "back_ok gone (send (pending_msgs ps) (restartGeofences ?u))" for ps
      using back_ok_send [OF pend] by blast
    with assms(1) u MsgSSREvent show ?thesis by (auto simp: engine_up_def Let_def)
  next
    case (MsgEngineLockStateEvent st)
    have "back_ok gone (send (pending_msgs ps) ?w)" for ps using w back_ok_send [OF pend] by blast
    with assms(1) w MsgEngineLockStateEvent show ?thesis
      by (auto simp: handleEngineLockStatus_def back_ok_upd) (auto simp: back_ok_def back_inv_def)
  qed (use assms(1) w in auto)
qed

text \<open>The clients that are told to leave in a run.\<close>

definition leavers :: "gf_op list \<Rightarrow> addr set" where
  "leavers ops = {c. \<exists>b. RemoveClientCommand c b \<in> set ops}"

lemma back_ok_mono:
  assumes "back_ok gone w" "gone \<subseteq> gone'"
  shows "back_ok gone' w"
proof -
  have "filter (\<lambda>k. key_client k \<notin> gone') (restart_keys gone w) = restart_keys gone' w"
    using assms(2) by (auto simp: restart_keys_def intro!: filter_cong)
  with assms back_inv_gone [of gone "restart_keys gone w" "gfa w" gone'] show ?thesis by (auto simp: back_ok_def)
qed

lemma back_step:
  assumes "gf_step ctx op w = Some (outs, w')" "maps_ok w" "back_ok gone w" "fresh_hw op w" "fresh_key op w"
    "leavers [op] \<subseteq> gone"
  shows "back_ok gone w'"
proof (cases op)
  case (Answer n err data)
  show ?thesis
  proof (cases "drop n (gf_calls w)")
    case (Cons x cs)
    obtain call k where x: "x = (call, k)" by force
    let ?w = "send [MsgResponse k err data] (w\<lparr>gf_calls := take n (gf_calls w) @ cs\<rparr>)"
    have calls: "gf_calls w = take n (gf_calls w) @ (call, k) # cs" using append_take_drop_id [of n "gf_calls w"] Cons x by simp
    have r0: "concat (map (\<lambda>(call, k). cont_restart k) (gf_calls w)) =
        concat (map (\<lambda>(call, k). cont_restart k) (take n (gf_calls w))) @ cont_restart k @ concat (map (\<lambda>(call, k). cont_restart k) cs)"
      using arg_cong [OF calls, of "\<lambda>cs. concat (map (\<lambda>(call, k). cont_restart k) cs)"] by simp
    have "mset (restarting ?w) = mset (restarting w)" unfolding restarting_def r0 by (simp add: send_def)
    then have "mset (restart_keys gone ?w) = mset (restart_keys gone w)" by (simp add: restart_keys_def mset_filter)
    then have "set (restart_keys gone ?w) = set (restart_keys gone w)" "distinct (restart_keys gone ?w) = distinct (restart_keys gone w)"
      by (metis set_mset_mset, metis mset_eq_imp_distinct_iff)
    moreover have "leaving ?w = leaving w" by (auto simp: leaving_def send_def)
    moreover have "gfa ?w = gfa w" by (simp add: send_def)
    ultimately have "back_ok gone ?w" using assms(3) by (simp add: back_ok_def back_inv_def)
    with assms(1) Answer Cons x show ?thesis by simp
  qed (use Answer assms in simp)
next
  case ProcNext
  with assms back_msg_ok [OF _ _ assms(2,3), of ctx _ _ outs w'] show ?thesis by (cases "gf_queue w") auto
qed (use assms(1,3,6) in \<open>auto simp: new_command_def back_ok_send leavers_def Let_def split: prod.splits\<close>)

lemma back_run:
  assumes "ops_ok (\<lambda>op w. fresh_hw op w \<and> fresh_key op w) (gf_step ctx) ops w" "run_ops (gf_step ctx) ops w = Some (outs, w')"
    "maps_ok w" "back_ok gone w" "leavers ops \<subseteq> gone"
  shows "maps_ok w' \<and> back_ok gone w'"
  using assms
proof (induction ops arbitrary: w outs)
  case (Cons x ops)
  then obtain o1 w1 os where s: "gf_step ctx x w = Some (o1, w1)" "run_ops (gf_step ctx) ops w1 = Some (os, w')"
    by (auto split: option.splits)
  have l: "leavers [x] \<subseteq> gone" "leavers ops \<subseteq> gone" using Cons.prems(5) by (auto simp: leavers_def)
  with s(1) Cons.prems have "maps_ok w1" "back_ok gone w1" by (auto intro: maps_step back_step)
  with Cons.IH s l Cons.prems(1) show ?case by auto
qed simp

lemma maps_ok_start: "maps_ok gf_start"
  by (simp add: gf_start_def maps_ok_def maps_inv_def unmapped_def stop_ids_def)

lemma back_ok_start: "back_ok gone gf_start"
  by (simp add: gf_start_def back_ok_def back_inv_def restart_keys_def restarting_def leaving_def)

lemma gf_demo_fresh: "ops_ok fresh_hw (gf_step demo_context) gf_demo gf_start"
  "ops_ok (\<lambda>op w. fresh_hw op w \<and> fresh_key op w) (gf_step demo_context) gf_demo gf_start"
  by code_simp+

text \<open>C29. The maps agree. The hardware id found for a client's identifier is the id of a fence that
belongs to this client under this identifier, so two identifiers never lead to the same fence; and for
every client that was not told to leave, the fence that has a hardware id is found under the key that
the table of hardware ids gives. This takes two things: \<open>fresh_hw\<close>, that a fence is saved under a
hardware id that no fence has and none that is being removed; and \<open>fresh_key\<close>, that the identifier of
an added fence, drawn from a counter of 32 bits, is not in use under its client. The first is up to the
engine, and the code saves even the failed additions of a locked engine, under the id that came with
the failure: without it the maps disagree (\<open>failed_adds_collide\<close>). A client that leaves keeps its
fences in the table until the engine has removed them, but cannot name them any more.\<close>

theorem geofence_maps_agree:
  assumes "ops_ok (\<lambda>op w. fresh_hw op w \<and> fresh_key op w) (gf_step ctx) ops gf_start"
    "run_ops (gf_step ctx) ops gf_start = Some (outs, w)"
  shows "(\<forall>client i h. getHwIdFromClient client i (gfa w) = (LOCATION_ERROR_SUCCESS, h) \<longrightarrow>
      getGeofenceKeyFromHwId h (gfa w) = Some (SessionKey client i)) \<and>
    (\<forall>client i h. (\<forall>b. RemoveClientCommand client b \<notin> set ops) \<longrightarrow>
      getGeofenceKeyFromHwId h (gfa w) = Some (SessionKey client i) \<longrightarrow>
      getHwIdFromClient client i (gfa w) = (LOCATION_ERROR_SUCCESS, h))"
proof (intro conjI allI impI)
  have r: "maps_ok w" "back_ok (leavers ops) w" using back_run [OF assms maps_ok_start back_ok_start subset_refl] by blast+
  then have m: "maps_inv (gfa w)" by (simp add: maps_ok_def)
  show "getGeofenceKeyFromHwId h (gfa w) = Some (SessionKey client i)"
    if "getHwIdFromClient client i (gfa w) = (LOCATION_ERROR_SUCCESS, h)" for client i h
    using that maps_invD [OF m] by (force simp: getHwIdFromClient_def getGeofenceKeyFromHwId_def split: option.splits)
  show "getHwIdFromClient client i (gfa w) = (LOCATION_ERROR_SUCCESS, h)"
    if "\<forall>b. RemoveClientCommand client b \<notin> set ops" "getGeofenceKeyFromHwId h (gfa w) = Some (SessionKey client i)" for client i h
  proof -
    from that(2) obtain g where g: "om_find (mGeofences (gfa w)) h = Some g" "gf_key g = SessionKey client i"
      by (auto simp: getGeofenceKeyFromHwId_def)
    have "client \<notin> leavers ops" using that(1) by (simp add: leavers_def)
    then have "om_find (mGeofenceIds (gfa w)) (SessionKey client i) = Some h"
      using back_invD [of "leavers ops" "restart_keys (leavers ops) w" "gfa w" h g] r(2) g by (simp add: back_ok_def)
    then show ?thesis by (simp add: getHwIdFromClient_def)
  qed
qed

lemma gf_demo_run:
  obtains outs w where "run_ops (gf_step demo_context) gf_demo gf_start = Some (outs, w)"
    "getHwIdFromClient 1 3 (gfa w) = (LOCATION_ERROR_SUCCESS, 72)" "getHwIdFromClient 1 2 (gfa w) = (LOCATION_ERROR_SUCCESS, 71)"
    "map fst (mClientData (gfa w)) = [1]" "om_find (mClientData (gfa w)) 1 = Some demo_callbacks"
proof -
  have "case run_ops (gf_step demo_context) gf_demo gf_start of None \<Rightarrow> False
      | Some (outs, w) \<Rightarrow> getHwIdFromClient 1 3 (gfa w) = (LOCATION_ERROR_SUCCESS, 72) \<and>
          getHwIdFromClient 1 2 (gfa w) = (LOCATION_ERROR_SUCCESS, 71) \<and>
          map fst (mClientData (gfa w)) = [1] \<and> om_find (mClientData (gfa w)) 1 = Some demo_callbacks"
    by code_simp
  then show thesis using that by (auto split: option.splits)
qed

theorem geofence_maps_agree_witness:
  "\<exists>outs w. run_ops (gf_step demo_context) gf_demo gf_start = Some (outs, w) \<and>
     getHwIdFromClient 1 3 (gfa w) = (LOCATION_ERROR_SUCCESS, 72) \<and> getGeofenceKeyFromHwId 72 (gfa w) = Some (SessionKey 1 3)"
proof -
  obtain outs w where r: "run_ops (gf_step demo_context) gf_demo gf_start = Some (outs, w)"
      "getHwIdFromClient 1 3 (gfa w) = (LOCATION_ERROR_SUCCESS, 72)" by (rule gf_demo_run)
  from geofence_maps_agree [OF gf_demo_fresh(2) r(1)] r show ?thesis by blast
qed

text \<open>The engine is locked and two additions fail, both with hardware id 0: both are saved, and both
  identifiers of the client lead to the one fence.\<close>

lemma failed_adds_collide:
  "case run_ops (gf_step demo_context)
      [AddClientCommand 1 demo_callbacks, ProcNext, EngineLockEvent ENGINE_LOCK_STATE_DISABLED, ProcNext,
       AddGeofencesCommand 1 2 (Some [demo_option, demo_option]) (Some [demo_info, demo_info]), ProcNext,
       Answer 0 LOCATION_ERROR_SUCCESS 0, Answer 0 LOCATION_ERROR_SUCCESS 0, ProcNext, ProcNext,
       Answer 0 LOCATION_ERROR_GENERAL_FAILURE 0, Answer 0 LOCATION_ERROR_GENERAL_FAILURE 0, ProcNext, ProcNext] gf_start of
     None \<Rightarrow> False
   | Some (outs, w) \<Rightarrow> getHwIdFromClient 1 2 (gfa w) = (LOCATION_ERROR_SUCCESS, 0) \<and>
       getHwIdFromClient 1 3 (gfa w) = (LOCATION_ERROR_SUCCESS, 0) \<and>
       getGeofenceKeyFromHwId 0 (gfa w) = Some (SessionKey 1 3)"
  by code_simp

text \<open>
  The breach report. Each client is told at most once, and of its own fences only.
\<close>

lemma breach_told:
  assumes "om_ok (mClientData a)"
  shows "BreachCb client ids loc ty ts \<in> set (geofenceBreach hwIds loc ty ts a) \<longleftrightarrow>
    (\<exists>c. om_find (mClientData a) client = Some c \<and> geofenceBreachCb c) \<and> ids \<noteq> [] \<and> ids = breach_ids client hwIds a"
  using assms by (auto simp: geofenceBreach_def Let_def find_iff_mem split: if_splits)

fun breach_client :: "gf_out \<Rightarrow> addr list" where
  "breach_client (BreachCb client ids loc ty ts) = [client]"
| "breach_client _ = []"

lemma breach_once:
  assumes "om_ok (mClientData a)"
  shows "distinct (concat (map breach_client (geofenceBreach hwIds loc ty ts a)))"
proof -
  have "concat (map breach_client (concat (map (\<lambda>(client, c).
       if breach_ids client hwIds a \<noteq> [] \<and> geofenceBreachCb c
       then [BreachCb client (breach_ids client hwIds a) loc ty ts] else []) cs))) =
      map fst (filter (\<lambda>(client, c). breach_ids client hwIds a \<noteq> [] \<and> geofenceBreachCb c) cs)" for cs :: clients
    by (induction cs) auto
  then show ?thesis using om_ok_distinct [OF assms] by (simp add: geofenceBreach_def Let_def distinct_map_filter)
qed

lemma breach_ids_mem:
  "i \<in> set (breach_ids client hwIds a) \<longleftrightarrow> (\<exists>h \<in> set hwIds. getGeofenceKeyFromHwId h a = Some (SessionKey client i))"
proof -
  have "i \<in> set (breach_ids client hwIds a) \<longleftrightarrow> SessionKey client i \<in> set (List.map_filter (\<lambda>h. getGeofenceKeyFromHwId h a) hwIds)"
    by (auto simp: breach_ids_def image_iff)
  also have "\<dots> \<longleftrightarrow> (\<exists>h \<in> set hwIds. getGeofenceKeyFromHwId h a = Some (SessionKey client i))"
    by (induction hwIds) (auto simp: List.map_filter_def)
  finally show ?thesis .
qed

text \<open>Breaches are told to the right clients: the message of a breach calls each client at most
once; a client that has a fence among the breached ones under an identifier i, and a callback, is
called with i; and a client is only called with identifiers of its own breached fences.\<close>

theorem geofence_breach_told:
  assumes "ops_ok fresh_hw (gf_step ctx) ops gf_start" "run_ops (gf_step ctx) ops gf_start = Some (outs, w)"
    and "gf_queue w = MsgGeofenceBreach hwIds loc ty ts # ms" "gf_step ctx ProcNext w = Some (new, w')"
  shows "distinct (concat (map breach_client new)) \<and>
    (\<forall>client ids. BreachCb client ids loc ty ts \<in> set new \<longrightarrow>
       (\<forall>i \<in> set ids. \<exists>h \<in> set hwIds. getGeofenceKeyFromHwId h (gfa w) = Some (SessionKey client i))) \<and>
    (\<forall>client c i h. h \<in> set hwIds \<longrightarrow> getHwIdFromClient client i (gfa w) = (LOCATION_ERROR_SUCCESS, h) \<longrightarrow>
       om_find (mClientData (gfa w)) client = Some c \<longrightarrow> geofenceBreachCb c \<longrightarrow>
       (\<exists>ids. BreachCb client ids loc ty ts \<in> set new \<and> i \<in> set ids))"
proof -
  have m: "maps_inv (gfa w)" using maps_run [OF assms(1,2) maps_ok_start] by (simp add: maps_ok_def)
  then have ok: "om_ok (mClientData (gfa w))" by (simp add: maps_inv_def)
  have new: "new = geofenceBreach hwIds loc ty ts (gfa w)" using assms(3,4) by simp
  have k: "getGeofenceKeyFromHwId h (gfa w) = Some (SessionKey cl j)"
    if "getHwIdFromClient cl j (gfa w) = (LOCATION_ERROR_SUCCESS, h)" for cl j h
    using that maps_invD [OF m] by (force simp: getHwIdFromClient_def getGeofenceKeyFromHwId_def split: option.splits)
  have told: "\<exists>ids. BreachCb client ids loc ty ts \<in> set new \<and> i \<in> set ids"
    if "h \<in> set hwIds" "getHwIdFromClient client i (gfa w) = (LOCATION_ERROR_SUCCESS, h)"
      "om_find (mClientData (gfa w)) client = Some c" "geofenceBreachCb c" for client c i h
  proof -
    have i: "i \<in> set (breach_ids client hwIds (gfa w))" using k [OF that(2)] that(1) breach_ids_mem by blast
    then have "breach_ids client hwIds (gfa w) \<noteq> []" by auto
    with i that(3,4) show ?thesis unfolding new breach_told [OF ok] by blast
  qed
  have own: "\<exists>h \<in> set hwIds. getGeofenceKeyFromHwId h (gfa w) = Some (SessionKey client i)"
    if "BreachCb client ids loc ty ts \<in> set new" "i \<in> set ids" for client ids i
    using that breach_ids_mem unfolding new breach_told [OF ok] by blast
  show ?thesis using breach_once [OF ok] told own new by blast
qed

theorem geofence_breach_told_witness:
  "\<exists>outs w new w' ids. run_ops (gf_step demo_context) (gf_demo @ [GeofenceBreachEvent [72, 99] 1 2 3]) gf_start = Some (outs, w) \<and>
     gf_step demo_context ProcNext w = Some (new, w') \<and> BreachCb 1 ids 1 2 3 \<in> set new \<and> 3 \<in> set ids"
proof -
  let ?ops = "gf_demo @ [GeofenceBreachEvent [72, 99] 1 2 3]"
  have ok: "ops_ok fresh_hw (gf_step demo_context) ?ops gf_start" by code_simp
  have "case run_ops (gf_step demo_context) ?ops gf_start of None \<Rightarrow> False
      | Some (outs, w) \<Rightarrow> gf_queue w = [MsgGeofenceBreach [72, 99] 1 2 3] \<and>
          getHwIdFromClient 1 3 (gfa w) = (LOCATION_ERROR_SUCCESS, 72) \<and>
          om_find (mClientData (gfa w)) 1 = Some demo_callbacks"
    by code_simp
  then obtain outs w where r: "run_ops (gf_step demo_context) ?ops gf_start = Some (outs, w)"
      "gf_queue w = [MsgGeofenceBreach [72, 99] 1 2 3]" "getHwIdFromClient 1 3 (gfa w) = (LOCATION_ERROR_SUCCESS, 72)"
      "om_find (mClientData (gfa w)) 1 = Some demo_callbacks"
    by (auto split: option.splits)
  obtain new w' where s: "gf_step demo_context ProcNext w = Some (new, w')" using r(2) by simp
  have "(72::u32) \<in> set [72, 99]" "geofenceBreachCb demo_callbacks" by (simp_all add: demo_callbacks_def)
  with geofence_breach_told [OF ok r(1,2) s] r(3,4) have "\<exists>ids. BreachCb 1 ids 1 2 3 \<in> set new \<and> 3 \<in> set ids" by blast
  with r(1) s show ?thesis by blast
qed

end
