(* ===== verification/Geofence_Cmds.thy ===== *)
theory Geofence_Cmds
  imports Geofence_Maps
begin

text \<open>
  What the commands of the geofence adapter answer and do. A command is followed from the client's
  call to its answer, with the engine answering each call in turn; concrete runs show what happens
  where the adapter does not do what it is meant to.
\<close>

section \<open>The effect of one item\<close>

text \<open>
  When an item takes effect; what is reported for it; and what it does to the fences.
\<close>

definition takes_effect :: "gf_kind \<Rightarrow> engine_lock \<Rightarrow> location_error \<Rightarrow> bool" where
  "takes_effect kind lock e \<longleftrightarrow>
     e = LOCATION_ERROR_SUCCESS \<or> lock = ENGINE_LOCK_STATE_DISABLED \<and> (kind = GfRemove \<or> kind = GfModify)"

definition reported :: "gf_kind \<Rightarrow> engine_lock \<Rightarrow> location_error \<Rightarrow> location_error" where
  "reported kind lock e =
     (if takes_effect kind lock e \<or> kind = GfRemove \<or> kind = GfPause then e else LOCATION_ERROR_SUCCESS)"

definition item_effect :: "gf_kind \<Rightarrow> gf_option \<Rightarrow> u32 \<Rightarrow> gf_adapter \<Rightarrow> gf_adapter" where
  "item_effect kind os h =
     (case kind of
        GfAdd \<Rightarrow> id
      | GfRemove \<Rightarrow> removeGeofenceItem h
      | GfPause \<Rightarrow> pauseGeofenceItem h
      | GfResume \<Rightarrow> resumeGeofenceItem h
      | GfModify \<Rightarrow> modifyGeofenceItem h os)"

definition item_update :: "gf_kind \<Rightarrow> engine_lock \<Rightarrow> gf_option \<Rightarrow> u32 \<Rightarrow> location_error \<Rightarrow> gf_adapter \<Rightarrow> gf_adapter" where
  "item_update kind lock os h e a = (if takes_effect kind lock e then item_effect kind os h a else a)"

definition item_done :: "gf_kind \<Rightarrow> nat \<Rightarrow> nat \<Rightarrow> u32 \<Rightarrow> location_error \<Rightarrow> gf_cmd \<Rightarrow> gf_world \<Rightarrow> gf_world" where
  "item_done kind c i h e x w =
     w\<lparr>gfa := item_update kind (gf_lock w) (the (cmd_options x) ! i) h e (gfa w),
       gf_cmds := (gf_cmds w)(c := Some (x\<lparr>cmd_errs := (cmd_errs x)[i := Some (reported kind (gf_lock w) e)]\<rparr>))\<rparr>"

lemma world_order [simp]: "w\<lparr>gf_cmds := m, gfa := a\<rparr> = w\<lparr>gfa := a, gf_cmds := m\<rparr>"
  by simp

lemma queue_same: "gf_queue w = [] \<Longrightarrow> w\<lparr>gf_queue := []\<rparr> = w"
  by (metis gf_world.surjective gf_world.update_convs(3))

lemma done_item:
  assumes "gf_cmds w c = Some x" "kind \<noteq> GfAdd" "i < length (cmd_errs x)" "cmd_errs x ! i = Some LOCATION_ERROR_SUCCESS"
  shows "done_proc kind c i h e data w =
    (if kind = GfResume \<and> e \<noteq> LOCATION_ERROR_SUCCESS then Some ([], item_done kind c i h e x w)
     else last_item c i (item_done kind c i h e x w))"
proof -
  have same: "(cmd_errs x)[i := Some LOCATION_ERROR_SUCCESS] = cmd_errs x"
    using assms(4) by (metis list_update_id)
  have cm: "(gf_cmds w)(c := Some x) = gf_cmds w" using assms(1) by auto
  show ?thesis
  proof (cases kind)
    case GfResume
    with assms same cm show ?thesis
      by (simp add: done_proc_def item_done_def item_update_def takes_effect_def item_effect_def reported_def set_err_def upd_adapter_def)
  next
    case GfModify
    with assms same cm show ?thesis
      by (auto simp add: done_proc_def item_done_def item_update_def takes_effect_def item_effect_def reported_def set_err_def upd_adapter_def)
  qed (use assms in \<open>auto simp add: done_proc_def item_done_def item_update_def takes_effect_def item_effect_def
      reported_def set_err_def upd_adapter_def\<close>)
qed

lemma client_data_item [simp]: "mClientData (item_update kind lock os h e a) = mClientData a"
  by (simp add: item_update_def item_effect_def removeGeofenceItem_def pauseGeofenceItem_def resumeGeofenceItem_def
      modifyGeofenceItem_def split: gf_kind.split option.split)

section \<open>A command from the call to the answer\<close>

text \<open>The turns of the items, when all their identifiers are known.\<close>

lemma op_call_errs [simp]: "op_call kind (x\<lparr>cmd_errs := es\<rparr>) i h = op_call kind x i h"
  by (cases kind) simp_all

lemma replicate_snoc_update: "(pre @ None # rest)[length pre := Some v] = pre @ Some v # rest"
  by simp

lemma upt_step: "[j..<j + Suc m] = j # [Suc j..<Suc j + m]"
  by (simp add: upt_conv_Cons del: upt_Suc)

lemma turns_run:
  assumes "gf_cmds w c = Some x" "kind \<noteq> GfAdd" "gf_queue w = []" "length pre + k = length (cmd_ids x)"
    and "\<And>i. i < length (cmd_ids x) \<Longrightarrow> getHwIdFromClient (cmd_client x) (cmd_ids x ! i) (gfa w) = (LOCATION_ERROR_SUCCESS, hw i)"
    and "gf_calls w = map (\<lambda>i. (AddToCallQueue, ItemCont kind c i)) [length pre..<length pre + k] @ D"
    and "cmd_errs x = pre @ replicate k None"
  shows "\<exists>outs. run_ops (gf_step ctx) (concat (replicate k [Answer 0 LOCATION_ERROR_SUCCESS 0, ProcNext])) w =
      Some (outs, w\<lparr>gf_cmds := (gf_cmds w)(c := Some (x\<lparr>cmd_errs := pre @ replicate k (Some LOCATION_ERROR_SUCCESS)\<rparr>)),
        gf_calls := D @ map (\<lambda>i. (op_call kind x i (hw i), DoneCont kind c i (hw i))) [length pre..<length pre + k]\<rparr>) \<and> concat outs = []"
  using assms
proof (induction k arbitrary: w x D pre)
  case 0
  then have "(gf_cmds w)(c := Some (x\<lparr>cmd_errs := pre\<rparr>)) = gf_cmds w" by (auto simp: fun_eq_iff)
  moreover have "gf_calls w = D" using 0 by simp
  ultimately show ?case by simp
next
  case (Suc k)
  let ?j = "length pre"
  let ?p = "pre @ [Some LOCATION_ERROR_SUCCESS]"
  let ?x = "x\<lparr>cmd_errs := ?p @ replicate k None\<rparr>"
  let ?D = "D @ [(op_call kind x ?j (hw ?j), DoneCont kind c ?j (hw ?j))]"
  let ?w = "w\<lparr>gf_cmds := (gf_cmds w)(c := Some ?x),
      gf_calls := map (\<lambda>i. (AddToCallQueue, ItemCont kind c i)) [length ?p..<length ?p + k] @ ?D\<rparr>"
  have upt: "[?j..<?j + Suc k] = ?j # [length ?p..<length ?p + k]" using upt_step [of ?j] by simp
  have s1: "run_ops (gf_step ctx) [Answer 0 LOCATION_ERROR_SUCCESS 0, ProcNext] w = Some ([[], []], ?w)"
    using Suc.prems(1-4,6,7) Suc.prems(5) [of ?j] upt
    by (simp add: queue_same send_def item_proc_def set_err_def call_api_def Let_def)
  have ih: "\<exists>outs. run_ops (gf_step ctx) (concat (replicate k [Answer 0 LOCATION_ERROR_SUCCESS 0, ProcNext])) ?w =
      Some (outs, ?w\<lparr>gf_cmds := (gf_cmds ?w)(c := Some (?x\<lparr>cmd_errs := ?p @ replicate k (Some LOCATION_ERROR_SUCCESS)\<rparr>)),
        gf_calls := ?D @ map (\<lambda>i. (op_call kind ?x i (hw i), DoneCont kind c i (hw i))) [length ?p..<length ?p + k]\<rparr>) \<and> concat outs = []"
    by (rule Suc.IH) (use Suc.prems in auto)
  have eq: "?w\<lparr>gf_cmds := (gf_cmds ?w)(c := Some (?x\<lparr>cmd_errs := ?p @ replicate k (Some LOCATION_ERROR_SUCCESS)\<rparr>)),
        gf_calls := ?D @ map (\<lambda>i. (op_call kind ?x i (hw i), DoneCont kind c i (hw i))) [length ?p..<length ?p + k]\<rparr> =
      w\<lparr>gf_cmds := (gf_cmds w)(c := Some (x\<lparr>cmd_errs := pre @ replicate (Suc k) (Some LOCATION_ERROR_SUCCESS)\<rparr>)),
        gf_calls := D @ map (\<lambda>i. (op_call kind x i (hw i), DoneCont kind c i (hw i))) [?j..<?j + Suc k]\<rparr>" (is "?l = ?r")
    unfolding upt by simp
  from ih [unfolded eq] obtain outs where
    s2: "run_ops (gf_step ctx) (concat (replicate k [Answer 0 LOCATION_ERROR_SUCCESS 0, ProcNext])) ?w = Some (outs, ?r)"
      "concat outs = []" by blast
  have "concat (replicate (Suc k) [Answer 0 LOCATION_ERROR_SUCCESS 0, ProcNext]) =
      [Answer 0 LOCATION_ERROR_SUCCESS 0, ProcNext] @ concat (replicate k [Answer 0 LOCATION_ERROR_SUCCESS 0, ProcNext])"
    by simp
  with run_ops_append [OF s1 s2(1)]
  have "run_ops (gf_step ctx) (concat (replicate (Suc k) [Answer 0 LOCATION_ERROR_SUCCESS 0, ProcNext])) w = Some ([[], []] @ outs, ?r)"
    by simp
  then show ?case by (rule exI [of _ "[[], []] @ outs", OF conjI]) (simp add: s2(2))
qed

text \<open>The answers of the engine, one after the other.\<close>

definition answered :: "gf_kind \<Rightarrow> location_error list \<Rightarrow> bool" where
  "answered kind es \<longleftrightarrow> kind = GfResume \<longrightarrow> last es = LOCATION_ERROR_SUCCESS"

lemma answered_Cons [simp]: "es \<noteq> [] \<Longrightarrow> answered kind (e # es) = answered kind es"
  by (simp add: answered_def)

definition apply_items :: "gf_kind \<Rightarrow> engine_lock \<Rightarrow> gf_option list \<Rightarrow> (nat \<Rightarrow> u32) \<Rightarrow> nat \<Rightarrow> location_error list \<Rightarrow> gf_adapter \<Rightarrow> gf_adapter" where
  "apply_items kind lock os hw j es = fold (\<lambda>(i, e). item_update kind lock (os ! i) (hw i) e) (enumerate j es)"

lemma apply_items_simps [simp]:
  "apply_items kind lock os hw j [] a = a"
  "apply_items kind lock os hw j (e # es) a = apply_items kind lock os hw (Suc j) es (item_update kind lock (os ! j) (hw j) e a)"
  by (simp_all add: apply_items_def)

lemma client_data_items [simp]: "mClientData (apply_items kind lock os hw j es a) = mClientData a"
  by (induction es arbitrary: j a) simp_all

definition all_done :: "gf_kind \<Rightarrow> nat \<Rightarrow> gf_cmd \<Rightarrow> location_error option list \<Rightarrow> (nat \<Rightarrow> u32) \<Rightarrow> nat \<Rightarrow> location_error list \<Rightarrow> gf_world \<Rightarrow> gf_world" where
  "all_done kind c x pre hw j es w =
     w\<lparr>gfa := apply_items kind (gf_lock w) (the (cmd_options x)) hw j es (gfa w),
       gf_cmds := (gf_cmds w)(c := if answered kind es then None
         else Some (x\<lparr>cmd_errs := pre @ map (\<lambda>e. Some (reported kind (gf_lock w) e)) es\<rparr>)),
       gf_calls := []\<rparr>"

lemma answers_run:
  assumes "es \<noteq> []" "gf_cmds w c = Some x" "kind \<noteq> GfAdd" "gf_queue w = []" "length pre + length es = length (cmd_ids x)"
    and "cmd_errs x = pre @ replicate (length es) (Some LOCATION_ERROR_SUCCESS)"
    and "gf_calls w = map (\<lambda>i. (cl i, DoneCont kind c i (hw i))) [length pre..<length pre + length es]"
  shows "\<exists>outs. run_ops (gf_step ctx) (concat (map (\<lambda>e. [Answer 0 e 0, ProcNext]) es)) w =
      Some (outs, all_done kind c x pre hw (length pre) es w) \<and>
      concat outs = (if answered kind es
        then reportResponse (cmd_client x) (pre @ map (\<lambda>e. Some (reported kind (gf_lock w) e)) es) (cmd_ids x) (gfa w) else [])"
  using assms
proof (induction es arbitrary: w x pre)
  case (Cons e es)
  let ?j = "length pre"
  let ?p = "pre @ [Some (reported kind (gf_lock w) e)]"
  let ?w = "item_done kind c ?j (hw ?j) e x (w\<lparr>gf_calls := map (\<lambda>i. (cl i, DoneCont kind c i (hw i))) [length ?p..<length ?p + length es]\<rparr>)"
  have upt: "[?j..<?j + Suc (length es)] = ?j # [length ?p..<length ?p + length es]" using upt_step [of ?j] by simp
  have n: "?j < length (cmd_errs x)" "cmd_errs x ! ?j = Some LOCATION_ERROR_SUCCESS"
    using Cons.prems(6) by simp_all
  show ?case
  proof (cases "es = []")
    case True
    let ?out = "if answered kind [e] then reportResponse (cmd_client x) ?p (cmd_ids x) (gfa w) else []"
    have r: "run_ops (gf_step ctx) [Answer 0 e 0, ProcNext] w = Some ([[], ?out], all_done kind c x pre hw ?j [e] w)"
      using Cons.prems True upt n
      by (simp add: queue_same send_def done_item all_done_def item_done_def last_item_def answered_def reportResponse_def)
    have "concat (map (\<lambda>e. [Answer 0 e 0, ProcNext]) (e # es)) = [Answer 0 e 0, ProcNext]" using True by simp
    with r True show ?thesis by (intro exI [of _ "[[], ?out]"]) (simp del: run_ops.simps)
  next
    case False
    have "Suc ?j \<noteq> length (cmd_ids x)" using Cons.prems(5) False by (cases es) simp_all
    then have s1: "run_ops (gf_step ctx) [Answer 0 e 0, ProcNext] w = Some ([[], []], ?w)"
      using Cons.prems(2-7) False upt n
      by (simp add: queue_same send_def done_item last_item_def item_done_def)
    let ?x = "x\<lparr>cmd_errs := ?p @ replicate (length es) (Some LOCATION_ERROR_SUCCESS)\<rparr>"
    have ih: "\<exists>outs. run_ops (gf_step ctx) (concat (map (\<lambda>e. [Answer 0 e 0, ProcNext]) es)) ?w =
      Some (outs, all_done kind c ?x ?p hw (length ?p) es ?w) \<and>
      concat outs = (if answered kind es
        then reportResponse (cmd_client ?x) (?p @ map (\<lambda>e. Some (reported kind (gf_lock ?w) e)) es) (cmd_ids ?x) (gfa ?w) else [])"
      by (rule Cons.IH) (use Cons.prems(2-7) False in \<open>simp_all add: item_done_def\<close>)
    have eq: "all_done kind c ?x ?p hw (length ?p) es ?w =
        all_done kind c x pre hw ?j (e # es) w"
      using False by (simp add: all_done_def item_done_def)
    from ih [unfolded eq] obtain outs where
      s2: "run_ops (gf_step ctx) (concat (map (\<lambda>e. [Answer 0 e 0, ProcNext]) es)) ?w = Some (outs, all_done kind c x pre hw ?j (e # es) w)"
        "concat outs = (if answered kind es
          then reportResponse (cmd_client ?x) (?p @ map (\<lambda>e. Some (reported kind (gf_lock ?w) e)) es) (cmd_ids ?x) (gfa ?w) else [])"
      by blast
    have r: "run_ops (gf_step ctx) (concat (map (\<lambda>e. [Answer 0 e 0, ProcNext]) (e # es))) w =
        Some ([[], []] @ outs, all_done kind c x pre hw ?j (e # es) w)"
      using run_ops_append [OF s1 s2(1)] by (simp only: list.map concat.simps)
    show ?thesis
      by (rule exI [of _ "[[], []] @ outs"]) (use r s2(2) False in \<open>simp add: item_done_def reportResponse_def del: run_ops.simps\<close>)
  qed
qed simp

text \<open>A command, the turns of its items, and the answers of the engine.\<close>

definition serve_ops :: "gf_kind \<Rightarrow> addr \<Rightarrow> u32 list \<Rightarrow> gf_option list option \<Rightarrow> location_error list \<Rightarrow> gf_op list" where
  "serve_ops kind client ids options es =
     [GeofencesCommand kind client ids options, ProcNext] @
     (concat (replicate (length ids) [Answer 0 LOCATION_ERROR_SUCCESS 0, ProcNext]) @
      concat (map (\<lambda>e. [Answer 0 e 0, ProcNext]) es))"

lemma serve_run:
  assumes "gf_queue w = []" "gf_calls w = []" "ids \<noteq> []" "length es = length ids" "kind \<noteq> GfAdd"
    and "kind = GfModify \<Longrightarrow> options \<noteq> None"
    and known: "\<forall>i < length ids. fst (getHwIdFromClient client (ids ! i) (gfa w)) = LOCATION_ERROR_SUCCESS"
  shows "\<exists>outs w'. run_ops (gf_step ctx) (serve_ops kind client ids options es) w = Some (outs, w') \<and>
    concat outs = (if answered kind es
      then reportResponse client (map (\<lambda>e. Some (reported kind (gf_lock w) e)) es) ids (gfa w) else []) \<and>
    gfa w' = apply_items kind (gf_lock w) (the options)
      (\<lambda>i. snd (getHwIdFromClient client (ids ! i) (gfa w))) 0 es (gfa w) \<and>
    gf_queue w' = [] \<and> gf_calls w' = [] \<and>
    (gf_cmds w' (gf_next w) = None \<longleftrightarrow> answered kind es)"
proof -
  let ?c = "gf_next w" and ?n = "length ids"
  let ?x = "\<lparr>cmd_client = client, cmd_ids = ids, cmd_options = options, cmd_infos = None, cmd_errs = replicate ?n None\<rparr>"
  let ?hw = "\<lambda>i. snd (getHwIdFromClient client (ids ! i) (gfa w))"
  let ?w1 = "w\<lparr>gf_cmds := (gf_cmds w)(?c := Some ?x), gf_next := Suc ?c, gf_queue := [],
      gf_calls := map (\<lambda>i. (AddToCallQueue, ItemCont kind ?c i)) [0..<?n]\<rparr>"
  let ?x2 = "?x\<lparr>cmd_errs := replicate ?n (Some LOCATION_ERROR_SUCCESS)\<rparr>"
  let ?w2 = "?w1\<lparr>gf_cmds := (gf_cmds ?w1)(?c := Some ?x2),
      gf_calls := map (\<lambda>i. (op_call kind ?x i (?hw i), DoneCont kind ?c i (?hw i))) [0..<?n]\<rparr>"
  have arrays: "has_arrays kind (?x\<lparr>cmd_errs := []\<rparr>)" using assms(5,6) by (cases kind) simp_all
  have s1: "run_ops (gf_step ctx) [GeofencesCommand kind client ids options, ProcNext] w = Some ([[], []], ?w1)"
    using assms(1-3) arrays by (simp add: new_command_def send_def command_proc_def call_api_def Let_def)
  have "\<exists>outs. run_ops (gf_step ctx) (concat (replicate ?n [Answer 0 LOCATION_ERROR_SUCCESS 0, ProcNext])) ?w1 =
      Some (outs, ?w2) \<and> concat outs = []"
    using turns_run [of ?w1 ?c ?x kind "[]" ?n ?hw "[]" ctx] assms(1,5) known
    by (simp add: prod_eq_iff)
  then obtain o2 where s2: "run_ops (gf_step ctx) (concat (replicate ?n [Answer 0 LOCATION_ERROR_SUCCESS 0, ProcNext])) ?w1 =
      Some (o2, ?w2)" "concat o2 = []" by blast
  have "es \<noteq> []" using assms(3,4) by auto
  then have "\<exists>outs. run_ops (gf_step ctx) (concat (map (\<lambda>e. [Answer 0 e 0, ProcNext]) es)) ?w2 =
      Some (outs, all_done kind ?c ?x2 [] ?hw 0 es ?w2) \<and>
      concat outs = (if answered kind es
        then reportResponse client (map (\<lambda>e. Some (reported kind (gf_lock w) e)) es) ids (gfa w) else [])"
    using answers_run [of es ?w2 ?c ?x2 kind "[]" "\<lambda>i. op_call kind ?x i (?hw i)" ?hw ctx] assms(1,4,5)
    by (simp cong: if_cong)
  then obtain o3 where s3: "run_ops (gf_step ctx) (concat (map (\<lambda>e. [Answer 0 e 0, ProcNext]) es)) ?w2 =
      Some (o3, all_done kind ?c ?x2 [] ?hw 0 es ?w2)"
      "concat o3 = (if answered kind es
        then reportResponse client (map (\<lambda>e. Some (reported kind (gf_lock w) e)) es) ids (gfa w) else [])" by blast
  have r: "run_ops (gf_step ctx) (serve_ops kind client ids options es) w =
      Some ([[], []] @ o2 @ o3, all_done kind ?c ?x2 [] ?hw 0 es ?w2)"
    unfolding serve_ops_def by (rule run_ops_append [OF s1 run_ops_append [OF s2(1) s3(1)]])
  show ?thesis using s2(2) s3(2) assms(1) by (simp only: r) (simp add: all_done_def)
qed

text \<open>C33. What a command on known fences does: when a client's remove, pause, resume or modify command is
served without disturbance, the engine answering item i with error \<open>es ! i\<close>, the client is answered
exactly once, with what \<open>reported\<close> says for each item (so failures of resume and modify are reported
as successes), and each item that takes effect updates the adapter's fence. The exception is a resume
whose last item fails: it is not answered at all, and its arrays are not released.\<close>

theorem geofence_command_answered:
  assumes "gf_queue w = []" "gf_calls w = []" "ids \<noteq> []" "length es = length ids" "kind \<noteq> GfAdd"
    and "kind = GfModify \<Longrightarrow> options \<noteq> None"
    and "\<forall>i < length ids. fst (getHwIdFromClient client (ids ! i) (gfa w)) = LOCATION_ERROR_SUCCESS"
    and "om_find (mClientData (gfa w)) client = Some cb" "collectiveResponseCb cb"
  shows "\<exists>outs w'. run_ops (gf_step ctx) (serve_ops kind client ids options es) w = Some (outs, w') \<and>
    concat outs = (if kind = GfResume \<and> last es \<noteq> LOCATION_ERROR_SUCCESS then []
      else [CollectiveResponse client (map (\<lambda>e. Some (reported kind (gf_lock w) e)) es) ids]) \<and>
    gfa w' = apply_items kind (gf_lock w) (the options)
      (\<lambda>i. snd (getHwIdFromClient client (ids ! i) (gfa w))) 0 es (gfa w) \<and>
    gf_queue w' = [] \<and> gf_calls w' = [] \<and>
    (gf_cmds w' (gf_next w) = None \<longleftrightarrow> \<not> (kind = GfResume \<and> last es \<noteq> LOCATION_ERROR_SUCCESS))"
proof -
  have a: "(kind = GfResume \<and> last es \<noteq> LOCATION_ERROR_SUCCESS) = (\<not> answered kind es)" by (auto simp: answered_def)
  have rep: "(if \<not> answered kind es then [] else [CollectiveResponse client errs ids]) =
      (if answered kind es then reportResponse client errs ids (gfa w) else [])" for errs
    using assms(8,9) by (simp add: reportResponse_def)
  show ?thesis unfolding a rep not_not by (rule serve_run [OF assms(1-7)])
qed

theorem geofence_command_answered_witness:
  "\<exists>outs w. run_ops (gf_step demo_context) gf_demo gf_start = Some (outs, w) \<and>
     (\<exists>outs' w'. run_ops (gf_step demo_context)
          (serve_ops GfPause 1 [2, 3] None [LOCATION_ERROR_SUCCESS, LOCATION_ERROR_GENERAL_FAILURE]) w = Some (outs', w') \<and>
        concat outs' = [CollectiveResponse 1 [Some LOCATION_ERROR_SUCCESS, Some LOCATION_ERROR_GENERAL_FAILURE] [2, 3]])"
proof -
  have "case run_ops (gf_step demo_context) gf_demo gf_start of None \<Rightarrow> False
      | Some (outs, w) \<Rightarrow> gf_queue w = [] \<and> gf_calls w = [] \<and>
          list_all (\<lambda>i. fst (getHwIdFromClient 1 ([2, 3] ! i) (gfa w)) = LOCATION_ERROR_SUCCESS) [0..<2] \<and>
          om_find (mClientData (gfa w)) 1 = Some demo_callbacks"
    by code_simp
  then obtain outs w where r: "run_ops (gf_step demo_context) gf_demo gf_start = Some (outs, w)"
      "gf_queue w = []" "gf_calls w = []" "om_find (mClientData (gfa w)) 1 = Some demo_callbacks"
      "\<forall>i < length [2::u32, 3]. fst (getHwIdFromClient 1 ([2, 3] ! i) (gfa w)) = LOCATION_ERROR_SUCCESS"
    by (auto split: option.splits simp: All_less_Suc upt_rec)
  have cb: "collectiveResponseCb demo_callbacks" by (simp add: demo_callbacks_def)
  from geofence_command_answered [OF r(2,3) _ _ _ _ r(5,4) cb, where ctx = demo_context and kind = GfPause and options = None
      and es = "[LOCATION_ERROR_SUCCESS, LOCATION_ERROR_GENERAL_FAILURE]"]
  show ?thesis using r(1) by (auto simp: reported_def)
qed

section \<open>Runs\<close>

text \<open>The beginning of the runs: a client with two fences, whose identifiers are 2 and 3.\<close>

definition two_fences :: "gf_op list" where
  "two_fences =
     [AddClientCommand 1 demo_callbacks, ProcNext,
      AddGeofencesCommand 1 2 (Some [demo_option, demo_option]) (Some [demo_info, demo_info]), ProcNext,
      Answer 0 LOCATION_ERROR_SUCCESS 0, Answer 0 LOCATION_ERROR_SUCCESS 0, ProcNext, ProcNext,
      Answer 0 LOCATION_ERROR_SUCCESS 71, Answer 0 LOCATION_ERROR_SUCCESS 72, ProcNext, ProcNext]"

text \<open>Two runs with undefined behaviour. A client pauses a fence of its own and then, in the same
command, an unknown one: the turn of the unknown one answers and releases the arrays while the first
still waits for the engine, whose answer uses them. And an engine that comes up twice sends a message
that waited for it a second time, after it was processed and deleted.\<close>

theorem geofence_undefined_runs:
  "run_ops (gf_step demo_context) (two_fences @
     [GeofencesCommand GfPause 1 [2, 9] None, ProcNext,
      Answer 0 LOCATION_ERROR_SUCCESS 0, Answer 0 LOCATION_ERROR_SUCCESS 0, ProcNext, ProcNext,
      Answer 0 LOCATION_ERROR_SUCCESS 0, ProcNext]) gf_start = None \<and>
   run_ops (gf_step demo_context)
     [AddClientCommand 1 demo_callbacks, ProcNext, RequestCapabilitiesCommand 1, ProcNext,
      EngineUpEvent, ProcNext, ProcNext, EngineUpEvent, ProcNext, ProcNext] gf_start = None"
  by (rule conjI; code_simp)

text \<open>A restart forgets that a fence is paused: after the engine has come up again the fence is
paused in the engine, but not in the adapter; when it comes up once more the fence is added and not
paused any more.\<close>

theorem geofence_restart_forgets_pause:
  "case run_ops (gf_step demo_context) (two_fences @
      serve_ops GfPause 1 [2, 3] None [LOCATION_ERROR_SUCCESS, LOCATION_ERROR_SUCCESS] @
      [EngineUpEvent, ProcNext, Answer 0 LOCATION_ERROR_SUCCESS 81, ProcNext, Answer 0 LOCATION_ERROR_SUCCESS 82, ProcNext,
       Answer 0 LOCATION_ERROR_SUCCESS 0, ProcNext, Answer 0 LOCATION_ERROR_SUCCESS 0, ProcNext]) gf_start of
     None \<Rightarrow> False
   | Some (outs, w) \<Rightarrow>
       map (\<lambda>(h, g). (h, paused g)) (mGeofences (gfa w)) = [(81, False), (82, False)] \<and>
       (case run_ops (gf_step demo_context) [EngineUpEvent, ProcNext] w of None \<Rightarrow> False
        | Some (outs, w) \<Rightarrow> map fst (gf_calls w) = [AddGeofence 2 demo_option demo_info, AddGeofence 3 demo_option demo_info]) \<and>
       (case run_ops (gf_step demo_context) [EngineUpEvent, ProcNext, Answer 0 LOCATION_ERROR_SUCCESS 91, ProcNext,
              Answer 0 LOCATION_ERROR_SUCCESS 92, ProcNext] w of None \<Rightarrow> False
        | Some (outs, w) \<Rightarrow> gf_calls w = [])"
  by code_simp

end
