(* ===== verification/Batching.thy ===== *)
theory Batching
  imports Loc_Adapter
begin

text \<open>
  The batching adapter, gps/batching/BatchingAdapter.cpp: sessions that collect positions, and trips
  (sessions that end after a distance) which share one session of the engine with the smallest
  distance and interval of all. As in Geofence the messages of the adapter and the calls that the
  engine has not answered are explicit, and the engine answers each call with any error at any
  time. Distances and intervals are 32-bit words whose subtractions wrap around. A step is None
  where the code dereferences the end of the map of trips. The record of a completed trip is read
  after it was erased from its map: what these reads find is a parameter of the steps. Locations
  are only passed on, and represented by numbers.
\<close>

section \<open>Data\<close>

record bt_options =
  opt_size :: u32
  minInterval :: u32
  minDistance :: u32
  opt_mode :: u32
  locReqEngTypeMask :: u32
  batchingMode :: u32

definition BATCHING_MODE_ROUTINE :: u32 where "BATCHING_MODE_ROUTINE = 0"
definition BATCHING_MODE_TRIP :: u32 where "BATCHING_MODE_TRIP = 1"
definition BATCHING_MODE_NO_AUTO_REPORT :: u32 where "BATCHING_MODE_NO_AUTO_REPORT = 2"
definition BATCHING_STATUS_TRIP_COMPLETED :: u32 where "BATCHING_STATUS_TRIP_COMPLETED = 0"

definition default_options :: bt_options where
  "default_options = \<lparr>opt_size = 0, minInterval = 0, minDistance = 0, opt_mode = 0, locReqEngTypeMask = 0,
     batchingMode = BATCHING_MODE_ROUTINE\<rparr>"

record trip_session =
  accumulatedDistanceOngoingBatch :: u32
  accumulatedDistanceThisTrip :: u32
  accumulatedDistanceOnTripRestart :: u32
  tripDistance :: u32
  tripTBFInterval :: u32

type_synonym trips = "(u32, trip_session) omap"

text \<open>The calls of the engine, what is to be done with their answers, and the messages.\<close>

datatype bt_call =
    StartBatching u32 bt_options u32 u32
  | StopBatching u32
  | StartOutdoorTripBatching u32 u32 u32
  | ReStartOutdoorTripBatching u32 u32 u32
  | StopOutdoorTripBatching bool
  | QueryAccumulatedTripDistance
  | GetBatchedLocations u64
  | GetBatchedTripLocations u64 u32

datatype bt_cont =
    StartDone addr u32 bt_options bool
  | StopDone addr u32 bt_options bool bt_options
  | GetDone addr u32
  | TripStartDone addr u32 bt_options
  | TripQueried addr u32 bt_options
  | TripRestarted addr u32
  | TripStopDone addr u32 bool bt_options
  | RestartQueried bool u32 u32 u32
  | RestartDone u32 u32 u32
  | SsrTripDone
  | NothingToDo

datatype bt_msg =
    MsgReadConfig u32 u32 u32 u32
  | MsgSetConfig
  | MsgStartBatching addr u32 bt_options
  | MsgUpdateBatching addr u32 bt_options
  | MsgStopBatching addr u32
  | MsgGetBatchedLocations addr u32 u64
  | MsgReportLocations "nat list" u32
  | MsgReportCompletedTrips u32
  | MsgReportBatchStatus u32
  | BtAddClient addr location_callbacks
  | BtRemoveClient addr bool
  | BtRequestCapabilities addr
  | BtSSREvent
  | BtEngineLockStateEvent engine_lock
  | BtResponse bt_cont location_error u32

datatype bt_out =
    ResponseCb addr location_error u32
  | BtCapabilitiesCb addr u64
  | BatchingCb addr "nat list" u32
  | BatchingStatusCb addr u32 "u32 list"
  | SetBatchSize u32
  | SetTripBatchSize u32
  | BtRmClientCb addr

record bt_adapter = "bt_msg adapter_base" +
  mBatchingSessions :: "(session_key, bt_options) omap"
  mTripSessions :: trips
  mOngoingTripDistance :: u32
  mOngoingTripTBFInterval :: u32
  mTripWithOngoingTBFDropped :: bool
  mTripWithOngoingTripDistanceDropped :: bool
  mBatchingTimeout :: u32
  mBatchingAccuracy :: u32
  mBatchSize :: u32
  mTripBatchSize :: u32

record bt_world =
  bta :: bt_adapter
  bt_lock :: engine_lock
  bt_evt :: u64
  bt_queue :: "bt_msg list"
  bt_calls :: "(bt_call \<times> bt_cont) list"
  bt_counter :: u32

section \<open>The events of the engine\<close>

definition LOC_API_ADAPTER_BIT_BATCH_FULL :: u64 where "LOC_API_ADAPTER_BIT_BATCH_FULL = push_bit 19 1"
definition LOC_API_ADAPTER_BIT_BATCH_STATUS :: u64 where "LOC_API_ADAPTER_BIT_BATCH_STATUS = push_bit 31 1"

definition autoReportBatchingSessionsCount :: "bt_adapter \<Rightarrow> u32" where
  "autoReportBatchingSessionsCount a =
     of_nat (length (filter (\<lambda>(_, os). batchingMode os \<noteq> BATCHING_MODE_NO_AUTO_REPORT) (mBatchingSessions a)))
       + of_nat (length (mTripSessions a))"

definition bt_upd :: "(bt_adapter \<Rightarrow> bt_adapter) \<Rightarrow> bt_world \<Rightarrow> bt_world" where
  "bt_upd f w = w\<lparr>bta := f (bta w)\<rparr>"

definition bt_send :: "bt_msg list \<Rightarrow> bt_world \<Rightarrow> bt_world" where
  "bt_send ms w = w\<lparr>bt_queue := bt_queue w @ ms\<rparr>"

definition bt_call_api :: "(bt_call \<times> bt_cont) list \<Rightarrow> bt_world \<Rightarrow> bt_world" where
  "bt_call_api cs w = w\<lparr>bt_calls := bt_calls w @ cs\<rparr>"

definition bt_updateEvtMask :: "u64 \<Rightarrow> registration_status \<Rightarrow> bt_world \<Rightarrow> bt_world" where
  "bt_updateEvtMask event st w = w\<lparr>bt_evt := updateEvtMask event st (bt_evt w)\<rparr>"

text \<open>Registers for the event, or takes the registration back, when nobody is interested (yet).\<close>

definition if_count_0 :: "registration_status \<Rightarrow> bt_world \<Rightarrow> bt_world" where
  "if_count_0 st w =
     (if autoReportBatchingSessionsCount (bta w) = 0
      then bt_updateEvtMask LOC_API_ADAPTER_BIT_BATCH_FULL st w else w)"

definition bt_updateClientsEventMask :: "bt_world \<Rightarrow> bt_world" where
  "bt_updateClientsEventMask w =
     (let m0 = fold (\<lambda>(_, c) m. if batchingCb c then m OR LOC_API_ADAPTER_BIT_BATCH_STATUS else m) (mClientData (bta w)) 0;
          m1 = (if autoReportBatchingSessionsCount (bta w) > 0 then m0 OR LOC_API_ADAPTER_BIT_BATCH_FULL else m0)
      in bt_updateEvtMask m1 LOC_REGISTRATION_MASK_SET w)"

section \<open>Sessions\<close>

definition hasBatchingCallback :: "addr \<Rightarrow> bt_adapter \<Rightarrow> bool" where
  "hasBatchingCallback client a =
     (case om_find (mClientData a) client of None \<Rightarrow> False | Some c \<Rightarrow> batchingCb c)"

definition isBatchingSession :: "addr \<Rightarrow> u32 \<Rightarrow> bt_adapter \<Rightarrow> bool" where
  "isBatchingSession client sessionId a \<longleftrightarrow> om_find (mBatchingSessions a) (SessionKey client sessionId) \<noteq> None"

definition isTripSession :: "u32 \<Rightarrow> bt_adapter \<Rightarrow> bool" where
  "isTripSession sessionId a \<longleftrightarrow> om_find (mTripSessions a) sessionId \<noteq> None"

definition saveBatchingSession :: "addr \<Rightarrow> u32 \<Rightarrow> bt_options \<Rightarrow> bt_adapter \<Rightarrow> bt_adapter" where
  "saveBatchingSession client sessionId os a =
     a\<lparr>mBatchingSessions := om_put (SessionKey client sessionId) os (mBatchingSessions a)\<rparr>"

definition eraseBatchingSession :: "addr \<Rightarrow> u32 \<Rightarrow> bt_adapter \<Rightarrow> bt_adapter" where
  "eraseBatchingSession client sessionId a =
     a\<lparr>mBatchingSessions := om_erase (SessionKey client sessionId) (mBatchingSessions a)\<rparr>"

definition bt_reportResponse :: "addr \<Rightarrow> location_error \<Rightarrow> u32 \<Rightarrow> bt_adapter \<Rightarrow> bt_out list" where
  "bt_reportResponse client err sessionId a =
     (case om_find (mClientData a) client of
        Some c \<Rightarrow> if responseCb c then [ResponseCb client err sessionId] else []
      | None \<Rightarrow> [])"

definition startBatching :: "addr \<Rightarrow> u32 \<Rightarrow> bt_options \<Rightarrow> bool \<Rightarrow> bt_world \<Rightarrow> bt_world" where
  "startBatching client sessionId os pending w =
     (let w1 = (if batchingMode os \<noteq> BATCHING_MODE_NO_AUTO_REPORT then if_count_0 LOC_REGISTRATION_MASK_ENABLED w else w);
          w2 = bt_upd (saveBatchingSession client sessionId os) w1
      in bt_call_api [(StartBatching sessionId os (mBatchingAccuracy (bta w2)) (mBatchingTimeout (bta w2)),
           StartDone client sessionId os pending)] w2)"

text \<open>The answer to the start: the request is kept when positioning is switched off.\<close>

definition session_start_done :: "addr \<Rightarrow> u32 \<Rightarrow> bt_options \<Rightarrow> bool \<Rightarrow> location_error \<Rightarrow> bt_world \<Rightarrow> bt_out list \<times> bt_world" where
  "session_start_done client sessionId os pending err w =
     (let w1 = (if bt_lock w = ENGINE_LOCK_STATE_ENABLED \<and> err \<noteq> LOCATION_ERROR_SUCCESS
                then bt_upd (eraseBatchingSession client sessionId) w else w);
          w2 = (if err \<noteq> LOCATION_ERROR_SUCCESS \<and> batchingMode os \<noteq> BATCHING_MODE_NO_AUTO_REPORT
                then if_count_0 LOC_REGISTRATION_MASK_DISABLED w1 else w1);
          w3 = (if err = LOCATION_ERROR_GNSS_DISABLED \<and> pending
                then bt_upd (\<lambda>a. a\<lparr>mPendingGnssEnabledMsgs := mPendingGnssEnabledMsgs a @ [MsgStartBatching client sessionId os]\<rparr>) w2
                else w2)
      in (bt_reportResponse client err sessionId (bta w3), w3))"

definition stopBatching :: "addr \<Rightarrow> u32 \<Rightarrow> bool \<Rightarrow> bt_options \<Rightarrow> bt_world \<Rightarrow> bt_world" where
  "stopBatching client sessionId restartNeeded os w =
     (case om_find (mBatchingSessions (bta w)) (SessionKey client sessionId) of
        None \<Rightarrow> w
      | Some flp \<Rightarrow>
          bt_call_api [(StopBatching sessionId, StopDone client sessionId flp restartNeeded os)]
            (bt_upd (eraseBatchingSession client sessionId) w))"

section \<open>Trips\<close>

definition startTripBatchingMultiplex :: "addr \<Rightarrow> u32 \<Rightarrow> bt_options \<Rightarrow> bt_world \<Rightarrow> bt_world" where
  "startTripBatchingMultiplex client sessionId os w =
     (if mTripSessions (bta w) = [] then
        (let trip = \<lparr>accumulatedDistanceOngoingBatch = 0, accumulatedDistanceThisTrip = 0,
               accumulatedDistanceOnTripRestart = 0, tripDistance = minDistance os, tripTBFInterval = minInterval os\<rparr>;
             w1 = if_count_0 LOC_REGISTRATION_MASK_ENABLED w;
             w2 = bt_upd (\<lambda>a. a\<lparr>mTripSessions := om_put sessionId trip (mTripSessions a)\<rparr>)
                    (bt_upd (saveBatchingSession client sessionId os) w1)
         in bt_call_api [(StartOutdoorTripBatching (minDistance os) (minInterval os) (mBatchingTimeout (bta w2)),
              TripStartDone client sessionId os)] w2)
      else bt_call_api [(QueryAccumulatedTripDistance, TripQueried client sessionId os)] w)"

definition trip_start_done :: "addr \<Rightarrow> u32 \<Rightarrow> bt_options \<Rightarrow> location_error \<Rightarrow> bt_world \<Rightarrow> bt_out list \<times> bt_world" where
  "trip_start_done client sessionId os err w =
     (let w1 = (if bt_lock w = ENGINE_LOCK_STATE_DISABLED \<or> err = LOCATION_ERROR_SUCCESS
                then bt_upd (\<lambda>a. a\<lparr>mOngoingTripDistance := minDistance os, mOngoingTripTBFInterval := minInterval os\<rparr>) w
                else if_count_0 LOC_REGISTRATION_MASK_DISABLED
                  (bt_upd (\<lambda>a. a\<lparr>mTripSessions := om_erase sessionId (mTripSessions a)\<rparr>)
                    (bt_upd (eraseBatchingSession client sessionId) w)))
      in (bt_reportResponse client err sessionId (bta w1), w1))"

text \<open>
  A further trip: the remaining distance of the running batch is compared with the distance of the
  new trip. The new trip is only recorded when the accumulated distance is known.
\<close>

definition restart_counts :: "trips \<Rightarrow> trips" where
  "restart_counts ts =
     map (\<lambda>(i, t). (i, t\<lparr>accumulatedDistanceOngoingBatch := 0, accumulatedDistanceOnTripRestart := accumulatedDistanceThisTrip t\<rparr>)) ts"

definition trip_queried :: "addr \<Rightarrow> u32 \<Rightarrow> bt_options \<Rightarrow> location_error \<Rightarrow> u32 \<Rightarrow> bt_world \<Rightarrow> bt_out list \<times> bt_world" where
  "trip_queried client sessionId os err accumulated w =
     (let distance0 = mOngoingTripDistance (bta w);
          interval0 = mOngoingTripTBFInterval (bta w);
          needs0 = (interval0 > minInterval os);
          interval = (if needs0 then minInterval os else interval0);
          trip = \<lparr>accumulatedDistanceOngoingBatch = accumulated, accumulatedDistanceThisTrip = 0,
            accumulatedDistanceOnTripRestart = 0, tripDistance = minDistance os, tripTBFInterval = minInterval os\<rparr>;
          remaining = distance0 - accumulated;
          (distance, needsRestart) =
            (if err \<noteq> LOCATION_ERROR_SUCCESS
             then (if minDistance os < distance0 then (minDistance os, True) else (distance0, needs0))
             else if minDistance os < remaining then (minDistance os, True)
             else if needs0 then (remaining, needs0) else (distance0, needs0));
          w1 = (if err \<noteq> LOCATION_ERROR_SUCCESS then w
                else bt_upd (\<lambda>a. a\<lparr>mTripSessions := om_put sessionId trip (mTripSessions a)\<rparr>) w)
      in if needsRestart
         then ([], bt_call_api [(ReStartOutdoorTripBatching distance interval (mBatchingTimeout (bta w1)), TripRestarted client sessionId)]
                (bt_upd (\<lambda>a. a\<lparr>mOngoingTripDistance := distance, mOngoingTripTBFInterval := interval,
                   mTripSessions := restart_counts (mTripSessions a)\<rparr>) w1))
         else (bt_reportResponse client LOCATION_ERROR_SUCCESS sessionId (bta w1), w1))"

text \<open>
  The smallest remaining distance and interval, as the loops find them: 0 is taken for "none yet".
\<close>

definition min_loop :: "u32 list \<Rightarrow> u32" where
  "min_loop xs = fold (\<lambda>x m. if m = 0 \<or> m > x then x else m) xs 0"

definition remaining_distance :: "trip_session \<Rightarrow> u32" where
  "remaining_distance t = tripDistance t - accumulatedDistanceThisTrip t"

definition min_remaining :: "trips \<Rightarrow> u32" where
  "min_remaining ts = min_loop (map (\<lambda>(_, t). remaining_distance t) ts)"

definition min_interval :: "trips \<Rightarrow> u32" where
  "min_interval ts = min_loop (map (\<lambda>(_, t). tripTBFInterval t) ts)"

definition restartTripBatching :: "bool \<Rightarrow> u32 \<Rightarrow> bt_world \<Rightarrow> bt_world" where
  "restartTripBatching queryAccumulatedDistance accDist w =
     (let ts = mTripSessions (bta w)
      in if ts = []
         then if_count_0 LOC_REGISTRATION_MASK_DISABLED
                (bt_upd (\<lambda>a. a\<lparr>mOngoingTripDistance := 0, mOngoingTripTBFInterval := 0\<rparr>)
                  (bt_call_api [(StopOutdoorTripBatching True, NothingToDo)] w))
         else bt_call_api [(QueryAccumulatedTripDistance,
                RestartQueried queryAccumulatedDistance (min_remaining ts) (min_interval ts) accDist)] w)"

definition restart_queried :: "bool \<Rightarrow> u32 \<Rightarrow> u32 \<Rightarrow> u32 \<Rightarrow> u32 \<Rightarrow> bt_world \<Rightarrow> bt_world" where
  "restart_queried query minRemainingDistance minTBFInterval accDist accumulated w =
     (let a = bta w;
          acc = (if query then accumulated else accDist);
          distance0 = mOngoingTripDistance a;
          interval0 = mOngoingTripTBFInterval a;
          (distance, needs1) =
            (if \<not> mTripWithOngoingTripDistanceDropped a \<and> distance0 - acc \<noteq> 0
             then (if minRemainingDistance < distance0 - acc then (minRemainingDistance, True) else (distance0, False))
             else if minRemainingDistance \<noteq> 0 then (minRemainingDistance, True) else (distance0, False));
          (interval, needsRestart) =
            (if minTBFInterval < interval0 \<or> minTBFInterval \<noteq> interval0 \<and> mTripWithOngoingTBFDropped a
             then (minTBFInterval, True) else (interval0, needs1))
      in if needsRestart
         then bt_call_api [(ReStartOutdoorTripBatching distance interval (mBatchingTimeout a), RestartDone acc distance interval)] w
         else w)"

definition travelled :: "u32 \<Rightarrow> trip_session \<Rightarrow> trip_session" where
  "travelled acc t = t\<lparr>accumulatedDistanceThisTrip :=
     accumulatedDistanceOnTripRestart t + (acc - accumulatedDistanceOngoingBatch t)\<rparr>"

definition trip_restart_done :: "u32 \<Rightarrow> u32 \<Rightarrow> u32 \<Rightarrow> location_error \<Rightarrow> bt_world \<Rightarrow> bt_world" where
  "trip_restart_done acc distance interval err w =
     (if err = LOCATION_ERROR_SUCCESS
      then bt_upd (\<lambda>a. a\<lparr>mTripSessions := restart_counts (map (\<lambda>(i, t). (i, travelled acc t)) (mTripSessions a)),
             mOngoingTripDistance := distance, mOngoingTripTBFInterval := interval\<rparr>) w
      else w)"

type_synonym bt_act = "bt_world \<Rightarrow> (bt_out list \<times> bt_world) option"

definition restart_session :: "addr \<Rightarrow> u32 \<Rightarrow> bt_options \<Rightarrow> bt_world \<Rightarrow> bt_world" where
  "restart_session client sessionId os w =
     (if batchingMode os = BATCHING_MODE_ROUTINE \<or> batchingMode os = BATCHING_MODE_NO_AUTO_REPORT
      then startBatching client sessionId os False w
      else if batchingMode os = BATCHING_MODE_TRIP then startTripBatchingMultiplex client sessionId os w else w)"

definition stopTripBatchingMultiplexCommon :: "location_error \<Rightarrow> addr \<Rightarrow> u32 \<Rightarrow> bool \<Rightarrow> bt_options \<Rightarrow> bt_act" where
  "stopTripBatchingMultiplexCommon err client sessionId restartNeeded os w =
     (case om_find (mTripSessions (bta w)) sessionId of
        None \<Rightarrow> None
      | Some t \<Rightarrow>
          (let w1 = bt_upd (\<lambda>a. a\<lparr>
                 mTripWithOngoingTBFDropped := mTripWithOngoingTBFDropped a \<or> tripTBFInterval t = mOngoingTripTBFInterval a,
                 mTripWithOngoingTripDistanceDropped := mTripWithOngoingTripDistanceDropped a \<or> tripDistance t = mOngoingTripDistance a,
                 mTripSessions := om_erase sessionId (mTripSessions a)\<rparr>) w;
               w2 = (if mTripSessions (bta w1) = []
                     then bt_upd (\<lambda>a. a\<lparr>mOngoingTripDistance := 0, mOngoingTripTBFInterval := 0\<rparr>) w1
                     else restartTripBatching True 0 w1);
               w3 = (if restartNeeded
                     then restart_session client sessionId os (bt_upd (eraseBatchingSession client sessionId) w2) else w2)
           in Some (bt_reportResponse client err sessionId (bta w3), w3)))"

definition stopTripBatchingMultiplex :: "addr \<Rightarrow> u32 \<Rightarrow> bool \<Rightarrow> bt_options \<Rightarrow> bt_act" where
  "stopTripBatchingMultiplex client sessionId restartNeeded os w =
     (if length (mTripSessions (bta w)) = 1
      then Some ([], bt_call_api [(StopOutdoorTripBatching True, TripStopDone client sessionId restartNeeded os)] w)
      else stopTripBatchingMultiplexCommon LOCATION_ERROR_SUCCESS client sessionId restartNeeded os w)"

definition trip_stop_done :: "addr \<Rightarrow> u32 \<Rightarrow> bool \<Rightarrow> bt_options \<Rightarrow> location_error \<Rightarrow> bt_act" where
  "trip_stop_done client sessionId restartNeeded os err w =
     stopTripBatchingMultiplexCommon err client sessionId restartNeeded os
       (if err = LOCATION_ERROR_SUCCESS \<and> autoReportBatchingSessionsCount (bta w) = 1
        then bt_updateEvtMask LOC_API_ADAPTER_BIT_BATCH_FULL LOC_REGISTRATION_MASK_DISABLED w else w)"

definition session_stop_done :: "addr \<Rightarrow> u32 \<Rightarrow> bt_options \<Rightarrow> bool \<Rightarrow> bt_options \<Rightarrow> location_error \<Rightarrow> bt_world \<Rightarrow> bt_out list \<times> bt_world" where
  "session_stop_done client sessionId flp restartNeeded os err w =
     (let w1 = (if bt_lock w = ENGINE_LOCK_STATE_ENABLED \<and> err \<noteq> LOCATION_ERROR_SUCCESS
                then bt_upd (saveBatchingSession client sessionId os) w
                else (let w2 = (if batchingMode flp \<noteq> BATCHING_MODE_NO_AUTO_REPORT
                                then if_count_0 LOC_REGISTRATION_MASK_DISABLED w else w)
                      in if restartNeeded then restart_session client sessionId os w2 else w2))
      in (bt_reportResponse client err sessionId (bta w1), w1))"

section \<open>Completed trips\<close>

text \<open>
  The loop over the trips: what is left of them, the completed ones, and whether one of these had the
  interval or the distance of the running batch, by what is read of it after it was erased.
\<close>

fun complete_loop :: "(u32 \<Rightarrow> trip_session) \<Rightarrow> u32 \<Rightarrow> u32 \<Rightarrow> u32 \<Rightarrow> trips \<Rightarrow> u32 list \<times> trips \<times> bool \<times> bool" where
  "complete_loop stale acc interval distance [] = ([], [], False, False)"
| "complete_loop stale acc interval distance ((i, t) # ts) =
     (let (ids, rest, tbf, dist) = complete_loop stale acc interval distance ts;
          t1 = travelled acc t
      in if tripDistance t1 \<le> accumulatedDistanceThisTrip t1
         then (i # ids, rest, tbf \<or> tripTBFInterval (stale i) = interval, dist \<or> tripDistance (stale i) = distance)
         else (ids, (i, t1) # rest, tbf, dist))"

definition reportBatchStatusChange :: "u32 \<Rightarrow> u32 list \<Rightarrow> bt_adapter \<Rightarrow> bt_out list" where
  "reportBatchStatusChange st ids a = map (\<lambda>c. BatchingStatusCb c st ids) (told_clients batchingStatusCb (mClientData a))"

definition reportCompletedTrips :: "(u32 \<Rightarrow> trip_session) \<Rightarrow> u32 \<Rightarrow> bt_world \<Rightarrow> bt_out list \<times> bt_world" where
  "reportCompletedTrips stale acc w =
     (let a = bta w;
          (ids, rest, tbf, dist) = complete_loop stale acc (mOngoingTripTBFInterval a) (mOngoingTripDistance a) (mTripSessions a);
          w1 = bt_upd (\<lambda>a. a\<lparr>mTripSessions := rest,
                 mTripWithOngoingTBFDropped := mTripWithOngoingTBFDropped a \<or> tbf,
                 mTripWithOngoingTripDistanceDropped := mTripWithOngoingTripDistanceDropped a \<or> dist\<rparr>) w
      in if ids = [] then ([], w1)
         else (reportBatchStatusChange BATCHING_STATUS_TRIP_COMPLETED ids (bta w1), restartTripBatching False acc w1))"

definition reportLocations :: "nat list \<Rightarrow> u32 \<Rightarrow> bt_adapter \<Rightarrow> bt_out list" where
  "reportLocations locs mode a = map (\<lambda>c. BatchingCb c locs mode) (told_clients batchingCb (mClientData a))"

section \<open>Commands\<close>

definition bt_pend :: "bt_msg \<Rightarrow> bt_world \<Rightarrow> bt_world" where
  "bt_pend m w = bt_upd (\<lambda>a. a\<lparr>mPendingMsgs := mPendingMsgs a @ [m]\<rparr>) w"

definition start_batching_proc :: "loc_context \<Rightarrow> addr \<Rightarrow> u32 \<Rightarrow> bt_options \<Rightarrow> bt_act" where
  "start_batching_proc ctx client sessionId os w =
     (if \<not> mIsEngineCapabilitiesKnown (bta w) then Some ([], bt_pend (MsgStartBatching client sessionId os) w)
      else if \<not> hasBatchingCallback client (bta w) \<or> opt_size os = 0 \<or>
        \<not> isMessageSupported ctx LOC_API_ADAPTER_MESSAGE_DISTANCE_BASE_LOCATION_BATCHING then Some ([], w)
      else if batchingMode os = BATCHING_MODE_ROUTINE \<or> batchingMode os = BATCHING_MODE_NO_AUTO_REPORT
      then Some ([], startBatching client sessionId os True w)
      else if batchingMode os = BATCHING_MODE_TRIP then Some ([], startTripBatchingMultiplex client sessionId os w)
      else Some (bt_reportResponse client LOCATION_ERROR_INVALID_PARAMETER sessionId (bta w), w))"

definition update_batching_proc :: "addr \<Rightarrow> u32 \<Rightarrow> bt_options \<Rightarrow> bt_act" where
  "update_batching_proc client sessionId os w =
     (if \<not> mIsEngineCapabilitiesKnown (bta w) then Some ([], bt_pend (MsgUpdateBatching client sessionId os) w)
      else if \<not> isBatchingSession client sessionId (bta w) \<or> opt_size os = 0 \<or> batchingMode os > BATCHING_MODE_NO_AUTO_REPORT
      then Some ([], w)
      else if \<not> isTripSession sessionId (bta w) then Some ([], stopBatching client sessionId True os w)
      else stopTripBatchingMultiplex client sessionId True os w)"

definition stop_batching_proc :: "addr \<Rightarrow> u32 \<Rightarrow> bt_act" where
  "stop_batching_proc client sessionId w =
     (if \<not> mIsEngineCapabilitiesKnown (bta w) then Some ([], bt_pend (MsgStopBatching client sessionId) w)
      else if \<not> isBatchingSession client sessionId (bta w) then Some ([], w)
      else if isTripSession sessionId (bta w) then stopTripBatchingMultiplex client sessionId False default_options w
      else Some ([], stopBatching client sessionId False default_options w))"

definition get_batched_proc :: "addr \<Rightarrow> u32 \<Rightarrow> u64 \<Rightarrow> bt_act" where
  "get_batched_proc client sessionId count w =
     (if \<not> mIsEngineCapabilitiesKnown (bta w) then Some ([], bt_pend (MsgGetBatchedLocations client sessionId count) w)
      else if \<not> hasBatchingCallback client (bta w)
      then Some (bt_reportResponse client LOCATION_ERROR_CALLBACK_MISSING sessionId (bta w), w)
      else if \<not> isBatchingSession client sessionId (bta w)
      then Some (bt_reportResponse client LOCATION_ERROR_ID_UNKNOWN sessionId (bta w), w)
      else Some ([], bt_call_api
        [(if isTripSession sessionId (bta w) then GetBatchedTripLocations count 0 else GetBatchedLocations count,
          GetDone client sessionId)] w))"

section \<open>Clients and the engine\<close>

text \<open>\<open>stopClientSessions\<close>: the sessions of the client are collected first, then stopped one by one.\<close>

fun stop_sessions :: "(session_key \<times> bt_options) list \<Rightarrow> bt_act" where
  "stop_sessions [] w = Some ([], w)"
| "stop_sessions ((k, os) # xs) w =
     (case (if batchingMode os \<noteq> BATCHING_MODE_TRIP
            then Some ([], stopBatching (key_client k) (key_id k) False default_options w)
            else stopTripBatchingMultiplex (key_client k) (key_id k) False default_options w) of
        None \<Rightarrow> None
      | Some (o1, w1) \<Rightarrow> (case stop_sessions xs w1 of None \<Rightarrow> None | Some (o2, w2) \<Rightarrow> Some (o1 @ o2, w2)))"

definition bt_stopClientSessions :: "addr \<Rightarrow> bt_act" where
  "bt_stopClientSessions client w =
     stop_sessions (filter (\<lambda>(k, os). key_client k = client) (mBatchingSessions (bta w))) w"

definition bt_addClient :: "addr \<Rightarrow> location_callbacks \<Rightarrow> bt_act" where
  "bt_addClient client callbacks w =
     Some ([], bt_updateClientsEventMask (bt_upd (\<lambda>a. a\<lparr>mClientData := saveClient client callbacks (mClientData a)\<rparr>) w))"

definition bt_removeClient :: "addr \<Rightarrow> bool \<Rightarrow> bt_act" where
  "bt_removeClient client hasCb w =
     (case bt_stopClientSessions client w of
        None \<Rightarrow> None
      | Some (outs, w1) \<Rightarrow>
          Some (outs @ (if hasCb then [BtRmClientCb client] else []),
            bt_updateClientsEventMask (bt_upd (\<lambda>a. a\<lparr>mClientData := eraseClient client (mClientData a)\<rparr>) w1)))"

definition bt_requestCapabilities :: "loc_context \<Rightarrow> addr \<Rightarrow> bt_act" where
  "bt_requestCapabilities ctx client w =
     (if \<not> mIsEngineCapabilitiesKnown (bta w) then Some ([], bt_pend (BtRequestCapabilities client) w)
      else Some (map (\<lambda>(c, m). BtCapabilitiesCb c m) (capabilities_answer ctx client (adapter_base.truncate (bta w))), w))"

text \<open>
  After a restart of the engine every session is started again, and the trips together. The loop
  over the trips meant to reset their counts works on copies.
\<close>

definition restartSessions :: "bt_world \<Rightarrow> bt_world" where
  "restartSessions w =
     (let a = bta w;
          w1 = (if autoReportBatchingSessionsCount a > 0
                then bt_updateEvtMask LOC_API_ADAPTER_BIT_BATCH_FULL LOC_REGISTRATION_MASK_ENABLED w else w);
          w2 = bt_call_api (map (\<lambda>(k, os). (StartBatching (key_id k) os (mBatchingAccuracy a) (mBatchingTimeout a), NothingToDo))
                 (filter (\<lambda>(k, os). batchingMode os \<noteq> BATCHING_MODE_TRIP) (mBatchingSessions a))) w1;
          ts = mTripSessions a
      in if ts = [] then w2
         else bt_call_api [(StartOutdoorTripBatching (min_remaining ts) (min_interval ts) (mBatchingTimeout a), SsrTripDone)]
           (bt_upd (\<lambda>a. a\<lparr>mOngoingTripDistance := min_remaining ts, mOngoingTripTBFInterval := min_interval ts\<rparr>) w2))"

definition ssr_trip_done :: "location_error \<Rightarrow> bt_world \<Rightarrow> bt_world" where
  "ssr_trip_done err w =
     (if err \<noteq> LOCATION_ERROR_SUCCESS
      then bt_upd (\<lambda>a. a\<lparr>mOngoingTripDistance := 0, mOngoingTripTBFInterval := 0\<rparr>) w else w)"

definition bt_engine_up :: "loc_context \<Rightarrow> bt_act" where
  "bt_engine_up ctx w =
     (let w1 = bt_upd (\<lambda>a. a\<lparr>mIsEngineCapabilitiesKnown := True\<rparr>) w;
          outs = map (\<lambda>(c, m). BtCapabilitiesCb c m) (broadcastCapabilities (getCapabilities ctx True) (mClientData (bta w1)))
            @ [SetBatchSize (mBatchSize (bta w1)), SetTripBatchSize (mTripBatchSize (bta w1))]
      in Some (outs,
           if bt_lock w = ENGINE_LOCK_STATE_ENABLED
           then bt_upd (\<lambda>a. a\<lparr>mPendingMsgs := []\<rparr>) (bt_send (mPendingMsgs (bta w1)) (restartSessions w1)) else w1))"

definition bt_handleEngineLockStatus :: "engine_lock \<Rightarrow> bt_world \<Rightarrow> bt_world" where
  "bt_handleEngineLockStatus st w =
     (if st = ENGINE_LOCK_STATE_ENABLED
      then bt_upd (\<lambda>a. a\<lparr>mPendingGnssEnabledMsgs := []\<rparr>) (bt_send (mPendingGnssEnabledMsgs (bta w)) w)
      else w)"

section \<open>The world\<close>

fun bt_cont_proc :: "bt_cont \<Rightarrow> location_error \<Rightarrow> u32 \<Rightarrow> bt_act" where
  "bt_cont_proc (StartDone client i os pending) err acc w = Some (session_start_done client i os pending err w)"
| "bt_cont_proc (StopDone client i flp restart os) err acc w = Some (session_stop_done client i flp restart os err w)"
| "bt_cont_proc (GetDone client i) err acc w = Some (bt_reportResponse client err i (bta w), w)"
| "bt_cont_proc (TripStartDone client i os) err acc w = Some (trip_start_done client i os err w)"
| "bt_cont_proc (TripQueried client i os) err acc w = Some (trip_queried client i os err acc w)"
| "bt_cont_proc (TripRestarted client i) err acc w = Some (bt_reportResponse client err i (bta w), w)"
| "bt_cont_proc (TripStopDone client i restart os) err acc w = trip_stop_done client i restart os err w"
| "bt_cont_proc (RestartQueried query rem tbf accDist) err acc w = Some ([], restart_queried query rem tbf accDist acc w)"
| "bt_cont_proc (RestartDone accDist distance interval) err acc w = Some ([], trip_restart_done accDist distance interval err w)"
| "bt_cont_proc SsrTripDone err acc w = Some ([], ssr_trip_done err w)"
| "bt_cont_proc NothingToDo err acc w = Some ([], w)"

fun bt_msg_proc :: "loc_context \<Rightarrow> (u32 \<Rightarrow> trip_session) \<Rightarrow> bt_msg \<Rightarrow> bt_act" where
  "bt_msg_proc ctx stale (MsgReadConfig bsz tsz timeout accuracy) w =
     Some ([], bt_upd (\<lambda>a. a\<lparr>mBatchSize := bsz, mTripBatchSize := tsz, mBatchingTimeout := timeout, mBatchingAccuracy := accuracy\<rparr>) w)"
| "bt_msg_proc ctx stale MsgSetConfig w = Some ([SetBatchSize (mBatchSize (bta w)), SetTripBatchSize (mTripBatchSize (bta w))], w)"
| "bt_msg_proc ctx stale (MsgStartBatching client i os) w = start_batching_proc ctx client i os w"
| "bt_msg_proc ctx stale (MsgUpdateBatching client i os) w = update_batching_proc client i os w"
| "bt_msg_proc ctx stale (MsgStopBatching client i) w = stop_batching_proc client i w"
| "bt_msg_proc ctx stale (MsgGetBatchedLocations client i count) w = get_batched_proc client i count w"
| "bt_msg_proc ctx stale (MsgReportLocations locs mode) w = Some (reportLocations locs mode (bta w), w)"
| "bt_msg_proc ctx stale (MsgReportCompletedTrips acc) w = Some (reportCompletedTrips stale acc w)"
| "bt_msg_proc ctx stale (MsgReportBatchStatus st) w = Some (reportBatchStatusChange st [] (bta w), w)"
| "bt_msg_proc ctx stale (BtAddClient client cbs) w = bt_addClient client cbs w"
| "bt_msg_proc ctx stale (BtRemoveClient client hasCb) w = bt_removeClient client hasCb w"
| "bt_msg_proc ctx stale (BtRequestCapabilities client) w = bt_requestCapabilities ctx client w"
| "bt_msg_proc ctx stale BtSSREvent w = bt_engine_up ctx w"
| "bt_msg_proc ctx stale (BtEngineLockStateEvent st) w = Some ([], bt_handleEngineLockStatus st w)"
| "bt_msg_proc ctx stale (BtResponse k err acc) w = bt_cont_proc k err acc w"

text \<open>
  The steps. The values of the configuration file come with the message that reads it;
  \<open>startBatchingCommand\<close> returns the identifier drawn from the counter. The engine answers its
  calls in any order: \<open>BtAnswer n\<close> answers the one at place \<open>n\<close> of those that wait.
\<close>

datatype bt_op =
    StartBatchingCommand addr bt_options
  | UpdateBatchingOptionsCommand addr u32 bt_options
  | StopBatchingCommand addr u32
  | GetBatchedLocationsCommand addr u32 u64
  | BtAddClientCommand addr location_callbacks
  | BtRemoveClientCommand addr bool
  | BtRequestCapabilitiesCommand addr
  | BtEngineUpEvent
  | BtEngineLockEvent engine_lock
  | ReportLocationsEvent "nat list" u32
  | ReportCompletedTripsEvent u32
  | ReportBatchStatusChangeEvent u32
  | BtAnswer nat location_error u32
  | BtProcNext

fun bt_step :: "loc_context \<Rightarrow> (u32 \<Rightarrow> trip_session) \<Rightarrow> bt_op \<Rightarrow> bt_act" where
  "bt_step ctx stale (StartBatchingCommand client os) w =
     (let i = generateSessionId (bt_counter w)
      in Some ([], bt_send [MsgStartBatching client i os] (w\<lparr>bt_counter := i\<rparr>)))"
| "bt_step ctx stale (UpdateBatchingOptionsCommand client i os) w = Some ([], bt_send [MsgUpdateBatching client i os] w)"
| "bt_step ctx stale (StopBatchingCommand client i) w = Some ([], bt_send [MsgStopBatching client i] w)"
| "bt_step ctx stale (GetBatchedLocationsCommand client i count) w = Some ([], bt_send [MsgGetBatchedLocations client i count] w)"
| "bt_step ctx stale (BtAddClientCommand client cbs) w = Some ([], bt_send [BtAddClient client cbs] w)"
| "bt_step ctx stale (BtRemoveClientCommand client hasCb) w = Some ([], bt_send [BtRemoveClient client hasCb] w)"
| "bt_step ctx stale (BtRequestCapabilitiesCommand client) w = Some ([], bt_send [BtRequestCapabilities client] w)"
| "bt_step ctx stale BtEngineUpEvent w = Some ([], bt_send [BtSSREvent] w)"
| "bt_step ctx stale (BtEngineLockEvent st) w = Some ([], bt_send [BtEngineLockStateEvent st] (w\<lparr>bt_lock := st\<rparr>))"
| "bt_step ctx stale (ReportLocationsEvent locs mode) w = Some ([], bt_send [MsgReportLocations locs mode] w)"
| "bt_step ctx stale (ReportCompletedTripsEvent acc) w = Some ([], bt_send [MsgReportCompletedTrips acc] w)"
| "bt_step ctx stale (ReportBatchStatusChangeEvent st) w = Some ([], bt_send [MsgReportBatchStatus st] w)"
| "bt_step ctx stale (BtAnswer n err acc) w =
     Some ([], case drop n (bt_calls w) of
         [] \<Rightarrow> w
       | (call, k) # cs \<Rightarrow> bt_send [BtResponse k err acc] (w\<lparr>bt_calls := take n (bt_calls w) @ cs\<rparr>))"
| "bt_step ctx stale BtProcNext w =
     (case bt_queue w of [] \<Rightarrow> Some ([], w) | m # ms \<Rightarrow> bt_msg_proc ctx stale m (w\<lparr>bt_queue := ms\<rparr>))"

definition bt_start :: "u32 \<Rightarrow> u32 \<Rightarrow> u32 \<Rightarrow> u32 \<Rightarrow> bt_world" where
  "bt_start bsz tsz timeout accuracy =
     \<lparr>bta = \<lparr>mClientData = [], mIsEngineCapabilitiesKnown = False, mPendingMsgs = [], mPendingGnssEnabledMsgs = [],
        mBatchingSessions = [], mTripSessions = [], mOngoingTripDistance = 0, mOngoingTripTBFInterval = 0,
        mTripWithOngoingTBFDropped = False, mTripWithOngoingTripDistanceDropped = False,
        mBatchingTimeout = 0, mBatchingAccuracy = 1, mBatchSize = 0, mTripBatchSize = 0\<rparr>,
      bt_lock = ENGINE_LOCK_STATE_ENABLED, bt_evt = 0,
      bt_queue = [MsgReadConfig bsz tsz timeout accuracy, MsgSetConfig], bt_calls = [], bt_counter = SESSION_ID_START\<rparr>"

end
