(* ===== verification/Batching_Events.thy ===== *)
theory Batching_Events
  imports Batching
begin

text \<open>
  When the batching adapter is registered for the batch-full event of the engine: while a session
  with automatic reports or a trip exists, up to the two answers of the engine that bring a session or
  a trip back after the event was given up.
\<close>

section \<open>Interest in the event\<close>

definition interested :: "bt_adapter \<Rightarrow> bool" where
  "interested a \<longleftrightarrow> (\<exists>x \<in> set (mBatchingSessions a). batchingMode (snd x) \<noteq> BATCHING_MODE_NO_AUTO_REPORT) \<or> mTripSessions a \<noteq> []"

definition batch_full :: "bt_world \<Rightarrow> bool" where
  "batch_full w \<longleftrightarrow> bit (bt_evt w) 19"

text \<open>The number of sessions fits in a 32-bit counter.\<close>

definition few :: "bt_adapter \<Rightarrow> bool" where
  "few a \<longleftrightarrow> length (mBatchingSessions a) + length (mTripSessions a) < 2 ^ 32"

lemma few_code [code]: "few a \<longleftrightarrow> int (length (mBatchingSessions a)) + int (length (mTripSessions a)) < 4294967296"
  by (simp add: few_def) arith

definition evt_inv :: "bt_world \<Rightarrow> bool" where
  "evt_inv w \<longleftrightarrow> interested (bta w) \<longrightarrow> batch_full w"

lemma set_om_put: "set (om_put k v xs) \<subseteq> insert (k, v) (set xs)"
  by (induction k v xs rule: om_put.induct) auto

lemma set_om_erase: "set (om_erase k xs) \<subseteq> set xs"
  by (induction xs rule: om_erase.induct) auto

lemma count_unat:
  assumes "few a"
  shows "unat (autoReportBatchingSessionsCount a) =
    length (filter (\<lambda>(_, os). batchingMode os \<noteq> BATCHING_MODE_NO_AUTO_REPORT) (mBatchingSessions a)) + length (mTripSessions a)"
proof -
  let ?n = "length (filter (\<lambda>(_, os). batchingMode os \<noteq> BATCHING_MODE_NO_AUTO_REPORT) (mBatchingSessions a))"
  have "?n \<le> length (mBatchingSessions a)" by simp
  with assms have "?n + length (mTripSessions a) < 2 ^ 32" unfolding few_def by linarith
  then show ?thesis
    using unat_of_nat_small [of "?n + length (mTripSessions a)"] by (simp add: autoReportBatchingSessionsCount_def)
qed

lemma count_0:
  assumes "few a"
  shows "autoReportBatchingSessionsCount a = 0 \<longleftrightarrow> \<not> interested a"
proof -
  have "autoReportBatchingSessionsCount a = 0 \<longleftrightarrow> unat (autoReportBatchingSessionsCount a) = 0" by (simp add: unat_eq_0)
  then show ?thesis unfolding count_unat [OF assms]
    by (auto simp: interested_def filter_empty_conv)
qed

lemma bt_simps [simp]:
  "bta (bt_upd f w) = f (bta w)" "bt_evt (bt_upd f w) = bt_evt w" "bt_lock (bt_upd f w) = bt_lock w"
  "bta (bt_send ms w) = bta w" "bt_evt (bt_send ms w) = bt_evt w" "bt_lock (bt_send ms w) = bt_lock w"
  "bta (bt_call_api cs w) = bta w" "bt_evt (bt_call_api cs w) = bt_evt w" "bt_lock (bt_call_api cs w) = bt_lock w"
  "bta (bt_updateEvtMask e st w) = bta w" "bt_lock (bt_updateEvtMask e st w) = bt_lock w"
  "bta (if_count_0 st w) = bta w" "bt_lock (if_count_0 st w) = bt_lock w"
  by (simp_all add: bt_upd_def bt_send_def bt_call_api_def bt_updateEvtMask_def if_count_0_def)

lemma batch_full_simps [simp]:
  "batch_full (bt_upd f w) = batch_full w" "batch_full (bt_send ms w) = batch_full w"
  "batch_full (bt_call_api cs w) = batch_full w" "batch_full (w\<lparr>bt_queue := q\<rparr>) = batch_full w"
  "batch_full (bt_updateEvtMask LOC_API_ADAPTER_BIT_BATCH_FULL LOC_REGISTRATION_MASK_ENABLED w)"
  "\<not> batch_full (bt_updateEvtMask LOC_API_ADAPTER_BIT_BATCH_FULL LOC_REGISTRATION_MASK_DISABLED w)"
  by (simp_all add: batch_full_def bt_updateEvtMask_def LOC_API_ADAPTER_BIT_BATCH_FULL_def bit_or_iff bit_and_iff
      bit_not_iff bit_push_bit_iff bit_1_iff)

section \<open>Single operations\<close>

lemma enable_full: "few (bta w) \<Longrightarrow> evt_inv w \<Longrightarrow> batch_full (if_count_0 LOC_REGISTRATION_MASK_ENABLED w)"
  by (auto simp: if_count_0_def count_0 evt_inv_def)

lemma disable_inv: "few (bta w) \<Longrightarrow> evt_inv w \<Longrightarrow> evt_inv (if_count_0 LOC_REGISTRATION_MASK_DISABLED w)"
  by (auto simp: if_count_0_def count_0 evt_inv_def)

lemma evt_inv_full: "batch_full w \<Longrightarrow> evt_inv w"
  by (simp add: evt_inv_def)

lemma evt_inv_less: "evt_inv w \<Longrightarrow> (interested (bta w') \<Longrightarrow> interested (bta w)) \<Longrightarrow> batch_full w' = batch_full w \<Longrightarrow> evt_inv w'"
  by (auto simp: evt_inv_def)

lemma interested_save: "batchingMode os = BATCHING_MODE_NO_AUTO_REPORT \<Longrightarrow> interested (saveBatchingSession c i os a) \<Longrightarrow> interested a"
  using set_om_put [of "SessionKey c i" os "mBatchingSessions a"] by (fastforce simp: interested_def saveBatchingSession_def)

lemma interested_erase: "interested (eraseBatchingSession c i a) \<Longrightarrow> interested a"
  using set_om_erase [of "SessionKey c i" "mBatchingSessions a"] by (auto simp: interested_def eraseBatchingSession_def)

lemma few_erase [simp]: "few a \<Longrightarrow> few (eraseBatchingSession c i a)"
  using length_om_erase [of "SessionKey c i" "mBatchingSessions a"] by (simp add: few_def eraseBatchingSession_def)

lemma interested_same [simp]:
  "interested (a\<lparr>mOngoingTripDistance := d\<rparr>) = interested a" "interested (a\<lparr>mOngoingTripTBFInterval := t\<rparr>) = interested a"
  "interested (a\<lparr>mTripWithOngoingTBFDropped := b\<rparr>) = interested a"
  "interested (a\<lparr>mTripWithOngoingTripDistanceDropped := b\<rparr>) = interested a"
  "interested (a\<lparr>mPendingMsgs := ms\<rparr>) = interested a" "interested (a\<lparr>mPendingGnssEnabledMsgs := ms\<rparr>) = interested a"
  "interested (a\<lparr>mClientData := cs\<rparr>) = interested a" "interested (a\<lparr>mIsEngineCapabilitiesKnown := b\<rparr>) = interested a"
  "few (a\<lparr>mOngoingTripDistance := d\<rparr>) = few a" "few (a\<lparr>mOngoingTripTBFInterval := t\<rparr>) = few a"
  "few (a\<lparr>mClientData := cs\<rparr>) = few a" "few (a\<lparr>mIsEngineCapabilitiesKnown := b\<rparr>) = few a"
  by (simp_all add: interested_def few_def)

lemma startBatching_inv:
  assumes "few (bta w)" "evt_inv w"
  shows "evt_inv (startBatching c i os p w)"
proof (cases "batchingMode os = BATCHING_MODE_NO_AUTO_REPORT")
  case True
  show ?thesis
    by (rule evt_inv_less [OF assms(2)]) (use True interested_save in \<open>auto simp: startBatching_def Let_def\<close>)
next
  case False
  with enable_full [OF assms] show ?thesis by (simp add: startBatching_def Let_def evt_inv_full)
qed

lemma startTrip_inv:
  assumes "few (bta w)" "evt_inv w"
  shows "evt_inv (startTripBatchingMultiplex c i os w)"
  using enable_full [OF assms] assms(2)
  by (auto simp: startTripBatchingMultiplex_def Let_def evt_inv_full) (simp add: evt_inv_def)

lemma restart_session_inv:
  assumes "few (bta w)" "evt_inv w"
  shows "evt_inv (restart_session c i os w)"
  using startBatching_inv [OF assms] startTrip_inv [OF assms] assms(2) by (simp add: restart_session_def)

lemma stopBatching_inv: "evt_inv w \<Longrightarrow> evt_inv (stopBatching c i r os w)"
  by (auto simp: stopBatching_def evt_inv_def dest: interested_erase split: option.split)

lemma session_start_done_inv:
  assumes "few (bta w)" "evt_inv w"
  shows "evt_inv (snd (session_start_done c i os p err w))"
proof -
  let ?w = "bt_upd (eraseBatchingSession c i) w"
  have "few (bta ?w)" "evt_inv ?w" using assms interested_erase by (auto simp: evt_inv_def)
  then have d: "evt_inv (if_count_0 LOC_REGISTRATION_MASK_DISABLED ?w)" "evt_inv ?w" by (simp_all add: disable_inv)
  have k: "evt_inv (bt_upd (\<lambda>a. a\<lparr>mPendingGnssEnabledMsgs := f a\<rparr>) v) = evt_inv v" for f v by (simp add: evt_inv_def)
  show ?thesis using d disable_inv [OF assms] assms(2) by (simp add: session_start_done_def Let_def k)
qed

lemma session_stop_done_inv:
  assumes "few (bta w)" "evt_inv w"
    and "bt_lock w \<noteq> ENGINE_LOCK_STATE_ENABLED \<or> err = LOCATION_ERROR_SUCCESS \<or>
      batchingMode os = BATCHING_MODE_NO_AUTO_REPORT \<or> batch_full w"
  shows "evt_inv (snd (session_stop_done c i flp r os err w))"
proof (cases "bt_lock w = ENGINE_LOCK_STATE_ENABLED \<and> err \<noteq> LOCATION_ERROR_SUCCESS")
  case True
  then have w': "snd (session_stop_done c i flp r os err w) = bt_upd (saveBatchingSession c i os) w"
    by (simp add: session_stop_done_def)
  from True assms(3) have "batchingMode os = BATCHING_MODE_NO_AUTO_REPORT \<or> batch_full w" by blast
  then show ?thesis unfolding w' using evt_inv_less [OF assms(2), of "bt_upd (saveBatchingSession c i os) w"]
      interested_save [of os c i "bta w"] by (auto simp: evt_inv_full)
next
  case False
  then show ?thesis
    using disable_inv [OF assms(1,2)] restart_session_inv [of w] restart_session_inv [of "if_count_0 LOC_REGISTRATION_MASK_DISABLED w"]
      assms(1,2) by (auto simp: session_stop_done_def Let_def)
qed

lemma trip_start_done_inv:
  assumes "few (bta w)" "evt_inv w"
  shows "evt_inv (snd (trip_start_done c i os err w))"
proof -
  let ?f = "\<lambda>a. a\<lparr>mTripSessions := om_erase i (mTripSessions a)\<rparr>"
  let ?w = "bt_upd ?f (bt_upd (eraseBatchingSession c i) w)"
  have t: "interested (?f a) \<Longrightarrow> interested a" for a by (auto simp: interested_def)
  have "few (?f a)" if "few a" for a
    using that length_om_erase [of i "mTripSessions a"] by (simp add: few_def)
  then have "few (bta ?w)" using assms(1) by simp
  moreover have "evt_inv ?w"
    by (rule evt_inv_less [OF assms(2)]) (use t [of "eraseBatchingSession c i (bta w)"] interested_erase [of c i "bta w"] in simp_all)
  ultimately have d: "evt_inv (if_count_0 LOC_REGISTRATION_MASK_DISABLED ?w)" by (rule disable_inv)
  have k: "evt_inv (bt_upd (\<lambda>a. a\<lparr>mOngoingTripDistance := x, mOngoingTripTBFInterval := y\<rparr>) v) = evt_inv v" for x y v
    by (simp add: evt_inv_def)
  show ?thesis using d assms(2) by (simp add: trip_start_done_def Let_def k)
qed

lemma restart_counts_Nil [simp]: "restart_counts ts = [] \<longleftrightarrow> ts = []"
  by (simp add: restart_counts_def)

lemma interested_restart: "interested (a\<lparr>mTripSessions := restart_counts (mTripSessions a)\<rparr>) = interested a"
  by (simp add: interested_def)

lemma trip_queried_inv:
  assumes "evt_inv w" "batch_full w \<or> err \<noteq> LOCATION_ERROR_SUCCESS"
  shows "evt_inv (snd (trip_queried c i os err acc w))"
proof (cases "batch_full w")
  case True
  then show ?thesis using assms(1) by (auto simp: trip_queried_def Let_def evt_inv_def split: prod.split)
next
  case False
  with assms have "\<not> interested (bta w)" "err \<noteq> LOCATION_ERROR_SUCCESS" by (auto simp: evt_inv_def)
  then show ?thesis by (auto simp: trip_queried_def Let_def evt_inv_def interested_def split: prod.split)
qed

lemma restartTrip_inv:
  assumes "few (bta w)" "evt_inv w"
  shows "evt_inv (restartTripBatching q acc w)"
proof -
  let ?w = "bt_upd (\<lambda>a. a\<lparr>mOngoingTripDistance := 0, mOngoingTripTBFInterval := 0\<rparr>)
      (bt_call_api [(StopOutdoorTripBatching True, NothingToDo)] w)"
  have "few (bta ?w)" "evt_inv ?w" using assms by (auto simp: evt_inv_def)
  then have "evt_inv (if_count_0 LOC_REGISTRATION_MASK_DISABLED ?w)" by (rule disable_inv)
  moreover have "evt_inv (bt_call_api cs w) = evt_inv w" for cs by (simp add: evt_inv_def)
  ultimately show ?thesis using assms(2) by (simp add: restartTripBatching_def Let_def)
qed

lemma restartTrip_few: "few (bta w) \<Longrightarrow> few (bta (restartTripBatching q acc w))"
  by (simp add: restartTripBatching_def Let_def)

lemma common_inv:
  assumes "stopTripBatchingMultiplexCommon err c i r os w = Some (outs, w')" "few (bta w)"
    and inv: "interested ((bta w)\<lparr>mTripSessions := om_erase i (mTripSessions (bta w))\<rparr>) \<longrightarrow> batch_full w"
  shows "evt_inv w'"
proof -
  obtain t where t: "om_find (mTripSessions (bta w)) i = Some t"
    using assms(1) by (auto simp: stopTripBatchingMultiplexCommon_def split: option.splits)
  let ?w1 = "bt_upd (\<lambda>a. a\<lparr>
       mTripWithOngoingTBFDropped := mTripWithOngoingTBFDropped a \<or> tripTBFInterval t = mOngoingTripTBFInterval a,
       mTripWithOngoingTripDistanceDropped := mTripWithOngoingTripDistanceDropped a \<or> tripDistance t = mOngoingTripDistance a,
       mTripSessions := om_erase i (mTripSessions a)\<rparr>) w"
  let ?w2 = "if mTripSessions (bta ?w1) = []
      then bt_upd (\<lambda>a. a\<lparr>mOngoingTripDistance := 0, mOngoingTripTBFInterval := 0\<rparr>) ?w1 else restartTripBatching True 0 ?w1"
  let ?w3 = "bt_upd (eraseBatchingSession c i) ?w2"
  have f1: "few (bta ?w1)" using assms(2) length_om_erase [of i "mTripSessions (bta w)"] by (simp add: few_def)
  have i1: "evt_inv ?w1" using inv by (simp add: evt_inv_def interested_def)
  have k: "evt_inv (bt_upd (\<lambda>a. a\<lparr>mOngoingTripDistance := x, mOngoingTripTBFInterval := y\<rparr>) v) = evt_inv v" for x y v
    by (simp add: evt_inv_def)
  have f2: "few (bta ?w2)" and i2: "evt_inv ?w2"
    using f1 i1 restartTrip_inv [OF f1 i1] restartTrip_few [OF f1] by (auto simp: k)
  have f3: "few (bta ?w3)" and i3: "evt_inv ?w3"
    using f2 evt_inv_less [OF i2, of ?w3] interested_erase by auto
  have "w' = (if r then restart_session c i os ?w3 else ?w2)"
    using assms(1) t by (simp add: stopTripBatchingMultiplexCommon_def Let_def)
  then show ?thesis using i2 restart_session_inv [OF f3 i3] by auto
qed

lemma stopTrip_inv:
  assumes "stopTripBatchingMultiplex c i r os w = Some (outs, w')" "few (bta w)" "evt_inv w"
  shows "evt_inv w'"
proof (cases "length (mTripSessions (bta w)) = 1")
  case True
  with assms show ?thesis by (auto simp: stopTripBatchingMultiplex_def evt_inv_def)
next
  case False
  have "interested ((bta w)\<lparr>mTripSessions := om_erase i (mTripSessions (bta w))\<rparr>) \<longrightarrow> batch_full w"
    using assms(3) by (auto simp: evt_inv_def interested_def)
  with common_inv [of _ c i r os w] assms(1,2) False show ?thesis by (auto simp: stopTripBatchingMultiplex_def)
qed

text \<open>The last trip is stopped: nobody else is interested when the count is one.\<close>

lemma trip_stop_done_inv:
  assumes "trip_stop_done c i r os err w = Some (outs, w')" "few (bta w)" "evt_inv w"
  shows "evt_inv w'"
proof (cases "err = LOCATION_ERROR_SUCCESS \<and> autoReportBatchingSessionsCount (bta w) = 1")
  case True
  let ?w = "bt_updateEvtMask LOC_API_ADAPTER_BIT_BATCH_FULL LOC_REGISTRATION_MASK_DISABLED w"
  from True assms(1) have c: "stopTripBatchingMultiplexCommon err c i r os ?w = Some (outs, w')"
    by (simp add: trip_stop_done_def)
  then obtain t where t: "om_find (mTripSessions (bta w)) i = Some t"
    by (auto simp: stopTripBatchingMultiplexCommon_def split: option.splits)
  let ?n = "length (filter (\<lambda>(_, os). batchingMode os \<noteq> BATCHING_MODE_NO_AUTO_REPORT) (mBatchingSessions (bta w)))"
  have "?n + length (mTripSessions (bta w)) = 1" using True count_unat [OF assms(2)] by simp
  moreover have "mTripSessions (bta w) \<noteq> []" using t by auto
  ultimately have "?n = 0" "length (mTripSessions (bta w)) = 1" by (cases "mTripSessions (bta w)", simp_all)+
  then have "mTripSessions (bta w) = [(i, t)]" using t by (cases "mTripSessions (bta w)") (auto split: if_splits)
  with \<open>?n = 0\<close> have "\<not> interested ((bta w)\<lparr>mTripSessions := om_erase i (mTripSessions (bta w))\<rparr>)"
    by (auto simp: interested_def filter_empty_conv)
  with common_inv [OF c] assms(2) show ?thesis by simp
next
  case False
  have "interested ((bta w)\<lparr>mTripSessions := om_erase i (mTripSessions (bta w))\<rparr>) \<longrightarrow> batch_full w"
    using assms(3) by (auto simp: evt_inv_def interested_def)
  with common_inv [of err c i r os w] assms(1,2) False show ?thesis by (auto simp: trip_stop_done_def)
qed

section \<open>Every step\<close>

text \<open>
  The two answers after which the event is missed. The engine refuses to stop a session, and the
  session comes back with options that ask for reports when the event is no longer registered; or a
  new trip, which has asked for the distance of the running batch, is recorded when the last trip is
  gone and the event with it.
\<close>

definition missed :: "bt_op \<Rightarrow> bt_world \<Rightarrow> bool" where
  "missed op w \<longleftrightarrow> \<not> bit (bt_evt w) 19 \<and>
     (case (op, bt_queue w) of
        (BtProcNext, BtResponse (StopDone c i flp r os) err acc # ms) \<Rightarrow>
          bt_lock w = ENGINE_LOCK_STATE_ENABLED \<and> err \<noteq> LOCATION_ERROR_SUCCESS \<and> batchingMode os \<noteq> BATCHING_MODE_NO_AUTO_REPORT
      | (BtProcNext, BtResponse (TripQueried c i os) err acc # ms) \<Rightarrow> err = LOCATION_ERROR_SUCCESS
      | _ \<Rightarrow> False)"

text \<open>What the steps of a run need: the sessions fit in the 32-bit counter, and neither of the two.\<close>

definition bt_ok :: "bt_op \<Rightarrow> bt_world \<Rightarrow> bool" where
  "bt_ok op w \<longleftrightarrow> few (bta w) \<and> \<not> missed op w"

lemma evt_inv_simps [simp]:
  "evt_inv (bt_send ms w) = evt_inv w" "evt_inv (bt_call_api cs w) = evt_inv w" "evt_inv (w\<lparr>bt_queue := q\<rparr>) = evt_inv w"
  "evt_inv (w\<lparr>bt_calls := cs\<rparr>) = evt_inv w" "evt_inv (w\<lparr>bt_counter := n\<rparr>) = evt_inv w" "evt_inv (w\<lparr>bt_lock := l\<rparr>) = evt_inv w"
  by (simp_all add: evt_inv_def) (simp_all add: batch_full_def)

lemma evt_inv_upd: "(\<And>a. interested (f a) = interested a) \<Longrightarrow> evt_inv (bt_upd f w) = evt_inv w"
  by (simp add: evt_inv_def)

lemma mask_update_full: "few (bta w) \<Longrightarrow> evt_inv (bt_updateClientsEventMask w)"
  by (auto simp: bt_updateClientsEventMask_def evt_inv_def Let_def word_gt_0 count_0)
    (simp add: batch_full_def bt_updateEvtMask_def LOC_API_ADAPTER_BIT_BATCH_FULL_def bit_or_iff bit_push_bit_iff bit_1_iff)

lemma few_less: "length (mBatchingSessions a') \<le> length (mBatchingSessions a) \<Longrightarrow> length (mTripSessions a') \<le> length (mTripSessions a)
    \<Longrightarrow> few a \<Longrightarrow> few a'"
  by (simp add: few_def)

lemma common_few:
  assumes "stopTripBatchingMultiplexCommon err c i False os w = Some (outs, w')" "few (bta w)"
  shows "few (bta w')"
proof (rule few_less [OF _ _ assms(2)])
  have "mBatchingSessions (bta (restartTripBatching q acc v)) = mBatchingSessions (bta v)"
    "mTripSessions (bta (restartTripBatching q acc v)) = mTripSessions (bta v)" for q acc v
    by (simp_all add: restartTripBatching_def Let_def)
  then show "length (mBatchingSessions (bta w')) \<le> length (mBatchingSessions (bta w))"
    "length (mTripSessions (bta w')) \<le> length (mTripSessions (bta w))"
    using assms(1) length_om_erase [of i "mTripSessions (bta w)"]
    by (auto simp: stopTripBatchingMultiplexCommon_def Let_def split: option.splits if_splits)
qed

lemma stop_sessions_inv:
  "stop_sessions xs w = Some (outs, w') \<Longrightarrow> few (bta w) \<Longrightarrow> evt_inv w \<Longrightarrow> evt_inv w' \<and> few (bta w')"
proof (induction xs arbitrary: w outs)
  case (Cons x xs)
  obtain k os where x: "x = (k, os)" by force
  let ?one = "if batchingMode os \<noteq> BATCHING_MODE_TRIP
      then Some ([], stopBatching (key_client k) (key_id k) False default_options w)
      else stopTripBatchingMultiplex (key_client k) (key_id k) False default_options w"
  from Cons.prems(1) x obtain o1 w1 o2 where one: "?one = Some (o1, w1)" and rest: "stop_sessions xs w1 = Some (o2, w')"
    by (auto split: option.splits)
  have "few (bta (stopBatching c i r ds w))" for c i r ds
    using Cons.prems(2) by (simp add: stopBatching_def split: option.split)
  moreover have "few (bta w1)" if "stopTripBatchingMultiplex c i False ds w = Some (o1, w1)" for c i ds
    using that Cons.prems(2) common_few [of _ c i ds w o1 w1] by (auto simp: stopTripBatchingMultiplex_def split: if_splits)
  ultimately have "few (bta w1)" using one by (auto split: if_splits)
  moreover have "evt_inv w1"
    using one stopBatching_inv [OF Cons.prems(3)] stopTrip_inv [OF _ Cons.prems(2,3)] by (auto split: if_splits)
  ultimately show ?case using Cons.IH [OF rest] by blast
qed simp

lemma complete_rest: "fst (snd (complete_loop stale acc interval distance ts)) \<noteq> [] \<Longrightarrow> ts \<noteq> []"
  by (cases ts) auto

lemma complete_length: "length (fst (snd (complete_loop stale acc interval distance ts))) \<le> length ts"
  by (induction ts rule: complete_loop.induct) (auto simp: Let_def split: prod.splits)

lemma completed_inv:
  assumes "few (bta w)" "evt_inv w"
  shows "evt_inv (snd (reportCompletedTrips stale acc w))"
proof -
  obtain ids rest tbf dist where l: "complete_loop stale acc (mOngoingTripTBFInterval (bta w)) (mOngoingTripDistance (bta w))
      (mTripSessions (bta w)) = (ids, rest, tbf, dist)" by (metis prod_cases4)
  let ?w = "bt_upd (\<lambda>a. a\<lparr>mTripSessions := rest,
      mTripWithOngoingTBFDropped := mTripWithOngoingTBFDropped a \<or> tbf,
      mTripWithOngoingTripDistanceDropped := mTripWithOngoingTripDistanceDropped a \<or> dist\<rparr>) w"
  note c = complete_rest [of stale acc "mOngoingTripTBFInterval (bta w)" "mOngoingTripDistance (bta w)" "mTripSessions (bta w)"]
    complete_length [of stale acc "mOngoingTripTBFInterval (bta w)" "mOngoingTripDistance (bta w)" "mTripSessions (bta w)"]
  have f: "few (bta ?w)" using assms(1) c(2) l by (simp add: few_def)
  have i: "evt_inv ?w" by (rule evt_inv_less [OF assms(2)]) (use c(1) l in \<open>auto simp: interested_def\<close>)
  show ?thesis using restartTrip_inv [OF f i] i l by (simp add: reportCompletedTrips_def Let_def)
qed

lemma cont_inv:
  assumes "bt_cont_proc k err acc w = Some (outs, w')" "few (bta w)" "evt_inv w"
    and "\<And>c i flp r os. k = StopDone c i flp r os \<Longrightarrow> bt_lock w \<noteq> ENGINE_LOCK_STATE_ENABLED \<or> err = LOCATION_ERROR_SUCCESS \<or>
      batchingMode os = BATCHING_MODE_NO_AUTO_REPORT \<or> batch_full w"
    and "\<And>c i os. k = TripQueried c i os \<Longrightarrow> batch_full w \<or> err \<noteq> LOCATION_ERROR_SUCCESS"
  shows "evt_inv w'"
proof (cases k)
  case (StartDone c i os p)
  with assms(1) session_start_done_inv [OF assms(2,3), of c i os p err] show ?thesis by simp
next
  case (StopDone c i flp r os)
  with assms(1) session_stop_done_inv [OF assms(2,3) assms(4) [OF StopDone], of c i flp r] show ?thesis by simp
next
  case (TripStartDone c i os)
  with assms(1) trip_start_done_inv [OF assms(2,3), of c i os err] show ?thesis by simp
next
  case (TripQueried c i os)
  have "evt_inv (snd (trip_queried c i os err acc w))" by (rule trip_queried_inv [OF assms(3) assms(5) [OF TripQueried]])
  with assms(1) TripQueried show ?thesis by simp
next
  case (TripStopDone c i r os)
  with assms(1) trip_stop_done_inv [OF _ assms(2,3), of c i r os err outs w'] show ?thesis by simp
next
  case (RestartQueried q rem tbf a)
  with assms(1,3) show ?thesis by (auto simp: restart_queried_def Let_def split: prod.splits)
next
  case (RestartDone a d t)
  have "interested (b\<lparr>mTripSessions := restart_counts (map (\<lambda>(i, t). (i, travelled a t)) (mTripSessions b)),
      mOngoingTripDistance := d, mOngoingTripTBFInterval := t\<rparr>) = interested b" for b
    by (simp add: interested_def)
  then have "evt_inv (trip_restart_done a d t err w)" using assms(3) by (simp add: trip_restart_done_def evt_inv_upd)
  with assms(1) RestartDone show ?thesis by simp
next
  case SsrTripDone
  with assms(1,3) show ?thesis by (auto simp: ssr_trip_done_def evt_inv_def)
qed (use assms in auto)

lemma stop_client_few: "few (bta w) \<Longrightarrow> evt_inv w \<Longrightarrow> bt_stopClientSessions c w = Some (outs, w') \<Longrightarrow> few (bta w')"
  using stop_sessions_inv by (auto simp: bt_stopClientSessions_def)

lemma few_eraseClient: "few ((bta w)\<lparr>mClientData := cs\<rparr>) = few (bta w)"
  by simp

lemma restart_all_inv:
  assumes "few (bta w)" "evt_inv w"
  shows "evt_inv (restartSessions w)"
proof -
  have "evt_inv (bt_updateEvtMask LOC_API_ADAPTER_BIT_BATCH_FULL LOC_REGISTRATION_MASK_ENABLED w)" by (rule evt_inv_full) simp
  moreover have "evt_inv (bt_upd (\<lambda>a. a\<lparr>mOngoingTripDistance := x, mOngoingTripTBFInterval := y\<rparr>) v) = evt_inv v" for x y v
    by (simp add: evt_inv_def)
  ultimately show ?thesis using assms(2) by (simp add: restartSessions_def Let_def)
qed

lemma msg_inv:
  assumes p: "bt_msg_proc ctx stale m w = Some (outs, w')" and f: "few (bta w)" and i: "evt_inv w"
    and "\<And>c j flp r os err acc. m = BtResponse (StopDone c j flp r os) err acc \<Longrightarrow>
      bt_lock w \<noteq> ENGINE_LOCK_STATE_ENABLED \<or> err = LOCATION_ERROR_SUCCESS \<or>
      batchingMode os = BATCHING_MODE_NO_AUTO_REPORT \<or> batch_full w"
    and "\<And>c j os err acc. m = BtResponse (TripQueried c j os) err acc \<Longrightarrow> batch_full w \<or> err \<noteq> LOCATION_ERROR_SUCCESS"
  shows "evt_inv w'"
proof -
  have pend: "evt_inv (bt_pend m v) = evt_inv v" for m v unfolding bt_pend_def by (rule evt_inv_upd) simp
  show ?thesis
  proof (cases m)
    case (MsgStartBatching c j os)
    with p i startBatching_inv [OF f i] startTrip_inv [OF f i] show ?thesis
      by (auto simp: start_batching_proc_def pend split: if_splits)
  next
    case (MsgUpdateBatching c j os)
    with p i stopBatching_inv [OF i] stopTrip_inv [OF _ f i] show ?thesis
      by (auto simp: update_batching_proc_def pend split: if_splits)
  next
    case (MsgStopBatching c j)
    with p i stopBatching_inv [OF i] stopTrip_inv [OF _ f i] show ?thesis
      by (auto simp: stop_batching_proc_def pend split: if_splits)
  next
    case (MsgGetBatchedLocations c j n)
    with p i show ?thesis by (auto simp: get_batched_proc_def pend split: if_splits)
  next
    case (MsgReportCompletedTrips acc)
    with p completed_inv [OF f i, of stale acc] show ?thesis by simp
  next
    case (BtAddClient c cbs)
    with p f show ?thesis by (auto simp: bt_addClient_def intro: mask_update_full)
  next
    case (BtRemoveClient c hasCb)
    with p stop_client_few [OF f i] show ?thesis
      by (auto simp: bt_removeClient_def intro!: mask_update_full split: option.splits)
  next
    case (BtRequestCapabilities c)
    with p i show ?thesis by (auto simp: bt_requestCapabilities_def pend split: if_splits)
  next
    case BtSSREvent
    let ?u = "bt_upd (\<lambda>a. a\<lparr>mIsEngineCapabilitiesKnown := True\<rparr>) w"
    have u: "few (bta ?u)" "evt_inv ?u" using f i by (simp_all add: evt_inv_upd)
    have "evt_inv (bt_upd (\<lambda>a. a\<lparr>mPendingMsgs := []\<rparr>) v) = evt_inv v" for v by (rule evt_inv_upd) simp
    moreover have "w' = (if bt_lock w = ENGINE_LOCK_STATE_ENABLED
        then bt_upd (\<lambda>a. a\<lparr>mPendingMsgs := []\<rparr>) (bt_send (mPendingMsgs (bta ?u)) (restartSessions ?u)) else ?u)"
      using p BtSSREvent by (simp add: bt_engine_up_def Let_def)
    ultimately show ?thesis using restart_all_inv [OF u] u(2) by simp
  next
    case (BtEngineLockStateEvent st)
    have "evt_inv (bt_upd (\<lambda>a. a\<lparr>mPendingGnssEnabledMsgs := []\<rparr>) v) = evt_inv v" for v by (rule evt_inv_upd) simp
    then have "evt_inv (bt_handleEngineLockStatus st w)" using i by (simp add: bt_handleEngineLockStatus_def)
    with p BtEngineLockStateEvent show ?thesis by simp
  next
    case (BtResponse k err acc)
    show ?thesis by (rule cont_inv [of k err acc w outs]) (use assms BtResponse in auto)
  next
    case (MsgReadConfig a b c d)
    have "evt_inv (bt_upd (\<lambda>x. x\<lparr>mBatchSize := a, mTripBatchSize := b, mBatchingTimeout := c, mBatchingAccuracy := d\<rparr>) w) = evt_inv w"
      by (rule evt_inv_upd) (simp add: interested_def)
    with p i MsgReadConfig show ?thesis by simp
  qed (use p i in simp_all)
qed

lemma bt_step_inv:
  assumes "bt_step ctx stale op w = Some (outs, w')" "bt_ok op w" "evt_inv w"
  shows "evt_inv w'"
proof (cases op)
  case BtProcNext
  show ?thesis
  proof (cases "bt_queue w")
    case (Cons m ms)
    have p: "bt_msg_proc ctx stale m (w\<lparr>bt_queue := ms\<rparr>) = Some (outs, w')" using assms(1) BtProcNext Cons by simp
    show ?thesis
      by (rule msg_inv [OF p]) (use assms(2,3) BtProcNext Cons in \<open>auto simp: bt_ok_def missed_def batch_full_def\<close>)
  qed (use assms BtProcNext in simp)
qed (use assms(1,3) in \<open>auto simp: Let_def split: list.splits\<close>)

text \<open>After the two answers it is missed indeed.\<close>

lemma missed_step:
  assumes "bt_step ctx stale op w = Some (outs, w')" "missed op w"
  shows "\<not> evt_inv w'"
proof -
  have full: "\<not> batch_full w" using assms(2) by (simp add: missed_def batch_full_def)
  consider c i flp r os err acc ms where "op = BtProcNext" "bt_queue w = BtResponse (StopDone c i flp r os) err acc # ms"
      "bt_lock w = ENGINE_LOCK_STATE_ENABLED" "err \<noteq> LOCATION_ERROR_SUCCESS" "batchingMode os \<noteq> BATCHING_MODE_NO_AUTO_REPORT"
    | c i os acc ms where "op = BtProcNext" "bt_queue w = BtResponse (TripQueried c i os) LOCATION_ERROR_SUCCESS acc # ms"
    using assms(2) by (auto simp: missed_def split: bt_op.splits list.splits bt_msg.splits bt_cont.splits)
  then show ?thesis
  proof cases
    case 1
    then have w': "w' = bt_upd (saveBatchingSession c i os) (w\<lparr>bt_queue := ms\<rparr>)"
      using assms(1) by (simp add: session_stop_done_def Let_def)
    have "(SessionKey c i, os) \<in> set (om_put (SessionKey c i) os (mBatchingSessions (bta w)))"
      by (rule map_of_SomeD) simp
    with 1 have "interested (bta w')" by (force simp: w' interested_def saveBatchingSession_def)
    with full show ?thesis by (simp add: w' evt_inv_def)
  next
    case 2
    then have w': "w' = snd (trip_queried c i os LOCATION_ERROR_SUCCESS acc (w\<lparr>bt_queue := ms\<rparr>))"
      using assms(1) by simp
    have p: "om_put k v xs \<noteq> []" for k v and xs :: "(u32 \<times> trip_session) list"
      by (induction k v xs rule: om_put.induct) auto
    have "mTripSessions (bta w') \<noteq> []" "batch_full w' = batch_full w"
      by (auto simp: w' trip_queried_def Let_def p split: prod.split)
    with full show ?thesis by (simp add: evt_inv_def interested_def)
  qed
qed

lemma bt_run_inv:
  assumes "ops_ok bt_ok (bt_step ctx stale) ops w" "run_ops (bt_step ctx stale) ops w = Some (outs, w')" "evt_inv w"
  shows "evt_inv w'"
  using assms
proof (induction ops arbitrary: w outs)
  case (Cons x ops)
  then obtain o1 w1 os where s: "bt_step ctx stale x w = Some (o1, w1)" "run_ops (bt_step ctx stale) ops w1 = Some (os, w')"
    by (auto split: option.splits)
  with Cons.prems have "evt_inv w1" by (auto intro: bt_step_inv)
  with Cons.IH s Cons.prems show ?case by auto
qed simp

section \<open>A run\<close>

definition bt_callbacks :: location_callbacks where
  "bt_callbacks = no_callbacks\<lparr>capabilitiesCb := True, responseCb := True, batchingCb := True, batchingStatusCb := True\<rparr>"

definition bt_context :: loc_context where
  "bt_context = \<lparr>sSupportedMsgMask = 0b1010100, sFeaturesSupported = [0, 0], sGnssMeasurementSupported = True,
     ctx_CAPABILITIES = 0, ctx_SUPL_MODE = 0\<rparr>"

definition no_trip :: trip_session where
  "no_trip = \<lparr>accumulatedDistanceOngoingBatch = 0, accumulatedDistanceThisTrip = 0, accumulatedDistanceOnTripRestart = 0,
     tripDistance = 0, tripTBFInterval = 0\<rparr>"

definition some_options :: "u32 \<Rightarrow> u32 \<Rightarrow> u32 \<Rightarrow> bt_options" where
  "some_options mode distance interval = \<lparr>opt_size = 24, minInterval = interval, minDistance = distance, opt_mode = 0,
     locReqEngTypeMask = 0, batchingMode = mode\<rparr>"

text \<open>A client comes; the configuration is read and the engine is up.\<close>

definition bt_setup :: "bt_op list" where
  "bt_setup = [BtProcNext, BtProcNext, BtAddClientCommand 1 bt_callbacks, BtProcNext, BtEngineUpEvent, BtProcNext]"

definition bt_answered :: "bt_op \<Rightarrow> location_error \<Rightarrow> u32 \<Rightarrow> bt_op list" where
  "bt_answered op err acc = [op, BtProcNext, BtAnswer 0 err acc, BtProcNext]"

text \<open>A routine session, a trip of 500 meters and one of 200; then the routine session ends.\<close>

definition bt_demo :: "bt_op list" where
  "bt_demo = bt_setup @
     bt_answered (StartBatchingCommand 1 (some_options BATCHING_MODE_ROUTINE 0 1000)) LOCATION_ERROR_SUCCESS 0 @
     bt_answered (StartBatchingCommand 1 (some_options BATCHING_MODE_TRIP 500 1000)) LOCATION_ERROR_SUCCESS 0 @
     bt_answered (StartBatchingCommand 1 (some_options BATCHING_MODE_TRIP 200 2000)) LOCATION_ERROR_SUCCESS 100 @
     [BtAnswer 0 LOCATION_ERROR_SUCCESS 0, BtProcNext] @
     bt_answered (StopBatchingCommand 1 2) LOCATION_ERROR_SUCCESS 0"

lemma bt_demo_ok: "ops_ok bt_ok (bt_step bt_context (\<lambda>_. no_trip)) bt_demo (bt_start 20 30 0 1)"
  by code_simp

lemma bt_demo_run:
  obtains outs w where "run_ops (bt_step bt_context (\<lambda>_. no_trip)) bt_demo (bt_start 20 30 0 1) = Some (outs, w)"
    "map fst (mTripSessions (bta w)) = [3, 4]"
proof -
  have "case run_ops (bt_step bt_context (\<lambda>_. no_trip)) bt_demo (bt_start 20 30 0 1) of None \<Rightarrow> False
      | Some (outs, w) \<Rightarrow> map fst (mTripSessions (bta w)) = [3, 4]"
    by code_simp
  then show thesis using that by (auto split: option.splits)
qed

text \<open>The two ways to miss it do happen: a session without automatic reports is stopped and the engine
refuses, which brings it back with the default options, which ask for reports; and a second trip
has asked for the distance of the running batch when the engine refuses to start the first.\<close>

lemma event_missed_runs:
  "case run_ops (bt_step bt_context (\<lambda>_. no_trip)) (bt_setup @
      bt_answered (StartBatchingCommand 1 (some_options BATCHING_MODE_NO_AUTO_REPORT 0 1000)) LOCATION_ERROR_SUCCESS 0 @
      bt_answered (StopBatchingCommand 1 2) LOCATION_ERROR_GENERAL_FAILURE 0) (bt_start 20 30 0 1) of
     None \<Rightarrow> False | Some (outs, w) \<Rightarrow> map (batchingMode \<circ> snd) (mBatchingSessions (bta w)) = [BATCHING_MODE_ROUTINE] \<and> \<not> bit (bt_evt w) 19"
  "case run_ops (bt_step bt_context (\<lambda>_. no_trip)) (bt_setup @
      [StartBatchingCommand 1 (some_options BATCHING_MODE_TRIP 500 1000), BtProcNext,
       StartBatchingCommand 1 (some_options BATCHING_MODE_TRIP 200 1000), BtProcNext,
       BtAnswer 0 LOCATION_ERROR_GENERAL_FAILURE 0, BtProcNext, BtAnswer 0 LOCATION_ERROR_SUCCESS 0, BtProcNext]) (bt_start 20 30 0 1) of
     None \<Rightarrow> False | Some (outs, w) \<Rightarrow> mTripSessions (bta w) \<noteq> [] \<and> \<not> bit (bt_evt w) 19"
  by code_simp+

text \<open>C16. The batch-full event is missed through two answers of the engine and nothing else. In
every run, whatever the engine answers and in which order, in which neither of the two has come
(\<open>missed\<close>, and the sessions fit in the 32-bit counter), the adapter is registered for the event
whenever there is a session with automatic reports or a trip; and after the next step this still
holds exactly when that step is not one of the two: the refusal to stop a session that
brings it back with automatic reports while the event is not registered, and the distance that is
answered for a new trip while the event is not registered.\<close>

theorem batch_full_registered:
  assumes "ops_ok bt_ok (bt_step ctx stale) ops (bt_start bsize tsize timeout accuracy)"
    and "run_ops (bt_step ctx stale) ops (bt_start bsize tsize timeout accuracy) = Some (outs, w)"
  defines "registered \<equiv> \<lambda>v. mTripSessions (bta v) \<noteq> [] \<or>
      (\<exists>(k, os) \<in> set (mBatchingSessions (bta v)). batchingMode os \<noteq> BATCHING_MODE_NO_AUTO_REPORT) \<longrightarrow> bit (bt_evt v) 19"
  shows "registered w \<and>
    (length (mBatchingSessions (bta w)) + length (mTripSessions (bta w)) < 2 ^ 32 \<longrightarrow>
     (\<forall>op outs' w'. bt_step ctx stale op w = Some (outs', w') \<longrightarrow> (registered w' \<longleftrightarrow> \<not> missed op w)))"
proof -
  have r: "registered v = evt_inv v" for v
    unfolding registered_def evt_inv_def interested_def batch_full_def case_prod_beta by blast
  have "evt_inv (bt_start bsize tsize timeout accuracy)" by (simp add: bt_start_def evt_inv_def interested_def)
  from bt_run_inv [OF assms(1,2) this] have i: "evt_inv w" .
  have "evt_inv w' \<longleftrightarrow> \<not> missed op w" if "bt_step ctx stale op w = Some (outs', w')" "few (bta w)" for op outs' w'
    using bt_step_inv [OF that(1) _ i] missed_step [OF that(1)] that(2) by (auto simp: bt_ok_def)
  with i show ?thesis unfolding r few_def by blast
qed

theorem batch_full_registered_witness:
  "\<exists>outs w. run_ops (bt_step bt_context (\<lambda>_. no_trip)) bt_demo (bt_start 20 30 0 1) = Some (outs, w) \<and>
     map fst (mTripSessions (bta w)) = [3, 4] \<and> bit (bt_evt w) 19"
proof -
  obtain outs w where r: "run_ops (bt_step bt_context (\<lambda>_. no_trip)) bt_demo (bt_start 20 30 0 1) = Some (outs, w)"
      "map fst (mTripSessions (bta w)) = [3, 4]" by (rule bt_demo_run)
  from r(2) have "mTripSessions (bta w) \<noteq> []" by auto
  with batch_full_registered [OF bt_demo_ok r(1)] have "bit (bt_evt w) 19" by simp
  with r show ?thesis by (intro exI [of _ outs] exI [of _ w] conjI)
qed

end
