(* ===== verification/Batching_Trips.thy ===== *)
theory Batching_Trips
  imports Batching_Events
begin

text \<open>
  What the batching adapter does with sessions and trips: the answer to a start and a stop, the
  distances and intervals of the common batch, the completion of trips, and concrete runs that
  show where trips are not handled as intended.
\<close>

section \<open>The smallest of several\<close>

lemma min_loop_from:
  "m \<noteq> 0 \<Longrightarrow> 0 \<notin> set xs \<Longrightarrow> fold (\<lambda>x m. if m = 0 \<or> m > x then x else m) xs m = Min (insert m (set xs))" for m :: u32
proof (induction xs arbitrary: m)
  case (Cons x xs)
  have ins: "insert m (set (x # xs)) = insert m (insert x (set xs))" by auto
  show ?case
  proof (cases "m > x")
    case True
    have "Min (insert m (insert x (set xs))) = min m (Min (insert x (set xs)))" by (rule Min_insert) auto
    moreover have "Min (insert x (set xs)) \<le> x" by (rule Min_le) auto
    ultimately have "Min (insert m (set (x # xs))) = Min (insert x (set xs))" using True unfolding ins by (simp only: min_def) auto
    moreover have "x \<noteq> 0" "0 \<notin> set xs" using Cons.prems by auto
    note Cons.IH [OF this]
    ultimately show ?thesis using True by simp
  next
    case False
    have "insert m (insert x (set xs)) = insert x (insert m (set xs))" by auto
    moreover have "Min (insert x (insert m (set xs))) = min x (Min (insert m (set xs)))" by (rule Min_insert) auto
    moreover have "Min (insert m (set xs)) \<le> m" by (rule Min_le) auto
    ultimately have "Min (insert m (set (x # xs))) = Min (insert m (set xs))" using False unfolding ins by (simp only: min_def) auto
    moreover have "0 \<notin> set xs" using Cons.prems by auto
    note Cons.IH [OF Cons.prems(1) this]
    ultimately show ?thesis using False Cons.prems(1) by simp
  qed
qed simp

lemma min_loop_Min: "xs \<noteq> [] \<Longrightarrow> 0 \<notin> set xs \<Longrightarrow> min_loop xs = Min (set xs)"
  using min_loop_from by (cases xs) (auto simp: min_loop_def)

text \<open>The batch that serves all trips: when a restart is considered, the adapter asks for the
accumulated distance and goes on with the smallest remaining distance and the smallest interval of
the trips, provided that none of these is 0 (the loops take 0 for "nothing found yet").\<close>

theorem trip_minimum_exact:
  assumes "mTripSessions (bta w) \<noteq> []"
    and "\<forall>x \<in> set (mTripSessions (bta w)). remaining_distance (snd x) \<noteq> 0 \<and> tripTBFInterval (snd x) \<noteq> 0"
  shows "restartTripBatching q acc w = bt_call_api
    [(QueryAccumulatedTripDistance, RestartQueried q (Min (remaining_distance ` snd ` set (mTripSessions (bta w))))
        (Min (tripTBFInterval ` snd ` set (mTripSessions (bta w)))) acc)] w"
proof -
  let ?ts = "mTripSessions (bta w)"
  have r: "map (\<lambda>(_, t). remaining_distance t) ?ts = map (remaining_distance \<circ> snd) ?ts"
    "map (\<lambda>(_, t). tripTBFInterval t) ?ts = map (tripTBFInterval \<circ> snd) ?ts" by auto
  have "min_remaining ?ts = Min (set (map (remaining_distance \<circ> snd) ?ts))"
    unfolding min_remaining_def r(1) by (rule min_loop_Min) (use assms in auto)
  moreover have "min_interval ?ts = Min (set (map (tripTBFInterval \<circ> snd) ?ts))"
    unfolding min_interval_def r(2) by (rule min_loop_Min) (use assms in auto)
  ultimately show ?thesis using assms(1) by (simp add: restartTripBatching_def Let_def image_comp)
qed

definition demo_trip :: "u32 \<Rightarrow> u32 \<Rightarrow> trip_session" where
  "demo_trip distance interval = \<lparr>accumulatedDistanceOngoingBatch = 0, accumulatedDistanceThisTrip = 0,
     accumulatedDistanceOnTripRestart = 0, tripDistance = distance, tripTBFInterval = interval\<rparr>"

lemma demo_trips:
  obtains outs w where "run_ops (bt_step bt_context (\<lambda>_. no_trip)) bt_demo (bt_start 20 30 0 1) = Some (outs, w)"
    "mTripSessions (bta w) = [(3, demo_trip 500 1000), (4, demo_trip 200 2000)]" "map fst (mClientData (bta w)) = [1]"
    "told_clients batchingStatusCb (mClientData (bta w)) = [1]"
proof -
  have "case run_ops (bt_step bt_context (\<lambda>_. no_trip)) bt_demo (bt_start 20 30 0 1) of None \<Rightarrow> False
      | Some (outs, w) \<Rightarrow> mTripSessions (bta w) = [(3, demo_trip 500 1000), (4, demo_trip 200 2000)] \<and>
          map fst (mClientData (bta w)) = [1] \<and> told_clients batchingStatusCb (mClientData (bta w)) = [1]"
    by code_simp
  then show thesis using that by (auto split: option.splits)
qed

theorem trip_minimum_exact_witness:
  "\<exists>outs w. run_ops (bt_step bt_context (\<lambda>_. no_trip)) bt_demo (bt_start 20 30 0 1) = Some (outs, w) \<and>
     restartTripBatching True 0 w = bt_call_api [(QueryAccumulatedTripDistance, RestartQueried True 200 1000 0)] w"
proof -
  obtain outs w where r: "run_ops (bt_step bt_context (\<lambda>_. no_trip)) bt_demo (bt_start 20 30 0 1) = Some (outs, w)"
      "mTripSessions (bta w) = [(3, demo_trip 500 1000), (4, demo_trip 200 2000)]" by (rule demo_trips)
  have "restartTripBatching True 0 w = bt_call_api
      [(QueryAccumulatedTripDistance, RestartQueried True (Min (remaining_distance ` snd ` set (mTripSessions (bta w))))
        (Min (tripTBFInterval ` snd ` set (mTripSessions (bta w)))) 0)] w"
    by (rule trip_minimum_exact) (simp_all add: r(2) remaining_distance_def demo_trip_def)
  with r show ?thesis by (auto simp: remaining_distance_def demo_trip_def min_def)
qed

section \<open>Completed trips\<close>

text \<open>The distance that a trip has covered when the engine reports \<open>acc\<close>, as a number.\<close>

definition covered :: "u32 \<Rightarrow> trip_session \<Rightarrow> nat" where
  "covered acc t = unat (accumulatedDistanceOnTripRestart t) + (unat acc - unat (accumulatedDistanceOngoingBatch t))"

definition counts_fit :: "u32 \<Rightarrow> trip_session \<Rightarrow> bool" where
  "counts_fit acc t \<longleftrightarrow> accumulatedDistanceOngoingBatch t \<le> acc \<and> covered acc t < 2 ^ 32"

lemma covered_exact:
  assumes "counts_fit acc t"
  shows "unat (accumulatedDistanceThisTrip (travelled acc t)) = covered acc t"
proof -
  have "unat (acc - accumulatedDistanceOngoingBatch t) = unat acc - unat (accumulatedDistanceOngoingBatch t)"
    using assms by (simp add: counts_fit_def unat_sub)
  moreover from this have "unat (accumulatedDistanceOnTripRestart t) + unat (acc - accumulatedDistanceOngoingBatch t) < 2 ^ LENGTH(32)"
    using assms by (simp add: counts_fit_def covered_def)
  note unat_add_lem [THEN iffD1, OF this]
  ultimately show ?thesis by (simp add: travelled_def covered_def)
qed

lemma complete_exact:
  "fst (complete_loop stale acc interval distance ts) =
     map fst (filter (\<lambda>(i, t). tripDistance t \<le> accumulatedDistanceThisTrip (travelled acc t)) ts)"
  "fst (snd (complete_loop stale acc interval distance ts)) =
     map (\<lambda>(i, t). (i, travelled acc t)) (filter (\<lambda>(i, t). \<not> tripDistance t \<le> accumulatedDistanceThisTrip (travelled acc t)) ts)"
proof (induction ts)
  case (Cons x ts)
  obtain i t where x: "x = (i, t)" by force
  obtain ids rest tbf dist where l: "complete_loop stale acc interval distance ts = (ids, rest, tbf, dist)" by (metis prod_cases4)
  {
    case 1
    show ?case using Cons.IH(1) l x by (simp add: Let_def) (simp add: travelled_def)
  next
    case 2
    show ?case using Cons.IH(2) l x by (simp add: Let_def) (simp add: travelled_def)
  }
qed simp_all

text \<open>Trips end when their distance is covered: after a report of the engine the trips whose
distance is at most what they have covered are removed, and every client with a status callback is
told their identifiers, in one call (nobody is called when there are none); the other trips stay and
know exactly what they have covered. The counts must fit into 32 bits.\<close>

theorem trip_completion_exact:
  assumes "\<forall>x \<in> set (mTripSessions (bta w)). counts_fit acc (snd x)"
    and "reportCompletedTrips stale acc w = (outs, w')"
  shows "(let done = map fst (filter (\<lambda>(i, t). unat (tripDistance t) \<le> covered acc t) (mTripSessions (bta w)))
      in outs = (if done = [] then [] else map (\<lambda>c. BatchingStatusCb c BATCHING_STATUS_TRIP_COMPLETED done)
             (told_clients batchingStatusCb (mClientData (bta w))))) \<and>
    map (\<lambda>(i, t). (i, unat (accumulatedDistanceThisTrip t))) (mTripSessions (bta w')) =
      map (\<lambda>(i, t). (i, covered acc t)) (filter (\<lambda>(i, t). unat (tripDistance t) > covered acc t) (mTripSessions (bta w)))"
proof -
  let ?ts = "mTripSessions (bta w)"
  obtain ids rest tbf dist where l: "complete_loop stale acc (mOngoingTripTBFInterval (bta w)) (mOngoingTripDistance (bta w)) ?ts
      = (ids, rest, tbf, dist)" by (metis prod_cases4)
  have c: "tripDistance (snd x) \<le> accumulatedDistanceThisTrip (travelled acc (snd x)) \<longleftrightarrow> unat (tripDistance (snd x)) \<le> covered acc (snd x)"
    if "x \<in> set ?ts" for x
    using covered_exact [of acc "snd x"] assms(1) that by (simp add: word_le_nat_alt)
  have f: "filter (\<lambda>(i, t). tripDistance t \<le> accumulatedDistanceThisTrip (travelled acc t)) ?ts =
      filter (\<lambda>(i, t). unat (tripDistance t) \<le> covered acc t) ?ts"
    "filter (\<lambda>(i, t). \<not> tripDistance t \<le> accumulatedDistanceThisTrip (travelled acc t)) ?ts =
      filter (\<lambda>(i, t). unat (tripDistance t) > covered acc t) ?ts"
    by (rule filter_cong, use c in \<open>auto simp: split_def\<close>)+
  have ids: "ids = map fst (filter (\<lambda>(i, t). unat (tripDistance t) \<le> covered acc t) ?ts)"
    using complete_exact(1) [of stale acc "mOngoingTripTBFInterval (bta w)" "mOngoingTripDistance (bta w)" ?ts] l
    unfolding f by simp
  have rest: "rest = map (\<lambda>(i, t). (i, travelled acc t)) (filter (\<lambda>(i, t). unat (tripDistance t) > covered acc t) ?ts)"
    using complete_exact(2) [of stale acc "mOngoingTripTBFInterval (bta w)" "mOngoingTripDistance (bta w)" ?ts] l
    unfolding f by simp
  have "mTripSessions (bta (restartTripBatching q a v)) = mTripSessions (bta v)" for q a v
    by (simp add: restartTripBatching_def Let_def)
  then have w': "mTripSessions (bta w') = rest" and
    outs: "outs = (if ids = [] then [] else reportBatchStatusChange BATCHING_STATUS_TRIP_COMPLETED ids (bta w))"
    using assms(2) l by (auto simp: reportCompletedTrips_def Let_def reportBatchStatusChange_def split: if_splits)
  have "map (\<lambda>(i, t). (i, unat (accumulatedDistanceThisTrip t))) rest =
      map (\<lambda>(i, t). (i, covered acc t)) (filter (\<lambda>(i, t). unat (tripDistance t) > covered acc t) ?ts)"
    unfolding rest using covered_exact assms(1) by (auto simp: split_def)
  then show ?thesis unfolding w' outs Let_def ids [symmetric] by (simp add: reportBatchStatusChange_def)
qed

theorem trip_completion_exact_witness:
  "\<exists>outs w told w'. run_ops (bt_step bt_context (\<lambda>_. no_trip)) bt_demo (bt_start 20 30 0 1) = Some (outs, w) \<and>
     reportCompletedTrips (\<lambda>_. no_trip) 250 w = (told, w') \<and> told = [BatchingStatusCb 1 BATCHING_STATUS_TRIP_COMPLETED [4]] \<and>
     map (\<lambda>(i, t). (i, unat (accumulatedDistanceThisTrip t))) (mTripSessions (bta w')) = [(3, 250)]"
proof -
  obtain outs w where r: "run_ops (bt_step bt_context (\<lambda>_. no_trip)) bt_demo (bt_start 20 30 0 1) = Some (outs, w)"
      "mTripSessions (bta w) = [(3, demo_trip 500 1000), (4, demo_trip 200 2000)]"
      "told_clients batchingStatusCb (mClientData (bta w)) = [1]" by (rule demo_trips)
  obtain told w' where c: "reportCompletedTrips (\<lambda>_. no_trip) 250 w = (told, w')" by force
  have "\<forall>x \<in> set (mTripSessions (bta w)). counts_fit 250 (snd x)"
    by (simp add: r(2) demo_trip_def counts_fit_def covered_def)
  from trip_completion_exact [OF this c] r c show ?thesis
    by (auto simp: Let_def demo_trip_def covered_def)
qed

section \<open>A session from start to stop\<close>

lemma world_same: "bt_queue w = [] \<Longrightarrow> bt_calls w = [] \<Longrightarrow> w\<lparr>bt_queue := [], bt_calls := []\<rparr> = w"
  by (cases w) simp

definition registered_for :: "bt_options \<Rightarrow> bt_world \<Rightarrow> u64" where
  "registered_for os w =
     (if batchingMode os \<noteq> BATCHING_MODE_NO_AUTO_REPORT \<and> autoReportBatchingSessionsCount (bta w) = 0
      then bt_evt w OR LOC_API_ADAPTER_BIT_BATCH_FULL else bt_evt w)"

definition single_session :: "bt_options \<Rightarrow> bool" where
  "single_session os \<longleftrightarrow> opt_size os \<noteq> 0 \<and>
     (batchingMode os = BATCHING_MODE_ROUTINE \<or> batchingMode os = BATCHING_MODE_NO_AUTO_REPORT)"

lemma start_run:
  assumes "bt_queue w = []" "bt_calls w = []" "mIsEngineCapabilitiesKnown (bta w)" "hasBatchingCallback client (bta w)"
    and "single_session os" "isMessageSupported ctx LOC_API_ADAPTER_MESSAGE_DISTANCE_BASE_LOCATION_BATCHING"
    and "i = generateSessionId (bt_counter w)"
  shows "run_ops (bt_step ctx stale) (bt_answered (StartBatchingCommand client os) LOCATION_ERROR_SUCCESS a) w =
    Some ([[], [], [], bt_reportResponse client LOCATION_ERROR_SUCCESS i (bta w)],
      w\<lparr>bta := saveBatchingSession client i os (bta w), bt_evt := registered_for os w, bt_counter := i,
        bt_queue := [], bt_calls := []\<rparr>)"
  using assms
  by (simp add: bt_answered_def single_session_def bt_send_def start_batching_proc_def startBatching_def bt_call_api_def bt_upd_def
      Let_def session_start_done_def bt_reportResponse_def saveBatchingSession_def if_count_0_def bt_updateEvtMask_def registered_for_def)

definition unregistered_for :: "bt_options \<Rightarrow> bt_world \<Rightarrow> u64" where
  "unregistered_for flp w =
     (if batchingMode flp \<noteq> BATCHING_MODE_NO_AUTO_REPORT \<and> autoReportBatchingSessionsCount (bta w) = 0
      then bt_evt w AND NOT LOC_API_ADAPTER_BIT_BATCH_FULL else bt_evt w)"

lemma stop_run:
  assumes "bt_queue w = []" "bt_calls w = []" "mIsEngineCapabilitiesKnown (bta w)"
    and "om_find (mBatchingSessions (bta w)) (SessionKey client i) = Some flp" "om_find (mTripSessions (bta w)) i = None"
  shows "run_ops (bt_step ctx stale) (bt_answered (StopBatchingCommand client i) LOCATION_ERROR_SUCCESS a) w =
    Some ([[], [], [], bt_reportResponse client LOCATION_ERROR_SUCCESS i (bta w)],
      w\<lparr>bta := eraseBatchingSession client i (bta w),
        bt_evt := unregistered_for flp (w\<lparr>bta := eraseBatchingSession client i (bta w)\<rparr>), bt_queue := [], bt_calls := []\<rparr>)"
  using assms
  by (simp add: bt_answered_def bt_send_def stop_batching_proc_def isBatchingSession_def isTripSession_def stopBatching_def
      bt_call_api_def bt_upd_def Let_def session_stop_done_def bt_reportResponse_def eraseBatchingSession_def if_count_0_def
      bt_updateEvtMask_def unregistered_for_def)

lemma full_bit: "bit LOC_API_ADAPTER_BIT_BATCH_FULL n \<longleftrightarrow> n = 19"
  by (simp only: LOC_API_ADAPTER_BIT_BATCH_FULL_def bit_push_bit_iff bit_1_iff) auto

lemma full_off_on: "\<not> bit m 19 \<Longrightarrow> (m OR LOC_API_ADAPTER_BIT_BATCH_FULL) AND NOT LOC_API_ADAPTER_BIT_BATCH_FULL = m"
  by (rule bit_word_eqI) (auto simp: bit_or_iff bit_and_iff bit_not_iff full_bit)

text \<open>A session from start to stop: when a client with a callback starts a routine session (or one
without automatic reports) and stops it again, the engine accepting both, the client gets two
responses with the identifier of the session, and everything is as before: the sessions, the trips,
the pending messages, and the events the adapter is registered for.\<close>

theorem batching_session_roundtrip:
  assumes "bt_queue w = []" "bt_calls w = []" "mIsEngineCapabilitiesKnown (bta w)"
    and "om_find (mClientData (bta w)) client = Some c" "batchingCb c" "responseCb c"
    and "single_session os" "isMessageSupported ctx LOC_API_ADAPTER_MESSAGE_DISTANCE_BASE_LOCATION_BATCHING"
    and "i = generateSessionId (bt_counter w)" "om_ok (mBatchingSessions (bta w))"
    and "om_find (mBatchingSessions (bta w)) (SessionKey client i) = None" "om_find (mTripSessions (bta w)) i = None"
    and "few (bta w)" "batch_full w \<longleftrightarrow> interested (bta w)"
  shows "run_ops (bt_step ctx stale)
      (bt_answered (StartBatchingCommand client os) LOCATION_ERROR_SUCCESS a @
       bt_answered (StopBatchingCommand client i) LOCATION_ERROR_SUCCESS b) w =
    Some ([[], [], [], [ResponseCb client LOCATION_ERROR_SUCCESS i], [], [], [], [ResponseCb client LOCATION_ERROR_SUCCESS i]],
      w\<lparr>bt_counter := i\<rparr>)"
proof -
  let ?w1 = "w\<lparr>bta := saveBatchingSession client i os (bta w), bt_evt := registered_for os w, bt_counter := i,
      bt_queue := [], bt_calls := []\<rparr>"
  have cb: "hasBatchingCallback client (bta w)" using assms(4,5) by (simp add: hasBatchingCallback_def)
  note s1 = start_run [OF assms(1-3) cb assms(7-9), of stale a]
  have "om_find (mBatchingSessions (bta ?w1)) (SessionKey client i) = Some os" by (simp add: saveBatchingSession_def)
  moreover have "om_find (mTripSessions (bta ?w1)) i = None" "mIsEngineCapabilitiesKnown (bta ?w1)"
    using assms(3,12) by (simp_all add: saveBatchingSession_def)
  ultimately have s2: "run_ops (bt_step ctx stale) (bt_answered (StopBatchingCommand client i) LOCATION_ERROR_SUCCESS b) ?w1 =
    Some ([[], [], [], bt_reportResponse client LOCATION_ERROR_SUCCESS i (bta ?w1)],
      ?w1\<lparr>bta := eraseBatchingSession client i (bta ?w1),
        bt_evt := unregistered_for os (?w1\<lparr>bta := eraseBatchingSession client i (bta ?w1)\<rparr>), bt_queue := [], bt_calls := []\<rparr>)"
    by (intro stop_run) simp_all
  have a: "eraseBatchingSession client i (saveBatchingSession client i os (bta w)) = bta w"
    using om.erase_put [OF assms(10,11)] by (simp add: eraseBatchingSession_def saveBatchingSession_def)
  have e: "unregistered_for os (?w1\<lparr>bta := bta w\<rparr>) = bt_evt w"
    using assms(13,14) full_off_on [of "bt_evt w"]
    by (auto simp: unregistered_for_def registered_for_def count_0 batch_full_def)
  have r: "bt_reportResponse client LOCATION_ERROR_SUCCESS i (bta w) = [ResponseCb client LOCATION_ERROR_SUCCESS i]"
    "bt_reportResponse client LOCATION_ERROR_SUCCESS i (saveBatchingSession client i os (bta w)) = [ResponseCb client LOCATION_ERROR_SUCCESS i]"
    using assms(4,6) by (simp_all add: bt_reportResponse_def saveBatchingSession_def)
  have "?w1\<lparr>bta := eraseBatchingSession client i (bta ?w1),
        bt_evt := unregistered_for os (?w1\<lparr>bta := eraseBatchingSession client i (bta ?w1)\<rparr>), bt_queue := [], bt_calls := []\<rparr>
      = ?w1\<lparr>bta := bta w, bt_evt := bt_evt w, bt_queue := [], bt_calls := []\<rparr>"
    using e by (simp add: a)
  also have "\<dots> = w\<lparr>bt_counter := i\<rparr>" using assms(1,2) by (cases w) simp
  finally have "?w1\<lparr>bta := eraseBatchingSession client i (bta ?w1),
        bt_evt := unregistered_for os (?w1\<lparr>bta := eraseBatchingSession client i (bta ?w1)\<rparr>), bt_queue := [], bt_calls := []\<rparr>
      = w\<lparr>bt_counter := i\<rparr>" .
  then show ?thesis using run_ops_append [OF s1 s2] by (simp add: r)
qed

theorem batching_session_roundtrip_witness:
  "\<exists>outs w. run_ops (bt_step bt_context (\<lambda>_. no_trip)) bt_setup (bt_start 20 30 0 1) = Some (outs, w) \<and>
     run_ops (bt_step bt_context (\<lambda>_. no_trip))
       (bt_answered (StartBatchingCommand 1 (some_options BATCHING_MODE_ROUTINE 0 1000)) LOCATION_ERROR_SUCCESS 0 @
        bt_answered (StopBatchingCommand 1 2) LOCATION_ERROR_SUCCESS 0) w =
     Some ([[], [], [], [ResponseCb 1 LOCATION_ERROR_SUCCESS 2], [], [], [], [ResponseCb 1 LOCATION_ERROR_SUCCESS 2]],
       w\<lparr>bt_counter := 2\<rparr>)"
proof -
  have "case run_ops (bt_step bt_context (\<lambda>_. no_trip)) bt_setup (bt_start 20 30 0 1) of None \<Rightarrow> False
      | Some (outs, w) \<Rightarrow> bt_queue w = [] \<and> bt_calls w = [] \<and> mIsEngineCapabilitiesKnown (bta w) \<and>
          om_find (mClientData (bta w)) 1 = Some bt_callbacks \<and> bt_counter w = 1 \<and>
          mBatchingSessions (bta w) = [] \<and> mTripSessions (bta w) = [] \<and> \<not> batch_full w"
    by code_simp
  then obtain outs w where r: "run_ops (bt_step bt_context (\<lambda>_. no_trip)) bt_setup (bt_start 20 30 0 1) = Some (outs, w)"
      and w: "bt_queue w = []" "bt_calls w = []" "mIsEngineCapabilitiesKnown (bta w)"
        "om_find (mClientData (bta w)) 1 = Some bt_callbacks"
      and s: "bt_counter w = 1" "mBatchingSessions (bta w) = []" "mTripSessions (bta w) = []" "\<not> batch_full w"
    by (auto split: option.splits)
  have "isMessageSupported bt_context LOC_API_ADAPTER_MESSAGE_DISTANCE_BASE_LOCATION_BATCHING"
    "single_session (some_options BATCHING_MODE_ROUTINE 0 1000)" "2 = generateSessionId (bt_counter w)"
    unfolding s(1) by code_simp+
  from batching_session_roundtrip [OF w _ _ this(2,1,3), of "\<lambda>_. no_trip" 0 0] s r show ?thesis
    by (auto simp: bt_callbacks_def few_def interested_def)
qed

section \<open>Runs\<close>

text \<open>A trip leaves traces: after a client has started a trip and stopped it, the engine accepting
both, its session is still in the map of sessions, and the adapter is still registered for the
batch-full event: the trip counts twice, so the last one is not recognised.\<close>

theorem batching_trip_leaves_traces:
  "case run_ops (bt_step bt_context (\<lambda>_. no_trip)) (bt_setup @
      bt_answered (StartBatchingCommand 1 (some_options BATCHING_MODE_TRIP 500 1000)) LOCATION_ERROR_SUCCESS 0 @
      bt_answered (StopBatchingCommand 1 2) LOCATION_ERROR_SUCCESS 0) (bt_start 20 30 0 1) of
     None \<Rightarrow> False
   | Some (outs, w) \<Rightarrow> mTripSessions (bta w) = [] \<and> isBatchingSession 1 2 (bta w) \<and> batch_full w \<and>
       bt_queue w = [] \<and> bt_calls w = []"
  by code_simp

text \<open>Trips and undefined behaviour: when a client leaves whose trip was completed, or when a client
stops its only trip twice before the engine has answered, the adapter follows the end of its map of
trips.\<close>

theorem batching_undefined_runs:
  "run_ops (bt_step bt_context (\<lambda>_. no_trip)) (bt_setup @
      bt_answered (StartBatchingCommand 1 (some_options BATCHING_MODE_TRIP 500 1000)) LOCATION_ERROR_SUCCESS 0 @
      [ReportCompletedTripsEvent 600, BtProcNext, BtRemoveClientCommand 1 True, BtProcNext]) (bt_start 20 30 0 1) = None \<and>
   run_ops (bt_step bt_context (\<lambda>_. no_trip)) (bt_setup @
      bt_answered (StartBatchingCommand 1 (some_options BATCHING_MODE_TRIP 500 1000)) LOCATION_ERROR_SUCCESS 0 @
      [StopBatchingCommand 1 2, StopBatchingCommand 1 2, BtProcNext, BtProcNext,
       BtAnswer 0 LOCATION_ERROR_SUCCESS 0, BtAnswer 0 LOCATION_ERROR_SUCCESS 0, BtProcNext, BtProcNext]) (bt_start 20 30 0 1) = None"
  by (rule conjI; code_simp)

text \<open>A second trip: its start is answered with success, but its client can neither stop it (the
command has no effect and no answer) nor does its end come with the client; and the restart of the
batch for the second trip forgets what the first has covered: with 100 meters covered of 500 before
the restart and 450 after it the first trip is not completed.\<close>

theorem batching_second_trip:
  "case run_ops (bt_step bt_context (\<lambda>_. no_trip)) bt_demo (bt_start 20 30 0 1) of
     None \<Rightarrow> False
   | Some (outs, w) \<Rightarrow>
       (case run_ops (bt_step bt_context (\<lambda>_. no_trip)) [StopBatchingCommand 1 4, BtProcNext] w of None \<Rightarrow> False
        | Some (outs, w') \<Rightarrow> outs = [[], []] \<and> bta w' = bta w \<and> bt_calls w' = []) \<and>
       (case run_ops (bt_step bt_context (\<lambda>_. no_trip)) [ReportCompletedTripsEvent 450, BtProcNext] w of None \<Rightarrow> False
        | Some (outs, w') \<Rightarrow> concat outs = [BatchingStatusCb 1 BATCHING_STATUS_TRIP_COMPLETED [4]] \<and>
            map fst (mTripSessions (bta w')) = [3])"
  by code_simp

end
