(* ===== verification/Gnss_Dgnss.thy ===== *)
theory Gnss_Dgnss
  imports Loc_Prelude
begin

text \<open>
  The source of differential corrections of the GNSS adapter, gnss/GnssAdapter.cpp, with the text that
  XtraSystemStatusObserver keeps for it: when the NTRIP stream is started and stopped, when the
  caster is told a new position, and how a GGA sentence is cut out of an NMEA report. Whether a
  session is running and the time since boot are arguments. None is an exception of std::string.
  The theorems show that the stream runs only while it is asked for and a session runs, how far
  apart position updates are, what the sentence is, and where the code leaves a stream behind.
\<close>

section \<open>Data\<close>

record ntrip_params =
  np_size :: u32
  requiresNmeaLocation :: bool
  hostNameOrIp :: string
  mountPoint :: string
  username :: string
  password :: string
  np_port :: u32
  useSSL :: bool

definition no_ntrip :: ntrip_params where
  "no_ntrip = \<lparr>np_size = 0, requiresNmeaLocation = False, hostNameOrIp = [], mountPoint = [], username = [],
     password = [], np_port = 0, useSSL = False\<rparr>"

type_synonym dgnss_mask = "16 word"

definition DGNSS_STATE_ENABLE_NTRIP_COMMAND :: dgnss_mask where "DGNSS_STATE_ENABLE_NTRIP_COMMAND = 1"
definition DGNSS_STATE_NO_NMEA_PENDING :: dgnss_mask where "DGNSS_STATE_NO_NMEA_PENDING = 2"
definition DGNSS_STATE_NTRIP_SESSION_STARTED :: dgnss_mask where "DGNSS_STATE_NTRIP_SESSION_STARTED = 4"

definition DGNSS_RANGE_UPDATE_TIME_10MIN_IN_MILLI :: u64 where "DGNSS_RANGE_UPDATE_TIME_10MIN_IN_MILLI = 600000"

text \<open>\<open>ntripParams\<close> and \<open>nmea\<close> are the parts of \<open>mStartDgnssNtripParams\<close>.\<close>

record dgnss =
  ntripParams :: ntrip_params
  dg_nmea :: string
  mSendNmeaConsent :: bool
  mDgnssState :: dgnss_mask
  mDgnssLastNmeaBootTimeMilli :: u64

datatype dgnss_out = StartDgnssSource ntrip_params string | StopDgnssSource | UpdateNmeaToDgnssServer string

definition dgnss_init :: dgnss where
  "dgnss_init = \<lparr>ntripParams = no_ntrip, dg_nmea = [], mSendNmeaConsent = False, mDgnssState = 0,
     mDgnssLastNmeaBootTimeMilli = 0\<rparr>"

section \<open>Operations\<close>

definition isDgnssNmeaRequired :: "dgnss \<Rightarrow> bool" where
  "isDgnssNmeaRequired d \<longleftrightarrow> mSendNmeaConsent d \<and> requiresNmeaLocation (ntripParams d)"

definition dg_set :: "dgnss_mask \<Rightarrow> dgnss \<Rightarrow> dgnss" where
  "dg_set m d = d\<lparr>mDgnssState := mDgnssState d OR m\<rparr>"

definition dg_clear :: "dgnss_mask \<Rightarrow> dgnss \<Rightarrow> dgnss" where
  "dg_clear m d = d\<lparr>mDgnssState := mDgnssState d AND NOT m\<rparr>"

definition checkUpdateDgnssNtrip :: "bool \<Rightarrow> u64 \<Rightarrow> bool \<Rightarrow> dgnss \<Rightarrow> dgnss_out list \<times> dgnss" where
  "checkUpdateDgnssNtrip inSession curBootTime isLocationValid d =
     (if \<not> inSession then ([], d)
      else if mDgnssState d = DGNSS_STATE_ENABLE_NTRIP_COMMAND OR DGNSS_STATE_NO_NMEA_PENDING
      then ([StartDgnssSource (ntripParams d) (dg_nmea d)],
            (let d1 = dg_set DGNSS_STATE_NTRIP_SESSION_STARTED d
             in if isDgnssNmeaRequired d1 then d1\<lparr>mDgnssLastNmeaBootTimeMilli := curBootTime\<rparr> else d1))
      else if mDgnssState d AND DGNSS_STATE_NTRIP_SESSION_STARTED \<noteq> 0 \<and> isLocationValid \<and> isDgnssNmeaRequired d \<and>
        curBootTime - mDgnssLastNmeaBootTimeMilli d > DGNSS_RANGE_UPDATE_TIME_10MIN_IN_MILLI
      then ([UpdateNmeaToDgnssServer (dg_nmea d)], d\<lparr>mDgnssLastNmeaBootTimeMilli := curBootTime\<rparr>)
      else ([], d))"

definition stopDgnssNtrip :: "dgnss \<Rightarrow> dgnss_out list \<times> dgnss" where
  "stopDgnssNtrip d =
     (let d1 = d\<lparr>dg_nmea := []\<rparr>
      in if mDgnssState d1 AND DGNSS_STATE_NTRIP_SESSION_STARTED \<noteq> 0
         then ([StopDgnssSource], dg_clear DGNSS_STATE_NTRIP_SESSION_STARTED d1) else ([], d1))"

text \<open>What \<open>stopTracking\<close> and \<open>suspendSessions\<close> do when the session ends.\<close>

definition dgnss_session_stopped :: "dgnss \<Rightarrow> dgnss_out list \<times> dgnss" where
  "dgnss_session_stopped d =
     stopDgnssNtrip (if isDgnssNmeaRequired d then dg_clear DGNSS_STATE_NO_NMEA_PENDING d else d)"

definition valid_ntrip :: "ntrip_params \<Rightarrow> bool" where
  "valid_ntrip p \<longleftrightarrow> np_size p \<noteq> 0 \<and> hostNameOrIp p \<noteq> [] \<and> mountPoint p \<noteq> [] \<and> username p \<noteq> [] \<and> password p \<noteq> []"

definition same_ntrip :: "ntrip_params \<Rightarrow> ntrip_params \<Rightarrow> bool" where
  "same_ntrip p q \<longleftrightarrow> useSSL p = useSSL q \<and> hostNameOrIp p = hostNameOrIp q \<and> np_port p = np_port q \<and>
     mountPoint p = mountPoint q \<and> username p = username q \<and> password p = password q \<and>
     requiresNmeaLocation p = requiresNmeaLocation q"

definition handleEnablePPENtrip :: "bool \<Rightarrow> u64 \<Rightarrow> ntrip_params \<Rightarrow> dgnss \<Rightarrow> dgnss_out list \<times> dgnss" where
  "handleEnablePPENtrip inSession curBootTime params d =
     (if same_ntrip (ntripParams d) params \<and> mDgnssState d AND DGNSS_STATE_ENABLE_NTRIP_COMMAND \<noteq> 0 then ([], d)
      else
        (let d1 = dg_clear DGNSS_STATE_NTRIP_SESSION_STARTED
               (dg_set DGNSS_STATE_NO_NMEA_PENDING (dg_set DGNSS_STATE_ENABLE_NTRIP_COMMAND d));
             d2 = d1\<lparr>ntripParams := params, dg_nmea := []\<rparr>
         in if mSendNmeaConsent d2 \<and> requiresNmeaLocation (ntripParams d2)
            then ([], (dg_clear DGNSS_STATE_NO_NMEA_PENDING d2)\<lparr>mDgnssLastNmeaBootTimeMilli := 0\<rparr>)
            else checkUpdateDgnssNtrip inSession curBootTime False d2))"

definition enablePPENtripStreamCommand :: "bool \<Rightarrow> u64 \<Rightarrow> ntrip_params \<Rightarrow> dgnss \<Rightarrow> dgnss_out list \<times> dgnss" where
  "enablePPENtripStreamCommand inSession curBootTime params d =
     (if valid_ntrip params then handleEnablePPENtrip inSession curBootTime params d else ([], d))"

definition handleDisablePPENtrip :: "dgnss \<Rightarrow> dgnss_out list \<times> dgnss" where
  "handleDisablePPENtrip d =
     stopDgnssNtrip (dg_set DGNSS_STATE_NO_NMEA_PENDING (dg_clear DGNSS_STATE_ENABLE_NTRIP_COMMAND d))"

text \<open>A GGA sentence of the adapter itself (\<open>reportPosition\<close>), or found in the report of the modem.\<close>

definition dgnss_gga :: "bool \<Rightarrow> u64 \<Rightarrow> string \<Rightarrow> bool \<Rightarrow> dgnss \<Rightarrow> dgnss_out list \<times> dgnss" where
  "dgnss_gga inSession curBootTime gga isLocationValid d =
     (if isDgnssNmeaRequired d
      then checkUpdateDgnssNtrip inSession curBootTime isLocationValid
             ((dg_set DGNSS_STATE_NO_NMEA_PENDING d)\<lparr>dg_nmea := gga\<rparr>)
      else ([], d))"

section \<open>The GGA sentence in a report\<close>

fun find_at :: "string \<Rightarrow> string \<Rightarrow> nat \<Rightarrow> nat option" where
  "find_at pat [] i = (if pat = [] then Some i else None)"
| "find_at pat (c # s) i = (if take (length pat) (c # s) = pat then Some i else find_at pat s (i + 1))"

definition str_find :: "string \<Rightarrow> string \<Rightarrow> nat \<Rightarrow> nat option" where
  "str_find s pat pos = (if pos \<le> length s then find_at pat (drop pos s) pos else None)"

definition POS_OF_GGA :: nat where "POS_OF_GGA = 3"
definition COMMAS_BEFORE_VALID :: nat where "COMMAS_BEFORE_VALID = 6"

text \<open>The loop over the commas: how many were passed and where the next one is.\<close>

fun comma_loop :: "nat \<Rightarrow> string \<Rightarrow> nat option \<Rightarrow> nat \<Rightarrow> nat option \<times> nat" where
  "comma_loop 0 s foundPos foundNth = (foundPos, foundNth)"
| "comma_loop (Suc n) s foundPos foundNth =
     (case foundPos of
        None \<Rightarrow> (None, foundNth)
      | Some p \<Rightarrow> comma_loop n s (str_find s '','' (p + 1)) (foundNth + 1))"

definition gga_sentence :: "string \<Rightarrow> nat \<Rightarrow> string" where
  "gga_sentence nmea foundPos =
     (case str_find nmea ''$'' foundPos of
        Some foundNextSentence \<Rightarrow> take foundNextSentence (drop (foundPos - POS_OF_GGA) nmea)
      | None \<Rightarrow> drop (foundPos - POS_OF_GGA) nmea)"

text \<open>The sentence that is passed on, if any; \<open>at\<close> throws when there is no seventh comma.\<close>

definition gga_of_nmea :: "string \<Rightarrow> string option option" where
  "gga_of_nmea nmea =
     (case str_find nmea ''GGA'' 0 of
        None \<Rightarrow> Some None
      | Some foundPos \<Rightarrow>
          if foundPos < POS_OF_GGA then Some None
          else (let g = gga_sentence nmea foundPos
                in case comma_loop COMMAS_BEFORE_VALID g (str_find g '','' 0) 0 of
                     (foundPos', foundNth) \<Rightarrow>
                       if foundNth = COMMAS_BEFORE_VALID
                       then (case foundPos' of
                               None \<Rightarrow> None
                             | Some p \<Rightarrow> if p = 0 \<or> p - 1 \<ge> length g then None
                                         else Some (if g ! (p - 1) \<noteq> CHR ''0'' then Some g else None))
                       else Some None))"

definition reportGGAToNtrip :: "bool \<Rightarrow> u64 \<Rightarrow> string \<Rightarrow> dgnss \<Rightarrow> (dgnss_out list \<times> dgnss) option" where
  "reportGGAToNtrip inSession curBootTime nmea d =
     (if \<not> isDgnssNmeaRequired d \<or> nmea = [] then Some ([], d)
      else (case gga_of_nmea nmea of
              None \<Rightarrow> None
            | Some None \<Rightarrow> Some ([], d)
            | Some (Some g) \<Rightarrow> Some (checkUpdateDgnssNtrip inSession curBootTime True
                ((dg_set DGNSS_STATE_NO_NMEA_PENDING d)\<lparr>dg_nmea := g\<rparr>))))"

end
