(* ===== verification/Gnss_Odcpi.thy ===== *)
theory Gnss_Odcpi
  imports Loc_Prelude
begin

text \<open>
  The requests of the modem for positions of the framework (ODCPI) in gnss/GnssAdapter.cpp, with the
  timer that keeps the framework from being asked too often (\<open>OdcpiTimer\<close> in GnssAdapter.h). Events
  come from the modem and from the timer thread as messages. None is the call of an empty callback.
  The theorems show that a request that is in force is not forgotten, and bound the number of
  requests that reach the framework.
\<close>

section \<open>Data\<close>

definition ODCPI_REQUEST_TYPE_START :: u32 where "ODCPI_REQUEST_TYPE_START = 0"
definition ODCPI_REQUEST_TYPE_STOP :: u32 where "ODCPI_REQUEST_TYPE_STOP = 1"

record odcpi_request =
  rq_type :: u32
  tbfMillis :: u32
  isEmergencyMode :: bool

definition ODCPI_HANDLER_PRIORITY_LOW :: u32 where "ODCPI_HANDLER_PRIORITY_LOW = 0"
definition ODCPI_HANDLER_PRIORITY_HIGH :: u32 where "ODCPI_HANDLER_PRIORITY_HIGH = 1"

text \<open>The timer has a flag of its own beside the timer of LocTimer, which may have run out already.\<close>

record odcpi =
  mOdcpiRequestCb :: "nat option"
  mOdcpiRequestActive :: bool
  mCallbackPriority :: u32
  mActive :: bool
  odcpi_armed :: bool
  mOdcpiRequest :: odcpi_request

datatype odcpi_out = OdcpiRequestCb nat odcpi_request

definition odcpi_init :: odcpi where
  "odcpi_init = \<lparr>mOdcpiRequestCb = None, mOdcpiRequestActive = False, mCallbackPriority = ODCPI_HANDLER_PRIORITY_LOW,
     mActive = False, odcpi_armed = False,
     mOdcpiRequest = \<lparr>rq_type = 0, tbfMillis = 0, isEmergencyMode = False\<rparr>\<rparr>"

section \<open>The timer\<close>

definition odcpi_start :: "odcpi \<Rightarrow> odcpi" where
  "odcpi_start d = d\<lparr>mActive := True, odcpi_armed := True\<rparr>"

definition odcpi_stop :: "odcpi \<Rightarrow> odcpi" where
  "odcpi_stop d = d\<lparr>mActive := False, odcpi_armed := False\<rparr>"

definition odcpi_restart :: "odcpi \<Rightarrow> odcpi" where
  "odcpi_restart d = odcpi_start (odcpi_stop d)"

section \<open>Operations\<close>

definition requestOdcpi :: "odcpi_request \<Rightarrow> odcpi \<Rightarrow> odcpi_out list \<times> odcpi" where
  "requestOdcpi request d =
     (case mOdcpiRequestCb d of
        None \<Rightarrow> ([], d)
      | Some cb \<Rightarrow>
          if rq_type request = ODCPI_REQUEST_TYPE_START then
            (let (outs, d1) =
               (if \<not> mOdcpiRequestActive d \<and> \<not> mActive d
                then ([OdcpiRequestCb cb request], odcpi_start (d\<lparr>mOdcpiRequestActive := True\<rparr>))
                else if \<not> isEmergencyMode (mOdcpiRequest d) \<and> isEmergencyMode request
                then ([OdcpiRequestCb cb request],
                  (if mActive d then odcpi_restart (d\<lparr>mOdcpiRequestActive := True\<rparr>)
                   else odcpi_start (d\<lparr>mOdcpiRequestActive := True\<rparr>)))
                else if \<not> mOdcpiRequestActive d \<and> mActive d then ([], d\<lparr>mOdcpiRequestActive := True\<rparr>)
                else ([], d))
             in (outs, d1\<lparr>mOdcpiRequest := request\<rparr>))
          else if rq_type request = ODCPI_REQUEST_TYPE_STOP
          then ([OdcpiRequestCb cb request], d\<lparr>mOdcpiRequestActive := False\<rparr>)
          else ([], d))"

text \<open>The handler with the higher priority; whether the adapter registers for requests is returned.\<close>

definition initOdcpi :: "nat option \<Rightarrow> u32 \<Rightarrow> odcpi \<Rightarrow> bool \<times> odcpi" where
  "initOdcpi callback priority d =
     (if priority \<ge> mCallbackPriority d
      then (True, d\<lparr>mOdcpiRequestCb := callback, mCallbackPriority := priority\<rparr>) else (False, d))"

definition odcpiTimerExpire :: "odcpi \<Rightarrow> (odcpi_out list \<times> odcpi) option" where
  "odcpiTimerExpire d =
     (if mOdcpiRequestActive d
      then (case mOdcpiRequestCb d of
              None \<Rightarrow> None
            | Some cb \<Rightarrow> Some ([OdcpiRequestCb cb (mOdcpiRequest d)], odcpi_restart d))
      else Some ([], odcpi_stop d))"

text \<open>\<open>restartSessions(true)\<close>, after the modem was restarted.\<close>

definition odcpi_modem_restarted :: "odcpi \<Rightarrow> odcpi" where
  "odcpi_modem_restarted d = d\<lparr>mOdcpiRequestActive := False\<rparr>"

section \<open>Messages\<close>

datatype odcpi_msg = MsgRequestOdcpi odcpi_request | MsgInitOdcpi "nat option" u32 | MsgOdcpiTimerExpire

fun odcpi_proc :: "odcpi_msg \<Rightarrow> odcpi \<Rightarrow> (odcpi_out list \<times> odcpi) option" where
  "odcpi_proc (MsgRequestOdcpi request) d = Some (requestOdcpi request d)"
| "odcpi_proc (MsgInitOdcpi callback priority) d = Some ([], snd (initOdcpi callback priority d))"
| "odcpi_proc MsgOdcpiTimerExpire d = odcpiTimerExpire d"

record odcpi_world =
  odw :: odcpi
  odcpi_queue :: "odcpi_msg list"

datatype odcpi_op =
    RequestOdcpiEvent odcpi_request
  | InitOdcpiCommand "nat option" u32
  | OdcpiTimerFires
  | ModemRestarted
  | OdcpiProcNext

fun odcpi_step :: "odcpi_op \<Rightarrow> odcpi_world \<Rightarrow> (odcpi_out list \<times> odcpi_world) option" where
  "odcpi_step (RequestOdcpiEvent request) w = Some ([], w\<lparr>odcpi_queue := odcpi_queue w @ [MsgRequestOdcpi request]\<rparr>)"
| "odcpi_step (InitOdcpiCommand callback priority) w =
     Some ([], w\<lparr>odcpi_queue := odcpi_queue w @ [MsgInitOdcpi callback priority]\<rparr>)"
| "odcpi_step OdcpiTimerFires w =
     Some ([], if odcpi_armed (odw w)
        then w\<lparr>odw := (odw w)\<lparr>odcpi_armed := False\<rparr>, odcpi_queue := odcpi_queue w @ [MsgOdcpiTimerExpire]\<rparr> else w)"
| "odcpi_step ModemRestarted w = Some ([], w\<lparr>odw := odcpi_modem_restarted (odw w)\<rparr>)"
| "odcpi_step OdcpiProcNext w =
     (case odcpi_queue w of
        [] \<Rightarrow> Some ([], w)
      | m # ms \<Rightarrow> map_option (\<lambda>(outs, d). (outs, w\<lparr>odw := d, odcpi_queue := ms\<rparr>)) (odcpi_proc m (odw w)))"

definition odcpi_world_init :: odcpi_world where
  "odcpi_world_init = \<lparr>odw = odcpi_init, odcpi_queue = []\<rparr>"

section \<open>A request is not forgotten\<close>

text \<open>While a request is in force there is a handler, and the timer runs or its message is on the way.\<close>

definition odcpi_ok :: "odcpi \<Rightarrow> bool" where
  "odcpi_ok d \<longleftrightarrow> (mOdcpiRequestActive d \<longrightarrow> mActive d \<and> mOdcpiRequestCb d \<noteq> None \<and>
     rq_type (mOdcpiRequest d) = ODCPI_REQUEST_TYPE_START)"

definition odcpi_inv :: "odcpi_world \<Rightarrow> bool" where
  "odcpi_inv w \<longleftrightarrow> odcpi_ok (odw w) \<and>
     (\<forall>p. MsgInitOdcpi None p \<notin> set (odcpi_queue w)) \<and>
     (mActive (odw w) \<longrightarrow> odcpi_armed (odw w) \<or> MsgOdcpiTimerExpire \<in> set (odcpi_queue w))"

lemmas odcpi_defs = requestOdcpi_def odcpi_start_def odcpi_stop_def odcpi_restart_def odcpiTimerExpire_def
  initOdcpi_def odcpi_modem_restarted_def

lemma odcpi_proc_ok:
  assumes "odcpi_ok d" and "\<forall>p. m \<noteq> MsgInitOdcpi None p"
  shows "\<exists>outs d'. odcpi_proc m d = Some (outs, d') \<and> odcpi_ok d' \<and>
    (mActive d' \<longrightarrow> odcpi_armed d' \<or> m \<noteq> MsgOdcpiTimerExpire \<and> mActive d \<and> odcpi_armed d' = odcpi_armed d)"
proof (cases m)
  case (MsgRequestOdcpi r)
  show ?thesis
  proof (cases "mOdcpiRequestCb d")
    case None
    with assms(1) MsgRequestOdcpi show ?thesis by (auto simp: odcpi_defs odcpi_ok_def)
  next
    case (Some cb)
    have n: "ODCPI_REQUEST_TYPE_STOP \<noteq> ODCPI_REQUEST_TYPE_START"
      by (simp add: ODCPI_REQUEST_TYPE_STOP_def ODCPI_REQUEST_TYPE_START_def)
    from Some assms(1) MsgRequestOdcpi n show ?thesis by (auto simp: odcpi_defs odcpi_ok_def Let_def)
  qed
next
  case (MsgInitOdcpi cb p)
  with assms show ?thesis by (cases cb) (auto simp: odcpi_defs odcpi_ok_def)
next
  case MsgOdcpiTimerExpire
  with assms(1) show ?thesis by (auto simp: odcpi_defs odcpi_ok_def split: option.splits)
qed

lemma odcpi_step_inv:
  assumes "odcpi_inv w" and "\<forall>p. x \<noteq> InitOdcpiCommand None p"
  shows "\<exists>outs w'. odcpi_step x w = Some (outs, w') \<and> odcpi_inv w'"
proof (cases x)
  case (InitOdcpiCommand cb p)
  with assms show ?thesis by (auto simp: odcpi_inv_def)
next
  case OdcpiProcNext
  show ?thesis
  proof (cases "odcpi_queue w")
    case Nil
    with OdcpiProcNext assms(1) show ?thesis by simp
  next
    case (Cons m ms)
    with assms(1) have "odcpi_ok (odw w)" "\<forall>p. m \<noteq> MsgInitOdcpi None p" by (auto simp: odcpi_inv_def)
    from odcpi_proc_ok [OF this] obtain outs d where d: "odcpi_proc m (odw w) = Some (outs, d)" "odcpi_ok d"
      "mActive d \<longrightarrow> odcpi_armed d \<or> m \<noteq> MsgOdcpiTimerExpire \<and> mActive (odw w) \<and> odcpi_armed d = odcpi_armed (odw w)"
      by blast
    with OdcpiProcNext Cons assms(1) show ?thesis by (auto simp: odcpi_inv_def)
  qed
qed (use assms(1) in \<open>auto simp: odcpi_inv_def odcpi_ok_def odcpi_defs\<close>)

lemma odcpi_run_inv:
  "odcpi_inv w \<Longrightarrow> \<forall>p. InitOdcpiCommand None p \<notin> set xs \<Longrightarrow> \<exists>outs w'. run_ops odcpi_step xs w = Some (outs, w') \<and> odcpi_inv w'"
proof (induction xs arbitrary: w)
  case (Cons x xs)
  then have "\<forall>p. x \<noteq> InitOdcpiCommand None p" by auto
  from odcpi_step_inv [OF Cons.prems(1) this] obtain outs w1 where "odcpi_step x w = Some (outs, w1)" "odcpi_inv w1" by blast
  with Cons.IH [of w1] Cons.prems(2) show ?case by fastforce
qed simp

text \<open>C32. If every handler that is set is a function, no run calls an empty one, and a request that
is in force is kept: it is a start request, its timer is marked as active, and either the timer runs
or its message, which asks the framework again, is in the queue.\<close>

theorem odcpi_request_kept:
  assumes "\<forall>p. InitOdcpiCommand None p \<notin> set xs"
  shows "\<exists>outs w. run_ops odcpi_step xs odcpi_world_init = Some (outs, w) \<and>
    (mOdcpiRequestActive (odw w) \<longrightarrow> mActive (odw w) \<and> mOdcpiRequestCb (odw w) \<noteq> None \<and>
       rq_type (mOdcpiRequest (odw w)) = ODCPI_REQUEST_TYPE_START) \<and>
    (mActive (odw w) \<longrightarrow> odcpi_armed (odw w) \<or> MsgOdcpiTimerExpire \<in> set (odcpi_queue w))"
proof -
  have "odcpi_inv odcpi_world_init" by (simp add: odcpi_inv_def odcpi_world_init_def odcpi_init_def odcpi_ok_def)
  from odcpi_run_inv [OF this assms] show ?thesis by (auto simp: odcpi_inv_def odcpi_ok_def)
qed

definition start_request :: "bool \<Rightarrow> odcpi_request" where
  "start_request e = \<lparr>rq_type = ODCPI_REQUEST_TYPE_START, tbfMillis = 1000, isEmergencyMode = e\<rparr>"

definition stop_request :: odcpi_request where
  "stop_request = \<lparr>rq_type = ODCPI_REQUEST_TYPE_STOP, tbfMillis = 0, isEmergencyMode = False\<rparr>"

definition odcpi_demo :: "odcpi_op list" where
  "odcpi_demo = [InitOdcpiCommand (Some 7) 0, OdcpiProcNext, RequestOdcpiEvent (start_request False), OdcpiProcNext,
     OdcpiTimerFires]"

lemma odcpi_request_kept_witness:
  "\<exists>outs w. run_ops odcpi_step odcpi_demo odcpi_world_init = Some (outs, w) \<and> mActive (odw w) \<and>
     MsgOdcpiTimerExpire \<in> set (odcpi_queue w)"
proof -
  have c: "\<forall>p. InitOdcpiCommand None p \<notin> set odcpi_demo" by (simp add: odcpi_demo_def)
  have "case run_ops odcpi_step odcpi_demo odcpi_world_init of None \<Rightarrow> False
    | Some (outs, w) \<Rightarrow> mActive (odw w) \<and> \<not> odcpi_armed (odw w)" by code_simp
  with odcpi_request_kept [OF c] show ?thesis by (auto split: option.splits)
qed

section \<open>How often the framework is asked\<close>

definition is_start :: "odcpi_out \<Rightarrow> bool" where
  "is_start x = (case x of OdcpiRequestCb cb r \<Rightarrow> rq_type r = ODCPI_REQUEST_TYPE_START)"

definition starts :: "odcpi_out list \<Rightarrow> nat" where
  "starts outs = length (filter is_start outs)"

fun msg_weight :: "odcpi_msg \<Rightarrow> nat" where
  "msg_weight (MsgRequestOdcpi r) = (if rq_type r = ODCPI_REQUEST_TYPE_START \<and> isEmergencyMode r then 1 else 0)"
| "msg_weight (MsgInitOdcpi cb p) = 0"
| "msg_weight MsgOdcpiTimerExpire = 1"

fun op_weight :: "odcpi_op \<Rightarrow> nat" where
  "op_weight (RequestOdcpiEvent r) = (if rq_type r = ODCPI_REQUEST_TYPE_START \<and> isEmergencyMode r then 1 else 0)"
| "op_weight OdcpiTimerFires = 1"
| "op_weight x = 0"

definition odcpi_credit :: "odcpi_world \<Rightarrow> nat" where
  "odcpi_credit w = (if mActive (odw w) then 0 else 1) + sum_list (map msg_weight (odcpi_queue w))"

lemma odcpi_proc_starts:
  assumes "odcpi_proc m d = Some (outs, d')"
  shows "starts outs + (if mActive d' then 0 else 1) \<le> (if mActive d then 0 else 1) + msg_weight m"
proof (cases m)
  case (MsgRequestOdcpi r)
  have n: "ODCPI_REQUEST_TYPE_STOP \<noteq> ODCPI_REQUEST_TYPE_START"
    by (simp add: ODCPI_REQUEST_TYPE_STOP_def ODCPI_REQUEST_TYPE_START_def)
  with assms MsgRequestOdcpi show ?thesis
    by (auto simp: odcpi_defs starts_def is_start_def Let_def split: option.splits if_splits)
next
  case (MsgInitOdcpi cb p)
  with assms show ?thesis by (auto simp: odcpi_defs starts_def split: if_splits)
next
  case MsgOdcpiTimerExpire
  with assms show ?thesis
    by (auto simp: odcpi_defs starts_def is_start_def split: option.splits if_splits)
qed

lemma odcpi_step_starts:
  assumes "odcpi_step x w = Some (outs, w')"
  shows "starts outs + odcpi_credit w' \<le> odcpi_credit w + op_weight x"
proof (cases x)
  case OdcpiProcNext
  show ?thesis
  proof (cases "odcpi_queue w")
    case (Cons m ms)
    with assms OdcpiProcNext obtain d where "odcpi_proc m (odw w) = Some (outs, d)" "w' = w\<lparr>odw := d, odcpi_queue := ms\<rparr>"
      by auto
    with odcpi_proc_starts [OF this(1)] Cons show ?thesis by (simp add: odcpi_credit_def)
  qed (use assms OdcpiProcNext in \<open>auto simp: starts_def\<close>)
qed (use assms in \<open>auto simp: odcpi_credit_def starts_def odcpi_defs\<close>)

lemma odcpi_run_starts:
  "run_ops odcpi_step xs w = Some (outs, w') \<Longrightarrow> starts (concat outs) + odcpi_credit w' \<le> odcpi_credit w + sum_list (map op_weight xs)"
proof (induction xs arbitrary: w outs)
  case (Cons x xs)
  then obtain o1 w1 os where r: "odcpi_step x w = Some (o1, w1)" "run_ops odcpi_step xs w1 = Some (os, w')" "outs = o1 # os"
    by (auto split: option.splits)
  from Cons.IH [OF r(2)] odcpi_step_starts [OF r(1)] r(3) show ?case by (simp add: starts_def)
qed (simp add: starts_def)

text \<open>However quickly start and stop requests of the modem follow each other, the framework is
asked to start at most once more than the timer has run out and emergency requests have come.\<close>

theorem odcpi_starts_bounded:
  assumes "run_ops odcpi_step xs odcpi_world_init = Some (outs, w)"
  shows "starts (concat outs) \<le> 1 + length (filter (\<lambda>x. x = OdcpiTimerFires) xs) +
    length (filter (\<lambda>x. case x of RequestOdcpiEvent r \<Rightarrow> rq_type r = ODCPI_REQUEST_TYPE_START \<and> isEmergencyMode r | _ \<Rightarrow> False) xs)"
proof -
  have "sum_list (map op_weight xs) = length (filter (\<lambda>x. x = OdcpiTimerFires) xs) +
    length (filter (\<lambda>x. case x of RequestOdcpiEvent r \<Rightarrow> rq_type r = ODCPI_REQUEST_TYPE_START \<and> isEmergencyMode r | _ \<Rightarrow> False) xs)"
  proof (induction xs)
    case (Cons x xs)
    then show ?case by (cases x) auto
  qed simp
  moreover have "odcpi_credit odcpi_world_init = 1" by (simp add: odcpi_credit_def odcpi_world_init_def odcpi_init_def)
  ultimately show ?thesis using odcpi_run_starts [OF assms] by simp
qed

lemma odcpi_starts_bounded_witness:
  "\<exists>outs w. run_ops odcpi_step (odcpi_demo @ [OdcpiProcNext]) odcpi_world_init = Some (outs, w) \<and> starts (concat outs) \<le> 2"
proof -
  obtain outs w where r: "run_ops odcpi_step (odcpi_demo @ [OdcpiProcNext]) odcpi_world_init = Some (outs, w)"
  proof -
    have "run_ops odcpi_step (odcpi_demo @ [OdcpiProcNext]) odcpi_world_init \<noteq> None" by code_simp
    with that show thesis by auto
  qed
  from odcpi_starts_bounded [OF r] have "starts (concat outs) \<le> 2" by (simp add: odcpi_demo_def start_request_def)
  with r show ?thesis by blast
qed

text \<open>Two runs. An emergency request that follows an emergency session which has ended is not passed
on until the timer runs out; and a handler that is replaced by none while a request is in force is
called when the timer runs out.\<close>

theorem odcpi_emergency_delayed:
  "map_option (concat \<circ> fst) (run_ops odcpi_step
     [InitOdcpiCommand (Some 7) 0, RequestOdcpiEvent (start_request True), RequestOdcpiEvent stop_request,
      RequestOdcpiEvent (start_request True), OdcpiProcNext, OdcpiProcNext, OdcpiProcNext, OdcpiProcNext] odcpi_world_init) =
     Some [OdcpiRequestCb 7 (start_request True), OdcpiRequestCb 7 stop_request] \<and>
   run_ops odcpi_step (odcpi_demo @ [InitOdcpiCommand None 1, OdcpiProcNext, OdcpiProcNext,
      OdcpiTimerFires, OdcpiProcNext]) odcpi_world_init = None"
  by (rule conjI; code_simp)

end
