(* ===== verification/Gnss_Sv_Config.thy ===== *)
theory Gnss_Sv_Config
  imports Loc_Prelude
begin

text \<open>
  The configuration of satellites and constellations of the GNSS adapter, gnss/GnssAdapter.cpp: the
  list of excluded satellites as masks of 64 bits and back, and what the engine is told when
  constellations are switched. The calls of the engine are returned in their order. None is a
  shift by 64 or more. The theorems show which bit stands for which satellite, that masks are
  read back as they were, what the engine gets, and where it gets an outdated configuration.
\<close>

section \<open>Data\<close>

datatype sv_type =
    GNSS_SV_TYPE_UNKNOWN | GNSS_SV_TYPE_GPS | GNSS_SV_TYPE_SBAS | GNSS_SV_TYPE_GLONASS
  | GNSS_SV_TYPE_QZSS | GNSS_SV_TYPE_BEIDOU | GNSS_SV_TYPE_GALILEO | GNSS_SV_TYPE_NAVIC

record sv_source =
  src_size :: u32
  constellation :: sv_type
  svId :: u32

record sv_id_config =
  cfg_size :: u32
  gloBlacklistSvMask :: u64
  bdsBlacklistSvMask :: u64
  qzssBlacklistSvMask :: u64
  galBlacklistSvMask :: u64
  sbasBlacklistSvMask :: u64
  navicBlacklistSvMask :: u64

definition SIZEOF_SV_ID_SOURCE :: u32 where "SIZEOF_SV_ID_SOURCE = 12"
definition SIZEOF_SV_ID_CONFIG :: u32 where "SIZEOF_SV_ID_CONFIG = 56"

definition no_sv_ids :: sv_id_config where
  "no_sv_ids = \<lparr>cfg_size = 0, gloBlacklistSvMask = 0, bdsBlacklistSvMask = 0, qzssBlacklistSvMask = 0,
     galBlacklistSvMask = 0, sbasBlacklistSvMask = 0, navicBlacklistSvMask = 0\<rparr>"

definition ALL_BITS :: u64 where "ALL_BITS = 0xFFFFFFFFFFFFFFFF"

definition GLO_INITIAL_SV_ID :: u32 where "GLO_INITIAL_SV_ID = 65"
definition BDS_INITIAL_SV_ID :: u32 where "BDS_INITIAL_SV_ID = 201"
definition QZSS_INITIAL_SV_ID :: u32 where "QZSS_INITIAL_SV_ID = 193"
definition GAL_INITIAL_SV_ID :: u32 where "GAL_INITIAL_SV_ID = 301"
definition SBAS_INITIAL_SV_ID :: u32 where "SBAS_INITIAL_SV_ID = 120"
definition SBAS_INITIAL_SV_LENGTH :: u32 where "SBAS_INITIAL_SV_LENGTH = 39"
definition SBAS_INITIAL2_SV_ID :: u32 where "SBAS_INITIAL2_SV_ID = 183"
definition NAVIC_INITIAL_SV_ID :: u32 where "NAVIC_INITIAL_SV_ID = 401"

lemmas sv_ids = GLO_INITIAL_SV_ID_def BDS_INITIAL_SV_ID_def QZSS_INITIAL_SV_ID_def GAL_INITIAL_SV_ID_def
  SBAS_INITIAL_SV_ID_def SBAS_INITIAL_SV_LENGTH_def SBAS_INITIAL2_SV_ID_def NAVIC_INITIAL_SV_ID_def

section \<open>From a list to masks\<close>

text \<open>The field that \<open>svMaskPtr\<close> points to.\<close>

fun get_mask :: "sv_type \<Rightarrow> sv_id_config \<Rightarrow> u64" where
  "get_mask GNSS_SV_TYPE_GLONASS c = gloBlacklistSvMask c"
| "get_mask GNSS_SV_TYPE_BEIDOU c = bdsBlacklistSvMask c"
| "get_mask GNSS_SV_TYPE_QZSS c = qzssBlacklistSvMask c"
| "get_mask GNSS_SV_TYPE_GALILEO c = galBlacklistSvMask c"
| "get_mask GNSS_SV_TYPE_SBAS c = sbasBlacklistSvMask c"
| "get_mask GNSS_SV_TYPE_NAVIC c = navicBlacklistSvMask c"
| "get_mask _ c = 0"

fun set_mask :: "sv_type \<Rightarrow> u64 \<Rightarrow> sv_id_config \<Rightarrow> sv_id_config" where
  "set_mask GNSS_SV_TYPE_GLONASS m c = c\<lparr>gloBlacklistSvMask := m\<rparr>"
| "set_mask GNSS_SV_TYPE_BEIDOU m c = c\<lparr>bdsBlacklistSvMask := m\<rparr>"
| "set_mask GNSS_SV_TYPE_QZSS m c = c\<lparr>qzssBlacklistSvMask := m\<rparr>"
| "set_mask GNSS_SV_TYPE_GALILEO m c = c\<lparr>galBlacklistSvMask := m\<rparr>"
| "set_mask GNSS_SV_TYPE_SBAS m c = c\<lparr>sbasBlacklistSvMask := m\<rparr>"
| "set_mask GNSS_SV_TYPE_NAVIC m c = c\<lparr>navicBlacklistSvMask := m\<rparr>"
| "set_mask _ m c = c"

text \<open>\<open>initialSvId\<close> and \<open>svIndexOffset\<close>, None if \<open>svMaskPtr\<close> stays null.\<close>

definition mask_slot :: "sv_type \<Rightarrow> u32 \<Rightarrow> (u32 \<times> u32) option" where
  "mask_slot t i =
     (case t of
        GNSS_SV_TYPE_GLONASS \<Rightarrow> Some (GLO_INITIAL_SV_ID, 0)
      | GNSS_SV_TYPE_BEIDOU \<Rightarrow> Some (BDS_INITIAL_SV_ID, 0)
      | GNSS_SV_TYPE_QZSS \<Rightarrow> Some (QZSS_INITIAL_SV_ID, 0)
      | GNSS_SV_TYPE_GALILEO \<Rightarrow> Some (GAL_INITIAL_SV_ID, 0)
      | GNSS_SV_TYPE_SBAS \<Rightarrow>
          if i = 0 then Some (0, 0)
          else if i \<ge> SBAS_INITIAL2_SV_ID then Some (SBAS_INITIAL2_SV_ID, SBAS_INITIAL_SV_LENGTH)
          else if i \<ge> SBAS_INITIAL_SV_ID \<and> i < SBAS_INITIAL_SV_ID + SBAS_INITIAL_SV_LENGTH
          then Some (SBAS_INITIAL_SV_ID, 0) else None
      | GNSS_SV_TYPE_NAVIC \<Rightarrow> Some (NAVIC_INITIAL_SV_ID, 0)
      | _ \<Rightarrow> None)"

definition convert_source :: "sv_source \<Rightarrow> sv_id_config \<Rightarrow> sv_id_config option" where
  "convert_source s c =
     (case mask_slot (constellation s) (svId s) of
        None \<Rightarrow> Some c
      | Some (initialSvId, svIndexOffset) \<Rightarrow>
          if svId s = 0 then Some (set_mask (constellation s) ALL_BITS c)
          else if svId s < initialSvId \<or> svId s \<ge> initialSvId + 64 then Some c
          else (let shiftCnt = unat (svId s + svIndexOffset - initialSvId)
                in if shiftCnt \<ge> 64 then None
                   else Some (set_mask (constellation s) (get_mask (constellation s) c OR push_bit shiftCnt 1) c)))"

fun convert_sources :: "sv_source list \<Rightarrow> sv_id_config \<Rightarrow> sv_id_config option" where
  "convert_sources [] c = Some c"
| "convert_sources (s # ss) c = (case convert_source s c of None \<Rightarrow> None | Some c1 \<Rightarrow> convert_sources ss c1)"

definition any_mask :: "sv_id_config \<Rightarrow> bool" where
  "any_mask c \<longleftrightarrow> gloBlacklistSvMask c \<noteq> 0 \<or> bdsBlacklistSvMask c \<noteq> 0 \<or> galBlacklistSvMask c \<noteq> 0 \<or>
     qzssBlacklistSvMask c \<noteq> 0 \<or> sbasBlacklistSvMask c \<noteq> 0 \<or> navicBlacklistSvMask c \<noteq> 0"

definition convertToGnssSvIdConfig :: "sv_source list \<Rightarrow> sv_id_config \<Rightarrow> (bool \<times> sv_id_config) option" where
  "convertToGnssSvIdConfig ss c =
     (if ss = [] then Some (True, no_sv_ids\<lparr>cfg_size := SIZEOF_SV_ID_CONFIG\<rparr>)
      else map_option (\<lambda>c1. (any_mask c1, c1)) (convert_sources ss (c\<lparr>cfg_size := SIZEOF_SV_ID_CONFIG\<rparr>)))"

section \<open>From masks to a list\<close>

function mask_ids :: "sv_type \<Rightarrow> u32 \<Rightarrow> u32 \<Rightarrow> u64 \<Rightarrow> sv_source list" where
  "mask_ids t initialSvId bitNumber svIdMask =
     (if svIdMask > 0
      then (if svIdMask AND 1 \<noteq> 0
            then [\<lparr>src_size = SIZEOF_SV_ID_SOURCE, constellation = t,
                   svId = (if t = GNSS_SV_TYPE_SBAS \<and> bitNumber \<ge> SBAS_INITIAL_SV_LENGTH
                           then bitNumber - SBAS_INITIAL_SV_LENGTH + SBAS_INITIAL2_SV_ID
                           else bitNumber + initialSvId)\<rparr>]
            else []) @ mask_ids t initialSvId (bitNumber + 1) (drop_bit 1 svIdMask)
      else [])"
  by pat_completeness auto

lemma unat_drop_1: "(m :: u64) > 0 \<Longrightarrow> unat (drop_bit 1 m) < unat m"
proof -
  assume "m > 0"
  then have "unat m \<noteq> 0" by (simp add: unat_eq_0 word_greater_zero_iff)
  moreover have "unat (drop_bit 1 m) = unat m div 2" by (simp add: drop_bit_eq_div unat_div_distrib)
  ultimately show ?thesis by simp
qed

termination mask_ids
  by (relation "measure (\<lambda>(t, i, b, m). unat m)") (auto simp: unat_drop_1 [simplified])

declare mask_ids.simps [simp del]

definition convertGnssSvIdMaskToList :: "u64 \<Rightarrow> u32 \<Rightarrow> sv_type \<Rightarrow> sv_source list" where
  "convertGnssSvIdMaskToList svIdMask initialSvId t =
     (if svIdMask = ALL_BITS then [\<lparr>src_size = SIZEOF_SV_ID_SOURCE, constellation = t, svId = 0\<rparr>]
      else mask_ids t initialSvId 0 svIdMask)"

text \<open>What is appended to the list.\<close>

definition convertFromGnssSvIdConfig :: "sv_id_config \<Rightarrow> sv_source list" where
  "convertFromGnssSvIdConfig c =
     (if bdsBlacklistSvMask c \<noteq> 0 then convertGnssSvIdMaskToList (bdsBlacklistSvMask c) BDS_INITIAL_SV_ID GNSS_SV_TYPE_BEIDOU else [])
   @ (if galBlacklistSvMask c \<noteq> 0 then convertGnssSvIdMaskToList (galBlacklistSvMask c) GAL_INITIAL_SV_ID GNSS_SV_TYPE_GALILEO else [])
   @ (if gloBlacklistSvMask c \<noteq> 0 then convertGnssSvIdMaskToList (gloBlacklistSvMask c) GLO_INITIAL_SV_ID GNSS_SV_TYPE_GLONASS else [])
   @ (if qzssBlacklistSvMask c \<noteq> 0 then convertGnssSvIdMaskToList (qzssBlacklistSvMask c) QZSS_INITIAL_SV_ID GNSS_SV_TYPE_QZSS else [])
   @ (if sbasBlacklistSvMask c \<noteq> 0
      then convertGnssSvIdMaskToList
             (drop_bit (64 - unat SBAS_INITIAL_SV_LENGTH) (push_bit (64 - unat SBAS_INITIAL_SV_LENGTH) (sbasBlacklistSvMask c)))
             SBAS_INITIAL_SV_ID GNSS_SV_TYPE_SBAS
         @ convertGnssSvIdMaskToList (drop_bit (unat SBAS_INITIAL_SV_LENGTH) (sbasBlacklistSvMask c))
             SBAS_INITIAL2_SV_ID GNSS_SV_TYPE_SBAS
      else [])
   @ (if navicBlacklistSvMask c \<noteq> 0 then convertGnssSvIdMaskToList (navicBlacklistSvMask c) NAVIC_INITIAL_SV_ID GNSS_SV_TYPE_NAVIC else [])"

section \<open>What the engine is told\<close>

record sv_type_config =
  tc_size :: u32
  enabledSvTypesMask :: u64
  blacklistedSvTypesMask :: u64

definition SIZEOF_SV_TYPE_CONFIG :: u32 where "SIZEOF_SV_TYPE_CONFIG = 24"

datatype sv_call =
    SetBlacklistSv sv_id_config
  | SetConstellationControl sv_type_config
  | ResetConstellationControl
  | ConfigConstellationMultiBand sv_type_config

record sv_state =
  mGnssSvIdConfig :: sv_id_config
  mGnssSvTypeConfig :: sv_type_config
  mGnssSeconaryBandConfig :: sv_type_config
  mBlacklistedSvIds :: "sv_source list"

definition no_sv_types :: sv_type_config where
  "no_sv_types = \<lparr>tc_size = 0, enabledSvTypesMask = 0, blacklistedSvTypesMask = 0\<rparr>"

definition sv_state_init :: sv_state where
  "sv_state_init = \<lparr>mGnssSvIdConfig = no_sv_ids, mGnssSvTypeConfig = no_sv_types, mGnssSeconaryBandConfig = no_sv_types,
     mBlacklistedSvIds = []\<rparr>"

text \<open>\<open>gnssSvIdConfigUpdate\<close> with a list: the configuration is cleared before the list is read.\<close>

definition gnssSvIdConfigUpdate :: "sv_source list \<Rightarrow> sv_state \<Rightarrow> (sv_call list \<times> sv_state) option" where
  "gnssSvIdConfigUpdate ss s =
     (case convertToGnssSvIdConfig ss no_sv_ids of
        None \<Rightarrow> None
      | Some (ok, c) \<Rightarrow> Some (if ok then [SetBlacklistSv c] else [], s\<lparr>mGnssSvIdConfig := c\<rparr>))"

definition GLO_BIT :: u64 where "GLO_BIT = 1"
definition BDS_BIT :: u64 where "BDS_BIT = 2"
definition QZSS_BIT :: u64 where "QZSS_BIT = 4"
definition GAL_BIT :: u64 where "GAL_BIT = 8"
definition NAVIC_BIT :: u64 where "NAVIC_BIT = 16"

definition all_of :: "u64 \<Rightarrow> u64 \<Rightarrow> sv_type \<Rightarrow> sv_id_config \<Rightarrow> sv_id_config" where
  "all_of types b t c = (if types AND b \<noteq> 0 then set_mask t ALL_BITS c else c)"

definition blacklist_of :: "u64 \<Rightarrow> sv_id_config \<Rightarrow> sv_id_config" where
  "blacklist_of types c =
     all_of types NAVIC_BIT GNSS_SV_TYPE_NAVIC (all_of types GAL_BIT GNSS_SV_TYPE_GALILEO
       (all_of types QZSS_BIT GNSS_SV_TYPE_QZSS (all_of types BDS_BIT GNSS_SV_TYPE_BEIDOU
         (all_of types GLO_BIT GNSS_SV_TYPE_GLONASS c))))"

definition send_sv_types :: "bool \<Rightarrow> sv_state \<Rightarrow> sv_call list" where
  "send_sv_types sendReset s =
     (let t = mGnssSvTypeConfig s
      in if tc_size t \<noteq> SIZEOF_SV_TYPE_CONFIG then []
         else (if sendReset then [ResetConstellationControl] else [])
            @ [SetBlacklistSv (blacklist_of (blacklistedSvTypesMask t) (mGnssSvIdConfig s))]
            @ (if enabledSvTypesMask t \<noteq> 0
               then [SetConstellationControl \<lparr>tc_size = SIZEOF_SV_TYPE_CONFIG, enabledSvTypesMask = enabledSvTypesMask t,
                       blacklistedSvTypesMask = 0\<rparr>]
               else []))"

definition enabled_removed :: "sv_type_config \<Rightarrow> sv_type_config \<Rightarrow> bool" where
  "enabled_removed old new \<longleftrightarrow> enabledSvTypesMask old AND (enabledSvTypesMask old XOR enabledSvTypesMask new) \<noteq> 0"

definition gnssSvTypeConfigUpdate :: "sv_type_config \<Rightarrow> sv_state \<Rightarrow> sv_call list \<times> sv_state" where
  "gnssSvTypeConfigUpdate config s =
     (let s1 = s\<lparr>mGnssSvTypeConfig := config\<rparr>
      in (send_sv_types (enabled_removed (mGnssSvTypeConfig s) config) s1, s1))"

definition gnssResetSvTypeConfig :: "sv_state \<Rightarrow> sv_call list \<times> sv_state" where
  "gnssResetSvTypeConfig s =
     (let s1 = s\<lparr>mGnssSvTypeConfig := \<lparr>tc_size = SIZEOF_SV_TYPE_CONFIG, enabledSvTypesMask = 0, blacklistedSvTypesMask = 0\<rparr>\<rparr>
      in ([SetBlacklistSv (mGnssSvIdConfig s1), ResetConstellationControl], s1))"

text \<open>The body of \<open>gnssUpdateSvConfig\<close>, between \<open>suspendSessions\<close> and \<open>restartSessions\<close>.\<close>

definition gnssUpdateSvConfig :: "sv_type_config \<Rightarrow> sv_id_config \<Rightarrow> sv_state \<Rightarrow> sv_call list \<times> sv_state" where
  "gnssUpdateSvConfig config blacklist s =
     ((if tc_size config = SIZEOF_SV_TYPE_CONFIG
       then (if enabled_removed (mGnssSvTypeConfig s) config then [ResetConstellationControl] else [])
          @ [SetConstellationControl (mGnssSvTypeConfig s)]
       else if tc_size config = 0 then [ResetConstellationControl] else [])
      @ [SetBlacklistSv blacklist],
      s\<lparr>mGnssSvTypeConfig := config, mGnssSvIdConfig := blacklist,
        mBlacklistedSvIds := convertFromGnssSvIdConfig blacklist\<rparr>)"

definition gnssSecondaryBandConfigUpdate :: "sv_state \<Rightarrow> sv_call list" where
  "gnssSecondaryBandConfigUpdate s =
     (if tc_size (mGnssSeconaryBandConfig s) = SIZEOF_SV_TYPE_CONFIG
      then [ConfigConstellationMultiBand (mGnssSeconaryBandConfig s)] else [])"

text \<open>What is sent again when the engine comes up.\<close>

definition sv_engine_up :: "sv_state \<Rightarrow> sv_call list" where
  "sv_engine_up s = [SetBlacklistSv (mGnssSvIdConfig s)] @ send_sv_types False s"

end
