(* ===== verification/Gnss_Tracking.thy ===== *)
theory Gnss_Tracking
  imports Loc_Adapter Gnss_Dgnss Gnss_Odcpi Gnss_Sv_Config
begin

text \<open>
  The sessions of the GNSS adapter, gnss/GnssAdapter.cpp: tracking by time, where all sessions share
  one session of the engine (multiplexing), and tracking by distance, which the engine keeps apart;
  with what starts, stops and restarts them: commands, clients, the engine, its lock, the engine
  hub and the commands that suspend tracking. The parts of Gnss_Dgnss, Gnss_Odcpi and
  Gnss_Sv_Config are fields of the state. The messages of the adapter and the calls that the engine
  has not answered are explicit, as in Geofence and Batching, and the engine answers each call with
  any error at any time. None is undefined behaviour: a message that is sent a second time after
  it was deleted, or an empty callback. What the settings of the device are, and whether there is an
  engine hub, is in the context.
\<close>

section \<open>Data\<close>

record loc_options =
  to_size :: u32
  minInterval :: u32
  minDistance :: u32
  to_mode :: u32
  locReqEngTypeMask :: u32

record trk_options = loc_options +
  powerMode :: u32
  tbm :: u32

definition SIZEOF_TRACKING_OPTIONS :: u32 where "SIZEOF_TRACKING_OPTIONS = 28"

definition GNSS_POWER_MODE_INVALID :: u32 where "GNSS_POWER_MODE_INVALID = 0"
definition GNSS_POWER_MODE_M2 :: u32 where "GNSS_POWER_MODE_M2 = 2"
definition GNSS_POWER_MODE_M4 :: u32 where "GNSS_POWER_MODE_M4 = 4"

definition MIN_TRACKING_INTERVAL :: u32 where "MIN_TRACKING_INTERVAL = 100"
definition TRACKING_TBM_THRESHOLD_MILLIS :: u32 where "TRACKING_TBM_THRESHOLD_MILLIS = 480000"

text \<open>All bytes 0.\<close>

definition zero_options :: trk_options where
  "zero_options = \<lparr>to_size = 0, minInterval = 0, minDistance = 0, to_mode = 0, locReqEngTypeMask = 0,
     powerMode = 0, tbm = 0\<rparr>"

text \<open>LocPosMode; its credentials and provider stay empty.\<close>

datatype position_mode =
    LOC_POSITION_MODE_INVALID | LOC_POSITION_MODE_STANDALONE | LOC_POSITION_MODE_MS_BASED | LOC_POSITION_MODE_MS_ASSISTED

record pos_mode =
  pm_mode :: position_mode
  recurrence :: u32
  min_interval :: u32
  preferred_accuracy :: u32
  preferred_time :: u32
  share_position :: bool
  pm_powerMode :: u32
  timeBetweenMeasurements :: u32

definition default_pos_mode :: pos_mode where
  "default_pos_mode = \<lparr>pm_mode = LOC_POSITION_MODE_MS_BASED, recurrence = 0, min_interval = 1000, preferred_accuracy = 50,
     preferred_time = 120000, share_position = True, pm_powerMode = GNSS_POWER_MODE_INVALID, timeBetweenMeasurements = 1000\<rparr>"

definition pos_mode_equals :: "pos_mode \<Rightarrow> pos_mode \<Rightarrow> bool" where
  "pos_mode_equals m n \<longleftrightarrow> pm_mode n = pm_mode m \<and> recurrence n = recurrence m \<and> min_interval n = min_interval m \<and>
     preferred_accuracy n = preferred_accuracy m \<and> preferred_time n = preferred_time m \<and>
     pm_powerMode n = pm_powerMode m \<and> timeBetweenMeasurements n = timeBetweenMeasurements m"

definition convertOptions :: "trk_options \<Rightarrow> pos_mode" where
  "convertOptions os = default_pos_mode\<lparr>
     pm_mode := (if to_mode os = 1 then LOC_POSITION_MODE_MS_BASED
       else if to_mode os = 2 then LOC_POSITION_MODE_MS_ASSISTED else LOC_POSITION_MODE_STANDALONE),
     share_position := True, min_interval := minInterval os, pm_powerMode := powerMode os,
     timeBetweenMeasurements := tbm os\<rparr>"

text \<open>The calls of the engine, what is done with their answers, and the messages.\<close>

datatype gn_call =
    StartTimeBasedTracking trk_options
  | StartDistanceBasedTracking u32 loc_options
  | StopDistanceBasedTracking u32
  | StopFix
  | UpdateSystemPowerState u32
  | ConfigMinGpsWeek "16 word"
  | SvCall sv_call

datatype gn_cont =
    StartDone addr u32
  | UpdateDone addr u32 trk_options
  | StopDone addr u32
  | DistanceStartDone addr u32
  | DistanceStopDone addr u32
  | SwitchDone addr u32 trk_options
  | RestartStopped addr u32 trk_options
  | RestartStarted addr u32 trk_options
  | ClientStopDone addr u32
  | ControlDone u32
  | NothingToDo

datatype gn_msg =
    MsgStartTracking addr u32 trk_options
  | MsgUpdateTracking addr u32 trk_options
  | MsgStopTracking addr u32
  | GnAddClient addr location_callbacks
  | GnRemoveClient addr bool
  | GnRequestCapabilities addr
  | MsgHandleEngineUpEvent
  | MsgEngineLockStateEvent engine_lock
  | MsgPowerStateCb
  | MsgUpdatePowerState u32
  | MsgConfigMinGpsWeek u32 "16 word"
  | MsgUpdateSvConfig u32 sv_type_config sv_id_config
  | GnOdcpiMsg odcpi_msg
  | MsgEnableNtrip ntrip_params
  | MsgDisableNtrip
  | MsgReportGGA string bool
  | MsgReportNmea string
  | GnResponse gn_cont location_error
  | GnPended nat gn_msg

datatype gn_out =
    GnResponseCb addr location_error u32
  | ControlResponseCb location_error u32
  | GnCapabilitiesCb addr u64
  | GnRmClientCb addr
  | LocationSystemInfoCb addr
  | PowerStateCb bool
  | SavePowerStateCb bool
  | HubSetFixMode pos_mode
  | HubStartFix
  | HubStopFix
  | GnDgnssOut dgnss_out
  | GnOdcpiOut odcpi_out
  | CallApi gn_call
  | UpdateNmeaMask u32
  | SetConfig
  | InitCDFWService

record gn_adapter = "(nat \<times> gn_msg) adapter_base" +
  mTimeBasedTrackingSessions :: "(session_key, trk_options) omap"
  mDistanceBasedTrackingSessions :: "(session_key, loc_options) omap"
  mLocPositionMode :: pos_mode
  mNHzNeeded :: bool
  mSPEAlreadyRunningAtHighestInterval :: bool
  mPowerOn :: bool
  mPowerStateCb :: bool
  mControlResponseCb :: bool
  mSystemPowerState :: u32
  mPrevNmeaRptTimeNsec :: u64
  mLocSystemInfo :: u32
  mDgnss :: dgnss
  mOdcpi :: odcpi
  mSv :: sv_state

record gn_world =
  gna :: gn_adapter
  gn_lock :: engine_lock
  gn_evt :: u64
  gn_queue :: "gn_msg list"
  gn_calls :: "(gn_call \<times> gn_cont option) list"
  gn_counter :: u32
  gn_next :: nat
  gn_deleted :: "nat list"

record gnss_context = loc_context +
  ext_dr_enabled :: bool
  has_eng_hub :: bool
  agps_registered :: bool
  log_enabled :: bool
  mNmeaMask :: u32
  qwes_status :: u64

section \<open>Actions\<close>

text \<open>An action returns what it reports, in order, and the new world.\<close>

type_synonym gn_act = "gn_world \<Rightarrow> gn_out list \<times> gn_world"

definition gn_quiet :: "(gn_world \<Rightarrow> gn_world) \<Rightarrow> gn_act" where
  "gn_quiet f w = ([], f w)"

definition gn_emit :: "gn_out list \<Rightarrow> gn_act" where
  "gn_emit outs w = (outs, w)"

definition gn_then :: "gn_act \<Rightarrow> gn_act \<Rightarrow> gn_act" where
  "gn_then f g w = (let (o1, w1) = f w; (o2, w2) = g w1 in (o1 @ o2, w2))"

fun gn_seq :: "gn_act list \<Rightarrow> gn_act" where
  "gn_seq [] w = ([], w)"
| "gn_seq (f # fs) w = gn_then f (gn_seq fs) w"

definition gn_upd :: "(gn_adapter \<Rightarrow> gn_adapter) \<Rightarrow> gn_act" where
  "gn_upd f = gn_quiet (\<lambda>w. w\<lparr>gna := f (gna w)\<rparr>)"

text \<open>Calls of the engine, each with what is done with its answer, None for nullptr.\<close>

definition gn_call_all :: "(gn_call \<times> gn_cont option) list \<Rightarrow> gn_act" where
  "gn_call_all cs w = (map (\<lambda>(c, _). CallApi c) cs, w\<lparr>gn_calls := gn_calls w @ cs\<rparr>)"

definition gn_call_api :: "gn_call \<Rightarrow> gn_cont option \<Rightarrow> gn_act" where
  "gn_call_api c k = gn_call_all [(c, k)]"

definition gn_send :: "gn_msg list \<Rightarrow> gn_act" where
  "gn_send ms = gn_quiet (\<lambda>w. w\<lparr>gn_queue := gn_queue w @ ms\<rparr>)"

definition gn_dgnss :: "(dgnss \<Rightarrow> dgnss_out list \<times> dgnss) \<Rightarrow> gn_act" where
  "gn_dgnss f w = (let (outs, d) = f (mDgnss (gna w)) in (map GnDgnssOut outs, w\<lparr>gna := (gna w)\<lparr>mDgnss := d\<rparr>\<rparr>))"

definition gn_isInSession :: "gn_adapter \<Rightarrow> bool" where
  "gn_isInSession a \<longleftrightarrow> mTimeBasedTrackingSessions a \<noteq> []"

section \<open>Sessions and clients\<close>

definition isTimeBasedTrackingSession :: "addr \<Rightarrow> u32 \<Rightarrow> gn_adapter \<Rightarrow> bool" where
  "isTimeBasedTrackingSession client sessionId a \<longleftrightarrow>
     om_find (mTimeBasedTrackingSessions a) (SessionKey client sessionId) \<noteq> None"

definition isDistanceBasedTrackingSession :: "addr \<Rightarrow> u32 \<Rightarrow> gn_adapter \<Rightarrow> bool" where
  "isDistanceBasedTrackingSession client sessionId a \<longleftrightarrow>
     om_find (mDistanceBasedTrackingSessions a) (SessionKey client sessionId) \<noteq> None"

definition hasCallbacksToStartTracking :: "addr \<Rightarrow> gn_adapter \<Rightarrow> bool" where
  "hasCallbacksToStartTracking client a =
     (case om_find (mClientData a) client of
        None \<Rightarrow> False
      | Some c \<Rightarrow> trackingCb c \<or> gnssLocationInfoCb c \<or> engineLocationsInfoCb c \<or> gnssMeasurementsCb c \<or>
          gnssDataCb c \<or> gnssSvCb c \<or> gnssNmeaCb c)"

definition gn_reportResponse :: "addr \<Rightarrow> location_error \<Rightarrow> u32 \<Rightarrow> gn_act" where
  "gn_reportResponse client err sessionId w =
     (case om_find (mClientData (gna w)) client of
        Some c \<Rightarrow> if responseCb c then ([GnResponseCb client err sessionId], w) else ([], w)
      | None \<Rightarrow> ([], w))"

definition gn_controlResponse :: "location_error \<Rightarrow> u32 \<Rightarrow> gn_act" where
  "gn_controlResponse err sessionId w =
     (if mControlResponseCb (gna w) then ([ControlResponseCb err sessionId], w) else ([], w))"

definition reportPowerStateIfChanged :: gn_act where
  "reportPowerStateIfChanged w =
     (let a = gna w;
          newPowerOn = (mTimeBasedTrackingSessions a \<noteq> [] \<or> mDistanceBasedTrackingSessions a \<noteq> [])
      in if newPowerOn \<noteq> mPowerOn a
         then (if mPowerStateCb a then [PowerStateCb newPowerOn] else [], w\<lparr>gna := a\<lparr>mPowerOn := newPowerOn\<rparr>\<rparr>)
         else ([], w))"

text \<open>The map of sessions by distance holds LocationOptions only.\<close>

definition put_session :: "loc_context \<Rightarrow> addr \<Rightarrow> u32 \<Rightarrow> trk_options \<Rightarrow> gn_adapter \<Rightarrow> gn_adapter" where
  "put_session ctx client sessionId os a =
     (if minDistance os > 0 \<and> isMessageSupported ctx LOC_API_ADAPTER_MESSAGE_DISTANCE_BASE_TRACKING
      then a\<lparr>mDistanceBasedTrackingSessions :=
             om_put (SessionKey client sessionId) (loc_options.truncate os) (mDistanceBasedTrackingSessions a)\<rparr>
      else a\<lparr>mTimeBasedTrackingSessions := om_put (SessionKey client sessionId) os (mTimeBasedTrackingSessions a)\<rparr>)"

definition saveTrackingSession :: "loc_context \<Rightarrow> addr \<Rightarrow> u32 \<Rightarrow> trk_options \<Rightarrow> gn_act" where
  "saveTrackingSession ctx client sessionId os =
     gn_then (gn_upd (put_session ctx client sessionId os)) reportPowerStateIfChanged"

definition drop_session :: "addr \<Rightarrow> u32 \<Rightarrow> gn_adapter \<Rightarrow> gn_adapter" where
  "drop_session client sessionId a =
     (if isTimeBasedTrackingSession client sessionId a
      then a\<lparr>mTimeBasedTrackingSessions := om_erase (SessionKey client sessionId) (mTimeBasedTrackingSessions a)\<rparr>
      else if isDistanceBasedTrackingSession client sessionId a
      then a\<lparr>mDistanceBasedTrackingSessions := om_erase (SessionKey client sessionId) (mDistanceBasedTrackingSessions a)\<rparr>
      else a)"

definition eraseTrackingSession :: "addr \<Rightarrow> u32 \<Rightarrow> gn_act" where
  "eraseTrackingSession client sessionId =
     gn_then (gn_upd (drop_session client sessionId)) reportPowerStateIfChanged"

section \<open>The engine session that is shared\<close>

definition setLocPositionMode :: "pos_mode \<Rightarrow> gn_adapter \<Rightarrow> gn_adapter" where
  "setLocPositionMode m a = (if \<not> pos_mode_equals (mLocPositionMode a) m then a\<lparr>mLocPositionMode := m\<rparr> else a)"

text \<open>Whether the engine runs at the highest rate already, the options, and the adapter.\<close>

definition checkAndSetSPEToRunforNHz :: "trk_options \<Rightarrow> gn_adapter \<Rightarrow> bool \<times> trk_options \<times> gn_adapter" where
  "checkAndSetSPEToRunforNHz out a =
     (if \<not> mNHzNeeded a then (False, out, a)
      else if mSPEAlreadyRunningAtHighestInterval a then (True, out, a)
      else if minInterval out > MIN_TRACKING_INTERVAL
      then (False, out\<lparr>minInterval := MIN_TRACKING_INTERVAL\<rparr>, a\<lparr>mSPEAlreadyRunningAtHighestInterval := True\<rparr>)
      else (False, out, a))"

text \<open>The common part of \<open>startTimeBasedTracking\<close> and \<open>updateTracking\<close>.\<close>

definition ask_engine :: "addr \<Rightarrow> u32 \<Rightarrow> trk_options \<Rightarrow> gn_cont \<Rightarrow> gn_act" where
  "ask_engine client sessionId os k w =
     (let a1 = setLocPositionMode (convertOptions os) (gna w);
          (running, tmp, a2) = checkAndSetSPEToRunforNHz os a1
      in gn_seq [gn_emit [HubSetFixMode (mLocPositionMode a1), HubStartFix],
           gn_upd (\<lambda>_. a2),
           if running then gn_reportResponse client LOCATION_ERROR_SUCCESS sessionId
           else gn_call_api (StartTimeBasedTracking tmp) (Some k)] w)"

definition startTimeBasedTracking :: "addr \<Rightarrow> u32 \<Rightarrow> trk_options \<Rightarrow> gn_act" where
  "startTimeBasedTracking client sessionId os = ask_engine client sessionId os (StartDone client sessionId)"

definition updateTracking :: "addr \<Rightarrow> u32 \<Rightarrow> trk_options \<Rightarrow> trk_options \<Rightarrow> gn_act" where
  "updateTracking client sessionId os oldOptions = ask_engine client sessionId os (UpdateDone client sessionId oldOptions)"

definition stopTracking :: "addr \<Rightarrow> u32 \<Rightarrow> gn_act" where
  "stopTracking client sessionId =
     gn_seq [gn_emit [HubStopFix], gn_call_api StopFix (Some (StopDone client sessionId)),
       gn_dgnss dgnss_session_stopped, gn_upd (\<lambda>a. a\<lparr>mSPEAlreadyRunningAtHighestInterval := False\<rparr>)]"

text \<open>The loop for the smallest interval and power mode of the sessions; 0 is taken for "none yet".\<close>

definition mux_step :: "trk_options \<Rightarrow> trk_options \<times> u32 \<Rightarrow> trk_options \<times> u32" where
  "mux_step o1 m =
     (if to_size (fst m) = 0 \<or> minInterval o1 < minInterval (fst m) then o1 else fst m,
      if snd m = GNSS_POWER_MODE_INVALID \<or> powerMode o1 < snd m then powerMode o1 else snd m)"

definition mux :: "trk_options list \<Rightarrow> trk_options \<times> u32" where
  "mux os = fold mux_step os (zero_options, GNSS_POWER_MODE_INVALID)"

text \<open>A multiplexing operation also says whether the client is answered without waiting.\<close>

definition mux_request :: "trk_options \<Rightarrow> trk_options \<times> u32 \<Rightarrow> bool \<times> trk_options" where
  "mux_request os m =
     (minInterval os < minInterval (fst m) \<or> powerMode os < snd m,
      (let m1 = (if minInterval os < minInterval (fst m) then (fst m)\<lparr>minInterval := minInterval os\<rparr> else fst m)
       in if powerMode os < snd m then m1\<lparr>powerMode := powerMode os\<rparr> else m1))"

definition startTimeBasedTrackingMultiplex :: "addr \<Rightarrow> u32 \<Rightarrow> trk_options \<Rightarrow> gn_world \<Rightarrow> bool \<times> gn_out list \<times> gn_world" where
  "startTimeBasedTrackingMultiplex client sessionId os w =
     (let ts = mTimeBasedTrackingSessions (gna w)
      in if ts = []
         then (False, gn_then (gn_upd (\<lambda>a. a\<lparr>mPrevNmeaRptTimeNsec := 0\<rparr>)) (startTimeBasedTracking client sessionId os) w)
         else (let (updateOptions, muxed) = mux_request os (mux (map snd ts))
               in if updateOptions then (False, startTimeBasedTracking client sessionId muxed w) else (True, [], w)))"

text \<open>Only called when the session exists.\<close>

definition updateTrackingMultiplex :: "addr \<Rightarrow> u32 \<Rightarrow> trk_options \<Rightarrow> gn_world \<Rightarrow> bool \<times> gn_out list \<times> gn_world" where
  "updateTrackingMultiplex client sessionId os w =
     (let ts = mTimeBasedTrackingSessions (gna w); key = SessionKey client sessionId
      in case om_find ts key of
           None \<Rightarrow> (True, [], w)
         | Some oldOptions \<Rightarrow>
             if minInterval oldOptions \<noteq> minInterval os \<or> powerMode oldOptions \<noteq> powerMode os
             then (let (b, m) = mux_request os (mux (map snd (filter (\<lambda>(k, _). k \<noteq> key) ts)));
                       (updateOptions, muxed) = (if length ts = 1 then (True, os) else (b, m))
                   in if updateOptions then (False, updateTracking client sessionId muxed oldOptions w) else (True, [], w))
             else (True, [], w))"

definition stopTimeBasedTrackingMultiplex :: "addr \<Rightarrow> u32 \<Rightarrow> gn_world \<Rightarrow> bool \<times> gn_out list \<times> gn_world" where
  "stopTimeBasedTrackingMultiplex client sessionId w =
     (let ts = mTimeBasedTrackingSessions (gna w); key = SessionKey client sessionId
      in if length ts = 1 then (False, stopTracking client sessionId w)
         else case om_find ts key of
                None \<Rightarrow> (True, [], w)
              | Some os \<Rightarrow>
                  (let m = mux (map snd (filter (\<lambda>(k, _). k \<noteq> key) ts))
                   in if minInterval os < minInterval (fst m) \<or> powerMode os < snd m
                      then (False, startTimeBasedTracking client sessionId ((fst m)\<lparr>powerMode := snd m\<rparr>) w)
                      else (True, [], w)))"

text \<open>What every caller does with the result: run \<open>k\<close>, then answer if nobody else will.\<close>

definition mux_then :: "addr \<Rightarrow> u32 \<Rightarrow> (gn_world \<Rightarrow> bool \<times> gn_out list \<times> gn_world) \<Rightarrow> gn_act \<Rightarrow> gn_act" where
  "mux_then client sessionId f k w =
     (let (noWait, r) = f w
      in gn_seq [\<lambda>_. r, k, if noWait then gn_reportResponse client LOCATION_ERROR_SUCCESS sessionId else gn_emit []] w)"

section \<open>Commands\<close>

definition gn_pend :: "gn_msg \<Rightarrow> gn_act" where
  "gn_pend m = gn_quiet (\<lambda>w. w\<lparr>gna := (gna w)\<lparr>mPendingMsgs := mPendingMsgs (gna w) @ [(gn_next w, m)]\<rparr>, gn_next := gn_next w + 1\<rparr>)"

definition clamp_interval :: "trk_options \<Rightarrow> trk_options" where
  "clamp_interval os = (if minInterval os < MIN_TRACKING_INTERVAL then os\<lparr>minInterval := MIN_TRACKING_INTERVAL\<rparr> else os)"

definition fall_back_M2 :: "trk_options \<Rightarrow> trk_options" where
  "fall_back_M2 os =
     (if powerMode os = GNSS_POWER_MODE_M4 \<and> tbm os > TRACKING_TBM_THRESHOLD_MILLIS
      then os\<lparr>powerMode := GNSS_POWER_MODE_M2\<rparr> else os)"

definition start_tracking_proc :: "loc_context \<Rightarrow> addr \<Rightarrow> u32 \<Rightarrow> trk_options \<Rightarrow> gn_act" where
  "start_tracking_proc ctx client sessionId os w =
     (if \<not> mIsEngineCapabilitiesKnown (gna w) \<and> minDistance os > 0 then gn_pend (MsgStartTracking client sessionId os) w
      else if \<not> hasCallbacksToStartTracking client (gna w) \<or> to_size os = 0 then ([], w)
      else (let o1 = clamp_interval os
            in if minDistance o1 > 0 \<and> isMessageSupported ctx LOC_API_ADAPTER_MESSAGE_DISTANCE_BASE_TRACKING
               then gn_then (saveTrackingSession ctx client sessionId o1)
                      (gn_call_api (StartDistanceBasedTracking sessionId (loc_options.truncate o1))
                        (Some (DistanceStartDone client sessionId))) w
               else (let o2 = fall_back_M2 o1
                     in mux_then client sessionId (startTimeBasedTrackingMultiplex client sessionId o2)
                          (saveTrackingSession ctx client sessionId o2) w)))"

definition update_tracking_proc :: "loc_context \<Rightarrow> addr \<Rightarrow> u32 \<Rightarrow> trk_options \<Rightarrow> gn_act" where
  "update_tracking_proc ctx client sessionId os w =
     (let isTimeBased = isTimeBasedTrackingSession client sessionId (gna w);
          isDistanceBased = isDistanceBasedTrackingSession client sessionId (gna w)
      in if \<not> mIsEngineCapabilitiesKnown (gna w) \<and> minDistance os > 0 then gn_pend (MsgUpdateTracking client sessionId os) w
         else if \<not> isTimeBased \<and> \<not> isDistanceBased then gn_reportResponse client LOCATION_ERROR_ID_UNKNOWN sessionId w
         else if to_size os = 0 then gn_reportResponse client LOCATION_ERROR_INVALID_PARAMETER sessionId w
         else (let o1 = clamp_interval (fall_back_M2 os)
               in if isTimeBased \<and> minDistance o1 > 0
                  then gn_seq [mux_then client sessionId (stopTimeBasedTrackingMultiplex client sessionId)
                           (eraseTrackingSession client sessionId),
                         saveTrackingSession ctx client sessionId o1,
                         gn_call_api (StartDistanceBasedTracking sessionId (loc_options.truncate o1)) (Some NothingToDo)] w
                  else if isDistanceBased \<and> minDistance o1 = 0
                  then gn_then (eraseTrackingSession client sessionId)
                         (gn_call_api (StopDistanceBasedTracking sessionId) (Some (SwitchDone client sessionId o1))) w
                  else if isTimeBased
                  then mux_then client sessionId (updateTrackingMultiplex client sessionId o1)
                         (saveTrackingSession ctx client sessionId o1) w
                  else gn_call_api (StopDistanceBasedTracking sessionId) (Some (RestartStopped client sessionId o1)) w))"

definition stop_tracking_proc :: "addr \<Rightarrow> u32 \<Rightarrow> gn_act" where
  "stop_tracking_proc client sessionId w =
     (if isTimeBasedTrackingSession client sessionId (gna w)
      then mux_then client sessionId (stopTimeBasedTrackingMultiplex client sessionId)
             (eraseTrackingSession client sessionId) w
      else if isDistanceBasedTrackingSession client sessionId (gna w)
      then gn_call_api (StopDistanceBasedTracking sessionId) (Some (DistanceStopDone client sessionId)) w
      else gn_reportResponse client LOCATION_ERROR_ID_UNKNOWN sessionId w)"

section \<open>Restart and suspend\<close>

text \<open>\<open>highestPowerTrackingOptions\<close>: the first session, or a lower power mode after it.\<close>

definition power_step :: "trk_options \<Rightarrow> trk_options \<Rightarrow> trk_options" where
  "power_step o1 h =
     (if to_size h = 0 \<or> powerMode o1 \<noteq> GNSS_POWER_MODE_INVALID \<and> powerMode o1 < powerMode h then o1 else h)"

definition smallest_step :: "trk_options \<Rightarrow> trk_options \<Rightarrow> trk_options" where
  "smallest_step o1 m = (if to_size m = 0 \<or> minInterval o1 < minInterval m then o1 else m)"

definition setLocationOptions :: "trk_options \<Rightarrow> trk_options \<Rightarrow> trk_options" where
  "setLocationOptions h m = h\<lparr>to_size := SIZEOF_TRACKING_OPTIONS, minInterval := minInterval m, minDistance := minDistance m,
     to_mode := to_mode m, locReqEngTypeMask := locReqEngTypeMask m\<rparr>"

definition restart_options :: "trk_options list \<Rightarrow> trk_options" where
  "restart_options os = setLocationOptions (fold power_step os zero_options) (fold smallest_step os zero_options)"

definition checkAndRestartTimeBasedSession :: gn_act where
  "checkAndRestartTimeBasedSession w =
     (let ts = mTimeBasedTrackingSessions (gna w)
      in if ts = [] then ([], w)
         else (let (running, tmp, a) = checkAndSetSPEToRunforNHz (restart_options (map snd ts)) (gna w)
               in gn_then (gn_upd (\<lambda>_. a))
                    (if running then gn_emit [] else gn_call_api (StartTimeBasedTracking tmp) None) w))"

definition restart_distance :: gn_act where
  "restart_distance w =
     gn_call_all (map (\<lambda>(k, os). (StartDistanceBasedTracking (key_id k) os, Some NothingToDo)) (mDistanceBasedTrackingSessions (gna w))) w"

definition checkAndRestartSPESession :: gn_act where
  "checkAndRestartSPESession =
     gn_seq [gn_upd (\<lambda>a. a\<lparr>mSPEAlreadyRunningAtHighestInterval := False\<rparr>), checkAndRestartTimeBasedSession, restart_distance]"

definition gn_restartSessions :: "bool \<Rightarrow> u64 \<Rightarrow> gn_act" where
  "gn_restartSessions modemSSR now w =
     gn_seq [gn_upd (\<lambda>a. if modemSSR then a\<lparr>mOdcpi := odcpi_modem_restarted (mOdcpi a)\<rparr> else a),
       gn_upd (\<lambda>a. a\<lparr>mSPEAlreadyRunningAtHighestInterval := False\<rparr>),
       (if gn_isInSession (gna w)
        then gn_then (gn_emit [HubSetFixMode (mLocPositionMode (gna w)), HubStartFix])
               (gn_dgnss (checkUpdateDgnssNtrip True now False))
        else gn_emit []),
       checkAndRestartSPESession] w"

definition suspendSessions :: gn_act where
  "suspendSessions w =
     (if gn_isInSession (gna w)
      then gn_seq [gn_emit [HubStopFix], gn_call_api StopFix None, gn_dgnss dgnss_session_stopped,
             gn_upd (\<lambda>a. a\<lparr>mSPEAlreadyRunningAtHighestInterval := False\<rparr>)] w
      else ([], w))"

text \<open>Two of the commands that suspend tracking.\<close>

definition control_cont :: "u32 \<Rightarrow> gn_cont option" where
  "control_cont sessionId = (if sessionId \<noteq> 0 then Some (ControlDone sessionId) else None)"

definition configMinGpsWeek :: "u32 \<Rightarrow> 16 word \<Rightarrow> u64 \<Rightarrow> gn_act" where
  "configMinGpsWeek sessionId minGpsWeek now =
     gn_seq [suspendSessions, gn_call_api (ConfigMinGpsWeek minGpsWeek) (control_cont sessionId), gn_restartSessions False now]"

definition sv_calls :: "sv_call list \<Rightarrow> gn_act" where
  "sv_calls cs = gn_call_all (map (\<lambda>c. (SvCall c, None)) cs)"

text \<open>The answer to the last call, \<open>setBlacklistSv\<close>, goes to the control client.\<close>

definition update_sv_config :: "u32 \<Rightarrow> sv_type_config \<Rightarrow> sv_id_config \<Rightarrow> u64 \<Rightarrow> gn_act" where
  "update_sv_config sessionId types ids now w =
     (let (calls, s) = gnssUpdateSvConfig types ids (mSv (gna w))
      in gn_seq [suspendSessions, sv_calls (butlast calls), gn_call_api (SvCall (last calls)) (Some (ControlDone sessionId)),
           gn_upd (\<lambda>a. a\<lparr>mSv := s\<rparr>), gn_restartSessions False now] w)"

section \<open>Clients, events and the engine\<close>

text \<open>\<open>stopClientSessions\<close>: the sessions by time are collected first, then stopped one by one.\<close>

fun stop_time_sessions :: "session_key list \<Rightarrow> gn_act" where
  "stop_time_sessions [] w = ([], w)"
| "stop_time_sessions (k # ks) w =
     (let (noWait, o1, w1) = stopTimeBasedTrackingMultiplex (key_client k) (key_id k) w
      in gn_seq [gn_emit o1, eraseTrackingSession (key_client k) (key_id k), stop_time_sessions ks] w1)"

definition gn_stopClientSessions :: "addr \<Rightarrow> gn_act" where
  "gn_stopClientSessions client w =
     gn_then (stop_time_sessions (filter (\<lambda>k. key_client k = client) (map fst (mTimeBasedTrackingSessions (gna w)))))
       (\<lambda>w1. gn_call_all
          (map (\<lambda>(k, _). (StopDistanceBasedTracking (key_id k), Some (ClientStopDone client (key_id k))))
            (filter (\<lambda>(k, _). key_client k = client) (mDistanceBasedTrackingSessions (gna w1)))) w1) w"

definition BIT_PARSED_POSITION_REPORT :: nat where "BIT_PARSED_POSITION_REPORT = 0"
definition BIT_SATELLITE_REPORT :: nat where "BIT_SATELLITE_REPORT = 1"
definition BIT_NMEA_1HZ_REPORT :: nat where "BIT_NMEA_1HZ_REPORT = 2"
definition BIT_NI_NOTIFY_VERIFY_REQUEST :: nat where "BIT_NI_NOTIFY_VERIFY_REQUEST = 4"
definition BIT_LOCATION_SERVER_REQUEST :: nat where "BIT_LOCATION_SERVER_REQUEST = 6"
definition BIT_REQUEST_WIFI :: nat where "BIT_REQUEST_WIFI = 9"
definition BIT_GNSS_SV_POLYNOMIAL_REPORT :: nat where "BIT_GNSS_SV_POLYNOMIAL_REPORT = 23"
definition BIT_GNSS_MEASUREMENT :: nat where "BIT_GNSS_MEASUREMENT = 26"
definition BIT_PARSED_UNPROPAGATED_POSITION_REPORT :: nat where "BIT_PARSED_UNPROPAGATED_POSITION_REPORT = 33"
definition BIT_GNSS_SV_EPHEMERIS_REPORT :: nat where "BIT_GNSS_SV_EPHEMERIS_REPORT = 35"
definition BIT_LOC_SYSTEM_INFO :: nat where "BIT_LOC_SYSTEM_INFO = 36"
definition BIT_GNSS_NHZ_MEASUREMENT :: nat where "BIT_GNSS_NHZ_MEASUREMENT = 37"
definition BIT_EVENT_REPORT_INFO :: nat where "BIT_EVENT_REPORT_INFO = 38"
definition BIT_LATENCY_INFORMATION :: nat where "BIT_LATENCY_INFORMATION = 39"

definition LOC_NMEA_MASK_DEBUG_V02 :: u32 where "LOC_NMEA_MASK_DEBUG_V02 = 0x00020000"

definition client_events :: "gnss_context \<Rightarrow> location_callbacks \<Rightarrow> u64 \<Rightarrow> u64" where
  "client_events ctx c m =
     add_bit (gnssDataCb c) BIT_NMEA_1HZ_REPORT (add_bit (gnssDataCb c) BIT_PARSED_POSITION_REPORT
     (add_bit (gnssMeasurementsCb c) BIT_GNSS_MEASUREMENT
     (add_bit (gnssNmeaCb c \<and> mNmeaMask ctx \<noteq> 0) BIT_NMEA_1HZ_REPORT
     (add_bit (gnssSvCb c) BIT_SATELLITE_REPORT
     (add_bit (trackingCb c \<or> gnssLocationInfoCb c \<or> engineLocationsInfoCb c) BIT_PARSED_POSITION_REPORT m)))))"

definition gnss_event_mask :: "gnss_context \<Rightarrow> gn_adapter \<Rightarrow> u64 \<Rightarrow> u64" where
  "gnss_event_mask ctx a old =
     (let m0 = add_bit True BIT_EVENT_REPORT_INFO (add_bit True BIT_LOC_SYSTEM_INFO 0);
          m1 = fold (\<lambda>(_, c). client_events ctx c) (mClientData a) m0;
          m2 = (if ext_dr_enabled ctx \<or> has_eng_hub ctx
                then add_bit (bit old BIT_GNSS_NHZ_MEASUREMENT) BIT_GNSS_NHZ_MEASUREMENT
                  (add_bit True BIT_GNSS_SV_EPHEMERIS_REPORT (add_bit True BIT_PARSED_UNPROPAGATED_POSITION_REPORT
                    (add_bit True BIT_GNSS_SV_POLYNOMIAL_REPORT (add_bit True BIT_GNSS_MEASUREMENT m1))))
                else m1);
          m3 = add_bit (agps_registered ctx) BIT_LOCATION_SERVER_REQUEST m2;
          m4 = add_bit (mOdcpiRequestCb (mOdcpi a) \<noteq> None) BIT_REQUEST_WIFI m3;
          m5 = add_bit True BIT_NI_NOTIFY_VERIFY_REQUEST (add_bit True BIT_LOC_SYSTEM_INFO m4)
      in add_bit (m5 AND push_bit BIT_GNSS_MEASUREMENT 1 \<noteq> 0 \<and> log_enabled ctx) BIT_LATENCY_INFORMATION m5)"

definition gn_updateClientsEventMask :: "gnss_context \<Rightarrow> gn_act" where
  "gn_updateClientsEventMask ctx w =
     (map (\<lambda>_. UpdateNmeaMask (mNmeaMask ctx OR LOC_NMEA_MASK_DEBUG_V02)) (filter (\<lambda>(_, c). gnssDataCb c) (mClientData (gna w))),
      w\<lparr>gn_evt := updateEvtMask (gnss_event_mask ctx (gna w) (gn_evt w)) LOC_REGISTRATION_MASK_SET (gn_evt w)\<rparr>)"

definition notifyClientOfCachedLocationSystemInfo :: "addr \<Rightarrow> location_callbacks \<Rightarrow> gn_act" where
  "notifyClientOfCachedLocationSystemInfo client callbacks w =
     (if mLocSystemInfo (gna w) \<noteq> 0 \<and> locationSystemInfoCb callbacks \<and>
        \<not> (case om_find (mClientData (gna w)) client of None \<Rightarrow> False | Some old \<Rightarrow> locationSystemInfoCb old)
      then ([LocationSystemInfoCb client], w) else ([], w))"

definition gn_addClient :: "gnss_context \<Rightarrow> addr \<Rightarrow> location_callbacks \<Rightarrow> gn_act" where
  "gn_addClient ctx client callbacks =
     gn_seq [notifyClientOfCachedLocationSystemInfo client callbacks,
       gn_upd (\<lambda>a. a\<lparr>mClientData := saveClient client callbacks (mClientData a)\<rparr>), gn_updateClientsEventMask ctx]"

definition gn_removeClient :: "gnss_context \<Rightarrow> addr \<Rightarrow> bool \<Rightarrow> gn_act" where
  "gn_removeClient ctx client hasCb =
     gn_seq [gn_stopClientSessions client, gn_upd (\<lambda>a. a\<lparr>mClientData := eraseClient client (mClientData a)\<rparr>),
       gn_updateClientsEventMask ctx, gn_emit (if hasCb then [GnRmClientCb client] else [])]"

text \<open>
  \<open>GnssAdapter::getCapabilities\<close>, which is broadcast. A client that asks is answered by LocAdapterBase
  with its own \<open>getCapabilities\<close>, which is not virtual.
\<close>

definition gn_getCapabilities :: "gnss_context \<Rightarrow> u64" where
  "gn_getCapabilities ctx =
     (let c = loc_context.truncate ctx
      in qwes_status ctx OR
        add_bit (isFeatureSupported c LOC_SUPPORTED_FEATURE_AGPM_V02) 11
        (add_bit (isFeatureSupported c LOC_SUPPORTED_FEATURE_CONSTELLATION_ENABLEMENT_V02) 10
        (add_bit (isFeatureSupported c LOC_SUPPORTED_FEATURE_DEBUG_NMEA_V02) 8
        (add_bit (sGnssMeasurementSupported c) 5
        (add_bit (isMessageSupported c LOC_API_ADAPTER_MESSAGE_OUTDOOR_TRIP_BATCHING) 9
        (add_bit (isMessageSupported c LOC_API_ADAPTER_MESSAGE_DISTANCE_BASE_TRACKING) 2
        (add_bit (isMessageSupported c LOC_API_ADAPTER_MESSAGE_DISTANCE_BASE_LOCATION_BATCHING) 3
        (add_bit (isMessageSupported c LOC_API_ADAPTER_MESSAGE_DISTANCE_BASE_LOCATION_BATCHING) 1
        (add_bit (0x4 AND getCarrierCapabilities c \<noteq> 0) 7
        (add_bit (getCarrierCapabilities c AND 0x2 \<noteq> 0) 6
        (add_bit True 4 (add_bit True 0 0))))))))))))"

definition gn_requestCapabilities :: "gnss_context \<Rightarrow> addr \<Rightarrow> gn_act" where
  "gn_requestCapabilities ctx client w =
     (if \<not> mIsEngineCapabilitiesKnown (gna w) then gn_pend (GnRequestCapabilities client) w
      else (map (\<lambda>(c, m). GnCapabilitiesCb c m)
              (capabilities_answer (loc_context.truncate ctx) client (adapter_base.truncate (gna w))), w))"

definition updateSystemPowerState :: "u32 \<Rightarrow> gn_act" where
  "updateSystemPowerState st =
     (if st \<noteq> 0 then gn_then (gn_upd (\<lambda>a. a\<lparr>mSystemPowerState := st\<rparr>)) (gn_call_api (UpdateSystemPowerState st) None)
      else gn_emit [])"

text \<open>The pending messages stay in the list when they are sent.\<close>

definition pended_msgs :: "(nat \<times> gn_msg) list \<Rightarrow> gn_msg list" where
  "pended_msgs ps = map (\<lambda>(p, m). GnPended p m) ps"

definition gn_engine_up :: "gnss_context \<Rightarrow> u64 \<Rightarrow> gn_act" where
  "gn_engine_up ctx now w =
     (let a = gna w
      in gn_seq [gn_upd (\<lambda>a. a\<lparr>mIsEngineCapabilitiesKnown := True\<rparr>),
           gn_emit (map (\<lambda>(c, m). GnCapabilitiesCb c m) (broadcastCapabilities (gn_getCapabilities ctx) (mClientData a))),
           gn_emit [SetConfig],
           sv_calls (sv_engine_up (mSv a)),
           updateSystemPowerState (mSystemPowerState a),
           sv_calls (gnssSecondaryBandConfigUpdate (mSv a)),
           gn_emit [InitCDFWService],
           if gn_lock w = ENGINE_LOCK_STATE_ENABLED
           then gn_then (gn_restartSessions True now) (gn_send (pended_msgs (mPendingMsgs a)))
           else gn_emit []] w)"

definition gn_handleEngineLockStatus :: "engine_lock \<Rightarrow> gn_act" where
  "gn_handleEngineLockStatus st w =
     (if st = ENGINE_LOCK_STATE_ENABLED
      then gn_then (gn_send (pended_msgs (mPendingGnssEnabledMsgs (gna w)))) (gn_upd (\<lambda>a. a\<lparr>mPendingGnssEnabledMsgs := []\<rparr>)) w
      else ([], w))"

text \<open>The requirements of the engine hub, on its thread.\<close>

definition updateNHzRequirement :: "bool \<Rightarrow> bool \<Rightarrow> gn_act" where
  "updateNHzRequirement nHzNeeded nHzMeasNeeded w =
     (let registered = bit (gn_evt w) BIT_GNSS_NHZ_MEASUREMENT;
          w1 = (if nHzMeasNeeded \<and> \<not> registered
                then w\<lparr>gn_evt := updateEvtMask (push_bit BIT_GNSS_NHZ_MEASUREMENT 1) LOC_REGISTRATION_MASK_ENABLED (gn_evt w)\<rparr>
                else if registered
                then w\<lparr>gn_evt := updateEvtMask (push_bit BIT_GNSS_NHZ_MEASUREMENT 1) LOC_REGISTRATION_MASK_DISABLED (gn_evt w)\<rparr>
                else w)
      in if mNHzNeeded (gna w1) \<noteq> nHzNeeded
         then gn_then (gn_upd (\<lambda>a. a\<lparr>mNHzNeeded := nHzNeeded\<rparr>)) checkAndRestartSPESession w1 else ([], w1))"

section \<open>The world\<close>

definition gn_odcpi :: "odcpi_msg \<Rightarrow> gn_world \<Rightarrow> (gn_out list \<times> gn_world) option" where
  "gn_odcpi m w =
     map_option (\<lambda>(outs, d). (map GnOdcpiOut outs,
         w\<lparr>gna := (gna w)\<lparr>mOdcpi := d\<rparr>,
           gn_evt := (case m of
               MsgInitOdcpi cb p \<Rightarrow>
                 if fst (initOdcpi cb p (mOdcpi (gna w)))
                 then updateEvtMask (push_bit BIT_REQUEST_WIFI 1) LOC_REGISTRATION_MASK_ENABLED (gn_evt w) else gn_evt w
             | _ \<Rightarrow> gn_evt w)\<rparr>))
       (odcpi_proc m (mOdcpi (gna w)))"

fun gn_cont_proc :: "loc_context \<Rightarrow> u64 \<Rightarrow> gn_cont \<Rightarrow> location_error \<Rightarrow> gn_act" where
  "gn_cont_proc ctx now (StartDone client i) err w =
     gn_then (if gn_lock w = ENGINE_LOCK_STATE_ENABLED \<and> err \<noteq> LOCATION_ERROR_SUCCESS then eraseTrackingSession client i
              else gn_dgnss (checkUpdateDgnssNtrip (gn_isInSession (gna w)) now False))
       (gn_reportResponse client err i) w"
| "gn_cont_proc ctx now (UpdateDone client i oldOptions) err w =
     gn_then (if gn_lock w = ENGINE_LOCK_STATE_ENABLED \<and> err \<noteq> LOCATION_ERROR_SUCCESS
              then saveTrackingSession ctx client i oldOptions else gn_emit [])
       (gn_reportResponse client err i) w"
| "gn_cont_proc ctx now (StopDone client i) err w = gn_reportResponse client err i w"
| "gn_cont_proc ctx now (DistanceStartDone client i) err w =
     gn_then (if gn_lock w = ENGINE_LOCK_STATE_ENABLED \<and> err \<noteq> LOCATION_ERROR_SUCCESS then eraseTrackingSession client i
              else gn_emit [])
       (gn_reportResponse client err i) w"
| "gn_cont_proc ctx now (DistanceStopDone client i) err w =
     gn_then (if gn_lock w = ENGINE_LOCK_STATE_DISABLED \<or> err = LOCATION_ERROR_SUCCESS then eraseTrackingSession client i
              else gn_emit [])
       (gn_reportResponse client err i) w"
| "gn_cont_proc ctx now (SwitchDone client i os) err w =
     mux_then client i (startTimeBasedTrackingMultiplex client i os) (saveTrackingSession ctx client i os) w"
| "gn_cont_proc ctx now (RestartStopped client i os) err w =
     (if err = LOCATION_ERROR_SUCCESS
      then gn_call_api (StartDistanceBasedTracking i (loc_options.truncate os)) (Some (RestartStarted client i os)) w
      else ([], w))"
| "gn_cont_proc ctx now (RestartStarted client i os) err w =
     gn_then (if gn_lock w = ENGINE_LOCK_STATE_DISABLED \<or> err = LOCATION_ERROR_SUCCESS
              then saveTrackingSession ctx client i os else gn_emit [])
       (gn_reportResponse client err i) w"
| "gn_cont_proc ctx now (ClientStopDone client i) err w =
     (if err = LOCATION_ERROR_SUCCESS then eraseTrackingSession client i w else ([], w))"
| "gn_cont_proc ctx now (ControlDone i) err w = gn_controlResponse err i w"
| "gn_cont_proc ctx now NothingToDo err w = ([], w)"

fun gn_msg_proc :: "gnss_context \<Rightarrow> u64 \<Rightarrow> gn_msg \<Rightarrow> gn_world \<Rightarrow> (gn_out list \<times> gn_world) option" where
  "gn_msg_proc ctx now (MsgStartTracking client i os) w = Some (start_tracking_proc (loc_context.truncate ctx) client i os w)"
| "gn_msg_proc ctx now (MsgUpdateTracking client i os) w = Some (update_tracking_proc (loc_context.truncate ctx) client i os w)"
| "gn_msg_proc ctx now (MsgStopTracking client i) w = Some (stop_tracking_proc client i w)"
| "gn_msg_proc ctx now (GnAddClient client cbs) w = Some (gn_addClient ctx client cbs w)"
| "gn_msg_proc ctx now (GnRemoveClient client hasCb) w = Some (gn_removeClient ctx client hasCb w)"
| "gn_msg_proc ctx now (GnRequestCapabilities client) w = Some (gn_requestCapabilities ctx client w)"
| "gn_msg_proc ctx now MsgHandleEngineUpEvent w = Some (gn_engine_up ctx now w)"
| "gn_msg_proc ctx now (MsgEngineLockStateEvent st) w = Some (gn_handleEngineLockStatus st w)"
| "gn_msg_proc ctx now MsgPowerStateCb w =
     Some (gn_then (gn_upd (\<lambda>a. a\<lparr>mPowerStateCb := True\<rparr>)) (gn_emit [SavePowerStateCb (mPowerOn (gna w))]) w)"
| "gn_msg_proc ctx now (MsgUpdatePowerState st) w = Some (updateSystemPowerState st w)"
| "gn_msg_proc ctx now (MsgConfigMinGpsWeek i week) w = Some (configMinGpsWeek i week now w)"
| "gn_msg_proc ctx now (MsgUpdateSvConfig i types ids) w = Some (update_sv_config i types ids now w)"
| "gn_msg_proc ctx now (GnOdcpiMsg m) w = gn_odcpi m w"
| "gn_msg_proc ctx now (MsgEnableNtrip p) w = Some (gn_dgnss (handleEnablePPENtrip (gn_isInSession (gna w)) now p) w)"
| "gn_msg_proc ctx now MsgDisableNtrip w = Some (gn_dgnss handleDisablePPENtrip w)"
| "gn_msg_proc ctx now (MsgReportGGA gga valid) w = Some (gn_dgnss (dgnss_gga (gn_isInSession (gna w)) now gga valid) w)"
| "gn_msg_proc ctx now (MsgReportNmea nmea) w =
     map_option (\<lambda>(outs, d). (map GnDgnssOut outs, w\<lparr>gna := (gna w)\<lparr>mDgnss := d\<rparr>\<rparr>))
       (reportGGAToNtrip (gn_isInSession (gna w)) now nmea (mDgnss (gna w)))"
| "gn_msg_proc ctx now (GnResponse k err) w = Some (gn_cont_proc (loc_context.truncate ctx) now k err w)"
| "gn_msg_proc ctx now (GnPended p m) w =
     (if p \<in> set (gn_deleted w) then None else gn_msg_proc ctx now m (w\<lparr>gn_deleted := p # gn_deleted w\<rparr>))"

text \<open>
  The steps. A command returns the identifier drawn from the counter; the time since boot comes with
  the step that processes a message. \<open>GnAnswer n\<close> is the answer to the request at position \<open>n\<close> of
  those that wait: the engine may answer in any order. The call that saves the callback for the power
  state also reports the present state, \<open>SavePowerStateCb\<close>; later reports are \<open>PowerStateCb\<close>.
\<close>

datatype gn_op =
    StartTrackingCommand addr trk_options
  | UpdateTrackingOptionsCommand addr u32 trk_options
  | StopTrackingCommand addr u32
  | GnAddClientCommand addr location_callbacks
  | GnRemoveClientCommand addr bool
  | GnRequestCapabilitiesCommand addr
  | GnEngineUpEvent
  | GnEngineLockEvent engine_lock
  | GetPowerStateChangesCommand
  | UpdateSystemPowerStateCommand u32
  | ConfigMinGpsWeekCommand "16 word"
  | GnssUpdateSvConfigCommand sv_type_config sv_id_config
  | GnRequestOdcpi odcpi_request
  | GnInitOdcpi nat u32
  | GnOdcpiTimerFires
  | EnableNtripCommand ntrip_params
  | DisableNtripCommand
  | NtripConsentCommand bool
  | ReportGGA string bool
  | ReportNmea string
  | NHzRequirement bool bool
  | GnAnswer nat location_error
  | GnProcNext u64

fun gn_step :: "gnss_context \<Rightarrow> gn_op \<Rightarrow> gn_world \<Rightarrow> (gn_out list \<times> gn_world) option" where
  "gn_step ctx (StartTrackingCommand client os) w =
     (let i = generateSessionId (gn_counter w) in Some (gn_send [MsgStartTracking client i os] (w\<lparr>gn_counter := i\<rparr>)))"
| "gn_step ctx (UpdateTrackingOptionsCommand client i os) w = Some (gn_send [MsgUpdateTracking client i os] w)"
| "gn_step ctx (StopTrackingCommand client i) w = Some (gn_send [MsgStopTracking client i] w)"
| "gn_step ctx (GnAddClientCommand client cbs) w = Some (gn_send [GnAddClient client cbs] w)"
| "gn_step ctx (GnRemoveClientCommand client hasCb) w = Some (gn_send [GnRemoveClient client hasCb] w)"
| "gn_step ctx (GnRequestCapabilitiesCommand client) w = Some (gn_send [GnRequestCapabilities client] w)"
| "gn_step ctx GnEngineUpEvent w = Some (gn_send [MsgHandleEngineUpEvent] w)"
| "gn_step ctx (GnEngineLockEvent st) w = Some (gn_send [MsgEngineLockStateEvent st] (w\<lparr>gn_lock := st\<rparr>))"
| "gn_step ctx GetPowerStateChangesCommand w = Some (gn_send [MsgPowerStateCb] w)"
| "gn_step ctx (UpdateSystemPowerStateCommand st) w = Some (gn_send [MsgUpdatePowerState st] w)"
| "gn_step ctx (ConfigMinGpsWeekCommand week) w =
     (let i = generateSessionId (gn_counter w) in Some (gn_send [MsgConfigMinGpsWeek i week] (w\<lparr>gn_counter := i\<rparr>)))"
| "gn_step ctx (GnssUpdateSvConfigCommand types ids) w =
     (let i = generateSessionId (gn_counter w)
      in Some (gn_send (if i \<noteq> 0 then [MsgUpdateSvConfig i types ids] else []) (w\<lparr>gn_counter := i\<rparr>)))"
| "gn_step ctx (GnRequestOdcpi r) w = Some (gn_send [GnOdcpiMsg (MsgRequestOdcpi r)] w)"
| "gn_step ctx (GnInitOdcpi cb p) w = Some (gn_send [GnOdcpiMsg (MsgInitOdcpi (Some cb) p)] w)"
| "gn_step ctx GnOdcpiTimerFires w =
     Some (if odcpi_armed (mOdcpi (gna w))
           then gn_then (gn_upd (\<lambda>a. a\<lparr>mOdcpi := (mOdcpi a)\<lparr>odcpi_armed := False\<rparr>\<rparr>)) (gn_send [GnOdcpiMsg MsgOdcpiTimerExpire]) w
           else ([], w))"
| "gn_step ctx (EnableNtripCommand p) w = Some (if valid_ntrip p then gn_send [MsgEnableNtrip p] w else ([], w))"
| "gn_step ctx DisableNtripCommand w = Some (gn_send [MsgDisableNtrip] w)"
| "gn_step ctx (NtripConsentCommand b) w = Some (gn_upd (\<lambda>a. a\<lparr>mDgnss := (mDgnss a)\<lparr>mSendNmeaConsent := b\<rparr>\<rparr>) w)"
| "gn_step ctx (ReportGGA gga valid) w = Some (gn_send [MsgReportGGA gga valid] w)"
| "gn_step ctx (ReportNmea nmea) w = Some (gn_send [MsgReportNmea nmea] w)"
| "gn_step ctx (NHzRequirement a b) w = Some (updateNHzRequirement a b w)"
| "gn_step ctx (GnAnswer n err) w =
     Some (case drop n (gn_calls w) of
         [] \<Rightarrow> ([], w)
       | (c, None) # cs \<Rightarrow> ([], w\<lparr>gn_calls := take n (gn_calls w) @ cs\<rparr>)
       | (c, Some k) # cs \<Rightarrow> gn_send [GnResponse k err] (w\<lparr>gn_calls := take n (gn_calls w) @ cs\<rparr>))"
| "gn_step ctx (GnProcNext now) w =
     (case gn_queue w of [] \<Rightarrow> Some ([], w) | m # ms \<Rightarrow> gn_msg_proc ctx now m (w\<lparr>gn_queue := ms\<rparr>))"

definition gn_start :: gn_world where
  "gn_start =
     \<lparr>gna = \<lparr>mClientData = [], mIsEngineCapabilitiesKnown = False, mPendingMsgs = [], mPendingGnssEnabledMsgs = [],
        mTimeBasedTrackingSessions = [], mDistanceBasedTrackingSessions = [],
        mLocPositionMode = default_pos_mode\<lparr>pm_mode := LOC_POSITION_MODE_INVALID\<rparr>, mNHzNeeded = False,
        mSPEAlreadyRunningAtHighestInterval = False, mPowerOn = False, mPowerStateCb = False, mControlResponseCb = False,
        mSystemPowerState = 0, mPrevNmeaRptTimeNsec = 0, mLocSystemInfo = 0, mDgnss = dgnss_init, mOdcpi = odcpi_init,
        mSv = sv_state_init\<rparr>,
      gn_lock = ENGINE_LOCK_STATE_ENABLED, gn_evt = 0, gn_queue = [], gn_calls = [], gn_counter = SESSION_ID_START,
      gn_next = 0, gn_deleted = []\<rparr>"

end
