(* ===== verification/Gnss_Sessions.thy ===== *)
theory Gnss_Sessions
  imports Gnss_Tracking
begin

text \<open>
  The sessions that the GNSS adapter keeps: whether it tells that the engine is in use, and what is
  true of the options of every session. Actions are related to what they report by a relation that
  is reflexive and transitive; the contract of such a relation is a locale.
\<close>

section \<open>Relations between worlds\<close>

definition obeys :: "(gn_world \<Rightarrow> gn_out list \<Rightarrow> gn_world \<Rightarrow> bool) \<Rightarrow> gn_act \<Rightarrow> bool" where
  "obeys R f \<longleftrightarrow> (\<forall>w. R w (fst (f w)) (snd (f w)))"

locale action_relation =
  fixes R :: "gn_world \<Rightarrow> gn_out list \<Rightarrow> gn_world \<Rightarrow> bool"
  assumes refl: "R w [] w"
    and trans: "R w o1 w1 \<Longrightarrow> R w1 o2 w2 \<Longrightarrow> R w (o1 @ o2) w2"
begin

lemma then_rel: "R w (fst (f w)) (snd (f w)) \<Longrightarrow> obeys R g \<Longrightarrow> R w (fst (gn_then f g w)) (snd (gn_then f g w))"
  by (auto simp: gn_then_def obeys_def split_beta Let_def intro: trans)

lemma then_obeys: "obeys R f \<Longrightarrow> obeys R g \<Longrightarrow> obeys R (gn_then f g)"
  by (simp add: obeys_def then_rel)

lemma then_both: "obeys R f \<Longrightarrow> obeys R g \<Longrightarrow> R w (fst (gn_then f g w)) (snd (gn_then f g w))"
  using then_obeys by (simp add: obeys_def)

lemma seq_obeys: "list_all (obeys R) fs \<Longrightarrow> obeys R (gn_seq fs)"
  by (induction fs) (auto simp: obeys_def refl then_rel)

lemma seq_rel: "list_all (obeys R) fs \<Longrightarrow> R w (fst (gn_seq fs w)) (snd (gn_seq fs w))"
  using seq_obeys by (simp add: obeys_def)

lemma obeysD: "obeys R f \<Longrightarrow> R w (fst (f w)) (snd (f w))"
  by (simp add: obeys_def)

lemma run_rel:
  assumes "\<And>x w outs w'. step x w = Some (outs, w') \<Longrightarrow> R w outs w'"
  shows "run_ops step xs w = Some (outs, w') \<Longrightarrow> R w (concat outs) w'"
proof (induction xs arbitrary: w outs)
  case Nil
  then show ?case using refl by simp
next
  case (Cons x xs)
  then obtain o1 w1 os where "step x w = Some (o1, w1)" "run_ops step xs w1 = Some (os, w')" "outs = o1 # os"
    by (auto split: option.splits)
  with trans [OF assms Cons.IH] show ?case by simp
qed

end

section \<open>Actions that leave the sessions alone\<close>

text \<open>Each report with whether it is the one made when the callback is saved.\<close>

definition power_reports :: "gn_out list \<Rightarrow> (bool \<times> bool) list" where
  "power_reports outs =
     concat (map (\<lambda>x. case x of PowerStateCb b \<Rightarrow> [(False, b)] | SavePowerStateCb b \<Rightarrow> [(True, b)] | _ \<Rightarrow> []) outs)"

text \<open>What somebody knows who hears the reports (None before the callback is saved), or None when a
  report is out of place: the one made when a callback is saved repeats what is known already, every
  other one is a change.\<close>

fun follow_power :: "bool option \<Rightarrow> (bool \<times> bool) list \<Rightarrow> bool option option" where
  "follow_power known [] = Some known"
| "follow_power known ((saved, b) # rs) =
     (if (if saved then known = None \<or> known = Some b else known = Some (\<not> b)) then follow_power (Some b) rs else None)"

lemma follow_append: "follow_power known (rs @ rs') = Option.bind (follow_power known rs) (\<lambda>k. follow_power k rs')"
  by (induction known rs rule: follow_power.induct) auto

lemma power_reports_append [simp]: "power_reports (xs @ ys) = power_reports xs @ power_reports ys"
  by (simp add: power_reports_def)

lemma power_reports_Nil [simp]: "power_reports [] = []"
  by (simp add: power_reports_def)

definition same_sessions :: "gn_world \<Rightarrow> gn_out list \<Rightarrow> gn_world \<Rightarrow> bool" where
  "same_sessions w outs w' \<longleftrightarrow>
     mTimeBasedTrackingSessions (gna w') = mTimeBasedTrackingSessions (gna w) \<and>
     mDistanceBasedTrackingSessions (gna w') = mDistanceBasedTrackingSessions (gna w) \<and>
     mPowerOn (gna w') = mPowerOn (gna w) \<and> mPowerStateCb (gna w') = mPowerStateCb (gna w) \<and> power_reports outs = []"

interpretation ss: action_relation same_sessions
  by unfold_locales (auto simp: same_sessions_def)

lemma power_reports_map [simp]:
  "(\<And>x. x \<in> set xs \<Longrightarrow> \<forall>b. f x \<noteq> PowerStateCb b \<and> f x \<noteq> SavePowerStateCb b) \<Longrightarrow> power_reports (map f xs) = []"
  by (induction xs) (auto simp: power_reports_def split: gn_out.splits)

lemma ss_emit: "power_reports outs = [] \<Longrightarrow> obeys same_sessions (gn_emit outs)"
  by (simp add: obeys_def same_sessions_def gn_emit_def)

lemma ss_upd:
  "(\<And>a. mTimeBasedTrackingSessions (f a) = mTimeBasedTrackingSessions a \<and>
     mDistanceBasedTrackingSessions (f a) = mDistanceBasedTrackingSessions a \<and>
     mPowerOn (f a) = mPowerOn a \<and> mPowerStateCb (f a) = mPowerStateCb a) \<Longrightarrow> obeys same_sessions (gn_upd f)"
  by (simp add: obeys_def same_sessions_def gn_upd_def gn_quiet_def)

lemma ss_call: "obeys same_sessions (gn_call_all cs)"
  by (auto simp: obeys_def same_sessions_def gn_call_all_def intro!: power_reports_map)

lemma ss_call_api: "obeys same_sessions (gn_call_api c k)"
  by (simp add: gn_call_api_def ss_call)

lemma ss_sv_calls: "obeys same_sessions (sv_calls cs)"
  by (simp add: sv_calls_def ss_call)

lemma ss_send: "obeys same_sessions (gn_send ms)"
  by (simp add: obeys_def same_sessions_def gn_send_def gn_quiet_def)

lemma ss_pend: "obeys same_sessions (gn_pend m)"
  by (simp add: obeys_def same_sessions_def gn_pend_def gn_quiet_def)

lemma ss_dgnss: "obeys same_sessions (gn_dgnss f)"
  by (auto simp: obeys_def same_sessions_def gn_dgnss_def split_beta Let_def intro!: power_reports_map)

lemma ss_response: "obeys same_sessions (gn_reportResponse c e i)" "obeys same_sessions (gn_controlResponse e i)"
  by (auto simp: obeys_def same_sessions_def gn_reportResponse_def gn_controlResponse_def power_reports_def split: option.splits)

lemmas ss_prims = ss_emit ss_call ss_call_api ss_sv_calls ss_send ss_pend ss_dgnss ss_response

lemma spe_same:
  assumes "checkAndSetSPEToRunforNHz os a = (b, os', a')"
  shows "mTimeBasedTrackingSessions a' = mTimeBasedTrackingSessions a \<and>
     mDistanceBasedTrackingSessions a' = mDistanceBasedTrackingSessions a \<and>
     mPowerOn a' = mPowerOn a \<and> mPowerStateCb a' = mPowerStateCb a \<and> mClientData a' = mClientData a"
  using assms by (auto simp: checkAndSetSPEToRunforNHz_def split: if_splits)

lemma ss_ask: "obeys same_sessions (ask_engine c i os k)"
  unfolding obeys_def
proof
  fix w :: gn_world
  let ?a = "setLocPositionMode (convertOptions os) (gna w)"
  obtain b os' a' where s: "checkAndSetSPEToRunforNHz os ?a = (b, os', a')" by (cases "checkAndSetSPEToRunforNHz os ?a") auto
  have u: "same_sessions w (fst (gn_upd (\<lambda>_. a') w)) (snd (gn_upd (\<lambda>_. a') w))"
    using spe_same [OF s] by (auto simp: same_sessions_def gn_upd_def gn_quiet_def setLocPositionMode_def)
  show "same_sessions w (fst (ask_engine c i os k w)) (snd (ask_engine c i os k w))"
    using u ss_response(1) [of c LOCATION_ERROR_SUCCESS i] ss_call_api [of "StartTimeBasedTracking os'" "Some k"]
    by (auto simp: ask_engine_def s Let_def gn_then_def gn_emit_def obeys_def split_beta same_sessions_def power_reports_def)
qed

lemma ss_start: "obeys same_sessions (startTimeBasedTracking c i os)" "obeys same_sessions (updateTracking c i os old)"
  by (simp_all add: startTimeBasedTracking_def updateTracking_def ss_ask)

lemma ss_stop: "obeys same_sessions (stopTracking c i)"
  unfolding stopTracking_def
  by (intro ss.seq_obeys) (simp add: ss_prims ss_upd power_reports_def)

text \<open>The multiplexing operations change no session themselves.\<close>

lemma ss_mux:
  "same_sessions w (fst (snd (startTimeBasedTrackingMultiplex c i os w))) (snd (snd (startTimeBasedTrackingMultiplex c i os w)))"
  "same_sessions w (fst (snd (updateTrackingMultiplex c i os w))) (snd (snd (updateTrackingMultiplex c i os w)))"
  "same_sessions w (fst (snd (stopTimeBasedTrackingMultiplex c i w))) (snd (snd (stopTimeBasedTrackingMultiplex c i w)))"
proof -
  have u: "obeys same_sessions (gn_upd (\<lambda>a. a\<lparr>mPrevNmeaRptTimeNsec := 0\<rparr>))" by (rule ss_upd) simp
  show "same_sessions w (fst (snd (startTimeBasedTrackingMultiplex c i os w))) (snd (snd (startTimeBasedTrackingMultiplex c i os w)))"
    using ss.obeysD [OF ss_start(1)] ss.obeysD [OF ss.then_obeys [OF u ss_start(1)]] ss.refl [of w]
    by (simp add: startTimeBasedTrackingMultiplex_def Let_def split_beta)
  show "same_sessions w (fst (snd (updateTrackingMultiplex c i os w))) (snd (snd (updateTrackingMultiplex c i os w)))"
    using ss.obeysD [OF ss_start(2)] ss.refl [of w]
    by (simp add: updateTrackingMultiplex_def Let_def split_beta split: option.split)
  show "same_sessions w (fst (snd (stopTimeBasedTrackingMultiplex c i w))) (snd (snd (stopTimeBasedTrackingMultiplex c i w)))"
    using ss.obeysD [OF ss_stop] ss.obeysD [OF ss_start(1)] ss.refl [of w]
    by (simp add: stopTimeBasedTrackingMultiplex_def Let_def split_beta split: option.split)
qed

lemma ss_restart_time: "obeys same_sessions checkAndRestartTimeBasedSession"
  unfolding obeys_def
proof
  fix w :: gn_world
  let ?os = "restart_options (map snd (mTimeBasedTrackingSessions (gna w)))"
  obtain b os' a' where s: "checkAndSetSPEToRunforNHz ?os (gna w) = (b, os', a')"
    by (cases "checkAndSetSPEToRunforNHz ?os (gna w)") auto
  have u: "same_sessions w (fst (gn_upd (\<lambda>_. a') w)) (snd (gn_upd (\<lambda>_. a') w))"
    using spe_same [OF s] by (auto simp: same_sessions_def gn_upd_def gn_quiet_def)
  have c: "obeys same_sessions (if b then gn_emit [] else gn_call_api (StartTimeBasedTracking os') None)"
    by (simp add: ss_prims)
  show "same_sessions w (fst (checkAndRestartTimeBasedSession w)) (snd (checkAndRestartTimeBasedSession w))"
    using ss.then_rel [where f = "gn_upd (\<lambda>_. a')", OF u c] ss.refl
    by (simp add: checkAndRestartTimeBasedSession_def s Let_def)
qed

lemma ss_restart_spe: "obeys same_sessions checkAndRestartSPESession"
proof -
  have "obeys same_sessions restart_distance" using ss.obeysD [OF ss_call] by (simp add: restart_distance_def obeys_def)
  moreover have "obeys same_sessions (gn_upd (\<lambda>a. a\<lparr>mSPEAlreadyRunningAtHighestInterval := False\<rparr>))" by (rule ss_upd) simp
  ultimately show ?thesis unfolding checkAndRestartSPESession_def
    by (intro ss.seq_obeys) (simp add: ss_restart_time)
qed

lemma ss_restart: "obeys same_sessions (gn_restartSessions ssr now)"
  unfolding obeys_def gn_restartSessions_def
  by (intro allI ss.seq_rel)
    (auto simp: ss_restart_spe ss_prims power_reports_def split: if_splits intro!: ss_upd ss.then_obeys)

lemma ss_suspend: "obeys same_sessions suspendSessions"
proof -
  have "obeys same_sessions (gn_seq [gn_emit [HubStopFix], gn_call_api StopFix None, gn_dgnss dgnss_session_stopped,
      gn_upd (\<lambda>a. a\<lparr>mSPEAlreadyRunningAtHighestInterval := False\<rparr>)])"
    by (intro ss.seq_obeys) (simp add: ss_prims ss_upd power_reports_def)
  then show ?thesis using ss.refl by (simp add: obeys_def suspendSessions_def)
qed


section \<open>Whether the engine is in use\<close>

definition power_ok :: "gn_world \<Rightarrow> bool" where
  "power_ok w \<longleftrightarrow> mPowerOn (gna w) =
     (mTimeBasedTrackingSessions (gna w) \<noteq> [] \<or> mDistanceBasedTrackingSessions (gna w) \<noteq> [])"

definition power_known :: "gn_world \<Rightarrow> bool option" where
  "power_known w = (if mPowerStateCb (gna w) then Some (mPowerOn (gna w)) else None)"

definition power_rel :: "gn_world \<Rightarrow> gn_out list \<Rightarrow> gn_world \<Rightarrow> bool" where
  "power_rel w outs w' \<longleftrightarrow> (power_ok w \<longrightarrow> power_ok w' \<and> follow_power (power_known w) (power_reports outs) = Some (power_known w'))"

interpretation pw: action_relation power_rel
proof unfold_locales
  fix w o1 w1 o2 w2
  assume "power_rel w o1 w1" "power_rel w1 o2 w2"
  then show "power_rel w (o1 @ o2) w2" by (auto simp: power_rel_def follow_append)
qed (simp add: power_rel_def)

lemma ss_power: "same_sessions w outs w' \<Longrightarrow> power_rel w outs w'"
  by (auto simp: same_sessions_def power_rel_def power_ok_def power_known_def)

lemma ss_power_obeys: "obeys same_sessions f \<Longrightarrow> obeys power_rel f"
  by (simp add: obeys_def ss_power)

lemma pw_report:
  assumes "mPowerOn (f a) = mPowerOn a" "mPowerStateCb (f a) = mPowerStateCb a" "a = gna w"
  shows "power_rel w (fst (gn_then (gn_upd f) reportPowerStateIfChanged w)) (snd (gn_then (gn_upd f) reportPowerStateIfChanged w))"
  using assms by (auto simp: gn_then_def gn_upd_def gn_quiet_def reportPowerStateIfChanged_def Let_def power_rel_def
      power_ok_def power_known_def power_reports_def)

lemma pw_save: "obeys power_rel (saveTrackingSession ctx c i os)"
  unfolding obeys_def saveTrackingSession_def by (intro allI pw_report) (simp_all add: put_session_def)

lemma pw_erase: "obeys power_rel (eraseTrackingSession c i)"
  unfolding obeys_def eraseTrackingSession_def by (intro allI pw_report) (simp_all add: drop_session_def)

lemma pw_mux_then:
  assumes "\<And>w. power_rel w (fst (snd (f w))) (snd (snd (f w)))" and "obeys power_rel k"
  shows "obeys power_rel (mux_then c i f k)"
  unfolding obeys_def
proof
  fix w :: gn_world
  have r: "obeys power_rel (if fst (f w) then gn_reportResponse c LOCATION_ERROR_SUCCESS i else gn_emit [])"
    by (simp add: ss_power_obeys ss_prims)
  show "power_rel w (fst (mux_then c i f k w)) (snd (mux_then c i f k w))"
    using pw.then_rel [where f = "\<lambda>_. snd (f w)", OF assms(1) pw.seq_obeys, of "[k, if fst (f w) then gn_reportResponse c LOCATION_ERROR_SUCCESS i else gn_emit []]"]
      assms(2) r by (simp add: mux_then_def split_beta)
qed

lemmas pw_prims = pw_save pw_erase ss_power_obeys [OF ss_call] ss_power_obeys [OF ss_call_api]
  ss_power_obeys [OF ss_send] ss_power_obeys [OF ss_pend] ss_power_obeys [OF ss_dgnss] ss_power_obeys [OF ss_response(1)]
  ss_power_obeys [OF ss_response(2)] ss_power_obeys [OF ss_suspend] ss_power_obeys [OF ss_restart] ss_power_obeys [OF ss_sv_calls]
  pw_mux_then [OF ss_power [OF ss_mux(1)] pw_save] pw_mux_then [OF ss_power [OF ss_mux(2)] pw_save]
  pw_mux_then [OF ss_power [OF ss_mux(3)] pw_erase]

lemma pw_emit: "power_reports outs = [] \<Longrightarrow> obeys power_rel (gn_emit outs)"
  by (rule ss_power_obeys [OF ss_emit])

lemma pw_upd:
  "(\<And>a. mTimeBasedTrackingSessions (f a) = mTimeBasedTrackingSessions a \<and>
     mDistanceBasedTrackingSessions (f a) = mDistanceBasedTrackingSessions a \<and>
     mPowerOn (f a) = mPowerOn a \<and> mPowerStateCb (f a) = mPowerStateCb a) \<Longrightarrow> obeys power_rel (gn_upd f)"
  by (rule ss_power_obeys [OF ss_upd])

text \<open>The handlers.\<close>

lemma pw_start_proc: "obeys power_rel (start_tracking_proc ctx c i os)"
  unfolding obeys_def start_tracking_proc_def Let_def
  using pw.refl by (auto intro!: pw.obeysD pw.then_obeys pw_prims)

lemma pw_update_proc: "obeys power_rel (update_tracking_proc ctx c i os)"
  unfolding obeys_def update_tracking_proc_def Let_def
  using pw.refl by (auto intro!: pw.obeysD pw.then_obeys pw.seq_obeys pw_prims)

lemma pw_stop_proc: "obeys power_rel (stop_tracking_proc c i)"
  unfolding obeys_def stop_tracking_proc_def
  by (auto intro!: pw.obeysD pw_prims)

lemma pw_stop_time: "obeys power_rel (stop_time_sessions ks)"
proof (induction ks)
  case (Cons k ks)
  show ?case unfolding obeys_def
  proof
    fix w :: gn_world
    let ?r = "stopTimeBasedTrackingMultiplex (key_client k) (key_id k) w"
    have "power_rel w (fst (snd ?r)) (snd (snd ?r))" by (rule ss_power [OF ss_mux(3)])
    from pw.then_rel [where f = "\<lambda>_. snd ?r", OF this
        pw.then_obeys [OF pw_erase [of "key_client k" "key_id k"] Cons.IH]]
    show "power_rel w (fst (stop_time_sessions (k # ks) w)) (snd (stop_time_sessions (k # ks) w))"
      by (simp add: split_beta gn_then_def gn_emit_def Let_def)
  qed
qed (simp add: obeys_def pw.refl)

lemma pw_remove: "obeys power_rel (gn_removeClient ctx c b)"
proof -
  have s: "obeys power_rel (gn_stopClientSessions c)"
    unfolding obeys_def gn_stopClientSessions_def
    by (intro allI pw.obeysD pw.then_obeys pw_stop_time) (simp add: obeys_def pw.obeysD [OF pw_prims(3)])
  have m: "obeys power_rel (gn_updateClientsEventMask ctx)"
    by (rule ss_power_obeys) (auto simp: obeys_def same_sessions_def gn_updateClientsEventMask_def intro!: power_reports_map)
  show ?thesis unfolding gn_removeClient_def
    by (intro pw.seq_obeys) (auto simp: s m power_reports_def intro!: pw_emit pw_upd)
qed

lemma pw_add: "obeys power_rel (gn_addClient ctx c cbs)"
proof -
  have n: "obeys power_rel (notifyClientOfCachedLocationSystemInfo c cbs)"
    by (rule ss_power_obeys) (simp add: obeys_def same_sessions_def notifyClientOfCachedLocationSystemInfo_def power_reports_def)
  have m: "obeys power_rel (gn_updateClientsEventMask ctx)"
    by (rule ss_power_obeys) (auto simp: obeys_def same_sessions_def gn_updateClientsEventMask_def intro!: power_reports_map)
  show ?thesis unfolding gn_addClient_def
    by (intro pw.seq_obeys) (auto simp: n m intro!: pw_upd)
qed

lemma pw_power: "obeys power_rel (updateSystemPowerState st)"
  unfolding updateSystemPowerState_def by (auto intro!: pw.then_obeys pw_prims pw_upd pw_emit)

lemma pw_engine_up: "obeys power_rel (gn_engine_up ctx now)"
proof -
  have b: "power_reports (map (\<lambda>(c, m). GnCapabilitiesCb c m) xs) = []" for xs by (rule power_reports_map) auto
  show ?thesis unfolding obeys_def gn_engine_up_def Let_def
    by (intro allI pw.seq_rel) (auto simp: b pw_power power_reports_def intro!: pw_emit pw_upd pw_prims pw.then_obeys)
qed

lemma pw_lock: "obeys power_rel (gn_handleEngineLockStatus st)"
  unfolding obeys_def gn_handleEngineLockStatus_def
  using pw.refl by (auto intro!: pw.then_both pw_prims pw_upd)

lemma pw_config: "obeys power_rel (configMinGpsWeek i week now)"
  unfolding configMinGpsWeek_def by (intro pw.seq_obeys) (simp add: pw_prims)

lemma pw_sv: "obeys power_rel (update_sv_config i types ids now)"
  unfolding obeys_def update_sv_config_def Let_def split_beta
  by (intro allI pw.seq_rel) (auto intro!: pw_prims pw_upd)

lemma pw_cont: "obeys power_rel (gn_cont_proc ctx now k err)"
  unfolding obeys_def
proof
  fix w :: gn_world
  show "power_rel w (fst (gn_cont_proc ctx now k err w)) (snd (gn_cont_proc ctx now k err w))"
    by (cases k) (auto simp: power_reports_def intro!: pw.refl pw.then_both pw_prims pw_emit pw_prims [THEN pw.obeysD])
qed

lemma pw_caps: "obeys power_rel (gn_requestCapabilities ctx c)"
proof -
  have b: "power_reports (map (\<lambda>(c, m). GnCapabilitiesCb c m) xs) = []" for xs by (rule power_reports_map) auto
  have "obeys same_sessions (gn_requestCapabilities ctx c)"
    using ss.obeysD [OF ss_pend] by (simp add: obeys_def gn_requestCapabilities_def same_sessions_def b)
  then show ?thesis by (rule ss_power_obeys)
qed

lemma pw_odcpi:
  assumes "gn_odcpi m w = Some (outs, w')"
  shows "power_rel w outs w'"
  using assms by (auto simp: gn_odcpi_def intro!: ss_power)
    (auto simp: same_sessions_def intro!: power_reports_map)


lemma pw_fields [simp]:
  "power_rel (w\<lparr>gn_deleted := d\<rparr>) outs w' = power_rel w outs w'" "power_rel (w\<lparr>gn_queue := q\<rparr>) outs w' = power_rel w outs w'"
  "power_rel (w\<lparr>gn_calls := cs\<rparr>) outs w' = power_rel w outs w'" "power_rel (w\<lparr>gn_counter := n\<rparr>) outs w' = power_rel w outs w'"
  "power_rel (w\<lparr>gn_lock := l\<rparr>) outs w' = power_rel w outs w'"
  by (simp_all add: power_rel_def power_ok_def power_known_def)

lemma pw_msg: "gn_msg_proc ctx now m w = Some (outs, w') \<Longrightarrow> power_rel w outs w'"
proof (induction m arbitrary: w)
  case MsgPowerStateCb
  then show ?case
    by (auto simp: gn_then_def gn_upd_def gn_quiet_def gn_emit_def power_rel_def power_ok_def power_known_def power_reports_def)
next
  case (MsgReportNmea s)
  then show ?case by (auto intro!: ss_power) (auto simp: same_sessions_def intro!: power_reports_map)
next
  case (GnPended p m)
  then have "gn_msg_proc ctx now m (w\<lparr>gn_deleted := p # gn_deleted w\<rparr>) = Some (outs, w')" by (auto split: if_splits)
  from GnPended.IH [OF this] show ?case by simp
qed (auto dest: pw_odcpi simp: prod_eq_iff intro: pw_start_proc [THEN pw.obeysD] pw_update_proc [THEN pw.obeysD]
  pw_stop_proc [THEN pw.obeysD] pw_add [THEN pw.obeysD] pw_remove [THEN pw.obeysD] pw_engine_up [THEN pw.obeysD]
  pw_lock [THEN pw.obeysD] pw_power [THEN pw.obeysD] pw_config [THEN pw.obeysD] pw_sv [THEN pw.obeysD]
  pw_cont [THEN pw.obeysD] pw_caps [THEN pw.obeysD] pw_prims(7) [THEN pw.obeysD])


lemma pw_nhz: "obeys power_rel (updateNHzRequirement a b)"
  unfolding obeys_def
proof
  fix w :: gn_world
  have r: "power_rel v (fst (gn_then (gn_upd (\<lambda>x. x\<lparr>mNHzNeeded := a\<rparr>)) checkAndRestartSPESession v))
      (snd (gn_then (gn_upd (\<lambda>x. x\<lparr>mNHzNeeded := a\<rparr>)) checkAndRestartSPESession v))" for v
    by (intro pw.then_both pw_upd ss_power_obeys [OF ss_restart_spe]) simp
  have e: "power_rel (w\<lparr>gn_evt := e\<rparr>) outs w' = power_rel w outs w'" for e outs w'
    by (simp add: power_rel_def power_ok_def power_known_def)
  have n: "power_rel w [] (w\<lparr>gn_evt := e\<rparr>)" for e by (simp add: power_rel_def power_ok_def power_known_def)
  show "power_rel w (fst (updateNHzRequirement a b w)) (snd (updateNHzRequirement a b w))"
    using r r [of "w\<lparr>gn_evt := _\<rparr>", unfolded e] pw.refl [of w] n by (simp add: updateNHzRequirement_def Let_def)
qed

lemma pw_sends:
  "power_rel w (fst (gn_send ms w)) (snd (gn_send ms w))"
  "power_rel w (fst (gn_send ms (w\<lparr>gn_counter := n\<rparr>))) (snd (gn_send ms (w\<lparr>gn_counter := n\<rparr>)))"
  "power_rel w (fst (gn_send ms (w\<lparr>gn_lock := l\<rparr>))) (snd (gn_send ms (w\<lparr>gn_lock := l\<rparr>)))"
  "power_rel w (fst (gn_send ms (w\<lparr>gn_calls := cs\<rparr>))) (snd (gn_send ms (w\<lparr>gn_calls := cs\<rparr>)))"
  using pw_prims(5) [THEN pw.obeysD, of w ms] pw_prims(5) [THEN pw.obeysD, of "w\<lparr>gn_counter := n\<rparr>" ms]
    pw_prims(5) [THEN pw.obeysD, of "w\<lparr>gn_lock := l\<rparr>" ms] pw_prims(5) [THEN pw.obeysD, of "w\<lparr>gn_calls := cs\<rparr>" ms]
  by simp_all

lemma pw_step: "gn_step ctx x w = Some (outs, w') \<Longrightarrow> power_rel w outs w'"
proof (cases x)
  case (GnAnswer n err)
  have "power_rel w [] (w\<lparr>gn_calls := cs\<rparr>)" for cs by (simp add: power_rel_def power_ok_def power_known_def)
  then show "gn_step ctx x w = Some (outs, w') \<Longrightarrow> power_rel w outs w'"
    using GnAnswer pw_sends(4) pw.refl [of w] by (auto simp: prod_eq_iff split: list.splits option.splits)
next
  case (GnProcNext now)
  then show "gn_step ctx x w = Some (outs, w') \<Longrightarrow> power_rel w outs w'"
    using pw_msg [where w = "w\<lparr>gn_queue := _\<rparr>"] pw.refl [of w] by (auto split: list.splits)
next
  case GnOdcpiTimerFires
  have "power_rel w (fst (gn_then (gn_upd f) (gn_send ms) w)) (snd (gn_then (gn_upd f) (gn_send ms) w))"
    if "f = (\<lambda>a. a\<lparr>mOdcpi := g (mOdcpi a)\<rparr>)" for f g ms using that by (intro pw.then_both pw_prims pw_upd) simp
  then show "gn_step ctx x w = Some (outs, w') \<Longrightarrow> power_rel w outs w'"
    using GnOdcpiTimerFires pw.refl [of w] by (auto simp: prod_eq_iff split: if_splits)
next
  case (NtripConsentCommand b)
  have "obeys power_rel (gn_upd (\<lambda>a. a\<lparr>mDgnss := (mDgnss a)\<lparr>mSendNmeaConsent := b\<rparr>\<rparr>))" by (rule pw_upd) simp
  then show "gn_step ctx x w = Some (outs, w') \<Longrightarrow> power_rel w outs w'"
    using NtripConsentCommand by (auto simp: prod_eq_iff dest: pw.obeysD [where w = w])
qed (use pw.refl [of w] in \<open>auto simp: prod_eq_iff Let_def pw_sends pw_nhz [THEN pw.obeysD] split: if_splits\<close>)

text \<open>C13. In every state that the adapter can reach, with any answers of the engine in any order and in
any interleaving, it takes the engine to be in use exactly when a session by time or by distance
exists. Somebody who hears the reports knows this state from the moment the callback is saved on: the
callback is told the state when it is saved, afterwards each report differs from the one before it, so
that no change is reported twice, and the last report is the present state, so that none is missed.\<close>

theorem gnss_power_state_exact:
  assumes "run_ops (gn_step ctx) xs gn_start = Some (outs, w)"
  shows "mPowerOn (gna w) = (mTimeBasedTrackingSessions (gna w) \<noteq> [] \<or> mDistanceBasedTrackingSessions (gna w) \<noteq> []) \<and>
    follow_power None (power_reports (concat outs)) = Some (if mPowerStateCb (gna w) then Some (mPowerOn (gna w)) else None)"
proof -
  from pw.run_rel [of "gn_step ctx", OF pw_step assms]
  have "power_rel gn_start (concat outs) w" .
  moreover have "power_ok gn_start" "power_known gn_start = None" by (simp_all add: power_ok_def power_known_def gn_start_def)
  ultimately show ?thesis by (auto simp: power_rel_def power_ok_def power_known_def)
qed

definition gn_ctx :: gnss_context where
  "gn_ctx = \<lparr>sSupportedMsgMask = 0, sFeaturesSupported = replicate 100 0, sGnssMeasurementSupported = False,
     ctx_CAPABILITIES = 0, ctx_SUPL_MODE = 0, ext_dr_enabled = False, has_eng_hub = False, agps_registered = False,
     log_enabled = False, mNmeaMask = 0, qwes_status = 0\<rparr>"

definition gn_callbacks :: location_callbacks where
  "gn_callbacks = no_callbacks\<lparr>responseCb := True, trackingCb := True, capabilitiesCb := True\<rparr>"

definition trk :: "u32 \<Rightarrow> u32 \<Rightarrow> trk_options" where
  "trk interval p = zero_options\<lparr>to_size := SIZEOF_TRACKING_OPTIONS, minInterval := interval, powerMode := p\<rparr>"

text \<open>A client that starts one session, the first answer of the engine included.\<close>

definition gn_demo :: "gn_op list" where
  "gn_demo = [GnAddClientCommand 1 gn_callbacks, GetPowerStateChangesCommand, StartTrackingCommand 1 (trk 1000 1),
     GnProcNext 1, GnProcNext 2, GnProcNext 3, GnAnswer 0 LOCATION_ERROR_SUCCESS, GnProcNext 4]"

lemma gn_demo_ends: "\<exists>outs w. run_ops (gn_step gn_ctx) gn_demo gn_start = Some (outs, w) \<and> mPowerOn (gna w) \<and>
    power_reports (concat outs) = [(True, False), (False, True)]"
proof -
  have "case run_ops (gn_step gn_ctx) gn_demo gn_start of None \<Rightarrow> False
    | Some (outs, w) \<Rightarrow> mPowerOn (gna w) \<and> power_reports (concat outs) = [(True, False), (False, True)]" by code_simp
  then show ?thesis by (auto split: option.splits)
qed

lemma gnss_power_state_exact_witness:
  "\<exists>outs w. run_ops (gn_step gn_ctx) gn_demo gn_start = Some (outs, w) \<and>
     power_reports (concat outs) = [(True, False), (False, True)] \<and> mPowerStateCb (gna w) \<and>
     (mTimeBasedTrackingSessions (gna w) \<noteq> [] \<or> mDistanceBasedTrackingSessions (gna w) \<noteq> [])"
proof -
  obtain outs w where r: "run_ops (gn_step gn_ctx) gn_demo gn_start = Some (outs, w)" "mPowerOn (gna w)"
    "power_reports (concat outs) = [(True, False), (False, True)]" using gn_demo_ends by blast
  from gnss_power_state_exact [OF r(1)] r(2,3) show ?thesis using r(1) by (auto split: if_splits)
qed

end
