(* ===== verification/Gnss_Dgnss_Run.thy ===== *)
theory Gnss_Dgnss_Run
  imports Gnss_Sessions
begin

text \<open>
  Runs of the source of differential corrections: in the whole GNSS adapter the stream runs exactly
  while it is marked as started, which needs the command and a session, and the steps that break this
  are two; positions are not sent more often than every ten minutes; and what is taken out of an NMEA
  report.
\<close>

section \<open>The stream\<close>

text \<open>Whether the stream runs: the observer keeps the text to restart it from start to stop.\<close>

fun dg_emit :: "dgnss_out list \<Rightarrow> bool \<Rightarrow> bool" where
  "dg_emit [] b = b"
| "dg_emit (StartDgnssSource p s # xs) b = dg_emit xs True"
| "dg_emit (StopDgnssSource # xs) b = dg_emit xs False"
| "dg_emit (UpdateNmeaToDgnssServer s # xs) b = dg_emit xs b"

lemma dg_emit_append: "dg_emit (xs @ ys) b = dg_emit ys (dg_emit xs b)"
  by (induction xs b rule: dg_emit.induct) auto

definition dgnss_outs :: "gn_out list \<Rightarrow> dgnss_out list" where
  "dgnss_outs outs = concat (map (\<lambda>x. case x of GnDgnssOut y \<Rightarrow> [y] | _ \<Rightarrow> []) outs)"

lemma dgnss_outs_simps [simp]:
  "dgnss_outs [] = []" "dgnss_outs (xs @ ys) = dgnss_outs xs @ dgnss_outs ys" "dgnss_outs (map GnDgnssOut ds) = ds"
  "dgnss_outs (map (\<lambda>(c, k). CallApi c) cs) = []" "dgnss_outs (map (\<lambda>(c, m). GnCapabilitiesCb c m) caps) = []"
  "dgnss_outs (map GnOdcpiOut os) = []" "dgnss_outs (map (\<lambda>_. UpdateNmeaMask n) us) = []"
proof -
  show "dgnss_outs (map GnDgnssOut ds) = ds" by (induction ds) (simp_all add: dgnss_outs_def)
qed (auto simp: dgnss_outs_def)

section \<open>The bits of the state\<close>

definition dg_started :: "dgnss \<Rightarrow> bool" where "dg_started d \<longleftrightarrow> bit (mDgnssState d) 2"
definition dg_enabled :: "dgnss \<Rightarrow> bool" where "dg_enabled d \<longleftrightarrow> bit (mDgnssState d) 0"

lemma and_bits: "w AND 1 \<noteq> 0 \<longleftrightarrow> bit w 0" "w AND 4 \<noteq> 0 \<longleftrightarrow> bit w 2" for w :: dgnss_mask
  using and_push_bit_one [of w 0] and_push_bit_one [of w 2] by simp_all

lemma mask_tests:
  "mDgnssState d AND DGNSS_STATE_ENABLE_NTRIP_COMMAND \<noteq> 0 \<longleftrightarrow> dg_enabled d"
  "mDgnssState d AND DGNSS_STATE_NTRIP_SESSION_STARTED \<noteq> 0 \<longleftrightarrow> dg_started d"
  by (simp_all add: dg_enabled_def dg_started_def DGNSS_STATE_ENABLE_NTRIP_COMMAND_def
      DGNSS_STATE_NTRIP_SESSION_STARTED_def and_bits)

lemma mask_waiting:
  "mDgnssState d = DGNSS_STATE_ENABLE_NTRIP_COMMAND OR DGNSS_STATE_NO_NMEA_PENDING \<Longrightarrow> dg_enabled d \<and> \<not> dg_started d"
  by (simp add: dg_enabled_def dg_started_def DGNSS_STATE_ENABLE_NTRIP_COMMAND_def DGNSS_STATE_NO_NMEA_PENDING_def
      bit_or_iff)

lemma started_simps [simp]:
  "dg_started (dg_set DGNSS_STATE_NTRIP_SESSION_STARTED d)"
  "dg_started (dg_set DGNSS_STATE_NO_NMEA_PENDING d) = dg_started d"
  "dg_started (dg_set DGNSS_STATE_ENABLE_NTRIP_COMMAND d) = dg_started d"
  "\<not> dg_started (dg_clear DGNSS_STATE_NTRIP_SESSION_STARTED d)"
  "dg_started (dg_clear DGNSS_STATE_NO_NMEA_PENDING d) = dg_started d"
  "dg_started (dg_clear DGNSS_STATE_ENABLE_NTRIP_COMMAND d) = dg_started d"
  "dg_enabled (dg_set DGNSS_STATE_NTRIP_SESSION_STARTED d) = dg_enabled d"
  "dg_enabled (dg_set DGNSS_STATE_NO_NMEA_PENDING d) = dg_enabled d"
  "dg_enabled (dg_set DGNSS_STATE_ENABLE_NTRIP_COMMAND d)"
  "dg_enabled (dg_clear DGNSS_STATE_NTRIP_SESSION_STARTED d) = dg_enabled d"
  "dg_enabled (dg_clear DGNSS_STATE_NO_NMEA_PENDING d) = dg_enabled d"
  "\<not> dg_enabled (dg_clear DGNSS_STATE_ENABLE_NTRIP_COMMAND d)"
  by (simp_all add: dg_started_def dg_enabled_def dg_set_def dg_clear_def DGNSS_STATE_ENABLE_NTRIP_COMMAND_def
      DGNSS_STATE_NO_NMEA_PENDING_def DGNSS_STATE_NTRIP_SESSION_STARTED_def bit_or_iff bit_and_iff bit_not_iff)

lemma started_fields [simp]:
  "dg_started (d\<lparr>dg_nmea := s\<rparr>) = dg_started d" "dg_enabled (d\<lparr>dg_nmea := s\<rparr>) = dg_enabled d"
  "dg_started (d\<lparr>ntripParams := p\<rparr>) = dg_started d" "dg_enabled (d\<lparr>ntripParams := p\<rparr>) = dg_enabled d"
  "dg_started (d\<lparr>mSendNmeaConsent := b\<rparr>) = dg_started d" "dg_enabled (d\<lparr>mSendNmeaConsent := b\<rparr>) = dg_enabled d"
  "dg_started (d\<lparr>mDgnssLastNmeaBootTimeMilli := t\<rparr>) = dg_started d"
  "dg_enabled (d\<lparr>mDgnssLastNmeaBootTimeMilli := t\<rparr>) = dg_enabled d"
  by (simp_all add: dg_started_def dg_enabled_def)

lemma last_fields [simp]:
  "mDgnssLastNmeaBootTimeMilli (dg_set m d) = mDgnssLastNmeaBootTimeMilli d"
  "mDgnssLastNmeaBootTimeMilli (dg_clear m d) = mDgnssLastNmeaBootTimeMilli d"
  by (simp_all add: dg_set_def dg_clear_def)

text \<open>No other bits are used.\<close>

definition dg_low :: "dgnss \<Rightarrow> bool" where "dg_low d \<longleftrightarrow> (\<forall>n > 2. \<not> bit (mDgnssState d) n)"

lemma mask_bits:
  "bit DGNSS_STATE_NTRIP_SESSION_STARTED n \<longleftrightarrow> n = 2" "bit DGNSS_STATE_NO_NMEA_PENDING n \<longleftrightarrow> n = 1"
  "bit DGNSS_STATE_ENABLE_NTRIP_COMMAND n \<longleftrightarrow> n = 0"
  using bit_push_bit_iff [of 2 "1 :: dgnss_mask" n] bit_push_bit_iff [of 1 "1 :: dgnss_mask" n]
  by (auto simp: DGNSS_STATE_NTRIP_SESSION_STARTED_def DGNSS_STATE_NO_NMEA_PENDING_def DGNSS_STATE_ENABLE_NTRIP_COMMAND_def bit_1_iff)

lemma dg_low_simps [simp]:
  "dg_low (dg_set DGNSS_STATE_NTRIP_SESSION_STARTED d) = dg_low d" "dg_low (dg_set DGNSS_STATE_NO_NMEA_PENDING d) = dg_low d"
  "dg_low (dg_set DGNSS_STATE_ENABLE_NTRIP_COMMAND d) = dg_low d" "dg_low d \<Longrightarrow> dg_low (dg_clear m d)"
  "dg_low (d\<lparr>dg_nmea := s\<rparr>) = dg_low d" "dg_low (d\<lparr>ntripParams := p\<rparr>) = dg_low d"
  "dg_low (d\<lparr>mSendNmeaConsent := b\<rparr>) = dg_low d" "dg_low (d\<lparr>mDgnssLastNmeaBootTimeMilli := t\<rparr>) = dg_low d"
  by (auto simp: dg_low_def dg_set_def dg_clear_def bit_or_iff bit_and_iff mask_bits)

lemma mask_restart:
  assumes "dg_low d"
  shows "mDgnssState (dg_clear DGNSS_STATE_NTRIP_SESSION_STARTED
      (dg_set DGNSS_STATE_NO_NMEA_PENDING (dg_set DGNSS_STATE_ENABLE_NTRIP_COMMAND d))) =
    DGNSS_STATE_ENABLE_NTRIP_COMMAND OR DGNSS_STATE_NO_NMEA_PENDING"
proof (rule bit_word_eqI)
  fix n assume n: "n < LENGTH(16)"
  have "n > 2 \<Longrightarrow> \<not> bit (mDgnssState d) n" using assms by (simp add: dg_low_def)
  moreover have "n = 0 \<or> n = 1 \<or> n = 2 \<or> n > 2" by linarith
  ultimately show "bit (mDgnssState (dg_clear DGNSS_STATE_NTRIP_SESSION_STARTED
      (dg_set DGNSS_STATE_NO_NMEA_PENDING (dg_set DGNSS_STATE_ENABLE_NTRIP_COMMAND d)))) n =
    bit (DGNSS_STATE_ENABLE_NTRIP_COMMAND OR DGNSS_STATE_NO_NMEA_PENDING) n"
    using n by (auto simp: dg_set_def dg_clear_def bit_or_iff bit_and_iff bit_not_iff mask_bits)
qed

text \<open>What each operation does to the marks and to the stream.\<close>

lemma check_cases:
  assumes "checkUpdateDgnssNtrip s t v d = (outs, d')"
  obtains (none) "outs = []" "d' = d"
    | (start) "outs = [StartDgnssSource (ntripParams d) (dg_nmea d)]" "s" "dg_enabled d" "\<not> dg_started d"
        "dg_enabled d'" "dg_started d'"
    | (update) "outs = [UpdateNmeaToDgnssServer (dg_nmea d)]" "dg_started d"
        "t - mDgnssLastNmeaBootTimeMilli d > DGNSS_RANGE_UPDATE_TIME_10MIN_IN_MILLI"
        "d' = d\<lparr>mDgnssLastNmeaBootTimeMilli := t\<rparr>"
proof (cases "s \<and> mDgnssState d = DGNSS_STATE_ENABLE_NTRIP_COMMAND OR DGNSS_STATE_NO_NMEA_PENDING")
  case True
  with mask_waiting [of d] assms show thesis
    by (intro start) (auto simp: checkUpdateDgnssNtrip_def Let_def)
next
  case False
  show thesis
  proof (cases "s \<and> dg_started d \<and> v \<and> isDgnssNmeaRequired d \<and>
      t - mDgnssLastNmeaBootTimeMilli d > DGNSS_RANGE_UPDATE_TIME_10MIN_IN_MILLI")
    case True
    with False assms show thesis by (intro update) (simp_all add: checkUpdateDgnssNtrip_def mask_tests)
  next
    case no: False
    have "checkUpdateDgnssNtrip s t v d = ([], d)"
      using False no by (auto simp only: checkUpdateDgnssNtrip_def mask_tests if_False if_True simp_thms split: if_split)
    with assms show thesis by (intro none) simp_all
  qed
qed

lemma stop_result:
  "fst (stopDgnssNtrip d) = (if dg_started d then [StopDgnssSource] else [])"
  "dg_started (snd (stopDgnssNtrip d)) = False" "dg_enabled (snd (stopDgnssNtrip d)) = dg_enabled d"
  by (simp_all add: stopDgnssNtrip_def mask_tests Let_def)

lemma check_low: "dg_low d \<Longrightarrow> dg_low (snd (checkUpdateDgnssNtrip s t v d))"
  by (simp add: checkUpdateDgnssNtrip_def Let_def)

lemma stop_low: "dg_low d \<Longrightarrow> dg_low (snd (stopDgnssNtrip d))"
  by (simp add: stopDgnssNtrip_def Let_def)

section \<open>The invariant\<close>

definition stream_ok :: "bool \<Rightarrow> gn_world \<Rightarrow> bool" where
  "stream_ok s w \<longleftrightarrow> (s \<longleftrightarrow> dg_started (mDgnss (gna w))) \<and>
     (s \<longrightarrow> dg_enabled (mDgnss (gna w)) \<and> mTimeBasedTrackingSessions (gna w) \<noteq> []) \<and> dg_low (mDgnss (gna w))"

text \<open>The part of it that is of interest.\<close>

definition stream_right :: "bool \<Rightarrow> gn_world \<Rightarrow> bool" where
  "stream_right s w \<longleftrightarrow> (s \<longleftrightarrow> dg_started (mDgnss (gna w))) \<and>
     (s \<longrightarrow> dg_enabled (mDgnss (gna w)) \<and> mTimeBasedTrackingSessions (gna w) \<noteq> [])"

lemma stream_right: "stream_ok s w \<Longrightarrow> stream_right s w"
  by (simp add: stream_ok_def stream_right_def)

definition stream_rel :: "gn_world \<Rightarrow> gn_out list \<Rightarrow> gn_world \<Rightarrow> bool" where
  "stream_rel w outs w' \<longleftrightarrow> (\<forall>s. stream_ok s w \<longrightarrow> stream_ok (dg_emit (dgnss_outs outs) s) w')"

interpretation sm: action_relation stream_rel
  by unfold_locales (auto simp: stream_rel_def dg_emit_append)

text \<open>Actions that have nothing to do with the stream.\<close>

definition no_stream :: "gn_world \<Rightarrow> gn_out list \<Rightarrow> gn_world \<Rightarrow> bool" where
  "no_stream w outs w' \<longleftrightarrow> mDgnss (gna w') = mDgnss (gna w) \<and>
     mTimeBasedTrackingSessions (gna w') = mTimeBasedTrackingSessions (gna w) \<and> dgnss_outs outs = []"

interpretation ns: action_relation no_stream
  by unfold_locales (auto simp: no_stream_def)

lemma ns_sm: "no_stream w outs w' \<Longrightarrow> stream_rel w outs w'"
  by (simp add: no_stream_def stream_rel_def stream_ok_def)

lemma ns_sm_obeys: "obeys no_stream f \<Longrightarrow> obeys stream_rel f"
  by (simp add: obeys_def ns_sm)

lemma ns_emit: "dgnss_outs outs = [] \<Longrightarrow> obeys no_stream (gn_emit outs)"
  by (simp add: obeys_def no_stream_def gn_emit_def)

lemma ns_upd:
  "(\<And>a. mDgnss (f a) = mDgnss a \<and> mTimeBasedTrackingSessions (f a) = mTimeBasedTrackingSessions a) \<Longrightarrow> obeys no_stream (gn_upd f)"
  by (simp add: obeys_def no_stream_def gn_upd_def gn_quiet_def)

lemma ns_prims:
  "obeys no_stream (gn_call_all cs)" "obeys no_stream (gn_call_api c k)" "obeys no_stream (sv_calls ss)"
  "obeys no_stream (gn_send ms)" "obeys no_stream (gn_pend m)" "obeys no_stream reportPowerStateIfChanged"
  "obeys no_stream (gn_reportResponse cl err i)" "obeys no_stream (gn_controlResponse err i)"
  by (auto simp: obeys_def no_stream_def gn_call_api_def gn_call_all_def sv_calls_def gn_send_def gn_pend_def gn_quiet_def
      reportPowerStateIfChanged_def Let_def gn_reportResponse_def gn_controlResponse_def dgnss_outs_def split: option.split)

lemma spe_keeps:
  "checkAndSetSPEToRunforNHz os a = (b, os', a') \<Longrightarrow>
    mDgnss a' = mDgnss a \<and> mTimeBasedTrackingSessions a' = mTimeBasedTrackingSessions a"
  by (auto simp: checkAndSetSPEToRunforNHz_def split: if_splits)

lemma ns_ask: "obeys no_stream (ask_engine c i os k)"
  unfolding obeys_def
proof
  fix w :: gn_world
  let ?a = "setLocPositionMode (convertOptions os) (gna w)"
  obtain b os' a' where s: "checkAndSetSPEToRunforNHz os ?a = (b, os', a')" by (cases "checkAndSetSPEToRunforNHz os ?a") auto
  have u: "no_stream w (fst (gn_upd (\<lambda>_. a') w)) (snd (gn_upd (\<lambda>_. a') w))"
    using spe_keeps [OF s] by (auto simp: no_stream_def gn_upd_def gn_quiet_def setLocPositionMode_def)
  show "no_stream w (fst (ask_engine c i os k w)) (snd (ask_engine c i os k w))"
    using u ns_prims(7) [of c LOCATION_ERROR_SUCCESS i] ns_prims(2) [of "StartTimeBasedTracking os'" "Some k"]
    by (auto simp: ask_engine_def s Let_def gn_then_def gn_emit_def obeys_def split_beta no_stream_def dgnss_outs_def)
qed

lemma ns_start: "obeys no_stream (startTimeBasedTracking c i os)" "obeys no_stream (updateTracking c i os old)"
  by (simp_all add: startTimeBasedTracking_def updateTracking_def ns_ask)

lemma ns_restart_time: "obeys no_stream checkAndRestartTimeBasedSession"
  unfolding obeys_def
proof
  fix w :: gn_world
  let ?os = "restart_options (map snd (mTimeBasedTrackingSessions (gna w)))"
  obtain b os' a' where s: "checkAndSetSPEToRunforNHz ?os (gna w) = (b, os', a')"
    by (cases "checkAndSetSPEToRunforNHz ?os (gna w)") auto
  have u: "no_stream w (fst (gn_upd (\<lambda>_. a') w)) (snd (gn_upd (\<lambda>_. a') w))"
    using spe_keeps [OF s] by (auto simp: no_stream_def gn_upd_def gn_quiet_def)
  have c: "obeys no_stream (if b then gn_emit [] else gn_call_api (StartTimeBasedTracking os') None)"
    by (simp add: ns_prims ns_emit)
  show "no_stream w (fst (checkAndRestartTimeBasedSession w)) (snd (checkAndRestartTimeBasedSession w))"
    using ns.then_rel [where f = "gn_upd (\<lambda>_. a')", OF u c] ns.refl
    by (simp add: checkAndRestartTimeBasedSession_def s Let_def)
qed

lemma ns_restart_spe: "obeys no_stream checkAndRestartSPESession"
proof -
  have "obeys no_stream restart_distance" using ns.obeysD [OF ns_prims(1)] by (simp add: restart_distance_def obeys_def)
  moreover have "obeys no_stream (gn_upd (\<lambda>a. a\<lparr>mSPEAlreadyRunningAtHighestInterval := False\<rparr>))" by (rule ns_upd) simp
  ultimately show ?thesis unfolding checkAndRestartSPESession_def
    by (intro ns.seq_obeys) (simp add: ns_restart_time)
qed

lemma ns_mask: "obeys no_stream (gn_updateClientsEventMask ctx)"
  by (simp add: obeys_def no_stream_def gn_updateClientsEventMask_def)

section \<open>Actions on the stream and the sessions\<close>

text \<open>The stream may be started or told a position by whatever calls \<open>checkUpdateDgnssNtrip\<close>.\<close>

lemma check_stream:
  assumes "stream_ok s w" "checkUpdateDgnssNtrip b t v d = (outs, d')"
    and "dg_started d = dg_started (mDgnss (gna w))" "dg_started d \<Longrightarrow> dg_enabled d"
    and "b \<Longrightarrow> mTimeBasedTrackingSessions (gna w) \<noteq> []" "dg_low d"
  shows "stream_ok (dg_emit outs s) (w\<lparr>gna := (gna w)\<lparr>mDgnss := d'\<rparr>\<rparr>)"
proof -
  have l: "dg_low d'" using check_low [OF assms(6), of b t v] assms(2) by simp
  show ?thesis using assms(2) by (cases rule: check_cases) (use assms(1,3-5) l in \<open>auto simp: stream_ok_def\<close>)
qed

lemma sm_check:
  assumes "b \<Longrightarrow> mTimeBasedTrackingSessions (gna w) \<noteq> []"
  shows "stream_rel w (fst (gn_dgnss (checkUpdateDgnssNtrip b t v) w)) (snd (gn_dgnss (checkUpdateDgnssNtrip b t v) w))"
proof (cases "checkUpdateDgnssNtrip b t v (mDgnss (gna w))")
  case (Pair outs d')
  then show ?thesis using check_stream [OF _ Pair _ _ assms]
    by (auto simp: gn_dgnss_def stream_rel_def stream_ok_def)
qed

text \<open>After a stop there is neither stream nor mark, whatever was before.\<close>

lemma stop_stream:
  assumes "stream_ok s w" "f = dgnss_session_stopped \<or> f = handleDisablePPENtrip"
  shows "dg_emit (dgnss_outs (fst (gn_dgnss f w))) s = False" "dg_started (mDgnss (gna (snd (gn_dgnss f w)))) = False"
    "dg_low (mDgnss (gna (snd (gn_dgnss f w))))"
  using assms by (auto simp: gn_dgnss_def dgnss_session_stopped_def handleDisablePPENtrip_def split_beta Let_def stop_result stream_ok_def
      split: if_splits intro!: stop_low)

lemma sm_stop: "f = dgnss_session_stopped \<or> f = handleDisablePPENtrip \<Longrightarrow> obeys stream_rel (gn_dgnss f)"
  using stop_stream by (auto simp: obeys_def stream_rel_def stream_ok_def)

lemma stopTracking_stream:
  assumes "stream_ok s w"
  shows "dg_emit (dgnss_outs (fst (stopTracking c i w))) s = False" "dg_started (mDgnss (gna (snd (stopTracking c i w)))) = False"
    "dg_low (mDgnss (gna (snd (stopTracking c i w))))"
proof -
  let ?w = "snd (gn_call_api StopFix (Some (StopDone c i)) w)"
  have "stream_ok s ?w" using assms by (simp add: stream_ok_def gn_call_api_def gn_call_all_def)
  from stop_stream [OF this, of dgnss_session_stopped]
  show "dg_emit (dgnss_outs (fst (stopTracking c i w))) s = False" "dg_started (mDgnss (gna (snd (stopTracking c i w)))) = False"
    "dg_low (mDgnss (gna (snd (stopTracking c i w))))"
    by (simp_all add: stopTracking_def gn_then_def gn_emit_def gn_call_api_def gn_call_all_def gn_upd_def gn_quiet_def split_beta Let_def)
      (simp_all add: dgnss_outs_def)
qed

lemma erase_keeps:
  assumes "eraseTrackingSession c i w = (o2, w2)"
  shows "mDgnss (gna w2) = mDgnss (gna w)" "dgnss_outs o2 = []"
    "length (mTimeBasedTrackingSessions (gna w)) \<noteq> 1 \<Longrightarrow> mTimeBasedTrackingSessions (gna w) \<noteq> [] \<Longrightarrow> mTimeBasedTrackingSessions (gna w2) \<noteq> []"
proof -
  have e: "length xs \<noteq> 1 \<Longrightarrow> xs \<noteq> [] \<Longrightarrow> om_erase k xs \<noteq> []" for k :: session_key and xs :: "(session_key, trk_options) omap"
    by (cases xs; cases "tl xs") (auto split: if_splits)
  show "mDgnss (gna w2) = mDgnss (gna w)" "dgnss_outs o2 = []"
    "length (mTimeBasedTrackingSessions (gna w)) \<noteq> 1 \<Longrightarrow> mTimeBasedTrackingSessions (gna w) \<noteq> [] \<Longrightarrow> mTimeBasedTrackingSessions (gna w2) \<noteq> []"
    using assms e by (auto simp: eraseTrackingSession_def gn_then_def gn_upd_def gn_quiet_def reportPowerStateIfChanged_def Let_def
        drop_session_def dgnss_outs_def split: if_splits)
qed

text \<open>A session by time is only erased after the multiplexing has stopped the engine for the last one.\<close>

lemma sm_stop_erase:
  assumes "stopTimeBasedTrackingMultiplex c i w = (b, o1, w1)"
  shows "stream_rel w (o1 @ fst (eraseTrackingSession c i w1)) (snd (eraseTrackingSession c i w1))"
proof -
  obtain o2 w2 where e: "eraseTrackingSession c i w1 = (o2, w2)" by (cases "eraseTrackingSession c i w1")
  have "stream_ok (dg_emit (dgnss_outs o1) s) w2" if s: "stream_ok s w" for s
  proof (cases "length (mTimeBasedTrackingSessions (gna w)) = 1")
    case True
    then have "(o1, w1) = stopTracking c i w" using assms by (simp add: stopTimeBasedTrackingMultiplex_def Let_def)
    then have "dg_emit (dgnss_outs o1) s = False" "dg_started (mDgnss (gna w1)) = False" "dg_low (mDgnss (gna w1))"
      using stopTracking_stream [OF s, of c i] by (simp_all add: prod_eq_iff)
    then show ?thesis using erase_keeps(1) [OF e] by (simp add: stream_ok_def)
  next
    case False
    have "no_stream w o1 w1" using assms False ns.obeysD [OF ns_start(1)] ns.refl [of w]
      by (auto simp: stopTimeBasedTrackingMultiplex_def Let_def prod_eq_iff split: option.splits if_splits)
    then show ?thesis using s False erase_keeps [OF e] by (auto simp: no_stream_def stream_ok_def)
  qed
  then show ?thesis using e erase_keeps(2) [OF e] by (simp add: stream_rel_def)
qed

lemma sm_save: "obeys stream_rel (saveTrackingSession ctx c i os)"
proof -
  have p: "om_put k v xs \<noteq> []" for k v and xs :: "(session_key, trk_options) omap"
    by (induction k v xs rule: om_put.induct) auto
  show ?thesis
    by (auto simp: obeys_def stream_rel_def stream_ok_def saveTrackingSession_def gn_then_def gn_upd_def gn_quiet_def
        reportPowerStateIfChanged_def Let_def put_session_def dgnss_outs_def p)
qed

lemma sm_mux_save:
  assumes "\<And>w. no_stream w (fst (snd (f w))) (snd (snd (f w)))"
  shows "obeys stream_rel (mux_then c i f (saveTrackingSession ctx c i os))"
  unfolding obeys_def
proof
  fix w :: gn_world
  let ?r = "if fst (f w) then gn_reportResponse c LOCATION_ERROR_SUCCESS i else gn_emit []"
  have "obeys stream_rel ?r" by (simp add: ns_sm_obeys ns_prims ns_emit)
  then show "stream_rel w (fst (mux_then c i f (saveTrackingSession ctx c i os) w)) (snd (mux_then c i f (saveTrackingSession ctx c i os) w))"
    using sm.then_rel [where f = "\<lambda>_. snd (f w)", OF ns_sm [OF assms] sm.seq_obeys, of "[saveTrackingSession ctx c i os, ?r]"]
      sm_save by (simp add: mux_then_def split_beta)
qed

lemma sm_mux_stop: "obeys stream_rel (mux_then c i (stopTimeBasedTrackingMultiplex c i) (eraseTrackingSession c i))"
  unfolding obeys_def
proof
  fix w :: gn_world
  obtain b o1 w1 where m: "stopTimeBasedTrackingMultiplex c i w = (b, o1, w1)" by (cases "stopTimeBasedTrackingMultiplex c i w") auto
  have "obeys stream_rel (if b then gn_reportResponse c LOCATION_ERROR_SUCCESS i else gn_emit [])"
    by (simp add: ns_sm_obeys ns_prims ns_emit)
  then have "stream_rel w (fst (gn_then (\<lambda>_. (o1 @ fst (eraseTrackingSession c i w1), snd (eraseTrackingSession c i w1)))
        (if b then gn_reportResponse c LOCATION_ERROR_SUCCESS i else gn_emit []) w))
      (snd (gn_then (\<lambda>_. (o1 @ fst (eraseTrackingSession c i w1), snd (eraseTrackingSession c i w1)))
        (if b then gn_reportResponse c LOCATION_ERROR_SUCCESS i else gn_emit []) w))"
    using sm_stop_erase [OF m] by (intro sm.then_rel) simp_all
  then show "stream_rel w (fst (mux_then c i (stopTimeBasedTrackingMultiplex c i) (eraseTrackingSession c i) w))
      (snd (mux_then c i (stopTimeBasedTrackingMultiplex c i) (eraseTrackingSession c i) w))"
    by (simp add: mux_then_def m gn_then_def split_beta Let_def)
qed

lemma ns_mux:
  "no_stream w (fst (snd (startTimeBasedTrackingMultiplex c i os w))) (snd (snd (startTimeBasedTrackingMultiplex c i os w)))"
  "no_stream w (fst (snd (updateTrackingMultiplex c i os w))) (snd (snd (updateTrackingMultiplex c i os w)))"
proof -
  have u: "obeys no_stream (gn_upd (\<lambda>a. a\<lparr>mPrevNmeaRptTimeNsec := 0\<rparr>))" by (rule ns_upd) simp
  show "no_stream w (fst (snd (startTimeBasedTrackingMultiplex c i os w))) (snd (snd (startTimeBasedTrackingMultiplex c i os w)))"
    using ns.obeysD [OF ns_start(1)] ns.obeysD [OF ns.then_obeys [OF u ns_start(1)]] ns.refl [of w]
    by (simp add: startTimeBasedTrackingMultiplex_def Let_def split_beta)
  show "no_stream w (fst (snd (updateTrackingMultiplex c i os w))) (snd (snd (updateTrackingMultiplex c i os w)))"
    using ns.obeysD [OF ns_start(2)] ns.refl [of w]
    by (simp add: updateTrackingMultiplex_def Let_def split_beta split: option.split)
qed

lemma sm_restart: "obeys stream_rel (gn_restartSessions ssr now)"
  unfolding obeys_def
proof
  fix w :: gn_world
  let ?u1 = "gn_upd (\<lambda>a. if ssr then a\<lparr>mOdcpi := odcpi_modem_restarted (mOdcpi a)\<rparr> else a)"
  let ?u2 = "gn_upd (\<lambda>a. a\<lparr>mSPEAlreadyRunningAtHighestInterval := False\<rparr>)"
  let ?w = "snd (gn_then ?u1 ?u2 w)"
  let ?g = "if gn_isInSession (gna w)
      then gn_then (gn_emit [HubSetFixMode (mLocPositionMode (gna w)), HubStartFix]) (gn_dgnss (checkUpdateDgnssNtrip True now False))
      else gn_emit []"
  have u: "no_stream w (fst (gn_then ?u1 ?u2 w)) ?w"
    by (intro ns.then_both ns_upd) auto
  have g: "stream_rel ?w (fst (?g ?w)) (snd (?g ?w))"
  proof (cases "gn_isInSession (gna w)")
    case True
    then have "mTimeBasedTrackingSessions (gna ?w) \<noteq> []" using u by (simp add: gn_isInSession_def no_stream_def)
    from sm_check [where b = True, OF this] True show ?thesis
      by (auto simp: gn_then_def gn_emit_def split_beta Let_def stream_rel_def dgnss_outs_def)
  qed (simp add: gn_emit_def sm.refl)
  have "stream_rel ?w (fst (gn_then ?g checkAndRestartSPESession ?w)) (snd (gn_then ?g checkAndRestartSPESession ?w))"
    by (intro sm.then_rel g ns_sm_obeys ns_restart_spe)
  from sm.trans [OF ns_sm [OF u] this]
  show "stream_rel w (fst (gn_restartSessions ssr now w)) (snd (gn_restartSessions ssr now w))"
    by (simp add: gn_restartSessions_def gn_then_def split_beta Let_def)
qed

lemma sm_suspend: "obeys stream_rel suspendSessions"
proof -
  have "obeys stream_rel (gn_seq [gn_emit [HubStopFix], gn_call_api StopFix None, gn_dgnss dgnss_session_stopped,
      gn_upd (\<lambda>a. a\<lparr>mSPEAlreadyRunningAtHighestInterval := False\<rparr>)])"
    by (intro sm.seq_obeys) (auto intro!: ns_sm_obeys ns_emit ns_prims ns_upd sm_stop simp: dgnss_outs_def)
  then show ?thesis using sm.refl by (simp add: obeys_def suspendSessions_def)
qed

lemmas sm_prims = sm_save sm_suspend sm_restart sm_mux_stop sm_mux_save [OF ns_mux(1)] sm_mux_save [OF ns_mux(2)]
  ns_sm_obeys [OF ns_prims(1)] ns_sm_obeys [OF ns_prims(2)] ns_sm_obeys [OF ns_prims(3)] ns_sm_obeys [OF ns_prims(4)]
  ns_sm_obeys [OF ns_prims(5)] ns_sm_obeys [OF ns_prims(6)] ns_sm_obeys [OF ns_prims(7)] ns_sm_obeys [OF ns_prims(8)]

lemma sm_emit: "dgnss_outs outs = [] \<Longrightarrow> obeys stream_rel (gn_emit outs)"
  by (rule ns_sm_obeys [OF ns_emit])

lemma sm_upd:
  "(\<And>a. mDgnss (f a) = mDgnss a \<and> mTimeBasedTrackingSessions (f a) = mTimeBasedTrackingSessions a) \<Longrightarrow> obeys stream_rel (gn_upd f)"
  by (rule ns_sm_obeys [OF ns_upd])

section \<open>The handlers\<close>

text \<open>
  The messages after which the stream runs without a mark or without a session. A second request of
  the stream clears the mark without a stop when it needs a position; an answer of the engine may
  erase the last session, which is not stopped; and an update of a session that is kept both by time
  and by distance (which late answers bring about) erases the one by time.
\<close>

definition last_session :: "addr \<Rightarrow> u32 \<Rightarrow> gn_world \<Rightarrow> bool" where
  "last_session c i w \<longleftrightarrow> map fst (mTimeBasedTrackingSessions (gna w)) = [SessionKey c i]"

fun erases_last :: "gn_cont \<Rightarrow> location_error \<Rightarrow> gn_world \<Rightarrow> bool" where
  "erases_last (StartDone c i) err w \<longleftrightarrow> gn_lock w = ENGINE_LOCK_STATE_ENABLED \<and> err \<noteq> LOCATION_ERROR_SUCCESS \<and> last_session c i w"
| "erases_last (DistanceStartDone c i) err w \<longleftrightarrow>
     gn_lock w = ENGINE_LOCK_STATE_ENABLED \<and> err \<noteq> LOCATION_ERROR_SUCCESS \<and> last_session c i w"
| "erases_last (DistanceStopDone c i) err w \<longleftrightarrow>
     (gn_lock w = ENGINE_LOCK_STATE_DISABLED \<or> err = LOCATION_ERROR_SUCCESS) \<and> last_session c i w"
| "erases_last (ClientStopDone c i) err w \<longleftrightarrow> err = LOCATION_ERROR_SUCCESS \<and> last_session c i w"
| "erases_last k err w \<longleftrightarrow> False"

fun leaves_stream :: "gn_msg \<Rightarrow> gn_world \<Rightarrow> bool" where
  "leaves_stream (MsgEnableNtrip p) w \<longleftrightarrow>
     bit (mDgnssState (mDgnss (gna w))) 2 \<and> \<not> same_ntrip (ntripParams (mDgnss (gna w))) p \<and>
     mSendNmeaConsent (mDgnss (gna w)) \<and> requiresNmeaLocation p"
| "leaves_stream (GnResponse k err) w \<longleftrightarrow> bit (mDgnssState (mDgnss (gna w))) 2 \<and> erases_last k err w"
| "leaves_stream (MsgUpdateTracking c i os) w \<longleftrightarrow>
     bit (mDgnssState (mDgnss (gna w))) 2 \<and> last_session c i w \<and> isDistanceBasedTrackingSession c i (gna w) \<and>
     to_size os \<noteq> 0 \<and> minDistance os = 0"
| "leaves_stream (GnPended p m) w \<longleftrightarrow> leaves_stream m w"
| "leaves_stream m w \<longleftrightarrow> False"

lemma last_session_fields [simp]:
  "last_session c i (w\<lparr>gn_queue := q\<rparr>) = last_session c i w" "last_session c i (w\<lparr>gn_deleted := d\<rparr>) = last_session c i w"
  by (simp_all add: last_session_def)

lemma erases_last_fields [simp]:
  "erases_last k err (w\<lparr>gn_queue := q\<rparr>) = erases_last k err w" "erases_last k err (w\<lparr>gn_deleted := d\<rparr>) = erases_last k err w"
  by (cases k; simp)+

lemma leaves_fields [simp]:
  "leaves_stream m (w\<lparr>gn_queue := q\<rparr>) = leaves_stream m w" "leaves_stream m (w\<lparr>gn_deleted := d\<rparr>) = leaves_stream m w"
  by (induction m) simp_all

lemma stream_fields [simp]:
  "stream_ok s (w\<lparr>gn_deleted := d\<rparr>) = stream_ok s w" "stream_ok s (w\<lparr>gn_queue := q\<rparr>) = stream_ok s w"
  "stream_ok s (w\<lparr>gn_calls := cs\<rparr>) = stream_ok s w" "stream_ok s (w\<lparr>gn_counter := n\<rparr>) = stream_ok s w"
  "stream_ok s (w\<lparr>gn_lock := l\<rparr>) = stream_ok s w" "stream_ok s (w\<lparr>gn_evt := e\<rparr>) = stream_ok s w"
  by (simp_all add: stream_ok_def)

text \<open>Erasing a session by an answer keeps the invariant unless it was the last one and the stream runs.\<close>

lemma erase_time:
  "SessionKey c i \<notin> fst ` set xs \<Longrightarrow> om_erase (SessionKey c i) xs = xs" for xs :: "(session_key, trk_options) omap"
  by (induction xs) auto

lemma sm_erase:
  assumes "\<not> (dg_started (mDgnss (gna w)) \<and> last_session c i w)"
  shows "stream_rel w (fst (eraseTrackingSession c i w)) (snd (eraseTrackingSession c i w))"
proof -
  obtain o2 w2 where e: "eraseTrackingSession c i w = (o2, w2)" by (cases "eraseTrackingSession c i w")
  have "mTimeBasedTrackingSessions (gna w2) \<noteq> []"
    if t: "dg_started (mDgnss (gna w))" "mTimeBasedTrackingSessions (gna w) \<noteq> []"
  proof (cases "length (mTimeBasedTrackingSessions (gna w)) = 1")
    case True
    then obtain k v where kv: "mTimeBasedTrackingSessions (gna w) = [(k, v)]" by (cases "mTimeBasedTrackingSessions (gna w)") auto
    with assms t(1) have "k \<noteq> SessionKey c i" by (auto simp: last_session_def)
    then show ?thesis using e kv
      by (auto simp: eraseTrackingSession_def gn_then_def gn_upd_def gn_quiet_def reportPowerStateIfChanged_def Let_def
          drop_session_def isTimeBasedTrackingSession_def split: if_splits)
  next
    case False
    with erase_keeps(3) [OF e] t(2) show ?thesis by simp
  qed
  then show ?thesis using erase_keeps(1,2) [OF e] e by (auto simp: stream_rel_def stream_ok_def)
qed

text \<open>When it was, nothing stops the stream.\<close>

lemma erase_last_lost:
  assumes "stream_ok s w" "dg_started (mDgnss (gna w))" "last_session c i w"
  shows "\<not> stream_right (dg_emit (dgnss_outs (fst (eraseTrackingSession c i w))) s) (snd (eraseTrackingSession c i w))"
proof -
  obtain o2 w2 where e: "eraseTrackingSession c i w = (o2, w2)" by (cases "eraseTrackingSession c i w")
  obtain v where v: "mTimeBasedTrackingSessions (gna w) = [(SessionKey c i, v)]" using assms(3) by (auto simp: last_session_def)
  then have "mTimeBasedTrackingSessions (gna w2) = []" using e
    by (auto simp: eraseTrackingSession_def gn_then_def gn_upd_def gn_quiet_def reportPowerStateIfChanged_def Let_def
        drop_session_def isTimeBasedTrackingSession_def split: if_splits)
  then show ?thesis using erase_keeps(1,2) [OF e] e assms(1,2) by (auto simp: stream_ok_def stream_right_def)
qed

lemma sm_start_proc: "obeys stream_rel (start_tracking_proc ctx c i os)"
  unfolding obeys_def start_tracking_proc_def Let_def
  using sm.refl by (auto intro!: sm.obeysD sm.then_obeys sm_prims)

lemma clamp_distance: "minDistance (clamp_interval os) = minDistance os" "minDistance (fall_back_M2 os) = minDistance os"
  by (simp_all add: clamp_interval_def fall_back_M2_def)

lemma sm_update_proc:
  assumes "\<not> leaves_stream (MsgUpdateTracking c i os) w"
  shows "stream_rel w (fst (update_tracking_proc ctx c i os w)) (snd (update_tracking_proc ctx c i os w))"
proof (cases "isDistanceBasedTrackingSession c i (gna w) \<and> minDistance os = 0 \<and> to_size os \<noteq> 0")
  case True
  then have "\<not> (dg_started (mDgnss (gna w)) \<and> last_session c i w)" using assms by (auto simp: dg_started_def)
  from sm.then_rel [where f = "eraseTrackingSession c i", OF sm_erase [OF this] sm_prims(8)] True show ?thesis
    by (simp add: update_tracking_proc_def Let_def clamp_distance)
next
  case False
  have e: "obeys stream_rel (gn_seq [mux_then c i (stopTimeBasedTrackingMultiplex c i) (eraseTrackingSession c i),
      saveTrackingSession ctx c i o1, gn_call_api call (Some k)])" for o1 call k
    by (intro sm.seq_obeys) (simp add: sm_prims)
  show ?thesis using False unfolding update_tracking_proc_def Let_def clamp_distance
    by (auto simp del: gn_seq.simps intro!: sm.obeysD sm_prims e)
qed

lemma update_lost:
  assumes "stream_ok s w" "leaves_stream (MsgUpdateTracking c i os) w"
  shows "\<not> stream_right (dg_emit (dgnss_outs (fst (update_tracking_proc ctx c i os w))) s) (snd (update_tracking_proc ctx c i os w))"
proof -
  have l: "dg_started (mDgnss (gna w))" "last_session c i w" "isDistanceBasedTrackingSession c i (gna w)" "to_size os \<noteq> 0" "minDistance os = 0"
    using assms(2) by (simp_all add: dg_started_def)
  let ?o = "clamp_interval (fall_back_M2 os)"
  have p: "update_tracking_proc ctx c i os w = gn_then (eraseTrackingSession c i)
      (gn_call_api (StopDistanceBasedTracking i) (Some (SwitchDone c i ?o))) w"
    using l by (simp add: update_tracking_proc_def Let_def clamp_distance)
  have "stream_right t (snd (gn_call_api cl k v)) = stream_right t v" "dgnss_outs (fst (gn_call_api cl k v)) = []" for t cl k v
    by (simp_all add: gn_call_api_def gn_call_all_def stream_right_def) (simp add: dgnss_outs_def)
  then show ?thesis using erase_last_lost [OF assms(1) l(1,2)]
    by (simp add: p gn_then_def split_beta Let_def)
qed

lemma sm_stop_proc: "obeys stream_rel (stop_tracking_proc c i)"
  unfolding obeys_def stop_tracking_proc_def by (auto intro!: sm.obeysD sm_prims)

lemma sm_stop_time: "obeys stream_rel (stop_time_sessions ks)"
proof (induction ks)
  case (Cons k ks)
  show ?case unfolding obeys_def
  proof
    fix w :: gn_world
    let ?c = "key_client k" and ?i = "key_id k"
    obtain b o1 w1 where m: "stopTimeBasedTrackingMultiplex ?c ?i w = (b, o1, w1)"
      by (cases "stopTimeBasedTrackingMultiplex ?c ?i w") auto
    have "stream_rel w (fst (gn_then (\<lambda>_. (o1 @ fst (eraseTrackingSession ?c ?i w1), snd (eraseTrackingSession ?c ?i w1))) (stop_time_sessions ks) w))
        (snd (gn_then (\<lambda>_. (o1 @ fst (eraseTrackingSession ?c ?i w1), snd (eraseTrackingSession ?c ?i w1))) (stop_time_sessions ks) w))"
      using sm_stop_erase [OF m] Cons.IH by (intro sm.then_rel) simp_all
    then show "stream_rel w (fst (stop_time_sessions (k # ks) w)) (snd (stop_time_sessions (k # ks) w))"
      by (simp add: m split_beta gn_then_def gn_emit_def Let_def)
  qed
qed (simp add: obeys_def sm.refl)

lemma sm_remove: "obeys stream_rel (gn_removeClient ctx c b)"
proof -
  have s: "obeys stream_rel (gn_stopClientSessions c)"
    unfolding obeys_def gn_stopClientSessions_def
    by (intro allI sm.obeysD sm.then_obeys sm_stop_time) (simp add: obeys_def sm.obeysD [OF sm_prims(7)])
  show ?thesis unfolding gn_removeClient_def
    by (intro sm.seq_obeys) (auto simp: s dgnss_outs_def ns_sm_obeys [OF ns_mask] intro!: sm_emit sm_upd)
qed

lemma sm_add: "obeys stream_rel (gn_addClient ctx c cbs)"
proof -
  have n: "obeys no_stream (notifyClientOfCachedLocationSystemInfo c cbs)"
    by (simp add: obeys_def no_stream_def notifyClientOfCachedLocationSystemInfo_def dgnss_outs_def)
  show ?thesis unfolding gn_addClient_def
    by (intro sm.seq_obeys) (auto simp: ns_sm_obeys [OF ns_mask] ns_sm_obeys [OF n] intro!: sm_upd)
qed

lemma sm_power: "obeys stream_rel (updateSystemPowerState st)"
  unfolding updateSystemPowerState_def by (auto intro!: sm.then_obeys sm_prims sm_upd sm_emit)

lemma sm_engine_up: "obeys stream_rel (gn_engine_up ctx now)"
  unfolding obeys_def gn_engine_up_def Let_def
  by (intro allI sm.seq_rel) (auto simp: sm_power dgnss_outs_def intro!: sm_emit sm_upd sm_prims sm.then_obeys)

lemma sm_lock: "obeys stream_rel (gn_handleEngineLockStatus st)"
  unfolding obeys_def gn_handleEngineLockStatus_def
  using sm.refl by (auto intro!: sm.then_both sm_prims sm_upd)

lemma sm_config: "obeys stream_rel (configMinGpsWeek i week now)"
  unfolding configMinGpsWeek_def by (intro sm.seq_obeys) (simp add: sm_prims)

lemma sm_sv: "obeys stream_rel (update_sv_config i types ids now)"
  unfolding obeys_def update_sv_config_def Let_def split_beta
  by (intro allI sm.seq_rel) (auto intro!: sm_prims sm_upd)

lemma sm_caps: "obeys stream_rel (gn_requestCapabilities ctx c)"
  using ns.obeysD [OF ns_prims(5)] by (intro ns_sm_obeys) (simp add: obeys_def gn_requestCapabilities_def no_stream_def)

lemma sm_odcpi: "gn_odcpi m w = Some (outs, w') \<Longrightarrow> stream_rel w outs w'"
  by (rule ns_sm) (auto simp: gn_odcpi_def no_stream_def)

lemma sm_nhz: "obeys stream_rel (updateNHzRequirement a b)"
  unfolding obeys_def
proof
  fix w :: gn_world
  have r: "stream_rel v (fst (gn_then (gn_upd (\<lambda>x. x\<lparr>mNHzNeeded := a\<rparr>)) checkAndRestartSPESession v))
      (snd (gn_then (gn_upd (\<lambda>x. x\<lparr>mNHzNeeded := a\<rparr>)) checkAndRestartSPESession v))" for v
    by (intro sm.then_both sm_upd ns_sm_obeys [OF ns_restart_spe]) simp
  have e: "stream_rel (w\<lparr>gn_evt := e\<rparr>) outs w' = stream_rel w outs w'" for e outs w'
    by (simp add: stream_rel_def)
  have n: "stream_rel w [] (w\<lparr>gn_evt := e\<rparr>)" for e by (simp add: stream_rel_def)
  show "stream_rel w (fst (updateNHzRequirement a b w)) (snd (updateNHzRequirement a b w))"
    using r r [of "w\<lparr>gn_evt := _\<rparr>", unfolded e] sm.refl [of w] n by (simp add: updateNHzRequirement_def Let_def)
qed

text \<open>The answers of the engine.\<close>

lemma response_quiet:
  "stream_right t (snd (gn_reportResponse c err i w)) = stream_right t w" "dgnss_outs (fst (gn_reportResponse c err i w)) = []"
  using ns.obeysD [OF ns_prims(7) [of c err i], of w] by (auto simp: no_stream_def stream_right_def)

lemma sm_erase_if:
  assumes "b \<Longrightarrow> \<not> (dg_started (mDgnss (gna w)) \<and> last_session c i w)"
    and "\<not> b \<Longrightarrow> stream_rel w (fst (g w)) (snd (g w))"
  shows "stream_rel w (fst (gn_then (if b then eraseTrackingSession c i else g) (gn_reportResponse c err i) w))
    (snd (gn_then (if b then eraseTrackingSession c i else g) (gn_reportResponse c err i) w))"
proof -
  have "stream_rel w (fst ((if b then eraseTrackingSession c i else g) w)) (snd ((if b then eraseTrackingSession c i else g) w))"
    using assms sm_erase by simp
  then show ?thesis by (rule sm.then_rel [where f = "if b then eraseTrackingSession c i else g"]) (rule sm_prims(13))
qed

lemma sm_cont:
  assumes "\<not> (dg_started (mDgnss (gna w)) \<and> erases_last k err w)"
  shows "stream_rel w (fst (gn_cont_proc ctx now k err w)) (snd (gn_cont_proc ctx now k err w))"
proof (cases k)
  case (StartDone c i)
  have "stream_rel w (fst (gn_dgnss (checkUpdateDgnssNtrip (gn_isInSession (gna w)) now False) w))
      (snd (gn_dgnss (checkUpdateDgnssNtrip (gn_isInSession (gna w)) now False) w))"
    by (rule sm_check) (simp add: gn_isInSession_def)
  then show ?thesis unfolding StartDone gn_cont_proc.simps using assms StartDone by (intro sm_erase_if) auto
next
  case (DistanceStartDone c i)
  show ?thesis unfolding DistanceStartDone gn_cont_proc.simps using assms DistanceStartDone by (intro sm_erase_if) (auto simp: gn_emit_def sm.refl)
next
  case (DistanceStopDone c i)
  show ?thesis unfolding DistanceStopDone gn_cont_proc.simps using assms DistanceStopDone by (intro sm_erase_if) (auto simp: gn_emit_def sm.refl)
next
  case (ClientStopDone c i)
  then show ?thesis using assms sm_erase sm.refl by auto
qed (auto simp: dgnss_outs_def intro!: sm.refl sm.then_both sm_prims sm_emit sm_prims [THEN sm.obeysD])

lemma cont_lost:
  assumes "stream_ok s w" "dg_started (mDgnss (gna w))" "erases_last k err w"
  shows "\<not> stream_right (dg_emit (dgnss_outs (fst (gn_cont_proc ctx now k err w))) s) (snd (gn_cont_proc ctx now k err w))"
  using assms erase_last_lost [OF assms(1,2)]
  by (cases k) (auto simp: gn_then_def split_beta Let_def response_quiet)

text \<open>The commands about the stream.\<close>

lemma sm_enable:
  assumes "\<not> leaves_stream (MsgEnableNtrip p) w"
  shows "stream_rel w (fst (gn_dgnss (handleEnablePPENtrip (gn_isInSession (gna w)) now p) w))
    (snd (gn_dgnss (handleEnablePPENtrip (gn_isInSession (gna w)) now p) w))"
proof -
  let ?d = "mDgnss (gna w)"
  let ?d2 = "(dg_clear DGNSS_STATE_NTRIP_SESSION_STARTED
      (dg_set DGNSS_STATE_NO_NMEA_PENDING (dg_set DGNSS_STATE_ENABLE_NTRIP_COMMAND ?d)))\<lparr>ntripParams := p, dg_nmea := []\<rparr>"
  have c: "mSendNmeaConsent ?d2 = mSendNmeaConsent ?d" by (simp add: dg_clear_def dg_set_def)
  have "stream_ok (dg_emit outs s) (w\<lparr>gna := (gna w)\<lparr>mDgnss := d'\<rparr>\<rparr>)"
    if s: "stream_ok s w" and h: "handleEnablePPENtrip (gn_isInSession (gna w)) now p ?d = (outs, d')" for s outs d'
  proof (cases "same_ntrip (ntripParams ?d) p \<and> dg_enabled ?d")
    case True
    then have "outs = []" "d' = ?d" using h by (simp_all add: handleEnablePPENtrip_def mask_tests)
    then show ?thesis using s by (simp add: stream_ok_def)
  next
    case new: False
    show ?thesis
    proof (cases "mSendNmeaConsent ?d \<and> requiresNmeaLocation p")
      case True
      have "\<not> dg_started ?d"
        using new True assms s by (auto simp: dg_started_def stream_ok_def)
      then show ?thesis using new True h s c by (auto simp: handleEnablePPENtrip_def mask_tests Let_def stream_ok_def)
    next
      case False
      then have ch: "checkUpdateDgnssNtrip (gn_isInSession (gna w)) now False ?d2 = (outs, d')"
        using new h c by (auto simp: handleEnablePPENtrip_def mask_tests Let_def)
      show ?thesis
      proof (cases "dg_started ?d")
        case no: False
        show ?thesis by (rule check_stream [OF s ch]) (use no s in \<open>auto simp: gn_isInSession_def stream_ok_def\<close>)
      next
        case True
        then have i: "gn_isInSession (gna w)" using s by (simp add: stream_ok_def gn_isInSession_def)
        have l: "dg_low ?d2" using s by (simp add: stream_ok_def)
        have m: "mDgnssState ?d2 = DGNSS_STATE_ENABLE_NTRIP_COMMAND OR DGNSS_STATE_NO_NMEA_PENDING"
          using s by (simp add: mask_restart stream_ok_def)
        from ch show ?thesis
        proof (cases rule: check_cases)
          case none
          with ch i m show ?thesis by (simp add: checkUpdateDgnssNtrip_def Let_def)
        next
          case start
          then show ?thesis using check_low [OF l, of "gn_isInSession (gna w)" now False] ch i by (simp add: stream_ok_def gn_isInSession_def)
        next
          case update
          then show ?thesis by simp
        qed
      qed
    qed
  qed
  then show ?thesis by (auto simp: stream_rel_def gn_dgnss_def split: prod.split)
qed

lemma enable_lost:
  assumes "stream_ok s w" "leaves_stream (MsgEnableNtrip p) w"
  shows "\<not> stream_right (dg_emit (dgnss_outs (fst (gn_dgnss (handleEnablePPENtrip b now p) w))) s)
    (snd (gn_dgnss (handleEnablePPENtrip b now p) w))"
  using assms by (auto simp: gn_dgnss_def handleEnablePPENtrip_def Let_def stream_ok_def stream_right_def dg_started_def [symmetric])
    (auto simp: dg_set_def dg_clear_def)

lemma sm_gga: "stream_rel w (fst (gn_dgnss (dgnss_gga (gn_isInSession (gna w)) now g v) w))
    (snd (gn_dgnss (dgnss_gga (gn_isInSession (gna w)) now g v) w))"
proof -
  let ?d = "(dg_set DGNSS_STATE_NO_NMEA_PENDING (mDgnss (gna w)))\<lparr>dg_nmea := g\<rparr>"
  have "stream_ok (dg_emit outs s) (w\<lparr>gna := (gna w)\<lparr>mDgnss := d'\<rparr>\<rparr>)"
    if "stream_ok s w" "checkUpdateDgnssNtrip (gn_isInSession (gna w)) now v ?d = (outs, d')" for s outs d'
    by (rule check_stream [OF that]) (use that(1) in \<open>auto simp: stream_ok_def gn_isInSession_def\<close>)
  then show ?thesis by (auto simp: stream_rel_def gn_dgnss_def dgnss_gga_def split: prod.split)
qed

lemma sm_nmea:
  assumes "reportGGAToNtrip (gn_isInSession (gna w)) now nmea (mDgnss (gna w)) = Some (outs, d')"
  shows "stream_rel w (map GnDgnssOut outs) (w\<lparr>gna := (gna w)\<lparr>mDgnss := d'\<rparr>\<rparr>)"
proof -
  have "stream_ok (dg_emit outs s) (w\<lparr>gna := (gna w)\<lparr>mDgnss := d'\<rparr>\<rparr>)"
    if "stream_ok s w" "checkUpdateDgnssNtrip (gn_isInSession (gna w)) now True
      ((dg_set DGNSS_STATE_NO_NMEA_PENDING (mDgnss (gna w)))\<lparr>dg_nmea := g\<rparr>) = (outs, d')" for s g
    by (rule check_stream [OF that]) (use that(1) in \<open>auto simp: stream_ok_def gn_isInSession_def\<close>)
  then show ?thesis using assms
    by (auto simp: stream_rel_def reportGGAToNtrip_def split: if_splits option.splits)
qed

lemma sm_fields [simp]:
  "stream_rel (w\<lparr>gn_deleted := d\<rparr>) outs w' = stream_rel w outs w'" "stream_rel (w\<lparr>gn_queue := q\<rparr>) outs w' = stream_rel w outs w'"
  "stream_rel (w\<lparr>gn_calls := cs\<rparr>) outs w' = stream_rel w outs w'" "stream_rel (w\<lparr>gn_counter := n\<rparr>) outs w' = stream_rel w outs w'"
  "stream_rel (w\<lparr>gn_lock := l\<rparr>) outs w' = stream_rel w outs w'"
  by (simp_all add: stream_rel_def)

lemma sm_msg: "gn_msg_proc ctx now m w = Some (outs, w') \<Longrightarrow> \<not> leaves_stream m w \<Longrightarrow> stream_rel w outs w'"
proof (induction m arbitrary: w)
  case MsgPowerStateCb
  have "obeys stream_rel (gn_then (gn_upd (\<lambda>a. a\<lparr>mPowerStateCb := True\<rparr>)) (gn_emit [SavePowerStateCb b]))" for b
    by (intro sm.then_obeys sm_upd sm_emit) (auto simp: dgnss_outs_def)
  from sm.obeysD [OF this] MsgPowerStateCb show ?case by (auto simp: prod_eq_iff)
next
  case (MsgReportNmea s)
  then show ?case using sm_nmea by auto
next
  case (MsgUpdateTracking c i os)
  then show ?case using sm_update_proc by (auto simp: prod_eq_iff)
next
  case (MsgEnableNtrip p)
  then show ?case using sm_enable by (auto simp: prod_eq_iff)
next
  case (GnResponse k err)
  then have "\<not> (dg_started (mDgnss (gna w)) \<and> erases_last k err w)" by (simp add: dg_started_def)
  from sm_cont [OF this] GnResponse(1) show ?case by (auto simp: prod_eq_iff)
next
  case (GnPended p m)
  then have "gn_msg_proc ctx now m (w\<lparr>gn_deleted := p # gn_deleted w\<rparr>) = Some (outs, w')" by (auto split: if_splits)
  from GnPended.IH [OF this] GnPended.prems(2) show ?case by simp
qed (auto dest: sm_odcpi simp: prod_eq_iff sm_gga intro: sm_start_proc [THEN sm.obeysD]
  sm_stop_proc [THEN sm.obeysD] sm_add [THEN sm.obeysD] sm_remove [THEN sm.obeysD] sm_engine_up [THEN sm.obeysD]
  sm_lock [THEN sm.obeysD] sm_power [THEN sm.obeysD] sm_config [THEN sm.obeysD] sm_sv [THEN sm.obeysD]
  sm_stop [THEN sm.obeysD] sm_caps [THEN sm.obeysD])

lemma msg_lost:
  "gn_msg_proc ctx now m w = Some (outs, w') \<Longrightarrow> leaves_stream m w \<Longrightarrow> stream_ok s w \<Longrightarrow>
    \<not> stream_right (dg_emit (dgnss_outs outs) s) w'"
proof (induction m arbitrary: w)
  case (MsgUpdateTracking c i os)
  then show ?case using update_lost [OF MsgUpdateTracking(3,2)] by (auto simp: prod_eq_iff)
next
  case (MsgEnableNtrip p)
  then show ?case using enable_lost [OF MsgEnableNtrip(3,2)] by (auto simp: prod_eq_iff)
next
  case (GnResponse k err)
  then show ?case using cont_lost [OF GnResponse(3)] by (auto simp: prod_eq_iff dg_started_def)
next
  case (GnPended p m)
  then have "gn_msg_proc ctx now m (w\<lparr>gn_deleted := p # gn_deleted w\<rparr>) = Some (outs, w')" by (auto split: if_splits)
  from GnPended.IH [OF this] GnPended.prems(2,3) show ?case by simp
qed simp_all

section \<open>Every step\<close>

definition stream_left :: "gn_op \<Rightarrow> gn_world \<Rightarrow> bool" where
  "stream_left op w \<longleftrightarrow> (case (op, gn_queue w) of (GnProcNext now, m # ms) \<Rightarrow> leaves_stream m w | _ \<Rightarrow> False)"

lemma sm_sends:
  "stream_rel w (fst (gn_send ms w)) (snd (gn_send ms w))"
  "stream_rel w (fst (gn_send ms (w\<lparr>gn_counter := n\<rparr>))) (snd (gn_send ms (w\<lparr>gn_counter := n\<rparr>)))"
  "stream_rel w (fst (gn_send ms (w\<lparr>gn_lock := l\<rparr>))) (snd (gn_send ms (w\<lparr>gn_lock := l\<rparr>)))"
  "stream_rel w (fst (gn_send ms (w\<lparr>gn_calls := cs\<rparr>))) (snd (gn_send ms (w\<lparr>gn_calls := cs\<rparr>)))"
  by (simp_all add: gn_send_def gn_quiet_def stream_rel_def)

lemma sm_step: "gn_step ctx x w = Some (outs, w') \<Longrightarrow> \<not> stream_left x w \<Longrightarrow> stream_rel w outs w'"
proof (cases x)
  case (GnAnswer n err)
  have "stream_rel w [] (w\<lparr>gn_calls := cs\<rparr>)" for cs by (simp add: stream_rel_def)
  then show "gn_step ctx x w = Some (outs, w') \<Longrightarrow> stream_rel w outs w'"
    using GnAnswer sm_sends(4) sm.refl [of w] by (auto simp: prod_eq_iff split: list.splits option.splits)
next
  case (GnProcNext now)
  assume s: "gn_step ctx x w = Some (outs, w')" "\<not> stream_left x w"
  show ?thesis
  proof (cases "gn_queue w")
    case Nil
    then show ?thesis using s GnProcNext sm.refl [of w] by simp
  next
    case (Cons m ms)
    then have "gn_msg_proc ctx now m (w\<lparr>gn_queue := ms\<rparr>) = Some (outs, w')" "\<not> leaves_stream m w"
      using s GnProcNext by (simp_all add: stream_left_def)
    then show ?thesis using sm_msg [of ctx now m "w\<lparr>gn_queue := ms\<rparr>"] by simp
  qed
next
  case GnOdcpiTimerFires
  have "stream_rel w (fst (gn_then (gn_upd f) (gn_send ms) w)) (snd (gn_then (gn_upd f) (gn_send ms) w))"
    if "f = (\<lambda>a. a\<lparr>mOdcpi := g (mOdcpi a)\<rparr>)" for f g ms using that by (intro sm.then_both sm_prims sm_upd) simp
  then show "gn_step ctx x w = Some (outs, w') \<Longrightarrow> stream_rel w outs w'"
    using GnOdcpiTimerFires sm.refl [of w] by (auto simp: prod_eq_iff split: if_splits)
next
  case (NtripConsentCommand b)
  then show "gn_step ctx x w = Some (outs, w') \<Longrightarrow> stream_rel w outs w'"
    by (auto simp: gn_upd_def gn_quiet_def stream_rel_def stream_ok_def)
qed (use sm.refl [of w] in \<open>auto simp: prod_eq_iff Let_def sm_sends sm_nhz [THEN sm.obeysD] split: if_splits\<close>)

lemma step_lost:
  assumes "gn_step ctx x w = Some (outs, w')" "stream_left x w" "stream_ok s w"
  shows "\<not> stream_right (dg_emit (dgnss_outs outs) s) w'"
proof -
  obtain now m ms where "x = GnProcNext now" "gn_queue w = m # ms" "leaves_stream m w"
    using assms(2) by (auto simp: stream_left_def split: gn_op.splits list.splits)
  then show ?thesis using msg_lost [of ctx now m "w\<lparr>gn_queue := ms\<rparr>"] assms(1,3) by simp
qed

lemma sm_run:
  "run_ops (gn_step ctx) xs w = Some (outs, w') \<Longrightarrow> ops_ok (\<lambda>op v. \<not> stream_left op v) (gn_step ctx) xs w \<Longrightarrow>
    stream_ok s w \<Longrightarrow> stream_ok (dg_emit (dgnss_outs (concat outs)) s) w'"
proof (induction xs arbitrary: w outs s)
  case (Cons x xs)
  then obtain o1 w1 os where step: "gn_step ctx x w = Some (o1, w1)" "run_ops (gn_step ctx) xs w1 = Some (os, w')" "outs = o1 # os"
    by (auto split: option.splits)
  with Cons.prems have "stream_ok (dg_emit (dgnss_outs o1) s) w1"
    using sm_step [OF step(1)] by (auto simp: stream_rel_def)
  with Cons.IH [OF step(2)] Cons.prems(2) step show ?case by (auto simp: dg_emit_append)
qed simp

section \<open>Properties\<close>

text \<open>C30. The correction stream of the GNSS adapter, in every run of the whole adapter with any answers of
the engine in any order. As long as none of three messages has been processed (\<open>stream_left\<close>), the
stream runs (the observer keeps the text to restart it) exactly while the adapter has it marked as
started, and then the command is in force and a session by time exists. The next step keeps this
exactly when it does not process one of the three: a request of another stream that needs a position
while a stream runs; an answer of the engine that erases the last session by time while a stream
runs, as a refused start does; and an update that erases it because it is also kept by distance.\<close>

theorem dgnss_stream_exact:
  assumes "run_ops (gn_step ctx) xs gn_start = Some (outs, w)"
    and "ops_ok (\<lambda>op v. \<not> stream_left op v) (gn_step ctx) xs gn_start"
  defines "right \<equiv> \<lambda>s v. (s \<longleftrightarrow> bit (mDgnssState (mDgnss (gna v))) 2) \<and>
      (s \<longrightarrow> bit (mDgnssState (mDgnss (gna v))) 0 \<and> mTimeBasedTrackingSessions (gna v) \<noteq> [])"
  shows "right (dg_emit (dgnss_outs (concat outs)) False) w \<and>
    (\<forall>op outs' w'. gn_step ctx op w = Some (outs', w') \<longrightarrow>
       (right (dg_emit (dgnss_outs (concat (outs @ [outs']))) False) w' \<longleftrightarrow> \<not> stream_left op w))"
proof -
  let ?s = "dg_emit (dgnss_outs (concat outs)) False"
  have "stream_ok False gn_start"
    by (simp add: stream_ok_def gn_start_def dgnss_init_def dg_started_def dg_low_def)
  from sm_run [OF assms(1,2) this] have i: "stream_ok ?s w" .
  have r: "right s v = stream_right s v" for s v
    by (simp add: right_def stream_right_def dg_started_def dg_enabled_def)
  have "stream_right (dg_emit (dgnss_outs outs') ?s) w' \<longleftrightarrow> \<not> stream_left op w"
    if st: "gn_step ctx op w = Some (outs', w')" for op outs' w'
    using sm_step [OF st] step_lost [OF st _ i] stream_right [of "dg_emit (dgnss_outs outs') ?s" w'] i by (auto simp: stream_rel_def)
  with stream_right [OF i] show ?thesis unfolding r by (simp add: dg_emit_append)
qed

definition demo_ntrip :: ntrip_params where
  "demo_ntrip = \<lparr>np_size = 1, requiresNmeaLocation = False, hostNameOrIp = ''h'', mountPoint = ''m'',
     username = ''u'', password = ''p'', np_port = 2101, useSSL = False\<rparr>"

text \<open>A client starts a session and the stream is asked for; the session is stopped again.\<close>

definition ntrip_demo :: "gn_op list" where
  "ntrip_demo = [GnAddClientCommand 1 gn_callbacks, StartTrackingCommand 1 (trk 1000 1), EnableNtripCommand demo_ntrip,
     GnProcNext 1, GnProcNext 2, GnProcNext 3]"

lemma dgnss_stream_exact_witness:
  "\<exists>outs w. run_ops (gn_step gn_ctx) (ntrip_demo @ [GnAnswer 0 LOCATION_ERROR_SUCCESS, GnProcNext 4]) gn_start = Some (outs, w) \<and>
     dg_emit (dgnss_outs (concat outs)) False \<and> mTimeBasedTrackingSessions (gna w) \<noteq> []"
proof -
  let ?ops = "ntrip_demo @ [GnAnswer 0 LOCATION_ERROR_SUCCESS, GnProcNext 4]"
  have "case run_ops (gn_step gn_ctx) ?ops gn_start of None \<Rightarrow> False
    | Some (outs, w) \<Rightarrow> dg_emit (dgnss_outs (concat outs)) False" by code_simp
  then obtain outs w where r: "run_ops (gn_step gn_ctx) ?ops gn_start = Some (outs, w)" "dg_emit (dgnss_outs (concat outs)) False"
    by (auto split: option.splits)
  have k: "ops_ok (\<lambda>op v. \<not> stream_left op v) (gn_step gn_ctx) ?ops gn_start" by code_simp
  from dgnss_stream_exact [OF r(1) k] r show ?thesis by blast
qed

text \<open>The first two of the three messages in runs: after a refused start no session is left and the
stream goes on; and a request with parameters that need a position leaves the first stream running, which neither
the end of the command nor the end of the session stops.\<close>

theorem dgnss_stream_left_running:
  "map_option (\<lambda>(outs, w). (dg_emit (dgnss_outs (concat outs)) False, mDgnssState (mDgnss (gna w)), mTimeBasedTrackingSessions (gna w) \<noteq> []))
     (run_ops (gn_step gn_ctx) (ntrip_demo @ [GnAnswer 0 LOCATION_ERROR_GENERAL_FAILURE, GnProcNext 4]) gn_start) = Some (True, 7, False) \<and>
   map_option (\<lambda>(outs, w). (dg_emit (dgnss_outs (concat outs)) False, mDgnssState (mDgnss (gna w)), mTimeBasedTrackingSessions (gna w) \<noteq> []))
     (run_ops (gn_step gn_ctx) (ntrip_demo @ [NtripConsentCommand True, EnableNtripCommand (demo_ntrip\<lparr>requiresNmeaLocation := True\<rparr>),
        DisableNtripCommand, StopTrackingCommand 1 2, GnProcNext 5, GnProcNext 6, GnProcNext 7]) gn_start) = Some (True, 0, False)"
  by (rule conjI; code_simp)

text \<open>The third one: a session by distance is updated twice, the second time to a session by time, and the
answer to the first update saves it by distance again. It is then kept in both maps, and the next
update erases it by time while the engine and the stream go on.\<close>

definition kept_twice :: "gn_op list" where
  "kept_twice =
     [GnAddClientCommand 1 gn_callbacks, GnEngineUpEvent, EnableNtripCommand demo_ntrip,
      StartTrackingCommand 1 ((trk 1000 1)\<lparr>minDistance := 10\<rparr>), GnProcNext 1, GnProcNext 2, GnProcNext 3, GnProcNext 4,
      UpdateTrackingOptionsCommand 1 2 ((trk 1000 1)\<lparr>minDistance := 5\<rparr>), GnProcNext 5,
      GnAnswer 0 LOCATION_ERROR_SUCCESS, GnAnswer 0 LOCATION_ERROR_SUCCESS, GnAnswer 0 LOCATION_ERROR_SUCCESS, GnProcNext 6, GnProcNext 7,
      UpdateTrackingOptionsCommand 1 2 (trk 1000 1), GnProcNext 8,
      GnAnswer 0 LOCATION_ERROR_SUCCESS, GnProcNext 9, GnAnswer 0 LOCATION_ERROR_SUCCESS, GnProcNext 10,
      GnAnswer 0 LOCATION_ERROR_SUCCESS, GnProcNext 11]"

theorem dgnss_session_kept_twice:
  "map_option (\<lambda>(outs, w). (map fst (mTimeBasedTrackingSessions (gna w)), map fst (mDistanceBasedTrackingSessions (gna w))))
     (run_ops (gn_step (gn_ctx\<lparr>sSupportedMsgMask := - 1\<rparr>)) kept_twice gn_start) = Some ([SessionKey 1 2], [SessionKey 1 2]) \<and>
   map_option (\<lambda>(outs, w). (dg_emit (dgnss_outs (concat outs)) False, mTimeBasedTrackingSessions (gna w)))
     (run_ops (gn_step (gn_ctx\<lparr>sSupportedMsgMask := - 1\<rparr>)) (kept_twice @ [UpdateTrackingOptionsCommand 1 2 (trk 1000 1), GnProcNext 12]) gn_start) =
     Some (True, [])"
  by (rule conjI; code_simp)

section \<open>How often positions are sent\<close>

text \<open>
  The operations on the source, in any order. Every one comes with the time since boot and with
  whether a session runs then, so that sessions may come and go in any way.
\<close>

datatype dg_op =
    DgEnable ntrip_params
  | DgDisable
  | DgConsent bool
  | DgCheck
  | DgSessionStopped
  | DgGGA string bool
  | DgNmea string

fun dg_step :: "u64 \<times> bool \<times> dg_op \<Rightarrow> dgnss \<Rightarrow> ((u64 \<times> dgnss_out) list \<times> dgnss) option" where
  "dg_step (t, s, x) d =
     map_option (\<lambda>(outs, d1). (map (Pair t) outs, d1))
       (case x of
          DgEnable p \<Rightarrow> Some (enablePPENtripStreamCommand s t p d)
        | DgDisable \<Rightarrow> Some (handleDisablePPENtrip d)
        | DgConsent b \<Rightarrow> Some ([], d\<lparr>mSendNmeaConsent := b\<rparr>)
        | DgCheck \<Rightarrow> Some (checkUpdateDgnssNtrip s t False d)
        | DgSessionStopped \<Rightarrow> Some (dgnss_session_stopped d)
        | DgGGA g v \<Rightarrow> Some (dgnss_gga s t g v d)
        | DgNmea g \<Rightarrow> reportGGAToNtrip s t g d)"

text \<open>The monitor: no update of the same stream comes within ten minutes after the last one.\<close>

fun updates_ok :: "u64 option \<Rightarrow> (u64 \<times> dgnss_out) list \<Rightarrow> bool" where
  "updates_ok l [] = True"
| "updates_ok l ((t, UpdateNmeaToDgnssServer s) # xs) =
     ((case l of None \<Rightarrow> True | Some t0 \<Rightarrow> t - t0 > DGNSS_RANGE_UPDATE_TIME_10MIN_IN_MILLI) \<and> updates_ok (Some t) xs)"
| "updates_ok l ((t, StartDgnssSource p s) # xs) = updates_ok None xs"
| "updates_ok l ((t, StopDgnssSource) # xs) = updates_ok l xs"

fun monitor :: "u64 option \<Rightarrow> (u64 \<times> dgnss_out) list \<Rightarrow> u64 option" where
  "monitor l [] = l"
| "monitor l ((t, UpdateNmeaToDgnssServer s) # xs) = monitor (Some t) xs"
| "monitor l ((t, StartDgnssSource p s) # xs) = monitor None xs"
| "monitor l ((t, StopDgnssSource) # xs) = monitor l xs"

lemma updates_ok_append: "updates_ok l (xs @ ys) \<longleftrightarrow> updates_ok l xs \<and> updates_ok (monitor l xs) ys"
  by (induction l xs rule: updates_ok.induct) auto

definition mon_inv :: "u64 option \<Rightarrow> dgnss \<Rightarrow> bool" where
  "mon_inv l d \<longleftrightarrow> (dg_started d \<longrightarrow> l = None \<or> l = Some (mDgnssLastNmeaBootTimeMilli d))"

lemma check_mon:
  assumes "mon_inv l d" and "checkUpdateDgnssNtrip s t v d = (outs, d')"
  shows "updates_ok l (map (Pair t) outs) \<and> mon_inv (monitor l (map (Pair t) outs)) d'"
  using assms(2) by (cases rule: check_cases) (use assms(1) in \<open>auto simp: mon_inv_def\<close>)

lemma stop_mon:
  "mon_inv l d \<Longrightarrow> updates_ok l (map (Pair t) (fst (stopDgnssNtrip d))) \<and>
    mon_inv (monitor l (map (Pair t) (fst (stopDgnssNtrip d)))) (snd (stopDgnssNtrip d))"
  by (auto simp: stop_result mon_inv_def)

lemma mon_inv_fields [simp]:
  "mon_inv l (d\<lparr>dg_nmea := s\<rparr>) = mon_inv l d" "mon_inv l (d\<lparr>mSendNmeaConsent := b\<rparr>) = mon_inv l d"
  "mon_inv l (d\<lparr>ntripParams := p\<rparr>) = mon_inv l d"
  "mon_inv l (dg_set DGNSS_STATE_NO_NMEA_PENDING d) = mon_inv l d"
  "mon_inv l (dg_clear DGNSS_STATE_NO_NMEA_PENDING d) = mon_inv l d"
  "mon_inv l (dg_clear DGNSS_STATE_ENABLE_NTRIP_COMMAND d) = mon_inv l d"
  "mon_inv l (dg_clear DGNSS_STATE_NTRIP_SESSION_STARTED d)"
  by (simp_all add: mon_inv_def)

lemma dg_step_mon:
  assumes "mon_inv l d" "dg_step x d = Some (outs, d')"
  shows "updates_ok l outs \<and> mon_inv (monitor l outs) d'"
proof (cases x)
  case (fields t s y)
  have c: "updates_ok l (map (Pair t) outs') \<and> mon_inv (monitor l (map (Pair t) outs')) d1"
    if "checkUpdateDgnssNtrip b t v ((dg_set DGNSS_STATE_NO_NMEA_PENDING d)\<lparr>dg_nmea := g\<rparr>) = (outs', d1)" for outs' d1 g v b
    by (rule check_mon [OF _ that]) (simp add: assms(1))
  show ?thesis
  proof (cases y)
    case (DgEnable p)
    let ?d = "(dg_clear DGNSS_STATE_NTRIP_SESSION_STARTED
      (dg_set DGNSS_STATE_NO_NMEA_PENDING (dg_set DGNSS_STATE_ENABLE_NTRIP_COMMAND d)))\<lparr>ntripParams := p, dg_nmea := []\<rparr>"
    have m: "mon_inv l d" if "\<not> dg_started d" for d using that by (simp add: mon_inv_def)
    have c: "updates_ok l (map (Pair t) outs') \<and> mon_inv (monitor l (map (Pair t) outs')) d1"
      if "checkUpdateDgnssNtrip s t False ?d = (outs', d1)" for outs' d1
      by (rule check_mon [OF m that]) simp
    show ?thesis using assms fields DgEnable
      by (auto simp: enablePPENtripStreamCommand_def handleEnablePPENtrip_def Let_def m split: if_splits prod.splits dest!: c)
  next
    case DgDisable
    then show ?thesis using assms fields stop_mon by (auto simp: handleDisablePPENtrip_def split_beta Let_def)
  next
    case DgSessionStopped
    then show ?thesis using assms fields stop_mon by (auto simp: dgnss_session_stopped_def split_beta Let_def)
  next
    case DgCheck
    then show ?thesis using assms fields check_mon by (auto split: prod.splits)
  next
    case (DgGGA g v)
    then show ?thesis using assms fields c [of _ _ g] by (auto simp: dgnss_gga_def Let_def split: prod.splits if_splits)
  next
    case (DgNmea g)
    then show ?thesis using assms fields c
      by (auto simp: reportGGAToNtrip_def Let_def split: prod.splits if_splits option.splits)
  qed (use assms fields in auto)
qed

lemma dg_run_mon:
  "run_ops dg_step xs d = Some (outs, d') \<Longrightarrow> mon_inv l d \<Longrightarrow> updates_ok l (concat outs)"
proof (induction xs arbitrary: d outs l)
  case (Cons x xs)
  then show ?case using dg_step_mon [of l d x] by (auto simp: updates_ok_append split: option.splits)
qed simp

text \<open>Whatever happens, two positions that are sent to the caster of one stream are more than ten
minutes apart.\<close>

theorem dgnss_updates_rare:
  assumes "run_ops dg_step xs dgnss_init = Some (outs, d)"
  shows "updates_ok None (concat outs)"
  by (rule dg_run_mon [OF assms]) (simp add: mon_inv_def)

lemma dgnss_updates_rare_witness:
  "\<exists>outs d. run_ops dg_step [(1, False, DgConsent True), (3, True, DgEnable (demo_ntrip\<lparr>requiresNmeaLocation := True\<rparr>)),
      (4, True, DgGGA ''a'' True), (5, True, DgGGA ''b'' True), (600005, True, DgGGA ''c'' True)] dgnss_init = Some (outs, d) \<and>
    updates_ok None (concat outs)" (is "\<exists>outs d. ?r = _ \<and> _")
proof -
  have r: "?r = Some ([[], [], [(4, StartDgnssSource (demo_ntrip\<lparr>requiresNmeaLocation := True\<rparr>) ''a'')], [],
      [(600005, UpdateNmeaToDgnssServer ''c'')]],
     \<lparr>ntripParams = demo_ntrip\<lparr>requiresNmeaLocation := True\<rparr>, dg_nmea = ''c'', mSendNmeaConsent = True, mDgnssState = 7,
        mDgnssLastNmeaBootTimeMilli = 600005\<rparr>)" by code_simp
  from dgnss_updates_rare [OF r] r show ?thesis by blast
qed

section \<open>The GGA sentence\<close>

lemma find_char: "c \<notin> set u \<Longrightarrow> find_at [c] (u @ c # v) i = Some (i + length u)"
  by (induction u arbitrary: i) auto

lemma find_char_none: "c \<notin> set u \<Longrightarrow> find_at [c] u i = None"
  by (induction u arbitrary: i) auto

lemma str_find_char: "c \<notin> set u \<Longrightarrow> str_find (x @ u @ c # v) [c] (length x) = Some (length x + length u)"
  by (simp add: str_find_def find_char)

lemma comma_loop_count:
  "count_list u CHR '','' = n \<Longrightarrow>
    comma_loop n (x @ u @ CHR '','' # v) (str_find (x @ u @ CHR '','' # v) '','' (length x)) k =
      (Some (length x + length u), k + n)"
proof (induction n arbitrary: u x k)
  case 0
  then show ?case by (simp add: str_find_char count_list_0_iff)
next
  case (Suc n)
  then have "CHR '','' \<in> set u" by (metis count_list_0_iff nat.distinct(1))
  then obtain u1 u2 where u: "u = u1 @ CHR '','' # u2" "CHR '','' \<notin> set u1" by (metis split_list_first)
  then have n: "count_list u2 CHR '','' = n" using Suc.prems by (simp add: count_list_0_iff)
  show ?case
    using Suc.IH [OF n, of "x @ u1 @ '',''" "k + 1"] str_find_char [OF u(2), of x "u2 @ CHR '','' # v"]
    by (simp add: u(1))
qed

lemma find_gga: "str_find (CHR ''$'' # a # b # ''GGA'' @ s) ''GGA'' 0 = Some 3"
  by (simp add: str_find_def)

lemma gga_sentence_first:
  assumes "CHR ''$'' \<notin> set body" and "rest = [] \<or> hd rest = CHR ''$''"
  shows "gga_sentence ((CHR ''$'' # a # b # ''GGA'' @ body) @ rest) 3 = CHR ''$'' # a # b # ''GGA'' @ body"
proof (cases rest)
  case Nil
  have "str_find (CHR ''$'' # a # b # ''GGA'' @ body) ''$'' 3 = None"
    using assms(1) by (simp add: str_find_def find_char_none)
  with Nil show ?thesis by (simp add: gga_sentence_def POS_OF_GGA_def)
next
  case (Cons y ys)
  with assms(2) have y: "y = CHR ''$''" by simp
  have "str_find ((CHR ''$'' # a # b # ''GGA'' @ body) @ rest) ''$'' 3 = Some (6 + length body)"
    using str_find_char [of "CHR ''$''" "''GGA'' @ body" "[CHR ''$'', a, b]" ys] assms(1)
    by (simp add: Cons y eval_nat_numeral)
  then show ?thesis by (simp add: gga_sentence_def POS_OF_GGA_def Cons y eval_nat_numeral)
qed

text \<open>A report that begins with a GGA sentence gives exactly this sentence, without the
sentences that follow it; it is used when the field before its seventh comma (the quality of the
fix) does not end in 0.\<close>

theorem gga_first_sentence_exact:
  assumes "CHR ''$'' \<notin> set body" and "rest = [] \<or> hd rest = CHR ''$''"
    and "body = pre @ q # CHR '','' # post" and "count_list (a # b # pre @ [q]) CHR '','' = COMMAS_BEFORE_VALID"
  shows "gga_of_nmea ((CHR ''$'' # a # b # ''GGA'' @ body) @ rest) =
    Some (if q = CHR ''0'' then None else Some (CHR ''$'' # a # b # ''GGA'' @ body))"
proof -
  let ?g = "CHR ''$'' # a # b # ''GGA'' @ body"
  let ?u = "CHR ''$'' # a # b # ''GGA'' @ pre @ [q]"
  have g: "?g = ?u @ CHR '','' # post" by (simp add: assms(3))
  have c: "comma_loop COMMAS_BEFORE_VALID ?g (str_find ?g '','' 0) 0 = (Some (length ?u), COMMAS_BEFORE_VALID)"
  proof -
    have n: "count_list ?u CHR '','' = COMMAS_BEFORE_VALID" using assms(4) by (simp split: if_splits)
    show ?thesis unfolding g using comma_loop_count [OF n, of "[]" post 0]
      by (simp only: append_Nil list.size add_0)
  qed
  have q: "?g ! (length ?u - 1) = q" unfolding g by (simp add: nth_append)
  have l: "length ?u - 1 < length ?g" "length ?u \<noteq> 0" unfolding g by simp_all
  have f: "str_find (?g @ rest) ''GGA'' 0 = Some 3" using find_gga [of a b "body @ rest"] by simp
  have "gga_of_nmea (?g @ rest) =
    (if length ?u = 0 \<or> length ?u - 1 \<ge> length ?g then None
     else Some (if ?g ! (length ?u - 1) \<noteq> CHR ''0'' then Some ?g else None))"
    unfolding gga_of_nmea_def f
    by (simp only: gga_sentence_first [OF assms(1,2)] c Let_def option.case prod.case POS_OF_GGA_def less_irrefl if_False refl if_True)
  also have "\<dots> = Some (if q \<noteq> CHR ''0'' then Some ?g else None)" using l by (simp only: q) auto
  finally show ?thesis by auto
qed

lemma gga_first_sentence_exact_witness:
  "gga_of_nmea ''$GPGGA,12,34,N,5,E,1,08$GPRMC,1'' = Some (Some ''$GPGGA,12,34,N,5,E,1,08'')"
proof -
  have 1: "CHR ''$'' \<notin> set '',12,34,N,5,E,1,08''" by simp
  have 2: "''$GPRMC,1'' = [] \<or> hd ''$GPRMC,1'' = CHR ''$''" by simp
  have 3: "'',12,34,N,5,E,1,08'' = '',12,34,N,5,E,'' @ CHR ''1'' # CHR '','' # ''08''" by simp
  have 4: "count_list (CHR ''G'' # CHR ''P'' # '',12,34,N,5,E,'' @ [CHR ''1'']) CHR '','' = COMMAS_BEFORE_VALID" by code_simp
  have q: "CHR ''1'' \<noteq> CHR ''0''" by simp
  from gga_first_sentence_exact [OF 1 2 3 4] show ?thesis by (simp only: q append.simps if_False)
qed

text \<open>A GGA sentence that is not the first one keeps what follows it, up to the length of what came
before; and one with six commas makes \<open>at\<close> throw.\<close>

theorem gga_later_sentence_kept:
  "gga_of_nmea ''$GPRMC,1,2$GPGGA,1,2,3,4,5,1,7$GPGSV,1,2,3,4,5,6,7'' = Some (Some ''$GPGGA,1,2,3,4,5,1,7$GPGSV,1,2'') \<and>
   gga_of_nmea ''$GPGGA,12,34,N,5,E,1'' = None"
  by (rule conjI; code_simp)

end
