(* ===== verification/Gnss_Sv_Masks.thy ===== *)
theory Gnss_Sv_Masks
  imports Gnss_Sv_Config
begin

text \<open>
  The masks of excluded satellites: which bit a satellite has, that a configuration survives the way
  to a list and back, and what the engine is told when constellations are switched.
\<close>

section \<open>Masks of a configuration\<close>

definition has_mask :: "sv_type \<Rightarrow> bool" where
  "has_mask t \<longleftrightarrow> t \<noteq> GNSS_SV_TYPE_UNKNOWN \<and> t \<noteq> GNSS_SV_TYPE_GPS"

lemma get_set [simp]: "has_mask t \<Longrightarrow> get_mask t (set_mask t m c) = m"
  by (cases t) (auto simp: has_mask_def)

lemma set_set [simp]: "set_mask t m (set_mask t n c) = set_mask t m c"
  by (cases t) auto

lemma set_get [simp]: "set_mask t (get_mask t c) c = c"
  by (cases t) auto

lemma get_set_other: "t \<noteq> u \<Longrightarrow> get_mask t (set_mask u m c) = get_mask t c"
  by (cases t; cases u) auto

lemma convert_sources_append:
  "convert_sources (xs @ ys) c = (case convert_sources xs c of None \<Rightarrow> None | Some c1 \<Rightarrow> convert_sources ys c1)"
  by (induction xs arbitrary: c) (auto split: option.splits)

section \<open>Back from a list\<close>

lemma mask_step:
  "push_bit n (m :: u64) = (if m AND 1 \<noteq> 0 then push_bit n 1 else 0) OR push_bit (Suc n) (drop_bit 1 m)"
proof -
  have e: "m AND 1 \<noteq> 0 \<longleftrightarrow> bit m 0" using and_push_bit_one [of m 0] by simp
  show ?thesis
  proof (rule bit_eqI)
    fix k
    assume "possible_bit TYPE(u64) k"
    show "bit (push_bit n m) k = bit ((if m AND 1 \<noteq> 0 then push_bit n 1 else 0) OR push_bit (Suc n) (drop_bit 1 m)) k"
      unfolding e by (cases "k = n") (auto simp: bit_or_iff bit_push_bit_iff bit_drop_bit_eq bit_exp_iff Suc_diff_Suc simp del: push_bit_Suc)
  qed
qed

text \<open>
  If the source made for bit k sets bit k + off of the mask, the whole list sets the mask moved by off.
\<close>

lemma convert_mask_ids:
  assumes "has_mask t"
    and "\<And>k c. \<lbrakk>b \<le> k; unat k < n\<rbrakk> \<Longrightarrow>
      convert_source \<lparr>src_size = SIZEOF_SV_ID_SOURCE, constellation = t,
        svId = (if t = GNSS_SV_TYPE_SBAS \<and> k \<ge> SBAS_INITIAL_SV_LENGTH
          then k - SBAS_INITIAL_SV_LENGTH + SBAS_INITIAL2_SV_ID else k + I)\<rparr> c =
      Some (set_mask t (get_mask t c OR push_bit (unat k + off) 1) c)"
    and "n \<le> 64" "unat m < 2 ^ (n - unat b)" "unat b \<le> n"
  shows "convert_sources (mask_ids t I b m) c = Some (set_mask t (get_mask t c OR push_bit (unat b + off) m) c)"
  using assms
proof (induction t I b m arbitrary: c rule: mask_ids.induct)
  case (1 t I b m)
  show ?case
  proof (cases "m > 0")
    case False
    then have "m = 0" by (simp add: word_greater_zero_iff)
    then show ?thesis by (simp add: mask_ids.simps)
  next
    case True
    then have "unat m \<noteq> 0" by (simp add: unat_eq_0 word_greater_zero_iff)
    with 1(5) have b: "unat b < n" by (cases "n - unat b") simp_all
    then have b1: "unat (b + 1) = unat b + 1" using 1(4)
      by (simp add: unat_word_ariths word_size)
    have d: "unat (drop_bit 1 m) < 2 ^ (n - unat (b + 1))"
    proof -
      have "unat (drop_bit 1 m) = unat m div 2" by (simp add: drop_bit_eq_div unat_div_distrib)
      moreover have "n - unat b = Suc (n - unat (b + 1))" using b b1 by simp
      ultimately show ?thesis using 1(5) by simp
    qed
    have k: "b \<le> k" if "b + 1 \<le> k" for k using that b1 by (simp add: word_le_nat_alt)
    have IH: "convert_sources (mask_ids t I (b + 1) (drop_bit 1 m)) c =
        Some (set_mask t (get_mask t c OR push_bit (unat (b + 1) + off) (drop_bit 1 m)) c)" for c
      by (rule 1(1) [OF True 1(2) 1(3) 1(4) d]) (use k b b1 in auto)
    show ?thesis
      using True IH 1(3) [of b] b 1(2) mask_step [of "unat b + off" m] b1
      by (subst mask_ids.simps) (auto simp: convert_sources_append or.assoc)
  qed
qed

lemma slot_arith:
  assumes "unat k < 64" "unat (I :: u32) < 1000"
  shows "unat (k + I) = unat k + unat I" "I \<le> k + I" "k + I < I + 64"
proof -
  show a: "unat (k + I) = unat k + unat I" using assms by (simp add: unat_word_ariths)
  have b: "unat (I + 64) = unat I + 64" using assms by (simp add: unat_word_ariths)
  show "I \<le> k + I" "k + I < I + 64" using assms by (simp_all add: word_le_nat_alt word_less_nat_alt a b)
qed

text \<open>The source with the number of bit k sets the bit of its slot.\<close>

lemma convert_source_bit:
  assumes "mask_slot t (k + I) = Some (I, off)" "unat k + unat off < 64" "0 < unat I" "unat I < 1000"
  shows "convert_source \<lparr>src_size = sz, constellation = t, svId = k + I\<rparr> c =
    Some (set_mask t (get_mask t c OR push_bit (unat k + unat off) 1) c)"
proof -
  have k: "unat k < 64" using assms(2) by simp
  have "unat (k + I) \<noteq> 0" using slot_arith(1) [OF k assms(4)] assms(3) by simp
  then have n: "k + I \<noteq> 0" by (simp add: unat_eq_0)
  have "unat (k + off) = unat k + unat off" using assms(2) by (simp add: unat_word_ariths)
  moreover have "k + I + off - I = k + off" by simp
  ultimately have s: "unat (k + I + off - I) = unat k + unat off" by (simp only:)
  show ?thesis using slot_arith(2,3) [OF k assms(4)] n s assms(1,2)
    by (simp add: convert_source_def Let_def not_less)
qed

lemma bit_ALL:
  assumes "k < 64"
  shows "bit ALL_BITS k"
proof -
  have a: "ALL_BITS = - 1" by (simp add: ALL_BITS_def)
  show ?thesis unfolding a using assms by simp
qed

lemma set_all:
  assumes "mask_slot t 0 \<noteq> None"
  shows "convert_source \<lparr>src_size = sz, constellation = t, svId = 0\<rparr> c = Some (set_mask t (get_mask t c OR ALL_BITS) c)"
proof -
  have "x OR ALL_BITS = ALL_BITS" for x by (intro bit_eqI) (simp add: bit_or_iff bit_ALL)
  with assms show ?thesis by (auto simp: convert_source_def)
qed

lemma stage_plain:
  assumes t: "has_mask t" "t \<noteq> GNSS_SV_TYPE_SBAS" and s: "\<And>i. mask_slot t i = Some (I, 0)"
    and I: "0 < unat I" "unat I < 1000"
  shows "convert_sources (if m \<noteq> 0 then convertGnssSvIdMaskToList m I t else []) c = Some (set_mask t (get_mask t c OR m) c)"
proof (cases "m = ALL_BITS")
  case True
  with t s show ?thesis by (simp add: convertGnssSvIdMaskToList_def set_all ALL_BITS_def)
next
  case False
  have "unat m < 2 ^ 64" using unsigned_less [of m] by simp
  then have "convert_sources (mask_ids t I 0 m) c = Some (set_mask t (get_mask t c OR push_bit (unat (0 :: u32) + 0) m) c)"
    by (intro convert_mask_ids [where n = 64] t)
      (use t(2) s I convert_source_bit [of t _ I 0] in auto)
  with False show ?thesis by (simp add: convertGnssSvIdMaskToList_def)
qed

lemma sbas_slots:
  assumes "unat k < 64"
  shows "unat k < 39 \<Longrightarrow> mask_slot GNSS_SV_TYPE_SBAS (k + SBAS_INITIAL_SV_ID) = Some (SBAS_INITIAL_SV_ID, 0)"
    and "mask_slot GNSS_SV_TYPE_SBAS (k + SBAS_INITIAL2_SV_ID) = Some (SBAS_INITIAL2_SV_ID, SBAS_INITIAL_SV_LENGTH)"
proof -
  have a: "unat (k + 120) = unat k + 120" "unat (k + 183) = unat k + 183"
    using slot_arith(1) [OF assms, of 120] slot_arith(1) [OF assms, of 183] by simp_all
  then have "k + 120 \<noteq> 0" "k + 183 \<noteq> 0" by (metis add_is_0 unat_0 zero_neq_numeral)+
  then show "unat k < 39 \<Longrightarrow> mask_slot GNSS_SV_TYPE_SBAS (k + SBAS_INITIAL_SV_ID) = Some (SBAS_INITIAL_SV_ID, 0)"
    "mask_slot GNSS_SV_TYPE_SBAS (k + SBAS_INITIAL2_SV_ID) = Some (SBAS_INITIAL2_SV_ID, SBAS_INITIAL_SV_LENGTH)"
    using a by (simp_all add: mask_slot_def sv_ids word_le_nat_alt word_less_nat_alt)
qed

lemma sbas_first:
  assumes "unat m < 2 ^ 39"
  shows "convert_sources (convertGnssSvIdMaskToList m SBAS_INITIAL_SV_ID GNSS_SV_TYPE_SBAS) c =
    Some (set_mask GNSS_SV_TYPE_SBAS (sbasBlacklistSvMask c OR m) c)"
proof -
  have "m \<noteq> ALL_BITS" using assms by (auto simp: ALL_BITS_def)
  moreover have "convert_sources (mask_ids GNSS_SV_TYPE_SBAS SBAS_INITIAL_SV_ID 0 m) c =
      Some (set_mask GNSS_SV_TYPE_SBAS (get_mask GNSS_SV_TYPE_SBAS c OR push_bit (unat (0 :: u32) + 0) m) c)"
  proof (rule convert_mask_ids [where n = 39])
    fix k :: u32 and c
    assume k: "unat k < 39"
    then have "\<not> k \<ge> SBAS_INITIAL_SV_LENGTH" by (simp add: sv_ids word_le_nat_alt)
    with k convert_source_bit [of GNSS_SV_TYPE_SBAS k SBAS_INITIAL_SV_ID 0] sbas_slots(1) [of k]
    show "convert_source \<lparr>src_size = SIZEOF_SV_ID_SOURCE, constellation = GNSS_SV_TYPE_SBAS,
        svId = (if GNSS_SV_TYPE_SBAS = GNSS_SV_TYPE_SBAS \<and> k \<ge> SBAS_INITIAL_SV_LENGTH
          then k - SBAS_INITIAL_SV_LENGTH + SBAS_INITIAL2_SV_ID else k + SBAS_INITIAL_SV_ID)\<rparr> c =
      Some (set_mask GNSS_SV_TYPE_SBAS (get_mask GNSS_SV_TYPE_SBAS c OR push_bit (unat k + 0) 1) c)"
      by (simp add: SBAS_INITIAL_SV_ID_def)
  qed (use assms in \<open>auto simp: has_mask_def\<close>)
  ultimately show ?thesis by (simp add: convertGnssSvIdMaskToList_def)
qed

lemma sbas_second:
  assumes "unat m < 2 ^ 25"
  shows "convert_sources (convertGnssSvIdMaskToList m SBAS_INITIAL2_SV_ID GNSS_SV_TYPE_SBAS) c =
    Some (set_mask GNSS_SV_TYPE_SBAS (sbasBlacklistSvMask c OR push_bit 39 m) c)"
proof -
  have "m \<noteq> ALL_BITS" using assms by (auto simp: ALL_BITS_def)
  moreover have "convert_sources (mask_ids GNSS_SV_TYPE_SBAS SBAS_INITIAL2_SV_ID 0 m) c =
      Some (set_mask GNSS_SV_TYPE_SBAS (get_mask GNSS_SV_TYPE_SBAS c OR push_bit (unat (0 :: u32) + 39) m) c)"
  proof (rule convert_mask_ids [where n = 25])
    fix k :: u32 and c
    assume k: "unat k < 25"
    then have "\<not> k \<ge> SBAS_INITIAL_SV_LENGTH" by (simp add: sv_ids word_le_nat_alt)
    with k convert_source_bit [of GNSS_SV_TYPE_SBAS k SBAS_INITIAL2_SV_ID SBAS_INITIAL_SV_LENGTH] sbas_slots(2) [of k]
    show "convert_source \<lparr>src_size = SIZEOF_SV_ID_SOURCE, constellation = GNSS_SV_TYPE_SBAS,
        svId = (if GNSS_SV_TYPE_SBAS = GNSS_SV_TYPE_SBAS \<and> k \<ge> SBAS_INITIAL_SV_LENGTH
          then k - SBAS_INITIAL_SV_LENGTH + SBAS_INITIAL2_SV_ID else k + SBAS_INITIAL2_SV_ID)\<rparr> c =
      Some (set_mask GNSS_SV_TYPE_SBAS (get_mask GNSS_SV_TYPE_SBAS c OR push_bit (unat k + 39) 1) c)"
      by (simp add: SBAS_INITIAL2_SV_ID_def SBAS_INITIAL_SV_LENGTH_def)
  qed (use assms in \<open>auto simp: has_mask_def\<close>)
  ultimately show ?thesis by (simp add: convertGnssSvIdMaskToList_def)
qed


lemma sbas_parts:
  "unat (drop_bit 25 (push_bit 25 m) :: u64) < 2 ^ 39" "unat (drop_bit 39 (m :: u64)) < 2 ^ 25"
  "drop_bit 25 (push_bit 25 m) OR push_bit 39 (drop_bit 39 m) = m"
proof -
  have h: "unat (drop_bit n w) < 2 ^ (64 - n)" if "n \<le> 64" for n and w :: u64
  proof -
    have "unat w < 2 ^ (64 - n) * 2 ^ n" using unsigned_less [of w] that by (simp flip: power_add)
    then show ?thesis by (simp only: unat_drop_bit_eq) (simp add: drop_bit_eq_div less_mult_imp_div_less)
  qed
  show "unat (drop_bit 25 (push_bit 25 m) :: u64) < 2 ^ 39" "unat (drop_bit 39 (m :: u64)) < 2 ^ 25"
    using h [of 25 "push_bit 25 m"] h [of 39 m] by simp_all
  show "drop_bit 25 (push_bit 25 m) OR push_bit 39 (drop_bit 39 m) = m"
  proof (rule bit_eqI)
    fix n
    show "bit (drop_bit 25 (push_bit 25 m) OR push_bit 39 (drop_bit 39 m)) n = bit m n" if "possible_bit TYPE(u64) n"
      using that by (cases "n < 39") (auto simp: bit_or_iff bit_push_bit_iff bit_drop_bit_eq)
  qed
qed

lemma stage_sbas:
  "convert_sources (if m \<noteq> 0 then
       convertGnssSvIdMaskToList (drop_bit (64 - unat SBAS_INITIAL_SV_LENGTH) (push_bit (64 - unat SBAS_INITIAL_SV_LENGTH) m))
         SBAS_INITIAL_SV_ID GNSS_SV_TYPE_SBAS
       @ convertGnssSvIdMaskToList (drop_bit (unat SBAS_INITIAL_SV_LENGTH) m) SBAS_INITIAL2_SV_ID GNSS_SV_TYPE_SBAS else []) c =
     Some (set_mask GNSS_SV_TYPE_SBAS (sbasBlacklistSvMask c OR m) c)"
proof -
  have l: "unat SBAS_INITIAL_SV_LENGTH = 39" by (simp add: SBAS_INITIAL_SV_LENGTH_def)
  have "(sbasBlacklistSvMask c OR drop_bit 25 (push_bit 25 m)) OR push_bit 39 (drop_bit 39 m) = sbasBlacklistSvMask c OR m"
    using sbas_parts(3) [of m] by (simp add: or.assoc)
  then show ?thesis using sbas_first [OF sbas_parts(1) [of m]] sbas_second [OF sbas_parts(2) [of m]]
    by (simp add: convert_sources_append l)
qed

lemma stages:
  "convert_sources (if m \<noteq> 0 then convertGnssSvIdMaskToList m BDS_INITIAL_SV_ID GNSS_SV_TYPE_BEIDOU else []) c =
     Some (c\<lparr>bdsBlacklistSvMask := bdsBlacklistSvMask c OR m\<rparr>)"
  "convert_sources (if m \<noteq> 0 then convertGnssSvIdMaskToList m GAL_INITIAL_SV_ID GNSS_SV_TYPE_GALILEO else []) c =
     Some (c\<lparr>galBlacklistSvMask := galBlacklistSvMask c OR m\<rparr>)"
  "convert_sources (if m \<noteq> 0 then convertGnssSvIdMaskToList m GLO_INITIAL_SV_ID GNSS_SV_TYPE_GLONASS else []) c =
     Some (c\<lparr>gloBlacklistSvMask := gloBlacklistSvMask c OR m\<rparr>)"
  "convert_sources (if m \<noteq> 0 then convertGnssSvIdMaskToList m QZSS_INITIAL_SV_ID GNSS_SV_TYPE_QZSS else []) c =
     Some (c\<lparr>qzssBlacklistSvMask := qzssBlacklistSvMask c OR m\<rparr>)"
  "convert_sources (if m \<noteq> 0 then convertGnssSvIdMaskToList m NAVIC_INITIAL_SV_ID GNSS_SV_TYPE_NAVIC else []) c =
     Some (c\<lparr>navicBlacklistSvMask := navicBlacklistSvMask c OR m\<rparr>)"
  using stage_plain [of GNSS_SV_TYPE_BEIDOU BDS_INITIAL_SV_ID m c]
    stage_plain [of GNSS_SV_TYPE_GALILEO GAL_INITIAL_SV_ID m c]
    stage_plain [of GNSS_SV_TYPE_GLONASS GLO_INITIAL_SV_ID m c]
    stage_plain [of GNSS_SV_TYPE_QZSS QZSS_INITIAL_SV_ID m c]
    stage_plain [of GNSS_SV_TYPE_NAVIC NAVIC_INITIAL_SV_ID m c]
  by (simp_all add: has_mask_def mask_slot_def sv_ids)

section \<open>Properties of the masks\<close>

text \<open>C36. A configuration of excluded satellites that is read into a list and converted back is the
same, whichever of the bits of its six masks are set: the whole of a constellation, the two ranges of
SBAS and bits without a satellite included.\<close>

theorem sv_masks_roundtrip:
  "convertToGnssSvIdConfig (convertFromGnssSvIdConfig c) no_sv_ids = Some (True, c\<lparr>cfg_size := SIZEOF_SV_ID_CONFIG\<rparr>)"
proof -
  let ?z = "no_sv_ids\<lparr>cfg_size := SIZEOF_SV_ID_CONFIG\<rparr>"
  have run: "convert_sources (convertFromGnssSvIdConfig c) ?z = Some (c\<lparr>cfg_size := SIZEOF_SV_ID_CONFIG\<rparr>)"
    unfolding convertFromGnssSvIdConfig_def by (simp only: convert_sources_append stages stage_sbas option.case) (simp add: no_sv_ids_def)
  show ?thesis
  proof (cases "convertFromGnssSvIdConfig c = []")
    case True
    with run show ?thesis by (simp add: convertToGnssSvIdConfig_def)
  next
    case False
    have "any_mask c"
      using False by (auto simp: convertFromGnssSvIdConfig_def any_mask_def split: if_splits)
    with False run show ?thesis by (simp add: convertToGnssSvIdConfig_def any_mask_def)
  qed
qed


text \<open>The bit of a satellite, by the ranges of the identifiers.\<close>

definition sv_bit :: "sv_type \<Rightarrow> nat \<Rightarrow> nat option" where
  "sv_bit t i =
     (case t of
        GNSS_SV_TYPE_GLONASS \<Rightarrow> if 65 \<le> i \<and> i < 65 + 64 then Some (i - 65) else None
      | GNSS_SV_TYPE_BEIDOU \<Rightarrow> if 201 \<le> i \<and> i < 201 + 64 then Some (i - 201) else None
      | GNSS_SV_TYPE_QZSS \<Rightarrow> if 193 \<le> i \<and> i < 193 + 64 then Some (i - 193) else None
      | GNSS_SV_TYPE_GALILEO \<Rightarrow> if 301 \<le> i \<and> i < 301 + 64 then Some (i - 301) else None
      | GNSS_SV_TYPE_NAVIC \<Rightarrow> if 401 \<le> i \<and> i < 401 + 64 then Some (i - 401) else None
      | GNSS_SV_TYPE_SBAS \<Rightarrow> if 120 \<le> i \<and> i \<le> 158 then Some (i - 120)
          else if 183 \<le> i \<and> i < 208 then Some (i - 183 + 39) else None
      | _ \<Rightarrow> None)"

definition shift_ok :: "sv_source \<Rightarrow> bool" where
  "shift_ok s \<longleftrightarrow> constellation s = GNSS_SV_TYPE_SBAS \<longrightarrow> \<not> (208 \<le> svId s \<and> svId s \<le> 246)"

definition excludes :: "sv_source \<Rightarrow> sv_type \<Rightarrow> nat \<Rightarrow> bool" where
  "excludes s t k \<longleftrightarrow> constellation s = t \<and> (svId s = 0 \<or> sv_bit t (unat (svId s)) = Some k)"

text \<open>In a plain slot the bit is the distance from the first identifier.\<close>

lemma convert_plain_slot:
  assumes "mask_slot (constellation s) (svId s) = Some (I, off)" "svId s \<noteq> 0" "unat I + 64 < 2 ^ 32" "unat off < 64"
  shows "convert_source s c =
    (if unat I \<le> unat (svId s) \<and> unat (svId s) < unat I + 64
     then if unat (svId s) + unat off - unat I < 64
       then Some (set_mask (constellation s) (get_mask (constellation s) c OR push_bit (unat (svId s) + unat off - unat I) 1) c)
       else None
     else Some c)"
proof -
  have i: "unat (I + 64) = unat I + 64" using assms(3) by (simp add: unat_word_ariths)
  show ?thesis
  proof (cases "unat I \<le> unat (svId s) \<and> unat (svId s) < unat I + 64")
    case True
    let ?d = "svId s - I"
    have d: "unat ?d = unat (svId s) - unat I" using True by (simp add: unat_sub word_le_nat_alt)
    have e1: "svId s + off - I = ?d + off" by simp
    have e2: "unat (?d + off) = unat ?d + unat off"
    proof -
      have "unat ?d < 64" using True d by linarith
      then have "unat ?d + unat off < 2 ^ LENGTH(32)" using assms(4) by simp
      then show ?thesis by (simp only: unat_add_lem)
    qed
    have "unat (svId s + off - I) = unat (svId s) + unat off - unat I" unfolding e1 e2 d using True by simp
    with True assms(1,2) show ?thesis
      by (auto simp: convert_source_def Let_def word_less_nat_alt word_le_nat_alt i)
  next
    case False
    with assms(1,2) show ?thesis by (auto simp: convert_source_def word_less_nat_alt word_le_nat_alt i)
  qed
qed

lemma convert_source_exact:
  assumes "shift_ok s"
  shows "\<exists>c'. convert_source s c = Some c' \<and> (\<forall>t k. has_mask t \<longrightarrow> k < 64 \<longrightarrow>
    (bit (get_mask t c') k \<longleftrightarrow> bit (get_mask t c) k \<or> excludes s t k))"
proof (cases "mask_slot (constellation s) (svId s)")
  case None
  then have "svId s \<noteq> 0" if "has_mask (constellation s)" using that
    by (auto simp: mask_slot_def has_mask_def split: sv_type.splits)
  moreover have "sv_bit (constellation s) (unat (svId s)) = None"
    using None by (auto simp: mask_slot_def sv_bit_def sv_ids word_le_nat_alt word_less_nat_alt split: sv_type.splits if_splits)
  ultimately show ?thesis using None by (auto simp: convert_source_def excludes_def)
next
  case (Some slot)
  then obtain I off where slot: "mask_slot (constellation s) (svId s) = Some (I, off)" by (cases slot) auto
  have h: "has_mask (constellation s)" using slot by (auto simp: mask_slot_def has_mask_def split: sv_type.splits)
  show ?thesis
  proof (cases "svId s = 0")
    case True
    have g: "bit (get_mask t (set_mask (constellation s) ALL_BITS c)) k \<longleftrightarrow> bit (get_mask t c) k \<or> constellation s = t"
      if "k < 64" for t k using h that by (cases "constellation s = t") (auto simp: get_set_other bit_ALL)
    with slot True show ?thesis
      by (intro exI [of _ "set_mask (constellation s) ALL_BITS c"])
        (simp add: convert_source_def excludes_def)
  next
    case False
    have b: "unat I + 64 < 2 ^ 32" "unat off < 64"
      using slot False by (auto simp: mask_slot_def sv_ids split: sv_type.splits if_splits)
    have e: "sv_bit (constellation s) (unat (svId s)) =
        (if unat I \<le> unat (svId s) \<and> unat (svId s) < unat I + 64 then Some (unat (svId s) + unat off - unat I) else None) \<and>
        (unat I \<le> unat (svId s) \<and> unat (svId s) < unat I + 64 \<longrightarrow> unat (svId s) + unat off - unat I < 64)"
      using slot False assms
      by (auto simp: mask_slot_def sv_bit_def sv_ids shift_ok_def word_le_nat_alt word_less_nat_alt split: sv_type.splits if_splits)
    have g: "bit (get_mask t (set_mask (constellation s) (get_mask (constellation s) c OR push_bit n 1) c)) k \<longleftrightarrow>
        bit (get_mask t c) k \<or> constellation s = t \<and> n = k" if "k < 64" for t k n
      using h that by (cases "constellation s = t") (auto simp: get_set_other bit_or_iff bit_exp_iff)
    show ?thesis
    proof (cases "unat I \<le> unat (svId s) \<and> unat (svId s) < unat I + 64")
      case True
      with convert_plain_slot [OF slot False b, of c] e
      have "convert_source s c = Some (set_mask (constellation s)
          (get_mask (constellation s) c OR push_bit (unat (svId s) + unat off - unat I) 1) c)" by (simp only: simp_thms if_True)
      with g e True False show ?thesis by (auto simp: excludes_def simp del: push_bit_of_1)
    next
      case no: False
      with convert_plain_slot [OF slot False b, of c] e False show ?thesis by (auto simp: excludes_def)
    qed
  qed
qed

lemma convert_sources_exact:
  assumes "\<forall>s \<in> set ss. shift_ok s"
  shows "\<exists>c'. convert_sources ss c = Some c' \<and> (\<forall>t k. has_mask t \<longrightarrow> k < 64 \<longrightarrow>
    (bit (get_mask t c') k \<longleftrightarrow> bit (get_mask t c) k \<or> (\<exists>s \<in> set ss. excludes s t k)))"
  using assms
proof (induction ss arbitrary: c)
  case (Cons s ss)
  then obtain c1 where c1: "convert_source s c = Some c1"
    "\<forall>t k. has_mask t \<longrightarrow> k < 64 \<longrightarrow> (bit (get_mask t c1) k \<longleftrightarrow> bit (get_mask t c) k \<or> excludes s t k)"
    using convert_source_exact [of s c] by auto
  from Cons.IH [of c1] Cons.prems obtain c2 where "convert_sources ss c1 = Some c2"
    "\<forall>t k. has_mask t \<longrightarrow> k < 64 \<longrightarrow> (bit (get_mask t c2) k \<longleftrightarrow> bit (get_mask t c1) k \<or> (\<exists>s \<in> set ss. excludes s t k))" by auto
  with c1 show ?case by auto
qed simp

text \<open>A list of excluded satellites is converted without undefined behaviour as long as no SBAS
identifier lies between 208 and 246, and then bit k of the mask of a constellation is set exactly
when the list excludes the whole constellation or the satellite of this bit.\<close>

theorem sv_list_exact:
  assumes "\<forall>s \<in> set ss. shift_ok s" and "has_mask t" and "k < 64"
  shows "\<exists>ok c. convertToGnssSvIdConfig ss no_sv_ids = Some (ok, c) \<and>
    (bit (get_mask t c) k \<longleftrightarrow> (\<exists>s \<in> set ss. excludes s t k))"
proof -
  let ?z = "no_sv_ids\<lparr>cfg_size := SIZEOF_SV_ID_CONFIG\<rparr>"
  have z: "\<not> bit (get_mask t ?z) k" by (cases t) (simp_all add: no_sv_ids_def)
  show ?thesis
  proof (cases "ss = []")
    case True
    with z show ?thesis by (simp add: convertToGnssSvIdConfig_def ex_bool_eq)
  next
    case False
    from convert_sources_exact [OF assms(1), of ?z] z assms(2,3) False show ?thesis
      by (auto simp: convertToGnssSvIdConfig_def)
  qed
qed

lemma sv_list_exact_witness:
  "\<exists>ok c. convertToGnssSvIdConfig [\<lparr>src_size = 12, constellation = GNSS_SV_TYPE_SBAS, svId = 185\<rparr>] no_sv_ids = Some (ok, c) \<and>
    bit (sbasBlacklistSvMask c) 41"
proof -
  let ?s = "\<lparr>src_size = 12, constellation = GNSS_SV_TYPE_SBAS, svId = 185\<rparr> :: sv_source"
  have 1: "\<forall>s \<in> set [?s]. shift_ok s" by (simp add: shift_ok_def)
  have 2: "has_mask GNSS_SV_TYPE_SBAS" by (simp add: has_mask_def)
  have "excludes ?s GNSS_SV_TYPE_SBAS 41" by (simp add: excludes_def sv_bit_def)
  with sv_list_exact [OF 1 2, of 41] show ?thesis by auto
qed

text \<open>Two limits. Excluding SBAS as a whole is read back as 64 identifiers, up to 207, beyond the
range that the interface documents; and an identifier like 210 is shifted too far.\<close>

theorem sbas_limits:
  "map_option (\<lambda>(ok, c). (length (convertFromGnssSvIdConfig c), svId (last (convertFromGnssSvIdConfig c))))
     (convertToGnssSvIdConfig [\<lparr>src_size = 12, constellation = GNSS_SV_TYPE_SBAS, svId = 0\<rparr>] no_sv_ids) = Some (64, 207) \<and>
   convertToGnssSvIdConfig [\<lparr>src_size = 12, constellation = GNSS_SV_TYPE_SBAS, svId = 210\<rparr>] no_sv_ids = None"
  by (rule conjI; code_simp)

section \<open>What the engine is told\<close>

text \<open>When constellations are switched the engine is told to exclude all satellites of the
constellations that are disabled, and of the others those that were excluded before; then which
constellations are enabled, if any; and all this after a reset when one is not enabled any more.\<close>

theorem sv_types_sent:
  assumes "tc_size config = SIZEOF_SV_TYPE_CONFIG"
  shows "\<exists>b. fst (gnssSvTypeConfigUpdate config s) =
      (if \<exists>k. bit (enabledSvTypesMask (mGnssSvTypeConfig s)) k \<and> \<not> bit (enabledSvTypesMask config) k then [ResetConstellationControl] else [])
      @ [SetBlacklistSv b]
      @ (if enabledSvTypesMask config \<noteq> 0 then [SetConstellationControl (config\<lparr>blacklistedSvTypesMask := 0\<rparr>)] else []) \<and>
    (\<forall>t. get_mask t b =
       (if (t, True) \<in> {(GNSS_SV_TYPE_GLONASS, bit (blacklistedSvTypesMask config) 0), (GNSS_SV_TYPE_BEIDOU, bit (blacklistedSvTypesMask config) 1),
          (GNSS_SV_TYPE_QZSS, bit (blacklistedSvTypesMask config) 2), (GNSS_SV_TYPE_GALILEO, bit (blacklistedSvTypesMask config) 3),
          (GNSS_SV_TYPE_NAVIC, bit (blacklistedSvTypesMask config) 4)}
        then ALL_BITS else get_mask t (mGnssSvIdConfig s)))"
proof -
  let ?m = "blacklistedSvTypesMask config"
  have bits: "?m AND GLO_BIT \<noteq> 0 \<longleftrightarrow> bit ?m 0" "?m AND BDS_BIT \<noteq> 0 \<longleftrightarrow> bit ?m 1" "?m AND QZSS_BIT \<noteq> 0 \<longleftrightarrow> bit ?m 2"
    "?m AND GAL_BIT \<noteq> 0 \<longleftrightarrow> bit ?m 3" "?m AND NAVIC_BIT \<noteq> 0 \<longleftrightarrow> bit ?m 4"
    using and_push_bit_one [of ?m 0] and_push_bit_one [of ?m 1] and_push_bit_one [of ?m 2] and_push_bit_one [of ?m 3]
      and_push_bit_one [of ?m 4] by (simp_all add: GLO_BIT_def BDS_BIT_def QZSS_BIT_def GAL_BIT_def NAVIC_BIT_def)
  have removed: "enabled_removed (mGnssSvTypeConfig s) config \<longleftrightarrow>
      (\<exists>k. bit (enabledSvTypesMask (mGnssSvTypeConfig s)) k \<and> \<not> bit (enabledSvTypesMask config) k)" (is "_ \<longleftrightarrow> (\<exists>k. bit ?o k \<and> \<not> bit ?n k)")
  proof -
    have "enabled_removed (mGnssSvTypeConfig s) config \<longleftrightarrow> ?o AND (?o XOR ?n) \<noteq> 0" by (simp add: enabled_removed_def)
    also have "\<dots> \<longleftrightarrow> (\<exists>k. bit (?o AND (?o XOR ?n)) k)" by (metis bit_eqI bit_0_eq bot_apply bot_bool_def)
    also have "\<dots> \<longleftrightarrow> (\<exists>k. bit ?o k \<and> \<not> bit ?n k)" by (auto simp: bit_and_iff bit_xor_iff)
    finally show ?thesis .
  qed
  have masks: "get_mask t (blacklist_of ?m (mGnssSvIdConfig s)) =
       (if (t, True) \<in> {(GNSS_SV_TYPE_GLONASS, bit ?m 0), (GNSS_SV_TYPE_BEIDOU, bit ?m 1), (GNSS_SV_TYPE_QZSS, bit ?m 2),
          (GNSS_SV_TYPE_GALILEO, bit ?m 3), (GNSS_SV_TYPE_NAVIC, bit ?m 4)}
        then ALL_BITS else get_mask t (mGnssSvIdConfig s))" for t
    by (cases t) (simp_all add: blacklist_of_def all_of_def bits)
  show ?thesis
    by (rule exI [of _ "blacklist_of ?m (mGnssSvIdConfig s)"])
      (use assms masks in \<open>simp add: gnssSvTypeConfigUpdate_def send_sv_types_def Let_def removed\<close>)
qed

definition demo_types :: "u64 \<Rightarrow> u64 \<Rightarrow> sv_type_config" where
  "demo_types e b = \<lparr>tc_size = SIZEOF_SV_TYPE_CONFIG, enabledSvTypesMask = e, blacklistedSvTypesMask = b\<rparr>"

lemma sv_types_sent_witness:
  "\<exists>b. SetBlacklistSv b \<in> set (fst (gnssSvTypeConfigUpdate (demo_types 1 2) sv_state_init)) \<and> bdsBlacklistSvMask b = ALL_BITS"
proof -
  have t: "tc_size (demo_types 1 2) = SIZEOF_SV_TYPE_CONFIG" by (simp add: demo_types_def)
  have b: "bit (blacklistedSvTypesMask (demo_types 1 2)) 1" by (simp add: demo_types_def bit_word_iff_drop_bit_and)
  from sv_types_sent [OF t, of sv_state_init] b show ?thesis
    by (elim exE conjE) (rule exI, rule conjI, fastforce, drule spec [of _ GNSS_SV_TYPE_BEIDOU], simp)
qed

text \<open>Two findings. The command that sets constellations and satellites together sends the engine the
constellations that were set before; and a list without a valid satellite clears the stored
configuration without telling the engine, which hears of it at the next restart.\<close>

theorem sv_config_outdated:
  "fst (gnssUpdateSvConfig (demo_types 2 0) no_sv_ids (sv_state_init\<lparr>mGnssSvTypeConfig := demo_types 3 0\<rparr>)) =
     [ResetConstellationControl, SetConstellationControl (demo_types 3 0), SetBlacklistSv no_sv_ids] \<and>
   (let s = sv_state_init\<lparr>mGnssSvIdConfig := no_sv_ids\<lparr>gloBlacklistSvMask := 1\<rparr>\<rparr>
    in map_option (\<lambda>(calls, s1). (calls, hd (sv_engine_up s1)))
         (gnssSvIdConfigUpdate [\<lparr>src_size = 12, constellation = GNSS_SV_TYPE_GPS, svId = 3\<rparr>] s) =
       Some ([], SetBlacklistSv (no_sv_ids\<lparr>cfg_size := SIZEOF_SV_ID_CONFIG\<rparr>)))"
  by (rule conjI; code_simp)

end
