(* ===== verification/Gnss_Multiplex.thy ===== *)
theory Gnss_Multiplex
  imports Gnss_Sessions
begin

text \<open>
  The engine session that the sessions by time share: what the engine is asked for when a session
  starts, changes or stops, and that over every run of sessions by time the engine runs exactly
  while there is a session, at least as often as each of them wants.
\<close>

section \<open>The loop over the sessions\<close>

lemma mux_Nil [simp]: "mux [] = (zero_options, GNSS_POWER_MODE_INVALID)"
  by (simp add: mux_def)

lemma mux_snoc: "mux (os @ [o1]) = mux_step o1 (mux os)"
  by (simp add: mux_def)

lemma mux_interval:
  assumes "\<forall>o1 \<in> set os. to_size o1 \<noteq> 0" "os \<noteq> []"
  shows "fst (mux os) \<in> set os \<and> (\<forall>o1 \<in> set os. minInterval (fst (mux os)) \<le> minInterval o1)"
  using assms
proof (induction os rule: rev_induct)
  case (snoc o1 os)
  show ?case
  proof (cases "os = []")
    case True
    then show ?thesis using mux_snoc [of "[]" o1] by (simp add: mux_step_def zero_options_def)
  next
    case False
    with snoc have i: "fst (mux os) \<in> set os" "\<forall>o1 \<in> set os. minInterval (fst (mux os)) \<le> minInterval o1" by auto
    with snoc.prems have "to_size (fst (mux os)) \<noteq> 0" by auto
    with i show ?thesis by (auto simp: mux_snoc mux_step_def)
  qed
qed simp

lemma mux_power:
  assumes "\<forall>o1 \<in> set os. powerMode o1 \<noteq> GNSS_POWER_MODE_INVALID" "os \<noteq> []"
  shows "snd (mux os) \<in> powerMode ` set os \<and> (\<forall>o1 \<in> set os. snd (mux os) \<le> powerMode o1)"
  using assms
proof (induction os rule: rev_induct)
  case (snoc o1 os)
  show ?case
  proof (cases "os = []")
    case True
    then show ?thesis using mux_snoc [of "[]" o1] by (simp add: mux_step_def)
  next
    case False
    with snoc have i: "snd (mux os) \<in> powerMode ` set os" "\<forall>o1 \<in> set os. snd (mux os) \<le> powerMode o1" by auto
    with snoc.prems have "snd (mux os) \<noteq> GNSS_POWER_MODE_INVALID" by auto
    with i show ?thesis by (auto simp: mux_snoc mux_step_def)
  qed
qed simp

section \<open>One operation\<close>

definition calls_of :: "gn_out list \<Rightarrow> gn_call list" where
  "calls_of outs = concat (map (\<lambda>x. case x of CallApi c \<Rightarrow> [c] | _ \<Rightarrow> []) outs)"

lemma calls_of_append [simp]: "calls_of (xs @ ys) = calls_of xs @ calls_of ys"
  by (simp add: calls_of_def)

definition good_options :: "trk_options \<Rightarrow> bool" where
  "good_options os \<longleftrightarrow> to_size os \<noteq> 0 \<and> powerMode os \<noteq> GNSS_POWER_MODE_INVALID"

text \<open>What the engine is asked for, the high rate that the engine hub may need included.\<close>

lemma ask_calls:
  "if mNHzNeeded (gna w) \<and> mSPEAlreadyRunningAtHighestInterval (gna w)
   then (\<exists>m. fst (ask_engine c i os k w) = [HubSetFixMode m, HubStartFix] @ fst (gn_reportResponse c LOCATION_ERROR_SUCCESS i w))
   else calls_of (fst (ask_engine c i os k w)) =
     [StartTimeBasedTracking (if mNHzNeeded (gna w) then os\<lparr>minInterval := min MIN_TRACKING_INTERVAL (minInterval os)\<rparr> else os)]"
proof -
  have "mNHzNeeded (setLocPositionMode m a) = mNHzNeeded a"
    "mSPEAlreadyRunningAtHighestInterval (setLocPositionMode m a) = mSPEAlreadyRunningAtHighestInterval a"
    "mClientData (setLocPositionMode m a) = mClientData a" for m and a :: gn_adapter
    by (simp_all add: setLocPositionMode_def)
  then show ?thesis
    by (auto simp: ask_engine_def checkAndSetSPEToRunforNHz_def Let_def gn_then_def gn_emit_def gn_upd_def gn_quiet_def
        gn_call_api_def gn_call_all_def calls_of_def gn_reportResponse_def min_def split: option.splits)
qed

definition min_of :: "(trk_options \<Rightarrow> u32) \<Rightarrow> trk_options list \<Rightarrow> u32" where
  "min_of f os = Min (f ` set os)"

lemma min_of_eq: "os \<noteq> [] \<Longrightarrow> x \<in> f ` set os \<Longrightarrow> \<forall>o1 \<in> set os. x \<le> f o1 \<Longrightarrow> min_of f os = x"
  unfolding min_of_def by (rule Min_eqI) auto

lemma mux_mins:
  assumes "\<forall>o1 \<in> set os. good_options o1" "os \<noteq> []"
  shows "minInterval (fst (mux os)) = min_of minInterval os" "snd (mux os) = min_of powerMode os"
  using mux_interval [of os] mux_power [of os] assms
    min_of_eq [of os "minInterval (fst (mux os))" minInterval] min_of_eq [of os "snd (mux os)" powerMode]
  by (auto simp: good_options_def)

lemma min_of_Cons: "os \<noteq> [] \<Longrightarrow> min_of f (o1 # os) = min (f o1) (min_of f os)"
  by (simp add: min_of_def)

text \<open>The sessions other than one of them.\<close>

definition rest :: "session_key \<Rightarrow> (session_key, trk_options) omap \<Rightarrow> trk_options list" where
  "rest key ts = map snd (filter (\<lambda>(k, _). k \<noteq> key) ts)"

lemma filter_absent: "key \<notin> fst ` set ts \<Longrightarrow> filter (\<lambda>(k, _). k \<noteq> key) ts = ts"
  by (induction ts) auto

lemma rest_set:
  "om_ok ts \<Longrightarrow> om_find ts key = Some os \<Longrightarrow> set (map snd ts) = insert os (set (rest key ts)) \<and> length ts = Suc (length (rest key ts))"
proof (induction ts)
  case (Cons t ts)
  obtain k v where t: "t = (k, v)" by force
  show ?case
  proof (cases "k = key")
    case True
    with Cons.prems have "key \<notin> fst ` set ts" by (auto simp: t)
    with True Cons.prems show ?thesis by (simp add: t rest_def filter_absent)
  next
    case False
    with Cons show ?thesis by (auto simp: t rest_def)
  qed
qed simp

text \<open>C12. When one of several sessions by time stops, the engine is asked anew exactly when the others
want it less often or in a higher power mode; it is then asked for the smallest interval and the
smallest power mode of the others, or, while the engine hub needs positions at a high rate, for the
highest rate if that is faster. If the engine already runs at the highest rate it is not asked, and
the client is answered at once. Otherwise nothing is sent, as both minima stay the same. The sessions
must have options with a size, as every start and update checks, and a power mode other than
\<open>GNSS_POWER_MODE_INVALID\<close>, which nothing checks: such a session hides the power modes of those before
it (\<open>multiplex_runs\<close>).\<close>

theorem stop_multiplex_exact:
  assumes "om_find (mTimeBasedTrackingSessions (gna w)) (SessionKey c i) = Some os"
    and "om_ok (mTimeBasedTrackingSessions (gna w))" and "length (mTimeBasedTrackingSessions (gna w)) \<noteq> 1"
    and "\<forall>x \<in> set (mTimeBasedTrackingSessions (gna w)). to_size (snd x) \<noteq> 0 \<and> powerMode (snd x) \<noteq> GNSS_POWER_MODE_INVALID"
  shows "let others = rest (SessionKey c i) (mTimeBasedTrackingSessions (gna w));
             sessions = map snd (mTimeBasedTrackingSessions (gna w));
             (noWait, outs, w') = stopTimeBasedTrackingMultiplex c i w
         in if min_of minInterval others \<noteq> min_of minInterval sessions \<or> min_of powerMode others \<noteq> min_of powerMode sessions
            then \<not> noWait \<and>
              (if mNHzNeeded (gna w) \<and> mSPEAlreadyRunningAtHighestInterval (gna w)
               then (\<exists>m. outs = [HubSetFixMode m, HubStartFix] @ fst (gn_reportResponse c LOCATION_ERROR_SUCCESS i w))
               else (\<exists>asked. calls_of outs = [StartTimeBasedTracking asked] \<and> powerMode asked = min_of powerMode others \<and>
                 minInterval asked = (if mNHzNeeded (gna w) then min MIN_TRACKING_INTERVAL (min_of minInterval others)
                   else min_of minInterval others)))
            else noWait \<and> outs = [] \<and> w' = w"
proof -
  let ?ts = "mTimeBasedTrackingSessions (gna w)"
  let ?r = "rest (SessionKey c i) ?ts"
  note rs = rest_set [OF assms(2,1)]
  then have n: "?r \<noteq> []" using assms(3) by auto
  have g: "\<forall>o1 \<in> set ?r. good_options o1" using assms(4) by (auto simp: rest_def good_options_def)
  note m = mux_mins [OF g n]
  have s: "min_of f (map snd ?ts) = min (f os) (min_of f ?r)" for f
    using rs min_of_Cons [OF n, of f os] by (simp add: min_of_def)
  have c: "min_of f ?r \<noteq> min_of f (map snd ?ts) \<longleftrightarrow> f os < min_of f ?r" for f unfolding s by (auto simp: min_def)
  have e: "stopTimeBasedTrackingMultiplex c i w =
    (if minInterval os < minInterval (fst (mux ?r)) \<or> powerMode os < snd (mux ?r)
     then (False, startTimeBasedTracking c i ((fst (mux ?r))\<lparr>powerMode := snd (mux ?r)\<rparr>) w) else (True, [], w))"
    using assms(1,3) by (simp add: stopTimeBasedTrackingMultiplex_def rest_def Let_def)
  show ?thesis
  proof (cases "minInterval os < minInterval (fst (mux ?r)) \<or> powerMode os < snd (mux ?r)")
    case True
    then have "min_of minInterval ?r \<noteq> min_of minInterval (map snd ?ts) \<or> min_of powerMode ?r \<noteq> min_of powerMode (map snd ?ts)"
      by (simp only: c m)
    moreover from True have "stopTimeBasedTrackingMultiplex c i w =
        (False, startTimeBasedTracking c i ((fst (mux ?r))\<lparr>powerMode := snd (mux ?r)\<rparr>) w)" by (simp only: e if_True)
    ultimately show ?thesis
      using ask_calls [of w c i "(fst (mux ?r))\<lparr>powerMode := snd (mux ?r)\<rparr>" "StartDone c i"] m
      by (simp add: startTimeBasedTracking_def split_beta Let_def split: if_splits)
  next
    case False
    then have "\<not> (min_of minInterval ?r \<noteq> min_of minInterval (map snd ?ts) \<or> min_of powerMode ?r \<noteq> min_of powerMode (map snd ?ts))"
      by (simp only: c m simp_thms)
    moreover from False have "stopTimeBasedTrackingMultiplex c i w = (True, [], w)" by (simp only: e if_False)
    ultimately show ?thesis by (simp add: Let_def)
  qed
qed

definition gn_two :: gn_world where
  "gn_two = gn_start\<lparr>gna := (gna gn_start)\<lparr>mTimeBasedTrackingSessions := [(SessionKey 1 2, trk 1000 2), (SessionKey 1 3, trk 5000 1)]\<rparr>\<rparr>"

lemma stop_multiplex_exact_witness:
  "\<exists>asked. calls_of (fst (snd (stopTimeBasedTrackingMultiplex 1 2 gn_two))) = [StartTimeBasedTracking asked] \<and>
    minInterval asked = 5000 \<and> powerMode asked = 1"
proof -
  have 1: "om_find (mTimeBasedTrackingSessions (gna gn_two)) (SessionKey 1 2) = Some (trk 1000 2)" by (simp add: gn_two_def)
  have 2: "om_ok (mTimeBasedTrackingSessions (gna gn_two))" by (simp add: gn_two_def less_session_key_def key_before_def)
  have 3: "length (mTimeBasedTrackingSessions (gna gn_two)) \<noteq> 1" by (simp add: gn_two_def)
  have 4: "\<forall>x \<in> set (mTimeBasedTrackingSessions (gna gn_two)). to_size (snd x) \<noteq> 0 \<and> powerMode (snd x) \<noteq> GNSS_POWER_MODE_INVALID"
    by (simp add: gn_two_def trk_def zero_options_def SIZEOF_TRACKING_OPTIONS_def GNSS_POWER_MODE_INVALID_def)
  have h: "\<not> mNHzNeeded (gna gn_two)" by (simp add: gn_two_def gn_start_def)
  have r: "rest (SessionKey 1 2) (mTimeBasedTrackingSessions (gna gn_two)) = [trk 5000 1]" by (simp add: gn_two_def rest_def)
  have s: "map snd (mTimeBasedTrackingSessions (gna gn_two)) = [trk 1000 2, trk 5000 1]" by (simp add: gn_two_def)
  have m: "min_of minInterval [trk 5000 1] = 5000" "min_of minInterval [trk 1000 2, trk 5000 1] = 1000" "min_of powerMode [trk 5000 1] = 1"
    by (simp_all add: min_of_def trk_def)
  from stop_multiplex_exact [OF 1 2 3 4] h show ?thesis unfolding r s by (auto simp: m split_beta Let_def)
qed

text \<open>
  Starting and updating are less careful than stopping. A session that starts with a smaller interval
  makes the engine run in the power mode of the session with the smallest interval so far, not in the
  lowest one; a session that raises the smallest interval does not slow the engine down; and a session
  without a power mode hides the power mode of those before it.
\<close>

lemma multiplex_runs:
  "calls_of (fst (snd (startTimeBasedTrackingMultiplex 1 4 (trk 500 3) gn_two))) = [StartTimeBasedTracking (trk 500 2)]"
  "calls_of (fst (snd (updateTrackingMultiplex 1 2 (trk 9000 2) gn_two))) = []"
  "snd (mux [trk 1000 1, trk 1000 0, trk 1000 4]) = 4"
  by code_simp+

end
