(* ===== verification/Gnss_Engine.thy ===== *)
theory Gnss_Engine
  imports Gnss_Multiplex
begin

text \<open>
  What the engine was last asked for, over whole runs. For sessions by time, and as long as the
  engine grants what it is asked for, it runs exactly while there is a session, at an interval that
  is no longer than that of any of them, through restarts of the engine, suspensions and changes
  of the requirements of the engine hub.
\<close>

section \<open>What the engine was asked for\<close>

fun asked1 :: "gn_out \<Rightarrow> u32 option \<Rightarrow> u32 option" where
  "asked1 (CallApi (StartTimeBasedTracking os)) a = Some (minInterval os)"
| "asked1 (CallApi StopFix) a = None"
| "asked1 _ a = a"

definition asked :: "gn_out list \<Rightarrow> u32 option \<Rightarrow> u32 option" where
  "asked outs a = fold asked1 outs a"

lemma asked_append [simp]: "asked (xs @ ys) a = asked ys (asked xs a)"
  by (simp add: asked_def)

lemma asked_Nil [simp]: "asked [] a = a"
  by (simp add: asked_def)

lemma asked_Cons: "asked (x # xs) a = asked xs (asked1 x a)"
  by (simp add: asked_def)

lemma asked_map: "(\<And>x a. x \<in> set xs \<Longrightarrow> asked1 (f x) a = a) \<Longrightarrow> asked (map f xs) a = a"
  by (induction xs arbitrary: a) (auto simp: asked_Cons)

section \<open>Runs of sessions by time\<close>

fun time_cont :: "gn_cont \<Rightarrow> bool" where
  "time_cont (StartDone c i) = True"
| "time_cont (UpdateDone c i os) = True"
| "time_cont (StopDone c i) = True"
| "time_cont (ControlDone i) = True"
| "time_cont NothingToDo = True"
| "time_cont _ = False"

fun time_msg :: "gn_msg \<Rightarrow> bool" where
  "time_msg (MsgStartTracking c i os) = (minDistance os = 0)"
| "time_msg (MsgUpdateTracking c i os) = (minDistance os = 0)"
| "time_msg (GnResponse k err) = (time_cont k \<and> err = LOCATION_ERROR_SUCCESS)"
| "time_msg (GnPended p m) = (\<exists>c. m = GnRequestCapabilities c)"
| "time_msg _ = True"

definition time_msgs :: "gn_world \<Rightarrow> bool" where
  "time_msgs w \<longleftrightarrow> (\<forall>m \<in> set (gn_queue w). time_msg m) \<and>
     (\<forall>(c, k) \<in> set (gn_calls w). case k of None \<Rightarrow> True | Some k' \<Rightarrow> time_cont k') \<and>
     (\<forall>(p, m) \<in> set (mPendingMsgs (gna w)). \<exists>c. m = GnRequestCapabilities c) \<and> mPendingGnssEnabledMsgs (gna w) = []"

text \<open>The sessions, and whether the interval \<open>a\<close> that was asked for is right for them.\<close>

definition sound_sessions :: "gn_world \<Rightarrow> bool" where
  "sound_sessions w \<longleftrightarrow> om_ok (mTimeBasedTrackingSessions (gna w)) \<and> mDistanceBasedTrackingSessions (gna w) = [] \<and>
     (\<forall>x \<in> set (mTimeBasedTrackingSessions (gna w)). to_size (snd x) \<noteq> 0 \<and> MIN_TRACKING_INTERVAL \<le> minInterval (snd x))"

definition spe_ok :: "u32 option \<Rightarrow> gn_world \<Rightarrow> bool" where
  "spe_ok a w \<longleftrightarrow> (mSPEAlreadyRunningAtHighestInterval (gna w) \<longrightarrow> mNHzNeeded (gna w) \<and> a = Some MIN_TRACKING_INTERVAL)"

definition serves :: "u32 option \<Rightarrow> trk_options list \<Rightarrow> bool" where
  "serves a os \<longleftrightarrow> (case a of None \<Rightarrow> os = [] | Some i \<Rightarrow> os \<noteq> [] \<and> (\<forall>o1 \<in> set os. i \<le> minInterval o1))"

definition time_sessions :: "gn_world \<Rightarrow> trk_options list" where
  "time_sessions w = map snd (mTimeBasedTrackingSessions (gna w))"

definition engine_inv :: "u32 option \<Rightarrow> gn_world \<Rightarrow> bool" where
  "engine_inv a w \<longleftrightarrow> sound_sessions w \<and> spe_ok a w \<and> serves a (time_sessions w) \<and> time_msgs w"

section \<open>Actions that concern neither\<close>

definition calm :: "gn_world \<Rightarrow> gn_out list \<Rightarrow> gn_world \<Rightarrow> bool" where
  "calm w outs w' \<longleftrightarrow>
     mTimeBasedTrackingSessions (gna w') = mTimeBasedTrackingSessions (gna w) \<and>
     mDistanceBasedTrackingSessions (gna w') = mDistanceBasedTrackingSessions (gna w) \<and>
     mSPEAlreadyRunningAtHighestInterval (gna w') = mSPEAlreadyRunningAtHighestInterval (gna w) \<and>
     mNHzNeeded (gna w') = mNHzNeeded (gna w) \<and>
     (\<forall>a. asked outs a = a) \<and> (time_msgs w \<longrightarrow> time_msgs w')"

interpretation calm: action_relation calm
  by unfold_locales (auto simp: calm_def)

lemma calm_inv: "calm w outs w' \<Longrightarrow> engine_inv a w \<Longrightarrow> engine_inv (asked outs a) w'"
  by (simp add: calm_def engine_inv_def sound_sessions_def spe_ok_def time_sessions_def)

lemma calm_emit: "(\<And>a. asked outs a = a) \<Longrightarrow> obeys calm (gn_emit outs)"
  by (simp add: obeys_def calm_def gn_emit_def)

lemma calm_upd:
  "(\<And>a. mTimeBasedTrackingSessions (f a) = mTimeBasedTrackingSessions a \<and>
     mDistanceBasedTrackingSessions (f a) = mDistanceBasedTrackingSessions a \<and>
     mSPEAlreadyRunningAtHighestInterval (f a) = mSPEAlreadyRunningAtHighestInterval a \<and> mNHzNeeded (f a) = mNHzNeeded a \<and>
     mPendingMsgs (f a) = mPendingMsgs a \<and> mPendingGnssEnabledMsgs (f a) = mPendingGnssEnabledMsgs a) \<Longrightarrow> obeys calm (gn_upd f)"
  by (simp add: obeys_def calm_def gn_upd_def gn_quiet_def time_msgs_def)

lemma calm_call:
  "(\<And>c k. (c, k) \<in> set cs \<Longrightarrow> (\<forall>os. c \<noteq> StartTimeBasedTracking os) \<and> c \<noteq> StopFix \<and> (case k of None \<Rightarrow> True | Some k' \<Rightarrow> time_cont k')) \<Longrightarrow>
   obeys calm (gn_call_all cs)"
proof -
  assume c: "\<And>c k. (c, k) \<in> set cs \<Longrightarrow> (\<forall>os. c \<noteq> StartTimeBasedTracking os) \<and> c \<noteq> StopFix \<and> (case k of None \<Rightarrow> True | Some k' \<Rightarrow> time_cont k')"
  have "asked1 (CallApi x) a = a" if "(x, k) \<in> set cs" for x k a using c [OF that] by (cases x) auto
  then have "asked (map (\<lambda>(c, _). CallApi c) cs) a = a" for a by (intro asked_map) auto
  with c show ?thesis by (auto simp: obeys_def calm_def gn_call_all_def time_msgs_def)
qed

lemma calm_sv_calls: "obeys calm (sv_calls cs)"
  unfolding sv_calls_def by (rule calm_call) auto

lemma calm_send: "\<forall>m \<in> set ms. time_msg m \<Longrightarrow> obeys calm (gn_send ms)"
  by (auto simp: obeys_def calm_def gn_send_def gn_quiet_def time_msgs_def)

lemma calm_pend: "obeys calm (gn_pend (GnRequestCapabilities c))"
  by (auto simp: obeys_def calm_def gn_pend_def gn_quiet_def time_msgs_def)

lemma calm_dgnss: "obeys calm (gn_dgnss f)"
  by (auto simp: obeys_def calm_def gn_dgnss_def split_beta Let_def time_msgs_def intro!: asked_map)

lemma calm_response: "obeys calm (gn_reportResponse c e i)" "obeys calm (gn_controlResponse e i)"
  by (auto simp: obeys_def calm_def gn_reportResponse_def gn_controlResponse_def asked_Cons split: option.splits)

lemmas calm_prims = calm_sv_calls calm_pend calm_dgnss calm_response

section \<open>Asking the engine\<close>

text \<open>What an operation has to bring about: an interval for the sessions \<open>os\<close>, with the sessions as they were.\<close>

definition asks_for :: "trk_options list \<Rightarrow> u32 option \<Rightarrow> gn_world \<Rightarrow> gn_out list \<Rightarrow> gn_world \<Rightarrow> bool" where
  "asks_for os a w outs w' \<longleftrightarrow>
     mTimeBasedTrackingSessions (gna w') = mTimeBasedTrackingSessions (gna w) \<and>
     mDistanceBasedTrackingSessions (gna w') = mDistanceBasedTrackingSessions (gna w) \<and>
     spe_ok (asked outs a) w' \<and> serves (asked outs a) os \<and> time_msgs w'"

lemma asks_for_then_calm:
  assumes "asks_for os a w o1 w1" "calm w1 o2 w2"
  shows "asks_for os a w (o1 @ o2) w2"
  using assms by (auto simp: asks_for_def calm_def spe_ok_def)

lemma ask_asks:
  assumes "spe_ok a w" "time_msgs w" "time_cont k" "os \<noteq> []"
    and "\<forall>o2 \<in> set os. minInterval o1 \<le> minInterval o2" and "\<forall>o2 \<in> set os. MIN_TRACKING_INTERVAL \<le> minInterval o2"
  shows "asks_for os a w (fst (ask_engine c i o1 k w)) (snd (ask_engine c i o1 k w))"
proof -
  let ?a = "setLocPositionMode (convertOptions o1) (gna w)"
  have f: "mTimeBasedTrackingSessions ?a = mTimeBasedTrackingSessions (gna w)"
    "mDistanceBasedTrackingSessions ?a = mDistanceBasedTrackingSessions (gna w)"
    "mSPEAlreadyRunningAtHighestInterval ?a = mSPEAlreadyRunningAtHighestInterval (gna w)"
    "mNHzNeeded ?a = mNHzNeeded (gna w)" "mPendingMsgs ?a = mPendingMsgs (gna w)" "mPendingGnssEnabledMsgs ?a = mPendingGnssEnabledMsgs (gna w)"
    by (simp_all add: setLocPositionMode_def)
  note u = ask_engine_def checkAndSetSPEToRunforNHz_def Let_def gn_then_def gn_emit_def gn_upd_def gn_quiet_def
    gn_call_api_def gn_call_all_def asked_Cons asks_for_def f
  consider (running) "mNHzNeeded (gna w)" "mSPEAlreadyRunningAtHighestInterval (gna w)"
    | (highest) "mNHzNeeded (gna w)" "\<not> mSPEAlreadyRunningAtHighestInterval (gna w)" "minInterval o1 > MIN_TRACKING_INTERVAL"
    | (plain) "\<not> mNHzNeeded (gna w) \<or> \<not> mSPEAlreadyRunningAtHighestInterval (gna w) \<and> \<not> minInterval o1 > MIN_TRACKING_INTERVAL"
    by blast
  then show ?thesis
  proof cases
    case running
    have "obeys calm (gn_reportResponse c LOCATION_ERROR_SUCCESS i)" by (rule calm_response)
    then have r: "calm v (fst (gn_reportResponse c LOCATION_ERROR_SUCCESS i v)) (snd (gn_reportResponse c LOCATION_ERROR_SUCCESS i v))" for v
      by (rule calm.obeysD)
    have s: "asks_for os a w [HubSetFixMode (mLocPositionMode ?a), HubStartFix] (w\<lparr>gna := ?a\<rparr>)"
      using running assms by (auto simp: asks_for_def f spe_ok_def serves_def asked_Cons time_msgs_def)
    show ?thesis using asks_for_then_calm [OF s r] running
      by (simp add: ask_engine_def checkAndSetSPEToRunforNHz_def Let_def gn_then_def gn_emit_def gn_upd_def gn_quiet_def f split_beta)
  next
    case highest
    with assms show ?thesis by (auto simp: u spe_ok_def serves_def time_msgs_def)
  next
    case plain
    with assms show ?thesis by (auto simp: u spe_ok_def serves_def time_msgs_def)
  qed
qed

lemma stop_asks:
  assumes "time_msgs w"
  shows "asks_for [] a w (fst (stopTracking c i w)) (snd (stopTracking c i w))"
  using assms by (auto simp: stopTracking_def gn_then_def gn_emit_def gn_upd_def gn_quiet_def gn_call_api_def gn_call_all_def
      gn_dgnss_def asks_for_def split_beta Let_def spe_ok_def serves_def time_msgs_def asked_Cons asked_map)


section \<open>The multiplexing operations\<close>

lemma serves_Cons: "serves a os \<Longrightarrow> (\<And>i. a = Some i \<Longrightarrow> i \<le> minInterval o1) \<Longrightarrow> os \<noteq> [] \<Longrightarrow> serves a (o1 # os)"
  by (auto simp: serves_def split: option.splits)

lemma mux_request_interval:
  "minInterval (snd (mux_request o1 m)) =
     (if minInterval o1 < minInterval (fst m) then minInterval o1 else minInterval (fst m))"
  by (simp add: mux_request_def Let_def)

lemma mux_request_unless: "\<not> fst (mux_request o1 m) \<Longrightarrow> minInterval (fst m) \<le> minInterval o1"
  by (auto simp: mux_request_def)

lemma sound_mux:
  assumes "\<forall>o1 \<in> set os. to_size o1 \<noteq> 0" "os \<noteq> []"
  shows "\<forall>o1 \<in> set os. minInterval (fst (mux os)) \<le> minInterval o1" "fst (mux os) \<in> set os"
  using mux_interval [OF assms] by auto

lemma start_mux_asks:
  assumes inv: "engine_inv a w" and o1: "MIN_TRACKING_INTERVAL \<le> minInterval o1"
  shows "asks_for (o1 # time_sessions w) a w (fst (snd (startTimeBasedTrackingMultiplex c i o1 w)))
    (snd (snd (startTimeBasedTrackingMultiplex c i o1 w)))"
proof -
  let ?os = "time_sessions w"
  have i: "spe_ok a w" "time_msgs w" "serves a ?os" "\<forall>o2 \<in> set ?os. to_size o2 \<noteq> 0 \<and> MIN_TRACKING_INTERVAL \<le> minInterval o2"
    using inv by (auto simp: engine_inv_def sound_sessions_def time_sessions_def)
  show ?thesis
  proof (cases "?os = []")
    case True
    then have e: "startTimeBasedTrackingMultiplex c i o1 w =
        (False, gn_then (gn_upd (\<lambda>a. a\<lparr>mPrevNmeaRptTimeNsec := 0\<rparr>)) (startTimeBasedTracking c i o1) w)"
      by (simp add: startTimeBasedTrackingMultiplex_def time_sessions_def)
    let ?w = "w\<lparr>gna := (gna w)\<lparr>mPrevNmeaRptTimeNsec := 0\<rparr>\<rparr>"
    have "asks_for (o1 # ?os) a ?w (fst (startTimeBasedTracking c i o1 ?w)) (snd (startTimeBasedTracking c i o1 ?w))"
      unfolding startTimeBasedTracking_def
      by (rule ask_asks) (use i o1 True in \<open>auto simp: spe_ok_def time_msgs_def\<close>)
    then show ?thesis by (simp add: e gn_then_def gn_upd_def gn_quiet_def split_beta asks_for_def)
  next
    case False
    let ?r = "mux_request o1 (mux ?os)"
    have e: "startTimeBasedTrackingMultiplex c i o1 w =
        (if fst ?r then (False, startTimeBasedTracking c i (snd ?r) w) else (True, [], w))"
      using False by (simp add: startTimeBasedTrackingMultiplex_def time_sessions_def Let_def split_beta)
    note m = sound_mux [of ?os, OF _ False]
    have m2: "MIN_TRACKING_INTERVAL \<le> minInterval (fst (mux ?os))" "\<forall>o2 \<in> set ?os. minInterval (fst (mux ?os)) \<le> minInterval o2"
      using m i(4) by blast+
    show ?thesis
    proof (cases "fst ?r")
      case True
      have "asks_for (o1 # ?os) a w (fst (startTimeBasedTracking c i (snd ?r) w)) (snd (startTimeBasedTracking c i (snd ?r) w))"
        unfolding startTimeBasedTracking_def
        by (rule ask_asks) (use i o1 m2 in \<open>force simp: mux_request_interval\<close>)+
      then show ?thesis by (simp add: e True)
    next
      case no: False
      then have "minInterval (fst (mux ?os)) \<le> minInterval o1" by (rule mux_request_unless)
      with m(2) i(3,4) False have "serves a (o1 # ?os)"
        by (intro serves_Cons) (auto simp: serves_def split: option.splits intro: order_trans)
      with i show ?thesis by (simp add: e no asks_for_def)
    qed
  qed
qed

lemma rest_sound:
  "om_ok ts \<Longrightarrow> om_find ts key = Some os \<Longrightarrow> set (rest key ts) \<subseteq> set (map snd ts)"
  by (auto simp: rest_def)

lemma update_mux_asks:
  assumes inv: "engine_inv a w" and o1: "MIN_TRACKING_INTERVAL \<le> minInterval o1"
    and old: "om_find (mTimeBasedTrackingSessions (gna w)) (SessionKey c i) = Some old"
  shows "asks_for (o1 # rest (SessionKey c i) (mTimeBasedTrackingSessions (gna w))) a w
    (fst (snd (updateTrackingMultiplex c i o1 w))) (snd (snd (updateTrackingMultiplex c i o1 w)))"
proof -
  let ?ts = "mTimeBasedTrackingSessions (gna w)"
  let ?r = "rest (SessionKey c i) ?ts"
  have i: "spe_ok a w" "time_msgs w" "serves a (time_sessions w)" "om_ok ?ts"
      "\<forall>o2 \<in> set (time_sessions w). to_size o2 \<noteq> 0 \<and> MIN_TRACKING_INTERVAL \<le> minInterval o2"
    using inv by (auto simp: engine_inv_def sound_sessions_def time_sessions_def)
  note rs = rest_set [OF i(4) old]
  have g: "\<forall>o2 \<in> set ?r. to_size o2 \<noteq> 0 \<and> MIN_TRACKING_INTERVAL \<le> minInterval o2"
    using i(5) rs unfolding time_sessions_def by (metis insertCI)
  obtain j where j: "a = Some j" "j \<le> minInterval old" "\<forall>o2 \<in> set ?r. j \<le> minInterval o2"
    using i(3) rs by (auto simp: serves_def time_sessions_def split: option.splits)
  let ?q = "mux_request o1 (mux ?r)"
  have e: "updateTrackingMultiplex c i o1 w =
    (if minInterval old \<noteq> minInterval o1 \<or> powerMode old \<noteq> powerMode o1
     then if ?r = [] then (False, updateTracking c i o1 old w)
       else if fst ?q then (False, updateTracking c i (snd ?q) old w) else (True, [], w)
     else (True, [], w))"
    using rs old by (simp add: updateTrackingMultiplex_def rest_def Let_def split_beta)
  have ask: "asks_for (o1 # ?r) a w (fst (updateTracking c i o2 old w)) (snd (updateTracking c i o2 old w))"
    if "\<forall>o3 \<in> set (o1 # ?r). minInterval o2 \<le> minInterval o3" for o2
    unfolding updateTracking_def by (rule ask_asks) (use i o1 g that in auto)
  have keep: "asks_for (o1 # ?r) a w [] w" if "j \<le> minInterval o1"
    using that i j by (auto simp: asks_for_def serves_def)
  show ?thesis
  proof (cases "?r = []")
    case True
    with ask [of o1] keep j show ?thesis by (auto simp: e)
  next
    case False
    note m = sound_mux [of ?r, OF _ False]
    have m1: "\<forall>o2 \<in> set ?r. minInterval (fst (mux ?r)) \<le> minInterval o2" "fst (mux ?r) \<in> set ?r" using m g by blast+
    have q: "\<forall>o3 \<in> set (o1 # ?r). minInterval (snd ?q) \<le> minInterval o3"
      using m1 by (force simp: mux_request_interval)
    have n: "j \<le> minInterval o1" if "\<not> fst ?q" using mux_request_unless [OF that] j m1 by force
    show ?thesis using False ask [OF q] keep n j by (auto simp: e)
  qed
qed

lemma stop_mux_asks:
  assumes inv: "engine_inv a w" and old: "om_find (mTimeBasedTrackingSessions (gna w)) (SessionKey c i) = Some old"
  shows "asks_for (rest (SessionKey c i) (mTimeBasedTrackingSessions (gna w))) a w
    (fst (snd (stopTimeBasedTrackingMultiplex c i w))) (snd (snd (stopTimeBasedTrackingMultiplex c i w)))"
proof -
  let ?ts = "mTimeBasedTrackingSessions (gna w)"
  let ?r = "rest (SessionKey c i) ?ts"
  have i: "spe_ok a w" "time_msgs w" "serves a (time_sessions w)" "om_ok ?ts"
      "\<forall>o2 \<in> set (time_sessions w). to_size o2 \<noteq> 0 \<and> MIN_TRACKING_INTERVAL \<le> minInterval o2"
    using inv by (auto simp: engine_inv_def sound_sessions_def time_sessions_def)
  note rs = rest_set [OF i(4) old]
  have g: "\<forall>o2 \<in> set ?r. to_size o2 \<noteq> 0 \<and> MIN_TRACKING_INTERVAL \<le> minInterval o2"
    using i(5) rs unfolding time_sessions_def by (metis insertCI)
  have e: "stopTimeBasedTrackingMultiplex c i w =
    (if ?r = [] then (False, stopTracking c i w)
     else if minInterval old < minInterval (fst (mux ?r)) \<or> powerMode old < snd (mux ?r)
     then (False, startTimeBasedTracking c i ((fst (mux ?r))\<lparr>powerMode := snd (mux ?r)\<rparr>) w) else (True, [], w))"
    using rs old by (simp add: stopTimeBasedTrackingMultiplex_def rest_def Let_def)
  show ?thesis
  proof (cases "?r = []")
    case True
    with stop_asks [OF i(2), of a c i] show ?thesis by (simp add: e)
  next
    case False
    note m = sound_mux [of ?r, OF _ False]
    have m1: "\<forall>o2 \<in> set ?r. minInterval (fst (mux ?r)) \<le> minInterval o2" using m(1) g by blast
    have ask: "asks_for ?r a w (fst (startTimeBasedTracking c i ((fst (mux ?r))\<lparr>powerMode := snd (mux ?r)\<rparr>) w))
        (snd (startTimeBasedTracking c i ((fst (mux ?r))\<lparr>powerMode := snd (mux ?r)\<rparr>) w))"
      unfolding startTimeBasedTracking_def by (rule ask_asks) (use i g m1 False in auto)
    have keep: "asks_for ?r a w [] w"
      using i(1,2,3) rs False by (auto simp: asks_for_def serves_def time_sessions_def split: option.splits)
    show ?thesis using False ask keep by (simp add: e)
  qed
qed

section \<open>Saving and erasing\<close>

text \<open>Actions that keep the engine right.\<close>

definition engine_rel :: "gn_world \<Rightarrow> gn_out list \<Rightarrow> gn_world \<Rightarrow> bool" where
  "engine_rel w outs w' \<longleftrightarrow> (\<forall>a. engine_inv a w \<longrightarrow> engine_inv (asked outs a) w')"

interpretation en: action_relation engine_rel
  by unfold_locales (auto simp: engine_rel_def)

lemma calm_rel: "calm w outs w' \<Longrightarrow> engine_rel w outs w'"
  by (simp add: engine_rel_def calm_inv)

lemma calm_obeys: "obeys calm f \<Longrightarrow> obeys engine_rel f"
  by (simp add: obeys_def calm_rel)

lemma serves_subset: "serves a os \<Longrightarrow> set os' \<subseteq> set os \<Longrightarrow> os \<noteq> [] \<Longrightarrow> os' \<noteq> [] \<Longrightarrow> serves a os'"
  by (auto simp: serves_def split: option.splits)

lemma put_rest: "om_ok ts \<Longrightarrow> set (map snd (om_put k v ts)) \<subseteq> insert v (set (rest k ts))"
proof
  fix x assume ok: "om_ok ts" and "x \<in> set (map snd (om_put k v ts))"
  then obtain j where "(j, x) \<in> set (om_put k v ts)" by auto
  then have "om_find (om_put k v ts) j = Some x" using ok by (simp add: find_iff_mem om_ok_put del: find_put)
  then show "x \<in> insert v (set (rest k ts))"
    using ok by (cases "j = k") (auto simp: rest_def find_iff_mem image_iff)
qed

lemma erase_rest: "om_ok ts \<Longrightarrow> map snd (om_erase k ts) = rest k ts"
proof (induction k ts rule: om_erase.induct)
  case (2 k k' v' xs)
  then have "k' \<notin> fst ` set xs" by auto
  with 2 show ?case by (auto simp: rest_def filter_absent)
qed (simp add: rest_def)

lemma calm_report: "obeys calm reportPowerStateIfChanged"
  by (auto simp: obeys_def calm_def reportPowerStateIfChanged_def Let_def asked_Cons time_msgs_def)

lemma saved:
  assumes "asks_for (o1 # rest (SessionKey c i) (mTimeBasedTrackingSessions (gna w))) a w outs w1" "sound_sessions w"
    and "to_size o1 \<noteq> 0" "MIN_TRACKING_INTERVAL \<le> minInterval o1" "minDistance o1 = 0"
  shows "engine_inv (asked outs a) (snd (gn_upd (put_session ctx c i o1) w1))"
proof -
  let ?ts = "mTimeBasedTrackingSessions (gna w)" and ?k = "SessionKey c i"
  have ok: "om_ok ?ts" using assms(2) by (simp add: sound_sessions_def)
  have e: "snd (gn_upd (put_session ctx c i o1) w1) = w1\<lparr>gna := (gna w1)\<lparr>mTimeBasedTrackingSessions := om_put ?k o1 ?ts\<rparr>\<rparr>"
    using assms(1,5) by (simp add: gn_upd_def gn_quiet_def put_session_def asks_for_def)
  have ne: "om_put ?k o1 ?ts \<noteq> []" using find_put [of ?k o1 ?ts] by (metis fun_upd_same map_of.simps(1) option.distinct(1))
  have sub: "set (map snd (om_put ?k o1 ?ts)) \<subseteq> set (o1 # rest ?k ?ts)" using put_rest [OF ok] by simp
  have good: "to_size (snd x) \<noteq> 0 \<and> MIN_TRACKING_INTERVAL \<le> minInterval (snd x)" if "x \<in> set (om_put ?k o1 ?ts)" for x
  proof -
    from that sub have "snd x \<in> set (o1 # rest ?k ?ts)" by auto
    then show ?thesis using assms(2,3,4) by (auto simp: sound_sessions_def rest_def)
  qed
  have "serves (asked outs a) (map snd (om_put ?k o1 ?ts))"
    by (rule serves_subset [OF _ sub]) (use assms(1) ne in \<open>auto simp: asks_for_def\<close>)
  with assms(1,2) ok good show ?thesis
    unfolding e by (auto simp: engine_inv_def sound_sessions_def asks_for_def spe_ok_def time_sessions_def time_msgs_def om_ok_put)
qed

lemma erased:
  assumes "asks_for (rest (SessionKey c i) (mTimeBasedTrackingSessions (gna w))) a w outs w1" "sound_sessions w"
    and "om_find (mTimeBasedTrackingSessions (gna w)) (SessionKey c i) = Some old"
  shows "engine_inv (asked outs a) (snd (gn_upd (drop_session c i) w1))"
proof -
  let ?ts = "mTimeBasedTrackingSessions (gna w)" and ?k = "SessionKey c i"
  have ok: "om_ok ?ts" using assms(2) by (simp add: sound_sessions_def)
  have e: "snd (gn_upd (drop_session c i) w1) = w1\<lparr>gna := (gna w1)\<lparr>mTimeBasedTrackingSessions := om_erase ?k ?ts\<rparr>\<rparr>"
    using assms(1,3) by (simp add: gn_upd_def gn_quiet_def drop_session_def isTimeBasedTrackingSession_def asks_for_def)
  have good: "to_size (snd x) \<noteq> 0 \<and> MIN_TRACKING_INTERVAL \<le> minInterval (snd x)" if "x \<in> set (om_erase ?k ?ts)" for x
  proof -
    from that have "snd x \<in> set (map snd (om_erase ?k ?ts))" by auto
    then have "snd x \<in> set (rest ?k ?ts)" by (simp only: erase_rest [OF ok])
    then show ?thesis using assms(2) by (auto simp: sound_sessions_def rest_def)
  qed
  with assms(1,2) ok show ?thesis
    unfolding e by (auto simp: engine_inv_def sound_sessions_def asks_for_def spe_ok_def time_sessions_def time_msgs_def om_ok_erase
        erase_rest)
qed

lemma upd_silent: "fst (gn_upd f w) = []"
  by (simp add: gn_upd_def gn_quiet_def)

lemma save_then:
  assumes "engine_inv (asked o1 a) (snd (gn_upd f w1))"
  shows "engine_inv (asked (o1 @ fst (gn_then (gn_upd f) reportPowerStateIfChanged w1)) a) (snd (gn_then (gn_upd f) reportPowerStateIfChanged w1))"
  using calm_inv [OF calm.obeysD [OF calm_report] assms] by (simp add: gn_then_def split_beta Let_def upd_silent)

text \<open>A multiplexing operation, then the change of the sessions, then perhaps a response.\<close>

lemma mux_then_inv:
  assumes "engine_inv (asked (fst (snd (f w)) @ fst (k (snd (snd (f w))))) a) (snd (k (snd (snd (f w)))))"
  shows "engine_inv (asked (fst (mux_then c i f k w)) a) (snd (mux_then c i f k w))"
proof -
  have r: "calm v (fst (gn_reportResponse c e i v)) (snd (gn_reportResponse c e i v))" for v e
    by (rule calm.obeysD [OF calm_response(1)])
  show ?thesis
    using calm_inv [OF r assms] assms
    by (auto simp: mux_then_def gn_then_def split_beta Let_def gn_emit_def)
qed

section \<open>Commands\<close>

lemma engine_soundD: "engine_inv a w \<Longrightarrow> sound_sessions w"
  by (simp add: engine_inv_def)

lemma start_then_save:
  assumes "engine_inv a w" "to_size o1 \<noteq> 0" "MIN_TRACKING_INTERVAL \<le> minInterval o1" "minDistance o1 = 0"
  shows "engine_inv (asked (fst (mux_then c i (startTimeBasedTrackingMultiplex c i o1) (saveTrackingSession ctx c i o1) w)) a)
    (snd (mux_then c i (startTimeBasedTrackingMultiplex c i o1) (saveTrackingSession ctx c i o1) w))"
proof -
  let ?f = "startTimeBasedTrackingMultiplex c i o1 w"
  have "asks_for (o1 # time_sessions w) a w (fst (snd ?f)) (snd (snd ?f))" by (rule start_mux_asks [OF assms(1,3)])
  moreover have "serves x (o1 # rest k (mTimeBasedTrackingSessions (gna w)))" if "serves x (o1 # time_sessions w)" for x k
    by (rule serves_subset [OF that]) (auto simp: rest_def time_sessions_def)
  ultimately have "asks_for (o1 # rest (SessionKey c i) (mTimeBasedTrackingSessions (gna w))) a w (fst (snd ?f)) (snd (snd ?f))"
    by (simp add: asks_for_def)
  from saved [OF this engine_soundD [OF assms(1)] assms(2-4)] show ?thesis
    unfolding saveTrackingSession_def by (rule mux_then_inv [OF save_then])
qed

lemma update_then_save:
  assumes "engine_inv a w" "to_size o1 \<noteq> 0" "MIN_TRACKING_INTERVAL \<le> minInterval o1" "minDistance o1 = 0"
    and "isTimeBasedTrackingSession c i (gna w)"
  shows "engine_inv (asked (fst (mux_then c i (updateTrackingMultiplex c i o1) (saveTrackingSession ctx c i o1) w)) a)
    (snd (mux_then c i (updateTrackingMultiplex c i o1) (saveTrackingSession ctx c i o1) w))"
proof -
  obtain old where "om_find (mTimeBasedTrackingSessions (gna w)) (SessionKey c i) = Some old"
    using assms(5) by (auto simp: isTimeBasedTrackingSession_def)
  from saved [OF update_mux_asks [OF assms(1,3) this] engine_soundD [OF assms(1)] assms(2-4)] show ?thesis
    unfolding saveTrackingSession_def by (rule mux_then_inv [OF save_then])
qed

lemma stop_then_erase:
  assumes "engine_inv a w" "isTimeBasedTrackingSession c i (gna w)"
  shows "engine_inv (asked (fst (snd (stopTimeBasedTrackingMultiplex c i w)) @
      fst (eraseTrackingSession c i (snd (snd (stopTimeBasedTrackingMultiplex c i w))))) a)
    (snd (eraseTrackingSession c i (snd (snd (stopTimeBasedTrackingMultiplex c i w)))))"
proof -
  obtain old where old: "om_find (mTimeBasedTrackingSessions (gna w)) (SessionKey c i) = Some old"
    using assms(2) by (auto simp: isTimeBasedTrackingSession_def)
  show ?thesis unfolding eraseTrackingSession_def
    by (rule save_then [OF erased [OF stop_mux_asks [OF assms(1) old] engine_soundD [OF assms(1)] old]])
qed

lemma clamp_good:
  "MIN_TRACKING_INTERVAL \<le> minInterval (clamp_interval os)" "to_size (clamp_interval os) = to_size os"
  "minDistance (clamp_interval os) = minDistance os"
  by (auto simp: clamp_interval_def not_less)

lemma fall_back_good:
  "minInterval (fall_back_M2 os) = minInterval os" "to_size (fall_back_M2 os) = to_size os" "minDistance (fall_back_M2 os) = minDistance os"
  by (simp_all add: fall_back_M2_def)

lemma start_tracking_inv:
  assumes "engine_inv a w" "minDistance os = 0"
  shows "engine_inv (asked (fst (start_tracking_proc ctx c i os w)) a) (snd (start_tracking_proc ctx c i os w))"
  using assms start_then_save [OF assms(1), of "fall_back_M2 (clamp_interval os)"]
  by (simp add: start_tracking_proc_def clamp_good fall_back_good Let_def)

lemma no_distance: "engine_inv a w \<Longrightarrow> \<not> isDistanceBasedTrackingSession c i (gna w)"
  by (simp add: engine_inv_def sound_sessions_def isDistanceBasedTrackingSession_def)

lemma response_inv:
  "engine_inv a w \<Longrightarrow> engine_inv (asked (fst (gn_reportResponse c e i w)) a) (snd (gn_reportResponse c e i w))"
  by (rule calm_inv [OF calm.obeysD [OF calm_response(1)]])

lemma update_tracking_inv:
  assumes "engine_inv a w" "minDistance os = 0"
  shows "engine_inv (asked (fst (update_tracking_proc ctx c i os w)) a) (snd (update_tracking_proc ctx c i os w))"
  using assms update_then_save [OF assms(1), of "clamp_interval (fall_back_M2 os)"] no_distance [OF assms(1)] response_inv [OF assms(1)]
  by (simp add: update_tracking_proc_def clamp_good fall_back_good Let_def)

lemma stop_tracking_inv:
  assumes "engine_inv a w"
  shows "engine_inv (asked (fst (stop_tracking_proc c i w)) a) (snd (stop_tracking_proc c i w))"
  using mux_then_inv [where f = "stopTimeBasedTrackingMultiplex c i" and k = "eraseTrackingSession c i", OF stop_then_erase [OF assms]]
    no_distance [OF assms] response_inv [OF assms]
  by (simp add: stop_tracking_proc_def)

lemma stop_times_inv:
  assumes "engine_inv a w" "distinct ks" "\<forall>k \<in> set ks. om_find (mTimeBasedTrackingSessions (gna w)) k \<noteq> None"
  shows "engine_inv (asked (fst (stop_time_sessions ks w)) a) (snd (stop_time_sessions ks w))"
  using assms
proof (induction ks arbitrary: a w)
  case (Cons k ks)
  obtain c i where k: "k = SessionKey c i" by (cases k)
  let ?f = "stopTimeBasedTrackingMultiplex c i w"
  let ?e = "eraseTrackingSession c i (snd (snd ?f))"
  have t: "isTimeBasedTrackingSession c i (gna w)" using Cons.prems(3) by (simp add: k isTimeBasedTrackingSession_def)
  note inv = stop_then_erase [OF Cons.prems(1) t]
  have same: "mTimeBasedTrackingSessions (gna (snd (snd ?f))) = mTimeBasedTrackingSessions (gna w)"
    using ss_mux(3) by (simp add: same_sessions_def)
  have "mTimeBasedTrackingSessions (gna (snd ?e)) = om_erase k (mTimeBasedTrackingSessions (gna w))"
    using t same by (simp add: eraseTrackingSession_def gn_then_def gn_upd_def gn_quiet_def split_beta Let_def
        reportPowerStateIfChanged_def drop_session_def isTimeBasedTrackingSession_def k)
  moreover have "om_ok (mTimeBasedTrackingSessions (gna w))" using Cons.prems(1) by (simp add: engine_inv_def sound_sessions_def)
  ultimately have f: "\<forall>j \<in> set ks. om_find (mTimeBasedTrackingSessions (gna (snd ?e))) j \<noteq> None"
    using Cons.prems(2,3) by auto
  from Cons.IH [OF inv _ f] Cons.prems(2) show ?case
    by (simp add: k Let_def split_beta gn_then_def gn_emit_def)
qed simp

section \<open>Restart and suspend\<close>

text \<open>What is enough before a restart: nothing was asked for if there is no session.\<close>

definition base_inv :: "u32 option \<Rightarrow> gn_world \<Rightarrow> bool" where
  "base_inv a w \<longleftrightarrow> sound_sessions w \<and> time_msgs w \<and> (time_sessions w = [] \<longrightarrow> a = None)"

lemma base_of: "engine_inv a w \<Longrightarrow> base_inv a w"
  by (auto simp: base_inv_def engine_inv_def serves_def split: option.splits)

lemma calm_base: "calm w outs w' \<Longrightarrow> base_inv a w \<Longrightarrow> base_inv (asked outs a) w'"
  by (simp add: calm_def base_inv_def sound_sessions_def time_sessions_def)

lemma smallest_mux: "fold smallest_step os zero_options = fst (mux os)"
proof (induction os rule: rev_induct)
  case (snoc x os)
  then show ?case by (simp add: mux_snoc mux_step_def smallest_step_def)
qed (simp add: mux_def)

lemma restart_interval: "minInterval (restart_options os) = minInterval (fst (mux os))"
  by (simp add: restart_options_def setLocationOptions_def smallest_mux)

lemma restart_time_inv:
  assumes "base_inv a w" "\<not> mSPEAlreadyRunningAtHighestInterval (gna w)"
  shows "engine_inv (asked (fst (checkAndRestartTimeBasedSession w)) a) (snd (checkAndRestartTimeBasedSession w))"
proof (cases "time_sessions w = []")
  case True
  with assms show ?thesis
    by (auto simp: checkAndRestartTimeBasedSession_def time_sessions_def base_inv_def engine_inv_def spe_ok_def serves_def)
next
  case False
  let ?os = "time_sessions w"
  let ?r = "restart_options ?os"
  have g: "\<forall>o2 \<in> set ?os. to_size o2 \<noteq> 0 \<and> MIN_TRACKING_INTERVAL \<le> minInterval o2"
    using assms(1) by (auto simp: base_inv_def sound_sessions_def time_sessions_def)
  note m = sound_mux [of ?os, OF _ False]
  have low: "\<forall>o2 \<in> set ?os. minInterval ?r \<le> minInterval o2" using m(1) g by (simp add: restart_interval)
  have ne: "mTimeBasedTrackingSessions (gna w) \<noteq> []" using False by (simp add: time_sessions_def)
  have e: "checkAndRestartTimeBasedSession w =
    (let (running, tmp, a) = checkAndSetSPEToRunforNHz ?r (gna w)
     in gn_then (gn_upd (\<lambda>_. a)) (if running then gn_emit [] else gn_call_api (StartTimeBasedTracking tmp) None) w)"
    using ne by (simp add: checkAndRestartTimeBasedSession_def time_sessions_def)
  note u = gn_then_def gn_upd_def gn_quiet_def gn_call_api_def gn_call_all_def asked_Cons
  show ?thesis
  proof (cases "mNHzNeeded (gna w) \<and> minInterval ?r > MIN_TRACKING_INTERVAL")
    case True
    then have "checkAndSetSPEToRunforNHz ?r (gna w) = (False, ?r\<lparr>minInterval := MIN_TRACKING_INTERVAL\<rparr>,
        (gna w)\<lparr>mSPEAlreadyRunningAtHighestInterval := True\<rparr>)"
      using assms(2) by (simp add: checkAndSetSPEToRunforNHz_def)
    with True False assms g show ?thesis
      by (auto simp: e u engine_inv_def base_inv_def sound_sessions_def spe_ok_def serves_def time_sessions_def time_msgs_def)
  next
    case no: False
    then have "checkAndSetSPEToRunforNHz ?r (gna w) = (False, ?r, gna w)"
      using assms(2) by (auto simp: checkAndSetSPEToRunforNHz_def)
    with False assms low show ?thesis
      by (auto simp: e u engine_inv_def base_inv_def sound_sessions_def spe_ok_def serves_def time_sessions_def time_msgs_def)
  qed
qed

lemma restart_spe_inv:
  assumes "base_inv a w"
  shows "engine_inv (asked (fst (checkAndRestartSPESession w)) a) (snd (checkAndRestartSPESession w))"
proof -
  let ?w = "w\<lparr>gna := (gna w)\<lparr>mSPEAlreadyRunningAtHighestInterval := False\<rparr>\<rparr>"
  have "base_inv a ?w" using assms by (simp add: base_inv_def sound_sessions_def time_sessions_def time_msgs_def)
  from restart_time_inv [OF this] have t: "engine_inv (asked (fst (checkAndRestartTimeBasedSession ?w)) a) (snd (checkAndRestartTimeBasedSession ?w))"
    by simp
  then have "mDistanceBasedTrackingSessions (gna (snd (checkAndRestartTimeBasedSession ?w))) = []"
    by (simp add: engine_inv_def sound_sessions_def)
  then have "restart_distance (snd (checkAndRestartTimeBasedSession ?w)) = ([], snd (checkAndRestartTimeBasedSession ?w))"
    by (simp add: restart_distance_def gn_call_all_def)
  with t show ?thesis by (simp add: checkAndRestartSPESession_def gn_then_def gn_upd_def gn_quiet_def split_beta Let_def)
qed

lemma restart_inv:
  assumes "base_inv a w"
  shows "engine_inv (asked (fst (gn_restartSessions ssr now w)) a) (snd (gn_restartSessions ssr now w))"
proof -
  let ?a = "(if ssr then (gna w)\<lparr>mOdcpi := odcpi_modem_restarted (mOdcpi (gna w))\<rparr> else gna w)\<lparr>mSPEAlreadyRunningAtHighestInterval := False\<rparr>"
  let ?w = "w\<lparr>gna := ?a\<rparr>"
  let ?g = "if gn_isInSession (gna w)
        then gn_then (gn_emit [HubSetFixMode (mLocPositionMode (gna w)), HubStartFix])
               (gn_dgnss (checkUpdateDgnssNtrip True now False))
        else gn_emit []"
  have b: "base_inv a ?w" using assms by (simp add: base_inv_def sound_sessions_def time_sessions_def time_msgs_def)
  have "obeys calm ?g" by (auto intro!: calm.then_obeys calm_emit calm_dgnss simp: asked_Cons)
  from calm_base [OF calm.obeysD [OF this] b] have "base_inv (asked (fst (?g ?w)) a) (snd (?g ?w))" .
  from restart_spe_inv [OF this] show ?thesis
    by (simp add: gn_restartSessions_def gn_then_def gn_upd_def gn_quiet_def split_beta Let_def)
qed

lemma suspend_base:
  assumes "engine_inv a w"
  shows "base_inv (asked (fst (suspendSessions w)) a) (snd (suspendSessions w))"
proof (cases "gn_isInSession (gna w)")
  case True
  let ?w = "w\<lparr>gn_calls := gn_calls w @ [(StopFix, None)]\<rparr>"
  let ?d = "gn_dgnss dgnss_session_stopped ?w"
  have "base_inv None ?w" using assms by (auto simp: base_inv_def engine_inv_def sound_sessions_def time_sessions_def time_msgs_def)
  from calm_base [OF calm.obeysD [OF calm_dgnss] this] have "base_inv (asked (fst ?d) None) (snd ?d)" .
  with True show ?thesis
    by (auto simp: suspendSessions_def gn_then_def gn_emit_def gn_upd_def gn_quiet_def gn_call_api_def gn_call_all_def split_beta Let_def
        asked_Cons base_inv_def sound_sessions_def time_sessions_def time_msgs_def)
next
  case False
  with base_of [OF assms] show ?thesis by (simp add: suspendSessions_def)
qed

text \<open>Suspend, do something calm, restart.\<close>

lemma suspend_restart:
  assumes "engine_inv a w" "obeys calm f"
  shows "engine_inv (asked (fst (gn_seq [suspendSessions, f, gn_restartSessions ssr now] w)) a)
    (snd (gn_seq [suspendSessions, f, gn_restartSessions ssr now] w))"
proof -
  from restart_inv [OF calm_base [OF calm.obeysD [OF assms(2)] suspend_base [OF assms(1)]]]
  show ?thesis by (simp add: gn_then_def split_beta Let_def)
qed

section \<open>Messages\<close>

lemma calm_events: "obeys calm (gn_updateClientsEventMask ctx)"
  by (auto simp: obeys_def calm_def gn_updateClientsEventMask_def time_msgs_def intro!: asked_map)

lemma calm_config_call: "obeys calm (gn_call_api (ConfigMinGpsWeek w) (control_cont i))"
  "obeys calm (gn_call_api (SvCall c) (Some (ControlDone i)))" "obeys calm (gn_call_api (UpdateSystemPowerState st) None)"
  unfolding gn_call_api_def by (rule calm_call; auto simp: control_cont_def)+

lemma calm_power: "obeys calm (updateSystemPowerState st)"
  unfolding updateSystemPowerState_def
  by (auto intro!: calm.then_obeys calm_upd calm_emit calm_config_call)

lemma calm_caps: "asked (map (\<lambda>(c, m). GnCapabilitiesCb c m) xs) a = a"
  by (rule asked_map) auto

lemma calm_requestCapabilities: "obeys calm (gn_requestCapabilities ctx c)"
  using calm.obeysD [OF calm_pend] by (simp add: obeys_def gn_requestCapabilities_def calm_def calm_caps)

lemma calm_add: "obeys calm (gn_addClient ctx c cbs)"
proof -
  have "obeys calm (notifyClientOfCachedLocationSystemInfo c cbs)"
    by (simp add: obeys_def calm_def notifyClientOfCachedLocationSystemInfo_def asked_Cons)
  then show ?thesis unfolding gn_addClient_def
    by (intro calm.seq_obeys) (auto simp: calm_events intro!: calm_upd)
qed

lemma stop_client_inv:
  assumes "engine_inv a w"
  shows "engine_inv (asked (fst (gn_stopClientSessions c w)) a) (snd (gn_stopClientSessions c w))"
proof -
  let ?ts = "mTimeBasedTrackingSessions (gna w)"
  let ?ks = "filter (\<lambda>k. key_client k = c) (map fst ?ts)"
  have ok: "om_ok ?ts" using assms by (simp add: engine_inv_def sound_sessions_def)
  have d: "distinct ?ks" using om_ok_distinct [OF ok] by simp
  have f: "\<forall>k \<in> set ?ks. om_find ?ts k \<noteq> None" by (auto simp: map_of_eq_None_iff image_iff)
  from stop_times_inv [OF assms d f]
  have inv: "engine_inv (asked (fst (stop_time_sessions ?ks w)) a) (snd (stop_time_sessions ?ks w))" .
  then have "mDistanceBasedTrackingSessions (gna (snd (stop_time_sessions ?ks w))) = []" by (simp add: engine_inv_def sound_sessions_def)
  with inv show ?thesis by (simp add: gn_stopClientSessions_def gn_then_def split_beta Let_def gn_call_all_def)
qed

lemma remove_rel: "obeys engine_rel (gn_removeClient ctx c b)"
proof -
  have s: "obeys engine_rel (gn_stopClientSessions c)" by (simp add: obeys_def engine_rel_def stop_client_inv)
  have u: "obeys engine_rel (gn_upd (\<lambda>a. a\<lparr>mClientData := eraseClient c (mClientData a)\<rparr>))"
    by (rule calm_obeys, rule calm_upd) simp
  have e: "obeys engine_rel (gn_emit (if b then [GnRmClientCb c] else []))"
    by (rule calm_obeys, rule calm_emit) (simp add: asked_Cons)
  show ?thesis unfolding gn_removeClient_def
    by (rule en.seq_obeys) (simp add: s u e calm_obeys [OF calm_events])
qed

lemma restart_rel: "obeys engine_rel (gn_restartSessions ssr now)"
  by (simp add: obeys_def engine_rel_def restart_inv base_of)

lemma pended_time: "time_msgs w \<Longrightarrow> \<forall>m \<in> set (pended_msgs (mPendingMsgs (gna w))). time_msg m"
  by (auto simp: time_msgs_def pended_msgs_def)

lemma engine_up_rel: "obeys engine_rel (gn_engine_up ctx now)"
  unfolding obeys_def
proof
  fix w :: gn_world
  let ?p = "pended_msgs (mPendingMsgs (gna w))"
  have c: "obeys engine_rel (gn_upd (\<lambda>a. a\<lparr>mIsEngineCapabilitiesKnown := True\<rparr>))" "obeys engine_rel (gn_emit [SetConfig])"
    "obeys engine_rel (gn_emit [InitCDFWService])" "obeys engine_rel (gn_emit [])"
    "obeys engine_rel (gn_emit (map (\<lambda>(c, m). GnCapabilitiesCb c m) xs))" "obeys engine_rel (sv_calls cs)"
    "obeys engine_rel (updateSystemPowerState st)" for xs cs st
    by (rule calm_obeys, auto simp: asked_Cons calm_caps calm_sv_calls calm_power intro!: calm_upd calm_emit)+
  show "engine_rel w (fst (gn_engine_up ctx now w)) (snd (gn_engine_up ctx now w))"
  proof (cases "\<forall>m \<in> set ?p. time_msg m")
    case True
    have "obeys engine_rel (if gn_lock w = ENGINE_LOCK_STATE_ENABLED then gn_then (gn_restartSessions True now) (gn_send ?p) else gn_emit [])"
      using True by (simp add: c en.then_obeys restart_rel calm_obeys calm_send)
    with c show ?thesis unfolding gn_engine_up_def Let_def by (intro en.seq_rel) (simp del: gn_seq.simps)
  next
    case False
    then have "\<not> engine_inv a w" for a using pended_time [of w] by (auto simp: engine_inv_def)
    then show ?thesis by (simp add: engine_rel_def)
  qed
qed

lemma lock_rel: "obeys engine_rel (gn_handleEngineLockStatus st)"
  unfolding obeys_def
proof
  fix w :: gn_world
  show "engine_rel w (fst (gn_handleEngineLockStatus st w)) (snd (gn_handleEngineLockStatus st w))"
  proof (cases "mPendingGnssEnabledMsgs (gna w) = []")
    case True
    have "obeys calm (gn_then (gn_send []) (gn_upd (\<lambda>a. a)))"
      by (intro calm.then_obeys calm_send calm_upd) simp_all
    from calm_rel [OF calm.obeysD [OF this]] True en.refl show ?thesis
      by (simp add: gn_handleEngineLockStatus_def pended_msgs_def gn_then_def gn_upd_def gn_quiet_def gn_send_def split_beta Let_def
          engine_rel_def engine_inv_def sound_sessions_def spe_ok_def time_sessions_def time_msgs_def)
  next
    case False
    then show ?thesis by (simp add: engine_rel_def engine_inv_def time_msgs_def)
  qed
qed

lemma config_rel: "obeys engine_rel (configMinGpsWeek i week now)"
  unfolding obeys_def engine_rel_def configMinGpsWeek_def
  by (intro allI impI suspend_restart) (simp_all add: calm_config_call)

lemma sv_rel: "obeys engine_rel (update_sv_config i types ids now)"
  unfolding obeys_def
proof
  fix w :: gn_world
  obtain calls s where g: "gnssUpdateSvConfig types ids (mSv (gna w)) = (calls, s)" by force
  let ?f = "gn_seq [sv_calls (butlast calls), gn_call_api (SvCall (last calls)) (Some (ControlDone i)), gn_upd (\<lambda>a. a\<lparr>mSv := s\<rparr>)]"
  have "obeys calm ?f" by (intro calm.seq_obeys) (auto simp: calm_sv_calls calm_config_call intro!: calm_upd)
  note r = suspend_restart [OF _ this]
  have e: "update_sv_config i types ids now w = gn_seq [suspendSessions, ?f, gn_restartSessions False now] w"
    by (simp add: update_sv_config_def g gn_then_def split_beta Let_def)
  show "engine_rel w (fst (update_sv_config i types ids now w)) (snd (update_sv_config i types ids now w))"
    unfolding e engine_rel_def using r by blast
qed

lemma cont_rel:
  assumes "time_cont k"
  shows "engine_rel w (fst (gn_cont_proc ctx now k LOCATION_ERROR_SUCCESS w)) (snd (gn_cont_proc ctx now k LOCATION_ERROR_SUCCESS w))"
  using assms calm.refl
  by (cases k) (auto intro!: calm_rel calm.then_both calm_response [THEN calm.obeysD] calm_dgnss calm_response calm_emit)

text \<open>A message whose effect is an action.\<close>

lemma engine_relD: "engine_rel w (fst r) (snd r) \<Longrightarrow> r = (outs, w') \<Longrightarrow> engine_rel w outs w'"
  by simp

lemma engine_odcpi: "gn_odcpi m w = Some (outs, w') \<Longrightarrow> calm w outs w'"
  by (auto simp: gn_odcpi_def calm_def time_msgs_def intro!: asked_map)

lemma start_rel: "minDistance os = 0 \<Longrightarrow> obeys engine_rel (start_tracking_proc ctx c i os)"
  by (simp add: obeys_def engine_rel_def start_tracking_inv)

lemma update_rel: "minDistance os = 0 \<Longrightarrow> obeys engine_rel (update_tracking_proc ctx c i os)"
  by (simp add: obeys_def engine_rel_def update_tracking_inv)

lemma stop_rel: "obeys engine_rel (stop_tracking_proc c i)"
  by (simp add: obeys_def engine_rel_def stop_tracking_inv)

lemma engine_fields [simp]:
  "engine_rel (w\<lparr>gn_deleted := d\<rparr>) outs w' = engine_rel w outs w'" "engine_rel (w\<lparr>gn_counter := n\<rparr>) outs w' = engine_rel w outs w'"
  "engine_rel (w\<lparr>gn_lock := l\<rparr>) outs w' = engine_rel w outs w'"
  by (simp_all add: engine_rel_def engine_inv_def sound_sessions_def spe_ok_def time_sessions_def time_msgs_def)

lemma power_cb_rel: "engine_rel w [SavePowerStateCb b] (w\<lparr>gna := (gna w)\<lparr>mPowerStateCb := True\<rparr>\<rparr>)"
  by (rule calm_rel) (simp add: calm_def asked_Cons time_msgs_def)

lemma dgnss_rel: "calm w (map GnDgnssOut outs) (w\<lparr>gna := (gna w)\<lparr>mDgnss := d\<rparr>\<rparr>)"
  by (auto simp: calm_def time_msgs_def intro!: asked_map)

lemma engine_msg: "time_msg m \<Longrightarrow> gn_msg_proc ctx now m w = Some (outs, w') \<Longrightarrow> engine_rel w outs w'"
proof (induction m arbitrary: w)
  case MsgPowerStateCb
  then show ?case using power_cb_rel by (auto simp: gn_then_def gn_upd_def gn_quiet_def gn_emit_def)
next
  case (MsgReportNmea s)
  then show ?case by (auto intro: calm_rel dgnss_rel)
next
  case (GnPended p m)
  then obtain c where "m = GnRequestCapabilities c" by auto
  with GnPended.prems(2) have "gn_requestCapabilities ctx c (w\<lparr>gn_deleted := p # gn_deleted w\<rparr>) = (outs, w')"
    by (auto split: if_splits)
  from engine_relD [OF calm_rel [OF calm.obeysD [OF calm_requestCapabilities]] this] show ?case by simp
qed (auto intro: engine_relD [OF en.obeysD] start_rel update_rel stop_rel remove_rel engine_up_rel lock_rel config_rel sv_rel
  engine_relD [OF cont_rel] calm_obeys calm_add calm_requestCapabilities calm_power calm_dgnss dest: engine_odcpi intro: calm_rel)

section \<open>Runs\<close>

fun time_op :: "gn_op \<Rightarrow> bool" where
  "time_op (StartTrackingCommand c os) = (minDistance os = 0)"
| "time_op (UpdateTrackingOptionsCommand c i os) = (minDistance os = 0)"
| "time_op (GnAnswer n err) = (err = LOCATION_ERROR_SUCCESS)"
| "time_op _ = True"

lemma nhz_rel: "obeys engine_rel (updateNHzRequirement x y)"
  unfolding obeys_def
proof
  fix w :: gn_world
  have r: "engine_rel v (fst (gn_then (gn_upd (\<lambda>a. a\<lparr>mNHzNeeded := x\<rparr>)) checkAndRestartSPESession v))
      (snd (gn_then (gn_upd (\<lambda>a. a\<lparr>mNHzNeeded := x\<rparr>)) checkAndRestartSPESession v))" for v
    unfolding engine_rel_def
  proof (intro allI impI)
    fix a assume "engine_inv a v"
    from base_of [OF this] have "base_inv a (v\<lparr>gna := (gna v)\<lparr>mNHzNeeded := x\<rparr>\<rparr>)"
      by (simp add: base_inv_def sound_sessions_def time_sessions_def time_msgs_def)
    from restart_spe_inv [OF this]
    show "engine_inv (asked (fst (gn_then (gn_upd (\<lambda>a. a\<lparr>mNHzNeeded := x\<rparr>)) checkAndRestartSPESession v)) a)
        (snd (gn_then (gn_upd (\<lambda>a. a\<lparr>mNHzNeeded := x\<rparr>)) checkAndRestartSPESession v))"
      by (simp add: gn_then_def gn_upd_def gn_quiet_def split_beta Let_def)
  qed
  have e: "engine_rel (w\<lparr>gn_evt := m\<rparr>) outs w' = engine_rel w outs w'" for m outs w'
    by (simp add: engine_rel_def engine_inv_def sound_sessions_def spe_ok_def time_sessions_def time_msgs_def)
  have n: "engine_rel w [] (w\<lparr>gn_evt := m\<rparr>)" for m using en.refl [of "w\<lparr>gn_evt := m\<rparr>"] e by simp
  show "engine_rel w (fst (updateNHzRequirement x y w)) (snd (updateNHzRequirement x y w))"
    using r [of w] r [of "w\<lparr>gn_evt := _\<rparr>"] n en.refl [of w] by (simp add: updateNHzRequirement_def Let_def e)
qed

lemma send_rel: "\<forall>m \<in> set ms. time_msg m \<Longrightarrow> engine_rel w (fst (gn_send ms w)) (snd (gn_send ms w))"
  by (rule en.obeysD [OF calm_obeys [OF calm_send]])

lemma send_fields_rel:
  assumes "\<forall>m \<in> set ms. time_msg m"
  shows "engine_rel w (fst (gn_send ms (w\<lparr>gn_counter := n\<rparr>))) (snd (gn_send ms (w\<lparr>gn_counter := n\<rparr>)))"
    "engine_rel w (fst (gn_send ms (w\<lparr>gn_lock := l\<rparr>))) (snd (gn_send ms (w\<lparr>gn_lock := l\<rparr>)))"
  using send_rel [OF assms, of "w\<lparr>gn_counter := n\<rparr>"] send_rel [OF assms, of "w\<lparr>gn_lock := l\<rparr>"] by simp_all

lemma engine_pop:
  "engine_inv a w \<Longrightarrow> set cs \<subseteq> set (gn_calls w) \<Longrightarrow> engine_inv a (w\<lparr>gn_calls := cs\<rparr>)"
  "engine_inv a w \<Longrightarrow> gn_queue w = m # ms \<Longrightarrow> engine_inv a (w\<lparr>gn_queue := ms\<rparr>) \<and> time_msg m"
  by (auto simp: engine_inv_def sound_sessions_def spe_ok_def time_sessions_def time_msgs_def)

lemma answer_rel: "gn_step ctx (GnAnswer n LOCATION_ERROR_SUCCESS) w = Some (outs, w') \<Longrightarrow> engine_rel w outs w'"
  unfolding engine_rel_def
proof (intro allI impI)
  fix a assume s: "gn_step ctx (GnAnswer n LOCATION_ERROR_SUCCESS) w = Some (outs, w')" and inv: "engine_inv a w"
  show "engine_inv (asked outs a) w'"
  proof (cases "drop n (gn_calls w)")
    case Nil
    with s inv show ?thesis by simp
  next
    case (Cons ck rest)
    obtain c k where ck: "ck = (c, k)" by force
    define cs where "cs = take n (gn_calls w) @ rest"
    have sub: "set (take n (gn_calls w)) \<subseteq> set (gn_calls w)" "set (ck # rest) \<subseteq> set (gn_calls w)"
      using set_take_subset [of n "gn_calls w"] set_drop_subset [of n "gn_calls w"] Cons by simp_all
    have p: "engine_inv a (w\<lparr>gn_calls := cs\<rparr>)" by (rule engine_pop(1) [OF inv]) (use sub in \<open>auto simp: cs_def\<close>)
    show ?thesis
    proof (cases k)
      case None
      with s p Cons ck show ?thesis by (simp add: cs_def)
    next
      case (Some k')
      have "(c, k) \<in> set (gn_calls w)" using sub(2) ck by auto
      then have "time_cont k'" using inv Some by (auto simp: engine_inv_def time_msgs_def)
      then have "\<forall>m \<in> set [GnResponse k' LOCATION_ERROR_SUCCESS]. time_msg m" by simp
      from send_rel [OF this, of "w\<lparr>gn_calls := cs\<rparr>"] p s Cons ck Some show ?thesis by (auto simp: engine_rel_def prod_eq_iff cs_def)
    qed
  qed
qed

lemma proc_rel: "gn_step ctx (GnProcNext now) w = Some (outs, w') \<Longrightarrow> engine_rel w outs w'"
  unfolding engine_rel_def
proof (intro allI impI)
  fix a assume s: "gn_step ctx (GnProcNext now) w = Some (outs, w')" and inv: "engine_inv a w"
  show "engine_inv (asked outs a) w'"
  proof (cases "gn_queue w")
    case Nil
    with s inv show ?thesis by simp
  next
    case (Cons m ms)
    then have "gn_msg_proc ctx now m (w\<lparr>gn_queue := ms\<rparr>) = Some (outs, w')" using s by simp
    with engine_msg engine_pop(2) [OF inv Cons] show ?thesis unfolding engine_rel_def by blast
  qed
qed

lemma engine_step: "time_op x \<Longrightarrow> gn_step ctx x w = Some (outs, w') \<Longrightarrow> engine_rel w outs w'"
proof (cases x)
  case (GnAnswer n err)
  then show "time_op x \<Longrightarrow> gn_step ctx x w = Some (outs, w') \<Longrightarrow> engine_rel w outs w'" using answer_rel by auto
next
  case (GnProcNext now)
  then show "gn_step ctx x w = Some (outs, w') \<Longrightarrow> engine_rel w outs w'" using proc_rel by auto
next
  case GnOdcpiTimerFires
  have "obeys calm (gn_then (gn_upd (\<lambda>a. a\<lparr>mOdcpi := (mOdcpi a)\<lparr>odcpi_armed := False\<rparr>\<rparr>)) (gn_send [GnOdcpiMsg MsgOdcpiTimerExpire]))"
    by (intro calm.then_obeys calm_upd calm_send) simp_all
  from en.obeysD [OF calm_obeys [OF this]] en.refl
  show "gn_step ctx x w = Some (outs, w') \<Longrightarrow> engine_rel w outs w'"
    using GnOdcpiTimerFires by (auto simp: prod_eq_iff split: if_splits)
next
  case (NtripConsentCommand b)
  have "obeys calm (gn_upd (\<lambda>a. a\<lparr>mDgnss := (mDgnss a)\<lparr>mSendNmeaConsent := b\<rparr>\<rparr>))" by (rule calm_upd) simp
  from en.obeysD [OF calm_obeys [OF this]]
  show "gn_step ctx x w = Some (outs, w') \<Longrightarrow> engine_rel w outs w'"
    using NtripConsentCommand by (auto simp: prod_eq_iff)
qed (use en.refl [of w] in \<open>auto simp: prod_eq_iff Let_def send_rel send_fields_rel nhz_rel [THEN en.obeysD] split: if_splits\<close>)

lemma engine_start: "engine_inv None gn_start"
  by (simp add: engine_inv_def sound_sessions_def spe_ok_def serves_def time_sessions_def time_msgs_def gn_start_def)

lemma engine_run:
  assumes "\<forall>x \<in> set ops. time_op x" "run_ops (gn_step ctx) ops w = Some (outs, w')" "engine_inv a w"
  shows "engine_inv (asked (concat outs) a) w'"
  using assms
proof (induction ops arbitrary: w outs a)
  case (Cons x ops)
  then obtain o1 w1 os where s: "gn_step ctx x w = Some (o1, w1)" "run_ops (gn_step ctx) ops w1 = Some (os, w')" "outs = o1 # os"
    by (auto split: option.splits)
  with engine_step [OF _ s(1)] Cons.prems have "engine_inv (asked o1 a) w1" by (simp add: engine_rel_def)
  from Cons.IH [OF _ s(2) this] Cons.prems(1) s(3) show ?case by simp
qed simp

text \<open>C11. In any run in which every start and update asks for a session by time only (\<open>minDistance = 0\<close>)
and the engine grants what it is asked for, its answers in any order, with any restarts, suspensions,
changes of clients and requirements of the engine hub in between, the engine was last asked to stop
exactly when no session is left, and otherwise it was last asked for an interval that is no longer
than that of any session. Sessions by distance are outside of this statement, and for the update of a
session by time to one by distance it is not true: see \<open>engine_lost_by_update\<close>.\<close>

theorem engine_follows_sessions:
  assumes "\<forall>x \<in> set ops. time_op x" and "run_ops (gn_step ctx) ops gn_start = Some (outs, w)"
  shows "case asked (concat outs) None of
      None \<Rightarrow> mTimeBasedTrackingSessions (gna w) = []
    | Some interval \<Rightarrow> mTimeBasedTrackingSessions (gna w) \<noteq> [] \<and>
        (\<forall>x \<in> set (mTimeBasedTrackingSessions (gna w)). interval \<le> minInterval (snd x))"
proof -
  have "engine_inv (asked (concat outs) None) w" by (rule engine_run [OF assms engine_start])
  then have "serves (asked (concat outs) None) (time_sessions w)" by (simp add: engine_inv_def)
  then show ?thesis by (auto simp: serves_def time_sessions_def split: option.splits)
qed

definition engine_demo :: "gn_op list" where
  "engine_demo = gn_demo @ [StartTrackingCommand 1 (trk 500 2), GnProcNext 5, NHzRequirement True False,
     StopTrackingCommand 1 2, GnProcNext 6, NHzRequirement False False]"

lemma engine_follows_sessions_witness:
  "\<exists>outs w. run_ops (gn_step gn_ctx) engine_demo gn_start = Some (outs, w) \<and> asked (concat outs) None = Some 500 \<and>
     (\<forall>x \<in> set (mTimeBasedTrackingSessions (gna w)). 500 \<le> minInterval (snd x))"
proof -
  have t: "\<forall>x \<in> set engine_demo. time_op x" by code_simp
  have "case run_ops (gn_step gn_ctx) engine_demo gn_start of None \<Rightarrow> False | Some (outs, w) \<Rightarrow> asked (concat outs) None = Some 500"
    by code_simp
  then obtain outs w where "run_ops (gn_step gn_ctx) engine_demo gn_start = Some (outs, w)" "asked (concat outs) None = Some 500"
    by (auto split: option.splits)
  with engine_follows_sessions [OF t this(1)] show ?thesis by auto
qed

text \<open>
  A session by time is updated to one by distance while the modem has no tracking by distance. The
  adapter stops the engine, keeps the session as one by time and asks for tracking by distance,
  although all answers are successes: there is a session, and the engine was last told to stop.
\<close>

definition lost_update :: "gn_op list" where
  "lost_update = [GnAddClientCommand 1 gn_callbacks, GnEngineUpEvent, StartTrackingCommand 1 (trk 1000 1), GnProcNext 1,
     GnProcNext 2, GnProcNext 3, GnAnswer 0 LOCATION_ERROR_SUCCESS, GnProcNext 4,
     UpdateTrackingOptionsCommand 1 2 ((trk 1000 1)\<lparr>minDistance := 50\<rparr>), GnProcNext 5]"

lemma engine_lost_by_update:
  "case run_ops (gn_step gn_ctx) lost_update gn_start of
     None \<Rightarrow> False
   | Some (outs, w) \<Rightarrow> asked (concat outs) None = None \<and> map fst (mTimeBasedTrackingSessions (gna w)) = [SessionKey 1 2]"
  by code_simp

end
