(* ===== verification/System_Status.thy ===== *)
theory System_Status
  imports Loc_Prelude
begin

text \<open>
  The cache of core/SystemStatus.cpp and SystemStatus.h: for every kind of data item the last
  changes, with the table of connected networks that each change of the network carries on. The
  data items are those of core/data-items/DataItemConcreteTypesBase.h with the fields that they have.
  The theorems show what the cache holds after any events, and that the table of networks is a
  set of connections.
\<close>

section \<open>Data items\<close>

type_synonym item_id = u32

definition AIRPLANEMODE_DATA_ITEM_ID :: item_id where "AIRPLANEMODE_DATA_ITEM_ID = 0"
definition ENH_DATA_ITEM_ID :: item_id where "ENH_DATA_ITEM_ID = 1"
definition GPSSTATE_DATA_ITEM_ID :: item_id where "GPSSTATE_DATA_ITEM_ID = 2"
definition NLPSTATUS_DATA_ITEM_ID :: item_id where "NLPSTATUS_DATA_ITEM_ID = 3"
definition WIFIHARDWARESTATE_DATA_ITEM_ID :: item_id where "WIFIHARDWARESTATE_DATA_ITEM_ID = 4"
definition NETWORKINFO_DATA_ITEM_ID :: item_id where "NETWORKINFO_DATA_ITEM_ID = 5"
definition RILSERVICEINFO_DATA_ITEM_ID :: item_id where "RILSERVICEINFO_DATA_ITEM_ID = 7"
definition RILCELLINFO_DATA_ITEM_ID :: item_id where "RILCELLINFO_DATA_ITEM_ID = 8"
definition SERVICESTATUS_DATA_ITEM_ID :: item_id where "SERVICESTATUS_DATA_ITEM_ID = 9"
definition MODEL_DATA_ITEM_ID :: item_id where "MODEL_DATA_ITEM_ID = 10"
definition MANUFACTURER_DATA_ITEM_ID :: item_id where "MANUFACTURER_DATA_ITEM_ID = 11"
definition ASSISTED_GPS_DATA_ITEM_ID :: item_id where "ASSISTED_GPS_DATA_ITEM_ID = 13"
definition SCREEN_STATE_DATA_ITEM_ID :: item_id where "SCREEN_STATE_DATA_ITEM_ID = 14"
definition POWER_CONNECTED_STATE_DATA_ITEM_ID :: item_id where "POWER_CONNECTED_STATE_DATA_ITEM_ID = 15"
definition TIMEZONE_CHANGE_DATA_ITEM_ID :: item_id where "TIMEZONE_CHANGE_DATA_ITEM_ID = 16"
definition TIME_CHANGE_DATA_ITEM_ID :: item_id where "TIME_CHANGE_DATA_ITEM_ID = 17"
definition WIFI_SUPPLICANT_STATUS_DATA_ITEM_ID :: item_id where "WIFI_SUPPLICANT_STATUS_DATA_ITEM_ID = 18"
definition SHUTDOWN_STATE_DATA_ITEM_ID :: item_id where "SHUTDOWN_STATE_DATA_ITEM_ID = 19"
definition TAC_DATA_ITEM_ID :: item_id where "TAC_DATA_ITEM_ID = 20"
definition MCCMNC_DATA_ITEM_ID :: item_id where "MCCMNC_DATA_ITEM_ID = 21"
definition BTLE_SCAN_DATA_ITEM_ID :: item_id where "BTLE_SCAN_DATA_ITEM_ID = 22"
definition BT_SCAN_DATA_ITEM_ID :: item_id where "BT_SCAN_DATA_ITEM_ID = 23"

lemmas item_ids = AIRPLANEMODE_DATA_ITEM_ID_def ENH_DATA_ITEM_ID_def GPSSTATE_DATA_ITEM_ID_def NLPSTATUS_DATA_ITEM_ID_def
  WIFIHARDWARESTATE_DATA_ITEM_ID_def NETWORKINFO_DATA_ITEM_ID_def RILSERVICEINFO_DATA_ITEM_ID_def RILCELLINFO_DATA_ITEM_ID_def
  SERVICESTATUS_DATA_ITEM_ID_def MODEL_DATA_ITEM_ID_def MANUFACTURER_DATA_ITEM_ID_def ASSISTED_GPS_DATA_ITEM_ID_def
  SCREEN_STATE_DATA_ITEM_ID_def POWER_CONNECTED_STATE_DATA_ITEM_ID_def TIMEZONE_CHANGE_DATA_ITEM_ID_def TIME_CHANGE_DATA_ITEM_ID_def
  WIFI_SUPPLICANT_STATUS_DATA_ITEM_ID_def SHUTDOWN_STATE_DATA_ITEM_ID_def TAC_DATA_ITEM_ID_def MCCMNC_DATA_ITEM_ID_def
  BTLE_SCAN_DATA_ITEM_ID_def BT_SCAN_DATA_ITEM_ID_def

type_synonym network_type = u32

definition TYPE_MOBILE :: network_type where "TYPE_MOBILE = 0"
definition TYPE_UNKNOWN :: network_type where "TYPE_UNKNOWN = 10"

definition NETWORK_HANDLE_UNKNOWN :: u64 where "NETWORK_HANDLE_UNKNOWN = 0xFFFFFFFFFFFFFFFF"
definition MAX_NETWORK_HANDLES :: nat where "MAX_NETWORK_HANDLES = 10"

type_synonym net_handle = "u64 \<times> network_type"

definition no_handle :: net_handle where "no_handle = (NETWORK_HANDLE_UNKNOWN, TYPE_UNKNOWN)"

record network_info =
  mAllTypes :: u64
  mType :: network_type
  mTypeName :: string
  mSubTypeName :: string
  mAvailable :: bool
  mConnected :: bool
  mRoaming :: bool
  mAllNetworkHandles :: "net_handle list"
  mNetworkHandle :: u64
  mApn :: string

definition typeToAllTypes :: "network_type \<Rightarrow> u64" where
  "typeToAllTypes t = (if t \<ge> TYPE_UNKNOWN \<or> t < TYPE_MOBILE then 0 else push_bit (unat t) 1)"

definition new_network_info :: "network_type \<Rightarrow> network_type \<Rightarrow> string \<Rightarrow> string \<Rightarrow> bool \<Rightarrow> bool \<Rightarrow> bool \<Rightarrow> u64 \<Rightarrow> string \<Rightarrow> network_info" where
  "new_network_info initialType t typeName subTypeName available connected roaming networkHandle apn =
     \<lparr>mAllTypes = typeToAllTypes initialType, mType = t, mTypeName = typeName, mSubTypeName = subTypeName,
      mAvailable = available, mConnected = connected, mRoaming = roaming,
      mAllNetworkHandles = (networkHandle, initialType) # replicate (MAX_NETWORK_HANDLES - 1) no_handle,
      mNetworkHandle = networkHandle, mApn = apn\<rparr>"

record wifi_supplicant =
  ws_mState :: u32
  mApMacAddressValid :: bool
  mApMacAddress :: "8 word list"
  mWifiApSsidValid :: bool
  mWifiApSsid :: string

record srn_scan =
  mValidSrnData :: bool
  mApSrnRssi :: u32
  mApSrnMacAddress :: "8 word list"
  mApSrnTimestamp :: u64
  mRequestTimestamp :: u64
  mReceiveTimestamp :: u64
  mErrorCause :: u32

datatype data_item =
    AirplaneMode bool
  | ENH bool
  | GPSState bool
  | NLPStatus bool
  | WifiHardwareState bool
  | NetworkInfo network_info
  | RilServiceInfo ptr
  | RilCellInfo ptr
  | ServiceStatus u32
  | Model string
  | Manufacturer string
  | AssistedGps bool
  | ScreenState bool
  | PowerConnectState bool
  | TimeZoneChange u64 u32 u32
  | TimeChange u64 u32 u32
  | WifiSupplicantStatus wifi_supplicant
  | ShutdownState bool
  | Tac string
  | Mccmnc string
  | BtLeDeviceScanDetails srn_scan
  | BtDeviceScanDetails srn_scan
  | OtherItem item_id

primrec getId :: "data_item \<Rightarrow> item_id" where
  "getId (AirplaneMode b) = AIRPLANEMODE_DATA_ITEM_ID"
| "getId (ENH b) = ENH_DATA_ITEM_ID"
| "getId (GPSState b) = GPSSTATE_DATA_ITEM_ID"
| "getId (NLPStatus b) = NLPSTATUS_DATA_ITEM_ID"
| "getId (WifiHardwareState b) = WIFIHARDWARESTATE_DATA_ITEM_ID"
| "getId (NetworkInfo n) = NETWORKINFO_DATA_ITEM_ID"
| "getId (RilServiceInfo d) = RILSERVICEINFO_DATA_ITEM_ID"
| "getId (RilCellInfo d) = RILCELLINFO_DATA_ITEM_ID"
| "getId (ServiceStatus s) = SERVICESTATUS_DATA_ITEM_ID"
| "getId (Model s) = MODEL_DATA_ITEM_ID"
| "getId (Manufacturer s) = MANUFACTURER_DATA_ITEM_ID"
| "getId (AssistedGps b) = ASSISTED_GPS_DATA_ITEM_ID"
| "getId (ScreenState b) = SCREEN_STATE_DATA_ITEM_ID"
| "getId (PowerConnectState b) = POWER_CONNECTED_STATE_DATA_ITEM_ID"
| "getId (TimeZoneChange t r d) = TIMEZONE_CHANGE_DATA_ITEM_ID"
| "getId (TimeChange t r d) = TIME_CHANGE_DATA_ITEM_ID"
| "getId (WifiSupplicantStatus w) = WIFI_SUPPLICANT_STATUS_DATA_ITEM_ID"
| "getId (ShutdownState b) = SHUTDOWN_STATE_DATA_ITEM_ID"
| "getId (Tac s) = TAC_DATA_ITEM_ID"
| "getId (Mccmnc s) = MCCMNC_DATA_ITEM_ID"
| "getId (BtLeDeviceScanDetails s) = BTLE_SCAN_DATA_ITEM_ID"
| "getId (BtDeviceScanDetails s) = BT_SCAN_DATA_ITEM_ID"
| "getId (OtherItem i) = i"

section \<open>Comparing and collating\<close>

text \<open>The \<open>equals\<close> of each kind; two items of the same kind only are compared.\<close>

definition network_equals :: "network_info \<Rightarrow> network_info \<Rightarrow> bool" where
  "network_equals n peer \<longleftrightarrow> mConnected peer = mConnected n \<and> mAllNetworkHandles n = mAllNetworkHandles peer \<and> mApn peer = mApn n"

definition srn_equals :: "srn_scan \<Rightarrow> srn_scan \<Rightarrow> bool" where
  "srn_equals s peer \<longleftrightarrow> mApSrnRssi s = mApSrnRssi peer \<and> mApSrnMacAddress s = mApSrnMacAddress peer \<and>
     mApSrnTimestamp s = mApSrnTimestamp peer \<and> mRequestTimestamp s = mRequestTimestamp peer \<and>
     mReceiveTimestamp s = mReceiveTimestamp peer"

definition wifi_equals :: "wifi_supplicant \<Rightarrow> wifi_supplicant \<Rightarrow> bool" where
  "wifi_equals w peer \<longleftrightarrow> ws_mState w = ws_mState peer \<and> mApMacAddressValid w = mApMacAddressValid peer \<and>
     mWifiApSsidValid w = mWifiApSsidValid peer \<and> mWifiApSsid w = mWifiApSsid peer"

definition item_equals :: "data_item \<Rightarrow> data_item \<Rightarrow> bool" where
  "item_equals d peer =
     (case d of
        NetworkInfo n \<Rightarrow> (case peer of NetworkInfo p \<Rightarrow> network_equals n p | _ \<Rightarrow> False)
      | WifiSupplicantStatus w \<Rightarrow> (case peer of WifiSupplicantStatus p \<Rightarrow> wifi_equals w p | _ \<Rightarrow> False)
      | BtLeDeviceScanDetails s \<Rightarrow> (case peer of BtLeDeviceScanDetails p \<Rightarrow> srn_equals s p | _ \<Rightarrow> False)
      | BtDeviceScanDetails s \<Rightarrow> (case peer of BtDeviceScanDetails p \<Rightarrow> srn_equals s p | _ \<Rightarrow> False)
      | _ \<Rightarrow> d = peer)"

text \<open>The loop over the table when a network is connected.\<close>

fun insert_handle :: "u64 \<Rightarrow> network_type \<Rightarrow> net_handle list \<Rightarrow> net_handle list" where
  "insert_handle h t [] = []"
| "insert_handle h t (x # xs) =
     (if h = fst x then x # xs
      else if fst x = NETWORK_HANDLE_UNKNOWN then (h, t) # xs
      else x # insert_handle h t xs)"

text \<open>The loop when one is disconnected: \<open>lastValidIndex\<close>, \<open>deletedIndex\<close> and \<open>typeCount\<close>.\<close>

fun scan_handles :: "u64 \<Rightarrow> network_type \<Rightarrow> net_handle list \<Rightarrow> nat \<Rightarrow> nat \<Rightarrow> nat \<Rightarrow> nat \<times> nat \<times> nat" where
  "scan_handles h t [] i deleted cnt = (i, deleted, cnt)"
| "scan_handles h t (x # xs) i deleted cnt =
     (if fst x = NETWORK_HANDLE_UNKNOWN then (i, deleted, cnt)
      else if t = snd x
      then (if h = fst x then scan_handles h t xs (i + 1) i cnt else scan_handles h t xs (i + 1) deleted (cnt + 1))
      else scan_handles h t xs (i + 1) deleted cnt)"

definition remove_handle :: "u64 \<Rightarrow> network_type \<Rightarrow> net_handle list \<Rightarrow> nat \<times> net_handle list" where
  "remove_handle h t hs =
     (let (lastValid, deleted, cnt) = scan_handles h t hs 0 MAX_NETWORK_HANDLES 0;
          i = (if lastValid > 0 then lastValid - 1 else lastValid)
      in (cnt, if deleted \<noteq> MAX_NETWORK_HANDLES then hs[deleted := hs ! i, i := no_handle] else hs))"

definition collate_network :: "network_info \<Rightarrow> network_info \<Rightarrow> network_info" where
  "collate_network cur s =
     (let s1 = s\<lparr>mAllNetworkHandles := mAllNetworkHandles cur\<rparr>;
          s2 = (if mType s \<noteq> TYPE_MOBILE \<and> mApn cur \<noteq> [] then s1\<lparr>mApn := mApn cur\<rparr> else s1)
      in if mConnected s
         then s2\<lparr>mAllTypes := mAllTypes s OR mAllTypes cur,
                 mAllNetworkHandles := insert_handle (mNetworkHandle s) (mType s) (mAllNetworkHandles s2)\<rparr>
         else if mAllTypes s \<noteq> 0
         then (let (cnt, hs) = remove_handle (mNetworkHandle s) (mType s) (mAllNetworkHandles s2);
                   s3 = s2\<lparr>mAllNetworkHandles := hs\<rparr>
               in if cnt = 0 then s3\<lparr>mAllTypes := mAllTypes cur AND NOT (mAllTypes s)\<rparr> else s3)
         else s2)"

text \<open>The other kinds are not changed.\<close>

definition collate :: "data_item \<Rightarrow> data_item \<Rightarrow> data_item" where
  "collate cur s =
     (case s of
        NetworkInfo n \<Rightarrow> (case cur of NetworkInfo c \<Rightarrow> NetworkInfo (collate_network c n) | _ \<Rightarrow> s)
      | _ \<Rightarrow> s)"

section \<open>Reports\<close>

record status_item =
  si_item :: data_item
  mUtcTime :: nat
  mUtcReported :: nat

definition maxItem :: nat where "maxItem = 5"

text \<open>
  \<open>setIteminReport\<close>: whether the item is new, and the report. An item that is collated is returned
  as well, since for networks the original is changed with it.
\<close>

text \<open>
  Putting an item in the vector copies it once more. For the two RIL items that copy asks the item of
  the cache for its data, whose \<open>setPeerData\<close> sets nothing, so the stored item has none.
\<close>

definition stored_copy :: "data_item \<Rightarrow> data_item" where
  "stored_copy d = (case d of RilServiceInfo p \<Rightarrow> RilServiceInfo None | RilCellInfo p \<Rightarrow> RilCellInfo None | _ \<Rightarrow> d)"

definition push_report :: "status_item \<Rightarrow> status_item list \<Rightarrow> status_item list" where
  "push_report s report =
     (let r = report @ [s] in if length r > maxItem then tl r else r)"

definition setIteminReport :: "nat \<Rightarrow> data_item \<Rightarrow> status_item list \<Rightarrow> bool \<times> data_item \<times> status_item list" where
  "setIteminReport now d report =
     (let d1 = (if report \<noteq> [] then collate (si_item (last report)) d else d)
      in if report \<noteq> [] \<and> item_equals (si_item (last report)) d1
         then (False, d1, report[length report - 1 := (last report)\<lparr>mUtcReported := now\<rparr>])
         else (True, d1, push_report \<lparr>si_item = stored_copy d1, mUtcTime = now, mUtcReported = now\<rparr> report))"

text \<open>The reports by the kind of the vector. The two kinds of Bluetooth scans are exchanged in the code.\<close>

type_synonym status_cache = "item_id \<Rightarrow> status_item list"

definition report_of :: "data_item \<Rightarrow> item_id option" where
  "report_of d =
     (case d of
        BtLeDeviceScanDetails s \<Rightarrow> Some BT_SCAN_DATA_ITEM_ID
      | BtDeviceScanDetails s \<Rightarrow> Some BTLE_SCAN_DATA_ITEM_ID
      | OtherItem i \<Rightarrow> None
      | _ \<Rightarrow> Some (getId d))"

text \<open>
  What a copy of a base object gets: \<open>setPeerData\<close> is a method of the data item library, which sets
  the data of the two RIL items.
\<close>

definition copy_base :: "(ptr \<Rightarrow> ptr) \<Rightarrow> data_item \<Rightarrow> data_item" where
  "copy_base setPeerData d =
     (case d of RilServiceInfo p \<Rightarrow> RilServiceInfo (setPeerData p) | RilCellInfo p \<Rightarrow> RilCellInfo (setPeerData p) | _ \<Rightarrow> d)"

text \<open>What \<open>collate\<close> writes back to the original.\<close>

definition write_back :: "data_item \<Rightarrow> data_item \<Rightarrow> data_item" where
  "write_back d d1 =
     (case d of
        NetworkInfo n \<Rightarrow> (case d1 of
            NetworkInfo m \<Rightarrow> NetworkInfo (n\<lparr>mAllTypes := mAllTypes m, mAllNetworkHandles := mAllNetworkHandles m\<rparr>) | _ \<Rightarrow> d)
      | _ \<Rightarrow> d)"

definition eventDataItemNotify :: "(ptr \<Rightarrow> ptr) \<Rightarrow> nat \<Rightarrow> data_item \<Rightarrow> status_cache \<Rightarrow> bool \<times> data_item \<times> status_cache" where
  "eventDataItemNotify setPeerData now d cache =
     (case report_of d of
        None \<Rightarrow> (False, d, cache)
      | Some i \<Rightarrow>
          (case setIteminReport now (copy_base setPeerData d) (cache i) of
             (ret, d1, report) \<Rightarrow> (ret, write_back d d1, cache(i := report))))"

text \<open>The item of \<open>eventConnectionStatus\<close> and \<open>updatePowerConnectState\<close>, which the observer is notified of.\<close>

definition connection_item :: "bool \<Rightarrow> 8 word \<Rightarrow> bool \<Rightarrow> u64 \<Rightarrow> string \<Rightarrow> data_item" where
  "connection_item connected t roaming networkHandle apn =
     NetworkInfo (new_network_info (scast t) (scast t) [] [] (connected \<and> \<not> roaming) connected roaming networkHandle apn)"

definition reset_items :: "status_cache \<Rightarrow> data_item list" where
  "reset_items cache =
     concat (map (\<lambda>s. case si_item s of
         NetworkInfo n \<Rightarrow> [connection_item False (ucast (mType n)) (mRoaming n) (mNetworkHandle n) (mApn n)]
       | _ \<Rightarrow> []) (cache NETWORKINFO_DATA_ITEM_ID))"

section \<open>What the cache holds\<close>

text \<open>One event after the other, each at its time.\<close>

definition ss_event :: "(ptr \<Rightarrow> ptr) \<Rightarrow> nat \<times> data_item \<Rightarrow> status_cache \<Rightarrow> status_cache" where
  "ss_event setPeerData e cache = snd (snd (eventDataItemNotify setPeerData (fst e) (snd e) cache))"

definition ss_run :: "(ptr \<Rightarrow> ptr) \<Rightarrow> (nat \<times> data_item) list \<Rightarrow> status_cache" where
  "ss_run setPeerData evs = fold (ss_event setPeerData) evs (\<lambda>i. [])"

lemma ss_run_Nil [simp]: "ss_run pd [] i = []"
  by (simp add: ss_run_def)

lemma ss_run_snoc [simp]: "ss_run pd (evs @ [e]) = ss_event pd e (ss_run pd evs)"
  by (simp add: ss_run_def)

text \<open>The events that go to one report, and what two of them are compared by.\<close>

definition events_of :: "item_id \<Rightarrow> (nat \<times> data_item) list \<Rightarrow> (nat \<times> data_item) list" where
  "events_of i evs = filter (\<lambda>e. report_of (snd e) = Some i) evs"

definition item_key :: "data_item \<Rightarrow> data_item" where
  "item_key d =
     (case d of
        WifiSupplicantStatus w \<Rightarrow> WifiSupplicantStatus (w\<lparr>mApMacAddress := []\<rparr>)
      | BtLeDeviceScanDetails s \<Rightarrow> BtLeDeviceScanDetails (s\<lparr>mValidSrnData := False, mErrorCause := 0\<rparr>)
      | BtDeviceScanDetails s \<Rightarrow> BtDeviceScanDetails (s\<lparr>mValidSrnData := False, mErrorCause := 0\<rparr>)
      | _ \<Rightarrow> d)"

lemma item_equals_key:
  assumes "\<And>n. d \<noteq> NetworkInfo n"
  shows "item_equals d p \<longleftrightarrow> item_key d = item_key p"
proof -
  have w: "wifi_equals a b \<longleftrightarrow> a\<lparr>mApMacAddress := []\<rparr> = b\<lparr>mApMacAddress := []\<rparr>" for a b
    by (cases a; cases b) (simp add: wifi_equals_def)
  have s: "srn_equals a b \<longleftrightarrow> a\<lparr>mValidSrnData := False, mErrorCause := 0\<rparr> = b\<lparr>mValidSrnData := False, mErrorCause := 0\<rparr>" for a b
    by (cases a; cases b) (simp add: srn_equals_def)
  show ?thesis using assms by (cases d; cases p) (simp_all add: item_equals_def item_key_def w s)
qed

lemma collate_other: "(\<And>n. s \<noteq> NetworkInfo n) \<Longrightarrow> collate cur s = s"
  by (auto simp: collate_def split: data_item.split)

definition last_n :: "nat \<Rightarrow> 'a list \<Rightarrow> 'a list" where
  "last_n n xs = drop (length xs - n) xs"

lemma last_n_Nil [simp]: "last_n n [] = []"
  by (simp add: last_n_def)

lemma last_n_empty [simp]: "0 < n \<Longrightarrow> last_n n xs = [] \<longleftrightarrow> xs = []"
  unfolding last_n_def by (cases xs) auto

lemma last_last_n [simp]: "0 < n \<Longrightarrow> last (last_n n xs) = last xs"
  by (cases "xs = []") (simp_all add: last_n_def last_drop)

lemma last_n_snoc: "0 < n \<Longrightarrow> last_n n (xs @ [x]) = (if n \<le> length xs then tl (last_n n xs) else last_n n xs) @ [x]"
  by (auto simp: last_n_def drop_Suc tl_drop Suc_diff_le)

lemma length_last_n: "length (last_n n xs) = min n (length xs)"
  by (auto simp: last_n_def)

lemma remdups_adj_snoc:
  "remdups_adj (xs @ [x]) = (if xs \<noteq> [] \<and> last xs = x then remdups_adj xs else remdups_adj xs @ [x])"
  by (induction xs rule: remdups_adj.induct) auto

lemma last_update_map: "xs \<noteq> [] \<Longrightarrow> f y = f (last xs) \<Longrightarrow> map f (xs[length xs - 1 := y]) = map f xs"
  by (cases xs rule: rev_cases) simp_all

text \<open>
  A report other than that of the networks: what is recorded of an event.
\<close>

lemma report_other:
  assumes "\<And>n. d \<noteq> NetworkInfo n" "stored_copy d = d"
  shows "map (item_key \<circ> si_item) (snd (snd (setIteminReport now d report))) =
      (if report \<noteq> [] \<and> item_key (si_item (last report)) = item_key d then map (item_key \<circ> si_item) report
       else (let r = map (item_key \<circ> si_item) report @ [item_key d] in if length r > maxItem then tl r else r))"
    and "mUtcReported (last (snd (snd (setIteminReport now d report)))) = now"
    and "snd (snd (setIteminReport now d report)) \<noteq> []"
proof -
  have e: "item_equals p d \<longleftrightarrow> item_key p = item_key d" for p
  proof (cases "\<exists>n. p = NetworkInfo n")
    case True
    then show ?thesis using assms(1) by (cases d) (auto simp: item_equals_def item_key_def)
  qed (use item_equals_key [of p d] in blast)
  note d = setIteminReport_def collate_other [OF assms(1)] e assms(2) push_report_def Let_def
  show "map (item_key \<circ> si_item) (snd (snd (setIteminReport now d report))) =
      (if report \<noteq> [] \<and> item_key (si_item (last report)) = item_key d then map (item_key \<circ> si_item) report
       else (let r = map (item_key \<circ> si_item) report @ [item_key d] in if length r > maxItem then tl r else r))"
  proof (cases report rule: rev_cases)
    case (snoc r s)
    then show ?thesis by (simp add: d map_tl)
  qed (simp add: d)
  have "0 < maxItem" by (simp add: maxItem_def)
  then show "mUtcReported (last (snd (snd (setIteminReport now d report)))) = now"
    and "snd (snd (setIteminReport now d report)) \<noteq> []"
    by (cases report rule: rev_cases; auto simp: d tl_append split: list.splits)+
qed

lemma copy_base_plain:
  assumes "report_of d = Some i" "i \<notin> {NETWORKINFO_DATA_ITEM_ID, RILSERVICEINFO_DATA_ITEM_ID, RILCELLINFO_DATA_ITEM_ID}"
  shows "copy_base pd d \<noteq> NetworkInfo n" "stored_copy (copy_base pd d) = copy_base pd d"
  using assms by (cases d; auto simp: copy_base_def report_of_def stored_copy_def)+

lemma ss_event_other: "report_of (snd e) \<noteq> Some i \<Longrightarrow> ss_event pd e cache i = cache i"
  by (auto simp: ss_event_def eventDataItemNotify_def split: option.splits prod.splits)

lemma ss_event_here: "report_of (snd e) = Some i \<Longrightarrow> ss_event pd e cache i = snd (snd (setIteminReport (fst e) (copy_base pd (snd e)) (cache i)))"
  by (auto simp: ss_event_def eventDataItemNotify_def split: prod.splits)

text \<open>C21. Whatever data items are reported to the cache, the history that it keeps of a kind, other than
  of the networks and the RIL, is exact: it is the last five values after neighbours that count as equal are
  merged, in order, and the last entry carries the time of the last event of the kind.
\<close>

theorem history_exact:
  assumes "i \<notin> {NETWORKINFO_DATA_ITEM_ID, RILSERVICEINFO_DATA_ITEM_ID, RILCELLINFO_DATA_ITEM_ID}"
  shows "map (item_key \<circ> si_item) (ss_run setPeerData evs i) =
      last_n maxItem (remdups_adj (map (item_key \<circ> copy_base setPeerData \<circ> snd) (events_of i evs))) \<and>
    (ss_run setPeerData evs i \<noteq> [] \<longleftrightarrow> events_of i evs \<noteq> []) \<and>
    (events_of i evs \<noteq> [] \<longrightarrow> mUtcReported (last (ss_run setPeerData evs i)) = fst (last (events_of i evs)))"
proof (induction evs rule: rev_induct)
  case (snoc e evs)
  define hist where "hist = ss_run setPeerData evs i"
  define ks where "ks = map (item_key \<circ> copy_base setPeerData \<circ> snd) (events_of i evs)"
  have h: "map (item_key \<circ> si_item) hist = last_n maxItem (remdups_adj ks)" and n: "hist = [] \<longleftrightarrow> events_of i evs = []"
    using snoc unfolding hist_def ks_def by blast+
  show ?case
  proof (cases "report_of (snd e) = Some i")
    case True
    note r = report_other [OF copy_base_plain [OF True assms]]
    have m: "0 < maxItem" by (simp add: maxItem_def)
    have l: "item_key (si_item (last hist)) = last ks" if "hist \<noteq> []"
    proof -
      have "item_key (si_item (last hist)) = last (map (item_key \<circ> si_item) hist)" using that by (simp add: last_map)
      then show ?thesis using h m by simp
    qed
    have len: "length hist = min maxItem (length (remdups_adj ks))"
      using arg_cong [OF h, of length] by (simp add: length_last_n)
    have "ks = [] \<longleftrightarrow> hist = []" using n by (simp add: ks_def)
    then have "map (item_key \<circ> si_item) (ss_event setPeerData e (ss_run setPeerData evs) i) =
        last_n maxItem (remdups_adj (ks @ [item_key (copy_base setPeerData (snd e))]))"
      unfolding ss_event_here [OF True] r(1) hist_def [symmetric] h remdups_adj_snoc
      using l m len by (auto simp: last_n_snoc length_last_n Let_def min_def split: if_splits)
    then show ?thesis
      using True r(2,3) by (simp add: events_of_def ss_event_here ks_def comp_def)
  qed (use snoc in \<open>simp add: events_of_def ss_event_other\<close>)
qed (simp add: events_of_def)

theorem history_exact_witness:
  "map (item_key \<circ> si_item) (ss_run id [(1, Tac ''a''), (2, Tac ''a''), (3, Tac ''b'')] TAC_DATA_ITEM_ID) =
    last_n maxItem (remdups_adj (map (item_key \<circ> copy_base id \<circ> snd)
      (events_of TAC_DATA_ITEM_ID [(1, Tac ''a''), (2, Tac ''a''), (3, Tac ''b'')])))"
  using history_exact [of TAC_DATA_ITEM_ID id "[(1, Tac ''a''), (2, Tac ''a''), (3, Tac ''b'')]"]
  by (simp add: item_ids)

text \<open>A RIL item with data is recorded as new whenever it is reported, since the stored one has none.\<close>

lemma ril_always_new: "setPeerData p \<noteq> None \<Longrightarrow> \<forall>s \<in> set (cache RILCELLINFO_DATA_ITEM_ID). si_item s = RilCellInfo None \<Longrightarrow>
    fst (eventDataItemNotify setPeerData now (RilCellInfo p) cache)"
  by (auto simp: eventDataItemNotify_def report_of_def setIteminReport_def copy_base_def collate_def item_equals_def Let_def split: prod.splits)

end
