(* ===== verification/System_Networks.thy ===== *)
theory System_Networks
  imports System_Status
begin

text \<open>
  The table of connected networks in the data items of core/SystemStatus.h: it refines a set of
  connections. What it does not do: the first report is stored as it is, the mask of the types loses
  types that are still connected, and the connections of an unknown type are never removed.
\<close>

section \<open>The table as a set of connections\<close>

definition known_nets :: "net_handle list \<Rightarrow> bool" where
  "known_nets nets \<longleftrightarrow> distinct (map fst nets) \<and> NETWORK_HANDLE_UNKNOWN \<notin> fst ` set nets \<and> length nets \<le> MAX_NETWORK_HANDLES"

text \<open>
  Connections packed at the front of the table; the handles behind them are unknown, whatever type is
  beside them (a first report without a handle leaves its type in the first entry).
\<close>

abbreviation unused :: "net_handle list \<Rightarrow> bool" where
  "unused rest \<equiv> \<forall>x \<in> set rest. fst x = NETWORK_HANDLE_UNKNOWN"

definition table_of :: "net_handle list \<Rightarrow> net_handle list \<Rightarrow> bool" where
  "table_of hs nets \<longleftrightarrow> known_nets nets \<and> length hs = MAX_NETWORK_HANDLES \<and> (\<exists>rest. hs = nets @ rest \<and> unused rest)"

lemma insert_handle_known:
  assumes "NETWORK_HANDLE_UNKNOWN \<notin> fst ` set nets" "unused rest"
  shows "insert_handle h t (nets @ rest) =
    (if h \<in> fst ` set nets \<or> rest = [] \<or> h = NETWORK_HANDLE_UNKNOWN then nets @ rest else nets @ (h, t) # tl rest)"
  using assms
proof (induction nets)
  case Nil
  then show ?case by (cases rest) auto
qed auto

lemma insert_handle_table:
  assumes "table_of hs nets"
  shows "table_of (insert_handle h t hs)
    (if h \<in> fst ` set nets \<or> length nets = MAX_NETWORK_HANDLES \<or> h = NETWORK_HANDLE_UNKNOWN then nets else nets @ [(h, t)])"
proof -
  obtain rest where r: "hs = nets @ rest" "unused rest" "known_nets nets" "length nets + length rest = MAX_NETWORK_HANDLES"
    using assms by (auto simp: table_of_def)
  then have i: "insert_handle h t hs =
      (if h \<in> fst ` set nets \<or> rest = [] \<or> h = NETWORK_HANDLE_UNKNOWN then nets @ rest else nets @ (h, t) # tl rest)"
    by (simp add: insert_handle_known known_nets_def)
  have e: "rest = [] \<longleftrightarrow> length nets = MAX_NETWORK_HANDLES" using r(4) by auto
  show ?thesis
  proof (cases "h \<in> fst ` set nets \<or> rest = [] \<or> h = NETWORK_HANDLE_UNKNOWN")
    case True
    then have "insert_handle h t hs = hs" using i r(1) by simp
    then show ?thesis using True assms e by auto
  next
    case False
    then have "insert_handle h t hs = (nets @ [(h, t)]) @ tl rest" using i by simp
    moreover have "unused (tl rest)" using r(2) by (cases rest) simp_all
    moreover have "known_nets (nets @ [(h, t)])" using False r(3,4) by (cases rest) (auto simp: known_nets_def)
    moreover have "length (nets @ [(h, t)]) + length (tl rest) = MAX_NETWORK_HANDLES" using False r(4) by (cases rest) auto
    ultimately have "table_of (insert_handle h t hs) (nets @ [(h, t)])" unfolding table_of_def by auto
    then show ?thesis using False e by simp
  qed
qed

lemma scan_skip:
  "(h, t) \<notin> set as \<Longrightarrow> NETWORK_HANDLE_UNKNOWN \<notin> fst ` set as \<Longrightarrow>
   scan_handles h t (as @ xs) i d c = scan_handles h t xs (i + length as) d (c + length (filter (\<lambda>x. snd x = t) as))"
  by (induction as arbitrary: i c) auto

lemma scan_end [simp]: "unused rest \<Longrightarrow> scan_handles h t rest i d c = (i, d, c)"
  by (cases rest) auto

text \<open>The connection found is overwritten with the last one.\<close>

lemma remove_handle_table:
  assumes "table_of hs nets"
  shows "\<exists>hs1 nets1. remove_handle h t hs = (length (filter (\<lambda>x. snd x = t \<and> x \<noteq> (h, t)) nets), hs1) \<and>
    table_of hs1 nets1 \<and> set nets1 = set nets - {(h, t)}"
proof -
  obtain rest where hs: "hs = nets @ rest" and un: "unused rest" and len: "length nets + length rest = MAX_NETWORK_HANDLES"
    using assms by (auto simp: table_of_def)
  have known: "known_nets nets" using assms by (simp add: table_of_def)
  have f: "filter (\<lambda>x. snd x = t \<and> x \<noteq> (h, t)) xs = filter (\<lambda>x. snd x = t) xs" if "(h, t) \<notin> set xs" for xs
    using that by (induction xs) auto
  show ?thesis
  proof (cases "(h, t) \<in> set nets")
    case True
    then obtain as bs where nets: "nets = as @ (h, t) # bs" by (auto simp: in_set_conv_decomp)
    have k: "known_nets (as @ (h, t) # bs)" using known nets by simp
    then have ht: "(h, t) \<notin> set as" "(h, t) \<notin> set bs" by (force simp: known_nets_def)+
    have u: "NETWORK_HANDLE_UNKNOWN \<notin> fst ` set as" "NETWORK_HANDLE_UNKNOWN \<notin> fst ` set bs" "h \<noteq> NETWORK_HANDLE_UNKNOWN"
      using k by (auto simp: known_nets_def)
    have scan: "scan_handles h t hs 0 MAX_NETWORK_HANDLES 0 =
        (length nets, length as, length (filter (\<lambda>x. snd x = t \<and> x \<noteq> (h, t)) nets))"
    proof -
      have "scan_handles h t hs 0 MAX_NETWORK_HANDLES 0 =
          scan_handles h t ((h, t) # bs @ rest) (length as) MAX_NETWORK_HANDLES (length (filter (\<lambda>x. snd x = t) as))"
        unfolding hs nets by (simp only: append_assoc append_Cons scan_skip [OF ht(1) u(1)]) simp
      also have "\<dots> = scan_handles h t (bs @ rest) (length as + 1) (length as) (length (filter (\<lambda>x. snd x = t) as))"
        using u(3) by simp
      also have "\<dots> = (length nets, length as, length (filter (\<lambda>x. snd x = t) as) + length (filter (\<lambda>x. snd x = t) bs))"
        by (simp only: scan_skip [OF ht(2) u(2)] scan_end [OF un]) (simp add: nets)
      finally show ?thesis using ht by (simp add: nets f)
    qed
    have "length as < MAX_NETWORK_HANDLES" using k by (simp add: known_nets_def)
    with scan have r: "remove_handle h t hs = (length (filter (\<lambda>x. snd x = t \<and> x \<noteq> (h, t)) nets),
        hs[length as := hs ! (length nets - 1), length nets - 1 := no_handle])"
      by (simp add: remove_handle_def nets Let_def)
    let ?nets1 = "if bs = [] then as else as @ last bs # butlast bs"
    have e: "hs[length as := hs ! (length nets - 1), length nets - 1 := no_handle] = ?nets1 @ no_handle # rest"
      by (cases bs rule: rev_cases) (simp_all add: hs nets list_update_append nth_append)
    have "known_nets ?nets1" using k by (cases bs rule: rev_cases) (auto simp: known_nets_def)
    moreover have "unused (no_handle # rest)" using un by (simp add: no_handle_def)
    moreover have "length (?nets1 @ no_handle # rest) = MAX_NETWORK_HANDLES" using len by (cases bs rule: rev_cases) (simp_all add: nets)
    ultimately have "table_of (?nets1 @ no_handle # rest) ?nets1" unfolding table_of_def by blast
    moreover have "set ?nets1 = set nets - {(h, t)}" using ht by (cases bs rule: rev_cases) (auto simp: nets)
    ultimately show ?thesis using r e by (intro exI [of _ "?nets1 @ no_handle # rest"] exI [of _ ?nets1]) simp
  next
    case False
    then have "remove_handle h t hs = (length (filter (\<lambda>x. snd x = t \<and> x \<noteq> (h, t)) nets), hs)"
      using known scan_skip [OF False, of rest 0] un f by (simp add: remove_handle_def hs known_nets_def)
    then show ?thesis using assms False by auto
  qed
qed

section \<open>Runs\<close>

text \<open>
  A report of the framework to \<open>eventConnectionStatus\<close>, as it arrives at the cache: the type and
  the handle of a network, whether it is connected, and what does not matter for the table.
\<close>

record net_event =
  ne_connected :: bool
  ne_type :: "8 word"
  ne_handle :: u64
  ne_roaming :: bool
  ne_apn :: string

definition net_item :: "net_event \<Rightarrow> data_item" where
  "net_item e = connection_item (ne_connected e) (ne_type e) (ne_roaming e) (ne_handle e) (ne_apn e)"

abbreviation ne_net :: "net_event \<Rightarrow> net_handle" where
  "ne_net e \<equiv> (ne_handle e, scast (ne_type e))"

text \<open>
  What the table stands for: connections with a known handle, of which at most ten are kept. The end
  of a connection counts only when its type is one of the ten that have a bit in the mask of types.
\<close>

definition net_spec :: "net_event \<Rightarrow> net_handle set \<Rightarrow> net_handle set" where
  "net_spec e S =
     (if ne_connected e
      then if ne_handle e \<in> fst ` S \<or> card S = MAX_NETWORK_HANDLES \<or> ne_handle e = NETWORK_HANDLE_UNKNOWN then S
           else insert (ne_net e) S
      else if ne_type e < 10 then S - {ne_net e} else S)"

definition net_first :: "net_event \<Rightarrow> net_handle set" where
  "net_first e = (if ne_handle e = NETWORK_HANDLE_UNKNOWN then {} else {ne_net e})"

definition cached_network :: "status_cache \<Rightarrow> network_info option" where
  "cached_network cache =
     (if cache NETWORKINFO_DATA_ITEM_ID = [] then None
      else case si_item (last (cache NETWORKINFO_DATA_ITEM_ID)) of NetworkInfo n \<Rightarrow> Some n | _ \<Rightarrow> None)"

lemma net_type_bit: "typeToAllTypes (scast (t :: 8 word)) \<noteq> 0 \<longleftrightarrow> t < 10"
proof -
  have "list_all (\<lambda>n. (typeToAllTypes (scast (word_of_nat n :: 8 word)) \<noteq> 0) = (n < 10)) [0..<256]" by code_simp
  moreover have "unat t \<in> set [0..<256]" using unsigned_less [of t, where ?'a = nat] by simp
  ultimately have "(typeToAllTypes (scast (word_of_nat (unat t) :: 8 word)) \<noteq> 0) = (unat t < 10)"
    unfolding list_all_iff by blast
  then show ?thesis by (simp add: word_less_nat_alt)
qed

lemma collate_table:
  assumes "table_of (mAllNetworkHandles cur) nets"
  obtains m nets1 where "collate (NetworkInfo cur) (net_item e) = NetworkInfo m" "table_of (mAllNetworkHandles m) nets1"
    "set nets1 = net_spec e (set nets)"
proof (cases "ne_connected e")
  case True
  let ?nets1 = "if ne_handle e \<in> fst ` set nets \<or> length nets = MAX_NETWORK_HANDLES \<or> ne_handle e = NETWORK_HANDLE_UNKNOWN
    then nets else nets @ [ne_net e]"
  obtain m where m: "collate (NetworkInfo cur) (net_item e) = NetworkInfo m"
      "mAllNetworkHandles m = insert_handle (ne_handle e) (scast (ne_type e)) (mAllNetworkHandles cur)"
    using True by (simp add: net_item_def connection_item_def collate_def collate_network_def new_network_info_def Let_def)
  have c: "card (set nets) = length nets"
    using assms by (auto simp: table_of_def known_nets_def distinct_map intro: distinct_card)
  have "table_of (mAllNetworkHandles m) ?nets1" unfolding m(2) by (rule insert_handle_table [OF assms])
  moreover have "set ?nets1 = net_spec e (set nets)" using True c by (auto simp: net_spec_def)
  ultimately show thesis using that m(1) by blast
next
  case False
  show thesis
  proof (cases "ne_type e < 10")
    case True
    then have t: "typeToAllTypes (scast (ne_type e)) \<noteq> 0" by (simp add: net_type_bit)
    obtain hs1 nets1 where r: "snd (remove_handle (ne_handle e) (scast (ne_type e)) (mAllNetworkHandles cur)) = hs1"
        "table_of hs1 nets1" "set nets1 = set nets - {ne_net e}"
      using remove_handle_table [OF assms, of "ne_handle e" "scast (ne_type e)"] by auto
    obtain m where "collate (NetworkInfo cur) (net_item e) = NetworkInfo m"
        "mAllNetworkHandles m = snd (remove_handle (ne_handle e) (scast (ne_type e)) (mAllNetworkHandles cur))"
      using False t by (simp add: net_item_def connection_item_def collate_def collate_network_def new_network_info_def Let_def split: prod.split)
    with r show thesis using that [of m nets1] False True by (simp add: net_spec_def)
  next
    case ty: False
    then have t: "typeToAllTypes (scast (ne_type e)) = 0" using net_type_bit by blast
    obtain m where "collate (NetworkInfo cur) (net_item e) = NetworkInfo m" "mAllNetworkHandles m = mAllNetworkHandles cur"
      using False t by (simp add: net_item_def connection_item_def collate_def collate_network_def new_network_info_def Let_def)
    with assms show thesis using that [of m nets] False ty by (simp add: net_spec_def)
  qed
qed

text \<open>After a report the last entry has the table of the report, also when the entry is not new.\<close>

lemma report_network:
  assumes "cache NETWORKINFO_DATA_ITEM_ID = r" "r = [] \<or> (si_item (last r) = NetworkInfo cur)"
    "(if r = [] then d else collate (NetworkInfo cur) d) = NetworkInfo m" "d = NetworkInfo n"
  shows "\<exists>m1. cached_network (ss_event pd (now, d) cache) = Some m1 \<and> mAllNetworkHandles m1 = mAllNetworkHandles m"
proof -
  have c: "copy_base pd d = d" and o: "report_of d = Some NETWORKINFO_DATA_ITEM_ID"
    using assms(4) by (simp_all add: copy_base_def report_of_def)
  have "ss_event pd (now, d) cache NETWORKINFO_DATA_ITEM_ID = snd (snd (setIteminReport now d r))"
    using ss_event_here [of "(now, d)"] o c assms(1) by simp
  moreover have "\<exists>s. last (snd (snd (setIteminReport now d r))) = s \<and> si_item s = NetworkInfo m1 \<and>
      mAllNetworkHandles m1 = mAllNetworkHandles m \<and> snd (snd (setIteminReport now d r)) \<noteq> []" (is "?E m1")
    if "m1 = (if r \<noteq> [] \<and> item_equals (si_item (last r)) (NetworkInfo m) then cur else m)" for m1
  proof (cases r rule: rev_cases)
    case Nil
    then show ?thesis using assms(3) that by (simp add: setIteminReport_def push_report_def maxItem_def stored_copy_def Let_def)
  next
    case (snoc r1 x)
    then have x: "si_item x = NetworkInfo cur" "collate (NetworkInfo cur) d = NetworkInfo m" using assms(2,3) by simp_all
    have t: "tl (r1 @ [y]) = (if r1 = [] then [] else tl r1 @ [y])" for y by (cases r1) simp_all
    show ?thesis
    proof (cases "item_equals (NetworkInfo cur) (NetworkInfo m)")
      case True
      then have "mAllNetworkHandles cur = mAllNetworkHandles m" by (simp add: item_equals_def network_equals_def)
      then show ?thesis using True x snoc that by (simp add: setIteminReport_def)
    next
      case False
      then show ?thesis using x snoc that by (cases r1) (simp_all add: setIteminReport_def push_report_def maxItem_def stored_copy_def Let_def)
    qed
  qed
  ultimately show ?thesis unfolding cached_network_def by force
qed

definition net_ev :: "nat \<times> net_event \<Rightarrow> nat \<times> data_item" where
  "net_ev e = (fst e, net_item (snd e))"

lemma ss_run_events_of: "ss_run pd evs i = ss_run pd (events_of i evs) i"
proof (induction evs rule: rev_induct)
  case (snoc e evs)
  show ?case
  proof (cases "report_of (snd e) = Some i")
    case True
    then show ?thesis using snoc by (simp add: events_of_def ss_event_here)
  next
    case False
    then show ?thesis using snoc by (simp add: events_of_def ss_event_other)
  qed
qed (simp add: events_of_def)

text \<open>How the cached item stands for a set of connections.\<close>

definition table_for :: "status_cache \<Rightarrow> net_handle set \<Rightarrow> bool" where
  "table_for cache S \<longleftrightarrow> (\<exists>m nets. cached_network cache = Some m \<and> table_of (mAllNetworkHandles m) nets \<and> set nets = S)"

lemma net_item_network:
  "\<exists>n. net_item e = NetworkInfo n \<and> mAllNetworkHandles n = ne_net e # replicate (MAX_NETWORK_HANDLES - 1) no_handle"
  by (simp add: net_item_def connection_item_def new_network_info_def MAX_NETWORK_HANDLES_def)

lemma table_of_first:
  "table_of (ne_net e # replicate (MAX_NETWORK_HANDLES - 1) no_handle) (if ne_handle e = NETWORK_HANDLE_UNKNOWN then [] else [ne_net e])"
  by (auto simp: table_of_def known_nets_def MAX_NETWORK_HANDLES_def no_handle_def)

lemma table_for_first:
  assumes "cache NETWORKINFO_DATA_ITEM_ID = []"
  shows "table_for (ss_event pd (now, net_item e) cache) (net_first e)"
proof -
  obtain n where n: "net_item e = NetworkInfo n" "mAllNetworkHandles n = ne_net e # replicate (MAX_NETWORK_HANDLES - 1) no_handle"
    using net_item_network by blast
  obtain m1 where "cached_network (ss_event pd (now, net_item e) cache) = Some m1" "mAllNetworkHandles m1 = mAllNetworkHandles n"
    using report_network [of cache "[]" undefined "net_item e" n n pd now] assms n(1) by auto
  then have "cached_network (ss_event pd (now, net_item e) cache) = Some m1"
    "table_of (mAllNetworkHandles m1) (if ne_handle e = NETWORK_HANDLE_UNKNOWN then [] else [ne_net e])"
    using table_of_first [of e] n(2) by simp_all
  moreover have "set (if ne_handle e = NETWORK_HANDLE_UNKNOWN then [] else [ne_net e]) = net_first e" by (simp add: net_first_def)
  ultimately show ?thesis unfolding table_for_def by blast
qed

lemma table_for_step:
  assumes "table_for cache S"
  shows "table_for (ss_event pd (now, net_item e) cache) (net_spec e S)"
proof -
  obtain cur nets where c: "cached_network cache = Some cur" "table_of (mAllNetworkHandles cur) nets" "set nets = S"
    using assms by (auto simp: table_for_def)
  obtain m nets1 where m: "collate (NetworkInfo cur) (net_item e) = NetworkInfo m" "table_of (mAllNetworkHandles m) nets1"
      "set nets1 = net_spec e (set nets)"
    using collate_table [OF c(2)] .
  obtain n where n: "net_item e = NetworkInfo n" using net_item_network by blast
  have l: "cache NETWORKINFO_DATA_ITEM_ID \<noteq> []" "si_item (last (cache NETWORKINFO_DATA_ITEM_ID)) = NetworkInfo cur"
    using c(1) by (auto simp: cached_network_def split: if_splits data_item.splits)
  then obtain m1 where "cached_network (ss_event pd (now, net_item e) cache) = Some m1" "mAllNetworkHandles m1 = mAllNetworkHandles m"
    using report_network [of cache _ cur "net_item e" m n pd now] m(1) n by auto
  then show ?thesis using m c(3) by (auto simp: table_for_def)
qed

text \<open>C19. Whatever is reported to the cache, of every type and with every handle, once a network has
  been reported the table of connected networks refines a set of connections: reporting a connection
  adds it, unless its handle is known already, is NETWORK_HANDLE_UNKNOWN, or ten are held; reporting its end removes
  it when its type is one of the ten known ones, and is without effect for the others (TYPE_UNKNOWN,
  which the Android interface passes for a type that it does not know: such a connection is never
  removed). The connections stay packed at the front of the table with distinct handles. The set
  starts with the network of the first report, whether that report says connected or not.
\<close>

theorem network_table_exact:
  assumes "events_of NETWORKINFO_DATA_ITEM_ID evs = map net_ev (e # es)"
  shows "table_for (ss_run setPeerData evs) (fold (net_spec \<circ> snd) es (net_first (snd e)))"
proof -
  have "table_for (ss_run setPeerData (map net_ev (e # es))) (fold (net_spec \<circ> snd) es (net_first (snd e)))"
  proof (induction es rule: rev_induct)
    case Nil
    then show ?case using table_for_first [of "\<lambda>i. []" setPeerData "fst e" "snd e"] by (simp add: ss_run_def net_ev_def)
  next
    case (snoc x es)
    then have "table_for (ss_event setPeerData (net_ev x) (ss_run setPeerData (map net_ev (e # es)))) (net_spec (snd x) (fold (net_spec \<circ> snd) es (net_first (snd e))))"
      unfolding net_ev_def [of x] by (intro table_for_step)
    moreover have "ss_run setPeerData (map net_ev (e # es @ [x])) = ss_event setPeerData (net_ev x) (ss_run setPeerData (map net_ev (e # es)))"
      using ss_run_snoc [of setPeerData "map net_ev (e # es)" "net_ev x"] by simp
    ultimately show ?case by (simp add: comp_def)
  qed
  moreover have "cached_network (ss_run setPeerData evs) = cached_network (ss_run setPeerData (map net_ev (e # es)))"
    using ss_run_events_of [of setPeerData evs NETWORKINFO_DATA_ITEM_ID] assms by (simp add: cached_network_def)
  ultimately show ?thesis unfolding table_for_def by simp
qed

definition net_example :: "bool \<Rightarrow> 8 word \<Rightarrow> u64 \<Rightarrow> nat \<times> net_event" where
  "net_example c t h = (0, \<lparr>ne_connected = c, ne_type = t, ne_handle = h, ne_roaming = False, ne_apn = []\<rparr>)"

theorem network_table_exact_witness:
  "table_for (ss_run id (map net_ev [net_example True 1 7, net_example True 0 8, net_example True 10 9,
     net_example False 1 7, net_example False 10 9])) {(8, TYPE_MOBILE), (9, TYPE_UNKNOWN)}"
proof -
  let ?e = "net_example True 1 7"
    and ?es = "[net_example True 0 8, net_example True 10 9, net_example False 1 7, net_example False 10 9]"
  have "events_of NETWORKINFO_DATA_ITEM_ID (map net_ev (?e # ?es)) = map net_ev (?e # ?es)"
    by (simp add: events_of_def net_ev_def net_item_def connection_item_def report_of_def)
  moreover have "fold (net_spec \<circ> snd) ?es (net_first (snd ?e)) = {(8, TYPE_MOBILE), (9, TYPE_UNKNOWN)}"
    by (auto simp: net_example_def net_spec_def net_first_def MAX_NETWORK_HANDLES_def NETWORK_HANDLE_UNKNOWN_def TYPE_MOBILE_def TYPE_UNKNOWN_def)
  ultimately show ?thesis using network_table_exact [of "map net_ev (?e # ?es)" ?e ?es id] by simp
qed

text \<open>Ten networks of an unknown type that have come and gone fill the table for good.\<close>

definition unknown_visits :: "(nat \<times> net_event) list" where
  "unknown_visits = concat (map (\<lambda>n. [net_example True 10 (word_of_nat n), net_example False 10 (word_of_nat n)]) [0..<10])"

lemma unknown_networks_stay:
  "(case cached_network (ss_run id (map net_ev (unknown_visits @ [net_example True 0 77]))) of
      Some m \<Rightarrow> map fst (mAllNetworkHandles m) | None \<Rightarrow> []) = map word_of_nat [0..<10]"
  by code_simp

text \<open>
  The mask of the types: when a network ends while another one of its type is still connected, the
  mask that is reported has the bit of that type only; the types of the other networks are lost.
\<close>

lemma network_types_lost:
  assumes "table_of (mAllNetworkHandles cur) nets" "\<not> mConnected s" "mAllTypes s \<noteq> 0"
    "(h, mType s) \<in> set nets" "h \<noteq> mNetworkHandle s"
  shows "mAllTypes (collate_network cur s) = mAllTypes s"
proof -
  have "filter (\<lambda>x. snd x = mType s \<and> x \<noteq> (mNetworkHandle s, mType s)) nets \<noteq> []"
    using assms(4,5) by (force simp: filter_empty_conv)
  moreover obtain c hs where r: "remove_handle (mNetworkHandle s) (mType s) (mAllNetworkHandles cur) = (c, hs)"
    by (cases "remove_handle (mNetworkHandle s) (mType s) (mAllNetworkHandles cur)")
  ultimately have "c \<noteq> 0" using remove_handle_table [OF assms(1), of "mNetworkHandle s" "mType s"] by auto
  with r show ?thesis using assms(2,3) by (simp add: collate_network_def Let_def)
qed

end
