(* ===== verification/Loc_Set_Map.thy ===== *)
theory Loc_Set_Map
  imports Loc_Map
begin

text \<open>
  The map from keys to sets of values in utils/LocUnorderedSetMap.h, with the loops over its
  unordered sets. A loop takes the elements in ascending order; the laws show that its result does
  not depend on the order. A locale states what the users of such a map rely on, in terms of the
  pairs that it holds; it is interpreted on the operations. None is undefined behaviour: the loop
  that takes the common elements out of two sets goes on from an element it has erased.
\<close>

section \<open>Operations\<close>

type_synonym ('k, 'v) set_map = "('k, 'v set) omap"

text \<open>Each loop returns the set that is left and the elements that were taken out of it.\<close>

fun trim_loop :: "'v list \<Rightarrow> 'v set \<Rightarrow> 'v set \<Rightarrow> 'v set \<times> 'v set" where
  "trim_loop [] fromSet goneVals = (fromSet, goneVals)"
| "trim_loop (val # vals) fromSet goneVals =
     (if val \<in> fromSet then trim_loop vals (fromSet - {val}) (insert val goneVals) else trim_loop vals fromSet goneVals)"

definition trimSet :: "'v::linorder set \<Rightarrow> 'v set \<Rightarrow> 'v set \<Rightarrow> 'v set \<times> 'v set" where
  "trimSet fromSet rVals goneVals = trim_loop (sorted_list_of_set rVals) fromSet goneVals"

text \<open>The common elements and what is left of both sets.\<close>

fun interset_loop :: "'v list \<Rightarrow> 'v set \<Rightarrow> 'v set \<Rightarrow> ('v set \<times> 'v set \<times> 'v set) option" where
  "interset_loop [] s1 s2 = Some ({}, s1, s2)"
| "interset_loop (b # bs) s1 s2 = (if b \<in> s1 then None else interset_loop bs s1 s2)"

definition removeAndReturnInterset :: "'v::linorder set \<Rightarrow> 'v set \<Rightarrow> ('v set \<times> 'v set \<times> 'v set) option" where
  "removeAndReturnInterset s1 s2 = interset_loop (sorted_list_of_set s2) s1 s2"

definition getValSet :: "'k \<Rightarrow> ('k, 'v) set_map \<Rightarrow> 'v set" where
  "getValSet key m = (case om_find m key of None \<Rightarrow> {} | Some s \<Rightarrow> s)"

definition getKeys :: "('k, 'v) set_map \<Rightarrow> 'k set" where
  "getKeys m = set (map fst m)"

definition sm_remove :: "'k \<Rightarrow> ('k, 'v) set_map \<Rightarrow> bool \<times> ('k, 'v) set_map" where
  "sm_remove key m = (om_find m key \<noteq> None, om_erase key m)"

text \<open>The private \<open>trimOrRemove\<close>, on the entry of a key with its set.\<close>

definition trim_entry :: "'k::linorder \<Rightarrow> 'v::linorder set \<Rightarrow> 'v set \<Rightarrow> 'v set \<Rightarrow> ('k, 'v) set_map \<Rightarrow>
    bool \<times> 'v set \<times> ('k, 'v) set_map" where
  "trim_entry key s rVals goneVals m =
     (let (s1, gone) = trimSet s rVals goneVals
      in if s1 = {} then (True, gone, om_erase key m) else (False, gone, om_put key s1 m))"

fun trim_keys :: "'k::linorder list \<Rightarrow> 'v::linorder set \<Rightarrow> 'k set \<Rightarrow> 'v set \<Rightarrow> ('k, 'v) set_map \<Rightarrow>
    'k set \<times> 'v set \<times> ('k, 'v) set_map" where
  "trim_keys [] rVals goneKeys goneVals m = (goneKeys, goneVals, m)"
| "trim_keys (key # ks) rVals goneKeys goneVals m =
     (case om_find m key of
        None \<Rightarrow> trim_keys ks rVals goneKeys goneVals m
      | Some s \<Rightarrow>
          (case trim_entry key s rVals goneVals m of
             (removed, gone, m1) \<Rightarrow> trim_keys ks rVals (if removed then insert key goneKeys else goneKeys) gone m1))"

definition trimOrRemove :: "'k::linorder set \<Rightarrow> 'v::linorder set \<Rightarrow> ('k, 'v) set_map \<Rightarrow> 'k set \<times> 'v set \<times> ('k, 'v) set_map" where
  "trimOrRemove keys rVals m = trim_keys (sorted_list_of_set keys) rVals {} {} m"

definition sm_add1 :: "'k::linorder \<Rightarrow> 'v set \<Rightarrow> ('k, 'v) set_map \<Rightarrow> bool \<times> ('k, 'v) set_map" where
  "sm_add1 key newVals m =
     (if newVals = {} then (False, m)
      else case om_find m key of
             Some s \<Rightarrow> (False, om_put key (s \<union> newVals) m)
           | None \<Rightarrow> (True, om_put key newVals m))"

fun add_keys :: "'k::linorder list \<Rightarrow> 'v set \<Rightarrow> 'k set \<Rightarrow> ('k, 'v) set_map \<Rightarrow> 'k set \<times> ('k, 'v) set_map" where
  "add_keys [] newVals newKeys m = (newKeys, m)"
| "add_keys (key # ks) newVals newKeys m =
     (case sm_add1 key newVals m of (new, m1) \<Rightarrow> add_keys ks newVals (if new then insert key newKeys else newKeys) m1)"

definition sm_add :: "'k::linorder set \<Rightarrow> 'v set \<Rightarrow> ('k, 'v) set_map \<Rightarrow> 'k set \<times> ('k, 'v) set_map" where
  "sm_add keys newVals m = add_keys (sorted_list_of_set keys) newVals {} m"

text \<open>\<open>update\<close> returns what it calls the values that are gone, the new values that are left, and the map.\<close>

definition sm_update :: "'k::linorder \<Rightarrow> 'v::linorder set \<Rightarrow> ('k, 'v) set_map \<Rightarrow> ('v set \<times> 'v set \<times> ('k, 'v) set_map) option" where
  "sm_update key newVals m =
     (if newVals = {} then Some ({}, newVals, om_erase key m)
      else map_option (\<lambda>(common, curVals, newVals1). (common, newVals1, om_put key newVals m))
             (removeAndReturnInterset (getValSet key m) newVals))"

section \<open>What the loops compute\<close>

lemma trim_loop_eq: "trim_loop vs s g = (s - set vs, g \<union> (s \<inter> set vs))"
  by (induction vs arbitrary: s g) auto

lemma trimSet_eq: "finite r \<Longrightarrow> trimSet s r g = (s - r, g \<union> (s \<inter> r))"
  by (simp add: trimSet_def trim_loop_eq)

lemma interset_loop_eq: "interset_loop bs s1 s2 = (if s1 \<inter> set bs = {} then Some ({}, s1, s2) else None)"
  by (induction bs) auto

lemma interset_eq: "finite s2 \<Longrightarrow> removeAndReturnInterset s1 s2 = (if s1 \<inter> s2 = {} then Some ({}, s1, s2) else None)"
  by (simp add: removeAndReturnInterset_def interset_loop_eq)

section \<open>The contract\<close>

text \<open>
  The pairs of a map are what its users care about; no key has an empty set. Adding and trimming
  also say which keys are new and which are gone.
\<close>

locale relation_map =
  fixes ok :: "'m \<Rightarrow> bool"
    and pairs :: "'m \<Rightarrow> ('k \<times> 'v) set"
    and get_vals :: "'k \<Rightarrow> 'm \<Rightarrow> 'v set"
    and get_keys :: "'m \<Rightarrow> 'k set"
    and add :: "'k set \<Rightarrow> 'v set \<Rightarrow> 'm \<Rightarrow> 'k set \<times> 'm"
    and trim :: "'k set \<Rightarrow> 'v set \<Rightarrow> 'm \<Rightarrow> 'k set \<times> 'v set \<times> 'm"
    and remove :: "'k \<Rightarrow> 'm \<Rightarrow> bool \<times> 'm"
  assumes get_vals_eq: "ok m \<Longrightarrow> get_vals k m = {v. (k, v) \<in> pairs m}"
    and get_keys_eq: "ok m \<Longrightarrow> get_keys m = Domain (pairs m)"
    and finite_pairs: "ok m \<Longrightarrow> finite (pairs m)"
    and add_law: "ok m \<Longrightarrow> finite ks \<Longrightarrow> finite vs \<Longrightarrow>
      ok (snd (add ks vs m)) \<and> pairs (snd (add ks vs m)) = pairs m \<union> ks \<times> vs \<and>
      fst (add ks vs m) = (if vs = {} then {} else ks - Domain (pairs m))"
    and trim_law: "ok m \<Longrightarrow> finite ks \<Longrightarrow> finite vs \<Longrightarrow>
      ok (snd (snd (trim ks vs m))) \<and> pairs (snd (snd (trim ks vs m))) = pairs m - ks \<times> vs \<and>
      fst (trim ks vs m) = ks \<inter> Domain (pairs m) - Domain (pairs m - ks \<times> vs) \<and>
      fst (snd (trim ks vs m)) = Range (pairs m \<inter> ks \<times> vs)"
    and remove_law: "ok m \<Longrightarrow> ok (snd (remove k m)) \<and> pairs (snd (remove k m)) = pairs m - {k} \<times> UNIV \<and>
      fst (remove k m) = (k \<in> Domain (pairs m))"
begin

lemma finite_vals: "ok m \<Longrightarrow> finite (get_vals k m)"
proof -
  assume m: "ok m"
  then have "{v. (k, v) \<in> pairs m} \<subseteq> snd ` pairs m" by force
  with m show ?thesis by (simp add: get_vals_eq finite_subset finite_pairs)
qed

text \<open>Keys that are gone are no keys any more, and the other keys stay.\<close>

lemma trim_keys_left:
  assumes "ok m" "finite ks" "finite vs"
  shows "Domain (pairs (snd (snd (trim ks vs m)))) = Domain (pairs m) - fst (trim ks vs m)"
  using trim_law [OF assms] by auto

lemma add_keys_all:
  assumes "ok m" "finite ks" "finite vs"
  shows "Domain (pairs (snd (add ks vs m))) = Domain (pairs m) \<union> fst (add ks vs m)"
  using add_law [OF assms] by auto

end

section \<open>The operations keep the contract\<close>

definition pairs :: "('k, 'v) set_map \<Rightarrow> ('k \<times> 'v) set" where
  "pairs m = {(k, v). \<exists>s. om_find m k = Some s \<and> v \<in> s}"

definition sm_ok :: "('k::linorder, 'v) set_map \<Rightarrow> bool" where
  "sm_ok m \<longleftrightarrow> om_ok m \<and> (\<forall>k s. om_find m k = Some s \<longrightarrow> finite s \<and> s \<noteq> {})"

lemma sm_ok_om [simp]: "sm_ok m \<Longrightarrow> om_ok m"
  by (simp add: sm_ok_def)

lemma pairs_put: "pairs (om_put k s m) = (pairs m - {k} \<times> UNIV) \<union> {k} \<times> s"
  by (auto simp: pairs_def split: if_splits)

lemma pairs_erase: "om_ok m \<Longrightarrow> pairs (om_erase k m) = pairs m - {k} \<times> UNIV"
  by (auto simp: pairs_def split: if_splits)

lemma sm_ok_put: "sm_ok m \<Longrightarrow> finite s \<Longrightarrow> s \<noteq> {} \<Longrightarrow> sm_ok (om_put k s m)"
  by (simp add: sm_ok_def)

lemma sm_ok_erase: "sm_ok m \<Longrightarrow> sm_ok (om_erase k m)"
  by (simp add: sm_ok_def)

lemma getValSet_eq: "getValSet k m = {v. (k, v) \<in> pairs m}"
  by (auto simp: getValSet_def pairs_def split: option.splits)

lemma find_pairs: "om_find m k = Some s \<Longrightarrow> {k} \<times> s = pairs m \<inter> {k} \<times> UNIV"
  by (auto simp: pairs_def)

lemma find_Domain: "sm_ok m \<Longrightarrow> k \<in> Domain (pairs m) \<longleftrightarrow> om_find m k \<noteq> None"
  by (fastforce simp: sm_ok_def pairs_def)

lemma getKeys_eq: "sm_ok m \<Longrightarrow> getKeys m = Domain (pairs m)"
  by (auto simp: getKeys_def find_Domain map_of_eq_None_iff image_iff set_eq_iff)

lemma finite_sm_pairs: "sm_ok m \<Longrightarrow> finite (pairs m)"
proof -
  assume ok: "sm_ok m"
  have "pairs m \<subseteq> Sigma (getKeys m) (\<lambda>k. getValSet k m)"
    using getKeys_eq [OF ok] by (auto simp: getValSet_eq)
  moreover have "finite (Sigma (getKeys m) (\<lambda>k. getValSet k m))"
    using ok by (intro finite_SigmaI) (auto simp: getKeys_def getValSet_def sm_ok_def split: option.splits)
  ultimately show ?thesis by (rule finite_subset)
qed

lemma trim_entry_ok:
  assumes "sm_ok m" "om_find m k = Some s" "finite r" "trim_entry k s r g m = (removed, g1, m1)"
  shows "sm_ok m1" "pairs m1 = pairs m - {k} \<times> r" "g1 = g \<union> Range (pairs m \<inter> {k} \<times> r)"
    "removed \<longleftrightarrow> k \<notin> Domain (pairs m - {k} \<times> r)"
proof -
  note p = find_pairs [OF assms(2)]
  have s: "finite s" using assms(1,2) by (simp add: sm_ok_def)
  have e: "trim_entry k s r g m = (if s - r = {} then (True, g \<union> (s \<inter> r), om_erase k m) else (False, g \<union> (s \<inter> r), om_put k (s - r) m))"
    using assms(3) by (simp add: trim_entry_def trimSet_eq)
  have mem: "(k, v) \<in> pairs m \<longleftrightarrow> v \<in> s" for v using assms(2) by (simp add: pairs_def)
  show "sm_ok m1" using assms(1,4) s by (auto simp: e sm_ok_erase intro!: sm_ok_put split: if_splits)
  show "pairs m1 = pairs m - {k} \<times> r" using assms(1,4) mem by (auto simp: e pairs_put pairs_erase split: if_splits)
  show "g1 = g \<union> Range (pairs m \<inter> {k} \<times> r)" using assms(4) mem by (auto simp: e split: if_splits)
  show "removed \<longleftrightarrow> k \<notin> Domain (pairs m - {k} \<times> r)" using assms(4) mem by (auto simp: e split: if_splits)
qed

lemma trim_keys_ok:
  assumes "sm_ok m" "finite r" "distinct ks" "trim_keys ks r gk gv m = (gk1, gv1, m1)"
  shows "sm_ok m1 \<and> pairs m1 = pairs m - set ks \<times> r \<and>
    gk1 = gk \<union> (set ks \<inter> Domain (pairs m) - Domain (pairs m - set ks \<times> r)) \<and>
    gv1 = gv \<union> Range (pairs m \<inter> set ks \<times> r)"
  using assms
proof (induction ks arbitrary: gk gv m)
  case (Cons k ks)
  show ?case
  proof (cases "om_find m k")
    case None
    then have "(k, v) \<notin> pairs m" for v by (simp add: pairs_def)
    with Cons.IH [OF Cons.prems(1,2), of gk gv] Cons.prems(3,4) None show ?thesis by auto
  next
    case (Some s)
    obtain b g m2 where t: "trim_entry k s r gv m = (b, g, m2)" by (cases "trim_entry k s r gv m")
    note e = trim_entry_ok [OF Cons.prems(1) Some Cons.prems(2) t]
    have k: "k \<in> Domain (pairs m)" using find_Domain [OF Cons.prems(1)] Some by simp
    from Cons.IH [OF e(1) Cons.prems(2), of "if b then insert k gk else gk" g] Cons.prems(3,4) Some t
    have "sm_ok m1" and p: "pairs m1 = pairs m2 - set ks \<times> r"
      and gk: "gk1 = (if b then insert k gk else gk) \<union> (set ks \<inter> Domain (pairs m2) - Domain (pairs m2 - set ks \<times> r))"
      and gv: "gv1 = g \<union> Range (pairs m2 \<inter> set ks \<times> r)" by simp_all
    moreover have "gk1 = gk \<union> (set (k # ks) \<inter> Domain (pairs m) - Domain (pairs m - set (k # ks) \<times> r))"
      unfolding gk e(2) using e(4) k Cons.prems(3) by (auto 0 3)
    moreover have "gv1 = gv \<union> Range (pairs m \<inter> set (k # ks) \<times> r)" unfolding gv e(2,3) by auto
    ultimately show ?thesis using e(2) by auto
  qed
qed auto

lemma trimOrRemove_ok:
  assumes "sm_ok m" "finite ks" "finite r"
  shows "sm_ok (snd (snd (trimOrRemove ks r m)))" "pairs (snd (snd (trimOrRemove ks r m))) = pairs m - ks \<times> r"
    "fst (trimOrRemove ks r m) = ks \<inter> Domain (pairs m) - Domain (pairs m - ks \<times> r)"
    "fst (snd (trimOrRemove ks r m)) = Range (pairs m \<inter> ks \<times> r)"
  using trim_keys_ok [OF assms(1,3), of "sorted_list_of_set ks" "{}" "{}"] assms(2)
  by (simp_all add: trimOrRemove_def prod_eq_iff)

lemma sm_add1_ok:
  assumes "sm_ok m" "finite vs" "sm_add1 k vs m = (new, m1)"
  shows "sm_ok m1" "pairs m1 = pairs m \<union> {k} \<times> vs" "new \<longleftrightarrow> vs \<noteq> {} \<and> k \<notin> Domain (pairs m)"
proof -
  have mem: "(k, v) \<in> pairs m \<longleftrightarrow> v \<in> getValSet k m" for v by (simp add: getValSet_eq)
  have "finite s \<and> s \<noteq> {}" if "om_find m k = Some s" for s using assms(1) that by (auto simp: sm_ok_def)
  then show "sm_ok m1" using assms by (auto simp: sm_add1_def intro!: sm_ok_put split: if_splits option.splits)
  show "pairs m1 = pairs m \<union> {k} \<times> vs"
    using assms mem by (auto simp: sm_add1_def pairs_put getValSet_def split: if_splits option.splits)
  show "new \<longleftrightarrow> vs \<noteq> {} \<and> k \<notin> Domain (pairs m)"
    using assms find_Domain [OF assms(1), of k] by (auto simp: sm_add1_def split: if_splits option.splits)
qed

lemma add_keys_ok:
  assumes "sm_ok m" "finite vs" "distinct ks" "add_keys ks vs nk m = (nk1, m1)"
  shows "sm_ok m1 \<and> pairs m1 = pairs m \<union> set ks \<times> vs \<and> nk1 = nk \<union> (if vs = {} then {} else set ks - Domain (pairs m))"
  using assms
proof (induction ks arbitrary: nk m)
  case (Cons k ks)
  obtain b m2 where a: "sm_add1 k vs m = (b, m2)" by (cases "sm_add1 k vs m")
  note e = sm_add1_ok [OF Cons.prems(1,2) a]
  from Cons.IH [OF e(1) Cons.prems(2), of "if b then insert k nk else nk"] Cons.prems(3,4) a
  have "sm_ok m1" "pairs m1 = pairs m2 \<union> set ks \<times> vs"
    and nk: "nk1 = (if b then insert k nk else nk) \<union> (if vs = {} then {} else set ks - Domain (pairs m2))" by simp_all
  moreover have "nk1 = nk \<union> (if vs = {} then {} else set (k # ks) - Domain (pairs m))"
    unfolding nk using e(2,3) Cons.prems(3) by auto
  ultimately show ?case using e(2) by auto
qed auto

lemma sm_add_ok:
  assumes "sm_ok m" "finite ks" "finite vs"
  shows "sm_ok (snd (sm_add ks vs m))" "pairs (snd (sm_add ks vs m)) = pairs m \<union> ks \<times> vs"
    "fst (sm_add ks vs m) = (if vs = {} then {} else ks - Domain (pairs m))"
  using add_keys_ok [OF assms(1,3), of "sorted_list_of_set ks" "{}"] assms(2) by (simp_all add: sm_add_def prod_eq_iff)

interpretation sm: relation_map
    "sm_ok :: ('k::linorder, 'v::linorder) set_map \<Rightarrow> bool" pairs getValSet getKeys sm_add trimOrRemove sm_remove
  by unfold_locales
    (auto simp: getValSet_eq getKeys_eq finite_sm_pairs sm_add_ok trimOrRemove_ok sm_remove_def sm_ok_erase pairs_erase find_Domain)

text \<open>Adding to one key.\<close>

lemma sm_add1_pairs:
  "sm_ok m \<Longrightarrow> finite vs \<Longrightarrow> sm_ok (snd (sm_add1 k vs m)) \<and> pairs (snd (sm_add1 k vs m)) = pairs m \<union> {k} \<times> vs"
  using sm_add1_ok by (metis prod.collapse)

text \<open>
  Updating a key is defined only when none of its values stays; what it returns as gone is then
  nothing, though all old values are.
\<close>

lemma sm_update_eq:
  assumes "finite vs"
  shows "sm_update k vs m =
    (if vs = {} then Some ({}, {}, om_erase k m)
     else if getValSet k m \<inter> vs = {} then Some ({}, vs, om_put k vs m) else None)"
  using assms by (simp add: sm_update_def interset_eq)

end
