(* ===== verification/Os_Observer.thy ===== *)
theory Os_Observer
  imports Loc_Set_Map System_Status
begin

text \<open>
  The observer of core/SystemStatusOsObserver.cpp: clients subscribe to data items, the framework
  reports them, and the observer passes them on. Its API sends messages to a message thread, which
  handles them one after the other; a run is a sequence of API calls and of handled messages, with
  the calls that the observer makes. The concrete data items are made and copied by a library that
  is loaded at run time. None is undefined behaviour: an update that erases while it iterates, or a
  reference count that overflows.
\<close>

section \<open>State\<close>

record item_lib =
  lib_create :: "item_id \<Rightarrow> data_item option"
  lib_copy :: "data_item \<Rightarrow> data_item \<Rightarrow> data_item \<times> bool"
  lib_peer :: "ptr \<Rightarrow> ptr"

datatype os_msg =
    SetSubsObj addr
  | HandleSubscribeReq "item_id list" addr bool
  | HandleUpdateSubscriptionReq "item_id list" addr
  | HandleUnsubscribeReq "item_id list" addr
  | HandleUnsubscribeAllReq addr
  | HandleNotify "data_item option list"
  | HandleTurnOnMsg addr item_id int
  | HandleTurnOffMsg addr item_id
  | HandleConnectBackhaul addr string
  | HandleDisconnectBackhaul addr string

datatype os_call =
    FwSubscribe addr "item_id list"
  | FwRequestData addr "item_id list"
  | FwUnsubscribe addr "item_id list"
  | ClientNotify addr "data_item list"
  | FwTurnOn addr item_id int
  | FwTurnOff addr item_id
  | FwConnectBackhaul addr string
  | FwDisconnectBackhaul addr string

record os_observer =
  mSubscriptionObj :: ptr
  mFrameworkActionReqObj :: ptr
  mClientToDataItems :: "(addr, item_id) set_map"
  mDataItemToClients :: "(item_id, addr) set_map"
  mDataItemCache :: "(item_id, data_item) omap"
  mActiveRequestCount :: "(item_id, int) omap"
  mBackHaulConnReqCache :: "string list"
  mSystemStatus :: status_cache
  os_queue :: "os_msg list"

definition new_os_observer :: os_observer where
  "new_os_observer = \<lparr>mSubscriptionObj = None, mFrameworkActionReqObj = None, mClientToDataItems = [], mDataItemToClients = [],
     mDataItemCache = [], mActiveRequestCount = [], mBackHaulConnReqCache = [], mSystemStatus = (\<lambda>i. []), os_queue = []\<rparr>"

definition os_sendMsg :: "os_msg \<Rightarrow> os_observer \<Rightarrow> os_observer" where
  "os_sendMsg msg s = s\<lparr>os_queue := os_queue s @ [msg]\<rparr>"

section \<open>Helpers\<close>

text \<open>A set is transferred to a list by inserting each element at the front.\<close>

definition containerTransfer :: "'a::linorder set \<Rightarrow> 'a list" where
  "containerTransfer s = rev (sorted_list_of_set s)"

definition cached_items :: "item_id set \<Rightarrow> (item_id, data_item) omap \<Rightarrow> data_item list" where
  "cached_items s cache = rev (List.map_filter (om_find cache) (sorted_list_of_set s))"

definition sendCachedDataItems :: "item_id set \<Rightarrow> addr \<Rightarrow> os_observer \<Rightarrow> os_call list" where
  "sendCachedDataItems s to st =
     (let dataItems = cached_items s (mDataItemCache st) in if dataItems = [] then [] else [ClientNotify to dataItems])"

text \<open>
  \<open>updateCache\<close>: the system status decides whether to record the item, and may change the network
  item that it is given.
\<close>

definition updateCache :: "item_lib \<Rightarrow> nat \<Rightarrow> data_item option \<Rightarrow> os_observer \<Rightarrow> (bool \<times> os_observer)" where
  "updateCache lib now d st =
     (case d of
        None \<Rightarrow> (False, st)
      | Some d0 \<Rightarrow>
          (case eventDataItemNotify (lib_peer lib) now d0 (mSystemStatus st) of
             (ret, d1, status) \<Rightarrow>
               (let st1 = st\<lparr>mSystemStatus := status\<rparr> in
                if ret
                then (case om_find (mDataItemCache st) (getId d1) of
                        None \<Rightarrow>
                          (case lib_create lib (getId d1) of
                             None \<Rightarrow> (False, st1)
                           | Some dataitem \<Rightarrow>
                               (True, st1\<lparr>mDataItemCache := om_put (getId d1) (fst (lib_copy lib dataitem d1)) (mDataItemCache st)\<rparr>))
                      | Some cached \<Rightarrow>
                          (case lib_copy lib cached d1 of
                             (dst, updated) \<Rightarrow> (updated, st1\<lparr>mDataItemCache := om_put (getId d1) dst (mDataItemCache st)\<rparr>)))
                else (False, st1))))"

fun update_items :: "item_lib \<Rightarrow> nat \<Rightarrow> data_item option list \<Rightarrow> item_id set \<Rightarrow> os_observer \<Rightarrow> item_id set \<times> os_observer" where
  "update_items lib now [] ids st = (ids, st)"
| "update_items lib now (item # items) ids st =
     (case updateCache lib now item st of
        (updated, st1) \<Rightarrow>
          update_items lib now items (if updated then (case item of None \<Rightarrow> ids | Some d \<Rightarrow> insert (getId d) ids) else ids) st1)"

section \<open>Handling a message\<close>

definition fw_calls :: "ptr \<Rightarrow> (addr \<Rightarrow> item_id list \<Rightarrow> os_call) \<Rightarrow> item_id set \<Rightarrow> os_call list" where
  "fw_calls obj call ids = (case obj of None \<Rightarrow> [] | Some p \<Rightarrow> if ids = {} then [] else [call p (containerTransfer ids)])"

definition proc_SetSubsObj :: "addr \<Rightarrow> os_observer \<Rightarrow> os_observer \<times> os_call list" where
  "proc_SetSubsObj p st =
     (st\<lparr>mSubscriptionObj := Some p\<rparr>,
      if mDataItemToClients st \<noteq> []
      then (let dis = containerTransfer (getKeys (mDataItemToClients st)) in [FwSubscribe p dis, FwRequestData p dis]) else [])"

definition proc_SubscribeReq :: "item_id list \<Rightarrow> addr \<Rightarrow> bool \<Rightarrow> os_observer \<Rightarrow> os_observer \<times> os_call list" where
  "proc_SubscribeReq l client toRequestData st =
     (let dis = set l;
          (toSubscribe, d2c) = sm_add dis {client} (mDataItemToClients st);
          c2d = snd (sm_add1 client dis (mClientToDataItems st));
          st1 = st\<lparr>mDataItemToClients := d2c, mClientToDataItems := c2d\<rparr>
      in (st1, sendCachedDataItems dis client st1 @
          (if toRequestData then (case mSubscriptionObj st of None \<Rightarrow> [] | Some p \<Rightarrow> [FwRequestData p l])
           else fw_calls (mSubscriptionObj st) FwSubscribe toSubscribe)))"

definition proc_UpdateSubscriptionReq :: "item_id list \<Rightarrow> addr \<Rightarrow> os_observer \<Rightarrow> (os_observer \<times> os_call list) option" where
  "proc_UpdateSubscriptionReq l client st =
     map_option (\<lambda>(gone, dis, c2d).
         (let (toUnsubscribe, _, d2c) = trimOrRemove gone {client} (mDataItemToClients st);
              (toSubscribe, d2c1) = sm_add dis {client} d2c;
              st1 = st\<lparr>mDataItemToClients := d2c1, mClientToDataItems := c2d\<rparr>
          in (st1, sendCachedDataItems dis client st1 @
              fw_calls (mSubscriptionObj st) FwSubscribe toSubscribe @ fw_calls (mSubscriptionObj st) FwUnsubscribe toUnsubscribe)))
       (sm_update client (set l) (mClientToDataItems st))"

definition proc_UnsubscribeReq :: "item_id list \<Rightarrow> addr \<Rightarrow> os_observer \<Rightarrow> os_observer \<times> os_call list" where
  "proc_UnsubscribeReq l client st =
     (let (_, unused, c2d) = trimOrRemove {client} (set l) (mClientToDataItems st);
          (toUnsubscribe, _, d2c) = trimOrRemove unused {client} (mDataItemToClients st)
      in (st\<lparr>mClientToDataItems := c2d, mDataItemToClients := d2c\<rparr>, fw_calls (mSubscriptionObj st) FwUnsubscribe toUnsubscribe))"

definition proc_UnsubscribeAllReq :: "addr \<Rightarrow> os_observer \<Rightarrow> os_observer \<times> os_call list" where
  "proc_UnsubscribeAllReq client st =
     (let diByClient = getValSet client (mClientToDataItems st) in
      if diByClient \<noteq> {}
      then (let c2d = snd (sm_remove client (mClientToDataItems st));
                (toUnsubscribe, _, d2c) = trimOrRemove diByClient {client} (mDataItemToClients st)
            in (st\<lparr>mClientToDataItems := c2d, mDataItemToClients := d2c\<rparr>, fw_calls (mSubscriptionObj st) FwUnsubscribe toUnsubscribe))
      else (st, []))"

definition clients_of :: "item_id set \<Rightarrow> os_observer \<Rightarrow> addr set" where
  "clients_of ids st = (\<Union>i \<in> ids. getValSet i (mDataItemToClients st))"

definition proc_Notify :: "item_lib \<Rightarrow> nat \<Rightarrow> data_item option list \<Rightarrow> os_observer \<Rightarrow> os_observer \<times> os_call list" where
  "proc_Notify lib now items st =
     (let (ids, st1) = update_items lib now items {} st
      in (st1, concat (map (\<lambda>client. sendCachedDataItems (Set.filter (\<lambda>i. i \<in> ids) (getValSet client (mClientToDataItems st1))) client st1)
                  (sorted_list_of_set (clients_of ids st1)))))"

definition os_proc :: "item_lib \<Rightarrow> nat \<Rightarrow> os_msg \<Rightarrow> os_observer \<Rightarrow> (os_observer \<times> os_call list) option" where
  "os_proc lib now msg st =
     (case msg of
        SetSubsObj p \<Rightarrow> Some (proc_SetSubsObj p st)
      | HandleSubscribeReq l client req \<Rightarrow> Some (proc_SubscribeReq l client req st)
      | HandleUpdateSubscriptionReq l client \<Rightarrow> proc_UpdateSubscriptionReq l client st
      | HandleUnsubscribeReq l client \<Rightarrow> Some (proc_UnsubscribeReq l client st)
      | HandleUnsubscribeAllReq client \<Rightarrow> Some (proc_UnsubscribeAllReq client st)
      | HandleNotify items \<Rightarrow> Some (proc_Notify lib now items st)
      | HandleTurnOnMsg p dit timeOut \<Rightarrow> Some (st, [FwTurnOn p dit timeOut])
      | HandleTurnOffMsg p dit \<Rightarrow> Some (st, [FwTurnOff p dit])
      | HandleConnectBackhaul p name \<Rightarrow> Some (st, [FwConnectBackhaul p name])
      | HandleDisconnectBackhaul p name \<Rightarrow> Some (st, [FwDisconnectBackhaul p name]))"

section \<open>The API\<close>

definition setSubscriptionObj :: "ptr \<Rightarrow> os_observer \<Rightarrow> os_observer" where
  "setSubscriptionObj obj st = (case obj of None \<Rightarrow> st | Some p \<Rightarrow> os_sendMsg (SetSubsObj p) st)"

definition os_subscribe :: "item_id list \<Rightarrow> ptr \<Rightarrow> bool \<Rightarrow> os_observer \<Rightarrow> os_observer" where
  "os_subscribe l client toRequestData st =
     (case client of None \<Rightarrow> st | Some c \<Rightarrow> if l = [] then st else os_sendMsg (HandleSubscribeReq l c toRequestData) st)"

definition updateSubscription :: "item_id list \<Rightarrow> ptr \<Rightarrow> os_observer \<Rightarrow> os_observer" where
  "updateSubscription l client st =
     (case client of None \<Rightarrow> st | Some c \<Rightarrow> if l = [] then st else os_sendMsg (HandleUpdateSubscriptionReq l c) st)"

definition os_unsubscribe :: "item_id list \<Rightarrow> ptr \<Rightarrow> os_observer \<Rightarrow> os_observer" where
  "os_unsubscribe l client st =
     (case client of None \<Rightarrow> st | Some c \<Rightarrow> if l = [] then st else os_sendMsg (HandleUnsubscribeReq l c) st)"

definition unsubscribeAll :: "ptr \<Rightarrow> os_observer \<Rightarrow> os_observer" where
  "unsubscribeAll client st = (case client of None \<Rightarrow> st | Some c \<Rightarrow> os_sendMsg (HandleUnsubscribeAllReq c) st)"

text \<open>The vector is made with as many null pointers as there are items; the copies come after them.\<close>

definition os_notify :: "item_lib \<Rightarrow> data_item list \<Rightarrow> os_observer \<Rightarrow> os_observer" where
  "os_notify lib dlist st =
     (if dlist = [] then st
      else os_sendMsg (HandleNotify (replicate (length dlist) None @
          concat (map (\<lambda>d. case lib_create lib (getId d) of None \<Rightarrow> [] | Some di \<Rightarrow> [Some (fst (lib_copy lib di d))]) dlist))) st)"

definition INT_MAX :: int where "INT_MAX = 2147483647"

definition turnOn :: "item_id \<Rightarrow> int \<Rightarrow> os_observer \<Rightarrow> os_observer option" where
  "turnOn dit timeOut st =
     (case mFrameworkActionReqObj st of
        None \<Rightarrow> Some st
      | Some p \<Rightarrow>
          (case om_find (mActiveRequestCount st) dit of
             None \<Rightarrow> Some (os_sendMsg (HandleTurnOnMsg p dit timeOut) (st\<lparr>mActiveRequestCount := om_put dit 1 (mActiveRequestCount st)\<rparr>))
           | Some n \<Rightarrow> if n = INT_MAX then None else Some (st\<lparr>mActiveRequestCount := om_put dit (n + 1) (mActiveRequestCount st)\<rparr>)))"

definition turnOff :: "item_id \<Rightarrow> os_observer \<Rightarrow> os_observer" where
  "turnOff dit st =
     (case mFrameworkActionReqObj st of
        None \<Rightarrow> st
      | Some p \<Rightarrow>
          (case om_find (mActiveRequestCount st) dit of
             None \<Rightarrow> st
           | Some n \<Rightarrow>
               if n - 1 = 0
               then os_sendMsg (HandleTurnOffMsg p dit) (st\<lparr>mActiveRequestCount := om_erase dit (mActiveRequestCount st)\<rparr>)
               else st\<lparr>mActiveRequestCount := om_put dit (n - 1) (mActiveRequestCount st)\<rparr>))"

text \<open>The backhaul requests, which are compiled in with \<open>USE_GLIB\<close>.\<close>

definition connectBackhaul :: "string \<Rightarrow> os_observer \<Rightarrow> bool \<times> os_observer" where
  "connectBackhaul clientName st =
     (case mFrameworkActionReqObj st of
        Some p \<Rightarrow> (True, os_sendMsg (HandleConnectBackhaul p clientName) st)
      | None \<Rightarrow> (False, st\<lparr>mBackHaulConnReqCache := List.insert clientName (mBackHaulConnReqCache st)\<rparr>))"

definition disconnectBackhaul :: "string \<Rightarrow> os_observer \<Rightarrow> bool \<times> os_observer" where
  "disconnectBackhaul clientName st =
     (case mFrameworkActionReqObj st of
        Some p \<Rightarrow> (False, os_sendMsg (HandleDisconnectBackhaul p clientName) st)
      | None \<Rightarrow> (False, st\<lparr>mBackHaulConnReqCache := removeAll clientName (mBackHaulConnReqCache st)\<rparr>))"

definition setFrameworkActionReqObj :: "ptr \<Rightarrow> os_observer \<Rightarrow> os_observer" where
  "setFrameworkActionReqObj obj st =
     (let st1 = st\<lparr>mFrameworkActionReqObj := obj\<rparr> in
      if mBackHaulConnReqCache st1 \<noteq> []
      then (fold (\<lambda>name s. snd (connectBackhaul name s)) (mBackHaulConnReqCache st1) st1)\<lparr>mBackHaulConnReqCache := []\<rparr>
      else st1)"

section \<open>Runs\<close>

datatype os_event =
    Ev_setSubscriptionObj ptr
  | Ev_setFrameworkActionReqObj ptr
  | Ev_subscribe "item_id list" ptr bool
  | Ev_updateSubscription "item_id list" ptr
  | Ev_unsubscribe "item_id list" ptr
  | Ev_unsubscribeAll ptr
  | Ev_notify "data_item list"
  | Ev_turnOn item_id int
  | Ev_turnOff item_id
  | Ev_connectBackhaul string
  | Ev_disconnectBackhaul string
  | Ev_proc nat

text \<open>The last event lets the message thread handle one message, at a time.\<close>

definition os_exec :: "item_lib \<Rightarrow> os_event \<Rightarrow> os_observer \<Rightarrow> (os_observer \<times> os_call list) option" where
  "os_exec lib e st =
     (case e of
        Ev_setSubscriptionObj obj \<Rightarrow> Some (setSubscriptionObj obj st, [])
      | Ev_setFrameworkActionReqObj obj \<Rightarrow> Some (setFrameworkActionReqObj obj st, [])
      | Ev_subscribe l c req \<Rightarrow> Some (os_subscribe l c req st, [])
      | Ev_updateSubscription l c \<Rightarrow> Some (updateSubscription l c st, [])
      | Ev_unsubscribe l c \<Rightarrow> Some (os_unsubscribe l c st, [])
      | Ev_unsubscribeAll c \<Rightarrow> Some (unsubscribeAll c st, [])
      | Ev_notify dlist \<Rightarrow> Some (os_notify lib dlist st, [])
      | Ev_turnOn dit timeOut \<Rightarrow> map_option (\<lambda>s. (s, [])) (turnOn dit timeOut st)
      | Ev_turnOff dit \<Rightarrow> Some (turnOff dit st, [])
      | Ev_connectBackhaul name \<Rightarrow> Some (snd (connectBackhaul name st), [])
      | Ev_disconnectBackhaul name \<Rightarrow> Some (snd (disconnectBackhaul name st), [])
      | Ev_proc now \<Rightarrow>
          (case os_queue st of
             [] \<Rightarrow> Some (st, [])
           | msg # q \<Rightarrow> os_proc lib now msg (st\<lparr>os_queue := q\<rparr>)))"

fun os_run :: "item_lib \<Rightarrow> os_event list \<Rightarrow> os_observer \<times> os_call list \<Rightarrow> (os_observer \<times> os_call list) option" where
  "os_run lib [] s = Some s"
| "os_run lib (e # es) s =
     (case os_exec lib e (fst s) of None \<Rightarrow> None | Some (st, out) \<Rightarrow> os_run lib es (st, snd s @ out))"

end
