(* ===== verification/Os_Subscriptions.thy ===== *)
theory Os_Subscriptions
  imports Os_Observer
begin

text \<open>
  What the two maps of the observer and its calls show: the maps are the two directions of one
  relation, the framework is asked for the data items that somebody wants, a report goes exactly to
  its subscribers, and modules are on while somebody needs them.
\<close>

section \<open>The two maps\<close>

abbreviation subs :: "os_observer \<Rightarrow> (addr \<times> item_id) set" where
  "subs st \<equiv> pairs (mClientToDataItems st)"

abbreviation watched :: "os_observer \<Rightarrow> (item_id \<times> addr) set" where
  "watched st \<equiv> pairs (mDataItemToClients st)"

definition os_ok :: "os_observer \<Rightarrow> bool" where
  "os_ok st \<longleftrightarrow> sm_ok (mClientToDataItems st) \<and> sm_ok (mDataItemToClients st) \<and> subs st \<subseteq> (watched st)\<inverse>"

lemma pairs_Nil [simp]: "pairs [] = {}"
  by (simp add: pairs_def)

lemma sm_ok_Nil [simp]: "sm_ok []"
  by (simp add: sm_ok_def)

lemma os_ok_new: "os_ok new_os_observer"
  by (simp add: os_ok_def new_os_observer_def)

text \<open>What the messages do to the relation, and which keys come and go.\<close>

definition moved :: "os_observer \<Rightarrow> os_observer \<Rightarrow> (addr \<times> item_id) set \<Rightarrow> (addr \<times> item_id) set \<Rightarrow> bool" where
  "moved st st1 add del \<longleftrightarrow>
     sm_ok (mClientToDataItems st1) \<and> sm_ok (mDataItemToClients st1) \<and>
     subs st1 = subs st - del \<union> add \<and> watched st1 = watched st - del\<inverse> \<union> add\<inverse> \<and> mSubscriptionObj st1 = mSubscriptionObj st"

lemma moved_ok: "moved st st1 add del \<Longrightarrow> os_ok st \<Longrightarrow> os_ok st1"
  by (auto simp: moved_def os_ok_def)

lemma moved_exact: "moved st st1 add del \<Longrightarrow> watched st = (subs st)\<inverse> \<Longrightarrow> watched st1 = (subs st1)\<inverse>"
  by (auto simp: moved_def)

lemma add1_snd:
  "sm_ok m \<Longrightarrow> finite vs \<Longrightarrow> sm_ok (snd (sm_add1 k vs m))" "sm_ok m \<Longrightarrow> finite vs \<Longrightarrow> pairs (snd (sm_add1 k vs m)) = pairs m \<union> {k} \<times> vs"
  using sm_add1_pairs by blast+

lemma subscribe_moved:
  "os_ok st \<Longrightarrow> moved st (fst (proc_SubscribeReq l c req st)) ({c} \<times> set l) {}"
  by (auto simp: proc_SubscribeReq_def Let_def case_prod_beta moved_def os_ok_def sm_add_ok add1_snd)

lemma unsubscribe_moved:
  assumes "os_ok st"
  shows "moved st (fst (proc_UnsubscribeReq l c st)) {} (subs st \<inter> {c} \<times> set l)"
proof -
  have f: "finite (Range (subs st \<inter> {c} \<times> set l))"
    using assms by (intro finite_Range) (simp add: os_ok_def finite_sm_pairs)
  show ?thesis using assms f
    by (auto simp: proc_UnsubscribeReq_def Let_def case_prod_beta moved_def os_ok_def trimOrRemove_ok)
qed

lemma unsubscribeAll_moved:
  assumes "os_ok st"
  shows "moved st (fst (proc_UnsubscribeAllReq c st)) {} (subs st \<inter> {c} \<times> UNIV)"
proof -
  have f: "finite {v. (c, v) \<in> subs st}"
    using sm.finite_vals [of "mClientToDataItems st" c] assms by (simp add: os_ok_def getValSet_eq)
  have "fst (proc_UnsubscribeAllReq c st) = st" if "getValSet c (mClientToDataItems st) = {}"
    using that by (simp add: proc_UnsubscribeAllReq_def)
  moreover have "subs st \<inter> {c} \<times> UNIV = {}" if "getValSet c (mClientToDataItems st) = {}"
    using that by (auto simp: getValSet_eq)
  ultimately show ?thesis using assms f
    by (cases "getValSet c (mClientToDataItems st) = {}")
      (auto simp: proc_UnsubscribeAllReq_def Let_def case_prod_beta moved_def os_ok_def trimOrRemove_ok sm_remove_def
        sm_ok_erase pairs_erase getValSet_eq)
qed

lemma trim_nothing: "trimOrRemove {} r m = ({}, {}, m)"
  by (simp add: trimOrRemove_def)

text \<open>An update that is defined adds the new items only; the old ones stay in one of the maps.\<close>

lemma update_effect:
  assumes "os_ok st" "proc_UpdateSubscriptionReq l c st = Some (st1, out)"
  shows "os_ok st1" "subs st1 = subs st - {c} \<times> UNIV \<union> {c} \<times> set l" "watched st1 = watched st \<union> set l \<times> {c}"
    "out = sendCachedDataItems (set l) c st1 @ fw_calls (mSubscriptionObj st) FwSubscribe (set l - Domain (watched st))"
    "mSubscriptionObj st1 = mSubscriptionObj st"
proof -
  have e: "\<exists>d. sm_update c (set l) (mClientToDataItems st) = Some ({}, set l, d) \<and> sm_ok d \<and> pairs d = subs st - {c} \<times> UNIV \<union> {c} \<times> set l"
    using assms by (auto simp: proc_UpdateSubscriptionReq_def sm_update_eq os_ok_def pairs_put pairs_erase sm_ok_put sm_ok_erase split: if_splits)
  then obtain d where d: "sm_update c (set l) (mClientToDataItems st) = Some ({}, set l, d)" "sm_ok d"
      "pairs d = subs st - {c} \<times> UNIV \<union> {c} \<times> set l" by blast
  have m: "sm_ok (mDataItemToClients st)" "subs st \<subseteq> (watched st)\<inverse>" using assms(1) by (simp_all add: os_ok_def)
  note a = sm_add_ok [OF m(1), of "set l" "{c}"]
  let ?st1 = "st\<lparr>mDataItemToClients := snd (sm_add (set l) {c} (mDataItemToClients st)), mClientToDataItems := d\<rparr>"
  have "proc_UpdateSubscriptionReq l c st =
      Some (?st1, sendCachedDataItems (set l) c ?st1 @ fw_calls (mSubscriptionObj st) FwSubscribe (set l - Domain (watched st)))"
    using a by (simp add: proc_UpdateSubscriptionReq_def d trim_nothing case_prod_beta Let_def fw_calls_def split: option.split)
  then have s: "st1 = ?st1"
    and o: "out = sendCachedDataItems (set l) c ?st1 @ fw_calls (mSubscriptionObj st) FwSubscribe (set l - Domain (watched st))"
    using assms(2) by simp_all
  show "os_ok st1" using d m a by (auto simp: s os_ok_def)
  show "subs st1 = subs st - {c} \<times> UNIV \<union> {c} \<times> set l" using d by (simp add: s)
  show "watched st1 = watched st \<union> set l \<times> {c}" using a by (simp add: s)
  show "out = sendCachedDataItems (set l) c st1 @ fw_calls (mSubscriptionObj st) FwSubscribe (set l - Domain (watched st))"
    using o s by simp
  show "mSubscriptionObj st1 = mSubscriptionObj st" by (simp add: s)
qed

text \<open>The cache and the counts do not touch the maps.\<close>

definition same_maps :: "os_observer \<Rightarrow> os_observer \<Rightarrow> bool" where
  "same_maps st st1 \<longleftrightarrow> mClientToDataItems st1 = mClientToDataItems st \<and> mDataItemToClients st1 = mDataItemToClients st \<and>
     mSubscriptionObj st1 = mSubscriptionObj st"

lemma updateCache_same: "same_maps st (snd (updateCache lib now d st)) \<and> os_queue (snd (updateCache lib now d st)) = os_queue st"
  by (auto simp: updateCache_def same_maps_def Let_def split: option.splits prod.splits)

lemma update_items_same:
  "same_maps st (snd (update_items lib now items ids st)) \<and> os_queue (snd (update_items lib now items ids st)) = os_queue st"
proof (induction items arbitrary: ids st)
  case (Cons i items)
  obtain u st1 where u: "updateCache lib now i st = (u, st1)" by (cases "updateCache lib now i st")
  then have "same_maps st st1 \<and> os_queue st1 = os_queue st" using updateCache_same [of st lib now i] by simp
  then show ?case
    using Cons.IH [where st = st1] u by (auto simp: same_maps_def)
qed (simp add: same_maps_def)

lemma same_maps_ok: "same_maps st st1 \<Longrightarrow> os_ok st1 = os_ok st"
  by (simp add: same_maps_def os_ok_def)

lemma sendMsg_same [simp]:
  "mClientToDataItems (os_sendMsg m st) = mClientToDataItems st" "mDataItemToClients (os_sendMsg m st) = mDataItemToClients st"
  "mSubscriptionObj (os_sendMsg m st) = mSubscriptionObj st" "os_queue (os_sendMsg m st) = os_queue st @ [m]"
  "mActiveRequestCount (os_sendMsg m st) = mActiveRequestCount st" "mFrameworkActionReqObj (os_sendMsg m st) = mFrameworkActionReqObj st"
  "mBackHaulConnReqCache (os_sendMsg m st) = mBackHaulConnReqCache st"
  by (simp_all add: os_sendMsg_def)

text \<open>Handling a message keeps the maps in order.\<close>

definition is_update :: "os_msg \<Rightarrow> bool" where
  "is_update msg \<longleftrightarrow> (case msg of HandleUpdateSubscriptionReq l c \<Rightarrow> True | _ \<Rightarrow> False)"

lemma proc_maps:
  assumes "os_ok st" "os_proc lib now msg st = Some (st1, out)"
  shows "os_ok st1" "\<not> is_update msg \<Longrightarrow> watched st = (subs st)\<inverse> \<Longrightarrow> watched st1 = (subs st1)\<inverse>"
proof -
  have m: "os_ok st1 \<and> (\<not> is_update msg \<longrightarrow> watched st = (subs st)\<inverse> \<longrightarrow> watched st1 = (subs st1)\<inverse>)" if "moved st st1 a d" for a d
    using that assms(1) moved_ok moved_exact by blast
  have same: "os_ok st1 \<and> (\<not> is_update msg \<longrightarrow> watched st = (subs st)\<inverse> \<longrightarrow> watched st1 = (subs st1)\<inverse>)" if "same_maps st st1"
    using that assms(1) by (simp add: same_maps_def os_ok_def)
  have "os_ok st1 \<and> (\<not> is_update msg \<longrightarrow> watched st = (subs st)\<inverse> \<longrightarrow> watched st1 = (subs st1)\<inverse>)"
  proof (cases msg)
    case (SetSubsObj p)
    then show ?thesis using assms by (auto simp: os_proc_def proc_SetSubsObj_def os_ok_def)
  next
    case (HandleSubscribeReq l c req)
    then show ?thesis using assms(2) subscribe_moved [OF assms(1), of l c req] m by (auto simp: os_proc_def dest: arg_cong [of _ _ fst])
  next
    case (HandleUpdateSubscriptionReq l c)
    then show ?thesis using assms update_effect(1) [OF assms(1)] by (simp add: os_proc_def is_update_def)
  next
    case (HandleUnsubscribeReq l c)
    then show ?thesis using assms(2) unsubscribe_moved [OF assms(1), of l c] m by (auto simp: os_proc_def dest: arg_cong [of _ _ fst])
  next
    case (HandleUnsubscribeAllReq c)
    then show ?thesis using assms(2) unsubscribeAll_moved [OF assms(1), of c] m by (auto simp: os_proc_def dest: arg_cong [of _ _ fst])
  next
    case (HandleNotify items)
    then show ?thesis using assms(2) same update_items_same [of st lib now items "{}"]
      by (auto simp: os_proc_def proc_Notify_def Let_def case_prod_beta)
  qed (use assms same in \<open>auto simp: os_proc_def same_maps_def\<close>)
  then show "os_ok st1" "\<not> is_update msg \<Longrightarrow> watched st = (subs st)\<inverse> \<Longrightarrow> watched st1 = (subs st1)\<inverse>" by blast+
qed

text \<open>The API only sends messages.\<close>

definition posted :: "os_event \<Rightarrow> os_msg set" where
  "posted e =
     (case e of
        Ev_setSubscriptionObj (Some p) \<Rightarrow> {SetSubsObj p}
      | Ev_subscribe l (Some c) req \<Rightarrow> {HandleSubscribeReq l c req}
      | Ev_updateSubscription l (Some c) \<Rightarrow> {HandleUpdateSubscriptionReq l c}
      | Ev_unsubscribe l (Some c) \<Rightarrow> {HandleUnsubscribeReq l c}
      | Ev_unsubscribeAll (Some c) \<Rightarrow> {HandleUnsubscribeAllReq c}
      | _ \<Rightarrow> {})"

definition neutral_msg :: "os_msg \<Rightarrow> bool" where
  "neutral_msg msg \<longleftrightarrow> (case msg of HandleNotify items \<Rightarrow> True | HandleTurnOnMsg p i t \<Rightarrow> True | HandleTurnOffMsg p i \<Rightarrow> True
     | HandleConnectBackhaul p n \<Rightarrow> True | HandleDisconnectBackhaul p n \<Rightarrow> True | _ \<Rightarrow> False)"

lemma neutral_simps [simp]:
  "neutral_msg (HandleNotify items)" "neutral_msg (HandleTurnOnMsg p i t)" "neutral_msg (HandleTurnOffMsg p i)"
  "neutral_msg (HandleConnectBackhaul p n)" "neutral_msg (HandleDisconnectBackhaul p n)" "\<not> neutral_msg (SetSubsObj p)"
  "\<not> neutral_msg (HandleSubscribeReq l c r)" "\<not> neutral_msg (HandleUpdateSubscriptionReq l c)"
  "\<not> neutral_msg (HandleUnsubscribeReq l c)" "\<not> neutral_msg (HandleUnsubscribeAllReq c)"
  by (simp_all add: neutral_msg_def)

lemma neutral_no_update: "neutral_msg m \<Longrightarrow> \<not> is_update m"
  by (cases m) (simp_all add: is_update_def)

lemma posted_update: "m \<in> posted e \<Longrightarrow> is_update m \<Longrightarrow> \<exists>l c. e = Ev_updateSubscription l c"
  by (cases e) (auto simp: posted_def is_update_def split: option.splits)

lemma backhaul_fold:
  "same_maps st (fold (\<lambda>name s. snd (connectBackhaul name s)) names st) \<and>
   (\<exists>q. os_queue (fold (\<lambda>name s. snd (connectBackhaul name s)) names st) = os_queue st @ q \<and> (\<forall>m \<in> set q. neutral_msg m)) \<and>
   mActiveRequestCount (fold (\<lambda>name s. snd (connectBackhaul name s)) names st) = mActiveRequestCount st \<and>
   mFrameworkActionReqObj (fold (\<lambda>name s. snd (connectBackhaul name s)) names st) = mFrameworkActionReqObj st"
proof (induction names arbitrary: st)
  case (Cons n names)
  let ?st1 = "snd (connectBackhaul n st)"
  have "same_maps st ?st1 \<and> (\<exists>q. os_queue ?st1 = os_queue st @ q \<and> (\<forall>m \<in> set q. neutral_msg m)) \<and>
      mActiveRequestCount ?st1 = mActiveRequestCount st \<and> mFrameworkActionReqObj ?st1 = mFrameworkActionReqObj st"
    by (simp add: connectBackhaul_def same_maps_def split: option.split)
  then show ?case using Cons.IH [of ?st1] by (fastforce simp: same_maps_def)
qed (simp add: same_maps_def)

lemma exec_api:
  assumes "os_exec lib e st = Some (st1, out)" "\<And>now. e \<noteq> Ev_proc now"
  shows "same_maps st st1 \<and> out = [] \<and> (\<exists>q. os_queue st1 = os_queue st @ q \<and> (\<forall>m \<in> set q. neutral_msg m \<or> m \<in> posted e) \<and>
    length (filter (\<lambda>m. \<not> neutral_msg m) q) \<le> 1)"
proof (cases e)
  case (Ev_setFrameworkActionReqObj obj)
  obtain q where "os_queue st1 = os_queue st @ q" "\<forall>m \<in> set q. neutral_msg m" "same_maps st st1"
    using assms(1) backhaul_fold [of "st\<lparr>mFrameworkActionReqObj := obj\<rparr>" "mBackHaulConnReqCache st"]
    by (auto simp: Ev_setFrameworkActionReqObj os_exec_def setFrameworkActionReqObj_def Let_def same_maps_def split: if_splits)
  moreover from this have "filter (\<lambda>m. \<not> neutral_msg m) q = []" by (simp add: filter_empty_conv)
  ultimately show ?thesis using assms(1) by (auto simp: Ev_setFrameworkActionReqObj os_exec_def)
qed (use assms in \<open>auto simp: os_exec_def same_maps_def posted_def setSubscriptionObj_def os_subscribe_def updateSubscription_def
    os_unsubscribe_def unsubscribeAll_def os_notify_def turnOn_def turnOff_def connectBackhaul_def disconnectBackhaul_def Let_def
    split: option.splits if_splits\<close>)

lemma exec_proc:
  "os_exec lib (Ev_proc now) st =
    (case os_queue st of [] \<Rightarrow> Some (st, []) | msg # q \<Rightarrow> os_proc lib now msg (st\<lparr>os_queue := q\<rparr>))"
  by (simp add: os_exec_def)

text \<open>A run step by step.\<close>

lemma os_run_snoc:
  "os_run lib (es @ [e]) s = (case os_run lib es s of None \<Rightarrow> None
     | Some (st, out) \<Rightarrow> map_option (\<lambda>(st1, o1). (st1, out @ o1)) (os_exec lib e st))"
  by (induction lib es s rule: os_run.induct) (auto split: option.splits)

lemma os_run_induct [consumes 1, case_names start step]:
  assumes "os_run lib es (s0, []) = Some (st, out)" "P [] s0 []"
    "\<And>es e st out st1 o1. os_run lib es (s0, []) = Some (st, out) \<Longrightarrow> P es st out \<Longrightarrow> os_exec lib e st = Some (st1, o1) \<Longrightarrow> P (es @ [e]) st1 (out @ o1)"
  shows "P es st out"
  using assms(1)
proof (induction es arbitrary: st out rule: rev_induct)
  case Nil
  then show ?case using assms(2) by simp
next
  case (snoc e es)
  then show ?case using assms(3) by (auto simp: os_run_snoc split: option.splits)
qed

definition no_updates :: "os_event list \<Rightarrow> bool" where
  "no_updates es \<longleftrightarrow> (\<forall>e \<in> set es. \<forall>l c. e \<noteq> Ev_updateSubscription l c)"

lemma proc_queue:
  assumes "os_proc lib now msg st = Some (st1, out)"
  shows "os_queue st1 = os_queue st"
  using assms update_items_same [of st lib now]
  by (cases msg) (auto simp: os_proc_def proc_SetSubsObj_def proc_SubscribeReq_def proc_UpdateSubscriptionReq_def proc_UnsubscribeReq_def
      proc_UnsubscribeAllReq_def proc_Notify_def Let_def case_prod_beta split: if_splits)

lemma os_ok_queue [simp]: "os_ok (st\<lparr>os_queue := q\<rparr>) = os_ok st"
  by (simp add: os_ok_def)

lemma run_maps:
  assumes "os_run lib es (new_os_observer, []) = Some (st, out)"
  shows "os_ok st \<and> (no_updates es \<longrightarrow> watched st = (subs st)\<inverse> \<and> (\<forall>m \<in> set (os_queue st). \<not> is_update m))"
  using assms
proof (induction rule: os_run_induct)
  case start
  then show ?case by (simp add: os_ok_new) (simp add: new_os_observer_def)
next
  case (step es e st out st1 o1)
  show ?case
  proof (cases "\<exists>now. e = Ev_proc now")
    case True
    then obtain now where e: "e = Ev_proc now" by blast
    show ?thesis
    proof (cases "os_queue st")
      case Nil
      then show ?thesis using step e by (simp add: exec_proc no_updates_def)
    next
      case (Cons msg q)
      then have p: "os_proc lib now msg (st\<lparr>os_queue := q\<rparr>) = Some (st1, o1)" using step(2) by (simp add: e exec_proc)
      have "os_ok (st\<lparr>os_queue := q\<rparr>)" using step(3) by simp
      from proc_maps [OF this p] proc_queue [OF p] step(3) Cons show ?thesis by (auto simp: no_updates_def)
    qed
  next
    case False
    then obtain q where x: "same_maps st st1" "os_queue st1 = os_queue st @ q" "\<forall>m \<in> set q. neutral_msg m \<or> m \<in> posted e"
      using exec_api [OF step(2)] by blast
    have n: "no_updates (es @ [e]) \<longleftrightarrow> no_updates es \<and> no_updates [e]" by (auto simp: no_updates_def)
    have "\<not> is_update m" if "neutral_msg m \<or> m \<in> posted e" "no_updates [e]" for m
      using that neutral_no_update posted_update [of m e] by (auto simp: no_updates_def)
    then have "no_updates [e] \<longrightarrow> (\<forall>m \<in> set q. \<not> is_update m)" using x(3) by blast
    moreover have "os_ok st1" "subs st1 = subs st" "watched st1 = watched st"
      using x(1) step(3) by (simp_all add: same_maps_ok) (simp_all add: same_maps_def)
    ultimately show ?thesis using x(2) step(3) by (auto simp: n)
  qed
qed

text \<open>C17. In every run of the observer the map from data items to clients holds at least the pairs of
  the map from clients to data items; in runs without \<open>updateSubscription\<close> the two maps are
  converses of each other, whatever is subscribed, unsubscribed or reported, in any order.
\<close>

theorem subscriptions_converse:
  assumes "os_run lib es (new_os_observer, []) = Some (st, out)"
  shows "pairs (mClientToDataItems st) \<subseteq> (pairs (mDataItemToClients st))\<inverse> \<and>
    (no_updates es \<longrightarrow> pairs (mDataItemToClients st) = (pairs (mClientToDataItems st))\<inverse>)"
  using run_maps [OF assms] by (auto simp: os_ok_def)

definition quiet_lib :: item_lib where
  "quiet_lib = \<lparr>lib_create = (\<lambda>i. None), lib_copy = (\<lambda>dst src. (dst, False)), lib_peer = id\<rparr>"

definition two_subs :: "os_event list" where
  "two_subs = [Ev_subscribe [TAC_DATA_ITEM_ID] (Some 5) False, Ev_subscribe [MCCMNC_DATA_ITEM_ID] (Some 6) True, Ev_proc 1,
     Ev_unsubscribeAll (Some 5), Ev_proc 2]"

theorem subscriptions_converse_witness:
  "\<exists>st out. os_run quiet_lib two_subs (new_os_observer, []) = Some (st, out) \<and>
    pairs (mDataItemToClients st) = (pairs (mClientToDataItems st))\<inverse>"
proof -
  have "os_run quiet_lib two_subs (new_os_observer, []) \<noteq> None"
    by (simp add: two_subs_def os_exec_def new_os_observer_def os_subscribe_def unsubscribeAll_def os_sendMsg_def os_proc_def
        Let_def proc_SubscribeReq_def case_prod_beta)
  then obtain st out where r: "os_run quiet_lib two_subs (new_os_observer, []) = Some (st, out)" by auto
  moreover have "no_updates two_subs" by (simp add: no_updates_def two_subs_def)
  ultimately show ?thesis using subscriptions_converse [OF r] by blast
qed

section \<open>Updates\<close>

text \<open>
  An update erases an element and goes on from it, unless the client keeps nothing; and what the
  client does not want any more stays in the map from data items to clients.
\<close>

lemma update_undefined:
  assumes "(c, i) \<in> subs st" "i \<in> set l"
  shows "proc_UpdateSubscriptionReq l c st = None"
  using assms by (auto simp: proc_UpdateSubscriptionReq_def sm_update_eq getValSet_eq)

lemma update_keeps_stale:
  "os_ok st \<Longrightarrow> proc_UpdateSubscriptionReq l c st = Some (st1, out) \<Longrightarrow> watched st \<subseteq> watched st1"
  using update_effect(3) by auto

section \<open>Reports\<close>

lemma clients_of_eq: "clients_of ids st = {c. \<exists>i \<in> ids. (i, c) \<in> watched st}"
  by (auto simp: clients_of_def getValSet_eq)

lemma cached_items_empty [simp]: "cached_items {} cache = []"
  by (simp add: cached_items_def map_filter_simps)

lemma sends_mem: "ClientNotify c l \<in> set (concat (map (\<lambda>c. sendCachedDataItems (f c) c st) cs)) \<longleftrightarrow>
    c \<in> set cs \<and> l \<noteq> [] \<and> l = cached_items (f c) (mDataItemCache st)"
  by (auto simp: sendCachedDataItems_def Let_def)

lemma sends_distinct: "distinct cs \<Longrightarrow> distinct (concat (map (\<lambda>c. sendCachedDataItems (f c) c st) cs))"
proof (induction cs)
  case (Cons c cs)
  have "x \<notin> set (concat (map (\<lambda>c. sendCachedDataItems (f c) c st) cs))" if "x \<in> set (sendCachedDataItems (f c) c st)" for x
    using that Cons.prems by (auto simp: sendCachedDataItems_def Let_def split: if_splits)
  then show ?case using Cons by (auto simp: sendCachedDataItems_def Let_def)
qed simp

section \<open>What a report changes\<close>

text \<open>
  What is documented of the library: an item that it makes is of the kind asked for, and \<open>copy\<close> copies
  the data of an item of the same kind and says whether it had to.
\<close>

definition copies :: "item_lib \<Rightarrow> bool" where
  "copies lib \<longleftrightarrow> (\<forall>i d. lib_create lib i = Some d \<longrightarrow> getId d = i) \<and>
     (\<forall>dst src. getId dst = getId src \<longrightarrow> lib_copy lib dst src = (src, dst \<noteq> src))"

text \<open>The observer after the first items of a report, and the data items whose value in the cache one of
the items of the report has changed, or that it has put there.\<close>

definition after_items :: "item_lib \<Rightarrow> nat \<Rightarrow> data_item option list \<Rightarrow> nat \<Rightarrow> os_observer \<Rightarrow> os_observer" where
  "after_items lib now items k st = snd (update_items lib now (take k items) {} st)"

definition changed_items :: "item_lib \<Rightarrow> nat \<Rightarrow> data_item option list \<Rightarrow> os_observer \<Rightarrow> item_id set" where
  "changed_items lib now items st =
     {i. \<exists>k < length items. om_find (mDataItemCache (after_items lib now items (Suc k) st)) i \<noteq>
        om_find (mDataItemCache (after_items lib now items k st)) i}"

text \<open>What an item does to the cache: it is there when the system status takes it for new and there
is an object for its kind.\<close>

definition taken :: "item_lib \<Rightarrow> nat \<Rightarrow> data_item \<Rightarrow> os_observer \<Rightarrow> bool" where
  "taken lib now d st \<longleftrightarrow> fst (eventDataItemNotify (lib_peer lib) now d (mSystemStatus st)) \<and>
     (om_find (mDataItemCache st) (getId d) \<noteq> None \<or> lib_create lib (getId d) \<noteq> None)"

definition cache_ok :: "os_observer \<Rightarrow> bool" where
  "cache_ok st \<longleftrightarrow> (\<forall>i d. om_find (mDataItemCache st) i = Some d \<longrightarrow> getId d = i)"

lemma notify_id: "getId (fst (snd (eventDataItemNotify pd now d cache))) = getId d"
  by (auto simp: eventDataItemNotify_def write_back_def getId_def split: option.splits prod.splits data_item.splits)

lemma updateCache_effect:
  assumes "copies lib" "cache_ok st"
  shows "fst (updateCache lib now (Some d) st) \<longleftrightarrow>
      taken lib now d st \<and> om_find (mDataItemCache st) (getId d) \<noteq> Some (fst (snd (eventDataItemNotify (lib_peer lib) now d (mSystemStatus st))))"
    and "om_find (mDataItemCache (snd (updateCache lib now (Some d) st))) =
      (if taken lib now d st
       then (om_find (mDataItemCache st))(getId d \<mapsto> fst (snd (eventDataItemNotify (lib_peer lib) now d (mSystemStatus st))))
       else om_find (mDataItemCache st))"
    and "cache_ok (snd (updateCache lib now (Some d) st))"
proof -
  obtain ret d1 status where e: "eventDataItemNotify (lib_peer lib) now d (mSystemStatus st) = (ret, d1, status)"
    by (cases "eventDataItemNotify (lib_peer lib) now d (mSystemStatus st)") auto
  have i: "getId d1 = getId d" using notify_id [of "lib_peer lib" now d "mSystemStatus st"] e by simp
  have c: "lib_copy lib dst d1 = (d1, dst \<noteq> d1)"
    if "om_find (mDataItemCache st) (getId d) = Some dst \<or> lib_create lib (getId d) = Some dst" for dst
    using that assms i by (auto simp: copies_def cache_ok_def)
  show "fst (updateCache lib now (Some d) st) \<longleftrightarrow>
      taken lib now d st \<and> om_find (mDataItemCache st) (getId d) \<noteq> Some (fst (snd (eventDataItemNotify (lib_peer lib) now d (mSystemStatus st))))"
    using c by (auto simp: updateCache_def e i taken_def Let_def split: option.splits)
  show f: "om_find (mDataItemCache (snd (updateCache lib now (Some d) st))) =
      (if taken lib now d st
       then (om_find (mDataItemCache st))(getId d \<mapsto> fst (snd (eventDataItemNotify (lib_peer lib) now d (mSystemStatus st))))
       else om_find (mDataItemCache st))"
    using c by (auto simp: updateCache_def e i taken_def Let_def split: option.splits)
  show "cache_ok (snd (updateCache lib now (Some d) st))"
    using assms(2) i unfolding cache_ok_def f by (auto simp: e)
qed

lemma after_items_0 [simp]: "after_items lib now items 0 st = st"
  by (simp add: after_items_def)

lemma update_items_ids: "snd (update_items lib now items ids st) = snd (update_items lib now items {} st)"
proof (induction items arbitrary: ids st)
  case (Cons i items)
  obtain u st1 where u: "updateCache lib now i st = (u, st1)" by (cases "updateCache lib now i st")
  show ?case using Cons.IH [of "if u then (case i of None \<Rightarrow> ids | Some d \<Rightarrow> insert (getId d) ids) else ids" st1]
      Cons.IH [of "if u then (case i of None \<Rightarrow> {} | Some d \<Rightarrow> insert (getId d) {}) else {}" st1] u by simp
qed simp

lemma after_items_Suc: "after_items lib now (i # items) (Suc k) st = after_items lib now items k (snd (updateCache lib now i st))"
  using update_items_ids by (simp add: after_items_def split_beta)

lemma after_items_step:
  "k < length items \<Longrightarrow> after_items lib now items (Suc k) st = snd (updateCache lib now (items ! k) (after_items lib now items k st))"
proof (induction items arbitrary: k st)
  case (Cons i items)
  then show ?case by (cases k) (simp_all add: after_items_Suc)
qed simp

lemma changed_Cons:
  "changed_items lib now (i # items) st =
    {j. om_find (mDataItemCache (snd (updateCache lib now i st))) j \<noteq> om_find (mDataItemCache st) j} \<union>
    changed_items lib now items (snd (updateCache lib now i st))"
proof -
  have "(\<exists>k < Suc n. P k) \<longleftrightarrow> P 0 \<or> (\<exists>k < n. P (Suc k))" for n and P :: "nat \<Rightarrow> bool"
    using less_Suc_eq_0_disj by auto
  then show ?thesis unfolding changed_items_def by (auto simp: after_items_Suc)
qed

lemma updateCache_None [simp]: "updateCache lib now None st = (False, st)"
  by (simp add: updateCache_def)

lemma update_items_changed:
  assumes "copies lib"
  shows "cache_ok st \<Longrightarrow> fst (update_items lib now items ids st) = ids \<union> changed_items lib now items st"
proof (induction items arbitrary: ids st)
  case Nil
  then show ?case by (simp add: changed_items_def)
next
  case (Cons i items)
  show ?case
  proof (cases i)
    case None
    then show ?thesis using Cons by (simp add: changed_Cons)
  next
    case (Some d)
    note e = updateCache_effect [OF assms Cons.prems, of now d]
    have "{j. om_find (mDataItemCache (snd (updateCache lib now i st))) j \<noteq> om_find (mDataItemCache st) j} =
        (if fst (updateCache lib now i st) then {getId d} else {})"
      using e(1,2) Some by auto
    then show ?thesis using Cons.IH [OF e(3)] Some by (simp add: changed_Cons split_beta)
  qed
qed

text \<open>Reports are all that changes the cache.\<close>

lemma update_items_ok:
  assumes "copies lib"
  shows "cache_ok st \<Longrightarrow> cache_ok (snd (update_items lib now items ids st))"
proof (induction items arbitrary: ids st)
  case (Cons i items)
  have "cache_ok (snd (updateCache lib now i st))"
    using updateCache_effect(3) [OF assms Cons.prems] Cons.prems by (cases i) simp_all
  then show ?case using Cons.IH by (simp add: split_beta)
qed simp

lemma backhaul_cache: "mDataItemCache (fold (\<lambda>name s. snd (connectBackhaul name s)) names st) = mDataItemCache st"
  by (induction names arbitrary: st) (simp_all add: connectBackhaul_def os_sendMsg_def split: option.split)

lemma exec_cache:
  assumes "copies lib" "os_exec lib e st = Some (st1, o1)" "cache_ok st"
  shows "cache_ok st1"
proof (cases "\<exists>now items q. e = Ev_proc now \<and> os_queue st = HandleNotify items # q")
  case True
  then obtain now items q where n: "e = Ev_proc now" "os_queue st = HandleNotify items # q" by blast
  have "cache_ok (st\<lparr>os_queue := q\<rparr>)" using assms(3) by (simp add: cache_ok_def)
  from update_items_ok [OF assms(1) this, of now items "{}"] show ?thesis
    using assms(2) n by (auto simp: exec_proc os_proc_def proc_Notify_def split_beta Let_def)
next
  case False
  have "mDataItemCache st1 = mDataItemCache st"
  proof (cases e)
    case (Ev_proc now)
    then show ?thesis using False assms(2)
      by (auto simp: exec_proc os_proc_def proc_SetSubsObj_def proc_SubscribeReq_def proc_UpdateSubscriptionReq_def proc_UnsubscribeReq_def
          proc_UnsubscribeAllReq_def Let_def split_beta split: list.splits os_msg.splits if_splits)
  next
    case (Ev_setFrameworkActionReqObj obj)
    then show ?thesis using assms(2) backhaul_cache by (auto simp: os_exec_def setFrameworkActionReqObj_def Let_def split: if_splits)
  qed (use assms(2) in \<open>auto simp: os_exec_def setSubscriptionObj_def os_subscribe_def updateSubscription_def os_unsubscribe_def
      unsubscribeAll_def os_notify_def turnOn_def turnOff_def connectBackhaul_def disconnectBackhaul_def os_sendMsg_def
      split: option.splits if_splits\<close>)
  then show ?thesis using assms(3) by (simp add: cache_ok_def)
qed

lemma run_cache:
  assumes "copies lib" "os_run lib es (new_os_observer, []) = Some (st, out)"
  shows "cache_ok st"
  using assms(2)
proof (induction rule: os_run_induct)
  case start
  show ?case by (simp add: cache_ok_def new_os_observer_def)
next
  case (step es e st out st1 o1)
  then show ?case using exec_cache [OF assms(1)] by blast
qed

text \<open>C20. When a report of the framework is handled, every client is told, once, exactly the data items
that it is subscribed to and whose value in the cache the report has changed or put there, with
their values in the cache; a client for which there are none is not told, and nobody else is. Item by
item, the cache takes the value that the system status gives back for an item that it takes for new,
when the kind is cached or the library can make it, and is left alone otherwise. The library is assumed to do what is documented
of it: \<open>copy\<close> copies the data and says whether it had to.
\<close>

theorem notify_exact:
  assumes "os_run lib es (new_os_observer, []) = Some (st, out)" "proc_Notify lib now items st = (st1, o1)" "copies lib"
  shows "distinct o1 \<and> (\<forall>c l. ClientNotify c l \<in> set o1 \<longleftrightarrow>
      l \<noteq> [] \<and> l = cached_items ({i. (c, i) \<in> pairs (mClientToDataItems st)} \<inter> changed_items lib now items st) (mDataItemCache st1)) \<and>
    st1 = after_items lib now items (length items) st \<and>
    (\<forall>k < length items.
       let s = after_items lib now items k st; s' = after_items lib now items (Suc k) st in
       om_find (mDataItemCache s') =
         (case items ! k of
            Some d \<Rightarrow>
              if fst (eventDataItemNotify (lib_peer lib) now d (mSystemStatus s)) \<and>
                 (om_find (mDataItemCache s) (getId d) \<noteq> None \<or> lib_create lib (getId d) \<noteq> None)
              then (om_find (mDataItemCache s))(getId d \<mapsto> fst (snd (eventDataItemNotify (lib_peer lib) now d (mSystemStatus s))))
              else om_find (mDataItemCache s)
          | None \<Rightarrow> om_find (mDataItemCache s)))"
proof -
  define ids where "ids = fst (update_items lib now items {} st)"
  have cache: "cache_ok st" by (rule run_cache [OF assms(3,1)])
  have ids: "ids = changed_items lib now items st" using update_items_changed [OF assms(3) cache] by (simp add: ids_def)
  have s: "st1 = snd (update_items lib now items {} st)"
    and o: "o1 = concat (map (\<lambda>c. sendCachedDataItems (Set.filter (\<lambda>i. i \<in> ids) (getValSet c (mClientToDataItems st1))) c st1)
      (sorted_list_of_set (clients_of ids st1)))"
    using assms(2) by (auto simp: proc_Notify_def ids_def case_prod_beta Let_def)
  have same: "subs st1 = subs st" "watched st1 = watched st"
    using update_items_same [of st lib now items "{}"] s by (simp_all add: same_maps_def)
  have ok: "os_ok st" using run_maps [OF assms(1)] by blast
  have fin: "finite (clients_of ids st1)"
  proof (rule finite_subset)
    show "clients_of ids st1 \<subseteq> Range (watched st1)" by (auto simp: clients_of_eq)
    show "finite (Range (watched st1))" using ok by (simp add: same os_ok_def finite_sm_pairs finite_Range)
  qed
  have f: "Set.filter (\<lambda>i. i \<in> ids) (getValSet c (mClientToDataItems st1)) = {i. (c, i) \<in> subs st} \<inter> ids" for c
    by (auto simp: getValSet_eq same)
  have "c \<in> clients_of ids st1" if "{i. (c, i) \<in> subs st} \<inter> ids \<noteq> {}" for c
    using that ok by (auto simp: clients_of_eq same os_ok_def)
  then have "c \<in> clients_of ids st1" if "cached_items ({i. (c, i) \<in> subs st} \<inter> ids) (mDataItemCache st1) \<noteq> []" for c
    using that cached_items_empty by metis
  then have told: "ClientNotify c l \<in> set o1 \<longleftrightarrow> l \<noteq> [] \<and> l = cached_items ({i. (c, i) \<in> subs st} \<inter> ids) (mDataItemCache st1)" for c l
    unfolding o sends_mem f using fin by auto
  have dist: "distinct o1" unfolding o by (rule sends_distinct) simp
  have "cache_ok (after_items lib now items k st)" for k
    unfolding after_items_def by (rule update_items_ok [OF assms(3) cache])
  then have step: "om_find (mDataItemCache (after_items lib now items (Suc k) st)) =
      (case items ! k of
         Some d \<Rightarrow>
           if taken lib now d (after_items lib now items k st)
           then (om_find (mDataItemCache (after_items lib now items k st)))(getId d \<mapsto>
             fst (snd (eventDataItemNotify (lib_peer lib) now d (mSystemStatus (after_items lib now items k st)))))
           else om_find (mDataItemCache (after_items lib now items k st))
       | None \<Rightarrow> om_find (mDataItemCache (after_items lib now items k st)))" if "k < length items" for k
    using after_items_step [OF that] updateCache_effect(2) [OF assms(3)] by (simp split: option.split)
  have "st1 = after_items lib now items (length items) st" by (simp add: s after_items_def)
  with dist told step show ?thesis unfolding Let_def taken_def [symmetric] ids by simp
qed

text \<open>A library that can make one kind of item.\<close>

definition plain_lib :: item_lib where
  "plain_lib = \<lparr>lib_create = (\<lambda>i. if i = TAC_DATA_ITEM_ID then Some (Tac []) else None), lib_copy = (\<lambda>dst src. (src, dst \<noteq> src)), lib_peer = id\<rparr>"

lemma plain_lib_copies: "copies plain_lib"
  by (auto simp: copies_def plain_lib_def getId_def)

text \<open>Two clients are subscribed to the item; a report brings it twice, with another value, and then once more.\<close>

definition told_twice :: "os_event list" where
  "told_twice = [Ev_subscribe [TAC_DATA_ITEM_ID] (Some 5) False, Ev_subscribe [MCCMNC_DATA_ITEM_ID, TAC_DATA_ITEM_ID] (Some 6) False,
     Ev_subscribe [MCCMNC_DATA_ITEM_ID] (Some 7) False, Ev_proc 1, Ev_proc 2, Ev_proc 3, Ev_notify [Tac ''x'', Tac ''y''], Ev_proc 4]"

theorem notify_exact_witness:
  "\<exists>st out st1. os_run plain_lib told_twice (new_os_observer, []) = Some (st, out) \<and>
    proc_Notify plain_lib 9 [None, Some (Tac ''y''), Some (Tac ''z'')] st = (st1, [ClientNotify 5 [Tac ''z''], ClientNotify 6 [Tac ''z'']]) \<and>
    cached_items ({i. (6, i) \<in> pairs (mClientToDataItems st)} \<inter> changed_items plain_lib 9 [None, Some (Tac ''y''), Some (Tac ''z'')] st)
      (mDataItemCache st1) = [Tac ''z'']"
proof -
  let ?items = "[None, Some (Tac ''y''), Some (Tac ''z'')]"
  have "case os_run plain_lib told_twice (new_os_observer, []) of None \<Rightarrow> False
    | Some (st, out) \<Rightarrow> snd (proc_Notify plain_lib 9 ?items st) = [ClientNotify 5 [Tac ''z''], ClientNotify 6 [Tac ''z'']]"
    by code_simp
  then obtain st out where r: "os_run plain_lib told_twice (new_os_observer, []) = Some (st, out)"
    and n: "snd (proc_Notify plain_lib 9 ?items st) = [ClientNotify 5 [Tac ''z''], ClientNotify 6 [Tac ''z'']]"
    by (auto split: option.splits)
  then obtain st1 where p: "proc_Notify plain_lib 9 ?items st = (st1, [ClientNotify 5 [Tac ''z''], ClientNotify 6 [Tac ''z'']])"
    by (metis prod.collapse)
  have "ClientNotify 6 [Tac ''z''] \<in> set [ClientNotify 5 [Tac ''z''], ClientNotify 6 [Tac ''z'']]" by simp
  with notify_exact [OF r p plain_lib_copies]
  have "[Tac ''z''] = cached_items ({i. (6, i) \<in> pairs (mClientToDataItems st)} \<inter> changed_items plain_lib 9 ?items st) (mDataItemCache st1)"
    by blast
  with r p show ?thesis by metis
qed

end
