(* ===== verification/Os_Framework.thy ===== *)
theory Os_Framework
  imports Os_Subscriptions
begin

text \<open>
  What the observer asks of the framework: the data items that it is subscribed to are those that
  some client watches, without those that are watched on demand only, and modules are turned on and off with their first and last user.
\<close>

section \<open>Subscriptions\<close>

text \<open>The data items that a subscription object is left with.\<close>

fun fw_step :: "addr \<Rightarrow> os_call \<Rightarrow> item_id set \<Rightarrow> item_id set" where
  "fw_step p (FwSubscribe q l) S = (if q = p then S \<union> set l else S)"
| "fw_step p (FwUnsubscribe q l) S = (if q = p then S - set l else S)"
| "fw_step p _ S = S"

definition fw_items :: "addr \<Rightarrow> os_call list \<Rightarrow> item_id set" where
  "fw_items p outs = fold (fw_step p) outs {}"

lemma set_containerTransfer [simp]: "finite s \<Longrightarrow> set (containerTransfer s) = s"
  by (simp add: containerTransfer_def)

lemma fw_calls_subscribe [simp]:
  "finite ids \<Longrightarrow> fold (fw_step p) (fw_calls obj FwSubscribe ids) S = (if obj = Some p then S \<union> ids else S)"
  by (auto simp: fw_calls_def split: option.split)

lemma fw_calls_unsubscribe [simp]:
  "finite ids \<Longrightarrow> fold (fw_step p) (fw_calls obj FwUnsubscribe ids) S = (if obj = Some p then S - ids else S)"
  by (auto simp: fw_calls_def split: option.split)

lemma fw_sendCached [simp]: "fold (fw_step p) (sendCachedDataItems s c st) S = S"
  by (simp add: sendCachedDataItems_def Let_def)

lemma fw_sendCached_all [simp]: "fold (fw_step p) (concat (map (\<lambda>c. sendCachedDataItems (f c) c st) cs)) S = S"
  by (induction cs) simp_all

definition is_set :: "os_msg \<Rightarrow> bool" where
  "is_set msg \<longleftrightarrow> (\<exists>p. msg = SetSubsObj p)"

text \<open>
  The data items that are watched on demand only: somebody requested data about them when nobody
  watched them, so the framework was asked for data once but not subscribed to them, and somebody has watched them
  ever since. When the framework registers it is subscribed to everything that is watched.
\<close>

fun on_demand_msg :: "os_msg \<Rightarrow> os_observer \<Rightarrow> item_id set \<Rightarrow> item_id set" where
  "on_demand_msg (HandleSubscribeReq l c True) st D =
     (if mSubscriptionObj st = None then D else D \<union> (set l - getKeys (mDataItemToClients st)))"
| "on_demand_msg (SetSubsObj p) st D = {}"
| "on_demand_msg m st D = D"

definition on_demand_step :: "os_event \<Rightarrow> os_observer \<Rightarrow> os_observer \<Rightarrow> item_id set \<Rightarrow> item_id set" where
  "on_demand_step e st st1 D =
     (case (e, os_queue st) of (Ev_proc now, m # q) \<Rightarrow> on_demand_msg m st D | _ \<Rightarrow> D) \<inter> getKeys (mDataItemToClients st1)"

fun on_demand_from :: "item_lib \<Rightarrow> os_event list \<Rightarrow> os_observer \<Rightarrow> item_id set \<Rightarrow> item_id set" where
  "on_demand_from lib [] st D = D"
| "on_demand_from lib (e # es) st D =
     (case os_exec lib e st of None \<Rightarrow> D | Some (st1, out) \<Rightarrow> on_demand_from lib es st1 (on_demand_step e st st1 D))"

definition on_demand :: "item_lib \<Rightarrow> os_event list \<Rightarrow> item_id set" where
  "on_demand lib es = on_demand_from lib es new_os_observer {}"

lemma on_demand_from_snoc:
  "os_run lib es (st0, o0) = Some (st, out) \<Longrightarrow> os_exec lib e st = Some (st1, o1) \<Longrightarrow>
    on_demand_from lib (es @ [e]) st0 D = on_demand_step e st st1 (on_demand_from lib es st0 D)"
  by (induction es arbitrary: st0 o0 D) (auto split: option.splits)

text \<open>What one message does for the object that is asked.\<close>

definition tracks :: "os_msg \<Rightarrow> os_observer \<Rightarrow> os_call list \<Rightarrow> os_observer \<Rightarrow> bool" where
  "tracks msg st out st1 \<longleftrightarrow> mSubscriptionObj st1 = mSubscriptionObj st \<and>
     (\<forall>q S. mSubscriptionObj st \<noteq> Some q \<longrightarrow> fold (fw_step q) out S = S) \<and>
     (\<forall>p D. mSubscriptionObj st = Some p \<longrightarrow> D \<subseteq> Domain (watched st) \<longrightarrow>
        fold (fw_step p) out (Domain (watched st) - D) =
          Domain (watched st1) - on_demand_msg msg st D \<inter> Domain (watched st1))"

lemma tracks_subscribe:
  assumes "os_ok st" "proc_SubscribeReq l c req st = (st1, out)"
  shows "tracks (HandleSubscribeReq l c req) st out st1"
proof -
  have a: "sm_ok (mDataItemToClients st)" using assms(1) by (simp add: os_ok_def)
  note s = sm_add_ok [OF a, of "set l" "{c}"]
  have w: "Domain (watched st1) = Domain (watched st) \<union> set l"
    using assms(2) s by (auto simp: proc_SubscribeReq_def Let_def case_prod_beta)
  moreover have "mSubscriptionObj st1 = mSubscriptionObj st" "finite (set l - Domain (watched st))"
    using assms(2) by (auto simp: proc_SubscribeReq_def Let_def case_prod_beta)
  moreover have "out = sendCachedDataItems (set l) c st1 @
      (if req then (case mSubscriptionObj st of None \<Rightarrow> [] | Some p \<Rightarrow> [FwRequestData p l])
       else fw_calls (mSubscriptionObj st) FwSubscribe (set l - Domain (watched st)))"
    using assms(2) s(3) by (auto simp: proc_SubscribeReq_def Let_def case_prod_beta)
  moreover have "getKeys (mDataItemToClients st) = Domain (watched st)" using a by (rule getKeys_eq)
  ultimately show ?thesis unfolding tracks_def w
    by (cases req) (auto split: option.splits)
qed

lemma tracks_trim:
  assumes "sm_ok (mDataItemToClients st)" "finite ks" "mSubscriptionObj st1 = mSubscriptionObj st"
    "mDataItemToClients st1 = snd (snd (trimOrRemove ks {c} (mDataItemToClients st)))" "\<And>D. on_demand_msg msg st D = D"
  shows "tracks msg st (fw_calls (mSubscriptionObj st) FwUnsubscribe (fst (trimOrRemove ks {c} (mDataItemToClients st)))) st1"
proof -
  have "Domain (watched st1) = Domain (watched st) - fst (trimOrRemove ks {c} (mDataItemToClients st))"
    using sm.trim_keys_left [OF assms(1,2), of "{c}"] assms(4) by simp
  moreover have "finite (fst (trimOrRemove ks {c} (mDataItemToClients st)))"
    using trimOrRemove_ok(3) [OF assms(1,2), of "{c}"] assms(2) by simp
  ultimately show ?thesis using assms(3,5) by (auto simp: tracks_def)
qed

lemma tracks_unsubscribe:
  assumes "os_ok st" "proc_UnsubscribeReq l c st = (st1, out)"
  shows "tracks (HandleUnsubscribeReq l c) st out st1"
proof -
  have a: "sm_ok (mDataItemToClients st)" "sm_ok (mClientToDataItems st)" using assms(1) by (simp_all add: os_ok_def)
  have "finite (fst (snd (trimOrRemove {c} (set l) (mClientToDataItems st))))"
    using trimOrRemove_ok(4) [OF a(2), of "{c}" "set l"] finite_sm_pairs [OF a(2)] by (simp add: finite_Range)
  from tracks_trim [OF a(1) this, of st1 c "HandleUnsubscribeReq l c"] show ?thesis
    using assms(2) by (auto simp: proc_UnsubscribeReq_def Let_def case_prod_beta)
qed

lemma tracks_unsubscribeAll:
  assumes "os_ok st" "proc_UnsubscribeAllReq c st = (st1, out)"
  shows "tracks (HandleUnsubscribeAllReq c) st out st1"
proof (cases "getValSet c (mClientToDataItems st) = {}")
  case True
  then show ?thesis using assms(2) by (auto simp: proc_UnsubscribeAllReq_def tracks_def)
next
  case False
  have a: "sm_ok (mDataItemToClients st)" "sm_ok (mClientToDataItems st)" using assms(1) by (simp_all add: os_ok_def)
  from tracks_trim [OF a(1) sm.finite_vals [OF a(2)], of st1 c c "HandleUnsubscribeAllReq c"] show ?thesis
    using assms(2) False by (auto simp: proc_UnsubscribeAllReq_def Let_def case_prod_beta)
qed

lemma tracks_update:
  assumes "os_ok st" "proc_UpdateSubscriptionReq l c st = Some (st1, out)"
  shows "tracks (HandleUpdateSubscriptionReq l c) st out st1"
proof -
  have "Domain (watched st1) = Domain (watched st) \<union> set l" using update_effect(3) [OF assms] by auto
  with update_effect(4,5) [OF assms] show ?thesis by (auto simp: tracks_def)
qed

lemma tracks_same:
  assumes "mSubscriptionObj st1 = mSubscriptionObj st" "watched st1 = watched st" "\<And>D. on_demand_msg msg st D = D"
    "\<And>p S. fold (fw_step p) out S = S"
  shows "tracks msg st out st1"
  using assms by (auto simp: tracks_def)

lemma proc_tracks:
  assumes "os_ok st" "os_proc lib now msg st = Some (st1, out)" "\<not> is_set msg"
  shows "tracks msg st out st1"
proof (cases msg)
  case (HandleSubscribeReq l c req)
  then show ?thesis using assms(2) tracks_subscribe [OF assms(1), of l c req st1 out] by (simp add: os_proc_def)
next
  case (HandleUpdateSubscriptionReq l c)
  then show ?thesis using assms(2) tracks_update [OF assms(1)] by (simp add: os_proc_def)
next
  case (HandleUnsubscribeReq l c)
  then show ?thesis using assms(2) tracks_unsubscribe [OF assms(1)] by (simp add: os_proc_def)
next
  case (HandleUnsubscribeAllReq c)
  then show ?thesis using assms(2) tracks_unsubscribeAll [OF assms(1)] by (simp add: os_proc_def)
next
  case (HandleNotify items)
  show ?thesis
    by (rule tracks_same) (use assms(2) HandleNotify update_items_same [of st lib now items "{}"] in
        \<open>auto simp: os_proc_def proc_Notify_def Let_def case_prod_beta same_maps_def\<close>)
qed (use assms(2,3) in \<open>auto simp: os_proc_def is_set_def intro!: tracks_same\<close>)

lemma set_effect:
  assumes "os_ok st" "proc_SetSubsObj p st = (st1, out)"
  shows "mSubscriptionObj st1 = Some p" "watched st1 = watched st" "fold (fw_step p) out S = S \<union> Domain (watched st)"
    "q \<noteq> p \<Longrightarrow> fold (fw_step q) out S = S"
proof -
  have k: "getKeys (mDataItemToClients st) = Domain (watched st)" "finite (Domain (watched st))"
    using assms(1) by (simp_all add: os_ok_def getKeys_eq finite_sm_pairs finite_Domain)
  show "mSubscriptionObj st1 = Some p" "watched st1 = watched st" "fold (fw_step p) out S = S \<union> Domain (watched st)"
    "q \<noteq> p \<Longrightarrow> fold (fw_step q) out S = S"
    using assms(2) k by (auto simp: proc_SetSubsObj_def Let_def split: if_splits)
qed

text \<open>Runs in which only one object registers as the framework, any number of times.\<close>

definition only_framework :: "addr \<Rightarrow> os_event list \<Rightarrow> bool" where
  "only_framework p es \<longleftrightarrow> (\<forall>q. Ev_setSubscriptionObj (Some q) \<in> set es \<longrightarrow> q = p)"

definition fw_inv :: "addr \<Rightarrow> item_id set \<Rightarrow> os_observer \<Rightarrow> os_call list \<Rightarrow> bool" where
  "fw_inv p D st out \<longleftrightarrow>
     (\<forall>m \<in> set (os_queue st). \<forall>q. m = SetSubsObj q \<longrightarrow> q = p) \<and> (\<forall>q. mSubscriptionObj st = Some q \<longrightarrow> q = p) \<and>
     D \<subseteq> Domain (watched st) \<and>
     fw_items p out = (if mSubscriptionObj st = None then {} else Domain (watched st) - D)"

lemma posted_set: "m \<in> posted e \<Longrightarrow> m = SetSubsObj q \<Longrightarrow> e = Ev_setSubscriptionObj (Some q)"
  by (cases e) (auto simp: posted_def split: option.splits)

lemma fw_inv_api:
  assumes "fw_inv p D st out" "only_framework p [e]" "os_exec lib e st = Some (st1, o1)" "\<And>now. e \<noteq> Ev_proc now" "os_ok st1"
  shows "fw_inv p (on_demand_step e st st1 D) st1 (out @ o1)"
proof -
  obtain q where x: "same_maps st st1" "o1 = []" "os_queue st1 = os_queue st @ q" "\<forall>m \<in> set q. neutral_msg m \<or> m \<in> posted e"
    using exec_api [OF assms(3,4)] by blast
  have "r = p" if "SetSubsObj r \<in> set q" for r
    using that x(4) posted_set [of "SetSubsObj r" e r] assms(2) by (auto simp: only_framework_def)
  moreover have "mSubscriptionObj st1 = mSubscriptionObj st" "watched st1 = watched st" using x(1) by (simp_all add: same_maps_def)
  moreover have "on_demand_step e st st1 D = D \<inter> Domain (watched st1)"
    using assms(4,5) by (auto simp: on_demand_step_def os_ok_def getKeys_eq split: os_event.splits)
  ultimately show ?thesis using assms(1) x(2,3) by (auto simp: fw_inv_def)
qed

lemma fw_inv_proc:
  assumes "fw_inv p D st out" "os_ok st" "os_queue st = msg # q"
    "os_proc lib now msg (st\<lparr>os_queue := q\<rparr>) = Some (st1, o1)"
  shows "fw_inv p (on_demand_step (Ev_proc now) st st1 D) st1 (out @ o1)"
proof -
  let ?st = "st\<lparr>os_queue := q\<rparr>"
  have q: "os_queue st1 = q" using proc_queue [OF assms(4)] by simp
  have ok: "os_ok ?st" using assms(2) by simp
  have d: "on_demand_step (Ev_proc now) st st1 D = on_demand_msg msg ?st D \<inter> Domain (watched st1)"
    using proc_maps(1) [OF ok assms(4)] by (simp add: on_demand_step_def assms(3) os_ok_def getKeys_eq) (cases "(msg, st, D)" rule: on_demand_msg.cases; simp)
  have items: "fw_items r (out @ o1) = fold (fw_step r) o1 (fw_items r out)" for r by (simp add: fw_items_def)
  show ?thesis
  proof (cases "is_set msg")
    case True
    then have m: "msg = SetSubsObj p" using assms(1,3) by (auto simp: is_set_def fw_inv_def)
    have "proc_SetSubsObj p ?st = (st1, o1)" using assms(4) by (simp add: m os_proc_def)
    note s = set_effect [OF ok this]
    have "fw_items p out \<subseteq> Domain (watched st)" using assms(1) by (auto simp: fw_inv_def)
    then show ?thesis using assms(1,3) s by (auto simp: fw_inv_def q d items m)
  next
    case False
    have t: "tracks msg ?st o1 st1" using proc_tracks [OF ok assms(4) False] .
    have "fw_items p (out @ o1) = (if mSubscriptionObj st1 = None then {} else Domain (watched st1) - on_demand_step (Ev_proc now) st st1 D)"
    proof (cases "mSubscriptionObj st")
      case None
      then show ?thesis using t assms(1) by (auto simp: tracks_def fw_inv_def items)
    next
      case (Some r)
      then have "r = p" using assms(1) by (simp add: fw_inv_def)
      with Some show ?thesis using t assms(1) unfolding d items by (simp add: tracks_def fw_inv_def)
    qed
    moreover have "mSubscriptionObj st1 = mSubscriptionObj st" using t by (simp add: tracks_def)
    ultimately show ?thesis using assms(1,3) by (auto simp: fw_inv_def q d)
  qed
qed

lemma only_framework_snoc: "only_framework p (es @ [e]) \<longleftrightarrow> only_framework p es \<and> only_framework p [e]"
  by (auto simp: only_framework_def)

text \<open>C18. In every run in which no second object registers as the framework, and once it has, the
framework is subscribed to exactly the data items that some client watches, without those that are
watched on demand only: the items that were first requested with \<open>requestData\<close> while nobody watched
them, for as long as somebody does. In particular it is subscribed to nothing that nobody wants, and
when no data are requested on demand it is subscribed to everything that is watched, also before it
came.
\<close>

theorem framework_subscribed:
  assumes "os_run lib es (new_os_observer, []) = Some (st, out)" "only_framework p es" "mSubscriptionObj st \<noteq> None"
  shows "fw_items p out = Domain (pairs (mDataItemToClients st)) - on_demand lib es \<and>
    on_demand lib es \<subseteq> Domain (pairs (mDataItemToClients st)) \<and>
    ((\<forall>l c. Ev_subscribe l c True \<notin> set es) \<longrightarrow> on_demand lib es = {})"
proof -
  have "only_framework p es \<longrightarrow> fw_inv p (on_demand lib es) st out" using assms(1)
  proof (induction rule: os_run_induct)
    case start
    show ?case by (simp add: fw_inv_def new_os_observer_def fw_items_def on_demand_def)
  next
    case (step es e st out st1 o1)
    have d: "on_demand lib (es @ [e]) = on_demand_step e st st1 (on_demand lib es)"
      unfolding on_demand_def by (rule on_demand_from_snoc [OF step(1,2)])
    show ?case
    proof
      assume "only_framework p (es @ [e])"
      then have o: "only_framework p [e]" and i: "fw_inv p (on_demand lib es) st out" using step(3) by (simp_all add: only_framework_snoc)
      show "fw_inv p (on_demand lib (es @ [e])) st1 (out @ o1)"
      proof (cases "\<exists>now. e = Ev_proc now")
        case True
        then obtain now where e: "e = Ev_proc now" by blast
        show ?thesis
        proof (cases "os_queue st")
          case Nil
          then show ?thesis using i step(2) run_maps [OF step(1)] unfolding d
            by (auto simp: e exec_proc fw_inv_def on_demand_step_def os_ok_def getKeys_eq)
        next
          case (Cons msg q)
          then show ?thesis using fw_inv_proc [OF i _ Cons] run_maps [OF step(1)] step(2) unfolding d by (simp add: e exec_proc)
        qed
      next
        case False
        have "os_run lib (es @ [e]) (new_os_observer, []) = Some (st1, out @ o1)" using step(1,2) by (simp add: os_run_snoc)
        then show ?thesis using fw_inv_api [OF i o step(2)] False run_maps d by auto
      qed
    qed
  qed
  then have i: "fw_inv p (on_demand lib es) st out" using assms(2) by blast
  have "(\<forall>l c. Ev_subscribe l c True \<notin> set es) \<longrightarrow> on_demand lib es = {} \<and> (\<forall>m \<in> set (os_queue st). \<forall>l c. m \<noteq> HandleSubscribeReq l c True)"
    using assms(1)
  proof (induction rule: os_run_induct)
    case start
    show ?case by (simp add: on_demand_def new_os_observer_def)
  next
    case (step es e st out st1 o1)
    have d: "on_demand lib (es @ [e]) = on_demand_step e st st1 (on_demand lib es)"
      unfolding on_demand_def by (rule on_demand_from_snoc [OF step(1,2)])
    show ?case
    proof
      assume n: "\<forall>l c. Ev_subscribe l c True \<notin> set (es @ [e])"
      then have i: "on_demand lib es = {}" "\<forall>m \<in> set (os_queue st). \<forall>l c. m \<noteq> HandleSubscribeReq l c True" using step(3) by auto
      have m: "on_demand_msg m st {} = {}" if "\<forall>l c. m \<noteq> HandleSubscribeReq l c True" for m
        using that by (cases "(m, st, {} :: item_id set)" rule: on_demand_msg.cases) auto
      have "on_demand_step e st st1 {} = {}"
        using i(2) m by (auto simp: on_demand_step_def split: os_event.splits list.splits)
      moreover have "\<forall>m \<in> set (os_queue st1). \<forall>l c. m \<noteq> HandleSubscribeReq l c True"
      proof (cases "\<exists>now. e = Ev_proc now")
        case True
        then show ?thesis using step(2) i(2) proc_queue
          by (auto simp: exec_proc split: list.splits) (metis os_observer.select_convs(9) os_observer.surjective os_observer.update_convs(9))
      next
        case False
        then obtain q where "os_queue st1 = os_queue st @ q" "\<forall>m \<in> set q. neutral_msg m \<or> m \<in> posted e"
          using exec_api [OF step(2)] by blast
        moreover have "\<not> (HandleSubscribeReq l c True \<in> posted e)" for l c
          using n by (cases e) (auto simp: posted_def split: option.splits)
        ultimately show ?thesis using i(2) by fastforce
      qed
      ultimately show "on_demand lib (es @ [e]) = {} \<and> (\<forall>m \<in> set (os_queue st1). \<forall>l c. m \<noteq> HandleSubscribeReq l c True)"
        using i(1) d by simp
    qed
  qed
  then show ?thesis using i assms(3) by (auto simp: fw_inv_def)
qed

section \<open>Modules\<close>

text \<open>The requests for one module: whether it is turned on, in the calls made and in the queue.\<close>

fun call_turn :: "item_id \<Rightarrow> os_call \<Rightarrow> bool list" where
  "call_turn dit (FwTurnOn p d t) = (if d = dit then [True] else [])"
| "call_turn dit (FwTurnOff p d) = (if d = dit then [False] else [])"
| "call_turn dit _ = []"

fun msg_turn :: "item_id \<Rightarrow> os_msg \<Rightarrow> bool list" where
  "msg_turn dit (HandleTurnOnMsg p d t) = (if d = dit then [True] else [])"
| "msg_turn dit (HandleTurnOffMsg p d) = (if d = dit then [False] else [])"
| "msg_turn dit _ = []"

definition turns :: "item_id \<Rightarrow> os_call list \<Rightarrow> os_msg list \<Rightarrow> bool list" where
  "turns dit out q = concat (map (call_turn dit) out) @ concat (map (msg_turn dit) q)"

text \<open>Who uses a module: requests count only while there is a framework to ask.\<close>

fun users_step :: "item_id \<Rightarrow> os_event \<Rightarrow> bool \<times> nat \<Rightarrow> bool \<times> nat" where
  "users_step dit (Ev_setFrameworkActionReqObj obj) (fw, n) = (obj \<noteq> None, n)"
| "users_step dit (Ev_turnOn d t) (fw, n) = (fw, if fw \<and> d = dit then n + 1 else n)"
| "users_step dit (Ev_turnOff d) (fw, n) = (fw, if fw \<and> d = dit then n - 1 else n)"
| "users_step dit _ s = s"

definition users :: "item_id \<Rightarrow> os_event list \<Rightarrow> bool \<times> nat" where
  "users dit es = fold (users_step dit) es (False, 0)"

definition turn_inv :: "item_id \<Rightarrow> bool \<times> nat \<Rightarrow> os_observer \<Rightarrow> os_call list \<Rightarrow> bool" where
  "turn_inv dit u st out \<longleftrightarrow> om_ok (mActiveRequestCount st) \<and> (mFrameworkActionReqObj st \<noteq> None) = fst u \<and>
     om_find (mActiveRequestCount st) dit = (if snd u = 0 then None else Some (int (snd u))) \<and>
     in_turn False (turns dit out (os_queue st)) = Some (0 < snd u)"

lemma turns_api: "turns dit out (q @ [m]) = turns dit out q @ msg_turn dit m"
  by (simp add: turns_def)

lemma turns_proc: "concat (map (call_turn dit) o1) = msg_turn dit m \<Longrightarrow> turns dit (out @ o1) q = turns dit out (m # q)"
  by (simp add: turns_def)

lemma backhaul_turns:
  "turns dit out (os_queue (fold (\<lambda>name s. snd (connectBackhaul name s)) names st)) = turns dit out (os_queue st)"
  by (induction names arbitrary: st) (auto simp: connectBackhaul_def turns_api split: option.split)

lemma turn_setFramework:
  assumes "turn_inv dit (fw, n) st out"
  shows "turn_inv dit (obj \<noteq> None, n) (setFrameworkActionReqObj obj st) out"
  using assms backhaul_fold [of "st\<lparr>mFrameworkActionReqObj := obj\<rparr>" "mBackHaulConnReqCache st"]
    backhaul_turns [of dit out "mBackHaulConnReqCache st" "st\<lparr>mFrameworkActionReqObj := obj\<rparr>"]
  by (auto simp: setFrameworkActionReqObj_def turn_inv_def Let_def)

lemma turn_on:
  assumes "turn_inv dit (fw, n) st out" "turnOn d t st = Some st1"
  shows "turn_inv dit (users_step dit (Ev_turnOn d t) (fw, n)) st1 out"
  using assms by (auto simp: turnOn_def turn_inv_def turns_api in_turn_append split: option.splits if_splits)

lemma turn_off:
  assumes "turn_inv dit (fw, n) st out"
  shows "turn_inv dit (users_step dit (Ev_turnOff d) (fw, n)) (turnOff d st) out"
proof (cases "fw \<and> d = dit \<and> n = 1")
  case True
  then show ?thesis using assms by (auto simp: turnOff_def turn_inv_def turns_api in_turn_append split: option.splits)
next
  case False
  then show ?thesis using assms by (auto simp: turnOff_def turn_inv_def turns_api in_turn_append of_nat_diff split: option.splits if_splits)
qed

lemma sendCached_turn [simp]: "concat (map (call_turn dit) (sendCachedDataItems s c st)) = []"
  by (simp add: sendCachedDataItems_def Let_def)

lemma sendCached_turns [simp]: "concat (map (call_turn dit) (concat (map (\<lambda>c. sendCachedDataItems (f c) c st) cs))) = []"
  by (induction cs) (simp_all del: concat_eq_Nil_conv)

lemma fw_calls_turn [simp]:
  "concat (map (call_turn dit) (fw_calls obj FwSubscribe ids)) = []" "concat (map (call_turn dit) (fw_calls obj FwUnsubscribe ids)) = []"
  by (cases obj; simp add: fw_calls_def)+

lemma updateCache_counts:
  "mActiveRequestCount (snd (updateCache lib now d st)) = mActiveRequestCount st \<and>
   mFrameworkActionReqObj (snd (updateCache lib now d st)) = mFrameworkActionReqObj st"
  by (auto simp: updateCache_def Let_def split: option.splits prod.splits)

lemma update_items_counts:
  "mActiveRequestCount (snd (update_items lib now items ids st)) = mActiveRequestCount st \<and>
   mFrameworkActionReqObj (snd (update_items lib now items ids st)) = mFrameworkActionReqObj st"
proof (induction items arbitrary: ids st)
  case (Cons i items)
  obtain u st1 where "updateCache lib now i st = (u, st1)" by (cases "updateCache lib now i st")
  then show ?case using Cons.IH [where st = st1] updateCache_counts [of lib now i st] by simp
qed simp

lemma proc_turns:
  assumes "os_proc lib now msg st = Some (st1, o1)"
  shows "mActiveRequestCount st1 = mActiveRequestCount st \<and> mFrameworkActionReqObj st1 = mFrameworkActionReqObj st \<and>
    concat (map (call_turn dit) o1) = msg_turn dit msg"
proof (cases msg)
  case (HandleNotify items)
  then show ?thesis using assms update_items_counts [of lib now items "{}" st]
    by (auto simp: os_proc_def proc_Notify_def Let_def case_prod_beta simp del: concat_eq_Nil_conv)
qed (use assms in \<open>auto simp: os_proc_def proc_SetSubsObj_def proc_SubscribeReq_def proc_UpdateSubscriptionReq_def proc_UnsubscribeReq_def
      proc_UnsubscribeAllReq_def Let_def case_prod_beta simp del: concat_eq_Nil_conv split: if_splits option.splits\<close>)

lemma turn_exec:
  assumes "turn_inv dit u st out" "os_exec lib e st = Some (st1, o1)"
  shows "turn_inv dit (users_step dit e u) st1 (out @ o1)"
proof -
  obtain fw n where u: "u = (fw, n)" by (cases u)
  show ?thesis
  proof (cases e)
    case (Ev_proc now)
    show ?thesis
    proof (cases "os_queue st")
      case Nil
      then show ?thesis using assms by (simp add: Ev_proc exec_proc)
    next
      case (Cons msg q)
      then have p: "os_proc lib now msg (st\<lparr>os_queue := q\<rparr>) = Some (st1, o1)" using assms(2) by (simp add: Ev_proc exec_proc)
      from proc_turns [OF p, of dit] proc_queue [OF p] show ?thesis
        using assms(1) Cons turns_proc [of dit o1 msg out q] by (simp add: Ev_proc turn_inv_def)
    qed
  next
    case (Ev_setFrameworkActionReqObj obj)
    then show ?thesis using assms turn_setFramework [of dit fw n st out obj] by (simp add: u os_exec_def)
  next
    case (Ev_turnOn d t)
    then show ?thesis using assms turn_on [of dit fw n st out d t] by (auto simp: u os_exec_def)
  next
    case (Ev_turnOff d)
    then show ?thesis using assms turn_off [of dit fw n st out d] by (auto simp: u os_exec_def)
  qed (use assms in \<open>auto simp: u os_exec_def setSubscriptionObj_def os_subscribe_def updateSubscription_def os_unsubscribe_def
        unsubscribeAll_def os_notify_def connectBackhaul_def disconnectBackhaul_def turn_inv_def turns_api split: option.splits if_splits\<close>)
qed

text \<open>C31. In every run, the requests to the framework about a module, those made and those still
  queued, turn it on and off in turn, and the last one leaves it on exactly when it has users; the
  reference count is the number of users. A release without a user changes nothing.
\<close>

theorem modules_follow_users:
  assumes "os_run lib es (new_os_observer, []) = Some (st, out)"
  shows "in_turn False (turns dit out (os_queue st)) = Some (0 < snd (users dit es)) \<and>
    om_find (mActiveRequestCount st) dit = (if snd (users dit es) = 0 then None else Some (int (snd (users dit es))))"
proof -
  have "turn_inv dit (users dit es) st out" using assms
  proof (induction rule: os_run_induct)
    case start
    show ?case by (simp add: turn_inv_def users_def new_os_observer_def turns_def)
  next
    case (step es e st out st1 o1)
    then show ?case using turn_exec [of dit "users dit es" st out lib e] by (simp add: users_def)
  qed
  then show ?thesis by (simp add: turn_inv_def)
qed

section \<open>Instances\<close>

text \<open>A client subscribes before the framework comes, the item is reported, and a module is used.\<close>

definition os_example :: "os_event list" where
  "os_example = [Ev_subscribe [TAC_DATA_ITEM_ID] (Some 5) False, Ev_setSubscriptionObj (Some 9), Ev_proc 1, Ev_proc 2,
     Ev_setFrameworkActionReqObj (Some 9), Ev_turnOn GPSSTATE_DATA_ITEM_ID 0]"

lemma os_example_runs: "os_run plain_lib os_example (new_os_observer, []) \<noteq> None"
  by (simp add: os_example_def os_exec_def new_os_observer_def os_subscribe_def setSubscriptionObj_def os_sendMsg_def os_proc_def
      setFrameworkActionReqObj_def turnOn_def Let_def proc_SubscribeReq_def proc_SetSubsObj_def case_prod_beta)

lemma os_example_result:
  obtains st out where "os_run plain_lib os_example (new_os_observer, []) = Some (st, out)"
    "snd (users GPSSTATE_DATA_ITEM_ID os_example) = 1"
proof -
  obtain st out where r: "os_run plain_lib os_example (new_os_observer, []) = Some (st, out)" using os_example_runs by auto
  moreover have "snd (users GPSSTATE_DATA_ITEM_ID os_example) = 1" by (simp add: users_def os_example_def)
  ultimately show thesis using that by blast
qed

text \<open>One client requests an item on demand, another one subscribes to it and to a second one afterwards.\<close>

definition os_requests :: "os_event list" where
  "os_requests = [Ev_setSubscriptionObj (Some 9), Ev_proc 1, Ev_subscribe [TAC_DATA_ITEM_ID] (Some 5) True, Ev_proc 2,
     Ev_subscribe [TAC_DATA_ITEM_ID, MCCMNC_DATA_ITEM_ID] (Some 6) False, Ev_proc 3]"

lemma os_requests_run:
  "map_option (\<lambda>(st, out). (mSubscriptionObj st, out)) (os_run plain_lib os_requests (new_os_observer, [])) =
    Some (Some 9, [FwRequestData 9 [TAC_DATA_ITEM_ID], FwSubscribe 9 [MCCMNC_DATA_ITEM_ID]])"
  by code_simp

lemma os_requests_demand: "on_demand plain_lib os_requests = {TAC_DATA_ITEM_ID}"
  by code_simp

text \<open>The second client is subscribed to an item that the framework is not subscribed to.\<close>

theorem framework_subscribed_witness:
  "\<exists>st out. os_run plain_lib os_requests (new_os_observer, []) = Some (st, out) \<and>
    fw_items 9 out = Domain (pairs (mDataItemToClients st)) - {TAC_DATA_ITEM_ID}"
proof -
  obtain st out where r: "os_run plain_lib os_requests (new_os_observer, []) = Some (st, out)" "mSubscriptionObj st \<noteq> None"
    using os_requests_run by auto
  have "only_framework 9 os_requests" by (simp add: only_framework_def os_requests_def)
  from framework_subscribed [OF r(1) this r(2)] r(1) show ?thesis by (simp add: os_requests_demand)
qed

theorem modules_follow_users_witness:
  "\<exists>st out. os_run plain_lib os_example (new_os_observer, []) = Some (st, out) \<and>
    in_turn False (turns GPSSTATE_DATA_ITEM_ID out (os_queue st)) = Some True"
proof -
  obtain st out where r: "os_run plain_lib os_example (new_os_observer, []) = Some (st, out)"
    "snd (users GPSSTATE_DATA_ITEM_ID os_example) = 1" by (rule os_example_result)
  from modules_follow_users [OF r(1), of GPSSTATE_DATA_ITEM_ID] r show ?thesis by auto
qed

end
