(* ===== verification/Client_Api.thy ===== *)
theory Client_Api
  imports Loc_Adapter
begin

text \<open>
  The entry of location/LocationAPI.cpp: clients are made and destroyed, the interfaces of the
  adapters are loaded when they are first needed, requests are passed on to them, and a client that
  is destroyed is deleted when the adapters have removed it. What an interface returns is an
  argument of the operations. An argument that is only passed on, such as options, is a number. None
  is undefined behaviour: the use of a deleted client, or the call of an empty function.
\<close>

section \<open>State\<close>

datatype iface = GNSS | BATCHING | GEOFENCE

type_synonym adapter_mask = "16 word"

definition LOCATION_ADAPTER_GNSS_TYPE_BIT :: adapter_mask where "LOCATION_ADAPTER_GNSS_TYPE_BIT = 1"
definition LOCATION_ADAPTER_BATCHING_TYPE_BIT :: adapter_mask where "LOCATION_ADAPTER_BATCHING_TYPE_BIT = 2"
definition LOCATION_ADAPTER_GEOFENCE_TYPE_BIT :: adapter_mask where "LOCATION_ADAPTER_GEOFENCE_TYPE_BIT = 4"

record destroy_data =
  waitAdapterMask :: adapter_mask
  destroyCompleteCb :: ptr

type_synonym opaque = nat

datatype la_request =
    StartTracking addr opaque
  | StopTracking addr u32
  | UpdateTrackingOptions addr u32 opaque
  | GnssNiResponse addr u32 opaque
  | StartBatching addr opaque
  | StopBatching addr u32
  | UpdateBatchingOptions addr u32 opaque
  | GetBatchedLocations addr u32 nat
  | AddGeofences addr nat opaque opaque
  | RemoveGeofences addr nat "u32 list"
  | ModifyGeofences addr nat "u32 list" opaque
  | PauseGeofences addr nat "u32 list"
  | ResumeGeofences addr nat "u32 list"
  | Enable opaque
  | Disable u32
  | GnssUpdateConfig opaque
  | GnssGetConfig u32
  | GnssDeleteAidingData opaque
  | GnssUpdateSvConfig opaque opaque
  | GnssUpdateSecondaryBandConfig opaque
  | SetConstrainedTunc bool opaque u32
  | SetPositionAssistedClockEstimator bool
  | ConfigLeverArm opaque
  | ConfigRobustLocation bool bool
  | ConfigMinGpsWeek "16 word"
  | ConfigDeadReckoningEngineParams opaque
  | ConfigEngineRunState u32 opaque

datatype la_call =
    CreateOSFramework
  | DestroyOSFramework
  | Initialize iface
  | AddClient iface addr location_callbacks
  | RequestCapabilities iface addr
  | RemoveClient iface addr
  | SetControlCallbacks opaque
  | Request iface la_request

text \<open>
  Besides the fields of the code: the clients that are allocated, the clients that an interface has
  been asked to remove and has not yet, and the calls made.
\<close>

record location_api_data =
  clientData :: "(addr, location_callbacks) omap"
  destroyClientData :: "(addr, destroy_data) omap"
  controlAPI :: ptr
  controlCallbacks :: opaque
  ifaces :: "iface \<Rightarrow> bool"
  loadFailed :: "iface \<Rightarrow> bool"
  gOSFrameworkRefCount :: u32
  la_alive :: "addr set"
  la_removing :: "(iface \<times> addr) set"
  la_outs :: "la_call list"

definition la_start :: location_api_data where
  "la_start = \<lparr>clientData = [], destroyClientData = [], controlAPI = None, controlCallbacks = 0, ifaces = (\<lambda>i. False),
     loadFailed = (\<lambda>i. False), gOSFrameworkRefCount = 0, la_alive = {}, la_removing = {}, la_outs = []\<rparr>"

definition la_emit :: "la_call list \<Rightarrow> location_api_data \<Rightarrow> location_api_data" where
  "la_emit calls g = g\<lparr>la_outs := la_outs g @ calls\<rparr>"

section \<open>Clients\<close>

definition isGnssClient :: "location_callbacks \<Rightarrow> bool" where
  "isGnssClient c \<longleftrightarrow> gnssNiCb c \<or> trackingCb c \<or> gnssLocationInfoCb c \<or> engineLocationsInfoCb c \<or> gnssSvCb c \<or> gnssNmeaCb c \<or>
     gnssDataCb c \<or> gnssMeasurementsCb c \<or> locationSystemInfoCb c"

definition isBatchingClient :: "location_callbacks \<Rightarrow> bool" where
  "isBatchingClient c \<longleftrightarrow> batchingCb c"

definition isGeofenceClient :: "location_callbacks \<Rightarrow> bool" where
  "isGeofenceClient c \<longleftrightarrow> geofenceBreachCb c \<or> geofenceStatusCb c"

definition is_client_of :: "iface \<Rightarrow> location_callbacks \<Rightarrow> bool" where
  "is_client_of i c = (case i of GNSS \<Rightarrow> isGnssClient c | BATCHING \<Rightarrow> isBatchingClient c | GEOFENCE \<Rightarrow> isGeofenceClient c)"

text \<open>An interface is loaded once; \<open>lib\<close> says whether its library can be loaded.\<close>

definition load_interface :: "(iface \<Rightarrow> bool) \<Rightarrow> iface \<Rightarrow> location_api_data \<Rightarrow> location_api_data" where
  "load_interface lib i g =
     (if \<not> ifaces g i \<and> \<not> loadFailed g i
      then if lib i then la_emit [Initialize i] (g\<lparr>ifaces := (ifaces g)(i := True)\<rparr>)
           else g\<lparr>loadFailed := (loadFailed g)(i := True)\<rparr>
      else g)"

text \<open>One of the three blocks for a new client: with the flag that the capabilities were requested.\<close>

definition join_interface :: "(iface \<Rightarrow> bool) \<Rightarrow> addr \<Rightarrow> location_callbacks \<Rightarrow> iface \<Rightarrow> bool \<times> location_api_data \<Rightarrow> bool \<times> location_api_data" where
  "join_interface lib client cbs i s =
     (case s of (requestedCapabilities, g) \<Rightarrow>
        if is_client_of i cbs
        then (let g1 = load_interface lib i g in
              if ifaces g1 i
              then (True, la_emit ([AddClient i client cbs] @ (if requestedCapabilities then [] else [RequestCapabilities i client])) g1)
              else (requestedCapabilities, g1))
        else (requestedCapabilities, g))"

definition mandatory_callbacks :: "location_callbacks \<Rightarrow> bool" where
  "mandatory_callbacks c \<longleftrightarrow> capabilitiesCb c \<and> responseCb c \<and> collectiveResponseCb c"

definition la_createInstance :: "(iface \<Rightarrow> bool) \<Rightarrow> addr \<Rightarrow> location_callbacks \<Rightarrow> location_api_data \<Rightarrow> ptr \<times> location_api_data" where
  "la_createInstance lib newLocationAPI cbs g =
     (if \<not> mandatory_callbacks cbs then (None, g)
      else
        (let g1 = g\<lparr>la_alive := insert newLocationAPI (la_alive g), gOSFrameworkRefCount := gOSFrameworkRefCount g + 1\<rparr>;
             g2 = (if gOSFrameworkRefCount g1 = 1 then la_emit [CreateOSFramework] g1 else g1);
             (_, g3) = join_interface lib newLocationAPI cbs GEOFENCE
                         (join_interface lib newLocationAPI cbs BATCHING
                           (join_interface lib newLocationAPI cbs GNSS (False, g2)))
         in (Some newLocationAPI, g3\<lparr>clientData := om_put newLocationAPI cbs (clientData g3)\<rparr>)))"

definition update_interface :: "(iface \<Rightarrow> bool) \<Rightarrow> addr \<Rightarrow> location_callbacks \<Rightarrow> iface \<Rightarrow> location_api_data \<Rightarrow> location_api_data" where
  "update_interface lib client cbs i g =
     (if is_client_of i cbs
      then (let g1 = load_interface lib i g in if ifaces g1 i then la_emit [AddClient i client cbs] g1 else g1)
      else g)"

definition la_updateCallbacks :: "(iface \<Rightarrow> bool) \<Rightarrow> addr \<Rightarrow> location_callbacks \<Rightarrow> location_api_data \<Rightarrow> location_api_data" where
  "la_updateCallbacks lib this cbs g =
     (if \<not> mandatory_callbacks cbs then g
      else
        (let g1 = update_interface lib this cbs GEOFENCE (update_interface lib this cbs BATCHING (update_interface lib this cbs GNSS g))
         in g1\<lparr>clientData := om_put this cbs (clientData g1)\<rparr>))"

definition wait_mask :: "(iface \<Rightarrow> bool) \<Rightarrow> adapter_mask" where
  "wait_mask loaded =
     ((if loaded GNSS then LOCATION_ADAPTER_GNSS_TYPE_BIT else 0) OR (if loaded BATCHING then LOCATION_ADAPTER_BATCHING_TYPE_BIT else 0))
     OR (if loaded GEOFENCE then LOCATION_ADAPTER_GEOFENCE_TYPE_BIT else 0)"

definition delete_client :: "addr \<Rightarrow> location_api_data \<Rightarrow> location_api_data option" where
  "delete_client this g = (if this \<in> la_alive g then Some (g\<lparr>la_alive := la_alive g - {this}\<rparr>) else None)"

text \<open>The callback is called when it is null; calling an empty function is not defined.\<close>

definition invoke_destroy_cb :: "ptr \<Rightarrow> location_api_data \<Rightarrow> location_api_data option" where
  "invoke_destroy_cb cb g = (if cb = None then None else Some g)"

definition la_destroy :: "addr \<Rightarrow> ptr \<Rightarrow> location_api_data \<Rightarrow> location_api_data option" where
  "la_destroy this cb g =
     (if this \<notin> la_alive g then None
      else
        (let found = om_find (clientData g) this \<noteq> None;
             needToWait = (ifaces g GNSS \<or> ifaces g BATCHING \<or> ifaces g GEOFENCE);
             g1 = (if found
                   then (let d = (case cb of
                                    Some f \<Rightarrow> if needToWait
                                      then g\<lparr>destroyClientData := om_put this \<lparr>waitAdapterMask = wait_mask (ifaces g), destroyCompleteCb = Some f\<rparr> (destroyClientData g)\<rparr>
                                      else g
                                  | None \<Rightarrow> g)
                         in (la_emit (map (\<lambda>i. RemoveClient i this) (filter (ifaces g) [GNSS, BATCHING, GEOFENCE])) d)
                              \<lparr>clientData := om_erase this (clientData g),
                               la_removing := la_removing g \<union> {(i, this) |i. ifaces g i}\<rparr>)
                   else g);
             g2 = (if gOSFrameworkRefCount g1 = 1 then la_emit [DestroyOSFramework] g1 else g1);
             g3 = g2\<lparr>gOSFrameworkRefCount := gOSFrameworkRefCount g2 - 1\<rparr>
         in if found \<and> \<not> needToWait
            then Option.bind (invoke_destroy_cb cb g3) (delete_client this)
            else Some g3))"

definition adapter_bit :: "iface \<Rightarrow> adapter_mask" where
  "adapter_bit i = (case i of GNSS \<Rightarrow> LOCATION_ADAPTER_GNSS_TYPE_BIT | BATCHING \<Rightarrow> LOCATION_ADAPTER_BATCHING_TYPE_BIT
     | GEOFENCE \<Rightarrow> LOCATION_ADAPTER_GEOFENCE_TYPE_BIT)"

definition onRemoveClientCompleteCb :: "addr \<Rightarrow> adapter_mask \<Rightarrow> location_api_data \<Rightarrow> location_api_data option" where
  "onRemoveClientCompleteCb this adapterType g =
     (if this \<notin> la_alive g then None
      else case om_find (destroyClientData g) this of
        None \<Rightarrow> Some g
      | Some d \<Rightarrow>
          (let mask = waitAdapterMask d AND NOT adapterType in
           if mask = 0
           then Option.bind (invoke_destroy_cb (destroyCompleteCb d) (g\<lparr>destroyClientData := om_erase this (destroyClientData g)\<rparr>)) (delete_client this)
           else Some (g\<lparr>destroyClientData := om_put this (d\<lparr>waitAdapterMask := mask\<rparr>) (destroyClientData g)\<rparr>)))"

definition on_remove_complete :: "iface \<Rightarrow> addr \<Rightarrow> location_api_data \<Rightarrow> location_api_data option" where
  "on_remove_complete i client g = onRemoveClientCompleteCb client (adapter_bit i) (g\<lparr>la_removing := la_removing g - {(i, client)}\<rparr>)"

section \<open>Requests\<close>

text \<open>What a request returns, and the call of the interface.\<close>

definition via :: "iface \<Rightarrow> la_request \<Rightarrow> 'r \<Rightarrow> 'r \<Rightarrow> location_api_data \<Rightarrow> 'r \<times> la_call list" where
  "via i rq ret none g = (if ifaces g i then (ret, [Request i rq]) else (none, []))"

definition known_client :: "addr \<Rightarrow> location_api_data \<Rightarrow> bool" where
  "known_client this g \<longleftrightarrow> om_find (clientData g) this \<noteq> None"

definition la_startTracking :: "addr \<Rightarrow> opaque \<Rightarrow> u32 \<Rightarrow> location_api_data \<Rightarrow> u32 \<times> la_call list" where
  "la_startTracking this options ret g = (if known_client this g then via GNSS (StartTracking this options) ret 0 g else (0, []))"

definition la_stopTracking :: "addr \<Rightarrow> u32 \<Rightarrow> location_api_data \<Rightarrow> la_call list" where
  "la_stopTracking this i g = (if known_client this g then snd (via GNSS (StopTracking this i) () () g) else [])"

definition la_updateTrackingOptions :: "addr \<Rightarrow> u32 \<Rightarrow> opaque \<Rightarrow> location_api_data \<Rightarrow> la_call list" where
  "la_updateTrackingOptions this i options g =
     (if known_client this g then snd (via GNSS (UpdateTrackingOptions this i options) () () g) else [])"

definition la_startBatching :: "addr \<Rightarrow> opaque \<Rightarrow> u32 \<Rightarrow> location_api_data \<Rightarrow> u32 \<times> la_call list" where
  "la_startBatching this options ret g = via BATCHING (StartBatching this options) ret 0 g"

definition la_stopBatching :: "addr \<Rightarrow> u32 \<Rightarrow> location_api_data \<Rightarrow> la_call list" where
  "la_stopBatching this i g = snd (via BATCHING (StopBatching this i) () () g)"

definition la_updateBatchingOptions :: "addr \<Rightarrow> u32 \<Rightarrow> opaque \<Rightarrow> location_api_data \<Rightarrow> la_call list" where
  "la_updateBatchingOptions this i options g = snd (via BATCHING (UpdateBatchingOptions this i options) () () g)"

definition la_getBatchedLocations :: "addr \<Rightarrow> u32 \<Rightarrow> nat \<Rightarrow> location_api_data \<Rightarrow> la_call list" where
  "la_getBatchedLocations this i count g = snd (via BATCHING (GetBatchedLocations this i count) () () g)"

definition la_addGeofences :: "addr \<Rightarrow> nat \<Rightarrow> opaque \<Rightarrow> opaque \<Rightarrow> u32 list option \<Rightarrow> location_api_data \<Rightarrow> u32 list option \<times> la_call list" where
  "la_addGeofences this count options info ids g = via GEOFENCE (AddGeofences this count options info) ids None g"

definition la_removeGeofences :: "addr \<Rightarrow> nat \<Rightarrow> u32 list \<Rightarrow> location_api_data \<Rightarrow> la_call list" where
  "la_removeGeofences this count ids g = snd (via GEOFENCE (RemoveGeofences this count ids) () () g)"

definition la_modifyGeofences :: "addr \<Rightarrow> nat \<Rightarrow> u32 list \<Rightarrow> opaque \<Rightarrow> location_api_data \<Rightarrow> la_call list" where
  "la_modifyGeofences this count ids options g = snd (via GEOFENCE (ModifyGeofences this count ids options) () () g)"

definition la_pauseGeofences :: "addr \<Rightarrow> nat \<Rightarrow> u32 list \<Rightarrow> location_api_data \<Rightarrow> la_call list" where
  "la_pauseGeofences this count ids g = snd (via GEOFENCE (PauseGeofences this count ids) () () g)"

definition la_resumeGeofences :: "addr \<Rightarrow> nat \<Rightarrow> u32 list \<Rightarrow> location_api_data \<Rightarrow> la_call list" where
  "la_resumeGeofences this count ids g = snd (via GEOFENCE (ResumeGeofences this count ids) () () g)"

definition la_gnssNiResponse :: "addr \<Rightarrow> u32 \<Rightarrow> opaque \<Rightarrow> location_api_data \<Rightarrow> la_call list" where
  "la_gnssNiResponse this i response g = snd (via GNSS (GnssNiResponse this i response) () () g)"

section \<open>The control API\<close>

definition la_control_createInstance :: "(iface \<Rightarrow> bool) \<Rightarrow> addr \<Rightarrow> bool \<Rightarrow> opaque \<Rightarrow> location_api_data \<Rightarrow> ptr \<times> location_api_data" where
  "la_control_createInstance lib new has_responseCb cbs g =
     (if has_responseCb \<and> controlAPI g = None
      then (let g1 = load_interface lib GNSS g in
            if ifaces g1 GNSS
            then (Some new, la_emit [SetControlCallbacks cbs] (g1\<lparr>controlAPI := Some new, controlCallbacks := cbs\<rparr>))
            else (None, g1))
      else (None, g))"

definition la_control_destroy :: "location_api_data \<Rightarrow> location_api_data" where
  "la_control_destroy g = g\<lparr>controlAPI := None\<rparr>"

definition lc_enable :: "opaque \<Rightarrow> u32 \<Rightarrow> location_api_data \<Rightarrow> u32 \<times> la_call list" where
  "lc_enable techType ret g = via GNSS (Enable techType) ret 0 g"

definition lc_disable :: "u32 \<Rightarrow> location_api_data \<Rightarrow> la_call list" where
  "lc_disable i g = snd (via GNSS (Disable i) () () g)"

definition lc_gnssUpdateConfig :: "opaque \<Rightarrow> u32 list option \<Rightarrow> location_api_data \<Rightarrow> u32 list option \<times> la_call list" where
  "lc_gnssUpdateConfig config ids g = via GNSS (GnssUpdateConfig config) ids None g"

definition lc_gnssGetConfig :: "u32 \<Rightarrow> u32 list option \<Rightarrow> location_api_data \<Rightarrow> u32 list option \<times> la_call list" where
  "lc_gnssGetConfig flags ids g = via GNSS (GnssGetConfig flags) ids None g"

definition lc_gnssDeleteAidingData :: "opaque \<Rightarrow> u32 \<Rightarrow> location_api_data \<Rightarrow> u32 \<times> la_call list" where
  "lc_gnssDeleteAidingData data ret g = via GNSS (GnssDeleteAidingData data) ret 0 g"

definition lc_configConstellations :: "opaque \<Rightarrow> opaque \<Rightarrow> u32 \<Rightarrow> location_api_data \<Rightarrow> u32 \<times> la_call list" where
  "lc_configConstellations enablement blacklist ret g = via GNSS (GnssUpdateSvConfig enablement blacklist) ret 0 g"

definition lc_configConstellationSecondaryBand :: "opaque \<Rightarrow> u32 \<Rightarrow> location_api_data \<Rightarrow> u32 \<times> la_call list" where
  "lc_configConstellationSecondaryBand config ret g = via GNSS (GnssUpdateSecondaryBandConfig config) ret 0 g"

definition lc_configConstrainedTimeUncertainty :: "bool \<Rightarrow> opaque \<Rightarrow> u32 \<Rightarrow> u32 \<Rightarrow> location_api_data \<Rightarrow> u32 \<times> la_call list" where
  "lc_configConstrainedTimeUncertainty enable tuncThreshold energyBudget ret g =
     via GNSS (SetConstrainedTunc enable tuncThreshold energyBudget) ret 0 g"

definition lc_configPositionAssistedClockEstimator :: "bool \<Rightarrow> u32 \<Rightarrow> location_api_data \<Rightarrow> u32 \<times> la_call list" where
  "lc_configPositionAssistedClockEstimator enable ret g = via GNSS (SetPositionAssistedClockEstimator enable) ret 0 g"

definition lc_configLeverArm :: "opaque \<Rightarrow> u32 \<Rightarrow> location_api_data \<Rightarrow> u32 \<times> la_call list" where
  "lc_configLeverArm config ret g = via GNSS (ConfigLeverArm config) ret 0 g"

definition lc_configRobustLocation :: "bool \<Rightarrow> bool \<Rightarrow> u32 \<Rightarrow> location_api_data \<Rightarrow> u32 \<times> la_call list" where
  "lc_configRobustLocation enable enableForE911 ret g = via GNSS (ConfigRobustLocation enable enableForE911) ret 0 g"

definition lc_configMinGpsWeek :: "16 word \<Rightarrow> u32 \<Rightarrow> location_api_data \<Rightarrow> u32 \<times> la_call list" where
  "lc_configMinGpsWeek minGpsWeek ret g = via GNSS (ConfigMinGpsWeek minGpsWeek) ret 0 g"

definition lc_configDeadReckoningEngineParams :: "opaque \<Rightarrow> u32 \<Rightarrow> location_api_data \<Rightarrow> u32 \<times> la_call list" where
  "lc_configDeadReckoningEngineParams config ret g = via GNSS (ConfigDeadReckoningEngineParams config) ret 0 g"

definition lc_configEngineRunState :: "u32 \<Rightarrow> opaque \<Rightarrow> u32 \<Rightarrow> location_api_data \<Rightarrow> u32 \<times> la_call list" where
  "lc_configEngineRunState engType engState ret g = via GNSS (ConfigEngineRunState engType engState) ret 0 g"

section \<open>Runs\<close>

text \<open>Requests do not change the state; the calls that they make are not part of a run.\<close>

datatype la_op =
    La_create addr location_callbacks
  | La_update addr location_callbacks
  | La_destroy addr ptr
  | La_removed iface addr
  | La_control_create addr bool opaque
  | La_control_destroy

definition la_step :: "(iface \<Rightarrow> bool) \<Rightarrow> la_op \<Rightarrow> location_api_data \<Rightarrow> (ptr \<times> location_api_data) option" where
  "la_step lib x g =
     (case x of
        La_create c cbs \<Rightarrow> Some (la_createInstance lib c cbs g)
      | La_update c cbs \<Rightarrow> Some (None, la_updateCallbacks lib c cbs g)
      | La_destroy c cb \<Rightarrow> map_option (Pair None) (la_destroy c cb g)
      | La_removed i c \<Rightarrow> map_option (Pair None) (on_remove_complete i c g)
      | La_control_create c r cbs \<Rightarrow> Some (la_control_createInstance lib c r cbs g)
      | La_control_destroy \<Rightarrow> Some (None, la_control_destroy g))"

text \<open>
  What the environment keeps to: memory for a new client is free, a client is used between its
  creation and its one destruction, an adapter answers what it was asked for. A client that is
  destroyed while no interface is loaded gives a callback.
\<close>

definition la_ok :: "la_op \<Rightarrow> location_api_data \<Rightarrow> bool" where
  "la_ok x g =
     (case x of
        La_create c cbs \<Rightarrow> c \<notin> la_alive g \<and> length (clientData g) + 1 < 2 ^ 32
      | La_update c cbs \<Rightarrow> known_client c g
      | La_destroy c cb \<Rightarrow> known_client c g \<and> ((\<forall>i. \<not> ifaces g i) \<longrightarrow> cb \<noteq> None)
      | La_removed i c \<Rightarrow> (i, c) \<in> la_removing g
      | _ \<Rightarrow> True)"

end
