(* ===== verification/Client_Lifecycle.thy ===== *)
theory Client_Lifecycle
  imports Client_Api
begin

text \<open>
  What happens to the clients of location/LocationAPI.cpp: a client is deleted once, when all
  adapters that were asked to remove it have done so, and the framework exists while there are
  clients. The callback for the completion is never called.
\<close>

section \<open>Steps that do not matter\<close>

definition framework_turns :: "la_call list \<Rightarrow> bool list" where
  "framework_turns outs = concat (map (\<lambda>c. case c of CreateOSFramework \<Rightarrow> [True] | DestroyOSFramework \<Rightarrow> [False] | _ \<Rightarrow> []) outs)"

lemma framework_turns_simps [simp]:
  "framework_turns [] = []" "framework_turns (as @ bs) = framework_turns as @ framework_turns bs"
  "framework_turns (Initialize i # cs) = framework_turns cs" "framework_turns (AddClient i c cb # cs) = framework_turns cs"
  "framework_turns (RequestCapabilities i c # cs) = framework_turns cs" "framework_turns (SetControlCallbacks o1 # cs) = framework_turns cs"
  "framework_turns (RemoveClient i c # cs) = framework_turns cs" "framework_turns (CreateOSFramework # cs) = True # framework_turns cs"
  "framework_turns (DestroyOSFramework # cs) = False # framework_turns cs"
  by (simp_all add: framework_turns_def)

lemma framework_turns_remove [simp]: "framework_turns (map (\<lambda>i. RemoveClient i c) is) = []"
  by (induction "is") simp_all

definition la_quiet :: "location_api_data \<Rightarrow> location_api_data \<Rightarrow> bool" where
  "la_quiet g g1 \<longleftrightarrow> clientData g1 = clientData g \<and> destroyClientData g1 = destroyClientData g \<and> la_alive g1 = la_alive g \<and>
     la_removing g1 = la_removing g \<and> gOSFrameworkRefCount g1 = gOSFrameworkRefCount g \<and>
     framework_turns (la_outs g1) = framework_turns (la_outs g)"

lemma la_quiet_refl [simp]: "la_quiet g g"
  by (simp add: la_quiet_def)

lemma la_quiet_trans: "la_quiet g g1 \<Longrightarrow> la_quiet g1 g2 \<Longrightarrow> la_quiet g g2"
  by (simp add: la_quiet_def)

lemma quiet_load: "la_quiet g (load_interface lib i g)"
  by (simp add: load_interface_def la_quiet_def la_emit_def)

lemma quiet_join: "la_quiet g (snd (join_interface lib c cbs i (b, g)))"
  using quiet_load [of g lib i] by (auto simp: join_interface_def la_quiet_def la_emit_def Let_def)

lemma quiet_update: "la_quiet g (update_interface lib c cbs i g)"
  using quiet_load [of g lib i] by (auto simp: update_interface_def la_quiet_def la_emit_def Let_def)

section \<open>Masks\<close>

lemma wait_mask_removed: "wait_mask f AND NOT (adapter_bit i) = wait_mask (f(i := False))"
  by (cases i; cases "f GNSS"; cases "f BATCHING"; cases "f GEOFENCE")
    (simp_all add: wait_mask_def adapter_bit_def LOCATION_ADAPTER_GNSS_TYPE_BIT_def LOCATION_ADAPTER_BATCHING_TYPE_BIT_def LOCATION_ADAPTER_GEOFENCE_TYPE_BIT_def)

lemma all_ifaces: "(\<forall>i. P i) \<longleftrightarrow> P GNSS \<and> P BATCHING \<and> P GEOFENCE"
  using iface.exhaust by metis

lemma wait_mask_0: "wait_mask f = 0 \<longleftrightarrow> (\<forall>i. \<not> f i)"
  by (cases "f GNSS"; cases "f BATCHING"; cases "f GEOFENCE")
    (simp_all add: all_ifaces wait_mask_def LOCATION_ADAPTER_GNSS_TYPE_BIT_def LOCATION_ADAPTER_BATCHING_TYPE_BIT_def LOCATION_ADAPTER_GEOFENCE_TYPE_BIT_def)

section \<open>The invariant\<close>

definition waits_for :: "addr \<Rightarrow> location_api_data \<Rightarrow> iface \<Rightarrow> bool" where
  "waits_for c g i \<longleftrightarrow> (i, c) \<in> la_removing g"

definition la_inv :: "addr set \<Rightarrow> location_api_data \<Rightarrow> bool" where
  "la_inv leaked g \<longleftrightarrow>
     om_ok (clientData g) \<and> om_ok (destroyClientData g) \<and>
     (\<forall>c. known_client c g \<longrightarrow> c \<in> la_alive g \<and> om_find (destroyClientData g) c = None) \<and>
     (\<forall>i c. (i, c) \<in> la_removing g \<longrightarrow> c \<in> la_alive g \<and> \<not> known_client c g) \<and>
     (\<forall>c d. om_find (destroyClientData g) c = Some d \<longrightarrow>
        c \<in> la_alive g \<and> destroyCompleteCb d \<noteq> None \<and> waitAdapterMask d = wait_mask (waits_for c g) \<and> (\<exists>i. waits_for c g i)) \<and>
     (\<forall>c \<in> la_alive g. known_client c g \<or> om_find (destroyClientData g) c \<noteq> None \<or> c \<in> leaked) \<and>
     (\<forall>c \<in> leaked. c \<in> la_alive g \<and> \<not> known_client c g \<and> om_find (destroyClientData g) c = None) \<and>
     length (clientData g) < 2 ^ 32 \<and> gOSFrameworkRefCount g = of_nat (length (clientData g)) \<and>
     in_turn False (framework_turns (la_outs g)) = Some (clientData g \<noteq> [])"

lemma la_inv_start: "la_inv {} la_start"
  by (simp add: la_inv_def la_start_def known_client_def)

lemma la_inv_quiet:
  assumes "la_inv leaked g" "la_quiet g g1"
  shows "la_inv leaked g1"
proof -
  have "known_client c g1 = known_client c g" "waits_for c g1 = waits_for c g" for c
    using assms(2) by (simp_all add: la_quiet_def known_client_def waits_for_def fun_eq_iff)
  then show ?thesis using assms unfolding la_inv_def la_quiet_def by simp
qed

lemma count_clients: "la_inv leaked g \<Longrightarrow> unat (gOSFrameworkRefCount g) = length (clientData g)"
  by (simp add: la_inv_def unat_of_nat_small)

text \<open>Counting up and down, with the framework switched at the ends.\<close>

lemma la_inv_put_known:
  assumes "la_inv leaked g" "known_client c g"
  shows "la_inv leaked (g\<lparr>clientData := om_put c cbs (clientData g)\<rparr>)"
proof -
  have "known_client x (g\<lparr>clientData := om_put c cbs (clientData g)\<rparr>) = known_client x g" for x
    using assms(2) by (simp add: known_client_def)
  moreover have "length (om_put c cbs (clientData g)) = length (clientData g)"
    using assms by (simp add: la_inv_def known_client_def length_put)
  moreover have "clientData g \<noteq> []" using assms(2) by (auto simp: known_client_def)
  moreover have "waits_for x (g\<lparr>clientData := om_put c cbs (clientData g)\<rparr>) = waits_for x g" for x
    by (simp add: waits_for_def fun_eq_iff)
  ultimately show ?thesis using assms(1) unfolding la_inv_def by simp
qed

lemma update_inv:
  assumes "la_inv leaked g" "known_client c g"
  shows "la_inv leaked (la_updateCallbacks lib c cbs g)"
proof -
  let ?g1 = "update_interface lib c cbs GEOFENCE (update_interface lib c cbs BATCHING (update_interface lib c cbs GNSS g))"
  have q: "la_quiet g ?g1" by (meson la_quiet_trans quiet_update)
  then have "known_client c ?g1" using assms(2) by (simp add: la_quiet_def known_client_def)
  with la_inv_put_known [OF la_inv_quiet [OF assms(1) q]] assms(1) show ?thesis
    by (simp add: la_updateCallbacks_def Let_def)
qed

lemma create_inv:
  assumes "la_inv leaked g" "c \<notin> la_alive g" "length (clientData g) + 1 < 2 ^ 32"
  shows "la_inv leaked (snd (la_createInstance lib c cbs g))"
proof (cases "mandatory_callbacks cbs")
  case True
  define g1 where "g1 = g\<lparr>la_alive := insert c (la_alive g), gOSFrameworkRefCount := gOSFrameworkRefCount g + 1\<rparr>"
  define g2 where "g2 = (if gOSFrameworkRefCount g1 = 1 then la_emit [CreateOSFramework] g1 else g1)"
  define g3 where "g3 = snd (join_interface lib c cbs GEOFENCE (join_interface lib c cbs BATCHING (join_interface lib c cbs GNSS (False, g2))))"
  have q: "la_quiet g2 g3"
    unfolding g3_def by (metis la_quiet_trans prod.collapse quiet_join snd_conv)
  have e: "la_createInstance lib c cbs g = (Some c, g3\<lparr>clientData := om_put c cbs (clientData g3)\<rparr>)"
    using True by (simp add: la_createInstance_def g1_def g2_def g3_def Let_def split_beta)
  have u: "unat (gOSFrameworkRefCount g) = length (clientData g)" using count_clients [OF assms(1)] .
  have one: "gOSFrameworkRefCount g + 1 = 1 \<longleftrightarrow> clientData g = []"
    using u by (metis add_cancel_left_left length_0_conv unat_eq_zero)
  have "om_find (destroyClientData g) c = None" using assms(1,2) unfolding la_inv_def by (metis not_Some_eq)
  moreover have "\<not> known_client c g" "\<And>i. (i, c) \<notin> la_removing g" using assms(1,2) unfolding la_inv_def by blast+
  ultimately have nk: "\<not> known_client c g" "om_find (destroyClientData g) c = None" "\<And>i. (i, c) \<notin> la_removing g" by blast+
  have f: "clientData g3 = clientData g" "destroyClientData g3 = destroyClientData g" "la_alive g3 = insert c (la_alive g)"
    "la_removing g3 = la_removing g" "gOSFrameworkRefCount g3 = gOSFrameworkRefCount g + 1"
    "framework_turns (la_outs g3) = framework_turns (la_outs g) @ (if clientData g = [] then [True] else [])"
    using q one by (simp_all add: la_quiet_def g2_def g1_def la_emit_def)
  define g4 where "g4 = g3\<lparr>clientData := om_put c cbs (clientData g3)\<rparr>"
  have f4: "clientData g4 = om_put c cbs (clientData g)" "destroyClientData g4 = destroyClientData g" "la_alive g4 = insert c (la_alive g)"
    "la_removing g4 = la_removing g" "gOSFrameworkRefCount g4 = gOSFrameworkRefCount g + 1"
    "framework_turns (la_outs g4) = framework_turns (la_outs g) @ (if clientData g = [] then [True] else [])"
    by (simp_all add: g4_def f)
  have w: "waits_for x g4 = waits_for x g" for x by (simp add: waits_for_def f4 fun_eq_iff)
  have k: "known_client x g4 \<longleftrightarrow> x = c \<or> known_client x g" for x by (simp add: known_client_def f4)
  have "length (om_put c cbs (clientData g)) = Suc (length (clientData g))"
    using assms(1) nk(1) by (simp add: la_inv_def length_put known_client_def)
  then have "la_inv leaked g4" using assms nk unfolding la_inv_def k w f4 by (auto simp: in_turn_append)
  then show ?thesis by (simp add: e g4_def)
next
  case False
  then show ?thesis using assms(1) by (simp add: la_createInstance_def)
qed

lemma la_destroy_inv:
  assumes "la_inv leaked g" "known_client c g" "(\<forall>i. \<not> ifaces g i) \<longrightarrow> cb \<noteq> None"
  shows "\<exists>g1. la_destroy c cb g = Some g1 \<and> la_inv (if cb = None then insert c leaked else leaked) g1"
proof -
  have al: "c \<in> la_alive g" "om_find (destroyClientData g) c = None" "\<And>i. (i, c) \<notin> la_removing g" "c \<notin> leaked"
    using assms(1,2) by (auto simp: la_inv_def)
  have fnd: "om_find (clientData g) c \<noteq> None" using assms(2) by (simp add: known_client_def)
  have ok: "om_ok (clientData g)" "om_ok (destroyClientData g)" using assms(1) by (simp_all add: la_inv_def)
  have len: "length (clientData g) = Suc (length (om_erase c (clientData g)))" using length_erase [OF ok(1) fnd] by simp
  have u: "unat (gOSFrameworkRefCount g) = length (clientData g)" using count_clients [OF assms(1)] .
  have one: "gOSFrameworkRefCount g = 1 \<longleftrightarrow> om_erase c (clientData g) = []"
    using u len by (simp add: word_unat_eq_iff)
  have cnt: "gOSFrameworkRefCount g - 1 = of_nat (length (om_erase c (clientData g)))"
    using assms(1) len by (simp add: la_inv_def)
  define wt where "wt \<longleftrightarrow> (\<exists>i. ifaces g i)"
  have wait: "ifaces g GNSS \<or> ifaces g BATCHING \<or> ifaces g GEOFENCE \<longleftrightarrow> wt"
    using all_ifaces [of "\<lambda>i. \<not> ifaces g i"] unfolding wt_def by blast
  define d where "d = (case cb of Some f \<Rightarrow> if wt
      then om_put c \<lparr>waitAdapterMask = wait_mask (ifaces g), destroyCompleteCb = Some f\<rparr> (destroyClientData g) else destroyClientData g
    | None \<Rightarrow> destroyClientData g)"
  obtain g3 where g3: "clientData g3 = om_erase c (clientData g)" "destroyClientData g3 = d" "la_alive g3 = la_alive g"
      "la_removing g3 = la_removing g \<union> {(i, c) |i. ifaces g i}" "gOSFrameworkRefCount g3 = of_nat (length (om_erase c (clientData g)))"
      "framework_turns (la_outs g3) = framework_turns (la_outs g) @ (if om_erase c (clientData g) = [] then [False] else [])"
      and r: "la_destroy c cb g = (if wt then Some g3 else Option.bind (invoke_destroy_cb cb g3) (delete_client c))"
  proof
    let ?g1 = "(la_emit (map (\<lambda>i. RemoveClient i c) (filter (ifaces g) [GNSS, BATCHING, GEOFENCE])) (g\<lparr>destroyClientData := d\<rparr>))
        \<lparr>clientData := om_erase c (clientData g), la_removing := la_removing g \<union> {(i, c) |i. ifaces g i}\<rparr>"
    let ?g2 = "if gOSFrameworkRefCount ?g1 = 1 then la_emit [DestroyOSFramework] ?g1 else ?g1"
    let ?g3 = "?g2\<lparr>gOSFrameworkRefCount := gOSFrameworkRefCount ?g2 - 1\<rparr>"
    have "(case cb of Some f \<Rightarrow> if wt
        then g\<lparr>destroyClientData := om_put c \<lparr>waitAdapterMask = wait_mask (ifaces g), destroyCompleteCb = Some f\<rparr> (destroyClientData g)\<rparr>
        else g | None \<Rightarrow> g) = g\<lparr>destroyClientData := d\<rparr>" by (cases cb; cases wt) (simp_all add: d_def)
    then show "la_destroy c cb g = (if wt then Some ?g3 else Option.bind (invoke_destroy_cb cb ?g3) (delete_client c))"
      using al(1) fnd by (simp add: la_destroy_def wait Let_def)
    show "clientData ?g3 = om_erase c (clientData g)" "destroyClientData ?g3 = d" "la_alive ?g3 = la_alive g"
      "la_removing ?g3 = la_removing g \<union> {(i, c) |i. ifaces g i}" "gOSFrameworkRefCount ?g3 = of_nat (length (om_erase c (clientData g)))"
      "framework_turns (la_outs ?g3) = framework_turns (la_outs g) @ (if om_erase c (clientData g) = [] then [False] else [])"
      using one cnt by (simp_all add: la_emit_def)
  qed
  have k: "known_client x g3 \<longleftrightarrow> x \<noteq> c \<and> known_client x g" for x using ok by (simp add: known_client_def g3)
  have w: "waits_for x g3 = (if x = c then ifaces g else waits_for x g)" for x using al(3) by (auto simp: waits_for_def g3 fun_eq_iff)
  have turns: "in_turn False (framework_turns (la_outs g3)) = Some (clientData g3 \<noteq> [])"
    using assms(1) fnd by (auto simp: la_inv_def g3 in_turn_append)
  have dd: "om_ok d" "om_find d x = (if x = c \<and> cb \<noteq> None \<and> wt
      then Some \<lparr>waitAdapterMask = wait_mask (ifaces g), destroyCompleteCb = cb\<rparr> else om_find (destroyClientData g) x)" for x
    using ok al(2) by (auto simp: d_def split: option.splits)
  show ?thesis
  proof (cases wt)
    case True
    have "la_inv (if cb = None then insert c leaked else leaked) g3"
      using assms(1) turns dd al True len unfolding la_inv_def k w g3(2-5) dd(2) by (auto simp: g3 wt_def)
    then show ?thesis using r True by simp
  next
    case False
    then obtain f where f: "cb = Some f" using assms(3) by (auto simp: wt_def)
    have wf: "waits_for x (g3\<lparr>la_alive := a\<rparr>) = (if x = c then ifaces g else waits_for x g)" for x a using w by (simp add: waits_for_def fun_eq_iff)
    have kf: "known_client x (g3\<lparr>la_alive := a\<rparr>) \<longleftrightarrow> x \<noteq> c \<and> known_client x g" for x a using k by (simp add: known_client_def)
    have rm: "la_removing g3 = la_removing g" using False by (simp add: g3 wt_def)
    have "la_inv leaked (g3\<lparr>la_alive := la_alive g - {c}\<rparr>)"
      using assms(1) turns dd al False len unfolding la_inv_def kf wf by (auto simp: g3(1-3,5) dd(2) rm)
    then show ?thesis using r False al(1) f by (simp add: invoke_destroy_cb_def delete_client_def g3(3))
  qed
qed

lemma removed_inv:
  assumes "la_inv leaked g" "(i, c) \<in> la_removing g"
  shows "\<exists>g1. on_remove_complete i c g = Some g1 \<and> la_inv leaked g1"
proof -
  define g0 where "g0 = g\<lparr>la_removing := la_removing g - {(i, c)}\<rparr>"
  have f0: "clientData g0 = clientData g" "destroyClientData g0 = destroyClientData g" "la_alive g0 = la_alive g"
    "la_removing g0 = la_removing g - {(i, c)}" "gOSFrameworkRefCount g0 = gOSFrameworkRefCount g" "la_outs g0 = la_outs g"
    by (simp_all add: g0_def)
  have al: "c \<in> la_alive g0" "\<not> known_client c g" using assms by (auto simp: la_inv_def g0_def)
  have w0: "waits_for x g0 = (if x = c then (waits_for c g)(i := False) else waits_for x g)" for x
    by (auto simp: waits_for_def f0 fun_eq_iff)
  have ok: "om_ok (destroyClientData g)" using assms(1) by (simp add: la_inv_def)
  show ?thesis
  proof (cases "om_find (destroyClientData g) c")
    case None
    have k: "known_client x g0 = known_client x g" for x by (simp add: known_client_def f0)
    have "la_inv leaked g0" using assms None unfolding la_inv_def f0 w0 k by auto
    then show ?thesis using None al(1) by (simp add: on_remove_complete_def onRemoveClientCompleteCb_def flip: g0_def) (simp add: f0)
  next
    case (Some d)
    then have d: "waitAdapterMask d = wait_mask (waits_for c g)" "destroyCompleteCb d \<noteq> None"
      using assms(1) by (auto simp: la_inv_def)
    have m: "waitAdapterMask d AND NOT (adapter_bit i) = wait_mask (waits_for c g0)"
      by (simp add: d wait_mask_removed w0)
    have f: "om_find (destroyClientData g0) c = Some d" using Some f0 by simp
    show ?thesis
    proof (cases "\<exists>j. waits_for c g0 j")
      case True
      define g1 where "g1 = g0\<lparr>destroyClientData := om_put c (d\<lparr>waitAdapterMask := wait_mask (waits_for c g0)\<rparr>) (destroyClientData g0)\<rparr>"
      have "wait_mask (waits_for c g0) \<noteq> 0" using True by (simp add: wait_mask_0)
      then have e: "on_remove_complete i c g = Some g1"
        using al(1) f m by (simp add: on_remove_complete_def onRemoveClientCompleteCb_def Let_def g1_def flip: g0_def)
      have f1: "clientData g1 = clientData g" "destroyClientData g1 = om_put c (d\<lparr>waitAdapterMask := wait_mask (waits_for c g0)\<rparr>) (destroyClientData g)"
        "la_alive g1 = la_alive g" "la_removing g1 = la_removing g - {(i, c)}" "gOSFrameworkRefCount g1 = gOSFrameworkRefCount g" "la_outs g1 = la_outs g"
        by (simp_all add: g1_def f0)
      have w: "waits_for x g1 = waits_for x g0" for x by (simp add: waits_for_def g1_def fun_eq_iff)
      have k: "known_client x g1 = known_client x g" for x by (simp add: known_client_def f1)
      have "la_inv leaked g1" using assms Some True d(2) al ok unfolding la_inv_def w k f1 by (auto simp: w0)
      with e show ?thesis by blast
    next
      case False
      define g1 where "g1 = g0\<lparr>destroyClientData := om_erase c (destroyClientData g0), la_alive := la_alive g0 - {c}\<rparr>"
      have "wait_mask (waits_for c g0) = 0" using False by (simp add: wait_mask_0)
      then have e: "on_remove_complete i c g = Some g1"
        using al(1) f m d(2) by (simp add: on_remove_complete_def onRemoveClientCompleteCb_def Let_def g1_def invoke_destroy_cb_def delete_client_def flip: g0_def)
      have f1: "clientData g1 = clientData g" "destroyClientData g1 = om_erase c (destroyClientData g)"
        "la_alive g1 = la_alive g - {c}" "la_removing g1 = la_removing g - {(i, c)}" "gOSFrameworkRefCount g1 = gOSFrameworkRefCount g" "la_outs g1 = la_outs g"
        by (simp_all add: g1_def f0)
      have w: "waits_for x g1 = waits_for x g0" for x by (simp add: waits_for_def g1_def fun_eq_iff)
      have k: "known_client x g1 = known_client x g" for x by (simp add: known_client_def f1)
      have nl: "c \<notin> leaked" using assms(1) Some by (auto simp: la_inv_def)
      have nc: "j = i" if "(j, c) \<in> la_removing g" for j using False that by (auto simp: waits_for_def f0)
      have fd: "om_find (destroyClientData g1) x = (if x = c then None else om_find (destroyClientData g) x)" for x
        using ok by (simp add: f1)
      have w1: "waits_for x g1 = waits_for x g" if "x \<noteq> c" for x using that by (simp add: w w0)
      have "la_inv leaked g1"
        using assms(1) ok al(2) nc nl unfolding la_inv_def k fd f1(1,3-6)
        by (elim conjE, intro conjI) (auto simp: f1(2) w1)
      with e show ?thesis by blast
    qed
  qed
qed

lemma control_inv:
  assumes "la_inv leaked g"
  shows "la_inv leaked (snd (la_control_createInstance lib new r cbs g))" "la_inv leaked (la_control_destroy g)"
proof -
  have "la_quiet g (snd (la_control_createInstance lib new r cbs g))"
    using quiet_load [of g lib GNSS] by (auto simp: la_control_createInstance_def la_quiet_def la_emit_def Let_def)
  then show "la_inv leaked (snd (la_control_createInstance lib new r cbs g))" by (rule la_inv_quiet [OF assms])
  have "la_quiet g (la_control_destroy g)" by (simp add: la_control_destroy_def la_quiet_def)
  then show "la_inv leaked (la_control_destroy g)" by (rule la_inv_quiet [OF assms])
qed

definition dropped :: "la_op list \<Rightarrow> addr set" where
  "dropped xs = {c. La_destroy c None \<in> set xs}"

lemma la_step_inv:
  assumes "la_inv leaked g" "la_ok x g"
  shows "\<exists>out g1. la_step lib x g = Some (out, g1) \<and> la_inv (leaked \<union> dropped [x]) g1"
proof (cases x)
  case (La_create c cbs)
  then have "la_inv leaked (snd (la_createInstance lib c cbs g))" using assms by (intro create_inv) (auto simp: la_ok_def)
  then show ?thesis by (cases "la_createInstance lib c cbs g") (auto simp: La_create la_step_def dropped_def)
next
  case (La_update c cbs)
  then show ?thesis using assms update_inv [of leaked g c lib cbs] by (auto simp: la_step_def la_ok_def dropped_def)
next
  case (La_destroy c cb)
  then obtain g1 where "la_destroy c cb g = Some g1" "la_inv (if cb = None then insert c leaked else leaked) g1"
    using assms la_destroy_inv [OF assms(1), of c cb] by (auto simp: la_ok_def)
  then show ?thesis by (cases cb) (auto simp: La_destroy la_step_def dropped_def)
next
  case (La_removed i c)
  then show ?thesis using assms removed_inv [OF assms(1), of i c] by (auto simp: la_step_def la_ok_def dropped_def)
next
  case (La_control_create c r cbs)
  then show ?thesis using control_inv(1) [OF assms(1), of lib c r cbs]
    by (cases "la_control_createInstance lib c r cbs g") (auto simp: la_step_def dropped_def)
next
  case La_control_destroy
  then show ?thesis using control_inv(2) [OF assms(1)] by (auto simp: la_step_def dropped_def)
qed

lemma la_run_inv:
  "la_inv leaked g \<Longrightarrow> ops_ok la_ok (la_step lib) xs g \<Longrightarrow>
    \<exists>outs g1. run_ops (la_step lib) xs g = Some (outs, g1) \<and> la_inv (leaked \<union> dropped xs) g1"
proof (induction xs arbitrary: g leaked)
  case (Cons x xs)
  obtain out g1 where s: "la_step lib x g = Some (out, g1)" "la_inv (leaked \<union> dropped [x]) g1"
    using la_step_inv [of leaked g x lib] Cons.prems by auto
  moreover have "leaked \<union> dropped [x] \<union> dropped xs = leaked \<union> dropped (x # xs)" by (auto simp: dropped_def)
  ultimately show ?case using Cons.IH [OF s(2)] Cons.prems(2) by auto
qed (simp add: dropped_def)

text \<open>C14. However clients are created, updated and destroyed and adapters finish, no deleted client
  is used or deleted again, and the clients allocated are exactly those in use, those which an adapter
  has still to remove, and those that were destroyed without a callback. So a client that is destroyed
  with a callback is deleted once, as soon as the last adapter is done, and one that is destroyed
  without, which is the default, is never deleted (\<open>destroy_null_leaks\<close>). The conditions
  are those of \<open>la_ok\<close>: a client is created at a free address and one in use is updated and destroyed, adapters
  report the removals they were asked for, and a client destroyed while no interface is loaded comes
  with a callback (the code calls an empty function otherwise, \<open>destroy_null_undefined\<close>).\<close>

theorem clients_deleted_once:
  assumes "ops_ok la_ok (la_step lib) xs la_start"
  shows "\<exists>outs g. run_ops (la_step lib) xs la_start = Some (outs, g) \<and>
    (\<forall>c. c \<in> la_alive g \<longleftrightarrow> known_client c g \<or> (\<exists>i. (i, c) \<in> la_removing g) \<or> La_destroy c None \<in> set xs) \<and>
    (\<forall>c. \<not> (known_client c g \<and> ((\<exists>i. (i, c) \<in> la_removing g) \<or> La_destroy c None \<in> set xs)))"
proof -
  obtain outs g where r: "run_ops (la_step lib) xs la_start = Some (outs, g)" "la_inv (dropped xs) g"
    using la_run_inv [OF la_inv_start assms] by auto
  have "\<exists>i. (i, c) \<in> la_removing g" if "om_find (destroyClientData g) c \<noteq> None" for c
    using r(2) that by (auto simp: la_inv_def waits_for_def)
  then have "c \<in> la_alive g \<longleftrightarrow> known_client c g \<or> (\<exists>i. (i, c) \<in> la_removing g) \<or> La_destroy c None \<in> set xs" for c
    using r(2) unfolding la_inv_def dropped_def by blast
  moreover have "\<not> (known_client c g \<and> ((\<exists>i. (i, c) \<in> la_removing g) \<or> La_destroy c None \<in> set xs))" for c
    using r(2) unfolding la_inv_def dropped_def by blast
  ultimately show ?thesis using r(1) by blast
qed

text \<open>The framework library is told to start and to stop in turn, and it runs exactly while there
  are clients.\<close>

theorem framework_while_clients:
  assumes "ops_ok la_ok (la_step lib) xs la_start" "run_ops (la_step lib) xs la_start = Some (outs, g)"
  shows "in_turn False (framework_turns (la_outs g)) = Some (clientData g \<noteq> [])"
  using la_run_inv [OF la_inv_start assms(1)] assms(2) by (auto simp: la_inv_def)

text \<open>A client of tracking and one of batching, the first destroyed while the second stays.\<close>

definition la_example :: "la_op list" where
  "la_example =
     (let cbs = no_callbacks\<lparr>capabilitiesCb := True, responseCb := True, collectiveResponseCb := True\<rparr> in
      [La_create 1 (cbs\<lparr>trackingCb := True\<rparr>), La_create 2 (cbs\<lparr>batchingCb := True\<rparr>), La_destroy 1 (Some 7),
       La_removed BATCHING 1, La_removed GNSS 1])"

lemma la_example_ok: "ops_ok la_ok (la_step (\<lambda>i. i \<noteq> GEOFENCE)) la_example la_start"
  by (simp add: la_example_def Let_def la_ok_def la_step_def la_start_def la_createInstance_def la_destroy_def on_remove_complete_def
      onRemoveClientCompleteCb_def join_interface_def load_interface_def is_client_of_def isGnssClient_def isBatchingClient_def
      isGeofenceClient_def no_callbacks_def mandatory_callbacks_def la_emit_def known_client_def wait_mask_def adapter_bit_def
      LOCATION_ADAPTER_GNSS_TYPE_BIT_def LOCATION_ADAPTER_BATCHING_TYPE_BIT_def LOCATION_ADAPTER_GEOFENCE_TYPE_BIT_def
      delete_client_def invoke_destroy_cb_def)

theorem clients_deleted_once_witness:
  "\<exists>outs g. run_ops (la_step (\<lambda>i. i \<noteq> GEOFENCE)) la_example la_start = Some (outs, g) \<and> 1 \<notin> la_alive g \<and> 2 \<in> la_alive g"
proof -
  have e: "case run_ops (la_step (\<lambda>i. i \<noteq> GEOFENCE)) la_example la_start of None \<Rightarrow> False
     | Some (outs, g) \<Rightarrow> map fst (clientData g) = [2] \<and> (\<forall>i. (i, 1) \<notin> la_removing g)"
    by (simp add: la_example_def Let_def la_step_def la_start_def la_createInstance_def la_destroy_def on_remove_complete_def
      onRemoveClientCompleteCb_def join_interface_def load_interface_def is_client_of_def isGnssClient_def isBatchingClient_def
      isGeofenceClient_def no_callbacks_def mandatory_callbacks_def la_emit_def known_client_def wait_mask_def adapter_bit_def
      LOCATION_ADAPTER_GNSS_TYPE_BIT_def LOCATION_ADAPTER_BATCHING_TYPE_BIT_def LOCATION_ADAPTER_GEOFENCE_TYPE_BIT_def
      delete_client_def invoke_destroy_cb_def)
  obtain outs g where r: "run_ops (la_step (\<lambda>i. i \<noteq> GEOFENCE)) la_example la_start = Some (outs, g)"
    "\<And>c. c \<in> la_alive g \<longleftrightarrow> known_client c g \<or> (\<exists>i. (i, c) \<in> la_removing g) \<or> La_destroy c None \<in> set la_example"
    using clients_deleted_once [OF la_example_ok] by blast
  with e have "map fst (clientData g) = [2]" "\<And>i. (i, 1) \<notin> la_removing g" by simp_all
  then have "known_client 2 g" "\<not> known_client 1 g" by (auto simp: known_client_def)
  with r \<open>\<And>i. (i, 1) \<notin> la_removing g\<close> show ?thesis by (auto simp: la_example_def Let_def)
qed

theorem framework_while_clients_witness:
  "\<exists>outs g. run_ops (la_step (\<lambda>i. i \<noteq> GEOFENCE)) la_example la_start = Some (outs, g) \<and>
    in_turn False (framework_turns (la_outs g)) = Some (clientData g \<noteq> [])"
proof -
  obtain outs g where r: "run_ops (la_step (\<lambda>i. i \<noteq> GEOFENCE)) la_example la_start = Some (outs, g)"
    using la_run_inv [OF la_inv_start la_example_ok] by auto
  then show ?thesis using framework_while_clients [OF la_example_ok r] by blast
qed

text \<open>Destroying a client without a callback while no interface is loaded calls an empty function.\<close>

lemma destroy_null_undefined:
  "known_client c g \<Longrightarrow> \<forall>i. \<not> ifaces g i \<Longrightarrow> la_destroy c None g = None"
  by (simp add: la_destroy_def known_client_def invoke_destroy_cb_def Let_def)

text \<open>A client that is destroyed without a callback while an interface is loaded stays allocated for ever.\<close>

lemma destroy_null_leaks:
  assumes "known_client c g" "c \<in> la_alive g" "om_find (destroyClientData g) c = None" "ifaces g i" "la_destroy c None g = Some g1"
  shows "c \<in> la_alive g1" "\<not> known_client c g1 \<or> \<not> om_ok (clientData g)" "om_find (destroyClientData g1) c = None"
  using assms by (cases i; auto simp: la_destroy_def known_client_def Let_def la_emit_def split: if_splits)+

end
