(* ===== verification/Client_Base.thy ===== *)
theory Client_Base
  imports Batching Geofence
begin

text \<open>
  The client side of location/LocationAPIClientBase.cpp and its header: requests wait in queues for
  the responses of the location API, identifiers of the client are kept in dictionaries with the
  sessions of the API, and answers and breaches are translated back. What the API returns is an
  argument of the operations; the calls that an operation makes are part of its result. Memory that
  is allocated with malloc is available. The arrays of the API have the length of the count.
\<close>

section \<open>Dictionaries\<close>

record 't bidict =
  mForwardMap :: "(u32, u32) omap"
  mBackwardMap :: "(u32, u32) omap"
  mExtMap :: "(u32, 't) omap"

definition new_bidict :: "'t bidict" where
  "new_bidict = \<lparr>mForwardMap = [], mBackwardMap = [], mExtMap = []\<rparr>"

definition bd_hasId :: "u32 \<Rightarrow> 't bidict \<Rightarrow> bool" where
  "bd_hasId i d \<longleftrightarrow> om_find (mForwardMap d) i \<noteq> None"

definition bd_hasSession :: "u32 \<Rightarrow> 't bidict \<Rightarrow> bool" where
  "bd_hasSession s d \<longleftrightarrow> om_find (mBackwardMap d) s \<noteq> None"

definition bd_set :: "u32 \<Rightarrow> u32 \<Rightarrow> 't \<Rightarrow> 't bidict \<Rightarrow> 't bidict" where
  "bd_set i s ext d = d\<lparr>mForwardMap := om_put i s (mForwardMap d), mBackwardMap := om_put s i (mBackwardMap d),
     mExtMap := om_put s ext (mExtMap d)\<rparr>"

text \<open>Reading a map with \<open>[]\<close> makes an entry of value 0 when there is none.\<close>

definition om_at :: "'k::linorder \<Rightarrow> ('k, u32) omap \<Rightarrow> u32 \<times> ('k, u32) omap" where
  "om_at k m = (case om_find m k of Some v \<Rightarrow> (v, m) | None \<Rightarrow> (0, om_put k 0 m))"

definition bd_rmById :: "u32 \<Rightarrow> 't bidict \<Rightarrow> 't bidict" where
  "bd_rmById i d =
     (case om_at i (mForwardMap d) of (s, forward) \<Rightarrow>
        d\<lparr>mForwardMap := om_erase i forward, mBackwardMap := om_erase s (mBackwardMap d), mExtMap := om_erase s (mExtMap d)\<rparr>)"

definition bd_rmBySession :: "u32 \<Rightarrow> 't bidict \<Rightarrow> 't bidict" where
  "bd_rmBySession s d =
     (case om_at s (mBackwardMap d) of (i, backward) \<Rightarrow>
        d\<lparr>mForwardMap := om_erase i (mForwardMap d), mBackwardMap := om_erase s backward, mExtMap := om_erase s (mExtMap d)\<rparr>)"

definition bd_getId :: "u32 \<Rightarrow> 't bidict \<Rightarrow> u32" where
  "bd_getId s d = (case om_find (mBackwardMap d) s of Some i \<Rightarrow> i | None \<Rightarrow> 0)"

definition bd_getSession :: "u32 \<Rightarrow> 't bidict \<Rightarrow> u32" where
  "bd_getSession i d = (case om_find (mForwardMap d) i of Some s \<Rightarrow> s | None \<Rightarrow> 0)"

text \<open>The first argument is the value of an object that is filled with zeros.\<close>

definition bd_getExtById :: "'t \<Rightarrow> u32 \<Rightarrow> 't bidict \<Rightarrow> 't \<times> 't bidict" where
  "bd_getExtById zero i d =
     (case om_at i (mForwardMap d) of (s, forward) \<Rightarrow>
        (if s > 0 then (case om_find (mExtMap d) s of Some e \<Rightarrow> e | None \<Rightarrow> zero) else zero, d\<lparr>mForwardMap := forward\<rparr>))"

definition bd_getExtBySession :: "'t \<Rightarrow> u32 \<Rightarrow> 't bidict \<Rightarrow> 't" where
  "bd_getExtBySession zero s d = (case om_find (mExtMap d) s of Some e \<Rightarrow> e | None \<Rightarrow> zero)"

definition bd_getAllSessions :: "'t bidict \<Rightarrow> u32 list" where
  "bd_getAllSessions d = map fst (mBackwardMap d)"

section \<open>Queues of requests\<close>

record 'r request_queue =
  mSession :: u32
  mSessionArrayPtr :: ptr
  mQueue :: "'r list"

definition new_queue :: "'r request_queue" where
  "new_queue = \<lparr>mSession = 0, mSessionArrayPtr = None, mQueue = []\<rparr>"

definition rq_reset :: "u32 \<Rightarrow> 'r request_queue \<Rightarrow> 'r request_queue" where
  "rq_reset session q = q\<lparr>mQueue := [], mSession := session\<rparr>"

definition rq_reset_array :: "ptr \<Rightarrow> 'r request_queue \<Rightarrow> 'r request_queue" where
  "rq_reset_array sessionArrayPtr q = (rq_reset 0 q)\<lparr>mSessionArrayPtr := sessionArrayPtr\<rparr>"

definition rq_push :: "'r \<Rightarrow> 'r request_queue \<Rightarrow> 'r request_queue" where
  "rq_push r q = q\<lparr>mQueue := mQueue q @ [r]\<rparr>"

definition rq_pop :: "'r request_queue \<Rightarrow> 'r option \<times> 'r request_queue" where
  "rq_pop q = (case mQueue q of [] \<Rightarrow> (None, q) | r # rs \<Rightarrow> (Some r, q\<lparr>mQueue := rs\<rparr>))"

section \<open>State\<close>

datatype api_request =
    StartTrackingRequest
  | StopTrackingRequest
  | UpdateTrackingOptionsRequest
  | StartBatchingRequest
  | StopBatchingRequest
  | UpdateBatchingOptionsRequest
  | GetBatchedLocationsRequest
  | AddGeofencesRequest
  | RemoveGeofencesRequest "16 word bidict"
  | ModifyGeofencesRequest
  | PauseGeofencesRequest
  | ResumeGeofencesRequest
  | GnssNiResponseRequest

definition SESSION_MODE_ON_FULL :: u32 where "SESSION_MODE_ON_FULL = 1"
definition SESSION_MODE_ON_FIX :: u32 where "SESSION_MODE_ON_FIX = 2"
definition SESSION_MODE_ON_TRIP_COMPLETED :: u32 where "SESSION_MODE_ON_TRIP_COMPLETED = 3"
datatype breach_type = GEOFENCE_BREACH_ENTER | GEOFENCE_BREACH_EXIT | GEOFENCE_BREACH_DWELL_IN | GEOFENCE_BREACH_DWELL_OUT
  | GEOFENCE_BREACH_UNKNOWN

definition GEOFENCE_SESSION_ID :: u32 where "GEOFENCE_SESSION_ID = 0xFFFFFFFF"
definition GEOFENCE_BREACH_ENTER_BIT :: "16 word" where "GEOFENCE_BREACH_ENTER_BIT = 1"
definition GEOFENCE_BREACH_EXIT_BIT :: "16 word" where "GEOFENCE_BREACH_EXIT_BIT = 2"

record session_entity =
  ent_id :: u32
  trackingSession :: u32
  batchingSession :: u32
  sessionMode :: u32

definition zero_entity :: session_entity where
  "zero_entity = \<lparr>ent_id = 0, trackingSession = 0, batchingSession = 0, sessionMode = 0\<rparr>"

text \<open>TrackingOptions: the fields that the client base reads; the last one stands for the others.\<close>

record api_options =
  ao_minInterval :: u32
  ao_minDistance :: u32
  ao_mode :: u32
  ao_rest :: nat

record client_base =
  cb_breachCallback :: bool
  cb_api :: bool
  q_tracking :: "api_request request_queue"
  q_session :: "api_request request_queue"
  q_geofence :: "api_request request_queue"
  q_niresponse :: "api_request request_queue"
  mGeofenceBiDict :: "16 word bidict"
  mSessionBiDict :: "session_entity bidict"
  mTracking :: bool

definition new_client_base :: client_base where
  "new_client_base = \<lparr>cb_breachCallback = False, cb_api = False, q_tracking = new_queue, q_session = new_queue, q_geofence = new_queue,
     q_niresponse = new_queue, mGeofenceBiDict = new_bidict, mSessionBiDict = new_bidict, mTracking = False\<rparr>"

text \<open>The calls of the location API, and the virtual methods that tell the client.\<close>

datatype base_call =
    ApiStartTracking api_options
  | ApiStopTracking u32
  | ApiUpdateTrackingOptions u32 api_options
  | ApiStartBatching bt_options
  | ApiStopBatching u32
  | ApiUpdateBatchingOptions u32 bt_options
  | ApiGetBatchedLocations u32 nat
  | ApiAddGeofences "gf_option list" "gf_info list"
  | ApiRemoveGeofences "u32 list"
  | ApiModifyGeofences "u32 list" "gf_option list"
  | ApiPauseGeofences "u32 list"
  | ApiResumeGeofences "u32 list"
  | ApiGnssNiResponse u32 u32
  | OnStartTracking location_error
  | OnStopTracking location_error
  | OnUpdateTrackingOptions location_error
  | OnStartBatching location_error
  | OnStopBatching location_error
  | OnUpdateBatchingOptions location_error
  | OnGetBatchedLocations location_error
  | OnAddGeofences "location_error list" "u32 list"
  | OnRemoveGeofences "location_error list" "u32 list"
  | OnModifyGeofences "location_error list" "u32 list"
  | OnPauseGeofences "location_error list" "u32 list"
  | OnResumeGeofences "location_error list" "u32 list"
  | OnGnssNiResponse location_error
  | OnGeofenceBreach breach_type "u32 list"
  | OnBatchingStatus u32 "u32 list"

type_synonym cb_result = "client_base \<times> base_call list"

section \<open>Tracking\<close>

definition locAPIStartTracking :: "api_options \<Rightarrow> u32 \<Rightarrow> client_base \<Rightarrow> location_error \<times> cb_result" where
  "locAPIStartTracking options session b =
     (if cb_api b
      then if mTracking b then (LOCATION_ERROR_SUCCESS, b, [])
           else (LOCATION_ERROR_SUCCESS,
                 b\<lparr>q_tracking := rq_push StartTrackingRequest (rq_reset session (q_tracking b)), mTracking := True\<rparr>, [ApiStartTracking options])
      else (LOCATION_ERROR_GENERAL_FAILURE, b, []))"

definition locAPIStopTracking :: "client_base \<Rightarrow> cb_result" where
  "locAPIStopTracking b =
     (let session = mSession (q_tracking b) in
      if cb_api b \<and> session > 0
      then (b\<lparr>q_tracking := rq_push StopTrackingRequest (q_tracking b), mTracking := False\<rparr>, [ApiStopTracking session])
      else (b, []))"

definition locAPIUpdateTrackingOptions :: "api_options \<Rightarrow> client_base \<Rightarrow> cb_result" where
  "locAPIUpdateTrackingOptions options b =
     (let session = mSession (q_tracking b) in
      if cb_api b \<and> session > 0
      then (b\<lparr>q_tracking := rq_push UpdateTrackingOptionsRequest (q_tracking b)\<rparr>, [ApiUpdateTrackingOptions session options])
      else (b, []))"

section \<open>Sessions\<close>

definition sizeof_BatchingOptions :: u32 where "sizeof_BatchingOptions = 24"

definition batching_mode_of :: "u32 \<Rightarrow> u32" where
  "batching_mode_of mode = (if mode = SESSION_MODE_ON_FULL then BATCHING_MODE_ROUTINE
     else if mode = SESSION_MODE_ON_TRIP_COMPLETED then BATCHING_MODE_TRIP else BATCHING_MODE_NO_AUTO_REPORT)"

definition bare_options :: "u32 \<Rightarrow> bt_options" where
  "bare_options mode = default_options\<lparr>opt_size := sizeof_BatchingOptions, batchingMode := batching_mode_of mode\<rparr>"

definition fill_options :: "api_options \<Rightarrow> bt_options \<Rightarrow> bt_options" where
  "fill_options options o1 = o1\<lparr>minDistance := ao_minDistance options, minInterval := ao_minInterval options, opt_mode := ao_mode options\<rparr>"

text \<open>\<open>ret\<close> is the session that the API returns.\<close>

definition locAPIStartSession :: "u32 \<Rightarrow> u32 \<Rightarrow> api_options \<Rightarrow> u32 \<Rightarrow> client_base \<Rightarrow> location_error \<times> cb_result" where
  "locAPIStartSession i mode options ret b =
     (if \<not> cb_api b then (LOCATION_ERROR_GENERAL_FAILURE, b, [])
      else if bd_hasId i (mSessionBiDict b) then (LOCATION_ERROR_ALREADY_STARTED, b, [])
      else
        (let fix_mode = (mode = SESSION_MODE_ON_FIX);
             entity = \<lparr>ent_id = i, trackingSession = (if fix_mode then ret else 0), batchingSession = (if fix_mode then 0 else ret), sessionMode = mode\<rparr>;
             q = (if fix_mode then rq_push StartTrackingRequest (q_session b)
                  else rq_push StartBatchingRequest ((q_session b)\<lparr>mSession := ret\<rparr>))
         in (LOCATION_ERROR_SUCCESS, b\<lparr>q_session := q, mSessionBiDict := bd_set i ret entity (mSessionBiDict b)\<rparr>,
             [if fix_mode then ApiStartTracking options else ApiStartBatching (fill_options options (bare_options mode))])))"

definition locAPIStopSession :: "u32 \<Rightarrow> client_base \<Rightarrow> location_error \<times> cb_result" where
  "locAPIStopSession i b =
     (if \<not> cb_api b then (LOCATION_ERROR_GENERAL_FAILURE, b, [])
      else if \<not> bd_hasId i (mSessionBiDict b) then (LOCATION_ERROR_ID_UNKNOWN, b, [])
      else
        (case bd_getExtById zero_entity i (mSessionBiDict b) of (entity, d) \<Rightarrow>
           if sessionMode entity = SESSION_MODE_ON_FIX
           then (LOCATION_ERROR_SUCCESS, b\<lparr>mSessionBiDict := d, q_session := rq_push StopTrackingRequest (q_session b)\<rparr>,
                 [ApiStopTracking (trackingSession entity)])
           else (LOCATION_ERROR_SUCCESS, b\<lparr>mSessionBiDict := d, q_session := rq_push StopBatchingRequest (q_session b)\<rparr>,
                 [ApiStopBatching (batchingSession entity)])))"

definition locAPIUpdateSessionOptions :: "u32 \<Rightarrow> u32 \<Rightarrow> api_options \<Rightarrow> u32 \<Rightarrow> client_base \<Rightarrow> location_error \<times> cb_result" where
  "locAPIUpdateSessionOptions i mode options ret b =
     (if \<not> cb_api b then (LOCATION_ERROR_GENERAL_FAILURE, b, [])
      else if \<not> bd_hasId i (mSessionBiDict b) then (LOCATION_ERROR_ID_UNKNOWN, b, [])
      else
        (case bd_getExtById zero_entity i (mSessionBiDict b) of (entity, d) \<Rightarrow>
          (let sMode = sessionMode entity;
               (tracking, batching, q, calls) =
                 (if mode = SESSION_MODE_ON_FIX
                  then (let q1 = rq_push UpdateTrackingOptionsRequest (q_session b) in
                        if sMode = SESSION_MODE_ON_FIX
                        then (trackingSession entity, batchingSession entity, q1, [ApiUpdateTrackingOptions (trackingSession entity) options])
                        else (ret, 0, q1\<lparr>mSession := 0\<rparr>, [ApiStopBatching (batchingSession entity), ApiStartTracking options]))
                  else (let q1 = rq_push UpdateBatchingOptionsRequest (q_session b) in
                        if sMode = SESSION_MODE_ON_FIX
                        then (0, ret, q1\<lparr>mSession := ret\<rparr>,
                              [ApiStopTracking (trackingSession entity), ApiStartBatching (fill_options options (bare_options mode))])
                        else (trackingSession entity, batchingSession entity, q1, [ApiUpdateBatchingOptions (batchingSession entity) (bare_options mode)])));
               session = (if mode \<noteq> SESSION_MODE_ON_FIX then batching else tracking);
               entity1 = entity\<lparr>trackingSession := tracking, batchingSession := batching, sessionMode := mode\<rparr>
           in (LOCATION_ERROR_SUCCESS, b\<lparr>q_session := q, mSessionBiDict := bd_set i session entity1 (bd_rmById i d)\<rparr>, calls))))"

definition locAPIGetBatchedLocations :: "u32 \<Rightarrow> nat \<Rightarrow> client_base \<Rightarrow> location_error \<times> cb_result" where
  "locAPIGetBatchedLocations i count b =
     (if \<not> cb_api b then (LOCATION_ERROR_GENERAL_FAILURE, b, [])
      else if \<not> bd_hasId i (mSessionBiDict b) then (LOCATION_ERROR_ID_UNKNOWN, b, [])
      else
        (case bd_getExtById zero_entity i (mSessionBiDict b) of (entity, d) \<Rightarrow>
           if sessionMode entity \<noteq> SESSION_MODE_ON_FIX
           then (LOCATION_ERROR_SUCCESS, b\<lparr>mSessionBiDict := d, q_session := rq_push GetBatchedLocationsRequest (q_session b)\<rparr>,
                 [ApiGetBatchedLocations (batchingSession entity) count])
           else (LOCATION_ERROR_NOT_SUPPORTED, b\<lparr>mSessionBiDict := d\<rparr>, [])))"

definition removeSession :: "u32 \<Rightarrow> client_base \<Rightarrow> client_base" where
  "removeSession session b =
     (if bd_hasSession session (mSessionBiDict b) then b\<lparr>mSessionBiDict := bd_rmBySession session (mSessionBiDict b)\<rparr> else b)"

section \<open>Geofences\<close>

fun set_all :: "u32 list \<Rightarrow> u32 list \<Rightarrow> gf_option list \<Rightarrow> 16 word bidict \<Rightarrow> 16 word bidict" where
  "set_all (i # ids) (s # ss) (o1 # os) d = set_all ids ss os (bd_set i s (breachTypeMask o1) d)"
| "set_all _ _ _ d = d"

definition locAPIAddGeofences :: "u32 list \<Rightarrow> gf_option list \<Rightarrow> gf_info list \<Rightarrow> u32 list option \<Rightarrow> client_base \<Rightarrow> location_error \<times> cb_result" where
  "locAPIAddGeofences ids options info sessions b =
     (if \<not> cb_api b then (LOCATION_ERROR_GENERAL_FAILURE, b, [])
      else
        (let b1 = (if mSession (q_geofence b) \<noteq> GEOFENCE_SESSION_ID
                   then b\<lparr>q_geofence := rq_reset GEOFENCE_SESSION_ID (q_geofence b)\<rparr> else b)
         in case sessions of
              None \<Rightarrow> (LOCATION_ERROR_GENERAL_FAILURE, b1, [ApiAddGeofences options info])
            | Some ss \<Rightarrow>
                (LOCATION_ERROR_SUCCESS,
                 b1\<lparr>q_geofence := rq_push AddGeofencesRequest (q_geofence b1), mGeofenceBiDict := set_all ids ss options (mGeofenceBiDict b1)\<rparr>,
                 [ApiAddGeofences options info])))"

text \<open>The sessions that are found, and the dictionaries of the geofences that stay and that go.\<close>

fun gf_remove_loop :: "u32 list \<Rightarrow> 16 word bidict \<Rightarrow> 16 word bidict \<Rightarrow> u32 list \<times> 16 word bidict \<times> 16 word bidict" where
  "gf_remove_loop [] d removed = ([], d, removed)"
| "gf_remove_loop (i # ids) d removed =
     (let s = bd_getSession i d in
      if s > 0
      then (let e = bd_getExtBySession 0 s d;
                (ss, d1, r1) = gf_remove_loop ids (bd_rmBySession s d) (bd_set i s e removed)
            in (s # ss, d1, r1))
      else gf_remove_loop ids d removed)"

definition locAPIRemoveGeofences :: "u32 list \<Rightarrow> client_base \<Rightarrow> cb_result" where
  "locAPIRemoveGeofences ids b =
     (if cb_api b \<and> mSession (q_geofence b) = GEOFENCE_SESSION_ID
      then (case gf_remove_loop ids (mGeofenceBiDict b) new_bidict of (sessions, d, removed) \<Rightarrow>
              if sessions \<noteq> []
              then (b\<lparr>mGeofenceBiDict := d, q_geofence := rq_push (RemoveGeofencesRequest removed) (q_geofence b)\<rparr>, [ApiRemoveGeofences sessions])
              else (b\<lparr>mGeofenceBiDict := d\<rparr>, []))
      else (b, []))"

text \<open>The loops of the other commands; \<open>masks\<close> are the new masks, if there are any.\<close>

fun sessions_loop :: "u32 list \<Rightarrow> 16 word list option \<Rightarrow> 16 word bidict \<Rightarrow> u32 list \<times> 16 word bidict" where
  "sessions_loop [] masks d = ([], d)"
| "sessions_loop (i # ids) masks d =
     (let s = bd_getSession i d;
          rest = map_option tl masks;
          d1 = (case masks of Some (m # ms) \<Rightarrow> bd_set i s m d | _ \<Rightarrow> d)
      in if s > 0 then (case sessions_loop ids rest d1 of (ss, d2) \<Rightarrow> (s # ss, d2))
         else sessions_loop ids rest d)"

definition locAPIModifyGeofences :: "u32 list \<Rightarrow> gf_option list \<Rightarrow> client_base \<Rightarrow> cb_result" where
  "locAPIModifyGeofences ids options b =
     (if cb_api b \<and> mSession (q_geofence b) = GEOFENCE_SESSION_ID
      then (case sessions_loop ids (Some (map breachTypeMask options)) (mGeofenceBiDict b) of (sessions, d) \<Rightarrow>
              if sessions \<noteq> []
              then (b\<lparr>mGeofenceBiDict := d, q_geofence := rq_push ModifyGeofencesRequest (q_geofence b)\<rparr>, [ApiModifyGeofences sessions options])
              else (b\<lparr>mGeofenceBiDict := d\<rparr>, []))
      else (b, []))"

definition locAPIPauseGeofences :: "u32 list \<Rightarrow> client_base \<Rightarrow> cb_result" where
  "locAPIPauseGeofences ids b =
     (if cb_api b \<and> mSession (q_geofence b) = GEOFENCE_SESSION_ID
      then (case sessions_loop ids None (mGeofenceBiDict b) of (sessions, d) \<Rightarrow>
              if sessions \<noteq> [] then (b\<lparr>q_geofence := rq_push PauseGeofencesRequest (q_geofence b)\<rparr>, [ApiPauseGeofences sessions]) else (b, []))
      else (b, []))"

definition locAPIResumeGeofences :: "u32 list \<Rightarrow> 16 word list option \<Rightarrow> client_base \<Rightarrow> cb_result" where
  "locAPIResumeGeofences ids breach_masks b =
     (if cb_api b \<and> mSession (q_geofence b) = GEOFENCE_SESSION_ID
      then (case sessions_loop ids breach_masks (mGeofenceBiDict b) of (sessions, d) \<Rightarrow>
              if sessions \<noteq> []
              then (b\<lparr>mGeofenceBiDict := d, q_geofence := rq_push ResumeGeofencesRequest (q_geofence b)\<rparr>, [ApiResumeGeofences sessions])
              else (b\<lparr>mGeofenceBiDict := d\<rparr>, []))
      else (b, []))"

definition locAPIRemoveAllGeofences :: "client_base \<Rightarrow> cb_result" where
  "locAPIRemoveAllGeofences b =
     (let sessionsVec = bd_getAllSessions (mGeofenceBiDict b) in if sessionsVec \<noteq> [] then locAPIRemoveGeofences sessionsVec b else (b, []))"

definition locAPIGnssNiResponse :: "u32 \<Rightarrow> u32 \<Rightarrow> client_base \<Rightarrow> cb_result" where
  "locAPIGnssNiResponse i response b =
     (if cb_api b
      then (b\<lparr>q_niresponse := rq_push GnssNiResponseRequest (rq_reset i (q_niresponse b))\<rparr>, [ApiGnssNiResponse i response])
      else (b, []))"

section \<open>What comes back\<close>

definition breach_wanted :: "breach_type \<Rightarrow> 16 word \<Rightarrow> bool" where
  "breach_wanted kind type \<longleftrightarrow>
     kind = GEOFENCE_BREACH_ENTER \<and> type AND GEOFENCE_BREACH_ENTER_BIT \<noteq> 0 \<or>
     kind = GEOFENCE_BREACH_EXIT \<and> type AND GEOFENCE_BREACH_EXIT_BIT \<noteq> 0"

definition beforeGeofenceBreachCb :: "breach_type \<Rightarrow> u32 list \<Rightarrow> client_base \<Rightarrow> base_call list" where
  "beforeGeofenceBreachCb kind sessions b =
     (if cb_breachCallback b
      then [OnGeofenceBreach kind
              (map (\<lambda>s. bd_getId s (mGeofenceBiDict b))
                 (filter (\<lambda>s. breach_wanted kind (bd_getExtBySession 0 s (mGeofenceBiDict b))) sessions))]
      else [])"

fun completed_trips :: "u32 list \<Rightarrow> session_entity bidict \<Rightarrow> u32 list \<times> session_entity bidict" where
  "completed_trips [] d = ([], d)"
| "completed_trips (s # ss) d =
     (if bd_hasSession s d \<and> sessionMode (bd_getExtBySession zero_entity s d) = SESSION_MODE_ON_TRIP_COMPLETED
      then (case completed_trips ss (bd_rmBySession s d) of (ids, d1) \<Rightarrow> (ent_id (bd_getExtBySession zero_entity s d) # ids, d1))
      else completed_trips ss d)"

definition beforeBatchingStatusCb :: "u32 \<Rightarrow> u32 list \<Rightarrow> client_base \<Rightarrow> cb_result" where
  "beforeBatchingStatusCb status tripCompletedList b =
     (if status = BATCHING_STATUS_TRIP_COMPLETED
      then (case completed_trips tripCompletedList (mSessionBiDict b) of (ids, d) \<Rightarrow> (b\<lparr>mSessionBiDict := d\<rparr>, [OnBatchingStatus status ids]))
      else (b, [OnBatchingStatus status []]))"

text \<open>The queues are searched in the order tracking, NI response; then the sessions.\<close>

definition getRequestBySession :: "u32 \<Rightarrow> client_base \<Rightarrow> api_request option \<times> client_base" where
  "getRequestBySession session b =
     (let (request, b1) =
        (if mSession (q_tracking b) = session
         then (case rq_pop (q_tracking b) of (r, q) \<Rightarrow> (r, b\<lparr>q_tracking := q\<rparr>))
         else if mSession (q_niresponse b) = session
         then (case rq_pop (q_niresponse b) of (r, q) \<Rightarrow> (r, b\<lparr>q_niresponse := q\<rparr>))
         else (None, b))
      in if request = None \<and> bd_hasSession session (mSessionBiDict b1)
         then (case rq_pop (q_session b1) of (r, q) \<Rightarrow> (r, b1\<lparr>q_session := q\<rparr>))
         else (request, b1))"

definition onResponse :: "api_request \<Rightarrow> location_error \<Rightarrow> u32 \<Rightarrow> client_base \<Rightarrow> cb_result" where
  "onResponse r error i b =
     (case r of
        StartTrackingRequest \<Rightarrow> (if error \<noteq> LOCATION_ERROR_SUCCESS then removeSession i b else b, [OnStartTracking error])
      | StopTrackingRequest \<Rightarrow> (if error = LOCATION_ERROR_SUCCESS then removeSession i b else b, [OnStopTracking error])
      | UpdateTrackingOptionsRequest \<Rightarrow> (b, [OnUpdateTrackingOptions error])
      | StartBatchingRequest \<Rightarrow> (if error \<noteq> LOCATION_ERROR_SUCCESS then removeSession i b else b, [OnStartBatching error])
      | StopBatchingRequest \<Rightarrow> (if error = LOCATION_ERROR_SUCCESS then removeSession i b else b, [OnStopBatching error])
      | UpdateBatchingOptionsRequest \<Rightarrow> (b, [OnUpdateBatchingOptions error])
      | GetBatchedLocationsRequest \<Rightarrow> (b, [OnGetBatchedLocations error])
      | GnssNiResponseRequest \<Rightarrow> (b, [OnGnssNiResponse error])
      | _ \<Rightarrow> (b, []))"

definition onResponseCb :: "location_error \<Rightarrow> u32 \<Rightarrow> client_base \<Rightarrow> cb_result" where
  "onResponseCb error i b =
     (case getRequestBySession i b of (None, b1) \<Rightarrow> (b1, []) | (Some r, b1) \<Rightarrow> onResponse r error i b1)"

definition onCollectiveResponse :: "api_request \<Rightarrow> location_error list \<Rightarrow> u32 list \<Rightarrow> client_base \<Rightarrow> base_call list" where
  "onCollectiveResponse r errors sessions b =
     (let ids = map (\<lambda>s. bd_getId s (mGeofenceBiDict b)) sessions in
      case r of
        AddGeofencesRequest \<Rightarrow> [OnAddGeofences errors ids]
      | RemoveGeofencesRequest removed \<Rightarrow> [OnRemoveGeofences errors (map (\<lambda>s. bd_getId s removed) sessions)]
      | ModifyGeofencesRequest \<Rightarrow> [OnModifyGeofences errors ids]
      | PauseGeofencesRequest \<Rightarrow> [OnPauseGeofences errors ids]
      | ResumeGeofencesRequest \<Rightarrow> [OnResumeGeofences errors ids]
      | _ \<Rightarrow> [])"

definition onCollectiveResponseCb :: "location_error list \<Rightarrow> u32 list \<Rightarrow> client_base \<Rightarrow> cb_result" where
  "onCollectiveResponseCb errors ids b =
     (if mSession (q_geofence b) = GEOFENCE_SESSION_ID
      then (case rq_pop (q_geofence b) of
              (None, q) \<Rightarrow> (b\<lparr>q_geofence := q\<rparr>, [])
            | (Some r, q) \<Rightarrow> (b\<lparr>q_geofence := q\<rparr>, onCollectiveResponse r errors ids (b\<lparr>q_geofence := q\<rparr>)))
      else (b, []))"

section \<open>Callbacks and the end\<close>

definition locAPISetCallbacks :: "bool \<Rightarrow> bool \<Rightarrow> client_base \<Rightarrow> client_base" where
  "locAPISetCallbacks breach created b =
     (let b1 = (if breach then b\<lparr>cb_breachCallback := True\<rparr> else b) in if cb_api b1 then b1 else b1\<lparr>cb_api := created\<rparr>)"

definition base_destroy :: "client_base \<Rightarrow> client_base" where
  "base_destroy b =
     b\<lparr>cb_breachCallback := False, q_tracking := rq_reset 0 (q_tracking b), q_session := rq_reset 0 (q_session b),
       q_geofence := rq_reset 0 (q_geofence b), q_niresponse := rq_reset 0 (q_niresponse b), cb_api := False\<rparr>"

section \<open>Runs\<close>

text \<open>What clients ask and what the API answers, at any time; with the values that the API returns.\<close>

datatype cb_op =
    CbSetCallbacks bool
  | CbStartTracking api_options u32
  | CbStopTracking
  | CbUpdateTracking api_options
  | CbStartSession u32 u32 api_options u32
  | CbStopSession u32
  | CbUpdateSession u32 u32 api_options u32
  | CbGetBatched u32 nat
  | CbAddGeofences "u32 list" "gf_option list" "gf_info list" "u32 list option"
  | CbRemoveGeofences "u32 list"
  | CbModifyGeofences "u32 list" "gf_option list"
  | CbPauseGeofences "u32 list"
  | CbResumeGeofences "u32 list" "16 word list option"
  | CbRemoveAllGeofences
  | CbNiResponse u32 u32
  | CbBreach breach_type "u32 list"
  | CbBatchingStatus u32 "u32 list"
  | CbResponse location_error u32
  | CbCollective "location_error list" "u32 list"

fun cb_step :: "cb_op \<Rightarrow> client_base \<Rightarrow> base_call list \<times> client_base" where
  "cb_step (CbSetCallbacks breach) b = ([], locAPISetCallbacks breach True b)"
| "cb_step (CbStartTracking os ret) b = prod.swap (snd (locAPIStartTracking os ret b))"
| "cb_step CbStopTracking b = prod.swap (locAPIStopTracking b)"
| "cb_step (CbUpdateTracking os) b = prod.swap (locAPIUpdateTrackingOptions os b)"
| "cb_step (CbStartSession i mode os ret) b = prod.swap (snd (locAPIStartSession i mode os ret b))"
| "cb_step (CbStopSession i) b = prod.swap (snd (locAPIStopSession i b))"
| "cb_step (CbUpdateSession i mode os ret) b = prod.swap (snd (locAPIUpdateSessionOptions i mode os ret b))"
| "cb_step (CbGetBatched i n) b = prod.swap (snd (locAPIGetBatchedLocations i n b))"
| "cb_step (CbAddGeofences ids os info sessions) b = prod.swap (snd (locAPIAddGeofences ids os info sessions b))"
| "cb_step (CbRemoveGeofences ids) b = prod.swap (locAPIRemoveGeofences ids b)"
| "cb_step (CbModifyGeofences ids os) b = prod.swap (locAPIModifyGeofences ids os b)"
| "cb_step (CbPauseGeofences ids) b = prod.swap (locAPIPauseGeofences ids b)"
| "cb_step (CbResumeGeofences ids ms) b = prod.swap (locAPIResumeGeofences ids ms b)"
| "cb_step CbRemoveAllGeofences b = prod.swap (locAPIRemoveAllGeofences b)"
| "cb_step (CbNiResponse i r) b = prod.swap (locAPIGnssNiResponse i r b)"
| "cb_step (CbBreach kind ss) b = (beforeGeofenceBreachCb kind ss b, b)"
| "cb_step (CbBatchingStatus st ss) b = prod.swap (beforeBatchingStatusCb st ss b)"
| "cb_step (CbResponse err i) b = prod.swap (onResponseCb err i b)"
| "cb_step (CbCollective errs ids) b = prod.swap (onCollectiveResponseCb errs ids b)"

text \<open>
  What the environment keeps to: a session that the API returns is not 0 and not in use, and the
  identifiers of new geofences are new and distinct.
\<close>

fun cb_ok :: "cb_op \<Rightarrow> client_base \<Rightarrow> bool" where
  "cb_ok (CbStartSession i mode os ret) b \<longleftrightarrow> ret \<noteq> 0 \<and> \<not> bd_hasSession ret (mSessionBiDict b)"
| "cb_ok (CbUpdateSession i mode os ret) b \<longleftrightarrow> ret \<noteq> 0 \<and> \<not> bd_hasSession ret (mSessionBiDict b)"
| "cb_ok (CbAddGeofences ids os info sessions) b \<longleftrightarrow> distinct ids \<and> (\<forall>i \<in> set ids. \<not> bd_hasId i (mGeofenceBiDict b)) \<and>
     (case sessions of None \<Rightarrow> True | Some ss \<Rightarrow> distinct ss \<and> length ss = length ids \<and> length os = length ids \<and>
        (\<forall>s \<in> set ss. s \<noteq> 0 \<and> \<not> bd_hasSession s (mGeofenceBiDict b)))"
| "cb_ok _ b \<longleftrightarrow> True"

end
