(* ===== verification/Client_Dicts.thy ===== *)
theory Client_Dicts
  imports Client_Base
begin

text \<open>
  The dictionaries of Client_Base: in all reachable states the two directions are inverse to each
  other and the data of a session belong to it. So commands reach the session that the API returned
  for an identifier, and answers and breaches come back with the identifiers of the client.
\<close>

section \<open>One dictionary\<close>

definition bd_inv :: "'t bidict \<Rightarrow> bool" where
  "bd_inv d \<longleftrightarrow> om_ok (mForwardMap d) \<and> om_ok (mBackwardMap d) \<and> om_ok (mExtMap d) \<and>
     (\<forall>i s. om_find (mForwardMap d) i = Some s \<longrightarrow> om_find (mBackwardMap d) s = Some i) \<and>
     (\<forall>s i. om_find (mBackwardMap d) s = Some i \<longrightarrow> om_find (mForwardMap d) i = Some s) \<and>
     (\<forall>s. om_find (mExtMap d) s = None \<longleftrightarrow> om_find (mBackwardMap d) s = None) \<and> om_find (mBackwardMap d) 0 = None"

definition bd_entry :: "'t bidict \<Rightarrow> u32 \<Rightarrow> u32 \<Rightarrow> 't \<Rightarrow> bool" where
  "bd_entry d i s e \<longleftrightarrow> om_find (mForwardMap d) i = Some s \<and> om_find (mExtMap d) s = Some e"

lemma bd_inv_new [simp]: "bd_inv new_bidict" "\<not> bd_entry new_bidict i s e"
  by (simp_all add: bd_inv_def bd_entry_def new_bidict_def)

lemma bd_invD:
  assumes "bd_inv d"
  shows "om_ok (mForwardMap d)" "om_ok (mBackwardMap d)" "om_ok (mExtMap d)"
    "om_find (mForwardMap d) i = Some s \<longleftrightarrow> om_find (mBackwardMap d) s = Some i"
    "om_find (mExtMap d) s = None \<longleftrightarrow> om_find (mBackwardMap d) s = None" "om_find (mBackwardMap d) 0 = None"
  using assms unfolding bd_inv_def by blast+

lemma bd_set_inv:
  assumes "bd_inv d" "\<And>j. om_find (mForwardMap d) j = Some s \<Longrightarrow> j = i" "\<And>t. om_find (mForwardMap d) i = Some t \<Longrightarrow> t = s" "s \<noteq> 0"
  shows "bd_inv (bd_set i s e d)"
proof -
  note D = bd_invD [OF assms(1)]
  have "om_find (mForwardMap d) j = Some t \<Longrightarrow> j \<noteq> i \<Longrightarrow> t \<noteq> s" for j t using assms(2) by blast
  moreover have "om_find (mBackwardMap d) t = Some j \<Longrightarrow> t \<noteq> s \<Longrightarrow> j \<noteq> i" for j t using assms(3) D(4) by blast
  ultimately show ?thesis using D assms(4) by (simp add: bd_inv_def bd_set_def)
qed

lemma bd_entry_set:
  assumes "\<And>j. om_find (mForwardMap d) j = Some s \<Longrightarrow> j = i"
  shows "bd_entry (bd_set i s e d) j t f \<longleftrightarrow> (if j = i then t = s \<and> f = e else bd_entry d j t f)"
  using assms [of j] by (cases "j = i") (auto simp: bd_entry_def bd_set_def)

lemma bd_has_set [simp]:
  "bd_hasId j (bd_set i s e d) \<longleftrightarrow> j = i \<or> bd_hasId j d" "bd_hasSession t (bd_set i s e d) \<longleftrightarrow> t = s \<or> bd_hasSession t d"
  by (auto simp: bd_hasId_def bd_hasSession_def bd_set_def)

lemma bd_set_new:
  assumes "bd_inv d" "\<not> bd_hasId i d" "\<not> bd_hasSession s d" "s \<noteq> 0"
  shows "bd_inv (bd_set i s e d)" "bd_entry (bd_set i s e d) j t f \<longleftrightarrow> (if j = i then t = s \<and> f = e else bd_entry d j t f)"
proof -
  have n: "om_find (mForwardMap d) i = None" using assms(2) by (simp add: bd_hasId_def)
  have m: "om_find (mForwardMap d) k \<noteq> Some s" for k
    using assms(3) bd_invD(4) [OF assms(1)] by (simp add: bd_hasSession_def)
  show "bd_inv (bd_set i s e d)" using assms(1,4) n m by (intro bd_set_inv) auto
  show "bd_entry (bd_set i s e d) j t f \<longleftrightarrow> (if j = i then t = s \<and> f = e else bd_entry d j t f)"
    using m by (intro bd_entry_set) auto
qed

lemma bd_set_known:
  assumes "bd_inv d" "om_find (mForwardMap d) i = Some s"
  shows "bd_inv (bd_set i s e d)" "bd_entry (bd_set i s e d) j t f \<longleftrightarrow> (if j = i then t = s \<and> f = e else bd_entry d j t f)"
proof -
  have n: "s \<noteq> 0" "om_find (mForwardMap d) j = Some s \<Longrightarrow> j = i" for j
    using assms(2) bd_invD(4,6) [OF assms(1)] by auto
  show "bd_inv (bd_set i s e d)" using assms n by (intro bd_set_inv) auto
  show "bd_entry (bd_set i s e d) j t f \<longleftrightarrow> (if j = i then t = s \<and> f = e else bd_entry d j t f)"
    using n by (intro bd_entry_set) auto
qed

lemma bd_rmById_rmBySession:
  assumes "bd_inv d" "om_find (mForwardMap d) i = Some s"
  shows "bd_rmById i d = bd_rmBySession s d"
proof -
  have "om_find (mBackwardMap d) s = Some i" using assms(2) bd_invD(4) [OF assms(1), of i s] by simp
  then show ?thesis using assms(2) by (simp add: bd_rmById_def bd_rmBySession_def om_at_def)
qed

lemma bd_rm:
  assumes "bd_inv d" "om_find (mForwardMap d) i = Some s"
  shows "bd_inv (bd_rmBySession s d)" "bd_entry (bd_rmBySession s d) j t f \<longleftrightarrow> j \<noteq> i \<and> bd_entry d j t f"
    "bd_hasId j (bd_rmBySession s d) \<longleftrightarrow> j \<noteq> i \<and> bd_hasId j d" "bd_hasSession t (bd_rmBySession s d) \<longleftrightarrow> t \<noteq> s \<and> bd_hasSession t d"
proof -
  note D = bd_invD [OF assms(1)]
  have b: "om_find (mBackwardMap d) s = Some i" using assms(2) D(4) by simp
  have n: "om_find (mForwardMap d) j = Some s \<longleftrightarrow> j = i" for j using b D(4) by auto
  have r: "bd_rmBySession s d = d\<lparr>mForwardMap := om_erase i (mForwardMap d), mBackwardMap := om_erase s (mBackwardMap d), mExtMap := om_erase s (mExtMap d)\<rparr>"
    using b by (simp add: bd_rmBySession_def om_at_def)
  have "om_find (mForwardMap d) j = Some t \<Longrightarrow> j \<noteq> i \<Longrightarrow> t \<noteq> s" for j t using n by blast
  moreover have "om_find (mBackwardMap d) t = Some j \<Longrightarrow> t \<noteq> s \<Longrightarrow> j \<noteq> i" for j t using b D(4) by (metis option.inject)
  ultimately show "bd_inv (bd_rmBySession s d)" using D by (simp add: bd_inv_def r)
  show "bd_entry (bd_rmBySession s d) j t f \<longleftrightarrow> j \<noteq> i \<and> bd_entry d j t f"
    using D(1,3) n [of j] by (cases "t = s") (auto simp: bd_entry_def r)
  show "bd_hasId j (bd_rmBySession s d) \<longleftrightarrow> j \<noteq> i \<and> bd_hasId j d" using D(1) by (simp add: bd_hasId_def r)
  show "bd_hasSession t (bd_rmBySession s d) \<longleftrightarrow> t \<noteq> s \<and> bd_hasSession t d" using D(2) by (simp add: bd_hasSession_def r)
qed

lemma bd_entryD:
  assumes "bd_inv d" "bd_entry d i s e"
  shows "om_find (mForwardMap d) i = Some s" "s \<noteq> 0" "bd_hasId i d" "bd_hasSession s d" "bd_getSession i d = s" "bd_getId s d = i"
proof -
  have f: "om_find (mForwardMap d) i = Some s" "om_find (mBackwardMap d) s = Some i"
    using assms(2) bd_invD(4) [OF assms(1), of i s] by (simp_all add: bd_entry_def)
  then show "om_find (mForwardMap d) i = Some s" "bd_hasId i d" "bd_hasSession s d" "bd_getSession i d = s" "bd_getId s d = i"
    by (simp_all add: bd_hasId_def bd_hasSession_def bd_getSession_def bd_getId_def)
  show "s \<noteq> 0" using f bd_invD(6) [OF assms(1)] by auto
qed

lemma bd_entry_ext:
  assumes "bd_inv d" "bd_entry d i s e"
  shows "bd_getExtBySession z s d = e" "bd_getExtById z i d = (e, d)"
  using bd_entryD(1,2) [OF assms] assms(2)
  by (simp_all add: bd_getExtBySession_def bd_getExtById_def om_at_def bd_entry_def word_gt_0)

lemma bd_id_entry:
  assumes "bd_inv d" "om_find (mForwardMap d) i = Some s"
  obtains e where "bd_entry d i s e"
proof -
  have "om_find (mExtMap d) s \<noteq> None" using assms(2) bd_invD(4,5) [OF assms(1)] by auto
  then show ?thesis using assms(2) that by (auto simp: bd_entry_def)
qed

lemma bd_hasId_entry:
  assumes "bd_inv d" "bd_hasId i d"
  obtains s e where "bd_entry d i s e"
proof -
  obtain s where "om_find (mForwardMap d) i = Some s" using assms(2) by (auto simp: bd_hasId_def)
  then show ?thesis using that by (elim bd_id_entry [OF assms(1)])
qed

lemma bd_hasSession_entry:
  assumes "bd_inv d" "bd_hasSession s d"
  obtains i e where "bd_entry d i s e"
proof -
  obtain i where "om_find (mForwardMap d) i = Some s" using assms bd_invD(4) by (auto simp: bd_hasSession_def)
  then show ?thesis using that by (elim bd_id_entry [OF assms(1)])
qed

lemma bd_getSession_unknown: "bd_inv d \<Longrightarrow> \<not> bd_hasId i d \<Longrightarrow> bd_getSession i d = 0"
  by (simp add: bd_getSession_def bd_hasId_def split: option.splits)


section \<open>All operations\<close>

definition session_of :: "session_entity \<Rightarrow> u32" where
  "session_of e = (if sessionMode e = SESSION_MODE_ON_FIX then trackingSession e else batchingSession e)"

definition sessions_inv :: "session_entity bidict \<Rightarrow> bool" where
  "sessions_inv d \<longleftrightarrow> bd_inv d \<and> (\<forall>i s e. bd_entry d i s e \<longrightarrow> ent_id e = i \<and> session_of e = s)"

definition cb_inv :: "client_base \<Rightarrow> bool" where
  "cb_inv b \<longleftrightarrow> bd_inv (mGeofenceBiDict b) \<and> sessions_inv (mSessionBiDict b)"

lemma sessions_rm: "sessions_inv d \<Longrightarrow> bd_hasSession s d \<Longrightarrow> sessions_inv (bd_rmBySession s d)"
  unfolding sessions_inv_def by (metis bd_entryD(1) bd_hasSession_entry bd_rm(1,2))

lemma sessions_new:
  assumes "sessions_inv d" "\<not> bd_hasId i d" "\<not> bd_hasSession s d" "s \<noteq> 0" "ent_id e = i" "session_of e = s"
  shows "sessions_inv (bd_set i s e d)"
  using assms bd_set_new [of d i s] by (simp add: sessions_inv_def)

lemma sessions_entry:
  assumes "sessions_inv d" "bd_hasId i d"
  obtains s e where "bd_entry d i s e" "ent_id e = i" "session_of e = s" "bd_getExtById zero_entity i d = (e, d)"
    "om_find (mForwardMap d) i = Some s" "s \<noteq> 0"
  using bd_hasId_entry [OF _ assms(2)] assms(1) bd_entry_ext bd_entryD unfolding sessions_inv_def by metis

lemma removeSession_inv: "cb_inv b \<Longrightarrow> cb_inv (removeSession s b)"
  by (simp add: cb_inv_def removeSession_def sessions_rm)

lemma completed_trips_inv: "sessions_inv d \<Longrightarrow> sessions_inv (snd (completed_trips ss d))"
  by (induction ss d rule: completed_trips.induct) (auto simp: sessions_rm split: prod.splits)

lemma removed_update_inv:
  assumes "sessions_inv d" "bd_entry d i s e" "session_of e1 = t" "ent_id e1 = i" "t \<noteq> 0" "t = s \<or> \<not> bd_hasSession t d"
  shows "sessions_inv (bd_set i t e1 (bd_rmById i d))"
proof -
  have d: "bd_inv d" using assms(1) by (simp add: sessions_inv_def)
  note e = bd_entryD [OF d assms(2)]
  have "sessions_inv (bd_rmBySession s d)" using assms(1) e(4) by (rule sessions_rm)
  then show ?thesis
    unfolding bd_rmById_rmBySession [OF d e(1)] using assms(3-6) bd_rm(3,4) [OF d e(1)] by (intro sessions_new) auto
qed

lemma geofence_set_all:
  "bd_inv d \<Longrightarrow> distinct ids \<Longrightarrow> distinct ss \<Longrightarrow> \<forall>i \<in> set ids. \<not> bd_hasId i d \<Longrightarrow> \<forall>s \<in> set ss. s \<noteq> 0 \<and> \<not> bd_hasSession s d \<Longrightarrow>
    bd_inv (set_all ids ss os d)"
proof (induction ids ss os d rule: set_all.induct)
  case (1 i ids s ss o1 os d)
  have "bd_inv (bd_set i s (breachTypeMask o1) d)" using 1 by (intro bd_set_new) auto
  then show ?case using 1 by auto
qed auto

lemma gf_remove_loop_inv: "bd_inv d \<Longrightarrow> bd_inv (fst (snd (gf_remove_loop ids d r)))"
proof (induction ids d r rule: gf_remove_loop.induct)
  case (2 i ids d r)
  show ?case
  proof (cases "bd_getSession i d > 0")
    case True
    then have "om_find (mForwardMap d) i = Some (bd_getSession i d)" by (simp add: bd_getSession_def split: option.splits)
    then have "bd_inv (bd_rmBySession (bd_getSession i d) d)" using 2 by (intro bd_rm)
    then show ?thesis using 2 True by (simp add: Let_def split_beta)
  qed (use 2 in simp)
qed simp

lemma sessions_loop_inv: "bd_inv d \<Longrightarrow> bd_inv (snd (sessions_loop ids ms d))"
proof (induction ids ms d rule: sessions_loop.induct)
  case (2 i ids ms d)
  show ?case
  proof (cases "bd_getSession i d > 0")
    case True
    then have "om_find (mForwardMap d) i = Some (bd_getSession i d)" by (simp add: bd_getSession_def split: option.splits)
    then have "bd_inv (bd_set i (bd_getSession i d) m d)" for m using 2 by (intro bd_set_known)
    then show ?thesis using 2 True by (cases ms; cases "the ms") (simp_all add: Let_def split_beta)
  qed (use 2 in simp)
qed simp


lemma cb_step_inv:
  assumes "cb_inv b" "cb_ok x b"
  shows "cb_inv (snd (cb_step x b))"
proof (cases x)
  case (CbStartSession i mode os ret)
  then show ?thesis using assms by (auto simp: cb_inv_def locAPIStartSession_def Let_def session_of_def intro!: sessions_new)
next
  case (CbStopSession i)
  show ?thesis
  proof (cases "bd_hasId i (mSessionBiDict b)")
    case True
    obtain s e where "bd_getExtById zero_entity i (mSessionBiDict b) = (e, mSessionBiDict b)"
      using assms(1) sessions_entry [OF _ True] by (auto simp: cb_inv_def)
    then show ?thesis using assms CbStopSession by (simp add: cb_inv_def locAPIStopSession_def)
  qed (use assms CbStopSession in \<open>simp add: cb_inv_def locAPIStopSession_def\<close>)
next
  case (CbUpdateSession i mode os ret)
  show ?thesis
  proof (cases "bd_hasId i (mSessionBiDict b)")
    case True
    have d: "sessions_inv (mSessionBiDict b)" using assms(1) by (simp add: cb_inv_def)
    obtain s e where e: "bd_entry (mSessionBiDict b) i s e" "ent_id e = i" "session_of e = s" "s \<noteq> 0"
      "bd_getExtById zero_entity i (mSessionBiDict b) = (e, mSessionBiDict b)" using sessions_entry [OF d True] by metis
    show ?thesis using assms CbUpdateSession e
      by (auto simp: cb_inv_def locAPIUpdateSessionOptions_def Let_def session_of_def intro!: removed_update_inv [OF d])
  qed (use assms CbUpdateSession in \<open>simp add: cb_inv_def locAPIUpdateSessionOptions_def\<close>)
next
  case (CbGetBatched i n)
  show ?thesis
  proof (cases "bd_hasId i (mSessionBiDict b)")
    case True
    obtain s e where "bd_getExtById zero_entity i (mSessionBiDict b) = (e, mSessionBiDict b)"
      using assms(1) sessions_entry [OF _ True] by (auto simp: cb_inv_def)
    then show ?thesis using assms CbGetBatched by (simp add: cb_inv_def locAPIGetBatchedLocations_def)
  qed (use assms CbGetBatched in \<open>simp add: cb_inv_def locAPIGetBatchedLocations_def\<close>)
next
  case (CbAddGeofences ids os info sessions)
  then show ?thesis using assms by (auto simp: cb_inv_def locAPIAddGeofences_def Let_def geofence_set_all split: option.splits)
next
  case (CbRemoveGeofences ids)
  then show ?thesis using assms gf_remove_loop_inv [of "mGeofenceBiDict b" ids new_bidict]
    by (auto simp: cb_inv_def locAPIRemoveGeofences_def split: prod.splits)
next
  case CbRemoveAllGeofences
  then show ?thesis using assms gf_remove_loop_inv [of "mGeofenceBiDict b" "bd_getAllSessions (mGeofenceBiDict b)" new_bidict]
    by (auto simp: cb_inv_def locAPIRemoveAllGeofences_def locAPIRemoveGeofences_def Let_def split: prod.splits)
next
  case (CbModifyGeofences ids os)
  then show ?thesis using assms sessions_loop_inv [of "mGeofenceBiDict b" ids "Some (map breachTypeMask os)"]
    by (auto simp: cb_inv_def locAPIModifyGeofences_def split: prod.splits)
next
  case (CbPauseGeofences ids)
  then show ?thesis using assms by (auto simp: cb_inv_def locAPIPauseGeofences_def split: prod.splits)
next
  case (CbResumeGeofences ids ms)
  then show ?thesis using assms sessions_loop_inv [of "mGeofenceBiDict b" ids ms]
    by (auto simp: cb_inv_def locAPIResumeGeofences_def split: prod.splits)
next
  case (CbBatchingStatus st ss)
  then show ?thesis using assms completed_trips_inv [of "mSessionBiDict b" ss]
    by (auto simp: cb_inv_def beforeBatchingStatusCb_def split: prod.splits)
next
  case (CbResponse err i)
  have "cb_inv b1" if "getRequestBySession i b = (r, b1)" for r b1
    using assms(1) that by (auto simp: getRequestBySession_def cb_inv_def Let_def split: if_splits prod.splits)
  moreover have "cb_inv (fst (onResponse r err i b1))" if "cb_inv b1" for r b1
    using that removeSession_inv [OF that, of i] by (auto simp: onResponse_def split: api_request.splits)
  ultimately show ?thesis using CbResponse by (auto simp: onResponseCb_def split: option.splits prod.splits)
next
  case (CbCollective errs ids)
  then show ?thesis using assms by (auto simp: cb_inv_def onCollectiveResponseCb_def split: option.splits prod.splits)
qed (use assms in \<open>auto simp: cb_inv_def locAPISetCallbacks_def locAPIStartTracking_def locAPIStopTracking_def
       locAPIUpdateTrackingOptions_def locAPIGnssNiResponse_def Let_def\<close>)

lemma cb_inv_start: "cb_inv new_client_base"
  by (simp add: cb_inv_def sessions_inv_def new_client_base_def)


definition cb_next :: "cb_op \<Rightarrow> client_base \<Rightarrow> (base_call list \<times> client_base) option" where
  "cb_next x b = Some (cb_step x b)"

lemma cb_run_inv: "cb_inv b \<Longrightarrow> ops_ok cb_ok cb_next xs b \<Longrightarrow> run_ops cb_next xs b = Some (outs, b1) \<Longrightarrow> cb_inv b1"
proof (induction xs arbitrary: b outs)
  case (Cons x xs)
  then show ?case using cb_step_inv [of b x] by (auto simp: cb_next_def split: option.splits prod.splits)
qed simp

section \<open>Sessions\<close>

text \<open>The sessions that a client has, with their mode.\<close>

definition client_sessions :: "client_base \<Rightarrow> u32 \<Rightarrow> (u32 \<times> u32) option" where
  "client_sessions b i =
     (case om_find (mForwardMap (mSessionBiDict b)) i of
        None \<Rightarrow> None
      | Some s \<Rightarrow> map_option (\<lambda>e. (sessionMode e, s)) (om_find (mExtMap (mSessionBiDict b)) s))"

lemma client_sessions_entry:
  assumes "bd_inv (mSessionBiDict b)"
  shows "client_sessions b i = Some (m, s) \<longleftrightarrow> (\<exists>e. bd_entry (mSessionBiDict b) i s e \<and> m = sessionMode e)"
    "client_sessions b i = None \<longleftrightarrow> \<not> bd_hasId i (mSessionBiDict b)"
proof -
  show "client_sessions b i = Some (m, s) \<longleftrightarrow> (\<exists>e. bd_entry (mSessionBiDict b) i s e \<and> m = sessionMode e)"
    by (auto simp: client_sessions_def bd_entry_def split: option.splits)
  show "client_sessions b i = None \<longleftrightarrow> \<not> bd_hasId i (mSessionBiDict b)"
  proof (cases "om_find (mForwardMap (mSessionBiDict b)) i")
    case (Some t)
    then obtain e where "bd_entry (mSessionBiDict b) i t e" by (rule bd_id_entry [OF assms])
    then show ?thesis by (simp add: client_sessions_def bd_entry_def bd_hasId_def)
  qed (simp add: client_sessions_def bd_hasId_def)
qed

lemma client_sessions_set:
  assumes "bd_inv (mSessionBiDict b)" "bd_inv (mSessionBiDict b1)" "session_of e = s"
    "\<And>j t f. bd_entry (mSessionBiDict b1) j t f \<longleftrightarrow> (if j = i then t = s \<and> f = e else bd_entry (mSessionBiDict b) j t f)"
  shows "client_sessions b1 = (client_sessions b)(i \<mapsto> (sessionMode e, s))"
proof
  fix j
  have "client_sessions b1 j = Some (m, t) \<longleftrightarrow> ((client_sessions b)(i \<mapsto> (sessionMode e, s))) j = Some (m, t)" for m t
    unfolding client_sessions_entry(1) [OF assms(2)] assms(4) using client_sessions_entry(1) [OF assms(1), of j m t] by auto
  then show "client_sessions b1 j = ((client_sessions b)(i \<mapsto> (sessionMode e, s))) j" by (metis option.exhaust prod.exhaust)
qed

definition stop_call :: "u32 \<times> u32 \<Rightarrow> base_call" where
  "stop_call ms = (if fst ms = SESSION_MODE_ON_FIX then ApiStopTracking (snd ms) else ApiStopBatching (snd ms))"

definition start_call :: "u32 \<Rightarrow> api_options \<Rightarrow> base_call" where
  "start_call mode os = (if mode = SESSION_MODE_ON_FIX then ApiStartTracking os else ApiStartBatching (fill_options os (bare_options mode)))"

text \<open>The calls for an update to \<open>mode\<close> of a session \<open>(m, s)\<close>.\<close>

definition update_calls :: "u32 \<Rightarrow> api_options \<Rightarrow> u32 \<times> u32 \<Rightarrow> base_call list" where
  "update_calls mode os ms =
     (if (mode = SESSION_MODE_ON_FIX) \<noteq> (fst ms = SESSION_MODE_ON_FIX) then [stop_call ms, start_call mode os]
      else if mode = SESSION_MODE_ON_FIX then [ApiUpdateTrackingOptions (snd ms) os]
      else [ApiUpdateBatchingOptions (snd ms) (bare_options mode)])"

lemma start_session_exact:
  assumes "cb_inv b" "cb_api b" "ret \<noteq> 0" "\<not> bd_hasSession ret (mSessionBiDict b)" "client_sessions b i = None"
  shows "fst (locAPIStartSession i mode os ret b) = LOCATION_ERROR_SUCCESS"
    "client_sessions (fst (snd (locAPIStartSession i mode os ret b))) = (client_sessions b)(i \<mapsto> (mode, ret))"
    "snd (snd (locAPIStartSession i mode os ret b)) = [start_call mode os]"
proof -
  have d: "bd_inv (mSessionBiDict b)" using assms(1) by (simp add: cb_inv_def sessions_inv_def)
  have n: "\<not> bd_hasId i (mSessionBiDict b)" using assms(5) client_sessions_entry(2) [OF d] by simp
  let ?e = "\<lparr>ent_id = i, trackingSession = (if mode = SESSION_MODE_ON_FIX then ret else 0),
    batchingSession = (if mode = SESSION_MODE_ON_FIX then 0 else ret), sessionMode = mode\<rparr>"
  let ?b1 = "fst (snd (locAPIStartSession i mode os ret b))"
  have b1: "mSessionBiDict ?b1 = bd_set i ret ?e (mSessionBiDict b)"
    using n assms(2) by (simp add: locAPIStartSession_def Let_def)
  have "client_sessions ?b1 = (client_sessions b)(i \<mapsto> (sessionMode ?e, ret))"
    using bd_set_new [OF d n assms(4,3), of ?e] by (intro client_sessions_set [OF d]) (simp_all add: b1 session_of_def)
  then show "client_sessions ?b1 = (client_sessions b)(i \<mapsto> (mode, ret))" by simp
  show "fst (locAPIStartSession i mode os ret b) = LOCATION_ERROR_SUCCESS" "snd (snd (locAPIStartSession i mode os ret b)) = [start_call mode os]"
    using n assms(2) by (simp_all add: locAPIStartSession_def Let_def start_call_def)
qed

definition updated_session :: "u32 \<Rightarrow> u32 \<Rightarrow> u32 \<times> u32 \<Rightarrow> u32" where
  "updated_session mode ret ms = (if (mode = SESSION_MODE_ON_FIX) = (fst ms = SESSION_MODE_ON_FIX) then snd ms else ret)"

lemma update_session_exact:
  assumes "cb_inv b" "cb_api b" "ret \<noteq> 0" "\<not> bd_hasSession ret (mSessionBiDict b)" "client_sessions b i = Some (m, s)"
  shows "fst (locAPIUpdateSessionOptions i mode os ret b) = LOCATION_ERROR_SUCCESS"
    "client_sessions (fst (snd (locAPIUpdateSessionOptions i mode os ret b))) = (client_sessions b)(i \<mapsto> (mode, updated_session mode ret (m, s)))"
    "snd (snd (locAPIUpdateSessionOptions i mode os ret b)) = update_calls mode os (m, s)"
proof -
  have d: "bd_inv (mSessionBiDict b)" "sessions_inv (mSessionBiDict b)" using assms(1) by (simp_all add: cb_inv_def sessions_inv_def)
  obtain e where e: "bd_entry (mSessionBiDict b) i s e" "m = sessionMode e" using assms(5) client_sessions_entry(1) [OF d(1)] by auto
  note E = bd_entryD [OF d(1) e(1)]
  have s: "session_of e = s" "ent_id e = i" using d(2) e(1) by (auto simp: sessions_inv_def)
  let ?b1 = "fst (snd (locAPIUpdateSessionOptions i mode os ret b))"
  define t where "t = updated_session mode ret (m, s)"
  define e1 where "e1 = e\<lparr>trackingSession := (if mode = SESSION_MODE_ON_FIX then t else if m = SESSION_MODE_ON_FIX then 0 else trackingSession e),
    batchingSession := (if mode \<noteq> SESSION_MODE_ON_FIX then t else if m \<noteq> SESSION_MODE_ON_FIX then 0 else batchingSession e), sessionMode := mode\<rparr>"
  have b1: "mSessionBiDict ?b1 = bd_set i t e1 (bd_rmBySession s (mSessionBiDict b))" "session_of e1 = t" "sessionMode e1 = mode"
    using assms(2) e(2) E(3) s bd_entry_ext(2) [OF d(1) e(1), of zero_entity] bd_rmById_rmBySession [OF d(1) E(1)]
    by (auto simp: locAPIUpdateSessionOptions_def Let_def t_def updated_session_def session_of_def e1_def)
  have r: "bd_inv (bd_rmBySession s (mSessionBiDict b))" "\<not> bd_hasId i (bd_rmBySession s (mSessionBiDict b))"
    "\<not> bd_hasSession t (bd_rmBySession s (mSessionBiDict b))" "t \<noteq> 0"
    using bd_rm [OF d(1) E(1)] assms(3,4) E(2) by (auto simp: t_def updated_session_def)
  have "client_sessions ?b1 = (client_sessions b)(i \<mapsto> (sessionMode e1, t))"
    using bd_set_new [OF r] bd_rm(2) [OF d(1) E(1)] b1 by (intro client_sessions_set [OF d(1)]) auto
  then show "client_sessions ?b1 = (client_sessions b)(i \<mapsto> (mode, updated_session mode ret (m, s)))" by (simp add: b1 t_def)
  show "fst (locAPIUpdateSessionOptions i mode os ret b) = LOCATION_ERROR_SUCCESS"
    using assms(2) E(3) by (simp add: locAPIUpdateSessionOptions_def Let_def split_beta)
  show "snd (snd (locAPIUpdateSessionOptions i mode os ret b)) = update_calls mode os (m, s)"
    using assms(2) E(3) e(2) s bd_entry_ext(2) [OF d(1) e(1), of zero_entity]
    by (auto simp: locAPIUpdateSessionOptions_def Let_def stop_call_def start_call_def update_calls_def session_of_def)
qed

lemma stop_session_exact:
  assumes "cb_inv b" "cb_api b" "client_sessions b i = Some (m, s)"
  shows "fst (locAPIStopSession i b) = LOCATION_ERROR_SUCCESS" "snd (snd (locAPIStopSession i b)) = [stop_call (m, s)]"
    "client_sessions (fst (snd (locAPIStopSession i b))) = client_sessions b"
proof -
  have d: "bd_inv (mSessionBiDict b)" "sessions_inv (mSessionBiDict b)" using assms(1) by (simp_all add: cb_inv_def sessions_inv_def)
  obtain e where e: "bd_entry (mSessionBiDict b) i s e" "m = sessionMode e" using assms(3) client_sessions_entry(1) [OF d(1)] by auto
  have "session_of e = s" using d(2) e(1) by (auto simp: sessions_inv_def)
  then show "fst (locAPIStopSession i b) = LOCATION_ERROR_SUCCESS" "snd (snd (locAPIStopSession i b)) = [stop_call (m, s)]"
    "client_sessions (fst (snd (locAPIStopSession i b))) = client_sessions b"
    using assms(2) e(2) bd_entryD(3) [OF d(1) e(1)] bd_entry_ext [OF d(1) e(1), of zero_entity]
    by (auto simp: locAPIStopSession_def stop_call_def session_of_def client_sessions_def split: option.splits)
qed

text \<open>C15. Whatever happened before, the commands of a client act on the session of the API that its
  identifier stands for, and on no other: these are all the calls that are made. An unknown identifier
  is neither stopped nor updated, and a start asks the API for a session of its kind and remembers the
  one that the API returns. A known identifier is not started again, is stopped by the call of its kind
  for its session, and is updated by the call of its kind for its session unless the kind changes; then
  its session is stopped and one of the new kind is started, which takes its place. No other
  identifier is affected. The API must have been created, and a session that it returns must not be 0
  or in use.\<close>

theorem session_commands_exact:
  assumes "ops_ok cb_ok cb_next xs new_client_base" "run_ops cb_next xs new_client_base = Some (outs, b)" "cb_api b"
    "ret \<noteq> 0" "\<not> bd_hasSession ret (mSessionBiDict b)"
  shows "case client_sessions b i of
      None \<Rightarrow> locAPIStopSession i b = (LOCATION_ERROR_ID_UNKNOWN, b, []) \<and>
        locAPIUpdateSessionOptions i mode os ret b = (LOCATION_ERROR_ID_UNKNOWN, b, []) \<and>
        (\<exists>b1. locAPIStartSession i mode os ret b = (LOCATION_ERROR_SUCCESS, b1, [start_call mode os]) \<and>
          client_sessions b1 = (client_sessions b)(i \<mapsto> (mode, ret)))
    | Some (m, s) \<Rightarrow> locAPIStartSession i mode os ret b = (LOCATION_ERROR_ALREADY_STARTED, b, []) \<and>
        (\<exists>b1. locAPIStopSession i b = (LOCATION_ERROR_SUCCESS, b1, [stop_call (m, s)]) \<and> client_sessions b1 = client_sessions b) \<and>
        (\<exists>b1. locAPIUpdateSessionOptions i mode os ret b = (LOCATION_ERROR_SUCCESS, b1, update_calls mode os (m, s)) \<and>
          client_sessions b1 = (client_sessions b)(i \<mapsto> (mode, updated_session mode ret (m, s))))"
proof -
  have inv: "cb_inv b" using cb_run_inv [OF cb_inv_start assms(1,2)] .
  then have known: "client_sessions b i = None \<longleftrightarrow> \<not> bd_hasId i (mSessionBiDict b)"
    by (intro client_sessions_entry) (simp add: cb_inv_def sessions_inv_def)
  show ?thesis
  proof (cases "client_sessions b i")
    case None
    then show ?thesis using start_session_exact [OF inv assms(3-5) None, of mode os] known assms(3)
      by (cases "locAPIStartSession i mode os ret b") (auto simp: locAPIStopSession_def locAPIUpdateSessionOptions_def)
  next
    case (Some ms)
    obtain m s where [simp]: "ms = (m, s)" by (cases ms)
    show ?thesis using Some known assms(3) stop_session_exact [OF inv assms(3), of i m s] update_session_exact [OF inv assms(3-5), of i m s mode os]
      by (cases "locAPIStopSession i b"; cases "locAPIUpdateSessionOptions i mode os ret b") (simp add: locAPIStartSession_def)
  qed
qed

section \<open>Geofences\<close>

lemma bd_eqI:
  fixes d d1 :: "'t bidict"
  assumes "bd_inv d" "bd_inv d1" "\<And>i s e. bd_entry d i s e \<longleftrightarrow> bd_entry d1 i s e"
  shows "d = d1"
proof -
  have s: "om_find (mForwardMap a) i = Some t \<Longrightarrow> om_find (mForwardMap b) i = Some t"
    if "bd_inv a" "\<And>i s e. bd_entry a i s e \<longleftrightarrow> bd_entry b i s e" for a b :: "'t bidict" and i t
    using bd_id_entry [OF that(1), of i t] that(2) by (auto simp: bd_entry_def)
  have f: "om_find (mForwardMap d) i = om_find (mForwardMap d1) i" for i
    using s [OF assms(1), of d1 i] s [OF assms(2), of d i] assms(3) by (metis not_Some_eq)
  have b: "om_find (mBackwardMap d) t = om_find (mBackwardMap d1) t" for t
    using bd_invD(4) [OF assms(1), of _ t] bd_invD(4) [OF assms(2), of _ t] f by (metis not_Some_eq)
  have e: "om_find (mExtMap d) t = om_find (mExtMap d1) t" for t
  proof (cases "om_find (mBackwardMap d) t")
    case None
    then show ?thesis using b [of t] bd_invD(5) [OF assms(1), of t] bd_invD(5) [OF assms(2), of t] by simp
  next
    case (Some i)
    then have "om_find (mForwardMap d) i = Some t" using bd_invD(4) [OF assms(1)] by simp
    moreover from this obtain e where "bd_entry d i t e" by (rule bd_id_entry [OF assms(1)])
    ultimately show ?thesis using assms(3) [of i t e] by (simp add: bd_entry_def)
  qed
  have "mForwardMap d = mForwardMap d1" "mBackwardMap d = mBackwardMap d1" "mExtMap d = mExtMap d1"
    using bd_invD(1-3) [OF assms(1)] bd_invD(1-3) [OF assms(2)] f b e by (auto intro!: om_eqI)
  then show ?thesis by simp
qed

text \<open>Identifiers and sessions that can be added together.\<close>

definition addable :: "u32 list \<Rightarrow> u32 list \<Rightarrow> 't bidict \<Rightarrow> bool" where
  "addable ids ss d \<longleftrightarrow> distinct ids \<and> distinct ss \<and> length ss = length ids \<and> (\<forall>i \<in> set ids. \<not> bd_hasId i d) \<and>
     (\<forall>s \<in> set ss. s \<noteq> 0 \<and> \<not> bd_hasSession s d)"

lemma set_all_entries:
  "bd_inv d \<Longrightarrow> addable ids ss d \<Longrightarrow> length os = length ids \<Longrightarrow>
    bd_entry (set_all ids ss os d) j t f \<longleftrightarrow> (j, t, f) \<in> set (zip ids (zip ss (map breachTypeMask os))) \<or> j \<notin> set ids \<and> bd_entry d j t f"
proof (induction ids ss os d rule: set_all.induct)
  case (1 i ids s ss o1 os d)
  let ?d = "bd_set i s (breachTypeMask o1) d"
  have fresh: "\<not> bd_hasId i d" "\<not> bd_hasSession s d" "s \<noteq> 0" "i \<notin> set ids" "addable ids ss ?d" "length os = length ids"
    using 1(3,4) by (auto simp: addable_def)
  note n = bd_set_new [OF 1(2) fresh(1-3)]
  have "(i, t, f) \<notin> set (zip ids (zip ss (map breachTypeMask os)))" using fresh(4) by (auto dest: set_zip_leftD)
  then show ?case unfolding set_all.simps 1(1) [OF n(1) fresh(5,6)] n(2) using fresh(4) by auto
qed (auto simp: addable_def)

lemma gf_remove_loop_all:
  fixes d r :: "16 word bidict"
  shows "bd_inv d \<Longrightarrow> bd_inv r \<Longrightarrow> addable ids ss r \<Longrightarrow> list_all2 (\<lambda>i s. \<exists>e. bd_entry d i s e) ids ss \<Longrightarrow>
    \<exists>d1 r1. gf_remove_loop ids d r = (ss, d1, r1) \<and> bd_inv d1 \<and> bd_inv r1 \<and>
      (\<forall>i s e. bd_entry d1 i s e \<longleftrightarrow> i \<notin> set ids \<and> bd_entry d i s e) \<and>
      (\<forall>i s e. bd_entry r1 i s e \<longleftrightarrow> (if i \<in> set ids then bd_entry d i s e else bd_entry r i s e))"
proof (induction ids arbitrary: ss d r)
  case (Cons i ids)
  obtain s ss1 e where ss: "ss = s # ss1" and e: "bd_entry d i s e" and rest: "list_all2 (\<lambda>i s. \<exists>e. bd_entry d i s e) ids ss1"
    using Cons.prems(4) by (auto simp: list_all2_Cons1)
  note E = bd_entryD [OF Cons.prems(1) e] bd_entry_ext [OF Cons.prems(1) e]
  note R = bd_rm [OF Cons.prems(1) E(1)]
  have a: "i \<notin> set ids" "\<not> bd_hasId i r" "\<not> bd_hasSession s r" "addable ids ss1 (bd_set i s e r)" "s \<notin> set ss1"
    using Cons.prems(3) by (auto simp: addable_def ss)
  have l: "list_all2 (\<lambda>i s. \<exists>e. bd_entry (bd_rmBySession s0 d) i s e) ids ss1" if "s0 = s" for s0
    using rest a(1) R(2) that by (force simp: list_all2_conv_all_nth in_set_conv_nth)
  note N = bd_set_new [OF Cons.prems(2) a(2,3) E(2), of e]
  obtain d1 r1 where IH: "gf_remove_loop ids (bd_rmBySession s d) (bd_set i s e r) = (ss1, d1, r1)" "bd_inv d1" "bd_inv r1"
    "\<And>j t f. bd_entry d1 j t f \<longleftrightarrow> j \<notin> set ids \<and> bd_entry (bd_rmBySession s d) j t f"
    "\<And>j t f. bd_entry r1 j t f \<longleftrightarrow> (if j \<in> set ids then bd_entry (bd_rmBySession s d) j t f else bd_entry (bd_set i s e r) j t f)"
    using Cons.IH [OF R(1) N(1) a(4) l [OF refl]] by blast
  have u: "bd_entry d i t f \<longleftrightarrow> t = s \<and> f = e" for t f using e by (auto simp: bd_entry_def)
  have "gf_remove_loop (i # ids) d r = (ss, d1, r1)" using IH(1) E(2,5,7) by (simp add: ss Let_def word_gt_0)
  moreover have "bd_entry d1 j t f \<longleftrightarrow> j \<notin> set (i # ids) \<and> bd_entry d j t f" for j t f using IH(4) R(2) by auto
  moreover have "bd_entry r1 j t f \<longleftrightarrow> (if j \<in> set (i # ids) then bd_entry d j t f else bd_entry r j t f)" for j t f
    using IH(5) [of j t f] R(2) [of j t f] N(2) [of j t f] a(1) u by auto
  ultimately show ?case using IH(2,3) by blast
qed (auto simp: addable_def)

lemma map_getId:
  assumes "bd_inv d" "list_all2 (\<lambda>i s. \<exists>e. bd_entry d i s e) ids ss"
  shows "map (\<lambda>s. bd_getId s d) ss = ids"
  using assms(2) bd_entryD(6) [OF assms(1)] by (induction rule: list_all2_induct) auto

lemma set_all_list:
  assumes "bd_inv d" "addable ids ss d" "length os = length ids"
  shows "list_all2 (\<lambda>i s. \<exists>e. bd_entry (set_all ids ss os d) i s e) ids ss"
proof -
  have "(ids ! k, ss ! k, breachTypeMask (os ! k)) \<in> set (zip ids (zip ss (map breachTypeMask os)))" if "k < length ids" for k
    using that assms(2,3) by (auto simp: in_set_zip addable_def)
  then show ?thesis using assms(2) set_all_entries [OF assms] by (fastforce simp: list_all2_conv_all_nth addable_def)
qed

text \<open>C37. Geofences that are added and then removed: each answer of the API comes back with the
  identifiers of the client in their order, the API is asked to remove exactly the sessions that it
  gave, and the dictionary and the queue are again as they were.\<close>

theorem geofence_client_roundtrip:
  assumes "ops_ok cb_ok cb_next xs new_client_base" "run_ops cb_next xs new_client_base = Some (outs, b)" "cb_api b"
    "mQueue (q_geofence b) = []" "addable ids ss (mGeofenceBiDict b)" "length os = length ids" "ids \<noteq> []"
  shows "\<exists>b4. run_ops cb_next [CbAddGeofences ids os info (Some ss), CbCollective errs ss, CbRemoveGeofences ids, CbCollective errs2 ss] b =
      Some ([[ApiAddGeofences os info], [OnAddGeofences errs ids], [ApiRemoveGeofences ss], [OnRemoveGeofences errs2 ids]], b4) \<and>
    mGeofenceBiDict b4 = mGeofenceBiDict b \<and> mQueue (q_geofence b4) = []"
proof -
  define d where "d = mGeofenceBiDict b"
  define d2 where "d2 = set_all ids ss os d"
  have d: "bd_inv d" "addable ids ss d"
    using cb_run_inv [OF cb_inv_start assms(1,2)] assms(5) by (simp_all add: cb_inv_def d_def)
  have d2: "bd_inv d2" using d by (auto simp: d2_def addable_def intro!: geofence_set_all)
  have l: "list_all2 (\<lambda>i s. \<exists>e. bd_entry d2 i s e) ids ss" using set_all_list [OF d assms(6)] by (simp add: d2_def)
  have "addable ids ss (new_bidict :: 16 word bidict)"
    using d(2) by (auto simp: addable_def bd_hasId_def bd_hasSession_def new_bidict_def)
  from gf_remove_loop_all [OF d2 bd_inv_new(1) this l]
  obtain d3 r where r: "gf_remove_loop ids d2 new_bidict = (ss, d3, r)" "bd_inv d3" "bd_inv r"
    "\<And>i s e. bd_entry d3 i s e \<longleftrightarrow> i \<notin> set ids \<and> bd_entry d2 i s e" "\<And>i s e. bd_entry r i s e \<longleftrightarrow> i \<in> set ids \<and> bd_entry d2 i s e"
    by auto
  have "bd_entry d i s e \<Longrightarrow> i \<notin> set ids" for i s e using d bd_entryD(3) [OF d(1)] by (auto simp: addable_def)
  then have "bd_entry d3 i s e \<longleftrightarrow> bd_entry d i s e" for i s e
    unfolding r(4) d2_def set_all_entries [OF d assms(6)] by (auto dest: set_zip_leftD)
  then have same: "d3 = d" by (rule bd_eqI [OF r(2) d(1)])
  have lr: "list_all2 (\<lambda>i s. \<exists>e. bd_entry r i s e) ids ss"
    using l by (auto simp: list_all2_conv_all_nth r(5))
  note m = map_getId [OF d2 l] map_getId [OF r(3) lr]
  have "ss \<noteq> []" using assms(5,7) by (auto simp: addable_def)
  then show ?thesis using r(1) m assms(3,4)
    by (auto simp: cb_next_def locAPIAddGeofences_def locAPIRemoveGeofences_def onCollectiveResponseCb_def onCollectiveResponse_def
        Let_def rq_push_def rq_pop_def rq_reset_def same d_def d2_def)
qed


section \<open>Concrete runs\<close>

definition some_options :: api_options where
  "some_options = \<lparr>ao_minInterval = 1000, ao_minDistance = 0, ao_mode = 0, ao_rest = 0\<rparr>"

definition one_session :: "cb_op list" where
  "one_session = [CbSetCallbacks True, CbStartSession 7 SESSION_MODE_ON_FIX some_options 1]"

lemmas cb_eval = cb_next_def new_client_base_def new_queue_def new_bidict_def locAPISetCallbacks_def locAPIStartSession_def bd_hasId_def
  bd_hasSession_def bd_set_def rq_push_def Let_def

theorem session_commands_exact_witness:
  "\<exists>outs b. run_ops cb_next one_session new_client_base = Some (outs, b) \<and> client_sessions b 7 = Some (SESSION_MODE_ON_FIX, 1) \<and>
    snd (snd (locAPIStopSession 7 b)) = [ApiStopTracking 1] \<and>
    snd (snd (locAPIUpdateSessionOptions 7 SESSION_MODE_ON_FIX some_options 2 b)) = [ApiUpdateTrackingOptions 1 some_options]"
proof -
  have ok: "ops_ok cb_ok cb_next one_session new_client_base" by (simp add: one_session_def cb_eval)
  obtain outs b where run: "run_ops cb_next one_session new_client_base = Some (outs, b)" "cb_api b" "\<not> bd_hasSession 2 (mSessionBiDict b)"
    "client_sessions b 7 = Some (SESSION_MODE_ON_FIX, 1)"
    by (simp add: one_session_def cb_eval client_sessions_def)
  show ?thesis
    using session_commands_exact [OF ok run(1,2) _ run(3), of 7 SESSION_MODE_ON_FIX some_options] run
    by (auto simp: stop_call_def update_calls_def)
qed

definition some_fence :: gf_option where
  "some_fence = \<lparr>breachTypeMask = 3, opt_responsiveness = 0, opt_dwellTime = 0\<rparr>"

theorem geofence_client_roundtrip_witness:
  "\<exists>b. run_ops cb_next [CbSetCallbacks True] new_client_base = Some ([[]], b) \<and>
    (\<exists>b4. run_ops cb_next [CbAddGeofences [5, 6] [some_fence, some_fence] [] (Some [1, 2]), CbCollective [] [1, 2], CbRemoveGeofences [5, 6], CbCollective [] [1, 2]] b =
      Some ([[ApiAddGeofences [some_fence, some_fence] []], [OnAddGeofences [] [5, 6]], [ApiRemoveGeofences [1, 2]], [OnRemoveGeofences [] [5, 6]]], b4) \<and>
      mGeofenceBiDict b4 = mGeofenceBiDict b)"
proof -
  have ok: "ops_ok cb_ok cb_next [CbSetCallbacks True] new_client_base" by (simp add: cb_next_def)
  obtain b where run: "run_ops cb_next [CbSetCallbacks True] new_client_base = Some ([[]], b)" "cb_api b"
    "mQueue (q_geofence b) = []" "mGeofenceBiDict b = new_bidict" by (simp add: cb_eval)
  have "addable [5, 6] [1, 2] (mGeofenceBiDict b)" using run(4) by (simp add: addable_def bd_hasId_def bd_hasSession_def new_bidict_def)
  then show ?thesis
    using geofence_client_roundtrip [OF ok run(1-3), of "[5, 6]" "[1, 2]" "[some_fence, some_fence]" "[]" "[]" "[]"] run(1) by auto
qed

text \<open>Removing all geofences passes sessions where identifiers are expected: when no session is also
  an identifier, nothing is removed.\<close>

lemma gf_remove_loop_nothing: "\<forall>i \<in> set ids. \<not> bd_hasId i d \<Longrightarrow> gf_remove_loop ids d r = ([], d, r)"
  by (induction ids) (auto simp: bd_hasId_def bd_getSession_def)

lemma remove_all_removes_nothing:
  assumes "\<forall>s. bd_hasSession s (mGeofenceBiDict b) \<longrightarrow> \<not> bd_hasId s (mGeofenceBiDict b)" "om_ok (mBackwardMap (mGeofenceBiDict b))"
  shows "locAPIRemoveAllGeofences b = (b, [])"
proof -
  have "\<forall>s \<in> set (bd_getAllSessions (mGeofenceBiDict b)). \<not> bd_hasId s (mGeofenceBiDict b)"
    using assms by (auto simp: bd_getAllSessions_def bd_hasSession_def find_iff_mem [symmetric])
  from gf_remove_loop_nothing [OF this, of new_bidict]
  show ?thesis by (simp add: locAPIRemoveAllGeofences_def locAPIRemoveGeofences_def Let_def)
qed

text \<open>An unknown identifier in the middle shifts the sessions but not the options.\<close>

lemma modify_options_shifted:
  assumes "cb_api b" "mSession (q_geofence b) = GEOFENCE_SESSION_ID" "bd_getSession 9 (mGeofenceBiDict b) = 0" "bd_getSession 5 (mGeofenceBiDict b) = s" "s > 0"
  shows "snd (locAPIModifyGeofences [9, 5] [o1, o2] b) = [ApiModifyGeofences [s] [o1, o2]]"
    "bd_getExtBySession 0 s (mGeofenceBiDict (fst (locAPIModifyGeofences [9, 5] [o1, o2] b))) = breachTypeMask o2"
  using assms by (auto simp: locAPIModifyGeofences_def Let_def bd_getExtBySession_def bd_set_def)

text \<open>An update of a batching session that stays one drops the interval and the distance.\<close>

lemma update_batching_drops_options:
  assumes "cb_inv b" "cb_api b" "client_sessions b i = Some (SESSION_MODE_ON_FULL, s)"
  shows "snd (snd (locAPIUpdateSessionOptions i SESSION_MODE_ON_FULL os ret b)) = [ApiUpdateBatchingOptions s (bare_options SESSION_MODE_ON_FULL)]"
    "minInterval (bare_options m) = 0" "minDistance (bare_options m) = 0"
proof -
  have d: "bd_inv (mSessionBiDict b)" "sessions_inv (mSessionBiDict b)" using assms(1) by (simp_all add: cb_inv_def sessions_inv_def)
  obtain e where e: "bd_entry (mSessionBiDict b) i s e" "sessionMode e = SESSION_MODE_ON_FULL"
    using assms(3) client_sessions_entry(1) [OF d(1)] by auto
  have "session_of e = s" using d(2) e(1) by (auto simp: sessions_inv_def)
  then show "snd (snd (locAPIUpdateSessionOptions i SESSION_MODE_ON_FULL os ret b)) = [ApiUpdateBatchingOptions s (bare_options SESSION_MODE_ON_FULL)]"
    using assms(2) e(2) bd_entryD(3) [OF d(1) e(1)] bd_entry_ext(2) [OF d(1) e(1), of zero_entity]
    by (simp add: locAPIUpdateSessionOptions_def Let_def session_of_def SESSION_MODE_ON_FULL_def SESSION_MODE_ON_FIX_def)
qed (simp_all add: bare_options_def default_options_def)

text \<open>The sessions share one queue. When the answer to the start of session 9 comes before the answer
  to the stop of session 8, it is taken for the answer to the stop, and session 9 is forgotten while
  it runs.\<close>

definition crossed :: "cb_op list" where
  "crossed =
     [CbSetCallbacks True, CbStartSession 8 SESSION_MODE_ON_FULL some_options 2, CbResponse LOCATION_ERROR_SUCCESS 2, CbStopSession 8,
      CbStartSession 9 SESSION_MODE_ON_FIX some_options 3, CbResponse LOCATION_ERROR_SUCCESS 3]"

lemma answers_crossed:
  "ops_ok cb_ok cb_next crossed new_client_base"
  "\<exists>outs b. run_ops cb_next crossed new_client_base = Some (outs, b) \<and> last outs = [OnStopBatching LOCATION_ERROR_SUCCESS] \<and>
    client_sessions b 9 = None \<and> client_sessions b 8 \<noteq> None"
  by (simp_all add: crossed_def cb_eval client_sessions_def locAPIStopSession_def onResponseCb_def onResponse_def getRequestBySession_def
      rq_pop_def removeSession_def bd_rmBySession_def om_at_def bd_getExtById_def SESSION_MODE_ON_FULL_def SESSION_MODE_ON_FIX_def)

end
