(* ===== verification/Client_Control.thy ===== *)
theory Client_Control
  imports Client_Base Gnss_Sv_Config
begin

text \<open>
  The control client of location/LocationAPIClientBase.cpp, with the configuration of
  LocationDataTypes.h that it compares: requests wait in queues for the answers of the control API.
  What the API returns is an argument of the operations.
\<close>

section \<open>The configuration\<close>

record assistance_server =
  as_type :: u32
  hostName :: "string option"
  as_port :: u32

definition assistance_equals :: "assistance_server \<Rightarrow> assistance_server \<Rightarrow> bool" where
  "assistance_equals this config \<longleftrightarrow> as_type config = as_type this \<and> as_port config = as_port this \<and>
     (hostName config = None \<and> hostName this = None \<or>
      (\<exists>a b. hostName config = Some a \<and> hostName this = Some b \<and> a = b))"

record robust_version =
  major_version :: "8 word"
  minor_version :: "16 word"

definition version_equals :: "robust_version \<Rightarrow> robust_version \<Rightarrow> bool" where
  "version_equals this v \<longleftrightarrow> major_version v = major_version this \<and> minor_version v = minor_version this"

record robust_location =
  rl_validMask :: u32
  rl_enabled :: bool
  rl_enabledForE911 :: bool
  rl_version :: robust_version

definition robust_equals :: "robust_location \<Rightarrow> robust_location \<Rightarrow> bool" where
  "robust_equals this config \<longleftrightarrow> rl_validMask config = rl_validMask this \<and> rl_enabled config = rl_enabled this \<and>
     rl_enabledForE911 config = rl_enabledForE911 this \<and> version_equals (rl_version config) (rl_version this)"

definition sv_source_equals :: "sv_source \<Rightarrow> sv_source \<Rightarrow> bool" where
  "sv_source_equals left right \<longleftrightarrow> src_size left = src_size right \<and> constellation left = constellation right \<and> svId left = svId right"

definition sv_types_equals :: "sv_type_config \<Rightarrow> sv_type_config \<Rightarrow> bool" where
  "sv_types_equals this config \<longleftrightarrow> tc_size config = tc_size this \<and> enabledSvTypesMask config = enabledSvTypesMask this \<and>
     blacklistedSvTypesMask config = blacklistedSvTypesMask this"

record gnss_config =
  gc_size :: u32
  gc_flags :: u32
  gc_gpsLock :: u32
  gc_suplVersion :: u32
  gc_assistanceServer :: assistance_server
  gc_lppProfileMask :: "16 word"
  gc_lppeControlPlaneMask :: "16 word"
  gc_lppeUserPlaneMask :: "16 word"
  gc_aGlonassPositionProtocolMask :: "16 word"
  gc_emergencyPdnForEmergencySupl :: u32
  gc_suplEmergencyServices :: u32
  gc_suplModeMask :: "16 word"
  gc_blacklistedSvIds :: "sv_source list"
  gc_emergencyExtensionSeconds :: u32
  gc_robustLocationConfig :: robust_location
  gc_minGpsWeek :: "16 word"
  gc_minSvElevation :: "8 word"
  gc_secondaryBandConfig :: sv_type_config

definition zero_config :: gnss_config where
  "zero_config = \<lparr>gc_size = 0, gc_flags = 0, gc_gpsLock = 0, gc_suplVersion = 0,
     gc_assistanceServer = \<lparr>as_type = 0, hostName = None, as_port = 0\<rparr>, gc_lppProfileMask = 0, gc_lppeControlPlaneMask = 0,
     gc_lppeUserPlaneMask = 0, gc_aGlonassPositionProtocolMask = 0, gc_emergencyPdnForEmergencySupl = 0, gc_suplEmergencyServices = 0,
     gc_suplModeMask = 0, gc_blacklistedSvIds = [], gc_emergencyExtensionSeconds = 0,
     gc_robustLocationConfig = \<lparr>rl_validMask = 0, rl_enabled = False, rl_enabledForE911 = False,
       rl_version = \<lparr>major_version = 0, minor_version = 0\<rparr>\<rparr>,
     gc_minGpsWeek = 0, gc_minSvElevation = 0, gc_secondaryBandConfig = no_sv_types\<rparr>"

definition config_equals :: "gnss_config \<Rightarrow> gnss_config \<Rightarrow> bool" where
  "config_equals this config \<longleftrightarrow>
     gc_flags this = gc_flags config \<and> gc_gpsLock this = gc_gpsLock config \<and> gc_suplVersion this = gc_suplVersion config \<and>
     assistance_equals (gc_assistanceServer this) (gc_assistanceServer config) \<and>
     gc_lppProfileMask this = gc_lppProfileMask config \<and> gc_lppeControlPlaneMask this = gc_lppeControlPlaneMask config \<and>
     gc_lppeUserPlaneMask this = gc_lppeUserPlaneMask config \<and>
     gc_aGlonassPositionProtocolMask this = gc_aGlonassPositionProtocolMask config \<and>
     gc_emergencyPdnForEmergencySupl this = gc_emergencyPdnForEmergencySupl config \<and>
     gc_suplEmergencyServices this = gc_suplEmergencyServices config \<and> gc_suplModeMask this = gc_suplModeMask config \<and>
     list_all2 sv_source_equals (gc_blacklistedSvIds this) (gc_blacklistedSvIds config) \<and>
     gc_emergencyExtensionSeconds this = gc_emergencyExtensionSeconds config \<and>
     robust_equals (gc_robustLocationConfig this) (gc_robustLocationConfig config) \<and>
     gc_minGpsWeek this = gc_minGpsWeek config \<and> gc_minSvElevation this = gc_minSvElevation config \<and>
     sv_types_equals (gc_secondaryBandConfig this) (gc_secondaryBandConfig config)"

section \<open>State\<close>

datatype ctrl_request =
    GnssDeleteAidingDataRequest
  | EnableRequest
  | DisableRequest
  | GnssUpdateConfigRequest
  | GnssGetConfigRequest

datatype ctrl_call =
    CallDeleteAidingData nat
  | CallEnable u32
  | CallDisable u32
  | CallUpdateConfig gnss_config
  | CallGetConfig u32
  | OnGnssDeleteAidingData location_error
  | OnEnable location_error
  | OnDisable location_error
  | OnGnssUpdateConfig "location_error list" "u32 list"
  | OnGnssGetConfig "location_error list" "u32 list"

record control_client =
  has_control :: bool
  q_deleteAidingData :: "ctrl_request request_queue"
  q_control :: "ctrl_request request_queue"
  q_configUpdate :: "ctrl_request request_queue"
  q_configGet :: "ctrl_request request_queue"
  mEnabled :: bool
  mConfig :: gnss_config

text \<open>The argument says whether the control API could be created.\<close>

definition new_control_client :: "bool \<Rightarrow> control_client" where
  "new_control_client created = \<lparr>has_control = created, q_deleteAidingData = new_queue, q_control = new_queue, q_configUpdate = new_queue,
     q_configGet = new_queue, mEnabled = False, mConfig = zero_config\<rparr>"

type_synonym ctrl_result = "control_client \<times> ctrl_call list"

section \<open>Operations\<close>

definition locAPIGnssDeleteAidingData :: "nat \<Rightarrow> u32 \<Rightarrow> control_client \<Rightarrow> location_error \<times> ctrl_result" where
  "locAPIGnssDeleteAidingData data session c =
     (if has_control c
      then (LOCATION_ERROR_SUCCESS,
            c\<lparr>q_deleteAidingData := rq_push GnssDeleteAidingDataRequest (rq_reset session (q_deleteAidingData c))\<rparr>, [CallDeleteAidingData data])
      else (LOCATION_ERROR_GENERAL_FAILURE, c, []))"

definition locAPIEnable :: "u32 \<Rightarrow> u32 \<Rightarrow> control_client \<Rightarrow> location_error \<times> ctrl_result" where
  "locAPIEnable techType session c =
     (if mEnabled c then (LOCATION_ERROR_SUCCESS, c, [])
      else if has_control c
      then (LOCATION_ERROR_SUCCESS, c\<lparr>q_control := rq_push EnableRequest (rq_reset session (q_control c)), mEnabled := True\<rparr>, [CallEnable techType])
      else (LOCATION_ERROR_GENERAL_FAILURE, c, []))"

definition locAPIDisable :: "control_client \<Rightarrow> ctrl_result" where
  "locAPIDisable c =
     (if mEnabled c \<and> has_control c \<and> mSession (q_control c) > 0
      then (c\<lparr>q_control := rq_push DisableRequest (q_control c), mEnabled := False\<rparr>, [CallDisable (mSession (q_control c))])
      else (c, []))"

text \<open>The queue of a configuration command; the array is deleted at the end of the command.\<close>

definition push_config :: "ctrl_request \<Rightarrow> ptr \<Rightarrow> ctrl_request request_queue \<Rightarrow> ctrl_request request_queue" where
  "push_config r idArray q = rq_push r (if mSessionArrayPtr q \<noteq> None then rq_reset_array idArray q else q)"

definition locAPIGnssUpdateConfig :: "gnss_config \<Rightarrow> ptr \<Rightarrow> control_client \<Rightarrow> location_error \<times> ctrl_result" where
  "locAPIGnssUpdateConfig config idArray c =
     (if has_control c
      then if config_equals (mConfig c) config then (LOCATION_ERROR_SUCCESS, c, [])
           else (let c1 = c\<lparr>mConfig := config\<rparr> in
                 if idArray \<noteq> None
                 then (LOCATION_ERROR_SUCCESS, c1\<lparr>q_configUpdate := push_config GnssUpdateConfigRequest idArray (q_configUpdate c1)\<rparr>,
                       [CallUpdateConfig config])
                 else (LOCATION_ERROR_GENERAL_FAILURE, c1, [CallUpdateConfig config]))
      else (LOCATION_ERROR_GENERAL_FAILURE, c, []))"

definition locAPIGnssGetConfig :: "u32 \<Rightarrow> ptr \<Rightarrow> control_client \<Rightarrow> location_error \<times> ctrl_result" where
  "locAPIGnssGetConfig flags idArray c =
     (if has_control c
      then if idArray \<noteq> None
           then (LOCATION_ERROR_SUCCESS, c\<lparr>q_configGet := push_config GnssGetConfigRequest idArray (q_configGet c)\<rparr>, [CallGetConfig flags])
           else (LOCATION_ERROR_GENERAL_FAILURE, c, [CallGetConfig flags])
      else (LOCATION_ERROR_GENERAL_FAILURE, c, []))"

definition ctrl_getRequestBySession :: "u32 \<Rightarrow> control_client \<Rightarrow> ctrl_request option \<times> control_client" where
  "ctrl_getRequestBySession session c =
     (if mSession (q_deleteAidingData c) = session
      then (case rq_pop (q_deleteAidingData c) of (r, q) \<Rightarrow> (r, c\<lparr>q_deleteAidingData := q\<rparr>))
      else if mSession (q_control c) = session
      then (case rq_pop (q_control c) of (r, q) \<Rightarrow> (r, c\<lparr>q_control := q\<rparr>))
      else (None, c))"

definition getRequestBySessionArrayPtr :: "ptr \<Rightarrow> control_client \<Rightarrow> ctrl_request option \<times> control_client" where
  "getRequestBySessionArrayPtr p c =
     (if mSessionArrayPtr (q_configUpdate c) = p
      then (case rq_pop (q_configUpdate c) of (r, q) \<Rightarrow> (r, c\<lparr>q_configUpdate := q\<rparr>))
      else if mSessionArrayPtr (q_configGet c) = p
      then (case rq_pop (q_configGet c) of (r, q) \<Rightarrow> (r, c\<lparr>q_configGet := q\<rparr>))
      else (None, c))"

definition ctrl_onResponse :: "ctrl_request \<Rightarrow> location_error \<Rightarrow> ctrl_call list" where
  "ctrl_onResponse r err =
     (case r of
        GnssDeleteAidingDataRequest \<Rightarrow> [OnGnssDeleteAidingData err]
      | EnableRequest \<Rightarrow> [OnEnable err]
      | DisableRequest \<Rightarrow> [OnDisable err]
      | _ \<Rightarrow> [])"

definition ctrl_onCollectiveResponse :: "ctrl_request \<Rightarrow> location_error list \<Rightarrow> u32 list \<Rightarrow> ctrl_call list" where
  "ctrl_onCollectiveResponse r errors ids =
     (case r of
        GnssUpdateConfigRequest \<Rightarrow> [OnGnssUpdateConfig errors ids]
      | GnssGetConfigRequest \<Rightarrow> [OnGnssGetConfig errors ids]
      | _ \<Rightarrow> [])"

definition onCtrlResponseCb :: "location_error \<Rightarrow> u32 \<Rightarrow> control_client \<Rightarrow> ctrl_result" where
  "onCtrlResponseCb err i c =
     (case ctrl_getRequestBySession i c of (None, c1) \<Rightarrow> (c1, []) | (Some r, c1) \<Rightarrow> (c1, ctrl_onResponse r err))"

text \<open>The array of identifiers by its address and contents.\<close>

definition onCtrlCollectiveResponseCb :: "location_error list \<Rightarrow> ptr \<Rightarrow> u32 list \<Rightarrow> control_client \<Rightarrow> ctrl_result" where
  "onCtrlCollectiveResponseCb errors p ids c =
     (case getRequestBySessionArrayPtr p c of (None, c1) \<Rightarrow> (c1, []) | (Some r, c1) \<Rightarrow> (c1, ctrl_onCollectiveResponse r errors ids))"

section \<open>Runs\<close>

datatype ctrl_op =
    CtDeleteAidingData nat u32
  | CtEnable u32 u32
  | CtDisable
  | CtUpdateConfig gnss_config ptr
  | CtGetConfig u32 ptr
  | CtResponse location_error u32
  | CtCollective "location_error list" addr "u32 list"

fun ctrl_next :: "ctrl_op \<Rightarrow> control_client \<Rightarrow> (ctrl_call list \<times> control_client) option" where
  "ctrl_next (CtDeleteAidingData d s) c = Some (prod.swap (snd (locAPIGnssDeleteAidingData d s c)))"
| "ctrl_next (CtEnable t s) c = Some (prod.swap (snd (locAPIEnable t s c)))"
| "ctrl_next CtDisable c = Some (prod.swap (locAPIDisable c))"
| "ctrl_next (CtUpdateConfig f p) c = Some (prod.swap (snd (locAPIGnssUpdateConfig f p c)))"
| "ctrl_next (CtGetConfig fl p) c = Some (prod.swap (snd (locAPIGnssGetConfig fl p c)))"
| "ctrl_next (CtResponse e i) c = Some (prod.swap (onCtrlResponseCb e i c))"
| "ctrl_next (CtCollective es p ids) c = Some (prod.swap (onCtrlCollectiveResponseCb es (Some p) ids c))"

definition enable_turns :: "ctrl_call list \<Rightarrow> bool list" where
  "enable_turns calls = concat (map (\<lambda>x. case x of CallEnable t \<Rightarrow> [True] | CallDisable s \<Rightarrow> [False] | _ \<Rightarrow> []) calls)"

lemma enable_turns_simps [simp]:
  "enable_turns [] = []" "enable_turns (xs @ ys) = enable_turns xs @ enable_turns ys"
  by (simp_all add: enable_turns_def)

definition ctrl_inv :: "control_client \<Rightarrow> bool" where
  "ctrl_inv c \<longleftrightarrow> mSessionArrayPtr (q_configUpdate c) = None \<and> mSessionArrayPtr (q_configGet c) = None"

lemma ctrl_step_inv:
  assumes "ctrl_inv c" "ctrl_next x c = Some (calls, c1)"
  shows "ctrl_inv c1 \<and> in_turn (mEnabled c) (enable_turns calls) = Some (mEnabled c1)"
  using assms
  by (cases x)
    (auto simp: ctrl_inv_def locAPIGnssDeleteAidingData_def locAPIEnable_def locAPIDisable_def locAPIGnssUpdateConfig_def
      locAPIGnssGetConfig_def onCtrlResponseCb_def onCtrlCollectiveResponseCb_def ctrl_getRequestBySession_def
      getRequestBySessionArrayPtr_def ctrl_onResponse_def Let_def push_config_def rq_push_def rq_pop_def enable_turns_def
      split: if_splits list.splits option.splits ctrl_request.splits)

lemma ctrl_run_inv:
  "ctrl_inv c \<Longrightarrow> run_ops ctrl_next xs c = Some (outs, c1) \<Longrightarrow>
    ctrl_inv c1 \<and> in_turn (mEnabled c) (enable_turns (concat outs)) = Some (mEnabled c1)"
proof (induction xs arbitrary: c outs)
  case (Cons x xs)
  obtain calls c2 where s: "ctrl_next x c = Some (calls, c2)" using Cons.prems(2) by (auto split: option.splits)
  obtain outs2 where r: "run_ops ctrl_next xs c2 = Some (outs2, c1)" "outs = calls # outs2"
    using Cons.prems(2) s by (auto split: option.splits)
  show ?case using ctrl_step_inv [OF Cons.prems(1) s] Cons.IH [OF _ r(1)] r(2) by (simp add: in_turn_append)
qed simp

lemma config_equals_refl: "config_equals f f"
  by (auto simp: config_equals_def assistance_equals_def robust_equals_def version_equals_def sv_types_equals_def sv_source_equals_def
      list_all2_same)

text \<open>C40. Whatever is asked and answered, the API is asked to enable and to disable in turn, a
  configuration that was just set is not set again, and no answer to a configuration command is ever
  passed to the client: the address that it is looked up by is never noted.\<close>

theorem control_client_runs:
  assumes "run_ops ctrl_next xs (new_control_client created) = Some (outs, c)"
  shows "in_turn False (enable_turns (concat outs)) = Some (mEnabled c) \<and>
    snd (snd (locAPIGnssUpdateConfig f p (fst (snd (locAPIGnssUpdateConfig f p c))))) = [] \<and>
    onCtrlCollectiveResponseCb errs (Some a) ids c = (c, [])"
proof -
  have "ctrl_inv (new_control_client created)" by (simp add: ctrl_inv_def new_control_client_def new_queue_def)
  from ctrl_run_inv [OF this assms]
  have "in_turn False (enable_turns (concat outs)) = Some (mEnabled c)" "onCtrlCollectiveResponseCb errs (Some a) ids c = (c, [])"
    by (simp_all add: new_control_client_def ctrl_inv_def onCtrlCollectiveResponseCb_def getRequestBySessionArrayPtr_def)
  moreover have "snd (snd (locAPIGnssUpdateConfig f p (fst (snd (locAPIGnssUpdateConfig f p c))))) = []"
    by (simp add: locAPIGnssUpdateConfig_def config_equals_refl Let_def)
  ultimately show ?thesis by blast
qed

theorem control_client_runs_witness:
  "\<exists>outs c. run_ops ctrl_next [CtEnable 0 4, CtUpdateConfig (zero_config\<lparr>gc_minGpsWeek := 5\<rparr>) (Some 9), CtDisable] (new_control_client True) = Some (outs, c) \<and>
    in_turn False (enable_turns (concat outs)) = Some (mEnabled c) \<and> length (mQueue (q_configUpdate c)) = 1"
proof -
  obtain outs c where r: "run_ops ctrl_next [CtEnable 0 4, CtUpdateConfig (zero_config\<lparr>gc_minGpsWeek := 5\<rparr>) (Some 9), CtDisable] (new_control_client True) = Some (outs, c)"
    "length (mQueue (q_configUpdate c)) = 1"
    by (simp add: new_control_client_def new_queue_def locAPIEnable_def locAPIGnssUpdateConfig_def config_equals_def zero_config_def
        push_config_def rq_push_def rq_reset_def locAPIDisable_def Let_def)
  then show ?thesis using control_client_runs [OF r(1)] by blast
qed

end
