(* ===== verification/Log_Buffer.thy ===== *)
theory Log_Buffer
  imports Loc_Prelude
begin

text \<open>
  The buffer of log lines of utils/LogBuffer.cpp over the list of utils/SkipList.h: all elements in
  one list in the order of their arrival, and for each level the first and last element and links
  between the elements of the level. An iterator is the address of its element, the end of the list
  is None. The address of a new element is an argument of the operations. A result None is undefined
  behaviour: the end of the list is read, or a vector is indexed beyond its length.
\<close>

section \<open>The list\<close>

record 'a skip_node =
  mLevel :: nat
  mData :: 'a
  mNextInLevel :: ptr

record 'a skip_list =
  mMainList :: "(addr \<times> 'a skip_node) list"
  mHeadVec :: "ptr list"
  mTailVec :: "ptr list"

definition new_skip_list :: "nat \<Rightarrow> 'a skip_list" where
  "new_skip_list totalLevels = \<lparr>mMainList = [], mHeadVec = replicate totalLevels None, mTailVec = replicate totalLevels None\<rparr>"

definition sk_upd :: "addr \<Rightarrow> ('a skip_node \<Rightarrow> 'a skip_node) \<Rightarrow> (addr \<times> 'a skip_node) list \<Rightarrow> (addr \<times> 'a skip_node) list" where
  "sk_upd a f = map (\<lambda>(b, n). if b = a then (b, f n) else (b, n))"

definition sk_append :: "addr \<Rightarrow> 'a \<Rightarrow> int \<Rightarrow> 'a skip_list \<Rightarrow> 'a skip_list" where
  "sk_append iter data lvl s =
     (if lvl < 0 \<or> lvl \<ge> int (length (mHeadVec s)) then s
      else
        (let level = nat lvl;
             s1 = s\<lparr>mMainList := mMainList s @ [(iter, \<lparr>mLevel = level, mData = data, mNextInLevel = None\<rparr>)]\<rparr>;
             s2 = (case mHeadVec s1 ! level of
                     None \<Rightarrow> s1\<lparr>mHeadVec := (mHeadVec s1)[level := Some iter]\<rparr>
                   | Some _ \<Rightarrow>
                      (case mTailVec s1 ! level of
                         None \<Rightarrow> s1
                       | Some t \<Rightarrow> s1\<lparr>mMainList := sk_upd t (\<lambda>n. n\<lparr>mNextInLevel := Some iter\<rparr>) (mMainList s1)\<rparr>))
         in s2\<lparr>mTailVec := (mTailVec s2)[level := Some iter]\<rparr>))"

definition sk_pop_level :: "nat \<Rightarrow> 'a skip_list \<Rightarrow> 'a skip_list option" where
  "sk_pop_level level s =
     (if level \<ge> length (mHeadVec s) then None
      else case mHeadVec s ! level of
        None \<Rightarrow> Some s
      | Some h \<Rightarrow>
         (case map_of (mMainList s) h of
            None \<Rightarrow> None
          | Some n \<Rightarrow>
             (let s1 = (if mNextInLevel n = None then s\<lparr>mTailVec := (mTailVec s)[level := None]\<rparr> else s)
              in Some (s1\<lparr>mMainList := filter (\<lambda>(a, _). a \<noteq> h) (mMainList s1), mHeadVec := (mHeadVec s1)[level := mNextInLevel n]\<rparr>))))"

definition sk_pop :: "'a skip_list \<Rightarrow> 'a skip_list option" where
  "sk_pop s = (case mMainList s of [] \<Rightarrow> None | (_, n) # _ \<Rightarrow> sk_pop_level (mLevel n) s)"

definition sk_front :: "nat \<Rightarrow> 'a skip_list \<Rightarrow> 'a option" where
  "sk_front level s =
     (if level \<ge> length (mHeadVec s) then None
      else case mHeadVec s ! level of None \<Rightarrow> None | Some h \<Rightarrow> map_option mData (map_of (mMainList s) h))"

definition sk_size :: "'a skip_list \<Rightarrow> nat" where
  "sk_size s = length (mMainList s)"

definition sk_flush :: "'a skip_list \<Rightarrow> 'a skip_list" where
  "sk_flush s = s\<lparr>mMainList := [], mHeadVec := map (\<lambda>_. None) (mHeadVec s), mTailVec := map (\<lambda>_. None) (mTailVec s)\<rparr>"

definition sk_dump :: "'a skip_list \<Rightarrow> ('a \<times> nat) list" where
  "sk_dump s = map (\<lambda>(_, n). (mData n, mLevel n)) (mMainList s)"

text \<open>Following the links ends when an element has none; the fuel is the length of the list.\<close>

fun dump_from :: "nat \<Rightarrow> (addr \<times> 'a skip_node) list \<Rightarrow> ptr \<Rightarrow> ('a \<times> nat) list option" where
  "dump_from fuel main None = Some []"
| "dump_from 0 main (Some h) = None"
| "dump_from (Suc fuel) main (Some h) =
     (case map_of main h of
        None \<Rightarrow> None
      | Some n \<Rightarrow> map_option (Cons (mData n, mLevel n)) (dump_from fuel main (mNextInLevel n)))"

definition sk_dump_level :: "nat \<Rightarrow> 'a skip_list \<Rightarrow> ('a \<times> nat) list option" where
  "sk_dump_level level s =
     (if level \<ge> length (mHeadVec s) then None else dump_from (length (mMainList s)) (mMainList s) (mHeadVec s ! level))"

section \<open>The invariant\<close>

definition level_of :: "nat \<Rightarrow> (addr \<times> 'a skip_node) list \<Rightarrow> (addr \<times> 'a skip_node) list" where
  "level_of l main = filter (\<lambda>(_, n). mLevel n = l) main"

text \<open>The elements of a level are linked in their order, up to an end.\<close>

fun linked :: "(addr \<times> 'a skip_node) list \<Rightarrow> bool" where
  "linked [] \<longleftrightarrow> True"
| "linked [(a, n)] \<longleftrightarrow> mNextInLevel n = None"
| "linked ((a, n) # (b, m) # xs) \<longleftrightarrow> mNextInLevel n = Some b \<and> linked ((b, m) # xs)"

definition hd_addr :: "(addr \<times> 'b) list \<Rightarrow> ptr" where
  "hd_addr xs = (case xs of [] \<Rightarrow> None | (a, _) # _ \<Rightarrow> Some a)"

definition last_addr :: "(addr \<times> 'b) list \<Rightarrow> ptr" where
  "last_addr xs = (if xs = [] then None else Some (fst (last xs)))"

definition sk_inv :: "'a skip_list \<Rightarrow> bool" where
  "sk_inv s \<longleftrightarrow> distinct (map fst (mMainList s)) \<and> length (mTailVec s) = length (mHeadVec s) \<and>
     (\<forall>(a, n) \<in> set (mMainList s). mLevel n < length (mHeadVec s)) \<and>
     (\<forall>l < length (mHeadVec s). linked (level_of l (mMainList s)) \<and> mHeadVec s ! l = hd_addr (level_of l (mMainList s)) \<and>
        mTailVec s ! l = last_addr (level_of l (mMainList s)))"

lemma hd_addr_simps [simp]: "hd_addr [] = None" "hd_addr ((a, n) # xs) = Some a" "hd_addr xs = None \<longleftrightarrow> xs = []"
  by (auto simp: hd_addr_def split: list.splits)

lemma last_addr_simps [simp]: "last_addr [] = None" "last_addr (xs @ [(a, n)]) = Some a"
  by (simp_all add: last_addr_def)

lemma linked_Cons: "linked ((a, n) # xs) \<longleftrightarrow> mNextInLevel n = hd_addr xs \<and> linked xs"
  by (cases xs) auto

lemma level_of_simps [simp]: "level_of l [] = []" "level_of l ((a, n) # xs) = (if mLevel n = l then (a, n) # level_of l xs else level_of l xs)"
  "level_of l (xs @ ys) = level_of l xs @ level_of l ys"
  by (simp_all add: level_of_def)

lemma sk_upd_simps [simp]:
  "sk_upd a f [] = []" "sk_upd a f ((b, n) # xs) = (if b = a then (b, f n) else (b, n)) # sk_upd a f xs"
  "sk_upd a f (xs @ ys) = sk_upd a f xs @ sk_upd a f ys"
  by (simp_all add: sk_upd_def)

lemma level_of_upd:
  assumes "\<And>n. mLevel (f n) = mLevel n"
  shows "level_of l (sk_upd a f xs) = sk_upd a f (level_of l xs)"
  using assms by (induction xs) (auto simp: sk_upd_def)

lemma sk_upd_other: "a \<notin> fst ` set xs \<Longrightarrow> sk_upd a f xs = xs"
  by (induction xs) (auto simp: sk_upd_def)

lemma sk_upd_last: "distinct (map fst (xs @ [(t, n)])) \<Longrightarrow> sk_upd t f (xs @ [(t, n)]) = xs @ [(t, f n)]"
  using sk_upd_other [of t xs f] by auto

lemma map_sk_upd: "(\<And>n. g (f n) = g n) \<Longrightarrow> map (\<lambda>(b, n). (b, g n)) (sk_upd a f xs) = map (\<lambda>(b, n). (b, g n)) xs"
  by (induction xs) (auto simp: sk_upd_def)

lemma fst_sk_upd [simp]: "map fst (sk_upd a f xs) = map fst xs"
  by (induction xs) (auto simp: sk_upd_def)

lemma linked_snoc: "linked (xs @ [(t, n)]) \<Longrightarrow> linked (xs @ [(t, n\<lparr>mNextInLevel := Some b\<rparr>), (b, m)]) \<longleftrightarrow> mNextInLevel m = None"
proof (induction xs)
  case (Cons x xs)
  obtain a k where x: "x = (a, k)" by (cases x)
  have "hd_addr (xs @ [(t, n)]) = hd_addr (xs @ [(t, n\<lparr>mNextInLevel := Some b\<rparr>), (b, m)])" by (cases xs) auto
  then show ?case using Cons by (simp add: x linked_Cons)
qed simp

lemma distinct_level: "distinct (map fst xs) \<Longrightarrow> distinct (map fst (level_of l xs))"
  by (simp add: level_of_def distinct_map_filter)

lemma level_subset: "set (level_of l xs) \<subseteq> set xs"
  by (simp add: level_of_def)

section \<open>The operations\<close>

lemma sk_append_ok:
  assumes "sk_inv s" "a \<notin> fst ` set (mMainList s)"
  shows "sk_inv (sk_append a d lvl s) \<and> length (mHeadVec (sk_append a d lvl s)) = length (mHeadVec s) \<and>
    sk_dump (sk_append a d lvl s) = sk_dump s @ (if 0 \<le> lvl \<and> lvl < int (length (mHeadVec s)) then [(d, nat lvl)] else [])"
proof (cases "0 \<le> lvl \<and> lvl < int (length (mHeadVec s))")
  case False
  then show ?thesis using assms(1) by (auto simp: sk_append_def)
next
  case True
  define l where "l = nat lvl"
  have l: "l < length (mHeadVec s)" "l < length (mTailVec s)" using True assms(1) by (auto simp: l_def sk_inv_def)
  define xs where "xs = mMainList s"
  define new where "new = (a, \<lparr>mLevel = l, mData = d, mNextInLevel = None\<rparr>)"
  have inv: "distinct (map fst (xs @ [new]))" "\<forall>(a, n) \<in> set (xs @ [new]). mLevel n < length (mHeadVec s)"
    "\<And>k. k < length (mHeadVec s) \<Longrightarrow> linked (level_of k xs)" "\<And>k. k < length (mHeadVec s) \<Longrightarrow> mHeadVec s ! k = hd_addr (level_of k xs)"
    "\<And>k. k < length (mHeadVec s) \<Longrightarrow> mTailVec s ! k = last_addr (level_of k xs)" "length (mTailVec s) = length (mHeadVec s)"
    using assms l by (auto simp: sk_inv_def xs_def new_def)
  show ?thesis
  proof (cases "level_of l xs" rule: rev_cases)
    case Nil
    have e: "sk_append a d lvl s = s\<lparr>mMainList := xs @ [new], mHeadVec := (mHeadVec s)[l := Some a], mTailVec := (mTailVec s)[l := Some a]\<rparr>"
      using True Nil inv(4) [OF l(1)] by (simp add: sk_append_def Let_def l_def xs_def new_def)
    show ?thesis unfolding e using inv l Nil True
      by (auto simp: sk_inv_def nth_list_update new_def sk_dump_def l_def last_addr_def simp flip: xs_def)
  next
    case (snoc ys x)
    obtain t n where x: "x = (t, n)" by (cases x)
    let ?f = "\<lambda>n. n\<lparr>mNextInLevel := Some a\<rparr>"
    have e: "sk_append a d lvl s = s\<lparr>mMainList := sk_upd t ?f (xs @ [new]), mTailVec := (mTailVec s)[l := Some a]\<rparr>"
      using True snoc x inv(4,5) [OF l(1)] by (simp add: sk_append_def Let_def l_def xs_def new_def hd_addr_def last_addr_def split: list.splits)
    have "(t, n) \<in> set (level_of l xs)" using snoc x by simp
    then have tn: "(t, n) \<in> set xs" "mLevel n = l" by (simp_all add: level_of_def)
    have "t \<noteq> a" using tn assms(2) by (force simp: xs_def)
    have other: "t \<notin> fst ` set (level_of k (xs @ [new]))" if "k \<noteq> l" for k
    proof
      assume "t \<in> fst ` set (level_of k (xs @ [new]))"
      then obtain m where "(t, m) \<in> set xs" "mLevel m = k" using that \<open>t \<noteq> a\<close> by (auto simp: level_of_def new_def split: if_splits)
      then show False using tn inv(1) that by (auto dest: eq_key_imp_eq_value)
    qed
    have lev: "level_of k (sk_upd t ?f (xs @ [new])) = (if k = l then ys @ [(t, ?f n), new] else level_of k xs)" for k
    proof (cases "k = l")
      case True
      have "distinct (map fst (level_of l (xs @ [new])))" using inv(1) by (rule distinct_level)
      then have "sk_upd t ?f (ys @ [(t, n)]) = ys @ [(t, ?f n)]" using snoc x by (intro sk_upd_last) (simp add: new_def)
      then show ?thesis using True snoc x \<open>t \<noteq> a\<close> by (simp add: level_of_upd new_def)
    next
      case False
      then show ?thesis using sk_upd_other [OF other [OF False], of ?f] by (simp add: level_of_upd) (simp add: new_def)
    qed
    have lin: "linked (ys @ [(t, ?f n), new])" using inv(3) [OF l(1)] snoc x by (simp add: linked_snoc new_def)
    have hd: "hd_addr (ys @ [(t, ?f n), new]) = hd_addr (level_of l xs)" using snoc x by (cases ys) auto
    have la: "last_addr (ys @ [(t, ?f n), new]) = Some a" by (simp add: last_addr_def new_def)
    define ms where "ms = sk_upd t ?f (xs @ [new])"
    have ms: "distinct (map fst ms)" "\<forall>(a, n) \<in> set ms. mLevel n < length (mHeadVec s)" "level_of k ms = (if k = l then ys @ [(t, ?f n), new] else level_of k xs)"
      "map (\<lambda>(b, n). (mData n, mLevel n)) ms = map (\<lambda>(b, n). (mData n, mLevel n)) (xs @ [new])" for k
    proof -
      show "distinct (map fst ms)" using inv(1) by (simp only: ms_def fst_sk_upd)
      show "\<forall>(a, n) \<in> set ms. mLevel n < length (mHeadVec s)" using inv(2) unfolding ms_def sk_upd_def by (auto split: if_splits)
      show "level_of k ms = (if k = l then ys @ [(t, ?f n), new] else level_of k xs)" by (simp only: ms_def lev)
      show "map (\<lambda>(b, n). (mData n, mLevel n)) ms = map (\<lambda>(b, n). (mData n, mLevel n)) (xs @ [new])" unfolding ms_def sk_upd_def by (auto simp: new_def)
    qed
    have "sk_inv (sk_append a d lvl s)" unfolding e sk_inv_def ms_def [symmetric] using ms(1-3) inv(3-6) l lin hd la by (simp add: nth_list_update)
    then show ?thesis using True unfolding e ms_def [symmetric] by (simp add: sk_dump_def ms(4)) (simp add: new_def l_def xs_def)
  qed
qed

text \<open>The specification: a sequence of elements with their level.\<close>

fun remove_first :: "nat \<Rightarrow> ('a \<times> nat) list \<Rightarrow> ('a \<times> nat) list" where
  "remove_first l [] = []"
| "remove_first l ((d, k) # xs) = (if k = l then xs else (d, k) # remove_first l xs)"

definition in_level :: "nat \<Rightarrow> ('a \<times> nat) list \<Rightarrow> ('a \<times> nat) list" where
  "in_level l xs = filter (\<lambda>(_, k). k = l) xs"

lemma level_dump: "in_level l (map (\<lambda>(_, n). (mData n, mLevel n)) xs) = map (\<lambda>(_, n). (mData n, mLevel n)) (level_of l xs)"
  by (induction xs) (auto simp: in_level_def)

lemma remove_first_addr:
  assumes "distinct (map fst xs)" "level_of l xs = (h, n) # ys"
  shows "map (\<lambda>(_, n). (mData n, mLevel n)) (filter (\<lambda>(a, _). a \<noteq> h) xs) = remove_first l (map (\<lambda>(_, n). (mData n, mLevel n)) xs)"
    "level_of l (filter (\<lambda>(a, _). a \<noteq> h) xs) = ys" "k \<noteq> l \<Longrightarrow> level_of k (filter (\<lambda>(a, _). a \<noteq> h) xs) = level_of k xs"
    "map_of xs h = Some n" "mLevel n = l"
  using assms
proof (induction xs)
  case (Cons x xs)
  obtain b m where x: "x = (b, m)" by (cases x)
  have id: "filter (\<lambda>(a, _). a \<noteq> b) xs = xs" if "b \<notin> fst ` set xs" using that by (induction xs) auto
  have h: "h \<in> fst ` set xs" if "level_of l xs = (h, n) # ys"
    using that level_subset [of l xs] by (force)
  {
    case 1
    then show ?case using Cons x id h by (auto split: if_splits)
  next
    case 2
    then show ?case using Cons x id h by (auto split: if_splits)
  next
    case 3
    then show ?case using Cons x id h by (auto split: if_splits)
  next
    case 4
    then show ?case using Cons x h by (auto split: if_splits)
  next
    case 5
    then show ?case using Cons x by (auto split: if_splits)
  }
qed simp_all

lemma level_ConsE:
  assumes "level_of l xs = (h, n) # ys"
  shows "mLevel n = l" "(h, n) \<in> set xs"
  using assms level_subset [of l xs] by (force simp: level_of_def dest: arg_cong [of _ _ set])+

lemma sk_pop_level_ok:
  assumes "sk_inv s" "l < length (mHeadVec s)"
  shows "\<exists>s1. sk_pop_level l s = Some s1 \<and> sk_inv s1 \<and> length (mHeadVec s1) = length (mHeadVec s) \<and> sk_dump s1 = remove_first l (sk_dump s)"
proof -
  define xs where "xs = mMainList s"
  have inv: "distinct (map fst xs)" "\<forall>(a, n) \<in> set xs. mLevel n < length (mHeadVec s)"
    "\<And>k. k < length (mHeadVec s) \<Longrightarrow> linked (level_of k xs)" "\<And>k. k < length (mHeadVec s) \<Longrightarrow> mHeadVec s ! k = hd_addr (level_of k xs)"
    "\<And>k. k < length (mHeadVec s) \<Longrightarrow> mTailVec s ! k = last_addr (level_of k xs)" "length (mTailVec s) = length (mHeadVec s)"
    using assms by (auto simp: sk_inv_def xs_def)
  show ?thesis
  proof (cases "level_of l xs")
    case Nil
    have "remove_first l (map (\<lambda>(_, n). (mData n, mLevel n)) xs) = map (\<lambda>(_, n). (mData n, mLevel n)) xs"
      using Nil by (induction xs) (auto split: if_splits)
    then have "sk_dump s = remove_first l (sk_dump s)" by (simp add: sk_dump_def flip: xs_def)
    then show ?thesis using Nil inv(4) [OF assms(2)] assms by (simp add: sk_pop_level_def)
  next
    case (Cons x ys)
    obtain h n where x: "x = (h, n)" by (cases x)
    note R = remove_first_addr [OF inv(1) Cons [unfolded x]]
    define ms where "ms = filter (\<lambda>(a, _). a \<noteq> h) xs"
    have nx: "mNextInLevel n = hd_addr ys" "linked ys" using inv(3) [OF assms(2)] Cons x by (simp_all add: linked_Cons)
    define s1 where "s1 = s\<lparr>mTailVec := (if ys = [] then (mTailVec s)[l := None] else mTailVec s), mMainList := ms, mHeadVec := (mHeadVec s)[l := hd_addr ys]\<rparr>"
    have e: "sk_pop_level l s = Some s1"
      using assms(2) inv(4) [OF assms(2)] Cons x R(4) nx(1) by (simp add: sk_pop_level_def s1_def ms_def xs_def Let_def)
    have lev: "level_of k ms = (if k = l then ys else level_of k xs)" for k using R(2,3) by (simp add: ms_def)
    have la: "ys \<noteq> [] \<Longrightarrow> last_addr (level_of l xs) = last_addr ys" using Cons by (simp add: last_addr_def)
    have "distinct (map fst ms)" "\<forall>(a, n) \<in> set ms. mLevel n < length (mHeadVec s)" using inv(1,2) by (auto simp: ms_def distinct_map_filter)
    then have "sk_inv s1" using inv(3-6) nx(2) la assms(2) by (simp add: sk_inv_def s1_def lev nth_list_update)
    moreover have "sk_dump s1 = remove_first l (sk_dump s)" using R(1) by (simp add: sk_dump_def s1_def ms_def flip: xs_def)
    ultimately show ?thesis using e by (simp add: s1_def)
  qed
qed

lemma sk_front_ok:
  assumes "sk_inv s" "l < length (mHeadVec s)"
  shows "sk_front l s = (case in_level l (sk_dump s) of [] \<Rightarrow> None | (d, _) # _ \<Rightarrow> Some d)"
proof -
  define xs where "xs = mMainList s"
  have inv: "distinct (map fst xs)" "mHeadVec s ! l = hd_addr (level_of l xs)" using assms by (simp_all add: sk_inv_def xs_def)
  show ?thesis
  proof (cases "level_of l xs")
    case (Cons x ys)
    obtain h n where x: "x = (h, n)" by (cases x)
    show ?thesis using assms(2) inv Cons remove_first_addr(4) [OF inv(1) Cons [unfolded x]]
      by (simp add: sk_front_def sk_dump_def level_dump x flip: xs_def)
  qed (use assms(2) inv in \<open>simp add: sk_front_def sk_dump_def level_dump flip: xs_def\<close>)
qed

lemma dump_from_ok:
  "linked ys \<Longrightarrow> length ys \<le> fuel \<Longrightarrow> (\<forall>(a, n) \<in> set ys. map_of main a = Some n) \<Longrightarrow>
    dump_from fuel main (hd_addr ys) = Some (map (\<lambda>(_, n). (mData n, mLevel n)) ys)"
proof (induction ys arbitrary: fuel)
  case (Cons x ys)
  obtain a n where x: "x = (a, n)" by (cases x)
  obtain f where f: "fuel = Suc f" using Cons.prems(2) by (cases fuel) auto
  show ?case using Cons by (simp add: x f linked_Cons)
qed simp

lemma sk_dump_level_ok:
  assumes "sk_inv s" "l < length (mHeadVec s)"
  shows "sk_dump_level l s = Some (in_level l (sk_dump s))"
proof -
  have inv: "distinct (map fst (mMainList s))" "linked (level_of l (mMainList s))" "mHeadVec s ! l = hd_addr (level_of l (mMainList s))"
    using assms by (simp_all add: sk_inv_def)
  have "\<forall>(a, n) \<in> set (level_of l (mMainList s)). map_of (mMainList s) a = Some n" using inv(1) by (auto simp: level_of_def)
  then have "dump_from (length (mMainList s)) (mMainList s) (hd_addr (level_of l (mMainList s))) = Some (map (\<lambda>(_, n). (mData n, mLevel n)) (level_of l (mMainList s)))"
    using inv(2) by (intro dump_from_ok) (auto simp: level_of_def length_filter_le)
  then show ?thesis using assms(2) inv(3) by (simp add: sk_dump_level_def sk_dump_def level_dump)
qed

section \<open>Runs\<close>

datatype 'a sk_op = Sk_append addr 'a int | Sk_pop_level nat | Sk_pop | Sk_front nat | Sk_size | Sk_flush | Sk_dump | Sk_dump_level nat

datatype 'a sk_out = Sk_nothing | Sk_value 'a | Sk_count nat | Sk_list "('a \<times> nat) list"

definition sk_step :: "'a sk_op \<Rightarrow> 'a skip_list \<Rightarrow> ('a sk_out \<times> 'a skip_list) option" where
  "sk_step x s =
     (case x of
        Sk_append a d l \<Rightarrow> Some (Sk_nothing, sk_append a d l s)
      | Sk_pop_level l \<Rightarrow> map_option (Pair Sk_nothing) (sk_pop_level l s)
      | Sk_pop \<Rightarrow> map_option (Pair Sk_nothing) (sk_pop s)
      | Sk_front l \<Rightarrow> map_option (\<lambda>d. (Sk_value d, s)) (sk_front l s)
      | Sk_size \<Rightarrow> Some (Sk_count (sk_size s), s)
      | Sk_flush \<Rightarrow> Some (Sk_nothing, sk_flush s)
      | Sk_dump \<Rightarrow> Some (Sk_list (sk_dump s), s)
      | Sk_dump_level l \<Rightarrow> map_option (\<lambda>xs. (Sk_list xs, s)) (sk_dump_level l s))"

text \<open>Memory for a new element is free; levels exist; the list or level that is read is not empty.\<close>

definition sk_ok :: "'a sk_op \<Rightarrow> 'a skip_list \<Rightarrow> bool" where
  "sk_ok x s =
     (case x of
        Sk_append a d l \<Rightarrow> a \<notin> fst ` set (mMainList s)
      | Sk_pop_level l \<Rightarrow> l < length (mHeadVec s)
      | Sk_pop \<Rightarrow> mMainList s \<noteq> []
      | Sk_front l \<Rightarrow> l < length (mHeadVec s) \<and> in_level l (sk_dump s) \<noteq> []
      | Sk_dump_level l \<Rightarrow> l < length (mHeadVec s)
      | _ \<Rightarrow> True)"

definition sk_spec :: "nat \<Rightarrow> 'a sk_op \<Rightarrow> ('a \<times> nat) list \<Rightarrow> 'a sk_out \<times> ('a \<times> nat) list" where
  "sk_spec levels x xs =
     (case x of
        Sk_append a d l \<Rightarrow> (Sk_nothing, xs @ (if 0 \<le> l \<and> l < int levels then [(d, nat l)] else []))
      | Sk_pop_level l \<Rightarrow> (Sk_nothing, remove_first l xs)
      | Sk_pop \<Rightarrow> (Sk_nothing, tl xs)
      | Sk_front l \<Rightarrow> (Sk_value (fst (hd (in_level l xs))), xs)
      | Sk_size \<Rightarrow> (Sk_count (length xs), xs)
      | Sk_flush \<Rightarrow> (Sk_nothing, [])
      | Sk_dump \<Rightarrow> (Sk_list xs, xs)
      | Sk_dump_level l \<Rightarrow> (Sk_list (in_level l xs), xs))"

definition sk_rel :: "nat \<Rightarrow> 'a skip_list \<Rightarrow> ('a \<times> nat) list \<Rightarrow> bool" where
  "sk_rel levels s xs \<longleftrightarrow> sk_inv s \<and> length (mHeadVec s) = levels \<and> sk_dump s = xs"

lemma sk_step_refines:
  assumes "sk_rel levels s xs" "sk_ok x s"
  shows "\<exists>s1. sk_step x s = Some (fst (sk_spec levels x xs), s1) \<and> sk_rel levels s1 (snd (sk_spec levels x xs))"
proof (cases x)
  case (Sk_append a d l)
  then show ?thesis using assms sk_append_ok [of s a d l] by (auto simp: sk_rel_def sk_ok_def sk_step_def sk_spec_def)
next
  case (Sk_pop_level l)
  then show ?thesis using assms sk_pop_level_ok [of s l] by (auto simp: sk_rel_def sk_ok_def sk_step_def sk_spec_def)
next
  case Sk_pop
  then obtain a n ys where m: "mMainList s = (a, n) # ys" using assms(2) by (cases "mMainList s") (auto simp: sk_ok_def)
  have l: "mLevel n < length (mHeadVec s)" using assms(1) m by (auto simp: sk_rel_def sk_inv_def)
  have "remove_first (mLevel n) (sk_dump s) = tl (sk_dump s)" by (simp add: sk_dump_def m)
  then show ?thesis using assms(1) sk_pop_level_ok [OF _ l] m Sk_pop by (auto simp: sk_rel_def sk_step_def sk_spec_def sk_pop_def)
next
  case (Sk_front l)
  then show ?thesis using assms sk_front_ok [of s l] by (auto simp: sk_rel_def sk_ok_def sk_step_def sk_spec_def split: list.splits)
next
  case (Sk_dump_level l)
  then show ?thesis using assms sk_dump_level_ok [of s l] by (auto simp: sk_rel_def sk_ok_def sk_step_def sk_spec_def)
next
  case Sk_flush
  have "sk_inv (sk_flush s)" using assms(1) by (auto simp: sk_rel_def sk_inv_def sk_flush_def)
  then show ?thesis using assms Sk_flush by (auto simp: sk_rel_def sk_step_def sk_spec_def) (simp_all add: sk_flush_def sk_dump_def)
qed (use assms in \<open>auto simp: sk_rel_def sk_step_def sk_spec_def sk_size_def sk_dump_def\<close>)

interpretation sk: refinement "sk_rel levels" sk_ok sk_step "sk_spec levels" for levels
  by unfold_locales (rule sk_step_refines)

lemma sk_rel_new: "sk_rel levels (new_skip_list levels) []"
  by (simp add: sk_rel_def sk_inv_def new_skip_list_def sk_dump_def)

text \<open>C22. The list with its links behaves as a plain sequence of elements with their level, for any
  operations: what is returned is what the sequence gives, no link leads to an erased element, and the
  elements of a level are found in the order of their arrival.\<close>

theorem skip_list_trace:
  assumes "ops_ok sk_ok sk_step xs (new_skip_list levels)"
  shows "\<exists>s. run_ops sk_step xs (new_skip_list levels) = Some (fst (run_spec (sk_spec levels) xs []), s) \<and>
    sk_dump s = snd (run_spec (sk_spec levels) xs [])"
  using sk.run_refines [OF sk_rel_new assms] by (auto simp: sk_rel_def)

theorem skip_list_trace_witness:
  "\<exists>s. run_ops sk_step [Sk_append 1 ''a'' 0, Sk_append 2 ''b'' 1, Sk_append 3 ''c'' 0, Sk_pop_level 0, Sk_dump_level 0] (new_skip_list 2) =
      Some ([Sk_nothing, Sk_nothing, Sk_nothing, Sk_nothing, Sk_list [(''c'', 0)]], s) \<and> sk_dump s = [(''b'', 1), (''c'', 0)]"
proof -
  have ok: "ops_ok sk_ok sk_step [Sk_append 1 ''a'' 0, Sk_append 2 ''b'' 1, Sk_append 3 ''c'' 0, Sk_pop_level 0, Sk_dump_level 0] (new_skip_list 2)"
    by (simp add: sk_ok_def sk_step_def new_skip_list_def sk_append_def Let_def sk_pop_level_def sk_dump_def sk_upd_def split: option.splits)
  show ?thesis using skip_list_trace [OF ok] by (simp add: sk_spec_def Let_def in_level_def)
qed

section \<open>The buffer\<close>

definition TIME_DEPTH_THRESHOLD_MINIMAL_IN_SEC :: u32 where "TIME_DEPTH_THRESHOLD_MINIMAL_IN_SEC = 60"
definition MAXIMUM_NUM_IN_LIST :: u32 where "MAXIMUM_NUM_IN_LIST = 50"
definition TOTAL_LOG_LEVELS :: nat where "TOTAL_LOG_LEVELS = 5"

record level_config =
  mTimeDepthThres :: u32
  mMaxNumThres :: u32
  mCurrentSize :: u32

record log_buffer =
  mLogList :: "(u64 \<times> string) skip_list"
  mConfigVec :: "level_config list"

definition default_levels :: "level_config list" where
  "default_levels = replicate TOTAL_LOG_LEVELS
     \<lparr>mTimeDepthThres = TIME_DEPTH_THRESHOLD_MINIMAL_IN_SEC, mMaxNumThres = MAXIMUM_NUM_IN_LIST, mCurrentSize = 0\<rparr>"

text \<open>The argument is what the configuration file makes of the defaults.\<close>

definition new_log_buffer :: "(level_config list \<Rightarrow> level_config list) \<Rightarrow> log_buffer" where
  "new_log_buffer conf = \<lparr>mLogList = new_skip_list TOTAL_LOG_LEVELS, mConfigVec = conf default_levels\<rparr>"

text \<open>The loop of append. Every round erases an element, so that it ends within the length of the
  list; with no element left the front is not defined.\<close>

fun lb_trim :: "nat \<Rightarrow> nat \<Rightarrow> u64 \<Rightarrow> log_buffer \<Rightarrow> log_buffer option" where
  "lb_trim 0 level timestamp b = None"
| "lb_trim (Suc fuel) level timestamp b =
     (case sk_front level (mLogList b) of
        None \<Rightarrow> None
      | Some (t, _) \<Rightarrow>
         (let c = mConfigVec b ! level in
          if timestamp - t > ucast (mTimeDepthThres c) \<or> mCurrentSize c > mMaxNumThres c
          then (case sk_pop_level level (mLogList b) of
                  None \<Rightarrow> None
                | Some s \<Rightarrow> lb_trim fuel level timestamp
                    (b\<lparr>mLogList := s, mConfigVec := (mConfigVec b)[level := c\<lparr>mCurrentSize := mCurrentSize c - 1\<rparr>]\<rparr>))
          else Some b))"

definition lb_append :: "addr \<Rightarrow> string \<Rightarrow> int \<Rightarrow> u64 \<Rightarrow> log_buffer \<Rightarrow> log_buffer option" where
  "lb_append a data level timestamp b =
     (if level < 0 \<or> level \<ge> int (length (mConfigVec b)) then None
      else
        (let l = nat level;
             c = mConfigVec b ! l;
             b1 = b\<lparr>mLogList := sk_append a (timestamp, data) level (mLogList b),
                    mConfigVec := (mConfigVec b)[l := c\<lparr>mCurrentSize := mCurrentSize c + 1\<rparr>]\<rparr>
         in lb_trim (Suc (length (mMainList (mLogList b1)))) l timestamp b1))"

definition lb_flush :: "log_buffer \<Rightarrow> log_buffer" where
  "lb_flush b = b\<lparr>mLogList := sk_flush (mLogList b)\<rparr>"

definition lb_dump :: "int \<Rightarrow> log_buffer \<Rightarrow> ((u64 \<times> string) \<times> nat) list option" where
  "lb_dump level b = (if level = -1 then Some (sk_dump (mLogList b)) else if level < 0 then None else sk_dump_level (nat level) (mLogList b))"

section \<open>What the buffer keeps\<close>

text \<open>The newest lines of a level: at most so many, and from the first one that is not too old.\<close>

definition kept :: "u32 \<Rightarrow> u32 \<Rightarrow> u64 \<Rightarrow> ((u64 \<times> string) \<times> nat) list \<Rightarrow> ((u64 \<times> string) \<times> nat) list" where
  "kept depth number timestamp xs =
     dropWhile (\<lambda>((t, _), _). timestamp - t > ucast depth) (drop (length xs - unat number) xs)"

definition lb_inv :: "log_buffer \<Rightarrow> bool" where
  "lb_inv b \<longleftrightarrow> sk_inv (mLogList b) \<and> length (mHeadVec (mLogList b)) = TOTAL_LOG_LEVELS \<and> length (mConfigVec b) = TOTAL_LOG_LEVELS \<and>
     (\<forall>l < TOTAL_LOG_LEVELS. mMaxNumThres (mConfigVec b ! l) > 0 \<and> mMaxNumThres (mConfigVec b ! l) < 2 ^ 31 \<and>
        mCurrentSize (mConfigVec b ! l) = of_nat (length (in_level l (sk_dump (mLogList b)))) \<and>
        length (in_level l (sk_dump (mLogList b))) \<le> unat (mMaxNumThres (mConfigVec b ! l)))"

lemma in_level_remove [simp]:
  "in_level k (remove_first l xs) = (if k = l then tl (in_level l xs) else in_level k xs)"
  by (induction l xs rule: remove_first.induct) (auto simp: in_level_def)

lemma in_level_simps [simp]: "in_level k [] = []" "in_level k ((d, l) # xs) = (if l = k then (d, l) # in_level k xs else in_level k xs)"
  by (simp_all add: in_level_def)

lemma in_level_append [simp]: "in_level k (xs @ ys) = in_level k xs @ in_level k ys"
  by (simp add: in_level_def)

lemma in_level_length: "length (in_level l xs) \<le> length xs"
  by (simp add: in_level_def)

lemma sk_dump_length: "length (sk_dump s) = length (mMainList s)"
  by (simp add: sk_dump_def)

lemma kept_step:
  "kept depth number timestamp (((t, d), k) # xs) =
     (if timestamp - t > ucast depth \<or> length xs \<ge> unat number then kept depth number timestamp xs else ((t, d), k) # xs)"
proof (cases "length xs \<ge> unat number")
  case True
  then show ?thesis by (simp add: kept_def Suc_diff_le)
next
  case False
  then show ?thesis by (simp add: kept_def)
qed

lemma lb_trim_ok:
  assumes "sk_inv (mLogList b)" "length (mHeadVec (mLogList b)) = TOTAL_LOG_LEVELS" "length (mConfigVec b) = TOTAL_LOG_LEVELS" "l < TOTAL_LOG_LEVELS"
    "mConfigVec b ! l = c" "mCurrentSize c = of_nat (length (in_level l (sk_dump (mLogList b))))" "length (in_level l (sk_dump (mLogList b))) < 2 ^ 32"
    "in_level l (sk_dump (mLogList b)) = xs @ [((timestamp, d), l)]" "mMaxNumThres c > 0" "length xs < fuel"
  shows "\<exists>b1. lb_trim fuel l timestamp b = Some b1 \<and> sk_inv (mLogList b1) \<and> length (mHeadVec (mLogList b1)) = TOTAL_LOG_LEVELS \<and>
    in_level l (sk_dump (mLogList b1)) = kept (mTimeDepthThres c) (mMaxNumThres c) timestamp (xs @ [((timestamp, d), l)]) \<and>
    (\<forall>k. k \<noteq> l \<longrightarrow> in_level k (sk_dump (mLogList b1)) = in_level k (sk_dump (mLogList b))) \<and>
    mConfigVec b1 = (mConfigVec b)[l := c\<lparr>mCurrentSize := of_nat (length (in_level l (sk_dump (mLogList b1))))\<rparr>]"
  using assms
proof (induction xs arbitrary: b c fuel)
  case Nil
  obtain f where f: "fuel = Suc f" using Nil.prems(10) by (cases fuel) auto
  have u: "\<not> mCurrentSize c > mMaxNumThres c" "unat (mMaxNumThres c) \<noteq> 0"
    using Nil.prems(6,8,9) by (auto simp: word_less_nat_alt unat_eq_0)
  have "in_level l (sk_dump (mLogList b)) = [((timestamp, d), l)]" using Nil.prems(8) by simp
  then show ?case using Nil.prems sk_front_ok [OF Nil.prems(1), of l] u kept_step [of "mTimeDepthThres c" "mMaxNumThres c" timestamp timestamp d l "[]"]
    by (auto simp: f Let_def intro!: list_eq_iff_nth_eq [THEN iffD2] simp: nth_list_update)
next
  case (Cons x xs)
  obtain t e k where x: "x = ((t, e), k)" by (metis prod.exhaust)
  obtain f where f: "fuel = Suc f" using Cons.prems(10) by (cases fuel) auto
  let ?old = "timestamp - t > ucast (mTimeDepthThres c) \<or> mCurrentSize c > mMaxNumThres c"
  have l: "in_level l (sk_dump (mLogList b)) = ((t, e), k) # (xs @ [((timestamp, d), l)])" using Cons.prems(8) x by simp
  have front: "sk_front l (mLogList b) = Some (t, e)" using sk_front_ok [OF Cons.prems(1), of l] Cons.prems(2,4) l by simp
  have cur: "mCurrentSize c > mMaxNumThres c \<longleftrightarrow> length (xs @ [((timestamp, d), l)]) \<ge> unat (mMaxNumThres c)"
    using Cons.prems(6,7) unfolding l by (simp add: word_less_nat_alt unat_of_nat_small del: of_nat_Suc of_nat_add) linarith
  show ?case
  proof (cases ?old)
    case True
    obtain s where s: "sk_pop_level l (mLogList b) = Some s" "sk_inv s" "length (mHeadVec s) = TOTAL_LOG_LEVELS"
      "sk_dump s = remove_first l (sk_dump (mLogList b))" using sk_pop_level_ok [OF Cons.prems(1), of l] Cons.prems(2,4) by auto
    define c1 where "c1 = c\<lparr>mCurrentSize := mCurrentSize c - 1\<rparr>"
    define b1 where "b1 = b\<lparr>mLogList := s, mConfigVec := (mConfigVec b)[l := c1]\<rparr>"
    have il: "in_level l (sk_dump s) = xs @ [((timestamp, d), l)]" using s(4) l by simp
    have sz: "mCurrentSize c1 = of_nat (length (in_level l (sk_dump s)))" using Cons.prems(6) unfolding il by (simp add: c1_def l)
    have "\<exists>b2. lb_trim f l timestamp b1 = Some b2 \<and> sk_inv (mLogList b2) \<and> length (mHeadVec (mLogList b2)) = TOTAL_LOG_LEVELS \<and>
      in_level l (sk_dump (mLogList b2)) = kept (mTimeDepthThres c1) (mMaxNumThres c1) timestamp (xs @ [((timestamp, d), l)]) \<and>
      (\<forall>k. k \<noteq> l \<longrightarrow> in_level k (sk_dump (mLogList b2)) = in_level k (sk_dump (mLogList b1))) \<and>
      mConfigVec b2 = (mConfigVec b1)[l := c1\<lparr>mCurrentSize := of_nat (length (in_level l (sk_dump (mLogList b2))))\<rparr>]"
      using Cons.prems(2-4,7-10) s il sz l f by (intro Cons.IH) (simp_all add: b1_def c1_def)
    then show ?thesis
      using True front s(1) cur Cons.prems(3-5) unfolding f x
      by (auto simp: Let_def b1_def c1_def s(4) kept_step)
  next
    case False
    have kk: "kept (mTimeDepthThres c) (mMaxNumThres c) timestamp (x # xs @ [((timestamp, d), l)]) = x # xs @ [((timestamp, d), l)]"
      using False cur unfolding x by (simp add: kept_step)
    have "(mConfigVec b)[l := c\<lparr>mCurrentSize := of_nat (length (in_level l (sk_dump (mLogList b))))\<rparr>] = mConfigVec b"
      using Cons.prems(3-6) by (metis level_config.surjective level_config.update_convs(3) list_update_id)
    then show ?thesis using False front Cons.prems(1,2,5) l unfolding f append_Cons kk by (simp add: Let_def x)
  qed
qed

lemma length_kept: "length (kept depth number timestamp xs) \<le> unat number"
proof -
  have "length (kept depth number timestamp xs) \<le> length (drop (length xs - unat number) xs)" unfolding kept_def by (rule length_dropWhile_le)
  also have "\<dots> \<le> unat number" by simp
  finally show ?thesis .
qed

lemma lb_append_ok:
  assumes "lb_inv b" "a \<notin> fst ` set (mMainList (mLogList b))" "l < TOTAL_LOG_LEVELS"
  shows "\<exists>b1. lb_append a d (int l) timestamp b = Some b1 \<and> lb_inv b1 \<and>
    map (\<lambda>c. (mTimeDepthThres c, mMaxNumThres c)) (mConfigVec b1) = map (\<lambda>c. (mTimeDepthThres c, mMaxNumThres c)) (mConfigVec b) \<and>
    (\<forall>k < TOTAL_LOG_LEVELS. in_level k (sk_dump (mLogList b1)) =
      (if k = l then kept (mTimeDepthThres (mConfigVec b ! l)) (mMaxNumThres (mConfigVec b ! l)) timestamp (in_level l (sk_dump (mLogList b)) @ [((timestamp, d), l)])
       else in_level k (sk_dump (mLogList b))))"
proof -
  define c where "c = mConfigVec b ! l"
  define s where "s = sk_append a (timestamp, d) (int l) (mLogList b)"
  define c0 where "c0 = c\<lparr>mCurrentSize := mCurrentSize c + 1\<rparr>"
  define b0 where "b0 = b\<lparr>mLogList := s, mConfigVec := (mConfigVec b)[l := c0]\<rparr>"
  define xs where "xs = in_level l (sk_dump (mLogList b))"
  have inv: "sk_inv (mLogList b)" "length (mHeadVec (mLogList b)) = TOTAL_LOG_LEVELS" "length (mConfigVec b) = TOTAL_LOG_LEVELS"
    "\<And>k. k < TOTAL_LOG_LEVELS \<Longrightarrow> mMaxNumThres (mConfigVec b ! k) > 0 \<and> mMaxNumThres (mConfigVec b ! k) < 2 ^ 31 \<and>
        mCurrentSize (mConfigVec b ! k) = of_nat (length (in_level k (sk_dump (mLogList b)))) \<and>
        length (in_level k (sk_dump (mLogList b))) \<le> unat (mMaxNumThres (mConfigVec b ! k))"
    using assms(1) by (auto simp: lb_inv_def)
  have s: "sk_inv s" "length (mHeadVec s) = TOTAL_LOG_LEVELS" "sk_dump s = sk_dump (mLogList b) @ [((timestamp, d), l)]"
    using sk_append_ok [OF inv(1) assms(2), of "(timestamp, d)" "int l"] assms(3) inv(2) by (auto simp: s_def)
  have il: "in_level k (sk_dump s) = (if k = l then xs @ [((timestamp, d), l)] else in_level k (sk_dump (mLogList b)))" for k
    unfolding s(3) by (simp add: xs_def)
  have "unat (mMaxNumThres c) < 2 ^ 31" using inv(4) [OF assms(3)] unfolding c_def word_less_nat_alt by simp
  then have len: "length xs < 2 ^ 31" using inv(4) [OF assms(3)] unfolding c_def [symmetric] xs_def [symmetric] by linarith
  have "length xs < length (mMainList s)"
    using in_level_length [of l "sk_dump s"] il [of l] sk_dump_length [of s] by simp
  then have fuel: "length xs < Suc (length (mMainList s))" by simp
  have "\<exists>b1. lb_trim (Suc (length (mMainList s))) l timestamp b0 = Some b1 \<and> sk_inv (mLogList b1) \<and> length (mHeadVec (mLogList b1)) = TOTAL_LOG_LEVELS \<and>
      in_level l (sk_dump (mLogList b1)) = kept (mTimeDepthThres c0) (mMaxNumThres c0) timestamp (xs @ [((timestamp, d), l)]) \<and>
      (\<forall>k. k \<noteq> l \<longrightarrow> in_level k (sk_dump (mLogList b1)) = in_level k (sk_dump (mLogList b0))) \<and>
      mConfigVec b1 = (mConfigVec b0)[l := c0\<lparr>mCurrentSize := of_nat (length (in_level l (sk_dump (mLogList b1))))\<rparr>]"
    using s inv(3,4) assms(3) len fuel unfolding c0_def c_def
    by (intro lb_trim_ok) (simp_all add: b0_def c0_def c_def il, simp_all add: xs_def)
  then obtain b1 where b1: "lb_trim (Suc (length (mMainList s))) l timestamp b0 = Some b1" "sk_inv (mLogList b1)" "length (mHeadVec (mLogList b1)) = TOTAL_LOG_LEVELS"
      "in_level l (sk_dump (mLogList b1)) = kept (mTimeDepthThres c) (mMaxNumThres c) timestamp (xs @ [((timestamp, d), l)])"
      "\<And>k. k \<noteq> l \<Longrightarrow> in_level k (sk_dump (mLogList b1)) = in_level k (sk_dump (mLogList b))"
      "mConfigVec b1 = (mConfigVec b)[l := c\<lparr>mCurrentSize := of_nat (length (in_level l (sk_dump (mLogList b1))))\<rparr>]"
    by (auto simp: b0_def c0_def il)
  have e: "lb_append a d (int l) timestamp b = Some b1"
    using b1(1) assms(3) inv(3) by (simp add: lb_append_def Let_def b0_def s_def c0_def c_def del: lb_trim.simps)
  have "length (in_level l (sk_dump (mLogList b1))) \<le> unat (mMaxNumThres c)" using b1(4) by (simp add: length_kept)
  then have "lb_inv b1" using b1(2,3,5,6) inv(3,4) assms(3) by (auto simp: lb_inv_def nth_list_update c_def)
  moreover have "map (\<lambda>c. (mTimeDepthThres c, mMaxNumThres c)) (mConfigVec b1) = map (\<lambda>c. (mTimeDepthThres c, mMaxNumThres c)) (mConfigVec b)"
    using inv(3) assms(3) by (intro nth_equalityI) (auto simp: b1(6) nth_list_update c_def)
  ultimately show ?thesis using e b1(4,5) by (auto simp: c_def xs_def)
qed

type_synonym lb_op = "addr \<times> string \<times> nat \<times> u64"

definition lb_step :: "lb_op \<Rightarrow> log_buffer \<Rightarrow> (unit \<times> log_buffer) option" where
  "lb_step x b = (case x of (a, d, l, ts) \<Rightarrow> map_option (Pair ()) (lb_append a d (int l) ts b))"

definition lb_ok :: "lb_op \<Rightarrow> log_buffer \<Rightarrow> bool" where
  "lb_ok x b = (case x of (a, d, l, ts) \<Rightarrow> a \<notin> fst ` set (mMainList (mLogList b)) \<and> l < TOTAL_LOG_LEVELS)"

text \<open>The lines of a level that should be there after some insertions, with the limits of the level.\<close>

definition level_lines :: "u32 \<Rightarrow> u32 \<Rightarrow> nat \<Rightarrow> lb_op list \<Rightarrow> ((u64 \<times> string) \<times> nat) list \<Rightarrow> ((u64 \<times> string) \<times> nat) list" where
  "level_lines depth number l xs start =
     foldl (\<lambda>acc (a, d, k, ts). if k = l then kept depth number ts (acc @ [((ts, d), l)]) else acc) start xs"

text \<open>What the theorem asks of the configuration file, whose capacities the code does not check.\<close>

definition good_limits :: "level_config list \<Rightarrow> bool" where
  "good_limits cs \<longleftrightarrow> length cs = TOTAL_LOG_LEVELS \<and> (\<forall>c \<in> set cs. mMaxNumThres c > 0 \<and> mMaxNumThres c < 2 ^ 31 \<and> mCurrentSize c = 0)"

lemma lb_run:
  "lb_inv b \<Longrightarrow> ops_ok lb_ok lb_step xs b \<Longrightarrow>
    \<exists>outs b1. run_ops lb_step xs b = Some (outs, b1) \<and> lb_inv b1 \<and>
      (\<forall>l < TOTAL_LOG_LEVELS. in_level l (sk_dump (mLogList b1)) =
         level_lines (mTimeDepthThres (mConfigVec b ! l)) (mMaxNumThres (mConfigVec b ! l)) l xs (in_level l (sk_dump (mLogList b))))"
proof (induction xs arbitrary: b)
  case (Cons x xs)
  obtain a d l ts where x: "x = (a, d, l, ts)" by (metis prod.exhaust)
  have ok: "a \<notin> fst ` set (mMainList (mLogList b))" "l < TOTAL_LOG_LEVELS" using Cons.prems(2) by (auto simp: x lb_ok_def)
  obtain b1 where b1: "lb_append a d (int l) ts b = Some b1" "lb_inv b1"
    "map (\<lambda>c. (mTimeDepthThres c, mMaxNumThres c)) (mConfigVec b1) = map (\<lambda>c. (mTimeDepthThres c, mMaxNumThres c)) (mConfigVec b)"
    "\<And>k. k < TOTAL_LOG_LEVELS \<Longrightarrow> in_level k (sk_dump (mLogList b1)) =
      (if k = l then kept (mTimeDepthThres (mConfigVec b ! l)) (mMaxNumThres (mConfigVec b ! l)) ts (in_level l (sk_dump (mLogList b)) @ [((ts, d), l)])
       else in_level k (sk_dump (mLogList b)))"
    using lb_append_ok [OF Cons.prems(1) ok] by blast
  have same: "mTimeDepthThres (mConfigVec b1 ! k) = mTimeDepthThres (mConfigVec b ! k)" "mMaxNumThres (mConfigVec b1 ! k) = mMaxNumThres (mConfigVec b ! k)"
    if "k < TOTAL_LOG_LEVELS" for k
    using arg_cong [OF b1(3), of "\<lambda>cs. cs ! k"] that b1(2) Cons.prems(1) by (simp_all add: lb_inv_def)
  have st: "lb_step x b = Some ((), b1)" using b1(1) by (simp add: x lb_step_def)
  then have "ops_ok lb_ok lb_step xs b1" using Cons.prems(2) by simp
  from Cons.IH [OF b1(2) this] show ?case using b1(4) same st by (auto simp: x level_lines_def)
qed (simp add: level_lines_def)

text \<open>C25. After any insertions a level holds exactly the lines that the limits of the level keep at each
  insertion: the newest ones up to the number, from the first one that is young enough. Lines of other
  levels never push them out, and no insertion reads an erased element. This needs \<open>good_limits\<close>: the
  capacity of every level that the configuration file sets is at least 1 and below \<open>2 ^ 31\<close>; with a
  capacity of 0, which nothing rules out, the first line of the level is undefined behaviour
  (\<open>capacity_0_undefined\<close>). Lines come with a valid level, and the runs have no flush
  (\<open>flush_then_append_undefined\<close>).\<close>

theorem log_buffer_exact:
  assumes "good_limits (conf default_levels)" "ops_ok lb_ok lb_step xs (new_log_buffer conf)"
  shows "\<exists>outs b. run_ops lb_step xs (new_log_buffer conf) = Some (outs, b) \<and>
    (\<forall>l < TOTAL_LOG_LEVELS. lb_dump (int l) b =
       Some (level_lines (mTimeDepthThres (conf default_levels ! l)) (mMaxNumThres (conf default_levels ! l)) l xs []))"
proof -
  have "lb_inv (new_log_buffer conf)"
    using assms(1) sk_rel_new [of TOTAL_LOG_LEVELS] unfolding good_limits_def lb_inv_def
    by (auto simp: new_log_buffer_def sk_rel_def new_skip_list_def)
  from lb_run [OF this assms(2)] obtain outs b where b: "run_ops lb_step xs (new_log_buffer conf) = Some (outs, b)" "lb_inv b"
    "\<And>l. l < TOTAL_LOG_LEVELS \<Longrightarrow> in_level l (sk_dump (mLogList b)) =
       level_lines (mTimeDepthThres (conf default_levels ! l)) (mMaxNumThres (conf default_levels ! l)) l xs []"
    by (auto simp: new_log_buffer_def sk_dump_def new_skip_list_def)
  then show ?thesis using sk_dump_level_ok [of "mLogList b"] by (auto simp: lb_dump_def lb_inv_def)
qed

text \<open>Three lines with a limit of two, and one of another level.\<close>

definition few :: "level_config list \<Rightarrow> level_config list" where
  "few = map (\<lambda>c. c\<lparr>mMaxNumThres := 2\<rparr>)"

definition some_lines :: "lb_op list" where
  "some_lines = [(1, ''a'', 0, 10), (2, ''x'', 1, 11), (3, ''b'', 0, 12), (4, ''c'', 0, 13)]"

theorem log_buffer_exact_witness:
  "\<exists>outs b. run_ops lb_step some_lines (new_log_buffer few) = Some (outs, b) \<and>
    lb_dump 0 b = Some [((12, ''b''), 0), ((13, ''c''), 0)] \<and> lb_dump 1 b = Some [((11, ''x''), 1)]"
proof -
  have good: "good_limits (few default_levels)" by (simp add: good_limits_def few_def default_levels_def TOTAL_LOG_LEVELS_def)
  have ok: "ops_ok lb_ok lb_step some_lines (new_log_buffer few)"
    by (simp add: some_lines_def lb_ok_def lb_step_def lb_append_def new_log_buffer_def few_def default_levels_def new_skip_list_def
        sk_append_def sk_front_def sk_upd_def sk_pop_level_def Let_def TOTAL_LOG_LEVELS_def TIME_DEPTH_THRESHOLD_MINIMAL_IN_SEC_def)
  have l: "mTimeDepthThres (few default_levels ! l) = 60" "mMaxNumThres (few default_levels ! l) = 2" if "l < TOTAL_LOG_LEVELS" for l
    using that by (simp_all add: few_def default_levels_def TIME_DEPTH_THRESHOLD_MINIMAL_IN_SEC_def)
  obtain outs b where r: "run_ops lb_step some_lines (new_log_buffer few) = Some (outs, b)"
    "\<And>l. l < TOTAL_LOG_LEVELS \<Longrightarrow> lb_dump (int l) b = Some (level_lines 60 2 l some_lines [])"
    using log_buffer_exact [OF good ok] l by auto
  have "lb_dump 0 b = Some (level_lines 60 2 0 some_lines [])" "lb_dump 1 b = Some (level_lines 60 2 1 some_lines [])"
    using r(2) [of 0] r(2) [of 1] by (simp_all add: TOTAL_LOG_LEVELS_def)
  note b = r(1) this
  moreover have "level_lines 60 2 0 some_lines [] = [((12, ''b''), 0), ((13, ''c''), 0)]" "level_lines 60 2 1 some_lines [] = [((11, ''x''), 1)]"
    by (simp_all add: level_lines_def some_lines_def kept_def)
  ultimately show ?thesis using b by auto
qed

text \<open>A level whose capacity is configured as 0: the first line is erased again at once, and then the first
  element of an empty level is read.\<close>

lemma capacity_0_undefined:
  assumes "length (conf default_levels) = TOTAL_LOG_LEVELS" "l < TOTAL_LOG_LEVELS"
    and "mMaxNumThres (conf default_levels ! l) = 0" "mCurrentSize (conf default_levels ! l) = 0"
  shows "lb_step (a, d, l, timestamp) (new_log_buffer conf) = None"
  using assms
  by (simp add: lb_step_def lb_append_def new_log_buffer_def new_skip_list_def sk_append_def Let_def sk_front_def sk_pop_level_def sk_upd_def)

lemma capacity_0_run:
  "lb_step (1, ''a'', 0, 10) (new_log_buffer (map (\<lambda>c. c\<lparr>mMaxNumThres := 0\<rparr>))) = None"
  by code_simp

text \<open>A flush empties the list and leaves the counts. The next insertion into a level that was full
  erases the new line and then reads the first element of an empty list.\<close>

lemma flush_then_append_undefined:
  assumes "lb_inv b" "l < TOTAL_LOG_LEVELS" "mCurrentSize (mConfigVec b ! l) = mMaxNumThres (mConfigVec b ! l)"
  shows "lb_append a d (int l) timestamp (lb_flush b) = None"
proof -
  have inv: "length (mConfigVec b) = TOTAL_LOG_LEVELS" "length (mHeadVec (mLogList b)) = TOTAL_LOG_LEVELS" "length (mTailVec (mLogList b)) = TOTAL_LOG_LEVELS"
    "mMaxNumThres (mConfigVec b ! l) < 2 ^ 31"
    using assms(1,2) by (auto simp: lb_inv_def sk_inv_def)
  have "unat (mMaxNumThres (mConfigVec b ! l)) < 2 ^ 31" using inv(4) by (simp add: word_less_nat_alt)
  then have "mMaxNumThres (mConfigVec b ! l) + 1 > mMaxNumThres (mConfigVec b ! l)" by (simp add: word_less_nat_alt unat_word_ariths)
  then show ?thesis using assms(2,3) inv(1-3)
    by (simp add: lb_append_def lb_flush_def sk_flush_def sk_append_def Let_def sk_front_def sk_pop_level_def)
qed

end
