(* ===== verification/Loc_Text.thy ===== *)
theory Loc_Text
  imports Loc_Prelude
begin

text \<open>
  Text utilities: splitting and trimming of utils/loc_misc_utils.cpp, the names of bits of
  utils/loc_log.cpp, and the functions of the C library that the reader of configurations uses
  (strtok_r, strtol, fgets, strlcpy). A C string is a list of characters without its end; a buffer
  that is changed in place is an argument and part of the result.
\<close>

section \<open>The C library\<close>

definition isspace :: "char \<Rightarrow> bool" where
  "isspace c \<longleftrightarrow> (let n = of_char c :: nat in n = 32 \<or> 9 \<le> n \<and> n \<le> 13)"

definition newline :: char where "newline = CHR 0x0A"

text \<open>One token and what is left for the next call; a token of all that is left when there is no delimiter.\<close>

definition strtok_r :: "char \<Rightarrow> string \<Rightarrow> (string \<times> string) option" where
  "strtok_r delim s =
     (case dropWhile ((=) delim) s of
        [] \<Rightarrow> None
      | c # cs \<Rightarrow> Some (takeWhile ((\<noteq>) delim) (c # cs), drop 1 (dropWhile ((\<noteq>) delim) (c # cs))))"

definition strtok_rest :: "string \<Rightarrow> string option" where
  "strtok_rest s = (if s = [] then None else Some s)"

definition strlcpy :: "string \<Rightarrow> nat \<Rightarrow> string \<Rightarrow> string" where
  "strlcpy src n dst = (if n = 0 then dst else take (n - 1) src)"

fun digit_value :: "char \<Rightarrow> nat option" where
  "digit_value c =
     (let n = of_char c :: nat in
      if 48 \<le> n \<and> n \<le> 57 then Some (n - 48) else if 97 \<le> n \<and> n \<le> 102 then Some (n - 87)
      else if 65 \<le> n \<and> n \<le> 70 then Some (n - 55) else None)"

fun read_digits :: "nat \<Rightarrow> nat \<Rightarrow> string \<Rightarrow> nat" where
  "read_digits base acc [] = acc"
| "read_digits base acc (c # cs) =
     (case digit_value c of Some d \<Rightarrow> if d < base then read_digits base (base * acc + d) cs else acc | None \<Rightarrow> acc)"

definition is_x :: "char \<Rightarrow> bool" where
  "is_x c \<longleftrightarrow> c = CHR ''x'' \<or> c = CHR ''X''"

text \<open>strtol: spaces, a sign, the prefix of base 16 and digits; the value is kept within 64 bits.\<close>

definition strtol :: "nat \<Rightarrow> string \<Rightarrow> int" where
  "strtol base s =
     (let s1 = dropWhile isspace s;
          (neg, s2) = (case s1 of c # cs \<Rightarrow> if c = CHR ''-'' then (True, cs) else if c = CHR ''+'' then (False, cs) else (False, s1)
                         | [] \<Rightarrow> (False, []));
          s3 = (case s2 of z # x # d # cs \<Rightarrow> if base = 16 \<and> z = CHR ''0'' \<and> is_x x \<and> digit_value d \<noteq> None then d # cs else s2 | _ \<Rightarrow> s2);
          v = int (read_digits base 0 s3)
      in if neg then max (- (2 ^ 63)) (- v) else min (2 ^ 63 - 1) v)"

text \<open>fgets: at most so many characters, up to the end of the line; with what is left of the file.\<close>

fun fgets_take :: "nat \<Rightarrow> string \<Rightarrow> string \<times> string" where
  "fgets_take 0 s = ([], s)"
| "fgets_take (Suc n) [] = ([], [])"
| "fgets_take (Suc n) (c # cs) =
     (if c = newline then ([c], cs) else (case fgets_take n cs of (l, r) \<Rightarrow> (c # l, r)))"

definition fgets :: "nat \<Rightarrow> string \<Rightarrow> (string \<times> string) option" where
  "fgets n file = (if file = [] \<or> n = 0 then None else Some (fgets_take (n - 1) file))"

lemma fgets_take_append: "fst (fgets_take n s) @ snd (fgets_take n s) = s"
  by (induction n s rule: fgets_take.induct) (auto split: prod.splits)

lemma fgets_less: "fgets n file = Some (l, r) \<Longrightarrow> 1 < n \<Longrightarrow> length r < length file"
  using fgets_take_append [of "n - 1" "file"]
  by (cases "n - 1"; cases "file") (auto simp: fgets_def split: if_splits prod.splits)

lemma fgets_take_line: "newline \<notin> set l \<Longrightarrow> length l < n \<Longrightarrow> fgets_take n (l @ newline # r) = (l @ [newline], r)"
proof (induction l arbitrary: n)
  case Nil
  then show ?case by (cases n) auto
next
  case (Cons c l)
  then obtain m where "n = Suc m" by (cases n) auto
  then show ?case using Cons by auto
qed

section \<open>Splitting\<close>

fun split_loop :: "char \<Rightarrow> nat \<Rightarrow> string \<Rightarrow> nat \<Rightarrow> string \<Rightarrow> string list" where
  "split_loop delimiter max_num piece num [] = [piece]"
| "split_loop delimiter max_num piece num (c # cs) =
     (if c = delimiter
      then piece # (if num + 1 < max_num then split_loop delimiter max_num [] (num + 1) cs else [])
      else split_loop delimiter max_num (piece @ [c]) num cs)"

text \<open>The pieces; their number is the result of the function.\<close>

definition loc_util_split_string :: "string \<Rightarrow> nat \<Rightarrow> char \<Rightarrow> string list" where
  "loc_util_split_string raw_string max_num delimiter = split_loop delimiter max_num [] 0 raw_string"

fun join :: "char \<Rightarrow> string list \<Rightarrow> string" where
  "join d [] = []"
| "join d [p] = p"
| "join d (p # q # ps) = p @ d # join d (q # ps)"

lemma split_loop_not_Nil [simp]: "split_loop d m p n s \<noteq> []"
  by (induction d m p n s rule: split_loop.induct) auto

lemma join_Cons: "ps \<noteq> [] \<Longrightarrow> join d (p # ps) = p @ d # join d ps"
  by (cases ps) auto

lemma split_loop_join:
  "n + length (split_loop d m p n s) < m \<Longrightarrow> join d (split_loop d m p n s) = p @ s"
proof (induction d m p n s rule: split_loop.induct)
  case (2 d m p n c cs)
  then show ?case by (auto simp: join_Cons)
qed simp

lemma split_loop_pieces: "d \<notin> set p \<Longrightarrow> x \<in> set (split_loop d m p n s) \<Longrightarrow> d \<notin> set x"
  by (induction d m p n s rule: split_loop.induct) (auto split: if_splits)

lemma split_loop_bound: "n < m \<Longrightarrow> n + length (split_loop d m p n s) \<le> m"
  by (induction d m p n s rule: split_loop.induct) auto

lemma split_loop_word: "d \<notin> set w \<Longrightarrow> split_loop d m p n (w @ s) = split_loop d m (p @ w) n s"
  by (induction w arbitrary: p) auto

lemma split_loop_words:
  "ws \<noteq> [] \<Longrightarrow> \<forall>w \<in> set ws. d \<notin> set w \<Longrightarrow> n + length ws \<le> m \<Longrightarrow> split_loop d m [] n (join d ws) = ws"
proof (induction ws arbitrary: n)
  case (Cons w ws)
  show ?case
  proof (cases ws)
    case Nil
    then show ?thesis using Cons.prems(2) split_loop_word [of d w m "[]" n "[]"] by simp
  next
    case (Cons v vs)
    then show ?thesis using Cons.prems Cons.IH [of "Suc n"] by (simp add: split_loop_word)
  qed
qed simp

section \<open>Trimming\<close>

text \<open>What is written, and how much of it is left before the spaces at the end; 0 when nothing was found.\<close>

fun trim_scan :: "string \<Rightarrow> string \<Rightarrow> nat \<Rightarrow> string \<times> nat" where
  "trim_scan [] written last_nonspace = (written, last_nonspace)"
| "trim_scan (c # cs) written last_nonspace =
     (if written = [] \<and> isspace c then trim_scan cs written last_nonspace
      else trim_scan cs (written @ [c]) (if isspace c then last_nonspace else Suc (length written)))"

definition loc_util_trim_space :: "string \<Rightarrow> string" where
  "loc_util_trim_space org_string =
     (case trim_scan org_string [] 0 of (written, last_nonspace) \<Rightarrow> if last_nonspace = 0 then org_string else take last_nonspace written)"

definition trim_end :: "string \<Rightarrow> string" where
  "trim_end s = rev (dropWhile isspace (rev s))"

lemma trim_end_simps [simp]:
  "trim_end [] = []" "\<not> isspace c \<Longrightarrow> trim_end (s @ [c]) = s @ [c]" "isspace c \<Longrightarrow> trim_end (s @ [c]) = trim_end s"
  by (simp_all add: trim_end_def)

lemma trim_scan_run:
  "trim_scan s w (length (trim_end w)) = (w', l) \<Longrightarrow> (w = [] \<or> \<not> isspace (hd w)) \<Longrightarrow>
    w' = (if w = [] then dropWhile isspace s else w @ s) \<and> l = length (trim_end w')"
proof (induction s arbitrary: w)
  case (Cons c cs)
  show ?case
  proof (cases "w = [] \<and> isspace c")
    case True
    then show ?thesis using Cons.IH [of "[]"] Cons.prems by auto
  next
    case False
    have l: "(if isspace c then length (trim_end w) else Suc (length w)) = length (trim_end (w @ [c]))" by simp
    have "w' = (w @ [c]) @ cs \<and> l = length (trim_end w')"
      using Cons.IH [of "w @ [c]"] Cons.prems False l by (cases w) auto
    then show ?thesis using False by auto
  qed
qed auto

lemma trim_end_take: "take (length (trim_end w)) w = trim_end w"
  by (metis append_eq_conv_conj rev_append rev_rev_ident takeWhile_dropWhile_id trim_end_def)

lemma trim_end_Nil: "trim_end w = [] \<longleftrightarrow> (\<forall>c \<in> set w. isspace c)"
  by (auto simp: trim_end_def dropWhile_eq_Nil_conv)

lemma trim_space_exact:
  "loc_util_trim_space s = (if \<forall>c \<in> set s. isspace c then s else trim_end (dropWhile isspace s))"
proof -
  obtain w l where r: "trim_scan s [] 0 = (w, l)" by (cases "trim_scan s [] 0")
  then have "w = dropWhile isspace s" "l = length (trim_end w)" using trim_scan_run [of s "[]" w l] by auto
  moreover have "(\<forall>c \<in> set (dropWhile isspace s). isspace c) \<longleftrightarrow> (\<forall>c \<in> set s. isspace c)"
    by (metis dropWhile_eq_Nil_conv hd_dropWhile hd_in_set set_dropWhileD)
  ultimately show ?thesis using r by (simp add: loc_util_trim_space_def trim_end_take trim_end_Nil)
qed

lemma trim_trimmed:
  assumes "s \<noteq> []" "\<not> isspace (hd s)" "\<not> isspace (last s)"
  shows "loc_util_trim_space s = s" "loc_util_trim_space (s @ [newline]) = s"
proof -
  have d: "dropWhile isspace (s @ xs) = s @ xs" for xs using assms(1,2) by (cases s) auto
  have e: "trim_end s = s" using assms(1,3) by (cases s rule: rev_cases) auto
  have n: "\<not> (\<forall>c \<in> set s. isspace c)" using assms(1,2) by (cases s) auto
  show "loc_util_trim_space s = s" using d [of "[]"] e n by (simp add: trim_space_exact)
  have "isspace newline" by (simp add: isspace_def newline_def)
  then show "loc_util_trim_space (s @ [newline]) = s" using d [of "[newline]"] e n by (auto simp: trim_space_exact)
qed

section \<open>Names of bits\<close>

text \<open>The lowest bit that is set, and the mask with or without it.\<close>

definition loc_get_least_bit :: "u64 \<Rightarrow> bool \<Rightarrow> u64 \<times> u64" where
  "loc_get_least_bit m clearTheBit =
     (if m > 0 then (let less1 = m - 1 in (m AND NOT less1, if clearTheBit then m AND less1 else m)) else (0, m))"

lemma minus_1_bits:
  fixes m :: u64
  assumes "bit m k" "\<And>i. i < k \<Longrightarrow> \<not> bit m i"
  shows "bit (m - 1) i \<longleftrightarrow> i < k \<or> i \<noteq> k \<and> bit m i"
proof -
  have k: "k < 64" using bit_imp_le_length [OF assms(1)] by simp
  have a: "m - push_bit k 1 = m AND NOT (push_bit k 1)"
    using assms(1) by (intro disjunctive_diff_eq_and_not bit_eqI) (auto simp: bit_simps)
  have "m - 1 = (m - push_bit k 1) + Bit_Operations.mask k" by (simp add: mask_eq_exp_minus_1 push_bit_eq_mult)
  also have "\<dots> = (m AND NOT (push_bit k 1)) OR Bit_Operations.mask k"
    unfolding a using assms(2) by (intro disjunctive_add_eq_or bit_eqI) (auto simp: bit_simps)
  finally show ?thesis using assms(2) k bit_imp_le_length [of m i] by (auto simp: bit_simps)
qed

lemma least_bit_exact:
  assumes "bit m k" "\<And>i. i < k \<Longrightarrow> \<not> bit m i"
  shows "loc_get_least_bit m True = (push_bit k 1, m AND NOT (push_bit k 1))"
proof -
  have k: "k < 64" using bit_imp_le_length [OF assms(1)] by simp
  have "m \<noteq> 0" using assms(1) by auto
  moreover have "m AND NOT (m - 1) = push_bit k 1"
    using assms k minus_1_bits [OF assms] by (intro bit_eqI) (auto simp: bit_simps)
  moreover have "m AND (m - 1) = m AND NOT (push_bit k 1)"
    using assms k minus_1_bits [OF assms] by (intro bit_eqI) (auto simp: bit_simps)
  ultimately show ?thesis by (simp add: loc_get_least_bit_def word_gt_0 Let_def)
qed

lemma least_bit_ex:
  fixes m :: u64
  assumes "m \<noteq> 0"
  obtains k where "bit m k" "\<And>i. i < k \<Longrightarrow> \<not> bit m i"
proof -
  obtain j where "bit m j" using assms by (metis bit_0_eq bit_eqI bot_apply bot_bool_def)
  then show ?thesis using that [of "LEAST i. bit m i"] LeastI [of "bit m" j] not_less_Least by blast
qed

definition loc_get_name_from_tbl :: "(u64 \<rightharpoonup> string) \<Rightarrow> u64 \<Rightarrow> string \<Rightarrow> string" where
  "loc_get_name_from_tbl tbl key defalt = (case tbl key of Some name \<Rightarrow> name | None \<Rightarrow> defalt)"

function bit_defs_loop :: "u64 \<Rightarrow> (u64 \<rightharpoonup> string) \<Rightarrow> string \<Rightarrow> string" where
  "bit_defs_loop m tbl out =
     (if m > 0
      then (let (b, m1) = loc_get_least_bit m True;
                out1 = out @ loc_get_name_from_tbl tbl b []
            in bit_defs_loop m1 tbl (if m1 > 0 then out1 @ '' | '' else out1))
      else out)"
  by pat_completeness auto

termination
proof (relation "measure (\<lambda>(m, tbl, out). unat m)", simp)
  fix m :: u64 and x b m1 and tbl :: "u64 \<rightharpoonup> string" and out out1 :: string
  assume m: "m > 0" "x = loc_get_least_bit m True" "(b, m1) = x"
  then have "m1 = m AND (m - 1)" by (simp add: loc_get_least_bit_def Let_def)
  then have "m1 \<le> m - 1" by (simp add: word_and_le1)
  then show "((m1, tbl, if m1 > 0 then out1 @ '' | '' else out1), m, tbl, out) \<in> measure (\<lambda>(m, tbl, out). unat m)"
    using m(1) by (auto simp: word_less_nat_alt word_le_nat_alt unat_minus_one)
qed

definition loc_get_bit_defs :: "u64 \<Rightarrow> (u64 \<rightharpoonup> string) \<Rightarrow> string" where
  "loc_get_bit_defs m tbl = bit_defs_loop m tbl []"

declare bit_defs_loop.simps [simp del]

text \<open>The bits that are set, the lowest first.\<close>

definition set_bits_of :: "u64 \<Rightarrow> nat list" where
  "set_bits_of m = filter (bit m) [0..<64]"

fun with_bars :: "string list \<Rightarrow> string" where
  "with_bars [] = []"
| "with_bars [p] = p"
| "with_bars (p # q # ps) = p @ '' | '' @ with_bars (q # ps)"

lemma set_bits_of_least:
  assumes "bit m k" "\<And>i. i < k \<Longrightarrow> \<not> bit m i"
  shows "set_bits_of m = k # set_bits_of (m AND NOT (push_bit k 1))"
proof -
  have k: "k < 64" using bit_imp_le_length [OF assms(1)] by simp
  have s: "[0..<64] = [0..<k] @ k # [Suc k..<64]" using k upt_add_eq_append [of 0 k "64 - k"] by (simp add: upt_conv_Cons)
  have "filter (bit m) [0..<k] = []" "filter (bit (m AND NOT (push_bit k 1))) [0..<k] = []"
    using assms(2) by (auto simp: filter_empty_conv bit_simps)
  moreover have "filter (bit (m AND NOT (push_bit k 1))) [Suc k..<64] = filter (bit m) [Suc k..<64]"
    by (intro filter_cong) (auto simp: bit_simps)
  moreover have "\<not> bit (m AND NOT (push_bit k 1)) k" by (auto simp: bit_simps k)
  ultimately show ?thesis using assms(1) unfolding set_bits_of_def s by simp
qed

lemma set_bits_of_Nil: "set_bits_of m = [] \<longleftrightarrow> m = 0"
proof
  assume "set_bits_of m = []"
  then show "m = 0" by (metis least_bit_ex list.distinct(1) set_bits_of_least)
qed (simp add: set_bits_of_def)

lemma bit_defs_loop_exact:
  "bit_defs_loop m tbl out = out @ with_bars (map (\<lambda>k. loc_get_name_from_tbl tbl (push_bit k 1) []) (set_bits_of m))"
proof (induction m tbl out rule: bit_defs_loop.induct)
  case (1 m tbl out)
  show ?case
  proof (cases "m = 0")
    case True
    then show ?thesis by (simp add: bit_defs_loop.simps [of 0] set_bits_of_def)
  next
    case False
    obtain k where k: "bit m k" "\<And>i. i < k \<Longrightarrow> \<not> bit m i" using least_bit_ex [OF False] by blast
    note e = least_bit_exact [OF k] set_bits_of_least [OF k]
    let ?m = "m AND NOT (push_bit k 1)"
    show ?thesis
    proof (cases "set_bits_of ?m")
      case Nil
      then have "?m = 0" by (simp add: set_bits_of_Nil)
      then show ?thesis using False e Nil by (simp add: bit_defs_loop.simps [of m] bit_defs_loop.simps [of 0] word_gt_0)
    next
      case (Cons j js)
      then have "?m \<noteq> 0" using set_bits_of_Nil [of ?m] by auto
      then show ?thesis using False e Cons 1 [of "(push_bit k 1, ?m)" "push_bit k 1" ?m]
        by (simp add: bit_defs_loop.simps [of m] word_gt_0)
    qed
  qed
qed

text \<open>The text for a mask names exactly the bits that are set, from the lowest to the highest, with
  bars between them.\<close>

theorem bit_defs_exact:
  "loc_get_bit_defs m tbl = with_bars (map (\<lambda>k. loc_get_name_from_tbl tbl (push_bit k 1) []) (filter (bit m) [0..<64]))"
  by (simp add: loc_get_bit_defs_def bit_defs_loop_exact set_bits_of_def)

end
