(* ===== verification/Loc_Config.thy ===== *)
theory Loc_Config
  imports Loc_Text
begin

text \<open>
  The reader of configuration files of utils/loc_cfg.cpp: lines \<open>NAME = VALUE\<close> set the variables that
  a table names. A variable is named by the text of its expression; a file is its contents, or None
  when it cannot be opened. A number with a fraction is kept as the text that atof reads. The theorem
  says what reading a file does; a reader that does not return has the value None.
\<close>

section \<open>Entries and variables\<close>

datatype conf_real = RealZero | Atof string

datatype conf_value = TextVal string | IntVal u32 | RealVal conf_real

record conf_entry =
  param_name :: string
  param_ptr :: "string option"
  param_set :: "string option"
  param_type :: char

record param_value =
  pv_name :: string
  pv_str :: string
  pv_int :: u32
  pv_double :: conf_real

record conf_state =
  cv_vars :: "string \<Rightarrow> conf_value"
  cv_set :: "string \<Rightarrow> bool"

definition text_of :: "conf_value \<Rightarrow> string" where
  "text_of v = (case v of TextVal s \<Rightarrow> s | _ \<Rightarrow> [])"

definition int_of :: "conf_value \<Rightarrow> u32" where
  "int_of v = (case v of IntVal n \<Rightarrow> n | _ \<Rightarrow> 0)"

section \<open>One line\<close>

definition mark_set :: "conf_entry \<Rightarrow> conf_state \<Rightarrow> conf_state" where
  "mark_set e st = (case param_set e of None \<Rightarrow> st | Some f \<Rightarrow> st\<lparr>cv_set := (cv_set st)(f := True)\<rparr>)"

text \<open>The flag says whether the entry was set.\<close>

definition loc_set_config_entry :: "conf_entry \<Rightarrow> param_value \<Rightarrow> nat \<Rightarrow> conf_state \<Rightarrow> bool \<times> conf_state" where
  "loc_set_config_entry e v string_len st =
     (case param_ptr e of
        None \<Rightarrow> (False, st)
      | Some p \<Rightarrow>
         (if param_name e = pv_name v
          then if param_type e = CHR ''s''
               then (True, mark_set e (st\<lparr>cv_vars := (cv_vars st)(p :=
                       (if pv_str v = ''NULL'' then TextVal [] else TextVal (strlcpy (pv_str v) string_len (text_of (cv_vars st p)))))\<rparr>))
               else if param_type e = CHR ''n''
               then (True, mark_set e (st\<lparr>cv_vars := (cv_vars st)(p := IntVal (pv_int v))\<rparr>))
               else if param_type e = CHR ''f''
               then (True, mark_set e (st\<lparr>cv_vars := (cv_vars st)(p := RealVal (pv_double v))\<rparr>))
               else (False, st)
          else (False, st)))"

definition parse_value :: "string \<Rightarrow> string \<Rightarrow> param_value" where
  "parse_value name s =
     (if 3 \<le> length s \<and> s ! 0 = CHR ''0'' \<and> is_x (s ! 1)
      then \<lparr>pv_name = name, pv_str = s, pv_int = word_of_int (strtol 16 (drop 2 s)), pv_double = RealZero\<rparr>
      else \<lparr>pv_name = name, pv_str = s, pv_int = word_of_int (strtol 10 s), pv_double = Atof s\<rparr>)"

fun set_entries :: "conf_entry list \<Rightarrow> param_value \<Rightarrow> nat \<Rightarrow> conf_state \<Rightarrow> nat \<times> conf_state" where
  "set_entries [] v string_len st = (0, st)"
| "set_entries (e # es) v string_len st =
     (case loc_set_config_entry e v string_len st of
        (was_set, st1) \<Rightarrow> (case set_entries es v string_len st1 of (k, st2) \<Rightarrow> ((if was_set then 1 else 0) + k, st2)))"

definition loc_fill_conf_item :: "string \<Rightarrow> conf_entry list \<Rightarrow> nat \<Rightarrow> conf_state \<Rightarrow> nat \<times> conf_state" where
  "loc_fill_conf_item input_buf table string_len st =
     (case strtok_r (CHR ''='') input_buf of
        None \<Rightarrow> (0, st)
      | Some (name, lasts) \<Rightarrow>
         (case strtok_rest lasts of
            None \<Rightarrow> (0, st)
          | Some v \<Rightarrow> set_entries table (parse_value (loc_util_trim_space name) (loc_util_trim_space v)) string_len st))"

section \<open>Files\<close>

definition clear_sets :: "conf_entry list \<Rightarrow> conf_state \<Rightarrow> conf_state" where
  "clear_sets table st = fold (\<lambda>e s. case param_set e of None \<Rightarrow> s | Some f \<Rightarrow> s\<lparr>cv_set := (cv_set s)(f := False)\<rparr>) table st"

text \<open>With a buffer of one character fgets reads nothing, and the loop does not end.\<close>

function read_loop :: "conf_entry list \<Rightarrow> nat \<Rightarrow> u32 \<Rightarrow> string \<Rightarrow> conf_state \<Rightarrow> (string \<times> conf_state) option" where
  "read_loop table string_len num_params file st =
     (if num_params = 0 then Some (file, st)
      else case fgets string_len file of
        None \<Rightarrow> Some (file, st)
      | Some (line, rest) \<Rightarrow>
         (if string_len \<le> 1 then None
          else (case loc_fill_conf_item line table string_len st of
                  (k, st1) \<Rightarrow> read_loop table string_len (num_params - of_nat k) rest st1)))"
  by pat_completeness auto

termination
  by (relation "measure (\<lambda>(table, string_len, num_params, file, st). length file)") (auto intro: fgets_less)

declare read_loop.simps [simp del]

text \<open>The result: whether there was a file, what is left of it, the variables.\<close>

definition loc_read_conf_r_long :: "string option \<Rightarrow> conf_entry list \<Rightarrow> nat \<Rightarrow> conf_state \<Rightarrow> (bool \<times> string \<times> conf_state) option" where
  "loc_read_conf_r_long conf_fp table string_len st =
     (case conf_fp of
        None \<Rightarrow> Some (False, [], st)
      | Some file \<Rightarrow> map_option (Pair True) (read_loop table string_len (of_nat (length table)) file (clear_sets table st)))"

definition LOC_MAX_PARAM_STRING :: nat where "LOC_MAX_PARAM_STRING = 172"

definition loc_read_conf_r :: "string option \<Rightarrow> conf_entry list \<Rightarrow> conf_state \<Rightarrow> (bool \<times> string \<times> conf_state) option" where
  "loc_read_conf_r conf_fp table st = loc_read_conf_r_long conf_fp table LOC_MAX_PARAM_STRING st"

definition number_entry :: "string \<Rightarrow> string \<Rightarrow> conf_entry" where
  "number_entry name var = \<lparr>param_name = name, param_ptr = Some var, param_set = None, param_type = CHR ''n''\<rparr>"

definition text_entry :: "string \<Rightarrow> string \<Rightarrow> conf_entry" where
  "text_entry name var = \<lparr>param_name = name, param_ptr = Some var, param_set = None, param_type = CHR ''s''\<rparr>"

definition loc_param_table :: "conf_entry list" where
  "loc_param_table =
     [number_entry ''DEBUG_LEVEL'' ''DEBUG_LEVEL'', number_entry ''TIMESTAMP'' ''TIMESTAMP'', number_entry ''DATUM_TYPE'' ''DATUM_TYPE'',
      number_entry ''LOG_BUFFER_ENABLED'' ''sLogBufferEnabled'']"

definition loc_read_conf_long :: "string option \<Rightarrow> conf_entry list option \<Rightarrow> nat \<Rightarrow> conf_state \<Rightarrow> conf_state option" where
  "loc_read_conf_long file config_table string_len st =
     (case file of
        None \<Rightarrow> Some st
      | Some f \<Rightarrow>
         (let table = (case config_table of None \<Rightarrow> [] | Some t \<Rightarrow> t);
              r = (if table \<noteq> [] then map_option (snd \<circ> snd) (loc_read_conf_r_long (Some f) table string_len st) else Some st)
          in Option.bind r (\<lambda>st1. map_option (snd \<circ> snd) (loc_read_conf_r_long (Some f) loc_param_table string_len st1))))"

definition loc_read_conf :: "string option \<Rightarrow> conf_entry list option \<Rightarrow> conf_state \<Rightarrow> conf_state option" where
  "loc_read_conf file config_table st = loc_read_conf_long file config_table LOC_MAX_PARAM_STRING st"

lemma strtok_less: "strtok_r d s = Some (t, r) \<Longrightarrow> length r < length s"
proof -
  assume a: "strtok_r d s = Some (t, r)"
  obtain c cs where c: "dropWhile ((=) d) s = c # cs" using a by (cases "dropWhile ((=) d) s") (auto simp: strtok_r_def)
  have "length (c # cs) \<le> length s" using length_dropWhile_le [of "(=) d" s] by (simp add: c)
  moreover have "length (dropWhile ((\<noteq>) d) (c # cs)) \<le> length (c # cs)" by (rule length_dropWhile_le)
  moreover have "r = drop 1 (dropWhile ((\<noteq>) d) (c # cs))" using a c by (simp add: strtok_r_def)
  ultimately show ?thesis by (simp del: dropWhile.simps)
qed

text \<open>Lines of a text in memory; the result counts the lines.\<close>

function update_loop :: "conf_entry list \<Rightarrow> nat \<Rightarrow> u32 \<Rightarrow> string \<Rightarrow> nat \<Rightarrow> conf_state \<Rightarrow> nat \<times> conf_state" where
  "update_loop table string_len num_params text ret st =
     (case strtok_r newline text of
        None \<Rightarrow> (ret, st)
      | Some (input_buf, rest) \<Rightarrow>
         (if num_params = 0 then (ret, st)
          else (case loc_fill_conf_item input_buf table string_len st of
                  (k, st1) \<Rightarrow> update_loop table string_len (num_params - of_nat k) rest (ret + 1) st1)))"
  by pat_completeness auto

termination
  by (relation "measure (\<lambda>(table, string_len, num_params, text, ret, st). length text)") (auto intro: strtok_less)

declare update_loop.simps [simp del]

text \<open>None for the data is a null pointer; the result is -1 when an argument is null or 0.\<close>

definition loc_update_conf_long :: "string option \<Rightarrow> nat \<Rightarrow> conf_entry list \<Rightarrow> nat \<Rightarrow> conf_state \<Rightarrow> int \<times> conf_state" where
  "loc_update_conf_long conf_data n table string_len st =
     (case conf_data of
        None \<Rightarrow> (-1, st)
      | Some data \<Rightarrow>
         (if n = 0 \<or> table = [] then (-1, st)
          else (case update_loop table string_len (of_nat (length table) - 1) (take n data) 0 st of (ret, st1) \<Rightarrow> (int ret, st1))))"

section \<open>What reading does\<close>

text \<open>A line that sets one value: a name without spaces at its ends and a value that fits.\<close>

definition trimmed :: "string \<Rightarrow> bool" where
  "trimmed s \<longleftrightarrow> s \<noteq> [] \<and> \<not> isspace (hd s) \<and> \<not> isspace (last s) \<and> newline \<notin> set s"

definition good_line :: "nat \<Rightarrow> string \<times> string \<Rightarrow> bool" where
  "good_line string_len l \<longleftrightarrow> trimmed (fst l) \<and> CHR ''='' \<notin> set (fst l) \<and> trimmed (snd l) \<and> length (fst l) + length (snd l) + 2 < string_len"

definition print_line :: "string \<times> string \<Rightarrow> string" where
  "print_line l = fst l @ CHR ''='' # snd l @ [newline]"

definition print_config :: "(string \<times> string) list \<Rightarrow> string" where
  "print_config ls = concat (map print_line ls)"

text \<open>Names, variables and flags of a table are its own.\<close>

definition good_table :: "conf_entry list \<Rightarrow> bool" where
  "good_table table \<longleftrightarrow> distinct (map param_name table) \<and> distinct (map param_ptr table) \<and>
     (\<forall>e \<in> set table. param_ptr e \<noteq> None \<and> param_type e \<in> {CHR ''s'', CHR ''n'', CHR ''f''}) \<and>
     (\<forall>e \<in> set table. \<forall>f \<in> set table. param_set e \<noteq> None \<and> param_set e = param_set f \<longrightarrow> e = f)"

definition value_read :: "char \<Rightarrow> string \<Rightarrow> conf_value" where
  "value_read type v =
     (if type = CHR ''s'' then TextVal (if v = ''NULL'' then [] else v)
      else if type = CHR ''n'' then IntVal (pv_int (parse_value [] v)) else RealVal (pv_double (parse_value [] v)))"

definition apply_line :: "conf_entry list \<Rightarrow> string \<times> string \<Rightarrow> conf_state \<Rightarrow> conf_state" where
  "apply_line table l st =
     (case find (\<lambda>e. param_name e = fst l) table of
        None \<Rightarrow> st
      | Some e \<Rightarrow> mark_set e (st\<lparr>cv_vars := (cv_vars st)(the (param_ptr e) := value_read (param_type e) (snd l))\<rparr>))"

definition names_in :: "conf_entry list \<Rightarrow> string \<times> string \<Rightarrow> bool" where
  "names_in table l \<longleftrightarrow> fst l \<in> param_name ` set table"

lemma pv_parse [simp]: "pv_name (parse_value name s) = name" "pv_str (parse_value name s) = s"
  by (simp_all add: parse_value_def)

lemma pv_numbers:
  "pv_int (parse_value name s) = pv_int (parse_value [] s)" "pv_double (parse_value name s) = pv_double (parse_value [] s)"
  by (simp_all add: parse_value_def)

lemma set_entries_absent: "pv_name v \<notin> param_name ` set table \<Longrightarrow> set_entries table v n st = (0, st)"
  by (induction table) (auto simp: loc_set_config_entry_def split: option.splits)

lemma set_entry_own:
  assumes "param_ptr e \<noteq> None" "param_type e \<in> {CHR ''s'', CHR ''n'', CHR ''f''}" "length s < n"
  shows "loc_set_config_entry e (parse_value (param_name e) s) n st =
    (True, mark_set e (st\<lparr>cv_vars := (cv_vars st)(the (param_ptr e) := value_read (param_type e) s)\<rparr>))"
  using assms pv_numbers [of "param_name e" s] by (auto simp: loc_set_config_entry_def value_read_def strlcpy_def)

lemma set_entries_exact:
  assumes "distinct (map param_name table)" "\<forall>e \<in> set table. param_ptr e \<noteq> None \<and> param_type e \<in> {CHR ''s'', CHR ''n'', CHR ''f''}" "length s < n"
  shows "set_entries table (parse_value name s) n st = ((if name \<in> param_name ` set table then 1 else 0), apply_line table (name, s) st)"
  using assms(1,2)
proof (induction table arbitrary: st)
  case (Cons e es)
  show ?case
  proof (cases "param_name e = name")
    case True
    then have "name \<notin> param_name ` set es" using Cons.prems(1) by auto
    then have "set_entries es (parse_value name s) n s1 = (0, s1)" for s1 by (intro set_entries_absent) simp
    then show ?thesis using True Cons.prems(2) set_entry_own [of e s n st] assms(3) by (auto simp: apply_line_def)
  next
    case False
    then have "loc_set_config_entry e (parse_value name s) n st = (False, st)" by (simp add: loc_set_config_entry_def split: option.splits)
    then show ?thesis using False Cons.IH [of st] Cons.prems by (auto simp: apply_line_def)
  qed
qed (simp add: apply_line_def)

lemma fill_line:
  assumes "good_line n l" "good_table table"
  shows "loc_fill_conf_item (print_line l) table n st = ((if names_in table l then 1 else 0), apply_line table l st)"
proof -
  obtain name v where l: "l = (name, v)" by (cases l)
  have g: "trimmed name" "CHR ''='' \<notin> set name" "trimmed v" "length v < n" using assms(1) by (auto simp: good_line_def l)
  have d: "dropWhile ((=) (CHR ''='')) (print_line l) = print_line l"
    using g(1,2) by (cases name) (auto simp: print_line_def l trimmed_def)
  have t: "takeWhile ((\<noteq>) (CHR ''='')) (print_line l) = name" "dropWhile ((\<noteq>) (CHR ''='')) (print_line l) = CHR ''='' # v @ [newline]"
  proof -
    have "\<forall>c \<in> set name. CHR ''='' \<noteq> c" using g(2) by auto
    then show "takeWhile ((\<noteq>) (CHR ''='')) (print_line l) = name" "dropWhile ((\<noteq>) (CHR ''='')) (print_line l) = CHR ''='' # v @ [newline]"
      by (simp_all add: print_line_def l takeWhile_append2 dropWhile_append2)
  qed
  have "print_line l \<noteq> []" by (simp add: print_line_def)
  then have "strtok_r (CHR ''='') (print_line l) = Some (name, v @ [newline])"
    using d t unfolding strtok_r_def by (cases "print_line l") simp_all
  moreover have "loc_util_trim_space name = name" "loc_util_trim_space (v @ [newline]) = v"
    using g(1,3) by (simp_all add: trim_trimmed trimmed_def)
  ultimately show ?thesis using assms(2) set_entries_exact [of table v n name st] g(4)
    by (simp add: loc_fill_conf_item_def strtok_rest_def good_table_def names_in_def l)
qed

lemma find_SomeD: "find P xs = Some x \<Longrightarrow> x \<in> set xs \<and> P x"
  by (induction xs) (auto split: if_splits)

lemma apply_absent: "\<not> names_in table l \<Longrightarrow> apply_line table l st = st"
proof -
  assume "\<not> names_in table l"
  then have "find (\<lambda>e. param_name e = fst l) table = None" by (auto simp: names_in_def find_None_iff) (metis imageI)
  then show ?thesis by (simp add: apply_line_def)
qed

lemma read_line:
  assumes "good_table table" "1 < n" "good_line n l" "0 < k" "k < 2 ^ 32"
  shows "read_loop table n (of_nat k) (print_line l @ r) st =
    read_loop table n (of_nat (k - (if names_in table l then 1 else 0))) r (apply_line table l st)"
proof -
  let ?j = "if names_in table l then 1 else 0 :: nat"
  have k: "(of_nat k :: u32) \<noteq> 0" using assms(4,5) by (metis less_numeral_extra(3) unat_0 unat_of_nat_small)
  have nl: "newline \<notin> set (fst l @ CHR ''='' # snd l)" using assms(3) by (auto simp: good_line_def trimmed_def newline_def)
  have "length (fst l @ CHR ''='' # snd l) < n - 1" using assms(3) by (auto simp: good_line_def)
  then have f: "fgets n (print_line l @ r) = Some (print_line l, r)"
    using fgets_take_line [OF nl, of "n - 1" r] assms(2) by (simp add: fgets_def print_line_def)
  have num: "of_nat k - of_nat ?j = (of_nat (k - ?j) :: u32)" using assms(4) by (simp add: of_nat_diff)
  show ?thesis using k f assms(2) fill_line [OF assms(3,1), of st] num
    by (simp add: read_loop.simps [of table n "of_nat k"] del: of_nat_diff)
qed

lemma apply_absents: "\<forall>l \<in> set ls. \<not> names_in table l \<Longrightarrow> fold (apply_line table) ls st = st"
  by (induction ls) (auto simp: apply_absent)

text \<open>A part of a file, as long as settings are left before each line of it.\<close>

lemma read_lines:
  assumes "good_table table" "1 < n"
  shows "\<forall>l \<in> set ls. good_line n l \<Longrightarrow> length (filter (names_in table) ls) \<le> k \<Longrightarrow>
    (ls = [] \<or> length (filter (names_in table) (butlast ls)) < k) \<Longrightarrow> k < 2 ^ 32 \<Longrightarrow>
    read_loop table n (of_nat k) (print_config ls @ r) st =
      read_loop table n (of_nat (k - length (filter (names_in table) ls))) r (fold (apply_line table) ls st)"
proof (induction ls arbitrary: k st)
  case (Cons l ls)
  let ?j = "if names_in table l then 1 else 0 :: nat"
  have "read_loop table n (of_nat k) (print_config (l # ls) @ r) st =
      read_loop table n (of_nat (k - ?j)) (print_config ls @ r) (apply_line table l st)"
    using read_line [OF assms, of l k "print_config ls @ r" st] Cons.prems by (simp add: print_config_def split: if_splits)
  moreover have "ls = [] \<or> length (filter (names_in table) (butlast ls)) < k - ?j" using Cons.prems(3) by (auto split: if_splits)
  ultimately show ?case using Cons.IH [of "k - ?j" "apply_line table l st"] Cons.prems by (auto split: if_splits)
qed (simp add: print_config_def)

lemma read_end: "read_loop table n k [] st = Some ([], st)"
  by (simp add: read_loop.simps [of table n k] fgets_def)

lemma read_loop_exact:
  assumes "good_table table" "1 < n"
  shows "\<forall>l \<in> set ls. good_line n l \<Longrightarrow> length (filter (names_in table) ls) \<le> k \<Longrightarrow> k < 2 ^ 32 \<Longrightarrow>
    \<exists>rest. read_loop table n (of_nat k) (print_config ls) st = Some (rest, fold (apply_line table) ls st)"
proof (induction ls arbitrary: k st)
  case Nil
  then show ?case by (simp add: print_config_def read_end)
next
  case (Cons l ls)
  show ?case
  proof (cases "k = 0")
    case True
    then have "\<forall>x \<in> set (l # ls). \<not> names_in table x" using Cons.prems(2) by (simp add: filter_empty_conv split: if_splits)
    then have "fold (apply_line table) (l # ls) st = st" by (rule apply_absents)
    then show ?thesis using True by (simp add: read_loop.simps [of table n 0])
  next
    case False
    let ?k = "k - (if names_in table l then 1 else 0)"
    obtain rest where "read_loop table n (of_nat ?k) (print_config ls) (apply_line table l st) = Some (rest, fold (apply_line table) ls (apply_line table l st))"
    proof -
      have "length (filter (names_in table) ls) \<le> ?k" "?k < 2 ^ 32" using Cons.prems by (auto split: if_splits)
      then show ?thesis using Cons.IH [of ?k "apply_line table l st"] Cons.prems(1) that by auto
    qed
    then show ?thesis using read_line [OF assms, of l k "print_config ls" st] False Cons.prems
      by (simp add: print_config_def del: of_nat_diff)
  qed
qed

lemma find_entry: "distinct (map param_name table) \<Longrightarrow> e \<in> set table \<Longrightarrow> find (\<lambda>e'. param_name e' = param_name e) table = Some e"
  by (induction table) auto

lemma apply_line_own:
  assumes "good_table table" "e \<in> set table"
  shows "cv_vars (apply_line table (param_name e, v) st) (the (param_ptr e)) = value_read (param_type e) v"
    "param_set e = Some f \<Longrightarrow> cv_set (apply_line table (param_name e, v) st) f"
  using assms find_entry [of table e] by (auto simp: good_table_def apply_line_def mark_set_def split: option.splits)

lemma apply_line_other:
  assumes "good_table table" "e \<in> set table" "fst l \<noteq> param_name e"
  shows "cv_vars (apply_line table l st) (the (param_ptr e)) = cv_vars st (the (param_ptr e))"
    "param_set e = Some f \<Longrightarrow> cv_set (apply_line table l st) f = cv_set st f"
proof -
  have ne: "the (param_ptr x) \<noteq> the (param_ptr e)" "param_set e = Some f \<Longrightarrow> param_set x \<noteq> Some f"
    if "find (\<lambda>e. param_name e = fst l) table = Some x" for x
  proof -
    have x: "x \<in> set table" "x \<noteq> e" using find_SomeD [OF that] assms(3) by auto
    have p: "param_ptr x \<noteq> None" "param_ptr e \<noteq> None" using assms(1,2) x(1) by (auto simp: good_table_def)
    have "inj_on param_ptr (set table)" using assms(1) by (simp add: good_table_def distinct_map)
    then have "param_ptr x \<noteq> param_ptr e" using x assms(2) by (auto simp: inj_on_def)
    then show "the (param_ptr x) \<noteq> the (param_ptr e)" using p by auto
    show "param_set e = Some f \<Longrightarrow> param_set x \<noteq> Some f" using assms(1,2) x unfolding good_table_def by (metis option.distinct(1))
  qed
  show "cv_vars (apply_line table l st) (the (param_ptr e)) = cv_vars st (the (param_ptr e))"
    using ne(1) by (auto simp: apply_line_def mark_set_def split: option.splits)
  show "param_set e = Some f \<Longrightarrow> cv_set (apply_line table l st) f = cv_set st f"
    using ne(2) by (auto simp: apply_line_def mark_set_def split: option.splits)
qed

lemma apply_lines_value:
  assumes "good_table table" "e \<in> set table"
  shows "distinct (map fst ls) \<Longrightarrow> cv_vars (fold (apply_line table) ls st) (the (param_ptr e)) =
      (case map_of ls (param_name e) of Some v \<Rightarrow> value_read (param_type e) v | None \<Rightarrow> cv_vars st (the (param_ptr e)))"
proof (induction ls arbitrary: st)
  case (Cons l ls)
  obtain name v where l: "l = (name, v)" by (cases l)
  have n: "name = param_name e \<Longrightarrow> map_of ls (param_name e) = None" using Cons.prems by (auto simp: l map_of_eq_None_iff)
  show ?case using Cons.IH [of "apply_line table l st"] Cons.prems apply_line_own(1) [OF assms, of v st] apply_line_other(1) [OF assms, of l st] n
    by (auto simp: l split: option.splits)
qed simp

lemma apply_lines_flag:
  assumes "good_table table" "e \<in> set table" "param_set e = Some f"
  shows "cv_set (fold (apply_line table) ls st) f \<longleftrightarrow> map_of ls (param_name e) \<noteq> None \<or> cv_set st f"
proof (induction ls arbitrary: st)
  case (Cons l ls)
  obtain name v where l: "l = (name, v)" by (cases l)
  show ?case using Cons.IH [of "apply_line table l st"] apply_line_own(2) [OF assms, of v st] apply_line_other(2) [OF assms(1,2) _ assms(3), of l st]
    by (auto simp: l)
qed simp

lemma clear_sets_simps:
  "cv_vars (clear_sets table st) = cv_vars st"
  "e \<in> set table \<Longrightarrow> param_set e = Some f \<Longrightarrow> \<not> cv_set (clear_sets table st) f"
proof -
  show "cv_vars (clear_sets table st) = cv_vars st"
    unfolding clear_sets_def by (induction table arbitrary: st) (auto split: option.splits)
  have keep: "\<not> cv_set s f \<Longrightarrow> \<not> cv_set (clear_sets xs s) f" for xs s
    unfolding clear_sets_def by (induction xs arbitrary: s) (auto split: option.splits)
  show "e \<in> set table \<Longrightarrow> param_set e = Some f \<Longrightarrow> \<not> cv_set (clear_sets table st) f"
  proof (induction table arbitrary: st)
    case (Cons x xs)
    then show ?case using keep [of _ xs] by (auto simp: clear_sets_def)
  qed simp
qed

lemma names_bound:
  assumes "distinct (map fst ls)"
  shows "length (filter (names_in table) ls) \<le> length table"
proof -
  have "distinct (map fst (filter (names_in table) ls))" using assms by (rule distinct_map_filter)
  then have "length (filter (names_in table) ls) = card (set (map fst (filter (names_in table) ls)))" by (metis distinct_card length_map)
  also have "\<dots> \<le> card (param_name ` set table)" by (intro card_mono) (auto simp: names_in_def)
  also have "\<dots> \<le> length table" by (metis card_image_le card_length finite_set le_trans)
  finally show ?thesis .
qed

text \<open>C24. Reading a file of well-formed lines with different names gives every variable of the table the
  value that its line has, whatever the order of the lines and however many other lines there are; a
  variable without a line keeps its value; the flags tell the two apart. The reader returns.\<close>

theorem config_exact:
  assumes "good_table table" "1 < n" "length table < 2 ^ 32" "\<forall>l \<in> set ls. good_line n l" "distinct (map fst ls)"
  shows "\<exists>rest st1. loc_read_conf_r_long (Some (print_config ls)) table n st = Some (True, rest, st1) \<and>
    (\<forall>e \<in> set table.
      cv_vars st1 (the (param_ptr e)) = (case map_of ls (param_name e) of Some v \<Rightarrow> value_read (param_type e) v | None \<Rightarrow> cv_vars st (the (param_ptr e))) \<and>
      (\<forall>f. param_set e = Some f \<longrightarrow> cv_set st1 f = (map_of ls (param_name e) \<noteq> None)))"
proof -
  obtain rest where "read_loop table n (of_nat (length table)) (print_config ls) (clear_sets table st) = Some (rest, fold (apply_line table) ls (clear_sets table st))"
    using read_loop_exact [OF assms(1,2,4) names_bound [OF assms(5)] assms(3)] by blast
  then have r: "loc_read_conf_r_long (Some (print_config ls)) table n st = Some (True, rest, fold (apply_line table) ls (clear_sets table st))"
    by (simp add: loc_read_conf_r_long_def)
  have "cv_vars (fold (apply_line table) ls (clear_sets table st)) (the (param_ptr e)) =
      (case map_of ls (param_name e) of Some v \<Rightarrow> value_read (param_type e) v | None \<Rightarrow> cv_vars st (the (param_ptr e)))" if "e \<in> set table" for e
    using apply_lines_value [OF assms(1) that assms(5), of "clear_sets table st"] by (simp add: clear_sets_simps(1) split: option.splits)
  moreover have "cv_set (fold (apply_line table) ls (clear_sets table st)) f = (map_of ls (param_name e) \<noteq> None)" if "e \<in> set table" "param_set e = Some f" for e f
    using apply_lines_flag [OF assms(1) that, of ls "clear_sets table st"] clear_sets_simps(2) [OF that, of st] by simp
  ultimately show ?thesis using r by auto
qed

definition demo_table :: "conf_entry list" where
  "demo_table = [text_entry ''NAME'' ''name'', number_entry ''COUNT'' ''count'']"

definition demo_lines :: "(string \<times> string) list" where
  "demo_lines = [(''COUNT'', ''0x1F''), (''OTHER'', ''7''), (''NAME'', ''a b'')]"

definition demo_state :: conf_state where
  "demo_state = \<lparr>cv_vars = (\<lambda>_. IntVal 0), cv_set = (\<lambda>_. False)\<rparr>"

theorem config_exact_witness:
  "\<exists>rest st1. loc_read_conf_r_long (Some (print_config demo_lines)) demo_table 172 demo_state = Some (True, rest, st1) \<and>
    cv_vars st1 ''name'' = TextVal ''a b'' \<and> cv_vars st1 ''count'' = IntVal 31"
proof -
  have good: "good_table demo_table" "\<forall>l \<in> set demo_lines. good_line 172 l" "distinct (map fst demo_lines)"
    by (simp_all add: good_table_def demo_table_def text_entry_def number_entry_def demo_lines_def good_line_def trimmed_def isspace_def newline_def)
  have v: "value_read (CHR ''n'') ''0x1F'' = IntVal 31" by (simp add: value_read_def parse_value_def is_x_def strtol_def isspace_def)
  obtain rest st1 where "loc_read_conf_r_long (Some (print_config demo_lines)) demo_table 172 demo_state = Some (True, rest, st1)"
    "\<forall>e \<in> set demo_table. cv_vars st1 (the (param_ptr e)) =
       (case map_of demo_lines (param_name e) of Some v \<Rightarrow> value_read (param_type e) v | None \<Rightarrow> cv_vars demo_state (the (param_ptr e)))"
    using config_exact [OF good(1) _ _ good(2,3), of demo_state] by (auto simp: demo_table_def)
  then show ?thesis using v by (simp add: demo_table_def text_entry_def number_entry_def demo_lines_def) (simp add: value_read_def)
qed

text \<open>The reader counts settings, not entries: a name that comes twice ends the reading too early.\<close>

lemma duplicate_ends_reading:
  "\<exists>rest st1. loc_read_conf_r_long (Some (print_config [(''COUNT'', ''1''), (''COUNT'', ''2''), (''NAME'', ''x'')])) demo_table 172 demo_state =
     Some (True, rest, st1) \<and> rest = print_config [(''NAME'', ''x'')] \<and> cv_vars st1 ''name'' = cv_vars demo_state ''name''"
proof -
  let ?ls = "[(''COUNT'', ''1''), (''COUNT'', ''2'')]"
  have good: "good_table demo_table" "\<forall>l \<in> set ?ls. good_line 172 l"
    by (simp_all add: good_table_def demo_table_def text_entry_def number_entry_def good_line_def trimmed_def isspace_def newline_def)
  have c: "clear_sets demo_table demo_state = demo_state" by (simp add: clear_sets_def demo_table_def text_entry_def number_entry_def)
  have p: "print_config [(''COUNT'', ''1''), (''COUNT'', ''2''), (''NAME'', ''x'')] = print_config ?ls @ print_config [(''NAME'', ''x'')]"
    by (simp add: print_config_def)
  have n: "names_in demo_table (''COUNT'', v)" for v by (simp add: names_in_def demo_table_def number_entry_def)
  have "read_loop demo_table 172 (of_nat 2) (print_config ?ls @ r) st = Some (r, fold (apply_line demo_table) ?ls st)" for r st
    using read_lines [OF good(1) _ good(2), of 2 r st] n by (simp add: read_loop.simps [of _ _ 0])
  moreover have "length demo_table = 2" by (simp add: demo_table_def)
  ultimately show ?thesis unfolding p loc_read_conf_r_long_def
    by (simp add: c) (simp add: apply_line_def mark_set_def demo_table_def text_entry_def number_entry_def)
qed

text \<open>The update of a table of one entry reads no line.\<close>

lemma update_single_entry:
  "n > 0 \<Longrightarrow> loc_update_conf_long (Some data) n [e] len st = (0, st)"
  by (simp add: loc_update_conf_long_def update_loop.simps split: option.splits prod.splits)

end
