(* ===== verification/Loc_Launcher.thy ===== *)
theory Loc_Launcher
  imports Loc_Config
begin

text \<open>
  The list of the processes that the launcher starts, read from a file by \<open>loc_read_process_conf\<close> of
  utils/loc_cfg.cpp. What the system says about the device is an argument. The variables of the
  reader are static: they keep their values from one process to the next, and the text of a list is
  cut after its first word when it is split.
\<close>

section \<open>Masks and tables\<close>

definition CONFIG_MASK_TARGET_ALL :: "8 word" where "CONFIG_MASK_TARGET_ALL = 0x01"
definition CONFIG_MASK_TARGET_FOUND :: "8 word" where "CONFIG_MASK_TARGET_FOUND = 0x02"
definition CONFIG_MASK_TARGET_CHECK :: "8 word" where "CONFIG_MASK_TARGET_CHECK = 0x03"
definition CONFIG_MASK_BASEBAND_ALL :: "8 word" where "CONFIG_MASK_BASEBAND_ALL = 0x04"
definition CONFIG_MASK_BASEBAND_FOUND :: "8 word" where "CONFIG_MASK_BASEBAND_FOUND = 0x08"
definition CONFIG_MASK_BASEBAND_CHECK :: "8 word" where "CONFIG_MASK_BASEBAND_CHECK = 0x0c"
definition CONFIG_MASK_AUTOPLATFORM_ALL :: "8 word" where "CONFIG_MASK_AUTOPLATFORM_ALL = 0x10"
definition CONFIG_MASK_AUTOPLATFORM_FOUND :: "8 word" where "CONFIG_MASK_AUTOPLATFORM_FOUND = 0x20"
definition CONFIG_MASK_AUTOPLATFORM_CHECK :: "8 word" where "CONFIG_MASK_AUTOPLATFORM_CHECK = 0x30"
definition CONFIG_MASK_SOCID_ALL :: "8 word" where "CONFIG_MASK_SOCID_ALL = 0x40"
definition CONFIG_MASK_SOCID_FOUND :: "8 word" where "CONFIG_MASK_SOCID_FOUND = 0x80"
definition CONFIG_MASK_SOCID_CHECK :: "8 word" where "CONFIG_MASK_SOCID_CHECK = 0xc0"

lemmas config_masks = CONFIG_MASK_TARGET_ALL_def CONFIG_MASK_TARGET_FOUND_def CONFIG_MASK_TARGET_CHECK_def
  CONFIG_MASK_BASEBAND_ALL_def CONFIG_MASK_BASEBAND_FOUND_def CONFIG_MASK_BASEBAND_CHECK_def CONFIG_MASK_AUTOPLATFORM_ALL_def
  CONFIG_MASK_AUTOPLATFORM_FOUND_def CONFIG_MASK_AUTOPLATFORM_CHECK_def CONFIG_MASK_SOCID_ALL_def CONFIG_MASK_SOCID_FOUND_def
  CONFIG_MASK_SOCID_CHECK_def

definition LOC_FEATURE_MASK_GTP_WIFI_BASIC :: u32 where "LOC_FEATURE_MASK_GTP_WIFI_BASIC = 0x01"
definition LOC_FEATURE_MASK_GTP_WIFI_PREMIUM :: u32 where "LOC_FEATURE_MASK_GTP_WIFI_PREMIUM = 0x02"
definition LOC_FEATURE_MASK_GTP_CELL_BASIC :: u32 where "LOC_FEATURE_MASK_GTP_CELL_BASIC = 0x04"
definition LOC_FEATURE_MASK_GTP_CELL_PREMIUM :: u32 where "LOC_FEATURE_MASK_GTP_CELL_PREMIUM = 0x08"
definition LOC_FEATURE_MASK_SAP_BASIC :: u32 where "LOC_FEATURE_MASK_SAP_BASIC = 0x40"
definition LOC_FEATURE_MASK_SAP_PREMIUM :: u32 where "LOC_FEATURE_MASK_SAP_PREMIUM = 0x80"
definition LOC_FEATURE_MASK_GTP_WAA_BASIC :: u32 where "LOC_FEATURE_MASK_GTP_WAA_BASIC = 0x100"
definition LOC_FEATURE_MASK_GTP_MODEM_CELL_BASIC :: u32 where "LOC_FEATURE_MASK_GTP_MODEM_CELL_BASIC = 0x400"
definition LOC_FEATURE_MASK_ODCPI :: u32 where "LOC_FEATURE_MASK_ODCPI = 0x1000"
definition LOC_FEATURE_MASK_FREE_WIFI_SCAN_INJECT :: u32 where "LOC_FEATURE_MASK_FREE_WIFI_SCAN_INJECT = 0x2000"
definition LOC_FEATURE_MASK_SUPL_WIFI :: u32 where "LOC_FEATURE_MASK_SUPL_WIFI = 0x4000"
definition LOC_FEATURE_MASK_WIFI_SUPPLICANT_INFO :: u32 where "LOC_FEATURE_MASK_WIFI_SUPPLICANT_INFO = 0x8000"

definition MAX_NUM_STRINGS :: nat where "MAX_NUM_STRINGS = 20"
definition LOC_PROCESS_MAX_NUM_GROUPS :: nat where "LOC_PROCESS_MAX_NUM_GROUPS = 20"
definition LOC_PROCESS_MAX_NUM_ARGS :: nat where "LOC_PROCESS_MAX_NUM_ARGS = 25"
definition LOC_PROCESS_MAX_ARG_STR_LENGTH :: nat where "LOC_PROCESS_MAX_ARG_STR_LENGTH = 32"

definition gps_conf_parameter_table :: "conf_entry list" where
  "gps_conf_parameter_table = [number_entry ''SGLTE_TARGET'' ''conf.sglte_target'']"

definition loc_feature_conf_table :: "conf_entry list" where
  "loc_feature_conf_table =
     [text_entry ''GTP_MODE'' ''conf.feature_gtp_mode'', text_entry ''GTP_WAA'' ''conf.feature_gtp_waa'', text_entry ''SAP'' ''conf.feature_sap'',
      text_entry ''ODCPI'' ''conf.feature_odcpi'', text_entry ''FREE_WIFI_SCAN_INJECT'' ''conf.feature_free_wifi_scan_inject'',
      text_entry ''SUPL_WIFI'' ''conf.feature_supl_wifi'', text_entry ''WIFI_SUPPLICANT_INFO'' ''conf.feature_wifi_supplicant_info'']"

definition loc_process_conf_parameter_table :: "conf_entry list" where
  "loc_process_conf_parameter_table =
     [text_entry ''PROCESS_NAME'' ''conf.proc_name'', text_entry ''PROCESS_ARGUMENT'' ''conf.proc_argument'',
      text_entry ''PROCESS_STATE'' ''conf.proc_status'', text_entry ''PROCESS_GROUPS'' ''conf.group_list'',
      number_entry ''PREMIUM_FEATURE'' ''conf.premium_feature'', number_entry ''IZAT_FEATURE_MASK'' ''conf.loc_feature_mask'',
      text_entry ''PLATFORMS'' ''conf.platform_list'', text_entry ''SOC_IDS'' ''conf.soc_id_list'', text_entry ''BASEBAND'' ''conf.baseband'',
      text_entry ''LOW_RAM_TARGETS'' ''conf.low_ram_targets'', text_entry ''HARDWARE_TYPE'' ''conf.auto_platform'',
      number_entry ''VENDOR_ENHANCED_PROCESS'' ''conf.vendor_enhanced_process'']"

definition conf_text :: "string \<Rightarrow> conf_state \<Rightarrow> string" where
  "conf_text var st = text_of (cv_vars st var)"

definition conf_int :: "string \<Rightarrow> conf_state \<Rightarrow> u32" where
  "conf_int var st = int_of (cv_vars st var)"

definition conf_set :: "string \<Rightarrow> conf_value \<Rightarrow> conf_state \<Rightarrow> conf_state" where
  "conf_set var v st = st\<lparr>cv_vars := (cv_vars st)(var := v)\<rparr>"

section \<open>The service mask\<close>

definition gtp_mode_mask :: "string \<Rightarrow> u32" where
  "gtp_mode_mask s =
     (if s = ''DISABLED'' then 0 else if s = ''LEGACY_WWAN'' then LOC_FEATURE_MASK_GTP_MODEM_CELL_BASIC
      else if s = ''SDK'' \<or> s = ''SDK_WIFI'' then LOC_FEATURE_MASK_GTP_WIFI_BASIC else 0)"

definition gtp_waa_mask :: "string \<Rightarrow> u32" where
  "gtp_waa_mask s = (if s = ''BASIC'' then LOC_FEATURE_MASK_GTP_WAA_BASIC else 0)"

text \<open>The first argument says whether the code is built for glib.\<close>

definition sap_mask :: "bool \<Rightarrow> string \<Rightarrow> u32" where
  "sap_mask glib s =
     (if s = ''PREMIUM'' \<or> s = ''PREMIUM_ENV_AIDING'' then LOC_FEATURE_MASK_SAP_PREMIUM
      else if s = ''BASIC'' then LOC_FEATURE_MASK_SAP_BASIC else if s = ''MODEM_DEFAULT'' then LOC_FEATURE_MASK_SAP_BASIC
      else if s = ''DISABLED'' then (if glib then LOC_FEATURE_MASK_SAP_BASIC else 0) else LOC_FEATURE_MASK_SAP_BASIC)"

definition basic_mask :: "u32 \<Rightarrow> string \<Rightarrow> u32" where
  "basic_mask m s = (if s = ''BASIC'' then m else if s = ''DISABLED'' then 0 else if s = ''PREMIUM'' then m else 0)"

definition service_mask :: "bool \<Rightarrow> conf_state \<Rightarrow> u32" where
  "service_mask glib st =
     gtp_mode_mask (conf_text ''conf.feature_gtp_mode'' st) OR gtp_waa_mask (conf_text ''conf.feature_gtp_waa'' st) OR
     sap_mask glib (conf_text ''conf.feature_sap'' st) OR basic_mask LOC_FEATURE_MASK_ODCPI (conf_text ''conf.feature_odcpi'' st) OR
     basic_mask LOC_FEATURE_MASK_FREE_WIFI_SCAN_INJECT (conf_text ''conf.feature_free_wifi_scan_inject'' st) OR
     basic_mask LOC_FEATURE_MASK_SUPL_WIFI (conf_text ''conf.feature_supl_wifi'' st) OR
     basic_mask LOC_FEATURE_MASK_WIFI_SUPPLICANT_INFO (conf_text ''conf.feature_wifi_supplicant_info'' st)"

section \<open>One process\<close>

datatype proc_status = ENABLED | RUNNING | DISABLED | DISABLED_FROM_CONF | DISABLED_VIA_VENDOR_ENHANCED_CHECK

record process_info =
  pi_status :: proc_status
  pi_name :: string
  pi_groups :: "u32 list"
  pi_args :: "string list"

record device =
  platform_name :: string
  baseband_name :: string
  autoplatform_name :: string
  socid_value :: string
  low_ram_target :: bool
  xtra_enabled :: bool
  vendor_enhanced :: bool
  group_ids :: "string \<rightharpoonup> u32"

definition new_process :: process_info where
  "new_process = \<lparr>pi_status = DISABLED, pi_name = [], pi_groups = [], pi_args = []\<rparr>"

text \<open>The words of a list; the variable keeps the first one.\<close>

definition split_var :: "string \<Rightarrow> conf_state \<Rightarrow> string list \<times> conf_state" where
  "split_var var st =
     (let ws = loc_util_split_string (conf_text var st) MAX_NUM_STRINGS (CHR '' '') in (ws, conf_set var (TextVal (hd ws)) st))"

definition list_mask :: "8 word \<Rightarrow> 8 word \<Rightarrow> (string \<Rightarrow> bool) \<Rightarrow> string \<Rightarrow> string list \<Rightarrow> 8 word" where
  "list_mask all_bit found_bit matches name ws =
     (if hd ws = ''all''
      then if length ws = 1 \<or> length ws = 2 \<and> ws ! 1 = ''exclude'' then all_bit
           else if length ws > 2 \<and> ws ! 1 = ''exclude'' then (if name \<in> set (drop 2 ws) then 0 else found_bit) else 0
      else if \<exists>w \<in> set ws. matches w then found_bit else 0)"

definition auto_mask :: "string \<Rightarrow> string list \<Rightarrow> 8 word" where
  "auto_mask name ws = (if hd ws = ''all'' then CONFIG_MASK_AUTOPLATFORM_ALL else if name \<in> set ws then CONFIG_MASK_AUTOPLATFORM_FOUND else 0)"

definition arg :: "string \<Rightarrow> string" where
  "arg s = strlcpy s LOC_PROCESS_MAX_ARG_STR_LENGTH []"

definition base_name :: "string \<Rightarrow> string" where
  "base_name name = (if name \<noteq> [] \<and> hd name = CHR ''/'' then rev (takeWhile ((\<noteq>) (CHR ''/'')) (rev name)) else name)"

text \<open>The arguments for the features of a premium process.\<close>

definition premium_args :: "u32 \<Rightarrow> u32 \<Rightarrow> string list" where
  "premium_args feature_mask loc_service_mask =
     (if feature_mask AND (LOC_FEATURE_MASK_GTP_WIFI_BASIC OR LOC_FEATURE_MASK_GTP_WIFI_PREMIUM) \<noteq> 0
      then [''--gtp-wifi'', if loc_service_mask AND LOC_FEATURE_MASK_GTP_WIFI_BASIC \<noteq> 0 then ''BASIC''
              else if loc_service_mask AND LOC_FEATURE_MASK_GTP_WIFI_PREMIUM \<noteq> 0 then ''PREMIUM'' else ''DISABLED''] else []) @
     (if feature_mask AND (LOC_FEATURE_MASK_GTP_CELL_BASIC OR LOC_FEATURE_MASK_GTP_CELL_PREMIUM) \<noteq> 0
      then [''--gtp-modem-cell'', if loc_service_mask AND LOC_FEATURE_MASK_GTP_MODEM_CELL_BASIC \<noteq> 0 then ''BASIC'' else ''DISABLED''] else []) @
     (if feature_mask AND (LOC_FEATURE_MASK_SAP_BASIC OR LOC_FEATURE_MASK_SAP_PREMIUM) \<noteq> 0
      then [''--sap'', if loc_service_mask AND LOC_FEATURE_MASK_SAP_BASIC \<noteq> 0 then ''BASIC''
              else if loc_service_mask AND LOC_FEATURE_MASK_SAP_PREMIUM \<noteq> 0 then ''PREMIUM'' else ''DISABLED''] else []) @
     (if feature_mask AND LOC_FEATURE_MASK_GTP_WAA_BASIC \<noteq> 0
      then [''--gtp-waa'', if loc_service_mask AND LOC_FEATURE_MASK_GTP_WAA_BASIC \<noteq> 0 then ''BASIC'' else ''DISABLED''] else [])"

definition conf_args :: "nat \<Rightarrow> string \<Rightarrow> string list" where
  "conf_args i argument =
     (if argument = [] then []
      else map arg (loc_util_split_string (strlcpy argument LOC_MAX_PARAM_STRING []) (LOC_PROCESS_MAX_NUM_ARGS - i) (CHR '' '')))"

definition not_specified :: "conf_state \<Rightarrow> bool" where
  "not_specified st \<longleftrightarrow>
     (\<exists>var \<in> {''conf.proc_name'', ''conf.group_list'', ''conf.platform_list'', ''conf.baseband'', ''conf.proc_status'',
        ''conf.auto_platform'', ''conf.soc_id_list''}. conf_text var st = [])"

text \<open>The lists of one process are split in this order; the variables keep their first words. The
  result: the groups, the mask of the checks, the words for low memory, the variables.\<close>

definition split_lists :: "device \<Rightarrow> conf_state \<Rightarrow> string list \<times> 8 word \<times> string list \<times> conf_state" where
  "split_lists dev st =
     (let (groups, st1) = split_var ''conf.group_list'' st;
          (platforms, st2) = split_var ''conf.platform_list'' st1;
          (socids, st3) = split_var ''conf.soc_id_list'' st2;
          (basebands, st4) = split_var ''conf.baseband'' st3;
          (autos, st5) = split_var ''conf.auto_platform'' st4;
          (low_rams, st6) = split_var ''conf.low_ram_targets'' st5;
          sglte = conf_int ''conf.sglte_target'' st6;
          config_mask = list_mask CONFIG_MASK_TARGET_ALL CONFIG_MASK_TARGET_FOUND ((=) (platform_name dev)) (platform_name dev) platforms OR
            list_mask CONFIG_MASK_SOCID_ALL CONFIG_MASK_SOCID_FOUND ((=) (socid_value dev)) (socid_value dev) socids OR
            list_mask CONFIG_MASK_BASEBAND_ALL CONFIG_MASK_BASEBAND_FOUND (\<lambda>w. w = baseband_name dev \<or> w = ''sglte'' \<and> sglte \<noteq> 0) (baseband_name dev) basebands OR
            auto_mask (autoplatform_name dev) autos
      in (groups, config_mask, low_rams, st6))"

definition checks_pass :: "8 word \<Rightarrow> bool" where
  "checks_pass config_mask \<longleftrightarrow>
     config_mask AND CONFIG_MASK_TARGET_CHECK \<noteq> 0 \<and> config_mask AND CONFIG_MASK_BASEBAND_CHECK \<noteq> 0 \<and>
     config_mask AND CONFIG_MASK_AUTOPLATFORM_CHECK \<noteq> 0 \<and> config_mask AND CONFIG_MASK_SOCID_CHECK \<noteq> 0"

text \<open>The status and the arguments of a process that passed the checks.\<close>

definition start_process :: "u32 \<Rightarrow> conf_state \<Rightarrow> process_info \<Rightarrow> process_info" where
  "start_process loc_service_mask st p =
     (let feature_mask = conf_int ''conf.loc_feature_mask'' st;
          premium = (conf_int ''conf.premium_feature'' st \<noteq> 0);
          has_service = (feature_mask AND loc_service_mask \<noteq> 0);
          args = map arg (base_name (pi_name p) # (if premium \<and> has_service then premium_args feature_mask loc_service_mask else []))
      in p\<lparr>pi_status := (if \<not> premium \<or> has_service then ENABLED else pi_status p),
           pi_args := args @ conf_args (length args) (conf_text ''conf.proc_argument'' st)\<rparr>)"

text \<open>The process that the variables describe, after they were read.\<close>

definition make_process :: "device \<Rightarrow> u32 \<Rightarrow> conf_state \<Rightarrow> process_info \<times> conf_state" where
  "make_process dev loc_service_mask st =
     (let p = new_process; name = conf_text ''conf.proc_name'' st; status = conf_text ''conf.proc_status'' st in
      if not_specified st then (p, st)
      else if name = ''xtra-daemon'' \<and> \<not> xtra_enabled dev then (p\<lparr>pi_status := DISABLED_FROM_CONF\<rparr>, st)
      else if \<not> vendor_enhanced dev \<and> conf_int ''conf.vendor_enhanced_process'' st \<noteq> 0
      then (p\<lparr>pi_status := DISABLED_VIA_VENDOR_ENHANCED_CHECK\<rparr>, st)
      else if status = ''DISABLED'' then (p\<lparr>pi_status := DISABLED_FROM_CONF\<rparr>, st)
      else if length name + 1 > LOC_MAX_PARAM_STRING then (p, st)
      else
        (case split_lists dev st of
           (groups, config_mask, low_rams, st1) \<Rightarrow>
             (let p1 = p\<lparr>pi_name := strlcpy name LOC_MAX_PARAM_STRING [], pi_groups := List.map_filter (group_ids dev) groups\<rparr>
              in if hd low_rams = ''DISABLED'' \<and> low_ram_target dev then (p1\<lparr>pi_status := DISABLED\<rparr>, st1)
                 else if checks_pass config_mask then (start_process loc_service_mask st1 p1, st1)
                 else (p1, st1))))"

section \<open>The whole file\<close>

lemma read_loop_consumes:
  "read_loop table n k file st = Some (rest, st1) \<Longrightarrow> length rest \<le> length file \<and> (st1 \<noteq> st \<longrightarrow> length rest < length file)"
proof (induction table n k "file" st rule: read_loop.induct)
  case (1 table n k "file" st)
  show ?case
  proof (cases "k = 0 \<or> fgets n file = None")
    case True
    then show ?thesis using "1.prems" by (cases "k = 0") (auto simp: read_loop.simps [of table n k "file"] read_loop.simps [of table n 0 "file"])
  next
    case False
    then obtain l r where f: "fgets n file = Some (l, r)" by auto
    obtain j s where s: "loc_fill_conf_item l table n st = (j, s)" by fastforce
    have n: "1 < n" and run: "read_loop table n (k - of_nat j) r s = Some (rest, st1)"
      using "1.prems" False f s by (auto simp: read_loop.simps [of table n k "file"] split: if_splits)
    then have "length rest \<le> length r" using "1.IH" [of "(l, r)" l r j s] False f s by (auto simp: not_le)
    then show ?thesis using fgets_less [OF f n] by simp
  qed
qed

definition name_entry :: conf_entry where
  "name_entry = text_entry ''PROCESS_NAME'' ''conf.proc_name''"

lemma first_entry: "take 1 loc_process_conf_parameter_table = [name_entry]"
  by (simp add: loc_process_conf_parameter_table_def name_entry_def)

lemma clear_no_flags: "\<forall>e \<in> set table. param_set e = None \<Longrightarrow> clear_sets table st = st"
  unfolding clear_sets_def by (induction table) auto

lemma name_table: "good_table [name_entry]" "clear_sets [name_entry] st = st"
  by (simp_all add: good_table_def name_entry_def text_entry_def clear_no_flags)

text \<open>The processes are counted by their names; the counter has eight bits.\<close>

function count_processes :: "string \<Rightarrow> conf_state \<Rightarrow> 8 word \<Rightarrow> (8 word \<times> conf_state) option" where
  "count_processes file st n =
     (case loc_read_conf_r (Some file) (take 1 loc_process_conf_parameter_table) (conf_set ''conf.proc_name'' (TextVal []) st) of
        None \<Rightarrow> None
      | Some (ok, rest, st1) \<Rightarrow>
         (if conf_text ''conf.proc_name'' st1 = [] then Some (n, st1) else count_processes rest st1 (n + 1)))"
  by pat_completeness auto

termination
proof (relation "measure (\<lambda>(file, st, n). length file)", goal_cases)
  case (2 "file" st n r ok p rest st1)
  let ?st = "conf_set ''conf.proc_name'' (TextVal []) st"
  have "read_loop [name_entry] 172 1 file ?st = Some (rest, st1)"
    using 2 unfolding first_entry by (auto simp: loc_read_conf_r_def loc_read_conf_r_long_def LOC_MAX_PARAM_STRING_def name_table(2))
  moreover have "st1 \<noteq> ?st" using 2 by (auto simp: conf_text_def conf_set_def text_of_def)
  ultimately show ?case using read_loop_consumes by fastforce
qed simp

declare count_processes.simps [simp del]

fun read_processes :: "device \<Rightarrow> u32 \<Rightarrow> nat \<Rightarrow> string \<Rightarrow> conf_state \<Rightarrow> (process_info list \<times> conf_state) option" where
  "read_processes dev m 0 file st = Some ([], st)"
| "read_processes dev m (Suc k) file st =
     (case loc_read_conf_r (Some file) loc_process_conf_parameter_table st of
        None \<Rightarrow> None
      | Some (ok, rest, st1) \<Rightarrow>
         (case make_process dev m st1 of (p, st2) \<Rightarrow> map_option (\<lambda>(ps, s). (p # ps, s)) (read_processes dev m k rest st2)))"

text \<open>The result, the processes and the variables. The files are the contents of gps.conf and of the
  file that is named; the first flag says that no pointer for the results is null.\<close>

definition loc_read_process_conf ::
  "bool \<Rightarrow> bool \<Rightarrow> device \<Rightarrow> string option \<Rightarrow> string option \<Rightarrow> conf_state \<Rightarrow> (int \<times> process_info list \<times> conf_state) option" where
  "loc_read_process_conf pointers glib dev gps_conf conf_file st =
     (if \<not> pointers then Some (-1, [], st)
      else Option.bind (loc_read_conf gps_conf (Some gps_conf_parameter_table) st) (\<lambda>st1.
           Option.bind (loc_read_conf conf_file (Some loc_feature_conf_table) st1) (\<lambda>st2.
             case conf_file of
               None \<Rightarrow> Some (-1, [], st2)
             | Some file \<Rightarrow>
                Option.bind (count_processes file st2 0) (\<lambda>(n, st3).
                  map_option (Pair 0) (read_processes dev (service_mask glib st2) (unat n) file st3)))))"

section \<open>Which processes are enabled\<close>

text \<open>The words of a list of names, and what they select: all, all but some, or some.\<close>

definition words_of :: "string \<Rightarrow> string list" where
  "words_of s = loc_util_split_string s MAX_NUM_STRINGS (CHR '' '')"

definition selects :: "string list \<Rightarrow> string \<Rightarrow> bool" where
  "selects ws name \<longleftrightarrow>
     (if hd ws = ''all'' then length ws = 1 \<or> ws ! 1 = ''exclude'' \<and> name \<notin> set (drop 2 ws) else name \<in> set ws)"

lemma words_of_simps [simp]: "words_of s \<noteq> []" "length (words_of s) \<le> 20"
  using split_loop_bound [of 0 20] by (simp_all add: words_of_def loc_util_split_string_def MAX_NUM_STRINGS_def)

lemma split_var_words: "split_var var st = (words_of (conf_text var st), conf_set var (TextVal (hd (words_of (conf_text var st)))) st)"
  by (simp add: split_var_def words_of_def Let_def)

lemma conf_set_get [simp]:
  "conf_text var (conf_set var' v st) = (if var = var' then text_of v else conf_text var st)"
  "conf_int var (conf_set var' v st) = (if var = var' then int_of v else conf_int var st)"
  by (simp_all add: conf_text_def conf_int_def conf_set_def)

lemma one_word: "hd ws = x \<Longrightarrow> ws \<noteq> [] \<Longrightarrow> length ws = Suc 0 \<longleftrightarrow> ws = [x]"
  by (cases ws) auto

lemma list_mask_selects:
  assumes "ws \<noteq> []"
  shows "list_mask a f ((=) name) name ws = (if selects ws name then (if hd ws = ''all'' \<and> length ws \<le> 2 then a else f) else 0)"
proof -
  have "length ws \<noteq> 0" using assms by simp
  then consider "length ws = 1" | "length ws = 2" | "length ws > 2" by linarith
  then show ?thesis by cases (auto simp: list_mask_def selects_def)
qed

lemma list_mask_sglte:
  assumes "ws \<noteq> []"
  shows "list_mask a f (\<lambda>w. w = name \<or> w = ''sglte'' \<and> b) name ws =
    (if selects ws name \<or> b \<and> hd ws \<noteq> ''all'' \<and> ''sglte'' \<in> set ws then (if hd ws = ''all'' \<and> length ws \<le> 2 then a else f) else 0)"
proof -
  have "length ws \<noteq> 0" using assms by simp
  then consider "length ws = 1" | "length ws = 2" | "length ws > 2" by linarith
  then show ?thesis by cases (auto simp: list_mask_def selects_def)
qed

text \<open>The four parts of the mask do not touch.\<close>

lemma mask_parts:
  assumes "t \<in> {0, CONFIG_MASK_TARGET_ALL, CONFIG_MASK_TARGET_FOUND}" "s \<in> {0, CONFIG_MASK_SOCID_ALL, CONFIG_MASK_SOCID_FOUND}"
    "b \<in> {0, CONFIG_MASK_BASEBAND_ALL, CONFIG_MASK_BASEBAND_FOUND}" "a \<in> {0, CONFIG_MASK_AUTOPLATFORM_ALL, CONFIG_MASK_AUTOPLATFORM_FOUND}"
  shows "(t OR s OR b OR a) AND CONFIG_MASK_TARGET_CHECK = t" "(t OR s OR b OR a) AND CONFIG_MASK_SOCID_CHECK = s"
    "(t OR s OR b OR a) AND CONFIG_MASK_BASEBAND_CHECK = b" "(t OR s OR b OR a) AND CONFIG_MASK_AUTOPLATFORM_CHECK = a"
  using assms by (auto simp: config_masks)

lemma masks_nonzero:
  "CONFIG_MASK_TARGET_ALL \<noteq> 0" "CONFIG_MASK_TARGET_FOUND \<noteq> 0" "CONFIG_MASK_SOCID_ALL \<noteq> 0" "CONFIG_MASK_SOCID_FOUND \<noteq> 0"
  "CONFIG_MASK_BASEBAND_ALL \<noteq> 0" "CONFIG_MASK_BASEBAND_FOUND \<noteq> 0" "CONFIG_MASK_AUTOPLATFORM_ALL \<noteq> 0" "CONFIG_MASK_AUTOPLATFORM_FOUND \<noteq> 0"
  by (simp_all add: config_masks)

text \<open>A device is meant by a block when each of its names is selected.\<close>

definition device_meant :: "device \<Rightarrow> conf_state \<Rightarrow> bool" where
  "device_meant dev st \<longleftrightarrow>
     selects (words_of (conf_text ''conf.platform_list'' st)) (platform_name dev) \<and>
     selects (words_of (conf_text ''conf.soc_id_list'' st)) (socid_value dev) \<and>
     (let ws = words_of (conf_text ''conf.baseband'' st)
      in selects ws (baseband_name dev) \<or> conf_int ''conf.sglte_target'' st \<noteq> 0 \<and> hd ws \<noteq> ''all'' \<and> ''sglte'' \<in> set ws) \<and>
     (let ws = words_of (conf_text ''conf.auto_platform'' st) in hd ws = ''all'' \<or> autoplatform_name dev \<in> set ws)"

lemma split_lists_checks: "checks_pass (fst (snd (split_lists dev st))) \<longleftrightarrow> device_meant dev st"
proof -
  let ?t = "list_mask CONFIG_MASK_TARGET_ALL CONFIG_MASK_TARGET_FOUND ((=) (platform_name dev)) (platform_name dev) (words_of (conf_text ''conf.platform_list'' st))"
  let ?s = "list_mask CONFIG_MASK_SOCID_ALL CONFIG_MASK_SOCID_FOUND ((=) (socid_value dev)) (socid_value dev) (words_of (conf_text ''conf.soc_id_list'' st))"
  let ?b = "list_mask CONFIG_MASK_BASEBAND_ALL CONFIG_MASK_BASEBAND_FOUND (\<lambda>w. w = baseband_name dev \<or> w = ''sglte'' \<and> conf_int ''conf.sglte_target'' st \<noteq> 0)
    (baseband_name dev) (words_of (conf_text ''conf.baseband'' st))"
  let ?a = "auto_mask (autoplatform_name dev) (words_of (conf_text ''conf.auto_platform'' st))"
  have m: "fst (snd (split_lists dev st)) = ?t OR ?s OR ?b OR ?a" by (simp add: split_lists_def split_var_words)
  have t: "?t \<in> {0, CONFIG_MASK_TARGET_ALL, CONFIG_MASK_TARGET_FOUND}" by (simp add: list_mask_selects)
  have s: "?s \<in> {0, CONFIG_MASK_SOCID_ALL, CONFIG_MASK_SOCID_FOUND}" by (simp add: list_mask_selects)
  have b: "?b \<in> {0, CONFIG_MASK_BASEBAND_ALL, CONFIG_MASK_BASEBAND_FOUND}" by (simp add: list_mask_sglte)
  have a: "?a \<in> {0, CONFIG_MASK_AUTOPLATFORM_ALL, CONFIG_MASK_AUTOPLATFORM_FOUND}" by (simp add: auto_mask_def)
  have "?t \<noteq> 0 \<longleftrightarrow> selects (words_of (conf_text ''conf.platform_list'' st)) (platform_name dev)"
    by (simp add: list_mask_selects masks_nonzero)
  moreover have "?s \<noteq> 0 \<longleftrightarrow> selects (words_of (conf_text ''conf.soc_id_list'' st)) (socid_value dev)"
    by (simp add: list_mask_selects masks_nonzero)
  moreover have "?b \<noteq> 0 \<longleftrightarrow> (let ws = words_of (conf_text ''conf.baseband'' st)
      in selects ws (baseband_name dev) \<or> conf_int ''conf.sglte_target'' st \<noteq> 0 \<and> hd ws \<noteq> ''all'' \<and> ''sglte'' \<in> set ws)"
    by (simp add: list_mask_sglte masks_nonzero Let_def)
  moreover have "?a \<noteq> 0 \<longleftrightarrow> (let ws = words_of (conf_text ''conf.auto_platform'' st) in hd ws = ''all'' \<or> autoplatform_name dev \<in> set ws)"
    by (simp add: auto_mask_def masks_nonzero Let_def)
  ultimately show ?thesis unfolding checks_pass_def device_meant_def m mask_parts [OF t s b a] by blast
qed

lemma split_lists_words:
  "fst (split_lists dev st) = words_of (conf_text ''conf.group_list'' st)"
  "fst (snd (snd (split_lists dev st))) = words_of (conf_text ''conf.low_ram_targets'' st)"
  by (simp_all add: split_lists_def split_var_words)

lemma split_lists_keeps:
  "var \<notin> {''conf.group_list'', ''conf.platform_list'', ''conf.soc_id_list'', ''conf.baseband'', ''conf.auto_platform'', ''conf.low_ram_targets''} \<Longrightarrow>
    cv_vars (snd (snd (snd (split_lists dev st)))) var = cv_vars st var"
  by (simp add: split_lists_def split_var_words) (simp add: conf_set_def)

lemma start_process_cong:
  assumes "\<forall>var \<in> {''conf.loc_feature_mask'', ''conf.premium_feature'', ''conf.proc_argument''}. cv_vars st1 var = cv_vars st var"
  shows "start_process m st1 p = start_process m st p"
  using assms by (simp add: start_process_def conf_int_def conf_text_def)

text \<open>What one block makes, in terms of its values before any of them is split.\<close>

definition named_process :: "device \<Rightarrow> conf_state \<Rightarrow> process_info" where
  "named_process dev st = new_process\<lparr>pi_name := take 171 (conf_text ''conf.proc_name'' st),
     pi_groups := List.map_filter (group_ids dev) (words_of (conf_text ''conf.group_list'' st))\<rparr>"

definition disabled_by :: "device \<Rightarrow> conf_state \<Rightarrow> proc_status option" where
  "disabled_by dev st =
     (if not_specified st then Some DISABLED
      else if conf_text ''conf.proc_name'' st = ''xtra-daemon'' \<and> \<not> xtra_enabled dev then Some DISABLED_FROM_CONF
      else if \<not> vendor_enhanced dev \<and> conf_int ''conf.vendor_enhanced_process'' st \<noteq> 0 then Some DISABLED_VIA_VENDOR_ENHANCED_CHECK
      else if conf_text ''conf.proc_status'' st = ''DISABLED'' then Some DISABLED_FROM_CONF
      else if length (conf_text ''conf.proc_name'' st) > 171 then Some DISABLED else None)"

lemma make_process_view:
  "fst (make_process dev m st) =
     (case disabled_by dev st of
        Some status \<Rightarrow> new_process\<lparr>pi_status := status\<rparr>
      | None \<Rightarrow>
         (if device_meant dev st \<and> \<not> (low_ram_target dev \<and> hd (words_of (conf_text ''conf.low_ram_targets'' st)) = ''DISABLED'')
          then start_process m st (named_process dev st) else named_process dev st))"
proof -
  obtain groups config_mask low_rams st1 where s: "split_lists dev st = (groups, config_mask, low_rams, st1)" by (metis prod_cases4)
  have e: "groups = words_of (conf_text ''conf.group_list'' st)" "low_rams = words_of (conf_text ''conf.low_ram_targets'' st)"
    "checks_pass config_mask \<longleftrightarrow> device_meant dev st"
    using split_lists_words [of dev st] split_lists_checks [of dev st] by (simp_all add: s)
  have v: "start_process m st1 p = start_process m st p" for p
    by (rule start_process_cong) (use split_lists_keeps [of _ dev st] in \<open>simp add: s\<close>)
  have d: "new_process\<lparr>pi_status := DISABLED\<rparr> = new_process" by (simp add: new_process_def)
  have p: "new_process\<lparr>pi_name := strlcpy n LOC_MAX_PARAM_STRING [], pi_groups := g\<rparr> = new_process\<lparr>pi_name := take 171 n, pi_groups := g\<rparr>" for n g
    by (simp add: strlcpy_def LOC_MAX_PARAM_STRING_def)
  have q: "named_process dev st\<lparr>pi_status := DISABLED\<rparr> = named_process dev st" by (simp add: named_process_def new_process_def)
  have m: "length n + 1 > LOC_MAX_PARAM_STRING \<longleftrightarrow> length n > 171" for n :: string by (auto simp: LOC_MAX_PARAM_STRING_def)
  show ?thesis unfolding make_process_def Let_def s prod.case p e v m disabled_by_def named_process_def [symmetric] q
    by (auto simp: d)
qed

lemma conf_args_bounds:
  "i < 25 \<Longrightarrow> i + length (conf_args i s) \<le> 25" "list_all (\<lambda>a. length a < 32) (map arg xs)"
  "list_all (\<lambda>a. length a < 32) (conf_args i s)"
proof -
  show "i < 25 \<Longrightarrow> i + length (conf_args i s) \<le> 25"
    using split_loop_bound [of 0 "25 - i" "CHR '' ''" "[]"] by (auto simp: conf_args_def loc_util_split_string_def LOC_PROCESS_MAX_NUM_ARGS_def)
      (metis add_diff_inverse_nat le_add_diff_inverse less_imp_le nat_add_left_cancel_le not_less zero_less_diff)
  have a: "length (arg s) < 32" for s by (simp add: arg_def strlcpy_def LOC_PROCESS_MAX_ARG_STR_LENGTH_def)
  show m: "list_all (\<lambda>a. length a < 32) (map arg xs)" for xs using a by (induction xs) simp_all
  show "list_all (\<lambda>a. length a < 32) (conf_args i s)" unfolding conf_args_def using m by simp
qed

lemma premium_args_length: "length (if c then premium_args f m else []) \<le> 8"
  by (simp add: premium_args_def)

lemma start_process_bounds:
  "length (pi_args (start_process m st p)) \<le> LOC_PROCESS_MAX_NUM_ARGS"
  "list_all (\<lambda>a. length a < LOC_PROCESS_MAX_ARG_STR_LENGTH) (pi_args (start_process m st p))"
proof -
  obtain xs where e: "pi_args (start_process m st p) = map arg (base_name (pi_name p) # xs) @ conf_args (length (map arg (base_name (pi_name p) # xs))) (conf_text ''conf.proc_argument'' st)"
    "length xs \<le> 8"
    using premium_args_length by (auto simp: start_process_def Let_def)
  show "length (pi_args (start_process m st p)) \<le> LOC_PROCESS_MAX_NUM_ARGS"
    using conf_args_bounds(1) [of "Suc (length xs)" "conf_text ''conf.proc_argument'' st"] e by (simp add: LOC_PROCESS_MAX_NUM_ARGS_def)
  show "list_all (\<lambda>a. length a < LOC_PROCESS_MAX_ARG_STR_LENGTH) (pi_args (start_process m st p))"
    unfolding e(1) LOC_PROCESS_MAX_ARG_STR_LENGTH_def list_all_append using conf_args_bounds(2,3) by blast
qed

lemma start_process_simps:
  "pi_status (start_process m st p) = (if conf_int ''conf.premium_feature'' st = 0 \<or> conf_int ''conf.loc_feature_mask'' st AND m \<noteq> 0 then ENABLED else pi_status p)"
  "pi_groups (start_process m st p) = pi_groups p"
  by (simp_all add: start_process_def Let_def)

lemma named_process_simps:
  "pi_status (named_process dev st) = DISABLED" "pi_args (named_process dev st) = []"
  "length (pi_groups (named_process dev st)) \<le> LOC_PROCESS_MAX_NUM_GROUPS"
proof -
  have "length (List.map_filter (group_ids dev) ws) \<le> length ws" for ws by (induction ws) (auto simp: map_filter_simps split: option.splits)
  from le_trans [OF this words_of_simps(2)] show "length (pi_groups (named_process dev st)) \<le> LOC_PROCESS_MAX_NUM_GROUPS"
    by (simp add: named_process_def LOC_PROCESS_MAX_NUM_GROUPS_def)
qed (simp_all add: named_process_def new_process_def)

text \<open>A process is enabled exactly when its block has its settings, neither the block, nor the property
  of the device for its name, nor the check of the vendor disables it, it is not kept off a device of low
  memory, every list of the block selects the device, and it is no premium process or one of its features
  is switched on. Its arguments and groups fit their arrays.\<close>

theorem process_enabled_exact:
  "(pi_status (fst (make_process dev m st)) = ENABLED) =
     (\<not> not_specified st \<and>
      \<not> (conf_text ''conf.proc_name'' st = ''xtra-daemon'' \<and> \<not> xtra_enabled dev) \<and>
      (vendor_enhanced dev \<or> conf_int ''conf.vendor_enhanced_process'' st = 0) \<and>
      conf_text ''conf.proc_status'' st \<noteq> ''DISABLED'' \<and> length (conf_text ''conf.proc_name'' st) < LOC_MAX_PARAM_STRING \<and>
      \<not> (low_ram_target dev \<and> hd (words_of (conf_text ''conf.low_ram_targets'' st)) = ''DISABLED'') \<and>
      device_meant dev st \<and>
      \<not> (conf_int ''conf.premium_feature'' st \<noteq> 0 \<and> conf_int ''conf.loc_feature_mask'' st AND m = 0)) \<and>
   length (pi_args (fst (make_process dev m st))) \<le> LOC_PROCESS_MAX_NUM_ARGS \<and>
   list_all (\<lambda>a. length a < LOC_PROCESS_MAX_ARG_STR_LENGTH) (pi_args (fst (make_process dev m st))) \<and>
   length (pi_groups (fst (make_process dev m st))) \<le> LOC_PROCESS_MAX_NUM_GROUPS"
proof (cases "disabled_by dev st")
  case None
  then show ?thesis
    using start_process_bounds [of m st "named_process dev st"] named_process_simps [of dev st]
    by (auto simp: make_process_view start_process_simps disabled_by_def LOC_MAX_PARAM_STRING_def split: if_splits)
next
  case (Some status)
  then show ?thesis
    by (auto simp: make_process_view disabled_by_def new_process_def LOC_MAX_PARAM_STRING_def split: if_splits)
qed

section \<open>Files of whole blocks\<close>

abbreviation process_table :: "conf_entry list" where
  "process_table \<equiv> loc_process_conf_parameter_table"

text \<open>A block names every setting of a process once; its last line is one of them.\<close>

definition whole_block :: "(string \<times> string) list \<Rightarrow> bool" where
  "whole_block b \<longleftrightarrow> b \<noteq> [] \<and> distinct (map fst b) \<and> param_name ` set process_table \<subseteq> fst ` set b \<and> names_in process_table (last b) \<and>
     (\<forall>l \<in> set b. good_line LOC_MAX_PARAM_STRING l \<and> l \<noteq> (''PROCESS_NAME'', ''NULL''))"

lemma process_table_simps:
  "good_table process_table" "length process_table = 12" "card (param_name ` set process_table) = 12" "clear_sets process_table st = st"
  "''PROCESS_NAME'' \<in> param_name ` set process_table"
proof -
  show g: "good_table process_table"
    by (simp add: good_table_def loc_process_conf_parameter_table_def text_entry_def number_entry_def)
  show l: "length process_table = 12" by (simp add: loc_process_conf_parameter_table_def)
  show "card (param_name ` set process_table) = 12" using g l distinct_card [of "map param_name process_table"] by (simp add: good_table_def)
qed (auto simp: loc_process_conf_parameter_table_def text_entry_def number_entry_def intro!: clear_no_flags)

lemma settings_count:
  assumes "distinct (map fst b)" "N \<subseteq> fst ` set b"
  shows "length (filter (\<lambda>l. fst l \<in> N) b) = card N"
proof -
  have "distinct (map fst (filter (\<lambda>l. fst l \<in> N) b))" using assms(1) by (rule distinct_map_filter)
  then have "length (filter (\<lambda>l. fst l \<in> N) b) = card (fst ` set (filter (\<lambda>l. fst l \<in> N) b))" by (metis distinct_card length_map set_map)
  moreover have "fst ` set (filter (\<lambda>l. fst l \<in> N) b) = N" using assms(2) by auto
  ultimately show ?thesis by simp
qed

lemma block_counts:
  assumes "whole_block b"
  shows "length (filter (names_in process_table) b) = 12" "length (filter (names_in process_table) (butlast b)) = 11"
    "length (filter (\<lambda>l. fst l = ''PROCESS_NAME'') b) = 1"
proof -
  have "names_in process_table = (\<lambda>l. fst l \<in> param_name ` set process_table)" by (auto simp: names_in_def)
  then show c: "length (filter (names_in process_table) b) = 12"
    using assms settings_count [of b "param_name ` set process_table"] by (simp add: whole_block_def process_table_simps(3))
  have "b = butlast b @ [last b]" "names_in process_table (last b)" using assms by (simp_all add: whole_block_def)
  then have "length (filter (names_in process_table) b) = Suc (length (filter (names_in process_table) (butlast b)))"
    by (metis (no_types, lifting) filter.simps filter_append length_append_singleton)
  then show "length (filter (names_in process_table) (butlast b)) = 11" using c by simp
  show "length (filter (\<lambda>l. fst l = ''PROCESS_NAME'') b) = 1"
    using assms settings_count [of b "{''PROCESS_NAME''}"] process_table_simps(5) by (auto simp: whole_block_def)
qed

lemma read_block:
  assumes "whole_block b"
  shows "loc_read_conf_r (Some (print_config b @ r)) process_table st = Some (True, r, fold (apply_line process_table) b st)"
proof -
  have "read_loop process_table 172 (of_nat 12) (print_config b @ r) st =
      read_loop process_table 172 (of_nat (12 - 12)) r (fold (apply_line process_table) b st)"
    using read_lines [OF process_table_simps(1), of 172 b 12 r st] block_counts [OF assms] assms
    by (simp add: whole_block_def LOC_MAX_PARAM_STRING_def)
  then show ?thesis
    by (simp add: loc_read_conf_r_def loc_read_conf_r_long_def LOC_MAX_PARAM_STRING_def process_table_simps read_loop.simps [of _ _ 0])
qed

text \<open>The reader takes twelve settings, so a block with fewer takes the first lines of the next.\<close>

lemma short_block_runs_over:
  assumes "whole_block (b @ [l])" "good_line LOC_MAX_PARAM_STRING l'" "names_in process_table l'"
  shows "loc_read_conf_r (Some (print_config (b @ [l']) @ r)) process_table st =
    Some (True, r, apply_line process_table l' (fold (apply_line process_table) b st))"
proof -
  have "length (filter (names_in process_table) b) = 11" using block_counts(2) [OF assms(1)] by simp
  then have "read_loop process_table 172 (of_nat 12) (print_config (b @ [l']) @ r) st =
      read_loop process_table 172 (of_nat (12 - 12)) r (fold (apply_line process_table) (b @ [l']) st)"
    using read_lines [OF process_table_simps(1), of 172 "b @ [l']" 12 r st] assms by (auto simp: whole_block_def LOC_MAX_PARAM_STRING_def)
  then show ?thesis
    by (simp add: loc_read_conf_r_def loc_read_conf_r_long_def LOC_MAX_PARAM_STRING_def process_table_simps read_loop.simps [of _ _ 0])
qed

lemma name_lines: "names_in [name_entry] l \<longleftrightarrow> fst l = ''PROCESS_NAME''"
  by (auto simp: names_in_def name_entry_def text_entry_def)

lemma count_step:
  assumes "read_loop [name_entry] 172 1 file (conf_set ''conf.proc_name'' (TextVal []) st) = Some (r, st1)"
  shows "count_processes file st n = (if conf_text ''conf.proc_name'' st1 = [] then Some (n, st1) else count_processes r st1 (n + 1))"
  using assms unfolding count_processes.simps [of "file"] first_entry
  by (simp add: loc_read_conf_r_def loc_read_conf_r_long_def LOC_MAX_PARAM_STRING_def name_table(2))

lemma apply_name_line:
  "apply_line [name_entry] l st = (if fst l = ''PROCESS_NAME'' then conf_set ''conf.proc_name'' (TextVal (if snd l = ''NULL'' then [] else snd l)) st else st)"
  by (auto simp: apply_line_def name_entry_def text_entry_def mark_set_def value_read_def conf_set_def)

lemma conf_set_vars: "cv_vars (conf_set var v st) = (cv_vars st)(var := v)"
  by (simp add: conf_set_def)

text \<open>The first loop counts the lines with a name, and touches no other variable.\<close>

lemma count_exact:
  "\<forall>l \<in> set ls. good_line LOC_MAX_PARAM_STRING l \<and> l \<noteq> (''PROCESS_NAME'', ''NULL'') \<Longrightarrow>
    \<exists>st1. count_processes (print_config ls) st n = Some (n + of_nat (length (filter (\<lambda>l. fst l = ''PROCESS_NAME'') ls)), st1) \<and>
      (\<forall>var. var \<noteq> ''conf.proc_name'' \<longrightarrow> cv_vars st1 var = cv_vars st var)"
proof (induction "length ls" arbitrary: ls st n rule: less_induct)
  case less
  let ?st = "conf_set ''conf.proc_name'' (TextVal []) st"
  have g: "\<forall>l \<in> set ls. good_line 172 l" using less.prems by (simp add: LOC_MAX_PARAM_STRING_def)
  show ?case
  proof (cases "\<exists>l \<in> set ls. fst l = ''PROCESS_NAME''")
    case False
    then have f: "filter (names_in [name_entry]) xs = []" if "set xs \<subseteq> set ls" for xs using that by (auto simp: filter_empty_conv name_lines)
    have "set (butlast ls) \<subseteq> set ls" by (auto dest: in_set_butlastD)
    then have "read_loop [name_entry] 172 (of_nat 1) (print_config ls @ []) ?st = read_loop [name_entry] 172 (of_nat 1) [] (fold (apply_line [name_entry]) ls ?st)"
      using read_lines [OF name_table(1) _ g, of 1 "[]" ?st] f by simp
    moreover have "fold (apply_line [name_entry]) ls ?st = ?st" using False by (intro apply_absents) (auto simp: name_lines)
    ultimately have "read_loop [name_entry] 172 1 (print_config ls) ?st = Some ([], ?st)" by (simp add: read_end)
    moreover have "filter (\<lambda>l. fst l = ''PROCESS_NAME'') ls = []" using False by (auto simp: filter_empty_conv)
    ultimately show ?thesis using count_step [of "print_config ls" st "[]" ?st n] by (simp add: conf_set_vars text_of_def)
  next
    case True
    then obtain pre l post where ls: "ls = pre @ l # post" "fst l = ''PROCESS_NAME''" "\<forall>x \<in> set pre. fst x \<noteq> ''PROCESS_NAME''"
      using split_list_first_prop [of ls "\<lambda>l. fst l = ''PROCESS_NAME''"] by blast
    let ?st1 = "conf_set ''conf.proc_name'' (TextVal (snd l)) ?st"
    have f: "filter (names_in [name_entry]) pre = []" "filter (\<lambda>l. fst l = ''PROCESS_NAME'') pre = []"
      using ls(3) by (auto simp: filter_empty_conv name_lines)
    have l: "good_line 172 l" "snd l \<noteq> ''NULL''" "snd l \<noteq> []"
      using less.prems g ls(1,2) by (cases l; auto simp: good_line_def trimmed_def)+
    have "fold (apply_line [name_entry]) pre ?st = ?st" using ls(3) by (intro apply_absents) (auto simp: name_lines)
    then have a: "fold (apply_line [name_entry]) (pre @ [l]) ?st = ?st1" using ls(2) l(2) by (simp add: apply_name_line)
    have "print_config ls = print_config (pre @ [l]) @ print_config post" by (simp add: ls(1) print_config_def)
    moreover have "read_loop [name_entry] 172 (of_nat 1) (print_config (pre @ [l]) @ print_config post) ?st =
        read_loop [name_entry] 172 (of_nat (1 - 1)) (print_config post) ?st1"
      using read_lines [OF name_table(1), of 172 "pre @ [l]" 1 "print_config post" ?st] g f ls a by (auto simp: name_lines)
    ultimately have "read_loop [name_entry] 172 1 (print_config ls) ?st = Some (print_config post, ?st1)"
      by (simp add: read_loop.simps [of _ _ 0])
    then have "count_processes (print_config ls) st n = count_processes (print_config post) ?st1 (n + 1)"
      using count_step l(3) by (simp add: text_of_def)
    moreover obtain st2 where "count_processes (print_config post) ?st1 (n + 1) =
        Some (n + 1 + of_nat (length (filter (\<lambda>l. fst l = ''PROCESS_NAME'') post)), st2)"
        "\<forall>var. var \<noteq> ''conf.proc_name'' \<longrightarrow> cv_vars st2 var = cv_vars ?st1 var"
      using less.hyps [of post ?st1 "n + 1"] less.prems ls(1) by auto
    ultimately show ?thesis using f(2) ls(1,2) by (auto simp: conf_set_vars)
  qed
qed

text \<open>A process depends on the settings of its block and on the flag of gps.conf.\<close>

definition process_vars :: "string set" where
  "process_vars = insert ''conf.sglte_target'' ((the \<circ> param_ptr) ` set process_table)"

lemma make_process_cong:
  assumes "\<forall>var \<in> process_vars. cv_vars st var = cv_vars st' var"
  shows "fst (make_process dev m st) = fst (make_process dev m st')"
proof -
  have v: "conf_text var st = conf_text var st'" "conf_int var st = conf_int var st'" if "var \<in> process_vars" for var
    using assms that by (simp_all add: conf_text_def conf_int_def)
  have p: "{''conf.proc_name'', ''conf.proc_argument'', ''conf.proc_status'', ''conf.group_list'', ''conf.premium_feature'', ''conf.loc_feature_mask'',
      ''conf.platform_list'', ''conf.soc_id_list'', ''conf.baseband'', ''conf.low_ram_targets'', ''conf.auto_platform'', ''conf.vendor_enhanced_process'',
      ''conf.sglte_target''} \<subseteq> process_vars"
    by (simp add: process_vars_def loc_process_conf_parameter_table_def text_entry_def number_entry_def)
  have "disabled_by dev st = disabled_by dev st'" using p by (simp add: disabled_by_def not_specified_def v)
  moreover have "device_meant dev st = device_meant dev st'" using p by (simp add: device_meant_def v)
  moreover have "named_process dev st = named_process dev st'" using p by (simp add: named_process_def v)
  moreover have "start_process m st = start_process m st'" using p by (intro ext) (simp add: start_process_def v)
  moreover have "conf_text ''conf.low_ram_targets'' st = conf_text ''conf.low_ram_targets'' st'" using p by (simp add: v)
  ultimately show ?thesis by (simp only: make_process_view)
qed

lemma make_process_keeps: "cv_vars (snd (make_process dev m st)) ''conf.sglte_target'' = cv_vars st ''conf.sglte_target''"
  using split_lists_keeps [of "''conf.sglte_target''" dev st]
  by (cases "split_lists dev st") (simp add: make_process_def Let_def)

lemma keeps_sglte: "cv_vars (fold (apply_line process_table) ls st) ''conf.sglte_target'' = cv_vars st ''conf.sglte_target''"
proof -
  have "cv_vars (apply_line process_table l st) ''conf.sglte_target'' = cv_vars st ''conf.sglte_target''" for l st
  proof -
    have own: "the (param_ptr e) \<noteq> ''conf.sglte_target''" "param_set e = None" if "e \<in> set process_table" for e
      using that by (auto simp: loc_process_conf_parameter_table_def text_entry_def number_entry_def)
    show ?thesis
    proof (cases "find (\<lambda>e. param_name e = fst l) process_table")
      case (Some e)
      then show ?thesis using own [of e] find_SomeD [OF Some] by (simp add: apply_line_def mark_set_def)
    qed (simp add: apply_line_def)
  qed
  then show ?thesis by (induction ls arbitrary: st) simp_all
qed

lemma block_fixes_vars:
  assumes "whole_block b" "cv_vars st ''conf.sglte_target'' = cv_vars st' ''conf.sglte_target''"
  shows "\<forall>var \<in> process_vars. cv_vars (fold (apply_line process_table) b st) var = cv_vars (fold (apply_line process_table) b st') var"
proof
  fix var
  assume "var \<in> process_vars"
  then consider "var = ''conf.sglte_target''" | e where "e \<in> set process_table" "var = the (param_ptr e)" by (auto simp: process_vars_def)
  then show "cv_vars (fold (apply_line process_table) b st) var = cv_vars (fold (apply_line process_table) b st') var"
  proof cases
    case 1
    then show ?thesis using assms(2) by (simp add: keeps_sglte)
  next
    case 2
    have "param_name e \<in> fst ` set b" "distinct (map fst b)" using assms(1) 2(1) by (auto simp: whole_block_def)
    then obtain v where "map_of b (param_name e) = Some v" by (metis map_of_eq_None_iff not_None_eq)
    then show ?thesis using apply_lines_value [OF process_table_simps(1) 2(1) \<open>distinct (map fst b)\<close>] 2(2) by simp
  qed
qed

text \<open>The second loop makes one process of every block.\<close>

lemma read_processes_exact:
  "\<forall>b \<in> set bs. whole_block b \<Longrightarrow> cv_vars st ''conf.sglte_target'' = cv_vars st0 ''conf.sglte_target'' \<Longrightarrow>
    \<exists>st1. read_processes dev m (length bs) (print_config (concat bs) @ r) st =
      Some (map (\<lambda>b. fst (make_process dev m (fold (apply_line process_table) b st0))) bs, st1)"
proof (induction bs arbitrary: st)
  case (Cons b bs)
  let ?st = "fold (apply_line process_table) b st"
  obtain p st2 where p: "make_process dev m ?st = (p, st2)" by fastforce
  have "whole_block b" using Cons.prems(1) by simp
  then have "p = fst (make_process dev m (fold (apply_line process_table) b st0))"
    using make_process_cong [OF block_fixes_vars [OF _ Cons.prems(2)], of b dev m] p by simp
  moreover have "cv_vars st2 ''conf.sglte_target'' = cv_vars st0 ''conf.sglte_target''"
    using make_process_keeps [of dev m ?st] Cons.prems(2) by (simp add: p keeps_sglte)
  moreover have "print_config (concat (b # bs)) @ r = print_config b @ (print_config (concat bs) @ r)" by (simp add: print_config_def)
  ultimately show ?case using Cons.IH [of st2] Cons.prems(1) read_block [of b "print_config (concat bs) @ r" st] p by fastforce
qed simp

lemma read_returns: "\<exists>ok rest st1. loc_read_conf_r_long (Some file) table 172 st = Some (ok, rest, st1)"
proof -
  have "\<exists>rest st1. read_loop table n k file st = Some (rest, st1)" if "1 < n" for n k "file" st
    using that
  proof (induction table n k "file" st rule: read_loop.induct)
    case (1 table n k "file" st)
    then show ?case
      by (cases "k = 0"; cases "fgets n file")
        (auto simp: read_loop.simps [of table n k "file"] read_loop.simps [of table n 0 "file"] split: prod.splits)
  qed
  then show ?thesis by (fastforce simp: loc_read_conf_r_long_def)
qed

lemma read_conf_returns: "\<exists>st1. loc_read_conf file (Some table) st = Some st1"
proof (cases "file")
  case (Some f)
  have r: "\<exists>st1. map_option (snd \<circ> snd) (loc_read_conf_r_long (Some f) t 172 st) = Some st1" for t st
    using read_returns [of f t st] by force
  obtain st1 where "(if table \<noteq> [] then map_option (snd \<circ> snd) (loc_read_conf_r_long (Some f) table 172 st) else Some st) = Some st1"
    using r [of table st] by (cases "table = []") force+
  then show ?thesis using r [of loc_param_table st1] Some
    by (simp add: loc_read_conf_def loc_read_conf_long_def LOC_MAX_PARAM_STRING_def)
qed (simp add: loc_read_conf_def loc_read_conf_long_def)

text \<open>C23. A file of whole blocks, with any lines of other names between and after their settings, gives one
  process per block, in order, and each of them is the one that its own block describes: nothing of
  another block and no counting pass changes it. The features are read from the same file.\<close>

theorem launcher_exact:
  assumes "\<forall>b \<in> set blocks. whole_block b" "\<forall>l \<in> set others. good_line LOC_MAX_PARAM_STRING l \<and> \<not> names_in process_table l"
    "length blocks < 256"
  shows "\<exists>st1 st2 st3.
    loc_read_conf gps_conf (Some gps_conf_parameter_table) st = Some st1 \<and>
    loc_read_conf (Some (print_config (concat blocks @ others))) (Some loc_feature_conf_table) st1 = Some st2 \<and>
    loc_read_process_conf True glib dev gps_conf (Some (print_config (concat blocks @ others))) st =
      Some (0, map (\<lambda>b. fst (make_process dev (service_mask glib st2) (fold (apply_line process_table) b st2))) blocks, st3)"
proof -
  let ?file = "print_config (concat blocks @ others)"
  obtain st1 where st1: "loc_read_conf gps_conf (Some gps_conf_parameter_table) st = Some st1" using read_conf_returns by blast
  obtain st2 where st2: "loc_read_conf (Some ?file) (Some loc_feature_conf_table) st1 = Some st2" using read_conf_returns by blast
  have "length (filter (\<lambda>l. fst l = ''PROCESS_NAME'') (concat bs)) = length bs" if "\<forall>b \<in> set bs. whole_block b" for bs
    using that by (induction bs) (auto dest: block_counts(3))
  moreover have "filter (\<lambda>l. fst l = ''PROCESS_NAME'') others = []"
    using assms(2) process_table_simps(5) by (auto simp: filter_empty_conv names_in_def)
  ultimately have n: "length (filter (\<lambda>l. fst l = ''PROCESS_NAME'') (concat blocks @ others)) = length blocks" using assms(1) by simp
  have "\<forall>l \<in> set (concat blocks @ others). good_line LOC_MAX_PARAM_STRING l \<and> l \<noteq> (''PROCESS_NAME'', ''NULL'')"
    using assms(1,2) process_table_simps(5) by (auto simp: whole_block_def names_in_def)
  then obtain st3 where c: "count_processes ?file st2 0 = Some (of_nat (length blocks), st3)"
    "cv_vars st3 ''conf.sglte_target'' = cv_vars st2 ''conf.sglte_target''"
    using count_exact [of "concat blocks @ others" st2 0] unfolding n by auto
  have "?file = print_config (concat blocks) @ print_config others" by (simp add: print_config_def)
  then obtain st4 where "read_processes dev (service_mask glib st2) (length blocks) ?file st3 =
      Some (map (\<lambda>b. fst (make_process dev (service_mask glib st2) (fold (apply_line process_table) b st2))) blocks, st4)"
    using read_processes_exact [OF assms(1) c(2)] by metis
  moreover have "unat (of_nat (length blocks) :: 8 word) = length blocks" using assms(3) by (simp add: unat_of_nat)
  ultimately show ?thesis using st1 st2 c(1) by (auto simp: loc_read_process_conf_def)
qed

definition demo_block :: "string \<Rightarrow> (string \<times> string) list" where
  "demo_block name =
     [(''PROCESS_NAME'', name), (''PROCESS_ARGUMENT'', ''-a 1''), (''PROCESS_STATE'', ''ENABLED''), (''PROCESS_GROUPS'', ''gps inet''),
      (''PREMIUM_FEATURE'', ''0''), (''IZAT_FEATURE_MASK'', ''0''), (''PLATFORMS'', ''all''), (''SOC_IDS'', ''all''), (''GTP_MODE'', ''SDK''),
      (''BASEBAND'', ''all''), (''LOW_RAM_TARGETS'', ''ENABLED''), (''HARDWARE_TYPE'', ''all''), (''VENDOR_ENHANCED_PROCESS'', ''0'')]"

definition demo_device :: device where
  "demo_device = \<lparr>platform_name = ''msm8998'', baseband_name = ''msm'', autoplatform_name = [], socid_value = ''292'', low_ram_target = False,
     xtra_enabled = True, vendor_enhanced = True, group_ids = Map.empty\<rparr>"

theorem launcher_exact_witness:
  "\<exists>ps st3. loc_read_process_conf True False demo_device None (Some (print_config (concat [demo_block ''a'', demo_block ''b''] @ [(''X'', ''y'')]))) demo_state =
     Some (0, ps, st3) \<and> length ps = 2"
proof -
  have "whole_block (demo_block ''a'')" "whole_block (demo_block ''b'')"
    by (simp_all add: whole_block_def demo_block_def names_in_def loc_process_conf_parameter_table_def text_entry_def number_entry_def
      good_line_def trimmed_def isspace_def newline_def LOC_MAX_PARAM_STRING_def)
  moreover have "good_line LOC_MAX_PARAM_STRING (''X'', ''y'') \<and> \<not> names_in process_table (''X'', ''y'')"
    by (simp add: names_in_def loc_process_conf_parameter_table_def text_entry_def number_entry_def
      good_line_def trimmed_def isspace_def newline_def LOC_MAX_PARAM_STRING_def)
  ultimately show ?thesis
    using launcher_exact [of "[demo_block ''a'', demo_block ''b'']" "[(''X'', ''y'')]" None demo_state False demo_device] by auto
qed

end
