(* ===== verification/Gnss_Ni.thy ===== *)
theory Gnss_Ni
  imports Loc_Prelude "HOL-Library.Multiset"
begin

text \<open>
  Requests of the network for a position (network-initiated requests, NI) in gnss/GnssAdapter.cpp. The
  adapter keeps at most one request of its own kind and one for emergencies, asks a client about it,
  and starts a thread that waits for the answer of the client or for the time to run out. The thread of
  the adapter and these threads share the sessions; what is done under the lock of a session, or
  between two of its uses, is one step. Timeouts and spurious wake-ups can come at any time.
\<close>

section \<open>Data\<close>

datatype ni_response = GNSS_NI_RESPONSE_ACCEPT | GNSS_NI_RESPONSE_DENY | GNSS_NI_RESPONSE_NO_RESPONSE | GNSS_NI_RESPONSE_IGNORE

datatype ni_type = GNSS_NI_TYPE_VOICE | GNSS_NI_TYPE_SUPL | GNSS_NI_TYPE_CONTROL_PLANE | GNSS_NI_TYPE_EMERGENCY_SUPL

definition GNSS_NI_OPTIONS_PRIVACY_OVERRIDE_BIT :: "16 word" where "GNSS_NI_OPTIONS_PRIVACY_OVERRIDE_BIT = 0x04"
definition GPS_LOCK_MO :: u32 where "GPS_LOCK_MO = 1"
definition GPS_LOCK_NI :: u32 where "GPS_LOCK_NI = 2"
definition LOC_NI_NO_RESPONSE_TIME :: u32 where "LOC_NI_NO_RESPONSE_TIME = 20"

record ni_notification =
  nn_type :: ni_type
  nn_options :: "16 word"
  nn_timeout :: u32
  nn_timeoutResponse :: ni_response

datatype in_emergency = LOC_IN_EMERGENCY_UNKNOWN | LOC_IN_EMERGENCY_SET | LOC_IN_EMERGENCY_NOT_SET

text \<open>The request of the modem, which is kept for the answer, is named by its address.\<close>

record ni_session =
  respTimeLeft :: u32
  respRecvd :: bool
  rawRequest :: ptr
  reqID :: u32
  sn_resp :: ni_response

text \<open>What else the decision depends on; the flag for emergencies is the answer of the framework.\<close>

record ni_conf =
  mSupportNfwControl :: bool
  afwControlId :: u32
  GPS_LOCK :: u32
  NI_SUPL_DENY_ON_NFW_LOCKED :: u32
  SUPL_ES :: u32
  CP_MTLR_ES :: u32
  e911_state :: bool

text \<open>
  Where a thread is: before it takes the lock, waiting, and after it has released the lock, with the
  answer that it will send.
\<close>

datatype ni_pc = NiStart | NiWait | NiUnlocked "(ni_response \<times> addr) option" | NiCleared "(ni_response \<times> addr) option" | NiReset "(ni_response \<times> addr) option"

datatype ni_msg =
    MsgReportNiNotify ni_notification ptr in_emergency
  | MsgGnssNiResponse nat u32 ni_response
  | MsgInformNiResponse ni_response addr

text \<open>
  What can be seen from outside: answers to the modem (both kinds are calls of informNiResponse: the
  first passes the end of a session on, the second is the decision when the request arrives), released
  requests, questions to clients and the results of their calls.
\<close>

datatype ni_event =
    InformNiResponse ni_response ptr
  | InformNiAtOnce ni_response ptr
  | NiFreed ptr
  | NiNoClient ptr
  | GnssNiCb nat u32 ptr
  | NiReport nat bool u32

text \<open>What the adapter has still to do for a message: set the answer of a session, report.\<close>

datatype ni_task = NiSetResp bool ni_response | NiSay ni_event

text \<open>The flag of a thread, a session or an answer that is being set says whether it is the session for emergencies.\<close>

record ni_state =
  ni_normal :: ni_session
  ni_es :: ni_session
  reqIDCounter :: u32
  ni_threads :: "(bool \<times> ni_pc) list"
  ni_queue :: "ni_msg list"
  ni_sets :: "ni_task list"
  niClients :: "nat list"
  ni_config :: ni_conf
  ni_log :: "ni_event list"

definition no_session :: ni_session where
  "no_session = \<lparr>respTimeLeft = 0, respRecvd = False, rawRequest = None, reqID = 0, sn_resp = GNSS_NI_RESPONSE_ACCEPT\<rparr>"

definition ni_init :: "ni_conf \<Rightarrow> ni_state" where
  "ni_init cf = \<lparr>ni_normal = no_session, ni_es = no_session, reqIDCounter = 0, ni_threads = [], ni_queue = [], ni_sets = [],
     niClients = [], ni_config = cf, ni_log = []\<rparr>"

definition sess :: "bool \<Rightarrow> ni_state \<Rightarrow> ni_session" where
  "sess es s = (if es then ni_es s else ni_normal s)"

definition upd_sess :: "bool \<Rightarrow> (ni_session \<Rightarrow> ni_session) \<Rightarrow> ni_state \<Rightarrow> ni_state" where
  "upd_sess es f s = (if es then s\<lparr>ni_es := f (ni_es s)\<rparr> else s\<lparr>ni_normal := f (ni_normal s)\<rparr>)"

definition ni_say :: "ni_event list \<Rightarrow> ni_state \<Rightarrow> ni_state" where
  "ni_say es s = s\<lparr>ni_log := ni_log s @ es\<rparr>"

section \<open>The thread of the adapter\<close>

text \<open>The clients that have the callback for NI, in the order of their map.\<close>

definition hasNiNotifyCallback :: "nat \<Rightarrow> ni_state \<Rightarrow> bool" where
  "hasNiNotifyCallback client s \<longleftrightarrow> client \<in> set (niClients s)"

text \<open>The sessions are read first; they are locked and set afterwards, one by one.\<close>

definition ni_response_proc :: "nat \<Rightarrow> u32 \<Rightarrow> ni_response \<Rightarrow> ni_state \<Rightarrow> ni_state" where
  "ni_response_proc client sessionId response s =
     (if \<not> hasNiNotifyCallback client s then ni_say [NiReport client False sessionId] s
      else if sessionId = reqID (ni_es s) \<and> rawRequest (ni_es s) \<noteq> None
      then s\<lparr>ni_sets := (if response = GNSS_NI_RESPONSE_ACCEPT \<and> rawRequest (ni_normal s) \<noteq> None then [NiSetResp False GNSS_NI_RESPONSE_IGNORE] else []) @
             [NiSetResp True response, NiSay (NiReport client True sessionId)]\<rparr>
      else if sessionId = reqID (ni_normal s) \<and> rawRequest (ni_normal s) \<noteq> None
      then s\<lparr>ni_sets := [NiSetResp False response, NiSay (NiReport client True sessionId)]\<rparr>
      else ni_say [NiReport client False sessionId] s)"

definition respond :: "ni_response \<Rightarrow> ni_session \<Rightarrow> ni_session" where
  "respond r p = p\<lparr>sn_resp := r, respRecvd := True\<rparr>"

text \<open>A session is started for a request; the result of creating its thread is only logged.\<close>

definition start_session :: "bool \<Rightarrow> bool \<Rightarrow> nat \<Rightarrow> ni_notification \<Rightarrow> ptr \<Rightarrow> ni_state \<Rightarrow> ni_state" where
  "start_session created es client notify data s =
     (let i = reqIDCounter s + 1;
          s1 = upd_sess es (\<lambda>p. p\<lparr>rawRequest := data, reqID := i,
                 respTimeLeft := 5 + (if nn_timeout notify \<noteq> 0 then nn_timeout notify else LOC_NI_NO_RESPONSE_TIME)\<rparr>) (s\<lparr>reqIDCounter := i\<rparr>);
          s2 = (if created then s1\<lparr>ni_threads := ni_threads s1 @ [(es, NiStart)]\<rparr> else s1)
      in ni_say [GnssNiCb client i data] s2)"

definition free_request :: "ptr \<Rightarrow> ni_event list" where
  "free_request data = (if data = None then [] else [NiFreed data])"

definition requestNiNotify :: "bool \<Rightarrow> ni_notification \<Rightarrow> ptr \<Rightarrow> bool \<Rightarrow> ni_state \<Rightarrow> ni_state" where
  "requestNiNotify created notify data bInformNiAccept s =
     (case niClients s of
        [] \<Rightarrow>
          if nn_type notify = GNSS_NI_TYPE_EMERGENCY_SUPL \<and> bInformNiAccept
          then ni_say [InformNiAtOnce GNSS_NI_RESPONSE_ACCEPT data]
                 (if rawRequest (ni_normal s) \<noteq> None then s\<lparr>ni_sets := [NiSetResp False GNSS_NI_RESPONSE_IGNORE]\<rparr> else s)
          else ni_say [NiNoClient data] s
      | client # _ \<Rightarrow>
          if nn_type notify = GNSS_NI_TYPE_EMERGENCY_SUPL
          then if rawRequest (ni_es s) \<noteq> None then ni_say (free_request data) s else start_session created True client notify data s
          else if rawRequest (ni_normal s) \<noteq> None \<or> rawRequest (ni_es s) \<noteq> None then ni_say (free_request data) s
          else start_session created False client notify data s)"

definition in_emergency_now :: "in_emergency \<Rightarrow> ni_conf \<Rightarrow> bool" where
  "in_emergency_now emergencyState cf \<longleftrightarrow>
     emergencyState = LOC_IN_EMERGENCY_UNKNOWN \<and> e911_state cf \<or> emergencyState = LOC_IN_EMERGENCY_SET"

definition denied_by_lock :: "ni_notification \<Rightarrow> bool \<Rightarrow> ni_conf \<Rightarrow> bool" where
  "denied_by_lock notify emergency cf \<longleftrightarrow>
     (mSupportNfwControl cf \<or> afwControlId cf = 0) \<and> nn_type notify \<in> {GNSS_NI_TYPE_SUPL, GNSS_NI_TYPE_EMERGENCY_SUPL} \<and> \<not> emergency \<and>
     GNSS_NI_OPTIONS_PRIVACY_OVERRIDE_BIT AND nn_options notify = 0 \<and> GPS_LOCK_NI AND GPS_LOCK cf \<noteq> 0 \<and> NI_SUPL_DENY_ON_NFW_LOCKED cf = 1"

definition report_ni_proc :: "bool \<Rightarrow> ni_notification \<Rightarrow> ptr \<Rightarrow> in_emergency \<Rightarrow> ni_state \<Rightarrow> ni_state" where
  "report_ni_proc created notify data emergencyState s =
     (let cf = ni_config s; emergency = in_emergency_now emergencyState cf in
      if denied_by_lock notify emergency cf then ni_say [InformNiAtOnce GNSS_NI_RESPONSE_DENY data] s
      else if nn_type notify = GNSS_NI_TYPE_EMERGENCY_SUPL
      then if emergency \<or> SUPL_ES cf = 0 then requestNiNotify created notify data True s
           else ni_say [InformNiAtOnce GNSS_NI_RESPONSE_DENY data] s
      else if nn_type notify = GNSS_NI_TYPE_CONTROL_PLANE
      then if emergency \<and> CP_MTLR_ES cf = 1 then ni_say [InformNiAtOnce GNSS_NI_RESPONSE_ACCEPT data] s
           else requestNiNotify created notify data False s
      else requestNiNotify created notify data False s)"

fun ni_proc :: "bool \<Rightarrow> ni_msg \<Rightarrow> ni_state \<Rightarrow> ni_state" where
  "ni_proc created (MsgReportNiNotify notify data emergencyState) s = report_ni_proc created notify data emergencyState s"
| "ni_proc created (MsgGnssNiResponse client sessionId response) s = ni_response_proc client sessionId response s"
| "ni_proc created (MsgInformNiResponse response payload) s = ni_say [InformNiResponse response (Some payload)] s"

section \<open>The thread of a session\<close>

text \<open>The end of the part under the lock: the answer to send and what is released.\<close>

definition ni_finish :: "ni_session \<Rightarrow> (ni_response \<times> addr) option \<times> ni_event list \<times> ni_session" where
  "ni_finish p =
     (let p1 = p\<lparr>respRecvd := False\<rparr> in
      case rawRequest p of
        None \<Rightarrow> (None, [], p1)
      | Some q \<Rightarrow>
         if sn_resp p \<noteq> GNSS_NI_RESPONSE_IGNORE then (Some (sn_resp p, q), [], p1\<lparr>rawRequest := None\<rparr>)
         else (None, [NiFreed (Some q)], p1\<lparr>rawRequest := None\<rparr>))"

definition finish_thread :: "nat \<Rightarrow> bool \<Rightarrow> ni_state \<Rightarrow> ni_state" where
  "finish_thread i es s =
     (case ni_finish (sess es s) of (answer, freed, p) \<Rightarrow>
        ni_say freed ((upd_sess es (\<lambda>_. p) s)\<lparr>ni_threads := (ni_threads s)[i := (es, NiUnlocked answer)]\<rparr>))"

definition set_pc :: "nat \<Rightarrow> bool \<Rightarrow> ni_pc \<Rightarrow> ni_state \<Rightarrow> ni_state" where
  "set_pc i es pc s = s\<lparr>ni_threads := (ni_threads s)[i := (es, pc)]\<rparr>"

text \<open>Once it has the lock, the thread waits while there is no answer.\<close>

definition check_received :: "nat \<Rightarrow> bool \<Rightarrow> ni_state \<Rightarrow> ni_state" where
  "check_received i es s = (if respRecvd (sess es s) then finish_thread i es s else set_pc i es NiWait s)"

text \<open>One step of a thread; the flag says that the time has run out while it waited.\<close>

definition ni_thread_step :: "nat \<Rightarrow> bool \<Rightarrow> ni_state \<Rightarrow> ni_state option" where
  "ni_thread_step i timeout s =
     (if i \<ge> length (ni_threads s) then None
      else case ni_threads s ! i of (es, pc) \<Rightarrow>
        (case pc of
           NiStart \<Rightarrow> Some (check_received i es s)
         | NiWait \<Rightarrow>
            if timeout then Some (finish_thread i es (upd_sess es (\<lambda>p. p\<lparr>sn_resp := GNSS_NI_RESPONSE_NO_RESPONSE\<rparr>) s))
            else Some (check_received i es s)
         | NiUnlocked answer \<Rightarrow> Some (set_pc i es (NiCleared answer) (upd_sess es (\<lambda>p. p\<lparr>respTimeLeft := 0\<rparr>) s))
         | NiCleared answer \<Rightarrow> Some (set_pc i es (NiReset answer) (upd_sess es (\<lambda>p. p\<lparr>reqID := 0\<rparr>) s))
         | NiReset answer \<Rightarrow>
            Some (s\<lparr>ni_threads := take i (ni_threads s) @ drop (Suc i) (ni_threads s),
                    ni_queue := ni_queue s @ (case answer of None \<Rightarrow> [] | Some (r, q) \<Rightarrow> [MsgInformNiResponse r q])\<rparr>)))"

section \<open>Steps\<close>

datatype ni_op =
    NiClients "nat list"
  | NiConf ni_conf
  | NiRequest ni_notification ptr in_emergency
  | NiAnswer nat u32 ni_response
  | NiProc bool
  | NiSet
  | NiThread nat bool

text \<open>
  With the first flag a thread of a session runs only between two messages of the adapter; this is
  not what the code ensures. None is a step that is not possible.
\<close>

fun ni_do :: "bool \<Rightarrow> ni_op \<Rightarrow> ni_state \<Rightarrow> ni_state option" where
  "ni_do atomic (NiClients cs) s = (if ni_sets s = [] then Some (s\<lparr>niClients := cs\<rparr>) else None)"
| "ni_do atomic (NiConf cf) s = (if ni_sets s = [] then Some (s\<lparr>ni_config := cf\<rparr>) else None)"
| "ni_do atomic (NiRequest notify data emergencyState) s = Some (s\<lparr>ni_queue := ni_queue s @ [MsgReportNiNotify notify data emergencyState]\<rparr>)"
| "ni_do atomic (NiAnswer client sessionId response) s = Some (s\<lparr>ni_queue := ni_queue s @ [MsgGnssNiResponse client sessionId response]\<rparr>)"
| "ni_do atomic (NiProc created) s =
     (if ni_sets s \<noteq> [] then None
      else case ni_queue s of [] \<Rightarrow> None | m # ms \<Rightarrow> Some (ni_proc created m (s\<lparr>ni_queue := ms\<rparr>)))"
| "ni_do atomic NiSet s =
     (case ni_sets s of
        [] \<Rightarrow> None
      | NiSetResp es r # rest \<Rightarrow> Some ((upd_sess es (respond r) s)\<lparr>ni_sets := rest\<rparr>)
      | NiSay e # rest \<Rightarrow> Some (ni_say [e] (s\<lparr>ni_sets := rest\<rparr>)))"
| "ni_do atomic (NiThread i timeout) s = (if atomic \<and> ni_sets s \<noteq> [] then None else ni_thread_step i timeout s)"

inductive ni_reach :: "bool \<Rightarrow> ni_conf \<Rightarrow> ni_op list \<Rightarrow> ni_state \<Rightarrow> bool" for atomic cf where
  ni_start: "ni_reach atomic cf [] (ni_init cf)"
| ni_next: "ni_reach atomic cf ops s \<Longrightarrow> ni_do atomic op s = Some s' \<Longrightarrow> ni_reach atomic cf (ops @ [op]) s'"

end
