(* ===== verification/Gnss_Ni_Runs.thy ===== *)
theory Gnss_Ni_Runs
  imports Gnss_Ni
begin

text \<open>
  What becomes of requests of the network: none is lost or answered twice in any interleaving; all of
  them end without the help of a client; and answers belong to their questions when the adapter
  is not interrupted between checking a session and setting it. Concrete runs show what happens otherwise.
\<close>

section \<open>Where a request is\<close>

definition ptrs :: "ptr \<Rightarrow> addr multiset" where
  "ptrs p = (case p of None \<Rightarrow> {#} | Some q \<Rightarrow> {#q#})"

definition answer_ptrs :: "(ni_response \<times> addr) option \<Rightarrow> addr multiset" where
  "answer_ptrs a = ptrs (map_option snd a)"

fun pc_ptrs :: "bool \<times> ni_pc \<Rightarrow> addr multiset" where
  "pc_ptrs (es, NiUnlocked a) = answer_ptrs a"
| "pc_ptrs (es, NiCleared a) = answer_ptrs a"
| "pc_ptrs (es, NiReset a) = answer_ptrs a"
| "pc_ptrs (es, _) = {#}"

fun msg_ptrs :: "ni_msg \<Rightarrow> addr multiset" where
  "msg_ptrs (MsgReportNiNotify notify data emergencyState) = ptrs data"
| "msg_ptrs (MsgInformNiResponse r q) = {#q#}"
| "msg_ptrs (MsgGnssNiResponse client sessionId r) = {#}"

fun event_ptrs :: "ni_event \<Rightarrow> addr multiset" where
  "event_ptrs (InformNiResponse r p) = ptrs p"
| "event_ptrs (InformNiAtOnce r p) = ptrs p"
| "event_ptrs (NiFreed p) = ptrs p"
| "event_ptrs (NiNoClient p) = ptrs p"
| "event_ptrs _ = {#}"

fun task_ptrs :: "ni_task \<Rightarrow> addr multiset" where
  "task_ptrs (NiSay e) = event_ptrs e"
| "task_ptrs (NiSetResp es r) = {#}"

fun op_ptrs :: "ni_op \<Rightarrow> addr multiset" where
  "op_ptrs (NiRequest notify data emergencyState) = ptrs data"
| "op_ptrs _ = {#}"

text \<open>Requests that arrived, that are done with, and that are still somewhere.\<close>

definition arrived :: "ni_op list \<Rightarrow> addr multiset" where
  "arrived ops = sum_list (map op_ptrs ops)"

definition settled :: "ni_event list \<Rightarrow> addr multiset" where
  "settled es = sum_list (map event_ptrs es)"

definition held :: "ni_state \<Rightarrow> addr multiset" where
  "held s = ptrs (rawRequest (ni_normal s)) + ptrs (rawRequest (ni_es s)) + sum_list (map pc_ptrs (ni_threads s)) +
     sum_list (map msg_ptrs (ni_queue s)) + sum_list (map task_ptrs (ni_sets s))"

lemma ptrs_simps [simp]: "ptrs None = {#}" "ptrs (Some q) = {#q#}" "answer_ptrs None = {#}" "answer_ptrs (Some (r, q)) = {#q#}"
  by (simp_all add: ptrs_def answer_ptrs_def)

lemma sum_list_replace: "i < length xs \<Longrightarrow> sum_list (map f (xs[i := y])) + f (xs ! i) = sum_list (map f xs) + f y"
  for f :: "'a \<Rightarrow> 'b::comm_monoid_add"
proof (induction xs arbitrary: i)
  case (Cons x xs)
  then show ?case by (cases i) (auto simp: ac_simps)
qed simp

lemma sum_list_remove: "i < length xs \<Longrightarrow> sum_list (map f (take i xs @ drop (Suc i) xs)) + f (xs ! i) = sum_list (map f xs)"
  for f :: "'a \<Rightarrow> 'b::comm_monoid_add"
proof -
  assume "i < length xs"
  from id_take_nth_drop [OF this] have "sum_list (map f xs) = sum_list (map f (take i xs @ xs ! i # drop (Suc i) xs))" by metis
  then show ?thesis by (simp add: ac_simps)
qed

definition all_ptrs :: "ni_state \<Rightarrow> addr multiset" where
  "all_ptrs s = settled (ni_log s) + held s"

lemma settled_append [simp]: "settled (xs @ ys) = settled xs + settled ys"
  by (simp add: settled_def)

lemma all_say: "all_ptrs (ni_say es s) = settled es + all_ptrs s"
  by (simp add: all_ptrs_def ni_say_def held_def ac_simps)

lemma settled_one: "settled [e] = event_ptrs e" "settled [] = {#}" "settled (free_request p) = ptrs p"
  by (simp_all add: settled_def free_request_def)

text \<open>Every step moves requests only.\<close>

lemma start_session_ptrs:
  "rawRequest (sess es s) = None \<Longrightarrow> all_ptrs (start_session created es client notify data s) = ptrs data + all_ptrs s"
  by (cases es) (auto simp: start_session_def Let_def ni_say_def settled_one ac_simps upd_sess_def sess_def all_ptrs_def held_def)

lemma requestNiNotify_ptrs:
  "ni_sets s = [] \<Longrightarrow> all_ptrs (requestNiNotify created notify data accept s) = ptrs data + all_ptrs s"
  by (auto simp: requestNiNotify_def all_say settled_one start_session_ptrs sess_def split: list.splits)
     (simp_all add: all_ptrs_def held_def)

lemma report_ni_ptrs:
  "ni_sets s = [] \<Longrightarrow> all_ptrs (report_ni_proc created notify data em s) = ptrs data + all_ptrs s"
  by (simp add: report_ni_proc_def Let_def requestNiNotify_ptrs all_say settled_one)

lemma ni_proc_ptrs: "ni_sets s = [] \<Longrightarrow> all_ptrs (ni_proc created m s) = msg_ptrs m + all_ptrs s"
  by (cases m)
     (auto simp: report_ni_ptrs ni_response_proc_def all_say settled_one, auto simp: all_ptrs_def held_def)

lemma finish_ptrs:
  assumes "i < length (ni_threads s)" "ni_threads s ! i = (es, pc)" "pc_ptrs (es, pc) = {#}"
  shows "all_ptrs (finish_thread i es s) = all_ptrs s"
proof -
  obtain a freed p where f: "ni_finish (sess es s) = (a, freed, p)" by (metis prod_cases3)
  then have "ptrs (rawRequest (sess es s)) = answer_ptrs a + settled freed + ptrs (rawRequest p)"
    by (auto simp: ni_finish_def Let_def settled_one split: option.splits if_splits)
  moreover have "sum_list (map pc_ptrs ((ni_threads s)[i := (es, NiUnlocked a)])) = sum_list (map pc_ptrs (ni_threads s)) + answer_ptrs a"
    using sum_list_replace [OF assms(1), of pc_ptrs "(es, NiUnlocked a)"] assms(2,3) by simp
  moreover have "finish_thread i es s = ni_say freed ((upd_sess es (\<lambda>_. p) s)\<lparr>ni_threads := (ni_threads s)[i := (es, NiUnlocked a)]\<rparr>)"
    by (simp add: finish_thread_def f)
  ultimately show ?thesis by (cases es) (simp_all add: ni_say_def upd_sess_def sess_def all_ptrs_def held_def ac_simps)
qed

lemma set_pc_ptrs:
  assumes "i < length (ni_threads s)" "pc_ptrs (ni_threads s ! i) = pc_ptrs (es, pc)"
  shows "all_ptrs (set_pc i es pc s) = all_ptrs s"
  using sum_list_replace [OF assms(1), of pc_ptrs "(es, pc)"] assms(2) by (simp add: set_pc_def all_ptrs_def held_def)

lemma upd_sess_ptrs: "(\<And>p. rawRequest (f p) = rawRequest p) \<Longrightarrow> all_ptrs (upd_sess es f s) = all_ptrs s"
  by (simp add: upd_sess_def all_ptrs_def held_def)

lemma upd_sess_threads [simp]: "ni_threads (upd_sess es f s) = ni_threads s"
  by (simp add: upd_sess_def)

lemma check_received_ptrs:
  assumes "i < length (ni_threads s)" "ni_threads s ! i = (es, pc)" "pc_ptrs (es, pc) = {#}"
  shows "all_ptrs (check_received i es s) = all_ptrs s"
  using finish_ptrs [OF assms] set_pc_ptrs [OF assms(1)] assms(2,3) by (simp add: check_received_def)

lemma ni_thread_ptrs: "ni_thread_step i timeout s = Some s' \<Longrightarrow> all_ptrs s' = all_ptrs s"
proof -
  assume st: "ni_thread_step i timeout s = Some s'"
  then have i: "i < length (ni_threads s)" by (auto simp: ni_thread_step_def split: if_splits)
  obtain es pc where t: "ni_threads s ! i = (es, pc)" by fastforce
  show ?thesis
  proof (cases pc)
    case NiWait
    then show ?thesis using st i t finish_ptrs [of i "upd_sess es (\<lambda>p. p\<lparr>sn_resp := GNSS_NI_RESPONSE_NO_RESPONSE\<rparr>) s" es NiWait]
        check_received_ptrs [OF i t] by (auto simp: ni_thread_step_def upd_sess_ptrs split: if_splits)
  next
    case (NiReset a)
    have "s' = s\<lparr>ni_threads := take i (ni_threads s) @ drop (Suc i) (ni_threads s),
        ni_queue := ni_queue s @ (case a of None \<Rightarrow> [] | Some (r, q) \<Rightarrow> [MsgInformNiResponse r q])\<rparr>"
      using st i t NiReset by (simp add: ni_thread_step_def)
    moreover have "sum_list (map msg_ptrs (case a of None \<Rightarrow> [] | Some (r, q) \<Rightarrow> [MsgInformNiResponse r q])) = answer_ptrs a"
      by (auto split: option.splits)
    ultimately show ?thesis using sum_list_remove [OF i, of pc_ptrs] t NiReset
      by (simp add: all_ptrs_def held_def ac_simps flip: sum_list_remove [OF i, of pc_ptrs])
  qed (use st i t check_received_ptrs [OF i t] in \<open>auto simp: ni_thread_step_def set_pc_ptrs upd_sess_ptrs\<close>)
qed

lemma ni_do_ptrs: "ni_do atomic op s = Some s' \<Longrightarrow> all_ptrs s' = op_ptrs op + all_ptrs s"
proof (cases op)
  case (NiProc created)
  assume st: "ni_do atomic op s = Some s'"
  then obtain m ms where q: "ni_queue s = m # ms" "ni_sets s = []" "s' = ni_proc created m (s\<lparr>ni_queue := ms\<rparr>)"
    using NiProc by (auto split: if_splits list.splits)
  then show ?thesis using ni_proc_ptrs [of "s\<lparr>ni_queue := ms\<rparr>" created m] NiProc by (simp add: all_ptrs_def held_def ac_simps)
next
  case NiSet
  assume st: "ni_do atomic op s = Some s'"
  then show ?thesis using NiSet
    by (cases "ni_sets s"; cases "hd (ni_sets s)")
       (auto simp: upd_sess_def respond_def all_ptrs_def held_def ni_say_def settled_one ac_simps)
qed (auto split: if_splits simp: ni_thread_ptrs, auto simp: all_ptrs_def held_def)

lemma ni_reach_conserved: "ni_reach atomic cf ops s \<Longrightarrow> arrived ops = settled (ni_log s) + held s"
proof (induction rule: ni_reach.induct)
  case ni_start
  then show ?case by (simp add: arrived_def settled_def held_def ni_init_def no_session_def)
next
  case (ni_next ops s op s')
  then show ?case using ni_do_ptrs [of atomic op s s'] by (simp add: arrived_def all_ptrs_def ac_simps)
qed

text \<open>C4. No request of the network is lost, doubled or answered twice, in any interleaving of the
  adapter, the threads of the sessions, their timeouts and the answers of clients: the requests that
  arrived are those that were answered, released or had nobody to ask, and those that a session, a
  thread or the queue still holds.\<close>

theorem ni_requests_conserved:
  "ni_reach False cf ops s \<Longrightarrow> arrived ops = settled (ni_log s) + held s"
  by (rule ni_reach_conserved)

section \<open>Every request ends\<close>

text \<open>A session with a request has a thread that will take the lock or waits.\<close>

definition ni_watched :: "ni_state \<Rightarrow> bool" where
  "ni_watched s \<longleftrightarrow> (\<forall>es. rawRequest (sess es s) \<noteq> None \<longrightarrow> (es, NiStart) \<in> set (ni_threads s) \<or> (es, NiWait) \<in> set (ni_threads s))"

lemma sess_upd [simp]: "sess es' (upd_sess es f s) = (if es' = es then f (sess es s) else sess es' s)"
  by (simp add: sess_def upd_sess_def)

lemma sess_other [simp]:
  "sess es (ni_say evs s) = sess es s" "sess es (s\<lparr>ni_threads := ts\<rparr>) = sess es s" "sess es (s\<lparr>ni_queue := q\<rparr>) = sess es s"
  "sess es (s\<lparr>ni_sets := ts'\<rparr>) = sess es s" "sess es (s\<lparr>niClients := cs\<rparr>) = sess es s" "sess es (s\<lparr>ni_config := cf\<rparr>) = sess es s"
  "sess es (s\<lparr>reqIDCounter := n\<rparr>) = sess es s"
  by (simp_all add: sess_def ni_say_def)

lemma upd_sess_other [simp]:
  "ni_queue (upd_sess es f s) = ni_queue s" "ni_sets (upd_sess es f s) = ni_sets s" "ni_log (upd_sess es f s) = ni_log s"
  "ni_threads (ni_say evs s) = ni_threads s" "ni_queue (ni_say evs s) = ni_queue s" "ni_sets (ni_say evs s) = ni_sets s"
  "ni_log (ni_say evs s) = ni_log s @ evs" "reqIDCounter (upd_sess es f s) = reqIDCounter s"
  by (simp_all add: upd_sess_def ni_say_def)

lemma sess_fields: "ni_normal s = sess False s" "ni_es s = sess True s"
  by (simp_all add: sess_def)

lemma watched_simps:
  "ni_watched (s\<lparr>niClients := cs\<rparr>) = ni_watched s" "ni_watched (s\<lparr>ni_config := cf\<rparr>) = ni_watched s" "ni_watched (s\<lparr>ni_queue := q\<rparr>) = ni_watched s"
  by (simp_all add: ni_watched_def)

lemma replaced_in_set: "i < length xs \<Longrightarrow> x \<in> set xs \<Longrightarrow> x \<noteq> xs ! i \<Longrightarrow> x \<in> set (xs[i := y])"
  by (metis in_set_conv_nth length_list_update nth_list_update_neq)

lemma removed_in_set: "i < length xs \<Longrightarrow> x \<in> set xs \<Longrightarrow> x \<noteq> xs ! i \<Longrightarrow> x \<in> set (take i xs @ drop (Suc i) xs)"
  by (metis Un_iff id_take_nth_drop set_ConsD set_append)

lemma finish_view:
  "rawRequest (sess es' (finish_thread i es s)) = (if es' = es then None else rawRequest (sess es' s))"
  "respRecvd (sess es' (finish_thread i es s)) = (if es' = es then False else respRecvd (sess es' s))"
  "sn_resp (sess es' (finish_thread i es s)) = sn_resp (sess es' s)" "reqID (sess es' (finish_thread i es s)) = reqID (sess es' s)"
  "ni_threads (finish_thread i es s) = (ni_threads s)[i := (es, NiUnlocked (fst (ni_finish (sess es s))))]"
  "ni_queue (finish_thread i es s) = ni_queue s" "ni_sets (finish_thread i es s) = ni_sets s"
  "ni_log (finish_thread i es s) = ni_log s @ fst (snd (ni_finish (sess es s)))"
  by (auto simp: finish_thread_def ni_finish_def Let_def split: prod.splits option.splits)

lemma watched_finish:
  assumes "ni_watched s" "i < length (ni_threads s)" "ni_threads s ! i = (es, pc)"
  shows "ni_watched (finish_thread i es s)"
  unfolding ni_watched_def
proof (intro allI impI)
  fix es'
  assume "rawRequest (sess es' (finish_thread i es s)) \<noteq> None"
  then have "es' \<noteq> es" "rawRequest (sess es' s) \<noteq> None" by (simp_all add: finish_view split: if_splits)
  then show "(es', NiStart) \<in> set (ni_threads (finish_thread i es s)) \<or> (es', NiWait) \<in> set (ni_threads (finish_thread i es s))"
    using assms replaced_in_set [OF assms(2)] by (auto simp: ni_watched_def finish_view)
qed

lemma watched_replace:
  assumes "ni_watched s" "i < length (ni_threads s)" "ni_threads s ! i = (es, pc)" "pc \<in> {NiStart, NiWait} \<longrightarrow> pc' = NiWait"
    "\<And>p. rawRequest (f p) = rawRequest p"
  shows "ni_watched (set_pc i es pc' (upd_sess es f s))"
  unfolding ni_watched_def
proof (intro allI impI)
  fix es'
  assume r: "rawRequest (sess es' (set_pc i es pc' (upd_sess es f s))) \<noteq> None"
  let ?ts = "(ni_threads s)[i := (es, pc')]"
  have raw: "rawRequest (sess es' s) \<noteq> None" using r assms(5) by (auto simp: set_pc_def split: if_splits)
  have new: "(es, pc') \<in> set ?ts" using assms(2) by (simp add: set_update_memI)
  from raw assms(1) consider p where "p \<in> {NiStart, NiWait}" "(es', p) \<in> set (ni_threads s)" by (auto simp: ni_watched_def)
  then have "(es', NiStart) \<in> set ?ts \<or> (es', NiWait) \<in> set ?ts"
  proof cases
    case 1
    show ?thesis
    proof (cases "(es', p) = ni_threads s ! i")
      case True
      then show ?thesis using 1(1) assms(3,4) new by auto
    next
      case False
      then show ?thesis using replaced_in_set [OF assms(2) 1(2) False, of "(es, pc')"] 1(1) by auto
    qed
  qed
  then show "(es', NiStart) \<in> set (ni_threads (set_pc i es pc' (upd_sess es f s))) \<or> (es', NiWait) \<in> set (ni_threads (set_pc i es pc' (upd_sess es f s)))"
    by (simp add: set_pc_def)
qed

lemma upd_id: "upd_sess es (\<lambda>p. p) s = s"
  by (simp add: upd_sess_def)

lemma watched_check:
  assumes "ni_watched s" "i < length (ni_threads s)" "ni_threads s ! i = (es, pc)"
  shows "ni_watched (check_received i es s)"
  using watched_finish [OF assms] watched_replace [OF assms, of NiWait "\<lambda>p. p"] by (simp add: check_received_def upd_id)

lemma watched_thread: "ni_watched s \<Longrightarrow> ni_thread_step i timeout s = Some s' \<Longrightarrow> ni_watched s'"
proof -
  assume w: "ni_watched s" and st: "ni_thread_step i timeout s = Some s'"
  then have i: "i < length (ni_threads s)" by (auto simp: ni_thread_step_def split: if_splits)
  obtain es pc where t: "ni_threads s ! i = (es, pc)" by fastforce
  show ?thesis
  proof (cases pc)
    case NiWait
    have "ni_watched (upd_sess es (\<lambda>p. p\<lparr>sn_resp := GNSS_NI_RESPONSE_NO_RESPONSE\<rparr>) s)" using w by (simp add: ni_watched_def)
    then show ?thesis using st i t NiWait watched_check [OF w i t] watched_finish [of "upd_sess es (\<lambda>p. p\<lparr>sn_resp := GNSS_NI_RESPONSE_NO_RESPONSE\<rparr>) s" i es NiWait]
      by (auto simp: ni_thread_step_def split: if_splits)
  next
    case (NiReset a)
    have "x \<in> set (ni_threads s) \<Longrightarrow> snd x = NiStart \<or> snd x = NiWait \<Longrightarrow> x \<in> set (take i (ni_threads s) @ drop (Suc i) (ni_threads s))" for x
      using removed_in_set [OF i, of x] t NiReset by (cases x) auto
    then show ?thesis using st i t NiReset w by (fastforce simp: ni_thread_step_def ni_watched_def)
  qed (use st i t w watched_check [OF w i t] watched_replace [OF w i t] in \<open>auto simp: ni_thread_step_def\<close>)
qed

lemma watched_start:
  "ni_watched s \<Longrightarrow> ni_watched (start_session True es client notify data s)"
  by (auto simp: start_session_def Let_def ni_watched_def)

lemma watched_proc: "ni_watched s \<Longrightarrow> ni_watched (ni_proc True m s)"
proof (cases m)
  case (MsgReportNiNotify notify data em)
  have r: "ni_watched s \<Longrightarrow> ni_watched (requestNiNotify True notify data accept s)" for accept
    using watched_start by (auto simp: requestNiNotify_def ni_watched_def split: list.splits)
  assume "ni_watched s"
  with r show ?thesis using MsgReportNiNotify by (simp add: report_ni_proc_def Let_def) (simp add: ni_watched_def)
qed (auto simp: ni_response_proc_def ni_watched_def)

lemma watched_do: "ni_do atomic op s = Some s' \<Longrightarrow> op \<noteq> NiProc False \<Longrightarrow> ni_watched s \<Longrightarrow> ni_watched s'"
proof (cases op)
  case (NiProc created)
  assume "ni_do atomic op s = Some s'" "op \<noteq> NiProc False" "ni_watched s"
  then show ?thesis using NiProc watched_proc [of "s\<lparr>ni_queue := tl (ni_queue s)\<rparr>" "hd (ni_queue s)"]
    by (cases created) (auto simp: ni_watched_def split: if_splits list.splits)
next
  case NiSet
  assume "ni_do atomic op s = Some s'" "ni_watched s"
  moreover have "rawRequest (respond r p) = rawRequest p" for r p by (simp add: respond_def)
  ultimately show ?thesis using NiSet by (fastforce simp: ni_watched_def split: list.splits ni_task.splits if_splits)
qed (auto simp: watched_simps split: if_splits intro: watched_thread)

lemma watched_reach: "ni_reach atomic cf ops s \<Longrightarrow> NiProc False \<notin> set ops \<Longrightarrow> ni_watched s"
proof (induction rule: ni_reach.induct)
  case ni_start
  then show ?case by (simp add: ni_watched_def ni_init_def no_session_def sess_def)
next
  case (ni_next ops s op s')
  then show ?case using watched_do by fastforce
qed

text \<open>How many steps of its own the program can still make.\<close>

fun pc_weight :: "bool \<times> ni_pc \<Rightarrow> nat" where
  "pc_weight (es, NiStart) = 6"
| "pc_weight (es, NiWait) = 5"
| "pc_weight (es, NiUnlocked a) = 4"
| "pc_weight (es, NiCleared a) = 3"
| "pc_weight (es, NiReset a) = 2"

fun msg_weight :: "ni_msg \<Rightarrow> nat" where
  "msg_weight (MsgReportNiNotify notify data emergencyState) = 7"
| "msg_weight (MsgGnssNiResponse client sessionId r) = 4"
| "msg_weight (MsgInformNiResponse r q) = 1"

definition ni_weight :: "ni_state \<Rightarrow> nat" where
  "ni_weight s = length (ni_sets s) + sum_list (map msg_weight (ni_queue s)) + sum_list (map pc_weight (ni_threads s))"

definition own_op :: "ni_state \<Rightarrow> ni_op" where
  "own_op s = (if ni_sets s \<noteq> [] then NiSet else if ni_queue s \<noteq> [] then NiProc True else NiThread 0 True)"

lemma weight_proc:
  assumes "ni_sets s = []"
  shows "ni_weight (ni_proc True m s) < ni_weight s + msg_weight m"
proof (cases m)
  case (MsgReportNiNotify notify data em)
  have "ni_weight (requestNiNotify True notify data accept s) < ni_weight s + 7" for accept
    using assms by (auto simp: requestNiNotify_def start_session_def Let_def ni_weight_def split: list.splits)
  then show ?thesis using MsgReportNiNotify by (simp add: report_ni_proc_def Let_def) (simp add: ni_weight_def)
qed (use assms in \<open>auto simp: ni_response_proc_def ni_weight_def\<close>)

lemma own_step:
  assumes "ni_weight s > 0"
  shows "\<exists>s'. ni_do False (own_op s) s = Some s' \<and> ni_weight s' < ni_weight s"
proof (cases "ni_sets s")
  case (Cons t ts)
  then show ?thesis by (cases t) (auto simp: own_op_def ni_weight_def)
next
  case sets: Nil
  show ?thesis
  proof (cases "ni_queue s")
    case (Cons m ms)
    then show ?thesis using sets weight_proc [of "s\<lparr>ni_queue := ms\<rparr>" m] by (simp add: own_op_def ni_weight_def)
  next
    case queue: Nil
    then obtain es pc ts where t: "ni_threads s = (es, pc) # ts" using assms sets by (cases "ni_threads s") (auto simp: ni_weight_def)
    show ?thesis
    proof (cases pc)
      case (NiReset a)
      then show ?thesis using sets queue t by (auto simp: own_op_def ni_weight_def ni_thread_step_def split: option.splits)
    qed (use sets queue t in \<open>auto simp: own_op_def ni_weight_def ni_thread_step_def check_received_def finish_view set_pc_def\<close>)
  qed
qed

lemma settles:
  "ni_reach False cf ops s \<Longrightarrow> NiProc False \<notin> set ops \<Longrightarrow>
    \<exists>own s'. length own \<le> ni_weight s \<and> set own \<subseteq> {NiSet, NiProc True, NiThread 0 True} \<and> ni_reach False cf (ops @ own) s' \<and> ni_weight s' = 0"
proof (induction "ni_weight s" arbitrary: ops s rule: less_induct)
  case less
  show ?case
  proof (cases "ni_weight s = 0")
    case True
    then show ?thesis using less.prems(1) by (intro exI [of _ "[]"]) auto
  next
    case False
    then obtain s1 where s1: "ni_do False (own_op s) s = Some s1" "ni_weight s1 < ni_weight s" using own_step [of s] by auto
    have op: "own_op s \<in> {NiSet, NiProc True, NiThread 0 True}" by (simp add: own_op_def)
    have "NiProc False \<notin> set (ops @ [own_op s])" using less.prems(2) op by auto
    then obtain own s' where o: "length own \<le> ni_weight s1" "set own \<subseteq> {NiSet, NiProc True, NiThread 0 True}"
      "ni_reach False cf ((ops @ [own_op s]) @ own) s'" "ni_weight s' = 0"
      using less.hyps [OF s1(2) ni_next [OF less.prems(1) s1(1)]] by blast
    then show ?thesis using op s1(2) by (intro exI [of _ "own_op s # own"] exI [of _ s']) auto
  qed
qed

lemma pc_weight_pos: "pc_weight t \<noteq> 0"
  by (cases t; cases "snd t") auto

lemma weight_zero: "ni_weight s = 0 \<Longrightarrow> ni_watched s \<Longrightarrow> held s = {#}"
proof -
  assume w: "ni_weight s = 0" and n: "ni_watched s"
  have "ni_threads s = []" using w by (cases "ni_threads s") (simp_all add: ni_weight_def pc_weight_pos)
  moreover have "ni_queue s = []" using w by (cases "ni_queue s"; cases "hd (ni_queue s)") (auto simp: ni_weight_def)
  moreover have "ni_sets s = []" using w by (simp add: ni_weight_def)
  moreover have "rawRequest (sess es s) = None" for es using n \<open>ni_threads s = []\<close> by (auto simp: ni_watched_def)
  ultimately show ?thesis by (simp add: held_def sess_fields)
qed

text \<open>C6. Whatever clients do, every request of the network ends: in every reachable state the steps of
  the program itself, at most as many as its weight, lead to a state in which nothing is held any more
  and all requests that arrived were answered, released or had nobody to ask. The threads of the
  sessions could be created.\<close>

theorem ni_requests_settle:
  assumes "ni_reach False cf ops s" "NiProc False \<notin> set ops"
  shows "\<exists>own s'. length own \<le> ni_weight s \<and> set own \<subseteq> {NiSet, NiProc True, NiThread 0 True} \<and>
    ni_reach False cf (ops @ own) s' \<and> held s' = {#} \<and> settled (ni_log s') = arrived ops"
proof -
  obtain own s' where o: "length own \<le> ni_weight s" "set own \<subseteq> {NiSet, NiProc True, NiThread 0 True}"
    "ni_reach False cf (ops @ own) s'" "ni_weight s' = 0"
    using settles [OF assms] by blast
  have "NiProc False \<notin> set (ops @ own)" using assms(2) o(2) by auto
  then have h: "held s' = {#}" using weight_zero [OF o(4)] watched_reach [OF o(3)] by blast
  have "arrived (ops @ own) = settled (ni_log s')" using ni_reach_conserved [OF o(3)] h by simp
  moreover have "arrived own = {#}" using o(2) by (induction own) (auto simp: arrived_def)
  ultimately have "settled (ni_log s') = arrived ops" by (simp add: arrived_def)
  then show ?thesis using o h by blast
qed

section \<open>Whose answer it is\<close>

text \<open>An answer is owed to nobody, or a client gave it for the identifier of the request (or for 0).\<close>

definition given :: "ni_op list \<Rightarrow> ni_event list \<Rightarrow> ni_response \<Rightarrow> addr \<Rightarrow> bool" where
  "given ops es r q \<longleftrightarrow> r = GNSS_NI_RESPONSE_NO_RESPONSE \<or> r = GNSS_NI_RESPONSE_IGNORE \<or>
     (\<exists>c i client sessionId. GnssNiCb c i (Some q) \<in> set es \<and> NiAnswer client sessionId r \<in> set ops \<and> (sessionId = i \<or> sessionId = 0))"

fun pc_answer :: "ni_pc \<Rightarrow> (ni_response \<times> addr) option" where
  "pc_answer (NiUnlocked a) = a"
| "pc_answer (NiCleared a) = a"
| "pc_answer (NiReset a) = a"
| "pc_answer _ = None"

definition asked :: "ni_state \<Rightarrow> bool \<Rightarrow> bool" where
  "asked s es \<longleftrightarrow> (\<forall>q. rawRequest (sess es s) = Some q \<longrightarrow> (\<exists>c i. GnssNiCb c i (Some q) \<in> set (ni_log s) \<and> reqID (sess es s) \<in> {i, 0}))"

definition ready :: "ni_op list \<Rightarrow> ni_state \<Rightarrow> bool \<Rightarrow> bool" where
  "ready ops s es \<longleftrightarrow> (respRecvd (sess es s) \<longrightarrow> (\<exists>q. rawRequest (sess es s) = Some q \<and> given ops (ni_log s) (sn_resp (sess es s)) q))"

definition answers_own :: "ni_op list \<Rightarrow> ni_state \<Rightarrow> bool" where
  "answers_own ops s \<longleftrightarrow> (\<forall>es. asked s es) \<and> (\<forall>es. ready ops s es) \<and>
     (\<forall>es r. NiSetResp es r \<in> set (ni_sets s) \<longrightarrow> (\<exists>q. rawRequest (sess es s) = Some q \<and> given ops (ni_log s) r q)) \<and>
     (\<forall>e. NiSay e \<in> set (ni_sets s) \<longrightarrow> (\<exists>c b i. e = NiReport c b i)) \<and>
     (\<forall>t \<in> set (ni_threads s). \<forall>r q. pc_answer (snd t) = Some (r, q) \<longrightarrow> given ops (ni_log s) r q) \<and>
     (\<forall>r q. MsgInformNiResponse r q \<in> set (ni_queue s) \<longrightarrow> given ops (ni_log s) r q) \<and>
     (\<forall>c i r. MsgGnssNiResponse c i r \<in> set (ni_queue s) \<longrightarrow> NiAnswer c i r \<in> set ops) \<and>
     (\<forall>r q. InformNiResponse r (Some q) \<in> set (ni_log s) \<longrightarrow> given ops (ni_log s) r q)"

lemma given_mono: "given ops es r q \<Longrightarrow> set ops \<subseteq> set ops' \<Longrightarrow> set es \<subseteq> set es' \<Longrightarrow> given ops' es' r q"
  unfolding given_def by blast

lemma given_more: "given ops es r q \<Longrightarrow> given (ops @ o2) es r q" "given ops es r q \<Longrightarrow> given ops (es @ e2) r q"
  by (auto elim: given_mono)

lemma own_more_ops: "answers_own ops s \<Longrightarrow> answers_own (ops @ o2) s"
  unfolding answers_own_def ready_def set_append Un_iff using given_more(1) by meson

text \<open>Saying something that is no answer changes nothing.\<close>

lemma own_say: "answers_own ops s \<Longrightarrow> \<forall>e \<in> set evs. \<forall>r p. e \<noteq> InformNiResponse r p \<Longrightarrow> answers_own ops (ni_say evs s)"
  by (auto simp: answers_own_def asked_def ready_def given_more) (meson given_more(2))+

lemma own_finish:
  assumes "answers_own ops s" "i < length (ni_threads s)" "ni_sets s = []"
    and g: "\<And>q. rawRequest (sess es s) = Some q \<Longrightarrow> given ops (ni_log s) (sn_resp (sess es s)) q"
  shows "answers_own ops (finish_thread i es s)"
proof -
  let ?t = "(es, NiUnlocked (fst (ni_finish (sess es s))))" and ?freed = "fst (snd (ni_finish (sess es s)))"
  let ?s = "(upd_sess es (\<lambda>_. snd (snd (ni_finish (sess es s)))) s)\<lparr>ni_threads := (ni_threads s)[i := ?t]\<rparr>"
  have e: "finish_thread i es s = ni_say ?freed ?s" by (simp add: finish_thread_def split: prod.splits)
  have p: "rawRequest (snd (snd (ni_finish (sess es s)))) = None" "\<not> respRecvd (snd (snd (ni_finish (sess es s))))"
    by (simp_all add: ni_finish_def Let_def split: option.splits)
  have a: "given ops (ni_log s) r q" if "fst (ni_finish (sess es s)) = Some (r, q)" for r q
    using that g by (auto simp: ni_finish_def Let_def split: option.splits if_splits)
  have "asked ?s es'" "ready ops ?s es'" for es' using assms(1) p by (auto simp: answers_own_def asked_def ready_def)
  moreover have "given ops (ni_log s) r q" if "t \<in> set ((ni_threads s)[i := ?t])" "pc_answer (snd t) = Some (r, q)" for t r q
  proof -
    from that(1) have "t = ?t \<or> t \<in> set (ni_threads s)" using set_update_subset_insert [of "ni_threads s" i ?t] by auto
    then show ?thesis using that(2) a assms(1) unfolding answers_own_def by auto
  qed
  ultimately have "answers_own ops ?s" using assms(1,3) by (auto simp: answers_own_def)
  moreover have "\<forall>ev \<in> set ?freed. \<forall>r p. ev \<noteq> InformNiResponse r p" by (auto simp: ni_finish_def Let_def split: option.splits)
  ultimately show ?thesis unfolding e by (rule own_say)
qed

lemma own_set_pc:
  assumes "answers_own ops s" "i < length (ni_threads s)" "pc_answer pc = None \<or> pc_answer pc = pc_answer (snd (ni_threads s ! i))"
  shows "answers_own ops (set_pc i es pc s)"
proof -
  have "given ops (ni_log s) r q" if "t \<in> set ((ni_threads s)[i := (es, pc)])" "pc_answer (snd t) = Some (r, q)" for t r q
  proof -
    have old: "given ops (ni_log s) r q" if "u \<in> set (ni_threads s)" "pc_answer (snd u) = Some (r, q)" for u
      using assms(1) that unfolding answers_own_def by blast
    from that(1) have "t = (es, pc) \<or> t \<in> set (ni_threads s)" using set_update_subset_insert [of "ni_threads s" i "(es, pc)"] by auto
    then show ?thesis using that(2) assms(3) old [of "ni_threads s ! i"] old [of t] nth_mem [OF assms(2)] by auto
  qed
  then show ?thesis using assms(1) by (auto simp: answers_own_def set_pc_def asked_def ready_def)
qed

lemma own_upd:
  assumes "answers_own ops s" "\<And>p. rawRequest (f p) = rawRequest p" "\<And>p. respRecvd (f p) = respRecvd p" "\<And>p. sn_resp (f p) = sn_resp p"
    "\<And>p. reqID (f p) = reqID p \<or> reqID (f p) = 0"
  shows "answers_own ops (upd_sess es f s)"
proof -
  have "asked (upd_sess es f s) es'" for es'
  proof -
    have "asked s es'" using assms(1) by (simp add: answers_own_def)
    then show ?thesis using assms(2) assms(5) [of "sess es s"] by (fastforce simp: asked_def)
  qed
  then show ?thesis using assms(1-4) by (auto simp: answers_own_def ready_def)
qed

lemma own_shrink: "answers_own ops s \<Longrightarrow> set ts \<subseteq> set (ni_threads s) \<Longrightarrow> answers_own ops (s\<lparr>ni_threads := ts\<rparr>)"
proof -
  assume o: "answers_own ops s" and ts: "set ts \<subseteq> set (ni_threads s)"
  have "\<forall>t \<in> set ts. \<forall>r q. pc_answer (snd t) = Some (r, q) \<longrightarrow> given ops (ni_log s) r q"
    using o ts unfolding answers_own_def by blast
  then show ?thesis using o by (simp add: answers_own_def asked_def ready_def)
qed

lemma own_thread:
  assumes "answers_own ops s" "ni_sets s = []" "ni_thread_step i timeout s = Some s'"
  shows "answers_own ops s'"
proof -
  have i: "i < length (ni_threads s)" using assms(3) by (auto simp: ni_thread_step_def split: if_splits)
  obtain es pc where t: "ni_threads s ! i = (es, pc)" by fastforce
  have recvd: "given ops (ni_log s) (sn_resp (sess es s)) q" if "respRecvd (sess es s)" "rawRequest (sess es s) = Some q" for q
    using assms(1) that by (auto simp: answers_own_def ready_def)
  have check: "answers_own ops (check_received i es s)" if "pc_answer pc = None"
    using own_finish [OF assms(1) i assms(2)] recvd own_set_pc [OF assms(1) i, of NiWait es] by (auto simp: check_received_def)
  show ?thesis
  proof (cases pc)
    case NiWait
    let ?s = "finish_thread i es (upd_sess es (\<lambda>p. p\<lparr>sn_resp := GNSS_NI_RESPONSE_NO_RESPONSE\<rparr>) s)"
    have u: "answers_own ops (upd_sess es (\<lambda>p. p\<lparr>sn_resp := GNSS_NI_RESPONSE_NO_RESPONSE\<rparr>) s)"
      using assms(1) by (auto simp: answers_own_def asked_def ready_def given_def)
    have "answers_own ops ?s" by (rule own_finish [OF u]) (use i assms(2) in \<open>simp_all add: given_def\<close>)
    then show ?thesis using assms(3) i t NiWait check by (auto simp: ni_thread_step_def split: if_splits)
  next
    case (NiReset a)
    have r: "given ops (ni_log s) r q" if "a = Some (r, q)" for r q
      using assms(1) nth_mem [OF i] t NiReset that unfolding answers_own_def by fastforce
    let ?s = "s\<lparr>ni_threads := take i (ni_threads s) @ drop (Suc i) (ni_threads s)\<rparr>"
    have "set (take i (ni_threads s) @ drop (Suc i) (ni_threads s)) \<subseteq> set (ni_threads s)" by (auto dest: in_set_takeD in_set_dropD)
    from own_shrink [OF assms(1) this] have o: "answers_own ops ?s" .
    have "answers_own ops (?s\<lparr>ni_queue := ni_queue s @ (case a of None \<Rightarrow> [] | Some (r, q) \<Rightarrow> [MsgInformNiResponse r q])\<rparr>)"
      using o r by (auto simp: answers_own_def asked_def ready_def split: option.splits)
    then show ?thesis using assms(3) i t NiReset by (simp add: ni_thread_step_def)
  next
    case NiStart
    then show ?thesis using assms(3) i t check by (simp add: ni_thread_step_def)
  next
    case (NiUnlocked a)
    have "answers_own ops (upd_sess es (\<lambda>p. p\<lparr>respTimeLeft := 0\<rparr>) s)" by (rule own_upd [OF assms(1)]) simp_all
    then show ?thesis using assms(3) i t NiUnlocked own_set_pc [of ops "upd_sess es (\<lambda>p. p\<lparr>respTimeLeft := 0\<rparr>) s" i "NiCleared a" es]
      by (simp add: ni_thread_step_def)
  next
    case (NiCleared a)
    have "answers_own ops (upd_sess es (\<lambda>p. p\<lparr>reqID := 0\<rparr>) s)" by (rule own_upd [OF assms(1)]) simp_all
    then show ?thesis using assms(3) i t NiCleared own_set_pc [of ops "upd_sess es (\<lambda>p. p\<lparr>reqID := 0\<rparr>) s" i "NiReset a" es]
      by (simp add: ni_thread_step_def)
  qed
qed

lemma own_start:
  assumes "answers_own ops s" "rawRequest (sess es s) = None" "ni_sets s = []"
  shows "answers_own ops (start_session created es client notify data s)"
proof -
  let ?i = "reqIDCounter s + 1"
  let ?s = "start_session created es client notify data s"
  have f: "ni_log ?s = ni_log s @ [GnssNiCb client ?i data]" "ni_sets ?s = []" "ni_queue ?s = ni_queue s"
    "set (ni_threads ?s) \<subseteq> insert (es, NiStart) (set (ni_threads s))" "es' \<noteq> es \<Longrightarrow> sess es' ?s = sess es' s"
    "rawRequest (sess es ?s) = data" "reqID (sess es ?s) = ?i" "respRecvd (sess es ?s) = respRecvd (sess es s)" for es'
    using assms(3) by (auto simp: start_session_def Let_def)
  have n: "\<not> respRecvd (sess es s)" using assms(1,2) by (auto simp: answers_own_def ready_def)
  have old: "ready ops s es'" "asked s es'" for es' using assms(1) by (simp_all add: answers_own_def)
  have "ready ops ?s es' \<and> asked ?s es'" for es'
  proof (cases "es' = es")
    case True
    then show ?thesis using n f(1,6,7,8) by (auto simp: ready_def asked_def) metis+
  next
    case False
    note s = f(5) [OF False]
    have "ready ops ?s es'" using old(1) [of es'] given_more(2) unfolding ready_def s f(1) by blast
    moreover have "asked ?s es'" using old(2) [of es'] unfolding asked_def s f(1) set_append by blast
    ultimately show ?thesis ..
  qed
  moreover have "given ops (ni_log ?s) r q" if t: "t \<in> set (ni_threads ?s)" and a: "pc_answer (snd t) = Some (r, q)" for t r q
  proof -
    have "t \<in> set (ni_threads s)" using subsetD [OF f(4) t] a by (cases t) auto
    then have "given ops (ni_log s) r q" using assms(1) a unfolding answers_own_def by blast
    then show ?thesis unfolding f(1) by (rule given_more(2))
  qed
  moreover have "given ops (ni_log ?s) r q" if "MsgInformNiResponse r q \<in> set (ni_queue s) \<or> InformNiResponse r (Some q) \<in> set (ni_log ?s)" for r q
  proof -
    have "given ops (ni_log s) r q" using that assms(1) unfolding answers_own_def f(1) by auto
    then show ?thesis unfolding f(1) by (rule given_more(2))
  qed
  moreover have "\<forall>c i r. MsgGnssNiResponse c i r \<in> set (ni_queue s) \<longrightarrow> NiAnswer c i r \<in> set ops" using assms(1) by (simp add: answers_own_def)
  ultimately show ?thesis unfolding answers_own_def f(2,3) by (intro conjI) (blast | simp)+
qed

lemma own_report:
  assumes "answers_own ops s" "ni_sets s = []"
  shows "answers_own ops (report_ni_proc created notify data em s)"
proof -
  have q: "answers_own ops (requestNiNotify created notify data accept s)" for accept
  proof -
    have "answers_own ops (s\<lparr>ni_sets := [NiSetResp False GNSS_NI_RESPONSE_IGNORE]\<rparr>)" if "rawRequest (ni_normal s) \<noteq> None"
      using assms(1) that by (auto simp: answers_own_def asked_def ready_def given_def sess_fields)
    then show ?thesis using own_start [OF assms(1) _ assms(2)] own_say [OF assms(1)] own_say [of ops "s\<lparr>ni_sets := [NiSetResp False GNSS_NI_RESPONSE_IGNORE]\<rparr>"] assms(1)
      by (auto simp: requestNiNotify_def free_request_def sess_fields split: list.splits)
  qed
  then show ?thesis using own_say [OF assms(1)] by (simp add: report_ni_proc_def Let_def)
qed

lemma own_response:
  assumes "answers_own ops s" "ni_sets s = []" "NiAnswer client sessionId r \<in> set ops"
  shows "answers_own ops (ni_response_proc client sessionId r s)"
proof -
  have g: "given ops (ni_log s) r q" if raw: "rawRequest (sess es s) = Some q" and i: "sessionId = reqID (sess es s)" for es q
  proof -
    have "asked s es" using assms(1) by (simp add: answers_own_def)
    then obtain c i where "GnssNiCb c i (Some q) \<in> set (ni_log s)" "reqID (sess es s) \<in> {i, 0}" using raw unfolding asked_def by blast
    then show ?thesis using assms(3) i unfolding given_def by blast
  qed
  have ign: "given ops (ni_log s) GNSS_NI_RESPONSE_IGNORE q" for q by (simp add: given_def)
  have sets: "answers_own ops (s\<lparr>ni_sets := ts\<rparr>)"
    if "\<forall>es r. NiSetResp es r \<in> set ts \<longrightarrow> (\<exists>q. rawRequest (sess es s) = Some q \<and> given ops (ni_log s) r q)"
      "\<forall>e. NiSay e \<in> set ts \<longrightarrow> (\<exists>c b i. e = NiReport c b i)" for ts
    using assms(1) that by (auto simp: answers_own_def asked_def ready_def)
  show ?thesis using g [of True] g [of False] ign
    by (auto simp: ni_response_proc_def sess_fields intro!: sets own_say [OF assms(1)])
qed

lemma own_do:
  assumes "answers_own ops s" "ni_do True op s = Some s'"
  shows "answers_own (ops @ [op]) s'"
proof (cases op)
  case (NiProc created)
  then obtain m ms where q: "ni_queue s = m # ms" "ni_sets s = []" "s' = ni_proc created m (s\<lparr>ni_queue := ms\<rparr>)"
    using assms(2) by (auto split: if_splits list.splits)
  have o: "answers_own ops (s\<lparr>ni_queue := ms\<rparr>)" using assms(1) q(1) by (auto simp: answers_own_def asked_def ready_def)
  have "answers_own ops s'"
  proof (cases m)
    case (MsgReportNiNotify notify data em)
    then show ?thesis using own_report [OF o] q by simp
  next
    case (MsgGnssNiResponse client sessionId r)
    then have "NiAnswer client sessionId r \<in> set ops" using assms(1) q(1) by (auto simp: answers_own_def)
    then show ?thesis using own_response [OF o] q MsgGnssNiResponse by simp
  next
    case (MsgInformNiResponse r p)
    then have "given ops (ni_log s) r p" using assms(1) q(1) by (auto simp: answers_own_def)
    then have "given ops (ni_log s @ [InformNiResponse r (Some p)]) r p" by (rule given_more)
    then show ?thesis using o q MsgInformNiResponse by (auto simp: answers_own_def asked_def ready_def given_more)
  qed
  then show ?thesis by (rule own_more_ops)
next
  case NiSet
  have "answers_own ops s'"
  proof (cases "ni_sets s")
    case (Cons t ts)
    show ?thesis
    proof (cases t)
      case (NiSetResp es r)
      then have "s' = (upd_sess es (respond r) s)\<lparr>ni_sets := ts\<rparr>" using assms(2) NiSet Cons by simp
      moreover have "NiSetResp es r \<in> set (ni_sets s)" using Cons NiSetResp by simp
      then obtain q where "rawRequest (sess es s) = Some q" "given ops (ni_log s) r q"
        using assms(1) unfolding answers_own_def by blast
      moreover have "answers_own ops (s\<lparr>ni_sets := ts\<rparr>)" using assms(1) Cons by (auto simp: answers_own_def asked_def ready_def)
      ultimately show ?thesis unfolding answers_own_def asked_def ready_def respond_def by (simp, metis option.inject)
    next
      case (NiSay e)
      then have "\<exists>c b i. e = NiReport c b i" using assms(1) Cons by (auto simp: answers_own_def)
      moreover have "answers_own ops (s\<lparr>ni_sets := ts\<rparr>)" using assms(1) Cons by (auto simp: answers_own_def asked_def ready_def)
      ultimately show ?thesis using assms(2) NiSet Cons NiSay own_say by fastforce
    qed
  qed (use assms(2) NiSet in simp)
  then show ?thesis by (rule own_more_ops)
next
  case (NiThread i timeout)
  then have "answers_own ops s'" using assms own_thread by (auto split: if_splits)
  then show ?thesis by (rule own_more_ops)
next
  case (NiAnswer client sessionId r)
  have "answers_own (ops @ [op]) s" by (rule own_more_ops [OF assms(1)])
  moreover have s': "s' = s\<lparr>ni_queue := ni_queue s @ [MsgGnssNiResponse client sessionId r]\<rparr>" using assms(2) NiAnswer by simp
  moreover have "NiAnswer client sessionId r \<in> set (ops @ [op])" using NiAnswer by simp
  ultimately show ?thesis unfolding answers_own_def asked_def ready_def s' by simp
qed (use own_more_ops [OF assms(1), of "[op]"] assms(2) in \<open>auto simp: answers_own_def asked_def ready_def split: if_splits\<close>)

text \<open>C5. When no thread of a session runs between the check of a session and its setting, an answer
  that ends a request was given by a client for the identifier under which a client was asked about
  this request, or for 0, unless it says that nobody answered in time.\<close>

theorem ni_answers_own:
  assumes "ni_reach True cf ops s" "InformNiResponse r (Some q) \<in> set (ni_log s)" "r \<noteq> GNSS_NI_RESPONSE_NO_RESPONSE" "r \<noteq> GNSS_NI_RESPONSE_IGNORE"
  shows "\<exists>c i client sessionId. GnssNiCb c i (Some q) \<in> set (ni_log s) \<and> NiAnswer client sessionId r \<in> set ops \<and> (sessionId = i \<or> sessionId = 0)"
proof -
  have "answers_own ops s" using assms(1)
  proof (induction rule: ni_reach.induct)
    case ni_start
    then show ?case by (simp add: answers_own_def ni_init_def no_session_def sess_def asked_def ready_def)
  next
    case (ni_next ops s op s')
    then show ?case using own_do by blast
  qed
  then show ?thesis using assms(2-4) by (auto simp: answers_own_def given_def)
qed

section \<open>Concrete runs\<close>

fun ni_run :: "bool \<Rightarrow> ni_op list \<Rightarrow> ni_state \<Rightarrow> ni_state option" where
  "ni_run atomic [] s = Some s"
| "ni_run atomic (op # ops) s = (case ni_do atomic op s of None \<Rightarrow> None | Some s1 \<Rightarrow> ni_run atomic ops s1)"

lemma ni_run_reach: "ni_reach atomic cf ops0 s \<Longrightarrow> ni_run atomic ops s = Some s' \<Longrightarrow> ni_reach atomic cf (ops0 @ ops) s'"
proof (induction ops arbitrary: ops0 s)
  case (Cons op ops)
  then obtain s1 where "ni_do atomic op s = Some s1" "ni_run atomic ops s1 = Some s'" by (auto split: option.splits)
  then show ?case using Cons.IH [OF ni_next [OF Cons.prems(1)]] by simp
qed simp

lemma ni_run_init: "ni_run atomic ops (ni_init cf) = Some s \<Longrightarrow> ni_reach atomic cf ops s"
  using ni_run_reach [OF ni_start] by fastforce

definition demo_conf :: ni_conf where
  "demo_conf = \<lparr>mSupportNfwControl = True, afwControlId = 0, GPS_LOCK = 0, NI_SUPL_DENY_ON_NFW_LOCKED = 0, SUPL_ES = 0, CP_MTLR_ES = 0, e911_state = False\<rparr>"

definition supl :: ni_notification where
  "supl = \<lparr>nn_type = GNSS_NI_TYPE_SUPL, nn_options = 0, nn_timeout = 10, nn_timeoutResponse = GNSS_NI_RESPONSE_DENY\<rparr>"

abbreviation supl_request :: "addr \<Rightarrow> ni_op" where
  "supl_request q \<equiv> NiRequest supl (Some q) LOC_IN_EMERGENCY_NOT_SET"

lemmas ni_eval = ni_init_def no_session_def demo_conf_def supl_def report_ni_proc_def requestNiNotify_def start_session_def denied_by_lock_def in_emergency_now_def
  ni_response_proc_def hasNiNotifyCallback_def ni_thread_step_def check_received_def finish_thread_def ni_finish_def set_pc_def respond_def
  upd_sess_def sess_def ni_say_def GPS_LOCK_NI_def

text \<open>A question, its answer, and a second request that nobody answers.\<close>

definition answered_run :: "ni_op list" where
  "answered_run =
     [NiClients [7], supl_request 100, NiProc True, NiThread 0 False, NiAnswer 7 1 GNSS_NI_RESPONSE_ACCEPT, NiProc True, NiSet, NiSet,
      NiThread 0 False, NiThread 0 False, NiThread 0 False, NiThread 0 False, NiProc True, supl_request 200, NiProc True, NiThread 0 False]"

lemma answered_run_end:
  "\<exists>s. ni_run atomic answered_run (ni_init demo_conf) = Some s \<and>
    ni_log s = [GnssNiCb 7 1 (Some 100), NiReport 7 True 1, InformNiResponse GNSS_NI_RESPONSE_ACCEPT (Some 100), GnssNiCb 7 2 (Some 200)] \<and>
    rawRequest (ni_normal s) = Some 200 \<and> ni_weight s = 5"
  by (cases atomic) (simp_all add: answered_run_def ni_eval ni_weight_def)

theorem ni_requests_conserved_witness:
  "\<exists>s. ni_reach False demo_conf answered_run s \<and> settled (ni_log s) + held s = {#100, 200#}"
proof -
  obtain s where s: "ni_run False answered_run (ni_init demo_conf) = Some s" using answered_run_end by blast
  have "arrived answered_run = {#100, 200#}" by (simp add: arrived_def answered_run_def)
  then show ?thesis using ni_requests_conserved [OF ni_run_init [OF s]] ni_run_init [OF s] by auto
qed

theorem ni_requests_settle_witness:
  "\<exists>own s'. length own \<le> 5 \<and> ni_reach False demo_conf (answered_run @ own) s' \<and> held s' = {#} \<and> settled (ni_log s') = {#100, 200#}"
proof -
  obtain s where s: "ni_run False answered_run (ni_init demo_conf) = Some s" "ni_weight s = 5" using answered_run_end by blast
  have "NiProc False \<notin> set answered_run" "arrived answered_run = {#100, 200#}" by (simp_all add: arrived_def answered_run_def)
  then show ?thesis using ni_requests_settle [OF ni_run_init [OF s(1)]] s(2) by fastforce
qed

theorem ni_answers_own_witness:
  "\<exists>c i client sessionId. (i = 1 \<or> i = 2) \<and> NiAnswer client sessionId GNSS_NI_RESPONSE_ACCEPT \<in> set answered_run \<and> (sessionId = i \<or> sessionId = 0) \<and> c = (7 :: nat)"
proof -
  obtain s where s: "ni_run True answered_run (ni_init demo_conf) = Some s"
    "ni_log s = [GnssNiCb 7 1 (Some 100), NiReport 7 True 1, InformNiResponse GNSS_NI_RESPONSE_ACCEPT (Some 100), GnssNiCb 7 2 (Some 200)]"
    using answered_run_end by blast
  then have "InformNiResponse GNSS_NI_RESPONSE_ACCEPT (Some 100) \<in> set (ni_log s)" by simp
  from ni_answers_own [OF ni_run_init [OF s(1)] this] obtain c i client sessionId where
    "GnssNiCb c i (Some 100) \<in> set (ni_log s)" "NiAnswer client sessionId GNSS_NI_RESPONSE_ACCEPT \<in> set answered_run" "sessionId = i \<or> sessionId = 0" by auto
  then show ?thesis using s(2) by auto
qed

text \<open>
  The time runs out between the check of the session and its setting: the client is told that its answer
  counted, the modem is told that nobody answered, and the answer is kept for the next request, which is
  accepted although nobody was asked about it.
\<close>

lemma stale_answer_accepts_next:
  "\<exists>s. ni_reach False demo_conf
      [NiClients [7], supl_request 100, NiProc True, NiThread 0 False, NiAnswer 7 1 GNSS_NI_RESPONSE_ACCEPT, NiProc True,
       NiThread 0 True, NiThread 0 False, NiThread 0 False, NiThread 0 False, NiSet, NiSet, NiProc True,
       supl_request 200, NiProc True, NiThread 0 False, NiThread 0 False, NiThread 0 False, NiThread 0 False, NiProc True] s \<and>
    ni_log s = [GnssNiCb 7 1 (Some 100), NiReport 7 True 1, InformNiResponse GNSS_NI_RESPONSE_NO_RESPONSE (Some 100),
      GnssNiCb 7 2 (Some 200), InformNiResponse GNSS_NI_RESPONSE_ACCEPT (Some 200)]"
  by (rule exI, rule conjI, rule ni_run_init) (simp add: ni_eval, simp)

text \<open>The thread of a session that has ended clears the identifier of the next request: its answer is refused.\<close>

lemma identifier_lost:
  "\<exists>s. ni_reach False demo_conf
      [NiClients [7], supl_request 100, NiProc True, NiThread 0 False, NiThread 0 True, supl_request 200, NiProc True,
       NiThread 0 False, NiThread 0 False, NiAnswer 7 2 GNSS_NI_RESPONSE_ACCEPT, NiProc True] s \<and>
    ni_log s = [GnssNiCb 7 1 (Some 100), GnssNiCb 7 2 (Some 200), NiReport 7 False 2] \<and> rawRequest (ni_normal s) = Some 200"
  by (rule exI, rule conjI, rule ni_run_init) (simp add: ni_eval, simp)

end
