(* ===== verification/Gnss_Config.thy ===== *)
theory Gnss_Config
  imports Client_Control "HOL-Library.Monad_Syntax"
begin

text \<open>
  The configuration of the engine in gnss/GnssAdapter.cpp: how values of the API are turned into those
  of gps.conf, where a SUPL server goes, which calls of the engine a configuration causes, and under
  which identifier each error is reported. The thread of the engine runs \<open>gnssUpdateConfig\<close>; what
  the engine and the resolver of names answer is an argument. None is undefined behaviour. The theorems
  say which error stands at which place of the answer, and when that is the place of its identifier.
\<close>

section \<open>Values of the API and of gps.conf\<close>

definition GNSS_CONFIG_GPS_LOCK_NONE :: u32 where "GNSS_CONFIG_GPS_LOCK_NONE = 0"
definition GNSS_CONFIG_GPS_LOCK_MO :: u32 where "GNSS_CONFIG_GPS_LOCK_MO = 1"
definition GNSS_CONFIG_GPS_LOCK_NI :: u32 where "GNSS_CONFIG_GPS_LOCK_NI = 2"

definition convertSuplVersion :: "u32 \<Rightarrow> u32" where
  "convertSuplVersion suplVersion =
     (if suplVersion = 4 then 0x00020004 else if suplVersion = 2 then 0x00020000
      else if suplVersion = 3 then 0x00020002 else 0x00010000)"

definition copy_flag :: "nat \<Rightarrow> 16 word \<Rightarrow> u32 \<Rightarrow> u32" where
  "copy_flag n flags m = (if push_bit n 1 AND flags \<noteq> 0 then m OR push_bit n 1 else m)"

definition convertLppeCp :: "16 word \<Rightarrow> u32" where
  "convertLppeCp flags = copy_flag 3 flags (copy_flag 2 flags (copy_flag 1 flags (copy_flag 0 flags 0)))"

definition convertLppeUp :: "16 word \<Rightarrow> u32" where
  "convertLppeUp flags = copy_flag 3 flags (copy_flag 2 flags (copy_flag 1 flags (copy_flag 0 flags 0)))"

definition convertAGloProt :: "16 word \<Rightarrow> u32" where
  "convertAGloProt flags = copy_flag 3 flags (copy_flag 2 flags (copy_flag 1 flags (copy_flag 0 flags 0)))"

definition convertEP4ES :: "u32 \<Rightarrow> u32" where "convertEP4ES yes = (if yes = 1 then 1 else 0)"

definition convertSuplEs :: "u32 \<Rightarrow> u32" where "convertSuplEs yes = (if yes = 1 then 1 else 0)"

definition convertSuplMode :: "16 word \<Rightarrow> u32" where
  "convertSuplMode flags = copy_flag 1 flags (copy_flag 0 flags 0)"

text \<open>The fields of gps.conf that the adapter uses here, with a text for an array of characters.\<close>

record gps_conf =
  SUPL_VER :: u32
  SUPL_MODE :: u32
  SUPL_ES :: u32
  LPP_PROFILE :: u32
  USE_EMERGENCY_PDN_FOR_EMERGENCY_SUPL :: u32
  NMEA_PROVIDER :: u32
  GPS_LOCK :: u32
  A_GLONASS_POS_PROTOCOL_SELECT :: u32
  AGPS_CONFIG_INJECT :: u32
  LPPE_CP_TECHNOLOGY :: u32
  LPPE_UP_TECHNOLOGY :: u32
  SUPL_HOST :: string
  SUPL_PORT :: u32
  MO_SUPL_HOST :: string
  MO_SUPL_PORT :: u32
  CONSTRAINED_TIME_UNCERTAINTY_ENABLED :: u32
  CONSTRAINED_TIME_UNCERTAINTY_THRESHOLD :: u64
  CONSTRAINED_TIME_UNCERTAINTY_ENERGY_BUDGET :: u32
  POSITION_ASSISTED_CLOCK_ESTIMATOR_ENABLED :: u32
  NMEA_TAG_BLOCK_GROUPING_ENABLED :: u32

section \<open>The SUPL servers\<close>

datatype server_type =
    LOC_AGPS_CDMA_PDE_SERVER | LOC_AGPS_CUSTOM_PDE_SERVER | LOC_AGPS_MPC_SERVER | LOC_AGPS_SUPL_SERVER | LOC_AGPS_MO_SUPL_SERVER

record supl_servers =
  mServerUrl :: string
  mMoServerUrl :: string

definition SUPL_HOST_LENGTH :: nat where "SUPL_HOST_LENGTH = 172"
definition MAX_URL_LEN :: nat where "MAX_URL_LEN = 256"

text \<open>What the library does: letters without case, and the format \<open>%u\<close>.\<close>

definition to_lower :: "char \<Rightarrow> char" where
  "to_lower c = (let n = of_char c :: nat in if 65 \<le> n \<and> n \<le> 90 then char_of (n + 32) else c)"

fun unsigned_text :: "nat \<Rightarrow> string" where
  "unsigned_text n = (if n < 10 then [char_of (48 + n)] else unsigned_text (n div 10) @ [char_of (48 + n mod 10)])"

declare unsigned_text.simps [simp del]

definition same_nocase :: "nat \<Rightarrow> string \<Rightarrow> string \<Rightarrow> bool" where
  "same_nocase n a b \<longleftrightarrow> map to_lower (take n a) = map to_lower (take n b)"

text \<open>The text that is written, None if \<open>length\<close> stays negative.\<close>

definition server_url :: "string option \<Rightarrow> u32 \<Rightarrow> string option" where
  "server_url server port =
     (case server of
        None \<Rightarrow> Some []
      | Some s \<Rightarrow>
          if s = [] \<or> same_nocase 5 ''NONE'' s then Some []
          else if sint port > 0 then Some (take (MAX_URL_LEN - 1) (s @ '':'' @ unsigned_text (unat port)))
          else None)"

definition setSuplHostServer ::
  "string option \<Rightarrow> u32 \<Rightarrow> server_type \<Rightarrow> gps_conf \<times> supl_servers \<Rightarrow> gps_conf \<times> supl_servers" where
  "setSuplHostServer server port t = (\<lambda>(c, v).
     if AGPS_CONFIG_INJECT c = 0 then (c, v)
     else case (server_url server port, t) of
         (None, _) \<Rightarrow> (c, v)
       | (Some url, LOC_AGPS_SUPL_SERVER) \<Rightarrow>
           (c\<lparr>SUPL_HOST := take (SUPL_HOST_LENGTH - 1) (case server of None \<Rightarrow> url | Some s \<Rightarrow> s), SUPL_PORT := port\<rparr>,
            v\<lparr>mServerUrl := url\<rparr>)
       | (Some url, LOC_AGPS_MO_SUPL_SERVER) \<Rightarrow>
           (c, if same_nocase MAX_URL_LEN (mMoServerUrl v) url then v else v\<lparr>mMoServerUrl := url\<rparr>)
       | (Some url, _) \<Rightarrow> (c, v))"

section \<open>What the engine is told\<close>

text \<open>
  The calls of the engine with their arguments. A length that is passed is that of the text. An address
  is None if the code passes one that was not initialised. Floating point numbers are their bits.
\<close>

datatype config_call =
    SetGpsLock u32
  | SetServer string server_type
  | SetServerIp "u32 option" u32 server_type
  | SetSUPLVersion u32
  | SetLPPConfig "16 word"
  | SetLPPeProtocolCp "16 word"
  | SetLPPeProtocolUp "16 word"
  | SetAGLONASSProtocol "16 word"
  | SetBlacklistSvSync sv_id_config
  | SetEmergencyExtensionWindow u32
  | SetMinSvElevation "8 word"
  | SetNMEATypes u32
  | SetConstrainedTuncMode bool u32 u32
  | SetPositionAssistedClockEstimatorMode bool
  | ConfigRobustLocation bool bool
  | SetSensorProperties "(8 word \<times> u64) list"
  | SetSensorPerfControlConfig "u32 list"

text \<open>The answers of the engine, of the resolver of names and of the table of features, and the conversion of a double to a float.\<close>

record config_env =
  en_answer :: "config_call \<Rightarrow> location_error"
  en_gethostbyname :: "string \<Rightarrow> u32 option"
  en_inet_aton :: "string \<Rightarrow> u32 option"
  en_constellation_enablement :: bool
  en_debug_nmea :: bool
  en_float :: "u64 \<Rightarrow> u32"

definition F_GPS_LOCK :: u32 where "F_GPS_LOCK = push_bit 0 1"
definition F_SUPL_VERSION :: u32 where "F_SUPL_VERSION = push_bit 1 1"
definition F_ASSISTANCE_DATA :: u32 where "F_ASSISTANCE_DATA = push_bit 2 1"
definition F_LPP_PROFILE :: u32 where "F_LPP_PROFILE = push_bit 3 1"
definition F_LPPE_CONTROL_PLANE :: u32 where "F_LPPE_CONTROL_PLANE = push_bit 4 1"
definition F_LPPE_USER_PLANE :: u32 where "F_LPPE_USER_PLANE = push_bit 5 1"
definition F_AGLONASS_POSITION_PROTOCOL :: u32 where "F_AGLONASS_POSITION_PROTOCOL = push_bit 6 1"
definition F_EM_PDN_FOR_EM_SUPL :: u32 where "F_EM_PDN_FOR_EM_SUPL = push_bit 7 1"
definition F_SUPL_EM_SERVICES :: u32 where "F_SUPL_EM_SERVICES = push_bit 8 1"
definition F_SUPL_MODE :: u32 where "F_SUPL_MODE = push_bit 9 1"
definition F_BLACKLISTED_SV_IDS :: u32 where "F_BLACKLISTED_SV_IDS = push_bit 10 1"
definition F_EMERGENCY_EXTENSION_SECONDS :: u32 where "F_EMERGENCY_EXTENSION_SECONDS = push_bit 11 1"
definition F_ROBUST_LOCATION :: u32 where "F_ROBUST_LOCATION = push_bit 12 1"
definition F_MIN_GPS_WEEK :: u32 where "F_MIN_GPS_WEEK = push_bit 13 1"
definition F_MIN_SV_ELEVATION :: u32 where "F_MIN_SV_ELEVATION = push_bit 14 1"

lemmas flag_bits = F_GPS_LOCK_def F_SUPL_VERSION_def F_ASSISTANCE_DATA_def F_LPP_PROFILE_def F_LPPE_CONTROL_PLANE_def
  F_LPPE_USER_PLANE_def F_AGLONASS_POSITION_PROTOCOL_def F_EM_PDN_FOR_EM_SUPL_def F_SUPL_EM_SERVICES_def F_SUPL_MODE_def
  F_BLACKLISTED_SV_IDS_def F_EMERGENCY_EXTENSION_SECONDS_def F_ROBUST_LOCATION_def F_MIN_GPS_WEEK_def F_MIN_SV_ELEVATION_def

text \<open>The variables of a run of \<open>gnssUpdateConfig\<close>, with the fields of the adapter it writes.\<close>

record update_run =
  ur_index :: nat
  ur_errs :: "location_error list"
  ur_calls :: "config_call list"
  ur_sv :: sv_state

text \<open>What handling one item does: the calls, and the error if one is written.\<close>

type_synonym item_result = "config_call list \<times> location_error option \<times> sv_state"

definition put_err :: "nat \<Rightarrow> location_error option \<Rightarrow> update_run \<Rightarrow> update_run" where
  "put_err count e u =
     (case e of None \<Rightarrow> u
      | Some err \<Rightarrow> if ur_index u < count then u\<lparr>ur_errs := (ur_errs u)[ur_index u := err]\<rparr> else u)"

text \<open>
  The shape that all items share: the flag is looked up, the item is handled if \<open>needed\<close>, and
  \<open>index\<close> advances.
\<close>

definition on_flag ::
  "u32 \<Rightarrow> u32 \<Rightarrow> bool \<Rightarrow> nat \<Rightarrow> (sv_state \<Rightarrow> item_result option) \<Rightarrow> update_run \<Rightarrow> update_run option" where
  "on_flag flags flag needed count item u =
     (if flags AND flag = 0 then Some u
      else if needed
      then (case item (ur_sv u) of
              None \<Rightarrow> None
            | Some (calls, e, sv) \<Rightarrow>
                (let u1 = put_err count e (u\<lparr>ur_calls := ur_calls u @ calls, ur_sv := sv\<rparr>)
                 in Some (u1\<lparr>ur_index := ur_index u1 + 1\<rparr>)))
      else Some (u\<lparr>ur_index := ur_index u + 1\<rparr>))"

definition call_item :: "config_env \<Rightarrow> config_call \<Rightarrow> sv_state \<Rightarrow> item_result option" where
  "call_item e call sv = Some ([call], Some (en_answer e call), sv)"

definition htonl :: "u32 \<Rightarrow> u32" where
  "htonl a = push_bit 24 (a AND 0xFF) OR push_bit 8 (a AND 0xFF00) OR drop_bit 8 (a AND 0xFF0000) OR drop_bit 24 a"

text \<open>The address \<open>addr\<close> that is sent, if one is, and the error if the name cannot be resolved.\<close>

definition pde_item :: "config_env \<Rightarrow> assistance_server \<Rightarrow> sv_state \<Rightarrow> item_result option" where
  "pde_item e server sv =
     (case hostName server of
        None \<Rightarrow> None
      | Some name \<Rightarrow>
          (let send = (\<lambda>a. SetServerIp (map_option htonl a) (as_port server) LOC_AGPS_CDMA_PDE_SERVER) in
           case en_gethostbyname e name of
             Some a \<Rightarrow> Some ([send (Some a)], Some (en_answer e (send (Some a))), sv)
           | None \<Rightarrow>
               (case en_inet_aton e name of
                  None \<Rightarrow> Some ([send None], Some (en_answer e (send None)), sv)
                | Some a \<Rightarrow> Some ([], None, sv))))"

definition assistance_item ::
  "config_env \<Rightarrow> string \<Rightarrow> string \<Rightarrow> string \<Rightarrow> assistance_server \<Rightarrow> sv_state \<Rightarrow> item_result option" where
  "assistance_item e oldMo mo url server sv =
     (if as_type server = 0
      then Some (SetServer url LOC_AGPS_SUPL_SERVER # (if oldMo \<noteq> mo then [SetServer mo LOC_AGPS_MO_SUPL_SERVER] else []),
                 Some (en_answer e (SetServer url LOC_AGPS_SUPL_SERVER)), sv)
      else if as_type server = 1 then pde_item e server sv
      else Some ([], None, sv))"

text \<open>\<open>gnssSvIdConfigUpdateSync\<close>, and the item that calls it.\<close>

definition gnssSvIdConfigUpdateSync :: "sv_source list \<Rightarrow> sv_state \<Rightarrow> (config_call \<times> sv_state) option" where
  "gnssSvIdConfigUpdateSync ss sv =
     (case convertToGnssSvIdConfig ss no_sv_ids of
        None \<Rightarrow> None
      | Some (ok, c) \<Rightarrow> Some (SetBlacklistSvSync c, sv\<lparr>mGnssSvIdConfig := c\<rparr>))"

definition blacklist_item :: "config_env \<Rightarrow> sv_source list \<Rightarrow> sv_state \<Rightarrow> item_result option" where
  "blacklist_item e ss sv =
     (if \<not> en_constellation_enablement e then Some ([], Some LOCATION_ERROR_NOT_SUPPORTED, sv)
      else case gnssSvIdConfigUpdateSync ss (sv\<lparr>mBlacklistedSvIds := ss\<rparr>) of
             None \<Rightarrow> None
           | Some (call, sv1) \<Rightarrow> Some ([call], Some (en_answer e call), sv1))"

text \<open>The flags that remain when AGPS must not be configured.\<close>

definition injected_flags :: "u32 \<Rightarrow> u32 \<Rightarrow> u32" where
  "injected_flags inject flags =
     (if inject = 0
      then flags AND NOT (F_ASSISTANCE_DATA OR F_SUPL_VERSION OR F_AGLONASS_POSITION_PROTOCOL OR F_LPP_PROFILE)
      else flags)"

definition gnssUpdateConfig ::
  "config_env \<Rightarrow> u32 \<Rightarrow> string \<Rightarrow> string \<Rightarrow> string \<Rightarrow> gnss_config \<Rightarrow> gnss_config \<Rightarrow> nat \<Rightarrow> sv_state \<Rightarrow> update_run option"
where
  "gnssUpdateConfig e inject oldMo mo url requested needUpdate count sv =
     (let errsList = replicate count LOCATION_ERROR_SUCCESS @ [LOCATION_ERROR_SUCCESS];
          flags = injected_flags inject (gc_flags requested);
          need = (\<lambda>f. gc_flags needUpdate AND f \<noteq> 0) in
      do {
        u \<leftarrow> on_flag flags F_GPS_LOCK (need F_GPS_LOCK) count (call_item e (SetGpsLock (gc_gpsLock requested)))
               \<lparr>ur_index = 0, ur_errs = errsList, ur_calls = [], ur_sv = sv\<rparr>;
        u \<leftarrow> on_flag flags F_ASSISTANCE_DATA (need F_ASSISTANCE_DATA) count
               (assistance_item e oldMo mo url (gc_assistanceServer needUpdate)) u;
        u \<leftarrow> on_flag flags F_SUPL_VERSION (need F_SUPL_VERSION) count
               (call_item e (SetSUPLVersion (gc_suplVersion requested))) u;
        u \<leftarrow> on_flag flags F_LPP_PROFILE (need F_LPP_PROFILE) count
               (call_item e (SetLPPConfig (gc_lppProfileMask requested))) u;
        u \<leftarrow> on_flag flags F_LPPE_CONTROL_PLANE (need F_LPPE_CONTROL_PLANE) count
               (call_item e (SetLPPeProtocolCp (gc_lppeControlPlaneMask requested))) u;
        u \<leftarrow> on_flag flags F_LPPE_USER_PLANE (need F_LPPE_USER_PLANE) count
               (call_item e (SetLPPeProtocolUp (gc_lppeUserPlaneMask requested))) u;
        u \<leftarrow> on_flag flags F_AGLONASS_POSITION_PROTOCOL (need F_AGLONASS_POSITION_PROTOCOL) count
               (call_item e (SetAGLONASSProtocol (gc_aGlonassPositionProtocolMask requested))) u;
        u \<leftarrow> on_flag flags F_BLACKLISTED_SV_IDS True count (blacklist_item e (gc_blacklistedSvIds requested)) u;
        u \<leftarrow> on_flag flags F_EMERGENCY_EXTENSION_SECONDS (need F_EMERGENCY_EXTENSION_SECONDS) count
               (call_item e (SetEmergencyExtensionWindow (gc_emergencyExtensionSeconds requested))) u;
        on_flag flags F_MIN_SV_ELEVATION True count (call_item e (SetMinSvElevation (gc_minSvElevation requested))) u
      })"

section \<open>Which error stands where\<close>

text \<open>The items in the order of the code: the number of the flag, whether it is needed, and what is done.\<close>

type_synonym item = "nat \<times> bool \<times> (sv_state \<Rightarrow> item_result option)"

fun run_items :: "u32 \<Rightarrow> nat \<Rightarrow> item list \<Rightarrow> update_run \<Rightarrow> update_run option" where
  "run_items flags count [] u = Some u"
| "run_items flags count ((k, needed, item) # its) u =
     Option.bind (on_flag flags (push_bit k 1) needed count item u) (run_items flags count its)"

definition config_items ::
  "config_env \<Rightarrow> string \<Rightarrow> string \<Rightarrow> string \<Rightarrow> gnss_config \<Rightarrow> gnss_config \<Rightarrow> item list" where
  "config_items e oldMo mo url r n =
     (let need = (\<lambda>k. gc_flags n AND push_bit k 1 \<noteq> 0) in
      [(0, need 0, call_item e (SetGpsLock (gc_gpsLock r))),
       (2, need 2, assistance_item e oldMo mo url (gc_assistanceServer n)),
       (1, need 1, call_item e (SetSUPLVersion (gc_suplVersion r))),
       (3, need 3, call_item e (SetLPPConfig (gc_lppProfileMask r))),
       (4, need 4, call_item e (SetLPPeProtocolCp (gc_lppeControlPlaneMask r))),
       (5, need 5, call_item e (SetLPPeProtocolUp (gc_lppeUserPlaneMask r))),
       (6, need 6, call_item e (SetAGLONASSProtocol (gc_aGlonassPositionProtocolMask r))),
       (10, True, blacklist_item e (gc_blacklistedSvIds r)),
       (11, need 11, call_item e (SetEmergencyExtensionWindow (gc_emergencyExtensionSeconds r))),
       (14, True, call_item e (SetMinSvElevation (gc_minSvElevation r)))])"

definition config_start :: "nat \<Rightarrow> sv_state \<Rightarrow> update_run" where
  "config_start count sv =
     \<lparr>ur_index = 0, ur_errs = replicate count LOCATION_ERROR_SUCCESS @ [LOCATION_ERROR_SUCCESS], ur_calls = [], ur_sv = sv\<rparr>"

lemma bind_some_right: "Option.bind x Some = x"
  by (cases x) simp_all

lemma run_items_fun:
  "run_items flags count [] = Some"
  "run_items flags count ((k, needed, item) # its) =
     (\<lambda>u. Option.bind (on_flag flags (push_bit k 1) needed count item u) (run_items flags count its))"
  by (rule ext, simp)+

lemma gnssUpdateConfig_items:
  "gnssUpdateConfig e inject oldMo mo url r n count sv =
     run_items (injected_flags inject (gc_flags r)) count (config_items e oldMo mo url r n) (config_start count sv)"
  by (simp add: gnssUpdateConfig_def config_items_def config_start_def Let_def flag_bits run_items_fun bind_some_right
      del: run_items.simps)

text \<open>
  A reference for the error of each item, None if none is written; it does not depend on the
  configuration of satellites that was there before.
\<close>

definition item_err :: "bool \<Rightarrow> (sv_state \<Rightarrow> item_result option) \<Rightarrow> location_error option" where
  "item_err needed item =
     (if needed then (case item sv_state_init of Some (_, err, _) \<Rightarrow> err | None \<Rightarrow> None) else None)"

definition written :: "item list \<Rightarrow> nat \<Rightarrow> location_error option" where
  "written its k = (case map_of its k of Some (needed, item) \<Rightarrow> item_err needed item | None \<Rightarrow> None)"

definition steady :: "(sv_state \<Rightarrow> item_result option) \<Rightarrow> bool" where
  "steady item \<longleftrightarrow> (\<forall>sv c err sv1. item sv = Some (c, err, sv1) \<longrightarrow>
     (\<exists>c' sv2. item sv_state_init = Some (c', err, sv2)))"

definition flagged :: "u32 \<Rightarrow> item list \<Rightarrow> nat list" where
  "flagged flags its = filter (bit flags) (map fst its)"

lemma on_flag_bit: "k < 32 \<Longrightarrow> flags AND push_bit k 1 = 0 \<longleftrightarrow> \<not> bit flags k" for flags :: u32
  using and_push_bit_one [of flags k] by auto

lemma call_item_simp [simp]: "call_item e c sv = Some ([c], Some (en_answer e c), sv)"
  by (simp add: call_item_def)

lemma steady_items:
  "steady (call_item e c)" "steady (assistance_item e oldMo mo url a)" "steady (blacklist_item e ss)"
  by (auto simp: steady_def assistance_item_def pde_item_def blacklist_item_def gnssSvIdConfigUpdateSync_def Let_def
      split: option.splits if_splits)

lemma config_items_steady: "(k, needed, item) \<in> set (config_items e oldMo mo url r n) \<Longrightarrow> steady item \<and> k < 32"
  by (auto simp: config_items_def Let_def steady_items)

lemma on_flag_errs:
  assumes "on_flag flags (push_bit k 1) needed count item u = Some u1" "k < 32" "steady item"
    "length (ur_errs u) = Suc count"
  shows "length (ur_errs u1) = Suc count"
    and "ur_index u1 = ur_index u + (if bit flags k then 1 else 0)"
    and "i < count \<Longrightarrow> ur_errs u1 ! i =
           (if bit flags k \<and> i = ur_index u then (case item_err needed item of None \<Rightarrow> ur_errs u ! i | Some err \<Rightarrow> err)
            else ur_errs u ! i)"
proof -
  have "length (ur_errs u1) = Suc count \<and> ur_index u1 = ur_index u + (if bit flags k then 1 else 0) \<and>
    (i < count \<longrightarrow> ur_errs u1 ! i =
           (if bit flags k \<and> i = ur_index u then (case item_err needed item of None \<Rightarrow> ur_errs u ! i | Some err \<Rightarrow> err)
            else ur_errs u ! i))"
  proof (cases "bit flags k \<and> needed")
    case True
    with assms obtain c err sv1 where i: "item (ur_sv u) = Some (c, err, sv1)"
      by (cases "item (ur_sv u)") (auto simp: on_flag_def on_flag_bit on_flag_bit [simplified])
    then obtain c' sv2 where "item sv_state_init = Some (c', err, sv2)" using assms(3) unfolding steady_def by blast
    with True have "item_err needed item = err" by (simp add: item_err_def)
    with assms True i show ?thesis
      by (cases err) (auto simp: on_flag_def on_flag_bit on_flag_bit [simplified] put_err_def Let_def)
  next
    case False
    with assms show ?thesis by (auto simp: on_flag_def on_flag_bit on_flag_bit [simplified] item_err_def)
  qed
  then show "length (ur_errs u1) = Suc count"
    and "ur_index u1 = ur_index u + (if bit flags k then 1 else 0)"
    and "i < count \<Longrightarrow> ur_errs u1 ! i =
           (if bit flags k \<and> i = ur_index u then (case item_err needed item of None \<Rightarrow> ur_errs u ! i | Some err \<Rightarrow> err)
            else ur_errs u ! i)" by blast+
qed

lemma run_items_errs:
  assumes "run_items flags count its u = Some u'" "\<And>k b item. (k, b, item) \<in> set its \<Longrightarrow> steady item \<and> k < 32"
    "distinct (map fst its)" "length (ur_errs u) = Suc count"
  shows "length (ur_errs u') = Suc count \<and> (\<forall>i<count. ur_errs u' ! i =
     (if ur_index u \<le> i \<and> i < ur_index u + length (flagged flags its)
      then (case written its (flagged flags its ! (i - ur_index u)) of None \<Rightarrow> ur_errs u ! i | Some err \<Rightarrow> err)
      else ur_errs u ! i))"
  using assms
proof (induction its arbitrary: u)
  case Nil
  then show ?case by (auto simp: flagged_def)
next
  case (Cons it its)
  obtain k needed item where it: "it = (k, needed, item)" by (cases it)
  with Cons.prems(1) obtain u1 where u1: "on_flag flags (push_bit k 1) needed count item u = Some u1"
    and rest: "run_items flags count its u1 = Some u'" by (auto split: Option.bind_splits)
  have k: "k < 32" "steady item" using Cons.prems(2) [of k needed item] by (auto simp: it)
  note h = on_flag_errs [OF u1 k Cons.prems(4)]
  have tail: "length (ur_errs u') = Suc count \<and> (\<forall>i<count. ur_errs u' ! i =
     (if ur_index u1 \<le> i \<and> i < ur_index u1 + length (flagged flags its)
      then (case written its (flagged flags its ! (i - ur_index u1)) of None \<Rightarrow> ur_errs u1 ! i | Some err \<Rightarrow> err)
      else ur_errs u1 ! i))"
    by (rule Cons.IH [OF rest _ _ h(1)]) (use Cons.prems in auto)
  have w: "written (it # its) j = written its j" if "j \<in> set (flagged flags its)" for j
    using that Cons.prems(3) by (auto simp: written_def it flagged_def)
  show ?case
  proof (cases "bit flags k")
    case True
    then have f: "flagged flags (it # its) = k # flagged flags its" by (simp add: flagged_def it)
    have wk: "written (it # its) k = item_err needed item" by (simp add: written_def it)
    have "ur_errs u' ! i = (if ur_index u \<le> i \<and> i < ur_index u + length (flagged flags (it # its))
      then (case written (it # its) (flagged flags (it # its) ! (i - ur_index u)) of None \<Rightarrow> ur_errs u ! i | Some err \<Rightarrow> err)
      else ur_errs u ! i)" if "i < count" for i
    proof (cases "i = ur_index u")
      case True
      with tail h that \<open>bit flags k\<close> show ?thesis by (auto simp: f wk split: option.splits)
    next
      case False
      show ?thesis
      proof (cases "ur_index u < i \<and> i < ur_index u + Suc (length (flagged flags its))")
        case True
        then obtain j where j: "i = Suc (ur_index u + j)" "j < length (flagged flags its)"
          by (metis add_Suc_right less_natE nat_add_left_cancel_less not_less_eq)
        have "ur_errs u1 ! i = ur_errs u ! i" using h(3) [OF that] j by simp
        with tail h(2) that j \<open>bit flags k\<close> show ?thesis by (auto simp: f w split: option.splits)
      next
        case False
        with \<open>i \<noteq> ur_index u\<close> tail h that \<open>bit flags k\<close> show ?thesis by (auto simp: f split: option.splits)
      qed
    qed
    with tail show ?thesis by blast
  next
    case False
    then have "flagged flags (it # its) = flagged flags its" by (simp add: flagged_def it)
    with False tail h(2,3) w [OF nth_mem] show ?thesis by (auto split: option.splits)
  qed
qed

text \<open>The error that the identifier of flag k stands for.\<close>

definition error_of :: "config_env \<Rightarrow> string \<Rightarrow> gnss_config \<Rightarrow> gnss_config \<Rightarrow> nat \<Rightarrow> location_error" where
  "error_of e url r n k =
     (if k = 10
      then (if en_constellation_enablement e
            then en_answer e (SetBlacklistSvSync (snd (the (convertToGnssSvIdConfig (gc_blacklistedSvIds r) no_sv_ids))))
            else LOCATION_ERROR_NOT_SUPPORTED)
      else if k = 14 then en_answer e (SetMinSvElevation (gc_minSvElevation r))
      else if \<not> bit (gc_flags n) k then LOCATION_ERROR_SUCCESS
      else if k = 0 then en_answer e (SetGpsLock (gc_gpsLock r))
      else if k = 1 then en_answer e (SetSUPLVersion (gc_suplVersion r))
      else if k = 2 then en_answer e (SetServer url LOC_AGPS_SUPL_SERVER)
      else if k = 3 then en_answer e (SetLPPConfig (gc_lppProfileMask r))
      else if k = 4 then en_answer e (SetLPPeProtocolCp (gc_lppeControlPlaneMask r))
      else if k = 5 then en_answer e (SetLPPeProtocolUp (gc_lppeUserPlaneMask r))
      else if k = 6 then en_answer e (SetAGLONASSProtocol (gc_aGlonassPositionProtocolMask r))
      else en_answer e (SetEmergencyExtensionWindow (gc_emergencyExtensionSeconds r)))"

definition HANDLED_FLAGS :: "nat list" where "HANDLED_FLAGS = [0, 1, 2, 3, 4, 5, 6, 10, 11, 14]"

lemma rank_filter: "bit (f :: u32) k \<Longrightarrow> filter (bit f) [0..<32] ! card {j. j < k \<and> bit f j} = k \<and>
    card {j. j < k \<and> bit f j} < length (filter (bit f) [0..<32])"
proof -
  assume k: "bit f k"
  then have "k < 32" using bit_imp_le_length [OF k] by simp
  then have "[0..<32] = [0..<k] @ k # [Suc k..<32]"
    using upt_add_eq_append [of 0 k "32 - k"] upt_conv_Cons [of k 32] by simp
  moreover have "length (filter (bit f) [0..<k]) = card {j. j < k \<and> bit f j}"
    by (subst distinct_card [symmetric]) (auto intro: arg_cong [of _ _ card])
  ultimately show ?thesis using k by (simp add: nth_append)
qed

lemma filter_handled:
  fixes f :: u32
  assumes "list_all (\<lambda>k. bit f k \<longrightarrow> k \<in> set HANDLED_FLAGS) [0..<32]" "\<not> (bit f 1 \<and> bit f 2)"
  shows "filter (bit f) [0, 2, 1, 3, 4, 5, 6, 10, 11, 14] = filter (bit f) [0..<32]"
proof -
  have none: "filter (bit f) ks = []" if "list_all (\<lambda>k. k < 32 \<and> k \<notin> set HANDLED_FLAGS) ks" for ks
    using that assms(1) by (induction ks) (auto simp: list_all_iff)
  have u: "[0..<32] = [0] @ [1, 2] @ [3, 4, 5, 6] @ [7, 8, 9] @ [10, 11] @ [12, 13] @ [14] @ [15..<32]" by (simp add: upt_rec)
  have z: "filter (bit f) [7, 8, 9] = []" "filter (bit f) [12, 13] = []" "filter (bit f) [15..<32] = []"
    by (rule none, simp add: HANDLED_FLAGS_def list_all_iff)+
  have s: "filter (bit f) [2, 1] = filter (bit f) [1, 2]" using assms(2) by auto
  have v: "[0, 2, 1, 3, 4, 5, 6, 10, 11, 14] = [0] @ [2, 1] @ [3, 4, 5, 6] @ [10, 11] @ [14]" by simp
  show ?thesis unfolding u v by (simp only: filter_append z s append_Nil append_Nil2)
qed

lemma card_bits: "card {k. bit (f :: u32) k} = length (filter (bit f) [0..<32])"
proof -
  have "{k. bit f k} = set (filter (bit f) [0..<32])" using bit_imp_le_length [of f] by auto
  then show ?thesis by (metis distinct_card distinct_filter distinct_upt)
qed

lemma need_bit: "k < 32 \<Longrightarrow> f AND push_bit k 1 \<noteq> 0 \<longleftrightarrow> bit f k" for f :: u32
  using and_push_bit_one [of f k] by auto

lemma config_items_flags: "map fst (config_items e oldMo mo url r n) = [0, 2, 1, 3, 4, 5, 6, 10, 11, 14]"
  by (simp add: config_items_def Let_def)

lemmas need_bits =
  on_flag_bit [of 0, simplified] on_flag_bit [of 1, simplified] on_flag_bit [of 2, simplified] on_flag_bit [of 3, simplified]
  on_flag_bit [of 4, simplified] on_flag_bit [of 5, simplified] on_flag_bit [of 6, simplified] on_flag_bit [of 11, simplified]

lemma written_error_of:
  assumes "k \<in> set HANDLED_FLAGS" "as_type (gc_assistanceServer n) = 0"
    "en_constellation_enablement e \<Longrightarrow> k = 10 \<Longrightarrow> convertToGnssSvIdConfig (gc_blacklistedSvIds r) no_sv_ids \<noteq> None"
  shows "(case written (config_items e oldMo mo url r n) k of None \<Rightarrow> LOCATION_ERROR_SUCCESS | Some err \<Rightarrow> err) =
    error_of e url r n k"
proof -
  have "k = 0 \<or> k = 1 \<or> k = 2 \<or> k = 3 \<or> k = 4 \<or> k = 5 \<or> k = 6 \<or> k = 10 \<or> k = 11 \<or> k = 14"
    using assms(1) by (simp add: HANDLED_FLAGS_def)
  then show ?thesis
    using assms(2,3) by (elim disjE; simp add: written_def config_items_def Let_def item_err_def error_of_def
        assistance_item_def blacklist_item_def gnssSvIdConfigUpdateSync_def need_bits)
      (auto split: option.splits)
qed

lemma run_items_defined:
  "run_items flags count its u \<noteq> None \<Longrightarrow> (k, True, item) \<in> set its \<Longrightarrow> k < 32 \<Longrightarrow> bit flags k \<Longrightarrow> \<exists>sv. item sv \<noteq> None"
proof (induction its arbitrary: u)
  case (Cons it its)
  obtain j b i where it: "it = (j, b, i)" by (cases it)
  with Cons.prems(1) obtain u1 where u1: "on_flag flags (push_bit j 1) b count i u = Some u1" "run_items flags count its u1 \<noteq> None"
    by (auto split: Option.bind_splits)
  show ?case
  proof (cases "it = (k, True, item)")
    case True
    with u1(1) it Cons.prems(3,4) show ?thesis
      by (auto simp: on_flag_def on_flag_bit on_flag_bit [simplified] split: option.splits)
  next
    case False
    with Cons.prems have "(k, True, item) \<in> set its" by simp
    from Cons.IH [OF u1(2) this Cons.prems(3,4)] show ?thesis .
  qed
qed simp

text \<open>C3. The list of errors of an update of the configuration: if AGPS may be configured, only flags are set
that the function handles, and not those of the SUPL version and of the assistance server together,
then the error at place number i is that of the i-th flag that is set, counted from the lowest, which is
the flag that the identifier number i stands for. The error is the answer of the engine to the call with
the value of that flag, success if the engine need not be told, or that the feature is not supported.\<close>

theorem config_errors_at_rank:
  assumes "gnssUpdateConfig e inject oldMo mo url r n (card {j. bit (gc_flags r) j}) sv = Some u"
    and "inject \<noteq> 0" "as_type (gc_assistanceServer n) = 0"
    and "list_all (\<lambda>j. bit (gc_flags r) j \<longrightarrow> j \<in> set HANDLED_FLAGS) [0..<32]"
    and "\<not> (bit (gc_flags r) 1 \<and> bit (gc_flags r) 2)"
    and k: "bit (gc_flags r) k"
  shows "ur_errs u ! card {j. j < k \<and> bit (gc_flags r) j} = error_of e url r n k"
proof -
  let ?f = "gc_flags r" and ?its = "config_items e oldMo mo url r n"
  let ?i = "card {j. j < k \<and> bit ?f j}"
  have run: "run_items ?f (card {j. bit ?f j}) ?its (config_start (card {j. bit ?f j}) sv) = Some u"
    using assms(1,2) by (simp add: gnssUpdateConfig_items injected_flags_def)
  have fl: "flagged ?f ?its = filter (bit ?f) [0..<32]"
    using filter_handled [OF assms(4,5)] by (simp add: flagged_def config_items_flags)
  have i: "filter (bit ?f) [0..<32] ! ?i = k" "?i < length (filter (bit ?f) [0..<32])" using rank_filter [OF k] by blast+
  then have lt: "?i < card {j. bit ?f j}" by (simp only: card_bits)
  have "k < 32" using bit_imp_le_length [OF k] by simp
  then have kh: "k \<in> set HANDLED_FLAGS" using assms(4) k by (auto simp: list_all_iff)
  have "length (ur_errs u) = Suc (card {j. bit ?f j}) \<and> (\<forall>i<card {j. bit ?f j}. ur_errs u ! i =
     (if ur_index (config_start (card {j. bit ?f j}) sv) \<le> i \<and>
         i < ur_index (config_start (card {j. bit ?f j}) sv) + length (flagged ?f ?its)
      then (case written ?its (flagged ?f ?its ! (i - ur_index (config_start (card {j. bit ?f j}) sv))) of
              None \<Rightarrow> ur_errs (config_start (card {j. bit ?f j}) sv) ! i | Some err \<Rightarrow> err)
      else ur_errs (config_start (card {j. bit ?f j}) sv) ! i))"
    by (rule run_items_errs [OF run config_items_steady]) (simp_all add: config_items_flags config_start_def)
  then have "ur_errs u ! ?i = (case written ?its k of None \<Rightarrow> LOCATION_ERROR_SUCCESS | Some err \<Rightarrow> err)"
    using i lt by (simp add: config_start_def fl nth_append split: option.split)
  also have "\<dots> = error_of e url r n k"
  proof (rule written_error_of [OF kh assms(3)])
    assume b: "en_constellation_enablement e" "k = 10"
    have "\<exists>sv. blacklist_item e (gc_blacklistedSvIds r) sv \<noteq> None"
    proof (rule run_items_defined)
      show "run_items ?f (card {j. bit ?f j}) ?its (config_start (card {j. bit ?f j}) sv) \<noteq> None" by (simp only: run) simp
      show "(10, True, blacklist_item e (gc_blacklistedSvIds r)) \<in> set ?its" by (simp add: config_items_def Let_def)
    qed (use k b(2) in simp_all)
    then show "convertToGnssSvIdConfig (gc_blacklistedSvIds r) no_sv_ids \<noteq> None"
      using b(1) by (auto simp: blacklist_item_def gnssSvIdConfigUpdateSync_def split: option.splits)
  qed
  finally show ?thesis .
qed

text \<open>A configuration with four items, the second of which the engine refuses.\<close>

definition sample_env :: "config_call \<Rightarrow> config_env" where
  "sample_env bad = \<lparr>en_answer = (\<lambda>c. if c = bad then LOCATION_ERROR_GENERAL_FAILURE else LOCATION_ERROR_SUCCESS),
     en_gethostbyname = (\<lambda>_. None), en_inet_aton = (\<lambda>s. if s = ''10.0.0.1'' then Some 0x0100000A else None),
     en_constellation_enablement = True, en_debug_nmea = False, en_float = (\<lambda>_. 0)\<rparr>"

lemmas config_eval = gnssUpdateConfig_def on_flag_def put_err_def flag_bits sample_env_def blacklist_item_def
  assistance_item_def pde_item_def gnssSvIdConfigUpdateSync_def convertToGnssSvIdConfig_def zero_config_def injected_flags_def

theorem config_errors_at_rank_witness:
  "ur_errs (the (gnssUpdateConfig (sample_env (SetLPPConfig 0)) 1 [] [] '':'' (zero_config\<lparr>gc_flags := 0x4409\<rparr>)
      (zero_config\<lparr>gc_flags := 0x4409\<rparr>) 4 sv_state_init)) ! 1 = LOCATION_ERROR_GENERAL_FAILURE"
proof -
  let ?r = "zero_config\<lparr>gc_flags := 0x4409\<rparr>" and ?e = "sample_env (SetLPPConfig 0)"
  have fl: "filter (bit (gc_flags ?r)) [0..<32] = [0, 3, 10, 14]" by (simp add: upt_rec)
  then have card: "card {j. bit (gc_flags ?r) j} = 4" by (simp only: card_bits) simp
  have "{j. j < 3 \<and> bit (gc_flags ?r) j} = {0}" by (auto simp: less_Suc_eq numeral_3_eq_3)
  then have rank: "card {j. j < 3 \<and> bit (gc_flags ?r) j} = 1" by simp
  have "gnssUpdateConfig ?e 1 [] [] '':'' ?r ?r 4 sv_state_init \<noteq> None"
    by (simp add: config_eval Let_def)
  then obtain u where u4: "gnssUpdateConfig ?e 1 [] [] '':'' ?r ?r 4 sv_state_init = Some u" by blast
  then have u: "gnssUpdateConfig ?e 1 [] [] '':'' ?r ?r (card {j. bit (gc_flags ?r) j}) sv_state_init = Some u"
    by (simp only: card)
  have "ur_errs u ! card {j. j < 3 \<and> bit (gc_flags ?r) j} = error_of ?e '':'' ?r ?r 3"
    by (rule config_errors_at_rank [OF u]) (simp_all add: zero_config_def HANDLED_FLAGS_def upt_rec)
  then have "ur_errs u ! 1 = LOCATION_ERROR_GENERAL_FAILURE"
    unfolding rank by (simp add: error_of_def sample_env_def zero_config_def)
  with u4 show ?thesis by simp
qed

section \<open>Errors under other identifiers\<close>

text \<open>
  Identifiers are given out from the lowest flag to the highest. The assistance server comes before the
  SUPL version, so that their errors are exchanged; flags that are not handled, or dropped, move the
  errors of the later ones forward.
\<close>

lemma supl_version_exchanged:
  "map_option ur_errs (gnssUpdateConfig (sample_env (SetSUPLVersion 0)) 1 [] [] '':'' (zero_config\<lparr>gc_flags := 6\<rparr>)
      (zero_config\<lparr>gc_flags := 6\<rparr>) (Suc (Suc 0)) sv) =
     Some [LOCATION_ERROR_SUCCESS, LOCATION_ERROR_GENERAL_FAILURE, LOCATION_ERROR_SUCCESS]"
  by (simp add: config_eval Let_def)

lemma unhandled_flag_moves_error:
  "map_option ur_errs (gnssUpdateConfig (sample_env (SetEmergencyExtensionWindow 0)) 1 [] [] '':'' (zero_config\<lparr>gc_flags := 0x880\<rparr>)
      (zero_config\<lparr>gc_flags := 0x880\<rparr>) (Suc (Suc 0)) sv) =
     Some [LOCATION_ERROR_GENERAL_FAILURE, LOCATION_ERROR_SUCCESS, LOCATION_ERROR_SUCCESS]"
  by (simp add: config_eval Let_def)

lemma dropped_flag_moves_error:
  "map_option ur_errs (gnssUpdateConfig (sample_env (SetEmergencyExtensionWindow 0)) 0 [] [] '':'' (zero_config\<lparr>gc_flags := 0x808\<rparr>)
      (zero_config\<lparr>gc_flags := 0x808\<rparr>) (Suc (Suc 0)) sv) =
     Some [LOCATION_ERROR_GENERAL_FAILURE, LOCATION_ERROR_SUCCESS, LOCATION_ERROR_SUCCESS]"
  by (simp add: config_eval Let_def)

text \<open>A server with a name that cannot be resolved is sent with an address that was never set, one with an address is not sent.\<close>

lemma pde_server_inverted:
  "map_option ur_calls (gnssUpdateConfig (sample_env c) 1 [] [] '':'' (zero_config\<lparr>gc_flags := 4\<rparr>)
     (zero_config\<lparr>gc_flags := 4, gc_assistanceServer := \<lparr>as_type = 1, hostName = Some ''nowhere'', as_port = 7\<rparr>\<rparr>) 1 sv) =
   Some [SetServerIp None 7 LOC_AGPS_CDMA_PDE_SERVER]"
  "map_option ur_calls (gnssUpdateConfig (sample_env c) 1 [] [] '':'' (zero_config\<lparr>gc_flags := 4\<rparr>)
     (zero_config\<lparr>gc_flags := 4, gc_assistanceServer := \<lparr>as_type = 1, hostName = Some ''10.0.0.1'', as_port = 7\<rparr>\<rparr>) 1 sv) =
   Some []"
  by (simp_all add: config_eval Let_def)

end
