(* ===== verification/Gnss_Config_Runs.thy ===== *)
theory Gnss_Config_Runs
  imports Gnss_Config
begin

text \<open>
  The commands that configure the engine, with the two threads they use, from gnss/GnssAdapter.cpp: a
  command leaves a message for the thread of the adapter, which changes gps.conf and leaves a job for
  the thread of the engine. Commands and steps of the two threads come in any order. The state is that
  of an adapter that has read gps.conf; reading it again does nothing. None is undefined behaviour. The
  theorems show which lock the engine has in the end, and that it keeps the settings of the
  integration API when it restarts.
\<close>

section \<open>Data\<close>

record sap_conf =
  GYRO_BIAS_RANDOM_WALK_VALID :: "8 word"
  GYRO_BIAS_RANDOM_WALK :: u64
  SENSOR_ACCEL_BATCHES_PER_SEC :: u32
  SENSOR_ACCEL_SAMPLES_PER_BATCH :: u32
  SENSOR_GYRO_BATCHES_PER_SEC :: u32
  SENSOR_GYRO_SAMPLES_PER_BATCH :: u32
  SENSOR_ACCEL_BATCHES_PER_SEC_HIGH :: u32
  SENSOR_ACCEL_SAMPLES_PER_BATCH_HIGH :: u32
  SENSOR_GYRO_BATCHES_PER_SEC_HIGH :: u32
  SENSOR_GYRO_SAMPLES_PER_BATCH_HIGH :: u32
  SENSOR_CONTROL_MODE :: u32
  SENSOR_ALGORITHM_CONFIG_MASK :: u32
  ACCEL_RANDOM_WALK_SPECTRAL_DENSITY_VALID :: "8 word"
  ACCEL_RANDOM_WALK_SPECTRAL_DENSITY :: u64
  ANGLE_RANDOM_WALK_SPECTRAL_DENSITY_VALID :: "8 word"
  ANGLE_RANDOM_WALK_SPECTRAL_DENSITY :: u64
  RATE_RANDOM_WALK_SPECTRAL_DENSITY_VALID :: "8 word"
  RATE_RANDOM_WALK_SPECTRAL_DENSITY :: u64
  VELOCITY_RANDOM_WALK_SPECTRAL_DENSITY_VALID :: "8 word"
  VELOCITY_RANDOM_WALK_SPECTRAL_DENSITY :: u64

text \<open>\<open>mLocConfigInfo\<close>.\<close>

record integration_config =
  tunc_isValid :: bool
  tunc_enable :: bool
  tuncThresholdMs :: u32
  tunc_energyBudget :: u32
  pace_isValid :: bool
  pace_enable :: bool
  robust_isValid :: bool
  robust_enable :: bool
  enableFor911 :: bool

text \<open>What the thread of the engine is asked to do; what is captured is an argument.\<close>

datatype config_job =
    LockJob u32
  | UpdateJob gnss_config gnss_config string string nat "u32 list"
  | ConfigJob gps_conf sap_conf string string string gnss_config

datatype config_msg =
    MsgGnssUpdateConfig gnss_config "u32 list"
  | MsgGnssGetConfig u32 "u32 list"
  | MsgEnableGnss u32 u32
  | MsgDisableGnss u32
  | MsgControlNfwLocationAccess bool
  | MsgEnableTUNC u32 bool u32 u32
  | MsgEnablePACE u32 bool
  | MsgConfigRobustLocation u32 bool bool
  | MsgHandleEngineUpEvent
  | CollectiveResponse "location_error list" "u32 list"

datatype get_call = GetBlacklistSv | GetRobustLocationConfig u32 | GetMinGpsWeek u32 | GetMinSvElevation u32

text \<open>What happens outside: the other parts that the engine coming up reaches are named only.\<close>

datatype config_event =
    EngineCall config_call
  | EngineAsk config_call u32
  | EngineSv sv_call
  | EngineGet get_call
  | Reported "(u32 \<times> location_error) list"
  | LockStatus u32
  | ModemPowerVote bool
  | BroadcastCapabilities
  | NmeaEventEnabled
  | MeasCorrInit
  | SuspendSessions
  | RestartSessions bool
  | SvTypeConfigUpdate
  | UpdateSystemPowerState
  | SecondaryBandConfigUpdate
  | InitCDFWService

text \<open>What the thread of the adapter learns from other parts.\<close>

record adapter_env =
  ae_env :: config_env
  ae_convertSuplVersion :: "u32 \<Rightarrow> u32"
  ae_convertLppeCp :: "u32 \<Rightarrow> 16 word"
  ae_convertLppeUp :: "u32 \<Rightarrow> 16 word"
  ae_nmea_client :: bool
  ae_engine_enabled :: bool

text \<open>
  The fields of the adapter and the two queues. \<open>cs_resent\<close> says that the pending messages were sent,
  after which they are deleted while the list still has them.
\<close>

record config_state =
  cs_conf :: gps_conf
  cs_sap :: sap_conf
  cs_servers :: supl_servers
  cs_sv :: sv_state
  mAfwControlId :: u32
  mSupportNfwControl :: bool
  cs_known :: bool
  cs_pending :: "config_msg list"
  cs_resent :: bool
  mNmeaMask :: u32
  mLocConfigInfo :: integration_config
  mIsMeasCorrInterfaceOpen :: bool
  cs_counter :: u32
  cs_queue :: "config_msg list"
  cs_jobs :: "config_job list"
  cs_log :: "config_event list"

definition log_of :: "config_event list \<Rightarrow> config_state \<Rightarrow> config_state" where
  "log_of evs s = s\<lparr>cs_log := cs_log s @ evs\<rparr>"

definition send_job :: "config_job \<Rightarrow> config_state \<Rightarrow> config_state" where
  "send_job j s = s\<lparr>cs_jobs := cs_jobs s @ [j]\<rparr>"

definition send_config_msg :: "config_msg \<Rightarrow> config_state \<Rightarrow> config_state" where
  "send_config_msg m s = s\<lparr>cs_queue := cs_queue s @ [m]\<rparr>"

definition set_conf :: "(gps_conf \<Rightarrow> gps_conf) \<Rightarrow> config_state \<Rightarrow> config_state" where
  "set_conf f s = s\<lparr>cs_conf := f (cs_conf s)\<rparr>"

definition set_server :: "string option \<Rightarrow> u32 \<Rightarrow> server_type \<Rightarrow> config_state \<Rightarrow> config_state" where
  "set_server server port t s =
     (let (c, v) = setSuplHostServer server port t (cs_conf s, cs_servers s) in s\<lparr>cs_conf := c, cs_servers := v\<rparr>)"

section \<open>The configuration of an engine that comes up\<close>

definition LOC_NMEA_ALL_GENERAL_SUPPORTED_MASK :: u32 where "LOC_NMEA_ALL_GENERAL_SUPPORTED_MASK = 0x7FFDFFFF"
definition NMEA_DEBUG_MASK :: u32 where "NMEA_DEBUG_MASK = 0x20000"
definition LOC_NMEA_MASK_TAGBLOCK_V02 :: u32 where "LOC_NMEA_MASK_TAGBLOCK_V02 = 0x80000000"

text \<open>\<open>NMEA_PROVIDER_MP\<close> is 1.\<close>

definition nmea_mask :: "gps_conf \<Rightarrow> bool \<Rightarrow> u32" where
  "nmea_mask c debug_nmea =
     (let m = (if NMEA_PROVIDER c = 1
               then (if NMEA_TAG_BLOCK_GROUPING_ENABLED c \<noteq> 0
                     then LOC_NMEA_ALL_GENERAL_SUPPORTED_MASK OR LOC_NMEA_MASK_TAGBLOCK_V02
                     else LOC_NMEA_ALL_GENERAL_SUPPORTED_MASK)
               else 0)
      in if debug_nmea then m OR NMEA_DEBUG_MASK else m)"

definition set_nmea_mask :: "adapter_env \<Rightarrow> config_state \<Rightarrow> config_state" where
  "set_nmea_mask a s =
     (let m = nmea_mask (cs_conf s) (en_debug_nmea (ae_env a)) in
      if mNmeaMask s = m then s
      else log_of (if m \<noteq> 0 \<and> ae_nmea_client a then [NmeaEventEnabled] else []) (s\<lparr>mNmeaMask := m\<rparr>))"

text \<open>The configuration that is requested when the engine comes up.\<close>

definition up_config :: "adapter_env \<Rightarrow> config_state \<Rightarrow> gnss_config" where
  "up_config a s =
     (let c = cs_conf s;
          r = zero_config\<lparr>
            gc_flags := F_GPS_LOCK OR F_BLACKLISTED_SV_IDS OR F_ASSISTANCE_DATA OR F_SUPL_VERSION OR
                        F_AGLONASS_POSITION_PROTOCOL OR F_LPP_PROFILE,
            gc_gpsLock := (if mSupportNfwControl s \<or> mAfwControlId s = 0 then GPS_LOCK c else GNSS_CONFIG_GPS_LOCK_NONE),
            gc_suplVersion := ae_convertSuplVersion a (SUPL_VER c),
            gc_lppProfileMask := ucast (LPP_PROFILE c),
            gc_aGlonassPositionProtocolMask := ucast (A_GLONASS_POS_PROTOCOL_SELECT c),
            gc_blacklistedSvIds := mBlacklistedSvIds (cs_sv s)\<rparr>;
          r = (if LPPE_CP_TECHNOLOGY c \<noteq> 0
               then r\<lparr>gc_flags := gc_flags r OR F_LPPE_CONTROL_PLANE,
                      gc_lppeControlPlaneMask := ae_convertLppeCp a (LPPE_CP_TECHNOLOGY c)\<rparr> else r);
          r = (if LPPE_UP_TECHNOLOGY c \<noteq> 0
               then r\<lparr>gc_flags := gc_flags r OR F_LPPE_USER_PLANE,
                      gc_lppeUserPlaneMask := ae_convertLppeUp a (LPPE_UP_TECHNOLOGY c)\<rparr> else r)
      in r)"

definition setConfig :: "adapter_env \<Rightarrow> config_state \<Rightarrow> config_state" where
  "setConfig a s =
     (let s1 = set_nmea_mask a s;
          oldMo = mMoServerUrl (cs_servers s1);
          s2 = set_server (Some (SUPL_HOST (cs_conf s1))) (SUPL_PORT (cs_conf s1)) LOC_AGPS_SUPL_SERVER s1;
          s3 = set_server (Some (MO_SUPL_HOST (cs_conf s2))) (MO_SUPL_PORT (cs_conf s2)) LOC_AGPS_MO_SUPL_SERVER s2;
          s4 = send_job (ConfigJob (cs_conf s3) (cs_sap s3) oldMo (mMoServerUrl (cs_servers s3)) (mServerUrl (cs_servers s3))
                           (up_config a s3)) s3
      in if mIsMeasCorrInterfaceOpen s4 then log_of [MeasCorrInit] s4 else s4)"

section \<open>The messages of the commands\<close>

definition config_engine_up :: "adapter_env \<Rightarrow> config_state \<Rightarrow> config_state option" where
  "config_engine_up a s =
     (let s1 = log_of [BroadcastCapabilities] (s\<lparr>cs_known := True\<rparr>);
          s2 = setConfig a s1;
          s3 = log_of [EngineSv (SetBlacklistSv (mGnssSvIdConfig (cs_sv s2))), SvTypeConfigUpdate, UpdateSystemPowerState,
                       SecondaryBandConfigUpdate, InitCDFWService] s2
      in if \<not> ae_engine_enabled a then Some s3
         else if cs_resent s3 \<and> cs_pending s3 \<noteq> [] then None
         else Some ((log_of [RestartSessions True] s3)\<lparr>cs_queue := cs_queue s3 @ cs_pending s3, cs_resent := True\<rparr>))"

text \<open>
  The part of \<open>MsgGnssUpdateConfig\<close> for the lock: the state, and what is left to request from the
  engine. \<open>errs\<close> and \<open>index\<close> of the message are used by nobody.
\<close>

definition update_lock :: "gnss_config \<Rightarrow> config_state \<Rightarrow> gnss_config \<times> gnss_config \<times> config_state" where
  "update_lock config s =
     (if gc_flags config AND F_GPS_LOCK = 0 then (config, config, s)
      else
        (let lock = gc_gpsLock config OR GNSS_CONFIG_GPS_LOCK_MO;
             s1 = set_conf (\<lambda>c. c\<lparr>GPS_LOCK := lock\<rparr>) s;
             requested = config\<lparr>gc_gpsLock := (if mAfwControlId s \<noteq> 0 \<and> mSupportNfwControl s
                                              then GNSS_CONFIG_GPS_LOCK_NONE else lock)\<rparr>;
             needUpdate = (if mAfwControlId s \<noteq> 0 \<and> \<not> mSupportNfwControl s
                           then config\<lparr>gc_flags := gc_flags config AND NOT F_GPS_LOCK\<rparr> else config)
         in (requested, needUpdate, s1\<lparr>mSupportNfwControl := False\<rparr>)))"

definition update_server :: "gnss_config \<Rightarrow> gnss_config \<times> config_state \<Rightarrow> gnss_config \<times> config_state" where
  "update_server config = (\<lambda>(needUpdate, s).
     if gc_flags config AND F_ASSISTANCE_DATA = 0 then (needUpdate, s)
     else if as_type (gc_assistanceServer config) = 0
     then (needUpdate, set_server (hostName (gc_assistanceServer config)) (as_port (gc_assistanceServer config))
                         LOC_AGPS_SUPL_SERVER s)
     else (needUpdate\<lparr>gc_flags := gc_flags needUpdate AND NOT F_ASSISTANCE_DATA\<rparr>, s))"

definition conf_if :: "gnss_config \<Rightarrow> u32 \<Rightarrow> (gps_conf \<Rightarrow> gps_conf) \<Rightarrow> config_state \<Rightarrow> config_state" where
  "conf_if config flag f s = (if gc_flags config AND flag \<noteq> 0 then set_conf f s else s)"

definition update_conf :: "gnss_config \<Rightarrow> config_state \<Rightarrow> config_state" where
  "update_conf r s0 =
     (let s1 = conf_if r F_LPP_PROFILE (\<lambda>c. c\<lparr>LPP_PROFILE := ucast (gc_lppProfileMask r)\<rparr>) s0;
          s2 = conf_if r F_LPPE_CONTROL_PLANE (\<lambda>c. c\<lparr>LPPE_CP_TECHNOLOGY := convertLppeCp (gc_lppeControlPlaneMask r)\<rparr>) s1;
          s3 = conf_if r F_LPPE_USER_PLANE (\<lambda>c. c\<lparr>LPPE_UP_TECHNOLOGY := convertLppeUp (gc_lppeUserPlaneMask r)\<rparr>) s2;
          s4 = conf_if r F_AGLONASS_POSITION_PROTOCOL
                 (\<lambda>c. c\<lparr>A_GLONASS_POS_PROTOCOL_SELECT := convertAGloProt (gc_aGlonassPositionProtocolMask r)\<rparr>) s3;
          s5 = conf_if r F_EM_PDN_FOR_EM_SUPL
                 (\<lambda>c. c\<lparr>USE_EMERGENCY_PDN_FOR_EMERGENCY_SUPL := convertEP4ES (gc_emergencyPdnForEmergencySupl r)\<rparr>) s4;
          s6 = conf_if r F_SUPL_EM_SERVICES (\<lambda>c. c\<lparr>SUPL_ES := convertSuplEs (gc_suplEmergencyServices r)\<rparr>) s5;
          s7 = conf_if r F_SUPL_MODE (\<lambda>c. c\<lparr>SUPL_MODE := convertSuplMode (gc_suplModeMask r)\<rparr>) s6
      in if gc_flags r AND F_SUPL_MODE \<noteq> 0 then log_of [BroadcastCapabilities] s7 else s7)"

definition update_proc :: "gnss_config \<Rightarrow> u32 list \<Rightarrow> config_state \<Rightarrow> config_state" where
  "update_proc config ids s =
     (if \<not> cs_known s then s\<lparr>cs_pending := cs_pending s @ [MsgGnssUpdateConfig config ids]\<rparr>
      else
        (let (requested, need1, s1) = update_lock config s;
             s2 = conf_if requested F_SUPL_VERSION (\<lambda>c. c\<lparr>SUPL_VER := convertSuplVersion (gc_suplVersion requested)\<rparr>) s1;
             (needUpdate, s3) = update_server config (need1, s2);
             s4 = update_conf requested s3;
             needSuspendResume = (gc_flags requested AND F_MIN_SV_ELEVATION \<noteq> 0);
             s5 = log_of (if needSuspendResume then [SuspendSessions] else []) s4;
             s6 = send_job (UpdateJob requested needUpdate (mMoServerUrl (cs_servers s5)) (mServerUrl (cs_servers s5))
                              (length ids) ids) s5
         in log_of (if needSuspendResume then [RestartSessions False] else []) s6))"

text \<open>The errors that are known at once, and what is asked; an element that is left is not written.\<close>

definition not_supported :: "u32 \<Rightarrow> u32 \<Rightarrow> nat \<Rightarrow> location_error list \<Rightarrow> location_error list" where
  "not_supported flags flag count errs =
     (if flags AND flag \<noteq> 0 \<and> length errs < count then errs @ [LOCATION_ERROR_NOT_SUPPORTED] else errs)"

definition ask_if :: "u32 \<Rightarrow> u32 \<Rightarrow> get_call \<Rightarrow> get_call list" where
  "ask_if flags flag call = (if flags AND flag \<noteq> 0 then [call] else [])"

definition get_answers :: "bool \<Rightarrow> u32 \<Rightarrow> u32 list \<Rightarrow> get_call list \<times> location_error list" where
  "get_answers enablement flags ids =
     (let count = length ids;
          errs = fold (\<lambda>flag. not_supported flags flag count)
                   [F_GPS_LOCK, F_SUPL_VERSION, F_ASSISTANCE_DATA, F_LPP_PROFILE, F_LPPE_CONTROL_PLANE, F_LPPE_USER_PLANE,
                    F_AGLONASS_POSITION_PROTOCOL, F_EM_PDN_FOR_EM_SUPL, F_SUPL_EM_SERVICES, F_SUPL_MODE] [];
          errs = (if flags AND F_BLACKLISTED_SV_IDS \<noteq> 0 \<and> length errs < count
                  then errs @ [if enablement then LOCATION_ERROR_SUCCESS else LOCATION_ERROR_NOT_SUPPORTED] else errs);
          errs = not_supported flags F_EMERGENCY_EXTENSION_SECONDS count errs;
          i = ids ! length errs
      in ((if enablement then ask_if flags F_BLACKLISTED_SV_IDS GetBlacklistSv else []) @
          ask_if flags F_ROBUST_LOCATION (GetRobustLocationConfig i) @
          ask_if flags F_MIN_GPS_WEEK (GetMinGpsWeek i) @ ask_if flags F_MIN_SV_ELEVATION (GetMinSvElevation i), errs))"

definition get_proc :: "adapter_env \<Rightarrow> u32 \<Rightarrow> u32 list \<Rightarrow> config_state \<Rightarrow> config_state" where
  "get_proc a flags ids s =
     (if \<not> cs_known s then s\<lparr>cs_pending := cs_pending s @ [MsgGnssGetConfig flags ids]\<rparr>
      else let (calls, errs) = get_answers (en_constellation_enablement (ae_env a)) flags ids
           in log_of (map EngineGet calls @ [Reported (zip ids errs)]) s)"

definition tell_lock :: "u32 \<Rightarrow> config_state \<Rightarrow> config_state" where
  "tell_lock gpsLock s = log_of [LockStatus gpsLock] (send_job (LockJob gpsLock) s)"

definition enable_proc :: "u32 \<Rightarrow> u32 \<Rightarrow> config_state \<Rightarrow> config_state" where
  "enable_proc sessionId techType s =
     (if techType \<noteq> 0 then log_of [Reported [(sessionId, LOCATION_ERROR_INVALID_PARAMETER)]] s
      else if mAfwControlId s > 0 then log_of [Reported [(sessionId, LOCATION_ERROR_ALREADY_STARTED)]] s
      else
        (let s1 = (log_of [ModemPowerVote True] s)\<lparr>mAfwControlId := sessionId\<rparr>;
             s2 = (if mSupportNfwControl s1
                   then set_conf (\<lambda>c. c\<lparr>GPS_LOCK := GPS_LOCK c AND GNSS_CONFIG_GPS_LOCK_NI\<rparr>) s1 else s1);
             gpsLock = (if mSupportNfwControl s1 then GPS_LOCK (cs_conf s2) else GNSS_CONFIG_GPS_LOCK_NONE)
         in log_of [Reported [(sessionId, LOCATION_ERROR_SUCCESS)]] (tell_lock gpsLock s2)))"

definition disable_proc :: "u32 \<Rightarrow> config_state \<Rightarrow> config_state" where
  "disable_proc sessionId s =
     (if mAfwControlId s \<noteq> sessionId then log_of [Reported [(sessionId, LOCATION_ERROR_ID_UNKNOWN)]] s
      else
        (let s1 = (log_of [ModemPowerVote False] s)\<lparr>mAfwControlId := 0\<rparr>;
             s2 = (if mSupportNfwControl s1
                   then set_conf (\<lambda>c. c\<lparr>GPS_LOCK := GPS_LOCK c OR GNSS_CONFIG_GPS_LOCK_MO\<rparr>) s1 else s1)
         in log_of [Reported [(sessionId, LOCATION_ERROR_SUCCESS)]] (tell_lock (GPS_LOCK (cs_conf s2)) s2)))"

definition nfw_proc :: "bool \<Rightarrow> config_state \<Rightarrow> config_state" where
  "nfw_proc enable s =
     (let gpsLock = (if enable then GPS_LOCK (cs_conf s) AND NOT GNSS_CONFIG_GPS_LOCK_NI
                     else GPS_LOCK (cs_conf s) OR GNSS_CONFIG_GPS_LOCK_NI)
      in send_job (LockJob gpsLock) (set_conf (\<lambda>c. c\<lparr>GPS_LOCK := gpsLock\<rparr>) s))"

definition setConstrainedTunc :: "bool \<Rightarrow> u32 \<Rightarrow> u32 \<Rightarrow> u32 \<Rightarrow> config_state \<Rightarrow> config_state" where
  "setConstrainedTunc enable tuncConstraint energyBudget sessionId s =
     log_of [if sessionId \<noteq> 0 then EngineAsk (SetConstrainedTuncMode enable tuncConstraint energyBudget) sessionId
             else EngineCall (SetConstrainedTuncMode enable tuncConstraint energyBudget)]
       (s\<lparr>mLocConfigInfo := (mLocConfigInfo s)\<lparr>tunc_isValid := True, tunc_enable := enable,
            tuncThresholdMs := tuncConstraint, tunc_energyBudget := energyBudget\<rparr>\<rparr>)"

definition setPositionAssistedClockEstimator :: "bool \<Rightarrow> u32 \<Rightarrow> config_state \<Rightarrow> config_state" where
  "setPositionAssistedClockEstimator enable sessionId s =
     log_of [if sessionId \<noteq> 0 then EngineAsk (SetPositionAssistedClockEstimatorMode enable) sessionId
             else EngineCall (SetPositionAssistedClockEstimatorMode enable)]
       (s\<lparr>mLocConfigInfo := (mLocConfigInfo s)\<lparr>pace_isValid := True, pace_enable := enable\<rparr>\<rparr>)"

definition configRobustLocation :: "u32 \<Rightarrow> bool \<Rightarrow> bool \<Rightarrow> config_state \<Rightarrow> config_state" where
  "configRobustLocation sessionId enable enableForE911 s =
     log_of [if sessionId \<noteq> 0 then EngineAsk (ConfigRobustLocation enable enableForE911) sessionId
             else EngineCall (ConfigRobustLocation enable enableForE911)]
       (s\<lparr>mLocConfigInfo := (mLocConfigInfo s)\<lparr>robust_isValid := True, robust_enable := enable,
            enableFor911 := enableForE911\<rparr>\<rparr>)"

fun config_proc :: "adapter_env \<Rightarrow> config_msg \<Rightarrow> config_state \<Rightarrow> config_state option" where
  "config_proc a (MsgGnssUpdateConfig config ids) s = Some (update_proc config ids s)"
| "config_proc a (MsgGnssGetConfig flags ids) s = Some (get_proc a flags ids s)"
| "config_proc a (MsgEnableGnss sessionId techType) s = Some (enable_proc sessionId techType s)"
| "config_proc a (MsgDisableGnss sessionId) s = Some (disable_proc sessionId s)"
| "config_proc a (MsgControlNfwLocationAccess enable) s = Some (nfw_proc enable s)"
| "config_proc a (MsgEnableTUNC i enable constraint budget) s = Some (setConstrainedTunc enable constraint budget i s)"
| "config_proc a (MsgEnablePACE i enable) s = Some (setPositionAssistedClockEstimator enable i s)"
| "config_proc a (MsgConfigRobustLocation i enable e911) s = Some (configRobustLocation i enable e911 s)"
| "config_proc a MsgHandleEngineUpEvent s = config_engine_up a s"
| "config_proc a (CollectiveResponse errs ids) s = Some (log_of [Reported (zip ids errs)] s)"

section \<open>The jobs of the engine\<close>

definition first_tunc :: "config_env \<Rightarrow> gps_conf \<Rightarrow> integration_config \<Rightarrow> integration_config" where
  "first_tunc e c i =
     (if tunc_isValid i then i
      else i\<lparr>tunc_isValid := True, tunc_enable := (CONSTRAINED_TIME_UNCERTAINTY_ENABLED c = 1),
             tuncThresholdMs := en_float e (CONSTRAINED_TIME_UNCERTAINTY_THRESHOLD c),
             tunc_energyBudget := CONSTRAINED_TIME_UNCERTAINTY_ENERGY_BUDGET c\<rparr>)"

definition first_pace :: "gps_conf \<Rightarrow> integration_config \<Rightarrow> integration_config" where
  "first_pace c i =
     (if pace_isValid i then i
      else i\<lparr>pace_isValid := True, pace_enable := (POSITION_ASSISTED_CLOCK_ESTIMATOR_ENABLED c = 1)\<rparr>)"

definition sensor_properties :: "sap_conf \<Rightarrow> config_call list" where
  "sensor_properties p =
     (if GYRO_BIAS_RANDOM_WALK_VALID p \<noteq> 0 \<or> ACCEL_RANDOM_WALK_SPECTRAL_DENSITY_VALID p \<noteq> 0 \<or>
         ANGLE_RANDOM_WALK_SPECTRAL_DENSITY_VALID p \<noteq> 0 \<or> RATE_RANDOM_WALK_SPECTRAL_DENSITY_VALID p \<noteq> 0 \<or>
         VELOCITY_RANDOM_WALK_SPECTRAL_DENSITY_VALID p \<noteq> 0
      then [SetSensorProperties
              [(GYRO_BIAS_RANDOM_WALK_VALID p, GYRO_BIAS_RANDOM_WALK p),
               (ACCEL_RANDOM_WALK_SPECTRAL_DENSITY_VALID p, ACCEL_RANDOM_WALK_SPECTRAL_DENSITY p),
               (ANGLE_RANDOM_WALK_SPECTRAL_DENSITY_VALID p, ANGLE_RANDOM_WALK_SPECTRAL_DENSITY p),
               (RATE_RANDOM_WALK_SPECTRAL_DENSITY_VALID p, RATE_RANDOM_WALK_SPECTRAL_DENSITY p),
               (VELOCITY_RANDOM_WALK_SPECTRAL_DENSITY_VALID p, VELOCITY_RANDOM_WALK_SPECTRAL_DENSITY p)]]
      else [])"

definition sensor_control :: "sap_conf \<Rightarrow> config_call" where
  "sensor_control p = SetSensorPerfControlConfig
     [SENSOR_CONTROL_MODE p, SENSOR_ACCEL_SAMPLES_PER_BATCH p, SENSOR_ACCEL_BATCHES_PER_SEC p,
      SENSOR_GYRO_SAMPLES_PER_BATCH p, SENSOR_GYRO_BATCHES_PER_SEC p, SENSOR_ACCEL_SAMPLES_PER_BATCH_HIGH p,
      SENSOR_ACCEL_BATCHES_PER_SEC_HIGH p, SENSOR_GYRO_SAMPLES_PER_BATCH_HIGH p, SENSOR_GYRO_BATCHES_PER_SEC_HIGH p,
      SENSOR_ALGORITHM_CONFIG_MASK p]"

text \<open>What \<open>setConfig\<close> leaves for the thread of the engine, after \<open>gnssUpdateConfig\<close>.\<close>

definition other_settings :: "config_env \<Rightarrow> gps_conf \<Rightarrow> sap_conf \<Rightarrow> config_state \<Rightarrow> config_state" where
  "other_settings e gpsConf sapConf s =
     (let m = nmea_mask gpsConf (en_debug_nmea e);
          i = first_pace gpsConf (first_tunc e gpsConf (mLocConfigInfo s))
      in log_of (map EngineCall
            ((if m \<noteq> 0 then [SetNMEATypes m] else []) @
             [SetConstrainedTuncMode (tunc_enable i) (tuncThresholdMs i) (tunc_energyBudget i),
              SetPositionAssistedClockEstimatorMode (pace_enable i)] @
             (if robust_isValid i then [ConfigRobustLocation (robust_enable i) (enableFor911 i)] else []) @
             sensor_properties sapConf @ [sensor_control sapConf]))
          (s\<lparr>mLocConfigInfo := i\<rparr>))"

fun job_proc :: "config_env \<Rightarrow> config_job \<Rightarrow> config_state \<Rightarrow> config_state option" where
  "job_proc e (LockJob gpsLock) s = Some (log_of [EngineCall (SetGpsLock gpsLock)] s)"
| "job_proc e (UpdateJob requested needUpdate mo url count ids) s =
     (case gnssUpdateConfig e (AGPS_CONFIG_INJECT (cs_conf s)) [] mo url requested needUpdate count (cs_sv s) of
        None \<Rightarrow> None
      | Some u \<Rightarrow> Some (send_config_msg (CollectiveResponse (ur_errs u) ids)
                     (log_of (map EngineCall (ur_calls u)) (s\<lparr>cs_sv := ur_sv u\<rparr>))))"
| "job_proc e (ConfigJob gpsConf sapConf oldMo mo url requested) s =
     (case gnssUpdateConfig e (AGPS_CONFIG_INJECT (cs_conf s)) oldMo mo url requested requested 0 (cs_sv s) of
        None \<Rightarrow> None
      | Some u \<Rightarrow> Some (other_settings e gpsConf sapConf (log_of (map EngineCall (ur_calls u)) (s\<lparr>cs_sv := ur_sv u\<rparr>))))"

section \<open>Commands and threads\<close>

datatype config_op =
    UpdateConfigCommand gnss_config
  | GetConfigCommand u32
  | EnableCommand u32
  | DisableCommand u32
  | NfwControlCommand bool
  | TuncCommand bool u32 u32
  | PaceCommand bool
  | RobustCommand bool bool
  | HandleEngineUp
  | RunAdapter adapter_env
  | RunEngine config_env

text \<open>The loop that counts the flags, and the identifiers, one for each.\<close>

function count_flags :: "u32 \<Rightarrow> nat" where
  "count_flags flags =
     (if flags > 0 then (if flags AND 1 \<noteq> 0 then 1 else 0) + count_flags (drop_bit 1 flags) else 0)"
  by pat_completeness auto
termination
  by (relation "measure unat") (auto simp: word_greater_zero_iff drop_bit_eq_div unat_div_distrib unat_gt_0
      simp flip: drop_bit_Suc)

declare count_flags.simps [simp del]

definition draw_config_ids :: "nat \<Rightarrow> config_state \<Rightarrow> u32 list \<times> config_state" where
  "draw_config_ids n s =
     (map (\<lambda>k. (generateSessionId ^^ Suc k) (cs_counter s)) [0..<n], s\<lparr>cs_counter := (generateSessionId ^^ n) (cs_counter s)\<rparr>)"

text \<open>A command with several identifiers sends nothing if there is none; it returns the identifiers.\<close>

definition send_ids :: "nat \<Rightarrow> (u32 list \<Rightarrow> config_msg) \<Rightarrow> config_state \<Rightarrow> u32 list \<times> config_state" where
  "send_ids n m s =
     (let (ids, s1) = draw_config_ids n s in (ids, if ids = [] then s1 else send_config_msg (m ids) s1))"

definition send_id :: "(u32 \<Rightarrow> config_msg) \<Rightarrow> config_state \<Rightarrow> u32 list \<times> config_state" where
  "send_id m s =
     (let i = generateSessionId (cs_counter s) in ([i], send_config_msg (m i) (s\<lparr>cs_counter := i\<rparr>)))"

fun config_step :: "config_op \<Rightarrow> config_state \<Rightarrow> (u32 list \<times> config_state) option" where
  "config_step (UpdateConfigCommand config) s = Some (send_ids (count_flags (gc_flags config)) (MsgGnssUpdateConfig config) s)"
| "config_step (GetConfigCommand configMask) s = Some (send_ids (count_flags configMask) (MsgGnssGetConfig configMask) s)"
| "config_step (EnableCommand techType) s = Some (send_id (\<lambda>i. MsgEnableGnss i techType) s)"
| "config_step (DisableCommand i) s = Some ([], send_config_msg (MsgDisableGnss i) s)"
| "config_step (NfwControlCommand enable) s =
     Some ([], if mSupportNfwControl s then send_config_msg (MsgControlNfwLocationAccess enable) s else s)"
| "config_step (TuncCommand enable constraint budget) s = Some (send_id (\<lambda>i. MsgEnableTUNC i enable constraint budget) s)"
| "config_step (PaceCommand enable) s = Some (send_id (\<lambda>i. MsgEnablePACE i enable) s)"
| "config_step (RobustCommand enable e911) s = Some (send_id (\<lambda>i. MsgConfigRobustLocation i enable e911) s)"
| "config_step HandleEngineUp s = Some ([], send_config_msg MsgHandleEngineUpEvent s)"
| "config_step (RunAdapter a) s =
     (case cs_queue s of
        [] \<Rightarrow> Some ([], s)
      | m # ms \<Rightarrow> map_option (\<lambda>s1. ([], s1)) (config_proc a m (s\<lparr>cs_queue := ms\<rparr>)))"
| "config_step (RunEngine e) s =
     (case cs_jobs s of
        [] \<Rightarrow> Some ([], s)
      | j # js \<Rightarrow> map_option (\<lambda>s1. ([], s1)) (job_proc e j (s\<lparr>cs_jobs := js\<rparr>)))"

section \<open>Which lock the engine has\<close>

fun later :: "'a option \<Rightarrow> 'a option \<Rightarrow> 'a option" where
  "later a None = a"
| "later a (Some b) = Some b"

fun last_some :: "'a option list \<Rightarrow> 'a option" where
  "last_some [] = None"
| "last_some (x # xs) = later x (last_some xs)"

lemma later_none [simp]: "later None b = b" "later a b = None \<longleftrightarrow> a = None \<and> b = None"
  by (cases b; simp)+

lemma later_assoc: "later a (later b c) = later (later a b) c"
  by (cases c) simp_all

lemma last_some_append [simp]:
  "last_some (xs @ ys) = later (last_some xs) (last_some ys)"
  by (induction xs) (simp_all add: later_assoc)

lemma last_some_none: "(\<And>x. x \<in> set xs \<Longrightarrow> f x = None) \<Longrightarrow> last_some (map f xs) = None"
  by (induction xs) auto

fun call_lock :: "config_call \<Rightarrow> u32 option" where
  "call_lock (SetGpsLock gpsLock) = Some gpsLock"
| "call_lock _ = None"

fun event_lock :: "config_event \<Rightarrow> u32 option" where
  "event_lock (EngineCall c) = call_lock c"
| "event_lock _ = None"

definition config_lock :: "gnss_config \<Rightarrow> gnss_config \<Rightarrow> u32 option" where
  "config_lock r n = (if bit (gc_flags r) 0 \<and> bit (gc_flags n) 0 then Some (gc_gpsLock r) else None)"

fun job_lock :: "config_job \<Rightarrow> u32 option" where
  "job_lock (LockJob gpsLock) = Some gpsLock"
| "job_lock (UpdateJob r n _ _ _ _) = config_lock r n"
| "job_lock (ConfigJob _ _ _ _ _ r) = config_lock r r"

text \<open>The last lock the engine was told, and the last one it will have been told when its jobs are done.\<close>

definition lock_told :: "config_state \<Rightarrow> u32 option" where
  "lock_told s = last_some (map event_lock (cs_log s))"

definition lock_coming :: "config_state \<Rightarrow> u32 option" where
  "lock_coming s = last_some (map event_lock (cs_log s) @ map job_lock (cs_jobs s))"

text \<open>The lock that should be set.\<close>

definition lock_wanted :: "config_state \<Rightarrow> u32" where
  "lock_wanted s =
     (if mSupportNfwControl s \<or> mAfwControlId s = 0 then GPS_LOCK (cs_conf s) else GNSS_CONFIG_GPS_LOCK_NONE)"

lemma event_lock_map [simp]: "event_lock \<circ> EngineCall = call_lock"
  by (rule ext) simp

lemma map_event_lock [simp]: "map (event_lock \<circ> EngineCall) cs = map call_lock cs"
  by simp

lemma injected_bit0: "bit (injected_flags inject flags) 0 = bit flags 0"
  by (simp add: injected_flags_def flag_bits bit_simps)

lemma on_flag_lock:
  assumes "on_flag flags f needed count item u = Some u1"
    and "\<And>sv c err sv1. item sv = Some (c, err, sv1) \<Longrightarrow> last_some (map call_lock c) = None"
  shows "last_some (map call_lock (ur_calls u1)) = last_some (map call_lock (ur_calls u))"
  using assms by (auto simp: on_flag_def put_err_def Let_def split: option.splits if_splits prod.splits)

lemma run_items_lock:
  "run_items flags count its u = Some u1 \<Longrightarrow>
    (\<And>k b item sv c err sv1. (k, b, item) \<in> set its \<Longrightarrow> item sv = Some (c, err, sv1) \<Longrightarrow> last_some (map call_lock c) = None) \<Longrightarrow>
    last_some (map call_lock (ur_calls u1)) = last_some (map call_lock (ur_calls u))"
proof (induction its arbitrary: u)
  case (Cons it its)
  obtain k b item where it: "it = (k, b, item)" by (cases it)
  with Cons.prems(1) obtain u2 where u2: "on_flag flags (push_bit k 1) b count item u = Some u2" "run_items flags count its u2 = Some u1"
    by (auto split: Option.bind_splits)
  have "last_some (map call_lock (ur_calls u2)) = last_some (map call_lock (ur_calls u))"
    by (rule on_flag_lock [OF u2(1)]) (use Cons.prems(2) [of k b item] it in simp)
  moreover have "last_some (map call_lock (ur_calls u1)) = last_some (map call_lock (ur_calls u2))"
    by (rule Cons.IH [OF u2(2)], rule Cons.prems(2), rule list.set_intros(2))
  ultimately show ?case by simp
qed simp

lemma update_config_lock:
  assumes "gnssUpdateConfig e inject oldMo mo url r n count sv = Some u"
  shows "last_some (map call_lock (ur_calls u)) = config_lock r n"
proof -
  let ?f = "injected_flags inject (gc_flags r)"
  obtain u1 where u1: "on_flag ?f (push_bit 0 1) (gc_flags n AND push_bit 0 1 \<noteq> 0) count (call_item e (SetGpsLock (gc_gpsLock r)))
        (config_start count sv) = Some u1"
    and rest: "run_items ?f count (tl (config_items e oldMo mo url r n)) u1 = Some u"
    using assms by (auto simp: gnssUpdateConfig_items config_items_def Let_def split: Option.bind_splits)
  have "last_some (map call_lock (ur_calls u)) = last_some (map call_lock (ur_calls u1))"
    by (rule run_items_lock [OF rest])
      (auto simp: config_items_def Let_def assistance_item_def pde_item_def blacklist_item_def gnssSvIdConfigUpdateSync_def
        split: if_splits option.splits)
  moreover have "last_some (map call_lock (ur_calls u1)) = config_lock r n"
    using u1 need_bit [of 0 "gc_flags n"] need_bit [of 0 ?f] injected_bit0
    by (auto simp: on_flag_def config_start_def put_err_def Let_def config_lock_def split: if_splits)
  ultimately show ?thesis by simp
qed

lemma other_settings_lock [simp]:
  "last_some (map event_lock (cs_log (other_settings e c p s))) = last_some (map event_lock (cs_log s))"
  by (simp add: other_settings_def log_of_def Let_def sensor_properties_def sensor_control_def)

text \<open>What a job leaves alone.\<close>

definition same_lock_fields :: "config_state \<Rightarrow> config_state \<Rightarrow> bool" where
  "same_lock_fields s s1 \<longleftrightarrow> cs_conf s1 = cs_conf s \<and> mAfwControlId s1 = mAfwControlId s \<and>
     mSupportNfwControl s1 = mSupportNfwControl s \<and> cs_known s1 = cs_known s \<and> cs_counter s1 = cs_counter s \<and>
     cs_pending s1 = cs_pending s"

lemma same_lock_wanted: "same_lock_fields s s1 \<Longrightarrow> lock_wanted s1 = lock_wanted s"
  by (simp add: same_lock_fields_def lock_wanted_def)

lemma job_proc_lock:
  assumes "job_proc e j s = Some s1"
  shows "same_lock_fields s s1" "cs_jobs s1 = cs_jobs s"
    "last_some (map event_lock (cs_log s1)) = later (last_some (map event_lock (cs_log s))) (job_lock j)"
    "\<exists>ms. cs_queue s1 = cs_queue s @ ms \<and> list_all (\<lambda>m. \<exists>errs ids. m = CollectiveResponse errs ids) ms"
  using assms
  by (cases j; auto simp: same_lock_fields_def log_of_def send_config_msg_def update_config_lock other_settings_def Let_def
      sensor_properties_def sensor_control_def split: option.splits)+

text \<open>What most parts of a handler leave alone.\<close>

definition lock_frame :: "config_state \<Rightarrow> config_state \<Rightarrow> bool" where
  "lock_frame s s1 \<longleftrightarrow> GPS_LOCK (cs_conf s1) = GPS_LOCK (cs_conf s) \<and> mAfwControlId s1 = mAfwControlId s \<and>
     mSupportNfwControl s1 = mSupportNfwControl s \<and> cs_known s1 = cs_known s \<and> cs_counter s1 = cs_counter s \<and>
     cs_pending s1 = cs_pending s \<and> cs_queue s1 = cs_queue s \<and> cs_jobs s1 = cs_jobs s \<and>
     last_some (map event_lock (cs_log s1)) = last_some (map event_lock (cs_log s))"

lemma lock_frame_refl [simp]: "lock_frame s s"
  by (simp add: lock_frame_def)

lemma lock_frame_trans: "lock_frame s s1 \<Longrightarrow> lock_frame s1 s2 \<Longrightarrow> lock_frame s s2"
  by (simp add: lock_frame_def)

lemma frame_log: "last_some (map event_lock evs) = None \<Longrightarrow> lock_frame s (log_of evs s)"
  by (simp add: lock_frame_def log_of_def)

lemma frame_server: "lock_frame s (set_server server port t s)"
  by (auto simp: lock_frame_def set_server_def setSuplHostServer_def Let_def split: prod.splits option.splits server_type.splits
      if_splits)

lemma frame_conf: "(\<And>c. GPS_LOCK (f c) = GPS_LOCK c) \<Longrightarrow> lock_frame s (set_conf f s)"
  by (simp add: lock_frame_def set_conf_def)

lemma frame_conf_if: "(\<And>c. GPS_LOCK (f c) = GPS_LOCK c) \<Longrightarrow> lock_frame s (conf_if r flag f s)"
  by (simp add: conf_if_def frame_conf)

lemma frame_nmea: "lock_frame s (set_nmea_mask a s)"
  by (simp add: lock_frame_def set_nmea_mask_def log_of_def Let_def)

lemma frame_conf_if2: "lock_frame s s1 \<Longrightarrow> (\<And>c. GPS_LOCK (f c) = GPS_LOCK c) \<Longrightarrow> lock_frame s (conf_if r flag f s1)"
  by (rule lock_frame_trans [OF _ frame_conf_if])

lemma frame_log2: "lock_frame s s1 \<Longrightarrow> last_some (map event_lock evs) = None \<Longrightarrow> lock_frame s (log_of evs s1)"
  by (rule lock_frame_trans [OF _ frame_log])

lemma frame_conf_ifs:
  assumes "\<And>c. GPS_LOCK (f1 c) = GPS_LOCK c" "\<And>c. GPS_LOCK (f2 c) = GPS_LOCK c"
    "\<And>c. GPS_LOCK (f3 c) = GPS_LOCK c" "\<And>c. GPS_LOCK (f4 c) = GPS_LOCK c" "\<And>c. GPS_LOCK (f5 c) = GPS_LOCK c"
    "\<And>c. GPS_LOCK (f6 c) = GPS_LOCK c" "\<And>c. GPS_LOCK (f7 c) = GPS_LOCK c"
  shows "lock_frame s (conf_if r b7 f7 (conf_if r b6 f6 (conf_if r b5 f5 (conf_if r b4 f4 (conf_if r b3 f3
    (conf_if r b2 f2 (conf_if r b1 f1 s)))))))"
  by (intro frame_conf_if2 lock_frame_refl) (simp_all add: assms)

lemma frame_update_conf: "lock_frame s (update_conf r s)"
  unfolding update_conf_def Let_def by (simp add: frame_log2 frame_conf_ifs)

text \<open>A lock that is coming is the one that is wanted, and one is coming when the engine is known.\<close>

fun enable_ok :: "config_msg \<Rightarrow> bool" where
  "enable_ok (MsgEnableGnss i _) = (i \<noteq> 0)"
| "enable_ok _ = True"

definition lock_inv :: "config_state \<Rightarrow> bool" where
  "lock_inv s \<longleftrightarrow> lock_coming s \<in> {None, Some (lock_wanted s)} \<and> (cs_known s \<longrightarrow> lock_coming s \<noteq> None) \<and>
     cs_counter s \<noteq> 0xFFFFFFFF \<and> list_all enable_ok (cs_queue s) \<and> list_all enable_ok (cs_pending s)"

lemma lock_frame_inv: "lock_frame s s1 \<Longrightarrow> lock_inv s1 \<longleftrightarrow> lock_inv s"
  by (simp add: lock_frame_def lock_inv_def lock_coming_def lock_wanted_def)

lemma lock_inv_log: "last_some (map event_lock evs) = None \<Longrightarrow> lock_inv (log_of evs s) \<longleftrightarrow> lock_inv s"
  by (rule lock_frame_inv, rule frame_log)

lemma lock_coming_job [simp]: "lock_coming (send_job j s) = later (lock_coming s) (job_lock j)"
  by (simp add: lock_coming_def send_job_def later_assoc)

lemma lock_wanted_job [simp]: "lock_wanted (send_job j s) = lock_wanted s"
  by (simp add: lock_wanted_def send_job_def)

lemma lock_frame_coming: "lock_frame s s1 \<Longrightarrow> lock_coming s1 = lock_coming s \<and> lock_wanted s1 = lock_wanted s"
  by (simp add: lock_frame_def lock_coming_def lock_wanted_def)

lemma lock_frame_others:
  "lock_frame s s1 \<Longrightarrow> cs_known s1 = cs_known s \<and> cs_counter s1 = cs_counter s \<and> cs_pending s1 = cs_pending s \<and>
    cs_queue s1 = cs_queue s"
  by (simp add: lock_frame_def)

lemma bit0_and: "f AND F_GPS_LOCK = 0 \<longleftrightarrow> \<not> bit f 0"
  using on_flag_bit [of 0 f] by (simp add: F_GPS_LOCK_def)

lemma update_server_spec:
  "update_server config (n, s) = (n1, s1) \<Longrightarrow> lock_frame s s1 \<and> gc_gpsLock n1 = gc_gpsLock n \<and> (bit (gc_flags n1) 0 = bit (gc_flags n) 0)"
  by (auto simp: update_server_def frame_server flag_bits bit_simps split: if_splits)

lemma update_lock_spec:
  assumes "update_lock config s = (r, n, s1)" "lock_inv s" "cs_known s"
  shows "gc_flags r = gc_flags config" "cs_jobs s1 = cs_jobs s" "cs_counter s1 = cs_counter s" "cs_queue s1 = cs_queue s"
    "cs_pending s1 = cs_pending s" "cs_known s1 = cs_known s" "cs_log s1 = cs_log s"
    and "later (lock_coming s) (config_lock r n) = Some (lock_wanted s1)"
proof -
  show "gc_flags r = gc_flags config" "cs_jobs s1 = cs_jobs s" "cs_counter s1 = cs_counter s" "cs_queue s1 = cs_queue s"
    "cs_pending s1 = cs_pending s" "cs_known s1 = cs_known s" "cs_log s1 = cs_log s"
    using assms(1) by (auto simp: update_lock_def Let_def set_conf_def split: if_splits)
  have c: "lock_coming s = Some (lock_wanted s)" using assms(2,3) by (auto simp: lock_inv_def)
  have "\<not> bit (w AND NOT F_GPS_LOCK) 0" for w by (simp add: F_GPS_LOCK_def bit_simps)
  note b = bit0_and this
  show "later (lock_coming s) (config_lock r n) = Some (lock_wanted s1)"
  proof (cases "bit (gc_flags config) 0")
    case True
    then show ?thesis using assms(1) c
      by (cases "mAfwControlId s = 0"; cases "mSupportNfwControl s")
        (auto simp: update_lock_def Let_def b set_conf_def config_lock_def lock_wanted_def)
  next
    case False
    then show ?thesis using assms(1) c by (auto simp: update_lock_def b config_lock_def)
  qed
qed

lemma update_proc_inv:
  assumes "lock_inv s"
  shows "lock_inv (update_proc config ids s)"
proof (cases "cs_known s")
  case False
  then have "lock_coming (update_proc config ids s) = lock_coming s" "lock_wanted (update_proc config ids s) = lock_wanted s"
    by (simp_all add: update_proc_def lock_coming_def lock_wanted_def)
  with False assms show ?thesis by (simp add: lock_inv_def) (simp add: update_proc_def)
next
  case True
  obtain r n s1 where u: "update_lock config s = (r, n, s1)" by (cases "update_lock config s") auto
  note h = update_lock_spec [OF u assms True]
  let ?s2 = "conf_if r F_SUPL_VERSION (\<lambda>c. c\<lparr>SUPL_VER := convertSuplVersion (gc_suplVersion r)\<rparr>) s1"
  obtain n1 s3 where v: "update_server config (n, ?s2) = (n1, s3)" by (cases "update_server config (n, ?s2)") auto
  note w = update_server_spec [OF v]
  let ?need = "gc_flags r AND F_MIN_SV_ELEVATION \<noteq> 0"
  let ?s5 = "log_of (if ?need then [SuspendSessions] else []) (update_conf r s3)"
  have f: "lock_frame s1 ?s5"
  proof (rule frame_log2)
    have "lock_frame s1 ?s2" by (rule frame_conf_if) simp
    with w have "lock_frame s1 s3" using lock_frame_trans by blast
    then show "lock_frame s1 (update_conf r s3)" by (rule lock_frame_trans [OF _ frame_update_conf])
  qed simp
  let ?j = "UpdateJob r n1 (mMoServerUrl (cs_servers ?s5)) (mServerUrl (cs_servers ?s5)) (length ids) ids"
  have "config_lock r n1 = config_lock r n" using w by (simp add: config_lock_def)
  then have "job_lock ?j = config_lock r n" by simp
  moreover have "lock_coming s1 = lock_coming s" using h by (simp add: lock_coming_def)
  ultimately have "lock_coming (send_job ?j ?s5) = Some (lock_wanted (send_job ?j ?s5))"
    using h(8) lock_frame_coming [OF f] by simp
  then have "lock_inv (send_job ?j ?s5)"
    using h(1-7) lock_frame_others [OF f] assms by (simp add: lock_inv_def send_job_def)
  then show ?thesis
    using True by (auto simp: update_proc_def u v Let_def lock_inv_log)
qed

text \<open>After a lock was told, whatever was told before.\<close>

lemma lock_inv_now:
  assumes "lock_inv s" "lock_coming s1 = Some (lock_wanted s1)" "cs_counter s1 = cs_counter s"
    "cs_queue s1 = cs_queue s" "cs_pending s1 = cs_pending s"
  shows "lock_inv s1"
  using assms by (simp add: lock_inv_def)

lemmas config_fields = log_of_def send_job_def set_conf_def tell_lock_def

lemma lock_coming_log: "last_some (map event_lock evs) = None \<Longrightarrow> lock_coming (log_of evs s) = lock_coming s"
  using lock_frame_coming [OF frame_log] by blast

lemma lock_coming_tell [simp]: "lock_coming (tell_lock gpsLock s) = Some gpsLock"
  by (simp add: tell_lock_def lock_coming_log)

lemma get_proc_inv: "lock_inv s \<Longrightarrow> lock_inv (get_proc a flags ids s)"
proof (cases "cs_known s")
  case False
  assume "lock_inv s"
  with False show ?thesis by (auto simp: get_proc_def lock_inv_def lock_coming_def lock_wanted_def)
next
  case True
  assume "lock_inv s"
  moreover have "last_some (map event_lock (map EngineGet calls @ [Reported r])) = None" for calls r
    by (rule last_some_none) auto
  ultimately show ?thesis using True by (auto simp: get_proc_def lock_inv_log split: prod.splits simp del: map_append map_map)
qed

lemma enable_proc_inv:
  assumes "lock_inv s" "i \<noteq> 0"
  shows "lock_inv (enable_proc i techType s)"
proof (cases "techType = 0 \<and> \<not> mAfwControlId s > 0")
  case True
  show ?thesis
    by (rule lock_inv_now [OF assms(1)])
      (use True assms(2) in \<open>auto simp: enable_proc_def Let_def lock_coming_def lock_wanted_def config_fields\<close>)
next
  case False
  with assms show ?thesis by (auto simp: enable_proc_def lock_inv_log)
qed

lemma disable_proc_inv:
  assumes "lock_inv s"
  shows "lock_inv (disable_proc i s)"
proof (cases "mAfwControlId s = i")
  case True
  show ?thesis
    by (rule lock_inv_now [OF assms])
      (use True in \<open>auto simp: disable_proc_def Let_def lock_coming_def lock_wanted_def config_fields\<close>)
next
  case False
  with assms show ?thesis by (simp add: disable_proc_def lock_inv_log)
qed

lemma nfw_proc_inv: "lock_inv s \<Longrightarrow> mSupportNfwControl s \<Longrightarrow> lock_inv (nfw_proc enable s)"
  by (erule lock_inv_now) (auto simp: nfw_proc_def Let_def lock_coming_def lock_wanted_def config_fields)

lemma integration_frame:
  "lock_frame s (setConstrainedTunc b t w i s)" "lock_frame s (setPositionAssistedClockEstimator b i s)"
  "lock_frame s (configRobustLocation i b e s)"
  by (simp_all add: lock_frame_def log_of_def setConstrainedTunc_def setPositionAssistedClockEstimator_def configRobustLocation_def)

lemma up_config_lock: "config_lock (up_config a s) (up_config a s) = Some (lock_wanted s)"
  by (auto simp: up_config_def config_lock_def lock_wanted_def Let_def flag_bits bit_simps)

lemma log_nil: "log_of [] s = s"
  by (simp add: log_of_def)

lemma setConfig_shape:
  obtains s3 j evs where "lock_frame s s3" "setConfig a s = log_of evs (send_job j s3)"
    "last_some (map event_lock evs) = None" "job_lock j = Some (lock_wanted s3)"
proof -
  let ?s1 = "set_nmea_mask a s"
  let ?s2 = "set_server (Some (SUPL_HOST (cs_conf ?s1))) (SUPL_PORT (cs_conf ?s1)) LOC_AGPS_SUPL_SERVER ?s1"
  let ?s3 = "set_server (Some (MO_SUPL_HOST (cs_conf ?s2))) (MO_SUPL_PORT (cs_conf ?s2)) LOC_AGPS_MO_SUPL_SERVER ?s2"
  have f: "lock_frame s ?s3" by (intro lock_frame_trans [OF _ frame_server] frame_nmea)
  let ?j = "ConfigJob (cs_conf ?s3) (cs_sap ?s3) (mMoServerUrl (cs_servers ?s1)) (mMoServerUrl (cs_servers ?s3))
    (mServerUrl (cs_servers ?s3)) (up_config a ?s3)"
  let ?evs = "if mIsMeasCorrInterfaceOpen (send_job ?j ?s3) then [MeasCorrInit] else []"
  have evs: "setConfig a s = log_of ?evs (send_job ?j ?s3)" by (simp add: setConfig_def Let_def log_nil)
  show thesis by (rule that [OF f evs]) (simp_all add: up_config_lock)
qed

lemma setConfig_any:
  shows "lock_coming (setConfig a s) = Some (lock_wanted (setConfig a s))"
    and "cs_counter (setConfig a s) = cs_counter s" "cs_queue (setConfig a s) = cs_queue s"
      "cs_pending (setConfig a s) = cs_pending s"
proof -
  obtain s3 j evs where h: "lock_frame s s3" "setConfig a s = log_of evs (send_job j s3)"
    "last_some (map event_lock evs) = None" "job_lock j = Some (lock_wanted s3)" by (rule setConfig_shape)
  have "lock_wanted (log_of evs (send_job j s3)) = lock_wanted s3" by (simp add: lock_wanted_def log_of_def send_job_def)
  then show "lock_coming (setConfig a s) = Some (lock_wanted (setConfig a s))"
    by (simp add: h lock_coming_log)
  show "cs_counter (setConfig a s) = cs_counter s" "cs_queue (setConfig a s) = cs_queue s"
      "cs_pending (setConfig a s) = cs_pending s"
    using lock_frame_others [OF h(1)] by (simp_all add: h(2) log_of_def send_job_def)
qed

lemma engine_up_inv:
  assumes "lock_inv s" "config_engine_up a s = Some s1"
  shows "lock_inv s1"
proof -
  let ?t = "log_of [BroadcastCapabilities] (s\<lparr>cs_known := True\<rparr>)"
  let ?c = "setConfig a ?t"
  let ?u = "log_of [EngineSv (SetBlacklistSv (mGnssSvIdConfig (cs_sv ?c))), SvTypeConfigUpdate, UpdateSystemPowerState,
    SecondaryBandConfigUpdate, InitCDFWService] ?c"
  have up: "lock_coming ?c = Some (lock_wanted ?c)" "cs_counter ?c = cs_counter s" "cs_queue ?c = cs_queue s"
    "cs_pending ?c = cs_pending s"
    using setConfig_any [of a ?t] by (simp_all add: log_of_def)
  then have "lock_inv ?u" using assms(1) by (subst lock_inv_log) (simp_all add: lock_inv_def)
  moreover have "lock_inv ((log_of [RestartSessions True] x)\<lparr>cs_queue := cs_queue x @ cs_pending x, cs_resent := True\<rparr>)"
    (is "lock_inv (?f x)") if "lock_inv x" for x
  proof -
    have "lock_coming (?f x) = lock_coming x" "lock_wanted (?f x) = lock_wanted x"
      by (simp_all add: lock_coming_def lock_wanted_def log_of_def)
    with that show ?thesis by (simp add: lock_inv_def log_of_def)
  qed
  ultimately show ?thesis using assms(2) by (auto simp: config_engine_up_def Let_def split: if_splits)
qed

lemma config_proc_inv:
  assumes "lock_inv s" "config_proc a m s = Some s1" "enable_ok m"
    "\<And>b. m = MsgControlNfwLocationAccess b \<Longrightarrow> mSupportNfwControl s"
  shows "lock_inv s1"
  using assms(2-)
  by (cases m) (auto simp: assms(1) update_proc_inv get_proc_inv enable_proc_inv disable_proc_inv nfw_proc_inv
      lock_inv_log engine_up_inv [OF assms(1)] lock_frame_inv [OF integration_frame(1)] lock_frame_inv [OF integration_frame(2)]
      lock_frame_inv [OF integration_frame(3)])

lemma generate_not_max: "generateSessionId c \<noteq> 0xFFFFFFFF"
  by (simp add: generateSessionId_def Let_def)

lemma generate_not_zero: "c \<noteq> 0xFFFFFFFF \<Longrightarrow> generateSessionId c \<noteq> 0"
  by (auto simp: generateSessionId_def Let_def add_eq_0_iff2)

lemma generate_funpow_max: "c \<noteq> 0xFFFFFFFF \<Longrightarrow> (generateSessionId ^^ n) c \<noteq> 0xFFFFFFFF"
  by (cases n) (simp_all add: generate_not_max)

lemma lock_inv_cong:
  assumes "lock_inv s" "cs_log s1 = cs_log s" "cs_jobs s1 = cs_jobs s" "cs_conf s1 = cs_conf s"
    "mAfwControlId s1 = mAfwControlId s" "mSupportNfwControl s1 = mSupportNfwControl s" "cs_known s1 = cs_known s"
    "cs_pending s1 = cs_pending s" "cs_counter s1 \<noteq> 0xFFFFFFFF" "list_all enable_ok (cs_queue s1)"
  shows "lock_inv s1"
proof -
  have "lock_coming s1 = lock_coming s" "lock_wanted s1 = lock_wanted s"
    using assms by (simp_all add: lock_coming_def lock_wanted_def)
  with assms show ?thesis by (simp add: lock_inv_def)
qed

lemma lock_inv_ok: "lock_inv s \<Longrightarrow> cs_counter s \<noteq> 0xFFFFFFFF \<and> list_all enable_ok (cs_queue s)"
  by (simp add: lock_inv_def)

lemma send_id_inv:
  assumes "lock_inv s" "send_id m s = (is, s1)" "\<And>i. i \<noteq> 0 \<Longrightarrow> enable_ok (m i)"
  shows "lock_inv s1"
  using assms lock_inv_ok [OF assms(1)]
  by (auto intro!: lock_inv_cong [OF assms(1)] simp: send_id_def Let_def send_config_msg_def generate_not_max generate_not_zero)

lemma send_ids_inv:
  assumes "lock_inv s" "send_ids n m s = (is, s1)" "\<And>is. enable_ok (m is)"
  shows "lock_inv s1"
  using assms lock_inv_ok [OF assms(1)]
  by (auto intro!: lock_inv_cong [OF assms(1)] simp: send_ids_def draw_config_ids_def Let_def send_config_msg_def generate_funpow_max
      split: if_splits)

lemma send_msg_inv: "lock_inv s \<Longrightarrow> enable_ok m \<Longrightarrow> lock_inv (send_config_msg m s)"
  using lock_inv_ok [of s] by (auto intro: lock_inv_cong simp: send_config_msg_def)

lemma job_inv:
  assumes "lock_inv s" "cs_jobs s = j # js" "job_proc e j (s\<lparr>cs_jobs := js\<rparr>) = Some s1"
  shows "lock_inv s1"
proof -
  note h = job_proc_lock [OF assms(3)]
  obtain ms where ms: "cs_queue s1 = cs_queue s @ ms" "list_all (\<lambda>m. \<exists>errs ids. m = CollectiveResponse errs ids) ms"
    using h(4) by auto
  then have "list_all enable_ok ms" by (auto simp: list_all_iff)
  moreover have "lock_coming s1 = lock_coming s"
    using h(2,3) assms(2) by (simp add: lock_coming_def later_assoc)
  moreover have "lock_wanted s1 = lock_wanted s" using same_lock_wanted [OF h(1)] by (simp add: lock_wanted_def)
  ultimately show ?thesis using assms(1) h(1) ms(1) by (simp add: lock_inv_def same_lock_fields_def)
qed

text \<open>
  The precondition of the operations: a message about the access of other applications to the location
  is processed only while that control is supported. The command looks at this, but on another thread.
\<close>

fun config_ok :: "config_op \<Rightarrow> config_state \<Rightarrow> bool" where
  "config_ok (RunAdapter a) s \<longleftrightarrow>
     (case cs_queue s of MsgControlNfwLocationAccess _ # _ \<Rightarrow> mSupportNfwControl s | _ \<Rightarrow> True)"
| "config_ok _ s \<longleftrightarrow> True"

lemma config_step_inv:
  assumes "lock_inv s" "config_ok op s" "config_step op s = Some (out, s1)"
  shows "lock_inv s1"
proof (cases op)
  case (RunAdapter a)
  show ?thesis
  proof (cases "cs_queue s")
    case Nil
    with assms RunAdapter show ?thesis by simp
  next
    case (Cons m ms)
    have "lock_inv (s\<lparr>cs_queue := ms\<rparr>)" "enable_ok m"
      using lock_inv_ok [OF assms(1)] Cons by (auto intro: lock_inv_cong [OF assms(1)])
    moreover have "m = MsgControlNfwLocationAccess b \<Longrightarrow> mSupportNfwControl (s\<lparr>cs_queue := ms\<rparr>)" for b
      using assms(2) RunAdapter Cons by simp
    ultimately show ?thesis using assms(3) RunAdapter Cons config_proc_inv by auto
  qed
next
  case (RunEngine e)
  with assms job_inv show ?thesis by (cases "cs_jobs s") auto
qed (use assms send_msg_inv send_id_inv [OF assms(1)] send_ids_inv [OF assms(1)] in \<open>auto split: if_splits\<close>)

lemma config_run_inv:
  "lock_inv s \<Longrightarrow> ops_ok config_ok config_step ops s \<Longrightarrow> run_ops config_step ops s = Some (outs, s1) \<Longrightarrow> lock_inv s1"
proof (induction ops arbitrary: s outs)
  case (Cons op ops)
  then obtain out s2 os where "config_step op s = Some (out, s2)" "run_ops config_step ops s2 = Some (os, s1)"
    by (auto split: option.splits prod.splits)
  with Cons.IH [of s2] Cons.prems config_step_inv show ?case by (auto split: option.splits)
qed simp

text \<open>The adapter after it was made and gps.conf was read.\<close>

definition config_start_state :: "gps_conf \<Rightarrow> sap_conf \<Rightarrow> u32 \<Rightarrow> config_state" where
  "config_start_state c p counter =
     \<lparr>cs_conf = c, cs_sap = p, cs_servers = \<lparr>mServerUrl = '':'', mMoServerUrl = []\<rparr>, cs_sv = sv_state_init,
      mAfwControlId = 0, mSupportNfwControl = True, cs_known = False, cs_pending = [], cs_resent = False, mNmeaMask = 0,
      mLocConfigInfo = \<lparr>tunc_isValid = False, tunc_enable = False, tuncThresholdMs = 0, tunc_energyBudget = 0,
        pace_isValid = False, pace_enable = False, robust_isValid = False, robust_enable = False, enableFor911 = False\<rparr>,
      mIsMeasCorrInterfaceOpen = False, cs_counter = counter, cs_queue = [], cs_jobs = [], cs_log = []\<rparr>"

text \<open>C2. Whatever commands come and however the two threads interleave: when the engine is known and its
jobs are done, the last lock it was told is the one of gps.conf while the control of other applications
is supported or location is disabled, and no lock once a configuration has ended that control and location is
enabled. The precondition is that a message about other applications is processed only while their
control is supported.\<close>

theorem gps_lock_follows:
  assumes "run_ops config_step ops (config_start_state c p counter) = Some (outs, s)"
    and "ops_ok config_ok config_step ops (config_start_state c p counter)"
    and "counter \<noteq> 0xFFFFFFFF" and "cs_jobs s = []" and "cs_known s"
  shows "lock_told s = Some (if mSupportNfwControl s \<or> mAfwControlId s = 0 then GPS_LOCK (cs_conf s)
                             else GNSS_CONFIG_GPS_LOCK_NONE)"
proof -
  have "lock_inv (config_start_state c p counter)"
    using assms(3) by (simp add: lock_inv_def config_start_state_def lock_coming_def)
  from config_run_inv [OF this assms(2,1)] have "lock_coming s = Some (lock_wanted s)"
    using assms(5) by (auto simp: lock_inv_def)
  then show ?thesis using assms(4) by (simp add: lock_coming_def lock_told_def lock_wanted_def)
qed

definition sample_conf :: gps_conf where
  "sample_conf = \<lparr>SUPL_VER = 0x20000, SUPL_MODE = 3, SUPL_ES = 0, LPP_PROFILE = 0, USE_EMERGENCY_PDN_FOR_EMERGENCY_SUPL = 0,
     NMEA_PROVIDER = 0, GPS_LOCK = 3, A_GLONASS_POS_PROTOCOL_SELECT = 0, AGPS_CONFIG_INJECT = 0, LPPE_CP_TECHNOLOGY = 0,
     LPPE_UP_TECHNOLOGY = 0, SUPL_HOST = [], SUPL_PORT = 0, MO_SUPL_HOST = [], MO_SUPL_PORT = 0,
     CONSTRAINED_TIME_UNCERTAINTY_ENABLED = 0, CONSTRAINED_TIME_UNCERTAINTY_THRESHOLD = 0,
     CONSTRAINED_TIME_UNCERTAINTY_ENERGY_BUDGET = 0, POSITION_ASSISTED_CLOCK_ESTIMATOR_ENABLED = 0,
     NMEA_TAG_BLOCK_GROUPING_ENABLED = 0\<rparr>"

definition sample_sap :: sap_conf where
  "sample_sap = \<lparr>GYRO_BIAS_RANDOM_WALK_VALID = 0, GYRO_BIAS_RANDOM_WALK = 0, SENSOR_ACCEL_BATCHES_PER_SEC = 2,
     SENSOR_ACCEL_SAMPLES_PER_BATCH = 5, SENSOR_GYRO_BATCHES_PER_SEC = 2, SENSOR_GYRO_SAMPLES_PER_BATCH = 5,
     SENSOR_ACCEL_BATCHES_PER_SEC_HIGH = 4, SENSOR_ACCEL_SAMPLES_PER_BATCH_HIGH = 25, SENSOR_GYRO_BATCHES_PER_SEC_HIGH = 4,
     SENSOR_GYRO_SAMPLES_PER_BATCH_HIGH = 25, SENSOR_CONTROL_MODE = 0, SENSOR_ALGORITHM_CONFIG_MASK = 0,
     ACCEL_RANDOM_WALK_SPECTRAL_DENSITY_VALID = 0, ACCEL_RANDOM_WALK_SPECTRAL_DENSITY = 0,
     ANGLE_RANDOM_WALK_SPECTRAL_DENSITY_VALID = 0, ANGLE_RANDOM_WALK_SPECTRAL_DENSITY = 0,
     RATE_RANDOM_WALK_SPECTRAL_DENSITY_VALID = 0, RATE_RANDOM_WALK_SPECTRAL_DENSITY = 0,
     VELOCITY_RANDOM_WALK_SPECTRAL_DENSITY_VALID = 0, VELOCITY_RANDOM_WALK_SPECTRAL_DENSITY = 0\<rparr>"

definition sample_adapter :: adapter_env where
  "sample_adapter = \<lparr>ae_env = sample_env (SetGpsLock 9), ae_convertSuplVersion = (\<lambda>_. 2), ae_convertLppeCp = (\<lambda>_. 0),
     ae_convertLppeUp = (\<lambda>_. 0), ae_nmea_client = False, ae_engine_enabled = True\<rparr>"

text \<open>The engine comes up and location is enabled.\<close>

definition sample_ops :: "config_op list" where
  "sample_ops = [HandleEngineUp, RunAdapter sample_adapter, RunEngine (sample_env (SetGpsLock 9)), EnableCommand 0,
     RunAdapter sample_adapter, RunEngine (sample_env (SetGpsLock 9))]"

theorem gps_lock_follows_witness:
  "lock_told (snd (the (run_ops config_step sample_ops (config_start_state sample_conf sample_sap 0)))) = Some 2"
proof -
  let ?r = "run_ops config_step sample_ops (config_start_state sample_conf sample_sap 0)"
  have "?r \<noteq> None \<and> cs_jobs (snd (the ?r)) = [] \<and> cs_known (snd (the ?r)) \<and> mSupportNfwControl (snd (the ?r)) \<and>
    GPS_LOCK (cs_conf (snd (the ?r))) = 2"
    by code_simp
  moreover have ok: "ops_ok config_ok config_step sample_ops (config_start_state sample_conf sample_sap 0)"
    by code_simp
  ultimately obtain outs s where s: "?r = Some (outs, s)" "cs_jobs s = []" "cs_known s" "mSupportNfwControl s"
      "GPS_LOCK (cs_conf s) = 2"
    by auto
  from gps_lock_follows [OF s(1) ok _ s(2,3)] s show ?thesis by simp
qed

text \<open>
  Without the precondition it fails: the command finds the control of other applications supported, a
  configuration that ends this is processed, and then the message locks an engine that should be free.
\<close>

definition race_ops :: "config_op list" where
  "race_ops = sample_ops @
     [UpdateConfigCommand (zero_config\<lparr>gc_flags := 1, gc_gpsLock := 3\<rparr>), NfwControlCommand False,
      RunAdapter sample_adapter, RunAdapter sample_adapter,
      RunEngine (sample_env (SetGpsLock 9)), RunEngine (sample_env (SetGpsLock 9))]"

lemma nfw_race:
  "let s = snd (the (run_ops config_step race_ops (config_start_state sample_conf sample_sap 0)))
   in cs_jobs s = [] \<and> mAfwControlId s \<noteq> 0 \<and> \<not> mSupportNfwControl s \<and> lock_told s = Some 3"
  by code_simp

section \<open>Identifiers\<close>

lemma count_flags_bits: "count_flags flags = card {k. bit flags k}"
proof (induction flags rule: count_flags.induct)
  case (1 flags)
  show ?case
  proof (cases "flags > 0")
    case False
    then have "flags = 0" by (simp add: word_greater_zero_iff)
    then show ?thesis by (simp add: count_flags.simps)
  next
    case True
    have fin: "finite {k. bit (w :: u32) k}" for w by (rule finite_subset [of _ "{..<32}"]) (auto dest: bit_imp_le_length)
    have s: "{k. bit flags k} = (if bit flags 0 then {0} else {}) \<union> Suc ` {k. bit (drop_bit 1 flags) k}"
      by (auto simp: bit_drop_bit_eq image_iff) (metis not0_implies_Suc)+
    have "card {k. bit flags k} = (if bit flags 0 then 1 else 0) + card {k. bit (drop_bit 1 flags) k}"
      unfolding s using fin [of "drop_bit 1 flags"] by (subst card_Un_disjoint) (auto simp: card_image)
    moreover have "flags AND 1 \<noteq> 0 \<longleftrightarrow> bit flags 0" using need_bit [of 0 flags] by simp
    ultimately show ?thesis using True 1 [OF True] by (subst count_flags.simps) simp
  qed
qed

text \<open>A command with flags draws one identifier for each flag, and they differ.\<close>

lemma update_ids_length:
  assumes "config_step (UpdateConfigCommand config) s = Some (ids, s1)"
  shows "length ids = card {k. bit (gc_flags config) k}"
  using assms by (auto simp: send_ids_def draw_config_ids_def Let_def count_flags_bits split: if_splits)

text \<open>
  The settings that are asked for one by one all use the identifier after the last one with an error:
  with two of them one identifier is answered twice and one never.
\<close>

lemma get_same_identifier:
  "get_answers True 0x3001 [5, 6, 7] =
     ([GetRobustLocationConfig 6, GetMinGpsWeek 6], [LOCATION_ERROR_NOT_SUPPORTED])"
  by (simp add: get_answers_def not_supported_def ask_if_def flag_bits Let_def)

text \<open>When an engine comes up it is told the settings of the integration API again.\<close>

lemma config_job_retells:
  assumes "job_proc e (ConfigJob c p oldMo mo url r) s = Some s1"
  shows "\<exists>calls. cs_log s1 = cs_log s @ map EngineCall calls \<and>
    SetConstrainedTuncMode (tunc_enable (mLocConfigInfo s1)) (tuncThresholdMs (mLocConfigInfo s1))
      (tunc_energyBudget (mLocConfigInfo s1)) \<in> set calls \<and>
    SetPositionAssistedClockEstimatorMode (pace_enable (mLocConfigInfo s1)) \<in> set calls \<and>
    (robust_isValid (mLocConfigInfo s) \<longrightarrow>
       ConfigRobustLocation (robust_enable (mLocConfigInfo s)) (enableFor911 (mLocConfigInfo s)) \<in> set calls) \<and>
    (tunc_isValid (mLocConfigInfo s) \<longrightarrow> tunc_enable (mLocConfigInfo s1) = tunc_enable (mLocConfigInfo s) \<and>
       tuncThresholdMs (mLocConfigInfo s1) = tuncThresholdMs (mLocConfigInfo s)) \<and>
    (pace_isValid (mLocConfigInfo s) \<longrightarrow> pace_enable (mLocConfigInfo s1) = pace_enable (mLocConfigInfo s))"
proof -
  obtain u where u: "gnssUpdateConfig e (AGPS_CONFIG_INJECT (cs_conf s)) oldMo mo url r r 0 (cs_sv s) = Some u"
    and s1: "s1 = other_settings e c p (log_of (map EngineCall (ur_calls u)) (s\<lparr>cs_sv := ur_sv u\<rparr>))"
    using assms by (auto split: option.splits)
  define i where "i = first_pace c (first_tunc e c (mLocConfigInfo s))"
  have "mLocConfigInfo s1 = i" by (simp add: s1 other_settings_def log_of_def Let_def i_def)
  moreover have "robust_isValid i = robust_isValid (mLocConfigInfo s)" "robust_enable i = robust_enable (mLocConfigInfo s)"
    "enableFor911 i = enableFor911 (mLocConfigInfo s)"
    "tunc_isValid (mLocConfigInfo s) \<Longrightarrow> tunc_enable i = tunc_enable (mLocConfigInfo s) \<and>
       tuncThresholdMs i = tuncThresholdMs (mLocConfigInfo s)"
    "pace_isValid (mLocConfigInfo s) \<Longrightarrow> pace_enable i = pace_enable (mLocConfigInfo s)"
    by (auto simp: i_def first_pace_def first_tunc_def)
  moreover let ?cs = "ur_calls u @ (if nmea_mask c (en_debug_nmea e) \<noteq> 0 then [SetNMEATypes (nmea_mask c (en_debug_nmea e))] else []) @
      [SetConstrainedTuncMode (tunc_enable i) (tuncThresholdMs i) (tunc_energyBudget i),
       SetPositionAssistedClockEstimatorMode (pace_enable i)] @
      (if robust_isValid i then [ConfigRobustLocation (robust_enable i) (enableFor911 i)] else []) @
      sensor_properties p @ [sensor_control p]"
  have "cs_log s1 = cs_log s @ map EngineCall ?cs"
    by (simp add: s1 other_settings_def log_of_def Let_def i_def)
  ultimately show ?thesis by (intro exI [of _ ?cs]) simp
qed

end
