(* ===== verification/Spec2Isabelle.thy ===== *)
theory Spec2Isabelle
  imports Msg_Task Loc_Timer Agps Loc_Api Loc_Address Geofence_Cmds Batching_Trips Gnss_Dgnss_Run
    Gnss_Odcpi Gnss_Sv_Masks Gnss_Engine System_Networks Os_Framework Client_Lifecycle
    Client_Dicts Client_Control Log_Buffer Loc_Launcher
    Gnss_Ni_Runs Gnss_Config_Runs
begin

text \<open>
  A verification library for the location stack in this repository (a device tree for Qualcomm
  phones whose own program is the location service under gps/).

  How the program is put together. Clients (gps/location, gps/android) call adapters; an adapter
  (geofence, batching, GNSS) wraps each call in a message and sends it to the thread of its context
  (MsgTask over a message queue over a linked list); the thread processes messages one after the
  other, so the state of an adapter needs no locks. An adapter calls the engine through LocApiBase;
  the engine answers through a response object, which is again a message, and reports events, which
  LocApiBase distributes to the adapters in its array. Timers are kept in a heap per container and
  come back as messages as well.

  Theories and sources.
  \<^item> Loc_Prelude: machine integers, runs of operations (\<open>run_ops\<close>, \<open>ops_ok\<close>) and the locale
    \<open>refinement\<close>, the contract between an implementation and its specification.
  \<^item> Linked_List: gps/utils/linked_list.c, on an explicit memory. It refines a sequence.
  \<^item> Msg_Queue: gps/utils/msg_q.c. Critical sections are atomic; waiting, signals and spurious
    wake-ups are a step relation. No message is lost, reordered or forgotten by a waiter.
  \<^item> Msg_Task: gps/utils/MsgTask.cpp and LocThread.cpp. The thread deletes each message exactly once
    and ends when it is stopped.
  \<^item> Loc_Heap: gps/utils/LocHeap.cpp, with the sizes that steer its balance.
  \<^item> Loc_Timer: gps/utils/LocTimer.cpp. Client calls, the polling thread, messages and the steps of
    an expiration interleave; the one situation in which a deleted timer is used, with a run into it.
  \<^item> Agps: gps/gnss/Agps.cpp and the messages of GnssAdapter.cpp that drive it. The state machines of
    the data calls, with their subscribers.
  \<^item> Loc_Map: std::map as a sorted association list, with the laws of a map (locale \<open>finite_map\<close>)
    and the keys of sessions with their order.
  \<^item> Loc_Adapter: gps/core/LocAdapterBase.cpp and parts of ContextBase.cpp. Clients, identifiers of
    sessions, event masks and capabilities.
  \<^item> Loc_Api: gps/core/LocApiBase.cpp. The array of adapters, the messages that open and close the
    engine, and the distribution of events, which refine a set of registered adapters.
  \<^item> Loc_Address: the two text conversions of LocApiBase.cpp.
  \<^item> Geofence, Geofence_Inv, Geofence_Maps, Geofence_Cmds: gps/geofence/GeofenceAdapter.cpp: the model;
    exactly when the arrays of commands are used safely; when the two maps agree, and that breaches reach
    the right clients; what commands answer and do.
  \<^item> Batching, Batching_Events, Batching_Trips: gps/batching/BatchingAdapter.cpp: the model; exactly when the
    adapter is registered for the batch-full event, and how it misses it; sessions and trips.
  \<^item> Gnss_Dgnss, Gnss_Dgnss_Run: the differential corrections of gps/gnss/GnssAdapter.cpp, and when
    their stream runs in the runs of Gnss_Sessions, with the three messages that leave it on.
  \<^item> Gnss_Odcpi: the requests of the modem for positions, with their timer, of the same file.
  \<^item> Gnss_Ni, Gnss_Ni_Runs: the requests of the network in the same file, with the threads that wait for
    answers, as a step relation: none is lost, all end, answers belong to their questions; and the races.
  \<^item> Gnss_Config, Gnss_Config_Runs: the configuration of the engine in the same file: where the errors of an
    update stand; the commands, with the thread of the adapter and that of the engine, and the lock that
    the engine has in the end.
  \<^item> Gnss_Sv_Config, Gnss_Sv_Masks: the configuration of satellites and constellations, as lists and
    as masks; what the engine is told.
  \<^item> Gnss_Tracking, Gnss_Sessions, Gnss_Multiplex, Gnss_Engine: the tracking sessions of the GNSS
    adapter: the model, in which the engine answers its requests in any order; the power state they
    report, each change once (relations that all actions obey, locale \<open>action_relation\<close>); how sessions by time share one session of the engine; that over whole runs the
    engine is asked for what the sessions need.
  \<^item> System_Status, System_Networks: gps/core/SystemStatus.cpp and SystemStatus.h, with the data items of
    gps/core/data-items: the history of each kind, and the table of connected networks, for
    every type and handle that can be reported.
  \<^item> Loc_Set_Map: gps/utils/LocUnorderedSetMap.h, with its contract as a relation (locale \<open>relation_map\<close>).
  \<^item> Os_Observer, Os_Subscriptions, Os_Framework: gps/core/SystemStatusOsObserver.cpp: the model; who is
    subscribed, and who is told of the items the cache says have changed; what the framework is asked, with
    the items asked for only once (\<open>requestData\<close>).
  \<^item> Client_Api, Client_Lifecycle: gps/location/LocationAPI.cpp: the entry of clients; when they are
    deleted and when the framework library runs.
  \<^item> Client_Base, Client_Dicts, Client_Control: gps/location/LocationAPIClientBase.cpp and its header: the
    base class of clients with its queues of requests; that its dictionaries translate identifiers
    exactly; the control client with the configuration that it compares.

  \<^item> Log_Buffer: gps/utils/SkipList.h and LogBuffer.cpp. The list with a chain per level refines a plain
    list; the buffer keeps the newest lines of each level.
  \<^item> Loc_Text, Loc_Config, Loc_Launcher: gps/utils/loc_misc_utils.cpp, loc_log.cpp and loc_cfg.cpp: text
    utilities with the functions of the C library they use; the reader of configuration files; the
    list of processes that the launcher starts.

  How state and operations correspond to the code. A class is a record with the names of its
  members; a member function is a definition with its name (with a prefix where two classes share a
  name); a local message class is a constructor, and its \<open>proc\<close> a definition or a clause of the
  function that processes messages. A lambda given to the engine is a constructor that lists what
  the lambda captures. What other threads and the engine do at any time (calls of clients, answers
  with any error and, from the engine, in any order, reports) are the operations of a step function; a run is a list of them, so every
  interleaving at the granularity of messages is covered. Machine integers are words of their
  width. Errors are values. A step is None where the code has undefined behaviour (the use of
  released memory, an iterator that is the end of its map).

  What the lemmas show. Invariants of all reachable states (memory safety, consistency of maps,
  masks and state machines), refinements of small specifications, exact answers of commands,
  liveness of queues and data calls, bounds, and round trips. Where the code does something else than
  it means to, the property states exactly when it holds, and a concrete run shows the exception: these are
  theorems too.

  Bounds and termination. Functions recurse on lists, trees or counters; no fuel is used. Where a
  property needs that a counter does not overflow, this is a hypothesis with a witness.

  Not modelled. The rest of GnssAdapter (commands of the integration API that only call the engine,
  reports and NMEA), the debug
  NMEA of SystemStatus, loc_nmea, the HIDL and C++ client interfaces, LocIpc,
  the synergy interfaces under location/ (they copy structures to an
  interface whose other side is not in the repository), and the device configuration, scripts and
  test programs. Logging, allocation failure in C++ (operator new throws) and the timing of threads
  are not modelled anywhere.
\<close>

end
